(* ===== verification/Os_Prelude.thy ===== *)
theory Os_Prelude
  imports Main "HOL-Library.Word" "HOL-Library.Monad_Syntax"
begin

text \<open>
  Shared ground of the development: the machine types of \<^verbatim>\<open>src/ffi/prelude.h\<close>, the
  collections of rewrite rules the component theories fill, and generic facts on options,
  lists and words.

  Effects are explicit state passing in the option monad (the do notation of
  \<^verbatim>\<open>Monad_Syntax\<close> over \<open>Option.bind\<close>): \<open>None\<close> is a run that has no defined result,
  because the code would dereference a null or dangling pointer or would not return.
\<close>

section \<open>Machine types\<close>

type_synonym u8 = "8 word"
type_synonym u16 = "16 word"
type_synonym u32 = "32 word"
type_synonym TickType = "32 word"

text \<open>Field rules of the list store, and frame rules of the kernel steps.\<close>

named_theorems store_simps
named_theorems frame_simps

section \<open>Options\<close>

lemma bind_SomeD:
  "Option.bind m f = Some y \<Longrightarrow> \<exists>x. m = Some x \<and> f x = Some y"
  by (cases m) auto

lemma bind_SomeE [elim!]:
  assumes "Option.bind m f = Some y"
  obtains x where "m = Some x" and "f x = Some y"
  using assms by (cases m) auto

section \<open>Lists\<close>

lemma distinct_split_unique:
  assumes "distinct (ys @ x # zs)"
  shows "x \<notin> set ys" and "x \<notin> set zs"
  using assms by auto

lemma takeWhile_dropWhile_not_in:
  "x \<notin> set xs \<Longrightarrow> x \<notin> set (takeWhile P xs) \<and> x \<notin> set (dropWhile P xs)"
  by (meson set_dropWhileD set_takeWhileD)

lemma remove1_split: "x \<notin> set ys \<Longrightarrow> remove1 x (ys @ x # zs) = ys @ zs"
  by (simp add: remove1_append)

lemma sorted_insert_after:
  assumes "sorted (map f xs)"
  shows "sorted (map f (takeWhile (\<lambda>y. f y \<le> (f x :: 'a :: linorder)) xs
                        @ x # dropWhile (\<lambda>y. f y \<le> f x) xs))"
  using assms
proof (induction xs)
  case Nil
  then show ?case by simp
next
  case (Cons a xs)
  show ?case
  proof (cases "f a \<le> f x")
    case True
    have "\<forall>y \<in> set (takeWhile (\<lambda>y. f y \<le> f x) xs @ x # dropWhile (\<lambda>y. f y \<le> f x) xs). f a \<le> f y"
      using Cons.prems True by (auto dest: set_takeWhileD set_dropWhileD)
    moreover have "sorted (map f (takeWhile (\<lambda>y. f y \<le> f x) xs @ x # dropWhile (\<lambda>y. f y \<le> f x) xs))"
      using Cons by simp
    ultimately show ?thesis using True by auto
  next
    case False
    then have "f x \<le> f y" if "y \<in> set (a # xs)" for y
      using Cons.prems that by (auto intro: order_trans)
    then show ?thesis using False Cons.prems by auto
  qed
qed

section \<open>Words\<close>

lemma of_nat_Suc_word: "(of_nat (Suc n) :: 'a :: len word) = of_nat n + 1"
  by (simp add: add.commute)

lemma unat_of_nat32: "n < 2 ^ 32 \<Longrightarrow> unat (of_nat n :: u32) = n"
  by (simp add: unsigned_of_nat take_bit_nat_eq_self)

lemma of_nat_eq_0_word32: "n < 2 ^ 32 \<Longrightarrow> (of_nat n :: u32) = 0 \<longleftrightarrow> n = 0"
  by (simp add: word_unat_eq_iff unsigned_of_nat take_bit_nat_eq_self)

lemma sint_small:
  assumes "uint (x :: u32) < 2 ^ 31"
  shows "sint x = uint x"
proof -
  have "- (2 ^ 31) \<le> uint x" by (rule order_trans[OF _ uint_ge_0]) simp
  then have "signed_take_bit 31 (uint x) = uint x" using assms by (rule signed_take_bit_int_eq_self)
  then show ?thesis by (simp add: sint_uint)
qed

lemma sint_unat_small:
  assumes "unat (x :: u32) < 2 ^ 31"
  shows "sint x = int (unat x)"
proof -
  have "int (unat x) < int (2 ^ 31)" using assms by (simp only: of_nat_less_iff)
  then have "uint x < 2 ^ 31" by simp
  then show ?thesis by (simp add: sint_small)
qed

lemma word32_le_max: "(v :: u32) \<le> 0xFFFFFFFF"
proof -
  have "(0xFFFFFFFF :: u32) = - 1" by simp
  then show ?thesis by (simp only: word_order.extremum)
qed

lemma word32_not_max_less: "(v :: u32) \<noteq> 0xFFFFFFFF \<Longrightarrow> v < 0xFFFFFFFF"
  using word32_le_max[of v] by (simp add: order_less_le)

end
