(* ===== verification/Os_List.thy ===== *)
theory Os_List
  imports Os_Prelude
begin

text \<open>
  The circular doubly linked list of \<^verbatim>\<open>src/ffi/os/list.c\<close> and \<^verbatim>\<open>list.h\<close>, at the level
  of its pointers. A list store holds every \<open>LinkedListNode\<close> and every \<open>LinkedList\<close> of the
  program, the first indexed by item names, the second by list names. A node pointer is either
  the address of an item or the address of the end marker embedded in a list; writing through
  a pointer updates the store, so aliasing between lists is the code's.
\<close>

section \<open>Data: list.h\<close>

datatype ('l, 'i) node_ptr = ListEnd 'l | Item 'i

record ('l, 'i, 'o) LinkedListNode =
  xItemValue :: u32
  pxNext :: "('l, 'i) node_ptr"
  pxPrevious :: "('l, 'i) node_ptr"
  pvOwner :: 'o
  pxContainer :: "'l option"

record ('l, 'i) MiniLinkedListNode =
  mini_xItemValue :: u32
  mini_pxNext :: "('l, 'i) node_ptr"
  mini_pxPrevious :: "('l, 'i) node_ptr"

record ('l, 'i) LinkedList =
  uxNumberOfItems :: u32
  pxIndex :: "('l, 'i) node_ptr"
  xListEnd :: "('l, 'i) MiniLinkedListNode"

record ('l, 'i, 'o) list_store =
  node_at :: "'i \<Rightarrow> ('l, 'i, 'o) LinkedListNode"
  list_at :: "'l \<Rightarrow> ('l, 'i) LinkedList"

definition portMAX_DELAY :: u32 where
  "portMAX_DELAY = 0xFFFFFFFF"

section \<open>Reads and writes through a node pointer\<close>

text \<open>
  The mini node of a list starts with the same three fields as a full node, so the code reads
  and writes these three through a \<open>LinkedListNode *\<close> whichever of the two it points to. The
  other two fields lie outside a mini node: reading the owner through the end marker is no
  defined read.
\<close>

fun get_value :: "('l, 'i, 'o) list_store \<Rightarrow> ('l, 'i) node_ptr \<Rightarrow> u32" where
  "get_value h (Item i) = xItemValue (node_at h i)"
| "get_value h (ListEnd l) = mini_xItemValue (xListEnd (list_at h l))"

fun get_next :: "('l, 'i, 'o) list_store \<Rightarrow> ('l, 'i) node_ptr \<Rightarrow> ('l, 'i) node_ptr" where
  "get_next h (Item i) = pxNext (node_at h i)"
| "get_next h (ListEnd l) = mini_pxNext (xListEnd (list_at h l))"

fun get_prev :: "('l, 'i, 'o) list_store \<Rightarrow> ('l, 'i) node_ptr \<Rightarrow> ('l, 'i) node_ptr" where
  "get_prev h (Item i) = pxPrevious (node_at h i)"
| "get_prev h (ListEnd l) = mini_pxPrevious (xListEnd (list_at h l))"

fun get_owner :: "('l, 'i, 'o) list_store \<Rightarrow> ('l, 'i) node_ptr \<Rightarrow> 'o option" where
  "get_owner h (Item i) = Some (pvOwner (node_at h i))"
| "get_owner h (ListEnd l) = None"

definition upd_node :: "('l, 'i, 'o) list_store \<Rightarrow> 'i
    \<Rightarrow> (('l, 'i, 'o) LinkedListNode \<Rightarrow> ('l, 'i, 'o) LinkedListNode) \<Rightarrow> ('l, 'i, 'o) list_store" where
  "upd_node h i f = h\<lparr>node_at := (node_at h)(i := f (node_at h i))\<rparr>"

definition upd_list :: "('l, 'i, 'o) list_store \<Rightarrow> 'l
    \<Rightarrow> (('l, 'i) LinkedList \<Rightarrow> ('l, 'i) LinkedList) \<Rightarrow> ('l, 'i, 'o) list_store" where
  "upd_list h l f = h\<lparr>list_at := (list_at h)(l := f (list_at h l))\<rparr>"

fun set_next :: "('l, 'i, 'o) list_store \<Rightarrow> ('l, 'i) node_ptr \<Rightarrow> ('l, 'i) node_ptr
    \<Rightarrow> ('l, 'i, 'o) list_store" where
  "set_next h (Item i) q = upd_node h i (\<lambda>n. n\<lparr>pxNext := q\<rparr>)"
| "set_next h (ListEnd l) q = upd_list h l (\<lambda>x. x\<lparr>xListEnd := (xListEnd x)\<lparr>mini_pxNext := q\<rparr>\<rparr>)"

fun set_prev :: "('l, 'i, 'o) list_store \<Rightarrow> ('l, 'i) node_ptr \<Rightarrow> ('l, 'i) node_ptr
    \<Rightarrow> ('l, 'i, 'o) list_store" where
  "set_prev h (Item i) q = upd_node h i (\<lambda>n. n\<lparr>pxPrevious := q\<rparr>)"
| "set_prev h (ListEnd l) q =
     upd_list h l (\<lambda>x. x\<lparr>xListEnd := (xListEnd x)\<lparr>mini_pxPrevious := q\<rparr>\<rparr>)"

section \<open>Access macros: list.h\<close>

definition listSET_LIST_ITEM_OWNER :: "'i \<Rightarrow> 'o \<Rightarrow> ('l, 'i, 'o) list_store \<Rightarrow> ('l, 'i, 'o) list_store" where
  "listSET_LIST_ITEM_OWNER i own h = upd_node h i (\<lambda>n. n\<lparr>pvOwner := own\<rparr>)"

definition listSET_LIST_ITEM_VALUE :: "'i \<Rightarrow> u32 \<Rightarrow> ('l, 'i, 'o) list_store \<Rightarrow> ('l, 'i, 'o) list_store" where
  "listSET_LIST_ITEM_VALUE i v h = upd_node h i (\<lambda>n. n\<lparr>xItemValue := v\<rparr>)"

definition listGET_LIST_ITEM_VALUE :: "'i \<Rightarrow> ('l, 'i, 'o) list_store \<Rightarrow> u32" where
  "listGET_LIST_ITEM_VALUE i h = xItemValue (node_at h i)"

definition listGET_LIST_ITEM_OWNER :: "'i \<Rightarrow> ('l, 'i, 'o) list_store \<Rightarrow> 'o" where
  "listGET_LIST_ITEM_OWNER i h = pvOwner (node_at h i)"

definition listGET_ITEM_VALUE_OF_HEAD_ENTRY :: "'l \<Rightarrow> ('l, 'i, 'o) list_store \<Rightarrow> u32" where
  "listGET_ITEM_VALUE_OF_HEAD_ENTRY l h = get_value h (get_next h (ListEnd l))"

definition listGET_OWNER_OF_HEAD_ENTRY :: "'l \<Rightarrow> ('l, 'i, 'o) list_store \<Rightarrow> 'o option" where
  "listGET_OWNER_OF_HEAD_ENTRY l h = get_owner h (get_next h (ListEnd l))"

definition listLIST_IS_EMPTY :: "'l \<Rightarrow> ('l, 'i, 'o) list_store \<Rightarrow> bool" where
  "listLIST_IS_EMPTY l h \<longleftrightarrow> uxNumberOfItems (list_at h l) = 0"

definition listCURRENT_LIST_LENGTH :: "'l \<Rightarrow> ('l, 'i, 'o) list_store \<Rightarrow> u32" where
  "listCURRENT_LIST_LENGTH l h = uxNumberOfItems (list_at h l)"

definition listIS_CONTAINED_WITHIN :: "'l option \<Rightarrow> 'i \<Rightarrow> ('l, 'i, 'o) list_store \<Rightarrow> bool" where
  "listIS_CONTAINED_WITHIN l i h \<longleftrightarrow> pxContainer (node_at h i) = l"

definition listLIST_ITEM_CONTAINER :: "'i \<Rightarrow> ('l, 'i, 'o) list_store \<Rightarrow> 'l option" where
  "listLIST_ITEM_CONTAINER i h = pxContainer (node_at h i)"

definition listLIST_IS_INITIALISED :: "'l \<Rightarrow> ('l, 'i, 'o) list_store \<Rightarrow> bool" where
  "listLIST_IS_INITIALISED l h \<longleftrightarrow> mini_xItemValue (xListEnd (list_at h l)) = portMAX_DELAY"

text \<open>
  The macro that walks a list one entry per use: advance the index, skip the end marker, return
  the owner of the entry reached. On an empty list the entry reached is the end marker itself,
  which has no owner field.
\<close>

definition list_advance_index :: "'l \<Rightarrow> ('l, 'i, 'o) list_store \<Rightarrow> ('l, 'i, 'o) list_store" where
  "list_advance_index l h = upd_list h l (\<lambda>x. x\<lparr>pxIndex := get_next h (pxIndex x)\<rparr>)"

definition listGET_OWNER_OF_NEXT_ENTRY :: "'l \<Rightarrow> ('l, 'i, 'o) list_store
    \<Rightarrow> ('o \<times> ('l, 'i, 'o) list_store) option" where
  "listGET_OWNER_OF_NEXT_ENTRY l h =
     (let h1 = list_advance_index l h;
          h2 = (if pxIndex (list_at h1 l) = ListEnd l then list_advance_index l h1 else h1)
      in do { own \<leftarrow> get_owner h2 (pxIndex (list_at h2 l)); Some (own, h2) })"

section \<open>Operations: list.c\<close>

definition vListInitialise :: "'l \<Rightarrow> ('l, 'i, 'o) list_store \<Rightarrow> ('l, 'i, 'o) list_store" where
  "vListInitialise l h =
     (let h1 = upd_list h l (\<lambda>x. x\<lparr>pxIndex := ListEnd l\<rparr>);
          h2 = upd_list h1 l (\<lambda>x. x\<lparr>xListEnd := (xListEnd x)\<lparr>mini_xItemValue := portMAX_DELAY\<rparr>\<rparr>);
          h3 = set_next h2 (ListEnd l) (ListEnd l);
          h4 = set_prev h3 (ListEnd l) (ListEnd l)
      in upd_list h4 l (\<lambda>x. x\<lparr>uxNumberOfItems := 0\<rparr>))"

definition vListInitialiseItem :: "'i \<Rightarrow> ('l, 'i, 'o) list_store \<Rightarrow> ('l, 'i, 'o) list_store" where
  "vListInitialiseItem i h = upd_node h i (\<lambda>n. n\<lparr>pxContainer := None\<rparr>)"

text \<open>The last two statements both insertions share: record the container, count the item.\<close>

definition list_adopt :: "'l \<Rightarrow> 'i \<Rightarrow> ('l, 'i, 'o) list_store \<Rightarrow> ('l, 'i, 'o) list_store" where
  "list_adopt l i h =
     upd_list (upd_node h i (\<lambda>n. n\<lparr>pxContainer := Some l\<rparr>)) l
       (\<lambda>x. x\<lparr>uxNumberOfItems := uxNumberOfItems x + 1\<rparr>)"

definition vListInsertEnd :: "'l \<Rightarrow> 'i \<Rightarrow> ('l, 'i, 'o) list_store \<Rightarrow> ('l, 'i, 'o) list_store" where
  "vListInsertEnd l i h =
     (let idx = pxIndex (list_at h l);
          h1 = set_next h (Item i) idx;
          h2 = set_prev h1 (Item i) (get_prev h1 idx);
          h3 = set_next h2 (get_prev h2 idx) (Item i);
          h4 = set_prev h3 idx (Item i)
      in list_adopt l i h4)"

text \<open>
  The search loop of \<open>vListInsert\<close>. It ends only when the value after the iterator exceeds the
  inserted one; on a store whose links do not lead to such a value it never returns, so its
  result is optional.
\<close>

partial_function (option) insert_position ::
    "('l, 'i, 'o) list_store \<Rightarrow> u32 \<Rightarrow> ('l, 'i) node_ptr \<Rightarrow> ('l, 'i) node_ptr option" where
  "insert_position h v p =
     (if get_value h (get_next h p) \<le> v then insert_position h v (get_next h p) else Some p)"

definition vListInsert :: "'l \<Rightarrow> 'i \<Rightarrow> ('l, 'i, 'o) list_store \<Rightarrow> ('l, 'i, 'o) list_store option" where
  "vListInsert l i h =
     (let v = xItemValue (node_at h i) in
      do {
        it \<leftarrow> (if v = portMAX_DELAY then Some (get_prev h (ListEnd l))
               else insert_position h v (ListEnd l));
        let h1 = set_next h (Item i) (get_next h it);
        let h2 = set_prev h1 (get_next h1 (Item i)) (Item i);
        let h3 = set_prev h2 (Item i) it;
        let h4 = set_next h3 it (Item i);
        Some (list_adopt l i h4)
      })"

text \<open>Removing an item that is in no list reads the fields of a null list.\<close>

definition uxListRemove :: "'i \<Rightarrow> ('l, 'i, 'o) list_store \<Rightarrow> (u32 \<times> ('l, 'i, 'o) list_store) option" where
  "uxListRemove i h =
     do {
       l \<leftarrow> pxContainer (node_at h i);
       let h1 = set_prev h (get_next h (Item i)) (get_prev h (Item i));
       let h2 = set_next h1 (get_prev h1 (Item i)) (get_next h1 (Item i));
       let h3 = (if pxIndex (list_at h2 l) = Item i
                 then upd_list h2 l (\<lambda>x. x\<lparr>pxIndex := get_prev h2 (Item i)\<rparr>) else h2);
       let h4 = upd_node h3 i (\<lambda>n. n\<lparr>pxContainer := None\<rparr>);
       let h5 = upd_list h4 l (\<lambda>x. x\<lparr>uxNumberOfItems := uxNumberOfItems x - 1\<rparr>);
       Some (uxNumberOfItems (list_at h5 l), h5)
     }"

end
