(* ===== verification/Os_List_Refine.thy ===== *)
theory Os_List_Refine
  imports Os_List
begin

text \<open>
  Functional refinement of \<^verbatim>\<open>list.c\<close>: a well-formed list denotes the sequence of its items,
  and each operation is an operation on sequences. \<open>lists_ok D h\<close> says that the lists named in
  \<open>D\<close> are well-formed rings, share no item, and that the container field of an item names the
  list it is in. The interface the scheduler relies on is stated as a locale and interpreted on
  the pointer operations at the end.
\<close>

section \<open>Reading back what was written\<close>

lemma upd_node_sel [store_simps, simp]:
  "node_at (upd_node h i f) = (node_at h)(i := f (node_at h i))"
  "list_at (upd_node h i f) = list_at h"
  by (simp_all add: upd_node_def)

lemma upd_list_sel [store_simps, simp]:
  "list_at (upd_list h l f) = (list_at h)(l := f (list_at h l))"
  "node_at (upd_list h l f) = node_at h"
  by (simp_all add: upd_list_def)

lemma get_next_set_next [store_simps, simp]:
  "get_next (set_next h p q) r = (if r = p then q else get_next h r)"
  by (cases p; cases r) auto

lemma get_prev_set_prev [store_simps, simp]:
  "get_prev (set_prev h p q) r = (if r = p then q else get_prev h r)"
  by (cases p; cases r) auto

lemma get_prev_set_next [store_simps, simp]: "get_prev (set_next h p q) r = get_prev h r"
  by (cases p; cases r) auto

lemma get_next_set_prev [store_simps, simp]: "get_next (set_prev h p q) r = get_next h r"
  by (cases p; cases r) auto

lemma set_next_frame [store_simps, simp]:
  "get_value (set_next h p q) r = get_value h r"
  "xItemValue (node_at (set_next h p q) i) = xItemValue (node_at h i)"
  "pvOwner (node_at (set_next h p q) i) = pvOwner (node_at h i)"
  "pxContainer (node_at (set_next h p q) i) = pxContainer (node_at h i)"
  "pxIndex (list_at (set_next h p q) l) = pxIndex (list_at h l)"
  "uxNumberOfItems (list_at (set_next h p q) l) = uxNumberOfItems (list_at h l)"
  "mini_xItemValue (xListEnd (list_at (set_next h p q) l)) = mini_xItemValue (xListEnd (list_at h l))"
  by (cases p; cases r; auto)+

lemma set_prev_frame [store_simps, simp]:
  "get_value (set_prev h p q) r = get_value h r"
  "xItemValue (node_at (set_prev h p q) i) = xItemValue (node_at h i)"
  "pvOwner (node_at (set_prev h p q) i) = pvOwner (node_at h i)"
  "pxContainer (node_at (set_prev h p q) i) = pxContainer (node_at h i)"
  "pxIndex (list_at (set_prev h p q) l) = pxIndex (list_at h l)"
  "uxNumberOfItems (list_at (set_prev h p q) l) = uxNumberOfItems (list_at h l)"
  "mini_xItemValue (xListEnd (list_at (set_prev h p q) l)) = mini_xItemValue (xListEnd (list_at h l))"
  by (cases p; cases r; auto)+

text \<open>Updates that touch no link field.\<close>

lemma links_upd_node:
  assumes "pxNext (f (node_at h i)) = pxNext (node_at h i)"
    and "pxPrevious (f (node_at h i)) = pxPrevious (node_at h i)"
  shows "get_next (upd_node h i f) r = get_next h r" "get_prev (upd_node h i f) r = get_prev h r"
  using assms by (cases r; auto)+

lemma links_upd_list:
  assumes "mini_pxNext (xListEnd (f (list_at h l))) = mini_pxNext (xListEnd (list_at h l))"
    and "mini_pxPrevious (xListEnd (f (list_at h l))) = mini_pxPrevious (xListEnd (list_at h l))"
  shows "get_next (upd_list h l f) r = get_next h r" "get_prev (upd_list h l f) r = get_prev h r"
  using assms by (cases r; auto)+

lemma list_adopt_frame [store_simps, simp]:
  "get_next (list_adopt l i h) r = get_next h r"
  "get_prev (list_adopt l i h) r = get_prev h r"
  "get_value (list_adopt l i h) r = get_value h r"
  "xItemValue (node_at (list_adopt l i h) j) = xItemValue (node_at h j)"
  "pvOwner (node_at (list_adopt l i h) j) = pvOwner (node_at h j)"
  "pxContainer (node_at (list_adopt l i h) j) =
     (if j = i then Some l else pxContainer (node_at h j))"
  "pxIndex (list_at (list_adopt l i h) m) = pxIndex (list_at h m)"
  "uxNumberOfItems (list_at (list_adopt l i h) m) =
     (if m = l then uxNumberOfItems (list_at h m) + 1 else uxNumberOfItems (list_at h m))"
  "mini_xItemValue (xListEnd (list_at (list_adopt l i h) m)) = mini_xItemValue (xListEnd (list_at h m))"
  by (cases r; auto simp: list_adopt_def)+

text \<open>
  From here on the links are read by the rules above; \<open>links_eval\<close> evaluates them on concrete
  stores.
\<close>

lemmas links_eval = get_next.simps get_prev.simps set_next.simps set_prev.simps

declare links_eval [simp del]

section \<open>Chains of links\<close>

fun chain :: "('l, 'i, 'o) list_store \<Rightarrow> ('l, 'i) node_ptr \<Rightarrow> 'i list \<Rightarrow> ('l, 'i) node_ptr \<Rightarrow> bool" where
  "chain h p [] q \<longleftrightarrow> get_next h p = q \<and> get_prev h q = p"
| "chain h p (x # xs) q \<longleftrightarrow>
     get_next h p = Item x \<and> get_prev h (Item x) = p \<and> chain h (Item x) xs q"

lemma chain_append:
  "chain h p (xs @ y # ys) q \<longleftrightarrow> chain h p xs (Item y) \<and> chain h (Item y) ys q"
  by (induction xs arbitrary: p) auto

lemma chain_cong:
  assumes "\<And>r. r = p \<or> r \<in> Item ` set xs \<Longrightarrow> get_next h' r = get_next h r"
    and "\<And>r. r = q \<or> r \<in> Item ` set xs \<Longrightarrow> get_prev h' r = get_prev h r"
  shows "chain h' p xs q \<longleftrightarrow> chain h p xs q"
  using assms
proof (induction xs arbitrary: p)
  case Nil
  then show ?case by simp
next
  case (Cons x xs)
  have "chain h' (Item x) xs q \<longleftrightarrow> chain h (Item x) xs q"
    by (rule Cons.IH) (use Cons.prems in auto)
  with Cons.prems show ?case by simp
qed

lemma chain_first: "chain h p xs q \<Longrightarrow> get_next h p = (case xs of [] \<Rightarrow> q | x # _ \<Rightarrow> Item x)"
  by (cases xs) auto

lemma chain_last: "chain h p xs q \<Longrightarrow> get_prev h q = (if xs = [] then p else Item (last xs))"
  by (induction xs arbitrary: p) auto

definition last_ptr :: "('l, 'i) node_ptr \<Rightarrow> 'i list \<Rightarrow> ('l, 'i) node_ptr" where
  "last_ptr p xs = (if xs = [] then p else Item (last xs))"

definition first_ptr :: "'i list \<Rightarrow> ('l, 'i) node_ptr \<Rightarrow> ('l, 'i) node_ptr" where
  "first_ptr xs q = (if xs = [] then q else Item (hd xs))"

lemma chain_split:
  "chain h p (ys @ zs) q \<Longrightarrow>
     get_next h (last_ptr p ys) = first_ptr zs q \<and> get_prev h (first_ptr zs q) = last_ptr p ys"
proof (cases zs)
  case Nil
  assume "chain h p (ys @ zs) q"
  with Nil show ?thesis
    by (cases ys rule: rev_cases) (auto simp: last_ptr_def first_ptr_def chain_append)
next
  case (Cons z zs')
  assume "chain h p (ys @ zs) q"
  with Cons show ?thesis
    by (cases ys rule: rev_cases) (auto simp: last_ptr_def first_ptr_def chain_append)
qed

lemma last_ptr_simps [simp]:
  "last_ptr p [] = p" "last_ptr p (x # xs) = last_ptr (Item x) xs" "last_ptr p (xs @ [x]) = Item x"
  by (auto simp: last_ptr_def)

lemma first_ptr_simps [simp]:
  "first_ptr [] q = q" "first_ptr (x # xs) q = Item x"
  by (auto simp: first_ptr_def)

lemma last_ptr_cases: "last_ptr p xs = p \<and> xs = [] \<or> last_ptr p xs \<in> Item ` set xs \<and> xs \<noteq> []"
  by (auto simp: last_ptr_def)

lemma first_ptr_cases: "first_ptr xs q = q \<and> xs = [] \<or> first_ptr xs q \<in> Item ` set xs \<and> xs \<noteq> []"
  by (auto simp: first_ptr_def)

text \<open>Redirecting the end, or the start, of a chain.\<close>

lemma chain_new_end:
  assumes "chain h p ys s" and "get_next h' (last_ptr p ys) = t" and "get_prev h' t = last_ptr p ys"
    and "\<And>r. r = p \<or> r \<in> Item ` set ys \<Longrightarrow> r \<noteq> last_ptr p ys \<Longrightarrow> get_next h' r = get_next h r"
    and "\<And>r. r \<in> Item ` set ys \<Longrightarrow> get_prev h' r = get_prev h r"
    and "distinct ys" and "p \<notin> Item ` set ys"
  shows "chain h' p ys t"
  using assms
proof (induction ys arbitrary: p)
  case Nil
  then show ?case by simp
next
  case (Cons x xs)
  have "chain h' (Item x) xs t"
    by (rule Cons.IH) (use Cons.prems in auto)
  moreover have "p \<noteq> last_ptr (Item x) xs"
    using Cons.prems(7) last_ptr_cases[of "Item x" xs] by auto
  ultimately show ?case using Cons.prems by auto
qed

lemma chain_new_start:
  assumes "chain h s zs q" and "get_next h' p = first_ptr zs q" and "get_prev h' (first_ptr zs q) = p"
    and "\<And>r. r \<in> Item ` set zs \<Longrightarrow> get_next h' r = get_next h r"
    and "\<And>r. r = q \<or> r \<in> Item ` set zs \<Longrightarrow> r \<noteq> first_ptr zs q \<Longrightarrow> get_prev h' r = get_prev h r"
    and "distinct zs" and "q \<notin> Item ` set zs"
  shows "chain h' p zs q"
proof (cases zs)
  case Nil
  with assms show ?thesis by simp
next
  case (Cons z zs')
  have "chain h' (Item z) zs' q \<longleftrightarrow> chain h (Item z) zs' q"
    by (rule chain_cong) (use assms(4-7) Cons in auto)
  with assms Cons show ?thesis by simp
qed

lemma chain_parts:
  assumes "chain h p (ys @ zs) q"
  shows "chain h p ys (first_ptr zs q)" and "chain h (last_ptr p ys) zs q"
  using assms by (cases zs; cases ys rule: rev_cases; auto simp: chain_append)+

lemma chain_join:
  assumes "chain h p ys (first_ptr zs q)" and "chain h (last_ptr p ys) zs q"
  shows "chain h p (ys @ zs) q"
  using assms by (cases zs; cases ys rule: rev_cases) (auto simp: chain_append)

text \<open>Splicing one new item into a chain, and cutting one out, seen at the links only.\<close>

lemma chain_insert:
  assumes c: "chain h p (ys @ zs) q" and d: "distinct (ys @ zs)"
    and x: "x \<notin> set (ys @ zs)" "p \<noteq> Item x" "q \<noteq> Item x"
    and p: "p \<notin> Item ` set (ys @ zs)" and q: "q \<notin> Item ` set (ys @ zs)"
    and n: "\<And>r. get_next h' r = (if r = last_ptr p ys then Item x
                 else if r = Item x then first_ptr zs q else get_next h r)"
    and b: "\<And>r. get_prev h' r = (if r = first_ptr zs q then Item x
                 else if r = Item x then last_ptr p ys else get_prev h r)"
  shows "chain h' p (ys @ x # zs) q"
proof -
  have lx: "last_ptr p ys \<noteq> Item x" and fx: "first_ptr zs q \<noteq> Item x"
    using x last_ptr_cases[of p ys] first_ptr_cases[of zs q] by auto
  have "last_ptr p ys \<notin> Item ` set zs"
    using d p last_ptr_cases[of p ys] by auto
  then have ly: "\<And>r. r \<in> Item ` set zs \<Longrightarrow> r \<noteq> last_ptr p ys" by metis
  have "first_ptr zs q \<notin> Item ` set ys"
    using d q first_ptr_cases[of zs q] by auto
  then have fz: "\<And>r. r \<in> Item ` set ys \<Longrightarrow> r \<noteq> first_ptr zs q" by metis
  have "chain h' p ys (Item x)"
    by (rule chain_new_end[OF chain_parts(1)[OF c]]) (use n b lx fx d x p fz in auto)
  moreover have "chain h' (Item x) zs q"
    by (rule chain_new_start[OF chain_parts(2)[OF c]]) (use n b lx fx d x q ly in auto)
  ultimately show ?thesis by (simp add: chain_append)
qed

lemma chain_remove:
  assumes c: "chain h p (ys @ x # zs) q" and d: "distinct (ys @ x # zs)"
    and p: "p \<notin> Item ` set (ys @ x # zs)" and q: "q \<notin> Item ` set (ys @ x # zs)"
    and n: "\<And>r. get_next h' r = (if r = last_ptr p ys then first_ptr zs q else get_next h r)"
    and b: "\<And>r. get_prev h' r = (if r = first_ptr zs q then last_ptr p ys else get_prev h r)"
  shows "chain h' p (ys @ zs) q"
proof -
  have "last_ptr p ys \<notin> Item ` set zs"
    using d p last_ptr_cases[of p ys] by auto
  then have ly: "\<And>r. r \<in> Item ` set zs \<Longrightarrow> r \<noteq> last_ptr p ys" by metis
  have "first_ptr zs q \<notin> Item ` set ys"
    using d q first_ptr_cases[of zs q] by auto
  then have fz: "\<And>r. r \<in> Item ` set ys \<Longrightarrow> r \<noteq> first_ptr zs q" by metis
  have cy: "chain h p ys (Item x)" and cz: "chain h (Item x) zs q"
    using c by (simp_all add: chain_append)
  have "chain h' p ys (first_ptr zs q)"
    by (rule chain_new_end[OF cy]) (use n b d p fz in auto)
  moreover have "chain h' (last_ptr p ys) zs q"
    by (rule chain_new_start[OF cz]) (use n b d q ly in auto)
  ultimately show ?thesis by (rule chain_join)
qed

section \<open>Well-formed lists and the sequences they denote\<close>

definition is_list :: "('l, 'i, 'o) list_store \<Rightarrow> 'l \<Rightarrow> 'i list \<Rightarrow> bool" where
  "is_list h l xs \<longleftrightarrow>
     chain h (ListEnd l) xs (ListEnd l) \<and> distinct xs \<and> length xs < 2 ^ 32 \<and>
     uxNumberOfItems (list_at h l) = of_nat (length xs) \<and>
     (pxIndex (list_at h l) = ListEnd l \<or> pxIndex (list_at h l) \<in> Item ` set xs) \<and>
     mini_xItemValue (xListEnd (list_at h l)) = portMAX_DELAY \<and>
     (\<forall>i. pxContainer (node_at h i) = Some l \<longleftrightarrow> i \<in> set xs)"

text \<open>The items of a list, read by following the next links; it runs on any store.\<close>

fun walk :: "nat \<Rightarrow> ('l, 'i, 'o) list_store \<Rightarrow> ('l, 'i) node_ptr \<Rightarrow> 'i list" where
  "walk 0 h p = []"
| "walk (Suc n) h (ListEnd l) = []"
| "walk (Suc n) h (Item i) = i # walk n h (get_next h (Item i))"

definition list_items :: "('l, 'i, 'o) list_store \<Rightarrow> 'l \<Rightarrow> 'i list" where
  "list_items h l = walk (unat (uxNumberOfItems (list_at h l))) h (get_next h (ListEnd l))"

definition lists_ok :: "'l set \<Rightarrow> ('l, 'i, 'o) list_store \<Rightarrow> bool" where
  "lists_ok D h \<longleftrightarrow> (\<forall>l \<in> D. is_list h l (list_items h l))"

lemma walk_chain: "chain h p xs (ListEnd l) \<Longrightarrow> walk (length xs) h (get_next h p) = xs"
  by (induction xs arbitrary: p) auto

lemma list_items_unique: "is_list h l xs \<Longrightarrow> list_items h l = xs"
  by (auto simp: is_list_def list_items_def unat_of_nat32 dest!: walk_chain)

lemma lists_okD: "lists_ok D h \<Longrightarrow> l \<in> D \<Longrightarrow> is_list h l (list_items h l)"
  by (simp add: lists_ok_def)

lemma lists_okI:
  assumes "\<And>l. l \<in> D \<Longrightarrow> is_list h l (f l)"
  shows "lists_ok D h" and "\<And>l. l \<in> D \<Longrightarrow> list_items h l = f l"
  using assms list_items_unique unfolding lists_ok_def by metis+

lemma lists_ok_subset: "lists_ok D h \<Longrightarrow> E \<subseteq> D \<Longrightarrow> lists_ok E h"
  by (auto simp: lists_ok_def)

text \<open>Membership is what the container field says, so an item is in one list at most.\<close>

lemma container_iff:
  "lists_ok D h \<Longrightarrow> l \<in> D \<Longrightarrow> pxContainer (node_at h i) = Some l \<longleftrightarrow> i \<in> set (list_items h l)"
  by (auto dest!: lists_okD simp: is_list_def)

lemma items_disjoint:
  "lists_ok D h \<Longrightarrow> l \<in> D \<Longrightarrow> m \<in> D \<Longrightarrow> i \<in> set (list_items h l) \<Longrightarrow> i \<in> set (list_items h m) \<Longrightarrow> l = m"
  by (metis container_iff option.inject)

lemma items_distinct: "lists_ok D h \<Longrightarrow> l \<in> D \<Longrightarrow> distinct (list_items h l)"
  by (auto dest!: lists_okD simp: is_list_def)

lemma list_length:
  "lists_ok D h \<Longrightarrow> l \<in> D \<Longrightarrow> unat (uxNumberOfItems (list_at h l)) = length (list_items h l)"
  by (auto dest!: lists_okD simp: is_list_def unat_of_nat32)

lemma list_empty_iff:
  "lists_ok D h \<Longrightarrow> l \<in> D \<Longrightarrow> listLIST_IS_EMPTY l h \<longleftrightarrow> list_items h l = []"
  by (auto dest!: lists_okD simp: is_list_def listLIST_IS_EMPTY_def of_nat_eq_0_word32)

lemma is_list_frame:
  assumes "is_list h m xs"
    and "\<And>r. r = ListEnd m \<or> r \<in> Item ` set xs \<Longrightarrow> get_next h' r = get_next h r"
    and "\<And>r. r = ListEnd m \<or> r \<in> Item ` set xs \<Longrightarrow> get_prev h' r = get_prev h r"
    and "uxNumberOfItems (list_at h' m) = uxNumberOfItems (list_at h m)"
    and "pxIndex (list_at h' m) = pxIndex (list_at h m)"
    and "mini_xItemValue (xListEnd (list_at h' m)) = mini_xItemValue (xListEnd (list_at h m))"
    and "\<And>i. pxContainer (node_at h' i) = Some m \<longleftrightarrow> pxContainer (node_at h i) = Some m"
  shows "is_list h' m xs"
proof -
  have "chain h' (ListEnd m) xs (ListEnd m) \<longleftrightarrow> chain h (ListEnd m) xs (ListEnd m)"
    by (rule chain_cong) (use assms(2,3) in auto)
  with assms show ?thesis by (simp add: is_list_def)
qed

text \<open>Any change that leaves links, counts, indexes and containers alone keeps all lists.\<close>

lemma lists_ok_frame:
  assumes "lists_ok D h"
    and "\<And>r. get_next h' r = get_next h r" "\<And>r. get_prev h' r = get_prev h r"
    and "\<And>m. uxNumberOfItems (list_at h' m) = uxNumberOfItems (list_at h m)"
    and "\<And>m. m \<in> D \<Longrightarrow> pxIndex (list_at h' m) = ListEnd m
           \<or> pxIndex (list_at h' m) \<in> Item ` set (list_items h m)"
    and "\<And>m. mini_xItemValue (xListEnd (list_at h' m)) = mini_xItemValue (xListEnd (list_at h m))"
    and "\<And>i. pxContainer (node_at h' i) = pxContainer (node_at h i)"
  shows "lists_ok D h'" and "\<And>m. m \<in> D \<Longrightarrow> list_items h' m = list_items h m"
proof -
  have *: "is_list h' m (list_items h m)" if "m \<in> D" for m
  proof -
    have "chain h' (ListEnd m) (list_items h m) (ListEnd m)
        \<longleftrightarrow> chain h (ListEnd m) (list_items h m) (ListEnd m)"
      by (rule chain_cong) (use assms(2,3) in auto)
    with lists_okD[OF assms(1) that] assms(4-7) that show ?thesis by (simp add: is_list_def)
  qed
  from lists_okI[of D h' "list_items h", OF *]
  show "lists_ok D h'" and "\<And>m. m \<in> D \<Longrightarrow> list_items h' m = list_items h m" by auto
qed

section \<open>Insertion and removal\<close>

text \<open>
  \<open>spliced h h' l ys i zs\<close> collects what both insertions do to the store: item \<open>i\<close> goes between
  \<open>ys\<close> and \<open>zs\<close> in list \<open>l\<close>.
\<close>

definition spliced :: "('l, 'i, 'o) list_store \<Rightarrow> ('l, 'i, 'o) list_store \<Rightarrow> 'l \<Rightarrow> 'i list \<Rightarrow> 'i
    \<Rightarrow> 'i list \<Rightarrow> bool" where
  "spliced h h' l ys i zs \<longleftrightarrow>
     (\<forall>r. get_next h' r = (if r = last_ptr (ListEnd l) ys then Item i
        else if r = Item i then first_ptr zs (ListEnd l) else get_next h r)) \<and>
     (\<forall>r. get_prev h' r = (if r = first_ptr zs (ListEnd l) then Item i
        else if r = Item i then last_ptr (ListEnd l) ys else get_prev h r)) \<and>
     (\<forall>j. pxContainer (node_at h' j) = (if j = i then Some l else pxContainer (node_at h j))) \<and>
     (\<forall>m. uxNumberOfItems (list_at h' m) =
        (if m = l then uxNumberOfItems (list_at h m) + 1 else uxNumberOfItems (list_at h m))) \<and>
     (\<forall>m. pxIndex (list_at h' m) = pxIndex (list_at h m)) \<and>
     (\<forall>m. mini_xItemValue (xListEnd (list_at h' m)) = mini_xItemValue (xListEnd (list_at h m)))"

lemma spliced_ok:
  assumes ok: "lists_ok D h" and l: "l \<in> D" and free: "pxContainer (node_at h i) = None"
    and xs: "list_items h l = ys @ zs" and len: "Suc (length (list_items h l)) < 2 ^ 32"
    and sp: "spliced h h' l ys i zs"
  shows "lists_ok D h'"
    and "m \<in> D \<Longrightarrow> list_items h' m = (if m = l then ys @ i # zs else list_items h m)"
proof -
  have isl: "is_list h l (ys @ zs)" using lists_okD[OF ok l] xs by simp
  have notin: "i \<notin> set (list_items h m)" if "m \<in> D" for m
    using container_iff[OF ok that, of i] free by simp
  have at_l: "is_list h' l (ys @ i # zs)"
  proof -
    have "chain h' (ListEnd l) (ys @ i # zs) (ListEnd l)"
      by (rule chain_insert[of h]) (use isl notin[OF l] xs sp in \<open>auto simp: is_list_def spliced_def\<close>)
    then show ?thesis
      using isl sp notin[OF l] len xs unfolding is_list_def spliced_def by auto
  qed
  have elsewhere: "is_list h' m (list_items h m)" if m: "m \<in> D" "m \<noteq> l" for m
  proof (rule is_list_frame[OF lists_okD[OF ok m(1)]])
    have disj: "set (list_items h m) \<inter> (set ys \<union> set zs) = {}"
      using items_disjoint[OF ok l m(1)] m(2) xs by auto
    have apart: "r \<noteq> Item i \<and> r \<noteq> last_ptr (ListEnd l) ys \<and> r \<noteq> first_ptr zs (ListEnd l)"
      if "r = ListEnd m \<or> r \<in> Item ` set (list_items h m)" for r
      using that m notin[OF m(1)] disj
        last_ptr_cases[of "ListEnd l" ys] first_ptr_cases[of zs "ListEnd l"] by auto
    fix r assume r: "r = ListEnd m \<or> r \<in> Item ` set (list_items h m)"
    show "get_next h' r = get_next h r" "get_prev h' r = get_prev h r"
      using apart[OF r] sp by (simp_all add: spliced_def)
  qed (use sp m free in \<open>auto simp: spliced_def\<close>)
  note res = lists_okI[of D h' "\<lambda>m. if m = l then ys @ i # zs else list_items h m"]
  show "lists_ok D h'"
    and "m \<in> D \<Longrightarrow> list_items h' m = (if m = l then ys @ i # zs else list_items h m)"
    using at_l elsewhere by (intro res; simp)+
qed

lemma is_list_split:
  "is_list h l (ys @ zs) \<Longrightarrow>
     get_next h (last_ptr (ListEnd l) ys) = first_ptr zs (ListEnd l) \<and>
     get_prev h (first_ptr zs (ListEnd l)) = last_ptr (ListEnd l) ys"
  unfolding is_list_def using chain_split by blast

text \<open>
  \<open>vListInsertEnd\<close> places the item before the index of the list: at the end of the sequence
  when the index is at the end marker, before the indexed item otherwise.
\<close>

definition insert_at_index :: "('l, 'i) node_ptr \<Rightarrow> 'i \<Rightarrow> 'i list \<Rightarrow> 'i list" where
  "insert_at_index p i xs =
     (case p of ListEnd l \<Rightarrow> xs @ [i]
      | Item y \<Rightarrow> takeWhile (\<lambda>x. x \<noteq> y) xs @ i # dropWhile (\<lambda>x. x \<noteq> y) xs)"

lemma insert_at_index_set [simp]: "set (insert_at_index p i xs) = insert i (set xs)"
proof (cases p)
  case (Item y)
  have "set xs = set (takeWhile (\<lambda>x. x \<noteq> y) xs) \<union> set (dropWhile (\<lambda>x. x \<noteq> y) xs)"
    by (metis set_append takeWhile_dropWhile_id)
  with Item show ?thesis by (auto simp: insert_at_index_def)
qed (auto simp: insert_at_index_def)

lemma dropWhile_neq_hd: "y \<in> set xs \<Longrightarrow> \<exists>zs. dropWhile (\<lambda>x. x \<noteq> y) xs = y # zs"
  by (induction xs) auto

lemma index_split:
  assumes "is_list h l xs"
  obtains ys zs where "xs = ys @ zs" and "pxIndex (list_at h l) = first_ptr zs (ListEnd l)"
    and "insert_at_index (pxIndex (list_at h l)) i xs = ys @ i # zs"
proof (cases "pxIndex (list_at h l)")
  case (ListEnd m)
  with assms have "m = l" by (auto simp: is_list_def)
  with ListEnd show ?thesis by (intro that[of xs "[]"]) (auto simp: insert_at_index_def)
next
  case (Item y)
  with assms have "y \<in> set xs" by (auto simp: is_list_def)
  then obtain zs where "dropWhile (\<lambda>x. x \<noteq> y) xs = y # zs" using dropWhile_neq_hd by metis
  with Item show ?thesis
    using takeWhile_dropWhile_id[of "\<lambda>x. x \<noteq> y" xs]
    by (intro that[of "takeWhile (\<lambda>x. x \<noteq> y) xs" "y # zs"]) (auto simp: insert_at_index_def)
qed

lemma vListInsertEnd_spliced:
  assumes "is_list h l (ys @ zs)" and "pxIndex (list_at h l) = first_ptr zs (ListEnd l)"
    and "i \<notin> set (ys @ zs)"
  shows "spliced h (vListInsertEnd l i h) l ys i zs"
proof -
  have "first_ptr zs (ListEnd l) \<noteq> Item i" "last_ptr (ListEnd l) ys \<noteq> Item i"
    using assms(3) last_ptr_cases[of "ListEnd l" ys] first_ptr_cases[of zs "ListEnd l"] by auto
  moreover have "get_prev h (first_ptr zs (ListEnd l)) = last_ptr (ListEnd l) ys"
    using is_list_split[OF assms(1)] by simp
  ultimately show ?thesis
    using assms(2) by (simp add: spliced_def vListInsertEnd_def Let_def)
qed

lemma vListInsertEnd_ok:
  assumes ok: "lists_ok D h" and l: "l \<in> D" and free: "pxContainer (node_at h i) = None"
    and len: "Suc (length (list_items h l)) < 2 ^ 32"
  shows "lists_ok D (vListInsertEnd l i h)"
    and "m \<in> D \<Longrightarrow> list_items (vListInsertEnd l i h) m =
           (if m = l then insert_at_index (pxIndex (list_at h l)) i (list_items h l)
            else list_items h m)"
proof -
  have i: "i \<notin> set (list_items h l)" using container_iff[OF ok l, of i] free by simp
  obtain ys zs where s: "list_items h l = ys @ zs" "pxIndex (list_at h l) = first_ptr zs (ListEnd l)"
      "insert_at_index (pxIndex (list_at h l)) i (list_items h l) = ys @ i # zs"
    using index_split[OF lists_okD[OF ok l], of i] .
  have "spliced h (vListInsertEnd l i h) l ys i zs"
    by (rule vListInsertEnd_spliced) (use lists_okD[OF ok l] s i in auto)
  from spliced_ok[OF ok l free s(1) len this] s(3)
  show "lists_ok D (vListInsertEnd l i h)"
    and "m \<in> D \<Longrightarrow> list_items (vListInsertEnd l i h) m =
           (if m = l then insert_at_index (pxIndex (list_at h l)) i (list_items h l)
            else list_items h m)" by auto
qed

text \<open>
  \<open>vListInsert\<close> places the item after the entries whose value does not exceed its own: the
  search returns, because the value of the end marker is the largest there is.
\<close>

definition insert_by_value :: "('i \<Rightarrow> u32) \<Rightarrow> 'i \<Rightarrow> 'i list \<Rightarrow> 'i list" where
  "insert_by_value val i xs =
     takeWhile (\<lambda>x. val x \<le> val i) xs @ i # dropWhile (\<lambda>x. val x \<le> val i) xs"

lemma insert_by_value_set [simp]: "set (insert_by_value val i xs) = insert i (set xs)"
proof -
  have "set xs = set (takeWhile (\<lambda>x. val x \<le> val i) xs) \<union> set (dropWhile (\<lambda>x. val x \<le> val i) xs)"
    by (metis set_append takeWhile_dropWhile_id)
  then show ?thesis by (auto simp: insert_by_value_def)
qed

lemma insert_by_value_sorted:
  "sorted (map val xs) \<Longrightarrow> sorted (map val (insert_by_value val i xs))"
  unfolding insert_by_value_def by (rule sorted_insert_after)

lemma insert_position_eq:
  assumes "chain h p xs (ListEnd l)" and "mini_xItemValue (xListEnd (list_at h l)) = portMAX_DELAY"
    and "v \<noteq> portMAX_DELAY"
  shows "insert_position h v p = Some (last_ptr p (takeWhile (\<lambda>x. xItemValue (node_at h x) \<le> v) xs))"
  using assms(1)
proof (induction xs arbitrary: p)
  case Nil
  have "\<not> portMAX_DELAY \<le> v"
    using assms(3) word32_le_max[of v] by (auto simp: portMAX_DELAY_def)
  with Nil assms(2) show ?case by (subst insert_position.simps) simp
next
  case (Cons x xs)
  then show ?case by (subst insert_position.simps) auto
qed

lemma vListInsert_spliced:
  assumes ok: "is_list h l xs" and i: "i \<notin> set xs"
    and ys: "ys = takeWhile (\<lambda>x. xItemValue (node_at h x) \<le> xItemValue (node_at h i)) xs"
    and zs: "zs = dropWhile (\<lambda>x. xItemValue (node_at h x) \<le> xItemValue (node_at h i)) xs"
  shows "\<exists>h'. vListInsert l i h = Some h' \<and> spliced h h' l ys i zs"
proof -
  have xs: "xs = ys @ zs" by (simp add: ys zs)
  have sp: "get_next h (last_ptr (ListEnd l) ys) = first_ptr zs (ListEnd l)"
      "get_prev h (first_ptr zs (ListEnd l)) = last_ptr (ListEnd l) ys"
    using is_list_split[of h l ys zs] ok xs by auto
  let ?v = "xItemValue (node_at h i)"
  have it: "(if ?v = portMAX_DELAY then Some (get_prev h (ListEnd l)) else insert_position h ?v (ListEnd l))
      = Some (last_ptr (ListEnd l) ys)"
  proof (cases "?v = portMAX_DELAY")
    case True
    then have "ys = xs"
      using word32_le_max by (simp add: ys portMAX_DELAY_def takeWhile_eq_all_conv)
    then show ?thesis using True sp xs by simp
  next
    case False
    then show ?thesis
      using insert_position_eq[of h "ListEnd l" xs l ?v] ok ys by (simp add: is_list_def)
  qed
  have "first_ptr zs (ListEnd l) \<noteq> Item i" "last_ptr (ListEnd l) ys \<noteq> Item i"
    using i xs last_ptr_cases[of "ListEnd l" ys] first_ptr_cases[of zs "ListEnd l"] by auto
  with sp show ?thesis
    unfolding vListInsert_def Let_def it by (auto simp: spliced_def)
qed

lemma vListInsert_ok:
  assumes ok: "lists_ok D h" and l: "l \<in> D" and free: "pxContainer (node_at h i) = None"
    and len: "Suc (length (list_items h l)) < 2 ^ 32"
  obtains h' where "vListInsert l i h = Some h'" and "lists_ok D h'"
    and "\<And>m. m \<in> D \<Longrightarrow> list_items h' m =
           (if m = l then insert_by_value (\<lambda>x. xItemValue (node_at h x)) i (list_items h l)
            else list_items h m)"
proof -
  have i: "i \<notin> set (list_items h l)" using container_iff[OF ok l, of i] free by simp
  obtain h' where h': "vListInsert l i h = Some h'"
    and sp: "spliced h h' l
       (takeWhile (\<lambda>x. xItemValue (node_at h x) \<le> xItemValue (node_at h i)) (list_items h l)) i
       (dropWhile (\<lambda>x. xItemValue (node_at h x) \<le> xItemValue (node_at h i)) (list_items h l))"
    using vListInsert_spliced[OF lists_okD[OF ok l] i refl refl] by blast
  show ?thesis
    by (rule that[OF h'])
       (use spliced_ok[OF ok l free _ len sp] in \<open>auto simp: insert_by_value_def\<close>)
qed

text \<open>\<open>uxListRemove\<close> removes the item from the list it is in and returns the new length.\<close>

lemma removed_ok:
  assumes ok: "lists_ok D h" and l: "l \<in> D" and xs: "list_items h l = ys @ i # zs"
    and n: "\<And>r. get_next h' r =
       (if r = last_ptr (ListEnd l) ys then first_ptr zs (ListEnd l) else get_next h r)"
    and b: "\<And>r. get_prev h' r =
       (if r = first_ptr zs (ListEnd l) then last_ptr (ListEnd l) ys else get_prev h r)"
    and c: "\<And>j. pxContainer (node_at h' j) = (if j = i then None else pxContainer (node_at h j))"
    and k: "\<And>m. uxNumberOfItems (list_at h' m) =
       (if m = l then uxNumberOfItems (list_at h m) - 1 else uxNumberOfItems (list_at h m))"
    and x: "\<And>m. pxIndex (list_at h' m) =
       (if m = l \<and> pxIndex (list_at h m) = Item i then last_ptr (ListEnd l) ys
        else pxIndex (list_at h m))"
    and v: "\<And>m. mini_xItemValue (xListEnd (list_at h' m)) = mini_xItemValue (xListEnd (list_at h m))"
  shows "lists_ok D h'"
    and "m \<in> D \<Longrightarrow> list_items h' m = (if m = l then ys @ zs else list_items h m)"
proof -
  have isl: "is_list h l (ys @ i # zs)" using lists_okD[OF ok l] xs by simp
  have at_l: "is_list h' l (ys @ zs)"
  proof -
    have "chain h' (ListEnd l) (ys @ zs) (ListEnd l)"
      by (rule chain_remove[of h]) (use isl n b in \<open>auto simp: is_list_def\<close>)
    then show ?thesis
      using isl c k x v last_ptr_cases[of "ListEnd l" ys] unfolding is_list_def by auto
  qed
  have elsewhere: "is_list h' m (list_items h m)" if m: "m \<in> D" "m \<noteq> l" for m
  proof (rule is_list_frame[OF lists_okD[OF ok m(1)]])
    have disj: "set (list_items h m) \<inter> (set ys \<union> set zs) = {}"
      using items_disjoint[OF ok l m(1)] m(2) xs by auto
    have apart: "r \<noteq> last_ptr (ListEnd l) ys \<and> r \<noteq> first_ptr zs (ListEnd l)"
      if "r = ListEnd m \<or> r \<in> Item ` set (list_items h m)" for r
      using that m disj last_ptr_cases[of "ListEnd l" ys] first_ptr_cases[of zs "ListEnd l"] by auto
    fix r assume r: "r = ListEnd m \<or> r \<in> Item ` set (list_items h m)"
    show "get_next h' r = get_next h r" "get_prev h' r = get_prev h r"
      using apart[OF r] n b by simp_all
  next
    fix j show "(pxContainer (node_at h' j) = Some m) = (pxContainer (node_at h j) = Some m)"
      using c[of j] container_iff[OF ok l, of i] xs m by auto
  qed (use k x v m in auto)
  note res = lists_okI[of D h' "\<lambda>m. if m = l then ys @ zs else list_items h m"]
  show "lists_ok D h'"
    and "m \<in> D \<Longrightarrow> list_items h' m = (if m = l then ys @ zs else list_items h m)"
    using at_l elsewhere by (intro res; simp)+
qed

lemma uxListRemove_ok:
  assumes ok: "lists_ok D h" and l: "l \<in> D" and c: "pxContainer (node_at h i) = Some l"
  obtains h' where "uxListRemove i h = Some (of_nat (length (list_items h l) - 1), h')"
    and "lists_ok D h'"
    and "\<And>m. m \<in> D \<Longrightarrow> list_items h' m =
           (if m = l then remove1 i (list_items h l) else list_items h m)"
proof -
  have "i \<in> set (list_items h l)" using container_iff[OF ok l] c by simp
  then obtain ys zs where xs: "list_items h l = ys @ i # zs" and iys: "i \<notin> set ys"
    by (meson split_list_first)
  have isl: "is_list h l (ys @ i # zs)" using lists_okD[OF ok l] xs by simp
  then have ch: "chain h (ListEnd l) ys (Item i)" "chain h (Item i) zs (ListEnd l)"
    and d: "distinct (ys @ i # zs)"
    and len: "uxNumberOfItems (list_at h l) = of_nat (length (ys @ i # zs))"
    by (auto simp: is_list_def chain_append)
  have prev: "get_prev h (Item i) = last_ptr (ListEnd l) ys"
    using chain_last[OF ch(1)] by (simp add: last_ptr_def)
  have "next": "get_next h (Item i) = first_ptr zs (ListEnd l)"
    using chain_first[OF ch(2)] by (cases zs) auto
  have ne: "first_ptr zs (ListEnd l) \<noteq> Item i" "last_ptr (ListEnd l) ys \<noteq> Item i"
    using d last_ptr_cases[of "ListEnd l" ys] first_ptr_cases[of zs "ListEnd l"] by auto
  let ?h1 = "set_prev h (first_ptr zs (ListEnd l)) (last_ptr (ListEnd l) ys)"
  let ?h2 = "set_next ?h1 (last_ptr (ListEnd l) ys) (first_ptr zs (ListEnd l))"
  let ?h3 = "if pxIndex (list_at ?h2 l) = Item i
             then upd_list ?h2 l (\<lambda>x. x\<lparr>pxIndex := get_prev ?h2 (Item i)\<rparr>) else ?h2"
  let ?h4 = "upd_node ?h3 i (\<lambda>n. n\<lparr>pxContainer := None\<rparr>)"
  let ?h5 = "upd_list ?h4 l (\<lambda>x. x\<lparr>uxNumberOfItems := uxNumberOfItems x - 1\<rparr>)"
  have rem: "uxListRemove i h = Some (uxNumberOfItems (list_at ?h5 l), ?h5)"
    using ne by (simp add: uxListRemove_def c prev "next" Let_def)
  have cnt: "uxNumberOfItems (list_at ?h5 l) = of_nat (length (list_items h l) - 1)"
    using len xs by simp
  note res = removed_ok[OF ok l xs, of ?h5]
  have "lists_ok D ?h5"
    and "\<And>m. m \<in> D \<Longrightarrow> list_items ?h5 m = (if m = l then ys @ zs else list_items h m)"
    by (rule res; use ne in \<open>auto simp: links_upd_list links_upd_node prev\<close>)+
  then show ?thesis
    using that[OF rem[unfolded cnt]] xs iys by (auto simp: remove1_append)
qed

text \<open>Initialisation makes the empty list, whatever the store held.\<close>

lemma vListInitialise_is_list:
  assumes "\<And>i. pxContainer (node_at h i) \<noteq> Some l"
  shows "is_list (vListInitialise l h) l []"
  using assms by (simp add: vListInitialise_def Let_def is_list_def links_eval)

lemma vListInitialise_frame:
  "node_at (vListInitialise l h) = node_at h"
  "m \<noteq> l \<Longrightarrow> list_at (vListInitialise l h) m = list_at h m"
  by (simp_all add: vListInitialise_def Let_def links_eval)

lemma vListInitialise_ok:
  assumes "lists_ok D h" and "\<And>i. pxContainer (node_at h i) \<noteq> Some l" and "l \<notin> D"
  shows "lists_ok (insert l D) (vListInitialise l h)"
    and "m \<in> insert l D \<Longrightarrow>
      list_items (vListInitialise l h) m = (if m = l then [] else list_items h m)"
proof -
  have "is_list (vListInitialise l h) m (list_items h m)" if "m \<in> D" for m
  proof -
    have "m \<noteq> l" using that assms(3) by auto
    moreover have "get_next (vListInitialise l h) r = get_next h r"
      "get_prev (vListInitialise l h) r = get_prev h r"
      if "r = ListEnd m \<or> r \<in> Item ` set (list_items h m)" for r
      using that \<open>m \<noteq> l\<close> by (auto simp: links_eval vListInitialise_frame)
    ultimately show ?thesis
      by (intro is_list_frame[OF lists_okD[OF assms(1) that]]) (auto simp: vListInitialise_frame)
  qed
  then have *: "is_list (vListInitialise l h) m (if m = l then [] else list_items h m)"
    if "m \<in> insert l D" for m
    using that vListInitialise_is_list[OF assms(2)] by auto
  from lists_okI[of "insert l D", OF *]
  show "lists_ok (insert l D) (vListInitialise l h)"
    and "m \<in> insert l D \<Longrightarrow>
      list_items (vListInitialise l h) m = (if m = l then [] else list_items h m)" by auto
qed

section \<open>What the operations leave alone\<close>

lemma vListInsertEnd_frame [frame_simps]:
  "xItemValue (node_at (vListInsertEnd l i h) j) = xItemValue (node_at h j)"
  "pvOwner (node_at (vListInsertEnd l i h) j) = pvOwner (node_at h j)"
  "pxContainer (node_at (vListInsertEnd l i h) j) = (if j = i then Some l else pxContainer (node_at h j))"
  "pxIndex (list_at (vListInsertEnd l i h) m) = pxIndex (list_at h m)"
  by (simp_all add: vListInsertEnd_def Let_def)

lemma vListInsert_frame:
  assumes "vListInsert l i h = Some h'"
  shows "xItemValue (node_at h' j) = xItemValue (node_at h j)"
    and "pvOwner (node_at h' j) = pvOwner (node_at h j)"
    and "pxContainer (node_at h' j) = (if j = i then Some l else pxContainer (node_at h j))"
    and "pxIndex (list_at h' m) = pxIndex (list_at h m)"
  using assms by (auto simp: vListInsert_def Let_def)

lemma uxListRemove_frame:
  assumes "uxListRemove i h = Some (n, h')"
  shows "xItemValue (node_at h' j) = xItemValue (node_at h j)"
    and "pvOwner (node_at h' j) = pvOwner (node_at h j)"
    and "pxContainer (node_at h' j) = (if j = i then None else pxContainer (node_at h j))"
    and "pxContainer (node_at h i) \<noteq> Some m \<or> pxIndex (list_at h m) \<noteq> Item i
         \<Longrightarrow> pxIndex (list_at h' m) = pxIndex (list_at h m)"
  using assms by (auto simp: uxListRemove_def Let_def split: if_splits)

lemma uxListRemove_None: "uxListRemove i h = None \<longleftrightarrow> pxContainer (node_at h i) = None"
  by (cases "pxContainer (node_at h i)") (auto simp: uxListRemove_def Let_def)

lemma set_value_ok:
  assumes "lists_ok D h"
  shows "lists_ok D (listSET_LIST_ITEM_VALUE i v h)"
    and "m \<in> D \<Longrightarrow> list_items (listSET_LIST_ITEM_VALUE i v h) m = list_items h m"
  using lists_ok_frame[OF assms, of "listSET_LIST_ITEM_VALUE i v h"] lists_okD[OF assms]
  by (auto simp: listSET_LIST_ITEM_VALUE_def links_upd_node is_list_def)

lemma set_owner_ok:
  assumes "lists_ok D h"
  shows "lists_ok D (listSET_LIST_ITEM_OWNER i v h)"
    and "m \<in> D \<Longrightarrow> list_items (listSET_LIST_ITEM_OWNER i v h) m = list_items h m"
  using lists_ok_frame[OF assms, of "listSET_LIST_ITEM_OWNER i v h"] lists_okD[OF assms]
  by (auto simp: listSET_LIST_ITEM_OWNER_def links_upd_node is_list_def)

end
