(* ===== verification/Os_List_Interface.thy ===== *)
theory Os_List_Interface
  imports Os_List_Refine
begin

text \<open>
  What the scheduler relies on when it moves task items between lists, as a locale: the store
  operations it calls and the laws the list module promises. The lemmas about moving an item
  are proved once from the laws; the interpretation discharges the laws for \<^verbatim>\<open>list.c\<close>.
\<close>

locale item_lists =
  fixes good :: "'l set \<Rightarrow> 'h \<Rightarrow> bool"
    and contents :: "'h \<Rightarrow> 'l \<Rightarrow> 'i list"
    and holder :: "'h \<Rightarrow> 'i \<Rightarrow> 'l option"
    and key :: "'h \<Rightarrow> 'i \<Rightarrow> u32"
    and add_end :: "'l \<Rightarrow> 'i \<Rightarrow> 'h \<Rightarrow> 'h"
    and add_key :: "'l \<Rightarrow> 'i \<Rightarrow> 'h \<Rightarrow> 'h option"
    and take_out :: "'i \<Rightarrow> 'h \<Rightarrow> (u32 \<times> 'h) option"
  assumes holder_iff: "good D h \<Longrightarrow> l \<in> D \<Longrightarrow> holder h i = Some l \<longleftrightarrow> i \<in> set (contents h l)"
    and contents_distinct: "good D h \<Longrightarrow> l \<in> D \<Longrightarrow> distinct (contents h l)"
    and add_end_good: "good D h \<Longrightarrow> l \<in> D \<Longrightarrow> holder h i = None
          \<Longrightarrow> Suc (length (contents h l)) < 2 ^ 32 \<Longrightarrow> good D (add_end l i h)"
    and add_end_set: "good D h \<Longrightarrow> l \<in> D \<Longrightarrow> holder h i = None
          \<Longrightarrow> Suc (length (contents h l)) < 2 ^ 32 \<Longrightarrow> m \<in> D
          \<Longrightarrow> set (contents (add_end l i h) m)
                = (if m = l then insert i (set (contents h l)) else set (contents h m))"
    and add_end_other: "good D h \<Longrightarrow> l \<in> D \<Longrightarrow> holder h i = None
          \<Longrightarrow> Suc (length (contents h l)) < 2 ^ 32 \<Longrightarrow> m \<in> D \<Longrightarrow> m \<noteq> l
          \<Longrightarrow> contents (add_end l i h) m = contents h m"
    and add_end_holder: "holder (add_end l i h) j = (if j = i then Some l else holder h j)"
    and add_end_key: "key (add_end l i h) j = key h j"
    and add_key_good: "good D h \<Longrightarrow> l \<in> D \<Longrightarrow> holder h i = None
          \<Longrightarrow> Suc (length (contents h l)) < 2 ^ 32
          \<Longrightarrow> \<exists>h'. add_key l i h = Some h' \<and> good D h'
               \<and> (\<forall>m \<in> D. contents h' m = (if m = l then insert_by_value (key h) i (contents h l)
                                                  else contents h m))"
    and add_key_holder: "add_key l i h = Some h' \<Longrightarrow>
          holder h' j = (if j = i then Some l else holder h j)"
    and add_key_key: "add_key l i h = Some h' \<Longrightarrow> key h' j = key h j"
    and take_out_good: "good D h \<Longrightarrow> l \<in> D \<Longrightarrow> holder h i = Some l
          \<Longrightarrow> \<exists>n h'. take_out i h = Some (n, h') \<and> unat n = length (contents h l) - 1 \<and> good D h'
               \<and> (\<forall>m \<in> D. contents h' m = (if m = l then remove1 i (contents h l) else contents h m))"
    and take_out_holder: "take_out i h = Some (n, h') \<Longrightarrow>
          holder h' j = (if j = i then None else holder h j)"
    and take_out_key: "take_out i h = Some (n, h') \<Longrightarrow> key h' j = key h j"
begin

lemma one_list: "good D h \<Longrightarrow> l \<in> D \<Longrightarrow> m \<in> D
    \<Longrightarrow> i \<in> set (contents h l) \<Longrightarrow> i \<in> set (contents h m) \<Longrightarrow> l = m"
  by (metis holder_iff option.inject)

lemma take_out_length:
  assumes "good D h" and "l \<in> D" and "holder h i = Some l" and "m \<in> D"
    and "take_out i h = Some (n, h')"
  shows "length (contents h' m) \<le> length (contents h m)"
  using take_out_good[OF assms(1-3)] assms(4,5) by (auto simp: length_remove1)

text \<open>Taking an item out of its list and adding it at the end of another, or of the same.\<close>

lemma move_end:
  assumes g: "good D h" and l: "l \<in> D" "holder h i = Some l" and m: "m \<in> D"
    and len: "Suc (length (contents h m)) < 2 ^ 32"
  obtains n h1 where "take_out i h = Some (n, h1)" and "good D (add_end m i h1)"
    and "holder (add_end m i h1) = (holder h)(i := Some m)" and "key (add_end m i h1) = key h"
    and "\<And>k. k \<in> D \<Longrightarrow> set (contents (add_end m i h1) k) =
           (if k = m then insert i (set (contents h k)) else set (contents h k) - {i})"
    and "\<And>k. k \<in> D \<Longrightarrow> k \<noteq> m \<Longrightarrow> contents (add_end m i h1) k = remove1 i (contents h k)"
proof -
  obtain n h1 where t: "take_out i h = Some (n, h1)" and g1: "good D h1"
    and c1: "\<And>k. k \<in> D \<Longrightarrow> contents h1 k = (if k = l then remove1 i (contents h l) else contents h k)"
    using take_out_good[OF g l] by auto
  have free: "holder h1 i = None" using take_out_holder[OF t, of i] by simp
  have len1: "Suc (length (contents h1 m)) < 2 ^ 32"
    using take_out_length[OF g l m t] len by simp
  have away: "i \<notin> set (contents h k)" if "k \<in> D" "k \<noteq> l" for k
    using one_list[OF g that(1) l(1)] holder_iff[OF g l(1)] l(2) that(2) by auto
  have rm: "contents h1 k = remove1 i (contents h k)" if "k \<in> D" for k
    using c1[OF that] away[OF that] by (auto simp: remove1_idem)
  have "i \<notin> set (contents h1 k)" if "k \<in> D" for k
    using rm[OF that] contents_distinct[OF g that] by simp
  then have s1: "set (contents h1 k) = set (contents h k) - {i}" if "k \<in> D" for k
    using rm[OF that] contents_distinct[OF g that] that by simp
  show ?thesis
  proof (rule that[OF t add_end_good[OF g1 m free len1]])
    show "holder (add_end m i h1) = (holder h)(i := Some m)"
      by (auto simp: fun_eq_iff add_end_holder take_out_holder[OF t])
    show "key (add_end m i h1) = key h"
      by (auto simp: fun_eq_iff add_end_key take_out_key[OF t])
    fix k assume k: "k \<in> D"
    show "set (contents (add_end m i h1) k) =
           (if k = m then insert i (set (contents h k)) else set (contents h k) - {i})"
      using add_end_set[OF g1 m free len1 k] s1 k m by auto
    show "k \<noteq> m \<Longrightarrow> contents (add_end m i h1) k = remove1 i (contents h k)"
      using add_end_other[OF g1 m free len1 k] rm[OF k] by simp
  qed
qed

text \<open>No move loses or duplicates an item: the union of all lists stays the same.\<close>

lemma move_end_population:
  assumes "good D h" and "l \<in> D" "holder h i = Some l" and "m \<in> D"
    and "Suc (length (contents h m)) < 2 ^ 32" and "take_out i h = Some (n, h1)"
  shows "(\<Union>k \<in> D. set (contents (add_end m i h1) k)) = (\<Union>k \<in> D. set (contents h k))"
proof -
  obtain h1' where t: "take_out i h = Some (n, h1')"
    and s: "\<And>k. k \<in> D \<Longrightarrow> set (contents (add_end m i h1') k) =
           (if k = m then insert i (set (contents h k)) else set (contents h k) - {i})"
    using move_end[OF assms(1-5)] assms(6) by (metis option.inject prod.inject)
  then have "h1 = h1'" using assms(6) by simp
  moreover have "i \<in> set (contents h l)" using holder_iff[OF assms(1,2)] assms(3) by simp
  ultimately show ?thesis using s assms(2,4) by (auto split: if_splits)
qed

end

text \<open>The list module keeps the laws.\<close>

interpretation os_lists: item_lists lists_ok list_items "\<lambda>h i. pxContainer (node_at h i)"
  "\<lambda>h i. xItemValue (node_at h i)" vListInsertEnd vListInsert uxListRemove
proof (unfold_locales, goal_cases)
  case (1 D h l i)
  then show ?case by (rule container_iff)
next
  case (2 D h l)
  then show ?case by (rule items_distinct)
next
  case (3 D h l i)
  then show ?case by (rule vListInsertEnd_ok(1))
next
  case (4 D h l i m)
  from vListInsertEnd_ok(2)[OF this] show ?case by simp
next
  case (5 D h l i m)
  from vListInsertEnd_ok(2)[OF this(1-5)] this(6) show ?case by simp
next
  case (8 D h l i)
  then obtain h' where "vListInsert l i h = Some h'" "lists_ok D h'"
    "\<And>m. m \<in> D \<Longrightarrow> list_items h' m =
       (if m = l then insert_by_value (\<lambda>x. xItemValue (node_at h x)) i (list_items h l)
        else list_items h m)"
    using vListInsert_ok[of D h l i] by metis
  then show ?case by auto
next
  case (11 D h l i)
  have "unat (of_nat (length (list_items h l) - 1) :: u32) = length (list_items h l) - 1"
    using lists_okD[OF 11(1,2)] by (intro unat_of_nat32) (auto simp: is_list_def)
  moreover obtain h' where "uxListRemove i h = Some (of_nat (length (list_items h l) - 1), h')"
    "lists_ok D h'"
    "\<And>m. m \<in> D \<Longrightarrow> list_items h' m = (if m = l then remove1 i (list_items h l) else list_items h m)"
    using uxListRemove_ok[OF 11] by metis
  ultimately show ?case by auto
next
  case 9
  then show ?case by (rule vListInsert_frame(3))
next
  case 10
  then show ?case by (rule vListInsert_frame(1))
next
  case 12
  then show ?case by (rule uxListRemove_frame(3))
next
  case 13
  then show ?case by (rule uxListRemove_frame(1))
qed (simp_all add: frame_simps)

end
