(* ===== verification/Os_List_Turns.thy ===== *)
theory Os_List_Turns
  imports Os_List_Refine "HOL-Library.Multiset"
begin

text \<open>
  The round-robin reading of a list by \<open>listGET_OWNER_OF_NEXT_ENTRY\<close>: the turn order of a list is
  the order in which repeated uses of the macro will hand out its entries. Each use rotates the
  turn order by one; \<open>vListInsertEnd\<close> adds the new entry at the end of the round.
\<close>

definition turn_order :: "('l, 'i) node_ptr \<Rightarrow> 'i list \<Rightarrow> 'i list" where
  "turn_order p xs =
     (case p of ListEnd l \<Rightarrow> xs
      | Item y \<Rightarrow> tl (dropWhile (\<lambda>x. x \<noteq> y) xs) @ takeWhile (\<lambda>x. x \<noteq> y) xs @ [y])"

definition list_turns :: "('l, 'i, 'o) list_store \<Rightarrow> 'l \<Rightarrow> 'i list" where
  "list_turns h l = turn_order (pxIndex (list_at h l)) (list_items h l)"

text \<open>The macro used \<open>n\<close> times in a row.\<close>

fun next_entries :: "nat \<Rightarrow> 'l \<Rightarrow> ('l, 'i, 'o) list_store \<Rightarrow> ('o list \<times> ('l, 'i, 'o) list_store) option" where
  "next_entries 0 l h = Some ([], h)"
| "next_entries (Suc n) l h =
     do { (x, h1) \<leftarrow> listGET_OWNER_OF_NEXT_ENTRY l h;
          (xs, h2) \<leftarrow> next_entries n l h1;
          Some (x # xs, h2) }"

lemma takeWhile_neq_split: "y \<notin> set ys \<Longrightarrow> takeWhile (\<lambda>x. x \<noteq> y) (ys @ y # zs) = ys"
  by (induction ys) auto

lemma dropWhile_neq_split: "y \<notin> set ys \<Longrightarrow> dropWhile (\<lambda>x. x \<noteq> y) (ys @ y # zs) = y # zs"
  by (induction ys) auto

lemma turn_order_ListEnd [simp]: "turn_order (ListEnd l) xs = xs"
  by (simp add: turn_order_def)

lemma turn_order_Item: "y \<notin> set ys \<Longrightarrow> turn_order (Item y) (ys @ y # zs) = zs @ ys @ [y]"
  by (simp add: turn_order_def takeWhile_neq_split dropWhile_neq_split)

lemma index_ptr_cases:
  assumes "is_list h l xs"
  obtains (at_end) "pxIndex (list_at h l) = ListEnd l"
  | (at_item) ys y zs where "xs = ys @ y # zs" "y \<notin> set ys" "y \<notin> set zs"
      "pxIndex (list_at h l) = Item y"
proof (cases "pxIndex (list_at h l) = ListEnd l")
  case False
  with assms obtain y where y: "y \<in> set xs" "pxIndex (list_at h l) = Item y"
    by (auto simp: is_list_def)
  then obtain ys zs where "xs = ys @ y # zs" by (meson split_list)
  with assms y at_item show ?thesis by (auto simp: is_list_def)
qed (rule at_end)

lemma turn_order_perm:
  assumes "is_list h l xs"
  shows "mset (turn_order (pxIndex (list_at h l)) xs) = mset xs"
  using assms by (cases rule: index_ptr_cases) (auto simp: turn_order_Item)

lemma turn_order_length:
  "is_list h l xs \<Longrightarrow> length (turn_order (pxIndex (list_at h l)) xs) = length xs"
  by (metis turn_order_perm size_mset)

lemma turn_order_set:
  "is_list h l xs \<Longrightarrow> set (turn_order (pxIndex (list_at h l)) xs) = set xs"
  by (metis turn_order_perm set_mset_mset)

section \<open>One use of the macro\<close>

definition set_index :: "'l \<Rightarrow> ('l, 'i) node_ptr \<Rightarrow> ('l, 'i, 'o) list_store \<Rightarrow> ('l, 'i, 'o) list_store" where
  "set_index l p h = upd_list h l (\<lambda>x. x\<lparr>pxIndex := p\<rparr>)"

lemma set_index_frame [store_simps, simp]:
  "get_next (set_index l p h) r = get_next h r"
  "get_prev (set_index l p h) r = get_prev h r"
  "node_at (set_index l p h) = node_at h"
  "pxIndex (list_at (set_index l p h) m) = (if m = l then p else pxIndex (list_at h m))"
  "uxNumberOfItems (list_at (set_index l p h) m) = uxNumberOfItems (list_at h m)"
  "xListEnd (list_at (set_index l p h) m) = xListEnd (list_at h m)"
  by (simp_all add: set_index_def links_upd_list)

lemma set_index_list: "m \<noteq> l \<Longrightarrow> list_at (set_index l p h) m = list_at h m"
  by (simp add: set_index_def)

lemma set_index_twice [simp]: "set_index l p (set_index l q h) = set_index l p h"
  by (simp add: set_index_def upd_list_def)

lemma set_index_ok:
  assumes "lists_ok D h" and "l \<in> D" and "x \<in> set (list_items h l)"
  shows "lists_ok D (set_index l (Item x) h)"
    and "m \<in> D \<Longrightarrow> list_items (set_index l (Item x) h) m = list_items h m"
  using lists_ok_frame[OF assms(1), of "set_index l (Item x) h"] assms lists_okD[OF assms(1)]
  by (auto simp: is_list_def)

lemma is_list_set_index:
  "is_list h l xs \<Longrightarrow> x \<in> set xs \<Longrightarrow> is_list (set_index l (Item x) h) l xs"
  unfolding is_list_def using chain_cong[of "ListEnd l" xs "set_index l (Item x) h" h "ListEnd l"]
  by simp

lemma advance_as_set_index:
  "list_advance_index l h = set_index l (get_next h (pxIndex (list_at h l))) h"
  by (simp add: list_advance_index_def set_index_def upd_list_def)

lemma next_of_index:
  assumes "is_list h l xs" and "turn_order (pxIndex (list_at h l)) xs = t # ts"
  shows "get_next h (pxIndex (list_at h l)) = Item t
       \<or> (get_next h (pxIndex (list_at h l)) = ListEnd l \<and> get_next h (ListEnd l) = Item t)"
proof -
  have ch: "chain h (ListEnd l) xs (ListEnd l)" using assms(1) by (simp add: is_list_def)
  from assms(1) show ?thesis
  proof (cases rule: index_ptr_cases)
    case at_end
    with assms(2) chain_first[OF ch] show ?thesis by (auto split: list.splits)
  next
    case (at_item ys y zs)
    then have "chain h (Item y) zs (ListEnd l)" using ch by (simp add: chain_append)
    from chain_first[OF this] chain_first[OF ch] assms(2) at_item show ?thesis
      by (auto simp: turn_order_Item split: list.splits)
  qed
qed

lemma turn_order_advance:
  assumes "is_list h l xs" and "turn_order (pxIndex (list_at h l)) xs = t # ts"
  shows "turn_order (Item t) xs = ts @ [t]"
  using assms(1)
proof (cases rule: index_ptr_cases)
  case at_end
  with assms(2) have "xs = [] @ t # ts" by simp
  then show ?thesis by (metis append_Nil empty_iff list.set(1) turn_order_Item)
next
  case (at_item ys y zs)
  have d: "distinct xs" using assms(1) by (simp add: is_list_def)
  show ?thesis
  proof (cases zs)
    case (Cons z zs')
    with assms(2) at_item have "t = z" "ts = zs' @ ys @ [y]" by (auto simp: turn_order_Item)
    moreover have "xs = (ys @ [y]) @ z # zs'" using at_item Cons by simp
    moreover have "z \<notin> set (ys @ [y])" using d at_item Cons by auto
    ultimately show ?thesis by (metis append_assoc turn_order_Item)
  next
    case Nil
    with assms(2) at_item have t: "ys @ [y] = t # ts" "xs = t # ts" by (auto simp: turn_order_Item)
    then have "xs = [] @ t # ts" by simp
    then show ?thesis by (metis append_Nil empty_iff list.set(1) turn_order_Item)
  qed
qed

lemma next_entry_eq:
  assumes "is_list h l xs" and "turn_order (pxIndex (list_at h l)) xs = t # ts"
  shows "listGET_OWNER_OF_NEXT_ENTRY l h = Some (pvOwner (node_at h t), set_index l (Item t) h)"
  using next_of_index[OF assms]
  by (auto simp: listGET_OWNER_OF_NEXT_ENTRY_def Let_def advance_as_set_index)

lemma next_entry_ok:
  assumes ok: "lists_ok D h" and l: "l \<in> D" and ne: "list_items h l \<noteq> []"
  obtains t ts h' where "list_turns h l = t # ts"
    and "listGET_OWNER_OF_NEXT_ENTRY l h = Some (pvOwner (node_at h t), h')"
    and "t \<in> set (list_items h l)" and "lists_ok D h'" and "node_at h' = node_at h"
    and "\<And>m. m \<in> D \<Longrightarrow> list_items h' m = list_items h m"
    and "list_turns h' l = ts @ [t]" and "\<And>m. m \<noteq> l \<Longrightarrow> list_at h' m = list_at h m"
proof -
  note isl = lists_okD[OF ok l]
  obtain t ts where t: "list_turns h l = t # ts"
    using turn_order_length[OF isl] ne by (cases "list_turns h l") (auto simp: list_turns_def)
  then have tin: "t \<in> set (list_items h l)"
    using turn_order_set[OF isl] by (auto simp: list_turns_def)
  have t': "turn_order (pxIndex (list_at h l)) (list_items h l) = t # ts"
    using t by (simp add: list_turns_def)
  show ?thesis
    by (rule that[OF t next_entry_eq[OF isl t'] tin set_index_ok(1)[OF ok l tin]])
       (simp_all add: set_index_ok(2)[OF ok l tin] list_turns_def turn_order_advance[OF isl t'] l
          set_index_list)
qed

section \<open>A whole round\<close>

lemma next_entries_eq:
  assumes "is_list h l xs" and "turn_order (pxIndex (list_at h l)) xs = ts @ us"
  shows "\<exists>h'. next_entries (length ts) l h = Some (map (\<lambda>i. pvOwner (node_at h i)) ts, h')
     \<and> is_list h' l xs \<and> turn_order (pxIndex (list_at h' l)) xs = us @ ts \<and> node_at h' = node_at h"
  using assms
proof (induction ts arbitrary: h us)
  case Nil
  then show ?case by auto
next
  case (Cons t ts)
  have eq: "turn_order (pxIndex (list_at h l)) xs = t # (ts @ us)" using Cons.prems(2) by simp
  let ?h = "set_index l (Item t) h"
  have "t \<in> set xs" using turn_order_set[OF Cons.prems(1)] eq by auto
  then have "is_list ?h l xs" using Cons.prems(1) by (simp add: is_list_set_index)
  moreover have "turn_order (pxIndex (list_at ?h l)) xs = ts @ (us @ [t])"
    using turn_order_advance[OF Cons.prems(1) eq] by simp
  ultimately obtain h' where
    "next_entries (length ts) l ?h = Some (map (\<lambda>i. pvOwner (node_at ?h i)) ts, h')"
    "is_list h' l xs" "turn_order (pxIndex (list_at h' l)) xs = (us @ [t]) @ ts" "node_at h' = node_at ?h"
    using Cons.IH by blast
  then show ?case using next_entry_eq[OF Cons.prems(1) eq] by simp
qed

lemma turn_order_insert_end:
  assumes "is_list h l xs" and "i \<notin> set xs"
  shows "turn_order (pxIndex (list_at h l)) (insert_at_index (pxIndex (list_at h l)) i xs) =
     (case pxIndex (list_at h l) of ListEnd m \<Rightarrow> turn_order (pxIndex (list_at h l)) xs @ [i]
      | Item y \<Rightarrow> butlast (turn_order (pxIndex (list_at h l)) xs) @ [i, y])"
  using assms(1)
proof (cases rule: index_ptr_cases)
  case at_end
  then show ?thesis by (simp add: insert_at_index_def)
next
  case (at_item ys y zs)
  have "insert_at_index (pxIndex (list_at h l)) i xs = (ys @ [i]) @ y # zs"
    using at_item by (simp add: insert_at_index_def takeWhile_neq_split dropWhile_neq_split)
  moreover have "y \<notin> set (ys @ [i])" using at_item assms(2) by auto
  moreover have "turn_order (pxIndex (list_at h l)) xs = zs @ ys @ [y]"
    using at_item by (simp add: turn_order_Item)
  ultimately show ?thesis
    using at_item(4) by (simp add: turn_order_Item[of y "ys @ [i]" zs, simplified] butlast_append)
qed

end
