(* ===== verification/Os_List_Properties.thy ===== *)
theory Os_List_Properties
  imports Os_List_Interface Os_List_Turns
begin

text \<open>
  What \<^verbatim>\<open>src/ffi/os/list.c\<close> promises to the kernel, each with an instance on a small concrete
  store: two lists and numbered items whose value is their number.
\<close>

section \<open>A concrete store\<close>

definition blank_store :: "(nat, nat, nat) list_store" where
  "blank_store =
     \<lparr>node_at = (\<lambda>i. \<lparr>xItemValue = of_nat i, pxNext = Item i, pxPrevious = Item i, pvOwner = 100 + i,
                      pxContainer = None\<rparr>),
      list_at = (\<lambda>l. \<lparr>uxNumberOfItems = 0, pxIndex = ListEnd l,
                      xListEnd = \<lparr>mini_xItemValue = 0, mini_pxNext = ListEnd l, mini_pxPrevious = ListEnd l\<rparr>\<rparr>)\<rparr>"

definition two_lists :: "(nat, nat, nat) list_store" where
  "two_lists = vListInitialise 1 (vListInitialise 0 blank_store)"

definition two_in_first :: "(nat, nat, nat) list_store" where
  "two_in_first = vListInsertEnd 0 7 (vListInsertEnd 0 3 two_lists)"

lemma blank_free: "pxContainer (node_at blank_store i) = None"
  by (simp add: blank_store_def)

lemma two_lists_ok: "lists_ok {0, 1} two_lists" "list_items two_lists 0 = []" "list_items two_lists 1 = []"
  "pxContainer (node_at two_lists i) = None" "xItemValue (node_at two_lists i) = of_nat i"
  "pxIndex (list_at two_lists 0) = ListEnd 0" "pvOwner (node_at two_lists i) = 100 + i"
proof -
  have 0: "lists_ok {} blank_store" by (simp add: lists_ok_def)
  have 1: "lists_ok {0} (vListInitialise 0 blank_store)"
    "list_items (vListInitialise 0 blank_store) 0 = []"
    using vListInitialise_ok[OF 0, of 0] by (auto simp: blank_free)
  have f: "pxContainer (node_at (vListInitialise 0 blank_store) i) \<noteq> Some 1" for i
    by (simp add: vListInitialise_frame blank_free)
  show "lists_ok {0, 1} two_lists"
    using vListInitialise_ok(1)[OF 1(1) f] by (simp add: two_lists_def insert_commute)
  show "list_items two_lists 0 = []" "list_items two_lists 1 = []"
    using vListInitialise_ok(2)[OF 1(1) f, of 0] vListInitialise_ok(2)[OF 1(1) f, of 1] 1(2)
    by (auto simp: two_lists_def)
  show "pxContainer (node_at two_lists i) = None" "xItemValue (node_at two_lists i) = of_nat i"
    "pvOwner (node_at two_lists i) = 100 + i"
    by (simp_all add: two_lists_def vListInitialise_frame blank_store_def)
  show "pxIndex (list_at two_lists 0) = ListEnd 0"
    by (simp add: two_lists_def vListInitialise_def Let_def links_eval)
qed

lemma two_in_first_ok: "lists_ok {0, 1} two_in_first" "list_items two_in_first 0 = [3, 7]"
  "list_items two_in_first 1 = []"
  "pxContainer (node_at two_in_first i) = (if i = 3 \<or> i = 7 then Some 0 else None)"
  "xItemValue (node_at two_in_first i) = of_nat i" "pvOwner (node_at two_in_first i) = 100 + i"
  "pxIndex (list_at two_in_first 0) = ListEnd 0"
proof -
  note t = two_lists_ok
  have 1: "lists_ok {0, 1} (vListInsertEnd 0 3 two_lists)"
    "m \<in> {0, 1} \<Longrightarrow> list_items (vListInsertEnd 0 3 two_lists) m = (if m = 0 then [3] else [])" for m
    using vListInsertEnd_ok[OF t(1), of 0 3] t by (auto simp: insert_at_index_def)
  have 2: "pxContainer (node_at (vListInsertEnd 0 3 two_lists) 7) = None"
    using t by (simp add: frame_simps)
  show "lists_ok {0, 1} two_in_first" "list_items two_in_first 0 = [3, 7]" "list_items two_in_first 1 = []"
    using vListInsertEnd_ok[OF 1(1) _ 2, of 0] 1(2) t(6)
    by (auto simp: two_in_first_def frame_simps insert_at_index_def)
  show "pxContainer (node_at two_in_first i) = (if i = 3 \<or> i = 7 then Some 0 else None)"
    "xItemValue (node_at two_in_first i) = of_nat i" "pvOwner (node_at two_in_first i) = 100 + i"
    "pxIndex (list_at two_in_first 0) = ListEnd 0"
    using t by (simp_all add: two_in_first_def frame_simps)
qed

section \<open>Sorted insertion\<close>



section \<open>Insertion at the end and the round robin\<close>

text \<open>
  C6: The macro \<open>listGET_OWNER_OF_NEXT_ENTRY\<close>, used as many times as the list has entries, hands
  out every entry exactly once in the turn order and leaves the list where it started: the round
  robin of equal-priority tasks starves none of them.
\<close>

theorem next_entry_round_robin:
  assumes "lists_ok D h" and "l \<in> D"
  shows "\<exists>h'. next_entries (length (list_items h l)) l h
           = Some (map (\<lambda>i. pvOwner (node_at h i)) (list_turns h l), h')
     \<and> mset (list_turns h l) = mset (list_items h l)
     \<and> lists_ok {l} h' \<and> list_items h' l = list_items h l \<and> list_turns h' l = list_turns h l"
proof -
  note isl = lists_okD[OF assms]
  obtain h' where "next_entries (length (list_turns h l)) l h
        = Some (map (\<lambda>i. pvOwner (node_at h i)) (list_turns h l), h')"
    and h': "is_list h' l (list_items h l)"
    and "turn_order (pxIndex (list_at h' l)) (list_items h l) = list_turns h l"
    using next_entries_eq[OF isl, of "list_turns h l" "[]"] by (auto simp: list_turns_def)
  moreover have "list_items h' l = list_items h l" by (rule list_items_unique[OF h'])
  ultimately show ?thesis
    using turn_order_length[OF isl] turn_order_perm[OF isl]
    by (auto simp: list_turns_def lists_ok_def)
qed

theorem next_entry_round_robin_witness:
  "\<exists>h'. next_entries 2 0 two_in_first = Some ([103, 107], h') \<and> list_items h' 0 = [3, 7]"
proof -
  have "list_turns two_in_first 0 = [3, 7]" using two_in_first_ok by (simp add: list_turns_def)
  with next_entry_round_robin[OF two_in_first_ok(1), of 0] show ?thesis
    by (auto simp: two_in_first_ok numeral_2_eq_2)
qed

text \<open>
  Inserting at the end puts the item where its turn comes last, except that the entry the
  index stands on is handed out once more after it: every other entry is served before the new
  one, in unchanged order, and no other list changes.
\<close>

theorem vListInsertEnd_joins_round:
  assumes "lists_ok D h" and "l \<in> D" and "pxContainer (node_at h i) = None"
    and "Suc (length (list_items h l)) < 2 ^ 32"
  shows "lists_ok D (vListInsertEnd l i h)
     \<and> list_turns (vListInsertEnd l i h) l =
         (case pxIndex (list_at h l) of ListEnd m \<Rightarrow> list_turns h l @ [i]
          | Item y \<Rightarrow> butlast (list_turns h l) @ [i, y])
     \<and> (\<forall>m \<in> D. m \<noteq> l \<longrightarrow> list_items (vListInsertEnd l i h) m = list_items h m)"
proof -
  have "i \<notin> set (list_items h l)" using assms(3) container_iff[OF assms(1,2), of i] by auto
  from turn_order_insert_end[OF lists_okD[OF assms(1,2)] this] vListInsertEnd_ok[OF assms]
  show ?thesis by (auto simp: list_turns_def frame_simps assms(2) split: node_ptr.splits)
qed

theorem vListInsertEnd_joins_round_witness:
  "list_turns (vListInsertEnd 0 9 two_in_first) 0 = [3, 7, 9]"
  using vListInsertEnd_joins_round[OF two_in_first_ok(1), of 0 9] two_in_first_ok
  by (simp add: list_turns_def)

section \<open>Removal\<close>

text \<open>
  Removing an item takes exactly it out of the list that its container field names, returns
  the number of entries left, leaves every other list alone and the item free to be inserted
  again; the index of the list never dangles.
\<close>

theorem uxListRemove_removes:
  assumes "lists_ok D h" and "l \<in> D" and "pxContainer (node_at h i) = Some l"
  shows "\<exists>n h'. uxListRemove i h = Some (n, h') \<and> unat n = length (list_items h' l)
     \<and> lists_ok D h' \<and> list_items h' l = remove1 i (list_items h l)
     \<and> (\<forall>m \<in> D. m \<noteq> l \<longrightarrow> list_items h' m = list_items h m)
     \<and> pxContainer (node_at h' i) = None
     \<and> (pxIndex (list_at h' l) = ListEnd l \<or> pxIndex (list_at h' l) \<in> Item ` (set (list_items h l) - {i}))"
proof -
  obtain n h' where r: "uxListRemove i h = Some (n, h')" "unat n = length (list_items h l) - 1"
    "lists_ok D h'" "\<forall>m \<in> D. list_items h' m = (if m = l then remove1 i (list_items h l) else list_items h m)"
    using os_lists.take_out_good[OF assms] by metis
  have mem: "i \<in> set (list_items h l)" using container_iff[OF assms(1,2)] assms(3) by simp
  have "list_items h' l = remove1 i (list_items h l)" using r(4) assms(2) by simp
  moreover have "set (remove1 i (list_items h l)) = set (list_items h l) - {i}"
    using items_distinct[OF assms(1,2)] by simp
  moreover have "pxIndex (list_at h' l) = ListEnd l \<or> pxIndex (list_at h' l) \<in> Item ` set (list_items h' l)"
    using lists_okD[OF r(3) assms(2)] by (simp add: is_list_def)
  ultimately show ?thesis
    using r mem uxListRemove_frame(3)[OF r(1), of i] by (auto simp: length_remove1)
qed

theorem uxListRemove_removes_witness:
  "\<exists>h'. uxListRemove 3 two_in_first = Some (1, h') \<and> list_items h' 0 = [7]"
proof -
  obtain n h' where "uxListRemove 3 two_in_first = Some (n, h')" "list_items h' 0 = [7]"
    "unat n = length (list_items h' 0)"
    using uxListRemove_removes[OF two_in_first_ok(1), of 0 3] two_in_first_ok by auto
  moreover from this have "n = 1" by (simp add: word_unat_eq_iff)
  ultimately show ?thesis by auto
qed

text \<open>
  An item inserted by value and removed again leaves every list with the contents it had.
\<close>

theorem insert_remove_round_trip:
  assumes "lists_ok D h" and "l \<in> D" and "pxContainer (node_at h i) = None"
    and "Suc (length (list_items h l)) < 2 ^ 32"
  shows "\<exists>n h'. Option.bind (vListInsert l i h) (uxListRemove i) = Some (n, h')
     \<and> unat n = length (list_items h l) \<and> lists_ok D h'
     \<and> (\<forall>m \<in> D. list_items h' m = list_items h m)"
proof -
  obtain h1 where i: "vListInsert l i h = Some h1" and g: "lists_ok D h1"
    and c: "\<forall>m \<in> D. list_items h1 m = (if m = l then insert_by_value (\<lambda>x. xItemValue (node_at h x)) i (list_items h l)
                                       else list_items h m)"
    using os_lists.add_key_good[OF assms] by metis
  have free: "i \<notin> set (list_items h l)" using assms(3) container_iff[OF assms(1,2), of i] by auto
  obtain n h' where r: "uxListRemove i h1 = Some (n, h')" "unat n = length (list_items h1 l) - 1"
    "lists_ok D h'" "\<forall>m \<in> D. list_items h' m = (if m = l then remove1 i (list_items h1 l) else list_items h1 m)"
    using os_lists.take_out_good[OF g assms(2), of i] vListInsert_frame(3)[OF i, of i] by auto
  have "remove1 i (list_items h1 l) = list_items h l"
    using c assms(2) takeWhile_dropWhile_not_in[OF free]
    by (simp add: insert_by_value_def remove1_split)
  moreover have "length (list_items h1 l) = Suc (length (list_items h l))"
    using c assms(2) unfolding insert_by_value_def
    by simp (metis add_Suc_right length_append takeWhile_dropWhile_id)
  ultimately show ?thesis using i r c by auto
qed

theorem insert_remove_round_trip_witness:
  "\<exists>n h'. Option.bind (vListInsert 0 5 two_in_first) (uxListRemove 5) = Some (n, h')
     \<and> list_items h' 0 = [3, 7]"
  using insert_remove_round_trip[OF two_in_first_ok(1), of 0 5] two_in_first_ok by auto

end
