(* ===== verification/Os_State.thy ===== *)
theory Os_State
  imports Os_List_Interface Os_List_Turns
begin

unbundle bit_operations_syntax

text \<open>
  The state of the operating system: the build configuration, the task control blocks and
  scheduler variables of \<^verbatim>\<open>task.c\<close>, the queue structure of \<^verbatim>\<open>queue.h\<close> and the port
  variables of \<^verbatim>\<open>port.c\<close>, in one record that every operation takes and returns. Task and
  queue handles are their 32-bit addresses, 0 being the null pointer; a handle that is not
  allocated cannot be followed.
\<close>

section \<open>Names of lists and list items\<close>

text \<open>
  The list heads of the program: the ready array, the two delayed lists, the pending, deleted
  and suspended lists of \<^verbatim>\<open>task.c\<close>, and the two waiting lists inside each queue. Each task
  control block embeds two list items.
\<close>

datatype list_ref =
    ReadyTasksList u32
  | DelayedTaskList1
  | DelayedTaskList2
  | PendingReadyList
  | TasksWaitingTermination
  | SuspendedTaskList
  | WaitingToSend u32
  | WaitingToReceive u32

datatype item_ref = StateListItem u32 | EventListItem u32

type_synonym os_store = "(list_ref, item_ref, u32) list_store"

section \<open>Build configuration\<close>

text \<open>
  The preprocessor switches on which the modelled functions depend. \<open>as_built\<close> is what
  \<^verbatim>\<open>config.h\<close>, \<^verbatim>\<open>port.h\<close> and the Makefile of this repository give: none of these switches is
  defined, and an undefined name is 0 in a preprocessor test.
\<close>

record os_config =
  INCLUDE_vTaskSuspend :: bool
  INCLUDE_vTaskDelete :: bool
  INCLUDE_xTaskAbortDelay :: bool
  configUSE_TICKLESS_IDLE :: bool
  configUSE_TIME_SLICING :: bool
  configUSE_TASK_NOTIFICATIONS :: bool

definition as_built :: os_config where
  "as_built = \<lparr>INCLUDE_vTaskSuspend = False, INCLUDE_vTaskDelete = False,
     INCLUDE_xTaskAbortDelay = False, configUSE_TICKLESS_IDLE = False,
     configUSE_TIME_SLICING = False, configUSE_TASK_NOTIFICATIONS = False\<rparr>"

definition configMAX_PRIORITIES :: u32 where
  "configMAX_PRIORITIES = 0xf"

definition tskIDLE_PRIORITY :: u32 where
  "tskIDLE_PRIORITY = 0"

definition configMAX_TASK_NAME_LEN :: nat where
  "configMAX_TASK_NAME_LEN = 16"

definition configINITIAL_TICK_COUNT :: u32 where
  "configINITIAL_TICK_COUNT = 0"

definition taskEVENT_LIST_ITEM_VALUE_IN_USE :: u32 where
  "taskEVENT_LIST_ITEM_VALUE_IN_USE = 0x80000000"

section \<open>Task control blocks and queues\<close>

record TCB =
  pxTopOfStack :: u32
  uxPriority :: u32
  pxStack :: u32
  pcTaskName :: "u8 list"
  uxBasePriority :: u32
  uxMutexesHeld :: u32
  ulNotifiedValue :: u32
  ucNotifyState :: u8
  ucDelayAborted :: bool

definition taskNOT_WAITING_NOTIFICATION :: u8 where "taskNOT_WAITING_NOTIFICATION = 0"
definition taskWAITING_NOTIFICATION :: u8 where "taskWAITING_NOTIFICATION = 1"
definition taskNOTIFICATION_RECEIVED :: u8 where "taskNOTIFICATION_RECEIVED = 2"

text \<open>
  The union \<open>u\<close> of a queue holds two words: \<open>pcTail\<close> and \<open>pcReadFrom\<close> of a queue proper share
  them with \<open>xMutexHolder\<close> and \<open>uxRecursiveCallCount\<close> of a semaphore. The waiting lists are the
  list heads \<open>WaitingToSend q\<close> and \<open>WaitingToReceive q\<close> of the store.
\<close>

record Queue =
  pcHead :: u32
  pcWriteTo :: u32
  u_word0 :: u32
  u_word1 :: u32
  uxMessagesWaiting :: u32
  uxLength :: u32
  uxItemSize :: u32
  cRxLock :: u8
  cTxLock :: u8

abbreviation pcTail :: "Queue \<Rightarrow> u32" where "pcTail q \<equiv> u_word0 q"
abbreviation pcReadFrom :: "Queue \<Rightarrow> u32" where "pcReadFrom q \<equiv> u_word1 q"
abbreviation xMutexHolder :: "Queue \<Rightarrow> u32" where "xMutexHolder q \<equiv> u_word0 q"
abbreviation uxRecursiveCallCount :: "Queue \<Rightarrow> u32" where "uxRecursiveCallCount q \<equiv> u_word1 q"

section \<open>The whole state\<close>

text \<open>
  The heap behind \<open>pvPortMalloc\<close> and \<open>vPortFree\<close> is the C library's; the state records the calls
  made to it, so an allocator is any function of that history.
\<close>

datatype heap_call = HeapAlloc u32 u32 | HeapFree u32

record os =
  klists :: os_store
  tcbs :: "u32 \<rightharpoonup> TCB"
  pxCurrentTCB :: u32
  pxDelayedTaskList :: "list_ref option"
  pxOverflowDelayedTaskList :: "list_ref option"
  uxDeletedTasksWaitingCleanUp :: u32
  uxCurrentNumberOfTasks :: u32
  xTickCount :: u32
  uxTopReadyPriority :: u32
  xSchedulerRunning :: bool
  uxPendedTicks :: u32
  xYieldPending :: bool
  xNumOfOverflows :: u32
  uxTaskNumber :: u32
  xNextTaskUnblockTime :: u32
  xIdleTaskHandle :: u32
  uxSchedulerSuspended :: u32
  uxCriticalNesting :: u32
  PENDING_SOFT_SV :: bool
  PENDING_MACLAYER_SV :: bool
  soft_interrupt :: bool
  stack_overflow_hook_calls :: "u32 list"
  queues :: "u32 \<rightharpoonup> Queue"
  mem :: "u32 \<Rightarrow> u8"
  heap_log :: "heap_call list"

definition upd_tcb :: "u32 \<Rightarrow> (TCB \<Rightarrow> TCB) \<Rightarrow> os \<Rightarrow> os option" where
  "upd_tcb t f s = do { tcb \<leftarrow> tcbs s t; Some (s\<lparr>tcbs := (tcbs s)(t \<mapsto> f tcb)\<rparr>) }"

text \<open>The three list operations on the lists of the state.\<close>

definition os_remove :: "item_ref \<Rightarrow> os \<Rightarrow> (u32 \<times> os) option" where
  "os_remove i s = do { (n, h) \<leftarrow> uxListRemove i (klists s); Some (n, s\<lparr>klists := h\<rparr>) }"

definition os_insert :: "list_ref \<Rightarrow> item_ref \<Rightarrow> os \<Rightarrow> os option" where
  "os_insert l i s = do { h \<leftarrow> vListInsert l i (klists s); Some (s\<lparr>klists := h\<rparr>) }"

definition os_insert_end :: "list_ref \<Rightarrow> item_ref \<Rightarrow> os \<Rightarrow> os" where
  "os_insert_end l i s = s\<lparr>klists := vListInsertEnd l i (klists s)\<rparr>"

definition os_set_value :: "item_ref \<Rightarrow> u32 \<Rightarrow> os \<Rightarrow> os" where
  "os_set_value i v s = s\<lparr>klists := listSET_LIST_ITEM_VALUE i v (klists s)\<rparr>"

definition os_set_owner :: "item_ref \<Rightarrow> u32 \<Rightarrow> os \<Rightarrow> os" where
  "os_set_owner i v s = s\<lparr>klists := listSET_LIST_ITEM_OWNER i v (klists s)\<rparr>"

definition os_init_item :: "item_ref \<Rightarrow> os \<Rightarrow> os" where
  "os_init_item i s = s\<lparr>klists := vListInitialiseItem i (klists s)\<rparr>"

definition os_init_list :: "list_ref \<Rightarrow> os \<Rightarrow> os" where
  "os_init_list l s = s\<lparr>klists := vListInitialise l (klists s)\<rparr>"

section \<open>Memory\<close>

text \<open>Words are stored little endian; a block fill goes from the start address upwards.\<close>

definition read_u32 :: "(u32 \<Rightarrow> u8) \<Rightarrow> u32 \<Rightarrow> u32" where
  "read_u32 m a = ucast (m a) OR push_bit 8 (ucast (m (a + 1)))
     OR push_bit 16 (ucast (m (a + 2))) OR push_bit 24 (ucast (m (a + 3)))"

definition write_u32 :: "u32 \<Rightarrow> u32 \<Rightarrow> (u32 \<Rightarrow> u8) \<Rightarrow> (u32 \<Rightarrow> u8)" where
  "write_u32 a v m = m(a := ucast v, a + 1 := ucast (drop_bit 8 v),
     a + 2 := ucast (drop_bit 16 v), a + 3 := ucast (drop_bit 24 v))"

definition memset_bytes :: "u32 \<Rightarrow> u8 \<Rightarrow> u32 \<Rightarrow> (u32 \<Rightarrow> u8) \<Rightarrow> (u32 \<Rightarrow> u8)" where
  "memset_bytes a v n m = (\<lambda>x. if x - a < n then v else m x)"

text \<open>Copying between regions that do not overlap, as \<open>memcpy\<close> requires.\<close>

definition memcpy_bytes :: "u32 \<Rightarrow> u32 \<Rightarrow> u32 \<Rightarrow> (u32 \<Rightarrow> u8) \<Rightarrow> (u32 \<Rightarrow> u8)" where
  "memcpy_bytes dst src n m = (\<lambda>x. if x - dst < n then m (src + (x - dst)) else m x)"

definition pvPortMalloc :: "(u32 \<Rightarrow> os \<Rightarrow> u32) \<Rightarrow> u32 \<Rightarrow> os \<Rightarrow> u32 \<times> os" where
  "pvPortMalloc malloc sz s =
     (let a = malloc sz s in (a, s\<lparr>heap_log := heap_log s @ [HeapAlloc sz a]\<rparr>))"

definition vPortFree :: "u32 \<Rightarrow> os \<Rightarrow> os" where
  "vPortFree a s = s\<lparr>heap_log := heap_log s @ [HeapFree a]\<rparr>"

section \<open>The port layer: port.c\<close>

text \<open>
  Entering and leaving a critical section only counts: the calls that would disable and enable
  interrupts are commented out in \<^verbatim>\<open>port.c\<close>.
\<close>

definition vPortEnterCritical :: "os \<Rightarrow> os" where
  "vPortEnterCritical s = s\<lparr>uxCriticalNesting := uxCriticalNesting s + 1\<rparr>"

definition vPortExitCritical :: "os \<Rightarrow> os" where
  "vPortExitCritical s = s\<lparr>uxCriticalNesting := uxCriticalNesting s - 1\<rparr>"

datatype SVCReqType = SVCSoftware | SVCMACLayer

fun PendSV :: "SVCReqType \<Rightarrow> os \<Rightarrow> os" where
  "PendSV SVCSoftware s =
     vPortExitCritical (vPortEnterCritical s\<lparr>PENDING_SOFT_SV := True, soft_interrupt := True\<rparr>)"
| "PendSV SVCMACLayer s = s\<lparr>PENDING_MACLAYER_SV := True, soft_interrupt := True\<rparr>"

definition portYIELD :: "os \<Rightarrow> os" where
  "portYIELD s = PendSV SVCSoftware s"

end
