(* ===== verification/Os_Task.thy ===== *)
theory Os_Task
  imports Os_State
begin

text \<open>
  The scheduler core of \<^verbatim>\<open>src/ffi/os/task.c\<close>: ready lists, context switch, tick, delayed lists,
  scheduler suspension, event lists, time-outs and priority inheritance. Every function takes
  the state and returns the new one; \<open>None\<close> is a null or dangling handle followed, an array
  index out of range, or a loop that does not end. \<open>configASSERT\<close> expands to nothing
  (\<^verbatim>\<open>port.h\<close>) and has no counterpart here; \<open>mtCOVERAGE_TEST_MARKER\<close> likewise.
\<close>

definition prvGetTCBFromHandle :: "u32 \<Rightarrow> os \<Rightarrow> u32" where
  "prvGetTCBFromHandle pxHandle s = (if pxHandle = 0 then pxCurrentTCB s else pxHandle)"

section \<open>Ready lists\<close>

definition taskRECORD_READY_PRIORITY :: "u32 \<Rightarrow> os \<Rightarrow> os" where
  "taskRECORD_READY_PRIORITY p s =
     (if p > uxTopReadyPriority s then s\<lparr>uxTopReadyPriority := p\<rparr> else s)"

definition prvAddTaskToReadyList :: "u32 \<Rightarrow> os \<Rightarrow> os option" where
  "prvAddTaskToReadyList t s =
     do {
       tcb \<leftarrow> tcbs s t;
       let s1 = taskRECORD_READY_PRIORITY (uxPriority tcb) s;
       (if uxPriority tcb < configMAX_PRIORITIES
        then Some (os_insert_end (ReadyTasksList (uxPriority tcb)) (StateListItem t) s1)
        else None)
     }"

text \<open>
  The search of \<open>taskSELECT_HIGHEST_PRIORITY_TASK\<close>. With every ready list empty the code goes on
  below index 0 and reads outside the array.
\<close>

partial_function (option) top_ready_search :: "os_store \<Rightarrow> u32 \<Rightarrow> u32 option" where
  "top_ready_search h p =
     (if \<not> p < configMAX_PRIORITIES then None
      else if listLIST_IS_EMPTY (ReadyTasksList p) h then top_ready_search h (p - 1)
      else Some p)"

definition taskSELECT_HIGHEST_PRIORITY_TASK :: "os \<Rightarrow> os option" where
  "taskSELECT_HIGHEST_PRIORITY_TASK s =
     do {
       p \<leftarrow> top_ready_search (klists s) (uxTopReadyPriority s);
       (t, h) \<leftarrow> listGET_OWNER_OF_NEXT_ENTRY (ReadyTasksList p) (klists s);
       Some (s\<lparr>klists := h, pxCurrentTCB := t, uxTopReadyPriority := p\<rparr>)
     }"

section \<open>Stack overflow check: stack_macros.h\<close>

text \<open>
  With \<open>configCHECK_FOR_STACK_OVERFLOW\<close> 2 and a stack that grows down, the last definition of the
  macro holds: the four lowest words of the stack must still have the fill pattern. The hook
  it calls is the application's; the state records the call.
\<close>

definition taskCHECK_FOR_STACK_OVERFLOW :: "os \<Rightarrow> os option" where
  "taskCHECK_FOR_STACK_OVERFLOW s =
     do {
       tcb \<leftarrow> tcbs s (pxCurrentTCB s);
       (if read_u32 (mem s) (pxStack tcb) \<noteq> 0xa5a5a5a5 \<or>
           read_u32 (mem s) (pxStack tcb + 4) \<noteq> 0xa5a5a5a5 \<or>
           read_u32 (mem s) (pxStack tcb + 8) \<noteq> 0xa5a5a5a5 \<or>
           read_u32 (mem s) (pxStack tcb + 12) \<noteq> 0xa5a5a5a5
        then Some (s\<lparr>stack_overflow_hook_calls := stack_overflow_hook_calls s @ [pxCurrentTCB s]\<rparr>)
        else Some s)
     }"

definition vTaskSwitchContext :: "os \<Rightarrow> os option" where
  "vTaskSwitchContext s =
     (if uxSchedulerSuspended s \<noteq> 0 then Some (s\<lparr>xYieldPending := True\<rparr>)
      else do {
        let s1 = s\<lparr>xYieldPending := False\<rparr>;
        s2 \<leftarrow> taskCHECK_FOR_STACK_OVERFLOW s1;
        taskSELECT_HIGHEST_PRIORITY_TASK s2
      })"

section \<open>Delayed lists\<close>

definition prvResetNextTaskUnblockTime :: "os \<Rightarrow> os option" where
  "prvResetNextTaskUnblockTime s =
     do {
       dl \<leftarrow> pxDelayedTaskList s;
       (if listLIST_IS_EMPTY dl (klists s) then Some (s\<lparr>xNextTaskUnblockTime := portMAX_DELAY\<rparr>)
        else do {
          t \<leftarrow> listGET_OWNER_OF_HEAD_ENTRY dl (klists s);
          _ \<leftarrow> tcbs s t;
          Some (s\<lparr>xNextTaskUnblockTime := listGET_LIST_ITEM_VALUE (StateListItem t) (klists s)\<rparr>)
        })
     }"

definition taskSWITCH_DELAYED_LISTS :: "os \<Rightarrow> os option" where
  "taskSWITCH_DELAYED_LISTS s =
     prvResetNextTaskUnblockTime
       (s\<lparr>pxDelayedTaskList := pxOverflowDelayedTaskList s,
          pxOverflowDelayedTaskList := pxDelayedTaskList s,
          xNumOfOverflows := xNumOfOverflows s + 1\<rparr>)"

definition prvAddCurrentTaskToDelayedList :: "os_config \<Rightarrow> u32 \<Rightarrow> bool \<Rightarrow> os \<Rightarrow> os option" where
  "prvAddCurrentTaskToDelayedList cfg xTicksToWait xCanBlockIndefinitely s =
     do {
       let xConstTickCount = xTickCount s;
       let cur = pxCurrentTCB s;
       s1 \<leftarrow> (if INCLUDE_xTaskAbortDelay cfg then upd_tcb cur (\<lambda>t. t\<lparr>ucDelayAborted := False\<rparr>) s
              else Some s);
       _ \<leftarrow> tcbs s1 cur;
       (_, s2) \<leftarrow> os_remove (StateListItem cur) s1;
       (if INCLUDE_vTaskSuspend cfg \<and> xTicksToWait = portMAX_DELAY \<and> xCanBlockIndefinitely
        then Some (os_insert_end SuspendedTaskList (StateListItem cur) s2)
        else do {
          let xTimeToWake = xConstTickCount + xTicksToWait;
          let s3 = os_set_value (StateListItem cur) xTimeToWake s2;
          (if xTimeToWake < xConstTickCount
           then do {
             ol \<leftarrow> pxOverflowDelayedTaskList s3;
             os_insert ol (StateListItem cur) s3
           }
           else do {
             dl \<leftarrow> pxDelayedTaskList s3;
             s4 \<leftarrow> os_insert dl (StateListItem cur) s3;
             Some (if xTimeToWake < xNextTaskUnblockTime s4
                   then s4\<lparr>xNextTaskUnblockTime := xTimeToWake\<rparr> else s4)
           })
        })
     }"

section \<open>The tick\<close>

text \<open>
  The loop that unblocks the tasks whose time has come. It carries \<open>xSwitchRequired\<close> and ends at
  an empty list or at a head entry that is due later.
\<close>

partial_function (option) tick_unblock_loop :: "u32 \<Rightarrow> bool \<Rightarrow> os \<Rightarrow> (bool \<times> os) option" where
  "tick_unblock_loop xConstTickCount xSwitchRequired s =
     do {
       dl \<leftarrow> pxDelayedTaskList s;
       (if listLIST_IS_EMPTY dl (klists s)
        then Some (xSwitchRequired, s\<lparr>xNextTaskUnblockTime := portMAX_DELAY\<rparr>)
        else do {
          t \<leftarrow> listGET_OWNER_OF_HEAD_ENTRY dl (klists s);
          _ \<leftarrow> tcbs s t;
          let xItemValue = listGET_LIST_ITEM_VALUE (StateListItem t) (klists s);
          (if xConstTickCount < xItemValue
           then Some (xSwitchRequired, s\<lparr>xNextTaskUnblockTime := xItemValue\<rparr>)
           else do {
             (_, s1) \<leftarrow> os_remove (StateListItem t) s;
             s2 \<leftarrow> (if listLIST_ITEM_CONTAINER (EventListItem t) (klists s1) \<noteq> None
                    then do { (_, s') \<leftarrow> os_remove (EventListItem t) s1; Some s' } else Some s1);
             s3 \<leftarrow> prvAddTaskToReadyList t s2;
             tcb \<leftarrow> tcbs s3 t;
             cur \<leftarrow> tcbs s3 (pxCurrentTCB s3);
             tick_unblock_loop xConstTickCount
               (if uxPriority tcb \<ge> uxPriority cur then True else xSwitchRequired) s3
           })
        })
     }"

definition xTaskIncrementTick :: "os_config \<Rightarrow> os \<Rightarrow> (bool \<times> os) option" where
  "xTaskIncrementTick cfg s =
     do {
       (sw, s') \<leftarrow>
         (if uxSchedulerSuspended s = 0
          then do {
            let xConstTickCount = xTickCount s + 1;
            let s1 = s\<lparr>xTickCount := xConstTickCount\<rparr>;
            s2 \<leftarrow> (if xConstTickCount = 0 then taskSWITCH_DELAYED_LISTS s1 else Some s1);
            (sw1, s3) \<leftarrow> (if xConstTickCount \<ge> xNextTaskUnblockTime s2
                          then tick_unblock_loop xConstTickCount False s2 else Some (False, s2));
            (if configUSE_TIME_SLICING cfg
             then do {
               cur \<leftarrow> tcbs s3 (pxCurrentTCB s3);
               (if \<not> uxPriority cur < configMAX_PRIORITIES then None
                else Some (if listCURRENT_LIST_LENGTH (ReadyTasksList (uxPriority cur)) (klists s3) > 1
                           then True else sw1, s3))
             }
             else Some (sw1, s3))
          }
          else Some (False, s\<lparr>uxPendedTicks := uxPendedTicks s + 1\<rparr>));
       Some (if xYieldPending s' then True else sw, s')
     }"

section \<open>Suspending and resuming the scheduler\<close>

definition vTaskSuspendAll :: "os \<Rightarrow> os" where
  "vTaskSuspendAll s = s\<lparr>uxSchedulerSuspended := uxSchedulerSuspended s + 1\<rparr>"

text \<open>
  The loop over the pending ready list; it also returns \<open>pxTCB\<close>, null when the list was empty.
\<close>

partial_function (option) pending_ready_loop :: "u32 \<Rightarrow> os \<Rightarrow> (u32 \<times> os) option" where
  "pending_ready_loop pxTCB s =
     (if listLIST_IS_EMPTY PendingReadyList (klists s) then Some (pxTCB, s)
      else do {
        t \<leftarrow> listGET_OWNER_OF_HEAD_ENTRY PendingReadyList (klists s);
        _ \<leftarrow> tcbs s t;
        (_, s1) \<leftarrow> os_remove (EventListItem t) s;
        (_, s2) \<leftarrow> os_remove (StateListItem t) s1;
        s3 \<leftarrow> prvAddTaskToReadyList t s2;
        tcb \<leftarrow> tcbs s3 t;
        cur \<leftarrow> tcbs s3 (pxCurrentTCB s3);
        pending_ready_loop t (if uxPriority tcb \<ge> uxPriority cur then s3\<lparr>xYieldPending := True\<rparr> else s3)
      })"

text \<open>The loop that replays the ticks missed while the scheduler was suspended.\<close>

fun pended_ticks_loop :: "os_config \<Rightarrow> nat \<Rightarrow> os \<Rightarrow> os option" where
  "pended_ticks_loop cfg 0 s = Some s"
| "pended_ticks_loop cfg (Suc n) s =
     do {
       (sw, s1) \<leftarrow> xTaskIncrementTick cfg s;
       pended_ticks_loop cfg n (if sw then s1\<lparr>xYieldPending := True\<rparr> else s1)
     }"

definition xTaskResumeAll :: "os_config \<Rightarrow> os \<Rightarrow> (bool \<times> os) option" where
  "xTaskResumeAll cfg s =
     do {
       let s1 = vPortEnterCritical s;
       let s2 = s1\<lparr>uxSchedulerSuspended := uxSchedulerSuspended s1 - 1\<rparr>;
       (xAlreadyYielded, s3) \<leftarrow>
         (if uxSchedulerSuspended s2 = 0 \<and> uxCurrentNumberOfTasks s2 > 0
          then do {
            (pxTCB, s4) \<leftarrow> pending_ready_loop 0 s2;
            s5 \<leftarrow> (if pxTCB \<noteq> 0 then prvResetNextTaskUnblockTime s4 else Some s4);
            s6 \<leftarrow> (if uxPendedTicks s5 > 0
                   then do { s' \<leftarrow> pended_ticks_loop cfg (unat (uxPendedTicks s5)) s5;
                             Some (s'\<lparr>uxPendedTicks := 0\<rparr>) }
                   else Some s5);
            Some (if xYieldPending s6 then (True, portYIELD s6) else (False, s6))
          }
          else Some (False, s2));
       Some (xAlreadyYielded, vPortExitCritical s3)
     }"

end
