(* ===== verification/Os_Task_Create.thy ===== *)
theory Os_Task_Create
  imports Os_Task
begin

text \<open>
  Creating and deleting tasks: \<open>pxPortInitialiseStack\<close> of \<^verbatim>\<open>src/ffi/os/port.c\<close> and the creation
  and deletion functions of \<^verbatim>\<open>src/ffi/os/task.c\<close>. The allocator is the C library's: \<open>malloc\<close>
  gives the address it returns (0 when there is no memory) for a size and a state, and
  \<open>fresh\<close> what the bytes of a new task control block hold.
\<close>

section \<open>The initial stack frame\<close>

text \<open>
  Sizes and addresses that the toolchain's processor headers and the linker give: the size of a
  task control block, the exception frame and coprocessor area of \<^verbatim>\<open>xtensa_context.h\<close>, and the
  address of \<open>_xt_user_exit\<close>.
\<close>

record port_params =
  sizeof_TCB :: u32
  XT_STK_FRMSZ :: u32
  XT_CP_SIZE :: u32
  xt_user_exit :: u32

definition sizeof_StackType :: u32 where "sizeof_StackType = 4"
definition portBYTE_ALIGNMENT_MASK :: u32 where "portBYTE_ALIGNMENT_MASK = 7"

definition PS_UM :: u32 where "PS_UM = 0x20"
definition PS_EXCM :: u32 where "PS_EXCM = 0x10"

text \<open>The loop that clears the frame, from \<open>sp\<close> up to and including the top word.\<close>

partial_function (option) clear_frame_loop ::
    "u32 \<Rightarrow> u32 \<Rightarrow> (u32 \<Rightarrow> u8) \<Rightarrow> (u32 \<Rightarrow> u8) option" where
  "clear_frame_loop tp tos m =
     (if tp \<le> tos then clear_frame_loop (tp + 4) tos (write_u32 tp 0 m) else Some m)"

definition initial_sp :: "port_params \<Rightarrow> u32 \<Rightarrow> u32" where
  "initial_sp pp tos = (tos + 4 - XT_CP_SIZE pp - XT_STK_FRMSZ pp) AND NOT 0xf"

definition pxPortInitialiseStack :: "port_params \<Rightarrow> u32 \<Rightarrow> u32 \<Rightarrow> u32 \<Rightarrow> os \<Rightarrow> (u32 \<times> os) option" where
  "pxPortInitialiseStack pp tos pxCode pvParameters s =
     do {
       let sp = initial_sp pp tos;
       m0 \<leftarrow> clear_frame_loop sp tos (mem s);
       let m1 = write_u32 (sp + 0x04) pxCode m0;
       let m2 = write_u32 (sp + 0x0C) 0 m1;
       let m3 = write_u32 (sp + 0x10) (sp + XT_STK_FRMSZ pp) m2;
       let m4 = write_u32 (sp + 0x14) pvParameters m3;
       let m5 = write_u32 (sp + 0x00) (xt_user_exit pp) m4;
       let m6 = write_u32 (sp + 0x08) (PS_UM OR PS_EXCM) m5;
       Some (sp, s\<lparr>mem := m6\<rparr>)
     }"

section \<open>Initialising a task control block\<close>

definition tskSTACK_FILL_BYTE :: u8 where "tskSTACK_FILL_BYTE = 0xa5"

definition new_task_stack_top :: "u32 \<Rightarrow> u32 \<Rightarrow> u32" where
  "new_task_stack_top stack ulStackDepth =
     (stack + sizeof_StackType * (ulStackDepth - 1)) AND NOT portBYTE_ALIGNMENT_MASK"

text \<open>The loop over the characters of the name, from index \<open>x\<close> on; it copies the terminator.\<close>

function copy_name_loop :: "(u32 \<Rightarrow> u8) \<Rightarrow> u32 \<Rightarrow> nat \<Rightarrow> u8 list \<Rightarrow> u8 list" where
  "copy_name_loop m pcName x name =
     (if x < configMAX_TASK_NAME_LEN
      then (let c = m (pcName + of_nat x); name1 = name[x := c]
            in if c = 0 then name1 else copy_name_loop m pcName (Suc x) name1)
      else name)"
  by pat_completeness auto
termination by (relation "measure (\<lambda>(m, pcName, x, name). configMAX_TASK_NAME_LEN - x)") auto

declare copy_name_loop.simps [simp del]

definition set_task_name :: "(u32 \<Rightarrow> u8) \<Rightarrow> u32 \<Rightarrow> u8 list \<Rightarrow> u8 list" where
  "set_task_name m pcName name =
     (if pcName \<noteq> 0
      then (copy_name_loop m pcName 0 name)[configMAX_TASK_NAME_LEN - 1 := 0]
      else name[0 := 0])"

definition clamp_priority :: "u32 \<Rightarrow> u32" where
  "clamp_priority p = (if p \<ge> configMAX_PRIORITIES then configMAX_PRIORITIES - 1 else p)"

definition prvInitialiseNewTask :: "port_params \<Rightarrow> os_config \<Rightarrow> u32 \<Rightarrow> u32 \<Rightarrow> u32 \<Rightarrow> u32 \<Rightarrow> u32 \<Rightarrow> u32
    \<Rightarrow> os \<Rightarrow> os option" where
  "prvInitialiseNewTask pp cfg pxTaskCode pcName ulStackDepth pvParameters uxPri pxNewTCB s =
     do {
       tcb \<leftarrow> tcbs s pxNewTCB;
       let s1 = s\<lparr>mem := memset_bytes (pxStack tcb) tskSTACK_FILL_BYTE (ulStackDepth * sizeof_StackType) (mem s)\<rparr>;
       let top = new_task_stack_top (pxStack tcb) ulStackDepth;
       let p = clamp_priority uxPri;
       s2 \<leftarrow> upd_tcb pxNewTCB (\<lambda>t. t\<lparr>pcTaskName := set_task_name (mem s1) pcName (pcTaskName t),
                                       uxPriority := p, uxBasePriority := p, uxMutexesHeld := 0\<rparr>) s1;
       let s3 = os_init_item (StateListItem pxNewTCB) s2;
       let s4 = os_init_item (EventListItem pxNewTCB) s3;
       let s5 = os_set_owner (StateListItem pxNewTCB) pxNewTCB s4;
       let s6 = os_set_value (EventListItem pxNewTCB) (configMAX_PRIORITIES - p) s5;
       let s7 = os_set_owner (EventListItem pxNewTCB) pxNewTCB s6;
       s8 \<leftarrow> (if configUSE_TASK_NOTIFICATIONS cfg
              then upd_tcb pxNewTCB (\<lambda>t. t\<lparr>ulNotifiedValue := 0,
                                              ucNotifyState := taskNOT_WAITING_NOTIFICATION\<rparr>) s7
              else Some s7);
       s9 \<leftarrow> (if INCLUDE_xTaskAbortDelay cfg
              then upd_tcb pxNewTCB (\<lambda>t. t\<lparr>ucDelayAborted := False\<rparr>) s8 else Some s8);
       (sp, s10) \<leftarrow> pxPortInitialiseStack pp top pxTaskCode pvParameters s9;
       upd_tcb pxNewTCB (\<lambda>t. t\<lparr>pxTopOfStack := sp\<rparr>) s10
     }"

section \<open>The kernel's lists and the new task\<close>

text \<open>The loop over the ready array from index \<open>p\<close> on.\<close>

function init_ready_lists :: "nat \<Rightarrow> os \<Rightarrow> os" where
  "init_ready_lists p s =
     (if p < unat configMAX_PRIORITIES
      then init_ready_lists (Suc p) (os_init_list (ReadyTasksList (of_nat p)) s) else s)"
  by pat_completeness auto
termination by (relation "measure (\<lambda>(p, s). unat configMAX_PRIORITIES - p)") auto

declare init_ready_lists.simps [simp del]

definition prvInitialiseTaskLists :: "os_config \<Rightarrow> os \<Rightarrow> os" where
  "prvInitialiseTaskLists cfg s =
     (let s1 = init_ready_lists 0 s;
          s2 = os_init_list DelayedTaskList1 s1;
          s3 = os_init_list DelayedTaskList2 s2;
          s4 = os_init_list PendingReadyList s3;
          s5 = (if INCLUDE_vTaskDelete cfg then os_init_list TasksWaitingTermination s4 else s4);
          s6 = (if INCLUDE_vTaskSuspend cfg then os_init_list SuspendedTaskList s5 else s5)
      in s6\<lparr>pxDelayedTaskList := Some DelayedTaskList1,
            pxOverflowDelayedTaskList := Some DelayedTaskList2\<rparr>)"

definition prvAddNewTaskToReadyList :: "os_config \<Rightarrow> u32 \<Rightarrow> os \<Rightarrow> os option" where
  "prvAddNewTaskToReadyList cfg pxNewTCB s =
     do {
       let s1 = vPortEnterCritical s;
       let s2 = s1\<lparr>uxCurrentNumberOfTasks := uxCurrentNumberOfTasks s1 + 1\<rparr>;
       new \<leftarrow> tcbs s2 pxNewTCB;
       s3 \<leftarrow> (if pxCurrentTCB s2 = 0
              then do {
                let s' = s2\<lparr>pxCurrentTCB := pxNewTCB\<rparr>;
                Some (if uxCurrentNumberOfTasks s' = 1 then prvInitialiseTaskLists cfg s' else s')
              }
              else if \<not> xSchedulerRunning s2
              then do {
                cur \<leftarrow> tcbs s2 (pxCurrentTCB s2);
                Some (if uxPriority cur \<le> uxPriority new then s2\<lparr>pxCurrentTCB := pxNewTCB\<rparr> else s2)
              }
              else Some s2);
       let s4 = s3\<lparr>uxTaskNumber := uxTaskNumber s3 + 1\<rparr>;
       s5 \<leftarrow> prvAddTaskToReadyList pxNewTCB s4;
       let s6 = vPortExitCritical s5;
       (if xSchedulerRunning s6
        then do {
          cur \<leftarrow> tcbs s6 (pxCurrentTCB s6);
          Some (if uxPriority cur < uxPriority new then portYIELD s6 else s6)
        }
        else Some s6)
     }"

text \<open>
  \<open>None\<close> in the first component is \<open>errCOULD_NOT_ALLOCATE_REQUIRED_MEMORY\<close>, \<open>Some t\<close> success with
  the handle written through \<open>pxCreatedTask\<close>. The depth is a 16-bit count of words.
\<close>

definition xTaskCreate :: "port_params \<Rightarrow> os_config \<Rightarrow> (u32 \<Rightarrow> os \<Rightarrow> u32) \<Rightarrow> TCB \<Rightarrow> u32 \<Rightarrow> u32 \<Rightarrow> u16
    \<Rightarrow> u32 \<Rightarrow> u32 \<Rightarrow> os \<Rightarrow> (u32 option \<times> os) option" where
  "xTaskCreate pp cfg malloc fresh pxTaskCode pcName usStackDepth pvParameters uxPri s =
     (let (stack, s1) = pvPortMalloc malloc (ucast usStackDepth * sizeof_StackType) s in
      if stack = 0 then Some (None, s1)
      else
        (let (pxNewTCB, s2) = pvPortMalloc malloc (sizeof_TCB pp) s1 in
         if pxNewTCB = 0 then Some (None, vPortFree stack s2)
         else do {
           let s3 = s2\<lparr>tcbs := (tcbs s2)(pxNewTCB \<mapsto> fresh\<lparr>pxStack := stack\<rparr>)\<rparr>;
           s4 \<leftarrow> prvInitialiseNewTask pp cfg pxTaskCode pcName (ucast usStackDepth) pvParameters uxPri
                    pxNewTCB s3;
           s5 \<leftarrow> prvAddNewTaskToReadyList cfg pxNewTCB s4;
           Some (Some pxNewTCB, s5)
         }))"

text \<open>The wrapper of \<^verbatim>\<open>port.c\<close> ignores the stack buffer and the memory regions.\<close>

definition xTaskGenericCreate :: "port_params \<Rightarrow> os_config \<Rightarrow> (u32 \<Rightarrow> os \<Rightarrow> u32) \<Rightarrow> TCB \<Rightarrow> u32 \<Rightarrow> u32 \<Rightarrow> u16
    \<Rightarrow> u32 \<Rightarrow> u32 \<Rightarrow> u32 \<Rightarrow> u32 \<Rightarrow> os \<Rightarrow> (u32 option \<times> os) option" where
  "xTaskGenericCreate pp cfg malloc fresh pxTaskCode pcName usStackDepth pvParameters uxPri
       puxStackBuffer xRegions s =
     xTaskCreate pp cfg malloc fresh pxTaskCode pcName usStackDepth pvParameters uxPri s"

section \<open>Deletion\<close>

text \<open>A freed control block can no longer be followed.\<close>

definition prvDeleteTCB :: "u32 \<Rightarrow> os \<Rightarrow> os option" where
  "prvDeleteTCB t s =
     do {
       tcb \<leftarrow> tcbs s t;
       let s1 = vPortFree (pxStack tcb) s;
       Some ((vPortFree t s1)\<lparr>tcbs := (tcbs s1)(t := None)\<rparr>)
     }"

definition remove_event_item :: "u32 \<Rightarrow> os \<Rightarrow> os option" where
  "remove_event_item t s =
     (if listLIST_ITEM_CONTAINER (EventListItem t) (klists s) \<noteq> None
      then do { (_, s') \<leftarrow> os_remove (EventListItem t) s; Some s' } else Some s)"

definition vTaskDelete :: "u32 \<Rightarrow> os \<Rightarrow> os option" where
  "vTaskDelete xTaskToDelete s =
     do {
       let s1 = vPortEnterCritical s;
       let t = prvGetTCBFromHandle xTaskToDelete s1;
       _ \<leftarrow> tcbs s1 t;
       (_, s2) \<leftarrow> os_remove (StateListItem t) s1;
       s3 \<leftarrow> remove_event_item t s2;
       let s4 = s3\<lparr>uxTaskNumber := uxTaskNumber s3 + 1\<rparr>;
       s5 \<leftarrow> (if t = pxCurrentTCB s4
              then do {
                let s' = os_insert_end TasksWaitingTermination (StateListItem t) s4;
                Some (s'\<lparr>uxDeletedTasksWaitingCleanUp := uxDeletedTasksWaitingCleanUp s' + 1\<rparr>)
              }
              else do {
                let s' = s4\<lparr>uxCurrentNumberOfTasks := uxCurrentNumberOfTasks s4 - 1\<rparr>;
                s'' \<leftarrow> prvDeleteTCB t s';
                prvResetNextTaskUnblockTime s''
              });
       let s6 = vPortExitCritical s5;
       Some (if xSchedulerRunning s6 \<and> t = pxCurrentTCB s6 then portYIELD s6 else s6)
     }"

text \<open>The clean-up the idle task does for tasks that deleted themselves.\<close>

partial_function (option) cleanup_loop :: "os \<Rightarrow> os option" where
  "cleanup_loop s =
     (if uxDeletedTasksWaitingCleanUp s > 0
      then do {
        let s1 = vPortEnterCritical s;
        t \<leftarrow> listGET_OWNER_OF_HEAD_ENTRY TasksWaitingTermination (klists s1);
        _ \<leftarrow> tcbs s1 t;
        (_, s2) \<leftarrow> os_remove (StateListItem t) s1;
        let s3 = s2\<lparr>uxCurrentNumberOfTasks := uxCurrentNumberOfTasks s2 - 1\<rparr>;
        let s4 = s3\<lparr>uxDeletedTasksWaitingCleanUp := uxDeletedTasksWaitingCleanUp s3 - 1\<rparr>;
        let s5 = vPortExitCritical s4;
        s6 \<leftarrow> prvDeleteTCB t s5;
        cleanup_loop s6
      }
      else Some s)"

definition prvCheckTasksWaitingTermination :: "os_config \<Rightarrow> os \<Rightarrow> os option" where
  "prvCheckTasksWaitingTermination cfg s = (if INCLUDE_vTaskDelete cfg then cleanup_loop s else Some s)"

end
