(* ===== verification/Os_Task_Sync.thy ===== *)
theory Os_Task_Sync
  imports Os_Task
begin

text \<open>
  The part of \<^verbatim>\<open>src/ffi/os/task.c\<close> that queues and semaphores call: blocking on an event list
  and waking from it, time-outs, and priority inheritance for mutex holders.
\<close>

section \<open>Event lists\<close>

definition vTaskPlaceOnEventList :: "os_config \<Rightarrow> list_ref \<Rightarrow> u32 \<Rightarrow> os \<Rightarrow> os option" where
  "vTaskPlaceOnEventList cfg pxEventList xTicksToWait s =
     do {
       _ \<leftarrow> tcbs s (pxCurrentTCB s);
       s1 \<leftarrow> os_insert pxEventList (EventListItem (pxCurrentTCB s)) s;
       prvAddCurrentTaskToDelayedList cfg xTicksToWait True s1
     }"

definition vTaskPlaceOnUnorderedEventList :: "os_config \<Rightarrow> list_ref \<Rightarrow> u32 \<Rightarrow> u32 \<Rightarrow> os \<Rightarrow> os option" where
  "vTaskPlaceOnUnorderedEventList cfg pxEventList xItemVal xTicksToWait s =
     do {
       _ \<leftarrow> tcbs s (pxCurrentTCB s);
       let s1 = os_set_value (EventListItem (pxCurrentTCB s))
                  (xItemVal OR taskEVENT_LIST_ITEM_VALUE_IN_USE) s;
       let s2 = os_insert_end pxEventList (EventListItem (pxCurrentTCB s1)) s1;
       prvAddCurrentTaskToDelayedList cfg xTicksToWait True s2
     }"

definition vTaskPlaceOnEventListRestricted :: "os_config \<Rightarrow> list_ref \<Rightarrow> u32 \<Rightarrow> bool \<Rightarrow> os \<Rightarrow> os option" where
  "vTaskPlaceOnEventListRestricted cfg pxEventList xTicksToWait xWaitIndefinitely s =
     do {
       _ \<leftarrow> tcbs s (pxCurrentTCB s);
       let s1 = os_insert_end pxEventList (EventListItem (pxCurrentTCB s)) s;
       let xTicksToWait1 = (if xWaitIndefinitely then portMAX_DELAY else xTicksToWait);
       prvAddCurrentTaskToDelayedList cfg xTicksToWait1 xWaitIndefinitely s1
     }"

definition xTaskRemoveFromEventList :: "os_config \<Rightarrow> list_ref \<Rightarrow> os \<Rightarrow> (bool \<times> os) option" where
  "xTaskRemoveFromEventList cfg pxEventList s =
     do {
       t \<leftarrow> listGET_OWNER_OF_HEAD_ENTRY pxEventList (klists s);
       _ \<leftarrow> tcbs s t;
       (_, s1) \<leftarrow> os_remove (EventListItem t) s;
       s2 \<leftarrow> (if uxSchedulerSuspended s1 = 0
              then do {
                (_, s') \<leftarrow> os_remove (StateListItem t) s1;
                s'' \<leftarrow> prvAddTaskToReadyList t s';
                (if configUSE_TICKLESS_IDLE cfg then prvResetNextTaskUnblockTime s'' else Some s'')
              }
              else Some (os_insert_end PendingReadyList (EventListItem t) s1));
       tcb \<leftarrow> tcbs s2 t;
       cur \<leftarrow> tcbs s2 (pxCurrentTCB s2);
       Some (if uxPriority tcb > uxPriority cur then (True, s2\<lparr>xYieldPending := True\<rparr>)
             else (False, s2))
     }"

definition vTaskRemoveFromUnorderedEventList :: "u32 \<Rightarrow> u32 \<Rightarrow> os \<Rightarrow> os option" where
  "vTaskRemoveFromUnorderedEventList t_item xItemVal s =
     do {
       let s1 = os_set_value (EventListItem t_item) (xItemVal OR taskEVENT_LIST_ITEM_VALUE_IN_USE) s;
       let t = listGET_LIST_ITEM_OWNER (EventListItem t_item) (klists s1);
       (_, s2) \<leftarrow> os_remove (EventListItem t_item) s1;
       _ \<leftarrow> tcbs s2 t;
       (_, s3) \<leftarrow> os_remove (StateListItem t) s2;
       s4 \<leftarrow> prvAddTaskToReadyList t s3;
       tcb \<leftarrow> tcbs s4 t;
       cur \<leftarrow> tcbs s4 (pxCurrentTCB s4);
       Some (if uxPriority tcb > uxPriority cur then s4\<lparr>xYieldPending := True\<rparr> else s4)
     }"

definition vTaskMissedYield :: "os \<Rightarrow> os" where
  "vTaskMissedYield s = s\<lparr>xYieldPending := True\<rparr>"

section \<open>Time-outs\<close>

record TimeOut =
  xOverflowCount :: u32
  xTimeOnEntering :: u32

definition vTaskInternalSetTimeOutState :: "os \<Rightarrow> TimeOut" where
  "vTaskInternalSetTimeOutState s =
     \<lparr>xOverflowCount = xNumOfOverflows s, xTimeOnEntering = xTickCount s\<rparr>"

definition vTaskSetTimeOutState :: "os \<Rightarrow> TimeOut \<times> os" where
  "vTaskSetTimeOutState s =
     (let s1 = vPortEnterCritical s;
          t = \<lparr>xOverflowCount = xNumOfOverflows s1, xTimeOnEntering = xTickCount s1\<rparr>
      in (t, vPortExitCritical s1))"

text \<open>
  Returns whether the time has run out, the updated time-out, the remaining ticks, and the
  state. The elapsed time is a difference of 32-bit counters and wraps.
\<close>

definition xTaskCheckForTimeOut :: "os_config \<Rightarrow> TimeOut \<Rightarrow> u32 \<Rightarrow> os
    \<Rightarrow> (bool \<times> TimeOut \<times> u32 \<times> os) option" where
  "xTaskCheckForTimeOut cfg pxTimeOut pxTicksToWait s =
     do {
       let s1 = vPortEnterCritical s;
       let xConstTickCount = xTickCount s1;
       let xElapsedTime = xConstTickCount - xTimeOnEntering pxTimeOut;
       aborted \<leftarrow> (if INCLUDE_xTaskAbortDelay cfg
                   then map_option ucDelayAborted (tcbs s1 (pxCurrentTCB s1)) else Some False);
       (r, to, w, s2) \<leftarrow>
         (if aborted
          then do {
            s' \<leftarrow> upd_tcb (pxCurrentTCB s1) (\<lambda>t. t\<lparr>ucDelayAborted := False\<rparr>) s1;
            Some (True, pxTimeOut, pxTicksToWait, s')
          }
          else if INCLUDE_vTaskSuspend cfg \<and> pxTicksToWait = portMAX_DELAY
          then Some (False, pxTimeOut, pxTicksToWait, s1)
          else if xNumOfOverflows s1 \<noteq> xOverflowCount pxTimeOut
                  \<and> xConstTickCount \<ge> xTimeOnEntering pxTimeOut
          then Some (True, pxTimeOut, pxTicksToWait, s1)
          else if xElapsedTime < pxTicksToWait
          then Some (False, vTaskInternalSetTimeOutState s1, pxTicksToWait - xElapsedTime, s1)
          else Some (True, pxTimeOut, 0, s1));
       Some (r, to, w, vPortExitCritical s2)
     }"

section \<open>Mutex holders: priority inheritance\<close>

definition pvTaskIncrementMutexHeldCount :: "os \<Rightarrow> (u32 \<times> os) option" where
  "pvTaskIncrementMutexHeldCount s =
     do {
       s1 \<leftarrow> (if pxCurrentTCB s \<noteq> 0
              then upd_tcb (pxCurrentTCB s) (\<lambda>t. t\<lparr>uxMutexesHeld := uxMutexesHeld t + 1\<rparr>) s
              else Some s);
       Some (pxCurrentTCB s1, s1)
     }"

definition event_value_free :: "u32 \<Rightarrow> os \<Rightarrow> bool" where
  "event_value_free t s \<longleftrightarrow>
     listGET_LIST_ITEM_VALUE (EventListItem t) (klists s) AND taskEVENT_LIST_ITEM_VALUE_IN_USE = 0"

definition xTaskPriorityInherit :: "u32 \<Rightarrow> os \<Rightarrow> (bool \<times> os) option" where
  "xTaskPriorityInherit pxMutexHolder s =
     (if pxMutexHolder = 0 then Some (False, s)
      else do {
        holder \<leftarrow> tcbs s pxMutexHolder;
        cur \<leftarrow> tcbs s (pxCurrentTCB s);
        (if uxPriority holder < uxPriority cur
         then do {
           let s1 = (if event_value_free pxMutexHolder s
                     then os_set_value (EventListItem pxMutexHolder)
                            (configMAX_PRIORITIES - uxPriority cur) s
                     else s);
           s2 \<leftarrow> (if \<not> uxPriority holder < configMAX_PRIORITIES then None
                  else if listIS_CONTAINED_WITHIN (Some (ReadyTasksList (uxPriority holder)))
                            (StateListItem pxMutexHolder) (klists s1)
                  then do {
                    (_, s') \<leftarrow> os_remove (StateListItem pxMutexHolder) s1;
                    s'' \<leftarrow> upd_tcb pxMutexHolder (\<lambda>t. t\<lparr>uxPriority := uxPriority cur\<rparr>) s';
                    prvAddTaskToReadyList pxMutexHolder s''
                  }
                  else upd_tcb pxMutexHolder (\<lambda>t. t\<lparr>uxPriority := uxPriority cur\<rparr>) s1);
           Some (True, s2)
         }
         else Some (uxBasePriority holder < uxPriority cur, s))
      })"

definition xTaskPriorityDisinherit :: "u32 \<Rightarrow> os \<Rightarrow> (bool \<times> os) option" where
  "xTaskPriorityDisinherit pxMutexHolder s =
     (if pxMutexHolder = 0 then Some (False, s)
      else do {
        s1 \<leftarrow> upd_tcb pxMutexHolder (\<lambda>t. t\<lparr>uxMutexesHeld := uxMutexesHeld t - 1\<rparr>) s;
        tcb \<leftarrow> tcbs s1 pxMutexHolder;
        (if uxPriority tcb \<noteq> uxBasePriority tcb \<and> uxMutexesHeld tcb = 0
         then do {
           (_, s2) \<leftarrow> os_remove (StateListItem pxMutexHolder) s1;
           s3 \<leftarrow> upd_tcb pxMutexHolder (\<lambda>t. t\<lparr>uxPriority := uxBasePriority t\<rparr>) s2;
           let s4 = os_set_value (EventListItem pxMutexHolder)
                      (configMAX_PRIORITIES - uxBasePriority tcb) s3;
           s5 \<leftarrow> prvAddTaskToReadyList pxMutexHolder s4;
           Some (True, s5)
         }
         else Some (False, s1))
      })"

definition vTaskPriorityDisinheritAfterTimeout :: "u32 \<Rightarrow> u32 \<Rightarrow> os \<Rightarrow> os option" where
  "vTaskPriorityDisinheritAfterTimeout pxMutexHolder uxHighestPriorityWaitingTask s =
     (if pxMutexHolder = 0 then Some s
      else do {
        tcb \<leftarrow> tcbs s pxMutexHolder;
        let uxPriorityToUse = (if uxBasePriority tcb < uxHighestPriorityWaitingTask
                               then uxHighestPriorityWaitingTask else uxBasePriority tcb);
        (if uxPriority tcb \<noteq> uxPriorityToUse \<and> uxMutexesHeld tcb = 1
         then do {
           let uxPriorityUsedOnEntry = uxPriority tcb;
           s1 \<leftarrow> upd_tcb pxMutexHolder (\<lambda>t. t\<lparr>uxPriority := uxPriorityToUse\<rparr>) s;
           let s2 = (if event_value_free pxMutexHolder s1
                     then os_set_value (EventListItem pxMutexHolder)
                            (configMAX_PRIORITIES - uxPriorityToUse) s1
                     else s1);
           (if \<not> uxPriorityUsedOnEntry < configMAX_PRIORITIES then None
            else if listIS_CONTAINED_WITHIN (Some (ReadyTasksList uxPriorityUsedOnEntry))
                      (StateListItem pxMutexHolder) (klists s2)
            then do {
              (_, s3) \<leftarrow> os_remove (StateListItem pxMutexHolder) s2;
              prvAddTaskToReadyList pxMutexHolder s3
            }
            else Some s2)
         }
         else Some s)
      })"

section \<open>Small queries and resets\<close>

definition xTaskGetTickCount :: "os \<Rightarrow> u32 \<times> os" where
  "xTaskGetTickCount s =
     (let s1 = vPortEnterCritical s; xTicks = xTickCount s1 in (xTicks, vPortExitCritical s1))"

definition xTaskGetTickCountFromISR :: "os \<Rightarrow> u32" where
  "xTaskGetTickCountFromISR s = xTickCount s"

definition uxTaskGetNumberOfTasks :: "os \<Rightarrow> u32" where
  "uxTaskGetNumberOfTasks s = uxCurrentNumberOfTasks s"

definition xTaskGetCurrentTaskHandle :: "os \<Rightarrow> u32" where
  "xTaskGetCurrentTaskHandle s = pxCurrentTCB s"

datatype scheduler_state = taskSCHEDULER_SUSPENDED | taskSCHEDULER_NOT_STARTED | taskSCHEDULER_RUNNING

definition xTaskGetSchedulerState :: "os \<Rightarrow> scheduler_state" where
  "xTaskGetSchedulerState s =
     (if \<not> xSchedulerRunning s then taskSCHEDULER_NOT_STARTED
      else if uxSchedulerSuspended s = 0 then taskSCHEDULER_RUNNING
      else taskSCHEDULER_SUSPENDED)"

definition uxTaskResetEventItemValue :: "os \<Rightarrow> (u32 \<times> os) option" where
  "uxTaskResetEventItemValue s =
     do {
       cur \<leftarrow> tcbs s (pxCurrentTCB s);
       let uxReturn = listGET_LIST_ITEM_VALUE (EventListItem (pxCurrentTCB s)) (klists s);
       Some (uxReturn, os_set_value (EventListItem (pxCurrentTCB s))
               (configMAX_PRIORITIES - uxPriority cur) s)
     }"

end
