(* ===== verification/Os_Task_Inv.thy ===== *)
theory Os_Task_Inv
  imports Os_Task_Create Os_Task_Sync
begin

text \<open>
  The invariant of the scheduler and how the list operations on task items act on it. Every
  allocated task has its state item in exactly one of the kernel's state lists and its event
  item in at most one event list; the ready lists are sorted by priority; the delayed lists are
  sorted by wake time, the current one ahead of the tick count and the overflow one behind it.
  A set \<open>X\<close> names the tasks whose state item is in no list for the moment.
\<close>

section \<open>Views of the state\<close>

abbreviation items :: "os \<Rightarrow> list_ref \<Rightarrow> item_ref list" where
  "items s l \<equiv> list_items (klists s) l"

abbreviation home :: "os \<Rightarrow> item_ref \<Rightarrow> list_ref option" where
  "home s i \<equiv> pxContainer (node_at (klists s) i)"

abbreviation val :: "os \<Rightarrow> item_ref \<Rightarrow> u32" where
  "val s i \<equiv> xItemValue (node_at (klists s) i)"

abbreviation owner :: "os \<Rightarrow> item_ref \<Rightarrow> u32" where
  "owner s i \<equiv> pvOwner (node_at (klists s) i)"

definition state_lists :: "os_config \<Rightarrow> list_ref set" where
  "state_lists cfg = ReadyTasksList ` {p. p < configMAX_PRIORITIES} \<union> {DelayedTaskList1, DelayedTaskList2}
     \<union> (if INCLUDE_vTaskDelete cfg then {TasksWaitingTermination} else {})
     \<union> (if INCLUDE_vTaskSuspend cfg then {SuspendedTaskList} else {})"

definition event_lists :: "os \<Rightarrow> list_ref set" where
  "event_lists s = {PendingReadyList} \<union> WaitingToSend ` dom (queues s) \<union> WaitingToReceive ` dom (queues s)"

definition live :: "os_config \<Rightarrow> os \<Rightarrow> list_ref set" where
  "live cfg s = state_lists cfg \<union> event_lists s"

definition priority_of :: "os \<Rightarrow> u32 \<Rightarrow> u32" where
  "priority_of s t = uxPriority (the (tcbs s t))"

definition is_task :: "os \<Rightarrow> u32 \<Rightarrow> bool" where
  "is_task s t \<longleftrightarrow> tcbs s t \<noteq> None"

section \<open>The invariant\<close>

definition tasks_ok :: "os \<Rightarrow> bool" where
  "tasks_ok s \<longleftrightarrow>
     \<not> is_task s 0 \<and> is_task s (pxCurrentTCB s) \<and>
     (\<forall>t. is_task s t \<longrightarrow> priority_of s t < configMAX_PRIORITIES \<and>
        uxBasePriority (the (tcbs s t)) < configMAX_PRIORITIES \<and> owner s (StateListItem t) = t \<and> owner s (EventListItem t) = t)"

definition placed :: "u32 set \<Rightarrow> os_config \<Rightarrow> os \<Rightarrow> bool" where
  "placed X cfg s \<longleftrightarrow>
     (\<forall>t. is_task s t \<longrightarrow> t \<in> X \<longrightarrow> home s (StateListItem t) = None) \<and>
     (\<forall>t. is_task s t \<longrightarrow> t \<notin> X \<longrightarrow> (\<exists>l \<in> state_lists cfg. home s (StateListItem t) = Some l)) \<and>
     (\<forall>t. is_task s t \<longrightarrow> home s (EventListItem t) = None
                          \<or> (\<exists>l \<in> event_lists s. home s (EventListItem t) = Some l)) \<and>
     (\<forall>t. \<not> is_task s t \<longrightarrow> (\<forall>l \<in> live cfg s. home s (StateListItem t) \<noteq> Some l
                                         \<and> home s (EventListItem t) \<noteq> Some l))"

definition ready_ok :: "os \<Rightarrow> bool" where
  "ready_ok s \<longleftrightarrow> uxTopReadyPriority s < configMAX_PRIORITIES \<and>
     (\<forall>t p. is_task s t \<longrightarrow> home s (StateListItem t) = Some (ReadyTasksList p) \<longrightarrow>
        priority_of s t = p \<and> p \<le> uxTopReadyPriority s)"

definition delay_ok :: "os \<Rightarrow> bool" where
  "delay_ok s \<longleftrightarrow>
     (pxDelayedTaskList s = Some DelayedTaskList1 \<and> pxOverflowDelayedTaskList s = Some DelayedTaskList2 \<or>
      pxDelayedTaskList s = Some DelayedTaskList2 \<and> pxOverflowDelayedTaskList s = Some DelayedTaskList1) \<and>
     sorted (map (val s) (items s DelayedTaskList1)) \<and> sorted (map (val s) (items s DelayedTaskList2))"

definition due_ok :: "os \<Rightarrow> bool" where
  "due_ok s \<longleftrightarrow>
     (\<forall>t. is_task s t \<longrightarrow> home s (StateListItem t) = pxDelayedTaskList s \<longrightarrow>
        xTickCount s < val s (StateListItem t) \<and> xNextTaskUnblockTime s \<le> val s (StateListItem t))"

definition overflow_ok :: "os \<Rightarrow> bool" where
  "overflow_ok s \<longleftrightarrow>
     (\<forall>t. is_task s t \<longrightarrow> home s (StateListItem t) = pxOverflowDelayedTaskList s \<longrightarrow>
        val s (StateListItem t) < xTickCount s)"

definition kernel_core :: "u32 set \<Rightarrow> os_config \<Rightarrow> os \<Rightarrow> bool" where
  "kernel_core X cfg s \<longleftrightarrow> lists_ok (live cfg s) (klists s) \<and> tasks_ok s \<and> placed X cfg s
     \<and> ready_ok s \<and> delay_ok s"

definition kernel_inv :: "os_config \<Rightarrow> os \<Rightarrow> bool" where
  "kernel_inv cfg s \<longleftrightarrow> kernel_core {} cfg s \<and> due_ok s \<and> overflow_ok s"

lemmas kernel_defs = kernel_inv_def kernel_core_def tasks_ok_def placed_def ready_ok_def delay_ok_def
  due_ok_def overflow_ok_def

lemma configMAX_less: "(p :: u32) < configMAX_PRIORITIES \<longleftrightarrow> p < 15"
  by (simp add: configMAX_PRIORITIES_def)

lemma state_list_simps [simp]:
  "ReadyTasksList p \<in> state_lists cfg \<longleftrightarrow> p < configMAX_PRIORITIES"
  "DelayedTaskList1 \<in> state_lists cfg" "DelayedTaskList2 \<in> state_lists cfg"
  "TasksWaitingTermination \<in> state_lists cfg \<longleftrightarrow> INCLUDE_vTaskDelete cfg"
  "SuspendedTaskList \<in> state_lists cfg \<longleftrightarrow> INCLUDE_vTaskSuspend cfg"
  "PendingReadyList \<notin> state_lists cfg" "WaitingToSend q \<notin> state_lists cfg"
  "WaitingToReceive q \<notin> state_lists cfg"
  by (auto simp: state_lists_def)

lemma event_list_simps [simp]:
  "PendingReadyList \<in> event_lists s"
  "WaitingToSend q \<in> event_lists s \<longleftrightarrow> q \<in> dom (queues s)"
  "WaitingToReceive q \<in> event_lists s \<longleftrightarrow> q \<in> dom (queues s)"
  "ReadyTasksList p \<notin> event_lists s" "DelayedTaskList1 \<notin> event_lists s"
  "DelayedTaskList2 \<notin> event_lists s" "TasksWaitingTermination \<notin> event_lists s"
  "SuspendedTaskList \<notin> event_lists s"
  by (auto simp: event_lists_def)

lemma lists_disjoint: "l \<in> state_lists cfg \<Longrightarrow> l \<notin> event_lists s"
  by (auto simp: state_lists_def split: if_splits)

lemma live_simps [simp]:
  "l \<in> state_lists cfg \<Longrightarrow> l \<in> live cfg s" "l \<in> event_lists s \<Longrightarrow> l \<in> live cfg s"
  by (simp_all add: live_def)

text \<open>The sets of lists depend on the queues alone.\<close>

lemma live_cong: "queues s' = queues s \<Longrightarrow> live cfg s' = live cfg s"
  by (simp add: live_def event_lists_def)

lemma event_lists_cong: "queues s' = queues s \<Longrightarrow> event_lists s' = event_lists s"
  by (simp add: event_lists_def)

lemma coreD:
  assumes "kernel_core X cfg s"
  shows "lists_ok (live cfg s) (klists s)" and "tasks_ok s" and "placed X cfg s" and "ready_ok s"
    and "delay_ok s"
  using assms by (simp_all add: kernel_core_def)

lemma invD:
  assumes "kernel_inv cfg s"
  shows "kernel_core {} cfg s" and "due_ok s" and "overflow_ok s"
  using assms by (simp_all add: kernel_inv_def)

text \<open>Who can be in which list.\<close>

lemma member_home:
  "kernel_core X cfg s \<Longrightarrow> l \<in> live cfg s \<Longrightarrow> i \<in> set (items s l) \<longleftrightarrow> home s i = Some l"
  using container_iff[OF coreD(1)] by blast

lemma state_member:
  assumes k: "kernel_core X cfg s" and l: "l \<in> state_lists cfg" and i: "home s i = Some l"
  obtains t where "i = StateListItem t" and "is_task s t"
proof (cases i)
  case (StateListItem t)
  then have "is_task s t" using coreD(3)[OF k] i l unfolding placed_def by (metis live_simps(1))
  then show ?thesis using StateListItem that by blast
next
  case (EventListItem t)
  then have False using coreD(3)[OF k] i l lists_disjoint[OF l, of s] unfolding placed_def
    by (metis live_simps(1) option.distinct(1) option.inject)
  then show ?thesis ..
qed

lemma event_member:
  assumes k: "kernel_core X cfg s" and l: "l \<in> event_lists s" and i: "home s i = Some l"
  obtains t where "i = EventListItem t" and "is_task s t"
proof (cases i)
  case (EventListItem t)
  then have "is_task s t" using coreD(3)[OF k] i l unfolding placed_def by (metis live_simps(2))
  then show ?thesis using EventListItem that by blast
next
  case (StateListItem t)
  then have False using coreD(3)[OF k] i l lists_disjoint[of l cfg s] unfolding placed_def
    by (metis live_simps(2) option.distinct(1) option.inject)
  then show ?thesis ..
qed

lemma item_owner:
  assumes "kernel_core X cfg s" and "l \<in> live cfg s" and "i \<in> set (items s l)"
  shows "is_task s (owner s i)" and "l \<in> state_lists cfg \<Longrightarrow> i = StateListItem (owner s i)"
    and "l \<in> event_lists s \<Longrightarrow> i = EventListItem (owner s i)"
proof -
  have h: "home s i = Some l" using assms member_home by blast
  have "l \<in> state_lists cfg \<or> l \<in> event_lists s" using assms(2) by (simp add: live_def)
  then have "\<exists>t. is_task s t \<and>( i = StateListItem t \<and> l \<in> state_lists cfg \<or> i = EventListItem t \<and> l \<in> event_lists s)"
    using state_member[OF assms(1) _ h] event_member[OF assms(1) _ h] by metis
  then show "is_task s (owner s i)" "l \<in> state_lists cfg \<Longrightarrow> i = StateListItem (owner s i)"
    "l \<in> event_lists s \<Longrightarrow> i = EventListItem (owner s i)"
    using coreD(2)[OF assms(1)] lists_disjoint[of l cfg s] unfolding tasks_ok_def by auto
qed

lemma state_item_not_event:
  "kernel_core X cfg s \<Longrightarrow> l \<in> event_lists s \<Longrightarrow> StateListItem t \<notin> set (items s l)"
  using item_owner(3)[of X cfg s l "StateListItem t"] by auto

section \<open>There is always room\<close>

lemma room_for:
  fixes f :: "u32 \<Rightarrow> item_ref"
  assumes d: "distinct xs" and f: "inj f" and sub: "set xs \<subseteq> f ` (UNIV - {0, a})" and a: "a \<noteq> 0"
  shows "Suc (length xs) < 2 ^ 32"
proof -
  have "card (UNIV - {0, a} :: u32 set) = 2 ^ 32 - 2"
    using a by (subst card_Diff_subset) (simp_all add: card_word)
  then have "card (f ` (UNIV - {0, a})) = 2 ^ 32 - 2"
    using f by (simp add: card_image inj_on_subset)
  moreover have "card (set xs) \<le> card (f ` (UNIV - {0, a}))"
    using sub by (intro card_mono) auto
  ultimately show ?thesis using distinct_card[OF d] by simp
qed

lemma room_state:
  assumes k: "kernel_core X cfg s" and l: "l \<in> state_lists cfg" and t: "is_task s t"
    and free: "home s (StateListItem t) = None"
  shows "Suc (length (items s l)) < 2 ^ 32"
proof (rule room_for[of _ StateListItem t])
  show "distinct (items s l)" using items_distinct[OF coreD(1)[OF k]] l by simp
  show "inj StateListItem" by (simp add: inj_def)
  have t0: "u \<noteq> 0" if "is_task s u" for u using coreD(2)[OF k] that by (auto simp: tasks_ok_def)
  then show "t \<noteq> 0" using t by blast
  show "set (items s l) \<subseteq> StateListItem ` (UNIV - {0, t})"
  proof
    fix i assume i: "i \<in> set (items s l)"
    then have h: "home s i = Some l" using member_home[OF k] l by simp
    then obtain u where "i = StateListItem u" "is_task s u" by (rule state_member[OF k l])
    then show "i \<in> StateListItem ` (UNIV - {0, t})" using t0[of u] h free by (cases "u = t") auto
  qed
qed

lemma room_event:
  assumes k: "kernel_core X cfg s" and l: "l \<in> event_lists s" and t: "is_task s t"
    and free: "home s (EventListItem t) = None"
  shows "Suc (length (items s l)) < 2 ^ 32"
proof (rule room_for[of _ EventListItem t])
  show "distinct (items s l)" using items_distinct[OF coreD(1)[OF k]] l by simp
  show "inj EventListItem" by (simp add: inj_def)
  have t0: "u \<noteq> 0" if "is_task s u" for u using coreD(2)[OF k] that by (auto simp: tasks_ok_def)
  then show "t \<noteq> 0" using t by blast
  show "set (items s l) \<subseteq> EventListItem ` (UNIV - {0, t})"
  proof
    fix i assume i: "i \<in> set (items s l)"
    then have h: "home s i = Some l" using member_home[OF k] l by simp
    then obtain u where "i = EventListItem u" "is_task s u" by (rule event_member[OF k l])
    then show "i \<in> EventListItem ` (UNIV - {0, t})" using t0[of u] h free by (cases "u = t") auto
  qed
qed

end
