(* ===== verification/Os_Task_Moves.thy ===== *)
theory Os_Task_Moves
  imports Os_Task_Inv
begin

text \<open>
  The moves the scheduler is made of, each with what it keeps of the invariant: taking a state
  or event item out of its list, adding a task to its ready list, putting it on a delayed list
  by wake time, queueing an event item.
\<close>

text \<open>\<open>moved s h i l\<close>: the store \<open>h\<close> differs from that of \<open>s\<close> in the home of item \<open>i\<close> only, now \<open>l\<close>.\<close>

definition moved :: "os \<Rightarrow> os_store \<Rightarrow> item_ref \<Rightarrow> list_ref option \<Rightarrow> bool" where
  "moved s h i l \<longleftrightarrow>
     (\<forall>j. pxContainer (node_at h j) = (if j = i then l else home s j)) \<and>
     (\<forall>j. xItemValue (node_at h j) = val s j) \<and> (\<forall>j. pvOwner (node_at h j) = owner s j)"

lemma movedD:
  assumes "moved s h i l"
  shows "pxContainer (node_at h j) = (if j = i then l else home s j)"
    and "xItemValue (node_at h j) = val s j" and "pvOwner (node_at h j) = owner s j"
  using assms by (simp_all add: moved_def)

lemma moved_val_eq: "moved s h i l \<Longrightarrow> (\<lambda>j. xItemValue (node_at h j)) = val s"
  by (simp add: moved_def fun_eq_iff)

section \<open>One item\<close>

lemma not_elsewhere:
  assumes "lists_ok D h" and "l \<in> D" and "pxContainer (node_at h i) = Some l" and "m \<in> D" and "m \<noteq> l"
  shows "i \<notin> set (list_items h m)"
  using container_iff[OF assms(1,4), of i] assms by auto

lemma os_remove_move:
  assumes "lists_ok D (klists s)" and "l \<in> D" and "home s i = Some l"
  obtains n h where "os_remove i s = Some (n, s\<lparr>klists := h\<rparr>)" and "lists_ok D h" and "moved s h i None"
    and "\<And>m. m \<in> D \<Longrightarrow> list_items h m = remove1 i (items s m)"
proof -
  obtain n h where r: "uxListRemove i (klists s) = Some (n, h)" and ok: "lists_ok D h"
    and c: "\<forall>m \<in> D. list_items h m = (if m = l then remove1 i (items s l) else items s m)"
    using os_lists.take_out_good[OF assms] by metis
  show ?thesis
  proof (rule that[of n h])
    show "os_remove i s = Some (n, s\<lparr>klists := h\<rparr>)" by (simp add: os_remove_def r)
    show "lists_ok D h" by fact
    show "moved s h i None" using uxListRemove_frame[OF r] by (simp add: moved_def)
    fix m assume "m \<in> D"
    then show "list_items h m = remove1 i (items s m)"
      using c not_elsewhere[OF assms] by (auto simp: remove1_idem)
  qed
qed

lemma os_insert_end_move:
  assumes "lists_ok D (klists s)" and "l \<in> D" and "home s i = None"
    and "Suc (length (items s l)) < 2 ^ 32"
  obtains h where "os_insert_end l i s = s\<lparr>klists := h\<rparr>" and "lists_ok D h" and "moved s h i (Some l)"
    and "\<And>m. m \<in> D \<Longrightarrow> m \<noteq> l \<Longrightarrow> list_items h m = items s m"
    and "list_items h l = insert_at_index (pxIndex (list_at (klists s) l)) i (items s l)"
proof (rule that[of "vListInsertEnd l i (klists s)"])
  show "moved s (vListInsertEnd l i (klists s)) i (Some l)" by (simp add: moved_def frame_simps)
qed (use vListInsertEnd_ok[OF assms] assms in \<open>auto simp: os_insert_end_def\<close>)

lemma os_insert_move:
  assumes "lists_ok D (klists s)" and "l \<in> D" and "home s i = None"
    and "Suc (length (items s l)) < 2 ^ 32"
  obtains h where "os_insert l i s = Some (s\<lparr>klists := h\<rparr>)" and "lists_ok D h" and "moved s h i (Some l)"
    and "\<And>m. m \<in> D \<Longrightarrow> m \<noteq> l \<Longrightarrow> list_items h m = items s m"
    and "list_items h l = insert_by_value (val s) i (items s l)"
proof -
  obtain h where i: "vListInsert l i (klists s) = Some h" and ok: "lists_ok D h"
    and c: "\<forall>m \<in> D. list_items h m = (if m = l then insert_by_value (val s) i (items s l) else items s m)"
    using os_lists.add_key_good[OF assms] by metis
  show ?thesis
    by (rule that[of h]) (use i ok c assms(2) vListInsert_frame[OF i] in \<open>auto simp: os_insert_def moved_def\<close>)
qed

section \<open>Keeping the core\<close>

text \<open>
  What has to be shown of a state that differs in its store, its top priority, its pending wake
  time and flags, for the core to hold again.
\<close>

lemma core_moveI:
  assumes k: "kernel_core X cfg s"
    and tcbs: "tcbs s' = tcbs s" "queues s' = queues s" "pxCurrentTCB s' = pxCurrentTCB s"
      "pxDelayedTaskList s' = pxDelayedTaskList s" "pxOverflowDelayedTaskList s' = pxOverflowDelayedTaskList s"
    and l: "lists_ok (live cfg s) (klists s')"
    and o: "\<And>j. owner s' j = owner s j"
    and st: "\<And>t. is_task s t \<Longrightarrow> if t \<in> Y then home s' (StateListItem t) = None
                else \<exists>l \<in> state_lists cfg. home s' (StateListItem t) = Some l"
    and ev: "\<And>t. is_task s t \<Longrightarrow> home s' (EventListItem t) = None
                \<or> (\<exists>l \<in> event_lists s. home s' (EventListItem t) = Some l)"
    and na: "\<And>t. \<not> is_task s t \<Longrightarrow> home s' (StateListItem t) = home s (StateListItem t)
                \<and> home s' (EventListItem t) = home s (EventListItem t)"
    and r: "uxTopReadyPriority s' < configMAX_PRIORITIES"
      "\<And>t p. is_task s t \<Longrightarrow> home s' (StateListItem t) = Some (ReadyTasksList p)
         \<Longrightarrow> priority_of s t = p \<and> p \<le> uxTopReadyPriority s'"
    and d: "\<And>l. l = DelayedTaskList1 \<or> l = DelayedTaskList2 \<Longrightarrow> sorted (map (val s') (items s' l))"
  shows "kernel_core Y cfg s'"
proof -
  have [simp]: "is_task s' = is_task s" "priority_of s' = priority_of s" "event_lists s' = event_lists s"
    "live cfg s' = live cfg s"
    by (simp_all add: is_task_def priority_of_def tcbs fun_eq_iff event_lists_def live_def)
  have "tasks_ok s'" using coreD(2)[OF k] unfolding tasks_ok_def by (simp add: o tcbs)
  moreover have "placed Y cfg s'"
    using coreD(3)[OF k] st ev na unfolding placed_def by (simp split: if_splits)
  moreover have "ready_ok s'" using r by (auto simp: ready_ok_def)
  moreover have "delay_ok s'" using coreD(5)[OF k] d by (simp add: delay_ok_def tcbs)
  ultimately show ?thesis using l by (simp add: kernel_core_def)
qed

text \<open>Fields the core does not look at.\<close>

lemma core_cong:
  assumes "kernel_core X cfg s" and "klists s' = klists s" and "tcbs s' = tcbs s" and "queues s' = queues s"
    and "pxCurrentTCB s' = pxCurrentTCB s" and "pxDelayedTaskList s' = pxDelayedTaskList s"
    and "pxOverflowDelayedTaskList s' = pxOverflowDelayedTaskList s"
    and "uxTopReadyPriority s' = uxTopReadyPriority s"
  shows "kernel_core X cfg s'"
  using assms by (simp add: kernel_defs is_task_def priority_of_def live_def event_lists_def)

lemma home_task:
  assumes "kernel_core X cfg s" and "is_task s t" and "t \<notin> X"
  obtains l where "l \<in> state_lists cfg" and "home s (StateListItem t) = Some l"
  using coreD(3)[OF assms(1)] assms(2,3) unfolding placed_def by metis

lemma home_event:
  assumes "kernel_core X cfg s" and "is_task s t" and "home s (EventListItem t) \<noteq> None"
  obtains l where "l \<in> event_lists s" and "home s (EventListItem t) = Some l"
  using coreD(3)[OF assms(1)] assms(2,3) unfolding placed_def by metis

lemma core_sorted:
  "kernel_core X cfg s \<Longrightarrow> l = DelayedTaskList1 \<or> l = DelayedTaskList2 \<Longrightarrow> sorted (map (val s) (items s l))"
  using coreD(5) by (auto simp: delay_ok_def)

lemma core_task_free:
  "kernel_core X cfg s \<Longrightarrow> is_task s t \<Longrightarrow> t \<in> X \<Longrightarrow> home s (StateListItem t) = None"
  using coreD(3) unfolding placed_def by blast

lemma sorted_map_remove1: "sorted (map f xs) \<Longrightarrow> sorted (map f (remove1 x xs))"
  by (induction xs) (auto dest: notin_set_remove1)

lemma core_ready:
  assumes "kernel_core X cfg s"
  shows "uxTopReadyPriority s < configMAX_PRIORITIES"
    and "is_task s t \<Longrightarrow> home s (StateListItem t) = Some (ReadyTasksList p) \<Longrightarrow> priority_of s t = p"
    and "is_task s t \<Longrightarrow> home s (StateListItem t) = Some (ReadyTasksList p) \<Longrightarrow> p \<le> uxTopReadyPriority s"
  using coreD(4)[OF assms] unfolding ready_ok_def by blast+

lemma remove_state_item:
  assumes k: "kernel_core X cfg s" and t: "is_task s t" "t \<notin> X"
  obtains n h where "os_remove (StateListItem t) s = Some (n, s\<lparr>klists := h\<rparr>)"
    and "kernel_core (insert t X) cfg (s\<lparr>klists := h\<rparr>)" and "moved s h (StateListItem t) None"
    and "\<And>m. m \<in> live cfg s \<Longrightarrow> list_items h m = remove1 (StateListItem t) (items s m)"
proof -
  obtain l where l: "l \<in> state_lists cfg" "home s (StateListItem t) = Some l" by (rule home_task[OF k t])
  obtain n h where r: "os_remove (StateListItem t) s = Some (n, s\<lparr>klists := h\<rparr>)"
    and ok: "lists_ok (live cfg s) h" and m: "moved s h (StateListItem t) None"
    and c: "\<And>m. m \<in> live cfg s \<Longrightarrow> list_items h m = remove1 (StateListItem t) (items s m)"
    using os_remove_move[OF coreD(1)[OF k] live_simps(1)[OF l(1)] l(2)] by metis
  have "kernel_core (insert t X) cfg (s\<lparr>klists := h\<rparr>)"
    by (rule core_moveI[OF k])
      (use k t ok c coreD(3)[OF k] core_ready[OF k] core_sorted[OF k] in
        \<open>auto simp: movedD[OF m] moved_val_eq[OF m] placed_def sorted_map_remove1 split: if_splits\<close>)
  then show ?thesis using that r m c by blast
qed

lemma remove_event_item_ok:
  assumes k: "kernel_core X cfg s" and t: "is_task s t" "home s (EventListItem t) \<noteq> None"
  obtains n h where "os_remove (EventListItem t) s = Some (n, s\<lparr>klists := h\<rparr>)"
    and "kernel_core X cfg (s\<lparr>klists := h\<rparr>)" and "moved s h (EventListItem t) None"
    and "\<And>m. m \<in> live cfg s \<Longrightarrow> list_items h m = remove1 (EventListItem t) (items s m)"
proof -
  obtain l where l: "l \<in> event_lists s" "home s (EventListItem t) = Some l" by (rule home_event[OF k t])
  obtain n h where r: "os_remove (EventListItem t) s = Some (n, s\<lparr>klists := h\<rparr>)"
    and ok: "lists_ok (live cfg s) h" and m: "moved s h (EventListItem t) None"
    and c: "\<And>m. m \<in> live cfg s \<Longrightarrow> list_items h m = remove1 (EventListItem t) (items s m)"
    using os_remove_move[OF coreD(1)[OF k] live_simps(2)[OF l(1)] l(2)] by metis
  have "kernel_core X cfg (s\<lparr>klists := h\<rparr>)"
    by (rule core_moveI[OF k])
      (use k t ok c coreD(3)[OF k] core_ready[OF k] core_sorted[OF k] in
        \<open>auto simp: movedD[OF m] moved_val_eq[OF m] placed_def sorted_map_remove1 split: if_splits\<close>)
  then show ?thesis using that r m c by blast
qed


section \<open>Adding to a list\<close>

lemma add_to_state_list_end:
  assumes k: "kernel_core X cfg s" and t: "is_task s t" "t \<in> X"
    and l: "l \<in> state_lists cfg" "l \<noteq> DelayedTaskList1" "l \<noteq> DelayedTaskList2"
    and r: "\<And>p. l = ReadyTasksList p \<Longrightarrow> priority_of s t = p \<and> p \<le> uxTopReadyPriority s"
  obtains h where "os_insert_end l (StateListItem t) s = s\<lparr>klists := h\<rparr>"
    and "kernel_core (X - {t}) cfg (s\<lparr>klists := h\<rparr>)" and "moved s h (StateListItem t) (Some l)"
    and "\<And>m. m \<in> live cfg s \<Longrightarrow> m \<noteq> l \<Longrightarrow> list_items h m = items s m"
    and "list_items h l = insert_at_index (pxIndex (list_at (klists s) l)) (StateListItem t) (items s l)"
proof -
  note free = core_task_free[OF k t]
  obtain h where e: "os_insert_end l (StateListItem t) s = s\<lparr>klists := h\<rparr>"
    and ok: "lists_ok (live cfg s) h" and m: "moved s h (StateListItem t) (Some l)"
    and c: "\<And>m. m \<in> live cfg s \<Longrightarrow> m \<noteq> l \<Longrightarrow> list_items h m = items s m"
    and c': "list_items h l = insert_at_index (pxIndex (list_at (klists s) l)) (StateListItem t) (items s l)"
    using os_insert_end_move[OF coreD(1)[OF k] live_simps(1)[OF l(1)] free room_state[OF k l(1) t(1) free]]
    by metis
  have "kernel_core (X - {t}) cfg (s\<lparr>klists := h\<rparr>)"
  proof (rule core_moveI[OF k], goal_cases)
    case (12 u q)
    then show ?case using core_ready(2,3)[OF k] r by (auto simp: movedD[OF m] split: if_splits)
  qed (use k t ok c l coreD(3)[OF k] core_ready(1)[OF k] core_sorted[OF k] in
        \<open>auto simp: movedD[OF m] moved_val_eq[OF m] placed_def split: if_splits\<close>)
  then show ?thesis using that e m c c' by blast
qed

lemma add_ready:
  assumes k: "kernel_core X cfg s" and t: "is_task s t" "t \<in> X"
  obtains h where "prvAddTaskToReadyList t s =
        Some (s\<lparr>uxTopReadyPriority := max (uxTopReadyPriority s) (priority_of s t), klists := h\<rparr>)"
    and "kernel_core (X - {t}) cfg
        (s\<lparr>uxTopReadyPriority := max (uxTopReadyPriority s) (priority_of s t), klists := h\<rparr>)"
    and "moved s h (StateListItem t) (Some (ReadyTasksList (priority_of s t)))"
    and "\<And>m. m \<in> live cfg s \<Longrightarrow> m \<noteq> ReadyTasksList (priority_of s t) \<Longrightarrow> list_items h m = items s m"
    and "list_items h (ReadyTasksList (priority_of s t)) =
        insert_at_index (pxIndex (list_at (klists s) (ReadyTasksList (priority_of s t)))) (StateListItem t)
          (items s (ReadyTasksList (priority_of s t)))"
proof -
  let ?p = "priority_of s t"
  let ?s = "s\<lparr>uxTopReadyPriority := max (uxTopReadyPriority s) ?p\<rparr>"
  have p: "?p < configMAX_PRIORITIES" using coreD(2)[OF k] t(1) by (simp add: tasks_ok_def)
  have [simp]: "is_task ?s = is_task s" "priority_of ?s = priority_of s"
    by (simp_all add: is_task_def priority_of_def fun_eq_iff)
  have k1: "kernel_core X cfg ?s"
    by (rule core_moveI[OF k])
      (use k p coreD(1,3)[OF k] core_ready[OF k] core_sorted[OF k] in
        \<open>auto simp: placed_def le_max_iff_disj split: if_splits\<close>)
  obtain h where e: "os_insert_end (ReadyTasksList ?p) (StateListItem t) ?s = ?s\<lparr>klists := h\<rparr>"
    and "kernel_core (X - {t}) cfg (?s\<lparr>klists := h\<rparr>)"
    and "moved ?s h (StateListItem t) (Some (ReadyTasksList ?p))"
    and "\<And>m. m \<in> live cfg ?s \<Longrightarrow> m \<noteq> ReadyTasksList ?p \<Longrightarrow> list_items h m = items ?s m"
    and "list_items h (ReadyTasksList ?p) =
        insert_at_index (pxIndex (list_at (klists ?s) (ReadyTasksList ?p))) (StateListItem t)
          (items ?s (ReadyTasksList ?p))"
    by (rule add_to_state_list_end[OF k1 _ t(2), of "ReadyTasksList ?p"]) (use t p in auto)
  moreover have "prvAddTaskToReadyList t s = Some (?s\<lparr>klists := h\<rparr>)"
  proof -
    obtain tcb where tcb: "tcbs s t = Some tcb" using t(1) by (auto simp: is_task_def)
    then have up: "uxPriority tcb = ?p" by (simp add: priority_of_def)
    have "taskRECORD_READY_PRIORITY ?p s = ?s"
      by (simp add: taskRECORD_READY_PRIORITY_def max_def)
    then show ?thesis using tcb p e by (simp add: prvAddTaskToReadyList_def up Let_def)
  qed
  ultimately show ?thesis using that by (simp add: moved_def live_def event_lists_def)
qed

text \<open>Onto a delayed list, by wake time.\<close>

lemma add_delayed:
  assumes k: "kernel_core X cfg s" and t: "is_task s t" "t \<in> X"
    and l: "l = DelayedTaskList1 \<or> l = DelayedTaskList2"
  obtains h where "os_insert l (StateListItem t) s = Some (s\<lparr>klists := h\<rparr>)"
    and "kernel_core (X - {t}) cfg (s\<lparr>klists := h\<rparr>)" and "moved s h (StateListItem t) (Some l)"
    and "\<And>m. m \<in> live cfg s \<Longrightarrow> m \<noteq> l \<Longrightarrow> list_items h m = items s m"
    and "list_items h l = insert_by_value (val s) (StateListItem t) (items s l)"
proof -
  note free = core_task_free[OF k t]
  have sl: "l \<in> state_lists cfg" using l by auto
  obtain h where e: "os_insert l (StateListItem t) s = Some (s\<lparr>klists := h\<rparr>)"
    and ok: "lists_ok (live cfg s) h" and m: "moved s h (StateListItem t) (Some l)"
    and c: "\<And>m. m \<in> live cfg s \<Longrightarrow> m \<noteq> l \<Longrightarrow> list_items h m = items s m"
    and c': "list_items h l = insert_by_value (val s) (StateListItem t) (items s l)"
    using os_insert_move[OF coreD(1)[OF k] live_simps(1)[OF sl] free room_state[OF k sl t(1) free]]
    by metis
  have so: "sorted (map (val s) (list_items h n))" if "n = DelayedTaskList1 \<or> n = DelayedTaskList2" for n
    using core_sorted[OF k that] insert_by_value_sorted[OF core_sorted[OF k l]] c c' that
    by (cases "n = l") auto
  have "kernel_core (X - {t}) cfg (s\<lparr>klists := h\<rparr>)"
  proof (rule core_moveI[OF k], goal_cases)
    case (12 u q)
    then show ?case using core_ready(2,3)[OF k] l by (auto simp: movedD[OF m] split: if_splits)
  next
    case (13 n)
    then show ?case using so by (simp add: moved_val_eq[OF m])
  qed (use k t ok sl coreD(3)[OF k] core_ready(1)[OF k] in
        \<open>auto simp: movedD[OF m] placed_def split: if_splits\<close>)
  then show ?thesis using that e m c c' by blast
qed

text \<open>An event item into an event list, by value or at the end.\<close>

lemma core_event_added:
  assumes k: "kernel_core X cfg s" and t: "is_task s t" and l: "l \<in> event_lists s"
    and ok: "lists_ok (live cfg s) h" and m: "moved s h (EventListItem t) (Some l)"
    and c: "\<And>m. m \<in> live cfg s \<Longrightarrow> m \<noteq> l \<Longrightarrow> list_items h m = items s m"
  shows "kernel_core X cfg (s\<lparr>klists := h\<rparr>)"
proof (rule core_moveI[OF k], goal_cases)
  case (13 n)
  then have "n \<noteq> l" "n \<in> live cfg s" using l by auto
  then show ?case using core_sorted[OF k 13] c by (simp add: moved_val_eq[OF m])
qed (use k t ok l coreD(3)[OF k] core_ready[OF k] in
      \<open>auto simp: movedD[OF m] placed_def split: if_splits\<close>)

lemma add_event_sorted:
  assumes k: "kernel_core X cfg s" and t: "is_task s t" "home s (EventListItem t) = None"
    and l: "l \<in> event_lists s"
  obtains h where "os_insert l (EventListItem t) s = Some (s\<lparr>klists := h\<rparr>)"
    and "kernel_core X cfg (s\<lparr>klists := h\<rparr>)" and "moved s h (EventListItem t) (Some l)"
    and "\<And>m. m \<in> live cfg s \<Longrightarrow> m \<noteq> l \<Longrightarrow> list_items h m = items s m"
    and "list_items h l = insert_by_value (val s) (EventListItem t) (items s l)"
  using os_insert_move[OF coreD(1)[OF k] live_simps(2)[OF l] t(2) room_event[OF k l t]]
    core_event_added[OF k t(1) l] by metis

lemma add_event_end:
  assumes k: "kernel_core X cfg s" and t: "is_task s t" "home s (EventListItem t) = None"
    and l: "l \<in> event_lists s"
  obtains h where "os_insert_end l (EventListItem t) s = s\<lparr>klists := h\<rparr>"
    and "kernel_core X cfg (s\<lparr>klists := h\<rparr>)" and "moved s h (EventListItem t) (Some l)"
    and "\<And>m. m \<in> live cfg s \<Longrightarrow> m \<noteq> l \<Longrightarrow> list_items h m = items s m"
    and "list_items h l = insert_at_index (pxIndex (list_at (klists s) l)) (EventListItem t) (items s l)"
  using os_insert_end_move[OF coreD(1)[OF k] live_simps(2)[OF l] t(2) room_event[OF k l t]]
    core_event_added[OF k t(1) l] by metis

section \<open>Setting the value of an item\<close>

lemma set_value_frame [simp]:
  "pxContainer (node_at (listSET_LIST_ITEM_VALUE i v h) j) = pxContainer (node_at h j)"
  "pvOwner (node_at (listSET_LIST_ITEM_VALUE i v h) j) = pvOwner (node_at h j)"
  "xItemValue (node_at (listSET_LIST_ITEM_VALUE i v h) j) = (if j = i then v else xItemValue (node_at h j))"
  "list_at (listSET_LIST_ITEM_VALUE i v h) = list_at h"
  by (simp_all add: listSET_LIST_ITEM_VALUE_def)

lemma set_value_core:
  assumes k: "kernel_core X cfg s"
    and i: "\<And>l. l = DelayedTaskList1 \<or> l = DelayedTaskList2 \<Longrightarrow> i \<notin> set (items s l)"
  shows "kernel_core X cfg (os_set_value i v s)"
    and "m \<in> live cfg s \<Longrightarrow> items (os_set_value i v s) m = items s m"
proof -
  show it: "items (os_set_value i v s) m = items s m" if "m \<in> live cfg s" for m
    using set_value_ok(2)[OF coreD(1)[OF k] that] by (simp add: os_set_value_def)
  show "kernel_core X cfg (os_set_value i v s)"
  proof (rule core_moveI[OF k], goal_cases)
    case (13 n)
    then have n: "n \<in> live cfg s" by auto
    have "map (val (os_set_value i v s)) (items s n) = map (val s) (items s n)"
      using i[OF 13] by (auto simp: os_set_value_def)
    then show ?case using core_sorted[OF k 13] it[OF n] by metis
  qed (use k set_value_ok(1)[OF coreD(1)[OF k]] coreD(3)[OF k] core_ready[OF k] in
      \<open>auto simp: os_set_value_def placed_def split: if_splits\<close>)
qed

lemma event_item_not_delayed:
  "kernel_core X cfg s \<Longrightarrow> l = DelayedTaskList1 \<or> l = DelayedTaskList2
     \<Longrightarrow> EventListItem t \<notin> set (items s l)"
  using item_owner(2)[of X cfg s l "EventListItem t"] by auto

lemma free_item_nowhere:
  "kernel_core X cfg s \<Longrightarrow> l \<in> live cfg s \<Longrightarrow> home s i = None \<Longrightarrow> i \<notin> set (items s l)"
  using member_home[of X cfg s l i] by simp

end
