(* ===== verification/Os_Task_Wake.thy ===== *)
theory Os_Task_Wake
  imports Os_Task_Moves
begin

text \<open>
  Waking a task: its state item leaves its list, its event item the event list it may be in, and
  the state item joins the ready list of the task's priority. The loops of the tick and of
  \<open>xTaskResumeAll\<close> repeat this step.
\<close>

text \<open>Only the store, the top priority and the next wake-up time change in these loops.\<close>

definition relisted :: "os \<Rightarrow> os_store \<Rightarrow> u32 \<Rightarrow> u32 \<Rightarrow> os" where
  "relisted s h p n = s\<lparr>klists := h, uxTopReadyPriority := p, xNextTaskUnblockTime := n\<rparr>"

lemma relisted_simps [simp]:
  "klists (relisted s h p n) = h" "uxTopReadyPriority (relisted s h p n) = p"
  "xNextTaskUnblockTime (relisted s h p n) = n" "tcbs (relisted s h p n) = tcbs s"
  "pxCurrentTCB (relisted s h p n) = pxCurrentTCB s" "queues (relisted s h p n) = queues s"
  "pxDelayedTaskList (relisted s h p n) = pxDelayedTaskList s"
  "pxOverflowDelayedTaskList (relisted s h p n) = pxOverflowDelayedTaskList s"
  "xTickCount (relisted s h p n) = xTickCount s"
  "uxSchedulerSuspended (relisted s h p n) = uxSchedulerSuspended s"
  "xYieldPending (relisted s h p n) = xYieldPending s"
  "uxPendedTicks (relisted s h p n) = uxPendedTicks s"
  "uxCriticalNesting (relisted s h p n) = uxCriticalNesting s"
  "uxCurrentNumberOfTasks (relisted s h p n) = uxCurrentNumberOfTasks s"
  "mem (relisted s h p n) = mem s" "xNumOfOverflows (relisted s h p n) = xNumOfOverflows s"
  "relisted (relisted s h p n) h' p' n' = relisted s h' p' n'"
  by (simp_all add: relisted_def)

lemma relisted_self: "relisted s (klists s) (uxTopReadyPriority s) (xNextTaskUnblockTime s) = s"
  by (simp add: relisted_def)

lemma relisted_yield [simp]:
  "(relisted s h p n)\<lparr>xYieldPending := xYieldPending s\<rparr> = relisted s h p n"
  "relisted (s\<lparr>xYieldPending := b\<rparr>) h p n = (relisted s h p n)\<lparr>xYieldPending := b\<rparr>"
  by (simp_all add: relisted_def)

lemma relisted_intro:
  "s\<lparr>klists := h\<rparr> = relisted s h (uxTopReadyPriority s) (xNextTaskUnblockTime s)"
  "s\<lparr>uxTopReadyPriority := p, klists := h\<rparr> = relisted s h p (xNextTaskUnblockTime s)"
  "s\<lparr>xNextTaskUnblockTime := n\<rparr> = relisted s (klists s) (uxTopReadyPriority s) n"
  by (simp_all add: relisted_def)

lemma is_task_update [simp]:
  "is_task (s\<lparr>klists := x\<rparr>) = is_task s"
  "is_task (s\<lparr>uxTopReadyPriority := y\<rparr>) = is_task s"
  "is_task (s\<lparr>xNextTaskUnblockTime := y\<rparr>) = is_task s"
  "is_task (s\<lparr>xTickCount := y\<rparr>) = is_task s"
  "is_task (s\<lparr>uxSchedulerSuspended := y\<rparr>) = is_task s"
  "is_task (s\<lparr>uxPendedTicks := y\<rparr>) = is_task s"
  "is_task (s\<lparr>uxCriticalNesting := y\<rparr>) = is_task s"
  "is_task (s\<lparr>xYieldPending := b\<rparr>) = is_task s"
  "is_task (s\<lparr>PENDING_SOFT_SV := b\<rparr>) = is_task s"
  "is_task (s\<lparr>soft_interrupt := b\<rparr>) = is_task s"
  "is_task (s\<lparr>xNumOfOverflows := y\<rparr>) = is_task s"
  "is_task (s\<lparr>pxCurrentTCB := y\<rparr>) = is_task s"
  "is_task (s\<lparr>pxDelayedTaskList := l\<rparr>) = is_task s"
  "is_task (s\<lparr>pxOverflowDelayedTaskList := l\<rparr>) = is_task s"
  "is_task (s\<lparr>uxCurrentNumberOfTasks := y\<rparr>) = is_task s"
  "is_task (s\<lparr>uxTaskNumber := y\<rparr>) = is_task s"
  "is_task (s\<lparr>mem := m\<rparr>) = is_task s"
  "is_task (s\<lparr>stack_overflow_hook_calls := c\<rparr>) = is_task s"
  by (simp_all add: is_task_def fun_eq_iff)

lemma priority_of_update [simp]:
  "priority_of (s\<lparr>klists := x\<rparr>) = priority_of s"
  "priority_of (s\<lparr>uxTopReadyPriority := y\<rparr>) = priority_of s"
  "priority_of (s\<lparr>xNextTaskUnblockTime := y\<rparr>) = priority_of s"
  "priority_of (s\<lparr>xTickCount := y\<rparr>) = priority_of s"
  "priority_of (s\<lparr>uxSchedulerSuspended := y\<rparr>) = priority_of s"
  "priority_of (s\<lparr>uxPendedTicks := y\<rparr>) = priority_of s"
  "priority_of (s\<lparr>uxCriticalNesting := y\<rparr>) = priority_of s"
  "priority_of (s\<lparr>xYieldPending := b\<rparr>) = priority_of s"
  "priority_of (s\<lparr>PENDING_SOFT_SV := b\<rparr>) = priority_of s"
  "priority_of (s\<lparr>soft_interrupt := b\<rparr>) = priority_of s"
  "priority_of (s\<lparr>xNumOfOverflows := y\<rparr>) = priority_of s"
  "priority_of (s\<lparr>pxCurrentTCB := y\<rparr>) = priority_of s"
  "priority_of (s\<lparr>pxDelayedTaskList := l\<rparr>) = priority_of s"
  "priority_of (s\<lparr>pxOverflowDelayedTaskList := l\<rparr>) = priority_of s"
  "priority_of (s\<lparr>uxCurrentNumberOfTasks := y\<rparr>) = priority_of s"
  "priority_of (s\<lparr>uxTaskNumber := y\<rparr>) = priority_of s"
  "priority_of (s\<lparr>mem := m\<rparr>) = priority_of s"
  "priority_of (s\<lparr>stack_overflow_hook_calls := c\<rparr>) = priority_of s"
  by (simp_all add: priority_of_def fun_eq_iff)

lemma live_update [simp]:
  "live cfg (s\<lparr>klists := x\<rparr>) = live cfg s"
  "live cfg (s\<lparr>uxTopReadyPriority := y\<rparr>) = live cfg s"
  "live cfg (s\<lparr>xNextTaskUnblockTime := y\<rparr>) = live cfg s"
  "live cfg (s\<lparr>xTickCount := y\<rparr>) = live cfg s"
  "live cfg (s\<lparr>uxSchedulerSuspended := y\<rparr>) = live cfg s"
  "live cfg (s\<lparr>uxPendedTicks := y\<rparr>) = live cfg s"
  "live cfg (s\<lparr>uxCriticalNesting := y\<rparr>) = live cfg s"
  "live cfg (s\<lparr>xYieldPending := b\<rparr>) = live cfg s"
  "live cfg (s\<lparr>PENDING_SOFT_SV := b\<rparr>) = live cfg s"
  "live cfg (s\<lparr>soft_interrupt := b\<rparr>) = live cfg s"
  "live cfg (s\<lparr>xNumOfOverflows := y\<rparr>) = live cfg s"
  "live cfg (s\<lparr>pxCurrentTCB := y\<rparr>) = live cfg s"
  "live cfg (s\<lparr>pxDelayedTaskList := l\<rparr>) = live cfg s"
  "live cfg (s\<lparr>pxOverflowDelayedTaskList := l\<rparr>) = live cfg s"
  "live cfg (s\<lparr>uxCurrentNumberOfTasks := y\<rparr>) = live cfg s"
  "live cfg (s\<lparr>uxTaskNumber := y\<rparr>) = live cfg s"
  "live cfg (s\<lparr>mem := m\<rparr>) = live cfg s"
  "live cfg (s\<lparr>stack_overflow_hook_calls := c\<rparr>) = live cfg s"
  by (simp_all add: live_def event_lists_def)

lemma event_lists_update [simp]:
  "event_lists (s\<lparr>klists := x\<rparr>) = event_lists s"
  "event_lists (s\<lparr>uxTopReadyPriority := y\<rparr>) = event_lists s"
  "event_lists (s\<lparr>xNextTaskUnblockTime := y\<rparr>) = event_lists s"
  "event_lists (s\<lparr>xTickCount := y\<rparr>) = event_lists s"
  "event_lists (s\<lparr>uxSchedulerSuspended := y\<rparr>) = event_lists s"
  "event_lists (s\<lparr>uxPendedTicks := y\<rparr>) = event_lists s"
  "event_lists (s\<lparr>uxCriticalNesting := y\<rparr>) = event_lists s"
  "event_lists (s\<lparr>xYieldPending := b\<rparr>) = event_lists s"
  "event_lists (s\<lparr>PENDING_SOFT_SV := b\<rparr>) = event_lists s"
  "event_lists (s\<lparr>soft_interrupt := b\<rparr>) = event_lists s"
  "event_lists (s\<lparr>xNumOfOverflows := y\<rparr>) = event_lists s"
  "event_lists (s\<lparr>pxCurrentTCB := y\<rparr>) = event_lists s"
  "event_lists (s\<lparr>pxDelayedTaskList := l\<rparr>) = event_lists s"
  "event_lists (s\<lparr>pxOverflowDelayedTaskList := l\<rparr>) = event_lists s"
  "event_lists (s\<lparr>uxCurrentNumberOfTasks := y\<rparr>) = event_lists s"
  "event_lists (s\<lparr>uxTaskNumber := y\<rparr>) = event_lists s"
  "event_lists (s\<lparr>mem := m\<rparr>) = event_lists s"
  "event_lists (s\<lparr>stack_overflow_hook_calls := c\<rparr>) = event_lists s"
  by (simp_all add: event_lists_def)

lemma relisted_views [simp]:
  "is_task (relisted s h p n) = is_task s" "priority_of (relisted s h p n) = priority_of s"
  "live cfg (relisted s h p n) = live cfg s" "event_lists (relisted s h p n) = event_lists s"
  by (simp_all add: relisted_def)

lemma yield_simps [simp]:
  "portYIELD s = s\<lparr>PENDING_SOFT_SV := True, soft_interrupt := True\<rparr>"
  by (simp add: portYIELD_def vPortEnterCritical_def vPortExitCritical_def)

section \<open>The effect of waking a set of tasks\<close>

text \<open>\<open>woken W s h\<close>: in the store \<open>h\<close> the tasks of \<open>W\<close> are ready and wait for no event; all else is as in \<open>s\<close>.\<close>

definition woken :: "u32 set \<Rightarrow> os \<Rightarrow> os_store \<Rightarrow> bool" where
  "woken W s h \<longleftrightarrow>
     (\<forall>t. pxContainer (node_at h (StateListItem t)) =
        (if t \<in> W then Some (ReadyTasksList (priority_of s t)) else home s (StateListItem t))) \<and>
     (\<forall>t. pxContainer (node_at h (EventListItem t)) =
        (if t \<in> W then None else home s (EventListItem t))) \<and>
     (\<forall>j. xItemValue (node_at h j) = val s j) \<and> (\<forall>j. pvOwner (node_at h j) = owner s j)"

lemma wokenD:
  assumes "woken W s h"
  shows "pxContainer (node_at h (StateListItem t)) =
        (if t \<in> W then Some (ReadyTasksList (priority_of s t)) else home s (StateListItem t))"
    and "pxContainer (node_at h (EventListItem t)) = (if t \<in> W then None else home s (EventListItem t))"
    and "xItemValue (node_at h j) = val s j" and "pvOwner (node_at h j) = owner s j"
  using assms by (simp_all add: woken_def)

lemma woken_none: "woken {} s (klists s)"
  by (simp add: woken_def)

lemma woken_trans:
  assumes "woken V s h" and "woken W s1 h'" and "klists s1 = h" and "priority_of s1 = priority_of s"
  shows "woken (V \<union> W) s h'"
  using assms by (auto simp: woken_def)

lemma woken_val: "woken W s h \<Longrightarrow> (\<lambda>j. xItemValue (node_at h j)) = val s"
  by (simp add: woken_def fun_eq_iff)

lemma remove1_event_gone:
  "moved s h i None \<Longrightarrow> pxContainer (node_at h j) = (if j = i then None else home s j)"
  by (simp add: moved_def)

text \<open>The step as the tick takes it: state item first, then the event item if it is in a list.\<close>

lemma wake_task:
  assumes k: "kernel_core {} cfg s" and t: "is_task s t"
  obtains n s1 s2 h p where "os_remove (StateListItem t) s = Some (n, s1)"
    and "remove_event_item t s1 = Some s2"
    and "prvAddTaskToReadyList t s2 = Some (relisted s h p (xNextTaskUnblockTime s))"
    and "kernel_core {} cfg (relisted s h p (xNextTaskUnblockTime s))" and "woken {t} s h"
    and "\<And>m. m \<in> live cfg s \<Longrightarrow> m \<noteq> ReadyTasksList (priority_of s t)
           \<Longrightarrow> list_items h m = remove1 (EventListItem t) (remove1 (StateListItem t) (items s m))"
proof -
  obtain n h1 where r1: "os_remove (StateListItem t) s = Some (n, s\<lparr>klists := h1\<rparr>)"
    and k1: "kernel_core {t} cfg (s\<lparr>klists := h1\<rparr>)" and m1: "moved s h1 (StateListItem t) None"
    and c1: "\<And>m. m \<in> live cfg s \<Longrightarrow> list_items h1 m = remove1 (StateListItem t) (items s m)"
    using remove_state_item[OF k t] by auto
  let ?s1 = "s\<lparr>klists := h1\<rparr>"
  obtain h2 where r2: "remove_event_item t ?s1 = Some (s\<lparr>klists := h2\<rparr>)"
    and k2: "kernel_core {t} cfg (s\<lparr>klists := h2\<rparr>)" and m2: "moved ?s1 h2 (EventListItem t) None"
    and c2: "\<And>m. m \<in> live cfg s \<Longrightarrow> list_items h2 m = remove1 (EventListItem t) (list_items h1 m)"
  proof (cases "home ?s1 (EventListItem t) = None")
    case True
    show ?thesis
    proof (rule that[of h1])
      show "moved ?s1 h1 (EventListItem t) None" using True by (simp add: moved_def)
      fix m assume "m \<in> live cfg s"
      then show "list_items h1 m = remove1 (EventListItem t) (list_items h1 m)"
        using free_item_nowhere[OF k1 _ True, of m] by (simp add: remove1_idem)
    qed (use True k1 in \<open>simp_all add: remove_event_item_def listLIST_ITEM_CONTAINER_def\<close>)
  next
    case False
    obtain n' h2 where "os_remove (EventListItem t) ?s1 = Some (n', ?s1\<lparr>klists := h2\<rparr>)"
      and "kernel_core {t} cfg (?s1\<lparr>klists := h2\<rparr>)" and "moved ?s1 h2 (EventListItem t) None"
      and "\<And>m. m \<in> live cfg ?s1 \<Longrightarrow> list_items h2 m = remove1 (EventListItem t) (items ?s1 m)"
      using remove_event_item_ok[OF k1 _ False] t by auto
    then show ?thesis using False
      by (intro that[of h2]) (simp_all add: remove_event_item_def listLIST_ITEM_CONTAINER_def)
  qed
  let ?p = "max (uxTopReadyPriority s) (priority_of s t)"
  obtain h where r3: "prvAddTaskToReadyList t (s\<lparr>klists := h2\<rparr>)
        = Some (s\<lparr>klists := h2\<rparr>\<lparr>uxTopReadyPriority := ?p, klists := h\<rparr>)"
    and k3: "kernel_core ({t} - {t}) cfg (s\<lparr>klists := h2\<rparr>\<lparr>uxTopReadyPriority := ?p, klists := h\<rparr>)"
    and m3: "moved (s\<lparr>klists := h2\<rparr>) h (StateListItem t) (Some (ReadyTasksList (priority_of s t)))"
    and c3: "\<And>m. m \<in> live cfg s \<Longrightarrow> m \<noteq> ReadyTasksList (priority_of s t) \<Longrightarrow> list_items h m = list_items h2 m"
    using add_ready[OF k2, of t] t by auto
  have eq: "s\<lparr>klists := h2\<rparr>\<lparr>uxTopReadyPriority := ?p, klists := h\<rparr> = relisted s h ?p (xNextTaskUnblockTime s)"
    by (simp add: relisted_def)
  show ?thesis
  proof (rule that[OF r1 r2])
    show "prvAddTaskToReadyList t (s\<lparr>klists := h2\<rparr>) = Some (relisted s h ?p (xNextTaskUnblockTime s))"
      using r3 eq by simp
    show "kernel_core {} cfg (relisted s h ?p (xNextTaskUnblockTime s))" using k3 eq by simp
    show "woken {t} s h" using m1 m2 m3 by (simp add: woken_def moved_def)
    fix m assume "m \<in> live cfg s" "m \<noteq> ReadyTasksList (priority_of s t)"
    then show "list_items h m = remove1 (EventListItem t) (remove1 (StateListItem t) (items s m))"
      using c1 c2 c3 by simp
  qed
qed

text \<open>The step as the event functions take it: the event item is in a list and leaves first.\<close>

lemma wake_from_event:
  assumes k: "kernel_core {} cfg s" and t: "is_task s t" and e: "home s (EventListItem t) \<noteq> None"
  obtains n n' s1 s2 h p where "os_remove (EventListItem t) s = Some (n, s1)"
    and "os_remove (StateListItem t) s1 = Some (n', s2)"
    and "prvAddTaskToReadyList t s2 = Some (relisted s h p (xNextTaskUnblockTime s))"
    and "kernel_core {} cfg (relisted s h p (xNextTaskUnblockTime s))" and "woken {t} s h"
    and "\<And>m. m \<in> live cfg s \<Longrightarrow> m \<noteq> ReadyTasksList (priority_of s t)
           \<Longrightarrow> list_items h m = remove1 (StateListItem t) (remove1 (EventListItem t) (items s m))"
    and "s1 = relisted s (klists s1) (uxTopReadyPriority s) (xNextTaskUnblockTime s)"
proof -
  obtain n h1 where r1: "os_remove (EventListItem t) s = Some (n, s\<lparr>klists := h1\<rparr>)"
    and k1: "kernel_core {} cfg (s\<lparr>klists := h1\<rparr>)" and m1: "moved s h1 (EventListItem t) None"
    and c1: "\<And>m. m \<in> live cfg s \<Longrightarrow> list_items h1 m = remove1 (EventListItem t) (items s m)"
    using remove_event_item_ok[OF k t e] by auto
  obtain n' h2 where r2: "os_remove (StateListItem t) (s\<lparr>klists := h1\<rparr>) = Some (n', s\<lparr>klists := h2\<rparr>)"
    and k2: "kernel_core {t} cfg (s\<lparr>klists := h2\<rparr>)" and m2: "moved (s\<lparr>klists := h1\<rparr>) h2 (StateListItem t) None"
    and c2: "\<And>m. m \<in> live cfg s \<Longrightarrow> list_items h2 m = remove1 (StateListItem t) (list_items h1 m)"
    using remove_state_item[OF k1, of t] t by auto
  let ?p = "max (uxTopReadyPriority s) (priority_of s t)"
  obtain h where r3: "prvAddTaskToReadyList t (s\<lparr>klists := h2\<rparr>)
        = Some (s\<lparr>klists := h2\<rparr>\<lparr>uxTopReadyPriority := ?p, klists := h\<rparr>)"
    and k3: "kernel_core ({t} - {t}) cfg (s\<lparr>klists := h2\<rparr>\<lparr>uxTopReadyPriority := ?p, klists := h\<rparr>)"
    and m3: "moved (s\<lparr>klists := h2\<rparr>) h (StateListItem t) (Some (ReadyTasksList (priority_of s t)))"
    and c3: "\<And>m. m \<in> live cfg s \<Longrightarrow> m \<noteq> ReadyTasksList (priority_of s t) \<Longrightarrow> list_items h m = list_items h2 m"
    using add_ready[OF k2, of t] t by auto
  have eq: "s\<lparr>klists := h2\<rparr>\<lparr>uxTopReadyPriority := ?p, klists := h\<rparr> = relisted s h ?p (xNextTaskUnblockTime s)"
    by (simp add: relisted_def)
  show ?thesis
  proof (rule that[OF r1 r2])
    show "prvAddTaskToReadyList t (s\<lparr>klists := h2\<rparr>) = Some (relisted s h ?p (xNextTaskUnblockTime s))"
      using r3 eq by simp
    show "kernel_core {} cfg (relisted s h ?p (xNextTaskUnblockTime s))" using k3 eq by simp
    show "woken {t} s h" using m1 m2 m3 by (simp add: woken_def moved_def)
    fix m assume "m \<in> live cfg s" "m \<noteq> ReadyTasksList (priority_of s t)"
    then show "list_items h m = remove1 (StateListItem t) (remove1 (EventListItem t) (items s m))"
      using c1 c2 c3 by simp
  qed (simp add: relisted_def)
qed

end
