(* ===== verification/Os_Task_Tick.thy ===== *)
theory Os_Task_Tick
  imports Os_Task_Wake
begin

text \<open>
  The tick: \<open>xTaskIncrementTick\<close> wakes exactly the delayed tasks whose wake time the tick count has
  reached, switches the delayed lists when the count wraps, and keeps the invariant.
\<close>

section \<open>The head of a list\<close>

lemma head_owner:
  assumes "lists_ok D h" and "l \<in> D"
  shows "listGET_OWNER_OF_HEAD_ENTRY l h =
     (case list_items h l of [] \<Rightarrow> None | i # is \<Rightarrow> Some (pvOwner (node_at h i)))"
  using lists_okD[OF assms] chain_first[of h "ListEnd l" "list_items h l" "ListEnd l"]
  by (auto simp: is_list_def listGET_OWNER_OF_HEAD_ENTRY_def split: list.splits)

lemma head_value:
  assumes "lists_ok D h" and "l \<in> D" and "list_items h l = i # is"
  shows "listGET_ITEM_VALUE_OF_HEAD_ENTRY l h = xItemValue (node_at h i)"
  using lists_okD[OF assms(1,2)] assms(3)
  by (auto simp: is_list_def listGET_ITEM_VALUE_OF_HEAD_ENTRY_def)

lemma state_head:
  assumes k: "kernel_core X cfg s" and l: "l \<in> state_lists cfg" and i: "items s l = i # is"
  obtains t where "i = StateListItem t" and "is_task s t" and "home s (StateListItem t) = Some l"
    and "listGET_OWNER_OF_HEAD_ENTRY l (klists s) = Some t" and "\<not> listLIST_IS_EMPTY l (klists s)"
proof -
  have lv: "l \<in> live cfg s" using l by simp
  have m: "i \<in> set (items s l)" using i by simp
  have t: "is_task s (owner s i)" "i = StateListItem (owner s i)"
    using item_owner[OF k lv m] l by auto
  show ?thesis
  proof (rule that[of "owner s i"])
    show "home s (StateListItem (owner s i)) = Some l" using member_home[OF k lv] m t(2) by metis
    show "listGET_OWNER_OF_HEAD_ENTRY l (klists s) = Some (owner s i)"
      using head_owner[OF coreD(1)[OF k] lv] i by simp
    show "\<not> listLIST_IS_EMPTY l (klists s)" using list_empty_iff[OF coreD(1)[OF k] lv] i by simp
  qed (use t in simp_all)
qed

lemma event_head:
  assumes k: "kernel_core X cfg s" and l: "l \<in> event_lists s" and i: "items s l = i # is"
  obtains t where "i = EventListItem t" and "is_task s t" and "home s (EventListItem t) = Some l"
    and "listGET_OWNER_OF_HEAD_ENTRY l (klists s) = Some t" and "\<not> listLIST_IS_EMPTY l (klists s)"
proof -
  have lv: "l \<in> live cfg s" using l by simp
  have m: "i \<in> set (items s l)" using i by simp
  have t: "is_task s (owner s i)" "i = EventListItem (owner s i)"
    using item_owner[OF k lv m] l by auto
  show ?thesis
  proof (rule that[of "owner s i"])
    show "home s (EventListItem (owner s i)) = Some l" using member_home[OF k lv] m t(2) by metis
    show "listGET_OWNER_OF_HEAD_ENTRY l (klists s) = Some (owner s i)"
      using head_owner[OF coreD(1)[OF k] lv] i by simp
    show "\<not> listLIST_IS_EMPTY l (klists s)" using list_empty_iff[OF coreD(1)[OF k] lv] i by simp
  qed (use t in simp_all)
qed

lemma empty_list:
  "kernel_core X cfg s \<Longrightarrow> l \<in> live cfg s \<Longrightarrow> listLIST_IS_EMPTY l (klists s) \<longleftrightarrow> items s l = []"
  using list_empty_iff[OF coreD(1)] by blast

lemma delayed_cases:
  assumes "kernel_core X cfg s" and "pxDelayedTaskList s = Some dl"
  shows "dl = DelayedTaskList1 \<or> dl = DelayedTaskList2" and "dl \<in> state_lists cfg" and "dl \<in> live cfg s"
    and "sorted (map (val s) (items s dl))"
proof -
  show c: "dl = DelayedTaskList1 \<or> dl = DelayedTaskList2"
    using coreD(5)[OF assms(1)] assms(2) by (auto simp: delay_ok_def)
  then show "dl \<in> state_lists cfg" by auto
  then show "dl \<in> live cfg s" by simp
  show "sorted (map (val s) (items s dl))" by (rule core_sorted[OF assms(1) c])
qed

lemma delayed_pointer:
  assumes "kernel_core X cfg s"
  obtains dl where "pxDelayedTaskList s = Some dl"
  using coreD(5)[OF assms] by (auto simp: delay_ok_def)

lemma current_tcb:
  assumes "kernel_core X cfg s"
  obtains tcb where "tcbs s (pxCurrentTCB s) = Some tcb" and "uxPriority tcb = priority_of s (pxCurrentTCB s)"
  using coreD(2)[OF assms] by (auto simp: tasks_ok_def is_task_def priority_of_def)

lemma task_tcb:
  assumes "is_task s t"
  obtains tcb where "tcbs s t = Some tcb" and "uxPriority tcb = priority_of s t"
  using assms by (auto simp: is_task_def priority_of_def)

section \<open>The next wake-up time\<close>

definition first_wake :: "os \<Rightarrow> list_ref \<Rightarrow> u32" where
  "first_wake s l = (case items s l of [] \<Rightarrow> portMAX_DELAY | i # is \<Rightarrow> val s i)"

lemma first_wake_le:
  assumes "kernel_core X cfg s" and "pxDelayedTaskList s = Some dl"
    and "home s (StateListItem t) = Some dl"
  shows "first_wake s dl \<le> val s (StateListItem t)"
proof -
  have "StateListItem t \<in> set (items s dl)"
    using member_home[OF assms(1)] delayed_cases(3)[OF assms(1,2)] assms(3) by blast
  then show ?thesis using delayed_cases(4)[OF assms(1,2)]
    by (cases "items s dl") (auto simp: first_wake_def)
qed

lemma reset_unblock_time:
  assumes k: "kernel_core X cfg s" and dl: "pxDelayedTaskList s = Some dl"
  shows "prvResetNextTaskUnblockTime s = Some (s\<lparr>xNextTaskUnblockTime := first_wake s dl\<rparr>)"
proof (cases "items s dl")
  case Nil
  then show ?thesis using empty_list[OF k delayed_cases(3)[OF k dl]]
    by (simp add: prvResetNextTaskUnblockTime_def dl first_wake_def)
next
  case (Cons i "is")
  obtain t where "i = StateListItem t" "is_task s t"
    "listGET_OWNER_OF_HEAD_ENTRY dl (klists s) = Some t" "\<not> listLIST_IS_EMPTY dl (klists s)"
    by (rule state_head[OF k delayed_cases(2)[OF k dl] Cons])
  then show ?thesis
    by (auto simp: prvResetNextTaskUnblockTime_def dl first_wake_def Cons is_task_def
        listGET_LIST_ITEM_VALUE_def)
qed

section \<open>The unblocking loop\<close>

definition due_tasks :: "os \<Rightarrow> list_ref \<Rightarrow> u32 \<Rightarrow> u32 set" where
  "due_tasks s dl now = {t. is_task s t \<and> home s (StateListItem t) = Some dl \<and> val s (StateListItem t) \<le> now}"

lemma tick_loop_spec:
  assumes "kernel_core {} cfg s" and "pxDelayedTaskList s = Some dl"
  shows "\<exists>h p n. tick_unblock_loop now sw s =
        Some (sw \<or> (\<exists>t \<in> due_tasks s dl now. priority_of s t \<ge> priority_of s (pxCurrentTCB s)), relisted s h p n)
     \<and> kernel_core {} cfg (relisted s h p n) \<and> woken (due_tasks s dl now) s h
     \<and> n = first_wake (relisted s h p n) dl
     \<and> list_items h dl = filter (\<lambda>i. now < val s i) (items s dl)
     \<and> (\<forall>m \<in> {DelayedTaskList1, DelayedTaskList2} - {dl}. list_items h m = items s m)"
  using assms
proof (induction "length (items s dl)" arbitrary: s sw rule: less_induct)
  case less
  note k = less.prems(1) and dl = less.prems(2)
  note lv = delayed_cases(3)[OF k dl] and sl = delayed_cases(2)[OF k dl] and so = delayed_cases(4)[OF k dl]
  have member: "StateListItem t \<in> set (items s dl) \<longleftrightarrow> home s (StateListItem t) = Some dl" for t
    using member_home[OF k lv] by blast
  show ?case
  proof (cases "items s dl")
    case Nil
    then have "due_tasks s dl now = {}" using member by (auto simp: due_tasks_def)
    moreover have "tick_unblock_loop now sw s = Some (sw, s\<lparr>xNextTaskUnblockTime := portMAX_DELAY\<rparr>)"
      using Nil empty_list[OF k lv] by (subst tick_unblock_loop.simps) (simp add: dl)
    moreover have "s\<lparr>xNextTaskUnblockTime := portMAX_DELAY\<rparr>
        = relisted s (klists s) (uxTopReadyPriority s) portMAX_DELAY" by (rule relisted_intro)
    ultimately show ?thesis using Nil k core_cong[OF k]
      by (intro exI[of _ "klists s"] exI[of _ "uxTopReadyPriority s"] exI[of _ portMAX_DELAY])
        (simp add: woken_none first_wake_def)
  next
    case (Cons i "is")
    obtain t where t: "i = StateListItem t" "is_task s t" "home s (StateListItem t) = Some dl"
      "listGET_OWNER_OF_HEAD_ENTRY dl (klists s) = Some t" "\<not> listLIST_IS_EMPTY dl (klists s)"
      by (rule state_head[OF k sl Cons])
    obtain tcb where tcb: "tcbs s t = Some tcb" using t(2) by (auto simp: is_task_def)
    show ?thesis
    proof (cases "now < val s i")
      case True
      have later: "now < val s j" if "j \<in> set (items s dl)" for j
        using so Cons that True by auto
      have "due_tasks s dl now = {}" using member later unfolding due_tasks_def
        by (metis (mono_tags, lifting) empty_Collect_eq leD)
      moreover have "tick_unblock_loop now sw s = Some (sw, s\<lparr>xNextTaskUnblockTime := val s i\<rparr>)"
        using t tcb True by (subst tick_unblock_loop.simps) (simp add: dl listGET_LIST_ITEM_VALUE_def Let_def)
      moreover have "s\<lparr>xNextTaskUnblockTime := val s i\<rparr>
          = relisted s (klists s) (uxTopReadyPriority s) (val s i)" by (rule relisted_intro)
      ultimately show ?thesis using Cons k core_cong[OF k] later
        by (intro exI[of _ "klists s"] exI[of _ "uxTopReadyPriority s"] exI[of _ "val s i"])
          (simp add: woken_none first_wake_def)
    next
      case False
      obtain n s1 s2 h1 p1 where r: "os_remove (StateListItem t) s = Some (n, s1)"
        "remove_event_item t s1 = Some s2"
        "prvAddTaskToReadyList t s2 = Some (relisted s h1 p1 (xNextTaskUnblockTime s))"
        and k1: "kernel_core {} cfg (relisted s h1 p1 (xNextTaskUnblockTime s))" and w1: "woken {t} s h1"
        and c1: "\<And>m. m \<in> live cfg s \<Longrightarrow> m \<noteq> ReadyTasksList (priority_of s t)
           \<Longrightarrow> list_items h1 m = remove1 (EventListItem t) (remove1 (StateListItem t) (items s m))"
        using wake_task[OF k t(2)] by metis
      let ?s = "relisted s h1 p1 (xNextTaskUnblockTime s)"
      let ?sw = "if priority_of s t \<ge> priority_of s (pxCurrentTCB s) then True else sw"
      have step: "tick_unblock_loop now sw s = tick_unblock_loop now ?sw ?s"
      proof -
        obtain ctcb where c: "tcbs s (pxCurrentTCB s) = Some ctcb"
          "uxPriority ctcb = priority_of s (pxCurrentTCB s)" by (rule current_tcb[OF k])
        have "uxPriority tcb = priority_of s t" using tcb by (simp add: priority_of_def)
        then show ?thesis using t tcb False r c
          by (subst tick_unblock_loop.simps)
            (simp add: dl listGET_LIST_ITEM_VALUE_def Let_def remove_event_item_def)
      qed
      have ev: "EventListItem t \<notin> set (items s m)" if "m \<in> {DelayedTaskList1, DelayedTaskList2}" for m
        using event_item_not_delayed[OF k] that by blast
      have ne: "m \<noteq> ReadyTasksList (priority_of s t)" "m \<in> live cfg s"
        if "m \<in> {DelayedTaskList1, DelayedTaskList2}" for m using that by auto
      have d12: "dl \<in> {DelayedTaskList1, DelayedTaskList2}" using delayed_cases(1)[OF k dl] by simp
      have it: "items ?s dl = is" using c1[OF ne(2,1)[OF d12]] Cons t(1) ev[OF d12]
        by (simp add: remove1_idem)
      have other: "list_items h1 m = items s m" if "m \<in> {DelayedTaskList1, DelayedTaskList2} - {dl}" for m
      proof -
        have m: "m \<in> {DelayedTaskList1, DelayedTaskList2}" "m \<noteq> dl" using that by auto
        have "StateListItem t \<notin> set (items s m)"
          using member_home[OF k ne(2)[OF m(1)]] t(3) m(2) by auto
        then show ?thesis using c1[OF ne(2,1)[OF m(1)]] ev[OF m(1)] by (simp add: remove1_idem)
      qed
      have dl1: "pxDelayedTaskList ?s = Some dl" using dl by simp
      have less: "length (items ?s dl) < length (items s dl)" using it Cons by simp
      obtain h p n' where loop: "tick_unblock_loop now ?sw ?s =
          Some (?sw \<or> (\<exists>u \<in> due_tasks ?s dl now. priority_of ?s u \<ge> priority_of ?s (pxCurrentTCB ?s)), relisted ?s h p n')"
        and k2: "kernel_core {} cfg (relisted ?s h p n')" and w2: "woken (due_tasks ?s dl now) ?s h"
        and n2: "n' = first_wake (relisted ?s h p n') dl"
        and f2: "list_items h dl = filter (\<lambda>i. now < val ?s i) (items ?s dl)"
        and o2: "\<forall>m \<in> {DelayedTaskList1, DelayedTaskList2} - {dl}. list_items h m = items ?s m"
        using less.hyps[OF less k1 dl1, of ?sw] by blast
      have due: "due_tasks s dl now = insert t (due_tasks ?s dl now)"
        using t False by (auto simp: due_tasks_def wokenD[OF w1] split: if_splits)
      have "woken (due_tasks s dl now) s h"
        using woken_trans[OF w1 w2] due by simp
      moreover have "list_items h dl = filter (\<lambda>i. now < val s i) (items s dl)"
        using f2 it Cons False by (simp add: wokenD[OF w1])
      moreover have "tick_unblock_loop now sw s =
        Some (sw \<or> (\<exists>t \<in> due_tasks s dl now. priority_of s t \<ge> priority_of s (pxCurrentTCB s)), relisted s h p n')"
        using step loop due by auto
      ultimately show ?thesis using k2 n2 o2 other
        by (intro exI[of _ h] exI[of _ p] exI[of _ n']) auto
    qed
  qed
qed


lemma unblock_phase:
  assumes k: "kernel_core {} cfg s" and dl: "pxDelayedTaskList s = Some dl" and o: "overflow_ok s"
    and nx: "\<And>t. is_task s t \<Longrightarrow> home s (StateListItem t) = Some dl
               \<Longrightarrow> xNextTaskUnblockTime s \<le> val s (StateListItem t)"
  obtains h p n where
    "(if xTickCount s \<ge> xNextTaskUnblockTime s then tick_unblock_loop (xTickCount s) False s else Some (False, s))
       = Some (\<exists>t \<in> due_tasks s dl (xTickCount s). priority_of s t \<ge> priority_of s (pxCurrentTCB s),
               relisted s h p n)"
    and "kernel_inv cfg (relisted s h p n)" and "woken (due_tasks s dl (xTickCount s)) s h"
proof -
  let ?now = "xTickCount s"
  obtain ol where ol: "pxOverflowDelayedTaskList s = Some ol" "ol \<noteq> dl" "\<And>p. ReadyTasksList p \<noteq> ol"
    "\<And>p. ReadyTasksList p \<noteq> dl"
    using coreD(5)[OF k] dl by (auto simp: delay_ok_def)
  have inv: "kernel_inv cfg (relisted s h p n)"
    if "kernel_core {} cfg (relisted s h p n)" "woken (due_tasks s dl ?now) s h"
      "\<And>t. is_task s t \<Longrightarrow> home (relisted s h p n) (StateListItem t) = Some dl
         \<Longrightarrow> n \<le> val s (StateListItem t)" for h p n
  proof -
    note w = wokenD[OF that(2)]
    have "due_ok (relisted s h p n)"
      using dl that(3) ol(4) by (auto simp: due_ok_def w due_tasks_def split: if_splits)
    moreover have "overflow_ok (relisted s h p n)"
      using o ol by (auto simp: overflow_ok_def w split: if_splits)
    ultimately show ?thesis using that(1) by (simp add: kernel_inv_def)
  qed
  show ?thesis
  proof (cases "?now \<ge> xNextTaskUnblockTime s")
    case True
    obtain h p n where l: "tick_unblock_loop ?now False s =
        Some (False \<or> (\<exists>t \<in> due_tasks s dl ?now. priority_of s t \<ge> priority_of s (pxCurrentTCB s)), relisted s h p n)"
      and k1: "kernel_core {} cfg (relisted s h p n)" and w: "woken (due_tasks s dl ?now) s h"
      and n: "n = first_wake (relisted s h p n) dl"
      using tick_loop_spec[OF k dl, of ?now False] by blast
    have "n \<le> val s (StateListItem t)" if "home (relisted s h p n) (StateListItem t) = Some dl" for t
      using first_wake_le[OF k1, of dl t] that n dl by (simp add: wokenD[OF w])
    then show ?thesis using that[OF _ inv[OF k1 w] w] l True by auto
  next
    case False
    have e: "due_tasks s dl ?now = {}" using False nx by (force simp: due_tasks_def)
    then have w: "woken (due_tasks s dl ?now) s (klists s)" by (simp add: woken_none)
    have "kernel_core {} cfg (relisted s (klists s) (uxTopReadyPriority s) (xNextTaskUnblockTime s))"
      using k by (simp only: relisted_self)
    then have "kernel_inv cfg (relisted s (klists s) (uxTopReadyPriority s) (xNextTaskUnblockTime s))"
      using w nx by (rule inv) (simp_all only: relisted_self)
    from that[OF _ this w] show ?thesis using False e by (simp only: relisted_self if_False bex_empty simp_thms)
  qed
qed

section \<open>One tick\<close>

text \<open>The tasks whose time is the next value of the tick count.\<close>

definition waking :: "os \<Rightarrow> u32 set" where
  "waking s = {t. is_task s t \<and> (home s (StateListItem t) = Some DelayedTaskList1 \<or>
      home s (StateListItem t) = Some DelayedTaskList2) \<and> val s (StateListItem t) = xTickCount s + 1}"

definition slice_over :: "os_config \<Rightarrow> os \<Rightarrow> bool" where
  "slice_over cfg s \<longleftrightarrow> configUSE_TIME_SLICING cfg \<and>
     listCURRENT_LIST_LENGTH (ReadyTasksList (priority_of s (pxCurrentTCB s))) (klists s) > 1"

lemma word_next_le: "(n :: u32) + 1 \<noteq> 0 \<Longrightarrow> n < v \<longleftrightarrow> n + 1 \<le> v"
  by (simp add: word_less_nat_alt word_le_nat_alt unatSuc Suc_le_eq add.commute[of n 1])


lemma tick_split:
  assumes k: "kernel_inv cfg s" and run: "uxSchedulerSuspended s = 0"
  obtains s2 dl where "(if xTickCount s + 1 = 0 then taskSWITCH_DELAYED_LISTS (s\<lparr>xTickCount := xTickCount s + 1\<rparr>)
                        else Some (s\<lparr>xTickCount := xTickCount s + 1\<rparr>)) = Some s2"
    and "kernel_core {} cfg s2" and "pxDelayedTaskList s2 = Some dl" and "overflow_ok s2"
    and "\<forall>t. is_task s2 t \<longrightarrow> home s2 (StateListItem t) = Some dl
           \<longrightarrow> xNextTaskUnblockTime s2 \<le> val s2 (StateListItem t)"
    and "due_tasks s2 dl (xTickCount s2) = waking s" and "klists s2 = klists s" and "tcbs s2 = tcbs s"
    and "pxCurrentTCB s2 = pxCurrentTCB s" and "xTickCount s2 = xTickCount s + 1"
    and "xYieldPending s2 = xYieldPending s" and "uxPendedTicks s2 = uxPendedTicks s"
    and "uxSchedulerSuspended s2 = uxSchedulerSuspended s" and "queues s2 = queues s"
    and "uxCriticalNesting s2 = uxCriticalNesting s" and "mem s2 = mem s"
    and "uxCurrentNumberOfTasks s2 = uxCurrentNumberOfTasks s"
    and "xNumOfOverflows s2 = (if xTickCount s + 1 = 0 then xNumOfOverflows s + 1 else xNumOfOverflows s)"
proof -
  note c = invD[OF k]
  let ?s1 = "s\<lparr>xTickCount := xTickCount s + 1\<rparr>"
  have k1: "kernel_core {} cfg ?s1" by (rule core_cong[OF c(1)]) simp_all
  obtain dl ol where dl: "pxDelayedTaskList s = Some dl" "pxOverflowDelayedTaskList s = Some ol"
    and d12: "dl = DelayedTaskList1 \<and> ol = DelayedTaskList2 \<or> dl = DelayedTaskList2 \<and> ol = DelayedTaskList1"
    using coreD(5)[OF c(1)] by (auto simp: delay_ok_def)
  have due: "xTickCount s < val s (StateListItem t)" "xNextTaskUnblockTime s \<le> val s (StateListItem t)"
    if "is_task s t" "home s (StateListItem t) = Some dl" for t
    using c(2) that dl by (auto simp: due_ok_def)
  have ov: "val s (StateListItem t) < xTickCount s"
    if "is_task s t" "home s (StateListItem t) = Some ol" for t
    using c(3) that dl by (auto simp: overflow_ok_def)
  show ?thesis
  proof (cases "xTickCount s + 1 = 0")
    case False
    have lt: "xTickCount s < v \<longleftrightarrow> xTickCount s + 1 \<le> v" for v by (rule word_next_le[OF False])
    have "overflow_ok ?s1"
      using ov dl lt by (auto simp: overflow_ok_def intro: less_trans)
    moreover have "due_tasks ?s1 dl (xTickCount ?s1) = waking s"
    proof -
      have A: "val s (StateListItem t) \<le> xTickCount s + 1 \<longleftrightarrow> val s (StateListItem t) = xTickCount s + 1"
        if "is_task s t" "home s (StateListItem t) = Some dl" for t
        using due(1)[OF that] lt[of "val s (StateListItem t)"] by auto
      have B: "val s (StateListItem t) \<noteq> xTickCount s + 1"
        if "is_task s t" "home s (StateListItem t) = Some ol" for t
        using ov[OF that] lt[of "xTickCount s + 1"] by auto
      have "waking s = {t. is_task s t \<and> home s (StateListItem t) = Some dl \<and> val s (StateListItem t) = xTickCount s + 1}"
        using d12 B by (auto simp: waking_def)
      then show ?thesis using A by (auto simp: due_tasks_def)
    qed
    ultimately show ?thesis using that[of ?s1 dl] False k1 dl due by simp
  next
    case True
    have m: "xTickCount s = - 1" using True by (simp only: eq_neg_iff_add_eq_0)
    have none: "\<not> (is_task s t \<and> home s (StateListItem t) = Some dl)" for t
      using due(1)[of t] m by (auto simp: word_order.not_eq_extremum)
    let ?s2 = "?s1\<lparr>pxDelayedTaskList := Some ol, pxOverflowDelayedTaskList := Some dl,
                    xNumOfOverflows := xNumOfOverflows s + 1\<rparr>"
    have k2: "kernel_core {} cfg ?s2"
      using c(1) d12 dl by (auto simp: kernel_core_def tasks_ok_def placed_def ready_ok_def delay_ok_def)
    have r: "prvResetNextTaskUnblockTime ?s2 = Some (?s2\<lparr>xNextTaskUnblockTime := first_wake ?s2 ol\<rparr>)"
      by (rule reset_unblock_time[OF k2]) simp
    let ?s3 = "?s2\<lparr>xNextTaskUnblockTime := first_wake ?s2 ol\<rparr>"
    have k3: "kernel_core {} cfg ?s3" by (rule core_cong[OF k2]) simp_all
    have "overflow_ok ?s3" using none by (auto simp: overflow_ok_def)
    moreover have "due_tasks ?s3 ol (xTickCount ?s3) = waking s"
      using d12 none True unfolding due_tasks_def waking_def by auto
    moreover have "first_wake ?s2 ol \<le> val s (StateListItem t)" if "home s (StateListItem t) = Some ol" for t
      using first_wake_le[OF k2, of ol t] that by simp
    ultimately show ?thesis using that[of ?s3 ol] True k3 dl r
      by (simp add: taskSWITCH_DELAYED_LISTS_def)
  qed
qed


lemma increment_tick_running:
  assumes k: "kernel_inv cfg s" and run: "uxSchedulerSuspended s = 0"
  obtains sw s' where "xTaskIncrementTick cfg s = Some (sw, s')" and "kernel_inv cfg s'"
    and "xTickCount s' = xTickCount s + 1" and "tcbs s' = tcbs s" and "pxCurrentTCB s' = pxCurrentTCB s"
    and "woken (waking s) s (klists s')" and "queues s' = queues s" and "mem s' = mem s"
    and "uxSchedulerSuspended s' = 0" and "uxPendedTicks s' = uxPendedTicks s"
    and "xYieldPending s' = xYieldPending s" and "uxCriticalNesting s' = uxCriticalNesting s"
    and "uxCurrentNumberOfTasks s' = uxCurrentNumberOfTasks s"
    and "xNumOfOverflows s' = (if xTickCount s + 1 = 0 then xNumOfOverflows s + 1 else xNumOfOverflows s)"
    and "sw \<longleftrightarrow> xYieldPending s \<or> slice_over cfg s'
           \<or> (\<exists>t \<in> waking s. priority_of s t \<ge> priority_of s (pxCurrentTCB s))"
proof -
  obtain s2 dl where s2: "(if xTickCount s + 1 = 0 then taskSWITCH_DELAYED_LISTS (s\<lparr>xTickCount := xTickCount s + 1\<rparr>)
                        else Some (s\<lparr>xTickCount := xTickCount s + 1\<rparr>)) = Some s2"
    and k2: "kernel_core {} cfg s2" and dl: "pxDelayedTaskList s2 = Some dl" and o2: "overflow_ok s2"
    and nx: "\<forall>t. is_task s2 t \<longrightarrow> home s2 (StateListItem t) = Some dl
           \<longrightarrow> xNextTaskUnblockTime s2 \<le> val s2 (StateListItem t)"
    and W: "due_tasks s2 dl (xTickCount s2) = waking s" and same: "klists s2 = klists s" "tcbs s2 = tcbs s"
      "pxCurrentTCB s2 = pxCurrentTCB s" "xTickCount s2 = xTickCount s + 1"
      "xYieldPending s2 = xYieldPending s" "uxPendedTicks s2 = uxPendedTicks s"
      "uxSchedulerSuspended s2 = uxSchedulerSuspended s" "queues s2 = queues s"
      "uxCriticalNesting s2 = uxCriticalNesting s" "mem s2 = mem s"
      "uxCurrentNumberOfTasks s2 = uxCurrentNumberOfTasks s"
      "xNumOfOverflows s2 = (if xTickCount s + 1 = 0 then xNumOfOverflows s + 1 else xNumOfOverflows s)"
    by (rule tick_split[OF k run])
  have pr: "priority_of s2 = priority_of s" by (simp add: priority_of_def same fun_eq_iff)
  obtain h p n where l: "(if xTickCount s2 \<ge> xNextTaskUnblockTime s2 then tick_unblock_loop (xTickCount s2) False s2
        else Some (False, s2)) =
      Some (\<exists>t \<in> due_tasks s2 dl (xTickCount s2). priority_of s2 t \<ge> priority_of s2 (pxCurrentTCB s2), relisted s2 h p n)"
    and k3: "kernel_inv cfg (relisted s2 h p n)" and w: "woken (due_tasks s2 dl (xTickCount s2)) s2 h"
    by (rule unblock_phase[OF k2 dl o2]) (use nx in blast)+
  let ?s3 = "relisted s2 h p n"
  let ?b = "\<exists>t \<in> waking s. priority_of s t \<ge> priority_of s (pxCurrentTCB s)"
  obtain ctcb where c: "tcbs s (pxCurrentTCB s) = Some ctcb" "uxPriority ctcb = priority_of s (pxCurrentTCB s)"
    by (rule current_tcb[OF invD(1)[OF k]])
  have cp: "priority_of s (pxCurrentTCB s) < configMAX_PRIORITIES"
    using coreD(2)[OF invD(1)[OF k]] by (simp add: tasks_ok_def)
  have w': "woken (waking s) s h" using w W by (simp add: woken_def same pr)
  have l': "(if xTickCount s + 1 \<ge> xNextTaskUnblockTime s2 then tick_unblock_loop (xTickCount s + 1) False s2
        else Some (False, s2)) = Some (?b, ?s3)"
    using l[unfolded W, unfolded pr same] .
  have "xTaskIncrementTick cfg s = Some (xYieldPending s \<or> slice_over cfg ?s3 \<or> ?b, ?s3)"
    unfolding xTaskIncrementTick_def using c cp
    by (simp add: run s2 l' same Let_def slice_over_def pr)
  then show ?thesis by (rule that) (use k3 w' same run in simp_all)
qed

lemma increment_tick_suspended:
  assumes "uxSchedulerSuspended s \<noteq> 0"
  shows "xTaskIncrementTick cfg s = Some (xYieldPending s, s\<lparr>uxPendedTicks := uxPendedTicks s + 1\<rparr>)"
  using assms by (simp add: xTaskIncrementTick_def)

end
