(* ===== verification/Os_Task_Run.thy ===== *)
theory Os_Task_Run
  imports Os_Task_Tick Os_List_Turns
begin

text \<open>
  Choosing the task to run and letting the scheduler run again: \<open>vTaskSwitchContext\<close> picks the
  next task, in turn, of the highest priority that has a ready task; \<open>xTaskResumeAll\<close> readies
  every task on the pending list and replays the ticks missed.
\<close>

section \<open>The highest ready priority\<close>

lemma ready_live: "p < configMAX_PRIORITIES \<Longrightarrow> ReadyTasksList p \<in> live cfg s"
  by simp

lemma top_ready_search_finds:
  assumes k: "kernel_core X cfg s" and p: "p < configMAX_PRIORITIES"
    and q: "q \<le> p" "items s (ReadyTasksList q) \<noteq> []"
  obtains r where "top_ready_search (klists s) p = Some r" and "r \<le> p" and "items s (ReadyTasksList r) \<noteq> []"
    and "\<And>q. r < q \<Longrightarrow> q \<le> p \<Longrightarrow> items s (ReadyTasksList q) = []"
proof -
  have "\<exists>r. top_ready_search (klists s) p = Some r \<and> r \<le> p \<and> items s (ReadyTasksList r) \<noteq> []
     \<and> (\<forall>q. r < q \<longrightarrow> q \<le> p \<longrightarrow> items s (ReadyTasksList q) = [])"
    using p q
  proof (induction "unat p" arbitrary: p rule: less_induct)
    case less
    show ?case
    proof (cases "items s (ReadyTasksList p) = []")
      case False
      then show ?thesis using less.prems empty_list[OF k ready_live[OF less.prems(1)]]
        by (intro exI[of _ p], subst top_ready_search.simps) (simp add: less_le_not_le)
    next
      case True
      then have ne: "q \<noteq> p" using less.prems(3) by auto
      then have "p \<noteq> 0" using less.prems(2) by auto
      then have u: "unat (p - 1) = unat p - 1" "unat p > 0" by (simp_all add: unat_minus_one unat_gt_0)
      then have lt: "unat (p - 1) < unat p" by simp
      then have "p - 1 < p" by (simp add: word_less_nat_alt)
      then have pm: "p - 1 < configMAX_PRIORITIES" using less.prems(1) by (rule less_trans)
      have le: "v \<le> p - 1" if "v \<le> p" "v \<noteq> p" for v
        using that u by (auto simp: word_le_nat_alt word_unat_eq_iff)
      obtain r where r: "top_ready_search (klists s) (p - 1) = Some r" "r \<le> p - 1"
        "items s (ReadyTasksList r) \<noteq> []"
        "\<forall>q. r < q \<longrightarrow> q \<le> p - 1 \<longrightarrow> items s (ReadyTasksList q) = []"
        using less.hyps[OF lt pm le[OF less.prems(2) ne] less.prems(3)] by blast
      have "top_ready_search (klists s) p = Some r"
        using True r(1) less.prems(1) empty_list[OF k ready_live[OF less.prems(1)]]
        by (subst top_ready_search.simps) simp
      moreover have "r \<le> p" using r(2) \<open>p - 1 < p\<close> by simp
      moreover have "items s (ReadyTasksList v) = []" if "r < v" "v \<le> p" for v
        using r(4) True that le by (cases "v = p") auto
      ultimately show ?thesis using r(3) by blast
    qed
  qed
  then show ?thesis using that by blast
qed

definition some_ready :: "os_config \<Rightarrow> os \<Rightarrow> bool" where
  "some_ready cfg s \<longleftrightarrow> (\<exists>p < configMAX_PRIORITIES. items s (ReadyTasksList p) \<noteq> [])"

lemma some_ready_top:
  assumes k: "kernel_core X cfg s" and r: "some_ready cfg s"
  obtains q where "q \<le> uxTopReadyPriority s" and "items s (ReadyTasksList q) \<noteq> []"
    and "\<And>p. p < configMAX_PRIORITIES \<Longrightarrow> items s (ReadyTasksList p) \<noteq> [] \<Longrightarrow> p \<le> uxTopReadyPriority s"
proof -
  have top: "p \<le> uxTopReadyPriority s" if p: "p < configMAX_PRIORITIES" "items s (ReadyTasksList p) \<noteq> []" for p
  proof -
    obtain i "is" where i: "items s (ReadyTasksList p) = i # is" using p(2) by (cases "items s (ReadyTasksList p)") auto
    have pl: "ReadyTasksList p \<in> state_lists cfg" using p(1) by simp
    obtain t where "is_task s t" "home s (StateListItem t) = Some (ReadyTasksList p)"
      by (rule state_head[OF k pl i])
    then show ?thesis by (rule core_ready(3)[OF k])
  qed
  then show ?thesis using r that unfolding some_ready_def by blast
qed

section \<open>The context switch\<close>

lemma core_of_views:
  assumes k: "kernel_core X cfg s" and ok: "lists_ok (live cfg s) h" and n: "node_at h = node_at (klists s)"
    and c: "\<And>m. m \<in> live cfg s \<Longrightarrow> list_items h m = items s m" and cur: "is_task s t"
    and p: "p < configMAX_PRIORITIES"
      "\<And>u q. is_task s u \<Longrightarrow> home s (StateListItem u) = Some (ReadyTasksList q) \<Longrightarrow> q \<le> p"
  shows "kernel_core X cfg (s\<lparr>klists := h, pxCurrentTCB := t, uxTopReadyPriority := p\<rparr>)"
proof -
  have "is_task (s\<lparr>klists := h, pxCurrentTCB := t, uxTopReadyPriority := p\<rparr>) = is_task s"
    "priority_of (s\<lparr>klists := h, pxCurrentTCB := t, uxTopReadyPriority := p\<rparr>) = priority_of s"
    "live cfg (s\<lparr>klists := h, pxCurrentTCB := t, uxTopReadyPriority := p\<rparr>) = live cfg s"
    by (simp_all add: is_task_def priority_of_def live_def event_lists_def fun_eq_iff)
  then show ?thesis using coreD[OF k] ok cur p c
    by (auto simp: kernel_core_def tasks_ok_def placed_def ready_ok_def delay_ok_def n event_lists_def)
qed

lemma select_task_spec:
  assumes k: "kernel_core X cfg s" and r: "some_ready cfg s"
  obtains t p ts h where "taskSELECT_HIGHEST_PRIORITY_TASK s =
        Some (s\<lparr>klists := h, pxCurrentTCB := t, uxTopReadyPriority := p\<rparr>)"
    and "kernel_core X cfg (s\<lparr>klists := h, pxCurrentTCB := t, uxTopReadyPriority := p\<rparr>)"
    and "is_task s t" and "home s (StateListItem t) = Some (ReadyTasksList p)" and "p < configMAX_PRIORITIES"
    and "\<And>q. q < configMAX_PRIORITIES \<Longrightarrow> items s (ReadyTasksList q) \<noteq> [] \<Longrightarrow> q \<le> p"
    and "list_turns (klists s) (ReadyTasksList p) = StateListItem t # ts"
    and "list_turns h (ReadyTasksList p) = ts @ [StateListItem t]"
    and "\<And>m. m \<noteq> ReadyTasksList p \<Longrightarrow> list_at h m = list_at (klists s) m"
    and "node_at h = node_at (klists s)" and "\<And>m. m \<in> live cfg s \<Longrightarrow> list_items h m = items s m"
proof -
  obtain q where q: "q \<le> uxTopReadyPriority s" "items s (ReadyTasksList q) \<noteq> []"
    and top: "\<And>p. p < configMAX_PRIORITIES \<Longrightarrow> items s (ReadyTasksList p) \<noteq> [] \<Longrightarrow> p \<le> uxTopReadyPriority s"
    by (rule some_ready_top[OF k r]) blast
  note tp = core_ready(1)[OF k]
  obtain p where p: "top_ready_search (klists s) (uxTopReadyPriority s) = Some p"
    "p \<le> uxTopReadyPriority s" "items s (ReadyTasksList p) \<noteq> []"
    and high: "\<And>q. p < q \<Longrightarrow> q \<le> uxTopReadyPriority s \<Longrightarrow> items s (ReadyTasksList q) = []"
    by (rule top_ready_search_finds[OF k tp q]) blast
  have p15: "p < configMAX_PRIORITIES" using p(2) tp by (rule order_le_less_trans)
  note lv = ready_live[OF p15, of cfg s]
  have pl: "ReadyTasksList p \<in> state_lists cfg" using p15 by simp
  obtain i ts h where e: "list_turns (klists s) (ReadyTasksList p) = i # ts"
    and g: "listGET_OWNER_OF_NEXT_ENTRY (ReadyTasksList p) (klists s) = Some (owner s i, h)"
    and i: "i \<in> set (items s (ReadyTasksList p))" and ok: "lists_ok (live cfg s) h"
    and n: "node_at h = node_at (klists s)"
    and c: "\<And>m. m \<in> live cfg s \<Longrightarrow> list_items h m = items s m"
    and e': "list_turns h (ReadyTasksList p) = ts @ [i]"
    and o: "\<And>m. m \<noteq> ReadyTasksList p \<Longrightarrow> list_at h m = list_at (klists s) m"
    by (rule next_entry_ok[OF coreD(1)[OF k] lv p(3)]) blast
  have t: "is_task s (owner s i)" "i = StateListItem (owner s i)" using item_owner[OF k lv i] pl by auto
  have hm: "home s (StateListItem (owner s i)) = Some (ReadyTasksList p)"
    using member_home[OF k lv, of i] i t(2) by metis
  have hi: "q \<le> p" if "q < configMAX_PRIORITIES" "items s (ReadyTasksList q) \<noteq> []" for q
    using high[of q] top[OF that] that(2) by (meson not_le)
  have bound: "q \<le> p" if "is_task s u" "home s (StateListItem u) = Some (ReadyTasksList q)" for u q
  proof -
    have q15: "q < configMAX_PRIORITIES"
      using core_ready(2)[OF k that] coreD(2)[OF k] that(1) by (auto simp: tasks_ok_def)
    then show ?thesis using member_home[OF k ready_live[OF q15], of "StateListItem u"] that(2)
      by (intro hi) auto
  qed
  show ?thesis
  proof (rule that[where t = "owner s i" and p = p and ts = ts and h = h])
    show "taskSELECT_HIGHEST_PRIORITY_TASK s =
        Some (s\<lparr>klists := h, pxCurrentTCB := owner s i, uxTopReadyPriority := p\<rparr>)"
      by (simp add: taskSELECT_HIGHEST_PRIORITY_TASK_def p(1) g)
    show "kernel_core X cfg (s\<lparr>klists := h, pxCurrentTCB := owner s i, uxTopReadyPriority := p\<rparr>)"
      by (rule core_of_views[OF k ok n c t(1) p15]) (use bound in blast)+
  qed (use t hm p15 hi e e' o n c in auto)
qed

lemma inv_of_views:
  assumes "kernel_inv cfg s" and "kernel_core {} cfg s'" and "node_at (klists s') = node_at (klists s)"
    and "tcbs s' = tcbs s" and "pxDelayedTaskList s' = pxDelayedTaskList s"
    and "pxOverflowDelayedTaskList s' = pxOverflowDelayedTaskList s"
    and "xTickCount s' = xTickCount s" and "xNextTaskUnblockTime s' = xNextTaskUnblockTime s"
  shows "kernel_inv cfg s'"
  using assms by (simp add: kernel_inv_def due_ok_def overflow_ok_def is_task_def)

lemma stack_check_frame:
  assumes "tcbs s (pxCurrentTCB s) = Some tcb"
  obtains c where "taskCHECK_FOR_STACK_OVERFLOW s = Some (s\<lparr>stack_overflow_hook_calls := c\<rparr>)"
proof -
  have "taskCHECK_FOR_STACK_OVERFLOW s = Some (s\<lparr>stack_overflow_hook_calls := stack_overflow_hook_calls s @ [pxCurrentTCB s]\<rparr>)
      \<or> taskCHECK_FOR_STACK_OVERFLOW s = Some (s\<lparr>stack_overflow_hook_calls := stack_overflow_hook_calls s\<rparr>)"
    using assms by (simp add: taskCHECK_FOR_STACK_OVERFLOW_def)
  then show ?thesis using that by blast
qed

lemma inv_cong:
  assumes "kernel_inv cfg s" and "klists s' = klists s" and "tcbs s' = tcbs s" and "queues s' = queues s"
    and "pxCurrentTCB s' = pxCurrentTCB s" and "pxDelayedTaskList s' = pxDelayedTaskList s"
    and "pxOverflowDelayedTaskList s' = pxOverflowDelayedTaskList s"
    and "uxTopReadyPriority s' = uxTopReadyPriority s" and "xTickCount s' = xTickCount s"
    and "xNextTaskUnblockTime s' = xNextTaskUnblockTime s"
  shows "kernel_inv cfg s'"
proof -
  have "kernel_core {} cfg s'" by (rule core_cong[OF invD(1)[OF assms(1)]]) (use assms in simp_all)
  then show ?thesis by (rule inv_of_views[OF assms(1)]) (use assms in simp_all)
qed


lemma switch_context_spec:
  assumes k: "kernel_inv cfg s" and run: "uxSchedulerSuspended s = 0" and r: "some_ready cfg s"
  obtains t p ts h c where "vTaskSwitchContext s = Some (s\<lparr>xYieldPending := False,
        stack_overflow_hook_calls := c, klists := h, pxCurrentTCB := t, uxTopReadyPriority := p\<rparr>)"
    and "kernel_inv cfg (s\<lparr>xYieldPending := False,
        stack_overflow_hook_calls := c, klists := h, pxCurrentTCB := t, uxTopReadyPriority := p\<rparr>)"
    and "is_task s t" and "home s (StateListItem t) = Some (ReadyTasksList p)" and "p < configMAX_PRIORITIES"
    and "\<And>q. q < configMAX_PRIORITIES \<Longrightarrow> items s (ReadyTasksList q) \<noteq> [] \<Longrightarrow> q \<le> p"
    and "list_turns (klists s) (ReadyTasksList p) = StateListItem t # ts"
    and "list_turns h (ReadyTasksList p) = ts @ [StateListItem t]"
    and "\<And>m. m \<noteq> ReadyTasksList p \<Longrightarrow> list_at h m = list_at (klists s) m"
    and "node_at h = node_at (klists s)"
proof -
  let ?s1 = "s\<lparr>xYieldPending := False\<rparr>"
  obtain tcb where "tcbs ?s1 (pxCurrentTCB ?s1) = Some tcb"
    using current_tcb[OF invD(1)[OF k]] by auto
  then obtain c where c: "taskCHECK_FOR_STACK_OVERFLOW ?s1 = Some (?s1\<lparr>stack_overflow_hook_calls := c\<rparr>)"
    by (rule stack_check_frame)
  let ?s2 = "?s1\<lparr>stack_overflow_hook_calls := c\<rparr>"
  have k2: "kernel_inv cfg ?s2" by (rule inv_cong[OF k]) simp_all
  have r2: "some_ready cfg ?s2" using r by (simp add: some_ready_def)
  obtain t p ts h where sel: "taskSELECT_HIGHEST_PRIORITY_TASK ?s2 =
        Some (?s2\<lparr>klists := h, pxCurrentTCB := t, uxTopReadyPriority := p\<rparr>)"
    and k3: "kernel_core {} cfg (?s2\<lparr>klists := h, pxCurrentTCB := t, uxTopReadyPriority := p\<rparr>)"
    and t: "is_task ?s2 t" "home ?s2 (StateListItem t) = Some (ReadyTasksList p)" "p < configMAX_PRIORITIES"
    and hi: "\<And>q. q < configMAX_PRIORITIES \<Longrightarrow> items ?s2 (ReadyTasksList q) \<noteq> [] \<Longrightarrow> q \<le> p"
    and e: "list_turns (klists ?s2) (ReadyTasksList p) = StateListItem t # ts"
      "list_turns h (ReadyTasksList p) = ts @ [StateListItem t]"
    and o: "\<And>m. m \<noteq> ReadyTasksList p \<Longrightarrow> list_at h m = list_at (klists ?s2) m"
    and n: "node_at h = node_at (klists ?s2)"
    by (rule select_task_spec[OF invD(1)[OF k2] r2]) blast
  show ?thesis
  proof (rule that[where t = t and p = p and ts = ts and h = h and c = c])
    show "kernel_inv cfg (s\<lparr>xYieldPending := False, stack_overflow_hook_calls := c, klists := h,
        pxCurrentTCB := t, uxTopReadyPriority := p\<rparr>)"
      by (rule inv_of_views[OF k2 k3]) (simp_all add: n)
    show "vTaskSwitchContext s = Some (s\<lparr>xYieldPending := False,
        stack_overflow_hook_calls := c, klists := h, pxCurrentTCB := t, uxTopReadyPriority := p\<rparr>)"
      by (simp add: vTaskSwitchContext_def run c sel)
  qed (use t hi e o n in auto)
qed

end
