(* ===== verification/Os_Task_New.thy ===== *)
theory Os_Task_New
  imports Os_Task_Run
begin

text \<open>
  Task creation keeps the invariant: \<open>xTaskCreate\<close> on a running or not yet started kernel, and the
  first creation, which also initialises the kernel's lists.
\<close>

section \<open>The initial stack frame\<close>

lemma clear_frame_returns:
  fixes top tp :: u32
  assumes "top \<le> 0xFFFFFFF8"
  shows "\<exists>m'. clear_frame_loop tp top m = Some m'"
proof (induction "unat (0xFFFFFFFF - tp)" arbitrary: tp m rule: less_induct)
  case less
  show ?case
  proof (cases "tp \<le> top")
    case True
    then have "tp \<le> 0xFFFFFFF8" using assms by simp
    then have "unat (0xFFFFFFFF - (tp + 4)) < unat (0xFFFFFFFF - tp)"
      by unat_arith
    from less.hyps[OF this] True show ?thesis by (subst clear_frame_loop.simps) simp
  next
    case False
    then show ?thesis by (subst clear_frame_loop.simps) simp
  qed
qed

lemma stack_top_low: "new_task_stack_top stack d \<le> 0xFFFFFFF8"
proof -
  have "x AND NOT 7 \<le> (NOT 7 :: u32)" for x :: u32 by (rule word_and_le1)
  moreover have "(NOT 7 :: u32) = 0xFFFFFFF8" by simp
  ultimately show ?thesis unfolding new_task_stack_top_def portBYTE_ALIGNMENT_MASK_def by metis
qed

lemma initialise_stack_returns:
  obtains sp m where "pxPortInitialiseStack pp (new_task_stack_top stack d) code arg s = Some (sp, s\<lparr>mem := m\<rparr>)"
  using clear_frame_returns[OF stack_top_low, of "initial_sp pp (new_task_stack_top stack d)" stack d "mem s"]
  by (auto simp: pxPortInitialiseStack_def Let_def)

section \<open>Adding a task to the tables\<close>

lemma init_item_ok:
  assumes ok: "lists_ok D h" and i: "\<And>l. l \<in> D \<Longrightarrow> pxContainer (node_at h i) \<noteq> Some l"
  shows "lists_ok D (vListInitialiseItem i h)"
    and "m \<in> D \<Longrightarrow> list_items (vListInitialiseItem i h) m = list_items h m"
proof -
  have l: "get_next (vListInitialiseItem i h) r = get_next h r"
    "get_prev (vListInitialiseItem i h) r = get_prev h r" for r
    by (cases r; simp add: vListInitialiseItem_def links_eval)+
  have n: "list_at (vListInitialiseItem i h) = list_at h"
    "pxContainer (node_at (vListInitialiseItem i h) j) = (if j = i then None else pxContainer (node_at h j))"
    "xItemValue (node_at (vListInitialiseItem i h) j) = xItemValue (node_at h j)" for j
    by (simp_all add: vListInitialiseItem_def)
  have "is_list (vListInitialiseItem i h) m (list_items h m)" if "m \<in> D" for m
    by (rule is_list_frame[OF lists_okD[OF ok that]])
      (use i[OF that] in \<open>simp_all add: l n\<close>)
  from lists_okI[of D _ "list_items h", OF this]
  show "lists_ok D (vListInitialiseItem i h)"
    "m \<in> D \<Longrightarrow> list_items (vListInitialiseItem i h) m = list_items h m" by blast+
qed

text \<open>The items of a control block as \<open>prvInitialiseNewTask\<close> leaves them.\<close>

definition new_items :: "u32 \<Rightarrow> u32 \<Rightarrow> os_store \<Rightarrow> os_store" where
  "new_items t v h = listSET_LIST_ITEM_OWNER (EventListItem t) t
     (listSET_LIST_ITEM_VALUE (EventListItem t) v
       (listSET_LIST_ITEM_OWNER (StateListItem t) t
         (vListInitialiseItem (EventListItem t) (vListInitialiseItem (StateListItem t) h))))"

lemma new_items_views:
  "pxContainer (node_at (new_items t v h) i) =
     (if i = StateListItem t \<or> i = EventListItem t then None else pxContainer (node_at h i))"
  "pvOwner (node_at (new_items t v h) i) =
     (if i = StateListItem t \<or> i = EventListItem t then t else pvOwner (node_at h i))"
  "xItemValue (node_at (new_items t v h) i) = (if i = EventListItem t then v else xItemValue (node_at h i))"
  by (auto simp: new_items_def vListInitialiseItem_def listSET_LIST_ITEM_OWNER_def listSET_LIST_ITEM_VALUE_def)

lemma new_items_ok:
  assumes ok: "lists_ok D h"
    and i: "\<And>l. l \<in> D \<Longrightarrow> pxContainer (node_at h (StateListItem t)) \<noteq> Some l"
      "\<And>l. l \<in> D \<Longrightarrow> pxContainer (node_at h (EventListItem t)) \<noteq> Some l"
  shows "lists_ok D (new_items t v h)"
    and "m \<in> D \<Longrightarrow> list_items (new_items t v h) m = list_items h m"
proof -
  let ?h1 = "vListInitialiseItem (StateListItem t) h"
  have e: "pxContainer (node_at ?h1 (EventListItem t)) \<noteq> Some l" if "l \<in> D" for l
    using i(2)[OF that] by (simp add: vListInitialiseItem_def)
  note a = init_item_ok[OF ok i(1)]
  note b = init_item_ok[OF a(1) e]
  note c = set_owner_ok[OF b(1)]
  note d = set_value_ok[OF c(1)]
  note f = set_owner_ok[OF d(1)]
  show "lists_ok D (new_items t v h)" unfolding new_items_def by (rule f(1))
  show "m \<in> D \<Longrightarrow> list_items (new_items t v h) m = list_items h m"
    unfolding new_items_def using a(2) b(2) c(2) d(2) f(2) by simp
qed

definition new_task_state :: "u32 \<Rightarrow> TCB \<Rightarrow> os_store \<Rightarrow> (u32 \<Rightarrow> u8) \<Rightarrow> os \<Rightarrow> os" where
  "new_task_state t tcb h m s = s\<lparr>tcbs := (tcbs s)(t \<mapsto> tcb), klists := h, mem := m\<rparr>"

lemma initialise_new_task_spec:
  assumes "tcbs s t = Some tcb0"
  obtains tcb m where "prvInitialiseNewTask pp cfg code name d arg pri t s = Some
        (new_task_state t tcb (new_items t (configMAX_PRIORITIES - clamp_priority pri) (klists s)) m s)"
    and "uxPriority tcb = clamp_priority pri" and "uxBasePriority tcb = clamp_priority pri"
    and "uxMutexesHeld tcb = 0" and "pxStack tcb = pxStack tcb0"
proof -
  let ?p = "clamp_priority pri"
  obtain sp m where "pxPortInitialiseStack pp (new_task_stack_top (pxStack tcb0) d) code arg x = Some (sp, x\<lparr>mem := m\<rparr>)"
    if "mem x = memset_bytes (pxStack tcb0) tskSTACK_FILL_BYTE (d * sizeof_StackType) (mem s)" for x
  proof -
    let ?m = "memset_bytes (pxStack tcb0) tskSTACK_FILL_BYTE (d * sizeof_StackType) (mem s)"
    obtain sp m where m: "pxPortInitialiseStack pp (new_task_stack_top (pxStack tcb0) d) code arg (s\<lparr>mem := ?m\<rparr>)
        = Some (sp, s\<lparr>mem := ?m\<rparr>\<lparr>mem := m\<rparr>)" by (rule initialise_stack_returns)
    show ?thesis
      by (rule that[of sp m]) (use m in \<open>auto simp: pxPortInitialiseStack_def Let_def dest: arg_cong[where f = mem] split: bind_split\<close>)
  qed
  note stack = this
  define tcb where "tcb = (let t1 = tcb0\<lparr>pcTaskName := set_task_name
        (memset_bytes (pxStack tcb0) tskSTACK_FILL_BYTE (d * sizeof_StackType) (mem s)) name (pcTaskName tcb0),
        uxPriority := ?p, uxBasePriority := ?p, uxMutexesHeld := 0\<rparr>;
      t2 = (if configUSE_TASK_NOTIFICATIONS cfg
            then t1\<lparr>ulNotifiedValue := 0, ucNotifyState := taskNOT_WAITING_NOTIFICATION\<rparr> else t1);
      t3 = (if INCLUDE_xTaskAbortDelay cfg then t2\<lparr>ucDelayAborted := False\<rparr> else t2)
    in t3\<lparr>pxTopOfStack := sp\<rparr>)"
  show ?thesis
  proof (rule that[of tcb m])
    show "prvInitialiseNewTask pp cfg code name d arg pri t s = Some
        (new_task_state t tcb (new_items t (configMAX_PRIORITIES - clamp_priority pri) (klists s)) m s)"
      using assms
      by (simp add: prvInitialiseNewTask_def Let_def upd_tcb_def os_init_item_def os_set_owner_def
          os_set_value_def stack new_task_state_def new_items_def tcb_def)
  qed (simp_all add: tcb_def Let_def)
qed


section \<open>The new task joins its ready list\<close>

lemma new_state_sel [simp]:
  "klists (new_task_state t tcb h m s) = h" "tcbs (new_task_state t tcb h m s) = (tcbs s)(t \<mapsto> tcb)"
  "queues (new_task_state t tcb h m s) = queues s" "pxCurrentTCB (new_task_state t tcb h m s) = pxCurrentTCB s"
  "pxDelayedTaskList (new_task_state t tcb h m s) = pxDelayedTaskList s"
  "pxOverflowDelayedTaskList (new_task_state t tcb h m s) = pxOverflowDelayedTaskList s"
  "uxTopReadyPriority (new_task_state t tcb h m s) = uxTopReadyPriority s"
  "xTickCount (new_task_state t tcb h m s) = xTickCount s"
  "xNextTaskUnblockTime (new_task_state t tcb h m s) = xNextTaskUnblockTime s"
  "uxCurrentNumberOfTasks (new_task_state t tcb h m s) = uxCurrentNumberOfTasks s"
  "xSchedulerRunning (new_task_state t tcb h m s) = xSchedulerRunning s"
  "uxSchedulerSuspended (new_task_state t tcb h m s) = uxSchedulerSuspended s"
  "PENDING_SOFT_SV (new_task_state t tcb h m s) = PENDING_SOFT_SV s"
  "uxCriticalNesting (new_task_state t tcb h m s) = uxCriticalNesting s"
  "is_task (new_task_state t tcb h m s) u \<longleftrightarrow> u = t \<or> is_task s u"
  "priority_of (new_task_state t tcb h m s) u = (if u = t then uxPriority tcb else priority_of s u)"
  "live cfg (new_task_state t tcb h m s) = live cfg s"
  "event_lists (new_task_state t tcb h m s) = event_lists s"
  by (simp_all add: new_task_state_def is_task_def priority_of_def live_def event_lists_def)

lemma new_task_core:
  fixes v :: u32 and m :: "u32 \<Rightarrow> u8"
  assumes k: "kernel_inv cfg s" and t: "t \<noteq> 0" "\<not> is_task s t" and p: "uxPriority tcb < configMAX_PRIORITIES"
    and pb: "uxBasePriority tcb < configMAX_PRIORITIES"
  defines "s' \<equiv> new_task_state t tcb (new_items t v (klists s)) m s"
  shows "kernel_core {t} cfg s'" and "due_ok s'" and "overflow_ok s'"
    and "l \<in> live cfg s \<Longrightarrow> items s' l = items s l"
proof -
  note c = coreD[OF invD(1)[OF k]]
  have out: "home s (StateListItem t) \<noteq> Some l" "home s (EventListItem t) \<noteq> Some l" if "l \<in> live cfg s" for l
    using c(3) t(2) that unfolding placed_def by blast+
  note n = new_items_ok[OF c(1) out]
  show it: "items s' l = items s l" if "l \<in> live cfg s" for l
    using n(2) that by (simp add: s'_def)
  have d: "DelayedTaskList1 \<in> live cfg s" "DelayedTaskList2 \<in> live cfg s" by simp_all
  have e: "EventListItem t \<notin> set (items s l)" if "l = DelayedTaskList1 \<or> l = DelayedTaskList2" for l
    using event_item_not_delayed[OF invD(1)[OF k] that] .
  have sd: "sorted (map (val s') (items s' l))" if l: "l = DelayedTaskList1 \<or> l = DelayedTaskList2" for l
  proof -
    have "map (val s') (items s l) = map (val s) (items s l)"
      using e[OF l] by (auto simp: s'_def new_items_views)
    moreover have "items s' l = items s l" using it d l by blast
    ultimately show ?thesis using core_sorted[OF invD(1)[OF k] l] by metis
  qed
  have "lists_ok (live cfg s') (klists s')" using n(1) by (simp add: s'_def)
  moreover have "tasks_ok s'"
    using c(2) t p pb by (auto simp: tasks_ok_def s'_def new_items_views)
  moreover have "placed {t} cfg s'"
    using c(3) t(2) by (auto simp: placed_def s'_def new_items_views)
  moreover have "ready_ok s'"
    using c(4) t(2) by (auto simp: ready_ok_def s'_def new_items_views split: if_splits)
  moreover have "delay_ok s'"
    using c(5) sd by (auto simp: delay_ok_def s'_def)
  ultimately show "kernel_core {t} cfg s'" by (simp add: kernel_core_def)
  show "due_ok s'" using invD(2)[OF k] c(5) t(2)
    by (auto simp: due_ok_def delay_ok_def s'_def new_items_views split: if_splits)
  show "overflow_ok s'" using invD(3)[OF k] c(5) t(2)
    by (auto simp: overflow_ok_def delay_ok_def s'_def new_items_views split: if_splits)
qed


text \<open>
  Joining the ready list of a started or not yet started kernel: the current task is replaced only
  before the scheduler runs, by a task of at least its priority; later a task of higher priority
  asks for a context switch.
\<close>

definition next_current :: "u32 \<Rightarrow> os \<Rightarrow> u32" where
  "next_current t s = (if \<not> xSchedulerRunning s \<and> priority_of s (pxCurrentTCB s) \<le> priority_of s t
     then t else pxCurrentTCB s)"

definition asks_switch :: "u32 \<Rightarrow> os \<Rightarrow> bool" where
  "asks_switch t s \<longleftrightarrow> xSchedulerRunning s \<and> priority_of s (pxCurrentTCB s) < priority_of s t"

lemma current_tcb_known: "kernel_core X cfg s \<Longrightarrow> \<exists>c. tcbs s (pxCurrentTCB s) = Some c"
  using coreD(2) by (auto simp: tasks_ok_def is_task_def)

lemma current_known: "kernel_core X cfg s \<Longrightarrow> pxCurrentTCB s \<noteq> 0"
  using coreD(2) unfolding tasks_ok_def by metis

definition joined_state :: "u32 \<Rightarrow> os_store \<Rightarrow> os \<Rightarrow> os" where
  "joined_state t h s = s\<lparr>uxCurrentNumberOfTasks := uxCurrentNumberOfTasks s + 1,
     pxCurrentTCB := next_current t s, uxTaskNumber := uxTaskNumber s + 1,
     uxTopReadyPriority := max (uxTopReadyPriority s) (priority_of s t), klists := h,
     PENDING_SOFT_SV := PENDING_SOFT_SV s \<or> asks_switch t s,
     soft_interrupt := soft_interrupt s \<or> asks_switch t s\<rparr>"

text \<open>What creation does not touch.\<close>

definition same_rest :: "os \<Rightarrow> os \<Rightarrow> bool" where
  "same_rest s s' \<longleftrightarrow> heap_log s' = heap_log s \<and> uxSchedulerSuspended s' = uxSchedulerSuspended s
     \<and> xTickCount s' = xTickCount s \<and> xNextTaskUnblockTime s' = xNextTaskUnblockTime s
     \<and> uxPendedTicks s' = uxPendedTicks s \<and> xYieldPending s' = xYieldPending s
     \<and> uxCriticalNesting s' = uxCriticalNesting s \<and> xSchedulerRunning s' = xSchedulerRunning s
     \<and> queues s' = queues s \<and> xIdleTaskHandle s' = xIdleTaskHandle s"

lemma same_rest_trans: "same_rest s s' \<Longrightarrow> same_rest s' s'' \<Longrightarrow> same_rest s s''"
  by (simp add: same_rest_def)

lemma new_state_rest: "same_rest s (new_task_state t tcb h m s)"
  by (simp add: same_rest_def new_task_state_def)

lemma joined_rest: "same_rest s (joined_state t h s)"
  by (simp add: same_rest_def joined_state_def)

lemma add_new_task_spec:
  assumes k: "kernel_core {t} cfg s" and d: "due_ok s" "overflow_ok s" and t: "is_task s t"
  obtains h where "prvAddNewTaskToReadyList cfg t s = Some (joined_state t h s)"
    and "kernel_inv cfg (joined_state t h s)"
    and "moved s h (StateListItem t) (Some (ReadyTasksList (priority_of s t)))"
    and "\<And>l. l \<in> live cfg s \<Longrightarrow> l \<noteq> ReadyTasksList (priority_of s t) \<Longrightarrow> list_items h l = items s l"
    and "list_items h (ReadyTasksList (priority_of s t)) =
        insert_at_index (pxIndex (list_at (klists s) (ReadyTasksList (priority_of s t)))) (StateListItem t)
          (items s (ReadyTasksList (priority_of s t)))"
proof -
  let ?s = "s\<lparr>uxCriticalNesting := uxCriticalNesting s + 1, uxCurrentNumberOfTasks := uxCurrentNumberOfTasks s + 1,
     pxCurrentTCB := next_current t s, uxTaskNumber := uxTaskNumber s + 1\<rparr>"
  have cur: "is_task s (next_current t s)"
    using coreD(2)[OF k] t by (auto simp: next_current_def tasks_ok_def)
  have k1: "kernel_core {t} cfg ?s"
    using k cur by (simp add: kernel_defs)
  obtain h where a: "prvAddTaskToReadyList t ?s =
        Some (?s\<lparr>uxTopReadyPriority := max (uxTopReadyPriority ?s) (priority_of ?s t), klists := h\<rparr>)"
    and k2: "kernel_core ({t} - {t}) cfg
        (?s\<lparr>uxTopReadyPriority := max (uxTopReadyPriority ?s) (priority_of ?s t), klists := h\<rparr>)"
    and m: "moved ?s h (StateListItem t) (Some (ReadyTasksList (priority_of ?s t)))"
    and l: "\<And>l. l \<in> live cfg ?s \<Longrightarrow> l \<noteq> ReadyTasksList (priority_of ?s t) \<Longrightarrow> list_items h l = items ?s l"
      "list_items h (ReadyTasksList (priority_of ?s t)) =
        insert_at_index (pxIndex (list_at (klists ?s) (ReadyTasksList (priority_of ?s t)))) (StateListItem t)
          (items ?s (ReadyTasksList (priority_of ?s t)))"
    using add_ready[OF k1, of t] t by auto
  obtain c where c: "tcbs s (pxCurrentTCB s) = Some c" using current_tcb_known[OF k] by blast
  obtain n where n: "tcbs s t = Some n" using t by (auto simp: is_task_def)
  have pr: "priority_of s (pxCurrentTCB s) = uxPriority c" "priority_of s t = uxPriority n"
    using c n by (simp_all add: priority_of_def)
  have "prvAddNewTaskToReadyList cfg t s = Some (joined_state t h s)"
    using a c n current_known[OF k]
    by (cases "xSchedulerRunning s"; cases "uxPriority c \<le> uxPriority n"; cases "uxPriority c < uxPriority n")
      (simp_all add: prvAddNewTaskToReadyList_def Let_def vPortEnterCritical_def vPortExitCritical_def
        joined_state_def next_current_def asks_switch_def pr)
  moreover have "kernel_inv cfg (joined_state t h s)"
  proof -
    have "kernel_core {} cfg (joined_state t h s)"
      by (rule core_cong[OF k2[simplified Diff_cancel]]) (simp_all add: joined_state_def)
    moreover have "Some (ReadyTasksList p) \<noteq> pxDelayedTaskList s"
      "Some (ReadyTasksList p) \<noteq> pxOverflowDelayedTaskList s" for p
      using coreD(5)[OF k] by (auto simp: delay_ok_def)
    then have "due_ok (joined_state t h s)" "overflow_ok (joined_state t h s)"
      using d movedD[OF m] unfolding due_ok_def overflow_ok_def joined_state_def is_task_def
      by (simp_all split: if_splits)
    ultimately show ?thesis by (simp add: kernel_inv_def)
  qed
  ultimately show ?thesis using that m l by (simp add: moved_def)
qed


section \<open>xTaskCreate\<close>

text \<open>The two allocations of a creation and the state after them.\<close>

definition stack_block :: "(u32 \<Rightarrow> os \<Rightarrow> u32) \<Rightarrow> u16 \<Rightarrow> os \<Rightarrow> u32" where
  "stack_block malloc d s = malloc (ucast d * sizeof_StackType) s"

definition tcb_block :: "port_params \<Rightarrow> (u32 \<Rightarrow> os \<Rightarrow> u32) \<Rightarrow> u16 \<Rightarrow> os \<Rightarrow> u32" where
  "tcb_block pp malloc d s = malloc (sizeof_TCB pp)
     (s\<lparr>heap_log := heap_log s @ [HeapAlloc (ucast d * sizeof_StackType) (stack_block malloc d s)]\<rparr>)"

definition after_blocks :: "port_params \<Rightarrow> (u32 \<Rightarrow> os \<Rightarrow> u32) \<Rightarrow> u16 \<Rightarrow> os \<Rightarrow> os" where
  "after_blocks pp malloc d s = s\<lparr>heap_log := heap_log s @
     [HeapAlloc (ucast d * sizeof_StackType) (stack_block malloc d s),
      HeapAlloc (sizeof_TCB pp) (tcb_block pp malloc d s)]\<rparr>"

lemma create_no_stack:
  "stack_block malloc d s = 0 \<Longrightarrow> xTaskCreate pp cfg malloc fresh code name d arg pri s =
     Some (None, s\<lparr>heap_log := heap_log s @ [HeapAlloc (ucast d * sizeof_StackType) 0]\<rparr>)"
  by (simp add: xTaskCreate_def pvPortMalloc_def stack_block_def Let_def)

lemma create_no_tcb:
  "stack_block malloc d s \<noteq> 0 \<Longrightarrow> tcb_block pp malloc d s = 0 \<Longrightarrow>
     xTaskCreate pp cfg malloc fresh code name d arg pri s =
     Some (None, (after_blocks pp malloc d s)\<lparr>heap_log := heap_log (after_blocks pp malloc d s)
       @ [HeapFree (stack_block malloc d s)]\<rparr>)"
  by (simp add: xTaskCreate_def pvPortMalloc_def vPortFree_def stack_block_def tcb_block_def
      after_blocks_def Let_def)

lemma clamp_less: "clamp_priority p < configMAX_PRIORITIES"
  by (simp add: clamp_priority_def configMAX_PRIORITIES_def not_le)

lemma create_steps:
  assumes "stack_block malloc d s \<noteq> 0" and "tcb_block pp malloc d s = t" and "t \<noteq> 0"
  obtains tcb m where "uxPriority tcb = clamp_priority pri" and "uxBasePriority tcb = clamp_priority pri"
    and "uxMutexesHeld tcb = 0" and "pxStack tcb = stack_block malloc d s"
    and "xTaskCreate pp cfg malloc fresh code name d arg pri s =
      do { s' \<leftarrow> prvAddNewTaskToReadyList cfg t
             (new_task_state t tcb (new_items t (configMAX_PRIORITIES - clamp_priority pri) (klists s)) m
               (after_blocks pp malloc d s));
           Some (Some t, s') }"
proof -
  let ?b = "after_blocks pp malloc d s"
  let ?s = "?b\<lparr>tcbs := (tcbs ?b)(t \<mapsto> fresh\<lparr>pxStack := stack_block malloc d s\<rparr>)\<rparr>"
  have "tcbs ?s t = Some (fresh\<lparr>pxStack := stack_block malloc d s\<rparr>)" by simp
  then obtain tcb m where i: "prvInitialiseNewTask pp cfg code name (ucast d) arg pri t ?s = Some
        (new_task_state t tcb (new_items t (configMAX_PRIORITIES - clamp_priority pri) (klists ?s)) m ?s)"
    and p: "uxPriority tcb = clamp_priority pri" "uxBasePriority tcb = clamp_priority pri"
      "uxMutexesHeld tcb = 0" "pxStack tcb = pxStack (fresh\<lparr>pxStack := stack_block malloc d s\<rparr>)"
    by (rule initialise_new_task_spec)
  have "klists ?s = klists s" by (simp add: after_blocks_def)
  moreover have "new_task_state t tcb h m ?s = new_task_state t tcb h m ?b" for h
    by (simp add: new_task_state_def)
  ultimately show ?thesis
    using that[of tcb m] p assms i
    by (simp add: xTaskCreate_def pvPortMalloc_def stack_block_def tcb_block_def after_blocks_def Let_def)
qed

lemma after_blocks_inv: "kernel_inv cfg s \<Longrightarrow> kernel_inv cfg (after_blocks pp malloc d s)"
  by (rule inv_cong) (simp_all add: after_blocks_def)

lemma after_blocks_sel [simp]:
  "klists (after_blocks pp malloc d s) = klists s" "tcbs (after_blocks pp malloc d s) = tcbs s"
  "queues (after_blocks pp malloc d s) = queues s" "pxCurrentTCB (after_blocks pp malloc d s) = pxCurrentTCB s"
  "xSchedulerRunning (after_blocks pp malloc d s) = xSchedulerRunning s"
  "uxSchedulerSuspended (after_blocks pp malloc d s) = uxSchedulerSuspended s"
  "uxTopReadyPriority (after_blocks pp malloc d s) = uxTopReadyPriority s"
  "PENDING_SOFT_SV (after_blocks pp malloc d s) = PENDING_SOFT_SV s"
  "uxCurrentNumberOfTasks (after_blocks pp malloc d s) = uxCurrentNumberOfTasks s"
  "is_task (after_blocks pp malloc d s) = is_task s" "priority_of (after_blocks pp malloc d s) = priority_of s"
  "live cfg (after_blocks pp malloc d s) = live cfg s"
  "event_lists (after_blocks pp malloc d s) = event_lists s"
  by (simp_all add: after_blocks_def is_task_def priority_of_def live_def event_lists_def fun_eq_iff)

lemma create_spec:
  assumes k: "kernel_inv cfg s" and b: "stack_block malloc d s \<noteq> 0" "tcb_block pp malloc d s = t"
    and t: "t \<noteq> 0" "\<not> is_task s t"
  obtains s' where "xTaskCreate pp cfg malloc fresh code name d arg pri s = Some (Some t, s')"
    and "kernel_inv cfg s'" and "is_task s' t" and "priority_of s' t = clamp_priority pri"
    and "home s' (StateListItem t) = Some (ReadyTasksList (clamp_priority pri))"
    and "\<And>u. u \<noteq> t \<Longrightarrow> tcbs s' u = tcbs s u"
    and "\<And>l. l \<in> live cfg s \<Longrightarrow> l \<noteq> ReadyTasksList (clamp_priority pri) \<Longrightarrow> items s' l = items s l"
    and "set (items s' (ReadyTasksList (clamp_priority pri)))
       = insert (StateListItem t) (set (items s (ReadyTasksList (clamp_priority pri))))"
    and "uxCurrentNumberOfTasks s' = uxCurrentNumberOfTasks s + 1"
    and "same_rest (after_blocks pp malloc d s) s'"
    and "\<And>i. home s' i = (if i = StateListItem t then Some (ReadyTasksList (clamp_priority pri))
         else if i = EventListItem t then None else home s i)"
    and "pxCurrentTCB s' = (if \<not> xSchedulerRunning s \<and> priority_of s (pxCurrentTCB s) \<le> clamp_priority pri
           then t else pxCurrentTCB s)"
    and "PENDING_SOFT_SV s' \<longleftrightarrow> PENDING_SOFT_SV s
           \<or> xSchedulerRunning s \<and> priority_of s (pxCurrentTCB s) < clamp_priority pri"
proof -
  let ?p = "clamp_priority pri" and ?b = "after_blocks pp malloc d s"
  obtain tcb m where p: "uxPriority tcb = ?p" "uxBasePriority tcb = ?p"
    and c: "xTaskCreate pp cfg malloc fresh code name d arg pri s =
      do { s' \<leftarrow> prvAddNewTaskToReadyList cfg t
             (new_task_state t tcb (new_items t (configMAX_PRIORITIES - ?p) (klists s)) m ?b);
           Some (Some t, s') }"
    by (rule create_steps[OF b t(1)])
  define n where "n = new_task_state t tcb (new_items t (configMAX_PRIORITIES - ?p) (klists s)) m ?b"
  have pl: "uxPriority tcb < configMAX_PRIORITIES" "uxBasePriority tcb < configMAX_PRIORITIES"
    using p clamp_less by simp_all
  have nt: "\<not> is_task ?b t" using t(2) by simp
  note nc = new_task_core[OF after_blocks_inv[OF k] t(1) nt pl(1,2),
    where v = "configMAX_PRIORITIES - ?p" and m = m, unfolded after_blocks_sel, folded n_def]
  have pn: "priority_of n t = ?p" "is_task n t" using p by (simp_all add: n_def)
  obtain h where a: "prvAddNewTaskToReadyList cfg t n = Some (joined_state t h n)"
    and k': "kernel_inv cfg (joined_state t h n)"
    and mv: "moved n h (StateListItem t) (Some (ReadyTasksList ?p))"
    and l: "\<And>l. l \<in> live cfg n \<Longrightarrow> l \<noteq> ReadyTasksList ?p \<Longrightarrow> list_items h l = items n l"
    and e: "list_items h (ReadyTasksList ?p) =
        insert_at_index (pxIndex (list_at (klists n) (ReadyTasksList ?p))) (StateListItem t)
          (items n (ReadyTasksList ?p))"
    using add_new_task_spec[OF nc(1-3) pn(2)] unfolding pn by blast
  have cur: "pxCurrentTCB s \<noteq> t" using coreD(2)[OF invD(1)[OF k]] t(2) unfolding tasks_ok_def by metis
  have lv: "live cfg n = live cfg s" by (simp add: n_def)
  show ?thesis
  proof (rule that[OF _ k'])
    show "xTaskCreate pp cfg malloc fresh code name d arg pri s = Some (Some t, joined_state t h n)"
      using a by (simp add: c n_def)
    show "is_task (joined_state t h n) t" "priority_of (joined_state t h n) t = ?p"
      using pn by (simp_all add: joined_state_def is_task_def priority_of_def)
    show "home (joined_state t h n) (StateListItem t) = Some (ReadyTasksList ?p)"
      by (simp add: joined_state_def movedD[OF mv])
    show "tcbs (joined_state t h n) u = tcbs s u" if "u \<noteq> t" for u
      using that by (simp add: joined_state_def n_def)
    show "items (joined_state t h n) l' = items s l'" if "l' \<in> live cfg s" "l' \<noteq> ReadyTasksList ?p" for l'
      using l nc(4) that by (simp add: joined_state_def lv)
    show "set (items (joined_state t h n) (ReadyTasksList ?p))
       = insert (StateListItem t) (set (items s (ReadyTasksList ?p)))"
      using e nc(4)[of "ReadyTasksList ?p"] clamp_less by (simp add: joined_state_def)
    show "uxCurrentNumberOfTasks (joined_state t h n) = uxCurrentNumberOfTasks s + 1"
      by (simp add: joined_state_def n_def)
    show "home (joined_state t h n) i = (if i = StateListItem t then Some (ReadyTasksList ?p)
         else if i = EventListItem t then None else home s i)" for i
      by (simp add: joined_state_def movedD[OF mv] n_def new_items_views)
    show "same_rest ?b (joined_state t h n)"
      unfolding n_def by (rule same_rest_trans[OF new_state_rest joined_rest])
    show "pxCurrentTCB (joined_state t h n) = (if \<not> xSchedulerRunning s
        \<and> priority_of s (pxCurrentTCB s) \<le> ?p then t else pxCurrentTCB s)"
      using cur p by (simp add: joined_state_def next_current_def n_def)
    show "PENDING_SOFT_SV (joined_state t h n) \<longleftrightarrow> PENDING_SOFT_SV s
           \<or> xSchedulerRunning s \<and> priority_of s (pxCurrentTCB s) < ?p"
      using cur p by (simp add: joined_state_def asks_switch_def n_def)
  qed
qed


section \<open>The first creation\<close>

text \<open>A cold kernel: no task, no list initialised but those of the queues created so far.\<close>

definition cold :: "os \<Rightarrow> bool" where
  "cold s \<longleftrightarrow> tcbs s = Map.empty \<and> pxCurrentTCB s = 0 \<and> uxCurrentNumberOfTasks s = 0
     \<and> \<not> xSchedulerRunning s \<and> uxTopReadyPriority s < configMAX_PRIORITIES
     \<and> (\<forall>i. home s i = None)
     \<and> lists_ok (event_lists s - {PendingReadyList}) (klists s)"

lemma init_list_again:
  assumes ok: "lists_ok D h" and free: "\<And>i. pxContainer (node_at h i) = None"
  shows "lists_ok (insert l D) (vListInitialise l h)"
proof -
  have "lists_ok (D - {l}) h" by (rule lists_ok_subset[OF ok]) blast
  from vListInitialise_ok(1)[OF this, of l] free show ?thesis by simp
qed

lemma init_ready_ok:
  assumes "lists_ok D (klists s)" and "\<And>i. home s i = None"
  shows "\<exists>h. init_ready_lists p s = s\<lparr>klists := h\<rparr> \<and> node_at h = node_at (klists s)
     \<and> lists_ok (D \<union> (\<lambda>q. ReadyTasksList (of_nat q)) ` {p..<15}) h"
  using assms
proof (induction p s arbitrary: D rule: init_ready_lists.induct)
  case (1 p s)
  show ?case
  proof (cases "p < 15")
    case True
    let ?l = "ReadyTasksList (of_nat p)" and ?s = "os_init_list (ReadyTasksList (of_nat p)) s"
    have ok: "lists_ok (insert ?l D) (klists ?s)"
      using init_list_again[OF 1(2,3)] by (simp add: os_init_list_def)
    have p: "p < unat configMAX_PRIORITIES" using True by (simp add: configMAX_PRIORITIES_def)
    have free: "home ?s i = None" for i using 1(3) by (simp add: os_init_list_def vListInitialise_frame)
    obtain h where "init_ready_lists (Suc p) ?s = ?s\<lparr>klists := h\<rparr>" "node_at h = node_at (klists ?s)"
      "lists_ok (insert ?l D \<union> (\<lambda>q. ReadyTasksList (of_nat q)) ` {Suc p..<15}) h"
      using 1(1)[OF p ok free] by blast
    moreover have "{p..<15} = insert p {Suc p..<15}" using True by auto
    then have "insert ?l D \<union> (\<lambda>q. ReadyTasksList (of_nat q)) ` {Suc p..<15}
        = D \<union> (\<lambda>q. ReadyTasksList (of_nat q)) ` {p..<15}"
      by simp
    ultimately show ?thesis using p
      by (subst init_ready_lists.simps) (auto simp: os_init_list_def vListInitialise_frame)
  next
    case False
    then show ?thesis using 1(2)
      by (subst init_ready_lists.simps) (auto simp: configMAX_PRIORITIES_def intro!: exI[of _ "klists s"])
  qed
qed


lemma init_task_lists_ok:
  assumes ok: "lists_ok D (klists s)" and free: "\<And>i. home s i = None"
  obtains h where "prvInitialiseTaskLists cfg s = s\<lparr>klists := h, pxDelayedTaskList := Some DelayedTaskList1,
       pxOverflowDelayedTaskList := Some DelayedTaskList2\<rparr>"
    and "node_at h = node_at (klists s)" and "lists_ok (D \<union> state_lists cfg \<union> {PendingReadyList}) h"
proof -
  have r15: "(\<lambda>q. ReadyTasksList (of_nat q)) ` {0..<15} = ReadyTasksList ` {p. p < configMAX_PRIORITIES}"
  proof -
    have "p \<in> of_nat ` {0..<15}" if "p < configMAX_PRIORITIES" for p :: u32
      using that by (intro image_eqI[of _ _ "unat p"]) (simp_all add: configMAX_PRIORITIES_def word_less_nat_alt)
    moreover have "(of_nat q :: u32) < configMAX_PRIORITIES" if "q < 15" for q
      using that by (simp add: configMAX_PRIORITIES_def word_less_nat_alt unat_of_nat32)
    ultimately have "of_nat ` {0..<15} = {p :: u32. p < configMAX_PRIORITIES}" by force
    then show ?thesis by (simp add: image_image[symmetric])
  qed
  obtain h0 where 0: "init_ready_lists 0 s = s\<lparr>klists := h0\<rparr>" "node_at h0 = node_at (klists s)"
    "lists_ok (D \<union> ReadyTasksList ` {p. p < configMAX_PRIORITIES}) h0"
    using init_ready_ok[OF ok free, of 0] unfolding r15 by blast
  have st: "lists_ok (insert l E) (vListInitialise l h) \<and> node_at (vListInitialise l h) = node_at (klists s)"
    if "lists_ok E h \<and> node_at h = node_at (klists s)" for E h l
    using init_list_again[of E h l] that free by (simp add: vListInitialise_frame)
  have stc: "lists_ok (if b then insert l E else E) (if b then vListInitialise l h else h)
      \<and> node_at (if b then vListInitialise l h else h) = node_at (klists s)"
    if "lists_ok E h \<and> node_at h = node_at (klists s)" for b E h l
    using st[OF that] that by (cases b) simp_all
  let ?h3 = "vListInitialise PendingReadyList (vListInitialise DelayedTaskList2 (vListInitialise DelayedTaskList1 h0))"
  let ?h4 = "if INCLUDE_vTaskDelete cfg then vListInitialise TasksWaitingTermination ?h3 else ?h3"
  let ?h5 = "if INCLUDE_vTaskSuspend cfg then vListInitialise SuspendedTaskList ?h4 else ?h4"
  let ?E3 = "insert PendingReadyList (insert DelayedTaskList2 (insert DelayedTaskList1
      (D \<union> ReadyTasksList ` {p. p < configMAX_PRIORITIES})))"
  let ?E4 = "if INCLUDE_vTaskDelete cfg then insert TasksWaitingTermination ?E3 else ?E3"
  let ?E5 = "if INCLUDE_vTaskSuspend cfg then insert SuspendedTaskList ?E4 else ?E4"
  have 3: "lists_ok ?E3 ?h3 \<and> node_at ?h3 = node_at (klists s)"
    using st[OF st[OF st, of "D \<union> ReadyTasksList ` {p. p < configMAX_PRIORITIES}" h0]] 0(2,3) by blast
  have 5: "lists_ok ?E5 ?h5 \<and> node_at ?h5 = node_at (klists s)" by (rule stc[OF stc[OF 3]])
  show ?thesis
  proof (rule that[of ?h5])
    show "node_at ?h5 = node_at (klists s)" using 5 by blast
    have "?E5 = D \<union> state_lists cfg \<union> {PendingReadyList}" by (auto simp: state_lists_def)
    then show "lists_ok (D \<union> state_lists cfg \<union> {PendingReadyList}) ?h5" using 5 by (simp only: conjunct1)
    show "prvInitialiseTaskLists cfg s = s\<lparr>klists := ?h5, pxDelayedTaskList := Some DelayedTaskList1,
       pxOverflowDelayedTaskList := Some DelayedTaskList2\<rparr>"
      by (simp add: prvInitialiseTaskLists_def 0(1) os_init_list_def Let_def)
  qed
qed

lemma nothing_listed:
  "lists_ok D h \<Longrightarrow> l \<in> D \<Longrightarrow> (\<And>i. pxContainer (node_at h i) = None) \<Longrightarrow> list_items h l = []"
  using container_iff[of D h l] by (metis list.set_intros(1) neq_Nil_conv option.distinct(1))

lemma first_add_spec:
  assumes q: "lists_ok (event_lists s - {PendingReadyList}) (klists s)" and free: "\<And>i. home s i = None"
    and tcb: "tcbs s = [t \<mapsto> tcb]" "uxPriority tcb < configMAX_PRIORITIES"
      "uxBasePriority tcb < configMAX_PRIORITIES" and t: "t \<noteq> 0"
    and own: "owner s (StateListItem t) = t" "owner s (EventListItem t) = t"
    and zero: "pxCurrentTCB s = 0" "uxCurrentNumberOfTasks s = 0" "\<not> xSchedulerRunning s"
      "uxTopReadyPriority s < configMAX_PRIORITIES"
  obtains s' where "prvAddNewTaskToReadyList cfg t s = Some s'" and "kernel_inv cfg s'"
    and "pxCurrentTCB s' = t" and "tcbs s' = tcbs s" and "\<not> xSchedulerRunning s'"
    and "uxCurrentNumberOfTasks s' = 1" and "queues s' = queues s" and "same_rest s s'"
    and "\<And>i. home s' i = (if i = StateListItem t then Some (ReadyTasksList (uxPriority tcb)) else None)"
    and "items s' (ReadyTasksList (uxPriority tcb)) = [StateListItem t]"
    and "\<And>l. l \<in> live cfg s \<Longrightarrow> l \<noteq> ReadyTasksList (uxPriority tcb) \<Longrightarrow> items s' l = []"
proof -
  let ?s2 = "s\<lparr>uxCriticalNesting := uxCriticalNesting s + 1, uxCurrentNumberOfTasks := 1, pxCurrentTCB := t\<rparr>"
  obtain h where i: "prvInitialiseTaskLists cfg ?s2 = ?s2\<lparr>klists := h, pxDelayedTaskList := Some DelayedTaskList1,
       pxOverflowDelayedTaskList := Some DelayedTaskList2\<rparr>"
    and nd: "node_at h = node_at (klists s)"
    and ok: "lists_ok (event_lists s - {PendingReadyList} \<union> state_lists cfg \<union> {PendingReadyList}) h"
    using init_task_lists_ok[of "event_lists s - {PendingReadyList}" ?s2 cfg] q free by auto
  have D: "event_lists s - {PendingReadyList} \<union> state_lists cfg \<union> {PendingReadyList} = live cfg s"
    by (auto simp: live_def)
  note ok = ok[unfolded D]
  have none: "pxContainer (node_at h i) = None" for i using free nd by simp
  have empty: "list_items h l = []" if "l \<in> live cfg s" for l using nothing_listed[OF ok that] none by blast
  define s4 where "s4 = (prvInitialiseTaskLists cfg ?s2)\<lparr>uxTaskNumber := uxTaskNumber s + 1\<rparr>"
  have s4: "klists s4 = h" "tcbs s4 = tcbs s" "queues s4 = queues s" "pxCurrentTCB s4 = t"
    "pxDelayedTaskList s4 = Some DelayedTaskList1" "pxOverflowDelayedTaskList s4 = Some DelayedTaskList2"
    "uxTopReadyPriority s4 = uxTopReadyPriority s" "xSchedulerRunning s4 = xSchedulerRunning s"
    "uxCurrentNumberOfTasks s4 = 1"
    by (simp_all add: i s4_def)
  have views: "is_task s4 u \<longleftrightarrow> u = t" "live cfg s4 = live cfg s" "event_lists s4 = event_lists s"
    "priority_of s4 t = uxPriority tcb" for u
    using tcb by (simp_all add: is_task_def live_def event_lists_def s4 priority_of_def)
  have "kernel_core {t} cfg s4"
    using ok t tcb own empty zero(4) free
    by (simp add: kernel_core_def tasks_ok_def placed_def ready_ok_def delay_ok_def s4 views none nd)
  then obtain h' where a: "prvAddTaskToReadyList t s4 =
        Some (s4\<lparr>uxTopReadyPriority := max (uxTopReadyPriority s4) (priority_of s4 t), klists := h'\<rparr>)"
    and k: "kernel_core ({t} - {t}) cfg
        (s4\<lparr>uxTopReadyPriority := max (uxTopReadyPriority s4) (priority_of s4 t), klists := h'\<rparr>)"
    and m: "moved s4 h' (StateListItem t) (Some (ReadyTasksList (priority_of s4 t)))"
    and l: "\<And>m. m \<in> live cfg s4 \<Longrightarrow> m \<noteq> ReadyTasksList (priority_of s4 t) \<Longrightarrow> list_items h' m = items s4 m"
    and e: "list_items h' (ReadyTasksList (priority_of s4 t)) =
        insert_at_index (pxIndex (list_at (klists s4) (ReadyTasksList (priority_of s4 t)))) (StateListItem t)
          (items s4 (ReadyTasksList (priority_of s4 t)))"
    by (rule add_ready[of "{t}" cfg s4 t]) (use views in \<open>auto simp: is_task_def\<close>)
  let ?s5 = "s4\<lparr>uxTopReadyPriority := max (uxTopReadyPriority s4) (priority_of s4 t), klists := h'\<rparr>"
  let ?s6 = "vPortExitCritical ?s5"
  show ?thesis
  proof (rule that[of ?s6])
    show "prvAddNewTaskToReadyList cfg t s = Some ?s6"
      using a zero tcb by (simp add: prvAddNewTaskToReadyList_def vPortEnterCritical_def Let_def s4
          vPortExitCritical_def i s4_def)
    have "kernel_core {} cfg ?s6"
      by (rule core_cong[OF k[simplified Diff_cancel]]) (simp_all add: vPortExitCritical_def)
    moreover have "due_ok ?s6" "overflow_ok ?s6"
      using movedD(1)[OF m] none by (auto simp: due_ok_def overflow_ok_def vPortExitCritical_def s4)
    ultimately show "kernel_inv cfg ?s6" by (simp add: kernel_inv_def)
    show "pxCurrentTCB ?s6 = t" "tcbs ?s6 = tcbs s" "\<not> xSchedulerRunning ?s6"
      "uxCurrentNumberOfTasks ?s6 = 1" "queues ?s6 = queues s"
      using zero by (simp_all add: vPortExitCritical_def s4)
    show "home ?s6 i = (if i = StateListItem t then Some (ReadyTasksList (uxPriority tcb)) else None)" for i
      using movedD(1)[OF m] none unfolding views(4) by (simp add: vPortExitCritical_def s4)
    show "same_rest s ?s6" by (simp add: same_rest_def vPortExitCritical_def s4_def i)
    have "ReadyTasksList (uxPriority tcb) \<in> live cfg s" using tcb(2) by simp
    then show "items ?s6 (ReadyTasksList (uxPriority tcb)) = [StateListItem t]"
      using e empty unfolding views(4) by (simp add: vPortExitCritical_def s4 insert_at_index_def split: node_ptr.splits)
    show "items ?s6 l = []" if "l \<in> live cfg s" "l \<noteq> ReadyTasksList (uxPriority tcb)" for l
      using l that empty unfolding views(2,4) by (simp add: vPortExitCritical_def s4)
  qed
qed


lemma first_create_spec:
  assumes c: "cold s" and b: "stack_block malloc d s \<noteq> 0" "tcb_block pp malloc d s = t" and t: "t \<noteq> 0"
  obtains s' where "xTaskCreate pp cfg malloc fresh code name d arg pri s = Some (Some t, s')"
    and "kernel_inv cfg s'" and "pxCurrentTCB s' = t" and "dom (tcbs s') = {t}"
    and "priority_of s' t = clamp_priority pri" and "\<not> xSchedulerRunning s'"
    and "uxCurrentNumberOfTasks s' = 1" and "same_rest (after_blocks pp malloc d s) s'"
    and "\<And>i. home s' i = (if i = StateListItem t then Some (ReadyTasksList (clamp_priority pri)) else None)"
    and "items s' (ReadyTasksList (clamp_priority pri)) = [StateListItem t]"
    and "\<And>l. l \<in> live cfg s \<Longrightarrow> l \<noteq> ReadyTasksList (clamp_priority pri) \<Longrightarrow> items s' l = []"
proof -
  let ?p = "clamp_priority pri"
  obtain tcb m where p: "uxPriority tcb = ?p" "uxBasePriority tcb = ?p"
    and x: "xTaskCreate pp cfg malloc fresh code name d arg pri s =
      do { s' \<leftarrow> prvAddNewTaskToReadyList cfg t
             (new_task_state t tcb (new_items t (configMAX_PRIORITIES - ?p) (klists s)) m
               (after_blocks pp malloc d s));
           Some (Some t, s') }"
    by (rule create_steps[OF b t])
  define n where "n = new_task_state t tcb (new_items t (configMAX_PRIORITIES - ?p) (klists s)) m
     (after_blocks pp malloc d s)"
  have ev: "event_lists n = event_lists s" by (simp add: n_def event_lists_def)
  have ok: "lists_ok (event_lists n - {PendingReadyList}) (klists n)"
    unfolding ev n_def new_state_sel by (rule new_items_ok(1)) (use c in \<open>simp_all add: cold_def\<close>)
  have free: "home n i = None" for i using c by (simp add: n_def new_items_views cold_def)
  have lv: "live cfg n = live cfg s" by (simp add: n_def)
  have n: "tcbs n = [t \<mapsto> tcb]" "owner n (StateListItem t) = t" "owner n (EventListItem t) = t"
    "pxCurrentTCB n = 0" "uxCurrentNumberOfTasks n = 0" "\<not> xSchedulerRunning n"
    "uxTopReadyPriority n < configMAX_PRIORITIES" "queues n = queues s"
    using c by (simp_all add: n_def new_items_views cold_def)
  have pl: "uxPriority tcb < configMAX_PRIORITIES" "uxBasePriority tcb < configMAX_PRIORITIES"
    using p clamp_less by simp_all
  obtain s' where s': "prvAddNewTaskToReadyList cfg t n = Some s'" "kernel_inv cfg s'"
      "pxCurrentTCB s' = t" "tcbs s' = tcbs n" "\<not> xSchedulerRunning s'"
      "uxCurrentNumberOfTasks s' = 1" "queues s' = queues n" "same_rest n s'"
      "\<And>i. home s' i = (if i = StateListItem t then Some (ReadyTasksList (uxPriority tcb)) else None)"
      "items s' (ReadyTasksList (uxPriority tcb)) = [StateListItem t]"
      "\<And>l. l \<in> live cfg n \<Longrightarrow> l \<noteq> ReadyTasksList (uxPriority tcb) \<Longrightarrow> items s' l = []"
    by (rule first_add_spec[OF ok free n(1) pl(1,2) t n(2,3,4,5,6,7)]) blast
  have "same_rest (after_blocks pp malloc d s) s'"
    using same_rest_trans[OF new_state_rest s'(8)[unfolded n_def]] .
  note rest = this
  show ?thesis
    by (rule that[of s']) (use s' p n rest in \<open>simp_all add: x n_def[symmetric] lv priority_of_def\<close>)
qed

end
