(* ===== verification/Os_Task_Resume.thy ===== *)
theory Os_Task_Resume
  imports Os_Task_Run
begin

text \<open>
  \<open>xTaskResumeAll\<close>: the tasks readied while the scheduler was suspended join the ready lists, and
  the ticks missed are replayed, so that no tick and no wake-up is lost.
\<close>

section \<open>The pending ready list\<close>

definition pending :: "os \<Rightarrow> u32 set" where
  "pending s = {t. is_task s t \<and> home s (EventListItem t) = Some PendingReadyList}"

lemma pending_loop_spec:
  assumes "kernel_core {} cfg s"
  shows "\<exists>u h p. pending_ready_loop u0 s = Some (u, (relisted s h p (xNextTaskUnblockTime s))
        \<lparr>xYieldPending := xYieldPending s \<or> (\<exists>t \<in> pending s. priority_of s t \<ge> priority_of s (pxCurrentTCB s))\<rparr>)
     \<and> kernel_core {} cfg (relisted s h p (xNextTaskUnblockTime s)) \<and> woken (pending s) s h
     \<and> list_items h PendingReadyList = [] \<and> (pending s = {} \<and> u = u0 \<or> u \<in> pending s)"
  using assms
proof (induction "length (items s PendingReadyList)" arbitrary: s u0 rule: less_induct)
  case less
  note k = less.prems
  have lv: "PendingReadyList \<in> live cfg s" by simp
  have member: "EventListItem t \<in> set (items s PendingReadyList) \<longleftrightarrow> home s (EventListItem t) = Some PendingReadyList" for t
    using member_home[OF k lv] by blast
  show ?case
  proof (cases "items s PendingReadyList")
    case Nil
    then have e: "pending s = {}" using member by (auto simp: pending_def)
    have "pending_ready_loop u0 s = Some (u0, s)"
      using Nil empty_list[OF k lv] by (subst pending_ready_loop.simps) simp
    then show ?thesis using Nil k e
      by (intro exI[of _ u0] exI[of _ "klists s"] exI[of _ "uxTopReadyPriority s"])
        (simp add: relisted_self woken_none)
  next
    case (Cons i "is")
    obtain t where t: "i = EventListItem t" "is_task s t" "home s (EventListItem t) = Some PendingReadyList"
      "listGET_OWNER_OF_HEAD_ENTRY PendingReadyList (klists s) = Some t"
      "\<not> listLIST_IS_EMPTY PendingReadyList (klists s)"
      by (rule event_head[OF k _ Cons]) simp
    obtain tcb where tcb: "tcbs s t = Some tcb" "uxPriority tcb = priority_of s t" by (rule task_tcb[OF t(2)])
    obtain ctcb where c: "tcbs s (pxCurrentTCB s) = Some ctcb"
      "uxPriority ctcb = priority_of s (pxCurrentTCB s)" by (rule current_tcb[OF k])
    obtain n n' s1 s2 h1 p1 where r: "os_remove (EventListItem t) s = Some (n, s1)"
      "os_remove (StateListItem t) s1 = Some (n', s2)"
      "prvAddTaskToReadyList t s2 = Some (relisted s h1 p1 (xNextTaskUnblockTime s))"
      and k1: "kernel_core {} cfg (relisted s h1 p1 (xNextTaskUnblockTime s))" and w1: "woken {t} s h1"
      and c1: "\<And>m. m \<in> live cfg s \<Longrightarrow> m \<noteq> ReadyTasksList (priority_of s t)
         \<Longrightarrow> list_items h1 m = remove1 (StateListItem t) (remove1 (EventListItem t) (items s m))"
      using wake_from_event[OF k t(2)] t(3) by (metis option.distinct(1))
    let ?r = "relisted s h1 p1 (xNextTaskUnblockTime s)"
    let ?s = "?r\<lparr>xYieldPending := xYieldPending s \<or> priority_of s t \<ge> priority_of s (pxCurrentTCB s)\<rparr>"
    have step: "pending_ready_loop u0 s = pending_ready_loop t ?s"
    proof -
      show ?thesis using t tcb c r by (subst pending_ready_loop.simps) simp
    qed
    have ks: "kernel_core {} cfg ?s" by (rule core_cong[OF k1]) simp_all
    have no: "StateListItem t \<notin> set (items s PendingReadyList)"
      using item_owner(3)[OF k lv, of "StateListItem t"] by auto
    have it: "items ?s PendingReadyList = is" using c1[OF lv] Cons t(1) no
      by (simp add: remove1_idem)
    have less: "length (items ?s PendingReadyList) < length (items s PendingReadyList)" using it Cons by simp
    have P: "pending s = insert t (pending ?s)"
      using t by (auto simp: pending_def wokenD[OF w1] split: if_splits)
    have [simp]: "priority_of ?s = priority_of s" by simp
    obtain u h p where loop: "pending_ready_loop t ?s = Some (u, (relisted ?s h p (xNextTaskUnblockTime ?s))
        \<lparr>xYieldPending := xYieldPending ?s \<or> (\<exists>v \<in> pending ?s. priority_of ?s v \<ge> priority_of ?s (pxCurrentTCB ?s))\<rparr>)"
      and k2: "kernel_core {} cfg (relisted ?s h p (xNextTaskUnblockTime ?s))" and w2: "woken (pending ?s) ?s h"
      and z: "list_items h PendingReadyList = []" and u: "pending ?s = {} \<and> u = t \<or> u \<in> pending ?s"
      using less.hyps[OF less ks, of t] by blast
    have w: "woken (pending s) s h" using woken_trans[OF w1 w2] P by simp
    have k3: "kernel_core {} cfg (relisted s h p (xNextTaskUnblockTime s))"
      by (rule core_cong[OF k2]) simp_all
    have "pending_ready_loop u0 s = Some (u, (relisted s h p (xNextTaskUnblockTime s))
        \<lparr>xYieldPending := xYieldPending s \<or> (\<exists>v \<in> pending s. priority_of s v \<ge> priority_of s (pxCurrentTCB s))\<rparr>)"
      using step loop P by (simp add: disj_assoc)
    then show ?thesis using k3 w z u P
      by (intro exI[of _ u] exI[of _ h] exI[of _ p]) auto
  qed
qed

section \<open>Replaying ticks\<close>

definition delayed :: "os \<Rightarrow> u32 \<Rightarrow> bool" where
  "delayed s t \<longleftrightarrow> is_task s t \<and> (home s (StateListItem t) = Some DelayedTaskList1
     \<or> home s (StateListItem t) = Some DelayedTaskList2)"

text \<open>How many ticks a delayed task still has to wait.\<close>

definition ticks_left :: "os \<Rightarrow> u32 \<Rightarrow> nat" where
  "ticks_left s t = unat (val s (StateListItem t) - xTickCount s)"

lemma ticks_left_pos:
  assumes k: "kernel_inv cfg s" and d: "delayed s t"
  shows "0 < ticks_left s t"
proof -
  have "home s (StateListItem t) = pxDelayedTaskList s \<or> home s (StateListItem t) = pxOverflowDelayedTaskList s"
    using coreD(5)[OF invD(1)[OF k]] d by (auto simp: delay_ok_def delayed_def)
  then have "val s (StateListItem t) \<noteq> xTickCount s"
    using invD(2,3)[OF k] d by (auto simp: due_ok_def overflow_ok_def delayed_def)
  then show ?thesis by (simp add: ticks_left_def unat_gt_0)
qed

lemma waking_iff_one_left:
  "t \<in> waking s \<longleftrightarrow> delayed s t \<and> ticks_left s t = 1"
proof -
  have "unat (v - n) = 1 \<longleftrightarrow> v = n + 1" for v n :: u32
  proof -
    have "unat (v - n) = 1 \<longleftrightarrow> v - n = 1" by (simp add: word_unat_eq_iff)
    then show ?thesis by (auto simp: algebra_simps)
  qed
  then show ?thesis by (auto simp: waking_def delayed_def ticks_left_def)
qed


text \<open>\<open>same_tasks s s'\<close>: no task, queue or byte of memory differs, and the same task is current.\<close>

definition same_tasks :: "os \<Rightarrow> os \<Rightarrow> bool" where
  "same_tasks s s' \<longleftrightarrow> tcbs s' = tcbs s \<and> pxCurrentTCB s' = pxCurrentTCB s \<and> queues s' = queues s
     \<and> mem s' = mem s"

lemma same_tasksD:
  assumes "same_tasks s s'"
  shows "tcbs s' = tcbs s" "pxCurrentTCB s' = pxCurrentTCB s" "queues s' = queues s" "mem s' = mem s"
    and "is_task s' = is_task s" "priority_of s' = priority_of s"
  using assms by (simp_all add: same_tasks_def is_task_def priority_of_def fun_eq_iff)

lemma ticks_left_step:
  assumes "woken (waking s) s (klists s1)" and "same_tasks s s1" and "xTickCount s1 = xTickCount s + 1"
    and k: "kernel_inv cfg s"
  shows "{t. delayed s t \<and> ticks_left s t \<le> Suc n} = waking s \<union> {t. delayed s1 t \<and> ticks_left s1 t \<le> n}"
proof -
  note w = wokenD[OF assms(1)]
  have step: "ticks_left s1 t = ticks_left s t - 1" if "delayed s t" for t
  proof -
    have "val s (StateListItem t) - xTickCount s \<noteq> 0"
      using ticks_left_pos[OF k that] by (simp add: ticks_left_def unat_gt_0)
    then have "unat (val s (StateListItem t) - xTickCount s - 1) = ticks_left s t - 1"
      by (simp add: unat_minus_one ticks_left_def)
    then show ?thesis by (simp add: ticks_left_def w assms(3) algebra_simps)
  qed
  have d1: "delayed s1 t \<longleftrightarrow> delayed s t \<and> t \<notin> waking s" for t
    using same_tasksD[OF assms(2)] by (auto simp: delayed_def w)
  show ?thesis
  proof (rule set_eqI)
    fix t
    show "t \<in> {t. delayed s t \<and> ticks_left s t \<le> Suc n} \<longleftrightarrow>
        t \<in> waking s \<union> {t. delayed s1 t \<and> ticks_left s1 t \<le> n}"
      using step[of t] ticks_left_pos[OF k, of t] by (auto simp: d1 waking_iff_one_left)
  qed
qed

lemma pended_loop_spec:
  assumes "kernel_inv cfg s" and "uxSchedulerSuspended s = 0"
  shows "\<exists>s'. pended_ticks_loop cfg n s = Some s' \<and> kernel_inv cfg s' \<and> same_tasks s s'
     \<and> woken {t. delayed s t \<and> ticks_left s t \<le> n} s (klists s')
     \<and> xTickCount s' = xTickCount s + of_nat n \<and> uxSchedulerSuspended s' = 0
     \<and> uxCriticalNesting s' = uxCriticalNesting s
     \<and> uxCurrentNumberOfTasks s' = uxCurrentNumberOfTasks s"
  using assms
proof (induction n arbitrary: s)
  case 0
  have e: "{t. delayed s t \<and> ticks_left s t \<le> 0} = {}" using ticks_left_pos[OF 0(1)] by auto
  show ?case unfolding e using 0 by (simp add: woken_none same_tasks_def)
next
  case (Suc n)
  obtain sw s1 where t: "xTaskIncrementTick cfg s = Some (sw, s1)" and k1: "kernel_inv cfg s1"
    and f: "xTickCount s1 = xTickCount s + 1" "tcbs s1 = tcbs s" "pxCurrentTCB s1 = pxCurrentTCB s"
      "woken (waking s) s (klists s1)" "queues s1 = queues s" "mem s1 = mem s"
      "uxSchedulerSuspended s1 = 0" "uxCriticalNesting s1 = uxCriticalNesting s"
      "uxCurrentNumberOfTasks s1 = uxCurrentNumberOfTasks s"
    by (rule increment_tick_running[OF Suc.prems]) blast
  let ?s = "if sw then s1\<lparr>xYieldPending := True\<rparr> else s1"
  have k2: "kernel_inv cfg ?s" by (rule inv_cong[OF k1]) simp_all
  have st: "same_tasks s ?s" using f by (simp add: same_tasks_def)
  have w: "woken (waking s) s (klists ?s)" using f(4) by simp
  have tk: "xTickCount ?s = xTickCount s + 1" "uxSchedulerSuspended ?s = 0"
    "uxCriticalNesting ?s = uxCriticalNesting s"
    "uxCurrentNumberOfTasks ?s = uxCurrentNumberOfTasks s" using f by simp_all
  obtain s' where l: "pended_ticks_loop cfg n ?s = Some s'" and k': "kernel_inv cfg s'" and st': "same_tasks ?s s'"
    and w': "woken {t. delayed ?s t \<and> ticks_left ?s t \<le> n} ?s (klists s')"
    and f': "xTickCount s' = xTickCount ?s + of_nat n" "uxSchedulerSuspended s' = 0"
      "uxCriticalNesting s' = uxCriticalNesting ?s" "uxCurrentNumberOfTasks s' = uxCurrentNumberOfTasks ?s"
    using Suc.IH[OF k2 tk(2)] by blast
  have W: "{t. delayed s t \<and> ticks_left s t \<le> Suc n} = waking s \<union> {t. delayed ?s t \<and> ticks_left ?s t \<le> n}"
    by (rule ticks_left_step[OF w st tk(1) Suc.prems(1)])
  have "woken {t. delayed s t \<and> ticks_left s t \<le> Suc n} s (klists s')"
    unfolding W by (rule woken_trans[OF w w' refl same_tasksD(6)[OF st]])
  moreover have "pended_ticks_loop cfg (Suc n) s = Some s'" using t l by simp
  moreover have "same_tasks s s'" using st st' by (simp add: same_tasks_def)
  moreover have "xTickCount s' = xTickCount s + of_nat (Suc n)" using f' tk by simp
  ultimately show ?case using k' f' tk by auto
qed

section \<open>Resuming the scheduler\<close>

definition resume_woken :: "os \<Rightarrow> u32 set" where
  "resume_woken s = pending s \<union> {t. delayed s t \<and> ticks_left s t \<le> unat (uxPendedTicks s)}"

lemma woken_due:
  assumes k: "kernel_inv cfg s" and k1: "kernel_core {} cfg s1" and w: "woken W s (klists s1)"
    and f: "tcbs s1 = tcbs s" "pxDelayedTaskList s1 = pxDelayedTaskList s"
      "pxOverflowDelayedTaskList s1 = pxOverflowDelayedTaskList s" "xTickCount s1 = xTickCount s"
    and n: "xNextTaskUnblockTime s1 = xNextTaskUnblockTime s
       \<or> pxDelayedTaskList s = Some dl \<and> xNextTaskUnblockTime s1 = first_wake s1 dl"
  shows "kernel_inv cfg s1"
proof -
  have it: "is_task s1 = is_task s" by (simp add: is_task_def f fun_eq_iff)
  have np: "pxDelayedTaskList s \<noteq> Some (ReadyTasksList p)" "pxOverflowDelayedTaskList s \<noteq> Some (ReadyTasksList p)" for p
    using coreD(5)[OF invD(1)[OF k]] by (auto simp: delay_ok_def)
  have nx: "xNextTaskUnblockTime s1 \<le> val s (StateListItem t)"
    if "is_task s t" "home s (StateListItem t) = pxDelayedTaskList s" "home s1 (StateListItem t) = pxDelayedTaskList s" for t
    using n
  proof
    assume "xNextTaskUnblockTime s1 = xNextTaskUnblockTime s"
    then show ?thesis using invD(2)[OF k] that by (simp add: due_ok_def)
  next
    assume d: "pxDelayedTaskList s = Some dl \<and> xNextTaskUnblockTime s1 = first_wake s1 dl"
    then show ?thesis using first_wake_le[OF k1, of dl t] that(3) f(2) by (simp add: wokenD[OF w])
  qed
  have hs: "home s1 (StateListItem t) = pxDelayedTaskList s \<longleftrightarrow> t \<notin> W \<and> home s (StateListItem t) = pxDelayedTaskList s"
    "home s1 (StateListItem t) = pxOverflowDelayedTaskList s \<longleftrightarrow> t \<notin> W \<and> home s (StateListItem t) = pxOverflowDelayedTaskList s" for t
    using np[of "priority_of s t"] by (auto simp: wokenD(1)[OF w])
  have "due_ok s1" using invD(2)[OF k] nx hs by (simp add: due_ok_def it f wokenD(3)[OF w])
  moreover have "overflow_ok s1" using invD(3)[OF k] hs by (simp add: overflow_ok_def it f wokenD(3)[OF w])
  ultimately show ?thesis using k1 by (simp add: kernel_inv_def)
qed


lemma first_wake_update [simp]:
  "first_wake (s\<lparr>xNextTaskUnblockTime := n\<rparr>) = first_wake s"
  by (simp add: first_wake_def fun_eq_iff split: list.splits)

lemma resume_all_spec:
  assumes k: "kernel_inv cfg s" and one: "uxSchedulerSuspended s = 1" and n: "uxCurrentNumberOfTasks s > 0"
  obtains y s' where "xTaskResumeAll cfg s = Some (y, s')" and "kernel_inv cfg s'" and "same_tasks s s'"
    and "woken (resume_woken s) s (klists s')" and "pending s' = {}"
    and "xTickCount s' = xTickCount s + uxPendedTicks s" and "uxPendedTicks s' = 0"
    and "uxSchedulerSuspended s' = 0" and "uxCriticalNesting s' = uxCriticalNesting s"
    and "y \<longleftrightarrow> xYieldPending s'" and "y \<Longrightarrow> PENDING_SOFT_SV s' \<and> soft_interrupt s'"
    and "uxCurrentNumberOfTasks s' = uxCurrentNumberOfTasks s"
proof -
  let ?s2 = "s\<lparr>uxCriticalNesting := uxCriticalNesting s + 1, uxSchedulerSuspended := 0\<rparr>"
  have k2: "kernel_inv cfg ?s2" by (rule inv_cong[OF k]) simp_all
  have P2: "pending ?s2 = pending s" by (simp add: pending_def)
  obtain u h p where l: "pending_ready_loop 0 ?s2 = Some (u, (relisted ?s2 h p (xNextTaskUnblockTime ?s2))
        \<lparr>xYieldPending := xYieldPending ?s2 \<or> (\<exists>t \<in> pending ?s2. priority_of ?s2 t \<ge> priority_of ?s2 (pxCurrentTCB ?s2))\<rparr>)"
    and k3: "kernel_core {} cfg (relisted ?s2 h p (xNextTaskUnblockTime ?s2))" and w: "woken (pending ?s2) ?s2 h"
    and u: "pending ?s2 = {} \<and> u = 0 \<or> u \<in> pending ?s2"
    using pending_loop_spec[OF invD(1)[OF k2], of 0] by blast
  obtain s4 where s4: "s4 = (relisted ?s2 h p (xNextTaskUnblockTime ?s2))
        \<lparr>xYieldPending := xYieldPending ?s2 \<or> (\<exists>t \<in> pending ?s2. priority_of ?s2 t \<ge> priority_of ?s2 (pxCurrentTCB ?s2))\<rparr>"
    by simp
  have k4: "kernel_core {} cfg s4" unfolding s4 by (rule core_cong[OF k3]) simp_all
  have w4: "woken (pending s) s (klists s4)" using w P2 by (simp add: s4 woken_def)
  have f4: "tcbs s4 = tcbs s" "pxDelayedTaskList s4 = pxDelayedTaskList s"
    "pxOverflowDelayedTaskList s4 = pxOverflowDelayedTaskList s" "xTickCount s4 = xTickCount s"
    "xNextTaskUnblockTime s4 = xNextTaskUnblockTime s" "pxCurrentTCB s4 = pxCurrentTCB s"
    "queues s4 = queues s" "mem s4 = mem s" "uxPendedTicks s4 = uxPendedTicks s"
    "uxSchedulerSuspended s4 = 0" "uxCriticalNesting s4 = uxCriticalNesting s + 1"
    "uxCurrentNumberOfTasks s4 = uxCurrentNumberOfTasks s"
    by (simp_all add: s4)
  obtain dl where dl: "pxDelayedTaskList s4 = Some dl" by (rule delayed_pointer[OF k4])
  let ?s5 = "if u \<noteq> 0 then s4\<lparr>xNextTaskUnblockTime := first_wake s4 dl\<rparr> else s4"
  have r5: "(if u \<noteq> 0 then prvResetNextTaskUnblockTime s4 else Some s4) = Some ?s5"
    using reset_unblock_time[OF k4 dl] by simp
  have k5c: "kernel_core {} cfg ?s5" by (rule core_cong[OF k4]) simp_all
  have k5: "kernel_inv cfg ?s5"
    by (rule woken_due[OF k k5c, of "pending s" dl]) (use w4 dl f4 in auto)
  have st5: "same_tasks s ?s5" using f4 by (simp add: same_tasks_def)
  have w5: "woken (pending s) s (klists ?s5)" using w4 by simp
  have f5: "xTickCount ?s5 = xTickCount s" "uxPendedTicks ?s5 = uxPendedTicks s" "uxSchedulerSuspended ?s5 = 0"
    "uxCriticalNesting ?s5 = uxCriticalNesting s + 1"
    "uxCurrentNumberOfTasks ?s5 = uxCurrentNumberOfTasks s" using f4 by simp_all
  obtain s5 where s5: "s5 = ?s5" by simp
  note r5 = r5[folded s5] and k5 = k5[folded s5] and st5 = st5[folded s5] and w5 = w5[folded s5]
    and f5 = f5[folded s5]
  let ?n = "unat (uxPendedTicks s5)"
  obtain s6 where t6: "pended_ticks_loop cfg ?n s5 = Some s6" and k6: "kernel_inv cfg s6"
    and st6: "same_tasks s5 s6" and w6: "woken {t. delayed s5 t \<and> ticks_left s5 t \<le> ?n} s5 (klists s6)"
    and f6: "xTickCount s6 = xTickCount s5 + of_nat ?n" "uxSchedulerSuspended s6 = 0"
      "uxCriticalNesting s6 = uxCriticalNesting s5" "uxCurrentNumberOfTasks s6 = uxCurrentNumberOfTasks s5"
    using pended_loop_spec[OF k5 f5(3), of ?n] by blast
  let ?s7 = "s6\<lparr>uxPendedTicks := 0\<rparr>"
  have r7: "(if uxPendedTicks s5 > 0
      then do { s' \<leftarrow> pended_ticks_loop cfg ?n s5; Some (s'\<lparr>uxPendedTicks := 0\<rparr>) } else Some s5) = Some ?s7"
  proof (cases "uxPendedTicks s5 = 0")
    case True
    then have "s6 = s5" using t6 by simp
    then have "?s7 = s5" using True by simp
    then show ?thesis using True by simp
  qed (use t6 in \<open>simp add: word_neq_0_conv\<close>)
  have k7: "kernel_inv cfg ?s7" by (rule inv_cong[OF k6]) simp_all
  have W: "pending s \<union> {t. delayed s5 t \<and> ticks_left s5 t \<le> ?n} = resume_woken s"
    using wokenD[OF w5] same_tasksD[OF st5] f5
    by (auto simp: resume_woken_def delayed_def ticks_left_def split: if_splits)
  have w7: "woken (resume_woken s) s (klists ?s7)"
    using woken_trans[OF w5 w6 refl same_tasksD(6)[OF st5]] W by simp
  have st7: "same_tasks s ?s7" using st5 st6 by (simp add: same_tasks_def)
  have p7: "pending ?s7 = {}"
    using wokenD(2)[OF w7] same_tasksD(5)[OF st7] by (auto simp: pending_def resume_woken_def split: if_splits)
  let ?s8 = "(if xYieldPending ?s7 then portYIELD ?s7 else ?s7)\<lparr>uxCriticalNesting := uxCriticalNesting s\<rparr>"
  have "xTaskResumeAll cfg s = Some (xYieldPending ?s7, ?s8)"
  proof -
    have e: "(vPortEnterCritical s)\<lparr>uxSchedulerSuspended := uxSchedulerSuspended (vPortEnterCritical s) - 1\<rparr> = ?s2"
      by (simp add: vPortEnterCritical_def one)
    have c: "(uxSchedulerSuspended ?s2 = 0 \<and> uxCurrentNumberOfTasks ?s2 > 0) = True" using n by simp
    have "xTaskResumeAll cfg s = do {
        (xAlreadyYielded, s3) \<leftarrow> Some (if xYieldPending ?s7 then (True, portYIELD ?s7) else (False, ?s7));
        Some (xAlreadyYielded, vPortExitCritical s3) }"
      unfolding xTaskResumeAll_def Let_def e
      by (simp only: c if_True l[folded s4] Option.bind.bind_lunit prod.case r5 r7)
    then show ?thesis using f6 f5 by (simp add: vPortExitCritical_def)
  qed
  then show ?thesis
  proof (rule that)
    show "kernel_inv cfg ?s8" by (rule inv_cong[OF k7]) simp_all
  qed (use w7 st7 p7 f6 f5 in \<open>auto simp: same_tasks_def pending_def\<close>)
qed

lemma resume_all_nested:
  assumes "uxSchedulerSuspended s \<noteq> 1"
  shows "xTaskResumeAll cfg s = Some (False, s\<lparr>uxSchedulerSuspended := uxSchedulerSuspended s - 1\<rparr>)"
  using assms by (simp add: xTaskResumeAll_def vPortEnterCritical_def vPortExitCritical_def Let_def)

end
