(* ===== verification/Os_Task_Block.thy ===== *)
theory Os_Task_Block
  imports Os_Task_Resume
begin

text \<open>
  Blocking and waking: a task that delays leaves its ready list for the delayed list its wake
  time belongs to; a task on an event list is woken from its head, or put on the pending list
  while the scheduler is suspended.
\<close>

section \<open>Updating a control block\<close>

lemma core_tcb_update:
  assumes k: "kernel_core X cfg s" and t: "tcbs s t = Some tcb" and p: "uxPriority tcb' = uxPriority tcb"
    and b: "uxBasePriority tcb' = uxBasePriority tcb"
  shows "kernel_core X cfg (s\<lparr>tcbs := (tcbs s)(t \<mapsto> tcb')\<rparr>)"
    and "is_task (s\<lparr>tcbs := (tcbs s)(t \<mapsto> tcb')\<rparr>) = is_task s"
    and "priority_of (s\<lparr>tcbs := (tcbs s)(t \<mapsto> tcb')\<rparr>) = priority_of s"
proof -
  show 1: "is_task (s\<lparr>tcbs := (tcbs s)(t \<mapsto> tcb')\<rparr>) = is_task s" using t by (auto simp: is_task_def fun_eq_iff)
  show 2: "priority_of (s\<lparr>tcbs := (tcbs s)(t \<mapsto> tcb')\<rparr>) = priority_of s"
    using t p by (auto simp: priority_of_def fun_eq_iff)
  have 4: "uxBasePriority (the (((tcbs s)(t \<mapsto> tcb')) u)) = uxBasePriority (the (tcbs s u))" for u
    using t b by simp
  have 3: "live cfg (s\<lparr>tcbs := x\<rparr>) = live cfg s" "event_lists (s\<lparr>tcbs := x\<rparr>) = event_lists s" for x
    by (simp_all add: live_def event_lists_def)
  show "kernel_core X cfg (s\<lparr>tcbs := (tcbs s)(t \<mapsto> tcb')\<rparr>)"
    using k by (simp add: kernel_core_def tasks_ok_def placed_def ready_ok_def delay_ok_def 1 2 3 4
      del: fun_upd_apply)
qed

lemma inv_tcb_update:
  assumes k: "kernel_inv cfg s" and t: "tcbs s t = Some tcb" and p: "uxPriority tcb' = uxPriority tcb"
    and b: "uxBasePriority tcb' = uxBasePriority tcb"
  shows "kernel_inv cfg (s\<lparr>tcbs := (tcbs s)(t \<mapsto> tcb')\<rparr>)"
  using core_tcb_update[OF invD(1)[OF k] t p b] invD(2,3)[OF k]
  by (simp add: kernel_inv_def due_ok_def overflow_ok_def)

section \<open>Delaying the current task\<close>

definition waits_forever :: "os_config \<Rightarrow> u32 \<Rightarrow> bool \<Rightarrow> bool" where
  "waits_forever cfg n b \<longleftrightarrow> INCLUDE_vTaskSuspend cfg \<and> n = portMAX_DELAY \<and> b"

text \<open>
  What a step that only moves items keeps: the tasks and their priorities, the current task, the
  queues, the clock, and how deep the scheduler is suspended.
\<close>

definition same_sched :: "os \<Rightarrow> os \<Rightarrow> bool" where
  "same_sched s s' \<longleftrightarrow> is_task s' = is_task s \<and> priority_of s' = priority_of s
     \<and> pxCurrentTCB s' = pxCurrentTCB s \<and> queues s' = queues s \<and> mem s' = mem s
     \<and> xTickCount s' = xTickCount s \<and> uxSchedulerSuspended s' = uxSchedulerSuspended s
     \<and> uxPendedTicks s' = uxPendedTicks s \<and> uxCriticalNesting s' = uxCriticalNesting s
     \<and> uxCurrentNumberOfTasks s' = uxCurrentNumberOfTasks s"

lemma same_schedD:
  assumes "same_sched s s'"
  shows "is_task s' = is_task s" "priority_of s' = priority_of s" "pxCurrentTCB s' = pxCurrentTCB s"
    "queues s' = queues s" "mem s' = mem s" "xTickCount s' = xTickCount s"
    "uxSchedulerSuspended s' = uxSchedulerSuspended s" "uxPendedTicks s' = uxPendedTicks s"
    "uxCriticalNesting s' = uxCriticalNesting s" "uxCurrentNumberOfTasks s' = uxCurrentNumberOfTasks s"
  using assms by (simp_all add: same_sched_def)

lemma same_sched_trans: "same_sched s s1 \<Longrightarrow> same_sched s1 s2 \<Longrightarrow> same_sched s s2"
  by (simp add: same_sched_def)

definition rehomed :: "os \<Rightarrow> os \<Rightarrow> item_ref \<Rightarrow> list_ref option \<Rightarrow> bool" where
  "rehomed s s' i l \<longleftrightarrow> (\<forall>j. home s' j = (if j = i then l else home s j))"

lemma word_add_greater:
  "(n :: u32) \<noteq> 0 \<Longrightarrow> \<not> v + n < v \<Longrightarrow> v < v + n"
  by (metis add_cancel_right_right not_less_iff_gr_or_eq)

lemma delay_current_spec:
  assumes k: "kernel_inv cfg s" and n: "n \<noteq> 0"
  obtains s' l where "prvAddCurrentTaskToDelayedList cfg n b s = Some s'" and "kernel_inv cfg s'"
    and "same_sched s s'" and "rehomed s s' (StateListItem (pxCurrentTCB s)) (Some l)"
    and "waits_forever cfg n b \<Longrightarrow> l = SuspendedTaskList"
    and "\<not> waits_forever cfg n b \<Longrightarrow> delayed s' (pxCurrentTCB s) \<and> ticks_left s' (pxCurrentTCB s) = unat n"
    and "\<And>j. j \<noteq> StateListItem (pxCurrentTCB s) \<Longrightarrow> val s' j = val s j"
    and "\<And>m. m \<in> event_lists s \<Longrightarrow> items s' m = items s m"
proof -
  let ?c = "pxCurrentTCB s" and ?i = "StateListItem (pxCurrentTCB s)"
  have ct: "is_task s ?c" using coreD(2)[OF invD(1)[OF k]] by (simp add: tasks_ok_def)
  obtain tcb where tcb: "tcbs s ?c = Some tcb" using ct by (auto simp: is_task_def)
  obtain s1 where s1: "(if INCLUDE_xTaskAbortDelay cfg then upd_tcb ?c (\<lambda>t. t\<lparr>ucDelayAborted := False\<rparr>) s else Some s) = Some s1"
    and k1: "kernel_inv cfg s1" and f1: "is_task s1 = is_task s" "priority_of s1 = priority_of s"
      "klists s1 = klists s" "pxCurrentTCB s1 = ?c" "queues s1 = queues s" "mem s1 = mem s"
      "xTickCount s1 = xTickCount s" "uxSchedulerSuspended s1 = uxSchedulerSuspended s"
      "uxPendedTicks s1 = uxPendedTicks s" "uxCriticalNesting s1 = uxCriticalNesting s"
      "uxCurrentNumberOfTasks s1 = uxCurrentNumberOfTasks s"
  proof (cases "INCLUDE_xTaskAbortDelay cfg")
    case True
    show ?thesis
      by (rule that[of "s\<lparr>tcbs := (tcbs s)(?c \<mapsto> tcb\<lparr>ucDelayAborted := False\<rparr>)\<rparr>"])
        (use True tcb inv_tcb_update[OF k tcb] core_tcb_update[OF invD(1)[OF k] tcb]
          in \<open>simp_all add: upd_tcb_def\<close>)
  qed (use k in auto)
  have c1: "is_task s1 ?c" using ct f1 by simp
  then obtain tcb1 where tcb1: "tcbs s1 ?c = Some tcb1" by (auto simp: is_task_def)
  obtain m h2 where r2: "os_remove ?i s1 = Some (m, s1\<lparr>klists := h2\<rparr>)"
    and k2: "kernel_core {?c} cfg (s1\<lparr>klists := h2\<rparr>)" and m2: "moved s1 h2 ?i None"
    and it2: "\<And>m. m \<in> live cfg s1 \<Longrightarrow> list_items h2 m = remove1 ?i (items s1 m)"
    using remove_state_item[OF invD(1)[OF k1] c1, of thesis] by auto
  let ?s2 = "s1\<lparr>klists := h2\<rparr>"
  have lv: "m \<in> live cfg s1" "m \<in> event_lists s1" if "m \<in> event_lists s" for m
    using that f1(5) by (auto simp: live_def event_lists_def)
  have ev2: "list_items h2 m = items s m" if "m \<in> event_lists s" for m
    using it2[OF lv(1)[OF that]] state_item_not_event[OF invD(1)[OF k1] lv(2)[OF that]]
    by (simp add: remove1_idem f1)
  have body: "prvAddCurrentTaskToDelayedList cfg n b s =
      (if waits_forever cfg n b then Some (os_insert_end SuspendedTaskList ?i ?s2)
       else do {
          let xTimeToWake = xTickCount s + n;
          let s3 = os_set_value ?i xTimeToWake ?s2;
          (if xTimeToWake < xTickCount s
           then do { ol \<leftarrow> pxOverflowDelayedTaskList s3; os_insert ol ?i s3 }
           else do { dl \<leftarrow> pxDelayedTaskList s3; s4 \<leftarrow> os_insert dl ?i s3;
             Some (if xTimeToWake < xNextTaskUnblockTime s4
                   then s4\<lparr>xNextTaskUnblockTime := xTimeToWake\<rparr> else s4) }) })"
    by (simp add: prvAddCurrentTaskToDelayedList_def s1 tcb1 r2 waits_forever_def Let_def)
  have due1: "xTickCount s < val s (StateListItem t) \<and> xNextTaskUnblockTime s1 \<le> val s (StateListItem t)"
    if "is_task s t" "home s (StateListItem t) = pxDelayedTaskList s1" for t
    using invD(2)[OF k1] that by (simp add: due_ok_def f1)
  have ov1: "val s (StateListItem t) < xTickCount s"
    if "is_task s t" "home s (StateListItem t) = pxOverflowDelayedTaskList s1" for t
    using invD(3)[OF k1] that by (simp add: overflow_ok_def f1)
  obtain dl ol where dl: "pxDelayedTaskList s1 = Some dl" "pxOverflowDelayedTaskList s1 = Some ol"
    and d12: "dl = DelayedTaskList1 \<and> ol = DelayedTaskList2 \<or> dl = DelayedTaskList2 \<and> ol = DelayedTaskList1"
    using coreD(5)[OF invD(1)[OF k1]] by (auto simp: delay_ok_def)
  show ?thesis
  proof (cases "waits_forever cfg n b")
    case True
    obtain h where e: "os_insert_end SuspendedTaskList ?i ?s2 = ?s2\<lparr>klists := h\<rparr>"
      and k3: "kernel_core ({?c} - {?c}) cfg (?s2\<lparr>klists := h\<rparr>)"
      and m3: "moved ?s2 h ?i (Some SuspendedTaskList)"
      and it3: "\<And>m. m \<in> live cfg ?s2 \<Longrightarrow> m \<noteq> SuspendedTaskList \<Longrightarrow> list_items h m = items ?s2 m"
      by (rule add_to_state_list_end[OF k2, of ?c SuspendedTaskList])
        (use True c1 in \<open>auto simp: waits_forever_def\<close>)
    let ?s' = "s1\<lparr>klists := h\<rparr>"
    have hm: "pxContainer (node_at h j) = (if j = ?i then Some SuspendedTaskList else home s j)"
      "xItemValue (node_at h j) = val s j" for j
      using m2 m3 by (simp_all add: moved_def f1)
    have "due_ok ?s'" "overflow_ok ?s'"
      using due1 ov1 dl d12 by (auto simp: due_ok_def overflow_ok_def hm f1)
    then have "kernel_inv cfg ?s'" using k3 by (simp add: kernel_inv_def)
    moreover have "list_items h m = items s m" if "m \<in> event_lists s" for m
      using it3[of m] ev2[OF that] lv(1)[OF that] that by (cases m) auto
    ultimately show ?thesis
      by (intro that[of ?s' SuspendedTaskList])
        (use body True e hm f1 in \<open>auto simp: same_sched_def rehomed_def\<close>)
  next
    case False
    let ?w = "xTickCount s + n"
    let ?s3 = "os_set_value ?i ?w ?s2"
    have free2: "home ?s2 ?i = None" using m2 by (simp add: moved_def)
    have k3: "kernel_core {?c} cfg ?s3"
      by (rule set_value_core(1)[OF k2], rule free_item_nowhere[OF k2 _ free2]) auto
    have f3: "home ?s3 j = home ?s2 j" "val ?s3 j = (if j = ?i then ?w else val ?s2 j)"
      "pxOverflowDelayedTaskList ?s3 = Some ol" "pxDelayedTaskList ?s3 = Some dl"
      "is_task ?s3 = is_task s" for j
      using dl by (simp_all add: os_set_value_def f1)
    define l where "l = (if ?w < xTickCount s then ol else dl)"
    have l12: "l = DelayedTaskList1 \<or> l = DelayedTaskList2" using d12 by (auto simp: l_def)
    obtain h where e: "os_insert l ?i ?s3 = Some (?s3\<lparr>klists := h\<rparr>)"
      and k4: "kernel_core ({?c} - {?c}) cfg (?s3\<lparr>klists := h\<rparr>)" and m4: "moved ?s3 h ?i (Some l)"
      and it4: "\<And>m. m \<in> live cfg ?s3 \<Longrightarrow> m \<noteq> l \<Longrightarrow> list_items h m = items ?s3 m"
      by (rule add_delayed[OF k3 _ _ l12, of ?c]) (use ct f3 in auto)
    define x where "x = (if \<not> ?w < xTickCount s \<and> ?w < xNextTaskUnblockTime s1 then ?w else xNextTaskUnblockTime s1)"
    let ?s' = "s1\<lparr>klists := h, xNextTaskUnblockTime := x\<rparr>"
    have eq: "prvAddCurrentTaskToDelayedList cfg n b s = Some ?s'"
      using body False e dl by (auto simp: Let_def f3 l_def x_def os_set_value_def)
    have hm: "pxContainer (node_at h j) = (if j = ?i then Some l else home s j)"
      "xItemValue (node_at h j) = (if j = ?i then ?w else val s j)" for j
      using m2 m4 f3 by (simp_all add: moved_def f1 os_set_value_def)
    have kc: "kernel_core {} cfg ?s'"
    proof (rule core_cong)
      show "kernel_core {} cfg (?s3\<lparr>klists := h\<rparr>)" using k4 by simp
    qed (simp_all add: os_set_value_def)
    have "due_ok ?s'"
      using due1 dl d12 word_add_greater[OF n, of "xTickCount s"]
      by (auto simp: due_ok_def hm f1 l_def x_def intro: order_trans[OF less_imp_le])
    moreover have "overflow_ok ?s'" using ov1 dl d12 by (auto simp: overflow_ok_def hm f1 l_def)
    ultimately have "kernel_inv cfg ?s'" using kc by (simp add: kernel_inv_def)
    moreover have "list_items h m = items s m" if m: "m \<in> event_lists s" for m
    proof -
      have "items ?s3 m = items ?s2 m"
        by (rule set_value_core(2)[OF k2]) (use free_item_nowhere[OF k2 _ free2] lv(1)[OF m] in auto)
      moreover have "m \<in> live cfg ?s3" "m \<noteq> l" using lv(1)[OF m] l12 m by (auto simp: os_set_value_def)
      ultimately show ?thesis using it4[of m] ev2[OF m] by simp
    qed
    ultimately show ?thesis
      by (intro that[of ?s' l, OF eq])
        (use False hm f1 ct l12 in \<open>auto simp: same_sched_def rehomed_def delayed_def ticks_left_def is_task_def priority_of_def fun_eq_iff\<close>)
  qed
qed


section \<open>Event lists\<close>

lemma event_moved_inv:
  assumes k: "kernel_inv cfg s" and c: "kernel_core {} cfg (s\<lparr>klists := h\<rparr>)" and m: "moved s h (EventListItem t) x"
  shows "kernel_inv cfg (s\<lparr>klists := h\<rparr>)"
  using invD(2,3)[OF k] c by (simp add: kernel_inv_def due_ok_def overflow_ok_def movedD[OF m])

lemma current_task: "kernel_inv cfg s \<Longrightarrow> is_task s (pxCurrentTCB s)"
  using coreD(2)[OF invD(1)] by (simp add: tasks_ok_def)

lemma place_event_spec:
  assumes k: "kernel_inv cfg s" and n: "n \<noteq> 0" and e: "home s (EventListItem (pxCurrentTCB s)) = None"
    and l: "l \<in> event_lists s"
  obtains s' m where "vTaskPlaceOnEventList cfg l n s = Some s'" and "kernel_inv cfg s'" and "same_sched s s'"
    and "\<And>j. home s' j = (if j = StateListItem (pxCurrentTCB s) then Some m
                      else if j = EventListItem (pxCurrentTCB s) then Some l else home s j)"
    and "\<not> waits_forever cfg n True \<Longrightarrow> delayed s' (pxCurrentTCB s) \<and> ticks_left s' (pxCurrentTCB s) = unat n"
    and "items s' l = insert_by_value (val s) (EventListItem (pxCurrentTCB s)) (items s l)"
    and "\<And>m. m \<in> event_lists s \<Longrightarrow> m \<noteq> l \<Longrightarrow> items s' m = items s m"
    and "\<And>t. val s' (EventListItem t) = val s (EventListItem t)"
proof -
  let ?c = "pxCurrentTCB s"
  note ct = current_task[OF k]
  then obtain tcb where tcb: "tcbs s ?c = Some tcb" by (auto simp: is_task_def)
  obtain h where i: "os_insert l (EventListItem ?c) s = Some (s\<lparr>klists := h\<rparr>)"
    and c: "kernel_core {} cfg (s\<lparr>klists := h\<rparr>)" and m: "moved s h (EventListItem ?c) (Some l)"
    and it: "\<forall>m. m \<in> live cfg s \<longrightarrow> m \<noteq> l \<longrightarrow> list_items h m = items s m"
      "list_items h l = insert_by_value (val s) (EventListItem ?c) (items s l)"
    by (rule add_event_sorted[OF invD(1)[OF k] ct e l]) blast
  have k1: "kernel_inv cfg (s\<lparr>klists := h\<rparr>)" by (rule event_moved_inv[OF k c m])
  obtain s' d where r: "prvAddCurrentTaskToDelayedList cfg n True (s\<lparr>klists := h\<rparr>) = Some s'" "kernel_inv cfg s'"
    and ss: "same_sched (s\<lparr>klists := h\<rparr>) s'" and rh: "rehomed (s\<lparr>klists := h\<rparr>) s' (StateListItem ?c) (Some d)"
    and dl: "\<not> waits_forever cfg n True \<longrightarrow> delayed s' ?c \<and> ticks_left s' ?c = unat n"
    and vl: "\<forall>j. j \<noteq> StateListItem ?c \<longrightarrow> val s' j = val (s\<lparr>klists := h\<rparr>) j"
    and ev: "\<forall>m. m \<in> event_lists s \<longrightarrow> items s' m = list_items h m"
    by (rule delay_current_spec[OF k1 n, of True]) (rule that, auto)
  show ?thesis
  proof (rule that[of s' d])
    show "vTaskPlaceOnEventList cfg l n s = Some s'" by (simp add: vTaskPlaceOnEventList_def tcb i r(1))
    show "same_sched s s'" using ss by (simp add: same_sched_def)
    show "home s' j = (if j = StateListItem ?c then Some d else if j = EventListItem ?c then Some l else home s j)" for j
      using rh by (simp add: rehomed_def movedD[OF m])
    show "items s' l = insert_by_value (val s) (EventListItem ?c) (items s l)" using ev l it(2) by simp
    show "items s' m' = items s m'" if "m' \<in> event_lists s" "m' \<noteq> l" for m' using ev it(1) that by simp
    show "val s' (EventListItem t) = val s (EventListItem t)" for t using vl movedD(2)[OF m] by simp
  qed (use r(2) dl in simp_all)
qed

text \<open>The task at the head of an event list is the one woken.\<close>

definition first_waiting :: "os \<Rightarrow> list_ref \<Rightarrow> u32" where
  "first_waiting s l = (case items s l of i # is \<Rightarrow> owner s i | [] \<Rightarrow> 0)"

lemma woken_same_sched: "same_sched s (relisted s h p n)"
  by (simp add: same_sched_def)

lemma remove_from_event_list_running:
  assumes k: "kernel_inv cfg s" and l: "l \<in> event_lists s" "items s l \<noteq> []" and run: "uxSchedulerSuspended s = 0"
  defines "t \<equiv> first_waiting s l"
  defines "b \<equiv> priority_of s t > priority_of s (pxCurrentTCB s)"
  obtains s' where "xTaskRemoveFromEventList cfg l s = Some (b, s')" and "kernel_inv cfg s'" and "same_sched s s'"
    and "is_task s t" and "home s (EventListItem t) = Some l" and "woken {t} s (klists s')"
    and "tcbs s' = tcbs s" and "xYieldPending s' \<longleftrightarrow> b \<or> xYieldPending s"
    and "items s' l = tl (items s l)"
proof -
  obtain i "is" where i: "items s l = i # is" using l(2) by (cases "items s l") auto
  obtain u where u: "i = EventListItem u" "is_task s u" "home s (EventListItem u) = Some l"
    "listGET_OWNER_OF_HEAD_ENTRY l (klists s) = Some u"
    by (rule event_head[OF invD(1)[OF k] l(1) i])
  have tu: "u = t"
    using i u coreD(2)[OF invD(1)[OF k]] by (simp add: t_def first_waiting_def tasks_ok_def)
  obtain tcb where tcb: "tcbs s t = Some tcb" "uxPriority tcb = priority_of s t" using task_tcb u(2) tu by metis
  obtain ctcb where ctcb: "tcbs s (pxCurrentTCB s) = Some ctcb"
    "uxPriority ctcb = priority_of s (pxCurrentTCB s)" by (rule current_tcb[OF invD(1)[OF k]])
  obtain n n' s1 s2 h p where r: "os_remove (EventListItem t) s = Some (n, s1)"
      "os_remove (StateListItem t) s1 = Some (n', s2)"
      "prvAddTaskToReadyList t s2 = Some (relisted s h p (xNextTaskUnblockTime s))"
    and c: "kernel_core {} cfg (relisted s h p (xNextTaskUnblockTime s))" and w: "woken {t} s h"
    and it: "\<And>m. m \<in> live cfg s \<Longrightarrow> m \<noteq> ReadyTasksList (priority_of s t)
         \<Longrightarrow> list_items h m = remove1 (StateListItem t) (remove1 (EventListItem t) (items s m))"
    and s1: "s1 = relisted s (klists s1) (uxTopReadyPriority s) (xNextTaskUnblockTime s)"
    using wake_from_event[OF invD(1)[OF k], of t] u tu by (metis option.distinct(1))
  have sus1: "uxSchedulerSuspended s1 = 0" using run by (subst s1) simp
  let ?s3 = "relisted s h p (xNextTaskUnblockTime s)"
  obtain dl where dl: "pxDelayedTaskList ?s3 = Some dl" by (rule delayed_pointer[OF c])
  let ?x = "if configUSE_TICKLESS_IDLE cfg then first_wake ?s3 dl else xNextTaskUnblockTime s"
  let ?s4 = "relisted s h p ?x"
  have reset: "(if configUSE_TICKLESS_IDLE cfg then prvResetNextTaskUnblockTime ?s3 else Some ?s3) = Some ?s4"
    using reset_unblock_time[OF c dl] by (simp add: relisted_def)
  have c4: "kernel_core {} cfg ?s4" by (rule core_cong[OF c]) simp_all
  have fw: "first_wake ?s4 dl = first_wake ?s3 dl" by (simp add: first_wake_def split: list.splits)
  have k4: "kernel_inv cfg ?s4"
    by (rule woken_due[OF k c4, of "{t}" dl]) (use w dl fw in auto)
  let ?s' = "if b then ?s4\<lparr>xYieldPending := True\<rparr> else ?s4"
  have "xTaskRemoveFromEventList cfg l s = Some (b, ?s')"
    using u tu tcb ctcb sus1 by (simp add: xTaskRemoveFromEventList_def r reset b_def)
  moreover have "items ?s' l = is"
  proof -
    have lv: "l \<in> live cfg s" "l \<noteq> ReadyTasksList (priority_of s t)" using l(1) by auto
    have "StateListItem t \<notin> set is"
      using item_owner(3)[OF invD(1)[OF k] lv(1), of "StateListItem t"] i l(1) by auto
    then show ?thesis using it[OF lv] i u(1) tu by (simp add: remove1_idem)
  qed
  moreover have "kernel_inv cfg ?s'" by (rule inv_cong[OF k4]) simp_all
  ultimately show ?thesis
    by (intro that[of ?s']) (use u tu w i in \<open>auto simp: same_sched_def\<close>)
qed

lemma remove_from_event_list_suspended:
  assumes k: "kernel_inv cfg s" and l: "l \<in> event_lists s" "items s l \<noteq> []" and run: "uxSchedulerSuspended s \<noteq> 0"
  defines "t \<equiv> first_waiting s l"
  defines "b \<equiv> priority_of s t > priority_of s (pxCurrentTCB s)"
  obtains s' where "xTaskRemoveFromEventList cfg l s = Some (b, s')" and "kernel_inv cfg s'" and "same_sched s s'"
    and "is_task s t" and "home s (EventListItem t) = Some l"
    and "rehomed s s' (EventListItem t) (Some PendingReadyList)" and "tcbs s' = tcbs s"
    and "xYieldPending s' \<longleftrightarrow> b \<or> xYieldPending s" and "val s' = val s"
    and "\<And>m. m \<in> event_lists s \<Longrightarrow> m \<noteq> PendingReadyList \<Longrightarrow>
          items s' m = (if m = l then tl (items s l) else items s m)"
proof -
  obtain i "is" where i: "items s l = i # is" using l(2) by (cases "items s l") auto
  obtain u where u: "i = EventListItem u" "is_task s u" "home s (EventListItem u) = Some l"
    "listGET_OWNER_OF_HEAD_ENTRY l (klists s) = Some u"
    by (rule event_head[OF invD(1)[OF k] l(1) i])
  have tu: "u = t"
    using i u coreD(2)[OF invD(1)[OF k]] by (simp add: t_def first_waiting_def tasks_ok_def)
  obtain tcb where tcb: "tcbs s t = Some tcb" "uxPriority tcb = priority_of s t" using task_tcb u(2) tu by metis
  obtain ctcb where ctcb: "tcbs s (pxCurrentTCB s) = Some ctcb"
    "uxPriority ctcb = priority_of s (pxCurrentTCB s)" by (rule current_tcb[OF invD(1)[OF k]])
  have e: "home s (EventListItem t) \<noteq> None" using u(3) tu by simp
  obtain n h1 where r1: "os_remove (EventListItem t) s = Some (n, s\<lparr>klists := h1\<rparr>)"
    and c1: "kernel_core {} cfg (s\<lparr>klists := h1\<rparr>)" and m1: "moved s h1 (EventListItem t) None"
    and i1: "\<And>m. m \<in> live cfg s \<Longrightarrow> list_items h1 m = remove1 (EventListItem t) (items s m)"
    using remove_event_item_ok[OF invD(1)[OF k] u(2)[unfolded tu] e] by metis
  have t1: "is_task (s\<lparr>klists := h1\<rparr>) t" "home (s\<lparr>klists := h1\<rparr>) (EventListItem t) = None"
    using u(2) tu m1 by (simp_all add: moved_def)
  obtain h2 where r2: "os_insert_end PendingReadyList (EventListItem t) (s\<lparr>klists := h1\<rparr>) = s\<lparr>klists := h1\<rparr>\<lparr>klists := h2\<rparr>"
    and c2: "kernel_core {} cfg (s\<lparr>klists := h1\<rparr>\<lparr>klists := h2\<rparr>)"
    and m2: "moved (s\<lparr>klists := h1\<rparr>) h2 (EventListItem t) (Some PendingReadyList)"
    and i2: "\<And>m. m \<in> live cfg s \<Longrightarrow> m \<noteq> PendingReadyList \<Longrightarrow> list_items h2 m = list_items h1 m"
    by (rule add_event_end[OF c1 t1, of PendingReadyList]) (use t1 in auto)
  have it: "list_items h2 m = (if m = l then tl (items s l) else items s m)"
    if m: "m \<in> event_lists s" "m \<noteq> PendingReadyList" for m
  proof -
    have lv: "m \<in> live cfg s" "l \<in> live cfg s" using m(1) l(1) by simp_all
    have "EventListItem t \<notin> set (items s m)" if "m \<noteq> l"
      using member_home[OF invD(1)[OF k] lv(1)] u(3) tu that by auto
    then show ?thesis using i1[OF lv(1)] i2[OF lv(1) m(2)] i u(1) tu by (simp add: remove1_idem)
  qed
  have m: "moved s h2 (EventListItem t) (Some PendingReadyList)" using m1 m2 by (simp add: moved_def)
  have k2: "kernel_inv cfg (s\<lparr>klists := h2\<rparr>)" by (rule event_moved_inv[OF k _ m]) (use c2 in simp)
  let ?s' = "if b then (s\<lparr>klists := h2\<rparr>)\<lparr>xYieldPending := True\<rparr> else s\<lparr>klists := h2\<rparr>"
  have "xTaskRemoveFromEventList cfg l s = Some (b, ?s')"
    using u tu tcb ctcb run by (simp add: xTaskRemoveFromEventList_def r1 r2 b_def)
  moreover have "kernel_inv cfg ?s'" by (rule inv_cong[OF k2]) simp_all
  ultimately show ?thesis
    by (intro that[of ?s']) (use u tu m it in \<open>auto simp: same_sched_def rehomed_def moved_def fun_eq_iff\<close>)
qed

end
