(* ===== verification/Os_Task_Api.thy ===== *)
theory Os_Task_Api
  imports Os_Task_Create Os_Task_Sync
begin

text \<open>
  The task API of \<^verbatim>\<open>src/ffi/os/task.c\<close>: delays, task states, priorities, suspension, task names,
  direct-to-task notifications and the idle task's queries. Where the
  source uses a list macro under a name no header defines (\<open>listLinkedListITEM_CONTAINER\<close>,
  \<open>listCURRENT_LinkedListLENGTH\<close>, \<open>listGET_LinkedListITEM_VALUE\<close>), in code that this
  repository's configuration leaves out, the model has the macro of \<^verbatim>\<open>list.h\<close> that the name
  stands for.

  A function that gives up the processor and goes on afterwards takes \<open>others\<close>: what the rest
  of the system does to the state until the task runs again.
\<close>

section \<open>Delays\<close>

definition vTaskDelay :: "os_config \<Rightarrow> u32 \<Rightarrow> os \<Rightarrow> os option" where
  "vTaskDelay cfg xTicksToDelay s =
     do {
       (xAlreadyYielded, s1) \<leftarrow>
         (if xTicksToDelay > 0
          then do {
            s' \<leftarrow> prvAddCurrentTaskToDelayedList cfg xTicksToDelay False (vTaskSuspendAll s);
            xTaskResumeAll cfg s'
          }
          else Some (False, s));
       Some (if xAlreadyYielded then s1 else portYIELD s1)
     }"

text \<open>Whether \<open>vTaskDelayUntil\<close> has to wait, from the tick count, the previous wake time and the next.\<close>

definition should_delay :: "u32 \<Rightarrow> u32 \<Rightarrow> u32 \<Rightarrow> bool" where
  "should_delay xConstTickCount prev xTimeToWake =
     (if xConstTickCount < prev
      then xTimeToWake < prev \<and> xTimeToWake > xConstTickCount
      else xTimeToWake < prev \<or> xTimeToWake > xConstTickCount)"

text \<open>Returns the value written back to \<open>*pxPreviousWakeTime\<close> and the state.\<close>

definition vTaskDelayUntil :: "os_config \<Rightarrow> u32 \<Rightarrow> u32 \<Rightarrow> os \<Rightarrow> (u32 \<times> os) option" where
  "vTaskDelayUntil cfg pxPreviousWakeTime xTimeIncrement s =
     do {
       let s1 = vTaskSuspendAll s;
       let xConstTickCount = xTickCount s1;
       let xTimeToWake = pxPreviousWakeTime + xTimeIncrement;
       s2 \<leftarrow> (if should_delay xConstTickCount pxPreviousWakeTime xTimeToWake
              then prvAddCurrentTaskToDelayedList cfg (xTimeToWake - xConstTickCount) False s1
              else Some s1);
       (xAlreadyYielded, s3) \<leftarrow> xTaskResumeAll cfg s2;
       Some (xTimeToWake, if xAlreadyYielded then s3 else portYIELD s3)
     }"

section \<open>Task states\<close>

datatype eTaskState = eRunning | eReady | eBlocked | eSuspended | eDeleted | eInvalid

definition eTaskGetState :: "os_config \<Rightarrow> u32 \<Rightarrow> os \<Rightarrow> (eTaskState \<times> os) option" where
  "eTaskGetState cfg t s =
     (if t = pxCurrentTCB s then Some (eRunning, s)
      else do {
        tcb \<leftarrow> tcbs s t;
        let s1 = vPortEnterCritical s;
        let pxStateList = listLIST_ITEM_CONTAINER (StateListItem t) (klists s1);
        let pxDelayedList = pxDelayedTaskList s1;
        let pxOverflowedDelayedList = pxOverflowDelayedTaskList s1;
        let s2 = vPortExitCritical s1;
        Some
          (if pxStateList = pxDelayedList \<or> pxStateList = pxOverflowedDelayedList then eBlocked
           else if INCLUDE_vTaskSuspend cfg \<and> pxStateList = Some SuspendedTaskList
           then (if listLIST_ITEM_CONTAINER (EventListItem t) (klists s2) = None
                 then (if configUSE_TASK_NOTIFICATIONS cfg \<and> ucNotifyState tcb = taskWAITING_NOTIFICATION
                       then eBlocked else eSuspended)
                 else eBlocked)
           else if INCLUDE_vTaskDelete cfg \<and> (pxStateList = Some TasksWaitingTermination \<or> pxStateList = None)
           then eDeleted
           else eReady, s2)
      })"

section \<open>Priorities\<close>

definition uxTaskPriorityGet :: "u32 \<Rightarrow> os \<Rightarrow> (u32 \<times> os) option" where
  "uxTaskPriorityGet xTask s =
     do {
       let s1 = vPortEnterCritical s;
       tcb \<leftarrow> tcbs s1 (prvGetTCBFromHandle xTask s1);
       Some (uxPriority tcb, vPortExitCritical s1)
     }"

definition uxTaskPriorityGetFromISR :: "u32 \<Rightarrow> os \<Rightarrow> u32 option" where
  "uxTaskPriorityGetFromISR xTask s =
     do { tcb \<leftarrow> tcbs s (prvGetTCBFromHandle xTask s); Some (uxPriority tcb) }"

definition priority_set_needs_yield :: "u32 \<Rightarrow> u32 \<Rightarrow> u32 \<Rightarrow> os \<Rightarrow> bool option" where
  "priority_set_needs_yield uxNewPriority uxCurrentBasePriority t s =
     (if uxNewPriority > uxCurrentBasePriority
      then (if t \<noteq> pxCurrentTCB s
            then do { cur \<leftarrow> tcbs s (pxCurrentTCB s); Some (uxNewPriority \<ge> uxPriority cur) }
            else Some False)
      else Some (t = pxCurrentTCB s))"

definition vTaskPrioritySet :: "u32 \<Rightarrow> u32 \<Rightarrow> os \<Rightarrow> os option" where
  "vTaskPrioritySet xTask uxNew s =
     do {
       let uxNewPriority = clamp_priority uxNew;
       let s1 = vPortEnterCritical s;
       let t = prvGetTCBFromHandle xTask s1;
       tcb \<leftarrow> tcbs s1 t;
       s5 \<leftarrow>
         (if uxBasePriority tcb \<noteq> uxNewPriority
          then do {
            xYieldRequired \<leftarrow> priority_set_needs_yield uxNewPriority (uxBasePriority tcb) t s1;
            let uxPriorityUsedOnEntry = uxPriority tcb;
            s2 \<leftarrow> upd_tcb t (\<lambda>c. c\<lparr>uxPriority := (if uxBasePriority c = uxPriority c then uxNewPriority
                                                     else uxPriority c),
                                    uxBasePriority := uxNewPriority\<rparr>) s1;
            let s3 = (if event_value_free t s2
                      then os_set_value (EventListItem t) (configMAX_PRIORITIES - uxNewPriority) s2
                      else s2);
            s4 \<leftarrow> (if \<not> uxPriorityUsedOnEntry < configMAX_PRIORITIES then None
                   else if listIS_CONTAINED_WITHIN (Some (ReadyTasksList uxPriorityUsedOnEntry))
                             (StateListItem t) (klists s3)
                   then do { (_, s') \<leftarrow> os_remove (StateListItem t) s3; prvAddTaskToReadyList t s' }
                   else Some s3);
            Some (if xYieldRequired then portYIELD s4 else s4)
          }
          else Some s1);
       Some (vPortExitCritical s5)
     }"

section \<open>Suspending and resuming tasks\<close>

definition vTaskSuspend :: "os_config \<Rightarrow> u32 \<Rightarrow> os \<Rightarrow> os option" where
  "vTaskSuspend cfg xTaskToSuspend s =
     do {
       let s1 = vPortEnterCritical s;
       let t = prvGetTCBFromHandle xTaskToSuspend s1;
       _ \<leftarrow> tcbs s1 t;
       (_, s2) \<leftarrow> os_remove (StateListItem t) s1;
       s3 \<leftarrow> remove_event_item t s2;
       let s4 = os_insert_end SuspendedTaskList (StateListItem t) s3;
       s5 \<leftarrow> (if configUSE_TASK_NOTIFICATIONS cfg
              then upd_tcb t (\<lambda>c. c\<lparr>ucNotifyState := (if ucNotifyState c = taskWAITING_NOTIFICATION
                                then taskNOT_WAITING_NOTIFICATION else ucNotifyState c)\<rparr>) s4
              else Some s4);
       let s6 = vPortExitCritical s5;
       s7 \<leftarrow> (if xSchedulerRunning s6
              then do { s' \<leftarrow> prvResetNextTaskUnblockTime (vPortEnterCritical s6);
                        Some (vPortExitCritical s') }
              else Some s6);
       (if t = pxCurrentTCB s7
        then (if xSchedulerRunning s7 then Some (portYIELD s7)
              else if listCURRENT_LIST_LENGTH SuspendedTaskList (klists s7) = uxCurrentNumberOfTasks s7
              then Some (s7\<lparr>pxCurrentTCB := 0\<rparr>)
              else vTaskSwitchContext s7)
        else Some s7)
     }"

definition prvTaskIsTaskSuspended :: "u32 \<Rightarrow> os \<Rightarrow> bool" where
  "prvTaskIsTaskSuspended t s \<longleftrightarrow>
     listIS_CONTAINED_WITHIN (Some SuspendedTaskList) (StateListItem t) (klists s)
     \<and> \<not> listIS_CONTAINED_WITHIN (Some PendingReadyList) (EventListItem t) (klists s)
     \<and> listIS_CONTAINED_WITHIN None (EventListItem t) (klists s)"

definition vTaskResume :: "u32 \<Rightarrow> os \<Rightarrow> os option" where
  "vTaskResume t s =
     (if t \<noteq> pxCurrentTCB s \<and> t \<noteq> 0
      then do {
        let s1 = vPortEnterCritical s;
        tcb \<leftarrow> tcbs s1 t;
        s2 \<leftarrow> (if prvTaskIsTaskSuspended t s1
               then do {
                 (_, s') \<leftarrow> os_remove (StateListItem t) s1;
                 s'' \<leftarrow> prvAddTaskToReadyList t s';
                 cur \<leftarrow> tcbs s'' (pxCurrentTCB s'');
                 Some (if uxPriority tcb \<ge> uxPriority cur then portYIELD s'' else s'')
               }
               else Some s1);
        Some (vPortExitCritical s2)
      }
      else Some s)"

definition xTaskResumeFromISR :: "u32 \<Rightarrow> os \<Rightarrow> (bool \<times> os) option" where
  "xTaskResumeFromISR t s =
     do {
       tcb \<leftarrow> tcbs s t;
       (if prvTaskIsTaskSuspended t s
        then (if uxSchedulerSuspended s = 0
              then do {
                cur \<leftarrow> tcbs s (pxCurrentTCB s);
                (_, s1) \<leftarrow> os_remove (StateListItem t) s;
                s2 \<leftarrow> prvAddTaskToReadyList t s1;
                Some (uxPriority tcb \<ge> uxPriority cur, s2)
              }
              else Some (False, os_insert_end PendingReadyList (EventListItem t) s))
        else Some (False, s))
     }"

definition xTaskAbortDelay :: "os_config \<Rightarrow> u32 \<Rightarrow> os \<Rightarrow> (bool \<times> os) option" where
  "xTaskAbortDelay cfg t s =
     do {
       let s1 = vTaskSuspendAll s;
       (st, s2) \<leftarrow> eTaskGetState cfg t s1;
       (xReturn, s6) \<leftarrow>
         (if st = eBlocked
          then do {
            (_, s3) \<leftarrow> os_remove (StateListItem t) s2;
            let s3' = vPortEnterCritical s3;
            s4 \<leftarrow> (if listLIST_ITEM_CONTAINER (EventListItem t) (klists s3') \<noteq> None
                   then do { (_, s') \<leftarrow> os_remove (EventListItem t) s3';
                             upd_tcb t (\<lambda>c. c\<lparr>ucDelayAborted := True\<rparr>) s' }
                   else Some s3');
            let s4' = vPortExitCritical s4;
            s5 \<leftarrow> prvAddTaskToReadyList t s4';
            tcb \<leftarrow> tcbs s5 t;
            cur \<leftarrow> tcbs s5 (pxCurrentTCB s5);
            Some (True, if uxPriority tcb > uxPriority cur then s5\<lparr>xYieldPending := True\<rparr> else s5)
          }
          else Some (False, s2));
       (_, s7) \<leftarrow> xTaskResumeAll cfg s6;
       Some (xReturn, s7)
     }"

section \<open>Task names\<close>

definition pcTaskGetName :: "u32 \<Rightarrow> os \<Rightarrow> (u8 list) option" where
  "pcTaskGetName xTaskToQuery s = map_option pcTaskName (tcbs s (prvGetTCBFromHandle xTaskToQuery s))"

text \<open>The comparison loop from index \<open>x\<close> on; a name that fills the buffer is no match.\<close>

function name_matches_from :: "(u32 \<Rightarrow> u8) \<Rightarrow> u32 \<Rightarrow> nat \<Rightarrow> u8 list \<Rightarrow> bool" where
  "name_matches_from m pcNameToQuery x name =
     (if x < configMAX_TASK_NAME_LEN
      then (let cNextChar = name ! x in
            if cNextChar \<noteq> m (pcNameToQuery + of_nat x) then False
            else if cNextChar = 0 then True
            else name_matches_from m pcNameToQuery (Suc x) name)
      else False)"
  by pat_completeness auto
termination by (relation "measure (\<lambda>(m, q, x, name). configMAX_TASK_NAME_LEN - x)") auto

declare name_matches_from.simps [simp del]

partial_function (option) search_list_loop :: "list_ref \<Rightarrow> u32 \<Rightarrow> u32 \<Rightarrow> os \<Rightarrow> (u32 \<times> os) option" where
  "search_list_loop l pcNameToQuery pxFirstTCB s =
     do {
       (pxNextTCB, h) \<leftarrow> listGET_OWNER_OF_NEXT_ENTRY l (klists s);
       let s1 = s\<lparr>klists := h\<rparr>;
       tcb \<leftarrow> tcbs s1 pxNextTCB;
       (if name_matches_from (mem s1) pcNameToQuery 0 (pcTaskName tcb) then Some (pxNextTCB, s1)
        else if pxNextTCB \<noteq> pxFirstTCB then search_list_loop l pcNameToQuery pxFirstTCB s1
        else Some (0, s1))
     }"

definition prvSearchForNameWithinSingleList :: "list_ref \<Rightarrow> u32 \<Rightarrow> os \<Rightarrow> (u32 \<times> os) option" where
  "prvSearchForNameWithinSingleList l pcNameToQuery s =
     (if listCURRENT_LIST_LENGTH l (klists s) > 0
      then do {
        (pxFirstTCB, h) \<leftarrow> listGET_OWNER_OF_NEXT_ENTRY l (klists s);
        search_list_loop l pcNameToQuery pxFirstTCB (s\<lparr>klists := h\<rparr>)
      }
      else Some (0, s))"

text \<open>Searching several lists one after another, until one of them has the name.\<close>

fun search_lists :: "list_ref list \<Rightarrow> u32 \<Rightarrow> os \<Rightarrow> (u32 \<times> os) option" where
  "search_lists [] pcNameToQuery s = Some (0, s)"
| "search_lists (l # ls) pcNameToQuery s =
     do {
       (t, s1) \<leftarrow> prvSearchForNameWithinSingleList l pcNameToQuery s;
       (if t \<noteq> 0 then Some (t, s1) else search_lists ls pcNameToQuery s1)
     }"

definition xTaskGetHandle :: "os_config \<Rightarrow> u32 \<Rightarrow> os \<Rightarrow> (u32 \<times> os) option" where
  "xTaskGetHandle cfg pcNameToQuery s =
     do {
       let s1 = vTaskSuspendAll s;
       dl \<leftarrow> pxDelayedTaskList s1;
       ol \<leftarrow> pxOverflowDelayedTaskList s1;
       (t, s2) \<leftarrow> search_lists
          (map (\<lambda>p. ReadyTasksList (of_nat p)) (rev [0 ..< unat configMAX_PRIORITIES]) @ [dl, ol]
             @ (if INCLUDE_vTaskSuspend cfg then [SuspendedTaskList] else [])
             @ (if INCLUDE_vTaskDelete cfg then [TasksWaitingTermination] else []))
          pcNameToQuery s1;
       (_, s3) \<leftarrow> xTaskResumeAll cfg s2;
       Some (t, s3)
     }"

definition xTaskGetIdleTaskHandle :: "os \<Rightarrow> u32" where
  "xTaskGetIdleTaskHandle s = xIdleTaskHandle s"

section \<open>Stack high-water mark\<close>

partial_function (option) count_fill_bytes :: "(u32 \<Rightarrow> u8) \<Rightarrow> u32 \<Rightarrow> u32 \<Rightarrow> u32 option" where
  "count_fill_bytes m pucStackByte ulCount =
     (if m pucStackByte = tskSTACK_FILL_BYTE
      then count_fill_bytes m (pucStackByte + 1) (ulCount + 1) else Some ulCount)"

definition prvTaskCheckFreeStackSpace :: "(u32 \<Rightarrow> u8) \<Rightarrow> u32 \<Rightarrow> u16 option" where
  "prvTaskCheckFreeStackSpace m pucStackByte =
     do { ulCount \<leftarrow> count_fill_bytes m pucStackByte 0; Some (ucast (ulCount div sizeof_StackType)) }"

definition uxTaskGetStackHighWaterMark2 :: "u32 \<Rightarrow> os \<Rightarrow> u16 option" where
  "uxTaskGetStackHighWaterMark2 xTask s =
     do { tcb \<leftarrow> tcbs s (prvGetTCBFromHandle xTask s);
          prvTaskCheckFreeStackSpace (mem s) (pxStack tcb) }"

definition uxTaskGetStackHighWaterMark :: "u32 \<Rightarrow> os \<Rightarrow> u32 option" where
  "uxTaskGetStackHighWaterMark xTask s =
     do { tcb \<leftarrow> tcbs s (prvGetTCBFromHandle xTask s);
          n \<leftarrow> prvTaskCheckFreeStackSpace (mem s) (pxStack tcb);
          Some (ucast n) }"

section \<open>Notifications\<close>

datatype eNotifyAction =
  eNoAction | eSetBits | eIncrement | eSetValueWithOverwrite | eSetValueWithoutOverwrite

text \<open>The switch over the action: the new value, and whether the call succeeds.\<close>

fun notify_value :: "eNotifyAction \<Rightarrow> u8 \<Rightarrow> u32 \<Rightarrow> u32 \<Rightarrow> u32 \<times> bool" where
  "notify_value eSetBits st old v = (old OR v, True)"
| "notify_value eIncrement st old v = (old + 1, True)"
| "notify_value eSetValueWithOverwrite st old v = (v, True)"
| "notify_value eSetValueWithoutOverwrite st old v =
     (if st \<noteq> taskNOTIFICATION_RECEIVED then (v, True) else (old, False))"
| "notify_value eNoAction st old v = (old, True)"

text \<open>Returns the result, the previous value (written when the caller gave a pointer) and the state.\<close>

definition xTaskGenericNotify :: "os_config \<Rightarrow> u32 \<Rightarrow> u32 \<Rightarrow> eNotifyAction \<Rightarrow> os
    \<Rightarrow> (bool \<times> u32 \<times> os) option" where
  "xTaskGenericNotify cfg t ulValue eAction s =
     do {
       let s1 = vPortEnterCritical s;
       tcb \<leftarrow> tcbs s1 t;
       let ucOriginalNotifyState = ucNotifyState tcb;
       let (v, xReturn) = notify_value eAction ucOriginalNotifyState (ulNotifiedValue tcb) ulValue;
       s2 \<leftarrow> upd_tcb t (\<lambda>c. c\<lparr>ucNotifyState := taskNOTIFICATION_RECEIVED, ulNotifiedValue := v\<rparr>) s1;
       s3 \<leftarrow> (if ucOriginalNotifyState = taskWAITING_NOTIFICATION
              then do {
                (_, s') \<leftarrow> os_remove (StateListItem t) s2;
                s'' \<leftarrow> prvAddTaskToReadyList t s';
                s3' \<leftarrow> (if configUSE_TICKLESS_IDLE cfg then prvResetNextTaskUnblockTime s'' else Some s'');
                cur \<leftarrow> tcbs s3' (pxCurrentTCB s3');
                Some (if uxPriority tcb > uxPriority cur then portYIELD s3' else s3')
              }
              else Some s2);
       Some (xReturn, ulNotifiedValue tcb, vPortExitCritical s3)
     }"

text \<open>What both interrupt versions do once the notification is stored: wake the task.\<close>

definition notify_wake_from_isr :: "u32 \<Rightarrow> u8 \<Rightarrow> os \<Rightarrow> (bool \<times> os) option" where
  "notify_wake_from_isr t ucOriginalNotifyState s =
     (if ucOriginalNotifyState = taskWAITING_NOTIFICATION
      then do {
        s1 \<leftarrow> (if uxSchedulerSuspended s = 0
               then do { (_, s') \<leftarrow> os_remove (StateListItem t) s; prvAddTaskToReadyList t s' }
               else Some (os_insert_end PendingReadyList (EventListItem t) s));
        tcb \<leftarrow> tcbs s1 t;
        cur \<leftarrow> tcbs s1 (pxCurrentTCB s1);
        Some (if uxPriority tcb > uxPriority cur then (True, s1\<lparr>xYieldPending := True\<rparr>) else (False, s1))
      }
      else Some (False, s))"

text \<open>Result, previous value, whether a higher priority task was woken, state.\<close>

definition xTaskGenericNotifyFromISR :: "u32 \<Rightarrow> u32 \<Rightarrow> eNotifyAction \<Rightarrow> os
    \<Rightarrow> (bool \<times> u32 \<times> bool \<times> os) option" where
  "xTaskGenericNotifyFromISR t ulValue eAction s =
     do {
       tcb \<leftarrow> tcbs s t;
       let (v, xReturn) = notify_value eAction (ucNotifyState tcb) (ulNotifiedValue tcb) ulValue;
       s1 \<leftarrow> upd_tcb t (\<lambda>c. c\<lparr>ucNotifyState := taskNOTIFICATION_RECEIVED, ulNotifiedValue := v\<rparr>) s;
       (woken, s2) \<leftarrow> notify_wake_from_isr t (ucNotifyState tcb) s1;
       Some (xReturn, ulNotifiedValue tcb, woken, s2)
     }"

definition vTaskNotifyGiveFromISR :: "u32 \<Rightarrow> os \<Rightarrow> (bool \<times> os) option" where
  "vTaskNotifyGiveFromISR t s =
     do {
       tcb \<leftarrow> tcbs s t;
       s1 \<leftarrow> upd_tcb t (\<lambda>c. c\<lparr>ucNotifyState := taskNOTIFICATION_RECEIVED,
                               ulNotifiedValue := ulNotifiedValue c + 1\<rparr>) s;
       notify_wake_from_isr t (ucNotifyState tcb) s1
     }"

definition ulTaskNotifyTake :: "os_config \<Rightarrow> (os \<Rightarrow> os option) \<Rightarrow> bool \<Rightarrow> u32 \<Rightarrow> os \<Rightarrow> (u32 \<times> os) option" where
  "ulTaskNotifyTake cfg others xClearCountOnExit xTicksToWait s =
     do {
       let s1 = vPortEnterCritical s;
       cur \<leftarrow> tcbs s1 (pxCurrentTCB s1);
       s2 \<leftarrow> (if ulNotifiedValue cur = 0
              then do {
                s' \<leftarrow> upd_tcb (pxCurrentTCB s1) (\<lambda>c. c\<lparr>ucNotifyState := taskWAITING_NOTIFICATION\<rparr>) s1;
                (if xTicksToWait > 0
                 then do { s'' \<leftarrow> prvAddCurrentTaskToDelayedList cfg xTicksToWait True s';
                           others (vPortExitCritical (portYIELD s'')) }
                 else Some (vPortExitCritical s'))
              }
              else Some (vPortExitCritical s1));
       let s3 = vPortEnterCritical s2;
       me \<leftarrow> tcbs s3 (pxCurrentTCB s3);
       let ulReturn = ulNotifiedValue me;
       s4 \<leftarrow> upd_tcb (pxCurrentTCB s3)
               (\<lambda>c. c\<lparr>ulNotifiedValue := (if ulReturn \<noteq> 0
                         then (if xClearCountOnExit then 0 else ulReturn - 1) else ulNotifiedValue c),
                      ucNotifyState := taskNOT_WAITING_NOTIFICATION\<rparr>) s3;
       Some (ulReturn, vPortExitCritical s4)
     }"

text \<open>Returns whether a notification came, the notification value and the state.\<close>

definition xTaskNotifyWait :: "os_config \<Rightarrow> (os \<Rightarrow> os option) \<Rightarrow> u32 \<Rightarrow> u32 \<Rightarrow> u32 \<Rightarrow> os
    \<Rightarrow> (bool \<times> u32 \<times> os) option" where
  "xTaskNotifyWait cfg others ulBitsToClearOnEntry ulBitsToClearOnExit xTicksToWait s =
     do {
       let s1 = vPortEnterCritical s;
       cur \<leftarrow> tcbs s1 (pxCurrentTCB s1);
       s2 \<leftarrow> (if ucNotifyState cur \<noteq> taskNOTIFICATION_RECEIVED
              then do {
                s' \<leftarrow> upd_tcb (pxCurrentTCB s1)
                        (\<lambda>c. c\<lparr>ulNotifiedValue := ulNotifiedValue c AND NOT ulBitsToClearOnEntry,
                               ucNotifyState := taskWAITING_NOTIFICATION\<rparr>) s1;
                (if xTicksToWait > 0
                 then do { s'' \<leftarrow> prvAddCurrentTaskToDelayedList cfg xTicksToWait True s';
                           others (vPortExitCritical (portYIELD s'')) }
                 else Some (vPortExitCritical s'))
              }
              else Some (vPortExitCritical s1));
       let s3 = vPortEnterCritical s2;
       me \<leftarrow> tcbs s3 (pxCurrentTCB s3);
       let xReturn = (ucNotifyState me = taskNOTIFICATION_RECEIVED);
       s4 \<leftarrow> upd_tcb (pxCurrentTCB s3)
               (\<lambda>c. c\<lparr>ulNotifiedValue := (if xReturn then ulNotifiedValue c AND NOT ulBitsToClearOnExit
                                           else ulNotifiedValue c),
                      ucNotifyState := taskNOT_WAITING_NOTIFICATION\<rparr>) s3;
       Some (xReturn, ulNotifiedValue me, vPortExitCritical s4)
     }"

definition xTaskNotifyStateClear :: "u32 \<Rightarrow> os \<Rightarrow> (bool \<times> os) option" where
  "xTaskNotifyStateClear xTask s =
     do {
       let t = prvGetTCBFromHandle xTask s;
       let s1 = vPortEnterCritical s;
       tcb \<leftarrow> tcbs s1 t;
       (r, s2) \<leftarrow> (if ucNotifyState tcb = taskNOTIFICATION_RECEIVED
                   then do { s' \<leftarrow> upd_tcb t (\<lambda>c. c\<lparr>ucNotifyState := taskNOT_WAITING_NOTIFICATION\<rparr>) s1;
                             Some (True, s') }
                   else Some (False, s1));
       Some (r, vPortExitCritical s2)
     }"

section \<open>Tickless idle\<close>

definition prvGetExpectedIdleTime :: "os \<Rightarrow> u32 option" where
  "prvGetExpectedIdleTime s =
     do {
       let uxHigherPriorityReadyTasks = (uxTopReadyPriority s > tskIDLE_PRIORITY);
       cur \<leftarrow> tcbs s (pxCurrentTCB s);
       Some (if uxPriority cur > tskIDLE_PRIORITY then 0
             else if listCURRENT_LIST_LENGTH (ReadyTasksList tskIDLE_PRIORITY) (klists s) > 1 then 0
             else if uxHigherPriorityReadyTasks then 0
             else xNextTaskUnblockTime s - xTickCount s)
     }"

definition vTaskStepTick :: "u32 \<Rightarrow> os \<Rightarrow> os" where
  "vTaskStepTick xTicksToJump s = s\<lparr>xTickCount := xTickCount s + xTicksToJump\<rparr>"

datatype eSleepModeStatus = eAbortSleep | eStandardSleep | eNoTasksWaitingTimeout

definition eTaskConfirmSleepModeStatus :: "os \<Rightarrow> eSleepModeStatus" where
  "eTaskConfirmSleepModeStatus s =
     (if listCURRENT_LIST_LENGTH PendingReadyList (klists s) \<noteq> 0 then eAbortSleep
      else if xYieldPending s then eAbortSleep
      else if listCURRENT_LIST_LENGTH SuspendedTaskList (klists s) = uxCurrentNumberOfTasks s - 1
      then eNoTasksWaitingTimeout else eStandardSleep)"

section \<open>Ticks and software interrupts: port.c\<close>

definition xPortSysTickHandle :: "os_config \<Rightarrow> os \<Rightarrow> os option" where
  "xPortSysTickHandle cfg s =
     do { (sw, s1) \<leftarrow> xTaskIncrementTick cfg s; (if sw then vTaskSwitchContext s1 else Some s1) }"

text \<open>
  The handler of the software interrupt. \<open>MacIsrSigPostDefHdl\<close> is in the vendor's library; it
  returns whether a task of higher priority was woken.
\<close>

definition SV_ISR :: "(os \<Rightarrow> bool \<times> os) \<Rightarrow> os \<Rightarrow> os option" where
  "SV_ISR MacIsrSigPostDefHdl s =
     (let (woken, s1) = (if PENDING_MACLAYER_SV s
                         then (let (w, s') = MacIsrSigPostDefHdl s in (w, s'\<lparr>PENDING_MACLAYER_SV := False\<rparr>))
                         else (False, s))
      in if woken \<or> PENDING_SOFT_SV s1
         then do { s2 \<leftarrow> vTaskSwitchContext s1; Some (s2\<lparr>PENDING_SOFT_SV := False\<rparr>) }
         else Some s1)"

end
