(* ===== verification/Os_Task_Ticks.thy ===== *)
theory Os_Task_Ticks
  imports Os_Task_Time
begin

text \<open>
  Runs of ticks: what any number of ticks does to a running scheduler and to a suspended one, and
  the two blocking delays seen over the ticks that follow them.
\<close>

fun ticks :: "os_config \<Rightarrow> nat \<Rightarrow> os \<Rightarrow> os option" where
  "ticks cfg 0 s = Some s"
| "ticks cfg (Suc n) s = do { (_, s1) \<leftarrow> xTaskIncrementTick cfg s; ticks cfg n s1 }"

text \<open>The tick count and the overflow count together are the time since the start.\<close>

definition at_time :: "os \<Rightarrow> nat \<Rightarrow> bool" where
  "at_time s T \<longleftrightarrow> xTickCount s = of_nat T \<and> xNumOfOverflows s = of_nat (T div 2 ^ 32)"

lemma of_nat_u32_eq: "(of_nat a :: u32) = of_nat b \<longleftrightarrow> a mod 2 ^ 32 = b mod 2 ^ 32"
  by (simp add: word_of_nat_eq_iff take_bit_eq_mod)

lemma at_some_time: "at_time s (unat (xNumOfOverflows s) * 2 ^ 32 + unat (xTickCount s))"
proof -
  have "unat (xTickCount s) < 2 ^ 32" by (rule order_less_le_trans[OF unsigned_less]) simp
  then have "(unat (xNumOfOverflows s) * 2 ^ 32 + unat (xTickCount s)) div 2 ^ 32 = unat (xNumOfOverflows s)"
    by simp
  moreover have "(of_nat (unat (xNumOfOverflows s) * 2 ^ 32 + unat (xTickCount s)) :: u32) = xTickCount s"
  proof -
    have z: "(of_nat (2 ^ 32) :: u32) = 0" by (subst of_nat_u32_eq[of _ 0, simplified]) simp
    have "(of_nat (unat (xNumOfOverflows s) * 2 ^ 32 + unat (xTickCount s)) :: u32)
        = of_nat (unat (xNumOfOverflows s)) * of_nat (2 ^ 32) + of_nat (unat (xTickCount s))"
      by (simp only: of_nat_add of_nat_mult)
    then show ?thesis unfolding z by simp
  qed
  ultimately show ?thesis by (simp add: at_time_def)
qed

lemma at_time_tick:
  assumes "at_time s T" and "xTickCount s' = xTickCount s + 1"
    and "xNumOfOverflows s' = (if xTickCount s + 1 = 0 then xNumOfOverflows s + 1 else xNumOfOverflows s)"
  shows "at_time s' (Suc T)"
proof -
  have e: "xTickCount s + 1 = of_nat (Suc T)" using assms(1) by (simp add: at_time_def)
  have "xTickCount s + 1 = 0 \<longleftrightarrow> Suc T mod 2 ^ 32 = 0"
    unfolding e using of_nat_u32_eq[of "Suc T" 0, unfolded mod_0] by simp
  moreover have "Suc T div 2 ^ 32 = (if Suc T mod 2 ^ 32 = 0 then Suc (T div 2 ^ 32) else T div 2 ^ 32)"
    by (rule div_Suc)
  ultimately show ?thesis using assms by (simp add: at_time_def)
qed

lemma running_ticks:
  assumes "kernel_inv cfg s" and "uxSchedulerSuspended s = 0"
  shows "\<exists>s'. ticks cfg n s = Some s' \<and> kernel_inv cfg s' \<and> same_tasks s s'
     \<and> woken {t. delayed s t \<and> ticks_left s t \<le> n} s (klists s')
     \<and> xTickCount s' = xTickCount s + of_nat n \<and> uxSchedulerSuspended s' = 0
     \<and> (\<forall>T. at_time s T \<longrightarrow> at_time s' (T + n))"
  using assms
proof (induction n arbitrary: s)
  case 0
  have e: "{t. delayed s t \<and> ticks_left s t \<le> 0} = {}" using ticks_left_pos[OF 0(1)] by auto
  show ?case unfolding e using 0 by (simp add: woken_none same_tasks_def)
next
  case (Suc n)
  obtain sw s1 where t: "xTaskIncrementTick cfg s = Some (sw, s1)" and k1: "kernel_inv cfg s1"
    and f: "xTickCount s1 = xTickCount s + 1" "tcbs s1 = tcbs s" "pxCurrentTCB s1 = pxCurrentTCB s"
      "woken (waking s) s (klists s1)" "queues s1 = queues s" "mem s1 = mem s" "uxSchedulerSuspended s1 = 0"
      "xNumOfOverflows s1 = (if xTickCount s + 1 = 0 then xNumOfOverflows s + 1 else xNumOfOverflows s)"
    by (rule increment_tick_running[OF Suc.prems]) blast
  have st: "same_tasks s s1" using f by (simp add: same_tasks_def)
  obtain s' where l: "ticks cfg n s1 = Some s'" and k': "kernel_inv cfg s'" and st': "same_tasks s1 s'"
    and w': "woken {t. delayed s1 t \<and> ticks_left s1 t \<le> n} s1 (klists s')"
    and f': "xTickCount s' = xTickCount s1 + of_nat n" "uxSchedulerSuspended s' = 0"
      "\<forall>T. at_time s1 T \<longrightarrow> at_time s' (T + n)"
    using Suc.IH[OF k1 f(7)] by blast
  have "woken {t. delayed s t \<and> ticks_left s t \<le> Suc n} s (klists s')"
    unfolding ticks_left_step[OF f(4) st f(1) Suc.prems(1)]
    by (rule woken_trans[OF f(4) w' refl same_tasksD(6)[OF st]])
  moreover have "same_tasks s s'" using st st' by (simp add: same_tasks_def)
  moreover have "at_time s' (T + Suc n)" if "at_time s T" for T
    using f'(3) at_time_tick[OF that f(1,8)] by (metis add_Suc add_Suc_right)
  ultimately show ?case using k' f'(1,2) t l f(1) by (simp add: algebra_simps)
qed

lemma suspended_ticks:
  "uxSchedulerSuspended s \<noteq> 0 \<Longrightarrow> ticks cfg n s = Some (s\<lparr>uxPendedTicks := uxPendedTicks s + of_nat n\<rparr>)"
  by (induction n arbitrary: s) (simp_all add: increment_tick_suspended algebra_simps)

text \<open>A task that has \<open>n\<close> ticks left is delayed for \<open>n - 1\<close> more ticks and ready at the \<open>n\<close>th.\<close>

lemma wakes_on_time:
  assumes k: "kernel_inv cfg s" and u: "uxSchedulerSuspended s = 0" and d: "delayed s t"
  obtains s' where "ticks cfg j s = Some s'" and "kernel_inv cfg s'"
    and "xTickCount s' = xTickCount s + of_nat j"
    and "j < ticks_left s t \<Longrightarrow> delayed s' t"
    and "ticks_left s t \<le> j \<Longrightarrow> home s' (StateListItem t) = Some (ReadyTasksList (priority_of s t))"
proof -
  obtain s' where s': "ticks cfg j s = Some s'" "kernel_inv cfg s'" "same_tasks s s'"
    "woken {t. delayed s t \<and> ticks_left s t \<le> j} s (klists s')" "xTickCount s' = xTickCount s + of_nat j"
    using running_ticks[OF k u] by blast
  show ?thesis
    by (rule that[OF s'(1,2,5)])
      (use d wokenD(1)[OF s'(4)] same_tasksD(5)[OF s'(3)] in \<open>auto simp: delayed_def\<close>)
qed

section \<open>Suspending the scheduler loses no tick\<close>

lemma resume_after_ticks:
  assumes k: "kernel_inv cfg s" and u: "unsuspended s" and n: "n < 2 ^ 32"
  obtains y b where "do { s1 \<leftarrow> ticks cfg n (vTaskSuspendAll s); xTaskResumeAll cfg s1 } = Some (y, b)"
    and "kernel_inv cfg b" and "same_tasks s b"
    and "woken {t. delayed s t \<and> ticks_left s t \<le> n} s (klists b)"
    and "xTickCount b = xTickCount s + of_nat n" and "uxSchedulerSuspended b = 0" and "uxPendedTicks b = 0"
proof -
  let ?v = "vTaskSuspendAll s" and ?w = "(vTaskSuspendAll s)\<lparr>uxPendedTicks := of_nat n\<rparr>"
  note f = suspend_all_frame
  have s0: "uxSchedulerSuspended ?v = 1" "uxPendedTicks ?v = 0"
    using u f(2,7)[of s] by (simp_all add: unsuspended_def)
  have t: "ticks cfg n ?v = Some ?w" using s0 by (simp add: suspended_ticks)
  have kw: "kernel_inv cfg ?w" by (rule inv_cong[OF f(1)[OF k]]) simp_all
  have "uxSchedulerSuspended ?w = 1" "uxCurrentNumberOfTasks ?w > 0"
    using s0 u f(8)[of s] by (simp_all add: unsuspended_def)
  then obtain y b where r: "xTaskResumeAll cfg ?w = Some (y, b)" "kernel_inv cfg b" "same_tasks ?w b"
    "woken (resume_woken ?w) ?w (klists b)" "xTickCount b = xTickCount ?w + uxPendedTicks ?w"
    "uxSchedulerSuspended b = 0" "uxPendedTicks b = 0"
    using resume_all_spec[OF kw] by blast
  have "pending ?w = {}" using u f(4,10)[of s] by (simp add: unsuspended_def pending_def)
  moreover have "delayed ?w = delayed s" "ticks_left ?w = ticks_left s"
    using f(4,6,10)[of s] by (simp_all add: delayed_def ticks_left_def fun_eq_iff)
  moreover have "unat (of_nat n :: u32) = n" using n by (simp add: unat_of_nat32)
  ultimately have W: "resume_woken ?w = {t. delayed s t \<and> ticks_left s t \<le> n}"
    by (simp add: resume_woken_def)
  show ?thesis
  proof (rule that[of y b])
    show "do { s1 \<leftarrow> ticks cfg n ?v; xTaskResumeAll cfg s1 } = Some (y, b)" using t r(1) by simp
    show "same_tasks s b" using f(3)[of s] r(3) by (simp add: same_tasks_def)
    show "woken {t. delayed s t \<and> ticks_left s t \<le> n} s (klists b)"
      using r(4) f(4,11)[of s] unfolding W by (simp add: woken_def)
    show "xTickCount b = xTickCount s + of_nat n" using r(5) f(6)[of s] by simp
  qed (use r in simp_all)
qed


section \<open>The blocking delays\<close>

lemma yield_inv: "kernel_inv cfg s \<Longrightarrow> kernel_inv cfg (portYIELD s)"
  by (rule inv_cong) simp_all

lemma yield_views [simp]:
  "delayed (s\<lparr>PENDING_SOFT_SV := b, soft_interrupt := c\<rparr>) = delayed s"
  "ticks_left (s\<lparr>PENDING_SOFT_SV := b, soft_interrupt := c\<rparr>) = ticks_left s"
  "unsuspended (s\<lparr>PENDING_SOFT_SV := b, soft_interrupt := c\<rparr>) \<longleftrightarrow> unsuspended s"
  by (simp_all add: delayed_def ticks_left_def unsuspended_def pending_def is_task_def fun_eq_iff)

lemma delay_spec:
  assumes k: "kernel_inv cfg s" and u: "unsuspended s" and n: "n \<noteq> 0"
  obtains s' where "vTaskDelay cfg n s = Some s'" and "kernel_inv cfg s'" and "unsuspended s'"
    and "delayed s' (pxCurrentTCB s)" and "ticks_left s' (pxCurrentTCB s) = unat n"
    and "\<And>t. t \<noteq> pxCurrentTCB s \<Longrightarrow> home s' (StateListItem t) = home s (StateListItem t)"
    and "pxCurrentTCB s' = pxCurrentTCB s" and "xTickCount s' = xTickCount s"
    and "uxCriticalNesting s' = uxCriticalNesting s" and "PENDING_SOFT_SV s'"
    and "\<forall>t. home s' (EventListItem t) = home s (EventListItem t)"
    and "is_task s' = is_task s \<and> queues s' = queues s"
proof -
  have "\<not> waits_forever cfg n False" by (simp add: waits_forever_def)
  then obtain s1 y s2 where a: "prvAddCurrentTaskToDelayedList cfg n False (vTaskSuspendAll s) = Some s1"
      "xTaskResumeAll cfg s1 = Some (y, s2)" "kernel_inv cfg s2" "delayed s2 (pxCurrentTCB s)"
      "ticks_left s2 (pxCurrentTCB s) = unat n"
      "\<forall>t. t \<noteq> pxCurrentTCB s \<longrightarrow> home s2 (StateListItem t) = home s (StateListItem t)"
      "unsuspended s2" "pxCurrentTCB s2 = pxCurrentTCB s" "xTickCount s2 = xTickCount s"
      "uxCriticalNesting s2 = uxCriticalNesting s" "y \<longrightarrow> PENDING_SOFT_SV s2 \<and> soft_interrupt s2"
      "\<forall>t. home s2 (EventListItem t) = home s (EventListItem t)" "is_task s2 = is_task s \<and> queues s2 = queues s"
    using delay_and_resume[OF k u n] by metis
  have "n > 0" using n by (simp add: word_gt_0)
  then have v: "vTaskDelay cfg n s = Some (if y then s2 else portYIELD s2)"
    using a(1,2) by (simp add: vTaskDelay_def)
  show ?thesis
  proof (rule that[OF v])
    show "kernel_inv cfg (if y then s2 else portYIELD s2)" using a(3) yield_inv by simp
  qed (use a in \<open>auto\<close>)
qed

lemma delay_until_spec:
  assumes k: "kernel_inv cfg s" and u: "unsuspended s"
  obtains s' where "vTaskDelayUntil cfg p i s = Some (p + i, s')" and "kernel_inv cfg s'" and "unsuspended s'"
    and "xTickCount s - p < i \<Longrightarrow> delayed s' (pxCurrentTCB s)
       \<and> ticks_left s' (pxCurrentTCB s) = unat (p + i - xTickCount s)"
    and "\<not> xTickCount s - p < i \<Longrightarrow> home s' (StateListItem (pxCurrentTCB s)) = home s (StateListItem (pxCurrentTCB s))"
    and "\<And>t. t \<noteq> pxCurrentTCB s \<Longrightarrow> home s' (StateListItem t) = home s (StateListItem t)"
    and "xTickCount s' = xTickCount s" and "pxCurrentTCB s' = pxCurrentTCB s"
    and "\<forall>t. home s' (EventListItem t) = home s (EventListItem t)"
    and "is_task s' = is_task s \<and> queues s' = queues s"
proof (cases "xTickCount s - p < i")
  case True
  let ?n = "p + i - xTickCount s"
  have "?n \<noteq> 0" using True by (metis add_diff_cancel_left' eq_iff_diff_eq_0 less_irrefl)
  moreover have "\<not> waits_forever cfg ?n False" by (simp add: waits_forever_def)
  ultimately obtain s1 y s2 where a: "prvAddCurrentTaskToDelayedList cfg ?n False (vTaskSuspendAll s) = Some s1"
      "xTaskResumeAll cfg s1 = Some (y, s2)" "kernel_inv cfg s2" "delayed s2 (pxCurrentTCB s)"
      "ticks_left s2 (pxCurrentTCB s) = unat ?n"
      "\<forall>t. t \<noteq> pxCurrentTCB s \<longrightarrow> home s2 (StateListItem t) = home s (StateListItem t)"
      "unsuspended s2" "xTickCount s2 = xTickCount s" "pxCurrentTCB s2 = pxCurrentTCB s"
      "\<forall>t. home s2 (EventListItem t) = home s (EventListItem t)" "is_task s2 = is_task s \<and> queues s2 = queues s"
    using delay_and_resume[OF k u] by metis
  have v: "vTaskDelayUntil cfg p i s = Some (p + i, if y then s2 else portYIELD s2)"
    using a(1,2) True by (simp add: vTaskDelayUntil_def Let_def suspend_all_frame should_delay_iff)
  show ?thesis
  proof (rule that[OF v])
    show "kernel_inv cfg (if y then s2 else portYIELD s2)" using a(3) yield_inv by simp
  qed (use a True in auto)
next
  case False
  note f = suspend_all_frame
  have s1: "uxSchedulerSuspended (vTaskSuspendAll s) = 1" "uxCurrentNumberOfTasks (vTaskSuspendAll s) > 0"
    "pending (vTaskSuspendAll s) = {}" "uxPendedTicks (vTaskSuspendAll s) = 0"
    using u by (simp_all add: f unsuspended_def)
  obtain y s2 where r: "xTaskResumeAll cfg (vTaskSuspendAll s) = Some (y, s2)" "kernel_inv cfg s2"
    "same_tasks (vTaskSuspendAll s) s2" "woken (resume_woken (vTaskSuspendAll s)) (vTaskSuspendAll s) (klists s2)"
    "pending s2 = {}" "xTickCount s2 = xTickCount (vTaskSuspendAll s) + uxPendedTicks (vTaskSuspendAll s)"
    "uxPendedTicks s2 = 0" "uxSchedulerSuspended s2 = 0"
    "uxCurrentNumberOfTasks s2 = uxCurrentNumberOfTasks (vTaskSuspendAll s)"
    using resume_all_spec[OF f(1)[OF k] s1(1,2)] by metis
  have e: "resume_woken (vTaskSuspendAll s) = {}" by (rule resume_wakes_nobody[OF f(1)[OF k] s1(3,4)])
  have h: "home s2 (StateListItem t) = home s (StateListItem t)" "home s2 (EventListItem t) = home s (EventListItem t)" for t
    using wokenD(1,2)[OF r(4)[unfolded e]] by (simp_all add: f)
  have v: "vTaskDelayUntil cfg p i s = Some (p + i, if y then s2 else portYIELD s2)"
    using r(1) False by (simp add: vTaskDelayUntil_def Let_def f should_delay_iff)
  have u2: "unsuspended s2" using r s1 by (simp add: unsuspended_def)
  show ?thesis
  proof (rule that[OF v])
    show "kernel_inv cfg (if y then s2 else portYIELD s2)" using r(2) yield_inv by simp
    show "unsuspended (if y then s2 else portYIELD s2)" using u2 by simp
  qed (use h False r(6) s1 same_tasksD[OF r(3)] in \<open>simp_all add: f vTaskSuspendAll_def is_task_def fun_eq_iff\<close>)
qed


section \<open>Time-outs\<close>

definition counts_time :: "os_config \<Rightarrow> u32 \<Rightarrow> bool" where
  "counts_time cfg w \<longleftrightarrow> \<not> INCLUDE_xTaskAbortDelay cfg \<and> \<not> (INCLUDE_vTaskSuspend cfg \<and> w = portMAX_DELAY)"

lemma word_minus_later:
  assumes "T0 \<le> T1"
  shows "(of_nat T1 :: u32) - of_nat T0 = of_nat (T1 - T0)"
  using assms by (simp add: of_nat_diff)

lemma div_gap:
  fixes M :: nat
  shows "T1 div M = Suc (T0 div M) \<Longrightarrow> T0 mod M \<le> T1 mod M \<Longrightarrow> M \<le> T1 - T0"
    and "M > 0 \<Longrightarrow> T1 div M = T0 div M \<Longrightarrow> T1 - T0 < M"
    and "M > 0 \<Longrightarrow> T1 div M = Suc (T0 div M) \<Longrightarrow> T1 mod M < T0 mod M \<Longrightarrow> T1 - T0 < M"
proof -
  have T: "T1 = M * (T1 div M) + T1 mod M" "T0 = M * (T0 div M) + T0 mod M" by simp_all
  have m: "T1 mod M < M" "T0 mod M < M" if "M > 0" using that by simp_all
  have s: "M * (T1 div M) = M * (T0 div M) + M" if "T1 div M = Suc (T0 div M)" using that by simp
  show "T1 div M = Suc (T0 div M) \<Longrightarrow> T0 mod M \<le> T1 mod M \<Longrightarrow> M \<le> T1 - T0" using T s by linarith
  show "M > 0 \<Longrightarrow> T1 div M = T0 div M \<Longrightarrow> T1 - T0 < M" using T m by (metis add_diff_cancel_left
        less_imp_diff_less)
  show "M > 0 \<Longrightarrow> T1 div M = Suc (T0 div M) \<Longrightarrow> T1 mod M < T0 mod M \<Longrightarrow> T1 - T0 < M" using T s by linarith
qed

lemma check_timeout_spec:
  assumes c: "counts_time cfg w" and lim: "xTimeOnEntering lim0 = of_nat T0" "xOverflowCount lim0 = of_nat (T0 div 2 ^ 32)"
    and t: "at_time s T1" and le: "T0 \<le> T1" and near: "T1 div 2 ^ 32 \<le> Suc (T0 div 2 ^ 32)"
  obtains lim1 w' where "xTaskCheckForTimeOut cfg lim0 w s = Some (unat w \<le> T1 - T0, lim1, w', s)"
    and "T1 - T0 < unat w \<Longrightarrow> lim1 = vTaskInternalSetTimeOutState s \<and> unat w' = unat w - (T1 - T0)"
proof -
  let ?o0 = "T0 div 2 ^ 32" and ?o1 = "T1 div 2 ^ 32" and ?x0 = "T0 mod 2 ^ 32" and ?x1 = "T1 mod 2 ^ 32"
  have s: "xTickCount s = of_nat T1" "xNumOfOverflows s = of_nat ?o1" using t by (simp_all add: at_time_def)
  have ge: "(of_nat T1 :: u32) \<ge> of_nat T0 \<longleftrightarrow> ?x1 \<ge> ?x0"
    by (simp add: word_le_nat_alt unat_of_nat take_bit_eq_mod)
  have o: "?o1 = ?o0 \<or> ?o1 = Suc ?o0" using near div_le_mono[OF le, of "2 ^ 32"] by linarith
  have wl: "unat w < 2 ^ 32" by (rule order_less_le_trans[OF unsigned_less]) simp
  have d: "(of_nat T1 :: u32) - of_nat T0 = of_nat (T1 - T0)" by (rule word_minus_later[OF le])
  have nz: "\<not> (INCLUDE_vTaskSuspend cfg \<and> w = portMAX_DELAY)" "\<not> INCLUDE_xTaskAbortDelay cfg"
    using c by (simp_all add: counts_time_def)
  have same: "vPortExitCritical (vPortEnterCritical s) = s"
    by (simp add: vPortExitCritical_def vPortEnterCritical_def)
  have st: "vTaskInternalSetTimeOutState (vPortEnterCritical s) = vTaskInternalSetTimeOutState s"
    by (simp add: vTaskInternalSetTimeOutState_def vPortEnterCritical_def)
  have f: "xTickCount (vPortEnterCritical s) = of_nat T1" "xNumOfOverflows (vPortEnterCritical s) = of_nat ?o1"
    by (simp_all add: vPortEnterCritical_def s)
  let ?wrap = "of_nat ?o1 \<noteq> (of_nat ?o0 :: u32) \<and> (of_nat T1 :: u32) \<ge> of_nat T0"
  show ?thesis
  proof (cases ?wrap)
    case True
    then have "?o1 = Suc ?o0" "?x1 \<ge> ?x0" using o ge by auto
    then have "T1 - T0 \<ge> 2 ^ 32" by (rule div_gap(1))
    then have "unat w \<le> T1 - T0" using wl by linarith
    then show ?thesis using True nz
      by (intro that[of lim0 w]) (simp_all add: xTaskCheckForTimeOut_def Let_def f lim same)
  next
    case False
    have "?o1 = ?o0 \<or> ?x1 < ?x0"
    proof (cases "?o1 = ?o0")
      case no: False
      then have "?o1 = Suc ?o0" using o by blast
      then have "(of_nat ?o1 :: u32) \<noteq> of_nat ?o0" by simp
      then show ?thesis using False ge by (simp add: not_le)
    qed simp
    then have "T1 - T0 < 2 ^ 32" using o div_gap(2,3)[of "2 ^ 32" T1 T0] by fastforce
    then have u: "unat (of_nat (T1 - T0) :: u32) = T1 - T0" by (rule unat_of_nat32)
    then have lt: "(of_nat (T1 - T0) :: u32) < w \<longleftrightarrow> T1 - T0 < unat w" by (simp add: word_less_nat_alt)
    show ?thesis
    proof (cases "T1 - T0 < unat w")
      case True
      have "unat (w - of_nat (T1 - T0)) = unat w - (T1 - T0)"
        using True u by (simp add: unat_sub word_le_nat_alt)
      then show ?thesis using True False nz lt
        by (intro that[of "vTaskInternalSetTimeOutState s" "w - of_nat (T1 - T0)"])
          (auto simp: xTaskCheckForTimeOut_def Let_def f lim same st d)
    next
      case no: False
      then show ?thesis using False nz lt
        by (intro that[of lim0 0]) (auto simp: xTaskCheckForTimeOut_def Let_def f lim same d)
    qed
  qed
qed

end
