(* ===== verification/Os_Task_Demo.thy ===== *)
theory Os_Task_Demo
  imports Os_Task_New Os_Task_Ticks
begin

text \<open>
  A concrete kernel for the instances of the properties: a cold kernel, an allocator that hands
  out one page after the other, and the kernel after two creations.
\<close>

definition page_malloc :: "u32 \<Rightarrow> os \<Rightarrow> u32" where
  "page_malloc sz s = 0x1000 * of_nat (Suc (length (heap_log s)))"

definition demo_port :: port_params where
  "demo_port = \<lparr>sizeof_TCB = 0x60, XT_STK_FRMSZ = 0x50, XT_CP_SIZE = 0, xt_user_exit = 0x40100000\<rparr>"

definition demo_store :: os_store where
  "demo_store = \<lparr>node_at = (\<lambda>i. \<lparr>xItemValue = 0, pxNext = Item i, pxPrevious = Item i, pvOwner = 0,
       pxContainer = None\<rparr>),
     list_at = (\<lambda>l. \<lparr>uxNumberOfItems = 0, pxIndex = ListEnd l,
       xListEnd = \<lparr>mini_xItemValue = 0, mini_pxNext = ListEnd l, mini_pxPrevious = ListEnd l\<rparr>\<rparr>)\<rparr>"

definition demo_tcb :: TCB where
  "demo_tcb = \<lparr>pxTopOfStack = 0, uxPriority = 0, pxStack = 0, pcTaskName = replicate 16 0, uxBasePriority = 0,
     uxMutexesHeld = 0, ulNotifiedValue = 0, ucNotifyState = 0, ucDelayAborted = False\<rparr>"

definition demo_cold :: os where
  "demo_cold = \<lparr>klists = demo_store, tcbs = Map.empty, pxCurrentTCB = 0, pxDelayedTaskList = None,
     pxOverflowDelayedTaskList = None, uxDeletedTasksWaitingCleanUp = 0, uxCurrentNumberOfTasks = 0,
     xTickCount = 0, uxTopReadyPriority = 0, xSchedulerRunning = False, uxPendedTicks = 0,
     xYieldPending = False, xNumOfOverflows = 0, uxTaskNumber = 0, xNextTaskUnblockTime = 0,
     xIdleTaskHandle = 0, uxSchedulerSuspended = 0, uxCriticalNesting = 0, PENDING_SOFT_SV = False,
     PENDING_MACLAYER_SV = False, soft_interrupt = False, stack_overflow_hook_calls = [],
     queues = Map.empty, mem = (\<lambda>_. 0), heap_log = []\<rparr>"

text \<open>The states after the creation of the task at 0x2000 with priority 1 and of that at 0x4000 with priority 2.\<close>

definition demo_create :: "u32 \<Rightarrow> os \<Rightarrow> (u32 option \<times> os) option" where
  "demo_create pri s = xTaskCreate demo_port as_built page_malloc demo_tcb 0x40200000 0 256 0 pri s"

definition demo_one :: os where "demo_one = snd (the (demo_create 1 demo_cold))"
definition demo_two :: os where "demo_two = snd (the (demo_create 2 demo_one))"


lemma demo_store_free: "pxContainer (node_at demo_store i) = None"
  by (simp add: demo_store_def)

lemma demo_cold: "cold demo_cold"
  by (simp add: cold_def demo_cold_def demo_store_free configMAX_PRIORITIES_def lists_ok_def event_lists_def)

lemma demo_blocks:
  "stack_block page_malloc 256 s = 0x1000 * of_nat (Suc (length (heap_log s)))"
  "tcb_block demo_port page_malloc 256 s = 0x1000 * of_nat (Suc (Suc (length (heap_log s))))"
  by (simp_all add: stack_block_def tcb_block_def page_malloc_def)

lemma demo_clamp: "clamp_priority 1 = 1" "clamp_priority 2 = 2"
  by (simp_all add: clamp_priority_def configMAX_PRIORITIES_def word_le_nat_alt)

lemma is_task_dom: "is_task s t \<longleftrightarrow> t \<in> dom (tcbs s)"
  by (simp add: is_task_def domIff)

lemma demo_one:
  "demo_create 1 demo_cold = Some (Some 0x2000, demo_one)" "kernel_inv as_built demo_one"
  "pxCurrentTCB demo_one = 0x2000" "dom (tcbs demo_one) = {0x2000}" "priority_of demo_one 0x2000 = 1"
  "items demo_one (ReadyTasksList 1) = [StateListItem 0x2000]"
  "l \<in> live as_built demo_cold \<Longrightarrow> l \<noteq> ReadyTasksList 1 \<Longrightarrow> items demo_one l = []"
  "same_rest (after_blocks demo_port page_malloc 256 demo_cold) demo_one"
  "uxCurrentNumberOfTasks demo_one = 1"
  "home demo_one i = (if i = StateListItem 0x2000 then Some (ReadyTasksList 1) else None)"
proof -
  have "length (heap_log demo_cold) = 0" by (simp add: demo_cold_def)
  then have b: "stack_block page_malloc 256 demo_cold \<noteq> 0"
    "tcb_block demo_port page_malloc 256 demo_cold = 0x2000" by (simp_all add: demo_blocks)
  obtain s' where *: "demo_create 1 demo_cold = Some (Some 0x2000, s')" "kernel_inv as_built s'"
    "pxCurrentTCB s' = 0x2000" "dom (tcbs s') = {0x2000}" "priority_of s' 0x2000 = 1"
    "items s' (ReadyTasksList 1) = [StateListItem 0x2000]"
    "\<forall>l. l \<in> live as_built demo_cold \<longrightarrow> l \<noteq> ReadyTasksList 1 \<longrightarrow> items s' l = []"
    "same_rest (after_blocks demo_port page_malloc 256 demo_cold) s'" "uxCurrentNumberOfTasks s' = 1"
    "\<forall>i. home s' i = (if i = StateListItem 0x2000 then Some (ReadyTasksList 1) else None)"
    by (rule first_create_spec[OF demo_cold b, of as_built demo_tcb "0x40200000" 0 0 1])
      (simp_all add: demo_create_def demo_clamp)
  moreover have "s' = demo_one" using *(1) by (simp add: demo_one_def)
  ultimately show "demo_create 1 demo_cold = Some (Some 0x2000, demo_one)" "kernel_inv as_built demo_one"
    "pxCurrentTCB demo_one = 0x2000" "dom (tcbs demo_one) = {0x2000}" "priority_of demo_one 0x2000 = 1"
    "items demo_one (ReadyTasksList 1) = [StateListItem 0x2000]"
    "l \<in> live as_built demo_cold \<Longrightarrow> l \<noteq> ReadyTasksList 1 \<Longrightarrow> items demo_one l = []"
    "same_rest (after_blocks demo_port page_malloc 256 demo_cold) demo_one"
    "uxCurrentNumberOfTasks demo_one = 1"
    "home demo_one i = (if i = StateListItem 0x2000 then Some (ReadyTasksList 1) else None)"
    by simp_all
qed

lemma demo_two:
  "demo_create 2 demo_one = Some (Some 0x4000, demo_two)" "kernel_inv as_built demo_two"
  "pxCurrentTCB demo_two = 0x4000" "dom (tcbs demo_two) = {0x2000, 0x4000}"
  "priority_of demo_two 0x2000 = 1" "priority_of demo_two 0x4000 = 2"
  "items demo_two (ReadyTasksList 1) = [StateListItem 0x2000]"
  "set (items demo_two (ReadyTasksList 2)) = {StateListItem 0x4000}"
  "l \<in> live as_built demo_cold \<Longrightarrow> l \<noteq> ReadyTasksList 1 \<Longrightarrow> l \<noteq> ReadyTasksList 2 \<Longrightarrow> items demo_two l = []"
  "same_rest (after_blocks demo_port page_malloc 256 demo_one) demo_two"
  "uxCurrentNumberOfTasks demo_two = 2"
  "home demo_two i = (if i = StateListItem 0x4000 then Some (ReadyTasksList 2)
     else if i = StateListItem 0x2000 then Some (ReadyTasksList 1) else None)"
proof -
  have "length (heap_log demo_one) = 2"
    using demo_one(8) by (simp add: same_rest_def after_blocks_def demo_cold_def)
  then have b: "stack_block page_malloc 256 demo_one \<noteq> 0"
    "tcb_block demo_port page_malloc 256 demo_one = 0x4000" by (simp_all add: demo_blocks)
  have q: "queues demo_one = queues demo_cold" "\<not> xSchedulerRunning demo_one"
    using demo_one(8) by (simp_all add: same_rest_def) (simp add: demo_cold_def)
  have lv: "live as_built demo_one = live as_built demo_cold" using live_cong[OF q(1)] .
  have t: "\<not> is_task demo_one 0x4000" using demo_one(4) by (simp add: is_task_dom)
  have 2: "ReadyTasksList 2 \<in> live as_built demo_cold" "ReadyTasksList 1 \<in> live as_built demo_cold"
    by (simp_all add: configMAX_PRIORITIES_def)
  obtain s' where *: "demo_create 2 demo_one = Some (Some 0x4000, s')" "kernel_inv as_built s'"
    "is_task s' 0x4000" "priority_of s' 0x4000 = 2" "\<forall>u. u \<noteq> 0x4000 \<longrightarrow> tcbs s' u = tcbs demo_one u"
    "\<forall>l. l \<in> live as_built demo_one \<longrightarrow> l \<noteq> ReadyTasksList 2 \<longrightarrow> items s' l = items demo_one l"
    "set (items s' (ReadyTasksList 2)) = insert (StateListItem 0x4000) (set (items demo_one (ReadyTasksList 2)))"
    "uxCurrentNumberOfTasks s' = uxCurrentNumberOfTasks demo_one + 1"
    "same_rest (after_blocks demo_port page_malloc 256 demo_one) s'" "pxCurrentTCB s' = 0x4000"
    "\<forall>i. home s' i = (if i = StateListItem 0x4000 then Some (ReadyTasksList 2)
       else if i = EventListItem 0x4000 then None else home demo_one i)"
    by (rule create_spec[OF demo_one(2) b, of demo_tcb "0x40200000" 0 0 2])
      (simp_all add: demo_create_def demo_clamp t q demo_one(3,5))
  have e: "s' = demo_two" using *(1) by (simp add: demo_two_def)
  have d: "dom (tcbs s') = {0x2000, 0x4000}"
  proof -
    have "u \<in> dom (tcbs s') \<longleftrightarrow> u = 0x4000 \<or> u \<in> dom (tcbs demo_one)" for u
      using *(3,5) by (cases "u = 0x4000") (auto simp: is_task_def domIff)
    then show ?thesis using demo_one(4) by blast
  qed
  have p1: "priority_of s' 0x2000 = 1" using *(5) demo_one(5) by (simp add: priority_of_def)
  show "demo_create 2 demo_one = Some (Some 0x4000, demo_two)" "kernel_inv as_built demo_two"
    "pxCurrentTCB demo_two = 0x4000" "dom (tcbs demo_two) = {0x2000, 0x4000}"
    "priority_of demo_two 0x2000 = 1" "priority_of demo_two 0x4000 = 2"
    "items demo_two (ReadyTasksList 1) = [StateListItem 0x2000]"
    "set (items demo_two (ReadyTasksList 2)) = {StateListItem 0x4000}"
    "l \<in> live as_built demo_cold \<Longrightarrow> l \<noteq> ReadyTasksList 1 \<Longrightarrow> l \<noteq> ReadyTasksList 2 \<Longrightarrow> items demo_two l = []"
    "same_rest (after_blocks demo_port page_malloc 256 demo_one) demo_two"
    "uxCurrentNumberOfTasks demo_two = 2"
    "home demo_two i = (if i = StateListItem 0x4000 then Some (ReadyTasksList 2)
       else if i = StateListItem 0x2000 then Some (ReadyTasksList 1) else None)"
    using * d p1 demo_one 2 by (simp_all add: e lv)
qed


text \<open>Nothing is pending in the kernel with two tasks, and both are ready.\<close>

lemma demo_two_rest:
  "uxSchedulerSuspended demo_two = 0" "uxPendedTicks demo_two = 0" "xTickCount demo_two = 0"
  "xSchedulerRunning demo_two = False" "queues demo_two = Map.empty" "length (heap_log demo_two) = 4"
  "uxCriticalNesting demo_two = 0"
proof -
  have 1: "uxSchedulerSuspended demo_one = 0" "uxPendedTicks demo_one = 0" "xTickCount demo_one = 0"
    "xSchedulerRunning demo_one = False" "queues demo_one = Map.empty" "length (heap_log demo_one) = 2"
    "uxCriticalNesting demo_one = 0"
    using demo_one(8) by (simp_all add: same_rest_def after_blocks_def demo_cold_def)
  then show "uxSchedulerSuspended demo_two = 0" "uxPendedTicks demo_two = 0" "xTickCount demo_two = 0"
    "xSchedulerRunning demo_two = False" "queues demo_two = Map.empty" "length (heap_log demo_two) = 4"
    "uxCriticalNesting demo_two = 0"
    using demo_two(10) by (simp_all add: same_rest_def after_blocks_def)
qed

lemma demo_two_tasks: "is_task demo_two t \<longleftrightarrow> t = 0x2000 \<or> t = 0x4000"
  using demo_two(4) by (simp add: is_task_dom)

lemma demo_two_live: "live as_built demo_two = live as_built demo_cold"
  by (rule live_cong) (simp add: demo_two_rest demo_cold_def)

lemma demo_two_unsuspended: "unsuspended demo_two"
proof -
  have "PendingReadyList \<in> live as_built demo_cold" by simp
  then have "items demo_two PendingReadyList = []" using demo_two(9) by blast
  then have "home demo_two i \<noteq> Some PendingReadyList" for i
    using member_home[OF invD(1)[OF demo_two(2)], of PendingReadyList i] by simp
  then show ?thesis using demo_two_rest demo_two(11) by (simp add: unsuspended_def pending_def)
qed

lemma demo_two_ready: "some_ready as_built demo_two"
  unfolding some_ready_def
  by (rule exI[of _ 1]) (use demo_two(7) in \<open>simp add: configMAX_PRIORITIES_def\<close>)

text \<open>The current task goes to sleep for one tick.\<close>

definition demo_asleep :: os where "demo_asleep = the (vTaskDelay as_built 1 demo_two)"

lemma demo_asleep:
  "vTaskDelay as_built 1 demo_two = Some demo_asleep" "kernel_inv as_built demo_asleep"
  "unsuspended demo_asleep" "delayed demo_asleep 0x4000" "ticks_left demo_asleep 0x4000 = 1"
  "pxCurrentTCB demo_asleep = 0x4000"
proof -
  obtain s' where "vTaskDelay as_built 1 demo_two = Some s'" "kernel_inv as_built s'"
    "unsuspended s'" "delayed s' 0x4000" "ticks_left s' 0x4000 = 1" "pxCurrentTCB s' = 0x4000"
    by (rule delay_spec[OF demo_two(2) demo_two_unsuspended, of 1]) (simp_all add: demo_two(3))
  then show "vTaskDelay as_built 1 demo_two = Some demo_asleep" "kernel_inv as_built demo_asleep"
    "unsuspended demo_asleep" "delayed demo_asleep 0x4000" "ticks_left demo_asleep 0x4000 = 1"
    "pxCurrentTCB demo_asleep = 0x4000"
    by (simp_all add: demo_asleep_def)
qed

lemma demo_asleep_waking: "0x4000 \<in> waking demo_asleep"
  using demo_asleep(4,5) by (simp add: waking_iff_one_left)

lemma demo_asleep_running: "uxSchedulerSuspended demo_asleep = 0"
  using demo_asleep(3) by (simp add: unsuspended_def)

end
