(* ===== verification/Os_Task_Properties.thy ===== *)
theory Os_Task_Properties
  imports Os_Task_Demo
begin

text \<open>
  What the scheduler of \<^verbatim>\<open>src/ffi/os/task.c\<close> promises: which task runs, which tasks a tick
  wakes, that suspending the scheduler loses nothing, how long a delay lasts, and what a creation
  does. Each property is followed by an instance on the concrete kernel.
\<close>

section \<open>Choosing the running task\<close>

text \<open>
  C7: With the scheduler not suspended and some task ready, \<open>vTaskSwitchContext\<close> returns. The task
  it makes current is ready and no ready task has a higher priority; among the ready tasks of that
  priority it is the one whose turn it is, and it goes to the end of their order of turns, while
  every other list keeps its contents and its index. The invariant is kept.
\<close>

theorem switch_context_runs_highest:
  assumes "kernel_inv cfg s" and "uxSchedulerSuspended s = 0" and "some_ready cfg s"
  shows "\<exists>s' p ts. vTaskSwitchContext s = Some s' \<and> kernel_inv cfg s'
    \<and> is_task s (pxCurrentTCB s') \<and> priority_of s (pxCurrentTCB s') = p
    \<and> home s (StateListItem (pxCurrentTCB s')) = Some (ReadyTasksList p)
    \<and> (\<forall>t q. is_task s t \<longrightarrow> home s (StateListItem t) = Some (ReadyTasksList q)
         \<longrightarrow> priority_of s t \<le> priority_of s (pxCurrentTCB s'))
    \<and> list_turns (klists s) (ReadyTasksList p) = StateListItem (pxCurrentTCB s') # ts
    \<and> list_turns (klists s') (ReadyTasksList p) = ts @ [StateListItem (pxCurrentTCB s')]
    \<and> (\<forall>l. l \<noteq> ReadyTasksList p \<longrightarrow> list_at (klists s') l = list_at (klists s) l)
    \<and> node_at (klists s') = node_at (klists s) \<and> \<not> xYieldPending s'"
proof -
  note k = invD(1)[OF assms(1)]
  obtain t p ts h c where sw: "vTaskSwitchContext s = Some (s\<lparr>xYieldPending := False,
        stack_overflow_hook_calls := c, klists := h, pxCurrentTCB := t, uxTopReadyPriority := p\<rparr>)"
    and *: "kernel_inv cfg (s\<lparr>xYieldPending := False,
        stack_overflow_hook_calls := c, klists := h, pxCurrentTCB := t, uxTopReadyPriority := p\<rparr>)"
      "is_task s t" "home s (StateListItem t) = Some (ReadyTasksList p)"
      "\<forall>q. q < configMAX_PRIORITIES \<longrightarrow> items s (ReadyTasksList q) \<noteq> [] \<longrightarrow> q \<le> p"
      "list_turns (klists s) (ReadyTasksList p) = StateListItem t # ts"
      "list_turns h (ReadyTasksList p) = ts @ [StateListItem t]"
      "\<forall>m. m \<noteq> ReadyTasksList p \<longrightarrow> list_at h m = list_at (klists s) m" "node_at h = node_at (klists s)"
    by (rule switch_context_spec[OF assms]) blast
  have pt: "priority_of s t = p" by (rule core_ready(2)[OF k *(2,3)])
  have "priority_of s u \<le> p" if u: "is_task s u" "home s (StateListItem u) = Some (ReadyTasksList q)" for u q
  proof -
    have q: "priority_of s u = q" by (rule core_ready(2)[OF k u])
    then have "q < configMAX_PRIORITIES" using coreD(2)[OF k] u(1) by (auto simp: tasks_ok_def)
    moreover from this have "items s (ReadyTasksList q) \<noteq> []"
      using member_home[OF k, of "ReadyTasksList q" "StateListItem u"] u(2) by auto
    ultimately show ?thesis using *(4) q by blast
  qed
  then show ?thesis using sw * pt
    by (intro exI[of _ "s\<lparr>xYieldPending := False, stack_overflow_hook_calls := c, klists := h,
        pxCurrentTCB := t, uxTopReadyPriority := p\<rparr>"] exI[of _ p] exI[of _ ts]) auto
qed

theorem switch_context_runs_highest_witness:
  "\<exists>s'. vTaskSwitchContext demo_two = Some s' \<and> pxCurrentTCB s' = 0x4000"
proof -
  obtain s' where s': "vTaskSwitchContext demo_two = Some s'" "is_task demo_two (pxCurrentTCB s')"
    "\<forall>t q. is_task demo_two t \<longrightarrow> home demo_two (StateListItem t) = Some (ReadyTasksList q)
         \<longrightarrow> priority_of demo_two t \<le> priority_of demo_two (pxCurrentTCB s')"
    using switch_context_runs_highest[OF demo_two(2) demo_two_rest(1) demo_two_ready] by metis
  have "ReadyTasksList 2 \<in> live as_built demo_two" by (simp add: configMAX_PRIORITIES_def)
  then have "home demo_two (StateListItem 0x4000) = Some (ReadyTasksList 2)"
    using member_home[OF invD(1)[OF demo_two(2)]] demo_two(8) by blast
  then have "2 \<le> priority_of demo_two (pxCurrentTCB s')"
    using s'(3) demo_two_tasks demo_two(6) by metis
  moreover have "\<not> 2 \<le> (1 :: u32)" by (simp add: word_le_nat_alt)
  ultimately have "pxCurrentTCB s' = 0x4000"
    using s'(2) demo_two_tasks demo_two(5) by metis
  then show ?thesis using s'(1) by blast
qed


section \<open>The tick\<close>

text \<open>
  C8: A tick of a running scheduler always returns. It advances the tick count by one, wrapping at
  2^32, and moves to their ready lists exactly the delayed tasks whose wake time is the new count,
  on whichever of the two delayed lists they are, taking them off the event list they also wait
  on; every other item stays where it is and the invariant is kept. A context switch is asked for
  exactly when one was pending, when a woken task has at least the priority of the current one, or
  when time slicing is on and the current task shares its priority.
\<close>

theorem tick_wakes_exactly_due:
  assumes "kernel_inv cfg s" and "uxSchedulerSuspended s = 0"
  shows "\<exists>sw s'. xTaskIncrementTick cfg s = Some (sw, s') \<and> kernel_inv cfg s'
    \<and> xTickCount s' = xTickCount s + 1 \<and> tcbs s' = tcbs s \<and> pxCurrentTCB s' = pxCurrentTCB s
    \<and> (\<forall>t. home s' (StateListItem t) =
          (if t \<in> waking s then Some (ReadyTasksList (priority_of s t)) else home s (StateListItem t)))
    \<and> (\<forall>t. home s' (EventListItem t) = (if t \<in> waking s then None else home s (EventListItem t)))
    \<and> (sw \<longleftrightarrow> xYieldPending s \<or> slice_over cfg s'
          \<or> (\<exists>t \<in> waking s. priority_of s t \<ge> priority_of s (pxCurrentTCB s)))"
proof -
  obtain sw s' where *: "xTaskIncrementTick cfg s = Some (sw, s')" "kernel_inv cfg s'"
      "xTickCount s' = xTickCount s + 1" "tcbs s' = tcbs s" "pxCurrentTCB s' = pxCurrentTCB s"
      "woken (waking s) s (klists s')"
      "sw \<longleftrightarrow> xYieldPending s \<or> slice_over cfg s'
           \<or> (\<exists>t \<in> waking s. priority_of s t \<ge> priority_of s (pxCurrentTCB s))"
    by (rule increment_tick_running[OF assms]) blast
  then show ?thesis using wokenD(1,2)[OF *(6)] by blast
qed

theorem tick_wakes_exactly_due_witness:
  "\<exists>sw s'. xTaskIncrementTick as_built demo_asleep = Some (sw, s') \<and> sw
     \<and> home s' (StateListItem 0x4000) = Some (ReadyTasksList (priority_of demo_asleep 0x4000))"
proof -
  obtain sw s' where s': "xTaskIncrementTick as_built demo_asleep = Some (sw, s')"
    "\<forall>t. home s' (StateListItem t) = (if t \<in> waking demo_asleep
       then Some (ReadyTasksList (priority_of demo_asleep t)) else home demo_asleep (StateListItem t))"
    "sw \<longleftrightarrow> xYieldPending demo_asleep \<or> slice_over as_built s' \<or> (\<exists>t \<in> waking demo_asleep.
        priority_of demo_asleep t \<ge> priority_of demo_asleep (pxCurrentTCB demo_asleep))"
    using tick_wakes_exactly_due[OF demo_asleep(2) demo_asleep_running] by blast
  have sw using s'(3) demo_asleep_waking demo_asleep(6) by (metis order_refl)
  then show ?thesis using s'(1,2) demo_asleep_waking by auto
qed

text \<open>
  C9: Suspending the scheduler loses no time. Any number \<open>n\<close> of ticks below 2^32 that arrive while
  the scheduler is suspended and are made up by \<open>xTaskResumeAll\<close> leave every task's state item and
  event item in the same list, and the tick count at the same value, as the same ticks on a
  scheduler that was running.
\<close>

theorem suspension_loses_no_tick:
  assumes "kernel_inv cfg s" and "unsuspended s" and "n < 2 ^ 32"
  shows "\<exists>a y b. ticks cfg n s = Some a
    \<and> do { s1 \<leftarrow> ticks cfg n (vTaskSuspendAll s); xTaskResumeAll cfg s1 } = Some (y, b)
    \<and> (\<forall>i. home a i = home b i) \<and> xTickCount a = xTickCount b
    \<and> kernel_inv cfg a \<and> kernel_inv cfg b \<and> uxSchedulerSuspended b = 0 \<and> uxPendedTicks b = 0"
proof -
  have u: "uxSchedulerSuspended s = 0" using assms(2) by (simp add: unsuspended_def)
  obtain a where a: "ticks cfg n s = Some a" "kernel_inv cfg a"
      "woken {t. delayed s t \<and> ticks_left s t \<le> n} s (klists a)" "xTickCount a = xTickCount s + of_nat n"
    using running_ticks[OF assms(1) u] by blast
  obtain y b where b: "do { s1 \<leftarrow> ticks cfg n (vTaskSuspendAll s); xTaskResumeAll cfg s1 } = Some (y, b)"
      "kernel_inv cfg b" "woken {t. delayed s t \<and> ticks_left s t \<le> n} s (klists b)"
      "xTickCount b = xTickCount s + of_nat n" "uxSchedulerSuspended b = 0" "uxPendedTicks b = 0"
    by (rule resume_after_ticks[OF assms]) (rule that; assumption)
  have "home a i = home b i" for i
    using wokenD(1,2)[OF a(3)] wokenD(1,2)[OF b(3)] by (cases i) simp_all
  moreover have "xTickCount a = xTickCount b" using a(4) b(4) by simp
  ultimately show ?thesis using a(1,2) b(1,2,5,6) by (intro exI conjI allI; assumption?)
qed

theorem suspension_loses_no_tick_witness:
  "\<exists>a y b. ticks as_built 5 demo_asleep = Some a
    \<and> do { s1 \<leftarrow> ticks as_built 5 (vTaskSuspendAll demo_asleep); xTaskResumeAll as_built s1 } = Some (y, b)
    \<and> (\<forall>i. home a i = home b i)"
  using suspension_loses_no_tick[OF demo_asleep(2,3), of 5] by auto

section \<open>Delays\<close>

text \<open>
  C10: \<open>vTaskDelay\<close> with a positive count \<open>n\<close> blocks the calling task for exactly \<open>n\<close> ticks: it
  returns to the caller's yield with a context switch pending, the task stays on a delayed list
  over the next \<open>n - 1\<close> ticks, across a wrap of the tick count too, and is on the ready list of its
  priority after the \<open>n\<close>th and every later one. No other task moves, and the invariant is kept.
\<close>

theorem delay_lasts_n_ticks:
  assumes "kernel_inv cfg s" and "unsuspended s" and "n \<noteq> 0"
  shows "\<exists>s'. vTaskDelay cfg n s = Some s' \<and> kernel_inv cfg s' \<and> unsuspended s' \<and> PENDING_SOFT_SV s'
    \<and> (\<forall>t. t \<noteq> pxCurrentTCB s \<longrightarrow> home s' (StateListItem t) = home s (StateListItem t))
    \<and> (\<forall>j. \<exists>a. ticks cfg j s' = Some a \<and> kernel_inv cfg a \<and> xTickCount a = xTickCount s + of_nat j
          \<and> (if j < unat n then delayed a (pxCurrentTCB s)
             else home a (StateListItem (pxCurrentTCB s))
                = Some (ReadyTasksList (priority_of s' (pxCurrentTCB s)))))"
proof -
  obtain s' where s': "vTaskDelay cfg n s = Some s'" "kernel_inv cfg s'" "unsuspended s'"
    "delayed s' (pxCurrentTCB s)" "ticks_left s' (pxCurrentTCB s) = unat n"
    "\<forall>t. t \<noteq> pxCurrentTCB s \<longrightarrow> home s' (StateListItem t) = home s (StateListItem t)"
    "xTickCount s' = xTickCount s" "PENDING_SOFT_SV s'"
    by (rule delay_spec[OF assms]) blast
  have u: "uxSchedulerSuspended s' = 0" using s'(3) by (simp add: unsuspended_def)
  have "\<exists>a. ticks cfg j s' = Some a \<and> kernel_inv cfg a \<and> xTickCount a = xTickCount s + of_nat j
          \<and> (if j < unat n then delayed a (pxCurrentTCB s)
             else home a (StateListItem (pxCurrentTCB s))
                = Some (ReadyTasksList (priority_of s' (pxCurrentTCB s))))" for j
    by (rule wakes_on_time[OF s'(2) u s'(4), of j]) (use s'(5,7) in auto)
  then show ?thesis using s' by blast
qed

theorem delay_lasts_n_ticks_witness:
  "\<exists>s'. vTaskDelay as_built 3 demo_two = Some s'
    \<and> (\<exists>a. ticks as_built 2 s' = Some a \<and> delayed a 0x4000)
    \<and> (\<exists>a. ticks as_built 3 s' = Some a
         \<and> home a (StateListItem 0x4000) = Some (ReadyTasksList (priority_of s' 0x4000)))"
proof -
  obtain s' where s': "vTaskDelay as_built 3 demo_two = Some s'"
    "\<forall>j. \<exists>a. ticks as_built j s' = Some a \<and> kernel_inv as_built a
        \<and> xTickCount a = xTickCount demo_two + of_nat j
        \<and> (if j < unat (3 :: u32) then delayed a (pxCurrentTCB demo_two)
             else home a (StateListItem (pxCurrentTCB demo_two))
                = Some (ReadyTasksList (priority_of s' (pxCurrentTCB demo_two))))"
    using delay_lasts_n_ticks[OF demo_two(2) demo_two_unsuspended, of 3] by auto
  show ?thesis using s'(1) spec[OF s'(2), of 2] spec[OF s'(2), of 3] by (auto simp: demo_two(3))
qed

text \<open>
  C11: \<open>vTaskDelayUntil\<close> from the previous wake time \<open>p\<close> with increment \<open>i\<close> always sets the previous
  wake time to \<open>p + i\<close>, modulo 2^32. If fewer than \<open>i\<close> ticks have passed since \<open>p\<close> the calling task
  blocks and is ready again exactly when the tick count reaches \<open>p + i\<close>, not earlier; otherwise its
  state item stays where it is. The drift-free schedule holds across wraps of all three counters.
\<close>

theorem delay_until_wakes_at_period:
  assumes "kernel_inv cfg s" and "unsuspended s"
  defines "c \<equiv> pxCurrentTCB s" and "now \<equiv> xTickCount s"
  shows "\<exists>s'. vTaskDelayUntil cfg p i s = Some (p + i, s') \<and> kernel_inv cfg s'
    \<and> (\<forall>t. t \<noteq> c \<longrightarrow> home s' (StateListItem t) = home s (StateListItem t))
    \<and> (if now - p < i
       then \<forall>j \<le> unat (p + i - now). \<exists>a. ticks cfg j s' = Some a \<and> xTickCount a = now + of_nat j
              \<and> (if xTickCount a = p + i
                 then home a (StateListItem c) = Some (ReadyTasksList (priority_of s' c)) else delayed a c)
       else home s' (StateListItem c) = home s (StateListItem c))"
proof -
  obtain s' where s': "vTaskDelayUntil cfg p i s = Some (p + i, s')" "kernel_inv cfg s'" "unsuspended s'"
    "now - p < i \<longrightarrow> delayed s' c \<and> ticks_left s' c = unat (p + i - now)"
    "\<not> now - p < i \<longrightarrow> home s' (StateListItem c) = home s (StateListItem c)"
    "\<forall>t. t \<noteq> c \<longrightarrow> home s' (StateListItem t) = home s (StateListItem t)"
    "xTickCount s' = now"
    unfolding c_def now_def by (rule delay_until_spec[OF assms(1,2), of p i]) blast
  have u: "uxSchedulerSuspended s' = 0" using s'(3) by (simp add: unsuspended_def)
  have "\<exists>a. ticks cfg j s' = Some a \<and> xTickCount a = now + of_nat j
              \<and> (if xTickCount a = p + i
                 then home a (StateListItem c) = Some (ReadyTasksList (priority_of s' c)) else delayed a c)"
    if lt: "now - p < i" and j: "j \<le> unat (p + i - now)" for j
  proof -
    have d: "delayed s' c" "ticks_left s' c = unat (p + i - now)" using s'(4) lt by auto
    have jj: "now + of_nat j = p + i \<longleftrightarrow> j = unat (p + i - now)"
    proof
      assume "now + of_nat j = p + i"
      then have "(of_nat j :: u32) = p + i - now" by (simp add: algebra_simps)
      moreover have "unat (p + i - now) < 2 ^ 32" by (rule order_less_le_trans[OF unsigned_less]) simp
      then have "j < 2 ^ 32" using j by simp
      ultimately show "j = unat (p + i - now)" by (metis unat_of_nat32)
    qed simp
    obtain a where "ticks cfg j s' = Some a" "xTickCount a = xTickCount s' + of_nat j"
      "j < ticks_left s' c \<longrightarrow> delayed a c"
      "ticks_left s' c \<le> j \<longrightarrow> home a (StateListItem c) = Some (ReadyTasksList (priority_of s' c))"
      by (rule wakes_on_time[OF s'(2) u d(1), of j]) blast
    then show ?thesis using d(2) s'(7) jj j by auto
  qed
  then show ?thesis using s' by auto
qed

theorem delay_until_wakes_at_period_witness:
  "\<exists>s'. vTaskDelayUntil as_built 0xFFFFFFFE 5 demo_two = Some (3, s')
    \<and> (\<exists>a. ticks as_built 2 s' = Some a \<and> delayed a 0x4000)
    \<and> (\<exists>a. ticks as_built 3 s' = Some a
         \<and> home a (StateListItem 0x4000) = Some (ReadyTasksList (priority_of s' 0x4000)))"
proof -
  have e: "(0xFFFFFFFE :: u32) + 5 = 3" "0 - (0xFFFFFFFE :: u32) < 5" "unat (3 - 0 :: u32) = 3"
    by simp_all
  obtain s' where s': "vTaskDelayUntil as_built 0xFFFFFFFE 5 demo_two = Some (3, s')"
    "\<forall>j \<le> 3. \<exists>a. ticks as_built j s' = Some a \<and> xTickCount a = 0 + of_nat j
        \<and> (if xTickCount a = 3 then home a (StateListItem 0x4000) = Some (ReadyTasksList (priority_of s' 0x4000))
           else delayed a 0x4000)"
    using delay_until_wakes_at_period[OF demo_two(2) demo_two_unsuspended, of "0xFFFFFFFE" 5,
        unfolded demo_two(3) demo_two_rest(3) e(1,3)] by (elim exE conjE) (rule that, simp_all only: e(2) if_True)
  show ?thesis using s'(1) spec[OF s'(2), of 2] spec[OF s'(2), of 3] by auto
qed


section \<open>Creating tasks\<close>

text \<open>
  C12: On a kernel that satisfies the invariant, \<open>xTaskCreate\<close> with memory for the stack and the
  control block returns the handle of a new task with the requested priority, cut down to the
  highest one there is. The task is added to the ready list of that priority; no other list and no
  other task changes. Before the scheduler runs the new task becomes the current one exactly when
  its priority is at least that of the current task; later it asks for a context switch exactly
  when its priority is higher. The invariant is kept.
\<close>

theorem create_adds_ready_task:
  fixes pri :: u32
  assumes "kernel_inv cfg s" and "stack_block malloc d s \<noteq> 0" and "tcb_block pp malloc d s = t"
    and "t \<noteq> 0" and "\<not> is_task s t"
  defines "p \<equiv> min pri (configMAX_PRIORITIES - 1)"
  shows "\<exists>s'. xTaskCreate pp cfg malloc fresh code name d arg pri s = Some (Some t, s') \<and> kernel_inv cfg s'
    \<and> is_task s' t \<and> priority_of s' t = p \<and> home s' (StateListItem t) = Some (ReadyTasksList p)
    \<and> set (items s' (ReadyTasksList p)) = insert (StateListItem t) (set (items s (ReadyTasksList p)))
    \<and> (\<forall>u. u \<noteq> t \<longrightarrow> tcbs s' u = tcbs s u)
    \<and> (\<forall>l. l \<in> live cfg s \<longrightarrow> l \<noteq> ReadyTasksList p \<longrightarrow> items s' l = items s l)
    \<and> uxCurrentNumberOfTasks s' = uxCurrentNumberOfTasks s + 1
    \<and> pxCurrentTCB s' = (if \<not> xSchedulerRunning s \<and> priority_of s (pxCurrentTCB s) \<le> p
         then t else pxCurrentTCB s)
    \<and> (PENDING_SOFT_SV s' \<longleftrightarrow> PENDING_SOFT_SV s
         \<or> xSchedulerRunning s \<and> priority_of s (pxCurrentTCB s) < p)"
proof -
  have p: "p = clamp_priority pri"
    unfolding p_def clamp_priority_def configMAX_PRIORITIES_def by (auto simp: min_def) unat_arith+
  show ?thesis unfolding p
    by (rule create_spec[OF assms(1-5), of fresh code name arg pri]) blast
qed

theorem create_adds_ready_task_witness:
  "\<exists>s'. xTaskCreate demo_port as_built page_malloc demo_tcb 0x40200000 0 256 0 99 demo_two = Some (Some 0x6000, s')
    \<and> home s' (StateListItem 0x6000) = Some (ReadyTasksList 14) \<and> pxCurrentTCB s' = 0x6000"
proof -
  have b: "stack_block page_malloc 256 demo_two \<noteq> 0" "tcb_block demo_port page_malloc 256 demo_two = 0x6000"
    by (simp_all add: demo_blocks demo_two_rest)
  have n: "\<not> is_task demo_two 0x6000" by (simp add: demo_two_tasks)
  have "min 99 (configMAX_PRIORITIES - 1) = 14" by (simp add: configMAX_PRIORITIES_def min_def word_le_nat_alt)
  then show ?thesis
    using create_adds_ready_task[OF demo_two(2) b _ n, where pri = 99 and fresh = demo_tcb
        and code = "0x40200000" and name = 0 and arg = 0]
    by (auto simp: demo_two_rest demo_two word_le_nat_alt)
qed

definition blocks_kept :: "heap_call list \<Rightarrow> u32 set" where
  "blocks_kept log = {a. a \<noteq> 0 \<and> (\<exists>n. HeapAlloc n a \<in> set log)} - {a. HeapFree a \<in> set log}"

text \<open>
  C13: When either allocation fails, \<open>xTaskCreate\<close> reports the failure and changes nothing but the
  heap: every block it got it has given back.
\<close>

theorem create_failure_leaks_nothing:
  assumes "stack_block malloc d s = 0 \<or> tcb_block pp malloc d s = 0"
  shows "\<exists>log. xTaskCreate pp cfg malloc fresh code name d arg pri s
      = Some (None, s\<lparr>heap_log := heap_log s @ log\<rparr>) \<and> blocks_kept log = {}"
proof (cases "stack_block malloc d s = 0")
  case True
  then show ?thesis by (auto simp: create_no_stack blocks_kept_def)
next
  case False
  then show ?thesis using assms
    by (auto simp: create_no_tcb after_blocks_def blocks_kept_def
        intro!: exI[of _ "[HeapAlloc (ucast d * sizeof_StackType) (stack_block malloc d s),
          HeapAlloc (sizeof_TCB pp) 0, HeapFree (stack_block malloc d s)]"])
qed

theorem create_failure_leaks_nothing_witness:
  "\<exists>log. xTaskCreate demo_port as_built (\<lambda>n s. if n = 0x60 then 0 else 0x1000) demo_tcb 0x40200000 0 256 0 1 demo_two
      = Some (None, demo_two\<lparr>heap_log := heap_log demo_two @ log\<rparr>) \<and> blocks_kept log = {}"
  by (rule create_failure_leaks_nothing) (simp add: tcb_block_def demo_port_def)

text \<open>
  The first creation initialises the kernel: from a cold start, where no kernel list is set up,
  it establishes the invariant, with the new task the only one, current, and alone on the ready list
  of its priority, and all other lists of the kernel empty.
\<close>

theorem first_create_establishes_invariant:
  fixes pri :: u32
  assumes "cold s" and "stack_block malloc d s \<noteq> 0" and "tcb_block pp malloc d s = t" and "t \<noteq> 0"
  defines "p \<equiv> clamp_priority pri"
  shows "\<exists>s'. xTaskCreate pp cfg malloc fresh code name d arg pri s = Some (Some t, s') \<and> kernel_inv cfg s'
    \<and> pxCurrentTCB s' = t \<and> dom (tcbs s') = {t} \<and> priority_of s' t = p
    \<and> uxCurrentNumberOfTasks s' = 1 \<and> items s' (ReadyTasksList p) = [StateListItem t]
    \<and> (\<forall>l. l \<in> live cfg s \<longrightarrow> l \<noteq> ReadyTasksList p \<longrightarrow> items s' l = [])"
  unfolding p_def by (rule first_create_spec[OF assms(1-4), of cfg fresh code name arg pri]) blast

theorem first_create_establishes_invariant_witness:
  "\<exists>s'. xTaskCreate demo_port as_built page_malloc demo_tcb 0x40200000 0 256 0 1 demo_cold = Some (Some 0x2000, s')
    \<and> kernel_inv as_built s' \<and> pxCurrentTCB s' = 0x2000"
proof -
  have "stack_block page_malloc 256 demo_cold \<noteq> 0" "tcb_block demo_port page_malloc 256 demo_cold = 0x2000"
    by (simp_all add: demo_blocks demo_cold_def)
  then show ?thesis
    using first_create_establishes_invariant[OF demo_cold, where pri = 1 and fresh = demo_tcb
        and code = "0x40200000" and name = 0 and arg = 0 and cfg = as_built
        and malloc = page_malloc and d = 256 and pp = demo_port] by auto
qed

end
