(* ===== verification/Os_Task_Waiting.thy ===== *)
theory Os_Task_Waiting
  imports Os_Task_Ticks
begin

text \<open>
  Event lists ordered by priority: how blocking on one keeps the order and which task leaves first.
\<close>

definition by_priority :: "os \<Rightarrow> list_ref \<Rightarrow> bool" where
  "by_priority s l \<longleftrightarrow> sorted (map (val s) (items s l)) \<and>
     (\<forall>t. EventListItem t \<in> set (items s l) \<longrightarrow> val s (EventListItem t) = configMAX_PRIORITIES - priority_of s t)"

lemma priority_value_le:
  fixes p q :: u32
  assumes "p < configMAX_PRIORITIES" and "q < configMAX_PRIORITIES"
  shows "configMAX_PRIORITIES - p \<le> configMAX_PRIORITIES - q \<longleftrightarrow> q \<le> p"
  using assms unfolding configMAX_PRIORITIES_def by unat_arith

lemma event_list_items:
  assumes k: "kernel_core X cfg s" and l: "l \<in> event_lists s" and i: "i \<in> set (items s l)"
  obtains t where "i = EventListItem t" and "is_task s t" and "owner s i = t"
proof -
  have lv: "l \<in> live cfg s" using l by simp
  have h: "home s i = Some l" using member_home[OF k lv] i by blast
  obtain t where t: "i = EventListItem t" "is_task s t" by (rule event_member[OF k l h])
  then show ?thesis using that coreD(2)[OF k] by (simp add: tasks_ok_def)
qed

lemma first_waiting_highest:
  assumes k: "kernel_core X cfg s" and l: "l \<in> event_lists s" and b: "by_priority s l"
    and i: "items s l = i # is" and u: "EventListItem u \<in> set (items s l)"
  shows "i = EventListItem (first_waiting s l)" and "priority_of s u \<le> priority_of s (first_waiting s l)"
proof -
  obtain t where t: "i = EventListItem t" "is_task s t" "owner s i = t"
    by (rule event_list_items[OF k l, of i]) (use i in auto)
  have f: "first_waiting s l = t" using i t by (simp add: first_waiting_def)
  show "i = EventListItem (first_waiting s l)" using f t by simp
  obtain u' where "EventListItem u = EventListItem u'" "is_task s u'" "owner s (EventListItem u) = u'"
    by (rule event_list_items[OF k l u])
  then have ut: "is_task s u" by simp
  have "val s i \<le> val s (EventListItem u)" using b u i by (auto simp: by_priority_def)
  moreover have "EventListItem t \<in> set (items s l)" using i t by simp
  ultimately have "configMAX_PRIORITIES - priority_of s t \<le> configMAX_PRIORITIES - priority_of s u"
    using b u t unfolding by_priority_def by metis
  then show "priority_of s u \<le> priority_of s (first_waiting s l)"
    using priority_value_le t(2) ut coreD(2)[OF k] unfolding f tasks_ok_def by blast
qed

lemma placed_by_priority:
  assumes k: "kernel_inv cfg s" and l: "l \<in> event_lists s" and b: "by_priority s l"
    and v: "val s (EventListItem (pxCurrentTCB s)) = configMAX_PRIORITIES - priority_of s (pxCurrentTCB s)"
    and s': "items s' l = insert_by_value (val s) (EventListItem (pxCurrentTCB s)) (items s l)"
      "\<And>t. val s' (EventListItem t) = val s (EventListItem t)" "priority_of s' = priority_of s"
  shows "by_priority s' l"
proof -
  let ?c = "EventListItem (pxCurrentTCB s)"
  have ev: "\<exists>t. i = EventListItem t" if "i \<in> set (items s l)" for i
    by (rule event_list_items[OF invD(1)[OF k] l that]) blast
  have "sorted (map (val s) (insert_by_value (val s) ?c (items s l)))"
    using b by (intro insert_by_value_sorted) (simp add: by_priority_def)
  moreover have "map (val s') (items s' l) = map (val s) (items s' l)"
    using ev s'(1,2) by (fastforce simp del: map_eq_conv intro!: map_cong)
  ultimately have "sorted (map (val s') (items s' l))" unfolding s'(1) by metis
  then show ?thesis using b v s' by (auto simp: by_priority_def)
qed

lemma head_removed_by_priority:
  assumes "by_priority s l" and "items s' l = tl (items s l)" and "val s' = val s" and "priority_of s' = priority_of s"
  shows "by_priority s' l"
proof -
  have "sorted (map (val s) (tl (items s l)))"
    using assms(1) by (simp add: by_priority_def map_tl sorted_tl)
  then show ?thesis using assms unfolding by_priority_def by (metis list.set_sel(2) tl_Nil)
qed

text \<open>A task that an event wakes while the scheduler is suspended runs at the next resume.\<close>

lemma wake_then_resume:
  assumes k: "kernel_inv cfg s" and l: "l \<in> event_lists s" "items s l \<noteq> []"
    and one: "uxSchedulerSuspended s = 1" and n: "uxCurrentNumberOfTasks s > 0"
  obtains b s1 y s2 where "xTaskRemoveFromEventList cfg l s = Some (b, s1)" and "kernel_inv cfg s1"
    and "home s1 (StateListItem (first_waiting s l)) = home s (StateListItem (first_waiting s l))"
    and "xTaskResumeAll cfg s1 = Some (y, s2)" and "kernel_inv cfg s2"
    and "home s2 (StateListItem (first_waiting s l)) = Some (ReadyTasksList (priority_of s (first_waiting s l)))"
    and "home s2 (EventListItem (first_waiting s l)) = None"
proof -
  let ?t = "first_waiting s l"
  have sus: "uxSchedulerSuspended s \<noteq> 0" using one by simp
  obtain b s1 where s1: "xTaskRemoveFromEventList cfg l s = Some (b, s1)" "kernel_inv cfg s1" "same_sched s s1"
    "is_task s ?t" "rehomed s s1 (EventListItem ?t) (Some PendingReadyList)"
    by (rule remove_from_event_list_suspended[OF k l sus]) (rule that; assumption)
  note g = same_schedD[OF s1(3)]
  have one1: "uxSchedulerSuspended s1 = 1" "uxCurrentNumberOfTasks s1 > 0" using one n g by simp_all
  obtain y s2 where s2: "xTaskResumeAll cfg s1 = Some (y, s2)" "kernel_inv cfg s2"
    "woken (resume_woken s1) s1 (klists s2)"
    by (rule resume_all_spec[OF s1(2) one1]) blast
  have "?t \<in> resume_woken s1" using s1(4,5) g(1) by (simp add: resume_woken_def pending_def rehomed_def)
  then show ?thesis
    by (intro that[OF s1(1,2) _ s2(1,2)]) (use s1(5) wokenD[OF s2(3)] g(2) in \<open>simp_all add: rehomed_def\<close>)
qed

end
