(* ===== verification/Os_Queue.thy ===== *)
theory Os_Queue
  imports Os_Task_Create Os_Task_Sync
begin

text \<open>
  Queues, semaphores and mutexes: \<^verbatim>\<open>src/ffi/os/queue.c\<close> with \<^verbatim>\<open>queue.h\<close> and the macros of
  \<^verbatim>\<open>semaphore.h\<close>. A queue is its control structure in \<open>queues\<close>, its storage bytes in \<open>mem\<close> and
  its two waiting lists in the list store. Queue sets, co-routines and the queue registry are
  switched off in this repository and have no counterpart here.
\<close>

section \<open>Constants and the structure: queue.h\<close>

definition queueUNLOCKED :: u8 where "queueUNLOCKED = - 1"
definition queueLOCKED_UNMODIFIED :: u8 where "queueLOCKED_UNMODIFIED = 0"
definition queueSEND_TO_BACK :: u32 where "queueSEND_TO_BACK = 0"
definition queueOVERWRITE :: u32 where "queueOVERWRITE = 2"
definition queueQUEUE_IS_MUTEX :: u32 where "queueQUEUE_IS_MUTEX = 0"
definition queueMUTEX_GIVE_BLOCK_TIME :: u32 where "queueMUTEX_GIVE_BLOCK_TIME = 0"

text \<open>Two pointers, a two-word union, two lists of 20 bytes, three words and two lock bytes, padded.\<close>

definition sizeof_Queue :: u32 where "sizeof_Queue = 72"

text \<open>\<open>uxQueueType\<close> is another name for \<open>pcHead\<close>.\<close>

abbreviation uxQueueType :: "Queue \<Rightarrow> u32" where "uxQueueType q \<equiv> pcHead q"

definition upd_queue :: "u32 \<Rightarrow> (Queue \<Rightarrow> Queue) \<Rightarrow> os \<Rightarrow> os option" where
  "upd_queue q f s = do { Q \<leftarrow> queues s q; Some (s\<lparr>queues := (queues s)(q \<mapsto> f Q)\<rparr>) }"

section \<open>Waking one waiting task\<close>

text \<open>
  The test-and-wake that every operation ends with: when the list is not empty its first task is
  woken, and the result says whether that task has a higher priority than the running one.
\<close>

definition wake_one :: "os_config \<Rightarrow> list_ref \<Rightarrow> os \<Rightarrow> (bool \<times> os) option" where
  "wake_one cfg l s =
     (if \<not> listLIST_IS_EMPTY l (klists s) then xTaskRemoveFromEventList cfg l s else Some (False, s))"

definition wake_one_and_yield :: "os_config \<Rightarrow> list_ref \<Rightarrow> os \<Rightarrow> os option" where
  "wake_one_and_yield cfg l s =
     do { (w, s1) \<leftarrow> wake_one cfg l s; Some (if w then portYIELD s1 else s1) }"

section \<open>Creating and resetting\<close>

definition xQueueGenericReset :: "os_config \<Rightarrow> u32 \<Rightarrow> bool \<Rightarrow> os \<Rightarrow> os option" where
  "xQueueGenericReset cfg q xNewQueue s =
     do {
       let s1 = vPortEnterCritical s;
       s2 \<leftarrow> upd_queue q (\<lambda>Q. Q\<lparr>u_word0 := pcHead Q + uxLength Q * uxItemSize Q,
                uxMessagesWaiting := 0,
                pcWriteTo := pcHead Q,
                u_word1 := pcHead Q + (uxLength Q - 1) * uxItemSize Q,
                cRxLock := queueUNLOCKED, cTxLock := queueUNLOCKED\<rparr>) s1;
       s3 \<leftarrow> (if \<not> xNewQueue then wake_one_and_yield cfg (WaitingToSend q) s2
              else Some (os_init_list (WaitingToReceive q) (os_init_list (WaitingToSend q) s2)));
       Some (vPortExitCritical s3)
     }"

definition prvInitialiseNewQueue :: "os_config \<Rightarrow> u32 \<Rightarrow> u32 \<Rightarrow> u32 \<Rightarrow> u32 \<Rightarrow> os \<Rightarrow> os option" where
  "prvInitialiseNewQueue cfg uxQueueLength uxQueueItemSize pucQueueStorage q s =
     do {
       s1 \<leftarrow> upd_queue q (\<lambda>Q. Q\<lparr>pcHead := (if uxQueueItemSize = 0 then q else pucQueueStorage),
                uxLength := uxQueueLength, uxItemSize := uxQueueItemSize\<rparr>) s;
       xQueueGenericReset cfg q True s1
     }"

text \<open>
  The handle, 0 when there is no memory. \<open>fresh\<close> is what the allocated bytes of the structure
  hold.
\<close>

definition xQueueGenericCreate :: "os_config \<Rightarrow> (u32 \<Rightarrow> os \<Rightarrow> u32) \<Rightarrow> Queue \<Rightarrow> u32 \<Rightarrow> u32 \<Rightarrow> os
    \<Rightarrow> (u32 \<times> os) option" where
  "xQueueGenericCreate cfg malloc fresh uxQueueLength uxQueueItemSize s =
     (let xQueueSizeInBytes = (if uxQueueItemSize = 0 then 0 else uxQueueLength * uxQueueItemSize);
          (q, s1) = pvPortMalloc malloc (sizeof_Queue + xQueueSizeInBytes) s
      in if q \<noteq> 0
         then do {
           let s2 = s1\<lparr>queues := (queues s1)(q \<mapsto> fresh)\<rparr>;
           s3 \<leftarrow> prvInitialiseNewQueue cfg uxQueueLength uxQueueItemSize (q + sizeof_Queue) q s2;
           Some (q, s3)
         }
         else Some (0, s1))"

definition vQueueDelete :: "u32 \<Rightarrow> os \<Rightarrow> os" where
  "vQueueDelete q s = (vPortFree q s)\<lparr>queues := (queues s)(q := None)\<rparr>"

section \<open>Copying items\<close>

text \<open>
  The result is what \<open>xTaskPriorityDisinherit\<close> said when a mutex is given back: whether the
  caller's priority dropped and it should yield.
\<close>

definition prvCopyDataToQueue :: "u32 \<Rightarrow> u32 \<Rightarrow> u32 \<Rightarrow> os \<Rightarrow> (bool \<times> os) option" where
  "prvCopyDataToQueue q pvItemToQueue xPosition s =
     do {
       Q \<leftarrow> queues s q;
       let n = uxMessagesWaiting Q;
       (r, n1, s1) \<leftarrow>
         (if uxItemSize Q = 0
          then (if uxQueueType Q = queueQUEUE_IS_MUTEX
                then do { (y, s') \<leftarrow> xTaskPriorityDisinherit (xMutexHolder Q) s;
                          s'' \<leftarrow> upd_queue q (\<lambda>Q. Q\<lparr>u_word0 := 0\<rparr>) s';
                          Some (y, n, s'') }
                else Some (False, n, s))
          else if xPosition = queueSEND_TO_BACK
          then do {
            let s' = s\<lparr>mem := memcpy_bytes (pcWriteTo Q) pvItemToQueue (uxItemSize Q) (mem s)\<rparr>;
            let w = pcWriteTo Q + uxItemSize Q;
            s'' \<leftarrow> upd_queue q (\<lambda>Q. Q\<lparr>pcWriteTo := (if w \<ge> pcTail Q then pcHead Q else w)\<rparr>) s';
            Some (False, n, s'')
          }
          else do {
            let s' = s\<lparr>mem := memcpy_bytes (pcReadFrom Q) pvItemToQueue (uxItemSize Q) (mem s)\<rparr>;
            let r = pcReadFrom Q - uxItemSize Q;
            s'' \<leftarrow> upd_queue q (\<lambda>Q. Q\<lparr>u_word1 := (if r < pcHead Q then pcTail Q - uxItemSize Q else r)\<rparr>) s';
            Some (False, if xPosition = queueOVERWRITE \<and> n > 0 then n - 1 else n, s'')
          });
       s2 \<leftarrow> upd_queue q (\<lambda>Q. Q\<lparr>uxMessagesWaiting := n1 + 1\<rparr>) s1;
       Some (r, s2)
     }"

definition prvCopyDataFromQueue :: "u32 \<Rightarrow> u32 \<Rightarrow> os \<Rightarrow> os option" where
  "prvCopyDataFromQueue q pvBuffer s =
     do {
       Q \<leftarrow> queues s q;
       (if uxItemSize Q \<noteq> 0
        then do {
          let r = pcReadFrom Q + uxItemSize Q;
          let r1 = (if r \<ge> pcTail Q then pcHead Q else r);
          s1 \<leftarrow> upd_queue q (\<lambda>Q. Q\<lparr>u_word1 := r1\<rparr>) s;
          Some (s1\<lparr>mem := memcpy_bytes pvBuffer r1 (uxItemSize Q) (mem s1)\<rparr>)
        }
        else Some s)
     }"

section \<open>Locking\<close>

definition prvLockQueue :: "u32 \<Rightarrow> os \<Rightarrow> os option" where
  "prvLockQueue q s =
     do {
       s1 \<leftarrow> upd_queue q (\<lambda>Q. Q\<lparr>cRxLock := (if cRxLock Q = queueUNLOCKED then queueLOCKED_UNMODIFIED else cRxLock Q),
                cTxLock := (if cTxLock Q = queueUNLOCKED then queueLOCKED_UNMODIFIED else cTxLock Q)\<rparr>)
              (vPortEnterCritical s);
       Some (vPortExitCritical s1)
     }"

text \<open>
  A positive lock count is the number of items moved by interrupts while the queue was locked.
  One waiting task is woken for each, until nobody waits.
\<close>

definition lock_count :: "u8 \<Rightarrow> nat" where
  "lock_count c = nat (sint c)"

fun unlock_loop :: "os_config \<Rightarrow> list_ref \<Rightarrow> nat \<Rightarrow> os \<Rightarrow> os option" where
  "unlock_loop cfg l 0 s = Some s"
| "unlock_loop cfg l (Suc n) s =
     (if \<not> listLIST_IS_EMPTY l (klists s)
      then do {
        (w, s1) \<leftarrow> xTaskRemoveFromEventList cfg l s;
        unlock_loop cfg l n (if w then vTaskMissedYield s1 else s1)
      }
      else Some s)"

definition prvUnlockQueue :: "os_config \<Rightarrow> u32 \<Rightarrow> os \<Rightarrow> os option" where
  "prvUnlockQueue cfg q s =
     do {
       let s1 = vPortEnterCritical s;
       Q \<leftarrow> queues s1 q;
       s2 \<leftarrow> unlock_loop cfg (WaitingToReceive q) (lock_count (cTxLock Q)) s1;
       s3 \<leftarrow> upd_queue q (\<lambda>Q. Q\<lparr>cTxLock := queueUNLOCKED\<rparr>) s2;
       let s4 = vPortEnterCritical (vPortExitCritical s3);
       Q' \<leftarrow> queues s4 q;
       s5 \<leftarrow> unlock_loop cfg (WaitingToSend q) (lock_count (cRxLock Q')) s4;
       s6 \<leftarrow> upd_queue q (\<lambda>Q. Q\<lparr>cRxLock := queueUNLOCKED\<rparr>) s5;
       Some (vPortExitCritical s6)
     }"

section \<open>Queries\<close>

definition prvIsQueueEmpty :: "u32 \<Rightarrow> os \<Rightarrow> (bool \<times> os) option" where
  "prvIsQueueEmpty q s =
     do { let s1 = vPortEnterCritical s; Q \<leftarrow> queues s1 q;
          Some (uxMessagesWaiting Q = 0, vPortExitCritical s1) }"

definition prvIsQueueFull :: "u32 \<Rightarrow> os \<Rightarrow> (bool \<times> os) option" where
  "prvIsQueueFull q s =
     do { let s1 = vPortEnterCritical s; Q \<leftarrow> queues s1 q;
          Some (uxMessagesWaiting Q = uxLength Q, vPortExitCritical s1) }"

definition xQueueIsQueueEmptyFromISR :: "u32 \<Rightarrow> os \<Rightarrow> bool option" where
  "xQueueIsQueueEmptyFromISR q s = do { Q \<leftarrow> queues s q; Some (uxMessagesWaiting Q = 0) }"

definition xQueueIsQueueFullFromISR :: "u32 \<Rightarrow> os \<Rightarrow> bool option" where
  "xQueueIsQueueFullFromISR q s = do { Q \<leftarrow> queues s q; Some (uxMessagesWaiting Q = uxLength Q) }"

definition uxQueueMessagesWaiting :: "u32 \<Rightarrow> os \<Rightarrow> (u32 \<times> os) option" where
  "uxQueueMessagesWaiting q s =
     do { let s1 = vPortEnterCritical s; Q \<leftarrow> queues s1 q;
          Some (uxMessagesWaiting Q, vPortExitCritical s1) }"

definition uxQueueSpacesAvailable :: "u32 \<Rightarrow> os \<Rightarrow> (u32 \<times> os) option" where
  "uxQueueSpacesAvailable q s =
     do { let s1 = vPortEnterCritical s; Q \<leftarrow> queues s1 q;
          Some (uxLength Q - uxMessagesWaiting Q, vPortExitCritical s1) }"

definition uxQueueMessagesWaitingFromISR :: "u32 \<Rightarrow> os \<Rightarrow> u32 option" where
  "uxQueueMessagesWaitingFromISR q s = do { Q \<leftarrow> queues s q; Some (uxMessagesWaiting Q) }"

definition prvGetDisinheritPriorityAfterTimeout :: "u32 \<Rightarrow> os \<Rightarrow> u32" where
  "prvGetDisinheritPriorityAfterTimeout q s =
     (if listCURRENT_LIST_LENGTH (WaitingToReceive q) (klists s) > 0
      then configMAX_PRIORITIES - listGET_ITEM_VALUE_OF_HEAD_ENTRY (WaitingToReceive q) (klists s)
      else tskIDLE_PRIORITY)"

section \<open>Blocking\<close>

text \<open>
  The blocking operations loop. Between the steps of one pass other code runs: before the
  scheduler is suspended, in interrupts while the queue is locked, and after the scheduler was
  resumed until this task runs again. An operation takes a list of such passes; it is still
  blocked when it has to wait and the list is used up.
\<close>

record preemption =
  before_suspend :: "os \<Rightarrow> os option"
  while_locked :: "os \<Rightarrow> os option"
  after_resume :: "os \<Rightarrow> os option"

definition undisturbed :: preemption where
  "undisturbed = \<lparr>before_suspend = Some, while_locked = Some, after_resume = Some\<rparr>"

datatype 'a api_result = Returned 'a os | StillBlocked os

text \<open>Both exits of a pass unlock the queue and resume the scheduler.\<close>

definition unlock_and_resume :: "os_config \<Rightarrow> u32 \<Rightarrow> os \<Rightarrow> (bool \<times> os) option" where
  "unlock_and_resume cfg q s = do { s1 \<leftarrow> prvUnlockQueue cfg q s; xTaskResumeAll cfg s1 }"

text \<open>From the end of the critical section to the time-out check.\<close>

definition suspend_and_check :: "os_config \<Rightarrow> preemption \<Rightarrow> u32 \<Rightarrow> TimeOut \<Rightarrow> u32 \<Rightarrow> os
    \<Rightarrow> (bool \<times> TimeOut \<times> u32 \<times> os) option" where
  "suspend_and_check cfg e q xTimeOut xTicksToWait s =
     do {
       s1 \<leftarrow> before_suspend e s;
       s2 \<leftarrow> prvLockQueue q (vTaskSuspendAll s1);
       s3 \<leftarrow> while_locked e s2;
       xTaskCheckForTimeOut cfg xTimeOut xTicksToWait s3
     }"

text \<open>Waiting on an event list, with the yield that follows unless resuming has already yielded.\<close>

definition block_on :: "os_config \<Rightarrow> list_ref \<Rightarrow> u32 \<Rightarrow> u32 \<Rightarrow> os \<Rightarrow> os option" where
  "block_on cfg l q xTicksToWait s =
     do {
       s1 \<leftarrow> vTaskPlaceOnEventList cfg l xTicksToWait s;
       (y, s2) \<leftarrow> unlock_and_resume cfg q s1;
       Some (if y then s2 else portYIELD s2)
     }"

section \<open>Sending\<close>

definition send_now :: "os_config \<Rightarrow> u32 \<Rightarrow> u32 \<Rightarrow> u32 \<Rightarrow> os \<Rightarrow> os option" where
  "send_now cfg q pvItemToQueue xCopyPosition s =
     do {
       (xYieldRequired, s1) \<leftarrow> prvCopyDataToQueue q pvItemToQueue xCopyPosition s;
       (if \<not> listLIST_IS_EMPTY (WaitingToReceive q) (klists s1)
        then wake_one_and_yield cfg (WaitingToReceive q) s1
        else Some (if xYieldRequired then portYIELD s1 else s1))
     }"

text \<open>The critical section at the head of the loop: \<open>Some r\<close> is a return, \<open>None\<close> goes on to wait.\<close>

definition send_pass :: "os_config \<Rightarrow> u32 \<Rightarrow> u32 \<Rightarrow> u32 \<Rightarrow> u32 \<Rightarrow> os \<Rightarrow> (bool option \<times> os) option" where
  "send_pass cfg q pvItemToQueue xCopyPosition xTicksToWait s =
     do {
       let s1 = vPortEnterCritical s;
       Q \<leftarrow> queues s1 q;
       (if uxMessagesWaiting Q < uxLength Q \<or> xCopyPosition = queueOVERWRITE
        then do { s2 \<leftarrow> send_now cfg q pvItemToQueue xCopyPosition s1;
                  Some (Some True, vPortExitCritical s2) }
        else Some (if xTicksToWait = 0 then Some False else None, vPortExitCritical s1))
     }"

fun send_loop :: "os_config \<Rightarrow> u32 \<Rightarrow> u32 \<Rightarrow> u32 \<Rightarrow> preemption list \<Rightarrow> TimeOut option \<Rightarrow> u32 \<Rightarrow> os
    \<Rightarrow> bool api_result option" where
  "send_loop cfg q item pos [] to ticks s =
     do { (r, s1) \<leftarrow> send_pass cfg q item pos ticks s;
          Some (case r of Some b \<Rightarrow> Returned b s1 | None \<Rightarrow> StillBlocked s1) }"
| "send_loop cfg q item pos (e # es) to ticks s =
     do {
       (r, s1) \<leftarrow> send_pass cfg q item pos ticks s;
       (case r of Some b \<Rightarrow> Some (Returned b s1)
        | None \<Rightarrow> do {
            let to1 = (case to of None \<Rightarrow> vTaskInternalSetTimeOutState s1 | Some x \<Rightarrow> x);
            (expired, to2, ticks2, s2) \<leftarrow> suspend_and_check cfg e q to1 ticks s1;
            (if \<not> expired
             then do {
               (full, s3) \<leftarrow> prvIsQueueFull q s2;
               s4 \<leftarrow> (if full then block_on cfg (WaitingToSend q) q ticks2 s3
                      else map_option snd (unlock_and_resume cfg q s3));
               s5 \<leftarrow> after_resume e s4;
               send_loop cfg q item pos es (Some to2) ticks2 s5
             }
             else do { (_, s3) \<leftarrow> unlock_and_resume cfg q s2; Some (Returned False s3) })
          })
     }"

definition xQueueGenericSend :: "os_config \<Rightarrow> preemption list \<Rightarrow> u32 \<Rightarrow> u32 \<Rightarrow> u32 \<Rightarrow> u32 \<Rightarrow> os
    \<Rightarrow> bool api_result option" where
  "xQueueGenericSend cfg es q pvItemToQueue xTicksToWait xCopyPosition s =
     send_loop cfg q pvItemToQueue xCopyPosition es None xTicksToWait s"

text \<open>From interrupts: result, whether a higher priority task was woken, state.\<close>

definition xQueueGenericSendFromISR :: "os_config \<Rightarrow> u32 \<Rightarrow> u32 \<Rightarrow> u32 \<Rightarrow> os \<Rightarrow> (bool \<times> bool \<times> os) option" where
  "xQueueGenericSendFromISR cfg q pvItemToQueue xCopyPosition s =
     do {
       Q \<leftarrow> queues s q;
       (if uxMessagesWaiting Q < uxLength Q \<or> xCopyPosition = queueOVERWRITE
        then do {
          let lock = cTxLock Q;
          (_, s1) \<leftarrow> prvCopyDataToQueue q pvItemToQueue xCopyPosition s;
          (woken, s2) \<leftarrow> (if lock = queueUNLOCKED then wake_one cfg (WaitingToReceive q) s1
                          else do { s' \<leftarrow> upd_queue q (\<lambda>Q. Q\<lparr>cTxLock := lock + 1\<rparr>) s1; Some (False, s') });
          Some (True, woken, s2)
        }
        else Some (False, False, s))
     }"

definition xQueueGiveFromISR :: "os_config \<Rightarrow> u32 \<Rightarrow> os \<Rightarrow> (bool \<times> bool \<times> os) option" where
  "xQueueGiveFromISR cfg q s =
     do {
       Q \<leftarrow> queues s q;
       (if uxMessagesWaiting Q < uxLength Q
        then do {
          let lock = cTxLock Q;
          s1 \<leftarrow> upd_queue q (\<lambda>Q'. Q'\<lparr>uxMessagesWaiting := uxMessagesWaiting Q + 1\<rparr>) s;
          (woken, s2) \<leftarrow> (if lock = queueUNLOCKED then wake_one cfg (WaitingToReceive q) s1
                          else do { s' \<leftarrow> upd_queue q (\<lambda>Q. Q\<lparr>cTxLock := lock + 1\<rparr>) s1; Some (False, s') });
          Some (True, woken, s2)
        }
        else Some (False, False, s))
     }"

section \<open>Receiving\<close>

definition receive_pass :: "os_config \<Rightarrow> u32 \<Rightarrow> u32 \<Rightarrow> u32 \<Rightarrow> os \<Rightarrow> (bool option \<times> os) option" where
  "receive_pass cfg q pvBuffer xTicksToWait s =
     do {
       let s1 = vPortEnterCritical s;
       Q \<leftarrow> queues s1 q;
       (if uxMessagesWaiting Q > 0
        then do {
          s2 \<leftarrow> prvCopyDataFromQueue q pvBuffer s1;
          s3 \<leftarrow> upd_queue q (\<lambda>Q'. Q'\<lparr>uxMessagesWaiting := uxMessagesWaiting Q - 1\<rparr>) s2;
          s4 \<leftarrow> wake_one_and_yield cfg (WaitingToSend q) s3;
          Some (Some True, vPortExitCritical s4)
        }
        else Some (if xTicksToWait = 0 then Some False else None, vPortExitCritical s1))
     }"

definition peek_pass :: "os_config \<Rightarrow> u32 \<Rightarrow> u32 \<Rightarrow> u32 \<Rightarrow> os \<Rightarrow> (bool option \<times> os) option" where
  "peek_pass cfg q pvBuffer xTicksToWait s =
     do {
       let s1 = vPortEnterCritical s;
       Q \<leftarrow> queues s1 q;
       (if uxMessagesWaiting Q > 0
        then do {
          let pcOriginalReadPosition = pcReadFrom Q;
          s2 \<leftarrow> prvCopyDataFromQueue q pvBuffer s1;
          s3 \<leftarrow> upd_queue q (\<lambda>Q'. Q'\<lparr>u_word1 := pcOriginalReadPosition\<rparr>) s2;
          s4 \<leftarrow> wake_one_and_yield cfg (WaitingToReceive q) s3;
          Some (Some True, vPortExitCritical s4)
        }
        else Some (if xTicksToWait = 0 then Some False else None, vPortExitCritical s1))
     }"

text \<open>
  Receiving and peeking share the rest of the loop; \<open>pass\<close> is the critical section at its head.
  When the time is up and the queue has an item again, the loop goes round once more.
\<close>

fun receive_loop :: "os_config \<Rightarrow> (u32 \<Rightarrow> os \<Rightarrow> (bool option \<times> os) option) \<Rightarrow> u32 \<Rightarrow> preemption list
    \<Rightarrow> TimeOut option \<Rightarrow> u32 \<Rightarrow> os \<Rightarrow> bool api_result option" where
  "receive_loop cfg pass q [] to ticks s =
     do { (r, s1) \<leftarrow> pass ticks s;
          Some (case r of Some b \<Rightarrow> Returned b s1 | None \<Rightarrow> StillBlocked s1) }"
| "receive_loop cfg pass q (e # es) to ticks s =
     do {
       (r, s1) \<leftarrow> pass ticks s;
       (case r of Some b \<Rightarrow> Some (Returned b s1)
        | None \<Rightarrow> do {
            let to1 = (case to of None \<Rightarrow> vTaskInternalSetTimeOutState s1 | Some x \<Rightarrow> x);
            (expired, to2, ticks2, s2) \<leftarrow> suspend_and_check cfg e q to1 ticks s1;
            (if \<not> expired
             then do {
               (empty, s3) \<leftarrow> prvIsQueueEmpty q s2;
               s4 \<leftarrow> (if empty then block_on cfg (WaitingToReceive q) q ticks2 s3
                      else map_option snd (unlock_and_resume cfg q s3));
               s5 \<leftarrow> after_resume e s4;
               receive_loop cfg pass q es (Some to2) ticks2 s5
             }
             else do {
               (_, s3) \<leftarrow> unlock_and_resume cfg q s2;
               (empty, s4) \<leftarrow> prvIsQueueEmpty q s3;
               (if empty then Some (Returned False s4)
                else do { s5 \<leftarrow> after_resume e s4; receive_loop cfg pass q es (Some to2) ticks2 s5 })
             })
          })
     }"

definition xQueueReceive :: "os_config \<Rightarrow> preemption list \<Rightarrow> u32 \<Rightarrow> u32 \<Rightarrow> u32 \<Rightarrow> os
    \<Rightarrow> bool api_result option" where
  "xQueueReceive cfg es q pvBuffer xTicksToWait s =
     receive_loop cfg (receive_pass cfg q pvBuffer) q es None xTicksToWait s"

definition xQueuePeek :: "os_config \<Rightarrow> preemption list \<Rightarrow> u32 \<Rightarrow> u32 \<Rightarrow> u32 \<Rightarrow> os
    \<Rightarrow> bool api_result option" where
  "xQueuePeek cfg es q pvBuffer xTicksToWait s =
     receive_loop cfg (peek_pass cfg q pvBuffer) q es None xTicksToWait s"

text \<open>The wrapper of \<^verbatim>\<open>port.c\<close>; its last argument is only asserted on.\<close>

definition xQueueGenericReceive :: "os_config \<Rightarrow> preemption list \<Rightarrow> u32 \<Rightarrow> u32 \<Rightarrow> u32 \<Rightarrow> bool \<Rightarrow> os
    \<Rightarrow> bool api_result option" where
  "xQueueGenericReceive cfg es q pvBuffer xTicksToWait xJustPeeking s =
     xQueueReceive cfg es q pvBuffer xTicksToWait s"

definition xQueueReceiveFromISR :: "os_config \<Rightarrow> u32 \<Rightarrow> u32 \<Rightarrow> os \<Rightarrow> (bool \<times> bool \<times> os) option" where
  "xQueueReceiveFromISR cfg q pvBuffer s =
     do {
       Q \<leftarrow> queues s q;
       (if uxMessagesWaiting Q > 0
        then do {
          let lock = cRxLock Q;
          s1 \<leftarrow> prvCopyDataFromQueue q pvBuffer s;
          s2 \<leftarrow> upd_queue q (\<lambda>Q'. Q'\<lparr>uxMessagesWaiting := uxMessagesWaiting Q - 1\<rparr>) s1;
          (woken, s3) \<leftarrow> (if lock = queueUNLOCKED then wake_one cfg (WaitingToSend q) s2
                          else do { s' \<leftarrow> upd_queue q (\<lambda>Q. Q\<lparr>cRxLock := lock + 1\<rparr>) s2; Some (False, s') });
          Some (True, woken, s3)
        }
        else Some (False, False, s))
     }"

definition xQueuePeekFromISR :: "u32 \<Rightarrow> u32 \<Rightarrow> os \<Rightarrow> (bool \<times> os) option" where
  "xQueuePeekFromISR q pvBuffer s =
     do {
       Q \<leftarrow> queues s q;
       (if uxMessagesWaiting Q > 0
        then do {
          let pcOriginalReadPosition = pcReadFrom Q;
          s1 \<leftarrow> prvCopyDataFromQueue q pvBuffer s;
          s2 \<leftarrow> upd_queue q (\<lambda>Q'. Q'\<lparr>u_word1 := pcOriginalReadPosition\<rparr>) s1;
          Some (True, s2)
        }
        else Some (False, s))
     }"

definition vQueueWaitForMessageRestricted :: "os_config \<Rightarrow> u32 \<Rightarrow> u32 \<Rightarrow> bool \<Rightarrow> os \<Rightarrow> os option" where
  "vQueueWaitForMessageRestricted cfg q xTicksToWait xWaitIndefinitely s =
     do {
       s1 \<leftarrow> prvLockQueue q s;
       Q \<leftarrow> queues s1 q;
       s2 \<leftarrow> (if uxMessagesWaiting Q = 0
              then vTaskPlaceOnEventListRestricted cfg (WaitingToReceive q) xTicksToWait xWaitIndefinitely s1
              else Some s1);
       prvUnlockQueue cfg q s2
     }"

end
