(* ===== verification/Os_Queue_Ring.thy ===== *)
theory Os_Queue_Ring
  imports Os_Queue
begin

text \<open>
  The storage of a queue as a ring of slots and its abstraction to the list of the messages in it:
  the oldest is in the slot behind \<open>pcReadFrom\<close>, the next free slot is at \<open>pcWriteTo\<close>.
\<close>

section \<open>Blocks of memory\<close>

definition block :: "(u32 \<Rightarrow> u8) \<Rightarrow> u32 \<Rightarrow> u32 \<Rightarrow> u8 list" where
  "block m a n = map (\<lambda>i. m (a + of_nat i)) [0..<unat n]"

definition apart :: "u32 \<Rightarrow> u32 \<Rightarrow> u32 \<Rightarrow> bool" where
  "apart a b n \<longleftrightarrow> (\<forall>i < unat n. \<not> (a + of_nat i - b < n))"

lemma of_nat_less_word: "i < unat n \<Longrightarrow> (of_nat i :: u32) < n"
proof -
  assume i: "i < unat n"
  moreover have "unat n < 2 ^ 32" by (rule order_less_le_trans[OF unsigned_less]) simp
  ultimately show ?thesis by (simp add: word_less_nat_alt unat_of_nat32)
qed

lemma block_copied: "block (memcpy_bytes dst src n m) dst n = block m src n"
  by (simp add: block_def memcpy_bytes_def of_nat_less_word)

lemma block_kept: "apart a dst n \<Longrightarrow> block (memcpy_bytes dst src n m) a n = block m a n"
  by (simp add: block_def memcpy_bytes_def apart_def)

section \<open>The ring\<close>

definition slot :: "Queue \<Rightarrow> nat \<Rightarrow> u32" where
  "slot Q j = pcHead Q + of_nat j * uxItemSize Q"

abbreviation cap :: "Queue \<Rightarrow> nat" where "cap Q \<equiv> unat (uxLength Q)"
abbreviation size_of :: "Queue \<Rightarrow> nat" where "size_of Q \<equiv> unat (uxItemSize Q)"
abbreviation waiting :: "Queue \<Rightarrow> nat" where "waiting Q \<equiv> unat (uxMessagesWaiting Q)"

definition storage_ok :: "Queue \<Rightarrow> bool" where
  "storage_ok Q \<longleftrightarrow> uxItemSize Q \<noteq> 0 \<and> uxLength Q \<noteq> 0 \<and> uxItemSize Q \<le> pcHead Q
     \<and> unat (pcHead Q) + cap Q * size_of Q < 2 ^ 32 \<and> pcTail Q = slot Q (cap Q)"

definition ring :: "Queue \<Rightarrow> nat \<Rightarrow> bool" where
  "ring Q r \<longleftrightarrow> storage_ok Q \<and> r < cap Q \<and> waiting Q \<le> cap Q \<and> pcReadFrom Q = slot Q r
     \<and> pcWriteTo Q = slot Q ((r + 1 + waiting Q) mod cap Q)"

lemma slot_address:
  assumes "storage_ok Q" and "j \<le> cap Q"
  shows "unat (slot Q j) = unat (pcHead Q) + j * size_of Q"
proof -
  have b: "unat (pcHead Q) + j * size_of Q < 2 ^ 32"
    using assms(1) mult_le_mono1[OF assms(2), of "size_of Q"] unfolding storage_ok_def by linarith
  have "slot Q j = of_nat (unat (pcHead Q) + j * size_of Q)" by (simp add: slot_def)
  then show ?thesis using unat_of_nat32[OF b] by simp
qed

lemma slot_inside:
  assumes s: "storage_ok Q" and j: "j < cap Q" and i: "i < size_of Q"
  shows "unat (slot Q j + of_nat i) = unat (pcHead Q) + j * size_of Q + i"
proof -
  have "j * size_of Q + i < cap Q * size_of Q"
    using mult_le_mono1[of "Suc j" "cap Q" "size_of Q"] j i by simp
  then have b: "unat (pcHead Q) + j * size_of Q + i < 2 ^ 32" using s by (simp add: storage_ok_def)
  have "slot Q j + of_nat i = of_nat (unat (pcHead Q) + j * size_of Q + i)" by (simp add: slot_def)
  then show ?thesis using unat_of_nat32[OF b] by simp
qed

lemma slots_apart:
  assumes s: "storage_ok Q" and j: "j < cap Q" and k: "k < cap Q" and jk: "j \<noteq> k"
  shows "apart (slot Q j) (slot Q k) (uxItemSize Q)"
  unfolding apart_def
proof (intro allI impI)
  fix i assume i: "i < size_of Q"
  let ?x = "slot Q j + of_nat i" and ?d = "slot Q k"
  have x: "unat ?x = unat (pcHead Q) + j * size_of Q + i" by (rule slot_inside[OF s j i])
  have d: "unat ?d = unat (pcHead Q) + k * size_of Q" by (rule slot_address[OF s less_imp_le[OF k]])
  show "\<not> ?x - ?d < uxItemSize Q"
  proof (cases "j < k")
    case True
    have lt: "j * size_of Q + size_of Q \<le> k * size_of Q"
      using mult_le_mono1[of "Suc j" k "size_of Q"] True by simp
    have kb: "k * size_of Q + size_of Q \<le> cap Q * size_of Q"
      using mult_le_mono1[of "Suc k" "cap Q" "size_of Q"] k by simp
    have "?x < ?d" using x d lt i by (simp add: word_less_nat_alt)
    then have "unat (?x - ?d) = unat ?x + 2 ^ 32 - unat ?d" by (simp add: unat_sub_if' word_less_nat_alt)
    then have "unat (?x - ?d) \<ge> size_of Q"
      using x d kb s unfolding storage_ok_def by linarith
    then show ?thesis by (simp add: word_less_nat_alt)
  next
    case False
    then have "k * size_of Q + size_of Q \<le> j * size_of Q"
      using mult_le_mono1[of "Suc k" j "size_of Q"] jk by simp
    then have "unat (?x - ?d) \<ge> size_of Q" using x d by (simp add: unat_sub word_le_nat_alt)
    then show ?thesis by (simp add: word_less_nat_alt)
  qed
qed

lemma ring_index_inj:
  fixes N :: nat
  assumes "a < N" and "b < N" and "(c + a) mod N = (c + b) mod N"
  shows "a = b"
proof -
  have le: "x = y" if "x \<le> y" "y < N" "(c + x) mod N = (c + y) mod N" for x y
  proof -
    have "N dvd (c + y) - (c + x)" using mod_eq_dvd_iff_nat[of "c + x" "c + y" N] that by simp
    then show ?thesis using that by (auto dest: dvd_imp_le)
  qed
  show ?thesis using le[of a b] le[of b a] assms by (metis nle_le)
qed

section \<open>The messages\<close>

definition read_slot :: "Queue \<Rightarrow> nat" where
  "read_slot Q = unat ((pcReadFrom Q - pcHead Q) div uxItemSize Q)"

definition slots_from :: "Queue \<Rightarrow> (u32 \<Rightarrow> u8) \<Rightarrow> nat \<Rightarrow> nat \<Rightarrow> u8 list list" where
  "slots_from Q m r n = map (\<lambda>k. block m (slot Q ((r + 1 + k) mod cap Q)) (uxItemSize Q)) [0..<n]"

definition contents :: "Queue \<Rightarrow> (u32 \<Rightarrow> u8) \<Rightarrow> u8 list list" where
  "contents Q m = slots_from Q m (read_slot Q) (waiting Q)"

lemma read_slot_eq:
  assumes "ring Q r"
  shows "read_slot Q = r"
proof -
  have s: "storage_ok Q" and r: "r < cap Q" and p: "pcReadFrom Q = slot Q r"
    using assms by (simp_all add: ring_def)
  have b: "r * size_of Q < 2 ^ 32"
    using slot_address[OF s less_imp_le[OF r]] unsigned_less[of "slot Q r"] s mult_le_mono1[OF less_imp_le[OF r], of "size_of Q"]
    unfolding storage_ok_def by linarith
  have "pcReadFrom Q - pcHead Q = of_nat (r * size_of Q)" by (simp add: p slot_def)
  then have "unat (pcReadFrom Q - pcHead Q) = r * size_of Q" using unat_of_nat32[OF b] by simp
  moreover have "size_of Q \<noteq> 0" using s by (simp add: storage_ok_def unat_eq_zero)
  ultimately show ?thesis by (simp add: read_slot_def unat_div)
qed

lemma contents_length: "length (contents Q m) = waiting Q"
  by (simp add: contents_def slots_from_def)

lemma contents_eq: "ring Q r \<Longrightarrow> contents Q m = slots_from Q m r (waiting Q)"
  by (simp add: contents_def read_slot_eq)

text \<open>The pointers step around the ring.\<close>

lemma slot_0: "slot Q 0 = pcHead Q"
  by (simp add: slot_def)

lemma slot_Suc: "slot Q (Suc j) = slot Q j + uxItemSize Q"
  by (simp add: slot_def algebra_simps)

lemma slot_le_iff: "storage_ok Q \<Longrightarrow> j \<le> cap Q \<Longrightarrow> k \<le> cap Q \<Longrightarrow> slot Q j \<le> slot Q k \<longleftrightarrow> j \<le> k"
  by (auto simp: word_le_nat_alt slot_address storage_ok_def unat_eq_zero)

lemma pointer_forward:
  assumes s: "storage_ok Q" and j: "j < cap Q"
  shows "(if slot Q j + uxItemSize Q \<ge> pcTail Q then pcHead Q else slot Q j + uxItemSize Q)
     = slot Q (Suc j mod cap Q)"
proof -
  have t: "pcTail Q = slot Q (cap Q)" using s by (simp add: storage_ok_def)
  show ?thesis
    using slot_le_iff[OF s, of "cap Q" "Suc j"] j
    by (cases "Suc j = cap Q") (auto simp: t slot_Suc[symmetric] slot_0)
qed

lemma pointer_backward:
  assumes s: "storage_ok Q" and j: "j < cap Q"
  shows "(if slot Q j - uxItemSize Q < pcHead Q then pcTail Q - uxItemSize Q else slot Q j - uxItemSize Q)
     = slot Q ((j + cap Q - 1) mod cap Q)"
proof (cases j)
  case 0
  have z: "uxItemSize Q \<le> pcHead Q" "uxItemSize Q \<noteq> 0" and t: "pcTail Q = slot Q (cap Q)"
    using s by (simp_all add: storage_ok_def)
  have "pcHead Q - uxItemSize Q < pcHead Q" using z by unat_arith
  moreover have "slot Q (cap Q) - uxItemSize Q = slot Q (cap Q - 1)"
    using slot_Suc[of Q "cap Q - 1"] j 0 by simp
  ultimately show ?thesis using 0 j by (simp add: slot_0 t)
next
  case (Suc i)
  then have "slot Q j - uxItemSize Q = slot Q i" by (simp add: slot_Suc)
  moreover have "\<not> slot Q i < pcHead Q"
    using slot_le_iff[OF s, of 0 i] Suc j by (simp add: slot_0 not_less)
  moreover have "(j + cap Q - 1) mod cap Q = i" using Suc j by simp
  ultimately show ?thesis by simp
qed

section \<open>Sending and receiving\<close>

text \<open>Writing a slot that is not one of the first \<open>n\<close> keeps the messages in these.\<close>

lemma slots_kept:
  assumes s: "storage_ok Q" and j: "j < cap Q" and n: "\<And>k. k < n \<Longrightarrow> (r + 1 + k) mod cap Q \<noteq> j"
  shows "slots_from Q (memcpy_bytes (slot Q j) src (uxItemSize Q) m) r n = slots_from Q m r n"
proof -
  have "cap Q > 0" using j by simp
  then have "apart (slot Q ((r + 1 + k) mod cap Q)) (slot Q j) (uxItemSize Q)" if "k < n" for k
    using slots_apart[OF s _ j n[OF that]] by simp
  then show ?thesis by (simp add: slots_from_def block_kept)
qed

lemma slots_snoc:
  "slots_from Q m r (Suc n) = slots_from Q m r n @ [block m (slot Q ((r + 1 + n) mod cap Q)) (uxItemSize Q)]"
  by (simp add: slots_from_def)

lemma slots_cons:
  assumes "r < cap Q"
  shows "slots_from Q m ((r + cap Q - 1) mod cap Q) (Suc n)
     = block m (slot Q r) (uxItemSize Q) # slots_from Q m r n"
proof -
  let ?r = "(r + cap Q - 1) mod cap Q"
  have a: "(?r + 1 + k) mod cap Q = (r + k) mod cap Q" for k
  proof -
    have "(?r + 1 + k) mod cap Q = (r + cap Q - 1 + 1 + k) mod cap Q" by (metis mod_add_left_eq add.assoc)
    also have "r + cap Q - 1 + 1 + k = r + k + cap Q" using assms by simp
    finally show ?thesis by simp
  qed
  show ?thesis
    by (rule nth_equalityI) (auto simp: slots_from_def a[simplified] assms nth_Cons' simp del: upt_Suc)
qed

lemma slots_tail:
  assumes "r < cap Q"
  shows "slots_from Q m r (Suc n) = block m (slot Q (Suc r mod cap Q)) (uxItemSize Q)
     # slots_from Q m (Suc r mod cap Q) n"
  by (rule nth_equalityI) (auto simp: slots_from_def nth_Cons' mod_simps simp del: upt_Suc)

text \<open>The structure after each operation.\<close>

definition sent :: "Queue \<Rightarrow> Queue" where
  "sent Q = (let w = pcWriteTo Q + uxItemSize Q in
     Q\<lparr>pcWriteTo := (if w \<ge> pcTail Q then pcHead Q else w), uxMessagesWaiting := uxMessagesWaiting Q + 1\<rparr>)"

definition read_back :: "Queue \<Rightarrow> Queue" where
  "read_back Q = (let r = pcReadFrom Q - uxItemSize Q in
     Q\<lparr>u_word1 := (if r < pcHead Q then pcTail Q - uxItemSize Q else r)\<rparr>)"

definition read_on :: "Queue \<Rightarrow> Queue" where
  "read_on Q = (let r = pcReadFrom Q + uxItemSize Q in Q\<lparr>u_word1 := (if r \<ge> pcTail Q then pcHead Q else r)\<rparr>)"

lemma storage_fields:
  "storage_ok (Q\<lparr>pcWriteTo := a, uxMessagesWaiting := b\<rparr>) = storage_ok Q"
  "storage_ok (Q\<lparr>u_word1 := a, uxMessagesWaiting := b\<rparr>) = storage_ok Q"
  "slot (Q\<lparr>pcWriteTo := a, uxMessagesWaiting := b\<rparr>) = slot Q"
  "slot (Q\<lparr>u_word1 := a, uxMessagesWaiting := b\<rparr>) = slot Q"
  "slots_from (Q\<lparr>pcWriteTo := a, uxMessagesWaiting := b\<rparr>) = slots_from Q"
  "slots_from (Q\<lparr>u_word1 := a, uxMessagesWaiting := b\<rparr>) = slots_from Q"
  by (simp_all add: storage_ok_def slot_def slots_from_def fun_eq_iff)

lemma count_up: "waiting Q < cap Q \<Longrightarrow> unat (uxMessagesWaiting Q + 1) = Suc (waiting Q)"
proof -
  assume "waiting Q < cap Q"
  then have "uxMessagesWaiting Q < uxLength Q" by (simp add: word_less_nat_alt)
  then show ?thesis by unat_arith
qed

lemma send_back_ring:
  assumes r: "ring Q r" and room: "waiting Q < cap Q"
  shows "ring (sent Q) r"
    and "contents (sent Q) (memcpy_bytes (pcWriteTo Q) src (uxItemSize Q) m) = contents Q m @ [block m src (uxItemSize Q)]"
proof -
  have s: "storage_ok Q" "r < cap Q" "pcWriteTo Q = slot Q ((r + 1 + waiting Q) mod cap Q)"
    "pcReadFrom Q = slot Q r" using r by (simp_all add: ring_def)
  let ?w = "(r + 1 + waiting Q) mod cap Q"
  have w: "?w < cap Q" using s(2) by simp
  have n: "unat (uxMessagesWaiting Q + 1) = Suc (waiting Q)" by (rule count_up[OF room])
  have e: "sent Q = Q\<lparr>pcWriteTo := slot Q (Suc ?w mod cap Q), uxMessagesWaiting := uxMessagesWaiting Q + 1\<rparr>"
    by (simp only: sent_def Let_def s(3) pointer_forward[OF s(1) w])
  show ring': "ring (sent Q) r"
    using r room by (simp add: ring_def e storage_fields n mod_simps)
  let ?m = "memcpy_bytes (pcWriteTo Q) src (uxItemSize Q) m"
  have "contents (sent Q) ?m = slots_from Q ?m r (Suc (waiting Q))"
    unfolding contents_eq[OF ring'] by (simp add: e storage_fields n)
  also have "\<dots> = slots_from Q ?m r (waiting Q) @ [block m src (uxItemSize Q)]"
    by (simp add: slots_snoc s(3) block_copied)
  also have "slots_from Q ?m r (waiting Q) = slots_from Q m r (waiting Q)"
    unfolding s(3)
  proof (rule slots_kept[OF s(1) w])
    fix k assume "k < waiting Q"
    then show "(r + 1 + k) mod cap Q \<noteq> ?w"
      using room ring_index_inj[of k "cap Q" "waiting Q" "r + 1"] by auto
  qed
  finally show "contents (sent Q) ?m = contents Q m @ [block m src (uxItemSize Q)]"
    by (simp add: contents_eq[OF r])
qed

text \<open>To the front, into the slot that was read last.\<close>

definition sent_front :: "Queue \<Rightarrow> Queue" where
  "sent_front Q = (read_back Q)\<lparr>uxMessagesWaiting := uxMessagesWaiting Q + 1\<rparr>"

lemma back_step:
  assumes "r < N"
  shows "((r + N - 1) mod N + 1 + k) mod N = (r + k) mod (N :: nat)"
proof -
  have "((r + N - 1) mod N + 1 + k) mod N = (r + N - 1 + 1 + k) mod N" by (metis mod_add_left_eq add.assoc)
  also have "r + N - 1 + 1 + k = r + k + N" using assms by simp
  finally show ?thesis by simp
qed

lemma not_read_slot:
  assumes "r < N" and "k < n" and "n < N"
  shows "(r + 1 + k) mod N \<noteq> (r :: nat)"
proof
  assume "(r + 1 + k) mod N = r"
  moreover have "(r + 1 + (N - 1)) mod N = r" using assms by simp
  ultimately have "k = N - 1" using ring_index_inj[of k N "N - 1" "r + 1"] assms by simp
  then show False using assms by simp
qed

lemma send_front_ring:
  assumes r: "ring Q r" and room: "waiting Q < cap Q"
  shows "ring (sent_front Q) ((r + cap Q - 1) mod cap Q)"
    and "contents (sent_front Q) (memcpy_bytes (pcReadFrom Q) src (uxItemSize Q) m)
      = block m src (uxItemSize Q) # contents Q m"
proof -
  have s: "storage_ok Q" "r < cap Q" "pcWriteTo Q = slot Q ((r + 1 + waiting Q) mod cap Q)"
    "pcReadFrom Q = slot Q r" using r by (simp_all add: ring_def)
  let ?r = "(r + cap Q - 1) mod cap Q"
  have n: "unat (uxMessagesWaiting Q + 1) = Suc (waiting Q)" by (rule count_up[OF room])
  have e: "sent_front Q = Q\<lparr>u_word1 := slot Q ?r, uxMessagesWaiting := uxMessagesWaiting Q + 1\<rparr>"
    by (simp only: sent_front_def read_back_def Let_def s(4) pointer_backward[OF s(1,2)])
  have "(?r + 1 + Suc (waiting Q)) mod cap Q = (r + 1 + waiting Q) mod cap Q"
    using back_step[OF s(2), of "Suc (waiting Q)"] by simp
  then show ring': "ring (sent_front Q) ?r"
    using s room by (simp add: ring_def e storage_fields n)
  let ?m = "memcpy_bytes (pcReadFrom Q) src (uxItemSize Q) m"
  have "contents (sent_front Q) ?m = slots_from Q ?m ?r (Suc (waiting Q))"
    unfolding contents_eq[OF ring'] by (simp add: e storage_fields n)
  also have "\<dots> = block m src (uxItemSize Q) # slots_from Q ?m r (waiting Q)"
    by (simp only: slots_cons[OF s(2)] s(4) block_copied)
  also have "slots_from Q ?m r (waiting Q) = slots_from Q m r (waiting Q)"
    unfolding s(4) by (rule slots_kept[OF s(1,2)]) (rule not_read_slot[OF s(2) _ room])
  finally show "contents (sent_front Q) ?m = block m src (uxItemSize Q) # contents Q m"
    by (simp add: contents_eq[OF r])
qed

text \<open>Overwriting, which is meant for queues of one slot.\<close>

lemma overwrite_ring:
  assumes r: "ring Q r" and one: "cap Q = 1"
  defines "Q' \<equiv> (read_back Q)\<lparr>uxMessagesWaiting := 1\<rparr>"
  shows "ring Q' 0" and "contents Q' (memcpy_bytes (pcReadFrom Q) src (uxItemSize Q) m) = [block m src (uxItemSize Q)]"
proof -
  have s: "storage_ok Q" "r = 0" "pcWriteTo Q = slot Q 0" "pcReadFrom Q = slot Q 0" "0 < cap Q"
    using r one by (simp_all add: ring_def)
  have e: "Q' = Q\<lparr>u_word1 := slot Q 0, uxMessagesWaiting := 1\<rparr>"
    unfolding Q'_def read_back_def Let_def s(4) pointer_backward[OF s(1,5)] by (simp add: one)
  show ring': "ring Q' 0" using s one by (simp add: ring_def e storage_fields)
  show "contents Q' (memcpy_bytes (pcReadFrom Q) src (uxItemSize Q) m) = [block m src (uxItemSize Q)]"
    unfolding contents_eq[OF ring'] by (simp add: e storage_fields slots_from_def one s(4) block_copied)
qed

text \<open>Receiving, into a buffer outside the storage.\<close>

definition received :: "Queue \<Rightarrow> Queue" where
  "received Q = (read_on Q)\<lparr>uxMessagesWaiting := uxMessagesWaiting Q - 1\<rparr>"

definition buffer_apart :: "Queue \<Rightarrow> u32 \<Rightarrow> bool" where
  "buffer_apart Q buf \<longleftrightarrow> (\<forall>j < cap Q. apart (slot Q j) buf (uxItemSize Q))"

lemma slots_buffer:
  assumes "buffer_apart Q buf" and "0 < cap Q"
  shows "slots_from Q (memcpy_bytes buf src (uxItemSize Q) m) r n = slots_from Q m r n"
  using assms by (simp add: slots_from_def buffer_apart_def block_kept)

lemma read_on_eq:
  assumes "ring Q r"
  shows "read_on Q = Q\<lparr>u_word1 := slot Q (Suc r mod cap Q)\<rparr>"
proof -
  have s: "storage_ok Q" "r < cap Q" "pcReadFrom Q = slot Q r" using assms by (simp_all add: ring_def)
  show ?thesis by (simp only: read_on_def Let_def s(3) pointer_forward[OF s(1,2)])
qed

lemma receive_ring:
  assumes r: "ring Q r" and some: "waiting Q > 0"
  shows "ring (received Q) (Suc r mod cap Q)"
    and "contents Q m = block m (pcReadFrom (read_on Q)) (uxItemSize Q) # contents (received Q) m"
    and "buffer_apart Q buf \<Longrightarrow>
       contents (received Q) (memcpy_bytes buf src (uxItemSize Q) m) = contents (received Q) m"
    and "buffer_apart Q buf \<Longrightarrow> contents Q (memcpy_bytes buf src (uxItemSize Q) m) = contents Q m"
proof -
  have s: "storage_ok Q" "r < cap Q" "pcWriteTo Q = slot Q ((r + 1 + waiting Q) mod cap Q)" "waiting Q \<le> cap Q"
    using r by (simp_all add: ring_def)
  have c: "0 < cap Q" using s(2) by simp
  obtain n where n: "waiting Q = Suc n" using some by (cases "waiting Q") auto
  then have "uxMessagesWaiting Q \<noteq> 0" by auto
  then have n': "unat (uxMessagesWaiting Q - 1) = n" using n by (simp add: unat_minus_one)
  have e: "received Q = Q\<lparr>u_word1 := slot Q (Suc r mod cap Q), uxMessagesWaiting := uxMessagesWaiting Q - 1\<rparr>"
    by (simp add: received_def read_on_eq[OF r])
  have "(Suc r mod cap Q + 1 + n) mod cap Q = (r + 1 + waiting Q) mod cap Q"
    unfolding n by (metis mod_add_left_eq add.assoc add_Suc_right add_Suc Suc_eq_plus1)
  then show ring': "ring (received Q) (Suc r mod cap Q)"
    using s n by (simp add: ring_def e storage_fields n')
  have c': "contents (received Q) m = slots_from Q m (Suc r mod cap Q) n" for m
    unfolding contents_eq[OF ring'] by (simp add: e storage_fields n')
  show "contents Q m = block m (pcReadFrom (read_on Q)) (uxItemSize Q) # contents (received Q) m"
    unfolding contents_eq[OF r] c' n by (simp add: slots_tail[OF s(2)] read_on_eq[OF r])
  show "buffer_apart Q buf \<Longrightarrow>
       contents (received Q) (memcpy_bytes buf src (uxItemSize Q) m) = contents (received Q) m"
    using c by (simp add: c' slots_buffer)
  show "buffer_apart Q buf \<Longrightarrow> contents Q (memcpy_bytes buf src (uxItemSize Q) m) = contents Q m"
    using c by (simp add: contents_eq[OF r] slots_buffer)
qed

end
