(* ===== verification/Os_Queue_Fifo.thy ===== *)
theory Os_Queue_Fifo
  imports Os_Queue_Ring Os_Task_Waiting
begin

text \<open>
  The queue operations on the whole state: what they do to the messages, to the invariant of the
  scheduler and to the tasks that wait.
\<close>

section \<open>Changing a queue's structure and memory\<close>

definition put_queue :: "u32 \<Rightarrow> Queue \<Rightarrow> (u32 \<Rightarrow> u8) \<Rightarrow> os \<Rightarrow> os" where
  "put_queue q Q m s = s\<lparr>mem := m, queues := (queues s)(q \<mapsto> Q)\<rparr>"

lemma put_queue_sel [simp]:
  "klists (put_queue q Q m s) = klists s" "tcbs (put_queue q Q m s) = tcbs s"
  "queues (put_queue q Q m s) = (queues s)(q \<mapsto> Q)" "mem (put_queue q Q m s) = m"
  "pxCurrentTCB (put_queue q Q m s) = pxCurrentTCB s" "xTickCount (put_queue q Q m s) = xTickCount s"
  "uxSchedulerSuspended (put_queue q Q m s) = uxSchedulerSuspended s"
  "xYieldPending (put_queue q Q m s) = xYieldPending s" "uxPendedTicks (put_queue q Q m s) = uxPendedTicks s"
  "uxCurrentNumberOfTasks (put_queue q Q m s) = uxCurrentNumberOfTasks s"
  "PENDING_SOFT_SV (put_queue q Q m s) = PENDING_SOFT_SV s"
  "is_task (put_queue q Q m s) = is_task s" "priority_of (put_queue q Q m s) = priority_of s"
  "first_waiting (put_queue q Q m s) = first_waiting s"
  by (simp_all add: put_queue_def is_task_def priority_of_def first_waiting_def fun_eq_iff split: list.splits)

lemma event_lists_dom: "dom (queues s') = dom (queues s) \<Longrightarrow> event_lists s' = event_lists s"
  by (simp add: event_lists_def)

lemma inv_dom:
  assumes k: "kernel_inv cfg s" and d: "dom (queues s') = dom (queues s)" and "klists s' = klists s"
    and "tcbs s' = tcbs s" and "pxCurrentTCB s' = pxCurrentTCB s" and "pxDelayedTaskList s' = pxDelayedTaskList s"
    and "pxOverflowDelayedTaskList s' = pxOverflowDelayedTaskList s"
    and "uxTopReadyPriority s' = uxTopReadyPriority s" and "xTickCount s' = xTickCount s"
    and "xNextTaskUnblockTime s' = xNextTaskUnblockTime s"
  shows "kernel_inv cfg s'"
proof -
  have "event_lists s' = event_lists s" by (rule event_lists_dom[OF d])
  moreover from this have "live cfg s' = live cfg s" by (simp add: live_def)
  ultimately show ?thesis using assms by (simp add: kernel_defs is_task_def priority_of_def)
qed

lemma put_queue_inv:
  assumes "kernel_inv cfg s" and "queues s q = Some Q0"
  shows "kernel_inv cfg (put_queue q Q m s)"
  by (rule inv_dom[OF assms(1)]) (use assms(2) in \<open>auto simp: put_queue_def\<close>)

lemma put_queue_lists:
  "queues s q = Some Q0 \<Longrightarrow> event_lists (put_queue q Q m s) = event_lists s"
  by (rule event_lists_dom) auto

text \<open>A critical section around a step that does not look at the nesting count.\<close>

lemma critical_exit [simp]: "vPortExitCritical (vPortEnterCritical s) = s"
  by (simp add: vPortExitCritical_def vPortEnterCritical_def)

lemma enter_sel [simp]:
  "klists (vPortEnterCritical s) = klists s" "tcbs (vPortEnterCritical s) = tcbs s"
  "queues (vPortEnterCritical s) = queues s" "mem (vPortEnterCritical s) = mem s"
  "pxCurrentTCB (vPortEnterCritical s) = pxCurrentTCB s" "xTickCount (vPortEnterCritical s) = xTickCount s"
  "uxSchedulerSuspended (vPortEnterCritical s) = uxSchedulerSuspended s"
  "PENDING_SOFT_SV (vPortEnterCritical s) = PENDING_SOFT_SV s"
  "xYieldPending (vPortEnterCritical s) = xYieldPending s" "uxPendedTicks (vPortEnterCritical s) = uxPendedTicks s"
  "uxCurrentNumberOfTasks (vPortEnterCritical s) = uxCurrentNumberOfTasks s"
  "is_task (vPortEnterCritical s) = is_task s" "priority_of (vPortEnterCritical s) = priority_of s"
  "event_lists (vPortEnterCritical s) = event_lists s" "live cfg (vPortEnterCritical s) = live cfg s"
  "first_waiting (vPortEnterCritical s) = first_waiting s"
  by (simp_all add: vPortEnterCritical_def is_task_def priority_of_def event_lists_def live_def
      first_waiting_def fun_eq_iff split: list.splits)

lemma exit_sel [simp]:
  "klists (vPortExitCritical s) = klists s" "tcbs (vPortExitCritical s) = tcbs s"
  "queues (vPortExitCritical s) = queues s" "mem (vPortExitCritical s) = mem s"
  "pxCurrentTCB (vPortExitCritical s) = pxCurrentTCB s" "xTickCount (vPortExitCritical s) = xTickCount s"
  "uxSchedulerSuspended (vPortExitCritical s) = uxSchedulerSuspended s"
  "PENDING_SOFT_SV (vPortExitCritical s) = PENDING_SOFT_SV s"
  "xYieldPending (vPortExitCritical s) = xYieldPending s" "uxPendedTicks (vPortExitCritical s) = uxPendedTicks s"
  "uxCurrentNumberOfTasks (vPortExitCritical s) = uxCurrentNumberOfTasks s"
  "is_task (vPortExitCritical s) = is_task s" "priority_of (vPortExitCritical s) = priority_of s"
  "event_lists (vPortExitCritical s) = event_lists s" "live cfg (vPortExitCritical s) = live cfg s"
  by (simp_all add: vPortExitCritical_def is_task_def priority_of_def event_lists_def live_def fun_eq_iff)

lemma critical_inv:
  "kernel_inv cfg s \<Longrightarrow> kernel_inv cfg (vPortEnterCritical s)"
  "kernel_inv cfg s \<Longrightarrow> kernel_inv cfg (vPortExitCritical s)"
  by (rule inv_cong; simp add: vPortEnterCritical_def vPortExitCritical_def)+

section \<open>The copies\<close>

lemma copy_to_back:
  assumes "queues s q = Some Q" and "uxItemSize Q \<noteq> 0"
  shows "prvCopyDataToQueue q item queueSEND_TO_BACK s =
     Some (False, put_queue q (sent Q) (memcpy_bytes (pcWriteTo Q) item (uxItemSize Q) (mem s)) s)"
  using assms
  by (simp add: prvCopyDataToQueue_def Let_def upd_queue_def put_queue_def sent_def queueSEND_TO_BACK_def)

lemma copy_to_front:
  assumes "queues s q = Some Q" and "uxItemSize Q \<noteq> 0" and "pos \<noteq> queueSEND_TO_BACK" and "pos \<noteq> queueOVERWRITE"
  shows "prvCopyDataToQueue q item pos s =
     Some (False, put_queue q (sent_front Q) (memcpy_bytes (pcReadFrom Q) item (uxItemSize Q) (mem s)) s)"
  using assms
  by (simp add: prvCopyDataToQueue_def Let_def upd_queue_def put_queue_def sent_front_def read_back_def)

lemma copy_overwrite:
  assumes "queues s q = Some Q" and "uxItemSize Q \<noteq> 0" and "waiting Q \<le> 1"
  shows "prvCopyDataToQueue q item queueOVERWRITE s =
     Some (False, put_queue q ((read_back Q)\<lparr>uxMessagesWaiting := 1\<rparr>)
       (memcpy_bytes (pcReadFrom Q) item (uxItemSize Q) (mem s)) s)"
proof -
  have "waiting Q = 0 \<or> waiting Q = 1" using assms(3) by linarith
  then have "uxMessagesWaiting Q = 0 \<or> uxMessagesWaiting Q = 1" by (simp add: word_unat_eq_iff)
  then have n: "(if uxMessagesWaiting Q > 0 then uxMessagesWaiting Q - 1 else uxMessagesWaiting Q) + 1 = 1"
    by auto
  have p: "queueOVERWRITE \<noteq> queueSEND_TO_BACK" by (simp add: queueSEND_TO_BACK_def queueOVERWRITE_def)
  have "prvCopyDataToQueue q item queueOVERWRITE s =
     Some (False, put_queue q ((read_back Q)\<lparr>uxMessagesWaiting :=
        (if uxMessagesWaiting Q > 0 then uxMessagesWaiting Q - 1 else uxMessagesWaiting Q) + 1\<rparr>)
       (memcpy_bytes (pcReadFrom Q) item (uxItemSize Q) (mem s)) s)"
    using assms(1,2) p
    by (simp add: prvCopyDataToQueue_def Let_def upd_queue_def put_queue_def read_back_def)
  then show ?thesis unfolding n .
qed

lemma copy_from:
  assumes "queues s q = Some Q" and "uxItemSize Q \<noteq> 0"
  shows "prvCopyDataFromQueue q buf s =
     Some (put_queue q (read_on Q) (memcpy_bytes buf (pcReadFrom (read_on Q)) (uxItemSize Q) (mem s)) s)"
  using assms by (simp add: prvCopyDataFromQueue_def Let_def upd_queue_def put_queue_def read_on_def)

section \<open>Waking one waiting task\<close>

lemma event_list_empty:
  "kernel_inv cfg s \<Longrightarrow> l \<in> event_lists s \<Longrightarrow> listLIST_IS_EMPTY l (klists s) \<longleftrightarrow> items s l = []"
  using empty_list[OF invD(1), of cfg s l] by simp

text \<open>
  \<open>served s s' l\<close>: the first task waiting on \<open>l\<close>, if any, has been made ready and a context switch is
  pending if its priority is higher than the current one's; nothing else has moved.
\<close>

definition served :: "os \<Rightarrow> os \<Rightarrow> list_ref \<Rightarrow> bool" where
  "served s s' l \<longleftrightarrow> is_task s' = is_task s \<and> priority_of s' = priority_of s
     \<and> pxCurrentTCB s' = pxCurrentTCB s \<and> queues s' = queues s \<and> mem s' = mem s
     \<and> uxSchedulerSuspended s' = uxSchedulerSuspended s \<and> uxPendedTicks s' = uxPendedTicks s
     \<and> uxCurrentNumberOfTasks s' = uxCurrentNumberOfTasks s
     \<and> (items s l = [] \<longrightarrow> klists s' = klists s \<and> PENDING_SOFT_SV s' = PENDING_SOFT_SV s)
     \<and> (items s l \<noteq> [] \<longrightarrow> woken {first_waiting s l} s (klists s') \<and> items s' l = tl (items s l)
          \<and> (priority_of s (first_waiting s l) > priority_of s (pxCurrentTCB s) \<longrightarrow> PENDING_SOFT_SV s'))"

lemma wake_one_and_yield_spec:
  assumes k: "kernel_inv cfg s" and l: "l \<in> event_lists s" and run: "uxSchedulerSuspended s = 0"
  obtains s' where "wake_one_and_yield cfg l s = Some s'" and "kernel_inv cfg s'" and "served s s' l"
proof (cases "items s l = []")
  case True
  then show ?thesis using k event_list_empty[OF k l]
    by (intro that[of s]) (simp_all add: wake_one_and_yield_def wake_one_def served_def)
next
  case False
  let ?b = "priority_of s (first_waiting s l) > priority_of s (pxCurrentTCB s)"
  obtain s1 where s1: "xTaskRemoveFromEventList cfg l s = Some (?b, s1)" "kernel_inv cfg s1" "same_sched s s1"
    "woken {first_waiting s l} s (klists s1)" "items s1 l = tl (items s l)"
    by (rule remove_from_event_list_running[OF k l False run]) (rule that; assumption)
  let ?s' = "if ?b then portYIELD s1 else s1"
  have "wake_one_and_yield cfg l s = Some ?s'"
    using False event_list_empty[OF k l] s1(1) by (simp add: wake_one_and_yield_def wake_one_def)
  moreover have "kernel_inv cfg ?s'" using s1(2) yield_inv by simp
  moreover have "served s ?s' l"
    using s1(3-5) False by (simp add: served_def same_sched_def)
  ultimately show ?thesis by (rule that)
qed

section \<open>Sending when there is room\<close>

text \<open>\<open>holds s q ms\<close>: queue \<open>q\<close> is intact and contains the messages \<open>ms\<close>, oldest first.\<close>

definition holds :: "os \<Rightarrow> u32 \<Rightarrow> u8 list list \<Rightarrow> bool" where
  "holds s q ms \<longleftrightarrow> (\<exists>Q. queues s q = Some Q \<and> ring Q (read_slot Q) \<and> contents Q (mem s) = ms)"

lemma holdsI: "queues s q = Some Q \<Longrightarrow> ring Q r \<Longrightarrow> contents Q (mem s) = ms \<Longrightarrow> holds s q ms"
  by (auto simp: holds_def read_slot_eq)

lemma holdsE:
  assumes "holds s q ms"
  obtains Q r where "queues s q = Some Q" and "ring Q r" and "contents Q (mem s) = ms"
    and "length ms = waiting Q" and "length ms \<le> cap Q" and "uxItemSize Q \<noteq> 0"
proof -
  obtain Q where Q: "queues s q = Some Q" "ring Q (read_slot Q)" "contents Q (mem s) = ms"
    using assms unfolding holds_def by blast
  show ?thesis
    by (rule that[OF Q]) (use Q contents_length[of Q "mem s"] in \<open>auto simp: ring_def storage_ok_def\<close>)
qed

lemma holds_cong: "queues s' q = queues s q \<Longrightarrow> mem s' = mem s \<Longrightarrow> holds s' q ms = holds s q ms"
  by (simp add: holds_def)

text \<open>The message at an address, of the size of the queue's items.\<close>

definition message_at :: "os \<Rightarrow> u32 \<Rightarrow> u32 \<Rightarrow> u8 list" where
  "message_at s q a = block (mem s) a (uxItemSize (the (queues s q)))"

definition capacity :: "os \<Rightarrow> u32 \<Rightarrow> nat" where
  "capacity s q = cap (the (queues s q))"

lemma send_now_spec:
  assumes k: "kernel_inv cfg s" and run: "uxSchedulerSuspended s = 0" and Q: "queues s q = Some Q0"
    and c: "prvCopyDataToQueue q item pos s = Some (False, put_queue q Q m s)"
  obtains s' where "send_now cfg q item pos s = Some s'" and "kernel_inv cfg s'"
    and "served (put_queue q Q m s) s' (WaitingToReceive q)"
proof -
  let ?s = "put_queue q Q m s"
  have k1: "kernel_inv cfg ?s" by (rule put_queue_inv[OF k Q])
  have l: "WaitingToReceive q \<in> event_lists ?s" by (auto simp: event_lists_def)
  obtain s' where s': "wake_one_and_yield cfg (WaitingToReceive q) ?s = Some s'" "kernel_inv cfg s'"
    "served ?s s' (WaitingToReceive q)"
    by (rule wake_one_and_yield_spec[OF k1 l]) (use run in auto)
  have "send_now cfg q item pos s = Some s'"
    using s'(1) c by (auto simp: send_now_def wake_one_and_yield_def wake_one_def)
  then show ?thesis using s' that by blast
qed

lemma send_loop_returns:
  assumes "send_pass cfg q item pos w s = Some (Some b, s1)"
  shows "xQueueGenericSend cfg es q item w pos s = Some (Returned b s1)"
  using assms by (cases es) (simp_all add: xQueueGenericSend_def)

lemma send_pass_room:
  assumes "queues s q = Some Q" and "uxMessagesWaiting Q < uxLength Q \<or> pos = queueOVERWRITE"
    and "send_now cfg q item pos (vPortEnterCritical s) = Some s1"
  shows "xQueueGenericSend cfg es q item w pos s = Some (Returned True (vPortExitCritical s1))"
  by (rule send_loop_returns) (use assms in \<open>auto simp: send_pass_def Let_def\<close>)


text \<open>\<open>wakes_first s s' l\<close>: \<open>served\<close> without the queues and the memory.\<close>

definition wakes_first :: "os \<Rightarrow> os \<Rightarrow> list_ref \<Rightarrow> bool" where
  "wakes_first s s' l \<longleftrightarrow> is_task s' = is_task s \<and> priority_of s' = priority_of s
     \<and> pxCurrentTCB s' = pxCurrentTCB s
     \<and> uxSchedulerSuspended s' = uxSchedulerSuspended s \<and> uxPendedTicks s' = uxPendedTicks s
     \<and> uxCurrentNumberOfTasks s' = uxCurrentNumberOfTasks s
     \<and> (items s l = [] \<longrightarrow> klists s' = klists s \<and> PENDING_SOFT_SV s' = PENDING_SOFT_SV s)
     \<and> (items s l \<noteq> [] \<longrightarrow> woken {first_waiting s l} s (klists s') \<and> items s' l = tl (items s l)
          \<and> (priority_of s (first_waiting s l) > priority_of s (pxCurrentTCB s) \<longrightarrow> PENDING_SOFT_SV s'))"

lemma served_wakes_first:
  "served (put_queue q Q m (vPortEnterCritical s)) s' l \<Longrightarrow> wakes_first s (vPortExitCritical s') l"
  by (simp add: served_def wakes_first_def woken_def)

lemma send_with_room:
  assumes k: "kernel_inv cfg s" and run: "uxSchedulerSuspended s = 0" and Q0: "queues s q = Some Q0"
    and room: "uxMessagesWaiting Q0 < uxLength Q0 \<or> pos = queueOVERWRITE"
    and c: "prvCopyDataToQueue q item pos (vPortEnterCritical s) = Some (False, put_queue q Q m (vPortEnterCritical s))"
    and r: "ring Q r" and ms: "contents Q m = ms"
  obtains s' where "xQueueGenericSend cfg es q item w pos s = Some (Returned True s')" and "kernel_inv cfg s'"
    and "holds s' q ms" and "wakes_first s s' (WaitingToReceive q)" and "queues s' q = Some Q"
    and "queues s' = (queues s)(q \<mapsto> Q)"
proof -
  let ?e = "vPortEnterCritical s"
  obtain s1 where s1: "send_now cfg q item pos ?e = Some s1" "kernel_inv cfg s1"
    "served (put_queue q Q m ?e) s1 (WaitingToReceive q)"
    by (rule send_now_spec[OF critical_inv(1)[OF k] _ _ c]) (use run Q0 in auto)
  have q: "queues s1 q = Some Q" "mem s1 = m" using s1(3) by (simp_all add: served_def)
  show ?thesis
  proof (rule that)
    show "xQueueGenericSend cfg es q item w pos s = Some (Returned True (vPortExitCritical s1))"
      by (rule send_pass_room[OF Q0 room s1(1)])
    show "kernel_inv cfg (vPortExitCritical s1)" by (rule critical_inv(2)[OF s1(2)])
    show "holds (vPortExitCritical s1) q ms" by (rule holdsI[OF _ r]) (use q ms in simp_all)
    show "wakes_first s (vPortExitCritical s1) (WaitingToReceive q)" by (rule served_wakes_first[OF s1(3)])
    show "queues (vPortExitCritical s1) q = Some Q" using q by simp
    show "queues (vPortExitCritical s1) = (queues s)(q \<mapsto> Q)" using s1(3) by (simp add: served_def)
  qed
qed

section \<open>Receiving when there is a message\<close>

lemma receive_loop_returns:
  assumes "pass w s = Some (Some b, s1)"
  shows "receive_loop cfg pass q es None w s = Some (Returned b s1)"
  using assms by (cases es) simp_all

lemma receive_with_message:
  assumes k: "kernel_inv cfg s" and run: "uxSchedulerSuspended s = 0" and h: "holds s q (x # ms)"
    and apart: "buffer_apart (the (queues s q)) buf"
  obtains s' where "xQueueReceive cfg es q buf w s = Some (Returned True s')" and "kernel_inv cfg s'"
    and "holds s' q ms" and "message_at s' q buf = x" and "wakes_first s s' (WaitingToSend q)"
    and "queues s' q = Some (received (the (queues s q)))"
    and "queues s' = (queues s)(q \<mapsto> received (the (queues s q)))"
proof -
  let ?e = "vPortEnterCritical s"
  obtain Q r where Q: "queues s q = Some Q" "ring Q r" "contents Q (mem s) = x # ms"
    and len: "length (x # ms) = waiting Q" and z: "uxItemSize Q \<noteq> 0"
    by (rule holdsE[OF h])
  have pos: "waiting Q > 0" using len by simp
  then have "uxMessagesWaiting Q > 0" by (simp add: word_less_nat_alt)
  note rr = receive_ring[OF Q(2) pos]
  let ?m = "memcpy_bytes buf (pcReadFrom (read_on Q)) (uxItemSize Q) (mem s)"
  have ap: "buffer_apart Q buf" using apart Q(1) by simp
  have x: "x = block (mem s) (pcReadFrom (read_on Q)) (uxItemSize Q)" and c: "contents (received Q) ?m = ms"
    using rr(2)[of "mem s"] rr(3)[OF ap] Q(3) by auto
  let ?p = "put_queue q (received Q) ?m ?e"
  have up: "upd_queue q (\<lambda>Q'. Q'\<lparr>uxMessagesWaiting := uxMessagesWaiting Q - 1\<rparr>) (put_queue q (read_on Q) ?m ?e) = Some ?p"
    by (simp add: upd_queue_def put_queue_def received_def)
  have k1: "kernel_inv cfg ?p" by (rule put_queue_inv[OF critical_inv(1)[OF k], of q Q]) (simp add: Q)
  have l: "WaitingToSend q \<in> event_lists ?p" by (auto simp: event_lists_def)
  obtain s1 where s1: "wake_one_and_yield cfg (WaitingToSend q) ?p = Some s1" "kernel_inv cfg s1"
    "served ?p s1 (WaitingToSend q)"
    by (rule wake_one_and_yield_spec[OF k1 l]) (use run in auto)
  have q: "queues s1 q = Some (received Q)" "mem s1 = ?m" using s1(3) by (simp_all add: served_def)
  have size: "uxItemSize (received Q) = uxItemSize Q" by (simp add: received_def read_on_def Let_def)
  have pass: "receive_pass cfg q buf w s = Some (Some True, vPortExitCritical s1)"
    using \<open>uxMessagesWaiting Q > 0\<close> copy_from[of ?e q Q buf] Q(1) z up s1(1)
    by (simp add: receive_pass_def Let_def)
  show ?thesis
  proof (rule that)
    show "xQueueReceive cfg es q buf w s = Some (Returned True (vPortExitCritical s1))"
      unfolding xQueueReceive_def by (rule receive_loop_returns[where pass = "receive_pass cfg q buf", OF pass])
    show "kernel_inv cfg (vPortExitCritical s1)" by (rule critical_inv(2)[OF s1(2)])
    show "holds (vPortExitCritical s1) q ms" by (rule holdsI[OF _ rr(1)]) (use q c in simp_all)
    show "message_at (vPortExitCritical s1) q buf = x"
      using q by (simp add: message_at_def size block_copied x)
    show "wakes_first s (vPortExitCritical s1) (WaitingToSend q)" by (rule served_wakes_first[OF s1(3)])
    show "queues (vPortExitCritical s1) q = Some (received (the (queues s q)))" using q Q(1) by simp
    show "queues (vPortExitCritical s1) = (queues s)(q \<mapsto> received (the (queues s q)))"
      using s1(3) Q(1) by (simp add: served_def)
  qed
qed

text \<open>Peeking leaves every message in place.\<close>

lemma peek_with_message:
  assumes k: "kernel_inv cfg s" and run: "uxSchedulerSuspended s = 0" and h: "holds s q (x # ms)"
    and apart: "buffer_apart (the (queues s q)) buf"
  obtains s' where "xQueuePeek cfg es q buf w s = Some (Returned True s')" and "kernel_inv cfg s'"
    and "holds s' q (x # ms)" and "message_at s' q buf = x" and "wakes_first s s' (WaitingToReceive q)"
proof -
  let ?e = "vPortEnterCritical s"
  obtain Q r where Q: "queues s q = Some Q" "ring Q r" "contents Q (mem s) = x # ms"
    and len: "length (x # ms) = waiting Q" and z: "uxItemSize Q \<noteq> 0"
    by (rule holdsE[OF h])
  have pos: "waiting Q > 0" using len by simp
  then have p: "uxMessagesWaiting Q > 0" by (simp add: word_less_nat_alt)
  note rr = receive_ring[OF Q(2) pos]
  let ?m = "memcpy_bytes buf (pcReadFrom (read_on Q)) (uxItemSize Q) (mem s)"
  have ap: "buffer_apart Q buf" using apart Q(1) by simp
  have x: "x = block (mem s) (pcReadFrom (read_on Q)) (uxItemSize Q)" and c: "contents Q ?m = x # ms"
    using rr(2)[of "mem s"] rr(4)[OF ap] Q(3) by auto
  let ?p = "put_queue q Q ?m ?e"
  have restore: "(read_on Q)\<lparr>u_word1 := pcReadFrom Q\<rparr> = Q" by (simp add: read_on_def Let_def)
  then have up: "upd_queue q (\<lambda>Q'. Q'\<lparr>u_word1 := pcReadFrom Q\<rparr>) (put_queue q (read_on Q) ?m ?e) = Some ?p"
    by (simp add: upd_queue_def put_queue_def)
  have k1: "kernel_inv cfg ?p" by (rule put_queue_inv[OF critical_inv(1)[OF k], of q Q]) (simp add: Q)
  have l: "WaitingToReceive q \<in> event_lists ?p" by (auto simp: event_lists_def)
  obtain s1 where s1: "wake_one_and_yield cfg (WaitingToReceive q) ?p = Some s1" "kernel_inv cfg s1"
    "served ?p s1 (WaitingToReceive q)"
    by (rule wake_one_and_yield_spec[OF k1 l]) (use run in auto)
  have q: "queues s1 q = Some Q" "mem s1 = ?m" using s1(3) by (simp_all add: served_def)
  have pass: "peek_pass cfg q buf w s = Some (Some True, vPortExitCritical s1)"
    using p copy_from[of ?e q Q buf] Q(1) z up s1(1) by (simp add: peek_pass_def Let_def)
  show ?thesis
  proof (rule that)
    show "xQueuePeek cfg es q buf w s = Some (Returned True (vPortExitCritical s1))"
      unfolding xQueuePeek_def by (rule receive_loop_returns[where pass = "peek_pass cfg q buf", OF pass])
    show "kernel_inv cfg (vPortExitCritical s1)" by (rule critical_inv(2)[OF s1(2)])
    show "holds (vPortExitCritical s1) q (x # ms)" by (rule holdsI[OF _ Q(2)]) (use q c in simp_all)
    show "message_at (vPortExitCritical s1) q buf = x"
      using q by (simp add: message_at_def block_copied x)
    show "wakes_first s (vPortExitCritical s1) (WaitingToReceive q)" by (rule served_wakes_first[OF s1(3)])
  qed
qed

end
