(* ===== verification/Os_Queue_New.thy ===== *)
theory Os_Queue_New
  imports Os_Queue_Fifo
begin

text \<open>
  Creating a queue: the new structure is an empty ring with two empty waiting lists, and the
  scheduler's invariant is kept.
\<close>

section \<open>Two more lists\<close>

definition unused_handle :: "os \<Rightarrow> u32 \<Rightarrow> bool" where
  "unused_handle s q \<longleftrightarrow> queues s q = None \<and>
     (\<forall>i. home s i \<noteq> Some (WaitingToSend q) \<and> home s i \<noteq> Some (WaitingToReceive q))"

lemma queue_lists_not_live:
  "queues s q = None \<Longrightarrow> WaitingToSend q \<notin> live cfg s \<and> WaitingToReceive q \<notin> live cfg s"
  by (auto simp: live_def)

definition new_lists :: "u32 \<Rightarrow> os_store \<Rightarrow> os_store" where
  "new_lists q h = vListInitialise (WaitingToReceive q) (vListInitialise (WaitingToSend q) h)"

lemma new_lists_ok:
  assumes ok: "lists_ok (live cfg s) (klists s)" and u: "unused_handle s q"
  defines "h \<equiv> new_lists q (klists s)"
  defines "D \<equiv> insert (WaitingToReceive q) (insert (WaitingToSend q) (live cfg s))"
  shows "lists_ok D h" and "l \<in> live cfg s \<Longrightarrow> list_items h l = items s l"
    and "list_items h (WaitingToSend q) = []" and "list_items h (WaitingToReceive q) = []"
    and "node_at h = node_at (klists s)"
proof -
  have n: "WaitingToSend q \<notin> live cfg s" "WaitingToReceive q \<notin> live cfg s"
    using queue_lists_not_live[of s q cfg] u by (auto simp: unused_handle_def)
  have f: "home s i \<noteq> Some (WaitingToSend q)" "home s i \<noteq> Some (WaitingToReceive q)" for i
    using u by (auto simp: unused_handle_def)
  note a = vListInitialise_ok[OF ok f(1) n(1)]
  let ?h1 = "vListInitialise (WaitingToSend q) (klists s)"
  have f': "pxContainer (node_at ?h1 i) \<noteq> Some (WaitingToReceive q)" for i
    using f(2) by (simp add: vListInitialise_frame)
  have n': "WaitingToReceive q \<notin> insert (WaitingToSend q) (live cfg s)" using n by simp
  note b = vListInitialise_ok[OF a(1) f' n']
  show "lists_ok D h" using b(1) by (simp add: h_def D_def new_lists_def)
  show "l \<in> live cfg s \<Longrightarrow> list_items h l = items s l"
    using a(2)[of l] b(2)[of l] n by (auto simp: h_def new_lists_def)
  show "list_items h (WaitingToSend q) = []" "list_items h (WaitingToReceive q) = []"
    using a(2)[of "WaitingToSend q"] b(2)[of "WaitingToSend q"] b(2)[of "WaitingToReceive q"]
    by (auto simp: h_def new_lists_def)
  show "node_at h = node_at (klists s)" by (simp add: h_def new_lists_def vListInitialise_frame)
qed

section \<open>The new structure\<close>

definition new_queue :: "u32 \<Rightarrow> u32 \<Rightarrow> u32 \<Rightarrow> Queue \<Rightarrow> Queue" where
  "new_queue q n z fresh = (let head = (if z = 0 then q else q + sizeof_Queue) in
     fresh\<lparr>pcHead := head, pcWriteTo := head, u_word0 := head + n * z, u_word1 := head + (n - 1) * z,
        uxMessagesWaiting := 0, uxLength := n, uxItemSize := z,
        cRxLock := queueUNLOCKED, cTxLock := queueUNLOCKED\<rparr>)"

definition queue_bytes :: "u32 \<Rightarrow> u32 \<Rightarrow> u32" where
  "queue_bytes n z = sizeof_Queue + (if z = 0 then 0 else n * z)"

definition new_queue_state :: "u32 \<Rightarrow> u32 \<Rightarrow> u32 \<Rightarrow> Queue \<Rightarrow> os \<Rightarrow> os" where
  "new_queue_state q n z fresh s = s\<lparr>heap_log := heap_log s @ [HeapAlloc (queue_bytes n z) q],
     queues := (queues s)(q \<mapsto> new_queue q n z fresh), klists := new_lists q (klists s)\<rparr>"

lemma queue_create_eq:
  assumes "malloc (queue_bytes n z) s = q" and "q \<noteq> 0"
  shows "xQueueGenericCreate cfg malloc fresh n z s = Some (q, new_queue_state q n z fresh s)"
  using assms
  by (cases fresh; cases "z = 0")
    (simp_all add: xQueueGenericCreate_def pvPortMalloc_def Let_def prvInitialiseNewQueue_def upd_queue_def
      xQueueGenericReset_def os_init_list_def new_queue_state_def new_queue_def new_lists_def queue_bytes_def
      vPortEnterCritical_def vPortExitCritical_def)

lemma queue_create_fails:
  "malloc (queue_bytes n z) s = 0 \<Longrightarrow> xQueueGenericCreate cfg malloc fresh n z s =
     Some (0, s\<lparr>heap_log := heap_log s @ [HeapAlloc (queue_bytes n z) 0]\<rparr>)"
  by (simp add: xQueueGenericCreate_def pvPortMalloc_def Let_def queue_bytes_def)

text \<open>A block that does not wrap around the address space, above the first item's worth of addresses.\<close>

definition block_fits :: "u32 \<Rightarrow> u32 \<Rightarrow> u32 \<Rightarrow> bool" where
  "block_fits q n z \<longleftrightarrow> unat q + 72 + unat n * unat z < 2 ^ 32 \<and> unat z \<le> unat q"

lemma new_queue_ring:
  assumes "block_fits q n z" and "n \<noteq> 0" and "z \<noteq> 0"
  shows "ring (new_queue q n z fresh) (unat n - 1)" and "contents (new_queue q n z fresh) m = []"
proof -
  let ?Q = "new_queue q n z fresh"
  have h: "pcHead ?Q = q + 72" using assms(3) by (simp add: new_queue_def Let_def sizeof_Queue_def)
  have f: "uxLength ?Q = n" "uxItemSize ?Q = z" "uxMessagesWaiting ?Q = 0" "pcWriteTo ?Q = q + 72"
    "u_word0 ?Q = q + 72 + n * z" "u_word1 ?Q = q + 72 + (n - 1) * z"
    using assms(3) by (simp_all add: new_queue_def Let_def sizeof_Queue_def)
  have lt: "unat q + 72 < 2 ^ 32" using assms(1) by (simp add: block_fits_def)
  have "q + 72 = of_nat (unat q + 72)" by simp
  then have uq: "unat (q + 72) = unat q + 72" using unat_of_nat32[OF lt] by simp
  have n0: "unat n \<noteq> 0" using assms(2) by (simp add: unat_eq_zero)
  have slot: "slot ?Q j = q + 72 + of_nat j * z" for j by (simp add: slot_def h f)
  have "storage_ok ?Q"
    using assms uq by (simp add: storage_ok_def f h slot block_fits_def word_le_nat_alt)
  moreover have "u_word1 ?Q = slot ?Q (unat n - 1)"
    using n0 by (simp add: f slot of_nat_diff)
  ultimately show ring: "ring ?Q (unat n - 1)" using n0 by (simp add: ring_def f slot)
  show "contents ?Q m = []" using contents_length[of ?Q m] by (simp add: f)
qed

lemma new_queue_inv:
  assumes k: "kernel_inv cfg s" and u: "unused_handle s q"
  shows "kernel_inv cfg (new_queue_state q n z fresh s)"
    and "l \<in> live cfg s \<Longrightarrow> items (new_queue_state q n z fresh s) l = items s l"
    and "items (new_queue_state q n z fresh s) (WaitingToSend q) = []"
    and "items (new_queue_state q n z fresh s) (WaitingToReceive q) = []"
proof -
  let ?s = "new_queue_state q n z fresh s"
  note c = coreD[OF invD(1)[OF k]]
  note nl = new_lists_ok[OF c(1) u]
  have v: "klists ?s = new_lists q (klists s)" "tcbs ?s = tcbs s" "pxCurrentTCB ?s = pxCurrentTCB s"
    "pxDelayedTaskList ?s = pxDelayedTaskList s" "pxOverflowDelayedTaskList ?s = pxOverflowDelayedTaskList s"
    "uxTopReadyPriority ?s = uxTopReadyPriority s" "xTickCount ?s = xTickCount s"
    "xNextTaskUnblockTime ?s = xNextTaskUnblockTime s"
    by (simp_all add: new_queue_state_def)
  have t: "is_task ?s = is_task s" "priority_of ?s = priority_of s"
    by (simp_all add: is_task_def priority_of_def v fun_eq_iff)
  have ev: "event_lists ?s = insert (WaitingToReceive q) (insert (WaitingToSend q) (event_lists s))"
    by (auto simp: event_lists_def new_queue_state_def)
  have lv: "live cfg ?s = insert (WaitingToReceive q) (insert (WaitingToSend q) (live cfg s))"
    using ev by (auto simp: live_def)
  show "l \<in> live cfg s \<Longrightarrow> items ?s l = items s l" "items ?s (WaitingToSend q) = []"
    "items ?s (WaitingToReceive q) = []"
    using nl(2-4) by (simp_all add: v)
  have "lists_ok (live cfg ?s) (klists ?s)" using nl(1) by (simp add: lv v)
  moreover have "tasks_ok ?s" using c(2) by (simp add: tasks_ok_def t v nl(5))
  moreover have "placed {} cfg ?s"
    using c(3) u by (auto simp: placed_def t v nl(5) ev lv unused_handle_def)
  moreover have "ready_ok ?s" using c(4) by (simp add: ready_ok_def t v nl(5))
  moreover have "delay_ok ?s" using c(5) nl(2) by (simp add: delay_ok_def v nl(5))
  ultimately show "kernel_inv cfg ?s"
    using invD(2,3)[OF k] by (simp add: kernel_inv_def kernel_core_def due_ok_def overflow_ok_def t v nl(5))
qed

end
