(* ===== verification/Os_Queue_Block.thy ===== *)
theory Os_Queue_Block
  imports Os_Queue_New
begin

text \<open>
  Waiting on a queue: locking and unlocking it, the tasks woken for what interrupts did while it was
  locked, and the pass of the blocking loops that puts the caller to sleep.
\<close>

section \<open>Resuming when nothing happened\<close>

lemma pending_list_empty:
  assumes k: "kernel_core {} cfg s" and p: "pending s = {}"
  shows "items s PendingReadyList = []"
proof (rule ccontr)
  assume "items s PendingReadyList \<noteq> []"
  then obtain i "is" where i: "items s PendingReadyList = i # is" by (cases "items s PendingReadyList") auto
  obtain t where "is_task s t" "home s (EventListItem t) = Some PendingReadyList"
    by (rule event_head[OF k _ i]) (use that in auto)
  then show False using p by (auto simp: pending_def)
qed

lemma resume_quiet:
  assumes k: "kernel_core {} cfg s" and one: "uxSchedulerSuspended s = 1" and n: "uxCurrentNumberOfTasks s > 0"
    and p: "items s PendingReadyList = []" and t: "uxPendedTicks s = 0"
  shows "xTaskResumeAll cfg s = Some (xYieldPending s,
     s\<lparr>uxSchedulerSuspended := 0, PENDING_SOFT_SV := PENDING_SOFT_SV s \<or> xYieldPending s,
       soft_interrupt := soft_interrupt s \<or> xYieldPending s\<rparr>)"
proof -
  let ?s = "(vPortEnterCritical s)\<lparr>uxSchedulerSuspended := 0\<rparr>"
  have "listLIST_IS_EMPTY PendingReadyList (klists s)" using empty_list[OF k, of PendingReadyList] p by simp
  then have "pending_ready_loop 0 ?s = Some (0, ?s)"
    by (subst pending_ready_loop.simps) (simp add: vPortEnterCritical_def)
  then show ?thesis using one n t
    by (cases "xYieldPending s") (simp_all add: xTaskResumeAll_def Let_def vPortEnterCritical_def vPortExitCritical_def)
qed

section \<open>Locks\<close>

definition unlocked :: "Queue \<Rightarrow> Queue" where
  "unlocked Q = Q\<lparr>cTxLock := queueUNLOCKED, cRxLock := queueUNLOCKED\<rparr>"

definition locked :: "Queue \<Rightarrow> Queue" where
  "locked Q = Q\<lparr>cRxLock := (if cRxLock Q = queueUNLOCKED then queueLOCKED_UNMODIFIED else cRxLock Q),
                cTxLock := (if cTxLock Q = queueUNLOCKED then queueLOCKED_UNMODIFIED else cTxLock Q)\<rparr>"

lemma lock_count_values [simp]:
  "lock_count queueUNLOCKED = 0" "lock_count queueLOCKED_UNMODIFIED = 0"
  by (simp_all add: lock_count_def queueUNLOCKED_def queueLOCKED_UNMODIFIED_def)

lemma lock_queue_eq:
  "queues s q = Some Q \<Longrightarrow> prvLockQueue q s = Some (put_queue q (locked Q) (mem s) s)"
  by (simp add: prvLockQueue_def upd_queue_def put_queue_def locked_def vPortEnterCritical_def vPortExitCritical_def)

lemma unlock_quiet:
  assumes "queues s q = Some Q" and "lock_count (cTxLock Q) = 0" and "lock_count (cRxLock Q) = 0"
  shows "prvUnlockQueue cfg q s = Some (put_queue q (unlocked Q) (mem s) s)"
  using assms by (simp add: prvUnlockQueue_def upd_queue_def put_queue_def unlocked_def Let_def
      vPortEnterCritical_def vPortExitCritical_def)

lemma unlocked_locked:
  "cRxLock Q = queueUNLOCKED \<Longrightarrow> cTxLock Q = queueUNLOCKED \<Longrightarrow> unlocked (locked Q) = Q"
  by (simp add: unlocked_def locked_def)

text \<open>One task leaves the waiting list for each item the interrupts moved, in the order of the list.\<close>

lemma unlock_loop_spec:
  assumes "kernel_inv cfg s" and "l \<in> event_lists s" and "l \<noteq> PendingReadyList"
    and "uxSchedulerSuspended s \<noteq> 0"
  shows "\<exists>s'. unlock_loop cfg l n s = Some s' \<and> kernel_inv cfg s' \<and> same_sched s s' \<and> tcbs s' = tcbs s
    \<and> items s' l = drop n (items s l) \<and> val s' = val s
    \<and> (\<forall>t. home s' (StateListItem t) = home s (StateListItem t))
    \<and> (\<forall>t. home s' (EventListItem t) =
         (if EventListItem t \<in> set (take n (items s l)) then Some PendingReadyList else home s (EventListItem t)))
    \<and> (\<forall>m \<in> event_lists s - {l, PendingReadyList}. items s' m = items s m)"
  using assms
proof (induction n arbitrary: s)
  case 0
  then show ?case by (simp add: same_sched_def)
next
  case (Suc n)
  note l = Suc.prems(2,3)
  show ?case
  proof (cases "items s l = []")
    case True
    then show ?thesis using Suc.prems event_list_empty[OF Suc.prems(1) l(1)] by (simp add: same_sched_def)
  next
    case False
    let ?b = "priority_of s (first_waiting s l) > priority_of s (pxCurrentTCB s)"
    obtain s1 where s1: "xTaskRemoveFromEventList cfg l s = Some (?b, s1)" "kernel_inv cfg s1" "same_sched s s1"
      "home s (EventListItem (first_waiting s l)) = Some l"
      "rehomed s s1 (EventListItem (first_waiting s l)) (Some PendingReadyList)" "tcbs s1 = tcbs s" "val s1 = val s"
      "\<And>m. m \<in> event_lists s \<Longrightarrow> m \<noteq> PendingReadyList \<Longrightarrow> items s1 m = (if m = l then tl (items s l) else items s m)"
      by (rule remove_from_event_list_suspended[OF Suc.prems(1) l(1) False Suc.prems(4)]) (rule that; assumption)
    let ?s1 = "if ?b then vTaskMissedYield s1 else s1"
    have f: "klists ?s1 = klists s1" "tcbs ?s1 = tcbs s" "event_lists ?s1 = event_lists s"
      "same_sched s ?s1" "uxSchedulerSuspended ?s1 \<noteq> 0"
      using s1(3,6) Suc.prems(4) by (simp_all add: vTaskMissedYield_def same_sched_def event_lists_def)
    have k1: "kernel_inv cfg ?s1" by (rule inv_cong[OF s1(2)]) (simp_all add: vTaskMissedYield_def)
    have l1: "l \<in> event_lists ?s1" using l(1) f(3) by simp
    obtain s' where s': "unlock_loop cfg l n ?s1 = Some s'" "kernel_inv cfg s'" "same_sched ?s1 s'" "tcbs s' = tcbs ?s1"
      "items s' l = drop n (items ?s1 l)" "val s' = val ?s1"
      "\<forall>t. home s' (StateListItem t) = home ?s1 (StateListItem t)"
      "\<forall>t. home s' (EventListItem t) =
         (if EventListItem t \<in> set (take n (items ?s1 l)) then Some PendingReadyList else home ?s1 (EventListItem t))"
      "\<forall>m \<in> event_lists ?s1 - {l, PendingReadyList}. items s' m = items ?s1 m"
      using Suc.IH[OF k1 l1 l(2) f(5)] by blast
    have tl: "items ?s1 l = tl (items s l)" using s1(8)[OF l] by (simp add: f)
    obtain i "is" where i: "items s l = i # is" using False by (cases "items s l") auto
    have hd: "i = EventListItem (first_waiting s l)"
    proof -
      obtain t where "i = EventListItem t" "is_task s t" "owner s i = t"
        by (rule event_list_items[OF invD(1)[OF Suc.prems(1)] l(1), of i]) (use i in auto)
      then show ?thesis using i by (simp add: first_waiting_def)
    qed
    have "unlock_loop cfg l (Suc n) s = Some s'"
      using s1(1) s'(1) event_list_empty[OF Suc.prems(1) l(1)] False by simp
    moreover have "same_sched s s'" by (rule same_sched_trans[OF f(4) s'(3)])
    moreover have "home s' (EventListItem t) = (if EventListItem t \<in> set (take (Suc n) (items s l))
         then Some PendingReadyList else home s (EventListItem t))" for t
      using s'(8) s1(5) tl hd i by (simp add: f rehomed_def)
    moreover have "home s' (StateListItem t) = home s (StateListItem t)" for t
      using s'(7) s1(5) by (simp add: f rehomed_def)
    moreover have "items s' m = items s m" if "m \<in> event_lists s - {l, PendingReadyList}" for m
      using s'(9) s1(8)[of m] that f(3) by (simp add: f(1))
    ultimately show ?thesis using s'(2,4,5,6) f(1,2) tl i s1(7) by (simp add: drop_Suc)
  qed
qed

section \<open>Going to sleep on a queue\<close>

lemma block_on_spec:
  assumes k: "kernel_inv cfg s" and one: "uxSchedulerSuspended s = 1" and n: "uxCurrentNumberOfTasks s > 0"
    and p: "items s PendingReadyList = []" and t: "uxPendedTicks s = 0"
    and Q: "queues s q = Some Q" "lock_count (cTxLock Q) = 0" "lock_count (cRxLock Q) = 0"
    and free: "home s (EventListItem (pxCurrentTCB s)) = None" and w: "w \<noteq> 0" "\<not> waits_forever cfg w True"
    and l: "l \<in> event_lists s" "l \<noteq> PendingReadyList"
  obtains s' where "block_on cfg l q w s = Some s'" and "kernel_inv cfg s'"
    and "queues s' = (queues s)(q \<mapsto> unlocked Q)" and "mem s' = mem s" and "PENDING_SOFT_SV s'"
    and "delayed s' (pxCurrentTCB s)" and "ticks_left s' (pxCurrentTCB s) = unat w"
    and "items s' l = insert_by_value (val s) (EventListItem (pxCurrentTCB s)) (items s l)"
    and "uxSchedulerSuspended s' = 0" and "pxCurrentTCB s' = pxCurrentTCB s"
    and "\<And>u. u \<noteq> pxCurrentTCB s \<Longrightarrow> home s' (StateListItem u) = home s (StateListItem u)"
    and "xTickCount s' = xTickCount s" and "priority_of s' = priority_of s"
    and "\<forall>u. home s' (EventListItem u) = (if u = pxCurrentTCB s then Some l else home s (EventListItem u))"
    and "is_task s' = is_task s" and "uxPendedTicks s' = 0 \<and> uxCurrentNumberOfTasks s' = uxCurrentNumberOfTasks s"
proof -
  let ?c = "pxCurrentTCB s"
  obtain s1 m where s1: "vTaskPlaceOnEventList cfg l w s = Some s1" "kernel_inv cfg s1" "same_sched s s1"
    "\<forall>j. home s1 j = (if j = StateListItem ?c then Some m else if j = EventListItem ?c then Some l else home s j)"
    "delayed s1 ?c \<and> ticks_left s1 ?c = unat w"
    "items s1 l = insert_by_value (val s) (EventListItem ?c) (items s l)"
    "\<forall>m. m \<in> event_lists s \<longrightarrow> m \<noteq> l \<longrightarrow> items s1 m = items s m"
    by (rule place_event_spec[OF k w(1) free l(1)]) (use w(2) in blast)
  note g = same_schedD[OF s1(3)]
  have q1: "queues s1 q = Some Q" using g(4) Q(1) by simp
  let ?s2 = "put_queue q (unlocked Q) (mem s1) s1"
  have k2: "kernel_inv cfg ?s2" by (rule put_queue_inv[OF s1(2) q1])
  have "items ?s2 PendingReadyList = []" using s1(7) l p by simp
  moreover have "uxSchedulerSuspended ?s2 = 1" "uxCurrentNumberOfTasks ?s2 > 0" "uxPendedTicks ?s2 = 0"
    using one n t g by (simp_all add: put_queue_def)
  ultimately have r: "xTaskResumeAll cfg ?s2 = Some (xYieldPending ?s2,
     ?s2\<lparr>uxSchedulerSuspended := 0, PENDING_SOFT_SV := PENDING_SOFT_SV ?s2 \<or> xYieldPending ?s2,
       soft_interrupt := soft_interrupt ?s2 \<or> xYieldPending ?s2\<rparr>)" (is "_ = Some (_, ?s3)")
    by (intro resume_quiet[OF invD(1)[OF k2]])
  let ?s' = "if xYieldPending ?s2 then ?s3 else portYIELD ?s3"
  have v: "klists ?s' = klists s1" "tcbs ?s' = tcbs s1" "xTickCount ?s' = xTickCount s1"
    "pxCurrentTCB ?s' = pxCurrentTCB s1" "queues ?s' = (queues s1)(q \<mapsto> unlocked Q)" "mem ?s' = mem s1"
    "PENDING_SOFT_SV ?s'" "uxSchedulerSuspended ?s' = 0" "uxPendedTicks ?s' = uxPendedTicks s1"
    "uxCurrentNumberOfTasks ?s' = uxCurrentNumberOfTasks s1"
    by (simp_all add: put_queue_def)
  have ts: "is_task ?s' = is_task s1" "priority_of ?s' = priority_of s1"
    by (simp_all add: is_task_def priority_of_def v fun_eq_iff)
  show ?thesis
  proof (rule that)
    show "block_on cfg l q w s = Some ?s'"
      using s1(1) r unlock_quiet[OF q1 Q(2,3), of cfg] by (simp add: block_on_def unlock_and_resume_def)
    show "kernel_inv cfg ?s'" by (rule inv_cong[OF k2]) simp_all
    show "delayed ?s' ?c" "ticks_left ?s' ?c = unat w"
      using s1(5) by (simp_all only: delayed_def ticks_left_def v ts)
    show "home ?s' (StateListItem u) = home s (StateListItem u)" if "u \<noteq> ?c" for u
      using s1(4) that by (simp only: v) simp
    show "\<forall>u. home ?s' (EventListItem u) = (if u = ?c then Some l else home s (EventListItem u))"
      using s1(4) by (simp only: v) simp
    show "uxPendedTicks ?s' = 0 \<and> uxCurrentNumberOfTasks ?s' = uxCurrentNumberOfTasks s"
      using g(8,10) t by (simp only: v)
  qed (use v g s1(6) ts in simp_all)
qed


text \<open>
  The head of a waiting pass: the queue is locked, and no time has passed since the time-out was
  set in the same pass.
\<close>

definition locked_state :: "u32 \<Rightarrow> Queue \<Rightarrow> os \<Rightarrow> os" where
  "locked_state q Q s = put_queue q (locked Q) (mem s) (vTaskSuspendAll s)"

lemma suspend_and_check_fresh:
  assumes Q: "queues s q = Some Q" and c: "counts_time cfg w" and w: "w \<noteq> 0"
  obtains lim where "suspend_and_check cfg undisturbed q (vTaskInternalSetTimeOutState s) w s
     = Some (False, lim, w, locked_state q Q s)"
proof -
  let ?s = "locked_state q Q s"
  have lock: "prvLockQueue q (vTaskSuspendAll s) = Some ?s"
    using lock_queue_eq[of "vTaskSuspendAll s" q Q] Q suspend_all_frame(3)[of s]
    by (simp add: locked_state_def same_tasks_def)
  obtain T where T: "at_time s T" using at_some_time by blast
  have T': "at_time ?s T"
    using T by (simp add: at_time_def locked_state_def put_queue_def vTaskSuspendAll_def)
  have w0: "0 < unat w" using w by (simp add: unat_gt_0)
  obtain lim w' where r: "xTaskCheckForTimeOut cfg (vTaskInternalSetTimeOutState s) w ?s = Some (unat w \<le> T - T, lim, w', ?s)"
    and w': "T - T < unat w \<Longrightarrow> lim = vTaskInternalSetTimeOutState ?s \<and> unat w' = unat w - (T - T)"
    by (rule check_timeout_spec[OF c _ _ T', of "vTaskInternalSetTimeOutState s" T])
      (use T in \<open>simp_all add: at_time_def vTaskInternalSetTimeOutState_def\<close>)
  have "w' = w" using w' w0 by (simp add: word_unat_eq_iff)
  then show ?thesis
    using that[of lim] r lock w0 by (simp add: suspend_and_check_def undisturbed_def)
qed

lemma locked_state_facts:
  assumes k: "kernel_inv cfg s" and u: "unsuspended s" and Q: "queues s q = Some Q"
  shows "kernel_inv cfg (locked_state q Q s)" and "uxSchedulerSuspended (locked_state q Q s) = 1"
    and "uxCurrentNumberOfTasks (locked_state q Q s) > 0" and "uxPendedTicks (locked_state q Q s) = 0"
    and "klists (locked_state q Q s) = klists s" and "items (locked_state q Q s) PendingReadyList = []"
    and "queues (locked_state q Q s) = (queues s)(q \<mapsto> locked Q)" and "mem (locked_state q Q s) = mem s"
    and "pxCurrentTCB (locked_state q Q s) = pxCurrentTCB s" and "xTickCount (locked_state q Q s) = xTickCount s"
    and "priority_of (locked_state q Q s) = priority_of s"
    and "event_lists (locked_state q Q s) = event_lists s"
proof -
  have kv: "kernel_inv cfg (vTaskSuspendAll s)" by (rule suspend_all_frame(1)[OF k])
  have Qv: "queues (vTaskSuspendAll s) q = Some Q" using Q by (simp add: vTaskSuspendAll_def)
  show "kernel_inv cfg (locked_state q Q s)"
    unfolding locked_state_def by (rule put_queue_inv[OF kv Qv])
  show kl: "klists (locked_state q Q s) = klists s" by (simp add: locked_state_def suspend_all_frame)
  have "items s PendingReadyList = []"
    using pending_list_empty[OF invD(1)[OF k]] u by (simp add: unsuspended_def)
  then show "items (locked_state q Q s) PendingReadyList = []" by (simp add: kl)
  show "event_lists (locked_state q Q s) = event_lists s"
    by (rule event_lists_dom) (use Q in \<open>auto simp: locked_state_def vTaskSuspendAll_def\<close>)
qed (use u in \<open>simp_all add: locked_state_def put_queue_def vTaskSuspendAll_def unsuspended_def
      priority_of_def fun_eq_iff\<close>)

lemma wait_on_queue:
  assumes k: "kernel_inv cfg s" and u: "unsuspended s"
    and Q: "queues s q = Some Q" "cRxLock Q = queueUNLOCKED" "cTxLock Q = queueUNLOCKED"
    and c: "counts_time cfg w" and w: "w \<noteq> 0" and free: "home s (EventListItem (pxCurrentTCB s)) = None"
    and l: "l \<in> event_lists s" "l \<noteq> PendingReadyList"
  obtains s' where "block_on cfg l q w (locked_state q Q s) = Some s'" and "kernel_inv cfg s'"
    and "queues s' = queues s" and "mem s' = mem s" and "PENDING_SOFT_SV s'"
    and "delayed s' (pxCurrentTCB s)" and "ticks_left s' (pxCurrentTCB s) = unat w"
    and "items s' l = insert_by_value (val s) (EventListItem (pxCurrentTCB s)) (items s l)"
    and "uxSchedulerSuspended s' = 0" and "pxCurrentTCB s' = pxCurrentTCB s"
    and "\<And>u. u \<noteq> pxCurrentTCB s \<Longrightarrow> home s' (StateListItem u) = home s (StateListItem u)"
    and "\<forall>u. home s' (EventListItem u) = (if u = pxCurrentTCB s then Some l else home s (EventListItem u))"
    and "is_task s' = is_task s" and "unsuspended s'"
proof -
  note f = locked_state_facts[OF k u Q(1)]
  let ?s = "locked_state q Q s"
  have nf: "\<not> waits_forever cfg w True" using c by (simp add: waits_forever_def counts_time_def)
  have lc: "lock_count (cTxLock (locked Q)) = 0" "lock_count (cRxLock (locked Q)) = 0"
    using Q(2,3) by (simp_all add: locked_def)
  have q: "queues ?s q = Some (locked Q)" using f(7) by simp
  have free': "home ?s (EventListItem (pxCurrentTCB ?s)) = None" using free f(5,9) by simp
  have l': "l \<in> event_lists ?s" using l(1) f(12) by simp
  have same: "(queues s)(q \<mapsto> locked Q, q \<mapsto> unlocked (locked Q)) = queues s"
    using Q unlocked_locked[OF Q(2,3)] by (simp add: fun_upd_idem)
  obtain s' where s': "block_on cfg l q w ?s = Some s'" "kernel_inv cfg s'"
    "queues s' = (queues ?s)(q \<mapsto> unlocked (locked Q))" "mem s' = mem ?s" "PENDING_SOFT_SV s'"
    "delayed s' (pxCurrentTCB ?s)" "ticks_left s' (pxCurrentTCB ?s) = unat w"
    "items s' l = insert_by_value (val ?s) (EventListItem (pxCurrentTCB ?s)) (items ?s l)"
    "uxSchedulerSuspended s' = 0" "pxCurrentTCB s' = pxCurrentTCB ?s"
    "\<And>u. u \<noteq> pxCurrentTCB ?s \<Longrightarrow> home s' (StateListItem u) = home ?s (StateListItem u)"
    "\<forall>u. home s' (EventListItem u) = (if u = pxCurrentTCB ?s then Some l else home ?s (EventListItem u))"
    "is_task s' = is_task ?s" "uxPendedTicks s' = 0 \<and> uxCurrentNumberOfTasks s' = uxCurrentNumberOfTasks ?s"
    by (rule block_on_spec[OF f(1,2,3,6,4) q lc free' w nf l' l(2)]) (rule that; assumption)
  have ts: "is_task ?s = is_task s" by (simp add: locked_state_def suspend_all_frame)
  have "pending s' = {}" using s'(12) l(2) u by (auto simp: pending_def f(5,9) s'(13) ts unsuspended_def split: if_splits)
  then have un: "unsuspended s'" using s'(9,14) f(3) by (simp add: unsuspended_def)
  show ?thesis
    by (rule that[OF s'(1,2)]) (use s' f same un ts in simp_all)
qed

section \<open>The first pass of a blocking call\<close>

lemma receive_waits:
  assumes k: "kernel_inv cfg s" and u: "unsuspended s"
    and Q: "queues s q = Some Q" "cRxLock Q = queueUNLOCKED" "cTxLock Q = queueUNLOCKED" "uxMessagesWaiting Q = 0"
    and c: "counts_time cfg w" and w: "w \<noteq> 0" and free: "home s (EventListItem (pxCurrentTCB s)) = None"
  obtains s' where "xQueueReceive cfg [undisturbed] q buf w s = Some (StillBlocked s')" and "kernel_inv cfg s'"
    and "queues s' = queues s" and "mem s' = mem s" and "PENDING_SOFT_SV s'"
    and "delayed s' (pxCurrentTCB s)" and "ticks_left s' (pxCurrentTCB s) = unat w"
    and "items s' (WaitingToReceive q)
       = insert_by_value (val s) (EventListItem (pxCurrentTCB s)) (items s (WaitingToReceive q))"
    and "\<And>u. u \<noteq> pxCurrentTCB s \<Longrightarrow> home s' (StateListItem u) = home s (StateListItem u)"
    and "\<forall>u. home s' (EventListItem u) = (if u = pxCurrentTCB s then Some (WaitingToReceive q) else home s (EventListItem u))"
    and "is_task s' = is_task s" and "unsuspended s'" and "pxCurrentTCB s' = pxCurrentTCB s"
proof -
  have l: "WaitingToReceive q \<in> event_lists s" using Q(1) by (auto simp: event_lists_def)
  have pass: "receive_pass cfg q buf w x = Some (None, x)" if "queues x q = Some Q" for x
    using that Q(4) w by (simp add: receive_pass_def Let_def)
  obtain s' where s': "block_on cfg (WaitingToReceive q) q w (locked_state q Q s) = Some s'" "kernel_inv cfg s'"
    "queues s' = queues s" "mem s' = mem s" "PENDING_SOFT_SV s'"
    "delayed s' (pxCurrentTCB s)" "ticks_left s' (pxCurrentTCB s) = unat w"
    "items s' (WaitingToReceive q)
       = insert_by_value (val s) (EventListItem (pxCurrentTCB s)) (items s (WaitingToReceive q))"
    "\<And>u. u \<noteq> pxCurrentTCB s \<Longrightarrow> home s' (StateListItem u) = home s (StateListItem u)"
    "\<forall>u. home s' (EventListItem u) = (if u = pxCurrentTCB s then Some (WaitingToReceive q) else home s (EventListItem u))"
    "is_task s' = is_task s" "unsuspended s'" "pxCurrentTCB s' = pxCurrentTCB s"
    by (rule wait_on_queue[OF k u Q(1-3) c w free l]) (use that in auto)
  obtain lim where sc: "suspend_and_check cfg undisturbed q (vTaskInternalSetTimeOutState s) w s
     = Some (False, lim, w, locked_state q Q s)"
    by (rule suspend_and_check_fresh[OF Q(1) c w])
  have e: "prvIsQueueEmpty q (locked_state q Q s) = Some (True, locked_state q Q s)"
    using locked_state_facts(7)[OF k u Q(1)] Q(4) by (simp add: prvIsQueueEmpty_def Let_def locked_def)
  have "xQueueReceive cfg [undisturbed] q buf w s = Some (StillBlocked s')"
    using pass[of s] pass[of s'] Q(1) s'(1,3) sc e by (simp add: xQueueReceive_def undisturbed_def)
  then show ?thesis using that s' by blast
qed

lemma send_waits:
  assumes k: "kernel_inv cfg s" and u: "unsuspended s"
    and Q: "queues s q = Some Q" "cRxLock Q = queueUNLOCKED" "cTxLock Q = queueUNLOCKED"
      "uxMessagesWaiting Q = uxLength Q"
    and c: "counts_time cfg w" and w: "w \<noteq> 0" and free: "home s (EventListItem (pxCurrentTCB s)) = None"
    and pos: "pos \<noteq> queueOVERWRITE"
  obtains s' where "xQueueGenericSend cfg [undisturbed] q item w pos s = Some (StillBlocked s')" and "kernel_inv cfg s'"
    and "queues s' = queues s" and "mem s' = mem s" and "PENDING_SOFT_SV s'"
    and "delayed s' (pxCurrentTCB s)" and "ticks_left s' (pxCurrentTCB s) = unat w"
    and "items s' (WaitingToSend q)
       = insert_by_value (val s) (EventListItem (pxCurrentTCB s)) (items s (WaitingToSend q))"
    and "\<And>u. u \<noteq> pxCurrentTCB s \<Longrightarrow> home s' (StateListItem u) = home s (StateListItem u)"
    and "\<forall>u. home s' (EventListItem u) = (if u = pxCurrentTCB s then Some (WaitingToSend q) else home s (EventListItem u))"
    and "is_task s' = is_task s" and "unsuspended s'" and "pxCurrentTCB s' = pxCurrentTCB s"
proof -
  have l: "WaitingToSend q \<in> event_lists s" using Q(1) by (auto simp: event_lists_def)
  have pass: "send_pass cfg q item pos w x = Some (None, x)" if "queues x q = Some Q" for x
    using that Q(4) w pos by (simp add: send_pass_def Let_def)
  obtain s' where s': "block_on cfg (WaitingToSend q) q w (locked_state q Q s) = Some s'" "kernel_inv cfg s'"
    "queues s' = queues s" "mem s' = mem s" "PENDING_SOFT_SV s'"
    "delayed s' (pxCurrentTCB s)" "ticks_left s' (pxCurrentTCB s) = unat w"
    "items s' (WaitingToSend q)
       = insert_by_value (val s) (EventListItem (pxCurrentTCB s)) (items s (WaitingToSend q))"
    "\<And>u. u \<noteq> pxCurrentTCB s \<Longrightarrow> home s' (StateListItem u) = home s (StateListItem u)"
    "\<forall>u. home s' (EventListItem u) = (if u = pxCurrentTCB s then Some (WaitingToSend q) else home s (EventListItem u))"
    "is_task s' = is_task s" "unsuspended s'" "pxCurrentTCB s' = pxCurrentTCB s"
    by (rule wait_on_queue[OF k u Q(1-3) c w free l]) (use that in auto)
  obtain lim where sc: "suspend_and_check cfg undisturbed q (vTaskInternalSetTimeOutState s) w s
     = Some (False, lim, w, locked_state q Q s)"
    by (rule suspend_and_check_fresh[OF Q(1) c w])
  have e: "prvIsQueueFull q (locked_state q Q s) = Some (True, locked_state q Q s)"
    using locked_state_facts(7)[OF k u Q(1)] Q(4) by (simp add: prvIsQueueFull_def Let_def locked_def)
  have "xQueueGenericSend cfg [undisturbed] q item w pos s = Some (StillBlocked s')"
    using pass[of s] pass[of s'] Q(1) s'(1,3) sc e by (simp add: xQueueGenericSend_def undisturbed_def)
  then show ?thesis using that s' by blast
qed

end
