(* ===== verification/Os_Queue_Interface.thy ===== *)
theory Os_Queue_Interface
  imports Os_Queue_Block
begin

text \<open>
  The contract of a bounded first-in first-out channel, what follows from it for any sequence of
  sends and receives, and the proof that the queues of \<^verbatim>\<open>queue.c\<close> provide it.
\<close>

section \<open>The contract\<close>

datatype 'm fifo_op = Put 'm | Get
datatype 'm fifo_result = Sent bool | Got "'m option"

fun fifo_step :: "nat \<Rightarrow> 'm fifo_op \<Rightarrow> 'm list \<Rightarrow> 'm fifo_result \<times> 'm list" where
  "fifo_step n (Put m) ms = (Sent (length ms < n), if length ms < n then ms @ [m] else ms)"
| "fifo_step n Get ms = (case ms of [] \<Rightarrow> (Got None, []) | m # ms' \<Rightarrow> (Got (Some m), ms'))"

fun fifo_run :: "nat \<Rightarrow> 'm fifo_op list \<Rightarrow> 'm list \<Rightarrow> 'm fifo_result list \<times> 'm list" where
  "fifo_run n [] ms = ([], ms)"
| "fifo_run n (x # xs) ms =
     (let (r, ms1) = fifo_step n x ms; (rs, ms2) = fifo_run n xs ms1 in (r # rs, ms2))"

text \<open>The same operations performed with a \<open>put\<close> and a \<open>get\<close> on a state.\<close>

fun channel_run :: "('m \<Rightarrow> 's \<Rightarrow> (bool \<times> 's) option) \<Rightarrow> ('s \<Rightarrow> ('m option \<times> 's) option)
    \<Rightarrow> 'm fifo_op list \<Rightarrow> 's \<Rightarrow> ('m fifo_result list \<times> 's) option" where
  "channel_run put get [] s = Some ([], s)"
| "channel_run put get (Put m # xs) s =
     do { (b, s1) \<leftarrow> put m s; (rs, s2) \<leftarrow> channel_run put get xs s1; Some (Sent b # rs, s2) }"
| "channel_run put get (Get # xs) s =
     do { (x, s1) \<leftarrow> get s; (rs, s2) \<leftarrow> channel_run put get xs s1; Some (Got x # rs, s2) }"

fun messages_ok :: "('m \<Rightarrow> bool) \<Rightarrow> 'm fifo_op list \<Rightarrow> bool" where
  "messages_ok ok [] \<longleftrightarrow> True"
| "messages_ok ok (Put m # xs) \<longleftrightarrow> ok m \<and> messages_ok ok xs"
| "messages_ok ok (Get # xs) \<longleftrightarrow> messages_ok ok xs"

locale bounded_fifo =
  fixes good :: "'s \<Rightarrow> bool" and held :: "'s \<Rightarrow> 'm list" and bound :: "'s \<Rightarrow> nat"
    and ok :: "'m \<Rightarrow> bool" and put :: "'m \<Rightarrow> 's \<Rightarrow> (bool \<times> 's) option"
    and get :: "'s \<Rightarrow> ('m option \<times> 's) option"
  assumes put_law: "good s \<Longrightarrow> ok m \<Longrightarrow>
      \<exists>s'. put m s = Some (length (held s) < bound s, s') \<and> good s' \<and> bound s' = bound s
        \<and> held s' = (if length (held s) < bound s then held s @ [m] else held s)"
    and get_law: "good s \<Longrightarrow>
      \<exists>s'. get s = Some (case held s of [] \<Rightarrow> None | m # _ \<Rightarrow> Some m, s') \<and> good s' \<and> bound s' = bound s
        \<and> held s' = tl (held s)"
    and bounded: "good s \<Longrightarrow> length (held s) \<le> bound s"
begin

lemma runs_as_fifo:
  assumes "good s" and "messages_ok ok xs"
  shows "\<exists>s'. channel_run put get xs s = Some (fst (fifo_run (bound s) xs (held s)), s') \<and> good s'
     \<and> held s' = snd (fifo_run (bound s) xs (held s)) \<and> bound s' = bound s"
  using assms
proof (induction xs arbitrary: s)
  case Nil
  then show ?case by simp
next
  case (Cons x xs)
  show ?case
  proof (cases x)
    case (Put m)
    obtain s1 where s1: "put m s = Some (length (held s) < bound s, s1)" "good s1" "bound s1 = bound s"
      "held s1 = (if length (held s) < bound s then held s @ [m] else held s)"
      using put_law[of s m] Cons.prems Put by auto
    then show ?thesis using Cons.IH[OF s1(2)] Cons.prems Put by (auto simp: Let_def split: prod.splits)
  next
    case Get
    obtain s1 where s1: "get s = Some (case held s of [] \<Rightarrow> None | m # _ \<Rightarrow> Some m, s1)" "good s1"
      "bound s1 = bound s" "held s1 = tl (held s)"
      using get_law[of s] Cons.prems by auto
    then show ?thesis using Cons.IH[OF s1(2)] Cons.prems Get
      by (cases "held s") (auto simp: Let_def split: prod.splits)
  qed
qed

text \<open>What goes in while there is room comes out in the same order.\<close>

lemma fifo_fill:
  "length ms + length xs \<le> n \<Longrightarrow> fifo_run n (map Put xs @ ys) ms =
     (let (rs, ms') = fifo_run n ys (ms @ xs) in (map (\<lambda>_. Sent True) xs @ rs, ms'))"
  by (induction xs arbitrary: ms) (auto simp: Let_def split: prod.splits)

lemma fifo_drain: "fifo_run n (map (\<lambda>_. Get) xs) (xs @ ms) = (map (\<lambda>m. Got (Some m)) xs, ms)"
  by (induction xs) simp_all

lemma messages_in_order:
  assumes "good s" and "held s = []" and "length xs \<le> bound s" and "\<forall>m \<in> set xs. ok m"
  shows "\<exists>s'. channel_run put get (map Put xs @ map (\<lambda>_. Get) xs) s
     = Some (map (\<lambda>_. Sent True) xs @ map (\<lambda>m. Got (Some m)) xs, s') \<and> held s' = []"
proof -
  have "messages_ok ok (map Put zs @ map (\<lambda>_. Get) xs)" if "\<forall>m \<in> set zs. ok m" for zs
  proof -
    have g: "messages_ok ok (map (\<lambda>_. Get) xs)" by (induction xs) auto
    show ?thesis using that g by (induction zs) auto
  qed
  then have "messages_ok ok (map Put xs @ map (\<lambda>_. Get) xs)" using assms(4) by blast
  from runs_as_fifo[OF assms(1) this] show ?thesis
    using assms(2,3) fifo_drain[of "bound s" xs "[]"] by (auto simp: fifo_fill Let_def)
qed

end

section \<open>Queues are such channels\<close>

text \<open>A caller that puts its message at the address \<open>src\<close> and receives into the buffer at \<open>dst\<close>, without waiting.\<close>

definition poke :: "u32 \<Rightarrow> u8 list \<Rightarrow> (u32 \<Rightarrow> u8) \<Rightarrow> (u32 \<Rightarrow> u8)" where
  "poke a m mm = (\<lambda>x. if unat (x - a) < length m then m ! unat (x - a) else mm x)"

definition queue_put :: "os_config \<Rightarrow> u32 \<Rightarrow> u32 \<Rightarrow> u8 list \<Rightarrow> os \<Rightarrow> (bool \<times> os) option" where
  "queue_put cfg q src m s =
     (case xQueueGenericSend cfg [] q src 0 queueSEND_TO_BACK (s\<lparr>mem := poke src m (mem s)\<rparr>) of
        Some (Returned b s') \<Rightarrow> Some (b, s') | _ \<Rightarrow> None)"

definition queue_get :: "os_config \<Rightarrow> u32 \<Rightarrow> u32 \<Rightarrow> os \<Rightarrow> (u8 list option \<times> os) option" where
  "queue_get cfg q dst s =
     (case xQueueReceive cfg [] q dst 0 s of
        Some (Returned b s') \<Rightarrow> Some (if b then Some (message_at s' q dst) else None, s') | _ \<Rightarrow> None)"

definition queue_ready :: "os_config \<Rightarrow> u32 \<Rightarrow> u32 \<Rightarrow> u32 \<Rightarrow> u32 \<Rightarrow> os \<Rightarrow> bool" where
  "queue_ready cfg q z src dst s \<longleftrightarrow> kernel_inv cfg s \<and> uxSchedulerSuspended s = 0 \<and>
     (\<exists>Q. queues s q = Some Q \<and> ring Q (read_slot Q) \<and> uxItemSize Q = z
        \<and> buffer_apart Q src \<and> buffer_apart Q dst)"

definition queue_messages :: "u32 \<Rightarrow> os \<Rightarrow> u8 list list" where
  "queue_messages q s = contents (the (queues s q)) (mem s)"

lemma block_poked: "length m = unat n \<Longrightarrow> block (poke a m mm) a n = m"
proof -
  assume l: "length m = unat n"
  have "unat n < 2 ^ 32" by (rule order_less_le_trans[OF unsigned_less]) simp
  then show ?thesis using l
    by (intro nth_equalityI) (simp_all add: block_def poke_def unat_of_nat32)
qed

lemma poke_apart:
  assumes "apart a b n" and "length m = unat n"
  shows "block (poke b m mm) a n = block mm a n"
  using assms by (auto simp: block_def poke_def apart_def word_less_nat_alt)

lemma contents_poked:
  assumes "buffer_apart Q b" and "length m = size_of Q" and "ring Q r"
  shows "contents Q (poke b m mm) = contents Q mm"
proof -
  have "0 < cap Q" using assms(3) by (auto simp: ring_def)
  then show ?thesis using assms(1,2)
    by (simp add: contents_def slots_from_def buffer_apart_def poke_apart)
qed

lemma buffer_fields:
  "buffer_apart (sent Q) b = buffer_apart Q b" "buffer_apart (received Q) b = buffer_apart Q b"
  "uxItemSize (sent Q) = uxItemSize Q" "uxLength (sent Q) = uxLength Q"
  "uxItemSize (received Q) = uxItemSize Q" "uxLength (received Q) = uxLength Q"
  by (simp_all add: buffer_apart_def slot_def sent_def received_def read_on_def Let_def)

lemma holds_messages: "holds s q ms \<Longrightarrow> queue_messages q s = ms"
  by (auto simp: holds_def queue_messages_def)

lemma wakes_first_suspended: "wakes_first s s' l \<Longrightarrow> uxSchedulerSuspended s' = uxSchedulerSuspended s"
  by (simp add: wakes_first_def)

lemma put_law:
  assumes g: "queue_ready cfg q z src dst s" and m: "length m = unat z"
  shows "\<exists>s'. queue_put cfg q src m s = Some (length (queue_messages q s) < capacity s q, s')
     \<and> queue_ready cfg q z src dst s' \<and> capacity s' q = capacity s q
     \<and> queue_messages q s' = (if length (queue_messages q s) < capacity s q
          then queue_messages q s @ [m] else queue_messages q s)"
proof -
  obtain Q where k: "kernel_inv cfg s" "uxSchedulerSuspended s = 0" and Q: "queues s q = Some Q"
      "ring Q (read_slot Q)" "uxItemSize Q = z" and b: "buffer_apart Q src" "buffer_apart Q dst"
    using g unfolding queue_ready_def by blast
  let ?m = "poke src m (mem s)" and ?s = "s\<lparr>mem := poke src m (mem s)\<rparr>"
  have k': "kernel_inv cfg ?s" by (rule inv_cong[OF k(1)]) simp_all
  have c: "contents Q ?m = contents Q (mem s)" using contents_poked[OF b(1) _ Q(2)] m Q(3) by simp
  have l: "length (queue_messages q s) = waiting Q" by (simp add: queue_messages_def Q contents_length)
  have z0: "uxItemSize Q \<noteq> 0" using Q(2) by (simp add: ring_def storage_ok_def)
  have bm: "block ?m src (uxItemSize Q) = m" using block_poked[of m z] m Q(3) by simp
  show ?thesis
  proof (cases "waiting Q < cap Q")
    case True
    note r = send_back_ring(1)[OF Q(2) True] send_back_ring(2)[OF Q(2) True, of src ?m]
    have cp: "prvCopyDataToQueue q src queueSEND_TO_BACK (vPortEnterCritical ?s) = Some (False,
        put_queue q (sent Q) (memcpy_bytes (pcWriteTo Q) src (uxItemSize Q) ?m) (vPortEnterCritical ?s))"
      using copy_to_back[of "vPortEnterCritical ?s" q Q src] Q(1) z0 by simp
    have room: "uxMessagesWaiting Q < uxLength Q \<or> queueSEND_TO_BACK = queueOVERWRITE"
      using True by (simp add: word_less_nat_alt)
    have rq: "uxSchedulerSuspended ?s = 0" "queues ?s q = Some Q" using k(2) Q(1) by simp_all
    obtain s' where s': "xQueueGenericSend cfg [] q src 0 queueSEND_TO_BACK ?s = Some (Returned True s')"
      "kernel_inv cfg s'" "holds s' q (contents Q ?m @ [block ?m src (uxItemSize Q)])"
      "wakes_first ?s s' (WaitingToReceive q)" "queues s' q = Some (sent Q)"
      by (rule send_with_room[OF k' rq room cp r(1,2)]) (rule that; assumption)
    have "queue_ready cfg q z src dst s'"
      using s'(2,5) wakes_first_suspended[OF s'(4)] k(2) b Q(3) r(1)
      by (simp add: queue_ready_def buffer_fields read_slot_eq)
    then show ?thesis using True s'(1,5) holds_messages[OF s'(3)] c bm l Q(1)
      by (simp add: queue_put_def capacity_def buffer_fields) (simp add: queue_messages_def)
  next
    case False
    then have "\<not> uxMessagesWaiting Q < uxLength Q" by (simp add: word_less_nat_alt)
    then have "send_pass cfg q src queueSEND_TO_BACK 0 ?s = Some (Some False, ?s)"
      using Q(1) by (simp add: send_pass_def Let_def queueSEND_TO_BACK_def queueOVERWRITE_def)
    then have "queue_put cfg q src m s = Some (False, ?s)"
      by (simp add: queue_put_def xQueueGenericSend_def)
    moreover have "queue_ready cfg q z src dst ?s" using k k' Q b by (simp add: queue_ready_def)
    ultimately show ?thesis using False l c Q(1) by (simp add: capacity_def queue_messages_def)
  qed
qed

lemma get_law:
  assumes g: "queue_ready cfg q z src dst s"
  shows "\<exists>s'. queue_get cfg q dst s = Some (case queue_messages q s of [] \<Rightarrow> None | m # _ \<Rightarrow> Some m, s')
     \<and> queue_ready cfg q z src dst s' \<and> capacity s' q = capacity s q
     \<and> queue_messages q s' = tl (queue_messages q s)"
proof -
  obtain Q where k: "kernel_inv cfg s" "uxSchedulerSuspended s = 0" and Q: "queues s q = Some Q"
      "ring Q (read_slot Q)" "uxItemSize Q = z" and b: "buffer_apart Q src" "buffer_apart Q dst"
    using g unfolding queue_ready_def by blast
  have h: "holds s q (queue_messages q s)" using Q by (auto simp: holds_def queue_messages_def)
  show ?thesis
  proof (cases "queue_messages q s")
    case Nil
    have "waiting Q = 0" using Nil contents_length[of Q "mem s"] Q(1) by (simp add: queue_messages_def)
    then have "uxMessagesWaiting Q = 0" by (simp add: unat_eq_zero)
    then have "receive_pass cfg q dst 0 s = Some (Some False, s)"
      using Q(1) by (simp add: receive_pass_def Let_def)
    then have "queue_get cfg q dst s = Some (None, s)" by (simp add: queue_get_def xQueueReceive_def)
    then show ?thesis using Nil g by simp
  next
    case (Cons m ms)
    have ap: "buffer_apart (the (queues s q)) dst" using b(2) Q(1) by simp
    obtain s' where s': "xQueueReceive cfg [] q dst 0 s = Some (Returned True s')" "kernel_inv cfg s'"
      "holds s' q ms" "message_at s' q dst = m" "wakes_first s s' (WaitingToSend q)"
      "queues s' q = Some (received (the (queues s q)))"
      by (rule receive_with_message[OF k h[unfolded Cons] ap]) (rule that; assumption)
    have "waiting Q > 0" using Cons contents_length[of Q "mem s"] Q(1) by (simp add: queue_messages_def)
    then have "ring (received Q) (read_slot (received Q))"
      using receive_ring(1)[OF Q(2)] read_slot_eq by metis
    then have "queue_ready cfg q z src dst s'"
      using s'(2,6) wakes_first_suspended[OF s'(5)] k(2) b Q(1,3)
      by (simp add: queue_ready_def buffer_fields)
    then show ?thesis using Cons s'(1,4,6) holds_messages[OF s'(3)] Q(1)
      by (simp add: queue_get_def capacity_def buffer_fields)
  qed
qed

interpretation os_queue: bounded_fifo "queue_ready cfg q z src dst" "queue_messages q"
    "\<lambda>s. capacity s q" "\<lambda>m. length m = unat z" "queue_put cfg q src" "queue_get cfg q dst"
  for cfg :: os_config and q z src dst :: u32
proof unfold_locales
  fix s and m :: "u8 list"
  assume "queue_ready cfg q z src dst s" and "length m = unat z"
  then show "\<exists>s'. queue_put cfg q src m s = Some (length (queue_messages q s) < capacity s q, s')
     \<and> queue_ready cfg q z src dst s' \<and> capacity s' q = capacity s q
     \<and> queue_messages q s' = (if length (queue_messages q s) < capacity s q
          then queue_messages q s @ [m] else queue_messages q s)" by (rule put_law)
next
  fix s assume "queue_ready cfg q z src dst s"
  then show "\<exists>s'. queue_get cfg q dst s = Some (case queue_messages q s of [] \<Rightarrow> None | m # _ \<Rightarrow> Some m, s')
     \<and> queue_ready cfg q z src dst s' \<and> capacity s' q = capacity s q
     \<and> queue_messages q s' = tl (queue_messages q s)" by (rule get_law)
next
  fix s assume "queue_ready cfg q z src dst s"
  then show "length (queue_messages q s) \<le> capacity s q"
    by (auto simp: queue_ready_def queue_messages_def capacity_def contents_length ring_def)
qed

end
