(* ===== verification/Os_Queue_Demo.thy ===== *)
theory Os_Queue_Demo
  imports Os_Queue_Interface Os_Task_Demo
begin

text \<open>
  A concrete queue for the instances: two slots of four bytes, created at address 0x5000 in the
  kernel with two tasks, with message buffers at 0x8000 and 0x9000.
\<close>

definition demo_fresh_queue :: Queue where
  "demo_fresh_queue = \<lparr>pcHead = 0, pcWriteTo = 0, u_word0 = 0, u_word1 = 0, uxMessagesWaiting = 0,
     uxLength = 0, uxItemSize = 0, cRxLock = 0, cTxLock = 0\<rparr>"

definition demo_queue_state :: os where
  "demo_queue_state = new_queue_state 0x5000 2 4 demo_fresh_queue demo_two"

definition demo_queue :: Queue where
  "demo_queue = new_queue 0x5000 2 4 demo_fresh_queue"

lemma demo_queue_created:
  "xQueueGenericCreate as_built page_malloc demo_fresh_queue 2 4 demo_two = Some (0x5000, demo_queue_state)"
  unfolding demo_queue_state_def
  by (rule queue_create_eq) (simp_all add: page_malloc_def demo_two_rest)

lemma demo_unused: "unused_handle demo_two 0x5000"
  by (simp add: unused_handle_def demo_two_rest demo_two)

lemma demo_queue_fields:
  "pcHead demo_queue = 0x5048" "uxLength demo_queue = 2" "uxItemSize demo_queue = 4"
  "uxMessagesWaiting demo_queue = 0" "cRxLock demo_queue = queueUNLOCKED" "cTxLock demo_queue = queueUNLOCKED"
  by (simp_all add: demo_queue_def new_queue_def Let_def sizeof_Queue_def)

lemma demo_queue_state_views:
  "queues demo_queue_state = [0x5000 \<mapsto> demo_queue]" "tcbs demo_queue_state = tcbs demo_two"
  "pxCurrentTCB demo_queue_state = 0x4000" "uxSchedulerSuspended demo_queue_state = 0"
  "mem demo_queue_state = mem demo_two"
  "home demo_queue_state = home demo_two"
  by (simp_all add: demo_queue_state_def new_queue_state_def demo_two demo_two_rest demo_queue_def
      new_lists_def vListInitialise_frame fun_eq_iff)

lemma demo_queue_inv: "kernel_inv as_built demo_queue_state"
  unfolding demo_queue_state_def by (rule new_queue_inv(1)[OF demo_two(2) demo_unused])

lemma demo_queue_ring: "ring demo_queue 1" "contents demo_queue m = []"
proof -
  have b: "block_fits 0x5000 2 4" by (simp add: block_fits_def)
  show "ring demo_queue 1" "contents demo_queue m = []"
    unfolding demo_queue_def using new_queue_ring[OF b, of demo_fresh_queue] by simp_all
qed

lemma demo_queue_unsuspended: "unsuspended demo_queue_state"
  using demo_two_unsuspended
  by (simp add: unsuspended_def pending_def is_task_def demo_queue_state_def new_queue_state_def
      new_lists_def vListInitialise_frame)

lemma demo_queue_holds: "holds demo_queue_state 0x5000 []"
  by (rule holdsI[of _ _ demo_queue 1]) (simp_all add: demo_queue_state_views demo_queue_ring[simplified])

lemma demo_queue_lists:
  "items demo_queue_state (WaitingToReceive 0x5000) = []" "items demo_queue_state (WaitingToSend 0x5000) = []"
  unfolding demo_queue_state_def using new_queue_inv(3,4)[OF demo_two(2) demo_unused] by blast+

lemma demo_buffers: "buffer_apart demo_queue 0x8000" "buffer_apart demo_queue 0x9000"
proof -
  have s: "slot demo_queue 0 = 0x5048" "slot demo_queue (Suc 0) = 0x504C"
    by (simp_all add: slot_def demo_queue_fields)
  have j: "(\<forall>j < 2. P j) \<longleftrightarrow> P 0 \<and> P (Suc 0)"
    "(\<forall>i < 4. P i) \<longleftrightarrow> P 0 \<and> P 1 \<and> P 2 \<and> P 3" for P :: "nat \<Rightarrow> bool"
    by (auto simp: numeral_eq_Suc All_less_Suc)
  show "buffer_apart demo_queue 0x8000" "buffer_apart demo_queue 0x9000"
    unfolding buffer_apart_def apart_def demo_queue_fields(2,3)
    by (simp_all add: j s word_less_nat_alt)
qed

lemma demo_queue_ready: "queue_ready as_built 0x5000 4 0x8000 0x9000 demo_queue_state"
  using demo_queue_inv demo_queue_state_views(4) demo_queue_ring(1) demo_buffers
  by (simp add: queue_ready_def demo_queue_state_views demo_queue_fields read_slot_eq)

lemma demo_queue_capacity: "capacity demo_queue_state 0x5000 = 2" "queue_messages 0x5000 demo_queue_state = []"
  by (simp_all add: capacity_def queue_messages_def demo_queue_state_views demo_queue_fields demo_queue_ring)

text \<open>The same queue filled: two messages, the low bytes of the addresses they are stored at.\<close>

definition demo_full_queue :: Queue where
  "demo_full_queue = demo_queue\<lparr>uxMessagesWaiting := 2\<rparr>"

definition demo_full_state :: os where
  "demo_full_state = put_queue 0x5000 demo_full_queue (\<lambda>a. ucast a) demo_queue_state"

lemma demo_full_ring: "ring demo_full_queue 1"
proof -
  have s: "slot demo_full_queue = slot demo_queue" by (simp add: demo_full_queue_def slot_def fun_eq_iff)
  have o: "storage_ok demo_full_queue"
    using demo_queue_ring(1) by (simp add: ring_def storage_ok_def s) (simp add: demo_full_queue_def)
  have "ring demo_queue 1" by (rule demo_queue_ring(1))
  with o show ?thesis by (simp add: ring_def s) (simp add: demo_full_queue_def demo_queue_fields)
qed

lemma demo_full_contents:
  "contents demo_full_queue (\<lambda>a. ucast a) = [[0x48, 0x49, 0x4A, 0x4B], [0x4C, 0x4D, 0x4E, 0x4F]]"
proof -
  have u: "[0..<2] = [0, Suc 0]" "[0..<4] = [0, 1, 2, 3]" by (simp_all add: numeral_eq_Suc upt_rec)
  show ?thesis
    unfolding contents_def read_slot_eq[OF demo_full_ring]
    by (simp add: slots_from_def block_def slot_def demo_full_queue_def demo_queue_fields u)
qed

lemma demo_full_views:
  "queues demo_full_state = [0x5000 \<mapsto> demo_full_queue]" "pxCurrentTCB demo_full_state = 0x4000"
  "uxSchedulerSuspended demo_full_state = 0" "klists demo_full_state = klists demo_queue_state"
  "home demo_full_state = home demo_two" "mem demo_full_state = (\<lambda>a. ucast a)"
  by (simp_all add: demo_full_state_def demo_queue_state_views)
    (simp add: demo_queue_state_views(6)[unfolded fun_eq_iff] fun_eq_iff)?

lemma demo_full_fields:
  "uxLength demo_full_queue = 2" "uxItemSize demo_full_queue = 4" "uxMessagesWaiting demo_full_queue = 2"
  "cRxLock demo_full_queue = queueUNLOCKED" "cTxLock demo_full_queue = queueUNLOCKED"
  by (simp_all add: demo_full_queue_def demo_queue_fields)

lemma demo_full_inv: "kernel_inv as_built demo_full_state"
  unfolding demo_full_state_def
  by (rule put_queue_inv[OF demo_queue_inv]) (simp add: demo_queue_state_views)

lemma demo_full_holds:
  "holds demo_full_state 0x5000 [[0x48, 0x49, 0x4A, 0x4B], [0x4C, 0x4D, 0x4E, 0x4F]]"
  by (rule holdsI[of _ _ demo_full_queue 1]) (simp_all add: demo_full_views demo_full_ring[simplified] demo_full_contents)

lemma demo_full_buffers: "buffer_apart demo_full_queue 0x9000"
  using demo_buffers(2) by (simp add: buffer_apart_def demo_full_queue_def slot_def)

lemma demo_full_unsuspended: "unsuspended demo_full_state"
  using demo_queue_unsuspended by (simp add: unsuspended_def pending_def demo_full_state_def put_queue_def is_task_def)

lemma demo_event_item_free:
  "home demo_queue_state (EventListItem 0x4000) = None" "home demo_full_state (EventListItem 0x4000) = None"
  using fun_cong[OF demo_queue_state_views(6), of "EventListItem 0x4000"] fun_cong[OF demo_full_views(5), of "EventListItem 0x4000"]
    demo_two(12)[of "EventListItem 0x4000"] by simp_all

end
