(* ===== verification/Os_Queue_Properties.thy ===== *)
theory Os_Queue_Properties
  imports Os_Queue_Demo
begin

text \<open>
  What the queues of \<^verbatim>\<open>src/ffi/os/queue.c\<close> promise, each with an instance on the concrete queue.
\<close>

section \<open>First in, first out\<close>

text \<open>
  C14: A queue refines a bounded list. Whatever the sequence of sends to the back and receives
  without waiting, with any messages of the queue's item size, every call returns; the results are
  those of a list of at most the queue's length, to whose end a send appends unless it is full and
  from whose front a receive takes unless it is empty; and the scheduler's invariant holds at the
  end. The storage is a ring, so the sequence may be arbitrarily long.
\<close>

theorem queue_refines_bounded_list:
  assumes "queue_ready cfg q z src dst s" and "messages_ok (\<lambda>m. length m = unat z) xs"
  shows "\<exists>s'. channel_run (queue_put cfg q src) (queue_get cfg q dst) xs s
       = Some (fst (fifo_run (capacity s q) xs (queue_messages q s)), s')
     \<and> queue_messages q s' = snd (fifo_run (capacity s q) xs (queue_messages q s))
     \<and> kernel_inv cfg s'"
  using os_queue.runs_as_fifo[OF assms] by (auto simp: queue_ready_def)

theorem queue_refines_bounded_list_witness:
  "\<exists>s'. channel_run (queue_put as_built 0x5000 0x8000) (queue_get as_built 0x5000 0x9000)
      [Put [1, 2, 3, 4], Put [5, 6, 7, 8], Put [9, 9, 9, 9], Get, Put [0, 0, 0, 1], Get, Get, Get] demo_queue_state
    = Some ([Sent True, Sent True, Sent False, Got (Some [1, 2, 3, 4]), Sent True, Got (Some [5, 6, 7, 8]),
             Got (Some [0, 0, 0, 1]), Got None], s')"
  using queue_refines_bounded_list[OF demo_queue_ready, of "[Put [1, 2, 3, 4], Put [5, 6, 7, 8],
      Put [9, 9, 9, 9], Get, Put [0, 0, 0, 1], Get, Get, Get]"]
  by (auto simp: demo_queue_capacity)

section \<open>Creation\<close>

text \<open>
  \<open>xQueueGenericCreate\<close> with memory for the structure and the storage returns an empty queue,
  intact as a ring, of the requested length and item size, whose two waiting lists are empty and
  whose locks are open; no list of the kernel and no task changes and the scheduler's invariant
  extends to the new lists.
\<close>

theorem create_gives_empty_queue:
  assumes "kernel_inv cfg s" and "malloc (queue_bytes n z) s = q" and "q \<noteq> 0" and "unused_handle s q"
    and "block_fits q n z" and "n \<noteq> 0" and "z \<noteq> 0"
  shows "\<exists>s' Q. xQueueGenericCreate cfg malloc fresh n z s = Some (q, s') \<and> kernel_inv cfg s'
    \<and> queues s' q = Some Q \<and> uxLength Q = n \<and> uxItemSize Q = z \<and> holds s' q []
    \<and> cRxLock Q = queueUNLOCKED \<and> cTxLock Q = queueUNLOCKED
    \<and> items s' (WaitingToSend q) = [] \<and> items s' (WaitingToReceive q) = []
    \<and> (\<forall>l \<in> live cfg s. items s' l = items s l) \<and> tcbs s' = tcbs s"
proof -
  let ?s = "new_queue_state q n z fresh s" and ?Q = "new_queue q n z fresh"
  have "xQueueGenericCreate cfg malloc fresh n z s = Some (q, ?s)" by (rule queue_create_eq[where malloc = malloc, OF assms(2,3)])
  moreover have q: "queues ?s q = Some ?Q" by (simp add: new_queue_state_def)
  moreover have "holds ?s q []"
    by (rule holdsI[OF q new_queue_ring(1)[OF assms(5-7)] new_queue_ring(2)[OF assms(5-7)]])
  moreover have "uxLength ?Q = n" "uxItemSize ?Q = z" "cRxLock ?Q = queueUNLOCKED" "cTxLock ?Q = queueUNLOCKED"
    by (simp_all add: new_queue_def Let_def)
  moreover have "tcbs ?s = tcbs s" by (simp add: new_queue_state_def)
  ultimately show ?thesis using new_queue_inv[OF assms(1,4), where n = n and z = z and fresh = fresh] by blast
qed

theorem create_gives_empty_queue_witness:
  "\<exists>s'. xQueueGenericCreate as_built page_malloc demo_fresh_queue 2 4 demo_two = Some (0x5000, s')
     \<and> holds s' 0x5000 []"
proof -
  have "page_malloc (queue_bytes 2 4) demo_two = 0x5000" by (simp add: page_malloc_def demo_two_rest)
  moreover have "block_fits 0x5000 2 4" by (simp add: block_fits_def)
  ultimately show ?thesis
    using create_gives_empty_queue[OF demo_two(2) _ _ demo_unused, of page_malloc 2 4 demo_fresh_queue] by auto
qed

section \<open>Sending and receiving with waiting tasks\<close>

text \<open>
  C15: A send to the back of a queue with room returns success whatever the block time, appends the
  message, and wakes the task at the head of the queue's receivers, the first waiting one, if there
  is one: it becomes ready, leaves the waiting list, and a context switch is pending if its priority
  is higher than the sender's. With no receiver waiting no task moves. The invariant is kept.
\<close>

theorem send_delivers_and_wakes:
  assumes "kernel_inv cfg s" and "uxSchedulerSuspended s = 0" and "holds s q ms" and "length ms < capacity s q"
  shows "\<exists>s'. xQueueGenericSend cfg es q item w queueSEND_TO_BACK s = Some (Returned True s')
    \<and> kernel_inv cfg s' \<and> holds s' q (ms @ [message_at s q item]) \<and> wakes_first s s' (WaitingToReceive q)"
proof -
  obtain Q r where Q: "queues s q = Some Q" "ring Q r" "contents Q (mem s) = ms" "length ms = waiting Q"
    "uxItemSize Q \<noteq> 0" by (rule holdsE[OF assms(3)])
  have room: "waiting Q < cap Q" using assms(4) Q(1,4) by (simp add: capacity_def)
  have c: "prvCopyDataToQueue q item queueSEND_TO_BACK (vPortEnterCritical s) = Some (False,
      put_queue q (sent Q) (memcpy_bytes (pcWriteTo Q) item (uxItemSize Q) (mem s)) (vPortEnterCritical s))"
    using copy_to_back[of "vPortEnterCritical s" q Q item] Q(1,5) by simp
  have m: "contents (sent Q) (memcpy_bytes (pcWriteTo Q) item (uxItemSize Q) (mem s)) = ms @ [message_at s q item]"
    using send_back_ring(2)[OF Q(2) room, of item "mem s"] Q(1,3) by (simp add: message_at_def)
  have "uxMessagesWaiting Q < uxLength Q \<or> queueSEND_TO_BACK = queueOVERWRITE"
    using room by (simp add: word_less_nat_alt)
  from send_with_room[OF assms(1,2) Q(1) this c send_back_ring(1)[OF Q(2) room] m]
  show ?thesis by blast
qed

theorem send_delivers_and_wakes_witness:
  "\<exists>s'. xQueueGenericSend as_built [] 0x5000 0x8000 7 queueSEND_TO_BACK demo_queue_state = Some (Returned True s')
     \<and> holds s' 0x5000 [message_at demo_queue_state 0x5000 0x8000] \<and> klists s' = klists demo_queue_state"
  using send_delivers_and_wakes[OF demo_queue_inv demo_queue_state_views(4) demo_queue_holds,
      where es = "[]" and item = "0x8000" and w = "7"]
  by (auto simp: demo_queue_capacity wakes_first_def demo_queue_lists)

text \<open>
  C16: A receive from a queue with messages returns success, puts the oldest message into the buffer,
  leaves the others in order, and wakes the first task waiting to send, if there is one. The buffer
  is outside the queue's storage.
\<close>

theorem receive_takes_oldest:
  assumes "kernel_inv cfg s" and "uxSchedulerSuspended s = 0" and "holds s q (m # ms)"
    and "buffer_apart (the (queues s q)) buf"
  shows "\<exists>s'. xQueueReceive cfg es q buf w s = Some (Returned True s') \<and> kernel_inv cfg s'
    \<and> holds s' q ms \<and> message_at s' q buf = m \<and> wakes_first s s' (WaitingToSend q)"
  by (rule receive_with_message[OF assms]) blast

theorem receive_takes_oldest_witness:
  "\<exists>s'. xQueueReceive as_built [] 0x5000 0x9000 7 demo_full_state = Some (Returned True s')
     \<and> holds s' 0x5000 [[0x4C, 0x4D, 0x4E, 0x4F]] \<and> message_at s' 0x5000 0x9000 = [0x48, 0x49, 0x4A, 0x4B]"
  using receive_takes_oldest[OF demo_full_inv demo_full_views(3) demo_full_holds,
      where es = "[]" and buf = "0x9000" and w = "7"] demo_full_buffers
  by (auto simp: demo_full_views)

text \<open>
  A peek at a queue with messages returns the oldest one in the buffer and leaves all of them in
  the queue, the oldest still in front; since the message stays, the first task waiting to receive
  is woken too, if there is one.
\<close>

theorem peek_leaves_messages:
  assumes "kernel_inv cfg s" and "uxSchedulerSuspended s = 0" and "holds s q (m # ms)"
    and "buffer_apart (the (queues s q)) buf"
  shows "\<exists>s'. xQueuePeek cfg es q buf w s = Some (Returned True s') \<and> kernel_inv cfg s'
    \<and> holds s' q (m # ms) \<and> message_at s' q buf = m \<and> wakes_first s s' (WaitingToReceive q)"
  by (rule peek_with_message[OF assms]) blast

theorem peek_leaves_messages_witness:
  "\<exists>s'. xQueuePeek as_built [] 0x5000 0x9000 7 demo_full_state = Some (Returned True s')
     \<and> holds s' 0x5000 [[0x48, 0x49, 0x4A, 0x4B], [0x4C, 0x4D, 0x4E, 0x4F]]
     \<and> message_at s' 0x5000 0x9000 = [0x48, 0x49, 0x4A, 0x4B]"
  using peek_leaves_messages[OF demo_full_inv demo_full_views(3) demo_full_holds,
      where es = "[]" and buf = "0x9000" and w = "7"] demo_full_buffers
  by (auto simp: demo_full_views)

text \<open>
  Without a block time a send to a full queue and a receive or peek at an empty one return an
  error and leave the whole state as it was, the critical nesting count included.
\<close>

theorem no_wait_errors_change_nothing:
  assumes "queues s q = Some Q" and "pos \<noteq> queueOVERWRITE"
  shows "(waiting Q \<ge> cap Q \<longrightarrow> xQueueGenericSend cfg es q item 0 pos s = Some (Returned False s))
    \<and> (waiting Q = 0 \<longrightarrow> xQueueReceive cfg es q buf 0 s = Some (Returned False s)
                        \<and> xQueuePeek cfg es q buf 0 s = Some (Returned False s))"
proof -
  have "send_pass cfg q item pos 0 s = Some (Some False, s)" if "waiting Q \<ge> cap Q"
    using that assms by (simp add: send_pass_def Let_def word_less_nat_alt)
  moreover have "receive_pass cfg q buf 0 s = Some (Some False, s)" "peek_pass cfg q buf 0 s = Some (Some False, s)"
    if "waiting Q = 0" using that assms by (simp_all add: receive_pass_def peek_pass_def Let_def word_less_nat_alt)
  ultimately show ?thesis
    by (simp add: send_loop_returns xQueueReceive_def xQueuePeek_def receive_loop_returns)
qed

theorem no_wait_errors_change_nothing_witness:
  "xQueueReceive as_built [] 0x5000 0x9000 0 demo_queue_state = Some (Returned False demo_queue_state)"
  using no_wait_errors_change_nothing[where s = demo_queue_state and q = "0x5000" and Q = demo_queue
      and pos = queueSEND_TO_BACK and cfg = as_built and es = "[]" and buf = "0x9000"]
  by (simp add: demo_queue_state_views demo_queue_fields queueOVERWRITE_def queueSEND_TO_BACK_def)

section \<open>Waiting\<close>

text \<open>
  C17: A receive from an empty, unlocked queue with a finite block time \<open>w\<close> puts the calling task to
  sleep: after the first pass of its loop the task is on a delayed list with exactly \<open>w\<close> ticks to
  wait and stands in the queue's list of receivers behind every waiting task of at least its
  priority, a context switch is pending, the scheduler is running again, the queue is unlocked and
  unchanged, no other task's state item has moved, and the invariant holds.
\<close>

theorem receive_blocks_caller:
  assumes "kernel_inv cfg s" and "unsuspended s"
    and "queues s q = Some Q" and "cRxLock Q = queueUNLOCKED" and "cTxLock Q = queueUNLOCKED"
    and "uxMessagesWaiting Q = 0" and "counts_time cfg w" and "w \<noteq> 0"
    and "home s (EventListItem (pxCurrentTCB s)) = None"
  shows "\<exists>s'. xQueueReceive cfg [undisturbed] q buf w s = Some (StillBlocked s') \<and> kernel_inv cfg s'
    \<and> delayed s' (pxCurrentTCB s) \<and> ticks_left s' (pxCurrentTCB s) = unat w
    \<and> items s' (WaitingToReceive q)
       = insert_by_value (val s) (EventListItem (pxCurrentTCB s)) (items s (WaitingToReceive q))
    \<and> queues s' = queues s \<and> mem s' = mem s \<and> PENDING_SOFT_SV s'
    \<and> (\<forall>t. t \<noteq> pxCurrentTCB s \<longrightarrow> home s' (StateListItem t) = home s (StateListItem t))"
  by (rule receive_waits[OF assms]) blast

theorem receive_blocks_caller_witness:
  "\<exists>s'. xQueueReceive as_built [undisturbed] 0x5000 0x9000 7 demo_queue_state = Some (StillBlocked s')
     \<and> delayed s' 0x4000 \<and> ticks_left s' 0x4000 = 7
     \<and> items s' (WaitingToReceive 0x5000) = [EventListItem 0x4000]"
proof -
  have "counts_time as_built 7" by (simp add: counts_time_def as_built_def)
  then show ?thesis
    using receive_blocks_caller[OF demo_queue_inv demo_queue_unsuspended, where q = "0x5000" and Q = demo_queue
        and w = "7" and buf = "0x9000"]
    by (auto simp: demo_queue_state_views demo_queue_fields demo_queue_lists insert_by_value_def demo_event_item_free)
qed

text \<open>
  A send to a full, unlocked queue with a finite block time puts the calling task to sleep in the
  same way, in the queue's list of senders.
\<close>

theorem send_blocks_caller:
  assumes "kernel_inv cfg s" and "unsuspended s"
    and "queues s q = Some Q" and "cRxLock Q = queueUNLOCKED" and "cTxLock Q = queueUNLOCKED"
    and "uxMessagesWaiting Q = uxLength Q" and "counts_time cfg w" and "w \<noteq> 0"
    and "home s (EventListItem (pxCurrentTCB s)) = None" and "pos \<noteq> queueOVERWRITE"
  shows "\<exists>s'. xQueueGenericSend cfg [undisturbed] q item w pos s = Some (StillBlocked s') \<and> kernel_inv cfg s'
    \<and> delayed s' (pxCurrentTCB s) \<and> ticks_left s' (pxCurrentTCB s) = unat w
    \<and> items s' (WaitingToSend q)
       = insert_by_value (val s) (EventListItem (pxCurrentTCB s)) (items s (WaitingToSend q))
    \<and> queues s' = queues s \<and> mem s' = mem s \<and> PENDING_SOFT_SV s'
    \<and> (\<forall>t. t \<noteq> pxCurrentTCB s \<longrightarrow> home s' (StateListItem t) = home s (StateListItem t))"
  by (rule send_waits[OF assms]) blast

theorem send_blocks_caller_witness:
  "\<exists>s'. xQueueGenericSend as_built [undisturbed] 0x5000 0x8000 7 queueSEND_TO_BACK demo_full_state
       = Some (StillBlocked s')
     \<and> delayed s' 0x4000 \<and> ticks_left s' 0x4000 = 7
     \<and> items s' (WaitingToSend 0x5000) = [EventListItem 0x4000]"
proof -
  have "counts_time as_built 7" by (simp add: counts_time_def as_built_def)
  then show ?thesis
    using send_blocks_caller[OF demo_full_inv demo_full_unsuspended, where q = "0x5000" and Q = demo_full_queue
        and w = "7" and item = "0x8000" and pos = queueSEND_TO_BACK]
    by (auto simp: demo_full_views demo_full_fields demo_queue_lists insert_by_value_def demo_event_item_free
        queueOVERWRITE_def queueSEND_TO_BACK_def)
qed

end
