(* ===== verification/Os_Semaphore.thy ===== *)
theory Os_Semaphore
  imports Os_Queue
begin

text \<open>
  Semaphores and mutexes: the functions of \<^verbatim>\<open>src/ffi/os/queue.c\<close> on queues of item size 0, with
  priority inheritance, and the names \<^verbatim>\<open>semaphore.h\<close> gives them.
\<close>

section \<open>Taking a semaphore\<close>

definition take_pass :: "os_config \<Rightarrow> u32 \<Rightarrow> u32 \<Rightarrow> os \<Rightarrow> (bool option \<times> os) option" where
  "take_pass cfg q xTicksToWait s =
     do {
       let s1 = vPortEnterCritical s;
       Q \<leftarrow> queues s1 q;
       (if uxMessagesWaiting Q > 0
        then do {
          s2 \<leftarrow> upd_queue q (\<lambda>Q'. Q'\<lparr>uxMessagesWaiting := uxMessagesWaiting Q - 1\<rparr>) s1;
          s3 \<leftarrow> (if uxQueueType Q = queueQUEUE_IS_MUTEX
                 then do { (me, s') \<leftarrow> pvTaskIncrementMutexHeldCount s2;
                           upd_queue q (\<lambda>Q. Q\<lparr>u_word0 := me\<rparr>) s' }
                 else Some s2);
          s4 \<leftarrow> wake_one_and_yield cfg (WaitingToSend q) s3;
          Some (Some True, vPortExitCritical s4)
        }
        else Some (if xTicksToWait = 0 then Some False else None, vPortExitCritical s1))
     }"

text \<open>Before the task waits for a mutex, the holder inherits its priority.\<close>

definition inherit_if_mutex :: "u32 \<Rightarrow> bool \<Rightarrow> os \<Rightarrow> (bool \<times> os) option" where
  "inherit_if_mutex q xInheritanceOccurred s =
     do {
       Q \<leftarrow> queues s q;
       (if uxQueueType Q = queueQUEUE_IS_MUTEX
        then do { (i, s1) \<leftarrow> xTaskPriorityInherit (xMutexHolder Q) (vPortEnterCritical s);
                  Some (i, vPortExitCritical s1) }
        else Some (xInheritanceOccurred, s))
     }"

text \<open>After a time-out, the holder's priority falls back to that of the highest task still waiting.\<close>

definition disinherit_after_timeout :: "u32 \<Rightarrow> bool \<Rightarrow> os \<Rightarrow> os option" where
  "disinherit_after_timeout q xInheritanceOccurred s =
     (if xInheritanceOccurred
      then do {
        let s1 = vPortEnterCritical s;
        Q \<leftarrow> queues s1 q;
        s2 \<leftarrow> vTaskPriorityDisinheritAfterTimeout (xMutexHolder Q)
                (prvGetDisinheritPriorityAfterTimeout q s1) s1;
        Some (vPortExitCritical s2)
      }
      else Some s)"

fun take_loop :: "os_config \<Rightarrow> u32 \<Rightarrow> preemption list \<Rightarrow> TimeOut option \<Rightarrow> bool \<Rightarrow> u32 \<Rightarrow> os
    \<Rightarrow> bool api_result option" where
  "take_loop cfg q [] to inherited ticks s =
     do { (r, s1) \<leftarrow> take_pass cfg q ticks s;
          Some (case r of Some b \<Rightarrow> Returned b s1 | None \<Rightarrow> StillBlocked s1) }"
| "take_loop cfg q (e # es) to inherited ticks s =
     do {
       (r, s1) \<leftarrow> take_pass cfg q ticks s;
       (case r of Some b \<Rightarrow> Some (Returned b s1)
        | None \<Rightarrow> do {
            let to1 = (case to of None \<Rightarrow> vTaskInternalSetTimeOutState s1 | Some x \<Rightarrow> x);
            (expired, to2, ticks2, s2) \<leftarrow> suspend_and_check cfg e q to1 ticks s1;
            (if \<not> expired
             then do {
               (empty, s3) \<leftarrow> prvIsQueueEmpty q s2;
               (inh, s4) \<leftarrow> (if empty
                  then do { (i, s') \<leftarrow> inherit_if_mutex q inherited s3;
                            s'' \<leftarrow> block_on cfg (WaitingToReceive q) q ticks2 s'; Some (i, s'') }
                  else do { (_, s') \<leftarrow> unlock_and_resume cfg q s3; Some (inherited, s') });
               s5 \<leftarrow> after_resume e s4;
               take_loop cfg q es (Some to2) inh ticks2 s5
             }
             else do {
               (_, s3) \<leftarrow> unlock_and_resume cfg q s2;
               (empty, s4) \<leftarrow> prvIsQueueEmpty q s3;
               (if empty then do { s5 \<leftarrow> disinherit_after_timeout q inherited s4; Some (Returned False s5) }
                else do { s5 \<leftarrow> after_resume e s4; take_loop cfg q es (Some to2) inherited ticks2 s5 })
             })
          })
     }"

definition xQueueSemaphoreTake :: "os_config \<Rightarrow> preemption list \<Rightarrow> u32 \<Rightarrow> u32 \<Rightarrow> os
    \<Rightarrow> bool api_result option" where
  "xQueueSemaphoreTake cfg es q xTicksToWait s = take_loop cfg q es None False xTicksToWait s"

section \<open>Mutexes\<close>

text \<open>
  A call that cannot wait returns whatever the list of passes is; the state it leaves is
  extracted here.
\<close>

fun api_state :: "'a api_result \<Rightarrow> os" where
  "api_state (Returned r s) = s"
| "api_state (StillBlocked s) = s"

definition prvInitialiseMutex :: "os_config \<Rightarrow> u32 \<Rightarrow> os \<Rightarrow> os option" where
  "prvInitialiseMutex cfg q s =
     (if q \<noteq> 0
      then do {
        s1 \<leftarrow> upd_queue q (\<lambda>Q. Q\<lparr>u_word0 := 0, pcHead := queueQUEUE_IS_MUTEX, u_word1 := 0\<rparr>) s;
        map_option api_state (xQueueGenericSend cfg [] q 0 0 queueSEND_TO_BACK s1)
      }
      else Some s)"

definition xQueueCreateMutex :: "os_config \<Rightarrow> (u32 \<Rightarrow> os \<Rightarrow> u32) \<Rightarrow> Queue \<Rightarrow> os \<Rightarrow> (u32 \<times> os) option" where
  "xQueueCreateMutex cfg malloc fresh s =
     do {
       (q, s1) \<leftarrow> xQueueGenericCreate cfg malloc fresh 1 0 s;
       s2 \<leftarrow> prvInitialiseMutex cfg q s1;
       Some (q, s2)
     }"

definition xQueueGetMutexHolder :: "u32 \<Rightarrow> os \<Rightarrow> (u32 \<times> os) option" where
  "xQueueGetMutexHolder q s =
     do { let s1 = vPortEnterCritical s; Q \<leftarrow> queues s1 q;
          Some (if uxQueueType Q = queueQUEUE_IS_MUTEX then xMutexHolder Q else 0, vPortExitCritical s1) }"

definition xQueueGetMutexHolderFromISR :: "u32 \<Rightarrow> os \<Rightarrow> u32 option" where
  "xQueueGetMutexHolderFromISR q s =
     do { Q \<leftarrow> queues s q; Some (if uxQueueType Q = queueQUEUE_IS_MUTEX then xMutexHolder Q else 0) }"

definition xQueueGiveMutexRecursive :: "os_config \<Rightarrow> u32 \<Rightarrow> os \<Rightarrow> (bool \<times> os) option" where
  "xQueueGiveMutexRecursive cfg q s =
     do {
       Q \<leftarrow> queues s q;
       (if xMutexHolder Q = xTaskGetCurrentTaskHandle s
        then do {
          s1 \<leftarrow> upd_queue q (\<lambda>Q. Q\<lparr>u_word1 := u_word1 Q - 1\<rparr>) s;
          s2 \<leftarrow> (if uxRecursiveCallCount Q - 1 = 0
                 then map_option api_state
                        (xQueueGenericSend cfg [] q 0 queueMUTEX_GIVE_BLOCK_TIME queueSEND_TO_BACK s1)
                 else Some s1);
          Some (True, s2)
        }
        else Some (False, s))
     }"

definition xQueueTakeMutexRecursive :: "os_config \<Rightarrow> preemption list \<Rightarrow> u32 \<Rightarrow> u32 \<Rightarrow> os
    \<Rightarrow> bool api_result option" where
  "xQueueTakeMutexRecursive cfg es q xTicksToWait s =
     do {
       Q \<leftarrow> queues s q;
       (if xMutexHolder Q = xTaskGetCurrentTaskHandle s
        then do { s1 \<leftarrow> upd_queue q (\<lambda>Q. Q\<lparr>u_word1 := u_word1 Q + 1\<rparr>) s; Some (Returned True s1) }
        else do {
          r \<leftarrow> xQueueSemaphoreTake cfg es q xTicksToWait s;
          (case r of
             Returned True s1 \<Rightarrow> do { s2 \<leftarrow> upd_queue q (\<lambda>Q. Q\<lparr>u_word1 := u_word1 Q + 1\<rparr>) s1;
                                      Some (Returned True s2) }
           | Returned False s1 \<Rightarrow> Some (Returned False s1)
           | StillBlocked s1 \<Rightarrow> Some (StillBlocked s1))
        })
     }"

definition xQueueCreateCountingSemaphore :: "os_config \<Rightarrow> (u32 \<Rightarrow> os \<Rightarrow> u32) \<Rightarrow> Queue \<Rightarrow> u32 \<Rightarrow> u32 \<Rightarrow> os
    \<Rightarrow> (u32 \<times> os) option" where
  "xQueueCreateCountingSemaphore cfg malloc fresh uxMaxCount uxInitialCount s =
     do {
       (q, s1) \<leftarrow> xQueueGenericCreate cfg malloc fresh uxMaxCount 0 s;
       s2 \<leftarrow> (if q \<noteq> 0 then upd_queue q (\<lambda>Q. Q\<lparr>uxMessagesWaiting := uxInitialCount\<rparr>) s1 else Some s1);
       Some (q, s2)
     }"

section \<open>The names of semaphore.h\<close>

definition xSemaphoreGive :: "os_config \<Rightarrow> u32 \<Rightarrow> os \<Rightarrow> bool api_result option" where
  "xSemaphoreGive cfg q s = xQueueGenericSend cfg [] q 0 0 queueSEND_TO_BACK s"

definition xSemaphoreTake :: "os_config \<Rightarrow> preemption list \<Rightarrow> u32 \<Rightarrow> u32 \<Rightarrow> os \<Rightarrow> bool api_result option" where
  "xSemaphoreTake cfg es q xBlockTime s = xQueueSemaphoreTake cfg es q xBlockTime s"

definition xSemaphoreCreateBinary :: "os_config \<Rightarrow> (u32 \<Rightarrow> os \<Rightarrow> u32) \<Rightarrow> Queue \<Rightarrow> os \<Rightarrow> (u32 \<times> os) option" where
  "xSemaphoreCreateBinary cfg malloc fresh s = xQueueGenericCreate cfg malloc fresh 1 0 s"

definition vSemaphoreCreateBinary :: "os_config \<Rightarrow> (u32 \<Rightarrow> os \<Rightarrow> u32) \<Rightarrow> Queue \<Rightarrow> os \<Rightarrow> (u32 \<times> os) option" where
  "vSemaphoreCreateBinary cfg malloc fresh s =
     do {
       (q, s1) \<leftarrow> xQueueGenericCreate cfg malloc fresh 1 0 s;
       s2 \<leftarrow> (if q \<noteq> 0 then map_option api_state (xSemaphoreGive cfg q s1) else Some s1);
       Some (q, s2)
     }"

end
