(* ===== verification/Core_Words.thy ===== *)
theory Core_Words
  imports Os_Prelude
begin

unbundle bit_operations_syntax

text \<open>
  Byte order and random bytes: \<^verbatim>\<open>src/ffi/prelude.c\<close> and \<^verbatim>\<open>src/ffi/hwrand.c\<close>. The byte swaps are the
  shift-and-mask expressions of the source, whose meaning the compiler's builtins share. The
  hardware random number register is a stream of words, one for each read; a buffer is a part of
  the byte memory. The ESP8266 is little-endian.
\<close>

section \<open>Byte order: prelude.c\<close>

definition u32_high_to_neutral :: "u32 \<Rightarrow> u32" where
  "u32_high_to_neutral x =
     (push_bit 24 (x AND 0x000000ff) OR push_bit 8 (x AND 0x0000ff00)
      OR drop_bit 8 (x AND 0x00ff0000) OR drop_bit 24 (x AND 0xff000000))"

definition u16_high_to_neutral :: "u16 \<Rightarrow> u16" where
  "u16_high_to_neutral x = (push_bit 8 x OR drop_bit 8 x)"

definition u32_neutral_to_high :: "u32 \<Rightarrow> u32" where
  "u32_neutral_to_high x =
     (drop_bit 24 x OR (drop_bit 8 x AND 0x0000ff00) OR (push_bit 8 x AND 0x00ff0000) OR push_bit 24 x)"

definition u16_neutral_to_high :: "u16 \<Rightarrow> u16" where
  "u16_neutral_to_high x = (push_bit 8 x OR drop_bit 8 x)"

text \<open>The \<open>i\<close>th byte of a word, counted from the low end.\<close>

definition byte_of :: "nat \<Rightarrow> 'a :: len word \<Rightarrow> u8" where
  "byte_of i x = ucast (drop_bit (8 * i) x)"

lemma byte_of_bit: "bit (byte_of i x) n \<longleftrightarrow> n < 8 \<and> bit x (8 * i + n)"
  by (simp add: byte_of_def bit_simps)

lemma byte_masks:
  "bit (0xff :: int) n \<longleftrightarrow> n < 8" "bit (0xff00 :: int) n \<longleftrightarrow> 8 \<le> n \<and> n < 16"
  "bit (0xff0000 :: int) n \<longleftrightarrow> 16 \<le> n \<and> n < 24" "bit (0xff000000 :: int) n \<longleftrightarrow> 24 \<le> n \<and> n < 32"
proof -
  have m: "(0xff :: int) = mask 8" "(0xff00 :: int) = push_bit 8 (mask 8)"
    "(0xff0000 :: int) = push_bit 16 (mask 8)" "(0xff000000 :: int) = push_bit 24 (mask 8)"
    by (simp_all add: mask_eq_exp_minus_1 push_bit_eq_mult)
  show "bit (0xff :: int) n \<longleftrightarrow> n < 8" "bit (0xff00 :: int) n \<longleftrightarrow> 8 \<le> n \<and> n < 16"
    "bit (0xff0000 :: int) n \<longleftrightarrow> 16 \<le> n \<and> n < 24" "bit (0xff000000 :: int) n \<longleftrightarrow> 24 \<le> n \<and> n < 32"
    unfolding m by (auto simp: bit_simps)
qed

lemma byte_eqI: "(\<And>n. n < 8 \<Longrightarrow> bit x n = bit (y :: u8) n) \<Longrightarrow> x = y"
  by (rule bit_word_eqI) simp

lemma less_4_cases: "i < 4 \<Longrightarrow> (i = 0 \<Longrightarrow> P) \<Longrightarrow> (i = 1 \<Longrightarrow> P) \<Longrightarrow> (i = 2 \<Longrightarrow> P) \<Longrightarrow> (i = 3 \<Longrightarrow> P) \<Longrightarrow> (P :: bool)"
  for i :: nat by linarith

lemma byte_of_high_to_neutral:
  assumes "i < 4"
  shows "byte_of i (u32_high_to_neutral x) = byte_of (3 - i) x"
  by (rule less_4_cases[OF assms]; rule byte_eqI)
    (auto simp: byte_of_bit u32_high_to_neutral_def bit_simps byte_masks dest: bit_imp_le_length)

lemma byte_of_neutral_to_high:
  assumes "i < 4"
  shows "byte_of i (u32_neutral_to_high x) = byte_of (3 - i) x"
  by (rule less_4_cases[OF assms]; rule byte_eqI)
    (auto simp: byte_of_bit u32_neutral_to_high_def bit_simps byte_masks dest: bit_imp_le_length)

section \<open>Random bytes: hwrand.c\<close>

text \<open>\<open>rng k\<close> is what the \<open>k\<close>th read of the register returns; \<open>k\<close> counts the reads.\<close>

definition hwrand :: "(nat \<Rightarrow> u32) \<Rightarrow> nat \<Rightarrow> u32 \<times> nat" where
  "hwrand rng k = (rng k, Suc k)"

text \<open>\<open>memcpy\<close> of the first \<open>n \<le> 4\<close> bytes of a word variable to address \<open>a\<close>.\<close>

definition copy_word :: "u32 \<Rightarrow> u32 \<Rightarrow> nat \<Rightarrow> (u32 \<Rightarrow> u8) \<Rightarrow> (u32 \<Rightarrow> u8)" where
  "copy_word a w n m = (\<lambda>x. if unat (x - a) < n then byte_of (unat (x - a)) w else m x)"

text \<open>The counter \<open>i\<close> is a 32-bit word, so near the top of the range it wraps and the loop runs on.\<close>

partial_function (option) hwrand_fill_loop ::
    "(nat \<Rightarrow> u32) \<Rightarrow> u32 \<Rightarrow> u32 \<Rightarrow> u32 \<Rightarrow> nat \<Rightarrow> (u32 \<Rightarrow> u8) \<Rightarrow> (nat \<times> (u32 \<Rightarrow> u8)) option" where
  "hwrand_fill_loop rng buf len i k m =
     (if i < len
      then hwrand_fill_loop rng buf len (i + 4) (Suc k)
             (copy_word (buf + i) (rng k) (if i + 4 \<le> len then 4 else unat (len mod 4)) m)
      else Some (k, m))"

definition hwrand_fill :: "(nat \<Rightarrow> u32) \<Rightarrow> u32 \<Rightarrow> u32 \<Rightarrow> nat \<Rightarrow> (u32 \<Rightarrow> u8) \<Rightarrow> (nat \<times> (u32 \<Rightarrow> u8)) option" where
  "hwrand_fill rng buf len k m = hwrand_fill_loop rng buf len 0 k m"

text \<open>The memory after the first \<open>n\<close> bytes of the buffer are filled.\<close>

definition filled :: "(nat \<Rightarrow> u32) \<Rightarrow> u32 \<Rightarrow> nat \<Rightarrow> nat \<Rightarrow> (u32 \<Rightarrow> u8) \<Rightarrow> (u32 \<Rightarrow> u8)" where
  "filled rng buf n k m = (\<lambda>x. let d = unat (x - buf) in
     if d < n then byte_of (d mod 4) (rng (k + d div 4)) else m x)"

lemma unat_less_2_32: "unat (x :: u32) < 2 ^ 32"
  by (rule order_less_le_trans[OF unsigned_less]) simp

lemma offset_split:
  fixes x buf :: u32
  assumes "n < 2 ^ 32" and "n \<le> unat (x - buf)"
  shows "unat (x - (buf + of_nat n)) = unat (x - buf) - n"
proof -
  have "x - (buf + of_nat n) = (x - buf) - of_nat n" by simp
  moreover have "of_nat n \<le> x - buf" using assms by (simp add: word_le_nat_alt unat_of_nat32)
  ultimately show ?thesis using assms(1) by (simp only: unat_sub unat_of_nat32)
qed

lemma offset_before:
  fixes x buf :: u32
  assumes "n + c < 2 ^ 32" and "unat (x - buf) < n"
  shows "\<not> unat (x - (buf + of_nat n)) < c"
proof
  assume l: "unat (x - (buf + of_nat n)) < c"
  have "unat (x - buf) = unat ((x - (buf + of_nat n)) + of_nat n)" by simp
  also have "\<dots> = unat (x - (buf + of_nat n)) + n"
    using l assms(1) by (subst unat_word_ariths(1)) (simp add: unat_of_nat32)
  finally show False using assms(2) by simp
qed

lemma copy_word_filled:
  assumes "4 * j + c < 2 ^ 32" and "c \<le> 4"
  shows "copy_word (buf + of_nat (4 * j)) (rng (k + j)) c (filled rng buf (4 * j) k m)
       = filled rng buf (4 * j + c) k m"
proof
  fix x
  show "copy_word (buf + of_nat (4 * j)) (rng (k + j)) c (filled rng buf (4 * j) k m) x
      = filled rng buf (4 * j + c) k m x"
  proof (cases "unat (x - buf) < 4 * j")
    case True
    then show ?thesis
      using offset_before[OF assms(1) True] by (simp add: copy_word_def filled_def Let_def)
  next
    case False
    have lt: "4 * j < 2 ^ 32" using assms by simp
    have e: "unat (x - (buf + of_nat (4 * j))) = unat (x - buf) - 4 * j"
      by (rule offset_split[OF lt]) (use False in simp)
    obtain d where d: "unat (x - buf) = 4 * j + d" using False le_Suc_ex by (metis not_less)
    have m: "d mod 4 = d" "(4 * j + d) div 4 = j" if "d < c" using that assms(2) by auto
    show ?thesis unfolding copy_word_def filled_def Let_def e d using m by (cases "d < c") auto
  qed
qed

lemma hwrand_fill_loop_spec:
  assumes n: "unat len = n" "n \<le> 2 ^ 32 - 4" and j: "j \<le> (n + 3) div 4"
  shows "hwrand_fill_loop rng buf len (of_nat (4 * j)) (k + j) (filled rng buf (min n (4 * j)) k m)
       = Some (k + (n + 3) div 4, filled rng buf n k m)"
  using j
proof (induction "(n + 3) div 4 - j" arbitrary: j)
  case 0
  then have e: "j = (n + 3) div 4" by simp
  then have ge: "n \<le> 4 * j" by simp
  have "4 * j \<le> n + 3" using e by simp
  then have "unat (of_nat (4 * j) :: u32) = 4 * j" using n(2) by (intro unat_of_nat32) simp
  then have "\<not> (of_nat (4 * j) :: u32) < len" using ge n(1) by (simp add: word_less_nat_alt)
  then show ?case using ge by (subst hwrand_fill_loop.simps) (simp add: e min_def)
next
  case (Suc d)
  then have lt: "4 * j < n" by linarith
  have nx: "(of_nat (4 * j) :: u32) + 4 = of_nat (4 * Suc j)" by simp
  have u: "unat (of_nat (4 * j) :: u32) = 4 * j" "unat (of_nat (4 * j) + 4 :: u32) = 4 * j + 4"
    unfolding nx using lt n(2) by (intro unat_of_nat32[THEN trans]; simp)+
  then have i: "(of_nat (4 * j) :: u32) < len" "(of_nat (4 * j) + 4 \<le> len) \<longleftrightarrow> 4 * j + 4 \<le> n"
    using lt n(1) by (simp_all add: word_less_nat_alt word_le_nat_alt)
  let ?c = "if (of_nat (4 * j) :: u32) + 4 \<le> len then 4 else unat (len mod 4)"
  have m4: "unat (len mod 4) = n mod 4" using n(1) by (simp add: unat_mod)
  have c: "4 * j + ?c = min n (4 * Suc j)" and c4: "?c \<le> 4"
  proof -
    have "n mod 4 = n - 4 * j" if "\<not> 4 * j + 4 \<le> n"
    proof -
      have "n div 4 = j" using that lt by linarith
      then show ?thesis using lt minus_mult_div_eq_mod[of n 4] by simp
    qed
    then show "4 * j + ?c = min n (4 * Suc j)" using lt unfolding i(2) m4 by (simp add: min_def)
    show "?c \<le> 4" by (simp add: m4 less_imp_le)
  qed
  have lim: "4 * j + ?c < 2 ^ 32" unfolding c using n(2) by simp
  have step: "copy_word (buf + of_nat (4 * j)) (rng (k + j)) ?c (filled rng buf (min n (4 * j)) k m)
      = filled rng buf (min n (4 * Suc j)) k m"
    using copy_word_filled[OF lim c4, of buf rng k m] lt unfolding c by (simp add: min_def)
  have "hwrand_fill_loop rng buf len (of_nat (4 * Suc j)) (k + Suc j) (filled rng buf (min n (4 * Suc j)) k m)
      = Some (k + (n + 3) div 4, filled rng buf n k m)"
    by (rule Suc.hyps(1)) (use Suc.hyps(2) Suc.prems in linarith)+
  then show ?case
    unfolding nx[symmetric] add_Suc_right by (subst hwrand_fill_loop.simps) (simp only: i(1) if_True step)
qed

lemma filled_none: "filled rng buf 0 k m = m"
  by (simp add: filled_def Let_def fun_eq_iff)

section \<open>Properties\<close>

text \<open>
  Both conversions between the network's and the machine's byte order reverse the bytes of a
  word, and converting twice, in either direction, gives the word back.
\<close>

theorem byte_order_round_trip:
  "byte_of 0 (u32_high_to_neutral x) = byte_of 3 x \<and> byte_of 1 (u32_high_to_neutral x) = byte_of 2 x
   \<and> byte_of 2 (u32_high_to_neutral x) = byte_of 1 x \<and> byte_of 3 (u32_high_to_neutral x) = byte_of 0 x
   \<and> u32_neutral_to_high (u32_high_to_neutral x) = x \<and> u32_high_to_neutral (u32_neutral_to_high x) = x
   \<and> u16_neutral_to_high (u16_high_to_neutral y) = y \<and> byte_of 0 (u16_high_to_neutral y) = byte_of 1 y
   \<and> byte_of 1 (u16_high_to_neutral y) = byte_of 0 y"
proof -
  have same: "v = w" if "\<And>i. i < 4 \<Longrightarrow> byte_of i v = byte_of i w" for v w :: u32
  proof (rule bit_word_eqI)
    fix n
    assume "n < LENGTH(32)"
    then have "n div 8 < 4" "n mod 8 < 8" "8 * (n div 8) + n mod 8 = n" by (auto simp: div_less_iff_less_mult)
    then show "bit v n = bit w n" using that[of "n div 8"] byte_of_bit[of _ _ "n mod 8"] by metis
  qed
  have "u32_neutral_to_high (u32_high_to_neutral x) = x" "u32_high_to_neutral (u32_neutral_to_high x) = x"
    by (rule same; simp add: byte_of_high_to_neutral byte_of_neutral_to_high)+
  moreover have "u16_neutral_to_high (u16_high_to_neutral y) = y"
    by (rule bit_word_eqI) (auto simp: u16_neutral_to_high_def u16_high_to_neutral_def bit_simps)
  moreover have "byte_of 0 (u16_high_to_neutral y) = byte_of 1 y" "byte_of 1 (u16_high_to_neutral y) = byte_of 0 y"
    by (rule byte_eqI; auto simp: byte_of_bit u16_high_to_neutral_def bit_simps dest: bit_imp_le_length)+
  ultimately show ?thesis by (simp add: byte_of_high_to_neutral)
qed

text \<open>
  Filling a buffer of at most \<open>2 ^ 32 - 4\<close> bytes with random data terminates, reads the hardware
  register once for every four bytes begun, gives byte \<open>d\<close> of the buffer byte \<open>d mod 4\<close> of read
  \<open>d div 4\<close>, and writes nothing outside the buffer, also when the length is no multiple of four.
\<close>

theorem hwrand_fill_exact:
  assumes "unat len \<le> 2 ^ 32 - 4"
  shows "\<exists>m'. hwrand_fill rng buf len k m = Some (k + (unat len + 3) div 4, m')
    \<and> (\<forall>x. m' x = (if x - buf < len then byte_of (unat (x - buf) mod 4) (rng (k + unat (x - buf) div 4)) else m x))"
proof -
  have "hwrand_fill rng buf len k m = Some (k + (unat len + 3) div 4, filled rng buf (unat len) k m)"
    using hwrand_fill_loop_spec[OF refl assms, of 0 rng buf k m] by (simp add: hwrand_fill_def filled_none)
  then show ?thesis by (simp add: filled_def Let_def word_less_nat_alt)
qed

theorem hwrand_fill_exact_witness:
  "\<exists>m'. hwrand_fill (\<lambda>k. 0x04030201) 0x100 6 0 (\<lambda>_. 0xEE) = Some (2, m')
     \<and> m' 0x104 = 1 \<and> m' 0x105 = 2 \<and> m' 0x106 = 0xEE"
  using hwrand_fill_exact[of 6 "\<lambda>k. 0x04030201" "0x100" 0 "\<lambda>_. 0xEE"]
  by (auto simp: byte_of_def drop_bit_eq_div)

end
