(* ===== verification/Core_Interrupt.thy ===== *)
theory Core_Interrupt
  imports Os_Prelude
begin

unbundle bit_operations_syntax

text \<open>
  Interrupt dispatch, \<^verbatim>\<open>src/ffi/core/interrupt.c\<close>, and the small services of
  \<^verbatim>\<open>src/ffi/core/misc.c\<close>. The handlers are the application's: a handler is an address, and a
  parameter says what a call of it does. Writes to the special register \<open>INTCLEAR\<close> are recorded in
  order.
\<close>

section \<open>The handler table: interrupt.h, interrupt.c\<close>

definition INUM_TICK :: u8 where "INUM_TICK = 6"
definition INUM_SOFT :: u8 where "INUM_SOFT = 7"
definition INUM_WDT :: nat where "INUM_WDT = 8"

record XtIsrEntry =
  handler :: u32
  arg :: u32

record 'w cpu =
  isr :: "XtIsrEntry list"
  esp_in_isr :: bool
  intclear :: "u32 list"
  world :: 'w

text \<open>The table has 16 entries; an index beyond it is a write outside the array.\<close>

definition xt_isr_attach :: "u8 \<Rightarrow> u32 \<Rightarrow> u32 \<Rightarrow> 'w cpu \<Rightarrow> 'w cpu option" where
  "xt_isr_attach i func a c =
     (if unat i < length (isr c) then Some (c\<lparr>isr := (isr c)[unat i := \<lparr>handler = func, arg = a\<rparr>]\<rparr>) else None)"

definition xt_clear_ints :: "u32 \<Rightarrow> 'w cpu \<Rightarrow> 'w cpu" where
  "xt_clear_ints m c = c\<lparr>intclear := intclear c @ [m]\<rparr>"

text \<open>The lowest set bit counted from 1, and 0 for no set bit.\<close>

definition builtin_ffs :: "u16 \<Rightarrow> nat" where
  "builtin_ffs x = (case find (bit x) [0..<16] of None \<Rightarrow> 0 | Some i \<Rightarrow> Suc i)"

type_synonym 'w handlers = "u32 \<Rightarrow> u32 \<Rightarrow> 'w cpu \<Rightarrow> 'w cpu option"

definition isr_entry :: "nat \<Rightarrow> 'w cpu \<Rightarrow> XtIsrEntry option" where
  "isr_entry i c = (if i < length (isr c) then Some (isr c ! i) else None)"

text \<open>
  One pass of the loop. The entry is read before the handler runs; an interrupt without a handler is
  only cleared.
\<close>

definition serve_pending :: "'w handlers \<Rightarrow> nat \<Rightarrow> 'w cpu \<Rightarrow> 'w cpu option" where
  "serve_pending call index c =
     do {
       let c1 = xt_clear_ints (push_bit index 1) c;
       e \<leftarrow> isr_entry index c1;
       (if handler e \<noteq> 0 then call (handler e) (arg e) c1 else Some c1)
     }"

partial_function (option) isr_loop :: "'w handlers \<Rightarrow> u16 \<Rightarrow> 'w cpu \<Rightarrow> 'w cpu option" where
  "isr_loop call intset c =
     (if intset = 0 then Some c
      else do {
        let index = builtin_ffs intset - 1;
        c1 \<leftarrow> serve_pending call index c;
        isr_loop call (intset - push_bit index 1) c1
      })"

text \<open>
  The watchdog comes first, with a null argument. Its handler is called without a look at whether
  there is one, so an empty entry is a call of address 0, a run without a defined result.
\<close>

definition serve_watchdog :: "'w handlers \<Rightarrow> 'w cpu \<Rightarrow> 'w cpu option" where
  "serve_watchdog call c =
     do {
       let c1 = xt_clear_ints (push_bit INUM_WDT 1) c;
       e \<leftarrow> isr_entry INUM_WDT c1;
       (if handler e = 0 then None else call (handler e) 0 c1)
     }"

definition xt_isr_handler :: "'w handlers \<Rightarrow> u16 \<Rightarrow> 'w cpu \<Rightarrow> (u16 \<times> 'w cpu) option" where
  "xt_isr_handler call intset c =
     do {
       let c1 = c\<lparr>esp_in_isr := True\<rparr>;
       (intset1, c2) \<leftarrow>
         (if intset AND push_bit INUM_WDT 1 \<noteq> 0
          then do { c' \<leftarrow> serve_watchdog call c1; Some (intset - push_bit INUM_WDT 1, c') }
          else Some (intset, c1));
       c3 \<leftarrow> isr_loop call intset1 c2;
       Some (0, c3\<lparr>esp_in_isr := False\<rparr>)
     }"

section \<open>Serving in order\<close>

fun serve_each :: "'w handlers \<Rightarrow> nat list \<Rightarrow> 'w cpu \<Rightarrow> 'w cpu option" where
  "serve_each call [] c = Some c"
| "serve_each call (i # is) c = do { c1 \<leftarrow> serve_pending call i c; serve_each call is c1 }"

definition pending_from :: "nat \<Rightarrow> u16 \<Rightarrow> nat list" where
  "pending_from k x = filter (bit x) [k..<16]"

lemma find_filter: "find P xs = (case filter P xs of [] \<Rightarrow> None | x # _ \<Rightarrow> Some x)"
  by (induction xs) auto

lemma ffs_first: "pending_from 0 x = i # is \<Longrightarrow> builtin_ffs x = Suc i"
  by (simp add: pending_from_def builtin_ffs_def find_filter)

lemma none_pending: "pending_from 0 x = [] \<longleftrightarrow> x = 0"
proof
  assume "pending_from 0 x = []"
  then show "x = 0" by (intro bit_word_eqI) (auto simp: pending_from_def filter_empty_conv)
qed (simp add: pending_from_def)

lemma bit_clear:
  assumes "bit (x :: u16) i"
  shows "bit (x - push_bit i 1) j \<longleftrightarrow> bit x j \<and> j \<noteq> i"
proof -
  have "x - push_bit i 1 = unset_bit i x" using assms by (simp add: unset_bit_eq push_bit_eq_mult)
  then show ?thesis by (auto simp: bit_unset_bit_iff)
qed

lemma pending_rest:
  assumes "pending_from 0 x = i # is"
  shows "bit x i" and "pending_from 0 (x - push_bit i 1) = is"
proof -
  have f: "filter (bit x) [0..<16] = i # is" using assms by (simp add: pending_from_def)
  then have "i \<in> set (filter (bit x) [0..<16])" by simp
  then show b: "bit x i" by simp
  have "distinct (i # is)" using f by (metis distinct_filter distinct_upt)
  then have "filter (\<lambda>j. j \<noteq> i) (i # is) = is" by (auto simp: filter_id_conv)
  then show "pending_from 0 (x - push_bit i 1) = is"
    unfolding pending_from_def bit_clear[OF b] f[symmetric] by (simp add: filter_filter conj_commute)
qed

lemma isr_loop_eq: "isr_loop call x c = serve_each call (pending_from 0 x) c"
proof (induction "pending_from 0 x" arbitrary: x c)
  case Nil
  then show ?case by (subst isr_loop.simps) (metis none_pending serve_each.simps(1))
next
  case (Cons i "is")
  note p = Cons.hyps(2)[symmetric]
  have x0: "x \<noteq> 0" using p none_pending[of x] by auto
  have "isr_loop call (x - push_bit i 1) = serve_each call is"
    using Cons.hyps(1)[of "x - push_bit i 1"] pending_rest(2)[OF p] by (intro ext) simp
  then show ?case
    by (subst isr_loop.simps) (simp add: x0 ffs_first[OF p] p)
qed

section \<open>Clock and delay: misc.c\<close>

text \<open>
  The cycle counter is a stream: \<open>cyc k\<close> is what its \<open>k\<close>th read returns. The delay reads the
  counter once for the start and then until enough cycles, at \<open>cpu_freq\<close> a microsecond, have passed.
  Its result is the number of reads.
\<close>

definition os_get_cpu_frequency :: "32 word \<Rightarrow> u32" where
  "os_get_cpu_frequency cpu_freq = cpu_freq"

partial_function (option) delay_loop :: "(nat \<Rightarrow> u32) \<Rightarrow> u32 \<Rightarrow> u32 \<Rightarrow> nat \<Rightarrow> nat option" where
  "delay_loop cyc start_ccount delay_ccount k =
     (if cyc k - start_ccount < delay_ccount then delay_loop cyc start_ccount delay_ccount (Suc k)
      else Some (Suc k))"

definition os_delay_us :: "(nat \<Rightarrow> u32) \<Rightarrow> u32 \<Rightarrow> u16 \<Rightarrow> nat \<Rightarrow> nat option" where
  "os_delay_us cyc cpu_freq us k = delay_loop cyc (cyc k) (os_get_cpu_frequency cpu_freq * ucast us) (Suc k)"

lemma counter_difference:
  fixes a b :: nat
  assumes "a \<le> b" and "b - a < 2 ^ 32"
  shows "unat ((of_nat b :: u32) - of_nat a) = b - a"
proof -
  have "(of_nat b :: u32) - of_nat a = of_nat (b - a)" using assms(1) by (simp add: of_nat_diff)
  then show ?thesis using assms(2) by (simp add: unat_of_nat32)
qed

lemma delay_loop_until:
  assumes "\<And>i. j \<le> i \<Longrightarrow> i < n \<Longrightarrow> cyc i - start < d" and "\<not> cyc n - start < d" and "j \<le> n"
  shows "delay_loop cyc start d j = Some (Suc n)"
  using assms
proof (induction "n - j" arbitrary: j)
  case 0
  then show ?case by (subst delay_loop.simps) simp
next
  case (Suc m)
  then have "delay_loop cyc start d (Suc j) = Some (Suc n)" by simp
  moreover have "cyc j - start < d" using Suc by simp
  ultimately show ?case by (subst delay_loop.simps) simp
qed

section \<open>Properties\<close>

text \<open>
  C18: The handler serves every pending interrupt once: the watchdog first when it is pending, then
  the others from the lowest number up. Serving one is to clear it and then, if it has a handler,
  to call it with its argument, and \<open>esp_in_isr\<close> is set throughout and cleared at the end; the
  result is 0. In particular the loop ends for every set of pending interrupts.
\<close>

theorem isr_handler_serves_in_order:
  "xt_isr_handler call intset c =
     (let others = filter (\<lambda>i. i \<noteq> INUM_WDT \<and> bit intset i) [0..<16];
          c1 = c\<lparr>esp_in_isr := True\<rparr>
      in do {
        c2 \<leftarrow> (if bit intset INUM_WDT then serve_watchdog call c1 else Some c1);
        c3 \<leftarrow> serve_each call others c2;
        Some (0, c3\<lparr>esp_in_isr := False\<rparr>)
      })"
proof -
  have w: "intset AND push_bit INUM_WDT 1 \<noteq> 0 \<longleftrightarrow> bit intset INUM_WDT"
    by (simp add: and_exp_eq_0_iff_not_bit push_bit_eq_mult flip: bit_iff_odd_drop_bit)
  let ?x = "if bit intset INUM_WDT then intset - push_bit INUM_WDT 1 else intset"
  have o: "pending_from 0 ?x = filter (\<lambda>i. i \<noteq> INUM_WDT \<and> bit intset i) [0..<16]"
    unfolding pending_from_def by (rule filter_cong) (auto simp: bit_clear[simplified])
  show ?thesis
    unfolding xt_isr_handler_def w Let_def isr_loop_eq using o by (cases "bit intset INUM_WDT") (simp_all)
qed

text \<open>
  C20: A delay ends, and no sooner than asked for: with \<open>C j\<close> the true number of cycles at the \<open>j\<close>th
  read of the counter, of which the register shows the low 32 bits, the delay returns at the first
  read \<open>n\<close> at which at least frequency times microseconds cycles have passed since its start, across
  any wrap of the register, provided that two reads in a row are less than a wrap minus the delay apart.
\<close>

theorem delay_waits_long_enough:
  assumes "\<And>j. C j < C (Suc j)" and "\<And>j. C (Suc j) - C j \<le> 2 ^ 32 - d"
    and "d = unat (cpu_freq * ucast us :: u32)"
  shows "\<exists>n > k. os_delay_us (\<lambda>j. of_nat (C j)) cpu_freq us k = Some (Suc n) \<and> d \<le> C n - C k
           \<and> (\<forall>j. k < j \<and> j < n \<longrightarrow> C j - C k < d)"
proof -
  have grow: "C k + j \<le> C (k + j)" for j
  proof (induction j)
    case (Suc j)
    then show ?case using assms(1)[of "k + j"] by simp
  qed simp
  define n where "n = (LEAST n. k < n \<and> d \<le> C n - C k)"
  have "k < k + Suc d \<and> d \<le> C (k + Suc d) - C k" using grow[of "Suc d"] by simp
  then have n: "k < n" "d \<le> C n - C k" unfolding n_def by (metis (mono_tags, lifting) LeastI)+
  have before: "C j - C k < d" if "k < j" "j < n" for j
    using not_less_Least[of j "\<lambda>n. k < n \<and> d \<le> C n - C k"] that unfolding n_def by force
  have mono: "C k \<le> C j" if "k \<le> j" for j using grow[of "j - k"] that by simp
  have d32: "d < 2 ^ 32" unfolding assms(3) by (rule order_less_le_trans[OF unsigned_less]) simp
  let ?s = "of_nat (C k) :: u32" and ?d = "cpu_freq * ucast us :: u32"
  have "of_nat (C j) - ?s < ?d" if "Suc k \<le> j" "j < n" for j
  proof -
    have "C j - C k < d" using before[of j] that by simp
    moreover have "unat (of_nat (C j) - ?s) = C j - C k"
      by (rule counter_difference) (use calculation d32 mono[of j] that in simp_all)
    ultimately show ?thesis by (simp add: word_less_nat_alt assms(3))
  qed
  moreover have "\<not> of_nat (C n) - ?s < ?d"
  proof (cases "d = 0")
    case True
    then show ?thesis by (simp add: word_less_nat_alt assms(3)[symmetric])
  next
    case False
    obtain p where p: "n = Suc p" using n(1) by (cases n) auto
    have "C p - C k < d" using before[of p] n(1) p False by (cases "p = k") auto
    then have "C n - C k < 2 ^ 32" using assms(2)[of p] assms(1)[of p] mono[of p] n(1) p d32 by simp
    then have "unat (of_nat (C n) - ?s) = C n - C k"
      by (rule counter_difference[rotated]) (use mono[of n] n(1) in simp)
    then show ?thesis using n(2) by (simp add: word_less_nat_alt assms(3)[symmetric])
  qed
  ultimately have "os_delay_us (\<lambda>j. of_nat (C j)) cpu_freq us k = Some (Suc n)"
    unfolding os_delay_us_def os_get_cpu_frequency_def using n(1) by (intro delay_loop_until) auto
  then show ?thesis using n before by blast
qed

theorem delay_waits_long_enough_witness:
  "\<exists>n > 0. os_delay_us (\<lambda>j. of_nat (4294967000 + 100 * j)) 80 10 0 = Some (Suc n) \<and> 800 \<le> 100 * n"
proof -
  let ?C = "\<lambda>j :: nat. 4294967000 + 100 * j"
  have "\<exists>n > 0. os_delay_us (\<lambda>j. of_nat (?C j)) 80 10 0 = Some (Suc n) \<and> 800 \<le> ?C n - ?C 0
      \<and> (\<forall>j. 0 < j \<and> j < n \<longrightarrow> ?C j - ?C 0 < 800)"
    by (rule delay_waits_long_enough) simp_all
  then obtain n where "n > 0" "os_delay_us (\<lambda>j. of_nat (?C j)) 80 10 0 = Some (Suc n)" "800 \<le> ?C n - ?C 0"
    by blast
  then have "n > 0 \<and> os_delay_us (\<lambda>j. of_nat (?C j)) 80 10 0 = Some (Suc n) \<and> 800 \<le> 100 * n" by simp
  then show ?thesis by (rule exI)
qed

end
