(* ===== verification/Core_Tick.thy ===== *)
theory Core_Tick
  imports Core_Interrupt Os_Task_Demo
begin

unbundle bit_operations_syntax

text \<open>
  The tick timer interrupt of \<^verbatim>\<open>src/ffi/core/interrupt.c\<close> on the kernel state. The cycle counter is a
  stream of reads as in \<open>os_delay_us\<close>; the timer fires when the counter reaches the register
  \<open>ccompare0\<close>.
\<close>

definition configTICK_RATE_HZ :: u32 where "configTICK_RATE_HZ = 100"
definition portTICK_PERIOD_MS :: u32 where "portTICK_PERIOD_MS = 1000 div configTICK_RATE_HZ"
definition INTENABLE_CCOMPARE :: u32 where "INTENABLE_CCOMPARE = push_bit 6 1"

definition ccount_interval :: "u32 \<Rightarrow> u32" where
  "ccount_interval cpu_freq = portTICK_PERIOD_MS * os_get_cpu_frequency cpu_freq * 1000"

text \<open>The result is the compare register, the number of counter reads and the kernel state.\<close>

partial_function (option) timer_loop ::
    "os_config \<Rightarrow> (nat \<Rightarrow> u32) \<Rightarrow> u32 \<Rightarrow> u32 \<Rightarrow> nat \<Rightarrow> os \<Rightarrow> (u32 \<times> nat \<times> os) option" where
  "timer_loop cfg cyc interval ccompare0 k s =
     do {
       let trigger_ccount = ccompare0;
       let ccompare0' = trigger_ccount + interval;
       s1 \<leftarrow> xPortSysTickHandle cfg s;
       (if cyc k - trigger_ccount > interval then timer_loop cfg cyc interval ccompare0' (Suc k) s1
        else Some (ccompare0', Suc k, s1))
     }"

definition xt_timer_int :: "os_config \<Rightarrow> (nat \<Rightarrow> u32) \<Rightarrow> u32 \<Rightarrow> u32 \<Rightarrow> nat \<Rightarrow> os \<Rightarrow> (u32 \<times> nat \<times> os) option" where
  "xt_timer_int cfg cyc cpu_freq ccompare0 k s = timer_loop cfg cyc (ccount_interval cpu_freq) ccompare0 k s"

text \<open>The start of the timer: the compare register and the interrupt enable register.\<close>

definition xt_tick_timer_init :: "(nat \<Rightarrow> u32) \<Rightarrow> u32 \<Rightarrow> nat \<Rightarrow> u32 \<Rightarrow> u32 \<times> u32" where
  "xt_tick_timer_init cyc cpu_freq k intenable =
     (cyc k + ccount_interval cpu_freq, intenable OR INTENABLE_CCOMPARE)"

section \<open>One tick\<close>

lemma some_ready_iff:
  assumes k: "kernel_core X cfg s"
  shows "some_ready cfg s \<longleftrightarrow> (\<exists>t p. is_task s t \<and> home s (StateListItem t) = Some (ReadyTasksList p))"
proof
  assume "some_ready cfg s"
  then obtain p where p: "p < configMAX_PRIORITIES" "items s (ReadyTasksList p) \<noteq> []"
    by (auto simp: some_ready_def)
  then obtain i "is" where i: "items s (ReadyTasksList p) = i # is" by (cases "items s (ReadyTasksList p)") auto
  have pl: "ReadyTasksList p \<in> state_lists cfg" using p(1) by simp
  obtain t where "is_task s t" "home s (StateListItem t) = Some (ReadyTasksList p)" by (rule state_head[OF k pl i])
  then show "\<exists>t p. is_task s t \<and> home s (StateListItem t) = Some (ReadyTasksList p)" by blast
next
  assume "\<exists>t p. is_task s t \<and> home s (StateListItem t) = Some (ReadyTasksList p)"
  then obtain t p where t: "is_task s t" "home s (StateListItem t) = Some (ReadyTasksList p)" by blast
  have "priority_of s t = p" by (rule core_ready(2)[OF k t])
  then have p: "p < configMAX_PRIORITIES" using coreD(2)[OF k] t(1) by (auto simp: tasks_ok_def)
  moreover from p have "items s (ReadyTasksList p) \<noteq> []"
    using member_home[OF k, of "ReadyTasksList p" "StateListItem t"] t(2) by auto
  ultimately show "some_ready cfg s" unfolding some_ready_def by blast
qed

lemma woken_some_ready:
  assumes "kernel_inv cfg s" and "some_ready cfg s" and "kernel_inv cfg s'" and "woken W s (klists s')"
    and "is_task s' = is_task s"
  shows "some_ready cfg s'"
proof -
  obtain t p where t: "is_task s t" "home s (StateListItem t) = Some (ReadyTasksList p)"
    using assms(2) some_ready_iff[OF invD(1)[OF assms(1)]] by blast
  have "\<exists>q. home s' (StateListItem t) = Some (ReadyTasksList q)" using wokenD(1)[OF assms(4), of t] t(2) by auto
  then show ?thesis using some_ready_iff[OF invD(1)[OF assms(3)]] t(1) assms(5) by auto
qed

text \<open>A tick of the timer: what it does to the tasks is what \<open>xTaskIncrementTick\<close> does.\<close>

lemma sys_tick_spec:
  assumes k: "kernel_inv cfg s" and run: "uxSchedulerSuspended s = 0" and r: "some_ready cfg s"
  obtains s' where "xPortSysTickHandle cfg s = Some s'" and "kernel_inv cfg s'" and "uxSchedulerSuspended s' = 0"
    and "some_ready cfg s'" and "xTickCount s' = xTickCount s + 1" and "is_task s' = is_task s"
    and "priority_of s' = priority_of s" and "woken (waking s) s (klists s')"
    and "xNumOfOverflows s' = (if xTickCount s + 1 = 0 then xNumOfOverflows s + 1 else xNumOfOverflows s)"
    and "queues s' = queues s \<and> uxPendedTicks s' = uxPendedTicks s
      \<and> uxCurrentNumberOfTasks s' = uxCurrentNumberOfTasks s"
proof -
  obtain sw s1 where t: "xTaskIncrementTick cfg s = Some (sw, s1)" and k1: "kernel_inv cfg s1"
    and f: "xTickCount s1 = xTickCount s + 1" "tcbs s1 = tcbs s" "uxSchedulerSuspended s1 = 0"
      "xNumOfOverflows s1 = (if xTickCount s + 1 = 0 then xNumOfOverflows s + 1 else xNumOfOverflows s)"
      "queues s1 = queues s" "uxPendedTicks s1 = uxPendedTicks s" "uxCurrentNumberOfTasks s1 = uxCurrentNumberOfTasks s"
    and w: "woken (waking s) s (klists s1)"
    by (rule increment_tick_running[OF k run]) blast
  have v: "is_task s1 = is_task s" "priority_of s1 = priority_of s"
    by (simp_all add: is_task_def priority_of_def f(2) fun_eq_iff)
  have r1: "some_ready cfg s1" by (rule woken_some_ready[OF k r k1 w v(1)])
  show ?thesis
  proof (cases sw)
    case False
    then show ?thesis using that t k1 f v w r1 by (simp add: xPortSysTickHandle_def)
  next
    case True
    obtain t p h c where sc: "vTaskSwitchContext s1 = Some (s1\<lparr>xYieldPending := False,
        stack_overflow_hook_calls := c, klists := h, pxCurrentTCB := t, uxTopReadyPriority := p\<rparr>)"
      "kernel_inv cfg (s1\<lparr>xYieldPending := False,
        stack_overflow_hook_calls := c, klists := h, pxCurrentTCB := t, uxTopReadyPriority := p\<rparr>)"
      and n: "node_at h = node_at (klists s1)"
      by (rule switch_context_spec[OF k1 f(3) r1]) blast
    let ?s = "s1\<lparr>xYieldPending := False, stack_overflow_hook_calls := c, klists := h, pxCurrentTCB := t,
        uxTopReadyPriority := p\<rparr>"
    have vs: "is_task ?s = is_task s" "priority_of ?s = priority_of s"
      using v by (simp_all add: is_task_def priority_of_def fun_eq_iff)
    have ws: "woken (waking s) s (klists ?s)" using w n by (simp add: woken_def)
    show ?thesis
      using that[of ?s] sc t True f vs ws woken_some_ready[OF k r sc(2) ws vs(1)]
      by (simp add: xPortSysTickHandle_def)
  qed
qed

section \<open>Several ticks\<close>

fun sys_ticks :: "os_config \<Rightarrow> nat \<Rightarrow> os \<Rightarrow> os option" where
  "sys_ticks cfg 0 s = Some s"
| "sys_ticks cfg (Suc n) s = do { s1 \<leftarrow> xPortSysTickHandle cfg s; sys_ticks cfg n s1 }"

lemma sys_ticks_spec:
  assumes "kernel_inv cfg s" and "uxSchedulerSuspended s = 0" and "some_ready cfg s"
  shows "\<exists>s'. sys_ticks cfg n s = Some s' \<and> kernel_inv cfg s' \<and> uxSchedulerSuspended s' = 0 \<and> some_ready cfg s'
     \<and> (\<forall>T. at_time s T \<longrightarrow> at_time s' (T + n)) \<and> is_task s' = is_task s \<and> priority_of s' = priority_of s
     \<and> woken {t. delayed s t \<and> ticks_left s t \<le> n} s (klists s')"
  using assms
proof (induction n arbitrary: s)
  case 0
  have e: "{t. delayed s t \<and> ticks_left s t \<le> 0} = {}" using ticks_left_pos[OF 0(1)] by auto
  show ?case unfolding e using 0 by (simp add: woken_none)
next
  case (Suc n)
  obtain s1 where t: "xPortSysTickHandle cfg s = Some s1" and k1: "kernel_inv cfg s1"
    and f: "uxSchedulerSuspended s1 = 0" "some_ready cfg s1" "xTickCount s1 = xTickCount s + 1"
      "is_task s1 = is_task s" "priority_of s1 = priority_of s"
    and w: "woken (waking s) s (klists s1)"
    and o: "xNumOfOverflows s1 = (if xTickCount s + 1 = 0 then xNumOfOverflows s + 1 else xNumOfOverflows s)"
    by (rule sys_tick_spec[OF Suc.prems]) blast
  obtain s' where l: "sys_ticks cfg n s1 = Some s'" and k': "kernel_inv cfg s'"
    and f': "uxSchedulerSuspended s' = 0" "some_ready cfg s'" "\<forall>T. at_time s1 T \<longrightarrow> at_time s' (T + n)"
      "is_task s' = is_task s1" "priority_of s' = priority_of s1"
    and w': "woken {t. delayed s1 t \<and> ticks_left s1 t \<le> n} s1 (klists s')"
    using Suc.IH[OF k1 f(1,2)] by blast
  let ?v = "s\<lparr>klists := klists s1, xTickCount := xTickCount s1\<rparr>"
  have vv: "delayed ?v = delayed s1" "ticks_left ?v = ticks_left s1"
    using f(4) by (simp_all add: delayed_def ticks_left_def is_task_def fun_eq_iff)
  have "{t. delayed s t \<and> ticks_left s t \<le> Suc n} = waking s \<union> {t. delayed ?v t \<and> ticks_left ?v t \<le> n}"
    by (rule ticks_left_step) (use w f(3) Suc.prems(1) in \<open>simp_all add: same_tasks_def\<close>)
  then have "woken {t. delayed s t \<and> ticks_left s t \<le> Suc n} s (klists s')"
    unfolding vv by (simp only:) (rule woken_trans[OF w w' refl f(5)])
  moreover have "at_time s' (T + Suc n)" if "at_time s T" for T
    using f'(3) at_time_tick[OF that f(3) o] by (metis add_Suc add_Suc_right)
  ultimately show ?case using t l k' f' f by simp
qed

section \<open>The loop\<close>

lemma timer_loop_eq:
  assumes "\<And>j. j < n \<Longrightarrow> cyc (k + j) - (c + of_nat j * d) > d" and "\<not> cyc (k + n) - (c + of_nat n * d) > d"
  shows "timer_loop cfg cyc d c k s = map_option (\<lambda>s'. (c + of_nat (Suc n) * d, k + Suc n, s')) (sys_ticks cfg (Suc n) s)"
  using assms
proof (induction n arbitrary: c k s)
  case 0
  then show ?case by (subst timer_loop.simps) (simp split: bind_split)
next
  case (Suc n)
  have "timer_loop cfg cyc d (c + d) (Suc k) s1
      = map_option (\<lambda>s'. (c + d + of_nat (Suc n) * d, Suc k + Suc n, s')) (sys_ticks cfg (Suc n) s1)" for s1
    by (rule Suc.IH) (use Suc.prems(1)[of "Suc j" for j] Suc.prems(2) in \<open>simp_all add: algebra_simps\<close>)
  moreover have "cyc k - c > d" using Suc.prems(1)[of 0] by simp
  ultimately show ?case
    by (subst timer_loop.simps) (simp add: algebra_simps split: bind_split)
qed

section \<open>Properties\<close>

text \<open>
  C19: The timer interrupt makes up for its lateness. Let \<open>C j\<close> be the true number of cycles at the
  \<open>j\<close>th read of the counter and \<open>T\<close> the instant at which the timer fired, of both of which the
  registers hold the low 32 bits, and let the handler catch up with the timer at some read less than
  a wrap of the counter after \<open>T\<close>. Then the handler returns, it has run the kernel's tick once for
  each of the instants \<open>T\<close>, \<open>T + interval\<close>, \<open>T + 2 * interval\<close> up to the last read, the compare
  register holds the next such instant, which that read has not passed, and no tick is lost or
  doubled: every task delayed for at most that many ticks is ready, every other is still delayed,
  and the kernel's time has advanced by that number.
\<close>

theorem timer_interrupt_catches_up:
  assumes "kernel_inv cfg s" and "uxSchedulerSuspended s = 0" and "some_ready cfg s"
    and "\<And>j. C j \<le> C (Suc j)" and "T \<le> C k" and "I = unat (ccount_interval cpu_freq)"
    and "C (k + m) \<le> T + Suc m * I" and "C (k + m) - T < 2 ^ 32"
  shows "\<exists>n s'. xt_timer_int cfg (\<lambda>j. of_nat (C j)) cpu_freq (of_nat T) k s
          = Some (of_nat (T + Suc n * I), k + Suc n, s')
      \<and> T + n * I \<le> C (k + n) \<and> C (k + n) \<le> T + Suc n * I
      \<and> kernel_inv cfg s' \<and> (\<forall>t0. at_time s t0 \<longrightarrow> at_time s' (t0 + Suc n))
      \<and> (\<forall>t. delayed s t \<longrightarrow> home s' (StateListItem t)
            = (if ticks_left s t \<le> Suc n then Some (ReadyTasksList (priority_of s t)) else home s (StateListItem t)))"
proof -
  define n where "n = (LEAST n. C (k + n) \<le> T + Suc n * I)"
  have n: "C (k + n) \<le> T + Suc n * I" and nm: "n \<le> m"
    unfolding n_def by (rule LeastI[of _ m], rule assms(7)) (rule Least_le, rule assms(7))
  have before: "T + Suc j * I < C (k + j)" if "j < n" for j
    using not_less_Least[of j "\<lambda>n. C (k + n) \<le> T + Suc n * I"] that unfolding n_def by simp
  have mono: "C i \<le> C j" if "i \<le> j" for i j by (rule lift_Suc_mono_le[where f = C, OF assms(4) that])
  have after: "T + j * I \<le> C (k + j)" if "j \<le> n" for j
  proof (cases j)
    case 0
    then show ?thesis using assms(5) by simp
  next
    case (Suc i)
    then show ?thesis using before[of i] mono[of "k + i" "k + j"] that by simp
  qed
  have small: "C (k + j) - (T + j * I) < 2 ^ 32" if "j \<le> n" for j
    using mono[of "k + j" "k + m"] that nm assms(8) by simp
  have d: "unat ((of_nat (C (k + j)) :: u32) - (of_nat T + of_nat j * ccount_interval cpu_freq))
      = C (k + j) - (T + j * I)" if "j \<le> n" for j
  proof -
    have "(of_nat T + of_nat j * ccount_interval cpu_freq :: u32) = of_nat (T + j * I)" by (simp add: assms(6))
    then show ?thesis using counter_difference[OF after[OF that] small[OF that]] by simp
  qed
  have run: "timer_loop cfg (\<lambda>j. of_nat (C j)) (ccount_interval cpu_freq) (of_nat T) k s
      = map_option (\<lambda>s'. (of_nat T + of_nat (Suc n) * ccount_interval cpu_freq, k + Suc n, s')) (sys_ticks cfg (Suc n) s)"
  proof (rule timer_loop_eq)
    show "of_nat (C (k + j)) - (of_nat T + of_nat j * ccount_interval cpu_freq) > ccount_interval cpu_freq"
      if "j < n" for j
      using before[OF that] d[of j] that by (simp add: word_less_nat_alt assms(6))
    show "\<not> of_nat (C (k + n)) - (of_nat T + of_nat n * ccount_interval cpu_freq) > ccount_interval cpu_freq"
      using n d[of n] by (simp add: word_less_nat_alt assms(6))
  qed
  obtain s' where s': "sys_ticks cfg (Suc n) s = Some s'" "kernel_inv cfg s'"
    "\<forall>t0. at_time s t0 \<longrightarrow> at_time s' (t0 + Suc n)"
    "woken {t. delayed s t \<and> ticks_left s t \<le> Suc n} s (klists s')"
    using sys_ticks_spec[OF assms(1-3), of "Suc n"] by blast
  have "(of_nat T + of_nat (Suc n) * ccount_interval cpu_freq :: u32) = of_nat (T + Suc n * I)"
    by (simp add: assms(6) algebra_simps)
  then have "xt_timer_int cfg (\<lambda>j. of_nat (C j)) cpu_freq (of_nat T) k s
      = Some (of_nat (T + Suc n * I), k + Suc n, s')"
    unfolding xt_timer_int_def run s'(1) by simp
  then show ?thesis using n after[of n] s'(2,3) wokenD(1)[OF s'(4)] by (intro exI conjI) auto
qed

theorem timer_interrupt_catches_up_witness:
  "\<exists>s'. xt_timer_int as_built (\<lambda>j. of_nat (2000000 + 100 * j)) 80 1000000 0 demo_two = Some (2600000, 2, s')
     \<and> kernel_inv as_built s'"
proof -
  let ?C = "\<lambda>j :: nat. 2000000 + 100 * j"
  have i: "unat (ccount_interval 80) = 800000"
    by (simp add: ccount_interval_def portTICK_PERIOD_MS_def configTICK_RATE_HZ_def os_get_cpu_frequency_def)
  obtain n s' where *: "xt_timer_int as_built (\<lambda>j. of_nat (?C j)) 80 (of_nat 1000000) 0 demo_two
      = Some (of_nat (1000000 + Suc n * 800000), 0 + Suc n, s')"
    "1000000 + n * 800000 \<le> ?C (0 + n)" "?C (0 + n) \<le> 1000000 + Suc n * 800000" "kernel_inv as_built s'"
    using timer_interrupt_catches_up[OF demo_two(2) demo_two_rest(1) demo_two_ready, of ?C 1000000 0 800000 80 1]
    by (simp add: i) blast
  have "n = 1" using *(2,3) by simp
  then show ?thesis using *(1,4) by simp
qed

end
