(* ===== verification/Lwip_Addr.thy ===== *)
theory Lwip_Addr
  imports Core_Words
begin

unbundle bit_operations_syntax

text \<open>
  The text form of IPv4 addresses: \<^verbatim>\<open>src/ffi/lwip/ip_addr4.c\<close>. A C string is its list of characters,
  and the pointer into it is the list of those that are left; at the end of the list it reads the
  terminating zero.
\<close>

definition cur :: "string \<Rightarrow> char" where
  "cur cp = (case cp of [] \<Rightarrow> CHR 0x00 | c # _ \<Rightarrow> c)"

definition code :: "char \<Rightarrow> nat" where "code c = of_char c"

definition is_digit :: "char \<Rightarrow> bool" where
  "is_digit c \<longleftrightarrow> code c \<ge> code (CHR ''0'') \<and> code c \<le> code (CHR ''9'')"

definition is_xdigit :: "char \<Rightarrow> bool" where
  "is_xdigit c \<longleftrightarrow> is_digit c \<or> (code c \<ge> code (CHR ''A'') \<and> code c \<le> code (CHR ''F''))
     \<or> (code c \<ge> code (CHR ''a'') \<and> code c \<le> code (CHR ''f''))"

definition is_lower :: "char \<Rightarrow> bool" where
  "is_lower c \<longleftrightarrow> code c \<ge> code (CHR ''a'') \<and> code c \<le> code (CHR ''z'')"

definition is_whitespace :: "char \<Rightarrow> bool" where
  "is_whitespace c \<longleftrightarrow> c = CHR '' '' \<or> c = CHR 0x0C \<or> c = CHR 0x0A \<or> c = CHR 0x0D \<or> c = CHR 0x09 \<or> c = CHR 0x0B"

text \<open>The inner loop: digits of the base, and letters when it is 16.\<close>

fun number_loop :: "u32 \<Rightarrow> u32 \<Rightarrow> string \<Rightarrow> u32 \<times> string" where
  "number_loop base val [] = (val, [])"
| "number_loop base val (c # cp) =
     (if is_digit c then number_loop base (val * base + of_nat (code c - code (CHR ''0''))) cp
      else if base = 16 \<and> is_xdigit c
      then number_loop base
             (push_bit 4 val OR of_nat (code c + 10 - (if is_lower c then code (CHR ''a'') else code (CHR ''A'')))) cp
      else (val, c # cp))"

definition read_number :: "string \<Rightarrow> u32 \<times> string" where
  "read_number cp =
     (if cur cp = CHR ''0''
      then (let cp1 = tl cp in
            if cur cp1 = CHR ''x'' \<or> cur cp1 = CHR ''X'' then number_loop 16 0 (tl cp1) else number_loop 8 0 cp1)
      else number_loop 10 0 cp)"

text \<open>The outer loop: the parts before the last one, the last one and what follows it.\<close>

function read_parts :: "u32 list \<Rightarrow> string \<Rightarrow> (u32 list \<times> u32 \<times> string) option" where
  "read_parts parts cp =
     (if \<not> is_digit (cur cp) then None
      else (let (val, cp1) = read_number cp in
            if cur cp1 = CHR ''.''
            then (if length parts \<ge> 3 then None else read_parts (parts @ [val]) (tl cp1))
            else Some (parts, val, cp1)))"
  by pat_completeness auto
termination by (relation "measure (\<lambda>(parts, _). 4 - length parts)") auto

definition combine_parts :: "u32 list \<Rightarrow> u32 \<Rightarrow> u32 option" where
  "combine_parts parts val =
     (if length parts = 0 then Some val
      else if length parts = 1
      then (if val > 0xffffff then None else if parts ! 0 > 0xff then None
            else Some (val OR push_bit 24 (parts ! 0)))
      else if length parts = 2
      then (if val > 0xffff then None else if parts ! 0 > 0xff \<or> parts ! 1 > 0xff then None
            else Some (val OR (push_bit 24 (parts ! 0) OR push_bit 16 (parts ! 1))))
      else (if val > 0xff then None else if parts ! 0 > 0xff \<or> parts ! 1 > 0xff \<or> parts ! 2 > 0xff then None
            else Some (val OR (push_bit 24 (parts ! 0) OR push_bit 16 (parts ! 1) OR push_bit 8 (parts ! 2)))))"

text \<open>The address, in network byte order, or \<open>None\<close> for the result 0, which leaves it alone.\<close>

definition ip4addr_aton :: "string \<Rightarrow> u32 option" where
  "ip4addr_aton cp =
     do {
       (parts, val, rest) \<leftarrow> read_parts [] cp;
       (if cur rest \<noteq> CHR 0x00 \<and> \<not> is_whitespace (cur rest) then None
        else map_option u32_high_to_neutral (combine_parts parts val))
     }"

definition IPADDR_NONE :: u32 where "IPADDR_NONE = 0xffffffff"

definition ipaddr_addr :: "string \<Rightarrow> u32" where
  "ipaddr_addr cp = (case ip4addr_aton cp of Some a \<Rightarrow> a | None \<Rightarrow> IPADDR_NONE)"

section \<open>Decimal numbers\<close>

definition digit :: "nat \<Rightarrow> char" where "digit n = char_of (48 + n)"

fun decimal :: "nat \<Rightarrow> string" where
  "decimal n = (if n < 10 then [digit n] else decimal (n div 10) @ [digit (n mod 10)])"

declare decimal.simps [simp del]

lemma code_digit: "n < 10 \<Longrightarrow> code (digit n) = 48 + n"
  by (simp add: code_def digit_def of_char_of)

lemma code_chars: "code (CHR ''0'') = 48" "code (CHR ''9'') = 57"
  by (simp_all add: code_def)

lemma digit_is_digit: "n < 10 \<Longrightarrow> is_digit (digit n)"
  by (simp add: is_digit_def code_digit code_chars)

lemma number_loop_decimal:
  "number_loop 10 0 (decimal n @ rest) = number_loop 10 (of_nat n) rest"
proof (induction n arbitrary: rest rule: decimal.induct)
  case (1 n)
  show ?case
  proof (cases "n < 10")
    case True
    then show ?thesis by (simp add: decimal.simps[of n] digit_is_digit code_digit code_chars)
  next
    case False
    have "(of_nat n :: u32) = of_nat (n div 10) * 10 + of_nat (n mod 10)"
      by (metis div_mult_mod_eq of_nat_add of_nat_mult of_nat_numeral)
    then show ?thesis
      using 1[OF False] False by (simp add: decimal.simps[of n] digit_is_digit code_digit code_chars)
  qed
qed

lemma decimal_head:
  "\<exists>d ds. decimal n = digit d # ds \<and> d < 10 \<and> (d = 0 \<longrightarrow> n = 0 \<and> ds = [])"
proof (induction n rule: decimal.induct)
  case (1 n)
  show ?case
  proof (cases "n < 10")
    case True
    then show ?thesis by (auto simp: decimal.simps[of n])
  next
    case False
    then obtain d ds where "decimal (n div 10) = digit d # ds" "d < 10" "d = 0 \<longrightarrow> n div 10 = 0"
      using 1[OF False] by blast
    then show ?thesis using False by (auto simp: decimal.simps[of n])
  qed
qed

lemma digit_0: "digit 0 = CHR ''0''" and digit_eq_0: "d < 10 \<Longrightarrow> digit d = CHR ''0'' \<longleftrightarrow> d = 0"
proof -
  show "digit 0 = CHR ''0''" by (simp add: digit_def char_of_def bit_0)
  then show "d < 10 \<Longrightarrow> digit d = CHR ''0'' \<longleftrightarrow> d = 0"
    using code_digit[of d] code_digit[of 0] by auto
qed

text \<open>A character that ends a number.\<close>

definition ends_number :: "string \<Rightarrow> bool" where
  "ends_number rest \<longleftrightarrow> \<not> is_xdigit (cur rest) \<and> cur rest \<noteq> CHR ''x'' \<and> cur rest \<noteq> CHR ''X''"

lemma number_loop_end: "ends_number rest \<Longrightarrow> number_loop b v rest = (v, rest)"
  by (cases rest) (auto simp: ends_number_def cur_def is_xdigit_def)

lemma read_decimal:
  assumes "ends_number rest"
  shows "is_digit (cur (decimal n @ rest))" and "read_number (decimal n @ rest) = (of_nat n, rest)"
proof -
  obtain d ds where d: "decimal n = digit d # ds" "d < 10" "d = 0 \<longrightarrow> n = 0 \<and> ds = []"
    using decimal_head[of n] by blast
  then show "is_digit (cur (decimal n @ rest))" by (simp add: cur_def digit_is_digit)
  show "read_number (decimal n @ rest) = (of_nat n, rest)"
  proof (cases "d = 0")
    case True
    then have "decimal n @ rest = CHR ''0'' # rest" using d by (simp add: digit_0)
    then show ?thesis
      using assms True d(3) number_loop_end[OF assms] by (simp add: read_number_def cur_def ends_number_def)
  next
    case False
    then have "cur (decimal n @ rest) \<noteq> CHR ''0''" using d by (simp add: cur_def digit_eq_0)
    then show ?thesis by (simp add: read_number_def number_loop_decimal number_loop_end[OF assms])
  qed
qed

section \<open>Dotted addresses\<close>

fun dotted :: "nat list \<Rightarrow> string" where
  "dotted [] = []"
| "dotted [n] = decimal n"
| "dotted (n # m # ns) = decimal n @ CHR ''.'' # dotted (m # ns)"

lemma dot_ends: "ends_number (CHR ''.'' # rest)"
  by (simp add: ends_number_def cur_def is_xdigit_def is_digit_def code_def)

lemma read_parts_dotted:
  assumes "ends_number rest" and "cur rest \<noteq> CHR ''.''" and "ns \<noteq> []" and "length ps \<le> 3"
  shows "read_parts ps (dotted ns @ rest) = (if length ps + length ns \<le> 4
       then Some (ps @ map of_nat (butlast ns), of_nat (last ns), rest) else None)"
  using assms(3,4)
proof (induction ns arbitrary: ps rule: dotted.induct)
  case (2 n)
  then show ?case
    using read_decimal[OF assms(1), of n] assms(2) by (subst read_parts.simps) simp
next
  case (3 n m ns)
  note r = read_decimal[OF dot_ends, of n]
  show ?case
  proof (cases "length ps = 3")
    case True
    then show ?thesis using r by (subst read_parts.simps) (simp add: cur_def[of "CHR ''.'' # x" for x])
  next
    case False
    have "read_parts (ps @ [of_nat n]) (dotted (m # ns) @ rest) = (if length (ps @ [of_nat n]) + length (m # ns) \<le> 4
       then Some ((ps @ [of_nat n]) @ map of_nat (butlast (m # ns)), of_nat (last (m # ns)), rest) else None)"
      by (rule 3(1)) (use 3(3) False in auto)
    then show ?thesis using False 3(3) r
      by (subst read_parts.simps) (simp add: cur_def[of "CHR ''.'' # x" for x] del: read_parts.simps)
  qed
qed simp

text \<open>The address of up to four numbers: the last one fills the bytes the others leave.\<close>

fun address :: "u32 list \<Rightarrow> u32" where
  "address [a] = a"
| "address [a, b] = a * 2 ^ 24 + b"
| "address [a, b, c] = a * 2 ^ 24 + b * 2 ^ 16 + c"
| "address [a, b, c, d] = a * 2 ^ 24 + b * 2 ^ 16 + c * 2 ^ 8 + d"
| "address _ = 0"

definition parts_fit :: "u32 list \<Rightarrow> bool" where
  "parts_fit ws \<longleftrightarrow> (\<forall>p \<in> set (butlast ws). p \<le> 0xff) \<and> unat (last ws) < 2 ^ (8 * (5 - length ws))"

lemma small_bits:
  assumes "unat (v :: u32) < 2 ^ k" and "bit v n"
  shows "n < k"
proof (rule ccontr)
  assume "\<not> n < k"
  then have "unat v < 2 ^ n" using assms(1) by (simp add: order_less_le_trans)
  then have "\<not> bit (unat v) n" by (simp add: bit_iff_odd)
  then show False using assms(2) by (simp add: bit_unsigned_iff)
qed

lemma or_is_add: "(\<And>n. \<not> bit v n \<or> \<not> bit w n) \<Longrightarrow> v OR w = v + (w :: u32)"
  by (rule disjunctive_add_eq_or[symmetric]) (simp add: bit_eq_iff bit_and_iff)

lemma short_list_cases:
  "length ps < 4 \<Longrightarrow> ps = [] \<or> (\<exists>a. ps = [a]) \<or> (\<exists>a b. ps = [a, b]) \<or> (\<exists>a b c. ps = [a, b, c])"
  by (auto simp: numeral_eq_Suc less_Suc_eq length_Suc_conv)

lemma combine_address:
  assumes "length ps < 4" and "parts_fit (ps @ [v])"
  shows "combine_parts ps v = Some (address (ps @ [v]))"
proof -
  have le: "\<not> p > 0xff" if "p \<in> set ps" for p using assms(2) that by (simp add: parts_fit_def not_less)
  have byte: "n < 8" if "p \<in> set ps" "bit p n" for p n
  proof -
    have "unat p < 2 ^ 8" using le[OF that(1)] by (simp add: not_less word_le_nat_alt)
    then show ?thesis using that(2) by (rule small_bits)
  qed
  have fit: "unat v < 2 ^ (8 * (5 - length (ps @ [v])))" using assms(2) by (simp add: parts_fit_def)
  have final: "n < 8 * (5 - length (ps @ [v]))" if "bit v n" for n
    by (rule small_bits[OF fit that])
  consider "ps = []" | a where "ps = [a]" | a b where "ps = [a, b]" | a b c where "ps = [a, b, c]"
    using short_list_cases[OF assms(1)] by blast
  then show ?thesis
  proof cases
    case 1
    then show ?thesis by (simp add: combine_parts_def)
  next
    case 2
    have "v OR push_bit 24 a = v + push_bit 24 a"
      by (rule or_is_add) (use byte final 2 in \<open>fastforce simp: bit_simps\<close>)
    moreover have "\<not> v > 0xffffff" using assms(2) 2 by (simp add: parts_fit_def word_less_nat_alt)
    ultimately show ?thesis using le 2 by (simp add: combine_parts_def push_bit_eq_mult add.commute)
  next
    case 3
    have "push_bit 24 a OR push_bit 16 b = push_bit 24 a + push_bit 16 b"
      by (rule or_is_add) (use byte 3 in \<open>fastforce simp: bit_simps\<close>)
    moreover have "v OR (push_bit 24 a OR push_bit 16 b) = v + (push_bit 24 a OR push_bit 16 b)"
      by (rule or_is_add) (use byte final 3 in \<open>fastforce simp: bit_simps\<close>)
    moreover have "\<not> v > 0xffff" using assms(2) 3 by (simp add: parts_fit_def word_less_nat_alt)
    ultimately show ?thesis using le 3 by (simp add: combine_parts_def push_bit_eq_mult add_ac)
  next
    case 4
    have "push_bit 16 b OR push_bit 8 c = push_bit 16 b + push_bit 8 c"
      by (rule or_is_add) (use byte 4 in \<open>fastforce simp: bit_simps\<close>)
    moreover have "push_bit 24 a OR (push_bit 16 b OR push_bit 8 c) = push_bit 24 a + (push_bit 16 b OR push_bit 8 c)"
      by (rule or_is_add) (use byte 4 in \<open>fastforce simp: bit_simps\<close>)
    moreover have "v OR (push_bit 24 a OR push_bit 16 b OR push_bit 8 c)
        = v + (push_bit 24 a OR push_bit 16 b OR push_bit 8 c)"
      by (rule or_is_add) (use byte final 4 in \<open>fastforce simp: bit_simps\<close>)
    moreover have "\<not> v > 0xff" using assms(2) 4 by (simp add: parts_fit_def word_less_nat_alt)
    ultimately show ?thesis using le 4 by (simp add: combine_parts_def push_bit_eq_mult add_ac)
  qed
qed

lemma combine_too_big:
  assumes "length ps < 4" and "\<not> parts_fit (ps @ [v])"
  shows "combine_parts ps v = None"
proof -
  have v32: "unat v < 2 ^ 32" by (rule unat_less_2_32)
  consider "ps = []" | a where "ps = [a]" | a b where "ps = [a, b]" | a b c where "ps = [a, b, c]"
    using short_list_cases[OF assms(1)] by blast
  then show ?thesis
    by cases (use assms(2) v32 in \<open>auto simp: combine_parts_def parts_fit_def word_less_nat_alt word_le_nat_alt not_less\<close>)
qed

section \<open>Properties\<close>

definition ends_address :: "string \<Rightarrow> bool" where
  "ends_address rest \<longleftrightarrow> cur rest = CHR 0x00 \<or> is_whitespace (cur rest)"

lemma ends_address_number:
  assumes "ends_address rest"
  shows "ends_number rest" and "cur rest \<noteq> CHR ''.''"
proof -
  have "cur rest \<in> {CHR 0x00, CHR '' '', CHR 0x0C, CHR 0x0A, CHR 0x0D, CHR 0x09, CHR 0x0B}"
    using assms by (auto simp: ends_address_def is_whitespace_def)
  then show "ends_number rest" "cur rest \<noteq> CHR ''.''"
    by (auto simp: ends_number_def is_xdigit_def is_digit_def code_def)
qed



text \<open>A number that begins with 0 is read to the base 8, but with all ten digits, and a number is
  reduced modulo \<open>2 ^ 32\<close> before the range checks.\<close>

lemma octal_digits_8_9: "ip4addr_aton ''09'' = ip4addr_aton ''9''"
  by (simp add: ip4addr_aton_def read_number_def cur_def is_digit_def code_def combine_parts_def Let_def)

lemma number_wraps: "ip4addr_aton ''4294967297.0.0.1'' = ip4addr_aton ''1.0.0.1''"
  by (simp add: ip4addr_aton_def read_number_def cur_def is_digit_def code_def combine_parts_def Let_def u32_high_to_neutral_def)

end
