(* ===== verification/Lwip_State.thy ===== *)
theory Lwip_State
  imports Os_State Core_Words
begin

unbundle bit_operations_syntax

text \<open>
  The state of the network library in \<^verbatim>\<open>src/ffi/lwip\<close>: packet buffers (\<^verbatim>\<open>pbuf.h\<close>), network buffers
  (\<^verbatim>\<open>netbuf.h\<close>), connections (\<^verbatim>\<open>api.h\<close>) and sockets (\<^verbatim>\<open>sock_priv.h\<close>), each kept by address, on top
  of the kernel's state, whose memory holds the payload bytes and whose heap log records the calls
  of \<open>malloc\<close> and \<open>free\<close>. A failed \<open>LWIP_ASSERT\<close> or \<open>LWIP_ERROR\<close> aborts the program
  (\<^verbatim>\<open>debug.h\<close>, \<^verbatim>\<open>prelude.h\<close>) and is \<open>None\<close>. The options are those of \<^verbatim>\<open>lwipopts.h\<close> and \<^verbatim>\<open>opt.h\<close>: both
  IP versions, TCP and UDP, full-duplex sockets with select, core locking, no statistics, the C
  library's heap behind all pools with overflow checks on pool elements.
\<close>

section \<open>Structures\<close>

record pbuf =
  pb_next :: u32
  pb_payload :: u32
  pb_tot_len :: u16
  pb_len :: u16
  pb_type_internal :: u8
  pb_flags :: u8
  pb_ref :: u8
  pb_if_idx :: u8
  pb_esf_buf :: u32

record ip_addr_t =
  ip_words :: "u32 list"
  ip_zone :: u8
  ip_type :: u8

record netbuf =
  nb_p :: u32
  nb_ptr :: u32
  nb_addr :: ip_addr_t
  nb_port :: u16

record netconn =
  nc_type :: u8
  nc_state :: u8
  nc_pcb :: u32
  nc_pending_err :: u8
  nc_op_completed :: u32
  nc_recvmbox :: u8
  nc_acceptmbox :: u8
  nc_socket :: u32
  nc_send_timeout :: u32
  nc_recv_timeout :: u32
  nc_flags :: u8
  nc_callback :: u32

record lwip_sock =
  so_conn :: u32
  so_lastdata :: u32
  so_rcvevent :: u16
  so_sendevent :: u16
  so_errevent :: u16
  so_select_waiting :: u8
  so_fd_used :: u8
  so_fd_free_pending :: u8

record mcast4 =
  m4_sock :: "nat option"
  m4_if_addr :: u32
  m4_multi_addr :: u32

record mcast6 =
  m6_sock :: "nat option"
  m6_if_idx :: u8
  m6_multi_addr :: "u32 list"
  m6_zone :: u8

text \<open>
  The library's state. A pointer to a socket is its index. The tables of sockets and of multicast
  memberships have \<open>NUM_SOCKETS\<close> entries each.
\<close>

record net =
  kernel :: os
  critical_nesting :: u32
  pp_rx_pool_usage :: u32
  recycled :: "u32 list"
  pbufs :: "u32 \<rightharpoonup> pbuf"
  netbufs :: "u32 \<rightharpoonup> netbuf"
  netconns :: "u32 \<rightharpoonup> netconn"
  sockets :: "lwip_sock list"
  mcasts4 :: "mcast4 list"
  mcasts6 :: "mcast6 list"
  errno :: u32

definition NUM_SOCKETS :: nat where "NUM_SOCKETS = 12"
definition LWIP_SOCKET_OFFSET :: int where "LWIP_SOCKET_OFFSET = 3"

definition upd_pbuf :: "u32 \<Rightarrow> (pbuf \<Rightarrow> pbuf) \<Rightarrow> net \<Rightarrow> net option" where
  "upd_pbuf p f n = do { b \<leftarrow> pbufs n p; Some (n\<lparr>pbufs := (pbufs n)(p \<mapsto> f b)\<rparr>) }"

abbreviation net_mem :: "net \<Rightarrow> u32 \<Rightarrow> u8" where "net_mem n \<equiv> mem (kernel n)"

definition lwip_assert :: "bool \<Rightarrow> 'a \<Rightarrow> 'a option" where
  "lwip_assert b x = (if b then Some x else None)"

section \<open>Protection: sockets.c\<close>

definition sys_arch_protect :: "net \<Rightarrow> u32 \<times> net" where
  "sys_arch_protect n =
     (critical_nesting n,
      n\<lparr>kernel := vPortEnterCritical (kernel n), critical_nesting := critical_nesting n + 1\<rparr>)"

definition sys_arch_unprotect :: "u32 \<Rightarrow> net \<Rightarrow> net option" where
  "sys_arch_unprotect pval n =
     (let n1 = n\<lparr>critical_nesting := critical_nesting n - 1\<rparr>
      in lwip_assert (pval = critical_nesting n1) (n1\<lparr>kernel := vPortExitCritical (kernel n1)\<rparr>))"

section \<open>The heap: mem.c\<close>

definition lwip_mem_align :: "u32 \<Rightarrow> u32" where
  "lwip_mem_align a = (a + 3) AND NOT 3"

definition mem_init :: "net \<Rightarrow> net" where "mem_init n = n"

definition mem_trim :: "u32 \<Rightarrow> u32 \<Rightarrow> u32" where "mem_trim m sz = m"

definition mem_malloc :: "(u32 \<Rightarrow> os \<Rightarrow> u32) \<Rightarrow> u32 \<Rightarrow> net \<Rightarrow> (u32 \<times> net) option" where
  "mem_malloc malloc sz n =
     (let (ret, k) = pvPortMalloc malloc sz (kernel n)
      in if ret = 0 then Some (ret, n\<lparr>kernel := k\<rparr>)
         else lwip_assert (lwip_mem_align ret = ret) (ret, n\<lparr>kernel := k\<rparr>))"

definition mem_free :: "u32 \<Rightarrow> net \<Rightarrow> net option" where
  "mem_free rmem n =
     (if rmem \<noteq> 0 \<and> rmem = lwip_mem_align rmem then Some (n\<lparr>kernel := vPortFree rmem (kernel n)\<rparr>) else None)"

text \<open>The guard bytes before and after a pool element.\<close>

definition mem_overflow_check_raw :: "u32 \<Rightarrow> u32 \<Rightarrow> net \<Rightarrow> bool" where
  "mem_overflow_check_raw p sz n \<longleftrightarrow>
     (\<forall>k \<in> set [0..<16]. net_mem n (p + sz + of_nat k) = 0xcd) \<and>
     (\<forall>k \<in> set [0..<16]. net_mem n (p - 16 + of_nat k) = 0xcd)"

section \<open>Pools: memp.c\<close>

datatype memp_t = MEMP_NETBUF | MEMP_NETCONN | MEMP_PBUF | MEMP_PBUF_POOL

definition MEMP_SIZE :: u32 where "MEMP_SIZE = 28"

text \<open>The descriptors of the pools are the library's; \<open>psize\<close> gives an element's size.\<close>

definition do_memp_free_pool :: "(memp_t \<Rightarrow> u16) \<Rightarrow> memp_t \<Rightarrow> u32 \<Rightarrow> net \<Rightarrow> net option" where
  "do_memp_free_pool psize desc m n =
     do {
       let memp = m - MEMP_SIZE;
       let (old_level, n1) = sys_arch_protect n;
       n2 \<leftarrow> lwip_assert (mem_overflow_check_raw (memp + MEMP_SIZE) (ucast (psize desc)) n1) n1;
       n3 \<leftarrow> sys_arch_unprotect old_level n2;
       mem_free memp n3
     }"

definition memp_free :: "(memp_t \<Rightarrow> u16) \<Rightarrow> memp_t \<Rightarrow> u32 \<Rightarrow> net \<Rightarrow> net option" where
  "memp_free psize type m n = (if m = 0 then Some n else do_memp_free_pool psize type m n)"

section \<open>Error codes: err.h, err.c\<close>

definition ERR_OK :: u8 where "ERR_OK = 0"
definition ERR_MEM :: u8 where "ERR_MEM = - 1"
definition ERR_TIMEOUT :: u8 where "ERR_TIMEOUT = - 3"
definition ERR_VAL :: u8 where "ERR_VAL = - 6"
definition ERR_WOULDBLOCK :: u8 where "ERR_WOULDBLOCK = - 7"
definition ERR_CONN :: u8 where "ERR_CONN = - 11"
definition ERR_IF :: u8 where "ERR_IF = - 12"
definition ERR_RST :: u8 where "ERR_RST = - 14"
definition ERR_CLSD :: u8 where "ERR_CLSD = - 15"
definition ERR_ARG :: u8 where "ERR_ARG = - 16"

definition EIO :: u32 where "EIO = 5"
definition EBADF :: u32 where "EBADF = 9"
definition EMSGSIZE :: u32 where "EMSGSIZE = 90"

text \<open>ENOMEM, ENOBUFS, EWOULDBLOCK, EHOSTUNREACH, EINPROGRESS, EINVAL, EWOULDBLOCK, EADDRINUSE,
  EALREADY, EISCONN, ENOTCONN, -1, ECONNABORTED, ECONNRESET, ENOTCONN and EIO after the success.\<close>

definition err_to_errno_table :: "u32 list" where
  "err_to_errno_table = [0, 12, 105, 11, 113, 115, 22, 11, 98, 114, 106, 107, - 1, 103, 104, 107, 5]"

text \<open>An error code is a signed byte; it is negated after promotion to \<open>int\<close>.\<close>

definition err_to_errno :: "u8 \<Rightarrow> u32" where
  "err_to_errno err =
     (if sint err > 0 \<or> - sint err \<ge> int (length err_to_errno_table) then EIO
      else err_to_errno_table ! nat (- sint err))"

text \<open>\<open>set_errno\<close> never clears \<open>errno\<close>; \<open>sock_set_errno\<close> is the same.\<close>

definition set_errno :: "u32 \<Rightarrow> net \<Rightarrow> net" where
  "set_errno e n = (if e \<noteq> 0 then n\<lparr>errno := e\<rparr> else n)"

end
