(* ===== verification/Lwip_Pbuf.thy ===== *)
theory Lwip_Pbuf
  imports Lwip_State
begin

unbundle bit_operations_syntax

text \<open>
  Packet buffers and network buffers: \<^verbatim>\<open>src/ffi/lwip/pbuf.c\<close> and \<^verbatim>\<open>netbuf.c\<close>. A freed buffer is
  gone from the map, so that a later use of its address has no result.
\<close>

section \<open>Freeing: pbuf.c\<close>

definition PBUF_TYPE_ALLOC_SRC_MASK :: u8 where "PBUF_TYPE_ALLOC_SRC_MASK = 0x0F"
definition SRC_STD_HEAP :: u8 where "SRC_STD_HEAP = 0x00"
definition SRC_STD_MEMP_PBUF :: u8 where "SRC_STD_MEMP_PBUF = 0x01"
definition SRC_STD_MEMP_PBUF_POOL :: u8 where "SRC_STD_MEMP_PBUF_POOL = 0x02"
definition SRC_ESP_RX :: u8 where "SRC_ESP_RX = 0x03"

definition pbuf_get_allocsrc :: "pbuf \<Rightarrow> u8" where
  "pbuf_get_allocsrc b = pb_type_internal b AND PBUF_TYPE_ALLOC_SRC_MASK"

text \<open>The vendor's \<open>system_pp_recycle_rx_pkt\<close> takes the buffer; the state records it.\<close>

definition pp_recycle_rx_pbuf :: "u32 \<Rightarrow> net \<Rightarrow> net option" where
  "pp_recycle_rx_pbuf p n =
     do {
       b \<leftarrow> pbufs n p;
       n1 \<leftarrow> lwip_assert (pb_esf_buf b \<noteq> 0) (n\<lparr>recycled := recycled n @ [pb_esf_buf b]\<rparr>);
       let n2 = n1\<lparr>kernel := vPortEnterCritical (kernel n1)\<rparr>;
       n3 \<leftarrow> lwip_assert (pp_rx_pool_usage n2 > 0) (n2\<lparr>pp_rx_pool_usage := pp_rx_pool_usage n2 - 1\<rparr>);
       Some (n3\<lparr>kernel := vPortExitCritical (kernel n3)\<rparr>)
     }"

definition pbuf_dealloc :: "(memp_t \<Rightarrow> u16) \<Rightarrow> u8 \<Rightarrow> u32 \<Rightarrow> net \<Rightarrow> net option" where
  "pbuf_dealloc psize alloc_src p n =
     do {
       n1 \<leftarrow> (if alloc_src = SRC_STD_MEMP_PBUF_POOL then memp_free psize MEMP_PBUF_POOL p n
               else if alloc_src = SRC_STD_MEMP_PBUF then memp_free psize MEMP_PBUF p n
               else if alloc_src = SRC_STD_HEAP then mem_free p n
               else if alloc_src = SRC_ESP_RX
               then do { n' \<leftarrow> pp_recycle_rx_pbuf p n; memp_free psize MEMP_PBUF p n' }
               else None);
       Some (n1\<lparr>pbufs := (pbufs n1)(p := None)\<rparr>)
     }"

partial_function (option) pbuf_free_loop :: "(memp_t \<Rightarrow> u16) \<Rightarrow> u8 \<Rightarrow> u32 \<Rightarrow> net \<Rightarrow> (u8 \<times> net) option" where
  "pbuf_free_loop psize cnt p n =
     (if p = 0 then Some (cnt, n)
      else do {
        let (old_level, n1) = sys_arch_protect n;
        n2 \<leftarrow> upd_pbuf p (\<lambda>b. b\<lparr>pb_ref := pb_ref b - 1\<rparr>) n1;
        b \<leftarrow> pbufs n2 p;
        n3 \<leftarrow> sys_arch_unprotect old_level n2;
        (if pb_ref b = 0
         then do {
           n4 \<leftarrow> pbuf_dealloc psize (pbuf_get_allocsrc b) p n3;
           pbuf_free_loop psize (cnt + 1) (pb_next b) n4
         }
         else Some (cnt, n3))
      })"

definition pbuf_free :: "(memp_t \<Rightarrow> u16) \<Rightarrow> u32 \<Rightarrow> net \<Rightarrow> (u8 \<times> net) option" where
  "pbuf_free psize p n = (if p = 0 then Some (0, n) else pbuf_free_loop psize 0 p n)"

section \<open>Copying out\<close>

partial_function (option) copy_partial_loop ::
    "(u32 \<rightharpoonup> pbuf) \<Rightarrow> u32 \<Rightarrow> u32 \<Rightarrow> u16 \<Rightarrow> u16 \<Rightarrow> u16 \<Rightarrow> u16 \<Rightarrow> (u32 \<Rightarrow> u8) \<Rightarrow> (u16 \<times> (u32 \<Rightarrow> u8)) option" where
  "copy_partial_loop P dataptr p len offset left copied_total m =
     (if len \<noteq> 0 \<and> p \<noteq> 0
      then do {
        b \<leftarrow> P p;
        (if offset \<noteq> 0 \<and> offset \<ge> pb_len b
         then copy_partial_loop P dataptr (pb_next b) len (offset - pb_len b) left copied_total m
         else (let l0 = pb_len b - offset;
                   buf_copy_len = (if l0 > len then len else l0)
               in copy_partial_loop P dataptr (pb_next b) (len - buf_copy_len) 0
                    (left + buf_copy_len) (copied_total + buf_copy_len)
                    (memcpy_bytes (dataptr + ucast left) (pb_payload b + ucast offset) (ucast buf_copy_len) m)))
      }
      else Some (copied_total, m))"

definition pbuf_copy_partial :: "u32 \<Rightarrow> u32 \<Rightarrow> u16 \<Rightarrow> u16 \<Rightarrow> net \<Rightarrow> (u16 \<times> net) option" where
  "pbuf_copy_partial buf dataptr len offset n =
     (if buf = 0 \<or> dataptr = 0 then None
      else do {
        (r, m) \<leftarrow> copy_partial_loop (pbufs n) dataptr buf len offset 0 0 (net_mem n);
        Some (r, n\<lparr>kernel := (kernel n)\<lparr>mem := m\<rparr>\<rparr>)
      })"

section \<open>Cutting off the front\<close>

definition pbuf_remove_header :: "u32 \<Rightarrow> u32 \<Rightarrow> net \<Rightarrow> (u8 \<times> net) option" where
  "pbuf_remove_header p header_size_decrement n =
     (if p = 0 then None
      else if header_size_decrement > 0xFFFF then Some (1, n)
      else if header_size_decrement = 0 then Some (0, n)
      else do {
        let increment_magnitude = (ucast header_size_decrement :: u16);
        b \<leftarrow> pbufs n p;
        (if \<not> increment_magnitude \<le> pb_len b then None
         else do {
           n1 \<leftarrow> upd_pbuf p (\<lambda>b. b\<lparr>pb_payload := pb_payload b + header_size_decrement,
                     pb_len := pb_len b - increment_magnitude,
                     pb_tot_len := pb_tot_len b - increment_magnitude\<rparr>) n;
           Some (0, n1)
         })
      })"

partial_function (option) free_header_loop :: "(memp_t \<Rightarrow> u16) \<Rightarrow> u32 \<Rightarrow> u16 \<Rightarrow> net \<Rightarrow> (u32 \<times> net) option" where
  "free_header_loop psize p free_left n =
     (if free_left \<noteq> 0 \<and> p \<noteq> 0
      then do {
        b \<leftarrow> pbufs n p;
        (if free_left \<ge> pb_len b
         then do {
           n1 \<leftarrow> upd_pbuf p (\<lambda>b. b\<lparr>pb_next := 0\<rparr>) n;
           (_, n2) \<leftarrow> pbuf_free psize p n1;
           free_header_loop psize (pb_next b) (free_left - pb_len b) n2
         }
         else do { (_, n1) \<leftarrow> pbuf_remove_header p (ucast free_left) n; free_header_loop psize p 0 n1 })
      }
      else Some (p, n))"

definition pbuf_free_header :: "(memp_t \<Rightarrow> u16) \<Rightarrow> u32 \<Rightarrow> u16 \<Rightarrow> net \<Rightarrow> (u32 \<times> net) option" where
  "pbuf_free_header psize q sz n = free_header_loop psize q sz n"

end
