(* ===== verification/Lwip_Chain.thy ===== *)
theory Lwip_Chain
  imports Lwip_Pbuf
begin

unbundle bit_operations_syntax

text \<open>Chains of packet buffers as lists of addresses, what they carry, and what the operations do to them.\<close>

section \<open>Chains\<close>

fun chain :: "(u32 \<rightharpoonup> pbuf) \<Rightarrow> u32 \<Rightarrow> u32 list \<Rightarrow> bool" where
  "chain P p [] \<longleftrightarrow> p = 0"
| "chain P p (a # as) \<longleftrightarrow> p = a \<and> a \<noteq> 0 \<and> (\<exists>b. P a = Some b \<and> chain P (pb_next b) as)"

abbreviation at :: "(u32 \<rightharpoonup> pbuf) \<Rightarrow> u32 \<Rightarrow> pbuf" where "at P a \<equiv> the (P a)"

lemma chain_unique: "chain P p as \<Longrightarrow> chain P p bs \<Longrightarrow> as = bs"
proof (induction as arbitrary: p bs)
  case Nil
  then show ?case by (cases bs) auto
next
  case (Cons a as)
  then show ?case by (cases bs) auto
qed

lemma bufs_append: "chain P p (xs @ a # ys) \<Longrightarrow> chain P a (a # ys)"
  by (induction xs arbitrary: p) auto

lemma chain_distinct: "chain P p as \<Longrightarrow> distinct as"
proof (induction as arbitrary: p)
  case (Cons a as)
  have "a \<notin> set as"
  proof
    assume "a \<in> set as"
    then obtain xs ys where e: "as = xs @ a # ys" by (auto simp: in_set_conv_decomp)
    have "chain P a (a # ys)" using Cons.prems e bufs_append[of P p "a # xs" a ys] by simp
    moreover have "chain P a (a # as)" using Cons.prems by simp
    ultimately have "a # ys = a # as" by (rule chain_unique)
    then show False using e by simp
  qed
  then show ?case using Cons by auto
qed simp

lemma bufs_cong: "(\<And>a. a \<in> set as \<Longrightarrow> Q a = P a) \<Longrightarrow> chain Q p as = chain P p as"
proof (induction as arbitrary: p)
  case (Cons a as)
  then have "Q a = P a" "\<And>p. chain Q p as = chain P p as" by auto
  then show ?case by simp
qed simp

lemma chain_present: "chain P p as \<Longrightarrow> a \<in> set as \<Longrightarrow> \<exists>b. P a = Some b"
  by (induction as arbitrary: p) auto

lemma chain_nonzero: "chain P p as \<Longrightarrow> a \<in> set as \<Longrightarrow> a \<noteq> 0"
  by (induction as arbitrary: p) auto

lemma chain_head: "chain P p as \<Longrightarrow> p = 0 \<longleftrightarrow> as = []"
  by (cases as) auto

text \<open>The bytes of a buffer, and those of a chain; the total lengths are right when every buffer's is
  its own length plus that of the rest.\<close>

definition bytes_at :: "(u32 \<Rightarrow> u8) \<Rightarrow> u32 \<Rightarrow> nat \<Rightarrow> u8 list" where
  "bytes_at m a k = map (\<lambda>i. m (a + of_nat i)) [0..<k]"

definition payload :: "(u32 \<Rightarrow> u8) \<Rightarrow> pbuf \<Rightarrow> u8 list" where
  "payload m b = bytes_at m (pb_payload b) (unat (pb_len b))"

definition chain_data :: "(u32 \<rightharpoonup> pbuf) \<Rightarrow> (u32 \<Rightarrow> u8) \<Rightarrow> u32 list \<Rightarrow> u8 list" where
  "chain_data P m as = concat (map (\<lambda>a. payload m (at P a)) as)"

fun lengths_ok :: "(u32 \<rightharpoonup> pbuf) \<Rightarrow> u32 list \<Rightarrow> bool" where
  "lengths_ok P [] \<longleftrightarrow> True"
| "lengths_ok P (a # as) \<longleftrightarrow> unat (pb_tot_len (at P a)) = sum_list (map (\<lambda>a. unat (pb_len (at P a))) (a # as))
     \<and> lengths_ok P as"

lemma payload_length [simp]: "length (payload m b) = unat (pb_len b)"
  by (simp add: payload_def bytes_at_def)

lemma chain_data_simps [simp]:
  "chain_data P m [] = []" "chain_data P m (a # as) = payload m (at P a) @ chain_data P m as"
  by (simp_all add: chain_data_def)

lemma chain_data_length: "length (chain_data P m as) = sum_list (map (\<lambda>a. unat (pb_len (at P a))) as)"
  by (induction as) simp_all

lemma chain_data_cong:
  "(\<And>a. a \<in> set as \<Longrightarrow> payload m' (at Q a) = payload m (at P a)) \<Longrightarrow> chain_data Q m' as = chain_data P m as"
  unfolding chain_data_def by (rule arg_cong[where f = concat]) (rule map_cong; simp)

lemma lengths_ok_cong:
  "(\<And>a. a \<in> set as \<Longrightarrow> pb_tot_len (at Q a) = pb_tot_len (at P a) \<and> pb_len (at Q a) = pb_len (at P a))
     \<Longrightarrow> lengths_ok Q as = lengths_ok P as"
proof (induction as)
  case (Cons a as)
  have "(\<Sum>a\<leftarrow>as. unat (pb_len (at Q a))) = (\<Sum>a\<leftarrow>as. unat (pb_len (at P a)))"
    by (rule arg_cong[where f = sum_list]) (rule map_cong; use Cons.prems in auto)
  then show ?case using Cons by simp
qed simp

lemma lengths_ok_total:
  "lengths_ok P (a # as) \<Longrightarrow> unat (pb_tot_len (at P a)) = length (chain_data P m (a # as))"
  by (simp add: chain_data_length)

section \<open>What freeing leaves alone\<close>

text \<open>\<open>same_net n n'\<close>: only packet buffers, their accounting and the heap log differ.\<close>

definition same_net :: "net \<Rightarrow> net \<Rightarrow> bool" where
  "same_net n n' \<longleftrightarrow> (\<exists>h. kernel n' = (kernel n)\<lparr>heap_log := h\<rparr>) \<and> critical_nesting n' = critical_nesting n
     \<and> netbufs n' = netbufs n \<and> netconns n' = netconns n \<and> sockets n' = sockets n \<and> errno n' = errno n
     \<and> mcasts4 n' = mcasts4 n \<and> mcasts6 n' = mcasts6 n"

lemma same_net_refl: "same_net n n"
  by (auto simp: same_net_def intro: exI[of _ "heap_log (kernel n)"])

lemma same_net_trans: "same_net a b \<Longrightarrow> same_net b c \<Longrightarrow> same_net a c"
  by (auto simp: same_net_def)

lemma same_net_mem: "same_net n n' \<Longrightarrow> net_mem n' = net_mem n"
  by (auto simp: same_net_def)

lemma same_net_pbufs: "same_net n (n\<lparr>pbufs := P\<rparr>)"
  by (auto simp: same_net_def intro: exI[of _ "heap_log (kernel n)"])

lemma exit_enter: "vPortExitCritical (vPortEnterCritical k\<lparr>mem := m\<rparr>) = k\<lparr>mem := m\<rparr>"
  "vPortExitCritical (vPortEnterCritical k) = k"
  by (simp_all add: vPortExitCritical_def vPortEnterCritical_def)

lemma protected:
  "sys_arch_unprotect (critical_nesting n) (n\<lparr>kernel := vPortEnterCritical (kernel n),
     critical_nesting := critical_nesting n + 1, pbufs := P\<rparr>) = Some (n\<lparr>pbufs := P\<rparr>)"
  by (simp add: sys_arch_unprotect_def lwip_assert_def exit_enter)

section \<open>Releasing one buffer\<close>

definition on_heap :: "u32 \<Rightarrow> bool" where
  "on_heap a \<longleftrightarrow> a \<noteq> 0 \<and> a = lwip_mem_align a"

definition in_pool :: "(memp_t \<Rightarrow> u16) \<Rightarrow> memp_t \<Rightarrow> (u32 \<Rightarrow> u8) \<Rightarrow> u32 \<Rightarrow> bool" where
  "in_pool psize t m a \<longleftrightarrow> a \<noteq> 0 \<and> on_heap (a - MEMP_SIZE)
     \<and> (\<forall>k \<in> set [0..<16]. m (a + ucast (psize t) + of_nat k) = 0xcd) \<and> (\<forall>k \<in> set [0..<16]. m (a - 16 + of_nat k) = 0xcd)"

definition releasable :: "(memp_t \<Rightarrow> u16) \<Rightarrow> (u32 \<Rightarrow> u8) \<Rightarrow> (u32 \<rightharpoonup> pbuf) \<Rightarrow> u32 \<Rightarrow> bool" where
  "releasable psize m P a \<longleftrightarrow>
     (let src = pbuf_get_allocsrc (at P a) in
      src = SRC_STD_HEAP \<and> on_heap a
      \<or> src = SRC_STD_MEMP_PBUF \<and> in_pool psize MEMP_PBUF m a
      \<or> src = SRC_STD_MEMP_PBUF_POOL \<and> in_pool psize MEMP_PBUF_POOL m a
      \<or> src = SRC_ESP_RX \<and> in_pool psize MEMP_PBUF m a \<and> pb_esf_buf (at P a) \<noteq> 0)"

definition rx_count :: "(u32 \<rightharpoonup> pbuf) \<Rightarrow> u32 list \<Rightarrow> nat" where
  "rx_count P as = length (filter (\<lambda>a. pbuf_get_allocsrc (at P a) = SRC_ESP_RX) as)"

lemmas src_defs = SRC_STD_HEAP_def SRC_STD_MEMP_PBUF_def SRC_STD_MEMP_PBUF_POOL_def SRC_ESP_RX_def

lemma memp_free_ok:
  assumes "in_pool psize t (net_mem n) a"
  shows "memp_free psize t a n = Some (n\<lparr>kernel := vPortFree (a - MEMP_SIZE) (kernel n)\<rparr>)"
proof -
  have "mem_overflow_check_raw a (ucast (psize t)) (snd (sys_arch_protect n))"
    using assms by (simp add: mem_overflow_check_raw_def in_pool_def sys_arch_protect_def vPortEnterCritical_def)
  moreover have "sys_arch_unprotect (fst (sys_arch_protect n)) (snd (sys_arch_protect n)) = Some n"
    using protected[of n "pbufs n"] by (simp add: sys_arch_protect_def)
  ultimately show ?thesis using assms
    by (auto simp: memp_free_def do_memp_free_pool_def Let_def in_pool_def on_heap_def mem_free_def
        lwip_assert_def split: prod.splits)
qed

lemma dealloc_ok:
  assumes "releasable psize (net_mem n) (pbufs n) a" and "pbufs n a = Some b"
    and "rx_count (pbufs n) [a] \<le> unat (pp_rx_pool_usage n)"
  obtains n' where "pbuf_dealloc psize (pbuf_get_allocsrc b) a n = Some n'" and "same_net n n'"
    and "pbufs n' = (pbufs n)(a := None)"
    and "unat (pp_rx_pool_usage n') = unat (pp_rx_pool_usage n) - rx_count (pbufs n) [a]"
proof -
  consider "pbuf_get_allocsrc b = SRC_STD_HEAP" "on_heap a"
    | "pbuf_get_allocsrc b = SRC_STD_MEMP_PBUF" "in_pool psize MEMP_PBUF (net_mem n) a"
    | "pbuf_get_allocsrc b = SRC_STD_MEMP_PBUF_POOL" "in_pool psize MEMP_PBUF_POOL (net_mem n) a"
    | "pbuf_get_allocsrc b = SRC_ESP_RX" "in_pool psize MEMP_PBUF (net_mem n) a" "pb_esf_buf b \<noteq> 0"
    using assms(1,2) by (auto simp: releasable_def Let_def)
  then show ?thesis
  proof cases
    case 1
    then show ?thesis using assms(2)
      by (intro that[of "n\<lparr>kernel := vPortFree a (kernel n), pbufs := (pbufs n)(a := None)\<rparr>"])
        (auto simp: pbuf_dealloc_def src_defs mem_free_def on_heap_def same_net_def vPortFree_def rx_count_def)
  next
    case 2
    then show ?thesis using assms(2) memp_free_ok[OF 2(2)]
      by (intro that[of "n\<lparr>kernel := vPortFree (a - MEMP_SIZE) (kernel n), pbufs := (pbufs n)(a := None)\<rparr>"])
        (auto simp: pbuf_dealloc_def src_defs same_net_def vPortFree_def rx_count_def)
  next
    case 3
    then show ?thesis using assms(2) memp_free_ok[OF 3(2)]
      by (intro that[of "n\<lparr>kernel := vPortFree (a - MEMP_SIZE) (kernel n), pbufs := (pbufs n)(a := None)\<rparr>"])
        (auto simp: pbuf_dealloc_def src_defs same_net_def vPortFree_def rx_count_def)
  next
    case 4
    let ?n = "n\<lparr>recycled := recycled n @ [pb_esf_buf b], pp_rx_pool_usage := pp_rx_pool_usage n - 1\<rparr>"
    have u: "pp_rx_pool_usage n > 0" using assms(2,3) 4(1) by (simp add: rx_count_def word_less_nat_alt)
    have "pp_recycle_rx_pbuf a n = Some ?n"
      using assms(2) 4(3) u by (simp add: pp_recycle_rx_pbuf_def lwip_assert_def exit_enter Let_def)
    moreover have "memp_free psize MEMP_PBUF a ?n = Some (?n\<lparr>kernel := vPortFree (a - MEMP_SIZE) (kernel ?n)\<rparr>)"
      by (rule memp_free_ok) (use 4(2) in simp)
    moreover have "unat (pp_rx_pool_usage n - 1) = unat (pp_rx_pool_usage n) - 1"
      using u by (simp add: unat_minus_one)
    ultimately show ?thesis using assms(2) 4(1)
      by (intro that[of "?n\<lparr>kernel := vPortFree (a - MEMP_SIZE) (kernel ?n), pbufs := (pbufs n)(a := None)\<rparr>"])
        (auto simp: pbuf_dealloc_def src_defs same_net_def vPortFree_def rx_count_def)
  qed
qed

section \<open>Freeing a chain\<close>

text \<open>The buffers that \<open>pbuf_free\<close> deallocates: from the head, those with one reference left.\<close>

definition last_refs :: "(u32 \<rightharpoonup> pbuf) \<Rightarrow> u32 list \<Rightarrow> u32 list" where
  "last_refs P as = takeWhile (\<lambda>a. pb_ref (at P a) = 1) as"

definition freed :: "(u32 \<rightharpoonup> pbuf) \<Rightarrow> u32 list \<Rightarrow> (u32 \<rightharpoonup> pbuf)" where
  "freed P as = (\<lambda>x. if x \<in> set (last_refs P as) then None
     else if \<exists>a r. drop (length (last_refs P as)) as = a # r \<and> x = a
     then map_option (\<lambda>b. b\<lparr>pb_ref := pb_ref b - 1\<rparr>) (P x) else P x)"

lemma upd_pbuf_eq: "pbufs n p = Some b \<Longrightarrow> upd_pbuf p f n = Some (n\<lparr>pbufs := (pbufs n)(p \<mapsto> f b)\<rparr>)"
  by (simp add: upd_pbuf_def)

lemma last_refs_Cons: "last_refs P (a # as) = (if pb_ref (at P a) = 1 then a # last_refs P as else [])"
  by (simp add: last_refs_def)

lemma last_refs_cong: "(\<And>a. a \<in> set as \<Longrightarrow> Q a = P a) \<Longrightarrow> last_refs Q as = last_refs P as"
  unfolding last_refs_def by (rule takeWhile_cong) simp_all

lemma last_refs_subset: "set (last_refs P as) \<subseteq> set as"
  by (auto simp: last_refs_def dest: set_takeWhileD)

lemma freed_step:
  assumes "pb_ref (at P a) = 1" and "a \<notin> set as"
  shows "freed (P(a := None)) as = freed P (a # as)"
proof -
  have l: "last_refs (P(a := None)) as = last_refs P as" by (rule last_refs_cong) (use assms(2) in auto)
  have "x \<noteq> a" if "drop k as = x # r" for x r k
    using assms(2) that by (metis in_set_dropD list.set_intros(1))
  then show ?thesis
    using assms last_refs_subset[of P as] by (auto simp: freed_def l last_refs_Cons fun_eq_iff)
qed

lemma rx_count_Cons: "rx_count P (a # as) = rx_count P [a] + rx_count P as"
  by (simp add: rx_count_def)

lemma rx_count_cong: "(\<And>a. a \<in> set as \<Longrightarrow> Q a = P a) \<Longrightarrow> rx_count Q as = rx_count P as"
  unfolding rx_count_def by (rule arg_cong[where f = length]) (rule filter_cong; simp)

lemma releasable_cong: "Q a = P a \<Longrightarrow> releasable psize m Q a = releasable psize m P a"
  by (simp add: releasable_def)

lemma free_loop_spec:
  assumes "chain (pbufs n) p as" and "\<And>a. a \<in> set as \<Longrightarrow> releasable psize (net_mem n) (pbufs n) a"
    and "rx_count (pbufs n) as \<le> unat (pp_rx_pool_usage n)"
  shows "\<exists>n'. pbuf_free_loop psize c p n = Some (c + of_nat (length (last_refs (pbufs n) as)), n')
     \<and> same_net n n' \<and> pbufs n' = freed (pbufs n) as
     \<and> unat (pp_rx_pool_usage n') = unat (pp_rx_pool_usage n) - rx_count (pbufs n) (last_refs (pbufs n) as)"
  using assms
proof (induction as arbitrary: c p n)
  case Nil
  then show ?case by (subst pbuf_free_loop.simps) (simp add: last_refs_def freed_def same_net_refl rx_count_def)
next
  case (Cons a as)
  obtain b where b: "p = a" "a \<noteq> 0" "pbufs n a = Some b" "chain (pbufs n) (pb_next b) as"
    using Cons.prems(1) by auto
  have nin: "a \<notin> set as" using chain_distinct[OF Cons.prems(1)] by simp
  let ?b = "b\<lparr>pb_ref := pb_ref b - 1\<rparr>"
  let ?P = "(pbufs n)(a \<mapsto> ?b)"
  have pr: "sys_arch_protect n = (critical_nesting n, n\<lparr>kernel := vPortEnterCritical (kernel n),
      critical_nesting := critical_nesting n + 1\<rparr>)" by (simp add: sys_arch_protect_def)
  have up: "upd_pbuf a (\<lambda>b. b\<lparr>pb_ref := pb_ref b - 1\<rparr>) (n\<lparr>kernel := vPortEnterCritical (kernel n),
      critical_nesting := critical_nesting n + 1\<rparr>) = Some (n\<lparr>kernel := vPortEnterCritical (kernel n),
      critical_nesting := critical_nesting n + 1, pbufs := ?P\<rparr>)"
    using upd_pbuf_eq[of "n\<lparr>kernel := vPortEnterCritical (kernel n), critical_nesting := critical_nesting n + 1\<rparr>" a b]
      b(3) by simp
  note un = protected[of n ?P]
  show ?case
  proof (cases "pb_ref b = 1")
    case False
    then have "pbuf_free_loop psize c p n = Some (c, n\<lparr>pbufs := ?P\<rparr>)"
      by (subst pbuf_free_loop.simps) (simp add: b(1,2) pr up un)
    moreover have "freed (pbufs n) (a # as) = ?P"
      using False b(3) by (auto simp: freed_def last_refs_Cons fun_eq_iff)
    ultimately show ?thesis using False b(3) by (simp add: last_refs_Cons same_net_pbufs rx_count_def fun_upd_def)
  next
    case True
    let ?n = "n\<lparr>pbufs := ?P\<rparr>"
    have rel: "releasable psize (net_mem ?n) (pbufs ?n) a" "rx_count (pbufs ?n) [a] = rx_count (pbufs n) [a]"
      using Cons.prems(2)[of a] b(3) by (simp_all add: releasable_def pbuf_get_allocsrc_def rx_count_def)
    have z: "pb_ref b - 1 = 0" using True by simp
    have le: "rx_count (pbufs ?n) [a] \<le> unat (pp_rx_pool_usage ?n)"
      using Cons.prems(3) rel(2) rx_count_Cons[of "pbufs n" a as] by simp
    obtain n4 where n4: "pbuf_dealloc psize (pbuf_get_allocsrc ?b) a ?n = Some n4" "same_net ?n n4"
      "pbufs n4 = (pbufs ?n)(a := None)"
      "unat (pp_rx_pool_usage n4) = unat (pp_rx_pool_usage ?n) - rx_count (pbufs ?n) [a]"
      by (rule dealloc_ok[OF rel(1) _ le, of ?b]) simp_all
    have P4: "pbufs n4 = (pbufs n)(a := None)" using n4(3) by simp
    have eq: "pbufs n4 x = pbufs n x" if "x \<in> set as" for x using P4 that nin by auto
    have mem4: "net_mem n4 = net_mem n" using same_net_mem[OF n4(2)] by simp
    have "\<exists>n'. pbuf_free_loop psize (c + 1) (pb_next b) n4 = Some (c + 1 + of_nat (length (last_refs (pbufs n4) as)), n')
       \<and> same_net n4 n' \<and> pbufs n' = freed (pbufs n4) as
       \<and> unat (pp_rx_pool_usage n') = unat (pp_rx_pool_usage n4) - rx_count (pbufs n4) (last_refs (pbufs n4) as)"
    proof (rule Cons.IH)
      show "chain (pbufs n4) (pb_next b) as" using b(4) bufs_cong[of as "pbufs n4" "pbufs n"] eq by simp
      show "releasable psize (net_mem n4) (pbufs n4) x" if "x \<in> set as" for x
        using Cons.prems(2)[of x] releasable_cong[where Q = "pbufs n4" and P = "pbufs n", OF eq[OF that]] that mem4 by simp
      have "rx_count (pbufs n4) as = rx_count (pbufs n) as" by (rule rx_count_cong) (rule eq)
      then show "rx_count (pbufs n4) as \<le> unat (pp_rx_pool_usage n4)"
        using Cons.prems(3) n4(4) rel(2) rx_count_Cons[of "pbufs n" a as] by simp
    qed
    then obtain n' where n': "pbuf_free_loop psize (c + 1) (pb_next b) n4
        = Some (c + 1 + of_nat (length (last_refs (pbufs n4) as)), n')" "same_net n4 n'"
      "pbufs n' = freed (pbufs n4) as"
      "unat (pp_rx_pool_usage n') = unat (pp_rx_pool_usage n4) - rx_count (pbufs n4) (last_refs (pbufs n4) as)"
      by blast
    have lr: "last_refs (pbufs n4) as = last_refs (pbufs n) as" by (rule last_refs_cong) (rule eq)
    have rc: "rx_count (pbufs n4) (last_refs (pbufs n) as) = rx_count (pbufs n) (last_refs (pbufs n) as)"
      by (rule rx_count_cong) (use eq last_refs_subset[of "pbufs n" as] in auto)
    have "pbuf_free_loop psize c p n = pbuf_free_loop psize (c + 1) (pb_next b) n4"
      using n4(1) True by (subst pbuf_free_loop.simps) (simp add: b(1,2) pr up un[unfolded z])
    moreover have "same_net n n'"
      by (rule same_net_trans[OF same_net_trans[OF same_net_pbufs n4(2)] n'(2)])
    moreover have "pbufs n' = freed (pbufs n) (a # as)"
      using freed_step[of "pbufs n" a as] True nin b(3) n'(3) P4 by simp
    moreover have "rx_count (pbufs n) (a # last_refs (pbufs n) as)
        = rx_count (pbufs n) [a] + rx_count (pbufs n) (last_refs (pbufs n) as)" by (rule rx_count_Cons)
    ultimately show ?thesis
      using n'(1,4) n4(4) True b(3) lr rc rel(2) by (simp add: last_refs_Cons)
  qed
qed

section \<open>Copying out\<close>

definition outside :: "u32 \<Rightarrow> u32 \<Rightarrow> nat \<Rightarrow> bool" where
  "outside x dst k \<longleftrightarrow> \<not> unat (x - dst) < k"

text \<open>No payload byte of the chain lies in the destination.\<close>

definition payloads_outside :: "(u32 \<rightharpoonup> pbuf) \<Rightarrow> u32 list \<Rightarrow> u32 \<Rightarrow> nat \<Rightarrow> bool" where
  "payloads_outside P as dst k \<longleftrightarrow>
     (\<forall>a \<in> set as. \<forall>i < unat (pb_len (at P a)). outside (pb_payload (at P a) + of_nat i) dst k)"

lemma bytes_at_drop: "j \<le> k \<Longrightarrow> drop j (bytes_at m a k) = bytes_at m (a + of_nat j) (k - j)"
  by (rule nth_equalityI) (simp_all add: bytes_at_def less_diff_conv ac_simps)

lemma bytes_at_take: "j \<le> k \<Longrightarrow> take j (bytes_at m a k) = bytes_at m a j"
  by (rule nth_equalityI) (simp_all add: bytes_at_def)

lemma bytes_at_append: "bytes_at m a (i + j) = bytes_at m a i @ bytes_at m (a + of_nat i) j"
  using bytes_at_take[of i "i + j" m a] bytes_at_drop[of i "i + j" m a]
  by (metis add_diff_cancel_left' append_take_drop_id le_add1)

lemma bytes_at_cong: "(\<And>i. i < k \<Longrightarrow> m' (a + of_nat i) = m (a + of_nat i)) \<Longrightarrow> bytes_at m' a k = bytes_at m a k"
  by (simp add: bytes_at_def)

lemma memcpy_bytes_at:
  assumes "unat k < 2 ^ 32"
  shows "bytes_at (memcpy_bytes dst src k m) dst (unat k) = bytes_at m src (unat k)"
proof -
  have "of_nat i < k" if "i < unat k" for i
    using that assms by (simp add: word_less_nat_alt unat_of_nat32)
  then show ?thesis by (simp add: bytes_at_def memcpy_bytes_def)
qed

lemma chain_data_written:
  assumes "payloads_outside P as dst k" and "\<And>x. outside x dst k \<Longrightarrow> m' x = m x"
  shows "chain_data P m' as = chain_data P m as"
  by (rule chain_data_cong)
    (use assms in \<open>auto simp: payload_def payloads_outside_def intro!: bytes_at_cong\<close>)

lemma ucast_of_nat16: "k < 2 ^ 16 \<Longrightarrow> (ucast (of_nat k :: u16) :: u32) = of_nat k"
  by (simp add: unsigned_of_nat take_bit_nat_eq_self)

lemma unat_of_nat16: "k < 2 ^ 16 \<Longrightarrow> unat (of_nat k :: u16) = k"
  by (simp add: unsigned_of_nat take_bit_nat_eq_self)

lemma unat_u16_less: "unat (x :: u16) < 2 ^ 16"
  by (rule order_less_le_trans[OF unsigned_less]) simp

lemma u16_as_nat: "(ucast (x :: u16) :: u32) = of_nat (unat x)"
  by simp

lemma unat_ucast16: "unat (ucast (x :: u16) :: u32) = unat x"
proof -
  have "unat (of_nat (unat x) :: u32) = unat x" by (rule unat_of_nat32) (use unat_u16_less[of x] in simp)
  then show ?thesis by simp
qed

lemma outside_mono: "outside x d k \<Longrightarrow> j \<le> k \<Longrightarrow> outside x d j"
  by (simp add: outside_def)

lemma outside_shift:
  assumes "outside x d (c + k)" and "c + k < 2 ^ 32"
  shows "outside x (d + of_nat c) k"
proof (rule ccontr)
  assume "\<not> outside x (d + of_nat c) k"
  then have l: "unat (x - (d + of_nat c)) < k" by (simp add: outside_def)
  have "unat (x - d) = unat ((x - (d + of_nat c)) + of_nat c)" by simp
  also have "\<dots> = unat (x - (d + of_nat c)) + c"
    using l assms(2) by (subst unat_word_ariths(1)) (simp add: unat_of_nat32)
  finally show False using assms(1) l by (simp add: outside_def)
qed

lemma payloads_outside_part:
  assumes "payloads_outside P as dst (c + l)" and "k \<le> l" and "c + l < 2 ^ 32"
  shows "payloads_outside P as (dst + of_nat c) k"
proof -
  have "outside x (dst + of_nat c) k" if "outside x dst (c + l)" for x
    by (rule outside_shift[OF outside_mono[OF that]]) (use assms in simp_all)
  then show ?thesis using assms(1) by (simp add: payloads_outside_def)
qed

lemma outside_behind: "i < j \<Longrightarrow> j + k < 2 ^ 32 \<Longrightarrow> outside (d + of_nat i) (d + of_nat j) k"
  using offset_before[of j k "d + of_nat i" d] by (simp add: outside_def unat_of_nat32)

lemma memcpy_outside:
  assumes "outside x dst (unat (k :: u16))"
  shows "memcpy_bytes dst src (ucast k) m x = m x"
proof -
  have "\<not> x - dst < ucast k" using assms by (simp add: outside_def word_less_nat_alt unat_ucast16)
  then show ?thesis by (simp add: memcpy_bytes_def)
qed

lemma memcpy_written: "bytes_at (memcpy_bytes dst src (ucast (k :: u16)) m) dst (unat k) = bytes_at m src (unat k)"
proof -
  have "of_nat i < (ucast k :: u32)" if "i < unat k" for i
    using that unat_u16_less[of k] by (simp add: word_less_nat_alt unat_of_nat32 unat_ucast16)
  then show ?thesis by (simp add: bytes_at_def memcpy_bytes_def)
qed

definition copied :: "(u32 \<rightharpoonup> pbuf) \<Rightarrow> u32 list \<Rightarrow> u32 \<Rightarrow> nat \<Rightarrow> nat \<Rightarrow> (u32 \<Rightarrow> u8) \<Rightarrow> (u32 \<Rightarrow> u8) \<Rightarrow> bool" where
  "copied P as dst k j m m' \<longleftrightarrow>
     (let r = min k (length (drop j (chain_data P m as))) in
      bytes_at m' dst r = take r (drop j (chain_data P m as)) \<and> (\<forall>x. outside x dst r \<longrightarrow> m' x = m x))"

lemma copy_loop_spec:
  assumes "chain P p as" and "payloads_outside P as dst (c + unat len)" and "c + unat len < 2 ^ 16"
  shows "\<exists>m'. copy_partial_loop P dst p len off (of_nat c) (of_nat c) m
       = Some (of_nat (c + min (unat len) (length (drop (unat off) (chain_data P m as)))), m')
     \<and> copied P as (dst + of_nat c) (unat len) (unat off) m m'"
  using assms
proof (induction as arbitrary: p c len off m)
  case Nil
  then show ?case by (subst copy_partial_loop.simps) (simp add: copied_def Let_def bytes_at_def outside_def)
next
  case (Cons a as)
  obtain b where b: "p = a" "a \<noteq> 0" "P a = Some b" "chain P (pb_next b) as" using Cons.prems(1) by auto
  have out: "payloads_outside P as dst (c + unat len)" using Cons.prems(2) by (simp add: payloads_outside_def)
  show ?case
  proof (cases "len = 0")
    case True
    then show ?thesis by (subst copy_partial_loop.simps) (simp add: copied_def Let_def bytes_at_def outside_def)
  next
    case len: False
    show ?thesis
    proof (cases "off \<noteq> 0 \<and> off \<ge> pb_len b")
      case True
      have o: "unat (off - pb_len b) = unat off - unat (pb_len b)" using True by (simp add: unat_sub)
      have d: "drop (unat off) (chain_data P m (a # as)) = drop (unat off - unat (pb_len b)) (chain_data P m as)"
        using True b(3) by (simp add: word_le_nat_alt)
      have "copy_partial_loop P dst p len off (of_nat c) (of_nat c) m
          = copy_partial_loop P dst (pb_next b) len (off - pb_len b) (of_nat c) (of_nat c) m"
        using True len b by (subst copy_partial_loop.simps) simp
      then show ?thesis
        using Cons.IH[OF b(4) out Cons.prems(3), of "off - pb_len b" m] unfolding copied_def d o by simp
    next
      case False
      let ?l = "pb_len b - off"
      define k where "k = (if ?l > len then len else ?l)"
      have off: "unat off \<le> unat (pb_len b)" "unat ?l = unat (pb_len b) - unat off"
        using False by (auto simp: word_le_nat_alt unat_sub)
      have k: "unat k = min (unat (pb_len b) - unat off) (unat len)"
        using off(2) by (auto simp: k_def word_less_nat_alt min_def)
      have kl: "unat k \<le> unat len" "unat (len - k) = unat len - unat k" using k by (auto simp: unat_sub word_le_nat_alt)
      let ?d = "dst + of_nat c" and ?m1 = "memcpy_bytes (dst + of_nat c) (pb_payload b + ucast off) (ucast k) m"
      have c16: "(ucast (of_nat c :: u16) :: u32) = of_nat c" using Cons.prems(3) by (intro ucast_of_nat16) simp
      have run: "copy_partial_loop P dst p len off (of_nat c) (of_nat c) m
          = copy_partial_loop P dst (pb_next b) (len - k) 0 (of_nat (c + unat k)) (of_nat (c + unat k)) ?m1"
        using len b by (subst copy_partial_loop.simps) (simp add: if_not_P[OF False] k_def[symmetric] Let_def c16)
      have ck: "c + unat k + unat (len - k) = c + unat len" using kl by simp
      obtain m' where m': "copy_partial_loop P dst (pb_next b) (len - k) 0 (of_nat (c + unat k)) (of_nat (c + unat k)) ?m1
          = Some (of_nat (c + unat k + min (unat (len - k)) (length (chain_data P ?m1 as))), m')"
        "copied P as (dst + of_nat (c + unat k)) (unat (len - k)) 0 ?m1 m'"
        using Cons.IH[OF b(4), of "c + unat k" "len - k" 0 ?m1] out Cons.prems(3) unfolding ck by auto
      have same: "chain_data P ?m1 as = chain_data P m as"
      proof (rule chain_data_written)
        show "payloads_outside P as ?d (unat k)"
          by (rule payloads_outside_part[OF out kl(1)]) (use Cons.prems(3) in simp)
        show "?m1 x = m x" if "outside x ?d (unat k)" for x by (rule memcpy_outside[OF that])
      qed
      define r where "r = min (unat (len - k)) (length (chain_data P m as))"
      have all: "min (unat len) (length (drop (unat off) (chain_data P m (a # as)))) = unat k + r"
        using off(1) b(3) kl by (auto simp: r_def k min_def)
      have lim: "unat k + r < 2 ^ 32" using Cons.prems(3) kl(1,2) by (auto simp: r_def)
      have w: "bytes_at m' (?d + of_nat (unat k)) r = take r (chain_data P m as)"
        and fr: "outside x (?d + of_nat (unat k)) r \<Longrightarrow> m' x = ?m1 x" for x
        using m'(2) by (auto simp: copied_def same r_def add.assoc Let_def)
      have first: "bytes_at m' ?d (unat k) = take (unat k) (drop (unat off) (payload m b))"
      proof -
        have "bytes_at m' ?d (unat k) = bytes_at ?m1 ?d (unat k)"
          by (rule bytes_at_cong) (rule fr, rule outside_behind, assumption, rule lim)
        also have "\<dots> = bytes_at m (pb_payload b + of_nat (unat off)) (unat k)"
          by (simp add: memcpy_written)
        also have "\<dots> = take (unat k) (bytes_at m (pb_payload b + of_nat (unat off)) (unat (pb_len b) - unat off))"
          by (rule bytes_at_take[symmetric]) (simp add: k)
        finally show ?thesis using bytes_at_drop[OF off(1), of m "pb_payload b"] by (simp add: payload_def)
      qed
      have "bytes_at m' ?d (unat k + r) = take (unat k + r) (drop (unat off) (chain_data P m (a # as)))"
      proof (cases "r = 0")
        case True
        then show ?thesis using first off(1) b(3) by (simp add: k)
      next
        case False
        then have ke: "unat k = unat (pb_len b) - unat off" using k kl by (auto simp: r_def)
        have "take (unat k + r) (drop (unat off) (chain_data P m (a # as)))
            = take (unat k) (drop (unat off) (payload m b)) @ take r (chain_data P m as)"
          unfolding ke using off(1) b(3) by simp
        then show ?thesis unfolding bytes_at_append[of m' ?d "unat k" r] first w by simp
      qed
      moreover have "m' x = m x" if "outside x ?d (unat k + r)" for x
        using fr[OF outside_shift[OF that lim]] memcpy_outside[OF outside_mono[OF that]] by simp
      ultimately have "copied P (a # as) ?d (unat len) (unat off) m m'"
        unfolding copied_def Let_def all by blast
      moreover have "c + unat k + r = c + (unat k + r)" by simp
      ultimately show ?thesis using run m'(1) unfolding all same r_def[symmetric] by auto
    qed
  qed
qed

lemma copy_partial_spec:
  assumes "chain (pbufs n) buf as" and "buf \<noteq> 0" and "dataptr \<noteq> 0"
    and "payloads_outside (pbufs n) as dataptr (unat len)"
    and "bs = take (unat len) (drop (unat offset) (chain_data (pbufs n) (net_mem n) as))"
  shows "\<exists>m'. pbuf_copy_partial buf dataptr len offset n
       = Some (of_nat (length bs), n\<lparr>kernel := (kernel n)\<lparr>mem := m'\<rparr>\<rparr>)
     \<and> bytes_at m' dataptr (length bs) = bs \<and> (\<forall>x. outside x dataptr (length bs) \<longrightarrow> m' x = net_mem n x)"
proof -
  let ?r = "min (unat len) (length (drop (unat offset) (chain_data (pbufs n) (net_mem n) as)))"
  have lim: "0 + unat len < 2 ^ 16" using unat_u16_less[of len] by simp
  obtain m' where m': "copy_partial_loop (pbufs n) dataptr buf len offset 0 0 (net_mem n) = Some (of_nat ?r, m')"
    "copied (pbufs n) as dataptr (unat len) (unat offset) (net_mem n) m'"
    using copy_loop_spec[OF assms(1) _ lim, of dataptr offset "net_mem n"] assms(4) by auto
  have l: "length bs = ?r" "take ?r (drop (unat offset) (chain_data (pbufs n) (net_mem n) as)) = bs" by (simp_all add: assms(5) min_def)
  have "pbuf_copy_partial buf dataptr len offset n = Some (of_nat (length bs), n\<lparr>kernel := (kernel n)\<lparr>mem := m'\<rparr>\<rparr>)"
    unfolding l(1) using m'(1) assms(2,3) by (simp add: pbuf_copy_partial_def)
  moreover have "bytes_at m' dataptr (length bs) = bs" "\<forall>x. outside x dataptr (length bs) \<longrightarrow> m' x = net_mem n x"
    unfolding l(1) using m'(2) l(2) by (simp_all add: copied_def Let_def)
  ultimately show ?thesis by blast
qed

section \<open>Chains with one owner\<close>

text \<open>
  \<open>owned psize n p as\<close>: \<open>p\<close> points to the chain \<open>as\<close>, whose lengths are right, to whose buffers nobody
  else refers, and all of which can be freed.
\<close>

definition owned :: "(memp_t \<Rightarrow> u16) \<Rightarrow> net \<Rightarrow> u32 \<Rightarrow> u32 list \<Rightarrow> bool" where
  "owned psize n p as \<longleftrightarrow> chain (pbufs n) p as \<and> lengths_ok (pbufs n) as
     \<and> (\<forall>a \<in> set as. pb_ref (at (pbufs n) a) = 1 \<and> releasable psize (net_mem n) (pbufs n) a)
     \<and> rx_count (pbufs n) as \<le> unat (pp_rx_pool_usage n)"

abbreviation data_of :: "net \<Rightarrow> u32 list \<Rightarrow> u8 list" where
  "data_of n as \<equiv> chain_data (pbufs n) (net_mem n) as"

lemma freed_single: "pb_ref (at P a) = 1 \<Longrightarrow> freed P [a] = P(a := None)"
  by (auto simp: freed_def last_refs_def fun_eq_iff)

lemma freed_all:
  assumes "\<And>a. a \<in> set as \<Longrightarrow> pb_ref (at P a) = 1"
  shows "last_refs P as = as" and "freed P as = (\<lambda>x. if x \<in> set as then None else P x)"
proof -
  show "last_refs P as = as" using assms by (simp add: last_refs_def takeWhile_eq_all_conv)
  then show "freed P as = (\<lambda>x. if x \<in> set as then None else P x)" by (simp add: freed_def fun_eq_iff)
qed

lemma owned_free:
  assumes "owned psize n p as"
  obtains c n' where "pbuf_free psize p n = Some (c, n')" and "same_net n n'"
    and "pbufs n' = (\<lambda>x. if x \<in> set as then None else pbufs n x)"
    and "unat (pp_rx_pool_usage n') = unat (pp_rx_pool_usage n) - rx_count (pbufs n) as"
proof (cases "p = 0")
  case True
  then have "as = []" using assms chain_head[of "pbufs n" p as] by (simp add: owned_def)
  then show ?thesis using True by (intro that[of 0 n]) (simp_all add: pbuf_free_def same_net_refl rx_count_def)
next
  case False
  have o: "chain (pbufs n) p as" "\<And>a. a \<in> set as \<Longrightarrow> releasable psize (net_mem n) (pbufs n) a"
    "rx_count (pbufs n) as \<le> unat (pp_rx_pool_usage n)" "\<And>a. a \<in> set as \<Longrightarrow> pb_ref (at (pbufs n) a) = 1"
    using assms by (auto simp: owned_def)
  obtain n' where "pbuf_free_loop psize 0 p n = Some (of_nat (length (last_refs (pbufs n) as)), n')" "same_net n n'"
    "pbufs n' = freed (pbufs n) as"
    "unat (pp_rx_pool_usage n') = unat (pp_rx_pool_usage n) - rx_count (pbufs n) (last_refs (pbufs n) as)"
    using free_loop_spec[OF o(1-3), of 0] by auto
  then show ?thesis using that freed_all[of as "pbufs n", OF o(4)] False by (simp add: pbuf_free_def)
qed

lemma owned_tail:
  assumes "owned psize n p (a # as)"
  shows "\<exists>b. p = a \<and> a \<noteq> 0 \<and> pbufs n a = Some b \<and> pb_ref b = 1 \<and> owned psize n (pb_next b) as \<and> a \<notin> set as
    \<and> unat (pb_tot_len b) = unat (pb_len b) + length (data_of n as) \<and> rx_count (pbufs n) [a] + rx_count (pbufs n) as \<le> unat (pp_rx_pool_usage n)"
proof -
  have "a \<notin> set as" using assms chain_distinct[of "pbufs n" p "a # as"] by (simp add: owned_def)
  then show ?thesis using assms rx_count_Cons[of "pbufs n" a as] by (auto simp: owned_def chain_data_length)
qed

lemma owned_ConsI:
  assumes "owned psize n (pb_next b) as" and "a \<noteq> 0" and "pbufs n a = Some b" and "pb_ref b = 1"
    and "releasable psize (net_mem n) (pbufs n) a" and "unat (pb_tot_len b) = unat (pb_len b) + length (data_of n as)"
    and "rx_count (pbufs n) [a] + rx_count (pbufs n) as \<le> unat (pp_rx_pool_usage n)"
  shows "owned psize n a (a # as)"
  using assms rx_count_Cons[of "pbufs n" a as] by (auto simp: owned_def chain_data_length)

text \<open>An owned chain depends only on its own buffers, the memory and the pool count.\<close>

lemma owned_cong:
  assumes "owned psize n p as" and "\<And>a. a \<in> set as \<Longrightarrow> pbufs n' a = pbufs n a" and "net_mem n' = net_mem n"
    and "rx_count (pbufs n) as \<le> unat (pp_rx_pool_usage n')"
  shows "owned psize n' p as" and "data_of n' as = data_of n as"
proof -
  have "chain (pbufs n') p as = chain (pbufs n) p as" by (rule bufs_cong) (rule assms(2))
  moreover have "lengths_ok (pbufs n') as = lengths_ok (pbufs n) as" by (rule lengths_ok_cong) (simp add: assms(2))
  moreover have "rx_count (pbufs n') as = rx_count (pbufs n) as" by (rule rx_count_cong) (rule assms(2))
  ultimately show "owned psize n' p as"
    using assms releasable_cong[where Q = "pbufs n'" and P = "pbufs n"] by (auto simp: owned_def)
  show "data_of n' as = data_of n as" unfolding assms(3) by (rule chain_data_cong) (simp add: assms(2))
qed

lemma remove_header_eq:
  assumes "pbufs n p = Some b" and "p \<noteq> 0" and "k \<noteq> 0" and "k \<le> pb_len b"
  shows "pbuf_remove_header p (ucast (k :: u16)) n = Some (0, n\<lparr>pbufs := (pbufs n)(p \<mapsto>
     b\<lparr>pb_payload := pb_payload b + ucast k, pb_len := pb_len b - k, pb_tot_len := pb_tot_len b - k\<rparr>)\<rparr>)"
proof -
  have "\<not> (ucast k :: u32) > 0xFFFF" using unat_u16_less[of k] by (simp add: word_less_nat_alt unat_ucast16)
  moreover have "(ucast k :: u32) \<noteq> 0" using assms(3) unat_ucast16[of k] by (metis unat_0 unat_eq_zero)
  moreover have "(ucast (ucast k :: u32) :: u16) = k"
    by (rule bit_word_eqI) (simp add: bit_simps)
  ultimately show ?thesis using assms by (simp add: pbuf_remove_header_def upd_pbuf_def Let_def)
qed

lemma free_header_loop_spec:
  assumes "owned psize n p as" and "unat k \<le> length (data_of n as)"
  shows "\<exists>q n' bs. free_header_loop psize p k n = Some (q, n') \<and> owned psize n' q bs \<and> set bs \<subseteq> set as
     \<and> data_of n' bs = drop (unat k) (data_of n as) \<and> same_net n n' \<and> (\<forall>x. x \<notin> set as \<longrightarrow> pbufs n' x = pbufs n x)
     \<and> unat (pp_rx_pool_usage n') + rx_count (pbufs n) as = unat (pp_rx_pool_usage n) + rx_count (pbufs n') bs
     \<and> (\<forall>dst j. payloads_outside (pbufs n) as dst j \<longrightarrow> payloads_outside (pbufs n') bs dst j)"
  using assms
proof (induction as arbitrary: p k n)
  case Nil
  then have "p = 0" by (simp add: owned_def)
  then show ?case using Nil by (subst free_header_loop.simps) (auto simp: same_net_refl)
next
  case (Cons a as)
  show ?case
  proof (cases "k = 0")
    case True
    then show ?thesis using Cons.prems(1)
      by (subst free_header_loop.simps) (auto intro!: exI[of _ p] exI[of _ n] exI[of _ "a # as"] same_net_refl)
  next
    case k0: False
    obtain b where b: "p = a" "a \<noteq> 0" "pbufs n a = Some b" "pb_ref b = 1" "owned psize n (pb_next b) as" "a \<notin> set as"
      "unat (pb_tot_len b) = unat (pb_len b) + length (data_of n as)"
      and rc: "rx_count (pbufs n) [a] + rx_count (pbufs n) as \<le> unat (pp_rx_pool_usage n)"
      using owned_tail[OF Cons.prems(1)] by blast
    have rel: "releasable psize (net_mem n) (pbufs n) a" using Cons.prems(1) by (simp add: owned_def)
    show ?thesis
    proof (cases "k \<ge> pb_len b")
      case True
      let ?P = "(pbufs n)(a \<mapsto> b\<lparr>pb_next := 0\<rparr>)"
      let ?n = "n\<lparr>pbufs := ?P\<rparr>"
      have fld: "releasable psize (net_mem ?n) ?P a" "rx_count ?P [a] = rx_count (pbufs n) [a]"
        using rel b(3) by (simp_all add: releasable_def pbuf_get_allocsrc_def rx_count_def)
      obtain n2 where n2: "pbuf_free_loop psize 0 a ?n = Some (0 + of_nat (length (last_refs (pbufs ?n) [a])), n2)"
        "same_net ?n n2" "pbufs n2 = freed (pbufs ?n) [a]"
        "unat (pp_rx_pool_usage n2) = unat (pp_rx_pool_usage ?n) - rx_count (pbufs ?n) (last_refs (pbufs ?n) [a])"
        using free_loop_spec[of ?n a "[a]" psize 0] fld b(2) rc by auto
      have lr: "last_refs ?P [a] = [a]" using b(4) by (simp add: last_refs_def)
      have P2: "pbufs n2 = (pbufs n)(a := None)" using n2(3) b(4) freed_single[of ?P a] by simp
      have u2: "unat (pp_rx_pool_usage n2) = unat (pp_rx_pool_usage n) - rx_count (pbufs n) [a]"
        using n2(4) lr fld(2) by simp
      have sn: "same_net n n2" by (rule same_net_trans[OF same_net_pbufs n2(2)])
      have o2: "owned psize n2 (pb_next b) as" and d2: "data_of n2 as = data_of n as"
        by (rule owned_cong[OF b(5)]; use P2 b(6) same_net_mem[OF sn] rc u2 in auto)+
      have sub: "unat (k - pb_len b) = unat k - unat (pb_len b)" using True by (simp add: unat_sub)
      have "unat (k - pb_len b) \<le> length (data_of n2 as)" using Cons.prems(2) b(3) sub d2 by simp
      from Cons.IH[OF o2 this]
      obtain q n' bs where r: "free_header_loop psize (pb_next b) (k - pb_len b) n2 = Some (q, n')"
        "owned psize n' q bs" "set bs \<subseteq> set as" "data_of n' bs = drop (unat (k - pb_len b)) (data_of n2 as)"
        "same_net n2 n'" "\<forall>x. x \<notin> set as \<longrightarrow> pbufs n' x = pbufs n2 x"
        "unat (pp_rx_pool_usage n') + rx_count (pbufs n2) as = unat (pp_rx_pool_usage n2) + rx_count (pbufs n') bs"
        "\<forall>dst j. payloads_outside (pbufs n2) as dst j \<longrightarrow> payloads_outside (pbufs n') bs dst j" by blast
      have out: "\<forall>dst j. payloads_outside (pbufs n) (a # as) dst j \<longrightarrow> payloads_outside (pbufs n') bs dst j"
      proof (intro allI impI)
        fix dst j
        assume "payloads_outside (pbufs n) (a # as) dst j"
        then have "payloads_outside (pbufs n2) as dst j" unfolding P2 using b(6) by (auto simp: payloads_outside_def)
        then show "payloads_outside (pbufs n') bs dst j" using r(8) by blast
      qed
      have "rx_count (pbufs n2) as = rx_count (pbufs n) as" by (rule rx_count_cong) (use P2 b(6) in auto)
      then have usage: "unat (pp_rx_pool_usage n') + rx_count (pbufs n) (a # as)
          = unat (pp_rx_pool_usage n) + rx_count (pbufs n') bs"
        using r(7) u2 rc rx_count_Cons[of "pbufs n" a as] by simp
      have "free_header_loop psize p k n = Some (q, n')"
        using r(1) n2(1) k0 True b(1-3)
        by (subst free_header_loop.simps) (simp add: upd_pbuf_def pbuf_free_def)
      moreover have "data_of n' bs = drop (unat k) (data_of n (a # as))"
        using r(4) sub d2 b(3) True by (simp add: word_le_nat_alt)
      ultimately show ?thesis
        using r(2,3,6) same_net_trans[OF sn r(5)] P2 usage out by (intro exI[of _ q] exI[of _ n'] exI[of _ bs]) auto
    next
      case False
      let ?b = "b\<lparr>pb_payload := pb_payload b + ucast k, pb_len := pb_len b - k, pb_tot_len := pb_tot_len b - k\<rparr>"
      let ?n = "n\<lparr>pbufs := (pbufs n)(a \<mapsto> ?b)\<rparr>"
      have le: "k \<le> pb_len b" using False by simp
      have rm: "pbuf_remove_header a (ucast k) n = Some (0, ?n)" by (rule remove_header_eq[OF b(3,2) k0 le])
      have "free_header_loop psize p k n = Some (p, ?n)"
      proof -
        have "free_header_loop psize a 0 ?n = Some (a, ?n)" by (subst free_header_loop.simps) simp
        then show ?thesis using rm k0 False b(1-3) by (subst free_header_loop.simps) simp
      qed
      moreover have pl: "payload (net_mem n) ?b = drop (unat k) (payload (net_mem n) b)"
        using bytes_at_drop[of "unat k" "unat (pb_len b)" "net_mem n" "pb_payload b"] le
        by (simp add: payload_def unat_sub word_le_nat_alt)
      have tail: "data_of ?n as = data_of n as" by (rule chain_data_cong) (use b(6) in auto)
      then have "data_of ?n (a # as) = drop (unat k) (data_of n (a # as))"
        using pl b(3) le by (simp add: word_le_nat_alt)
      moreover have rx: "rx_count (pbufs ?n) as = rx_count (pbufs n) as" "rx_count (pbufs ?n) [a] = rx_count (pbufs n) [a]"
        using b(3,6) by (auto simp: rx_count_def pbuf_get_allocsrc_def intro!: arg_cong[where f = length] filter_cong)
      then have "rx_count (pbufs ?n) (a # as) = rx_count (pbufs n) (a # as)"
        using rx_count_Cons[of "pbufs ?n" a as] rx_count_Cons[of "pbufs n" a as] by simp
      then have "unat (pp_rx_pool_usage ?n) + rx_count (pbufs n) (a # as) = unat (pp_rx_pool_usage n) + rx_count (pbufs ?n) (a # as)"
        by simp
      moreover have "owned psize ?n p (a # as)"
      proof -
        have "owned psize ?n (pb_next b) as"
          by (rule owned_cong(1)[OF b(5)]) (use b(6) rc in auto)
        then have o: "owned psize ?n (pb_next ?b) as" by simp
        have "releasable psize (net_mem ?n) (pbufs ?n) a"
          using rel b(3) by (simp add: releasable_def pbuf_get_allocsrc_def)
        moreover have "unat (pb_tot_len ?b) = unat (pb_len ?b) + length (data_of ?n as)"
          using b(7) le tail by (simp add: unat_sub word_le_nat_alt)
        ultimately show ?thesis
          unfolding b(1) using b(2,4) rc rx by (intro owned_ConsI[OF o]) simp_all
      qed
      moreover have "\<forall>dst j. payloads_outside (pbufs n) (a # as) dst j \<longrightarrow> payloads_outside (pbufs ?n) (a # as) dst j"
      proof (intro allI impI)
        fix dst j
        assume o: "payloads_outside (pbufs n) (a # as) dst j"
        have "outside (pb_payload b + ucast k + of_nat i) dst j" if "i < unat (pb_len b - k)" for i
        proof -
          have "unat k + i < unat (pb_len b)" using that le by (simp add: unat_sub word_le_nat_alt)
          moreover have "\<forall>i < unat (pb_len b). outside (pb_payload b + of_nat i) dst j" using o b(3) by (simp add: payloads_outside_def)
          ultimately have "outside (pb_payload b + of_nat (unat k + i)) dst j" by blast
          then show ?thesis by (simp add: add.assoc)
        qed
        then show "payloads_outside (pbufs ?n) (a # as) dst j" using o b(6) by (auto simp: payloads_outside_def)
      qed
      moreover have "\<forall>x. x \<notin> set (a # as) \<longrightarrow> pbufs ?n x = pbufs n x" by simp
      ultimately show ?thesis using same_net_pbufs by blast
    qed
  qed
qed

end
