(* ===== verification/Lwip_Pbuf_Properties.thy ===== *)
theory Lwip_Pbuf_Properties
  imports Lwip_Chain Os_Task_Demo
begin

unbundle bit_operations_syntax

text \<open>What the operations on packet buffers promise, with instances on a chain of two buffers.\<close>

section \<open>A concrete chain\<close>

text \<open>Two buffers from the heap, of three and two bytes; a byte of memory is its address's low byte.\<close>

definition demo_pbuf :: "u32 \<Rightarrow> u32 \<Rightarrow> u16 \<Rightarrow> u16 \<Rightarrow> pbuf" where
  "demo_pbuf nx pay tot len = \<lparr>pb_next = nx, pb_payload = pay, pb_tot_len = tot, pb_len = len,
     pb_type_internal = 0x80, pb_flags = 0, pb_ref = 1, pb_if_idx = 0, pb_esf_buf = 0\<rparr>"

definition demo_net :: net where
  "demo_net = \<lparr>kernel = demo_cold\<lparr>mem := (\<lambda>a. ucast a)\<rparr>, critical_nesting = 0, pp_rx_pool_usage = 0, recycled = [],
     pbufs = [0x6000 \<mapsto> demo_pbuf 0x6100 0x6041 5 3, 0x6100 \<mapsto> demo_pbuf 0 0x6161 2 2],
     netbufs = Map.empty, netconns = Map.empty, sockets = [], mcasts4 = [], mcasts6 = [], errno = 0\<rparr>"

lemma demo_net_chain:
  "chain (pbufs demo_net) 0x6000 [0x6000, 0x6100]" "data_of demo_net [0x6000, 0x6100] = [0x41, 0x42, 0x43, 0x61, 0x62]"
proof -
  have u: "[0..<3] = [0, 1, 2]" "[0..<2] = [0, Suc 0]" by (simp_all add: numeral_eq_Suc upt_rec)
  show "chain (pbufs demo_net) 0x6000 [0x6000, 0x6100]" by (simp add: demo_net_def demo_pbuf_def)
  show "data_of demo_net [0x6000, 0x6100] = [0x41, 0x42, 0x43, 0x61, 0x62]"
    by (simp add: demo_net_def demo_pbuf_def payload_def bytes_at_def u)
qed

lemma demo_net_owned: "owned psize demo_net 0x6000 [0x6000, 0x6100]"
proof -
  have "releasable psize m (pbufs demo_net) a" if "a \<in> set [0x6000, 0x6100]" for a m
    using that by (auto simp: releasable_def demo_net_def demo_pbuf_def pbuf_get_allocsrc_def
        PBUF_TYPE_ALLOC_SRC_MASK_def src_defs on_heap_def lwip_mem_align_def Let_def)
  moreover have "rx_count (pbufs demo_net) [0x6000, 0x6100] = 0"
    by (simp add: rx_count_def demo_net_def demo_pbuf_def pbuf_get_allocsrc_def PBUF_TYPE_ALLOC_SRC_MASK_def src_defs)
  ultimately show ?thesis
    using demo_net_chain(1) by (simp add: owned_def) (simp add: demo_net_def demo_pbuf_def)
qed

section \<open>Properties\<close>

text \<open>
  C22: \<open>pbuf_copy_partial\<close> copies out a stretch of a packet as if it were one array: whatever the way
  the packet is cut into buffers, it writes the bytes from \<open>offset\<close> on, at most \<open>len\<close> of them, to the
  destination, returns how many, and changes nothing else. The destination may hold no byte of the
  packet.
\<close>

theorem pbuf_copy_partial_is_slice:
  assumes "chain (pbufs n) buf as" and "buf \<noteq> 0" and "dataptr \<noteq> 0"
    and "payloads_outside (pbufs n) as dataptr (unat len)"
    and "bs = take (unat len) (drop (unat offset) (data_of n as))"
  shows "\<exists>m'. pbuf_copy_partial buf dataptr len offset n
       = Some (of_nat (length bs), n\<lparr>kernel := (kernel n)\<lparr>mem := m'\<rparr>\<rparr>)
     \<and> bytes_at m' dataptr (length bs) = bs \<and> (\<forall>x. outside x dataptr (length bs) \<longrightarrow> m' x = net_mem n x)"
  by (rule copy_partial_spec[OF assms])

theorem pbuf_copy_partial_is_slice_witness:
  "\<exists>m'. pbuf_copy_partial 0x6000 0x7000 2 2 demo_net = Some (2, demo_net\<lparr>kernel := (kernel demo_net)\<lparr>mem := m'\<rparr>\<rparr>)
     \<and> bytes_at m' 0x7000 2 = [0x43, 0x61]"
proof -
  have j: "(\<forall>i < 3. P i) \<longleftrightarrow> P 0 \<and> P 1 \<and> P 2" "(\<forall>i < 2. P i) \<longleftrightarrow> P 0 \<and> P 1" for P :: "nat \<Rightarrow> bool"
    by (auto simp: numeral_eq_Suc All_less_Suc)
  have p: "payloads_outside (pbufs demo_net) [0x6000, 0x6100] 0x7000 (unat (2 :: u16))"
    by (simp add: payloads_outside_def demo_net_def demo_pbuf_def outside_def j)
  have b: "[0x43, 0x61] = take (unat (2 :: u16)) (drop (unat (2 :: u16)) (data_of demo_net [0x6000, 0x6100]))"
    unfolding demo_net_chain(2) by simp
  have l: "length [0x43, 0x61 :: u8] = 2" by simp
  from pbuf_copy_partial_is_slice[OF demo_net_chain(1) _ _ p b] show ?thesis unfolding l by simp blast
qed



text \<open>
  \<open>pbuf_free_header\<close> hides the first bytes of a packet: of a chain with one owner it frees the
  buffers that lie before the cut, moves the start of the one that is cut, and returns a chain that
  carries exactly the remaining bytes, with right lengths, and still with one owner.
\<close>

theorem pbuf_free_header_drops_front:
  assumes "owned psize n q as" and "unat k \<le> length (data_of n as)"
  shows "\<exists>p n' bs. pbuf_free_header psize q k n = Some (p, n') \<and> owned psize n' p bs \<and> set bs \<subseteq> set as
     \<and> data_of n' bs = drop (unat k) (data_of n as) \<and> same_net n n' \<and> (\<forall>x. x \<notin> set as \<longrightarrow> pbufs n' x = pbufs n x)"
  using free_header_loop_spec[OF assms] unfolding pbuf_free_header_def by blast

theorem pbuf_free_header_drops_front_witness:
  "\<exists>p n' bs. pbuf_free_header (\<lambda>_. 0) 0x6000 4 demo_net = Some (p, n') \<and> owned (\<lambda>_. 0) n' p bs \<and> data_of n' bs = [0x62]"
proof -
  have "unat (4 :: u16) \<le> length (data_of demo_net [0x6000, 0x6100])" unfolding demo_net_chain(2) by simp
  from pbuf_free_header_drops_front[OF demo_net_owned[of "\<lambda>_. 0"] this]
  obtain p n' bs where "pbuf_free_header (\<lambda>_. 0) 0x6000 4 demo_net = Some (p, n')" "owned (\<lambda>_. 0) n' p bs"
    "data_of n' bs = drop (unat (4 :: u16)) (data_of demo_net [0x6000, 0x6100])" by blast
  then show ?thesis unfolding demo_net_chain(2) by auto
qed

end
