(* ===== verification/Lwip_Inet.thy ===== *)
theory Lwip_Inet
  imports Lwip_State
begin

unbundle bit_operations_syntax

text \<open>
  Addresses of hosts: the macros of \<^verbatim>\<open>src/ffi/lwip/ip_addr.h\<close>, \<^verbatim>\<open>ip_addr6.h\<close> and \<^verbatim>\<open>ip6_zone.h\<close> that the
  socket layer uses, and the conversion between the addresses of the stack and the \<open>sockaddr\<close>
  structures of the application (\<^verbatim>\<open>priv_sockets.h\<close>, \<open>sockaddr_to_ipaddr_port\<close> and \<open>lwip_sock_make_addr\<close>
  in \<^verbatim>\<open>sockets.c\<close>), byte by byte as the little-endian machine lays them out. The four words of the
  union \<open>ip_addr_t\<close> are kept in a list, and an IPv4 address is its first word.
\<close>

text \<open>Swapping the bytes of a short twice, and the bits of a small number.\<close>

lemma swap16_twice: "u16_neutral_to_high (u16_high_to_neutral y) = y"
  by (rule bit_word_eqI) (auto simp: u16_neutral_to_high_def u16_high_to_neutral_def bit_simps)

lemma word_small_bits: "x < 2 ^ k \<Longrightarrow> bit x n \<Longrightarrow> n < k"
  for x :: "'a :: len word"
proof -
  assume "x < 2 ^ k" "bit x n"
  then have "take_bit k x = x" by (cases "k < LENGTH('a)") (simp_all add: less_mask_eq take_bit_eq_mask take_bit_word_eq_self)
  then show "n < k" using \<open>bit x n\<close> by (metis bit_take_bit_iff)
qed

section \<open>Addresses\<close>

definition IPADDR_TYPE_V4 :: u8 where "IPADDR_TYPE_V4 = 0"
definition IPADDR_TYPE_V6 :: u8 where "IPADDR_TYPE_V6 = 6"
definition IPADDR_TYPE_ANY :: u8 where "IPADDR_TYPE_ANY = 46"

lemmas addr_types = IPADDR_TYPE_V4_def IPADDR_TYPE_V6_def IPADDR_TYPE_ANY_def

text \<open>\<open>PP_HTONL\<close> swaps the bytes of a constant.\<close>

definition PP_HTONL :: "u32 \<Rightarrow> u32" where
  "PP_HTONL x = (push_bit 24 (x AND 0xff) OR push_bit 8 (x AND 0xff00)
     OR drop_bit 8 (x AND 0xff0000) OR drop_bit 24 (x AND 0xff000000))"

definition ip_addr_any :: ip_addr_t where
  "ip_addr_any = \<lparr>ip_words = [0, 0, 0, 0], ip_zone = 0, ip_type = 0\<rparr>"

definition ip6_addr_set_zero :: "ip_addr_t \<Rightarrow> ip_addr_t" where
  "ip6_addr_set_zero a = a\<lparr>ip_words := [0, 0, 0, 0], ip_zone := 0\<rparr>"

definition ip_clear_no4 :: "ip_addr_t \<Rightarrow> ip_addr_t" where
  "ip_clear_no4 a = a\<lparr>ip_words := (ip_words a)[1 := 0, 2 := 0, 3 := 0], ip_zone := 0\<rparr>"

definition ip_addr_set_any :: "bool \<Rightarrow> ip_addr_t \<Rightarrow> ip_addr_t" where
  "ip_addr_set_any is_ipv6 a =
     (if is_ipv6 then (ip6_addr_set_zero a)\<lparr>ip_type := IPADDR_TYPE_V6\<rparr>
      else ip_clear_no4 (a\<lparr>ip_words := (ip_words a)[0 := 0], ip_type := IPADDR_TYPE_V4\<rparr>))"

definition ip_addr_copy_from_ip4 :: "u32 \<Rightarrow> ip_addr_t \<Rightarrow> ip_addr_t" where
  "ip_addr_copy_from_ip4 src dest =
     ip_clear_no4 (dest\<lparr>ip_words := (ip_words dest)[0 := src], ip_type := IPADDR_TYPE_V4\<rparr>)"

definition ip_addr_copy_from_ip6 :: "u32 list \<Rightarrow> u8 \<Rightarrow> ip_addr_t \<Rightarrow> ip_addr_t" where
  "ip_addr_copy_from_ip6 src zone dest = dest\<lparr>ip_words := src, ip_zone := zone, ip_type := IPADDR_TYPE_V6\<rparr>"

definition ip_addr_cmp :: "ip_addr_t \<Rightarrow> ip_addr_t \<Rightarrow> bool" where
  "ip_addr_cmp a b =
     (if ip_type a \<noteq> ip_type b then False
      else if ip_type a = IPADDR_TYPE_V6 then ip_words a = ip_words b \<and> ip_zone a = ip_zone b
      else ip_words a ! 0 = ip_words b ! 0)"

definition ip6_addr_isipv4mappedipv6 :: "ip_addr_t \<Rightarrow> bool" where
  "ip6_addr_isipv4mappedipv6 a \<longleftrightarrow> ip_words a ! 0 = 0 \<and> ip_words a ! 1 = 0 \<and> ip_words a ! 2 = PP_HTONL 0xFFFF"

definition ip4_2_ipv4_mapped_ipv6 :: "ip_addr_t \<Rightarrow> ip_addr_t" where
  "ip4_2_ipv4_mapped_ipv6 a = a\<lparr>ip_words := [0, 0, PP_HTONL 0xFFFF, ip_words a ! 0], ip_zone := 0\<rparr>"

definition unmap_ipv4_mapped_ipv6 :: "ip_addr_t \<Rightarrow> ip_addr_t" where
  "unmap_ipv4_mapped_ipv6 a = a\<lparr>ip_words := (ip_words a)[0 := ip_words a ! 3]\<rparr>"

text \<open>The scope of an address whose type the caller does not know.\<close>

definition ip6_addr_islinklocal :: "u32 list \<Rightarrow> bool" where
  "ip6_addr_islinklocal ws \<longleftrightarrow> ws ! 0 AND PP_HTONL 0xffc00000 = PP_HTONL 0xfe800000"

definition ip6_addr_ismulticast_iflocal :: "u32 list \<Rightarrow> bool" where
  "ip6_addr_ismulticast_iflocal ws \<longleftrightarrow> ws ! 0 AND PP_HTONL 0xff8f0000 = PP_HTONL 0xff010000"

definition ip6_addr_ismulticast_linklocal :: "u32 list \<Rightarrow> bool" where
  "ip6_addr_ismulticast_linklocal ws \<longleftrightarrow> ws ! 0 AND PP_HTONL 0xff8f0000 = PP_HTONL 0xff020000"

definition ip6_addr_has_scope :: "u32 list \<Rightarrow> bool" where
  "ip6_addr_has_scope ws \<longleftrightarrow>
     ip6_addr_islinklocal ws \<or> ip6_addr_ismulticast_iflocal ws \<or> ip6_addr_ismulticast_linklocal ws"

section \<open>Socket addresses in memory\<close>

definition AF_INET :: u8 where "AF_INET = 2"
definition AF_INET6 :: u8 where "AF_INET6 = 10"

definition load_u16 :: "(u32 \<Rightarrow> u8) \<Rightarrow> u32 \<Rightarrow> u16" where
  "load_u16 m a = ucast (m a) OR push_bit 8 (ucast (m (a + 1)))"

definition load_u32 :: "(u32 \<Rightarrow> u8) \<Rightarrow> u32 \<Rightarrow> u32" where
  "load_u32 m a = ucast (m a) OR push_bit 8 (ucast (m (a + 1)))
     OR push_bit 16 (ucast (m (a + 2))) OR push_bit 24 (ucast (m (a + 3)))"

definition bytes_u16 :: "u16 \<Rightarrow> u8 list" where "bytes_u16 x = [byte_of 0 x, byte_of 1 x]"
definition bytes_u32 :: "u32 \<Rightarrow> u8 list" where
  "bytes_u32 x = [byte_of 0 x, byte_of 1 x, byte_of 2 x, byte_of 3 x]"

definition store_bytes :: "u32 \<Rightarrow> u8 list \<Rightarrow> (u32 \<Rightarrow> u8) \<Rightarrow> (u32 \<Rightarrow> u8)" where
  "store_bytes a bs m = (\<lambda>x. if unat (x - a) < length bs then bs ! unat (x - a) else m x)"

text \<open>
  From \<open>sockaddr\<close>: the family is at offset 1, the port at 2, an IPv4 address at 4, an IPv6 address at 8
  and its scope at 24. The address that is written to may hold anything before.
\<close>

definition sockaddr6_to_ip6addr :: "(u32 \<Rightarrow> u8) \<Rightarrow> u32 \<Rightarrow> ip_addr_t \<Rightarrow> ip_addr_t" where
  "sockaddr6_to_ip6addr m sin6 a =
     (let ws = map (\<lambda>i. load_u32 m (sin6 + 8 + 4 * of_nat i)) [0..<4];
          a1 = a\<lparr>ip_words := ws, ip_zone := 0\<rparr>
      in if ip6_addr_has_scope ws then a1\<lparr>ip_zone := ucast (load_u32 m (sin6 + 24))\<rparr> else a1)"

definition sockaddr_to_ipaddr_port :: "(u32 \<Rightarrow> u8) \<Rightarrow> u32 \<Rightarrow> ip_addr_t \<Rightarrow> ip_addr_t \<times> u16" where
  "sockaddr_to_ipaddr_port m sockaddr a =
     (if m (sockaddr + 1) = AF_INET6
      then ((sockaddr6_to_ip6addr m sockaddr a)\<lparr>ip_type := IPADDR_TYPE_V6\<rparr>,
            u16_high_to_neutral (load_u16 m (sockaddr + 2)))
      else (a\<lparr>ip_words := (ip_words a)[0 := load_u32 m (sockaddr + 4)], ip_type := IPADDR_TYPE_V4\<rparr>,
            u16_neutral_to_high (load_u16 m (sockaddr + 2))))"

text \<open>To \<open>sockaddr\<close>: its bytes, of which there are as many as its length field says.\<close>

definition ip6addr_port_to_sockaddr :: "ip_addr_t \<Rightarrow> u16 \<Rightarrow> u8 list" where
  "ip6addr_port_to_sockaddr a port =
     [28, AF_INET6] @ bytes_u16 (u16_high_to_neutral port) @ bytes_u32 0
     @ concat (map bytes_u32 (ip_words a)) @ bytes_u32 (ucast (ip_zone a))"

definition ip4addr_port_to_sockaddr :: "ip_addr_t \<Rightarrow> u16 \<Rightarrow> u8 list" where
  "ip4addr_port_to_sockaddr a port =
     [16, AF_INET] @ bytes_u16 (u16_high_to_neutral port) @ bytes_u32 (ip_words a ! 0) @ replicate 8 0"

definition ipaddr_port_to_sockaddr :: "ip_addr_t \<Rightarrow> u16 \<Rightarrow> u8 list" where
  "ipaddr_port_to_sockaddr a port =
     (if ip_type a = IPADDR_TYPE_ANY \<or> ip_type a = IPADDR_TYPE_V6 then ip6addr_port_to_sockaddr a port
      else ip4addr_port_to_sockaddr a port)"

definition NETCONN_TYPE_IPV6 :: u8 where "NETCONN_TYPE_IPV6 = 0x08"

definition NETCONNTYPE_ISIPV6 :: "u8 \<Rightarrow> bool" where
  "NETCONNTYPE_ISIPV6 t \<longleftrightarrow> t AND NETCONN_TYPE_IPV6 \<noteq> 0"

text \<open>
  The sender's address for the application: whether it was cut off, the address, which is mapped in
  place on a connection of both IP versions, the length and the memory.
\<close>

definition lwip_sock_make_addr ::
    "u8 \<Rightarrow> ip_addr_t \<Rightarrow> u16 \<Rightarrow> u32 \<Rightarrow> u32 \<Rightarrow> (u32 \<Rightarrow> u8) \<Rightarrow> bool \<times> ip_addr_t \<times> u32 \<times> (u32 \<Rightarrow> u8)" where
  "lwip_sock_make_addr conn_type fromaddr port from fromlen m =
     (let a = (if NETCONNTYPE_ISIPV6 conn_type \<and> ip_type fromaddr = IPADDR_TYPE_V4
               then (ip4_2_ipv4_mapped_ipv6 fromaddr)\<lparr>ip_type := IPADDR_TYPE_V6\<rparr> else fromaddr);
          saddr = ipaddr_port_to_sockaddr a port;
          sa_len = (ucast (hd saddr) :: u32);
          (truncated, len1) = (if fromlen < sa_len then (True, fromlen)
             else if fromlen > sa_len then (False, sa_len) else (False, fromlen))
      in (truncated, a, len1, store_bytes from (take (unat len1) saddr) m))"

text \<open>\<open>lwip_sendto\<close> sends to an IPv4 host that is given by its mapped address by IPv4.\<close>

definition sendto_unmap :: "ip_addr_t \<Rightarrow> ip_addr_t" where
  "sendto_unmap a =
     (if ip_type a = IPADDR_TYPE_V6 \<and> ip6_addr_isipv4mappedipv6 a
      then (unmap_ipv4_mapped_ipv6 a)\<lparr>ip_type := IPADDR_TYPE_V4\<rparr> else a)"

section \<open>Reading back what was written\<close>

lemma load_store_u16:
  assumes "unat (k :: u32) + 1 < length bs" "length bs < 2 ^ 32" and "bs ! unat k = byte_of 0 x" "bs ! (unat k + 1) = byte_of 1 x"
  shows "load_u16 (store_bytes a bs m) (a + k) = x"
proof -
  have "unat (k + 1) = unat k + 1" using assms(1,2) by (simp add: unat_word_ariths)
  then have "load_u16 (store_bytes a bs m) (a + k) = ucast (byte_of 0 x) OR push_bit 8 (ucast (byte_of 1 x))"
    using assms by (simp add: load_u16_def store_bytes_def add.assoc)
  also have "\<dots> = x"
    by (rule bit_word_eqI) (auto simp: bit_simps byte_of_bit)
  finally show ?thesis .
qed


lemma four_bytes: "\<not> n - 16 < (8 :: nat) \<Longrightarrow> 24 + (n - 24) = n" by simp

lemma zone_back: "ucast (ucast (z :: u8) :: u32) = z"
  by (rule bit_word_eqI) (simp add: bit_simps)

lemma load_store_u32:
  assumes "unat (k :: u32) + 3 < length bs" "length bs < 2 ^ 32"
    and "take 4 (drop (unat k) bs) = bytes_u32 x"
  shows "load_u32 (store_bytes a bs m) (a + k) = x"
proof -
  have u: "unat (k + 1) = unat k + 1" "unat (k + 2) = unat k + 2" "unat (k + 3) = unat k + 3"
    using assms(1,2) by (simp_all add: unat_word_ariths)
  have b: "bs ! (unat k + i) = bytes_u32 x ! i" if "i < 4" for i
    using arg_cong[OF assms(3), of "\<lambda>l. l ! i"] that assms(1) by simp
  have "load_u32 (store_bytes a bs m) (a + k) = ucast (byte_of 0 x) OR push_bit 8 (ucast (byte_of 1 x))
      OR push_bit 16 (ucast (byte_of 2 x)) OR push_bit 24 (ucast (byte_of 3 x))"
    using assms(1) b[of 0] b[of 1] b[of 2] b[of 3] by (simp add: load_u32_def store_bytes_def add.assoc u bytes_u32_def)
  also have "\<dots> = x"
    by (rule bit_word_eqI) (auto simp: bit_simps byte_of_bit, metis four_bytes)
  finally show ?thesis .
qed

lemma port_order: "u16_neutral_to_high (u16_high_to_neutral p) = p" "u16_high_to_neutral (u16_high_to_neutral p) = p"
  by (auto simp: u16_high_to_neutral_def u16_neutral_to_high_def bit_simps intro!: bit_word_eqI)

lemma four_words: "length ws = 4 \<Longrightarrow> \<exists>a b c d. ws = [a, b, c, d]"
  by (auto simp: length_Suc_conv numeral_eq_Suc)

lemma bytes_lengths [simp]: "length (bytes_u16 p) = 2" "length (bytes_u32 x) = 4"
  by (simp_all add: bytes_u16_def bytes_u32_def)

lemma sockaddr4_read:
  assumes "length (ip_words g) = 4"
  shows "sockaddr_to_ipaddr_port (store_bytes from (ip4addr_port_to_sockaddr a port) m) from g
    = (g\<lparr>ip_words := (ip_words g)[0 := ip_words a ! 0], ip_type := IPADDR_TYPE_V4\<rparr>, port)"
proof -
  let ?m = "store_bytes from (ip4addr_port_to_sockaddr a port) m"
  have "?m (from + 1) = AF_INET"
    by (simp add: store_bytes_def ip4addr_port_to_sockaddr_def)
  moreover have "load_u16 ?m (from + 2) = u16_high_to_neutral port"
    by (rule load_store_u16) (simp_all add: ip4addr_port_to_sockaddr_def bytes_u16_def)
  moreover have "load_u32 ?m (from + 4) = ip_words a ! 0"
    by (rule load_store_u32) (simp_all add: ip4addr_port_to_sockaddr_def bytes_u16_def bytes_u32_def)
  ultimately show ?thesis
    by (simp add: sockaddr_to_ipaddr_port_def AF_INET_def AF_INET6_def port_order)
qed

lemma sockaddr6_read:
  assumes "length (ip_words a) = 4"
  shows "sockaddr_to_ipaddr_port (store_bytes from (ip6addr_port_to_sockaddr a port) m) from g
    = (g\<lparr>ip_words := ip_words a, ip_zone := (if ip6_addr_has_scope (ip_words a) then ip_zone a else 0),
        ip_type := IPADDR_TYPE_V6\<rparr>, port)"
proof -
  let ?m = "store_bytes from (ip6addr_port_to_sockaddr a port) m"
  obtain w0 w1 w2 w3 where ws: "ip_words a = [w0, w1, w2, w3]" using four_words[OF assms] by blast
  have f: "?m (from + 1) = AF_INET6"
    by (simp add: store_bytes_def ip6addr_port_to_sockaddr_def)
  have p: "load_u16 ?m (from + 2) = u16_high_to_neutral port"
    by (rule load_store_u16) (simp_all add: ip6addr_port_to_sockaddr_def bytes_u16_def ws)
  have w: "load_u32 ?m (from + 8) = w0" "load_u32 ?m (from + 12) = w1" "load_u32 ?m (from + 16) = w2"
     "load_u32 ?m (from + 20) = w3" "load_u32 ?m (from + 24) = ucast (ip_zone a)"
    by (rule load_store_u32; simp add: ip6addr_port_to_sockaddr_def bytes_u16_def bytes_u32_def ws)+
  have "map (\<lambda>i. load_u32 ?m (from + 8 + 4 * of_nat i)) [0..<4] = ip_words a"
    by (simp add: ws w upt_rec add.assoc)
  then show ?thesis
    using f p w(5) by (simp add: sockaddr_to_ipaddr_port_def sockaddr6_to_ip6addr_def Let_def port_order zone_back)
qed

lemma mapped_no_scope: "\<not> ip6_addr_has_scope [0, x, y, z]"
  by (simp add: ip6_addr_has_scope_def ip6_addr_islinklocal_def ip6_addr_ismulticast_iflocal_def
      ip6_addr_ismulticast_linklocal_def PP_HTONL_def)

section \<open>Properties\<close>

text \<open>
  C25: An application can answer the address it was given. Whatever the IP versions of the connection,
  the address of an IPv4 host, or of an IPv6 host that is no mapped IPv4 host and has a zone only with
  a limited scope, that \<open>lwip_sock_make_addr\<close> writes to a buffer of at least 28 bytes is complete, and
  \<open>lwip_sendto\<close>, which reads it back and unmaps it, gets an address equal to the host's and the same port. Only
  the bytes the returned length counts are written.
\<close>

theorem sender_address_round_trip:
  assumes "length (ip_words a) = 4" and "length (ip_words g) = 4" and "28 \<le> fromlen"
    and "ip_type a = IPADDR_TYPE_V4 \<or> ip_type a = IPADDR_TYPE_V6 \<and> \<not> ip6_addr_isipv4mappedipv6 a
           \<and> (ip_zone a \<noteq> 0 \<longrightarrow> ip6_addr_has_scope (ip_words a))"
    and "lwip_sock_make_addr ctype a port from fromlen m = (truncated, a', len, m')"
    and "sockaddr_to_ipaddr_port m' from g = (b, p)"
  shows "\<not> truncated \<and> len \<le> 28 \<and> p = port \<and> ip_addr_cmp (sendto_unmap b) a
    \<and> (\<forall>x. len \<le> x - from \<longrightarrow> m' x = m x)"
proof -
  obtain w0 w1 w2 w3 where ws: "ip_words a = [w0, w1, w2, w3]" using four_words[OF assms(1)] by blast
  have len: "length (ip4addr_port_to_sockaddr c port) = 16" "ip_words c = [x0, x1, x2, x3] \<Longrightarrow> length (ip6addr_port_to_sockaddr c port) = 28"
    for c x0 x1 x2 x3 by (simp_all add: ip4addr_port_to_sockaddr_def ip6addr_port_to_sockaddr_def)
  have hd: "hd (ip4addr_port_to_sockaddr c port) = 16" "hd (ip6addr_port_to_sockaddr c port) = 28" for c
    by (simp_all add: ip4addr_port_to_sockaddr_def ip6addr_port_to_sockaddr_def)
  have big: "\<not> fromlen < 16" using assms(3) by (simp add: word_less_nat_alt word_le_nat_alt)
  have kept: "unat l \<le> unat (x - from) \<Longrightarrow> length bs = unat l \<Longrightarrow> store_bytes from bs m x = m x" for x bs and l :: u32
    by (simp add: store_bytes_def)
  consider (v4) "ip_type a = IPADDR_TYPE_V4" "\<not> NETCONNTYPE_ISIPV6 ctype"
    | (mapped) "ip_type a = IPADDR_TYPE_V4" "NETCONNTYPE_ISIPV6 ctype"
    | (v6) "ip_type a = IPADDR_TYPE_V6" "\<not> ip6_addr_isipv4mappedipv6 a" "ip_zone a \<noteq> 0 \<longrightarrow> ip6_addr_has_scope (ip_words a)"
    using assms(4) by blast
  then show ?thesis
  proof cases
    case v4
    then have w: "len = 16" "\<not> truncated" "m' = store_bytes from (ip4addr_port_to_sockaddr a port) m"
      using assms(5) big len(1)[of a] hd(1)[of a]
      by (auto simp: lwip_sock_make_addr_def ipaddr_port_to_sockaddr_def addr_types Let_def split: if_splits)
    then show ?thesis
      using assms(6) sockaddr4_read[OF assms(2), of "from" a port m] kept[of 16 _ _] len(1)[of a] assms(2) v4
      by (auto simp: sendto_unmap_def addr_types ip_addr_cmp_def word_le_nat_alt)
  next
    case mapped
    let ?a = "(ip4_2_ipv4_mapped_ipv6 a)\<lparr>ip_type := IPADDR_TYPE_V6\<rparr>"
    have a: "ip_words ?a = [0, 0, PP_HTONL 0xFFFF, w0]" "ip_type ?a = IPADDR_TYPE_V6"
      by (simp_all add: ip4_2_ipv4_mapped_ipv6_def ws)
    have w: "len = 28" "\<not> truncated" "m' = store_bytes from (ip6addr_port_to_sockaddr ?a port) m"
      using assms(3,5) mapped len(2)[OF a(1)] hd(2)[of ?a] a(2)
      by (auto simp: lwip_sock_make_addr_def ipaddr_port_to_sockaddr_def Let_def split: if_splits)
    then show ?thesis
      using assms(6) sockaddr6_read[of ?a "from" port m g] kept[of 28 _ _] len(2)[OF a(1)] mapped a
      by (auto simp: sendto_unmap_def addr_types ip_addr_cmp_def word_le_nat_alt ip6_addr_isipv4mappedipv6_def
          unmap_ipv4_mapped_ipv6_def ws)
  next
    case v6
    then have w: "len = 28" "\<not> truncated" "m' = store_bytes from (ip6addr_port_to_sockaddr a port) m"
      using assms(3,5) len(2)[OF ws] hd(2)[of a]
      by (auto simp: lwip_sock_make_addr_def ipaddr_port_to_sockaddr_def addr_types Let_def split: if_splits)
    then show ?thesis
      using assms(6) sockaddr6_read[OF assms(1), of "from" port m g] kept[of 28 _ _] len(2)[OF ws] v6
      by (auto simp: sendto_unmap_def addr_types ip_addr_cmp_def word_le_nat_alt ip6_addr_isipv4mappedipv6_def)
  qed
qed

theorem sender_address_round_trip_witness:
  "\<exists>truncated a' len m' b p. lwip_sock_make_addr 0x28 (ip_addr_copy_from_ip4 0x0100007f ip_addr_any) 80 0x100 28 (\<lambda>_. 0)
      = (truncated, a', len, m')
    \<and> sockaddr_to_ipaddr_port m' 0x100 ip_addr_any = (b, p) \<and> \<not> truncated \<and> p = 80
    \<and> ip_addr_cmp (sendto_unmap b) (ip_addr_copy_from_ip4 0x0100007f ip_addr_any)"
proof -
  let ?a = "ip_addr_copy_from_ip4 0x0100007f ip_addr_any"
  obtain truncated a' len m' where w: "lwip_sock_make_addr 0x28 ?a 80 0x100 28 (\<lambda>_. 0) = (truncated, a', len, m')"
    by (metis prod_cases4)
  obtain b p where r: "sockaddr_to_ipaddr_port m' 0x100 ip_addr_any = (b, p)" by fastforce
  have "\<not> truncated \<and> len \<le> 28 \<and> p = 80 \<and> ip_addr_cmp (sendto_unmap b) ?a \<and> (\<forall>x. len \<le> x - 0x100 \<longrightarrow> m' x = 0)"
    by (rule sender_address_round_trip[OF _ _ _ _ w r])
      (simp_all add: ip_addr_copy_from_ip4_def ip_clear_no4_def ip_addr_any_def addr_types)
  then show ?thesis using w r by blast
qed

end
