(* ===== verification/Lwip_Netbuf.thy ===== *)
theory Lwip_Netbuf
  imports Lwip_Pbuf Lwip_Inet
begin

unbundle bit_operations_syntax

text \<open>
  What the library gets from outside, and network buffers (\<^verbatim>\<open>src/ffi/lwip/netbuf.c\<close>). The TCP/IP thread
  of the vendor's stack, its mailboxes and its allocation of packet buffers and connections are not
  part of the sources; each of their functions that is called is a field of the record \<open>ext\<close>. They
  share the state of the library and have a state of their own, of type \<open>'w\<close>.
\<close>

section \<open>The functions outside\<close>

type_synonym 'w host = "net \<times> 'w"

datatype pbuf_type = PBUF_RAM | PBUF_REF

datatype netconn_evt = NETCONN_EVT_RCVPLUS | NETCONN_EVT_RCVMINUS | NETCONN_EVT_SENDPLUS
  | NETCONN_EVT_SENDMINUS | NETCONN_EVT_ERROR

text \<open>The functions that the TCP/IP thread is asked to run, and the arguments in the message.\<close>

datatype api_fn = DO_NEWCONN | DO_DELCONN | DO_BIND | DO_BIND_IF | DO_CONNECT | DO_DISCONNECT
  | DO_LISTEN | DO_ACCEPTED | DO_RECV | DO_SEND | DO_WRITE | DO_CLOSE | DO_GETADDR
  | DO_JOIN_LEAVE_GROUP | DO_JOIN_LEAVE_GROUP_NETIF

datatype netconn_igmp = NETCONN_JOIN | NETCONN_LEAVE

record write_args =
  w_vector :: "(u32 \<times> u32) list"
  w_vector_cnt :: u16
  w_vector_off :: u32
  w_len :: u32
  w_offset :: u32
  w_apiflags :: u8
  w_time_started :: u32

datatype api_args =
    NoArgs
  | SendArgs u32
  | NewArgs u8
  | AddrArgs ip_addr_t u16
  | IfArgs u8
  | GetAddrArgs ip_addr_t u16 u8
  | WriteArgs write_args
  | RecvArgs u32
  | ShutArgs u8 u32
  | TimeArgs u32
  | GroupArgs ip_addr_t ip_addr_t netconn_igmp
  | GroupIfArgs ip_addr_t u8 netconn_igmp
  | BacklogArgs u8

record api_msg =
  am_conn :: u32
  am_args :: api_args

text \<open>
  A call of \<open>send_msg\<close> is \<open>tcpip_send_msg_wait_sem\<close>: it gives the status of the sending, the error the
  function left in the message and the arguments with the results written to them; \<open>send_dns\<close> is the
  same function with the message of a DNS query, of which it gets the name, the places for the address
  and the error, the kind of address and the semaphore. A fetch from a mailbox gives \<open>None\<close> after a
  timeout. \<open>is_err_msg\<close> tells which messages stand for errors. \<open>frame\<close> is the address of the one local
  variable that is passed by address, and \<open>junk_addr\<close> an address in memory nobody has initialised.
\<close>

record 'w ext =
  send_msg :: "api_fn \<Rightarrow> api_msg \<Rightarrow> 'w host \<Rightarrow> (u8 \<times> u8 \<times> api_args \<times> 'w host) option"
  send_dns :: "u32 \<Rightarrow> ip_addr_t \<Rightarrow> u8 \<Rightarrow> u32 \<Rightarrow> u8 \<Rightarrow> 'w host \<Rightarrow> (u8 \<times> u8 \<times> ip_addr_t \<times> 'w host) option"
  mbox_valid :: "u8 \<Rightarrow> 'w host \<Rightarrow> bool"
  mbox_tryfetch :: "u8 \<Rightarrow> 'w host \<Rightarrow> (u32 option \<times> 'w host) option"
  mbox_fetch :: "u8 \<Rightarrow> u32 \<Rightarrow> 'w host \<Rightarrow> (u32 option \<times> 'w host) option"
  mbox_free :: "u8 \<Rightarrow> 'w host \<Rightarrow> 'w host"
  sem_new :: "u32 \<Rightarrow> 'w host \<Rightarrow> u8 \<times> u32 \<times> 'w host"
  sem_valid :: "u32 \<Rightarrow> 'w host \<Rightarrow> bool"
  sem_free :: "u32 \<Rightarrow> 'w host \<Rightarrow> 'w host"
  is_err_msg :: "u32 \<Rightarrow> u8 option"
  call_event :: "u32 \<Rightarrow> u32 \<Rightarrow> netconn_evt \<Rightarrow> u16 \<Rightarrow> 'w host \<Rightarrow> 'w host option"
  sys_now :: "'w host \<Rightarrow> u32"
  conn_alloc :: "u8 \<Rightarrow> u32 \<Rightarrow> 'w host \<Rightarrow> u32 \<times> 'w host"
  conn_free :: "u32 \<Rightarrow> 'w host \<Rightarrow> 'w host option"
  pbuf_alloc :: "u16 \<Rightarrow> pbuf_type \<Rightarrow> 'w host \<Rightarrow> u32 \<times> 'w host"
  pool_size :: "memp_t \<Rightarrow> u16"
  heap_malloc :: "u32 \<Rightarrow> os \<Rightarrow> u32"
  ip6_addr_any :: ip_addr_t
  ip_addr_any_type :: ip_addr_t
  frame :: u32
  junk_addr :: ip_addr_t

section \<open>Network buffers: netbuf.c\<close>

definition upd_netbuf :: "u32 \<Rightarrow> (netbuf \<Rightarrow> netbuf) \<Rightarrow> net \<Rightarrow> net option" where
  "upd_netbuf a f n = do { b \<leftarrow> netbufs n a; Some (n\<lparr>netbufs := (netbufs n)(a \<mapsto> f b)\<rparr>) }"

definition free_held :: "(memp_t \<Rightarrow> u16) \<Rightarrow> u32 \<Rightarrow> net \<Rightarrow> net option" where
  "free_held psize p n = (if p \<noteq> 0 then map_option snd (pbuf_free psize p n) else Some n)"

definition netbuf_free :: "(memp_t \<Rightarrow> u16) \<Rightarrow> u32 \<Rightarrow> net \<Rightarrow> net option" where
  "netbuf_free psize buf n =
     do {
       b \<leftarrow> netbufs n buf;
       n1 \<leftarrow> free_held psize (nb_p b) n;
       upd_netbuf buf (\<lambda>b. b\<lparr>nb_p := 0, nb_ptr := 0\<rparr>) n1
     }"

definition netbuf_delete :: "(memp_t \<Rightarrow> u16) \<Rightarrow> u32 \<Rightarrow> net \<Rightarrow> net option" where
  "netbuf_delete psize buf n =
     (if buf = 0 then Some n
      else do {
        b \<leftarrow> netbufs n buf;
        n1 \<leftarrow> free_held psize (nb_p b) n;
        n2 \<leftarrow> (if nb_p b \<noteq> 0 then upd_netbuf buf (\<lambda>b. b\<lparr>nb_p := 0, nb_ptr := 0\<rparr>) n1 else Some n1);
        n3 \<leftarrow> memp_free psize MEMP_NETBUF buf n2;
        Some (n3\<lparr>netbufs := (netbufs n3)(buf := None)\<rparr>)
      })"

definition netbuf_alloc :: "'w ext \<Rightarrow> u32 \<Rightarrow> u16 \<Rightarrow> 'w host \<Rightarrow> (u32 \<times> 'w host) option" where
  "netbuf_alloc ext buf sz h =
     (if buf = 0 then None
      else do {
        b \<leftarrow> netbufs (fst h) buf;
        n1 \<leftarrow> free_held (pool_size ext) (nb_p b) (fst h);
        let (p, n2, w2) = pbuf_alloc ext sz PBUF_RAM (n1, snd h);
        n3 \<leftarrow> upd_netbuf buf (\<lambda>b. b\<lparr>nb_p := p\<rparr>) n2;
        (if p = 0 then Some (0, n3, w2)
         else do {
           q \<leftarrow> pbufs n3 p;
           _ \<leftarrow> lwip_assert (pb_len q \<ge> sz) ();
           n4 \<leftarrow> upd_netbuf buf (\<lambda>b. b\<lparr>nb_ptr := p\<rparr>) n3;
           Some (pb_payload q, n4, w2)
         })
      })"

definition netbuf_ref :: "'w ext \<Rightarrow> u32 \<Rightarrow> u32 \<Rightarrow> u16 \<Rightarrow> 'w host \<Rightarrow> (u8 \<times> 'w host) option" where
  "netbuf_ref ext buf dataptr sz h =
     (if buf = 0 then None
      else do {
        b \<leftarrow> netbufs (fst h) buf;
        n1 \<leftarrow> free_held (pool_size ext) (nb_p b) (fst h);
        let (p, n2, w2) = pbuf_alloc ext 0 PBUF_REF (n1, snd h);
        n3 \<leftarrow> upd_netbuf buf (\<lambda>b. b\<lparr>nb_p := p\<rparr>) n2;
        (if p = 0 then do { n4 \<leftarrow> upd_netbuf buf (\<lambda>b. b\<lparr>nb_ptr := 0\<rparr>) n3; Some (ERR_MEM, n4, w2) }
         else do {
           n4 \<leftarrow> upd_pbuf p (\<lambda>q. q\<lparr>pb_payload := dataptr, pb_tot_len := sz, pb_len := sz\<rparr>) n3;
           n5 \<leftarrow> upd_netbuf buf (\<lambda>b. b\<lparr>nb_ptr := p\<rparr>) n4;
           Some (ERR_OK, n5, w2)
         })
      })"

end
