(* ===== verification/Lwip_Socket_Table.thy ===== *)
theory Lwip_Socket_Table
  imports Lwip_Netbuf
begin

unbundle bit_operations_syntax

text \<open>
  The table of sockets in \<^verbatim>\<open>src/ffi/lwip/sockets.c\<close>: descriptors are allocated from it, looked up in it
  with a count of the threads that use them, and freed when the last user is done.
\<close>

section \<open>Access\<close>

definition LWIP_SOCK_FD_FREE_TCP :: u8 where "LWIP_SOCK_FD_FREE_TCP = 1"
definition LWIP_SOCK_FD_FREE_FREE :: u8 where "LWIP_SOCK_FD_FREE_FREE = 2"

definition sock_at :: "nat \<Rightarrow> net \<Rightarrow> lwip_sock option" where
  "sock_at i n = (if i < length (sockets n) then Some (sockets n ! i) else None)"

definition upd_sock :: "nat \<Rightarrow> (lwip_sock \<Rightarrow> lwip_sock) \<Rightarrow> net \<Rightarrow> net option" where
  "upd_sock i f n = do { s \<leftarrow> sock_at i n; Some (n\<lparr>sockets := (sockets n)[i := f s]\<rparr>) }"

section \<open>Use counts\<close>

definition sock_inc_used_locked :: "nat \<Rightarrow> net \<Rightarrow> net option" where
  "sock_inc_used_locked i n =
     do {
       n1 \<leftarrow> upd_sock i (\<lambda>s. s\<lparr>so_fd_used := so_fd_used s + 1\<rparr>) n;
       s \<leftarrow> sock_at i n1;
       lwip_assert (so_fd_used s \<noteq> 0) n1
     }"

definition sock_inc_used :: "nat \<Rightarrow> net \<Rightarrow> net option" where
  "sock_inc_used i n =
     do {
       let (lev, n1) = sys_arch_protect n;
       n2 \<leftarrow> sock_inc_used_locked i n1;
       sys_arch_unprotect lev n2
     }"

text \<open>Freeing drops a use; while there are others it only marks the socket.\<close>

definition free_socket :: "(memp_t \<Rightarrow> u16) \<Rightarrow> nat \<Rightarrow> bool \<Rightarrow> net \<Rightarrow> net option" where
  "free_socket psize i is_tcp n =
     do {
       let (lev, n1) = sys_arch_protect n;
       s \<leftarrow> sock_at i n1;
       _ \<leftarrow> lwip_assert (so_fd_used s > 0) ();
       n2 \<leftarrow> upd_sock i (\<lambda>s. s\<lparr>so_fd_used := so_fd_used s - 1\<rparr>) n1;
       s2 \<leftarrow> sock_at i n2;
       (if so_fd_used s2 > 0
        then do {
          n3 \<leftarrow> upd_sock i (\<lambda>s. s\<lparr>so_fd_free_pending :=
                   LWIP_SOCK_FD_FREE_FREE OR (if is_tcp then LWIP_SOCK_FD_FREE_TCP else 0)\<rparr>) n2;
          sys_arch_unprotect lev n3
        }
        else do {
          let lastdata = so_lastdata s2;
          n3 \<leftarrow> upd_sock i (\<lambda>s. s\<lparr>so_lastdata := 0, so_conn := 0\<rparr>) n2;
          n4 \<leftarrow> sys_arch_unprotect lev n3;
          (if lastdata = 0 then Some n4
           else if is_tcp then map_option snd (pbuf_free psize lastdata n4)
           else netbuf_delete psize lastdata n4)
        })
     }"

definition done_socket_locked :: "(memp_t \<Rightarrow> u16) \<Rightarrow> nat \<Rightarrow> net \<Rightarrow> net option" where
  "done_socket_locked psize i n =
     do {
       s \<leftarrow> sock_at i n;
       _ \<leftarrow> lwip_assert (so_fd_used s > 0) ();
       n1 \<leftarrow> upd_sock i (\<lambda>s. s\<lparr>so_fd_used := so_fd_used s - 1\<rparr>) n;
       s1 \<leftarrow> sock_at i n1;
       (if so_fd_used s1 = 0 \<and> so_fd_free_pending s1 \<noteq> 0
        then do {
          n2 \<leftarrow> upd_sock i (\<lambda>s. s\<lparr>so_fd_used := 1\<rparr>) n1;
          free_socket psize i (so_fd_free_pending s1 AND LWIP_SOCK_FD_FREE_TCP \<noteq> 0) n2
        }
        else Some n1)
     }"

definition done_socket :: "(memp_t \<Rightarrow> u16) \<Rightarrow> nat \<Rightarrow> net \<Rightarrow> net option" where
  "done_socket psize i n =
     do {
       let (lev, n1) = sys_arch_protect n;
       n2 \<leftarrow> done_socket_locked psize i n1;
       sys_arch_unprotect lev n2
     }"

section \<open>Lookup\<close>

definition tryget_socket_unconn_nouse :: "int \<Rightarrow> nat option" where
  "tryget_socket_unconn_nouse fd =
     (let s = fd - LWIP_SOCKET_OFFSET in if s < 0 \<or> s \<ge> int NUM_SOCKETS then None else Some (nat s))"

definition lwip_socket_dbg_get_socket :: "int \<Rightarrow> nat option" where
  "lwip_socket_dbg_get_socket fd = tryget_socket_unconn_nouse fd"

definition tryget_socket_unconn :: "int \<Rightarrow> net \<Rightarrow> (nat option \<times> net) option" where
  "tryget_socket_unconn fd n =
     (case tryget_socket_unconn_nouse fd of
        None \<Rightarrow> Some (None, n)
      | Some i \<Rightarrow> do { n1 \<leftarrow> sock_inc_used i n; Some (Some i, n1) })"

definition tryget_socket_unconn_locked :: "int \<Rightarrow> net \<Rightarrow> (nat option \<times> net) option" where
  "tryget_socket_unconn_locked fd n =
     (case tryget_socket_unconn_nouse fd of
        None \<Rightarrow> Some (None, n)
      | Some i \<Rightarrow> do { n1 \<leftarrow> sock_inc_used_locked i n; Some (Some i, n1) })"

definition tryget_socket :: "(memp_t \<Rightarrow> u16) \<Rightarrow> int \<Rightarrow> net \<Rightarrow> (nat option \<times> net) option" where
  "tryget_socket psize fd n =
     do {
       (sock, n1) \<leftarrow> tryget_socket_unconn fd n;
       (case sock of
          None \<Rightarrow> Some (None, n1)
        | Some i \<Rightarrow> do {
            s \<leftarrow> sock_at i n1;
            (if so_conn s \<noteq> 0 then Some (Some i, n1)
             else do { n2 \<leftarrow> done_socket psize i n1; Some (None, n2) })
          })
     }"

definition get_socket :: "(memp_t \<Rightarrow> u16) \<Rightarrow> int \<Rightarrow> net \<Rightarrow> (nat option \<times> net) option" where
  "get_socket psize fd n =
     do {
       (sock, n1) \<leftarrow> tryget_socket psize fd n;
       Some (if sock = None then (None, set_errno EBADF n1) else (sock, n1))
     }"

section \<open>Allocation\<close>

definition NETCONN_TCP :: u8 where "NETCONN_TCP = 0x10"
definition NETCONNTYPE_GROUP :: "u8 \<Rightarrow> u8" where "NETCONNTYPE_GROUP t = t AND 0xF0"

text \<open>The loop body for a socket that is free.\<close>

definition take_socket :: "nat \<Rightarrow> u32 \<Rightarrow> bool \<Rightarrow> u32 \<Rightarrow> net \<Rightarrow> (int \<times> net) option" where
  "take_socket i newconn accepted lev n =
     do {
       n1 \<leftarrow> upd_sock i (\<lambda>s. s\<lparr>so_fd_used := 1, so_fd_free_pending := 0, so_conn := newconn\<rparr>) n;
       n2 \<leftarrow> sys_arch_unprotect lev n1;
       n3 \<leftarrow> upd_sock i (\<lambda>s. s\<lparr>so_lastdata := 0\<rparr>) n2;
       s \<leftarrow> sock_at i n3;
       _ \<leftarrow> lwip_assert (so_select_waiting s = 0) ();
       c \<leftarrow> netconns n3 newconn;
       n4 \<leftarrow> upd_sock i (\<lambda>s. s\<lparr>so_rcvevent := 0,
                so_sendevent := (if NETCONNTYPE_GROUP (nc_type c) = NETCONN_TCP then (if accepted then 1 else 0) else 1),
                so_errevent := 0\<rparr>) n3;
       Some (int i + LWIP_SOCKET_OFFSET, n4)
     }"

text \<open>The loop over the sockets \<open>i\<close>, of which \<open>k\<close> are left.\<close>

primrec alloc_loop :: "u32 \<Rightarrow> bool \<Rightarrow> nat \<Rightarrow> net \<Rightarrow> (int \<times> net) option" where
  "alloc_loop newconn accepted 0 n = Some (- 1, n)"
| "alloc_loop newconn accepted (Suc k) n =
     do {
       let i = NUM_SOCKETS - Suc k;
       let (lev, n1) = sys_arch_protect n;
       s \<leftarrow> sock_at i n1;
       (if so_conn s = 0 \<and> so_fd_used s = 0 then take_socket i newconn accepted lev n1
        else do { n2 \<leftarrow> sys_arch_unprotect lev n1; alloc_loop newconn accepted k n2 })
     }"

definition alloc_socket :: "u32 \<Rightarrow> bool \<Rightarrow> net \<Rightarrow> (int \<times> net) option" where
  "alloc_socket newconn accepted n = alloc_loop newconn accepted NUM_SOCKETS n"

end
