(* ===== verification/Lwip_Socket_Safety.thy ===== *)
theory Lwip_Socket_Safety
  imports Lwip_Socket_Table Os_Task_Demo
begin

unbundle bit_operations_syntax

text \<open>
  A descriptor in use is not given to anybody else: an invariant of the socket table under every
  interleaving of the threads that look sockets up, are done with them, open and close them.
\<close>

section \<open>What the operations do to the table\<close>

lemma protect_frame: "sys_arch_protect n = (lev, n') \<Longrightarrow> sockets n' = sockets n"
  by (auto simp: sys_arch_protect_def)

lemma unprotect_frame: "sys_arch_unprotect lev n = Some n' \<Longrightarrow> sockets n' = sockets n"
  by (auto simp: sys_arch_unprotect_def lwip_assert_def Let_def split: if_splits)

lemma mem_free_frame: "mem_free a n = Some n' \<Longrightarrow> sockets n' = sockets n"
  by (auto simp: mem_free_def split: if_splits)

lemma memp_free_frame: "memp_free psize t a n = Some n' \<Longrightarrow> sockets n' = sockets n"
  by (auto simp: memp_free_def do_memp_free_pool_def lwip_assert_def Let_def
      dest!: mem_free_frame unprotect_frame protect_frame split: if_splits prod.splits elim!: bind_SomeE)

lemma recycle_frame: "pp_recycle_rx_pbuf a n = Some n' \<Longrightarrow> sockets n' = sockets n"
  by (auto simp: pp_recycle_rx_pbuf_def lwip_assert_def Let_def split: if_splits elim!: bind_SomeE)

lemma dealloc_frame: "pbuf_dealloc psize src a n = Some n' \<Longrightarrow> sockets n' = sockets n"
  by (auto simp: pbuf_dealloc_def Let_def dest!: mem_free_frame memp_free_frame recycle_frame
      split: if_splits elim!: bind_SomeE)

lemma upd_pbuf_frame: "upd_pbuf a f n = Some n' \<Longrightarrow> sockets n' = sockets n"
  by (auto simp: upd_pbuf_def elim!: bind_SomeE)

lemma free_loop_frame: "pbuf_free_loop psize cnt p n = Some r \<Longrightarrow> sockets (snd r) = sockets n"
proof (erule pbuf_free_loop.raw_induct[rotated, where P = "\<lambda>_ _ _ n r. sockets (snd r) = sockets n"])
  fix self :: "(memp_t \<Rightarrow> u16) \<Rightarrow> u8 \<Rightarrow> u32 \<Rightarrow> net \<Rightarrow> (u8 \<times> net) option"
    and psize cnt p n r
  assume IH: "\<And>psize cnt p n r. self psize cnt p n = Some r \<Longrightarrow> sockets (snd r) = sockets n"
  show "(if p = 0 then Some (cnt, n)
       else let (old_level, n1) = sys_arch_protect n in do {
        n2 \<leftarrow> upd_pbuf p (\<lambda>b. b\<lparr>pb_ref := pb_ref b - 1\<rparr>) n1;
        b \<leftarrow> pbufs n2 p;
        n3 \<leftarrow> sys_arch_unprotect old_level n2;
        (if pb_ref b = 0 then do {
           n4 \<leftarrow> pbuf_dealloc psize (pbuf_get_allocsrc b) p n3;
           self psize (cnt + 1) (pb_next b) n4
         }
         else Some (cnt, n3))
      }) = Some r \<Longrightarrow> sockets (snd r) = sockets n"
    by (auto simp: Let_def dest!: protect_frame upd_pbuf_frame unprotect_frame dealloc_frame IH
        split: if_splits prod.splits elim!: bind_SomeE)
qed

lemma pbuf_free_frame: "pbuf_free psize p n = Some (r, n') \<Longrightarrow> sockets n' = sockets n"
  using free_loop_frame[of psize 0 p n "(r, n')"] by (auto simp: pbuf_free_def split: if_splits)

lemma netbuf_delete_frame: "netbuf_delete psize a n = Some n' \<Longrightarrow> sockets n' = sockets n"
  by (auto simp: netbuf_delete_def free_held_def upd_netbuf_def dest!: memp_free_frame pbuf_free_frame
      split: if_splits elim!: bind_SomeE)


lemma upd_sock_eq: "upd_sock i f n = (if i < length (sockets n) then Some (n\<lparr>sockets := (sockets n)[i := f (sockets n ! i)]\<rparr>) else None)"
  by (simp add: upd_sock_def sock_at_def)

lemma inc_used_table:
  "sock_inc_used i n = Some n' \<Longrightarrow> i < length (sockets n) \<and> so_fd_used (sockets n ! i) + 1 \<noteq> 0
    \<and> sockets n' = (sockets n)[i := (sockets n ! i)\<lparr>so_fd_used := so_fd_used (sockets n ! i) + 1\<rparr>]"
  by (auto simp: sock_inc_used_def sock_inc_used_locked_def upd_sock_eq sock_at_def lwip_assert_def sys_arch_protect_def
      Let_def dest!: unprotect_frame split: if_splits elim!: bind_SomeE)

text \<open>What is left of a socket when one of its users frees it, or is done with it.\<close>

definition cleared :: "lwip_sock \<Rightarrow> lwip_sock" where
  "cleared s = s\<lparr>so_fd_used := 0, so_lastdata := 0, so_conn := 0\<rparr>"

definition after_free :: "bool \<Rightarrow> lwip_sock \<Rightarrow> lwip_sock" where
  "after_free tcp s =
     (if so_fd_used s > 1
      then s\<lparr>so_fd_used := so_fd_used s - 1, so_fd_free_pending := LWIP_SOCK_FD_FREE_FREE OR (if tcp then LWIP_SOCK_FD_FREE_TCP else 0)\<rparr>
      else cleared s)"

definition after_done :: "lwip_sock \<Rightarrow> lwip_sock" where
  "after_done s =
     (if so_fd_used s = 1 \<and> so_fd_free_pending s \<noteq> 0 then cleared s else s\<lparr>so_fd_used := so_fd_used s - 1\<rparr>)"

lemma used_minus: "0 < u \<Longrightarrow> 0 < u - 1 \<longleftrightarrow> 1 < (u :: u8)" "0 < u \<Longrightarrow> u - 1 = 0 \<longleftrightarrow> u = 1"
proof -
  assume "0 < u"
  then have "1 \<le> unat u" by (simp add: word_less_nat_alt)
  moreover from this have "unat (u - 1) = unat u - 1" by (simp add: unat_sub word_le_nat_alt)
  ultimately show "0 < u - 1 \<longleftrightarrow> 1 < u" by (simp add: word_less_nat_alt)
  show "u - 1 = 0 \<longleftrightarrow> u = 1" by auto
qed

lemma free_socket_table:
  assumes "free_socket psize i tcp n = Some n'"
  shows "i < length (sockets n) \<and> 0 < so_fd_used (sockets n ! i)
    \<and> sockets n' = (sockets n)[i := after_free tcp (sockets n ! i)]"
proof -
  let ?s = "sockets n ! i"
  have i: "i < length (sockets n)" and pos: "0 < so_fd_used ?s"
    using assms by (auto simp: free_socket_def sys_arch_protect_def sock_at_def lwip_assert_def Let_def split: if_splits elim!: bind_SomeE)
  have "sockets n' = (sockets n)[i := after_free tcp ?s]"
  proof (cases "1 < so_fd_used ?s")
    case True
    then show ?thesis
      using assms i pos by (auto simp: free_socket_def sys_arch_protect_def upd_sock_eq sock_at_def lwip_assert_def Let_def
          used_minus after_free_def dest!: unprotect_frame split: if_splits elim!: bind_SomeE)
  next
    case False
    then have "so_fd_used ?s = 1"
      using pos by (metis used_minus not_gr0 word_gt_0)
    then show ?thesis
      using assms i pos by (auto simp: free_socket_def sys_arch_protect_def upd_sock_eq sock_at_def lwip_assert_def Let_def
          used_minus after_free_def cleared_def dest!: unprotect_frame pbuf_free_frame netbuf_delete_frame
          split: if_splits elim!: bind_SomeE)
  qed
  then show ?thesis using i pos by simp
qed

lemma done_socket_table:
  assumes "done_socket psize i n = Some n'"
  shows "i < length (sockets n) \<and> 0 < so_fd_used (sockets n ! i) \<and> sockets n' = (sockets n)[i := after_done (sockets n ! i)]"
  using assms
  by (auto simp: done_socket_def done_socket_locked_def sys_arch_protect_def upd_sock_eq sock_at_def lwip_assert_def Let_def
      used_minus after_done_def after_free_def cleared_def
      dest!: unprotect_frame free_socket_table split: if_splits elim!: bind_SomeE)


text \<open>A fresh socket of a connection.\<close>

definition opened :: "u32 \<Rightarrow> lwip_sock \<Rightarrow> bool" where
  "opened c s \<longleftrightarrow> so_fd_used s = 1 \<and> so_fd_free_pending s = 0 \<and> so_conn s = c \<and> so_lastdata s = 0"

lemma take_socket_table:
  assumes "take_socket i c acc lev n = Some (fd, n')"
  shows "fd = int i + LWIP_SOCKET_OFFSET \<and> i < length (sockets n) \<and> opened c (sockets n' ! i) \<and> sockets n' = (sockets n)[i := sockets n' ! i]"
proof -
  have i: "i < length (sockets n)"
    using assms by (auto simp: take_socket_def upd_sock_eq split: if_splits elim!: bind_SomeE)
  show ?thesis
    using assms i
    by (auto simp: take_socket_def upd_sock_eq sock_at_def lwip_assert_def opened_def dest!: unprotect_frame
        split: if_splits elim!: bind_SomeE)
qed

lemma alloc_loop_table:
  assumes "alloc_loop c acc k n = Some (fd, n')" and "k \<le> NUM_SOCKETS"
  shows "fd = - 1 \<and> sockets n' = sockets n
    \<or> (\<exists>i < NUM_SOCKETS. fd = int i + LWIP_SOCKET_OFFSET \<and> i < length (sockets n) \<and> so_conn (sockets n ! i) = 0
         \<and> so_fd_used (sockets n ! i) = 0 \<and> opened c (sockets n' ! i) \<and> sockets n' = (sockets n)[i := sockets n' ! i])"
  using assms
proof (induction k arbitrary: n)
  case (Suc k)
  let ?i = "NUM_SOCKETS - Suc k"
  obtain lev n1 where p: "sys_arch_protect n = (lev, n1)" by fastforce
  then have n1: "sockets n1 = sockets n" by (rule protect_frame)
  consider (free) "so_conn (sockets n ! ?i) = 0" "so_fd_used (sockets n ! ?i) = 0" "take_socket ?i c acc lev n1 = Some (fd, n')"
    | (next_one) n2 where "sys_arch_unprotect lev n1 = Some n2" "alloc_loop c acc k n2 = Some (fd, n')"
    using Suc.prems(1) p n1 by (auto simp: sock_at_def Let_def split: if_splits elim!: bind_SomeE)
  then show ?case
  proof cases
    case free
    have "fd = int ?i + LWIP_SOCKET_OFFSET \<and> ?i < length (sockets n) \<and> opened c (sockets n' ! ?i)
      \<and> sockets n' = (sockets n)[?i := sockets n' ! ?i]"
      using take_socket_table[OF free(3)] n1 by simp
    moreover have "?i < NUM_SOCKETS" using Suc.prems(2) by simp
    ultimately show ?thesis using free(1,2) by blast
  next
    case next_one
    then have "sockets n2 = sockets n" using unprotect_frame n1 by metis
    then show ?thesis using Suc.IH[OF next_one(2)] Suc.prems(2) by simp
  qed
qed simp

lemmas alloc_socket_table = alloc_loop_table[of _ _ NUM_SOCKETS, folded alloc_socket_def, OF _ order_refl]

lemma unconn_table:
  assumes "tryget_socket_unconn fd n = Some (got, n')"
  shows "got = None \<and> n' = n
    \<or> (\<exists>i < NUM_SOCKETS. got = Some i \<and> fd = int i + LWIP_SOCKET_OFFSET \<and> sock_inc_used i n = Some n')"
  using assms
  by (auto simp: tryget_socket_unconn_def tryget_socket_unconn_nouse_def Let_def NUM_SOCKETS_def
      split: option.splits if_splits elim!: bind_SomeE)

section \<open>Threads at the table\<close>

text \<open>
  A state is the table with, for every socket, the number of threads that use it. Threads look
  descriptors up (\<open>tryget_socket_unconn\<close>, the lookup of all others), are done with them, open and close
  sockets, and use them: whoever uses a socket may change what it holds, but not the fields that the
  operations of the table keep.
\<close>

inductive table_step :: "(memp_t \<Rightarrow> u16) \<Rightarrow> (nat \<Rightarrow> nat) \<times> net \<Rightarrow> (nat \<Rightarrow> nat) \<times> net \<Rightarrow> bool" for psize where
  enter: "tryget_socket_unconn fd n = Some (Some i, n') \<Longrightarrow> table_step psize (U, n) (U(i := U i + 1), n')"
| miss: "tryget_socket_unconn fd n = Some (None, n') \<Longrightarrow> table_step psize (U, n) (U, n')"
| leave: "0 < U i \<Longrightarrow> done_socket psize i n = Some n' \<Longrightarrow> table_step psize (U, n) (U(i := U i - 1), n')"
| open_new: "alloc_socket c acc n = Some (int i + LWIP_SOCKET_OFFSET, n') \<Longrightarrow> table_step psize (U, n) (U(i := U i + 1), n')"
| open_none: "alloc_socket c acc n = Some (- 1, n') \<Longrightarrow> table_step psize (U, n) (U, n')"
| close: "0 < U i \<Longrightarrow> free_socket psize i tcp n = Some n' \<Longrightarrow> table_step psize (U, n) (U(i := U i - 1), n')"
| work: "length (sockets n') = length (sockets n) \<Longrightarrow>
    (\<And>i. i < length (sockets n) \<Longrightarrow> so_fd_used (sockets n' ! i) = so_fd_used (sockets n ! i)
       \<and> so_fd_free_pending (sockets n' ! i) = so_fd_free_pending (sockets n ! i)
       \<and> so_conn (sockets n' ! i) = so_conn (sockets n ! i)) \<Longrightarrow>
    table_step psize (U, n) (U, n')"

definition table_inv :: "(nat \<Rightarrow> nat) \<times> net \<Rightarrow> bool" where
  "table_inv S \<longleftrightarrow> (case S of (U, n) \<Rightarrow> length (sockets n) = NUM_SOCKETS
     \<and> (\<forall>i < NUM_SOCKETS. U i = unat (so_fd_used (sockets n ! i))
          \<and> (U i = 0 \<and> so_fd_free_pending (sockets n ! i) \<noteq> 0 \<longrightarrow> so_conn (sockets n ! i) = 0)))"


lemma unat_u8_up: "(u :: u8) + 1 \<noteq> 0 \<Longrightarrow> unat (u + 1) = unat u + 1"
  by (metis add.commute unatSuc Suc_eq_plus1)

lemma unat_u8_down: "0 < (u :: u8) \<Longrightarrow> unat (u - 1) = unat u - 1"
  by (simp add: unat_sub word_le_nat_alt word_less_nat_alt Suc_le_eq)

lemma unat_u8_last: "unat (u :: u8) \<le> Suc 0 \<Longrightarrow> 0 < u \<Longrightarrow> u = 1"
  by (simp add: word_unat_eq_iff word_less_nat_alt)

lemma inv_update:
  assumes "table_inv (U, n)" and "i < length (sockets n)" and "sockets n' = (sockets n)[i := s]"
    and "k = unat (so_fd_used s)" and "k = 0 \<and> so_fd_free_pending s \<noteq> 0 \<longrightarrow> so_conn s = 0"
  shows "table_inv (U(i := k), n')"
  using assms by (simp add: table_inv_def nth_list_update)

lemma inv_used:
  "table_inv (U, n) \<Longrightarrow> i < NUM_SOCKETS \<Longrightarrow> unat (so_fd_used (sockets n ! i)) = U i"
  "table_inv (U, n) \<Longrightarrow> length (sockets n) = NUM_SOCKETS"
  by (simp_all add: table_inv_def)

definition conns_kept :: "(nat \<Rightarrow> nat) \<times> net \<Rightarrow> (nat \<Rightarrow> nat) \<times> net \<Rightarrow> bool" where
  "conns_kept S S' \<longleftrightarrow> (\<forall>i < NUM_SOCKETS. 0 < fst S i \<and> 0 < fst S' i
     \<longrightarrow> so_conn (sockets (snd S') ! i) = so_conn (sockets (snd S) ! i))"

lemma kept_update:
  assumes "table_inv (U, n)" and "i < length (sockets n)" and "sockets n' = (sockets n)[i := s]"
    and "0 < U i \<Longrightarrow> 0 < U' i \<Longrightarrow> so_conn s = so_conn (sockets n ! i)"
  shows "conns_kept (U, n) (U', n')"
  using assms by (auto simp: conns_kept_def nth_list_update)

lemma table_step_inv:
  assumes "table_step psize S S'" and "table_inv S"
  shows "table_inv S' \<and> conns_kept S S'"
  using assms
proof (induction rule: table_step.cases)
  case (enter fd n i n' U)
  then have u: "sock_inc_used i n = Some n'" using unconn_table by fastforce
  note t = inc_used_table[OF u]
  have "U i = unat (so_fd_used (sockets n ! i))" using enter t inv_used by (metis (no_types))
  then show ?case
    using enter t unat_u8_up by (auto intro!: inv_update kept_update)
next
  case (leave U i n n')
  note t = done_socket_table[OF leave(4)]
  have "U i = unat (so_fd_used (sockets n ! i))" using leave t inv_used by (metis (no_types))
  then show ?case
    using leave t unat_u8_down[of "so_fd_used (sockets n ! i)"] unat_u8_last[of "so_fd_used (sockets n ! i)"]
    by (auto simp: after_done_def cleared_def intro!: inv_update kept_update)
next
  case (open_new c acc n i n' U)
  have t: "i < length (sockets n) \<and> so_fd_used (sockets n ! i) = 0 \<and> opened c (sockets n' ! i)
      \<and> sockets n' = (sockets n)[i := sockets n' ! i]"
    using alloc_socket_table[OF open_new(3)] by (auto simp: LWIP_SOCKET_OFFSET_def)
  have "U i = 0" using open_new t inv_used by (metis unat_0)
  then show ?case
    using open_new t by (auto simp: opened_def intro!: inv_update kept_update)
next
  case (close U i tcp n n')
  note t = free_socket_table[OF close(4)]
  have "U i = unat (so_fd_used (sockets n ! i))" using close t inv_used by (metis (no_types))
  then show ?case
    using close t unat_u8_down[of "so_fd_used (sockets n ! i)"]
    by (auto simp: after_free_def cleared_def word_less_nat_alt intro!: inv_update kept_update)
next
  case (miss fd n n' U)
  then have "n' = n" using unconn_table by fastforce
  then show ?case using miss by (simp add: conns_kept_def)
next
  case (open_none c acc n n' U)
  then have "sockets n' = sockets n" using alloc_socket_table[OF open_none(3)] by (auto simp: LWIP_SOCKET_OFFSET_def)
  then show ?case using open_none by (simp add: conns_kept_def table_inv_def)
next
  case (work n' n U)
  then show ?case by (simp add: conns_kept_def table_inv_def)
qed


section \<open>Properties\<close>

definition no_sock :: lwip_sock where
  "no_sock = \<lparr>so_conn = 0, so_lastdata = 0, so_rcvevent = 0, so_sendevent = 0, so_errevent = 0,
     so_select_waiting = 0, so_fd_used = 0, so_fd_free_pending = 0\<rparr>"

lemma reached_inv:
  assumes "(table_step psize)\<^sup>*\<^sup>* (\<lambda>_. 0, n0) S" and "sockets n0 = replicate NUM_SOCKETS no_sock"
  shows "table_inv S"
  using assms(1)
proof (induction rule: rtranclp_induct)
  case base
  show ?case using assms(2) by (simp add: table_inv_def no_sock_def)
next
  case (step S S')
  then show ?case using table_step_inv by blast
qed


text \<open>A TCP connection at address \<open>0x7000\<close> is given the first socket, and a second thread looks it up.\<close>

definition demo_conn :: netconn where
  "demo_conn = \<lparr>nc_type = 0x10, nc_state = 0, nc_pcb = 0x7100, nc_pending_err = 0, nc_op_completed = 1, nc_recvmbox = 1,
     nc_acceptmbox = 0, nc_socket = 3, nc_send_timeout = 0, nc_recv_timeout = 0, nc_flags = 0, nc_callback = 0\<rparr>"

definition demo_table :: "lwip_sock \<Rightarrow> net" where
  "demo_table s = \<lparr>kernel = demo_cold, critical_nesting = 0, pp_rx_pool_usage = 0, recycled = [],
     pbufs = Map.empty, netbufs = Map.empty, netconns = [0x7000 \<mapsto> demo_conn],
     sockets = s # replicate 11 no_sock, mcasts4 = [], mcasts6 = [], errno = 0\<rparr>"

definition demo_sock :: "u8 \<Rightarrow> lwip_sock" where
  "demo_sock u = no_sock\<lparr>so_fd_used := u, so_conn := 0x7000\<rparr>"

lemma demo_protect:
  "sys_arch_protect (demo_table s) = (0, (demo_table s)\<lparr>kernel := vPortEnterCritical demo_cold, critical_nesting := 1\<rparr>)"
  by (simp add: sys_arch_protect_def demo_table_def)

lemma demo_unprotect:
  "sys_arch_unprotect 0 ((demo_table s)\<lparr>kernel := vPortEnterCritical demo_cold, critical_nesting := 1, sockets := r # replicate 11 no_sock\<rparr>)
     = Some (demo_table r)"
  by (simp add: sys_arch_unprotect_def lwip_assert_def demo_table_def vPortExitCritical_def vPortEnterCritical_def)

lemma demo_open: "alloc_socket 0x7000 False (demo_table no_sock) = Some (3, demo_table (demo_sock 1))"
proof -
  have "alloc_socket 0x7000 False (demo_table no_sock) = take_socket 0 0x7000 False 0
      ((demo_table no_sock)\<lparr>kernel := vPortEnterCritical demo_cold, critical_nesting := 1\<rparr>)"
    by (simp add: alloc_socket_def NUM_SOCKETS_def numeral_eq_Suc demo_protect sock_at_def)
      (simp add: demo_table_def no_sock_def)
  also have "\<dots> = Some (3, demo_table (demo_sock 1))"
    by (simp add: take_socket_def upd_sock_eq sock_at_def lwip_assert_def demo_table_def demo_sock_def no_sock_def
        sys_arch_unprotect_def vPortExitCritical_def vPortEnterCritical_def demo_conn_def NETCONNTYPE_GROUP_def
        NETCONN_TCP_def LWIP_SOCKET_OFFSET_def)
  finally show ?thesis .
qed


lemma demo_lookup: "tryget_socket_unconn 3 (demo_table (demo_sock 1)) = Some (Some 0, demo_table (demo_sock 2))"
  by (simp add: tryget_socket_unconn_def tryget_socket_unconn_nouse_def LWIP_SOCKET_OFFSET_def NUM_SOCKETS_def
      sock_inc_used_def sock_inc_used_locked_def upd_sock_eq sock_at_def lwip_assert_def demo_protect)
    (simp add: demo_table_def demo_sock_def no_sock_def sys_arch_unprotect_def lwip_assert_def
      vPortExitCritical_def vPortEnterCritical_def)


end
