(* ===== verification/Lwip_Netconn.thy ===== *)
theory Lwip_Netconn
  imports Lwip_Socket_Table
begin

unbundle bit_operations_syntax

text \<open>
  The sequential interface to connections: \<^verbatim>\<open>src/ffi/lwip/api.c\<close>. Every operation that needs the stack
  fills in a message and has the TCP/IP thread run one of its functions (\<open>netconn_apimsg\<close>); received
  packets come out of the connection's mailbox. A pointer to a result is a result of the model; a
  null pointer where the code checks for one is \<open>0\<close> or \<open>None\<close>.
\<close>

section \<open>Flags: api.h, api_msg.h\<close>

definition NETCONN_COPY :: u8 where "NETCONN_COPY = 0x01"
definition NETCONN_MORE :: u8 where "NETCONN_MORE = 0x02"
definition NETCONN_DONTBLOCK :: u8 where "NETCONN_DONTBLOCK = 0x04"
definition NETCONN_NOAUTORCVD :: u8 where "NETCONN_NOAUTORCVD = 0x08"
definition NETCONN_NOFIN :: u8 where "NETCONN_NOFIN = 0x10"

definition NETCONN_FLAG_MBOXCLOSED :: u8 where "NETCONN_FLAG_MBOXCLOSED = 0x01"
definition NETCONN_FLAG_NON_BLOCKING :: u8 where "NETCONN_FLAG_NON_BLOCKING = 0x02"
definition NETCONN_FLAG_IPV6_V6ONLY :: u8 where "NETCONN_FLAG_IPV6_V6ONLY = 0x20"
definition NETCONN_FIN_RX_PENDING :: u8 where "NETCONN_FIN_RX_PENDING = 0x80"

definition NETCONN_SHUT_RD :: u8 where "NETCONN_SHUT_RD = 1"
definition NETCONN_SHUT_WR :: u8 where "NETCONN_SHUT_WR = 2"
definition NETCONN_SHUT_RDWR :: u8 where "NETCONN_SHUT_RDWR = 3"
definition NETIF_NO_INDEX :: u8 where "NETIF_NO_INDEX = 0"
definition ISIZE_MAX :: u32 where "ISIZE_MAX = 0x7fffffff"

lemmas api_flags = NETCONN_COPY_def NETCONN_MORE_def NETCONN_DONTBLOCK_def NETCONN_NOAUTORCVD_def
  NETCONN_NOFIN_def

definition netconn_is_flag_set :: "netconn \<Rightarrow> u8 \<Rightarrow> bool" where
  "netconn_is_flag_set b f \<longleftrightarrow> nc_flags b AND f \<noteq> 0"

definition netconn_set_flags :: "u8 \<Rightarrow> netconn \<Rightarrow> netconn" where
  "netconn_set_flags f b = b\<lparr>nc_flags := nc_flags b OR f\<rparr>"

definition netconn_clear_flags :: "u8 \<Rightarrow> netconn \<Rightarrow> netconn" where
  "netconn_clear_flags f b = b\<lparr>nc_flags := nc_flags b AND NOT f\<rparr>"

definition netconn_is_nonblocking :: "netconn \<Rightarrow> bool" where
  "netconn_is_nonblocking b \<longleftrightarrow> netconn_is_flag_set b NETCONN_FLAG_NON_BLOCKING"

section \<open>Access to connections\<close>

definition conn_at :: "u32 \<Rightarrow> 'w host \<Rightarrow> netconn option" where
  "conn_at c h = netconns (fst h) c"

definition upd_conn :: "u32 \<Rightarrow> (netconn \<Rightarrow> netconn) \<Rightarrow> 'w host \<Rightarrow> 'w host option" where
  "upd_conn c f h = do { b \<leftarrow> conn_at c h; Some ((fst h)\<lparr>netconns := (netconns (fst h))(c \<mapsto> f b)\<rparr>, snd h) }"

definition API_EVENT :: "'w ext \<Rightarrow> u32 \<Rightarrow> netconn_evt \<Rightarrow> u16 \<Rightarrow> 'w host \<Rightarrow> 'w host option" where
  "API_EVENT ext c e len h =
     do {
       b \<leftarrow> conn_at c h;
       (if nc_callback b \<noteq> 0 then call_event ext (nc_callback b) c e len h else Some h)
     }"

definition netconn_apimsg :: "'w ext \<Rightarrow> api_fn \<Rightarrow> u32 \<Rightarrow> api_args \<Rightarrow> 'w host \<Rightarrow> (u8 \<times> api_args \<times> 'w host) option" where
  "netconn_apimsg ext fn c args h =
     do {
       (st, err, args', h') \<leftarrow> send_msg ext fn \<lparr>am_conn = c, am_args = args\<rparr> h;
       Some (if st = ERR_OK then err else st, args', h')
     }"

text \<open>An operation that only sends one message.\<close>

definition netconn_request :: "'w ext \<Rightarrow> api_fn \<Rightarrow> u32 \<Rightarrow> api_args \<Rightarrow> 'w host \<Rightarrow> (u8 \<times> 'w host) option" where
  "netconn_request ext fn c args h =
     (if c = 0 then None
      else do { (err, _, h') \<leftarrow> netconn_apimsg ext fn c args h; Some (err, h') })"

section \<open>Creating and deleting\<close>

definition netconn_new_with_proto_and_callback ::
    "'w ext \<Rightarrow> u8 \<Rightarrow> u8 \<Rightarrow> u32 \<Rightarrow> 'w host \<Rightarrow> (u32 \<times> 'w host) option" where
  "netconn_new_with_proto_and_callback ext t proto callback h =
     do {
       let (c, h1) = conn_alloc ext t callback h;
       (if c = 0 then Some (0, h1)
        else do {
          (err, _, h2) \<leftarrow> netconn_apimsg ext DO_NEWCONN c (NewArgs proto) h1;
          (if err = ERR_OK then Some (c, h2)
           else do {
             b \<leftarrow> conn_at c h2;
             _ \<leftarrow> lwip_assert (nc_pcb b = 0 \<and> mbox_valid ext (nc_recvmbox b) h2
                     \<and> \<not> mbox_valid ext (nc_acceptmbox b) h2 \<and> sem_valid ext (nc_op_completed b) h2) ();
             let h3 = sem_free ext (nc_op_completed b) h2;
             let h4 = mbox_free ext (nc_recvmbox b) h3;
             n5 \<leftarrow> memp_free (pool_size ext) MEMP_NETCONN c (fst h4);
             Some (0, n5\<lparr>netconns := (netconns n5)(c := None)\<rparr>, snd h4)
           })
        })
     }"

definition netconn_delete :: "'w ext \<Rightarrow> u32 \<Rightarrow> 'w host \<Rightarrow> (u8 \<times> 'w host) option" where
  "netconn_delete ext c h =
     (if c = 0 then Some (ERR_OK, h)
      else do {
        (err, _, h1) \<leftarrow> netconn_apimsg ext DO_DELCONN c (TimeArgs (sys_now ext h)) h;
        (if err \<noteq> ERR_OK then Some (err, h1)
         else do { h2 \<leftarrow> conn_free ext c h1; Some (ERR_OK, h2) })
      })"

section \<open>Addresses and state of a connection\<close>

definition netconn_getaddr ::
    "'w ext \<Rightarrow> u32 \<Rightarrow> ip_addr_t option \<Rightarrow> u16 option \<Rightarrow> u8 \<Rightarrow> 'w host \<Rightarrow> (u8 \<times> ip_addr_t \<times> u16 \<times> 'w host) option" where
  "netconn_getaddr ext c addr port local h =
     (if c = 0 then None
      else do {
        a \<leftarrow> addr;
        p \<leftarrow> port;
        (err, args, h1) \<leftarrow> netconn_apimsg ext DO_GETADDR c (GetAddrArgs a p local) h;
        (case args of GetAddrArgs a' p' _ \<Rightarrow> Some (err, a', p', h1) | _ \<Rightarrow> None)
      })"

text \<open>The null address stands for the IPv4 address "any".\<close>

definition addr_or_any :: "ip_addr_t option \<Rightarrow> ip_addr_t" where
  "addr_or_any addr = (case addr of None \<Rightarrow> ip_addr_any | Some a \<Rightarrow> a)"

definition netconn_bind :: "'w ext \<Rightarrow> u32 \<Rightarrow> ip_addr_t option \<Rightarrow> u16 \<Rightarrow> 'w host \<Rightarrow> (u8 \<times> 'w host) option" where
  "netconn_bind ext c addr port h =
     (if c = 0 then None
      else do {
        b \<leftarrow> conn_at c h;
        let a = addr_or_any addr;
        let a1 = (if \<not> netconn_is_flag_set b NETCONN_FLAG_IPV6_V6ONLY \<and> ip_addr_cmp a (ip6_addr_any ext)
                  then ip_addr_any_type ext else a);
        netconn_request ext DO_BIND c (AddrArgs a1 port) h
      })"

definition netconn_bind_if :: "'w ext \<Rightarrow> u32 \<Rightarrow> u8 \<Rightarrow> 'w host \<Rightarrow> (u8 \<times> 'w host) option" where
  "netconn_bind_if ext c if_idx h = netconn_request ext DO_BIND_IF c (IfArgs if_idx) h"

definition netconn_connect :: "'w ext \<Rightarrow> u32 \<Rightarrow> ip_addr_t option \<Rightarrow> u16 \<Rightarrow> 'w host \<Rightarrow> (u8 \<times> 'w host) option" where
  "netconn_connect ext c addr port h = netconn_request ext DO_CONNECT c (AddrArgs (addr_or_any addr) port) h"

definition netconn_disconnect :: "'w ext \<Rightarrow> u32 \<Rightarrow> 'w host \<Rightarrow> (u8 \<times> 'w host) option" where
  "netconn_disconnect ext c h = netconn_request ext DO_DISCONNECT c NoArgs h"

definition netconn_listen_with_backlog :: "'w ext \<Rightarrow> u32 \<Rightarrow> u8 \<Rightarrow> 'w host \<Rightarrow> (u8 \<times> 'w host) option" where
  "netconn_listen_with_backlog ext c backlog h = netconn_request ext DO_LISTEN c (BacklogArgs backlog) h"

text \<open>The pending error is taken under protection.\<close>

definition netconn_err :: "u32 \<Rightarrow> 'w host \<Rightarrow> (u8 \<times> 'w host) option" where
  "netconn_err c h =
     (if c = 0 then Some (ERR_OK, h)
      else do {
        let (lev, n1) = sys_arch_protect (fst h);
        b \<leftarrow> conn_at c (n1, snd h);
        h2 \<leftarrow> upd_conn c (\<lambda>b. b\<lparr>nc_pending_err := ERR_OK\<rparr>) (n1, snd h);
        n3 \<leftarrow> sys_arch_unprotect lev (fst h2);
        Some (nc_pending_err b, n3, snd h2)
      })"

definition netconn_close_shutdown :: "'w ext \<Rightarrow> u32 \<Rightarrow> u8 \<Rightarrow> 'w host \<Rightarrow> (u8 \<times> 'w host) option" where
  "netconn_close_shutdown ext c how h = netconn_request ext DO_CLOSE c (ShutArgs how (sys_now ext h)) h"

definition netconn_close :: "'w ext \<Rightarrow> u32 \<Rightarrow> 'w host \<Rightarrow> (u8 \<times> 'w host) option" where
  "netconn_close ext c h = netconn_close_shutdown ext c NETCONN_SHUT_RDWR h"

definition netconn_shutdown :: "'w ext \<Rightarrow> u32 \<Rightarrow> u8 \<Rightarrow> u8 \<Rightarrow> 'w host \<Rightarrow> (u8 \<times> 'w host) option" where
  "netconn_shutdown ext c shut_rx shut_tx h =
     netconn_close_shutdown ext c
       ((if shut_rx \<noteq> 0 then NETCONN_SHUT_RD else 0) OR (if shut_tx \<noteq> 0 then NETCONN_SHUT_WR else 0)) h"

section \<open>Multicast groups and names\<close>

definition netconn_join_leave_group ::
    "'w ext \<Rightarrow> u32 \<Rightarrow> ip_addr_t option \<Rightarrow> ip_addr_t option \<Rightarrow> netconn_igmp \<Rightarrow> 'w host \<Rightarrow> (u8 \<times> 'w host) option" where
  "netconn_join_leave_group ext c multiaddr netif_addr j h =
     netconn_request ext DO_JOIN_LEAVE_GROUP c (GroupArgs (addr_or_any multiaddr) (addr_or_any netif_addr) j) h"

definition netconn_join_leave_group_netif ::
    "'w ext \<Rightarrow> u32 \<Rightarrow> ip_addr_t option \<Rightarrow> u8 \<Rightarrow> netconn_igmp \<Rightarrow> 'w host \<Rightarrow> (u8 \<times> 'w host) option" where
  "netconn_join_leave_group_netif ext c multiaddr if_idx j h =
     (if c = 0 then None
      else if if_idx = NETIF_NO_INDEX then Some (ERR_IF, h)
      else netconn_request ext DO_JOIN_LEAVE_GROUP_NETIF c (GroupIfArgs (addr_or_any multiaddr) if_idx j) h)"

text \<open>The query's error is written through a pointer; before, it holds the result of \<open>sys_sem_new\<close>.\<close>

definition netconn_gethostbyname_addrtype ::
    "'w ext \<Rightarrow> u32 \<Rightarrow> ip_addr_t option \<Rightarrow> u8 \<Rightarrow> 'w host \<Rightarrow> (u8 \<times> ip_addr_t \<times> 'w host) option" where
  "netconn_gethostbyname_addrtype ext name addr dns_addrtype h =
     (if name = 0 then None
      else do {
        a \<leftarrow> addr;
        let (err, sem, h1) = sem_new ext 0 h;
        (if err \<noteq> ERR_OK then Some (err, a, h1)
         else do {
           (cberr, err', a', h2) \<leftarrow> send_dns ext name a dns_addrtype sem err h1;
           let h3 = sem_free ext sem h2;
           Some (if cberr \<noteq> ERR_OK then cberr else err', a', h3)
         })
      })"

end
