(* ===== verification/Lwip_Netconn_Data.thy ===== *)
theory Lwip_Netconn_Data
  imports Lwip_Netconn
begin

unbundle bit_operations_syntax

text \<open>
  Accepting connections and moving data: the second half of \<^verbatim>\<open>src/ffi/lwip/api.c\<close>.
\<close>

section \<open>Accepting\<close>

text \<open>The result is the error, the new connection and the state. The null pointer to it is not modelled:
  it aborts the program like the null connection.\<close>

definition mbox_get :: "'w ext \<Rightarrow> bool \<Rightarrow> u8 \<Rightarrow> u32 \<Rightarrow> 'w host \<Rightarrow> (u32 option \<times> 'w host) option" where
  "mbox_get ext nonblocking mbox timeout h =
     (if nonblocking then mbox_tryfetch ext mbox h else mbox_fetch ext mbox timeout h)"

definition netconn_accept :: "'w ext \<Rightarrow> u32 \<Rightarrow> 'w host \<Rightarrow> (u8 \<times> u32 \<times> 'w host) option" where
  "netconn_accept ext c h =
     (if c = 0 then None
      else do {
        (err, h1) \<leftarrow> netconn_err c h;
        b \<leftarrow> conn_at c h1;
        (if err \<noteq> ERR_OK then Some (err, 0, h1)
         else if netconn_is_flag_set b NETCONN_FLAG_MBOXCLOSED then Some (ERR_CLSD, 0, h1)
         else if \<not> mbox_valid ext (nc_acceptmbox b) h1 then Some (ERR_CLSD, 0, h1)
         else do {
           (got, h2) \<leftarrow> mbox_get ext (netconn_is_nonblocking b) (nc_acceptmbox b) (nc_recv_timeout b) h1;
           (case got of
              None \<Rightarrow> Some (if netconn_is_nonblocking b then ERR_WOULDBLOCK else ERR_TIMEOUT, 0, h2)
            | Some accept_ptr \<Rightarrow> do {
                h3 \<leftarrow> API_EVENT ext c NETCONN_EVT_RCVMINUS 0 h2;
                (case is_err_msg ext accept_ptr of
                   Some e \<Rightarrow> Some (e, 0, h3)
                 | None \<Rightarrow>
                     (if accept_ptr = 0 then Some (ERR_CLSD, 0, h3)
                      else do {
                        (_, _, h4) \<leftarrow> netconn_apimsg ext DO_ACCEPTED accept_ptr NoArgs h3;
                        Some (ERR_OK, accept_ptr, h4)
                      }))
              })
         })
      })"

section \<open>Receiving\<close>

definition netconn_recv_data :: "'w ext \<Rightarrow> u32 \<Rightarrow> u8 \<Rightarrow> 'w host \<Rightarrow> (u8 \<times> u32 \<times> 'w host) option" where
  "netconn_recv_data ext c apiflags h =
     (if c = 0 then None
      else do {
        b \<leftarrow> conn_at c h;
        (if \<not> mbox_valid ext (nc_recvmbox b) h
         then do { (err, h1) \<leftarrow> netconn_err c h; Some (if err \<noteq> ERR_OK then err else ERR_CONN, 0, h1) }
         else do {
           let dontwait = netconn_is_nonblocking b \<or> apiflags AND NETCONN_DONTBLOCK \<noteq> 0
                          \<or> netconn_is_flag_set b NETCONN_FLAG_MBOXCLOSED \<or> nc_pending_err b \<noteq> ERR_OK;
           (got, h1) \<leftarrow> mbox_get ext dontwait (nc_recvmbox b) (nc_recv_timeout b) h;
           (case got of
              None \<Rightarrow>
                (if dontwait
                 then do {
                   (err, h2) \<leftarrow> netconn_err c h1;
                   b2 \<leftarrow> conn_at c h2;
                   Some (if err \<noteq> ERR_OK then err
                         else if netconn_is_flag_set b2 NETCONN_FLAG_MBOXCLOSED then ERR_CONN
                         else ERR_WOULDBLOCK, 0, h2)
                 }
                 else Some (ERR_TIMEOUT, 0, h1))
            | Some buf \<Rightarrow> do {
                b1 \<leftarrow> conn_at c h1;
                (case (if NETCONNTYPE_GROUP (nc_type b1) = NETCONN_TCP then is_err_msg ext buf else None) of
                   Some e \<Rightarrow> Some (if e = ERR_CLSD then ERR_OK else e, 0, h1)
                 | None \<Rightarrow> do {
                     len \<leftarrow> (if NETCONNTYPE_GROUP (nc_type b1) = NETCONN_TCP
                             then do { p \<leftarrow> pbufs (fst h1) buf; Some (pb_tot_len p) }
                             else do {
                               _ \<leftarrow> lwip_assert (buf \<noteq> 0) ();
                               nb \<leftarrow> netbufs (fst h1) buf;
                               p \<leftarrow> pbufs (fst h1) (nb_p nb);
                               Some (pb_tot_len p)
                             });
                     h2 \<leftarrow> API_EVENT ext c NETCONN_EVT_RCVMINUS len h1;
                     Some (ERR_OK, buf, h2)
                   })
              })
         })
      })"

text \<open>The check of the connection that the functions on TCP connections begin with.\<close>

definition tcp_conn :: "u32 \<Rightarrow> 'w host \<Rightarrow> bool" where
  "tcp_conn c h \<longleftrightarrow> c \<noteq> 0 \<and> (case conn_at c h of None \<Rightarrow> False | Some b \<Rightarrow> NETCONNTYPE_GROUP (nc_type b) = NETCONN_TCP)"

definition netconn_tcp_recvd_msg :: "'w ext \<Rightarrow> u32 \<Rightarrow> u32 \<Rightarrow> 'w host \<Rightarrow> (u8 \<times> 'w host) option" where
  "netconn_tcp_recvd_msg ext c len h =
     (if \<not> tcp_conn c h then None
      else do { (err, _, h1) \<leftarrow> netconn_apimsg ext DO_RECV c (RecvArgs len) h; Some (err, h1) })"

definition netconn_tcp_recvd :: "'w ext \<Rightarrow> u32 \<Rightarrow> u32 \<Rightarrow> 'w host \<Rightarrow> (u8 \<times> 'w host) option" where
  "netconn_tcp_recvd ext c len h = (if \<not> tcp_conn c h then None else netconn_tcp_recvd_msg ext c len h)"

text \<open>The end of the stream, at the label \<open>handle_fin\<close>: the error and the state.\<close>

definition handle_fin :: "'w ext \<Rightarrow> u32 \<Rightarrow> 'w host \<Rightarrow> (u8 \<times> 'w host) option" where
  "handle_fin ext c h =
     do {
       h1 \<leftarrow> API_EVENT ext c NETCONN_EVT_RCVMINUS 0 h;
       b \<leftarrow> conn_at c h1;
       (if nc_pcb b = 0
        then do { (err, h2) \<leftarrow> netconn_err c h1; Some (if err \<noteq> ERR_OK then err else ERR_RST, h2) }
        else do { (_, h2) \<leftarrow> netconn_close_shutdown ext c NETCONN_SHUT_RD h1; Some (ERR_CLSD, h2) })
     }"

text \<open>\<open>new_buf\<close> is the buffer pointer before the call; some errors leave it as it is.\<close>

definition netconn_recv_data_tcp ::
    "'w ext \<Rightarrow> u32 \<Rightarrow> u32 \<Rightarrow> u8 \<Rightarrow> 'w host \<Rightarrow> (u8 \<times> u32 \<times> 'w host) option" where
  "netconn_recv_data_tcp ext c new_buf apiflags h =
     do {
       b \<leftarrow> conn_at c h;
       (if \<not> mbox_valid ext (nc_recvmbox b) h then Some (ERR_CONN, new_buf, h)
        else if netconn_is_flag_set b NETCONN_FIN_RX_PENDING
        then do {
          h1 \<leftarrow> upd_conn c (netconn_clear_flags NETCONN_FIN_RX_PENDING) h;
          (err, h2) \<leftarrow> handle_fin ext c h1;
          Some (err, new_buf, h2)
        }
        else do {
          (err, buf, h1) \<leftarrow> netconn_recv_data ext c apiflags h;
          (if err \<noteq> ERR_OK then Some (err, buf, h1)
           else do {
             h2 \<leftarrow> (if apiflags AND NETCONN_NOAUTORCVD = 0
                    then do {
                      len \<leftarrow> (if buf \<noteq> 0 then do { p \<leftarrow> pbufs (fst h1) buf; Some (pb_tot_len p) } else Some 1);
                      (_, h') \<leftarrow> netconn_tcp_recvd_msg ext c (ucast len) h1;
                      Some h'
                    }
                    else Some h1);
             (if buf = 0
              then (if apiflags AND NETCONN_NOFIN \<noteq> 0
                    then do { h3 \<leftarrow> upd_conn c (netconn_set_flags NETCONN_FIN_RX_PENDING) h2;
                              Some (ERR_WOULDBLOCK, buf, h3) }
                    else do { (e, h3) \<leftarrow> handle_fin ext c h2; Some (e, buf, h3) })
              else Some (err, buf, h2))
           })
        })
     }"

definition netconn_recv_tcp_pbuf_flags ::
    "'w ext \<Rightarrow> u32 \<Rightarrow> u32 \<Rightarrow> u8 \<Rightarrow> 'w host \<Rightarrow> (u8 \<times> u32 \<times> 'w host) option" where
  "netconn_recv_tcp_pbuf_flags ext c new_buf apiflags h =
     (if \<not> tcp_conn c h then None else netconn_recv_data_tcp ext c new_buf apiflags h)"

definition netconn_recv_tcp_pbuf :: "'w ext \<Rightarrow> u32 \<Rightarrow> u32 \<Rightarrow> 'w host \<Rightarrow> (u8 \<times> u32 \<times> 'w host) option" where
  "netconn_recv_tcp_pbuf ext c new_buf h =
     (if \<not> tcp_conn c h then None else netconn_recv_data_tcp ext c new_buf 0 h)"

definition datagram_conn :: "u32 \<Rightarrow> 'w host \<Rightarrow> bool" where
  "datagram_conn c h \<longleftrightarrow>
     c \<noteq> 0 \<and> (case conn_at c h of None \<Rightarrow> False | Some b \<Rightarrow> NETCONNTYPE_GROUP (nc_type b) \<noteq> NETCONN_TCP)"

definition netconn_recv_udp_raw_netbuf_flags :: "'w ext \<Rightarrow> u32 \<Rightarrow> u8 \<Rightarrow> 'w host \<Rightarrow> (u8 \<times> u32 \<times> 'w host) option" where
  "netconn_recv_udp_raw_netbuf_flags ext c apiflags h =
     (if \<not> datagram_conn c h then None else netconn_recv_data ext c apiflags h)"

definition netconn_recv_udp_raw_netbuf :: "'w ext \<Rightarrow> u32 \<Rightarrow> 'w host \<Rightarrow> (u8 \<times> u32 \<times> 'w host) option" where
  "netconn_recv_udp_raw_netbuf ext c h =
     (if \<not> datagram_conn c h then None else netconn_recv_data ext c 0 h)"

text \<open>
  Of a TCP connection \<open>netconn_recv\<close> wraps the packet in a network buffer. The buffer is not taken from
  the pool: the number of the pool, 5 under the configuration, is the number of bytes asked of the heap,
  and a block of the heap is given back to the pool when no packet comes. Its memory is not initialised;
  \<open>junk\<close> is the address in it.
\<close>

definition MEMP_NETBUF_number :: u32 where "MEMP_NETBUF_number = 5"

definition clear_addr :: "ip_addr_t \<Rightarrow> ip_addr_t" where
  "clear_addr a =
     (if ip_type a = IPADDR_TYPE_V6 then a\<lparr>ip_words := [0, 0, 0, 0]\<rparr> else a\<lparr>ip_words := (ip_words a)[0 := 0]\<rparr>)"

definition netconn_recv :: "'w ext \<Rightarrow> ip_addr_t \<Rightarrow> u32 \<Rightarrow> 'w host \<Rightarrow> (u8 \<times> u32 \<times> 'w host) option" where
  "netconn_recv ext junk c h =
     (if c = 0 then None
      else do {
        b \<leftarrow> conn_at c h;
        (if NETCONNTYPE_GROUP (nc_type b) = NETCONN_TCP
         then do {
           let (buf, k) = pvPortMalloc (heap_malloc ext) MEMP_NETBUF_number (kernel (fst h));
           let h1 = ((fst h)\<lparr>kernel := k\<rparr>, snd h);
           (if buf = 0 then Some (ERR_MEM, 0, h1)
            else do {
              (err, p, h2) \<leftarrow> netconn_recv_data_tcp ext c 0 0 h1;
              (if err \<noteq> ERR_OK
               then do { n3 \<leftarrow> memp_free (pool_size ext) MEMP_NETBUF buf (fst h2); Some (err, 0, n3, snd h2) }
               else do {
                 _ \<leftarrow> lwip_assert (p \<noteq> 0) ();
                 let nb = \<lparr>nb_p = p, nb_ptr = p, nb_addr = clear_addr junk, nb_port = 0\<rparr>;
                 Some (ERR_OK, buf, (fst h2)\<lparr>netbufs := (netbufs (fst h2))(buf \<mapsto> nb)\<rparr>, snd h2)
               })
            })
         }
         else netconn_recv_data ext c 0 h)
      })"

section \<open>Sending\<close>

definition netconn_send :: "'w ext \<Rightarrow> u32 \<Rightarrow> u32 \<Rightarrow> 'w host \<Rightarrow> (u8 \<times> 'w host) option" where
  "netconn_send ext c buf h = netconn_request ext DO_SEND c (SendArgs buf) h"

definition netconn_sendto :: "'w ext \<Rightarrow> u32 \<Rightarrow> u32 \<Rightarrow> ip_addr_t option \<Rightarrow> u16 \<Rightarrow> 'w host \<Rightarrow> (u8 \<times> 'w host) option" where
  "netconn_sendto ext c buf addr port h =
     (if buf \<noteq> 0
      then do {
        n1 \<leftarrow> upd_netbuf buf (\<lambda>b. b\<lparr>nb_addr := addr_or_any addr, nb_port := port\<rparr>) (fst h);
        netconn_send ext c buf (n1, snd h)
      }
      else Some (ERR_VAL, h))"

text \<open>The total size of the vectors, or \<open>None\<close> when the sum wraps.\<close>

fun sum_lengths :: "u32 \<Rightarrow> u32 list \<Rightarrow> u32 option" where
  "sum_lengths sz [] = Some sz"
| "sum_lengths sz (l # ls) = (let sz1 = sz + l in if sz1 < l then None else sum_lengths sz1 ls)"

text \<open>\<open>bytes_written\<close> is what the pointer points to, or \<open>None\<close> for the null pointer.\<close>

definition netconn_write_vectors_partly ::
    "'w ext \<Rightarrow> u32 \<Rightarrow> (u32 \<times> u32) list \<Rightarrow> u16 \<Rightarrow> u8 \<Rightarrow> u32 option \<Rightarrow> 'w host \<Rightarrow> (u8 \<times> u32 option \<times> 'w host) option" where
  "netconn_write_vectors_partly ext c vectors vectorcnt apiflags bytes_written h =
     (if c = 0 then None
      else do {
        b \<leftarrow> conn_at c h;
        _ \<leftarrow> lwip_assert (NETCONNTYPE_GROUP (nc_type b) = NETCONN_TCP) ();
        let dontblock = netconn_is_nonblocking b \<or> apiflags AND NETCONN_DONTBLOCK \<noteq> 0 \<or> nc_send_timeout b \<noteq> 0;
        (if dontblock \<and> bytes_written = None then Some (ERR_VAL, bytes_written, h)
         else if length vectors < unat vectorcnt then None
         else (case sum_lengths 0 (map snd (take (unat vectorcnt) vectors)) of
             None \<Rightarrow> Some (ERR_VAL, bytes_written, h)
           | Some whole \<Rightarrow>
               (if whole = 0 then Some (ERR_OK, bytes_written, h)
                else if whole > ISIZE_MAX \<and> bytes_written = None then Some (ERR_VAL, bytes_written, h)
                else do {
                  let sz = (if whole > ISIZE_MAX then ISIZE_MAX else whole);
                  let args = \<lparr>w_vector = vectors, w_vector_cnt = vectorcnt, w_vector_off = 0, w_len = sz,
                    w_offset = 0, w_apiflags = apiflags,
                    w_time_started = (if nc_send_timeout b \<noteq> 0 then sys_now ext h else 0)\<rparr>;
                  (err, args', h1) \<leftarrow> netconn_apimsg ext DO_WRITE c (WriteArgs args) h;
                  (case args' of
                     WriteArgs w \<Rightarrow> do {
                       _ \<leftarrow> lwip_assert (err = ERR_OK \<and> \<not> dontblock \<longrightarrow> w_offset w = sz) ();
                       Some (err, if err = ERR_OK then map_option (\<lambda>_. w_offset w) bytes_written else bytes_written, h1)
                     }
                   | _ \<Rightarrow> None)
                })))
      })"

definition netconn_write_partly ::
    "'w ext \<Rightarrow> u32 \<Rightarrow> u32 \<Rightarrow> u32 \<Rightarrow> u8 \<Rightarrow> u32 option \<Rightarrow> 'w host \<Rightarrow> (u8 \<times> u32 option \<times> 'w host) option" where
  "netconn_write_partly ext c dataptr sz apiflags bytes_written h =
     netconn_write_vectors_partly ext c [(dataptr, sz)] 1 apiflags bytes_written h"

end
