(* ===== verification/Lwip_Sockets.thy ===== *)
theory Lwip_Sockets
  imports Lwip_Netconn_Data
begin

unbundle bit_operations_syntax

text \<open>
  The socket interface: sending, receiving and closing in \<^verbatim>\<open>src/ffi/lwip/sockets.c\<close>. A descriptor and a
  signed size are integers within their C types, \<open>- 1\<close> being the error; what the code does when a sum
  of signed sizes wraps is written out (\<open>isize_wrap\<close>).
\<close>

section \<open>Constants and small steps\<close>

definition MSG_PEEK :: u32 where "MSG_PEEK = 0x01"
definition MSG_DONTWAIT :: u32 where "MSG_DONTWAIT = 0x08"
definition MSG_MORE :: u32 where "MSG_MORE = 0x10"

definition isize_wrap :: "int \<Rightarrow> int" where "isize_wrap x = signed_take_bit 31 x"

abbreviation int_isize_max :: int where "int_isize_max \<equiv> 0x7fffffff"

definition sock_done :: "'w ext \<Rightarrow> nat \<Rightarrow> 'w host \<Rightarrow> 'w host option" where
  "sock_done ext i h = do { n \<leftarrow> done_socket (pool_size ext) i (fst h); Some (n, snd h) }"

definition sock_errno :: "u32 \<Rightarrow> 'w host \<Rightarrow> 'w host" where
  "sock_errno e h = (set_errno e (fst h), snd h)"

definition sock_get :: "'w ext \<Rightarrow> int \<Rightarrow> 'w host \<Rightarrow> (nat option \<times> 'w host) option" where
  "sock_get ext fd h = do { (r, n) \<leftarrow> get_socket (pool_size ext) fd (fst h); Some (r, n, snd h) }"

definition sock_conn :: "nat \<Rightarrow> 'w host \<Rightarrow> (u32 \<times> netconn) option" where
  "sock_conn i h = do { s \<leftarrow> sock_at i (fst h); b \<leftarrow> conn_at (so_conn s) h; Some (so_conn s, b) }"

definition set_lastdata :: "nat \<Rightarrow> u32 \<Rightarrow> net \<Rightarrow> net option" where
  "set_lastdata i p n = upd_sock i (\<lambda>s. s\<lparr>so_lastdata := p\<rparr>) n"

section \<open>Sending\<close>

text \<open>The part of \<open>lwip_send\<close> for a TCP connection.\<close>

definition send_stream :: "'w ext \<Rightarrow> nat \<Rightarrow> u32 \<Rightarrow> u32 \<Rightarrow> u32 \<Rightarrow> 'w host \<Rightarrow> (int \<times> 'w host) option" where
  "send_stream ext i data sz flags h =
     do {
       s \<leftarrow> sock_at i (fst h);
       let write_flags = NETCONN_COPY OR (if flags AND MSG_MORE \<noteq> 0 then NETCONN_MORE else 0)
                         OR (if flags AND MSG_DONTWAIT \<noteq> 0 then NETCONN_DONTBLOCK else 0);
       (err, written, h1) \<leftarrow> netconn_write_partly ext (so_conn s) data sz write_flags (Some 0) h;
       w \<leftarrow> written;
       h2 \<leftarrow> sock_done ext i (sock_errno (err_to_errno err) h1);
       Some (if err = ERR_OK then sint w else - 1, h2)
     }"

text \<open>
  The part of \<open>lwip_sendto\<close> for a datagram: the data is copied into a packet of its own, held by the
  network buffer in the function's frame, and the packet is freed after the stack has sent it.
\<close>

definition fill_datagram :: "'w ext \<Rightarrow> u32 \<Rightarrow> u16 \<Rightarrow> 'w host \<Rightarrow> (u8 \<times> 'w host) option" where
  "fill_datagram ext data sz h =
     do {
       (payload, n1, w1) \<leftarrow> netbuf_alloc ext (frame ext) sz h;
       (if payload = 0 then Some (ERR_MEM, n1, w1)
        else do {
          b \<leftarrow> netbufs n1 (frame ext);
          p \<leftarrow> pbufs n1 (nb_p b);
          let m = memcpy_bytes (pb_payload p) data (ucast sz) (net_mem n1);
          Some (ERR_OK, n1\<lparr>kernel := (kernel n1)\<lparr>mem := m\<rparr>\<rparr>, w1)
        })
     }"

definition send_datagram :: "'w ext \<Rightarrow> nat \<Rightarrow> u32 \<Rightarrow> u32 \<Rightarrow> u32 \<Rightarrow> 'w host \<Rightarrow> (int \<times> 'w host) option" where
  "send_datagram ext i data sz to h =
     (if sz > 0xFFFF
      then do { h1 \<leftarrow> sock_done ext i (sock_errno EMSGSIZE h); Some (- 1, h1) }
      else do {
        let short_size = (ucast sz :: u16);
        (c, conn) \<leftarrow> sock_conn i h;
        let (addr, port) = (if to \<noteq> 0 then sockaddr_to_ipaddr_port (net_mem (fst h)) to (junk_addr ext)
              else (ip_addr_set_any (NETCONNTYPE_ISIPV6 (nc_type conn)) (junk_addr ext), 0));
        let nb = \<lparr>nb_p = 0, nb_ptr = 0, nb_addr = addr, nb_port = port\<rparr>;
        let h1 = ((fst h)\<lparr>netbufs := (netbufs (fst h))(frame ext \<mapsto> nb)\<rparr>, snd h);
        (err, h2) \<leftarrow> fill_datagram ext data short_size h1;
        (err2, h3) \<leftarrow> (if err = ERR_OK
           then do {
             n' \<leftarrow> upd_netbuf (frame ext) (\<lambda>b. b\<lparr>nb_addr := sendto_unmap (nb_addr b)\<rparr>) (fst h2);
             (c', _) \<leftarrow> sock_conn i (n', snd h2);
             netconn_send ext c' (frame ext) (n', snd h2)
           }
           else Some (err, h2));
        n4 \<leftarrow> netbuf_free (pool_size ext) (frame ext) (fst h3);
        let h5 = (n4\<lparr>netbufs := (netbufs n4)(frame ext := None)\<rparr>, snd h3);
        h6 \<leftarrow> sock_done ext i (sock_errno (err_to_errno err2) h5);
        Some (if err2 = ERR_OK then int (unat short_size) else - 1, h6)
      })"

text \<open>
  Each of \<open>lwip_send\<close> and \<open>lwip_sendto\<close> turns to the other for the other kind of connection, \<open>lwip_send\<close>
  with the null address. \<open>stream\<close> tells which of the two is called.
\<close>

partial_function (option) send_call ::
    "'w ext \<Rightarrow> bool \<Rightarrow> int \<Rightarrow> u32 \<Rightarrow> u32 \<Rightarrow> u32 \<Rightarrow> u32 \<Rightarrow> 'w host \<Rightarrow> (int \<times> 'w host) option" where
  "send_call ext stream s data sz flags to h =
     do {
       (sock, h1) \<leftarrow> sock_get ext s h;
       (case sock of
          None \<Rightarrow> Some (- 1, h1)
        | Some i \<Rightarrow> do {
            (_, conn) \<leftarrow> sock_conn i h1;
            let tcp = NETCONNTYPE_GROUP (nc_type conn) = NETCONN_TCP;
            (if stream
             then (if \<not> tcp then do { h2 \<leftarrow> sock_done ext i h1; send_call ext False s data sz flags 0 h2 }
                   else send_stream ext i data sz flags h1)
             else (if tcp then do { h2 \<leftarrow> sock_done ext i h1; send_call ext True s data sz flags 0 h2 }
                   else send_datagram ext i data sz to h1))
          })
     }"

definition lwip_send :: "'w ext \<Rightarrow> int \<Rightarrow> u32 \<Rightarrow> u32 \<Rightarrow> u32 \<Rightarrow> 'w host \<Rightarrow> (int \<times> 'w host) option" where
  "lwip_send ext s data sz flags h = send_call ext True s data sz flags 0 h"

definition lwip_sendto :: "'w ext \<Rightarrow> int \<Rightarrow> u32 \<Rightarrow> u32 \<Rightarrow> u32 \<Rightarrow> u32 \<Rightarrow> 'w host \<Rightarrow> (int \<times> 'w host) option" where
  "lwip_sendto ext s data sz flags to h = send_call ext False s data sz flags to h"

definition lwip_write :: "'w ext \<Rightarrow> int \<Rightarrow> u32 \<Rightarrow> u32 \<Rightarrow> 'w host \<Rightarrow> (int \<times> 'w host) option" where
  "lwip_write ext s data sz h = lwip_send ext s data sz 0 h"

section \<open>Receiving from a stream\<close>

text \<open>At the label \<open>lwip_recv_tcp_done\<close>.\<close>

definition recv_tcp_done :: "'w ext \<Rightarrow> nat \<Rightarrow> u32 \<Rightarrow> int \<Rightarrow> 'w host \<Rightarrow> (int \<times> 'w host) option" where
  "recv_tcp_done ext i flags recvd h =
     do {
       h1 \<leftarrow> (if recvd > 0 \<and> flags AND MSG_PEEK = 0
              then do { s \<leftarrow> sock_at i (fst h);
                        (_, h') \<leftarrow> netconn_tcp_recvd ext (so_conn s) (word_of_int recvd) h; Some h' }
              else Some h);
       Some (recvd, sock_errno 0 h1)
     }"

text \<open>The packet to read from, the one that is left or a new one, or the error.\<close>

definition next_packet :: "'w ext \<Rightarrow> nat \<Rightarrow> u8 \<Rightarrow> 'w host \<Rightarrow> (u8 \<times> u32 \<times> 'w host) option" where
  "next_packet ext i apiflags h =
     do {
       s \<leftarrow> sock_at i (fst h);
       (if so_lastdata s \<noteq> 0 then Some (ERR_OK, so_lastdata s, h)
        else do {
          (err, p, h1) \<leftarrow> netconn_recv_tcp_pbuf_flags ext (so_conn s) 0 apiflags h;
          (if err \<noteq> ERR_OK then Some (err, p, h1)
           else do {
             _ \<leftarrow> lwip_assert (p \<noteq> 0) ();
             n2 \<leftarrow> set_lastdata i p (fst h1);
             Some (ERR_OK, p, n2, snd h1)
           })
        })
     }"

text \<open>What is left of a packet of which the first bytes have been read.\<close>

definition consume :: "'w ext \<Rightarrow> nat \<Rightarrow> u32 \<Rightarrow> u16 \<Rightarrow> net \<Rightarrow> net option" where
  "consume ext i p copylen n =
     do {
       b \<leftarrow> pbufs n p;
       _ \<leftarrow> lwip_assert (pb_tot_len b \<ge> copylen) ();
       (if int (unat (pb_tot_len b)) - int (unat copylen) > 0
        then do { (q, n1) \<leftarrow> pbuf_free_header (pool_size ext) p copylen n; set_lastdata i q n1 }
        else do { n1 \<leftarrow> set_lastdata i 0 n; map_option snd (pbuf_free (pool_size ext) p n1) })
     }"

partial_function (option) recv_tcp_loop ::
    "'w ext \<Rightarrow> nat \<Rightarrow> u32 \<Rightarrow> u32 \<Rightarrow> u8 \<Rightarrow> int \<Rightarrow> int \<Rightarrow> 'w host \<Rightarrow> (int \<times> 'w host) option" where
  "recv_tcp_loop ext i m flags apiflags recvd recv_left h =
     do {
       (err, p, h1) \<leftarrow> next_packet ext i apiflags h;
       (if err \<noteq> ERR_OK
        then (if recvd > 0 then recv_tcp_done ext i flags recvd h1
              else Some (if err = ERR_CLSD then 0 else - 1, sock_errno (err_to_errno err) h1))
        else do {
          b \<leftarrow> pbufs (fst h1) p;
          let len0 = (if recv_left > int (unat (pb_tot_len b)) then pb_tot_len b else word_of_int recv_left);
          let copylen = (if isize_wrap (recvd + int (unat len0)) < recvd
                         then word_of_int (int_isize_max - recvd) else len0);
          (_, n2) \<leftarrow> pbuf_copy_partial p (m + word_of_int recvd) copylen 0 (fst h1);
          let recvd' = isize_wrap (recvd + int (unat copylen));
          _ \<leftarrow> lwip_assert (recv_left \<ge> int (unat copylen)) ();
          let recv_left' = recv_left - int (unat copylen);
          n3 \<leftarrow> (if flags AND MSG_PEEK = 0 then consume ext i p copylen n2 else Some n2);
          (if recv_left' > 0 \<and> flags AND MSG_PEEK = 0
           then recv_tcp_loop ext i m flags (apiflags OR (NETCONN_DONTBLOCK OR NETCONN_NOFIN)) recvd' recv_left' (n3, snd h1)
           else recv_tcp_done ext i flags recvd' (n3, snd h1))
        })
     }"

definition lwip_recv_tcp :: "'w ext \<Rightarrow> nat \<Rightarrow> u32 \<Rightarrow> u32 \<Rightarrow> u32 \<Rightarrow> 'w host \<Rightarrow> (int \<times> 'w host) option" where
  "lwip_recv_tcp ext i m len flags h =
     do {
       (_, conn) \<leftarrow> sock_conn i h;
       _ \<leftarrow> lwip_assert (NETCONNTYPE_GROUP (nc_type conn) = NETCONN_TCP) ();
       recv_tcp_loop ext i m flags
         (NETCONN_NOAUTORCVD OR (if flags AND MSG_DONTWAIT \<noteq> 0 then NETCONN_DONTBLOCK else 0))
         0 (if len \<le> ISIZE_MAX then int (unat len) else int_isize_max) h
     }"

text \<open>The peer's address is written when both pointers are given; the length is read and written in place.\<close>

definition write_addr :: "u8 \<Rightarrow> ip_addr_t \<Rightarrow> u16 \<Rightarrow> u32 \<Rightarrow> u32 \<Rightarrow> (u32 \<Rightarrow> u8) \<Rightarrow> (u32 \<Rightarrow> u8)" where
  "write_addr conn_type a port from fromlen m =
     (let (_, _, len, _) = lwip_sock_make_addr conn_type a port from (load_u32 m fromlen) m;
          m1 = store_bytes fromlen (bytes_u32 len) m;
          (_, _, _, m2) = lwip_sock_make_addr conn_type a port from len m1
      in m2)"

definition lwip_recv_tcp_from :: "'w ext \<Rightarrow> nat \<Rightarrow> u32 \<Rightarrow> u32 \<Rightarrow> 'w host \<Rightarrow> 'w host option" where
  "lwip_recv_tcp_from ext i from fromlen h =
     (if from \<noteq> 0 \<and> fromlen \<noteq> 0
      then do {
        s \<leftarrow> sock_at i (fst h);
        (_, a, port, h1) \<leftarrow> netconn_getaddr ext (so_conn s) (Some (junk_addr ext)) (Some 0) 0 h;
        (_, conn) \<leftarrow> sock_conn i h1;
        let m = write_addr (nc_type conn) a port from fromlen (net_mem (fst h1));
        Some ((fst h1)\<lparr>kernel := (kernel (fst h1))\<lparr>mem := m\<rparr>\<rparr>, snd h1)
      }
      else Some h)"

section \<open>Receiving datagrams\<close>

record msghdr =
  msg_name :: u32
  msg_namelen :: u32
  msg_iov :: "(u32 \<times> u32) list"
  msg_control :: u32
  msg_controllen :: u32
  msg_flags :: u32

text \<open>The copying of the datagram into the vectors: the number of bytes copied and the state.\<close>

fun copy_iovs :: "u32 \<Rightarrow> u16 \<Rightarrow> (u32 \<times> u32) list \<Rightarrow> u16 \<Rightarrow> net \<Rightarrow> (u16 \<times> net) option" where
  "copy_iovs p buflen [] copied n = Some (copied, n)"
| "copy_iovs p buflen ((base, len) # iov) copied n =
     (if copied < buflen
      then do {
        let len_left = buflen - copied;
        let copylen = (if len > ucast len_left then len_left else ucast len);
        (_, n1) \<leftarrow> pbuf_copy_partial p base copylen copied n;
        copy_iovs p buflen iov (copied + copylen) n1
      }
      else Some (copied, n))"

text \<open>The datagram to read, the one that was peeked at or a new one, or the error.\<close>

definition next_datagram :: "'w ext \<Rightarrow> nat \<Rightarrow> u8 \<Rightarrow> 'w host \<Rightarrow> (u8 \<times> u32 \<times> 'w host) option" where
  "next_datagram ext i apiflags h =
     do {
       s \<leftarrow> sock_at i (fst h);
       (if so_lastdata s \<noteq> 0 then Some (ERR_OK, so_lastdata s, h)
        else do {
          (err, buf, h1) \<leftarrow> netconn_recv_udp_raw_netbuf_flags ext (so_conn s) apiflags h;
          (if err \<noteq> ERR_OK then Some (err, buf, h1)
           else do {
             _ \<leftarrow> lwip_assert (buf \<noteq> 0) ();
             n2 \<leftarrow> set_lastdata i buf (fst h1);
             Some (ERR_OK, buf, n2, snd h1)
           })
        })
     }"

text \<open>The result is the error, the message header, the length of the datagram and the state.\<close>

definition lwip_recvfrom_udp_raw ::
    "'w ext \<Rightarrow> nat \<Rightarrow> u32 \<Rightarrow> msghdr \<Rightarrow> u16 \<Rightarrow> 'w host \<Rightarrow> (u8 \<times> msghdr \<times> u16 \<times> 'w host) option" where
  "lwip_recvfrom_udp_raw ext i flags msg datagram_len h =
     do {
       (err, buf, h1) \<leftarrow> next_datagram ext i (if flags AND MSG_DONTWAIT \<noteq> 0 then NETCONN_DONTBLOCK else 0) h;
       (if err \<noteq> ERR_OK then Some (err, msg, datagram_len, h1)
        else do {
          nb \<leftarrow> netbufs (fst h1) buf;
          p \<leftarrow> pbufs (fst h1) (nb_p nb);
          let buflen = pb_tot_len p;
          (_, n2) \<leftarrow> copy_iovs (nb_p nb) buflen (msg_iov msg) 0 (fst h1);
          (msg3, n3) \<leftarrow>
            (if msg_name msg \<noteq> 0 \<and> msg_namelen msg \<noteq> 0
             then do {
               (_, conn) \<leftarrow> sock_conn i (n2, snd h1);
               let (_, a, len, m) = lwip_sock_make_addr (nc_type conn) (nb_addr nb) (nb_port nb)
                     (msg_name msg) (msg_namelen msg) (net_mem n2);
               n' \<leftarrow> upd_netbuf buf (\<lambda>b. b\<lparr>nb_addr := a\<rparr>) (n2\<lparr>kernel := (kernel n2)\<lparr>mem := m\<rparr>\<rparr>);
               Some (msg\<lparr>msg_namelen := len\<rparr>, n')
             }
             else Some (msg, n2));
          let msg4 = msg3\<lparr>msg_flags := 0, msg_controllen := (if msg_control msg3 \<noteq> 0 then 0 else msg_controllen msg3)\<rparr>;
          n5 \<leftarrow> (if flags AND MSG_PEEK = 0
                 then do { n' \<leftarrow> set_lastdata i 0 n3; netbuf_delete (pool_size ext) buf n' }
                 else Some n3);
          Some (ERR_OK, msg4, buflen, n5, snd h1)
        })
     }"

definition recv_datagram :: "'w ext \<Rightarrow> nat \<Rightarrow> u32 \<Rightarrow> u32 \<Rightarrow> u32 \<Rightarrow> u32 \<Rightarrow> u32 \<Rightarrow> 'w host \<Rightarrow> (int \<times> 'w host) option" where
  "recv_datagram ext i m len flags from fromlen h =
     do {
       let msg = \<lparr>msg_name = from, msg_namelen = (if fromlen \<noteq> 0 then load_u32 (net_mem (fst h)) fromlen else 0),
                  msg_iov = [(m, len)], msg_control = 0, msg_controllen = 0, msg_flags = 0\<rparr>;
       (err, msg1, datagram_len, h1) \<leftarrow> lwip_recvfrom_udp_raw ext i flags msg 0 h;
       (if err \<noteq> ERR_OK
        then do { h2 \<leftarrow> sock_done ext i (sock_errno (err_to_errno err) h1); Some (- 1, h2) }
        else do {
          let ret = min (min (int (unat len)) (int (unat datagram_len))) int_isize_max;
          let n2 = (if fromlen \<noteq> 0
             then (fst h1)\<lparr>kernel := (kernel (fst h1))\<lparr>mem := store_bytes fromlen (bytes_u32 (msg_namelen msg1)) (net_mem (fst h1))\<rparr>\<rparr>
             else fst h1);
          h3 \<leftarrow> sock_done ext i (sock_errno 0 (n2, snd h1));
          Some (ret, h3)
        })
     }"

definition lwip_recvfrom :: "'w ext \<Rightarrow> int \<Rightarrow> u32 \<Rightarrow> u32 \<Rightarrow> u32 \<Rightarrow> u32 \<Rightarrow> u32 \<Rightarrow> 'w host \<Rightarrow> (int \<times> 'w host) option" where
  "lwip_recvfrom ext s m len flags from fromlen h =
     do {
       (sock, h1) \<leftarrow> sock_get ext s h;
       (case sock of
          None \<Rightarrow> Some (- 1, h1)
        | Some i \<Rightarrow> do {
            (_, conn) \<leftarrow> sock_conn i h1;
            (if NETCONNTYPE_GROUP (nc_type conn) = NETCONN_TCP
             then do {
               (ret, h2) \<leftarrow> lwip_recv_tcp ext i m len flags h1;
               h3 \<leftarrow> lwip_recv_tcp_from ext i from fromlen h2;
               h4 \<leftarrow> sock_done ext i h3;
               Some (ret, h4)
             }
             else recv_datagram ext i m len flags from fromlen h1)
          })
     }"

definition lwip_read :: "'w ext \<Rightarrow> int \<Rightarrow> u32 \<Rightarrow> u32 \<Rightarrow> 'w host \<Rightarrow> (int \<times> 'w host) option" where
  "lwip_read ext s m len h = lwip_recvfrom ext s m len 0 0 0 h"

end
