(* ===== verification/Lwip_Close.thy ===== *)
theory Lwip_Close
  imports Lwip_Sockets
begin

unbundle bit_operations_syntax

text \<open>
  Closing a socket: \<open>lwip_close\<close> in \<^verbatim>\<open>src/ffi/lwip/sockets.c\<close>, with the multicast groups it leaves.
\<close>

definition upd_mcast4 :: "nat \<Rightarrow> (mcast4 \<Rightarrow> mcast4) \<Rightarrow> net \<Rightarrow> net option" where
  "upd_mcast4 k f n =
     (if k < length (mcasts4 n) then Some (n\<lparr>mcasts4 := (mcasts4 n)[k := f (mcasts4 n ! k)]\<rparr>) else None)"

definition upd_mcast6 :: "nat \<Rightarrow> (mcast6 \<Rightarrow> mcast6) \<Rightarrow> net \<Rightarrow> net option" where
  "upd_mcast6 k f n =
     (if k < length (mcasts6 n) then Some (n\<lparr>mcasts6 := (mcasts6 n)[k := f (mcasts6 n ! k)]\<rparr>) else None)"

text \<open>The two loops over the tables of memberships, here over the list of the indices that are left.\<close>

fun leave_groups4 :: "'w ext \<Rightarrow> nat \<Rightarrow> nat list \<Rightarrow> 'w host \<Rightarrow> 'w host option" where
  "leave_groups4 ext i [] h = Some h"
| "leave_groups4 ext i (k # ks) h =
     (if k < length (mcasts4 (fst h))
      then (if m4_sock (mcasts4 (fst h) ! k) = Some i
        then do {
          let multi_addr = ip_addr_copy_from_ip4 (m4_multi_addr (mcasts4 (fst h) ! k)) (junk_addr ext);
          let if_addr = ip_addr_copy_from_ip4 (m4_if_addr (mcasts4 (fst h) ! k)) (junk_addr ext);
          n1 \<leftarrow> upd_mcast4 k (\<lambda>_. \<lparr>m4_sock = None, m4_if_addr = 0, m4_multi_addr = 0\<rparr>) (fst h);
          s \<leftarrow> sock_at i n1;
          (_, h2) \<leftarrow> netconn_join_leave_group ext (so_conn s) (Some multi_addr) (Some if_addr) NETCONN_LEAVE (n1, snd h);
          leave_groups4 ext i ks h2
        }
        else leave_groups4 ext i ks h)
      else None)"

fun leave_groups6 :: "'w ext \<Rightarrow> nat \<Rightarrow> nat list \<Rightarrow> 'w host \<Rightarrow> 'w host option" where
  "leave_groups6 ext i [] h = Some h"
| "leave_groups6 ext i (k # ks) h =
     (if k < length (mcasts6 (fst h))
      then (if m6_sock (mcasts6 (fst h) ! k) = Some i
        then do {
          let e = mcasts6 (fst h) ! k;
          let multi_addr = ip_addr_copy_from_ip6 (m6_multi_addr e) (m6_zone e) (junk_addr ext);
          n1 \<leftarrow> upd_mcast6 k (\<lambda>_. \<lparr>m6_sock = None, m6_if_idx = NETIF_NO_INDEX, m6_multi_addr = [0, 0, 0, 0], m6_zone = 0\<rparr>) (fst h);
          s \<leftarrow> sock_at i n1;
          (_, h2) \<leftarrow> netconn_join_leave_group_netif ext (so_conn s) (Some multi_addr) (m6_if_idx e) NETCONN_LEAVE (n1, snd h);
          leave_groups6 ext i ks h2
        }
        else leave_groups6 ext i ks h)
      else None)"

definition lwip_socket_drop_registered_memberships :: "'w ext \<Rightarrow> int \<Rightarrow> 'w host \<Rightarrow> 'w host option" where
  "lwip_socket_drop_registered_memberships ext s h =
     do {
       (sock, h1) \<leftarrow> sock_get ext s h;
       (case sock of
          None \<Rightarrow> Some h1
        | Some i \<Rightarrow> do { h2 \<leftarrow> leave_groups4 ext i [0..<NUM_SOCKETS] h1; sock_done ext i h2 })
     }"

definition lwip_socket_drop_registered_mld6_memberships :: "'w ext \<Rightarrow> int \<Rightarrow> 'w host \<Rightarrow> 'w host option" where
  "lwip_socket_drop_registered_mld6_memberships ext s h =
     do {
       (sock, h1) \<leftarrow> sock_get ext s h;
       (case sock of
          None \<Rightarrow> Some h1
        | Some i \<Rightarrow> do { h2 \<leftarrow> leave_groups6 ext i [0..<NUM_SOCKETS] h1; sock_done ext i h2 })
     }"

definition lwip_close :: "'w ext \<Rightarrow> int \<Rightarrow> 'w host \<Rightarrow> (int \<times> 'w host) option" where
  "lwip_close ext s h =
     do {
       (sock, h1) \<leftarrow> sock_get ext s h;
       (case sock of
          None \<Rightarrow> Some (- 1, h1)
        | Some i \<Rightarrow> do {
            so \<leftarrow> sock_at i (fst h1);
            is_tcp \<leftarrow> (if so_conn so \<noteq> 0
                       then do { b \<leftarrow> conn_at (so_conn so) h1; Some (NETCONNTYPE_GROUP (nc_type b) = NETCONN_TCP) }
                       else lwip_assert (so_lastdata so = 0) False);
            h2 \<leftarrow> lwip_socket_drop_registered_memberships ext s h1;
            h3 \<leftarrow> lwip_socket_drop_registered_mld6_memberships ext s h2;
            so3 \<leftarrow> sock_at i (fst h3);
            (err, h4) \<leftarrow> netconn_delete ext (so_conn so3) h3;
            (if err \<noteq> ERR_OK
             then do { h5 \<leftarrow> sock_done ext i (sock_errno (err_to_errno err) h4); Some (- 1, h5) }
             else do {
               n5 \<leftarrow> free_socket (pool_size ext) i is_tcp (fst h4);
               Some (0, sock_errno 0 (n5, snd h4))
             })
          })
     }"

end
