(* ===== verification/Lwip_Stream.thy ===== *)
theory Lwip_Stream
  imports Lwip_Sockets Lwip_Chain
begin

unbundle bit_operations_syntax

text \<open>
  A TCP socket as a stream of bytes: what is left in the socket from the last call, then the packets in
  the connection's mailbox, then the end of the stream. The laws of the mailbox and of the calls into
  the stack are named here; the lemmas follow one packet through \<open>lwip_recv_tcp\<close>.
\<close>

section \<open>Laws of the functions outside\<close>

text \<open>
  A mailbox is a queue: \<open>inq\<close> is what it holds. A fetch with something there returns the oldest at once.
\<close>

definition mailbox_law :: "'w ext \<Rightarrow> u8 \<Rightarrow> ('w \<Rightarrow> u32 list) \<Rightarrow> bool" where
  "mailbox_law ext mb inq \<longleftrightarrow> (\<forall>n w. mbox_valid ext mb (n, w)
     \<and> (inq w = [] \<longrightarrow> mbox_tryfetch ext mb (n, w) = Some (None, n, w))
     \<and> (\<forall>p ps. inq w = p # ps \<longrightarrow> (\<exists>w'. inq w' = ps \<and> mbox_tryfetch ext mb (n, w) = Some (Some p, n, w')
          \<and> (\<forall>t. mbox_fetch ext mb t (n, w) = Some (Some p, n, w')))))"

text \<open>The event callback and the stack's window update may count events in the sockets.\<close>

definition same_conns :: "net \<Rightarrow> net \<Rightarrow> bool" where
  "same_conns n n' \<longleftrightarrow> (\<exists>ss. n' = n\<lparr>sockets := ss\<rparr> \<and> map so_conn ss = map so_conn (sockets n)
     \<and> map so_lastdata ss = map so_lastdata (sockets n))"

definition quiet_law :: "'w ext \<Rightarrow> ('w \<Rightarrow> u32 list) \<Rightarrow> bool" where
  "quiet_law ext inq \<longleftrightarrow>
     (\<forall>f c e l n w. \<exists>n' w'. call_event ext f c e l (n, w) = Some (n', w') \<and> same_conns n n' \<and> inq w' = inq w)
   \<and> (\<forall>c k n w. \<exists>st err args n' w'. send_msg ext DO_RECV \<lparr>am_conn = c, am_args = RecvArgs k\<rparr> (n, w)
        = Some (st, err, args, n', w') \<and> same_conns n n' \<and> inq w' = inq w)"

lemma same_conns_refl: "same_conns n n"
  by (auto simp: same_conns_def intro: exI[of _ "sockets n"])

lemma same_conns_trans: "same_conns a b \<Longrightarrow> same_conns b c \<Longrightarrow> same_conns a c"
  by (auto simp: same_conns_def)

lemma same_conns_sel:
  "same_conns n n' \<Longrightarrow> kernel n' = kernel n \<and> pbufs n' = pbufs n \<and> netconns n' = netconns n \<and> netbufs n' = netbufs n
     \<and> pp_rx_pool_usage n' = pp_rx_pool_usage n \<and> critical_nesting n' = critical_nesting n \<and> errno n' = errno n"
  by (auto simp: same_conns_def)

lemma same_conns_sock:
  assumes "same_conns n n'" and "sock_at i n = Some s"
  shows "\<exists>s'. sock_at i n' = Some s' \<and> so_conn s' = so_conn s \<and> so_lastdata s' = so_lastdata s"
proof -
  obtain ss where ss: "n' = n\<lparr>sockets := ss\<rparr>" "map so_conn ss = map so_conn (sockets n)"
    "map so_lastdata ss = map so_lastdata (sockets n)" using assms(1) by (auto simp: same_conns_def)
  have l: "length ss = length (sockets n)" using ss(2) by (metis length_map)
  have i: "i < length (sockets n)" "s = sockets n ! i" using assms(2) by (auto simp: sock_at_def split: if_splits)
  then have "so_conn (ss ! i) = so_conn s" "so_lastdata (ss ! i) = so_lastdata s"
    using ss(2,3) l by (metis nth_map)+
  then show ?thesis using ss(1) l i by (simp add: sock_at_def)
qed

section \<open>Packets waiting\<close>

definition packets :: "(memp_t \<Rightarrow> u16) \<Rightarrow> net \<Rightarrow> u32 list \<Rightarrow> u32 list list \<Rightarrow> bool" where
  "packets psize n ps ass \<longleftrightarrow> list_all2 (owned psize n) ps ass \<and> 0 \<notin> set ps \<and> distinct (concat ass)
     \<and> sum_list (map (rx_count (pbufs n)) ass) \<le> unat (pp_rx_pool_usage n)"

text \<open>No payload byte and no guard byte of the packets lies in a stretch of memory.\<close>

definition clear_of :: "(memp_t \<Rightarrow> u16) \<Rightarrow> (u32 \<rightharpoonup> pbuf) \<Rightarrow> u32 list \<Rightarrow> u32 \<Rightarrow> nat \<Rightarrow> bool" where
  "clear_of psize P as dst k \<longleftrightarrow> payloads_outside P as dst k
     \<and> (\<forall>a \<in> set as. \<forall>j \<in> set [0..<16]. outside (a - 16 + of_nat j) dst k
          \<and> (\<forall>t. outside (a + ucast (psize t) + of_nat j) dst k))"

lemma in_pool_written:
  assumes "in_pool psize t m a" and "clear_of psize P as dst k" and "a \<in> set as"
    and "\<And>x. outside x dst k \<Longrightarrow> m' x = m x"
  shows "in_pool psize t m' a"
  using assms by (auto simp: in_pool_def clear_of_def)

lemma owned_written:
  assumes "owned psize n p as" and "clear_of psize (pbufs n) as dst k"
    and "\<And>x. outside x dst k \<Longrightarrow> m' x = net_mem n x"
  shows "owned psize (n\<lparr>kernel := (kernel n)\<lparr>mem := m'\<rparr>\<rparr>) p as"
    and "data_of (n\<lparr>kernel := (kernel n)\<lparr>mem := m'\<rparr>\<rparr>) as = data_of n as"
proof -
  have "releasable psize m' (pbufs n) a" if "a \<in> set as" for a
    using assms(1) that in_pool_written[OF _ assms(2) that assms(3)]
    by (auto simp: owned_def releasable_def Let_def)
  then show "owned psize (n\<lparr>kernel := (kernel n)\<lparr>mem := m'\<rparr>\<rparr>) p as"
    using assms(1) by (simp add: owned_def)
  have "payload m' (at (pbufs n) a) = payload (net_mem n) (at (pbufs n) a)" if "a \<in> set as" for a
    unfolding payload_def
    by (rule bytes_at_cong) (use assms(2,3) that in \<open>auto simp: clear_of_def payloads_outside_def\<close>)
  then show "data_of (n\<lparr>kernel := (kernel n)\<lparr>mem := m'\<rparr>\<rparr>) as = data_of n as"
    by (simp add: chain_data_def cong: map_cong)
qed

lemma packets_written:
  assumes "packets psize n ps ass" and "\<And>as. as \<in> set ass \<Longrightarrow> clear_of psize (pbufs n) as dst k"
    and "\<And>x. outside x dst k \<Longrightarrow> m' x = net_mem n x"
  shows "packets psize (n\<lparr>kernel := (kernel n)\<lparr>mem := m'\<rparr>\<rparr>) ps ass"
    and "map (data_of (n\<lparr>kernel := (kernel n)\<lparr>mem := m'\<rparr>\<rparr>)) ass = map (data_of n) ass"
proof -
  let ?n = "n\<lparr>kernel := (kernel n)\<lparr>mem := m'\<rparr>\<rparr>"
  have "list_all2 (owned psize ?n) ps ass"
  proof (rule list.rel_mono_strong)
    show "list_all2 (owned psize n) ps ass" using assms(1) by (simp add: packets_def)
    show "owned psize ?n p as" if "p \<in> set ps" "as \<in> set ass" "owned psize n p as" for p as
      by (rule owned_written(1)[OF that(3) assms(2)[OF that(2)] assms(3)])
  qed
  then show "packets psize ?n ps ass" using assms(1) by (simp add: packets_def)
  show "map (data_of ?n) ass = map (data_of n) ass"
  proof (rule map_cong)
    fix as
    assume "as \<in> set ass"
    then obtain p where "owned psize n p as"
      using assms(1) by (metis packets_def in_set_conv_nth list_all2_conv_all_nth)
    then show "data_of ?n as = data_of n as" using owned_written(2)[OF _ assms(2)] \<open>as \<in> set ass\<close> assms(3) by blast
  qed simp
qed

text \<open>The packets behind the first, when only that one has changed.\<close>

lemma packets_rest:
  assumes "packets psize n (p # ps) (as # ass)" and "\<And>x. x \<notin> set as \<Longrightarrow> pbufs n' x = pbufs n x"
    and "net_mem n' = net_mem n" and "unat (pp_rx_pool_usage n) \<le> unat (pp_rx_pool_usage n') + rx_count (pbufs n) as"
  shows "packets psize n' ps ass" and "map (data_of n') ass = map (data_of n) ass"
    and "map (rx_count (pbufs n')) ass = map (rx_count (pbufs n)) ass"
proof -
  have d: "set as \<inter> set bs = {}" if "bs \<in> set ass" for bs
    using assms(1) that by (auto simp: packets_def)
  have same: "pbufs n' a = pbufs n a" if "bs \<in> set ass" "a \<in> set bs" for a bs
    using assms(2) d[OF that(1)] that(2) by blast
  have u: "sum_list (map (rx_count (pbufs n)) ass) \<le> unat (pp_rx_pool_usage n')"
    using assms(1,4) by (simp add: packets_def)
  have le: "rx_count (pbufs n) bs \<le> unat (pp_rx_pool_usage n')" if "bs \<in> set ass" for bs
    using member_le_sum_list[of "rx_count (pbufs n) bs" "map (rx_count (pbufs n)) ass"] that u by auto
  show rx: "map (rx_count (pbufs n')) ass = map (rx_count (pbufs n)) ass"
    by (rule map_cong) (auto intro!: rx_count_cong dest: same)
  have "list_all2 (owned psize n') ps ass"
    unfolding list_all2_conv_all_nth
  proof (intro conjI allI impI)
    show "length ps = length ass" using assms(1) by (auto simp: packets_def dest: list_all2_lengthD)
    fix k
    assume k: "k < length ps"
    have "list_all2 (owned psize n) ps ass" using assms(1) by (simp add: packets_def)
    then have o: "owned psize n (ps ! k) (ass ! k)" and m: "ass ! k \<in> set ass"
      using k by (auto simp: list_all2_conv_all_nth)
    show "owned psize n' (ps ! k) (ass ! k)"
      by (rule owned_cong(1)[OF o]) (use same[OF m] le[OF m] assms(3) in auto)
  qed
  then show "packets psize n' ps ass" unfolding packets_def rx using assms(1) u by (simp add: packets_def)
  show "map (data_of n') ass = map (data_of n) ass"
    unfolding assms(3) by (rule map_cong) (auto intro!: chain_data_cong dest: same)
qed


section \<open>A socket at a place in its stream\<close>

text \<open>
  \<open>left\<close> is the packet left in the socket, \<open>qs\<close> are those in the mailbox; \<open>fin\<close> tells whether the end
  of the stream follows. Once a call has met the end it is only remembered in the connection (\<open>at_end\<close>).
\<close>

definition tcp_socket :: "'w ext \<Rightarrow> ('w \<Rightarrow> u32 list) \<Rightarrow> nat \<Rightarrow> u32 \<Rightarrow> u32 \<Rightarrow> net \<Rightarrow> netconn \<Rightarrow> bool" where
  "tcp_socket ext inq i c left n b \<longleftrightarrow>
     (\<exists>s. sock_at i n = Some s \<and> so_conn s = c \<and> so_lastdata s = left) \<and> c \<noteq> 0 \<and> netconns n c = Some b
     \<and> NETCONNTYPE_GROUP (nc_type b) = NETCONN_TCP \<and> nc_pending_err b = ERR_OK \<and> mailbox_law ext (nc_recvmbox b) inq"

definition stream_at :: "'w ext \<Rightarrow> ('w \<Rightarrow> u32 list) \<Rightarrow> nat \<Rightarrow> u32 \<Rightarrow> net \<Rightarrow> 'w \<Rightarrow> u32 \<Rightarrow> u32 list \<Rightarrow> bool \<Rightarrow> bool" where
  "stream_at ext inq i c n w left qs fin \<longleftrightarrow>
     (\<exists>b. tcp_socket ext inq i c left n b \<and> \<not> netconn_is_flag_set b NETCONN_FIN_RX_PENDING)
     \<and> (\<forall>p \<in> set qs. is_err_msg ext p = None)
     \<and> (\<exists>es. inq w = qs @ es \<and> (if fin then \<exists>e. es = [e] \<and> is_err_msg ext e = Some ERR_CLSD else es = []))"

definition at_end :: "'w ext \<Rightarrow> ('w \<Rightarrow> u32 list) \<Rightarrow> nat \<Rightarrow> u32 \<Rightarrow> net \<Rightarrow> 'w \<Rightarrow> bool" where
  "at_end ext inq i c n w \<longleftrightarrow> inq w = []
     \<and> (\<exists>b. tcp_socket ext inq i c 0 n b \<and> netconn_is_flag_set b NETCONN_FIN_RX_PENDING)"

lemma tcp_socket_same:
  assumes "tcp_socket ext inq i c left n b" and "same_conns n n'"
  shows "tcp_socket ext inq i c left n' b"
  using assms same_conns_sock[OF assms(2)] same_conns_sel[OF assms(2)] by (fastforce simp: tcp_socket_def)

lemma stream_same:
  assumes "stream_at ext inq i c n w left qs fin" and "same_conns n n'" and "inq w' = inq w"
  shows "stream_at ext inq i c n' w' left qs fin"
proof -
  obtain b where "tcp_socket ext inq i c left n b" "\<not> netconn_is_flag_set b NETCONN_FIN_RX_PENDING"
    using assms(1) by (auto simp: stream_at_def)
  then have "\<exists>b. tcp_socket ext inq i c left n' b \<and> \<not> netconn_is_flag_set b NETCONN_FIN_RX_PENDING"
    using tcp_socket_same[OF _ assms(2)] by blast
  then show ?thesis using assms(1,3) by (simp add: stream_at_def)
qed

text \<open>Buffers, memory and counts may change.\<close>

lemma stream_cong:
  assumes "stream_at ext inq i c n w left qs fin" and "sockets n' = sockets n" and "netconns n' = netconns n"
  shows "stream_at ext inq i c n' w left qs fin"
proof -
  have "sock_at i n' = sock_at i n" using assms(2) by (simp add: sock_at_def)
  then have "tcp_socket ext inq i c left n' b = tcp_socket ext inq i c left n b" for b
    using assms(3) by (simp add: tcp_socket_def)
  then show ?thesis using assms(1) by (simp add: stream_at_def)
qed

lemma set_lastdata_sock:
  assumes "sock_at i n = Some s"
  obtains n' where "set_lastdata i p n = Some n'" and "sock_at i n' = Some (s\<lparr>so_lastdata := p\<rparr>)"
    and "n' = n\<lparr>sockets := (sockets n)[i := s\<lparr>so_lastdata := p\<rparr>]\<rparr>"
  using assms by (auto simp: set_lastdata_def upd_sock_def sock_at_def split: if_splits)

lemma set_lastdata_stream:
  assumes "stream_at ext inq i c n w left qs fin"
  obtains n' where "set_lastdata i p n = Some n'" and "stream_at ext inq i c n' w p qs fin"
    and "\<exists>ss. n' = n\<lparr>sockets := ss\<rparr>"
proof -
  obtain s where s: "sock_at i n = Some s" "so_conn s = c"
    using assms by (auto simp: stream_at_def tcp_socket_def)
  obtain n' where n': "set_lastdata i p n = Some n'" "sock_at i n' = Some (s\<lparr>so_lastdata := p\<rparr>)"
    "n' = n\<lparr>sockets := (sockets n)[i := s\<lparr>so_lastdata := p\<rparr>]\<rparr>" using set_lastdata_sock[OF s(1)] .
  have "netconns n' = netconns n" using n'(3) by simp
  then have "stream_at ext inq i c n' w p qs fin"
    using assms n'(2) s by (auto simp: stream_at_def tcp_socket_def)
  then show ?thesis using that n' by blast
qed

lemma event_quiet:
  assumes "quiet_law ext inq" and "netconns n c = Some b"
  shows "\<exists>n' w'. API_EVENT ext c e l (n, w) = Some (n', w') \<and> same_conns n n' \<and> inq w' = inq w"
  using assms same_conns_refl unfolding API_EVENT_def quiet_law_def conn_at_def by (cases "nc_callback b = 0") auto

section \<open>The next packet\<close>

lemma next_packet_left:
  "stream_at ext inq i c n w left qs fin \<Longrightarrow> left \<noteq> 0 \<Longrightarrow> next_packet ext i apiflags (n, w) = Some (ERR_OK, left, n, w)"
  by (auto simp: next_packet_def stream_at_def tcp_socket_def)

lemma mbox_get_oldest:
  assumes "mailbox_law ext mb inq" and "inq w = p # ps"
  shows "\<exists>w'. inq w' = ps \<and> mbox_get ext nonblocking mb t (n, w) = Some (Some p, n, w')"
  using assms by (fastforce simp: mailbox_law_def mbox_get_def)

lemma recv_data_packet:
  assumes q: "quiet_law ext inq" and s: "stream_at ext inq i c n w left (p # qs) fin" and p: "pbufs n p = Some b"
  shows "\<exists>n' w'. netconn_recv_data ext c apiflags (n, w) = Some (ERR_OK, p, n', w')
    \<and> same_conns n n' \<and> stream_at ext inq i c n' w' left qs fin"
proof -
  obtain cb es where cb: "netconns n c = Some cb" "c \<noteq> 0" "NETCONNTYPE_GROUP (nc_type cb) = NETCONN_TCP"
    "mailbox_law ext (nc_recvmbox cb) inq" "inq w = p # (qs @ es)" "is_err_msg ext p = None"
    "if fin then \<exists>e. es = [e] \<and> is_err_msg ext e = Some ERR_CLSD else es = []"
    using s by (auto simp: stream_at_def tcp_socket_def)
  define dontwait where "dontwait = (netconn_is_nonblocking cb \<or> apiflags AND NETCONN_DONTBLOCK \<noteq> 0
      \<or> netconn_is_flag_set cb NETCONN_FLAG_MBOXCLOSED \<or> nc_pending_err cb \<noteq> ERR_OK)"
  obtain w1 where w1: "inq w1 = qs @ es"
    "mbox_get ext dontwait (nc_recvmbox cb) (nc_recv_timeout cb) (n, w) = Some (Some p, n, w1)"
    using mbox_get_oldest[OF cb(4,5)] by blast
  obtain n' w' where e: "API_EVENT ext c NETCONN_EVT_RCVMINUS (pb_tot_len b) (n, w1) = Some (n', w')"
    "same_conns n n'" "inq w' = inq w1" using event_quiet[OF q cb(1)] by blast
  have "mbox_valid ext (nc_recvmbox cb) (n, w)" using cb(4) by (simp add: mailbox_law_def)
  then have "netconn_recv_data ext c apiflags (n, w) = Some (ERR_OK, p, n', w')"
    using cb w1(2) e(1) p unfolding netconn_recv_data_def conn_at_def dontwait_def by (simp add: Let_def)
  moreover have s1: "stream_at ext inq i c n w1 left qs fin"
    using s w1(1) cb(7) by (auto simp: stream_at_def)
  have "stream_at ext inq i c n' w' left qs fin" by (rule stream_same[of ext inq i c n w1 left qs fin n' w', OF s1 e(2) e(3)])
  ultimately show ?thesis using e(2) by blast
qed

lemma next_packet_queue:
  assumes q: "quiet_law ext inq" and s: "stream_at ext inq i c n w 0 (p # qs) fin" and p: "pbufs n p = Some b" "p \<noteq> 0"
    and a: "apiflags AND NETCONN_NOAUTORCVD \<noteq> 0"
  shows "\<exists>ss w'. next_packet ext i apiflags (n, w) = Some (ERR_OK, p, n\<lparr>sockets := ss\<rparr>, w')
    \<and> stream_at ext inq i c (n\<lparr>sockets := ss\<rparr>) w' p qs fin"
proof -
  obtain n1 w1 where r: "netconn_recv_data ext c apiflags (n, w) = Some (ERR_OK, p, n1, w1)"
    "same_conns n n1" "stream_at ext inq i c n1 w1 0 qs fin"
    using recv_data_packet[OF q s p(1)] by blast
  obtain n2 where n2: "set_lastdata i p n1 = Some n2" "stream_at ext inq i c n2 w1 p qs fin" "\<exists>ss. n2 = n1\<lparr>sockets := ss\<rparr>"
    using set_lastdata_stream[OF r(3)] .
  obtain so cb where c: "sock_at i n = Some so" "so_conn so = c" "so_lastdata so = 0" "netconns n c = Some cb" "c \<noteq> 0"
    "NETCONNTYPE_GROUP (nc_type cb) = NETCONN_TCP" "mailbox_law ext (nc_recvmbox cb) inq"
    "\<not> netconn_is_flag_set cb NETCONN_FIN_RX_PENDING"
    using s by (auto simp: stream_at_def tcp_socket_def)
  have "mbox_valid ext (nc_recvmbox cb) (n, w)" using c(7) by (simp add: mailbox_law_def)
  then have "netconn_recv_tcp_pbuf_flags ext c 0 apiflags (n, w) = Some (ERR_OK, p, n1, w1)"
    using c r(1) a p(2) by (simp add: netconn_recv_tcp_pbuf_flags_def tcp_conn_def conn_at_def netconn_recv_data_tcp_def)
  then have "next_packet ext i apiflags (n, w) = Some (ERR_OK, p, n2, w1)"
    using c n2(1) p(2) by (simp add: next_packet_def lwip_assert_def)
  moreover have "\<exists>ss. n2 = n\<lparr>sockets := ss\<rparr>" using n2(3) r(2) by (auto simp: same_conns_def)
  ultimately show ?thesis using n2(2) by blast
qed

end
