(* ===== verification/Lwip_Stream_Read.thy ===== *)
theory Lwip_Stream_Read
  imports Lwip_Stream
begin

unbundle bit_operations_syntax

text \<open>
  The loop of \<open>lwip_recv_tcp\<close>: one packet after the other is found, copied into the caller's buffer and
  consumed, until the buffer is full or no packet is left.
\<close>

section \<open>Between two packets\<close>

definition waiting :: "u32 \<Rightarrow> u32 list \<Rightarrow> u32 list" where
  "waiting left qs = (if left = 0 then qs else left # qs)"

text \<open>
  The socket \<open>i\<close> of connection \<open>c\<close> has the packets \<open>ass\<close> to read, none of which lies in the caller's buffer
  at \<open>m\<close> of \<open>L\<close> bytes.
\<close>

definition reading ::
    "'w ext \<Rightarrow> ('w \<Rightarrow> u32 list) \<Rightarrow> nat \<Rightarrow> u32 \<Rightarrow> u32 \<Rightarrow> nat \<Rightarrow> 'w host \<Rightarrow> u32 \<Rightarrow> u32 list \<Rightarrow> u32 list list \<Rightarrow> bool \<Rightarrow> bool" where
  "reading ext inq i c m L h left qs ass fin \<longleftrightarrow>
     stream_at ext inq i c (fst h) (snd h) left qs fin \<and> packets (pool_size ext) (fst h) (waiting left qs) ass
     \<and> (\<forall>as \<in> set ass. clear_of (pool_size ext) (pbufs (fst h)) as m L)"

lemma packets_cong:
  assumes "pbufs n' = pbufs n" and "net_mem n' = net_mem n" and "pp_rx_pool_usage n' = pp_rx_pool_usage n"
  shows "packets psize n' ps ass = packets psize n ps ass"
proof -
  have "owned psize n' = owned psize n" by (intro ext) (simp add: owned_def assms)
  then show ?thesis by (simp add: packets_def assms)
qed

lemma packets_Cons:
  assumes "packets psize n (p # ps) ass"
  obtains as ass' b where "ass = as # ass'" and "owned psize n p as" and "p \<noteq> 0" and "pbufs n p = Some b"
    and "unat (pb_tot_len b) = length (data_of n as)"
proof -
  obtain as ass' where a: "ass = as # ass'" "owned psize n p as" "p \<noteq> 0"
    using assms by (auto simp: packets_def list_all2_Cons1)
  then obtain a bs where e: "as = a # bs" by (cases as) (auto simp: owned_def)
  then obtain b where "p = a" "pbufs n a = Some b" "unat (pb_tot_len b) = unat (pb_len b) + length (data_of n bs)"
    using owned_tail[of psize n p a bs] a(2) by blast
  then show ?thesis using that a e by simp
qed

lemma reading_sockets:
  assumes "packets psize n ps ass"
  shows "packets psize (n\<lparr>sockets := ss\<rparr>) ps ass"
  using assms packets_cong[of "n\<lparr>sockets := ss\<rparr>" n psize ps ass] by simp

lemma next_packet_reading:
  assumes q: "quiet_law ext inq" and r: "reading ext inq i c m L (n, w) left qs ass fin" and p: "waiting left qs = p # rest"
    and a: "apiflags AND NETCONN_NOAUTORCVD \<noteq> 0"
  shows "\<exists>ss w'. next_packet ext i apiflags (n, w) = Some (ERR_OK, p, n\<lparr>sockets := ss\<rparr>, w')
    \<and> reading ext inq i c m L (n\<lparr>sockets := ss\<rparr>, w') p rest ass fin"
proof -
  have s: "stream_at ext inq i c n w left qs fin" and pk: "packets (pool_size ext) n (p # rest) ass"
    and cl: "\<forall>as \<in> set ass. clear_of (pool_size ext) (pbufs n) as m L"
    using r by (simp_all add: reading_def p)
  obtain b where b: "p \<noteq> 0" "pbufs n p = Some b" using packets_Cons[OF pk] by metis
  have w: "waiting p rest = p # rest" using b(1) by (simp add: waiting_def)
  show ?thesis
  proof (cases "left = 0")
    case True
    then have "qs = p # rest" using p by (simp add: waiting_def)
    then show ?thesis
      using next_packet_queue[OF q _ b(2,1) a, of i c w rest fin] s True reading_sockets[OF pk] cl w
      by (auto simp: reading_def)
  next
    case False
    then have "left = p" "qs = rest" using p by (simp_all add: waiting_def)
    then show ?thesis
      using next_packet_left[OF s False, of apiflags] s pk cl w
      by (intro exI[of _ "sockets n"] exI[of _ w]) (simp add: reading_def)
  qed
qed

section \<open>Copying\<close>

lemma clear_of_part:
  assumes "clear_of psize P as m L" and "r + k \<le> L" and "L < 2 ^ 32"
  shows "clear_of psize P as (m + of_nat r) k"
proof -
  have "outside x (m + of_nat r) k" if "outside x m L" for x
    by (rule outside_shift[OF outside_mono[OF that]]) (use assms in simp_all)
  then show ?thesis using assms(1) by (simp add: clear_of_def payloads_outside_def)
qed

lemma copy_reading:
  assumes r: "reading ext inq i c m L (n, w) p rest (as # ass) fin" and k: "unat k \<le> length (data_of n as)"
    and fit: "r + unat k \<le> L" "unat m + L < 2 ^ 32" "m \<noteq> 0" and p: "p \<noteq> 0"
  obtains m' where "pbuf_copy_partial p (m + of_nat r) k 0 n = Some (k, n\<lparr>kernel := (kernel n)\<lparr>mem := m'\<rparr>\<rparr>)"
    and "reading ext inq i c m L (n\<lparr>kernel := (kernel n)\<lparr>mem := m'\<rparr>\<rparr>, w) p rest (as # ass) fin"
    and "map (data_of (n\<lparr>kernel := (kernel n)\<lparr>mem := m'\<rparr>\<rparr>)) (as # ass) = map (data_of n) (as # ass)"
    and "bytes_at m' (m + of_nat r) (unat k) = take (unat k) (data_of n as)"
    and "\<And>x. outside x (m + of_nat r) (unat k) \<Longrightarrow> m' x = net_mem n x"
proof -
  have pk: "packets (pool_size ext) n (p # rest) (as # ass)" and s: "stream_at ext inq i c n w p rest fin"
    and cl: "\<And>bs. bs \<in> set (as # ass) \<Longrightarrow> clear_of (pool_size ext) (pbufs n) bs m L"
    using r p by (auto simp: reading_def waiting_def)
  have cp: "clear_of (pool_size ext) (pbufs n) bs (m + of_nat r) (unat k)" if "bs \<in> set (as # ass)" for bs
    by (rule clear_of_part[OF cl[OF that] fit(1)]) (use fit(2) in simp)
  have ch: "chain (pbufs n) p as" using pk by (simp add: packets_def owned_def)
  have "unat (m + of_nat r) = unat m + r" using fit by (simp add: unat_word_ariths(1) unat_of_nat32)
  then have nz: "m + of_nat r \<noteq> 0" using fit(3) by (metis add_is_0 unat_0 unat_eq_zero)
  let ?bs = "take (unat k) (data_of n as)"
  have l: "length ?bs = unat k" using k by simp
  obtain m' where m': "pbuf_copy_partial p (m + of_nat r) k 0 n
      = Some (of_nat (unat k), n\<lparr>kernel := (kernel n)\<lparr>mem := m'\<rparr>\<rparr>)"
    "bytes_at m' (m + of_nat r) (unat k) = ?bs" "\<forall>x. outside x (m + of_nat r) (unat k) \<longrightarrow> m' x = net_mem n x"
    using copy_partial_spec[OF ch p nz, of k ?bs 0] cp[of as] l by (auto simp: clear_of_def)
  let ?n = "n\<lparr>kernel := (kernel n)\<lparr>mem := m'\<rparr>\<rparr>"
  have pk': "packets (pool_size ext) ?n (p # rest) (as # ass)" "map (data_of ?n) (as # ass) = map (data_of n) (as # ass)"
    by (rule packets_written[OF pk cp m'(3)[rule_format]]; assumption)+
  have s': "stream_at ext inq i c ?n w p rest fin" by (rule stream_cong[OF s]) simp_all
  have "reading ext inq i c m L (?n, w) p rest (as # ass) fin"
    using s' pk'(1) cl p by (simp add: reading_def waiting_def)
  then show ?thesis using that m' pk'(2) by simp
qed

section \<open>Consuming\<close>

lemma clear_of_subset:
  assumes "clear_of psize P as dst k" and "set bs \<subseteq> set as" and "payloads_outside Q bs dst k"
  shows "clear_of psize Q bs dst k"
  using assms by (auto simp: clear_of_def)

lemma clear_of_cong:
  assumes "clear_of psize P as dst k" and "\<And>a. a \<in> set as \<Longrightarrow> Q a = P a"
  shows "clear_of psize Q as dst k"
  by (rule clear_of_subset[OF assms(1)]) (use assms in \<open>auto simp: clear_of_def payloads_outside_def\<close>)

text \<open>A packet that has been read to its end is freed.\<close>

lemma consume_all:
  assumes r: "reading ext inq i c m L (n, w) p rest (as # ass) fin" and k: "unat k = length (data_of n as)" and p: "p \<noteq> 0"
  obtains n' where "consume ext i p k n = Some n'" and "reading ext inq i c m L (n', w) 0 rest ass fin"
    and "map (data_of n') ass = map (data_of n) ass" and "net_mem n' = net_mem n"
proof -
  have pk: "packets (pool_size ext) n (p # rest) (as # ass)" and s: "stream_at ext inq i c n w p rest fin"
    and cl: "\<And>bs. bs \<in> set (as # ass) \<Longrightarrow> clear_of (pool_size ext) (pbufs n) bs m L"
    using r p by (auto simp: reading_def waiting_def)
  obtain b where b: "owned (pool_size ext) n p as" "pbufs n p = Some b" "unat (pb_tot_len b) = length (data_of n as)"
    by (rule packets_Cons[OF pk]) auto
  have tot: "uint (pb_tot_len b) = int (length (data_of n as))" "ucast k \<le> pb_tot_len b"
    using b(3) k by (simp_all only: uint_nat) (simp add: word_le_nat_alt)
  obtain n1 where n1: "set_lastdata i 0 n = Some n1" "stream_at ext inq i c n1 w 0 rest fin" "\<exists>ss. n1 = n\<lparr>sockets := ss\<rparr>"
    using set_lastdata_stream[OF s] .
  then obtain ss where ss: "n1 = n\<lparr>sockets := ss\<rparr>" by blast
  have o1: "owned (pool_size ext) n1 p as" using b(1) by (simp add: ss owned_def)
  obtain x n2 where n2: "pbuf_free (pool_size ext) p n1 = Some (x, n2)" "same_net n1 n2"
    "pbufs n2 = (\<lambda>x. if x \<in> set as then None else pbufs n1 x)"
    "unat (pp_rx_pool_usage n2) = unat (pp_rx_pool_usage n1) - rx_count (pbufs n1) as" using owned_free[OF o1] .
  have P: "pbufs n2 x = pbufs n x" if "x \<notin> set as" for x using that n2(3) ss by simp
  have mm: "net_mem n2 = net_mem n" using same_net_mem[OF n2(2)] ss by simp
  have u: "unat (pp_rx_pool_usage n) \<le> unat (pp_rx_pool_usage n2) + rx_count (pbufs n) as" using n2(4) ss by simp
  note rest = packets_rest[OF pk P mm u]
  have d: "set as \<inter> set bs = {}" if "bs \<in> set ass" for bs using pk that by (auto simp: packets_def)
  have "clear_of (pool_size ext) (pbufs n2) bs m L" if "bs \<in> set ass" for bs
    by (rule clear_of_cong[OF cl]) (use that d[OF that] P in auto)
  moreover have "stream_at ext inq i c n2 w 0 rest fin"
    by (rule stream_cong[OF n1(2)]) (use n2(2) in \<open>auto simp: same_net_def\<close>)
  ultimately have "reading ext inq i c m L (n2, w) 0 rest ass fin" using rest(1) by (simp add: reading_def waiting_def)
  moreover have "consume ext i p k n = Some n2"
    using b(2) k n1(1) n2(1) tot by (simp add: consume_def lwip_assert_def)
  ultimately show ?thesis using that rest(2) mm by simp
qed

text \<open>Of a packet that has been read in part the bytes read are dropped.\<close>

lemma consume_part:
  assumes r: "reading ext inq i c m L (n, w) p rest (as # ass) fin" and k: "unat k < length (data_of n as)" and p: "p \<noteq> 0"
  obtains n' q bs where "consume ext i p k n = Some n'" and "reading ext inq i c m L (n', w) q rest (bs # ass) fin"
    and "data_of n' bs = drop (unat k) (data_of n as)" and "map (data_of n') ass = map (data_of n) ass"
    and "net_mem n' = net_mem n"
proof -
  have pk: "packets (pool_size ext) n (p # rest) (as # ass)" and s: "stream_at ext inq i c n w p rest fin"
    and cl: "\<And>bs. bs \<in> set (as # ass) \<Longrightarrow> clear_of (pool_size ext) (pbufs n) bs m L"
    using r p by (auto simp: reading_def waiting_def)
  obtain b where b: "owned (pool_size ext) n p as" "pbufs n p = Some b" "unat (pb_tot_len b) = length (data_of n as)"
    by (rule packets_Cons[OF pk]) auto
  have tot: "uint k < uint (pb_tot_len b)" "k \<le> pb_tot_len b"
  proof -
    have l: "k < pb_tot_len b" using b(3) k by (simp add: word_less_nat_alt)
    then show "uint k < uint (pb_tot_len b)" by (simp add: word_less_def)
    show "k \<le> pb_tot_len b" using l by simp
  qed
  have le: "unat k \<le> length (data_of n as)" using k by simp
  obtain q n1 bs where f: "free_header_loop (pool_size ext) p k n = Some (q, n1)" "owned (pool_size ext) n1 q bs"
    "set bs \<subseteq> set as" "data_of n1 bs = drop (unat k) (data_of n as)" "same_net n n1" "\<forall>x. x \<notin> set as \<longrightarrow> pbufs n1 x = pbufs n x"
    "unat (pp_rx_pool_usage n1) + rx_count (pbufs n) as = unat (pp_rx_pool_usage n) + rx_count (pbufs n1) bs"
    "\<forall>dst j. payloads_outside (pbufs n) as dst j \<longrightarrow> payloads_outside (pbufs n1) bs dst j"
    using free_header_loop_spec[OF b(1) le] by blast
  have s1: "stream_at ext inq i c n1 w p rest fin" by (rule stream_cong[OF s]) (use f(5) in \<open>auto simp: same_net_def\<close>)
  obtain n2 where n2: "set_lastdata i q n1 = Some n2" "stream_at ext inq i c n2 w q rest fin" "\<exists>ss. n2 = n1\<lparr>sockets := ss\<rparr>"
    using set_lastdata_stream[OF s1] .
  then obtain ss where ss: "n2 = n1\<lparr>sockets := ss\<rparr>" by blast
  have mm: "net_mem n1 = net_mem n" by (rule same_net_mem[OF f(5)])
  have u: "unat (pp_rx_pool_usage n) \<le> unat (pp_rx_pool_usage n1) + rx_count (pbufs n) as" using f(7) by simp
  note rest = packets_rest[OF pk f(6)[rule_format] mm u]
  have d: "set as \<inter> set cs = {}" if "cs \<in> set ass" for cs using pk that by (auto simp: packets_def)
  have q: "q \<noteq> 0" using f(2,4) k by (cases bs) (auto simp: owned_def)
  have "packets (pool_size ext) n1 (q # rest) (bs # ass)"
  proof -
    have "distinct bs" using chain_distinct f(2) by (auto simp: owned_def)
    moreover have "set bs \<inter> set (concat ass) = {}" using f(3) d by fastforce
    moreover have rx: "sum_list (map (rx_count (pbufs n1)) ass) = sum_list (map (rx_count (pbufs n)) ass)"
      by (rule arg_cong[OF rest(3)])
    have "rx_count (pbufs n1) bs + sum_list (map (rx_count (pbufs n1)) ass) \<le> unat (pp_rx_pool_usage n1)"
      unfolding rx using pk f(7) by (simp add: packets_def)
    ultimately show ?thesis using rest(1) f(2) q \<open>rx_count (pbufs n1) bs + _ \<le> _\<close> by (simp add: packets_def)
  qed
  then have pk2: "packets (pool_size ext) n2 (q # rest) (bs # ass)" unfolding ss by (rule reading_sockets)
  have "clear_of (pool_size ext) (pbufs n1) cs m L" if "cs \<in> set ass" for cs
    by (rule clear_of_cong[OF cl]) (use that d[OF that] f(6) in auto)
  moreover have "clear_of (pool_size ext) (pbufs n1) bs m L"
    by (rule clear_of_subset[OF cl f(3)]) (use cl[of as] f(8) in \<open>auto simp: clear_of_def\<close>)
  ultimately have "reading ext inq i c m L (n2, w) q rest (bs # ass) fin"
    using n2(2) pk2 q ss by (simp add: reading_def waiting_def)
  moreover have "consume ext i p k n = Some n2"
    using b(2) f(1) n2(1) tot by (simp add: consume_def lwip_assert_def pbuf_free_header_def)
  ultimately show ?thesis using that f(4) rest(2) mm ss by simp
qed

section \<open>No packet left\<close>

lemma netconn_err_ok:
  assumes "c \<noteq> 0" and "netconns n c = Some b" and "nc_pending_err b = ERR_OK"
  shows "netconn_err c (n, w) = Some (ERR_OK, n\<lparr>netconns := (netconns n)(c \<mapsto> b\<lparr>nc_pending_err := ERR_OK\<rparr>)\<rparr>, w)"
  using assms by (simp add: netconn_err_def sys_arch_protect_def sys_arch_unprotect_def conn_at_def upd_conn_def
      lwip_assert_def exit_enter)

lemma tcp_socket_conn:
  assumes "tcp_socket ext inq i c left n b" and "nc_type b' = nc_type b" and "nc_recvmbox b' = nc_recvmbox b"
    and "nc_pending_err b' = ERR_OK"
  shows "tcp_socket ext inq i c left (n\<lparr>netconns := (netconns n)(c \<mapsto> b')\<rparr>) b'"
proof -
  have "sock_at i (n\<lparr>netconns := (netconns n)(c \<mapsto> b')\<rparr>) = sock_at i n" by (simp add: sock_at_def)
  then show ?thesis using assms by (auto simp: tcp_socket_def)
qed

lemma fin_flag:
  "netconn_is_flag_set (netconn_set_flags NETCONN_FIN_RX_PENDING b) NETCONN_FIN_RX_PENDING"
  by (simp add: netconn_is_flag_set_def netconn_set_flags_def NETCONN_FIN_RX_PENDING_def bit.conj_disj_distrib2)

text \<open>Without blocking, a read past the last packet reports an error; the end of the stream is remembered.\<close>

lemma next_packet_none:
  assumes s: "stream_at ext inq i c n w 0 [] fin" and a: "apiflags AND NETCONN_NOAUTORCVD \<noteq> 0"
    "apiflags AND NETCONN_DONTBLOCK \<noteq> 0" "apiflags AND NETCONN_NOFIN \<noteq> 0"
  shows "\<exists>err p C w'. next_packet ext i apiflags (n, w) = Some (err, p, n\<lparr>netconns := C\<rparr>, w') \<and> err \<noteq> ERR_OK
    \<and> (if fin then at_end ext inq i c (n\<lparr>netconns := C\<rparr>) w' else stream_at ext inq i c (n\<lparr>netconns := C\<rparr>) w' 0 [] fin)"
proof -
  obtain so b where c: "sock_at i n = Some so" "so_conn so = c" "so_lastdata so = 0" "netconns n c = Some b" "c \<noteq> 0"
    "NETCONNTYPE_GROUP (nc_type b) = NETCONN_TCP" "mailbox_law ext (nc_recvmbox b) inq" "nc_pending_err b = ERR_OK"
    "\<not> netconn_is_flag_set b NETCONN_FIN_RX_PENDING" and t: "tcp_socket ext inq i c 0 n b"
    using s by (auto simp: stream_at_def tcp_socket_def)
  have v: "mbox_valid ext (nc_recvmbox b) (n, w)" using c(7) by (simp add: mailbox_law_def)
  have np: "next_packet ext i apiflags (n, w) = Some (err, p, n1, w1)"
    if "netconn_recv_data_tcp ext c 0 apiflags (n, w) = Some (err, p, n1, w1)" "err \<noteq> ERR_OK" for err p n1 w1
    using that c by (simp add: next_packet_def netconn_recv_tcp_pbuf_flags_def tcp_conn_def conn_at_def)
  have dw: "mbox_get ext (netconn_is_nonblocking b \<or> apiflags AND NETCONN_DONTBLOCK \<noteq> 0
      \<or> netconn_is_flag_set b NETCONN_FLAG_MBOXCLOSED \<or> nc_pending_err b \<noteq> ERR_OK) (nc_recvmbox b) (nc_recv_timeout b) (n, w)
    = mbox_tryfetch ext (nc_recvmbox b) (n, w)" using a(2) by (simp add: mbox_get_def)
  show ?thesis
  proof (cases fin)
    case False
    then have w: "inq w = []" using s by (simp add: stream_at_def)
    define b1 where "b1 = b\<lparr>nc_pending_err := ERR_OK\<rparr>"
    define n1 where "n1 = n\<lparr>netconns := (netconns n)(c \<mapsto> b1)\<rparr>"
    define e where "e = (if netconn_is_flag_set b1 NETCONN_FLAG_MBOXCLOSED then ERR_CONN else ERR_WOULDBLOCK)"
    have e: "e \<noteq> ERR_OK" by (simp add: e_def ERR_CONN_def ERR_WOULDBLOCK_def ERR_OK_def)
    have "mbox_tryfetch ext (nc_recvmbox b) (n, w) = Some (None, n, w)" using c(7) w by (simp add: mailbox_law_def)
    then have "netconn_recv_data ext c apiflags (n, w) = Some (e, 0, n1, w)"
      using c v dw netconn_err_ok[OF c(5,4,8), of w] a(2)
      by (simp add: netconn_recv_data_def conn_at_def Let_def e_def n1_def b1_def)
    then have "netconn_recv_data_tcp ext c 0 apiflags (n, w) = Some (e, 0, n1, w)"
      using c v e by (simp add: netconn_recv_data_tcp_def conn_at_def)
    moreover have "stream_at ext inq i c n1 w 0 [] False"
      using tcp_socket_conn[OF t, of b1] w c(9) unfolding n1_def
      by (auto simp: stream_at_def b1_def netconn_is_flag_set_def)
    ultimately show ?thesis using np[OF _ e] e False n1_def by auto
  next
    case True
    then obtain x where w: "inq w = [x]" "is_err_msg ext x = Some ERR_CLSD" using s by (auto simp: stream_at_def)
    obtain w1 where w1: "inq w1 = []" "mbox_tryfetch ext (nc_recvmbox b) (n, w) = Some (Some x, n, w1)"
      using c(7) w(1) by (fastforce simp: mailbox_law_def)
    define b1 where "b1 = netconn_set_flags NETCONN_FIN_RX_PENDING b"
    define n1 where "n1 = n\<lparr>netconns := (netconns n)(c \<mapsto> b1)\<rparr>"
    have e: "ERR_WOULDBLOCK \<noteq> ERR_OK" by (simp add: ERR_WOULDBLOCK_def ERR_OK_def)
    have "netconn_recv_data ext c apiflags (n, w) = Some (ERR_OK, 0, n, w1)"
      using c v dw w1(2) w(2) by (simp add: netconn_recv_data_def conn_at_def Let_def)
    then have "netconn_recv_data_tcp ext c 0 apiflags (n, w) = Some (ERR_WOULDBLOCK, 0, n1, w1)"
      using c v a by (simp add: netconn_recv_data_tcp_def conn_at_def upd_conn_def n1_def b1_def)
    moreover have "at_end ext inq i c n1 w1"
      using tcp_socket_conn[OF t, of b1] w1(1) c(8) fin_flag[of b] unfolding n1_def
      by (auto simp: at_end_def b1_def netconn_set_flags_def)
    ultimately show ?thesis using np[OF _ e] e True n1_def by auto
  qed
qed

section \<open>The loop\<close>

text \<open>Where the call leaves the stream: at the data \<open>D\<close> still to read, or at the end it has met.\<close>

definition stream_left ::
    "'w ext \<Rightarrow> ('w \<Rightarrow> u32 list) \<Rightarrow> nat \<Rightarrow> u32 \<Rightarrow> u32 \<Rightarrow> nat \<Rightarrow> 'w host \<Rightarrow> u8 list \<Rightarrow> bool \<Rightarrow> bool" where
  "stream_left ext inq i c m L h D fin \<longleftrightarrow>
     (\<exists>left qs ass. reading ext inq i c m L h left qs ass fin \<and> D = concat (map (data_of (fst h)) ass))
     \<or> (D = [] \<and> fin \<and> at_end ext inq i c (fst h) (snd h))"

lemma stream_left_conn:
  assumes "stream_left ext inq i c m L h D fin"
  obtains so b where "sock_at i (fst h) = Some so" and "so_conn so = c" and "c \<noteq> 0" and "netconns (fst h) c = Some b"
    and "NETCONNTYPE_GROUP (nc_type b) = NETCONN_TCP"
  using assms by (auto simp: stream_left_def reading_def stream_at_def at_end_def tcp_socket_def)

lemma at_end_same:
  assumes "at_end ext inq i c n w" and "same_conns n n'" and "inq w' = inq w"
  shows "at_end ext inq i c n' w'"
proof -
  obtain b where "tcp_socket ext inq i c 0 n b" "netconn_is_flag_set b NETCONN_FIN_RX_PENDING"
    using assms(1) by (auto simp: at_end_def)
  then have "\<exists>b. tcp_socket ext inq i c 0 n' b \<and> netconn_is_flag_set b NETCONN_FIN_RX_PENDING"
    using tcp_socket_same[OF _ assms(2)] by blast
  then show ?thesis using assms(1,3) by (simp add: at_end_def)
qed

lemma stream_left_same:
  assumes "stream_left ext inq i c m L (n, w) D fin" and s: "same_conns n n'" and w: "inq w' = inq w"
  shows "stream_left ext inq i c m L (n', w') D fin"
proof -
  note e = same_conns_sel[OF s]
  have d: "data_of n' = data_of n" "pbufs n' = pbufs n" using e by simp_all
  from assms(1) show ?thesis unfolding stream_left_def
  proof (elim disjE exE conjE)
    fix left qs ass
    assume r: "reading ext inq i c m L (n, w) left qs ass fin" and D: "D = concat (map (data_of (fst (n, w))) ass)"
    have "stream_at ext inq i c n' w' left qs fin"
      by (rule stream_same[of ext inq i c n w]) (use r s w in \<open>simp_all add: reading_def\<close>)
    moreover have "packets (pool_size ext) n' (waiting left qs) ass"
      using r packets_cong[of n' n] e by (simp add: reading_def)
    ultimately have "reading ext inq i c m L (n', w') left qs ass fin" using r d by (simp add: reading_def)
    then show "(\<exists>left qs ass. reading ext inq i c m L (n', w') left qs ass fin \<and> D = concat (map (data_of (fst (n', w'))) ass))
      \<or> (D = [] \<and> fin \<and> at_end ext inq i c (fst (n', w')) (snd (n', w')))" using D d by auto
  next
    assume "D = []" "fin" "at_end ext inq i c (fst (n, w)) (snd (n, w))"
    then show "(\<exists>left qs ass. reading ext inq i c m L (n', w') left qs ass fin \<and> D = concat (map (data_of (fst (n', w'))) ass))
      \<or> (D = [] \<and> fin \<and> at_end ext inq i c (fst (n', w')) (snd (n', w')))"
      using at_end_same[of ext inq i c n w n' w'] s w by simp
  qed
qed

lemma recv_tcp_done_left:
  assumes q: "quiet_law ext inq" and s: "stream_left ext inq i c m L (n, w) D fin"
    and f: "flags AND MSG_PEEK = 0" and r: "r > 0"
  shows "\<exists>n' w'. recv_tcp_done ext i flags (int r) (n, w) = Some (int r, n', w') \<and> net_mem n' = net_mem n
    \<and> stream_left ext inq i c m L (n', w') D fin"
proof -
  obtain so b where c: "sock_at i n = Some so" "so_conn so = c" "c \<noteq> 0" "netconns n c = Some b"
    "NETCONNTYPE_GROUP (nc_type b) = NETCONN_TCP" using stream_left_conn[OF s] by auto
  obtain st err args n' w' where m: "send_msg ext DO_RECV \<lparr>am_conn = c, am_args = RecvArgs (of_nat r)\<rparr> (n, w)
      = Some (st, err, args, n', w')" "same_conns n n'" "inq w' = inq w" using q unfolding quiet_law_def by blast
  have "netconn_tcp_recvd ext c (of_nat r) (n, w) = Some (if st = ERR_OK then err else st, n', w')"
    using c m(1) by (simp add: netconn_tcp_recvd_def netconn_tcp_recvd_msg_def tcp_conn_def conn_at_def netconn_apimsg_def)
  then have "recv_tcp_done ext i flags (int r) (n, w) = Some (int r, n', w')"
    using c f r by (simp add: recv_tcp_done_def sock_errno_def set_errno_def)
  then show ?thesis using same_conns_sel[OF m(2)] stream_left_same[OF s m(2,3)] by simp
qed

text \<open>How the size to copy is computed.\<close>

lemma copy_len:
  assumes "len0 = (if int l > int (unat tot) then tot else word_of_int (int l))" and "r + l \<le> 0x7fffffff"
  shows "unat (len0 :: u16) = min l (unat tot)" and "isize_wrap (int r + int (unat len0)) = int (r + min l (unat tot))"
    and "\<not> isize_wrap (int r + int (unat len0)) < int r"
proof -
  have "unat (of_nat l :: u16) = l" if "l \<le> unat tot"
    using that unat_u16_less[of tot] by (simp add: unat_of_nat take_bit_nat_eq_self)
  moreover have "len0 = (if unat tot < l then tot else of_nat l)"
    using assms(1) unfolding of_nat_less_iff by simp
  ultimately show l: "unat len0 = min l (unat tot)" by auto
  have "isize_wrap (int r + int (unat len0)) = int r + int (unat len0)"
    unfolding isize_wrap_def by (rule signed_take_bit_int_eq_self) (use l assms(2) in simp_all)
  then show "isize_wrap (int r + int (unat len0)) = int (r + min l (unat tot))"
    and "\<not> isize_wrap (int r + int (unat len0)) < int r" using l by simp_all
qed

lemma flags_stay:
  "(x :: u8) AND y \<noteq> 0 \<Longrightarrow> (x OR z) AND y \<noteq> 0"
  by (metis bit.conj_disj_distrib2 or_eq_0_iff)

lemma new_flags:
  "((x :: u8) OR (NETCONN_DONTBLOCK OR NETCONN_NOFIN)) AND NETCONN_DONTBLOCK \<noteq> 0"
  "((x :: u8) OR (NETCONN_DONTBLOCK OR NETCONN_NOFIN)) AND NETCONN_NOFIN \<noteq> 0"
  by (simp_all add: api_flags bit.conj_disj_distrib2 or_eq_0_iff)

text \<open>What a run of the loop returns and leaves, from position \<open>r\<close> of the buffer with room for \<open>l\<close> bytes.\<close>

definition loop_result ::
    "'w ext \<Rightarrow> ('w \<Rightarrow> u32 list) \<Rightarrow> nat \<Rightarrow> u32 \<Rightarrow> u32 \<Rightarrow> nat \<Rightarrow> nat \<Rightarrow> nat \<Rightarrow> (u32 \<Rightarrow> u8) \<Rightarrow> u8 list \<Rightarrow> bool
     \<Rightarrow> (int \<times> 'w host) option \<Rightarrow> bool" where
  "loop_result ext inq i c m L r l mm D fin res \<longleftrightarrow>
     (let k = min l (length D) in \<exists>h'. res = Some (int (r + k), h')
        \<and> bytes_at (net_mem (fst h')) (m + of_nat r) k = take k D
        \<and> (\<forall>x. outside x (m + of_nat r) k \<longrightarrow> net_mem (fst h') x = mm x)
        \<and> stream_left ext inq i c m L h' (drop k D) fin)"

lemma loop_result_none:
  assumes q: "quiet_law ext inq" and s: "stream_at ext inq i c n w 0 [] fin"
    and a: "apiflags AND NETCONN_NOAUTORCVD \<noteq> 0" "apiflags AND NETCONN_DONTBLOCK \<noteq> 0" "apiflags AND NETCONN_NOFIN \<noteq> 0"
    and f: "flags AND MSG_PEEK = 0" and r: "r > 0"
  shows "loop_result ext inq i c m L r l (net_mem n) [] fin (recv_tcp_loop ext i m flags apiflags (int r) (int l) (n, w))"
proof -
  obtain err p C w1 where np: "next_packet ext i apiflags (n, w) = Some (err, p, n\<lparr>netconns := C\<rparr>, w1)" "err \<noteq> ERR_OK"
    "if fin then at_end ext inq i c (n\<lparr>netconns := C\<rparr>) w1 else stream_at ext inq i c (n\<lparr>netconns := C\<rparr>) w1 0 [] fin"
    using next_packet_none[OF s a] by blast
  let ?n = "n\<lparr>netconns := C\<rparr>"
  have "stream_left ext inq i c m L (?n, w1) [] fin"
  proof (cases fin)
    case True
    then show ?thesis using np(3) by (simp add: stream_left_def)
  next
    case False
    then have "reading ext inq i c m L (?n, w1) 0 [] [] fin"
      using np(3) by (simp add: reading_def waiting_def packets_def)
    then show ?thesis by (force simp: stream_left_def)
  qed
  then obtain n' w' where "recv_tcp_done ext i flags (int r) (?n, w1) = Some (int r, n', w')" "net_mem n' = net_mem ?n"
    "stream_left ext inq i c m L (n', w') [] fin" using recv_tcp_done_left[OF q _ f r] by blast
  then show ?thesis
    unfolding loop_result_def Let_def
    by (subst recv_tcp_loop.simps) (use np(1,2) r in \<open>simp add: bytes_at_def\<close>)
qed

text \<open>The part written first, then what the rest of the loop writes behind it.\<close>

lemma loop_result_append:
  assumes "loop_result ext inq i c m L (r + length B) (l - length B) m1 D fin res" and "length B \<le> l"
    and "bytes_at m1 (m + of_nat r) (length B) = B" and "\<And>x. outside x (m + of_nat r) (length B) \<Longrightarrow> m1 x = m0 x"
    and "r + l < 2 ^ 32"
  shows "loop_result ext inq i c m L r l m0 (B @ D) fin res"
proof -
  let ?k = "min (l - length B) (length D)" and ?d = "m + of_nat r"
  have k: "min l (length (B @ D)) = length B + ?k" using assms(2) by auto
  have d: "m + of_nat (r + length B) = ?d + of_nat (length B)" by (simp add: add.assoc)
  obtain h' where h: "res = Some (int (r + (length B + ?k)), h')"
    "bytes_at (net_mem (fst h')) (?d + of_nat (length B)) ?k = take ?k D"
    "\<forall>x. outside x (?d + of_nat (length B)) ?k \<longrightarrow> net_mem (fst h') x = m1 x"
    "stream_left ext inq i c m L h' (drop ?k D) fin"
    using assms(1) unfolding loop_result_def Let_def d by (auto simp: add.assoc)
  have lt: "length B + ?k < 2 ^ 32" using assms(2,5) by simp
  have "bytes_at (net_mem (fst h')) ?d (length B) = bytes_at m1 ?d (length B)"
    by (rule bytes_at_cong) (rule h(3)[rule_format], rule outside_behind, assumption, rule lt)
  then have w: "bytes_at (net_mem (fst h')) ?d (length B + ?k) = B @ take ?k D"
    unfolding bytes_at_append[of _ ?d "length B" ?k] h(2) using assms(3) by simp
  have fr: "net_mem (fst h') x = m0 x" if "outside x ?d (length B + ?k)" for x
    using h(3)[rule_format, OF outside_shift[OF that lt]] assms(4)[OF outside_mono[OF that]] by simp
  show ?thesis
    unfolding loop_result_def Let_def k using h(1,4) w fr by (intro exI[of _ h']) simp
qed

lemma recv_tcp_loop_reads:
  assumes q: "quiet_law ext inq" and f: "flags AND MSG_PEEK = 0" and m: "m \<noteq> 0" "unat m + L < 2 ^ 32"
    and "reading ext inq i c m L (n, w) left qs ass fin" and "D = concat (map (data_of n) ass)"
    and "apiflags AND NETCONN_NOAUTORCVD \<noteq> 0" and "l > 0" and "r + l \<le> 0x7fffffff" and "r + l \<le> L"
    and "D \<noteq> [] \<or> r > 0 \<and> apiflags AND NETCONN_DONTBLOCK \<noteq> 0 \<and> apiflags AND NETCONN_NOFIN \<noteq> 0"
  shows "loop_result ext inq i c m L r l (net_mem n) D fin (recv_tcp_loop ext i m flags apiflags (int r) (int l) (n, w))"
  using assms(5-)
proof (induction ass arbitrary: left qs r l n w apiflags D)
  case Nil
  have "waiting left qs = []" using Nil(1) by (auto simp: reading_def packets_def)
  then have "left = 0" "qs = []" by (auto simp: waiting_def split: if_splits)
  then show ?case using loop_result_none[OF q _ Nil(3) _ _ f] Nil by (simp add: reading_def)
next
  case (Cons as ass)
  obtain p rest where p: "waiting left qs = p # rest"
    using Cons.prems(1) by (cases "waiting left qs") (auto simp: reading_def packets_def)
  obtain ss w1 where np: "next_packet ext i apiflags (n, w) = Some (ERR_OK, p, n\<lparr>sockets := ss\<rparr>, w1)"
    "reading ext inq i c m L (n\<lparr>sockets := ss\<rparr>, w1) p rest (as # ass) fin"
    using next_packet_reading[OF q Cons.prems(1) p Cons.prems(3)] by blast
  define n1 where "n1 = n\<lparr>sockets := ss\<rparr>"
  have same: "net_mem n1 = net_mem n" "pbufs n1 = pbufs n" "data_of n1 = data_of n" by (simp_all add: n1_def)
  have r1: "reading ext inq i c m L (n1, w1) p rest (as # ass) fin" using np(2) by (simp add: n1_def)
  have p0: "p \<noteq> 0" using Cons.prems(1) unfolding reading_def p by (simp add: packets_def)
  have "packets (pool_size ext) n1 (p # rest) (as # ass)" using r1 p0 by (simp add: reading_def waiting_def)
  then obtain b where b: "pbufs n1 p = Some b" "unat (pb_tot_len b) = length (data_of n1 as)"
    by (rule packets_Cons) auto
  define len0 where "len0 = (if int l > int (unat (pb_tot_len b)) then pb_tot_len b else word_of_int (int l))"
  define k where "k = min l (unat (pb_tot_len b))"
  note cl = copy_len[OF len0_def Cons.prems(5), folded k_def]
  have fit: "unat len0 \<le> length (data_of n1 as)" "r + unat len0 \<le> L" using cl(1) b(2) Cons.prems(6) by (simp_all add: k_def)
  obtain m' where cp: "pbuf_copy_partial p (m + of_nat r) len0 0 n1 = Some (len0, n1\<lparr>kernel := (kernel n1)\<lparr>mem := m'\<rparr>\<rparr>)"
    and r2: "reading ext inq i c m L (n1\<lparr>kernel := (kernel n1)\<lparr>mem := m'\<rparr>\<rparr>, w1) p rest (as # ass) fin"
    and d2: "map (data_of (n1\<lparr>kernel := (kernel n1)\<lparr>mem := m'\<rparr>\<rparr>)) (as # ass) = map (data_of n1) (as # ass)"
    and by2: "bytes_at m' (m + of_nat r) (unat len0) = take (unat len0) (data_of n1 as)"
    and fr2: "\<And>x. outside x (m + of_nat r) (unat len0) \<Longrightarrow> m' x = net_mem n1 x"
    using copy_reading[OF r1 fit m(2,1) p0] by blast
  define n2 where "n2 = n1\<lparr>kernel := (kernel n1)\<lparr>mem := m'\<rparr>\<rparr>"
  have mem2: "net_mem n2 = m'" by (simp add: n2_def)
  note cp = cp[folded n2_def] and r2 = r2[folded n2_def] and d2 = d2[folded n2_def]
  have "D = concat (map (data_of n2) (as # ass))" unfolding d2 Cons.prems(2) same(3) ..
  then have D: "D = data_of n2 as @ concat (map (data_of n2) ass)" by simp
  have by3: "bytes_at m' (m + of_nat r) k = take k (data_of n2 as)" and tot: "length (data_of n2 as) = unat (pb_tot_len b)"
    using by2 cl(1) d2 b(2) by simp_all
  have fr3: "m' x = net_mem n x" if "outside x (m + of_nat r) k" for x using fr2 that cl(1) same(1) by simp
  have nf: "(if uint (pb_tot_len b) < int l then pb_tot_len b else word_of_int (int l)) = len0" by (simp add: len0_def)
  have uk: "uint len0 = int k" "isize_wrap (int r + int k) = int r + int k" "k \<le> l"
    using cl by (simp_all add: uint_nat[symmetric] k_def) (simp only: uint_nat)
  have step: "recv_tcp_loop ext i m flags apiflags (int r) (int l) (n, w) = do {
      n3 \<leftarrow> consume ext i p len0 n2;
      (if int l - int k > 0
       then recv_tcp_loop ext i m flags (apiflags OR (NETCONN_DONTBLOCK OR NETCONN_NOFIN)) (int (r + k)) (int l - int k) (n3, w1)
       else recv_tcp_done ext i flags (int (r + k)) (n3, w1)) }"
    by (subst recv_tcp_loop.simps)
      (use np(1)[folded n1_def] b(1) cp uk f in \<open>simp add: nf lwip_assert_def, simp add: Let_def cong: if_cong\<close>)
  show ?case
  proof (cases "l > unat (pb_tot_len b)")
    case True
    then have k: "k = length (data_of n2 as)" "unat len0 = length (data_of n2 as)" using tot cl(1) by (simp_all add: k_def)
    obtain n3 where c: "consume ext i p len0 n2 = Some n3" "reading ext inq i c m L (n3, w1) 0 rest ass fin"
      "map (data_of n3) ass = map (data_of n2) ass" "net_mem n3 = net_mem n2" using consume_all[OF r2 k(2) p0] .
    let ?a = "apiflags OR (NETCONN_DONTBLOCK OR NETCONN_NOFIN)"
    have "loop_result ext inq i c m L (r + k) (l - k) (net_mem n3) (concat (map (data_of n2) ass)) fin
        (recv_tcp_loop ext i m flags ?a (int (r + k)) (int (l - k)) (n3, w1))"
    proof (rule Cons.IH[OF c(2)])
      show "concat (map (data_of n2) ass) = concat (map (data_of n3) ass)" using c(3) by (rule arg_cong[OF sym])
      show "?a AND NETCONN_NOAUTORCVD \<noteq> 0" by (rule flags_stay[OF Cons.prems(3)])
      show "l - k > 0" "r + k + (l - k) \<le> 0x7fffffff" "r + k + (l - k) \<le> L" using True tot k(1) Cons.prems(5,6) by simp_all
      show "concat (map (data_of n2) ass) \<noteq> [] \<or> r + k > 0 \<and> ?a AND NETCONN_DONTBLOCK \<noteq> 0 \<and> ?a AND NETCONN_NOFIN \<noteq> 0"
        using Cons.prems(7) D k(1) new_flags[of apiflags] by auto
    qed
    moreover have "recv_tcp_loop ext i m flags apiflags (int r) (int l) (n, w)
        = recv_tcp_loop ext i m flags ?a (int (r + k)) (int (l - k)) (n3, w1)"
    proof -
      have "k < l" using True tot k(1) by simp
      then show ?thesis unfolding step c(1) by (simp add: of_nat_diff)
    qed
    ultimately have "loop_result ext inq i c m L (r + length (data_of n2 as)) (l - length (data_of n2 as)) m'
        (concat (map (data_of n2) ass)) fin (recv_tcp_loop ext i m flags apiflags (int r) (int l) (n, w))"
      using c(4) mem2 k(1) by simp
    then show ?thesis unfolding D
      by (rule loop_result_append) (use True tot by3 fr3 k(1) Cons.prems(5) in simp_all)
  next
    case False
    then have k: "k = l" "unat len0 = l" using cl(1) by (simp_all add: k_def)
    have le: "l \<le> length (data_of n2 as)" using False tot by simp
    obtain n3 where c: "consume ext i p len0 n2 = Some n3" "net_mem n3 = net_mem n2"
      "stream_left ext inq i c m L (n3, w1) (drop l D) fin"
    proof (cases "l = length (data_of n2 as)")
      case True
      then have "unat len0 = length (data_of n2 as)" using k(2) by simp
      from consume_all[OF r2 this p0] obtain n3 where c: "consume ext i p len0 n2 = Some n3"
        "reading ext inq i c m L (n3, w1) 0 rest ass fin" "map (data_of n3) ass = map (data_of n2) ass" "net_mem n3 = net_mem n2" .
      have "drop l D = concat (map (data_of n3) ass)" unfolding D c(3) using True by simp
      then have "\<exists>left qs ass. reading ext inq i c m L (n3, w1) left qs ass fin \<and> drop l D = concat (map (data_of (fst (n3, w1))) ass)"
        using c(2) by (intro exI[of _ 0] exI[of _ rest] exI[of _ ass]) (simp only: fst_conv)
      then show ?thesis using that[OF c(1,4)] unfolding stream_left_def by blast
    next
      case False
      then have "unat len0 < length (data_of n2 as)" using k(2) le by simp
      from consume_part[OF r2 this p0] obtain n3 q bs where c: "consume ext i p len0 n2 = Some n3"
        "reading ext inq i c m L (n3, w1) q rest (bs # ass) fin" "data_of n3 bs = drop (unat len0) (data_of n2 as)"
        "map (data_of n3) ass = map (data_of n2) ass" "net_mem n3 = net_mem n2" .
      have "drop l D = concat (map (data_of n3) (bs # ass))" unfolding D list.map(2) c(3,4) concat.simps using le k(2) by simp
      then have "\<exists>left qs ass. reading ext inq i c m L (n3, w1) left qs ass fin \<and> drop l D = concat (map (data_of (fst (n3, w1))) ass)"
        using c(2) by (intro exI[of _ q] exI[of _ rest] exI[of _ "bs # ass"]) (simp only: fst_conv)
      then show ?thesis using that[OF c(1,5)] unfolding stream_left_def by blast
    qed
    have "r + l > 0" using Cons.prems(4) by simp
    from recv_tcp_done_left[OF q c(3) f this] obtain n' w' where d: "recv_tcp_done ext i flags (int (r + l)) (n3, w1) = Some (int (r + l), n', w')"
      "net_mem n' = net_mem n3" "stream_left ext inq i c m L (n', w') (drop l D) fin" by blast
    have "recv_tcp_loop ext i m flags apiflags (int r) (int l) (n, w) = Some (int (r + l), n', w')"
      unfolding step c(1) k(1) using d(1) by simp
    moreover have "min l (length D) = l" using le D by simp
    moreover have "take l D = take l (data_of n2 as)" using le D by simp
    ultimately show ?thesis
      unfolding loop_result_def Let_def using d(2,3) c(2) mem2 by3 fr3 k(1) by (intro exI[of _ "(n', w')"]) simp
  qed
qed

end
