(* ===== verification/Lwip_Stream_Properties.thy ===== *)
theory Lwip_Stream_Properties
  imports Lwip_Stream_Read Lwip_Pbuf_Properties
begin

unbundle bit_operations_syntax

text \<open>What reading from a TCP socket promises, with an instance on a mailbox of one packet and the end.\<close>

section \<open>One call\<close>

lemma recv_tcp_reads:
  assumes "quiet_law ext inq" and "stream_left ext inq i c m L h D fin" and "D \<noteq> []" and "m \<noteq> 0" and "unat m + L < 2 ^ 32"
    and "0 < unat len" and "unat len \<le> L" and "unat len \<le> 0x7fffffff" and "flags AND MSG_PEEK = 0"
  shows "\<exists>h'. lwip_recv_tcp ext i m len flags h = Some (int (min (unat len) (length D)), h')
    \<and> bytes_at (net_mem (fst h')) m (min (unat len) (length D)) = take (unat len) D
    \<and> (\<forall>x. outside x m (min (unat len) (length D)) \<longrightarrow> net_mem (fst h') x = net_mem (fst h) x)
    \<and> stream_left ext inq i c m L h' (drop (unat len) D) fin"
proof -
  obtain n w where h: "h = (n, w)" by (cases h)
  obtain left qs ass where r: "reading ext inq i c m L (n, w) left qs ass fin" "D = concat (map (data_of n) ass)"
    using assms(2,3) by (auto simp: stream_left_def h)
  obtain so b where c: "sock_at i n = Some so" "so_conn so = c" "netconns n c = Some b"
    "NETCONNTYPE_GROUP (nc_type b) = NETCONN_TCP" by (rule stream_left_conn[OF assms(2), unfolded h]) simp
  let ?a = "NETCONN_NOAUTORCVD OR (if flags AND MSG_DONTWAIT \<noteq> 0 then NETCONN_DONTBLOCK else 0)"
  have a: "?a AND NETCONN_NOAUTORCVD \<noteq> 0" by (simp add: api_flags)
  have "loop_result ext inq i c m L 0 (unat len) (net_mem n) D fin
      (recv_tcp_loop ext i m flags ?a (int 0) (int (unat len)) (n, w))"
    by (rule recv_tcp_loop_reads[OF assms(1,9,4,5) r a]) (use assms(3,6-8) in simp_all)
  moreover have "lwip_recv_tcp ext i m len flags h = recv_tcp_loop ext i m flags ?a (int 0) (int (unat len)) (n, w)"
    using c assms(8) by (simp add: lwip_recv_tcp_def sock_conn_def conn_at_def lwip_assert_def h ISIZE_MAX_def word_le_nat_alt)
  moreover have "take (min (unat len) (length D)) D = take (unat len) D" "drop (min (unat len) (length D)) D = drop (unat len) D"
    by (simp_all add: min_def)
  ultimately show ?thesis unfolding loop_result_def Let_def by (simp add: h)
qed

text \<open>A sequence of calls, and what each of them finds in the buffer.\<close>

fun recv_seq :: "'w ext \<Rightarrow> nat \<Rightarrow> u32 \<Rightarrow> u32 \<Rightarrow> u32 list \<Rightarrow> 'w host \<Rightarrow> (u8 list list \<times> 'w host) option" where
  "recv_seq ext i m flags [] h = Some ([], h)"
| "recv_seq ext i m flags (len # lens) h =
     do {
       (ret, h1) \<leftarrow> lwip_recv_tcp ext i m len flags h;
       (bss, h2) \<leftarrow> recv_seq ext i m flags lens h1;
       Some (bytes_at (net_mem (fst h1)) m (nat ret) # bss, h2)
     }"

text \<open>The same on a list of bytes.\<close>

fun chunks :: "nat list \<Rightarrow> u8 list \<Rightarrow> u8 list list" where
  "chunks [] D = []"
| "chunks (k # ks) D = take k D # chunks ks (drop k D)"

lemma concat_chunks: "concat (chunks ks D) = take (sum_list ks) D"
  by (induction ks arbitrary: D) (simp_all add: take_add)

section \<open>A concrete connection\<close>

text \<open>The stack's side: the mailbox is the list of messages, \<open>1\<close> is the message for the end of the stream.\<close>

definition demo_ext :: "u32 list ext" where
  "demo_ext = \<lparr>send_msg = (\<lambda>fn msg h. Some (ERR_OK, ERR_OK, am_args msg, h)),
     send_dns = (\<lambda>name a t err sem h. Some (ERR_OK, ERR_OK, a, h)),
     mbox_valid = (\<lambda>mb h. True),
     mbox_tryfetch = (\<lambda>mb h. case snd h of [] \<Rightarrow> Some (None, h) | p # ps \<Rightarrow> Some (Some p, fst h, ps)),
     mbox_fetch = (\<lambda>mb t h. case snd h of [] \<Rightarrow> Some (None, h) | p # ps \<Rightarrow> Some (Some p, fst h, ps)),
     mbox_free = (\<lambda>mb h. h), sem_new = (\<lambda>k h. (0, 1, h)), sem_valid = (\<lambda>s h. True), sem_free = (\<lambda>s h. h),
     is_err_msg = (\<lambda>p. if p = 1 then Some ERR_CLSD else None), call_event = (\<lambda>f c e l h. Some h), sys_now = (\<lambda>h. 0),
     conn_alloc = (\<lambda>t f h. (0, h)), conn_free = (\<lambda>c h. Some h), pbuf_alloc = (\<lambda>sz t h. (0, h)), pool_size = (\<lambda>t. 0),
     heap_malloc = (\<lambda>sz k. 0), ip6_addr_any = ip_addr_any, ip_addr_any_type = ip_addr_any, frame = 0x9000,
     junk_addr = ip_addr_any\<rparr>"

definition demo_socket_net :: net where
  "demo_socket_net = demo_net\<lparr>netconns := [0x7000 \<mapsto> \<lparr>nc_type = 0x10, nc_state = 0, nc_pcb = 0x7100, nc_pending_err = 0,
       nc_op_completed = 1, nc_recvmbox = 1, nc_acceptmbox = 0, nc_socket = 3, nc_send_timeout = 0, nc_recv_timeout = 0,
       nc_flags = 0, nc_callback = 0\<rparr>],
     sockets := [\<lparr>so_conn = 0x7000, so_lastdata = 0, so_rcvevent = 1, so_sendevent = 1, so_errevent = 0,
       so_select_waiting = 0, so_fd_used = 1, so_fd_free_pending = 0\<rparr>]\<rparr>"

lemma demo_quiet: "quiet_law demo_ext id"
  unfolding quiet_law_def using same_conns_refl by (auto simp: demo_ext_def)

lemma demo_mailbox: "mailbox_law demo_ext mb id"
  by (simp add: mailbox_law_def demo_ext_def)

lemma demo_stream_at: "stream_at demo_ext id 0 0x7000 demo_socket_net [0x6000, 1] 0 [0x6000] True"
  unfolding stream_at_def tcp_socket_def using demo_mailbox
  by (simp add: demo_socket_net_def sock_at_def NETCONNTYPE_GROUP_def NETCONN_TCP_def ERR_OK_def
      netconn_is_flag_set_def demo_ext_def)

lemma demo_clear: "clear_of (\<lambda>t. 0) (pbufs demo_net) [0x6000, 0x6100] 0x8000 16"
proof -
  have u: "[0..<16] = [0, 1, 2, 3, 4, 5, 6, 7, 8, 9, 10, 11, 12, 13, 14, 15]" by (simp add: upt_rec)
  have "outside (pb_payload b + of_nat i) 0x8000 16" if "b \<in> {demo_pbuf 0x6100 0x6041 5 3, demo_pbuf 0 0x6161 2 2}"
    "i < unat (pb_len b)" for b i
  proof -
    have "i = 0 \<or> i = 1 \<or> i = 2" using that by (auto simp: demo_pbuf_def)
    then show ?thesis using that(1) by (auto simp: demo_pbuf_def outside_def)
  qed
  then have "payloads_outside (pbufs demo_net) [0x6000, 0x6100] 0x8000 16"
    by (simp add: payloads_outside_def demo_net_def)
  then show ?thesis by (simp add: clear_of_def u outside_def)
qed

lemma demo_stream_left:
  "stream_left demo_ext id 0 0x7000 0x8000 16 (demo_socket_net, [0x6000, 1]) [0x41, 0x42, 0x43, 0x61, 0x62] True"
proof -
  have o: "owned (\<lambda>t. 0) demo_socket_net 0x6000 [0x6000, 0x6100]"
    using demo_net_owned[of "\<lambda>t. 0"] by (simp add: owned_def demo_socket_net_def)
  then have "packets (pool_size demo_ext) demo_socket_net [0x6000] [[0x6000, 0x6100]]"
    by (simp add: packets_def demo_ext_def owned_def)
  moreover have "clear_of (pool_size demo_ext) (pbufs demo_socket_net) [0x6000, 0x6100] 0x8000 16"
    using demo_clear by (simp add: demo_ext_def demo_socket_net_def)
  ultimately have "reading demo_ext id 0 0x7000 0x8000 16 (demo_socket_net, [0x6000, 1]) 0 [0x6000] [[0x6000, 0x6100]] True"
    using demo_stream_at by (simp add: reading_def waiting_def)
  moreover have "data_of demo_socket_net [0x6000, 0x6100] = [0x41, 0x42, 0x43, 0x61, 0x62]"
    using demo_net_chain(2) by (simp add: demo_socket_net_def)
  ultimately show ?thesis
    unfolding stream_left_def by (intro disjI1 exI[of _ 0] exI[of _ "[0x6000]"] exI[of _ "[[0x6000, 0x6100]]"]) simp
qed

section \<open>The end of the stream\<close>

text \<open>The last thing done at the end is to have the stack shut the receiving side down.\<close>

definition shuts_down_receiving :: "'w ext \<Rightarrow> u32 \<Rightarrow> net \<Rightarrow> 'w host \<Rightarrow> bool" where
  "shuts_down_receiving ext c n h' \<longleftrightarrow> (\<exists>t h1 st err args.
     send_msg ext DO_CLOSE \<lparr>am_conn = c, am_args = ShutArgs NETCONN_SHUT_RD t\<rparr> h1 = Some (st, err, args, h')
     \<and> net_mem (fst h1) = net_mem n)"

lemma handle_fin_closes:
  assumes "quiet_law ext inq" and "\<forall>msg h. send_msg ext DO_CLOSE msg h \<noteq> None" and "c \<noteq> 0" and "netconns n c = Some b"
    and "nc_pcb b \<noteq> 0"
  shows "\<exists>h'. handle_fin ext c (n, w) = Some (ERR_CLSD, h') \<and> shuts_down_receiving ext c n h'"
proof -
  obtain n1 w1 where e: "API_EVENT ext c NETCONN_EVT_RCVMINUS 0 (n, w) = Some (n1, w1)" "same_conns n n1"
    using event_quiet[OF assms(1,4)] by blast
  obtain st err args h' where m: "send_msg ext DO_CLOSE \<lparr>am_conn = c,
      am_args = ShutArgs NETCONN_SHUT_RD (sys_now ext (n1, w1))\<rparr> (n1, w1) = Some (st, err, args, h')"
    using assms(2) by (metis option.exhaust prod.collapse)
  have "handle_fin ext c (n, w) = Some (ERR_CLSD, h')"
    using e same_conns_sel[OF e(2)] m assms(3-5)
    by (simp add: handle_fin_def conn_at_def netconn_close_shutdown_def netconn_request_def netconn_apimsg_def)
  moreover have "shuts_down_receiving ext c n h'"
    unfolding shuts_down_receiving_def using m same_conns_sel[OF e(2)]
    by (intro exI[of _ "sys_now ext (n1, w1)"] exI[of _ "(n1, w1)"] exI[of _ st] exI[of _ err] exI[of _ args]) simp
  ultimately show ?thesis by blast
qed

lemma recv_data_tcp_end:
  assumes q: "quiet_law ext inq" and cl: "\<forall>msg h. send_msg ext DO_CLOSE msg h \<noteq> None"
    and s: "at_end ext inq i c n w \<or> stream_at ext inq i c n w 0 [] True"
    and pcb: "\<forall>b. netconns n c = Some b \<longrightarrow> nc_pcb b \<noteq> 0"
    and a: "apiflags AND NETCONN_NOAUTORCVD \<noteq> 0" "apiflags AND NETCONN_NOFIN = 0"
  shows "\<exists>p h'. netconn_recv_data_tcp ext c 0 apiflags (n, w) = Some (ERR_CLSD, p, h') \<and> shuts_down_receiving ext c n h'"
proof -
  obtain b where t: "tcp_socket ext inq i c 0 n b" using s by (auto simp: at_end_def stream_at_def)
  then have c: "netconns n c = Some b" "c \<noteq> 0" "NETCONNTYPE_GROUP (nc_type b) = NETCONN_TCP"
    "mailbox_law ext (nc_recvmbox b) inq" by (auto simp: tcp_socket_def)
  have v: "mbox_valid ext (nc_recvmbox b) (n, w)" using c(4) by (simp add: mailbox_law_def)
  show ?thesis
  proof (cases "netconn_is_flag_set b NETCONN_FIN_RX_PENDING")
    case True
    let ?b = "netconn_clear_flags NETCONN_FIN_RX_PENDING b"
    let ?n = "n\<lparr>netconns := (netconns n)(c \<mapsto> ?b)\<rparr>"
    have "nc_pcb ?b \<noteq> 0" using pcb c(1) by (simp add: netconn_clear_flags_def)
    then obtain h' where h: "handle_fin ext c (?n, w) = Some (ERR_CLSD, h')" "shuts_down_receiving ext c ?n h'"
      using handle_fin_closes[OF q cl c(2), of ?n ?b w] by auto
    have "netconn_recv_data_tcp ext c 0 apiflags (n, w) = Some (ERR_CLSD, 0, h')"
      using c(1) v True h(1) by (simp add: netconn_recv_data_tcp_def conn_at_def upd_conn_def)
    moreover have "shuts_down_receiving ext c n h'" using h(2) by (simp add: shuts_down_receiving_def)
    ultimately show ?thesis by blast
  next
    case False
    have "stream_at ext inq i c n w 0 [] True"
      using s False c(1) by (auto simp: at_end_def tcp_socket_def)
    then obtain x where x: "inq w = [x]" "is_err_msg ext x = Some ERR_CLSD" by (auto simp: stream_at_def)
    define dontwait where "dontwait = (netconn_is_nonblocking b \<or> apiflags AND NETCONN_DONTBLOCK \<noteq> 0
      \<or> netconn_is_flag_set b NETCONN_FLAG_MBOXCLOSED \<or> nc_pending_err b \<noteq> ERR_OK)"
    obtain w1 where w1: "mbox_get ext dontwait (nc_recvmbox b) (nc_recv_timeout b) (n, w) = Some (Some x, n, w1)"
      using mbox_get_oldest[OF c(4) x(1)] by blast
    have "netconn_recv_data ext c apiflags (n, w) = Some (ERR_OK, 0, n, w1)"
      using c v x w1 unfolding netconn_recv_data_def conn_at_def dontwait_def by (simp add: Let_def)
    moreover obtain h' where h: "handle_fin ext c (n, w1) = Some (ERR_CLSD, h')" "shuts_down_receiving ext c n h'"
      using handle_fin_closes[OF q cl c(2,1)] pcb c(1) by blast
    ultimately have "netconn_recv_data_tcp ext c 0 apiflags (n, w) = Some (ERR_CLSD, 0, h')"
      using c(1) v False a by (simp add: netconn_recv_data_tcp_def conn_at_def)
    then show ?thesis using h(2) by blast
  qed
qed

section \<open>Properties\<close>

text \<open>
  C27: A TCP socket is a stream of bytes. Suppose packets with data \<open>D\<close> in all wait for socket \<open>i\<close>, in the
  mailbox and partly read in the socket, and perhaps the end of the stream behind them; the mailbox is a
  queue, and the stack's window updates and events leave the connection alone. Then calls of
  \<open>lwip_recv_tcp\<close> without \<open>MSG_PEEK\<close>, of any positive sizes that fit the buffer, each find the next bytes
  of \<open>D\<close> in the buffer, as many as asked for or as are left, however the packets and their buffers cut
  the stream, as long as each call finds something left. No call blocks or fails, nothing is written
  outside the buffer, and the socket is left with exactly the bytes of \<open>D\<close> not yet read, the end still
  behind them.
\<close>

theorem socket_refines_byte_stream:
  assumes "quiet_law ext inq" and "stream_left ext inq i c m L h D fin" and "m \<noteq> 0" and "unat m + L < 2 ^ 32"
    and "\<forall>len \<in> set lens. 0 < unat len \<and> unat len \<le> L \<and> unat len \<le> 0x7fffffff" and "flags AND MSG_PEEK = 0"
    and "sum_list (map unat (butlast lens)) < length D"
  shows "\<exists>h'. recv_seq ext i m flags lens h = Some (chunks (map unat lens) D, h')
    \<and> (\<forall>x. outside x m L \<longrightarrow> net_mem (fst h') x = net_mem (fst h) x)
    \<and> stream_left ext inq i c m L h' (drop (sum_list (map unat lens)) D) fin"
  using assms(2,5,7)
proof (induction lens arbitrary: h D)
  case Nil
  then show ?case by simp
next
  case (Cons len lens)
  have D: "D \<noteq> []" using Cons.prems(3) by auto
  let ?k = "min (unat len) (length D)"
  have len: "0 < unat len" "unat len \<le> L" "unat len \<le> 0x7fffffff" using Cons.prems(2) by simp_all
  obtain h1 where h1: "lwip_recv_tcp ext i m len flags h = Some (int ?k, h1)"
    "bytes_at (net_mem (fst h1)) m ?k = take (unat len) D"
    "\<forall>x. outside x m ?k \<longrightarrow> net_mem (fst h1) x = net_mem (fst h) x"
    "stream_left ext inq i c m L h1 (drop (unat len) D) fin"
    using recv_tcp_reads[OF assms(1) Cons.prems(1) D assms(3,4) len assms(6)] by blast
  have fr: "net_mem (fst h1) x = net_mem (fst h) x" if "outside x m L" for x
    using h1(3) outside_mono[OF that] len(2) by simp
  show ?case
  proof (cases "lens = []")
    case True
    then show ?thesis using h1 fr by simp
  next
    case False
    have "sum_list (map unat (butlast lens)) < length (drop (unat len) D)" using Cons.prems(3) False by simp
    then obtain h2 where "recv_seq ext i m flags lens h1 = Some (chunks (map unat lens) (drop (unat len) D), h2)"
      "\<forall>x. outside x m L \<longrightarrow> net_mem (fst h2) x = net_mem (fst h1) x"
      "stream_left ext inq i c m L h2 (drop (sum_list (map unat lens)) (drop (unat len) D)) fin"
      using Cons.IH[OF h1(4)] Cons.prems(2) by auto
    then show ?thesis using h1(1,2) fr by (simp add: add.commute)
  qed
qed

theorem socket_refines_byte_stream_witness:
  "\<exists>h'. recv_seq demo_ext 0 0x8000 0 [2, 9] (demo_socket_net, [0x6000, 1]) = Some ([[0x41, 0x42], [0x43, 0x61, 0x62]], h')
    \<and> stream_left demo_ext id 0 0x7000 0x8000 16 h' [] True"
  using socket_refines_byte_stream[OF demo_quiet demo_stream_left, of "[2, 9]" 0] by auto

text \<open>
  C28: Once every byte has been read and the end of the stream has come, whether an earlier call already
  met it or it still waits in the mailbox, \<open>lwip_recv_tcp\<close> of any size returns 0 without blocking and
  without touching the buffer, sets \<open>errno\<close> to that of a closed connection, and the last thing it has
  done is to have the stack shut down the receiving side.
\<close>

theorem recv_reports_end:
  assumes "quiet_law ext inq" and "\<forall>msg h. send_msg ext DO_CLOSE msg h \<noteq> None"
    and "at_end ext inq i c n w \<or> stream_at ext inq i c n w 0 [] True"
    and "\<forall>b. netconns n c = Some b \<longrightarrow> nc_pcb b \<noteq> 0"
  shows "\<exists>h'. lwip_recv_tcp ext i m len flags (n, w) = Some (0, sock_errno (err_to_errno ERR_CLSD) h')
    \<and> shuts_down_receiving ext c n h'"
proof -
  obtain so b where c: "sock_at i n = Some so" "so_conn so = c" "so_lastdata so = 0" "netconns n c = Some b" "c \<noteq> 0"
    "NETCONNTYPE_GROUP (nc_type b) = NETCONN_TCP"
    using assms(3) by (auto simp: at_end_def stream_at_def tcp_socket_def)
  let ?a = "NETCONN_NOAUTORCVD OR (if flags AND MSG_DONTWAIT \<noteq> 0 then NETCONN_DONTBLOCK else 0)"
  have a: "?a AND NETCONN_NOAUTORCVD \<noteq> 0" "?a AND NETCONN_NOFIN = 0" by (simp_all add: api_flags)
  obtain p h' where h: "netconn_recv_data_tcp ext c 0 ?a (n, w) = Some (ERR_CLSD, p, h')" "shuts_down_receiving ext c n h'"
    using recv_data_tcp_end[OF assms a] by blast
  have e: "ERR_CLSD \<noteq> ERR_OK" by (simp add: ERR_CLSD_def ERR_OK_def)
  have "next_packet ext i ?a (n, w) = Some (ERR_CLSD, p, h')"
    using c h(1) e by (simp add: next_packet_def netconn_recv_tcp_pbuf_flags_def tcp_conn_def conn_at_def)
  then have "recv_tcp_loop ext i m flags ?a 0 l (n, w) = Some (0, sock_errno (err_to_errno ERR_CLSD) h')" for l
    using e by (subst recv_tcp_loop.simps) simp
  then have "lwip_recv_tcp ext i m len flags (n, w) = Some (0, sock_errno (err_to_errno ERR_CLSD) h')"
    using c by (simp add: lwip_recv_tcp_def sock_conn_def conn_at_def lwip_assert_def)
  then show ?thesis using h(2) by blast
qed

theorem recv_reports_end_witness:
  "\<exists>h'. lwip_recv_tcp demo_ext 0 0x8000 4 0 (demo_socket_net, [1]) = Some (0, sock_errno (err_to_errno ERR_CLSD) h')
    \<and> shuts_down_receiving demo_ext 0x7000 demo_socket_net h'"
proof -
  have "stream_at demo_ext id 0 0x7000 demo_socket_net [1] 0 [] True"
    using demo_stream_at by (simp add: stream_at_def demo_ext_def)
  then show ?thesis
    by (intro recv_reports_end[OF demo_quiet]) (simp_all add: demo_ext_def demo_socket_net_def)
qed

end
