(* ===== verification/Lwip_Tcp.thy ===== *)
theory Lwip_Tcp
  imports Lwip_Inet
begin

unbundle bit_operations_syntax

text \<open>
  What the TCP headers of the library compute: \<^verbatim>\<open>src/ffi/lwip/prot/tcp.h\<close>, \<^verbatim>\<open>priv/tcp.h\<close>, \<^verbatim>\<open>tcp.h\<close> and
  \<^verbatim>\<open>tcpbase.h\<close>. The functions of the protocol itself are in the vendor's library; these macros are the
  part of it that is compiled here: sequence numbers, the fields of the header in network byte order,
  the flags, windows and options of a connection, the Nagle test and the calls of the application. The
  configuration has timestamps and SACK and no window scaling, so \<open>tcpwnd_size_t\<close> has 16 bits. The
  type \<open>s32_t\<close> of the comparisons is read as 32-bit signed numbers.
\<close>

section \<open>Sequence numbers\<close>

definition TCP_SEQ_LT :: "u32 \<Rightarrow> u32 \<Rightarrow> bool" where "TCP_SEQ_LT a b \<longleftrightarrow> sint (a - b) < 0"
definition TCP_SEQ_LEQ :: "u32 \<Rightarrow> u32 \<Rightarrow> bool" where "TCP_SEQ_LEQ a b \<longleftrightarrow> sint (a - b) \<le> 0"
definition TCP_SEQ_GT :: "u32 \<Rightarrow> u32 \<Rightarrow> bool" where "TCP_SEQ_GT a b \<longleftrightarrow> sint (a - b) > 0"
definition TCP_SEQ_GEQ :: "u32 \<Rightarrow> u32 \<Rightarrow> bool" where "TCP_SEQ_GEQ a b \<longleftrightarrow> sint (a - b) \<ge> 0"

definition TCP_SEQ_BETWEEN :: "u32 \<Rightarrow> u32 \<Rightarrow> u32 \<Rightarrow> bool" where
  "TCP_SEQ_BETWEEN a b c \<longleftrightarrow> TCP_SEQ_GEQ a b \<and> TCP_SEQ_LEQ a c"

lemmas seq_defs = TCP_SEQ_LT_def TCP_SEQ_LEQ_def TCP_SEQ_GT_def TCP_SEQ_GEQ_def TCP_SEQ_BETWEEN_def

lemma sint_diff:
  fixes base :: u32
  assumes "i < 2 ^ 31" and "j < 2 ^ 31"
  shows "sint ((base + of_nat i) - (base + of_nat j)) = int i - int j"
proof -
  have "(base + of_nat i) - (base + of_nat j) = (word_of_int (int i - int j) :: u32)" by simp
  moreover have "sint (word_of_int (int i - int j) :: u32) = int i - int j"
    using assms by (subst sint_sbintrunc') (simp add: signed_take_bit_int_eq_self)
  ultimately show ?thesis by (simp only:)
qed

section \<open>The header\<close>

record tcp_hdr =
  th_src :: u16
  th_dest :: u16
  th_seqno :: u32
  th_ackno :: u32
  th_hdrlen_rsvd_flags :: u16
  th_wnd :: u16
  th_chksum :: u16
  th_urgp :: u16

definition TCP_FIN :: u16 where "TCP_FIN = 0x01"
definition TCP_SYN :: u16 where "TCP_SYN = 0x02"
definition TCP_FLAGS :: u16 where "TCP_FLAGS = 0x3f"

definition PP_HTONS :: "u32 \<Rightarrow> u16" where
  "PP_HTONS x = ucast (push_bit 8 (x AND 0xff) OR drop_bit 8 (x AND 0xff00))"

definition TCPH_HDRLEN :: "tcp_hdr \<Rightarrow> u16" where
  "TCPH_HDRLEN h = drop_bit 12 (u16_neutral_to_high (th_hdrlen_rsvd_flags h))"

definition TCPH_HDRLEN_BYTES :: "tcp_hdr \<Rightarrow> u8" where
  "TCPH_HDRLEN_BYTES h = ucast (push_bit 2 (TCPH_HDRLEN h))"

definition TCPH_FLAGS :: "tcp_hdr \<Rightarrow> u8" where
  "TCPH_FLAGS h = ucast (u16_neutral_to_high (th_hdrlen_rsvd_flags h) AND TCP_FLAGS)"

definition TCPH_HDRLEN_SET :: "tcp_hdr \<Rightarrow> u16 \<Rightarrow> tcp_hdr" where
  "TCPH_HDRLEN_SET h len =
     h\<lparr>th_hdrlen_rsvd_flags := u16_high_to_neutral (push_bit 12 len OR ucast (TCPH_FLAGS h))\<rparr>"

definition TCPH_FLAGS_SET :: "tcp_hdr \<Rightarrow> u16 \<Rightarrow> tcp_hdr" where
  "TCPH_FLAGS_SET h flags =
     h\<lparr>th_hdrlen_rsvd_flags := (th_hdrlen_rsvd_flags h AND PP_HTONS (NOT (ucast TCP_FLAGS))) OR u16_high_to_neutral flags\<rparr>"

definition TCPH_HDRLEN_FLAGS_SET :: "tcp_hdr \<Rightarrow> u16 \<Rightarrow> u16 \<Rightarrow> tcp_hdr" where
  "TCPH_HDRLEN_FLAGS_SET h len flags =
     h\<lparr>th_hdrlen_rsvd_flags := u16_high_to_neutral (push_bit 12 len OR flags)\<rparr>"

definition TCPH_SET_FLAG :: "tcp_hdr \<Rightarrow> u16 \<Rightarrow> tcp_hdr" where
  "TCPH_SET_FLAG h flags = h\<lparr>th_hdrlen_rsvd_flags := th_hdrlen_rsvd_flags h OR u16_high_to_neutral flags\<rparr>"

definition TCPH_UNSET_FLAG :: "tcp_hdr \<Rightarrow> u16 \<Rightarrow> tcp_hdr" where
  "TCPH_UNSET_FLAG h flags = h\<lparr>th_hdrlen_rsvd_flags := th_hdrlen_rsvd_flags h AND NOT (u16_high_to_neutral flags)\<rparr>"

text \<open>The field in host byte order, which every setter changes bit by bit.\<close>

abbreviation host_field :: "tcp_hdr \<Rightarrow> u16" where
  "host_field h \<equiv> u16_neutral_to_high (th_hdrlen_rsvd_flags h)"

declare swap16_twice [simp]

lemma swap16_bitwise:
  "u16_neutral_to_high (x OR y) = u16_neutral_to_high x OR u16_neutral_to_high y"
  "u16_neutral_to_high (x AND y) = u16_neutral_to_high x AND u16_neutral_to_high y"
  "u16_neutral_to_high (NOT x) = NOT (u16_neutral_to_high x)"
  by (rule bit_word_eqI; auto simp: u16_neutral_to_high_def bit_simps dest: bit_imp_le_length)+

lemma flags_mask: "PP_HTONS (NOT (ucast TCP_FLAGS)) = u16_high_to_neutral (NOT TCP_FLAGS)"
  by (simp add: PP_HTONS_def TCP_FLAGS_def u16_high_to_neutral_def)

lemma flags_field: "TCPH_FLAGS h = ucast (take_bit 6 (host_field h))"
proof -
  have "TCP_FLAGS = mask 6" by (simp add: TCP_FLAGS_def mask_eq_exp_minus_1)
  then show ?thesis by (simp add: TCPH_FLAGS_def take_bit_eq_mask)
qed

lemma set_fields [simp]:
  "host_field (TCPH_HDRLEN_SET h len) = push_bit 12 len OR take_bit 6 (host_field h)"
  "host_field (TCPH_FLAGS_SET h flags) = (host_field h AND NOT (mask 6)) OR flags"
  "host_field (TCPH_HDRLEN_FLAGS_SET h len flags) = push_bit 12 len OR flags"
  "host_field (TCPH_SET_FLAG h flags) = host_field h OR flags"
  "host_field (TCPH_UNSET_FLAG h flags) = host_field h AND NOT flags"
proof -
  have "ucast (ucast (take_bit 6 x) :: u8) = take_bit 6 x" for x :: u16
    by (rule bit_word_eqI) (auto simp: bit_simps)
  then show "host_field (TCPH_HDRLEN_SET h len) = push_bit 12 len OR take_bit 6 (host_field h)"
    by (simp add: TCPH_HDRLEN_SET_def flags_field)
  have "TCP_FLAGS = mask 6" by (simp add: TCP_FLAGS_def mask_eq_exp_minus_1)
  then show "host_field (TCPH_FLAGS_SET h flags) = (host_field h AND NOT (mask 6)) OR flags"
    by (simp add: TCPH_FLAGS_SET_def flags_mask swap16_bitwise)
qed (simp_all add: TCPH_HDRLEN_FLAGS_SET_def TCPH_SET_FLAG_def TCPH_UNSET_FLAG_def swap16_bitwise)

section \<open>Flags, windows and options of a connection\<close>

definition TF_ACK_DELAY :: u16 where "TF_ACK_DELAY = 0x01"
definition TF_ACK_NOW :: u16 where "TF_ACK_NOW = 0x02"
definition TF_INFR :: u16 where "TF_INFR = 0x04"
definition TF_NODELAY :: u16 where "TF_NODELAY = 0x40"
definition TF_TIMESTAMP :: u16 where "TF_TIMESTAMP = 0x0400"

lemmas tf_flags = TF_ACK_DELAY_def TF_ACK_NOW_def TF_INFR_def TF_NODELAY_def TF_TIMESTAMP_def

datatype tcp_state = CLOSED | LISTEN | SYN_SENT | SYN_RCVD | ESTABLISHED | FIN_WAIT_1 | FIN_WAIT_2
  | CLOSE_WAIT | CLOSING | LAST_ACK | TIME_WAIT

definition state_number :: "tcp_state \<Rightarrow> nat" where
  "state_number s = (case s of CLOSED \<Rightarrow> 0 | LISTEN \<Rightarrow> 1 | SYN_SENT \<Rightarrow> 2 | SYN_RCVD \<Rightarrow> 3 | ESTABLISHED \<Rightarrow> 4
     | FIN_WAIT_1 \<Rightarrow> 5 | FIN_WAIT_2 \<Rightarrow> 6 | CLOSE_WAIT \<Rightarrow> 7 | CLOSING \<Rightarrow> 8 | LAST_ACK \<Rightarrow> 9 | TIME_WAIT \<Rightarrow> 10)"

definition TCP_STATE_IS_CLOSING :: "tcp_state \<Rightarrow> bool" where
  "TCP_STATE_IS_CLOSING s \<longleftrightarrow> state_number s \<ge> state_number FIN_WAIT_1"

text \<open>
  A connection and a listening connection; pointers are addresses, also those of functions. The ranges
  of \<open>rcv_sacks\<close> are pairs of their left and right edges.
\<close>

record tcp_pcb =
  tp_local_ip :: ip_addr_t
  tp_remote_ip :: ip_addr_t
  tp_netif_idx :: u8
  tp_so_options :: u8
  tp_tos :: u8
  tp_ttl :: u8
  tp_next :: u32
  tp_callback_arg :: u32
  tp_state :: tcp_state
  tp_prio :: u8
  tp_local_port :: u16
  tp_remote_port :: u16
  tp_flags :: u16
  tp_polltmr :: u8
  tp_pollinterval :: u8
  tp_last_timer :: u8
  tp_tmr :: u32
  tp_rcv_nxt :: u32
  tp_rcv_wnd :: u16
  tp_rcv_ann_wnd :: u16
  tp_rcv_ann_right_edge :: u32
  tp_rcv_sacks :: "(u32 \<times> u32) list"
  tp_rtime :: u16
  tp_mss :: u16
  tp_rttest :: u32
  tp_rtseq :: u32
  tp_sa :: u16
  tp_sv :: u16
  tp_rto :: u16
  tp_nrtx :: u8
  tp_dupacks :: u8
  tp_lastack :: u32
  tp_cwnd :: u16
  tp_ssthresh :: u16
  tp_rto_end :: u32
  tp_snd_nxt :: u32
  tp_snd_wl1 :: u32
  tp_snd_wl2 :: u32
  tp_snd_lbb :: u32
  tp_snd_wnd :: u16
  tp_snd_wnd_max :: u16
  tp_snd_buf :: u16
  tp_snd_queuelen :: u16
  tp_unsent_oversize :: u16
  tp_bytes_acked :: u16
  tp_unsent :: u32
  tp_unacked :: u32
  tp_ooseq :: u32
  tp_refused_data :: u32
  tp_listener :: u32
  tp_sent :: u32
  tp_recv :: u32
  tp_connected :: u32
  tp_poll :: u32
  tp_errf :: u32
  tp_ts_lastacksent :: u32
  tp_ts_recent :: u32
  tp_keep_idle :: u32
  tp_keep_intvl :: u32
  tp_keep_cnt :: u32
  tp_persist_cnt :: u8
  tp_persist_backoff :: u8
  tp_persist_probe :: u8
  tp_keep_cnt_sent :: u8

record tcp_pcb_listen =
  tl_local_ip :: ip_addr_t
  tl_remote_ip :: ip_addr_t
  tl_netif_idx :: u8
  tl_so_options :: u8
  tl_tos :: u8
  tl_ttl :: u8
  tl_next :: u32
  tl_callback_arg :: u32
  tl_state :: tcp_state
  tl_prio :: u8
  tl_local_port :: u16
  tl_accept :: u32
  tl_backlog :: u8
  tl_accepts_pending :: u8

record tcp_seg =
  sg_next :: u32
  sg_p :: u32
  sg_len :: u16
  sg_flags :: u8
  sg_tcphdr :: u32

definition tcp_set_flags :: "tcp_pcb \<Rightarrow> u16 \<Rightarrow> tcp_pcb" where
  "tcp_set_flags pcb set_flags = pcb\<lparr>tp_flags := tp_flags pcb OR set_flags\<rparr>"

definition tcp_clear_flags :: "tcp_pcb \<Rightarrow> u16 \<Rightarrow> tcp_pcb" where
  "tcp_clear_flags pcb clr_flags = pcb\<lparr>tp_flags := tp_flags pcb AND NOT clr_flags\<rparr>"

definition tcp_is_flag_set :: "tcp_pcb \<Rightarrow> u16 \<Rightarrow> bool" where
  "tcp_is_flag_set pcb flag \<longleftrightarrow> tp_flags pcb AND flag \<noteq> 0"

definition tcp_nagle_disable :: "tcp_pcb \<Rightarrow> tcp_pcb" where "tcp_nagle_disable pcb = tcp_set_flags pcb TF_NODELAY"
definition tcp_nagle_enable :: "tcp_pcb \<Rightarrow> tcp_pcb" where "tcp_nagle_enable pcb = tcp_clear_flags pcb TF_NODELAY"
definition tcp_nagle_disabled :: "tcp_pcb \<Rightarrow> bool" where "tcp_nagle_disabled pcb = tcp_is_flag_set pcb TF_NODELAY"

definition tcp_ack_now :: "tcp_pcb \<Rightarrow> tcp_pcb" where "tcp_ack_now pcb = tcp_set_flags pcb TF_ACK_NOW"

definition tcp_ack :: "tcp_pcb \<Rightarrow> tcp_pcb" where
  "tcp_ack pcb =
     (if tp_flags pcb AND TF_ACK_DELAY \<noteq> 0 then tcp_ack_now (tcp_clear_flags pcb TF_ACK_DELAY)
      else tcp_set_flags pcb TF_ACK_DELAY)"

text \<open>The subtraction is one of \<open>int\<close>, so a segment size below the option's gives a negative number.\<close>

definition tcp_mss :: "tcp_pcb \<Rightarrow> int" where
  "tcp_mss pcb = (if tp_flags pcb AND TF_TIMESTAMP \<noteq> 0 then uint (tp_mss pcb) - 12 else uint (tp_mss pcb))"

definition tcp_sndbuf :: "tcp_pcb \<Rightarrow> u16" where "tcp_sndbuf pcb = tp_snd_buf pcb"
definition tcp_sndqueuelen :: "tcp_pcb \<Rightarrow> u16" where "tcp_sndqueuelen pcb = tp_snd_queuelen pcb"

definition TCP_WND_INC :: "u16 \<Rightarrow> u16 \<Rightarrow> u16" where
  "TCP_WND_INC wnd inc = (if wnd + inc \<ge> wnd then wnd + inc else - 1)"

text \<open>A failed assertion stops the program.\<close>

definition tcp_backlog_set :: "tcp_pcb_listen \<Rightarrow> u8 \<Rightarrow> tcp_pcb_listen option" where
  "tcp_backlog_set pcb new_backlog =
     (if tl_state pcb \<noteq> LISTEN then None
      else Some (pcb\<lparr>tl_backlog := (if new_backlog \<noteq> 0 then new_backlog else 1)\<rparr>))"

definition TCP_MSS :: nat where "TCP_MSS = 1460"
definition TCP_SND_BUF :: nat where "TCP_SND_BUF = 2 * TCP_MSS"
definition TCP_SND_QUEUELEN :: nat where "TCP_SND_QUEUELEN = (4 * TCP_SND_BUF + (TCP_MSS - 1)) div TCP_MSS"

text \<open>The segments are kept by address.\<close>

definition tcp_do_output_nagle :: "(u32 \<Rightarrow> tcp_seg) \<Rightarrow> tcp_pcb \<Rightarrow> bool" where
  "tcp_do_output_nagle seg pcb \<longleftrightarrow>
     tp_unacked pcb = 0 \<or> tp_flags pcb AND (TF_NODELAY OR TF_INFR) \<noteq> 0
     \<or> (tp_unsent pcb \<noteq> 0
         \<and> (sg_next (seg (tp_unsent pcb)) \<noteq> 0 \<or> sg_len (seg (tp_unsent pcb)) \<ge> tp_mss pcb))
     \<or> tcp_sndbuf pcb = 0 \<or> unat (tcp_sndqueuelen pcb) \<ge> TCP_SND_QUEUELEN"

definition tcp_output_nagle :: "('w \<Rightarrow> u8 \<times> 'w) \<Rightarrow> (u32 \<Rightarrow> tcp_seg) \<Rightarrow> tcp_pcb \<Rightarrow> 'w \<Rightarrow> u8 \<times> 'w" where
  "tcp_output_nagle tcp_output seg pcb w = (if tcp_do_output_nagle seg pcb then tcp_output w else (ERR_OK, w))"

definition TCP_TCPLEN :: "(u32 \<Rightarrow> tcp_hdr) \<Rightarrow> tcp_seg \<Rightarrow> u32" where
  "TCP_TCPLEN hdr seg =
     ucast (sg_len seg) + (if ucast (TCPH_FLAGS (hdr (sg_tcphdr seg))) AND (TCP_FIN OR TCP_SYN) \<noteq> 0 then 1 else 0)"

definition TF_SEG_OPTS_MSS :: u8 where "TF_SEG_OPTS_MSS = 0x01"
definition TF_SEG_OPTS_TS :: u8 where "TF_SEG_OPTS_TS = 0x02"
definition TF_SEG_OPTS_WND_SCALE :: u8 where "TF_SEG_OPTS_WND_SCALE = 0x08"
definition TF_SEG_OPTS_SACK_PERM :: u8 where "TF_SEG_OPTS_SACK_PERM = 0x10"

definition LWIP_TCP_OPT_LENGTH :: "u8 \<Rightarrow> nat" where
  "LWIP_TCP_OPT_LENGTH flags =
     (if flags AND TF_SEG_OPTS_MSS \<noteq> 0 then 4 else 0) + (if flags AND TF_SEG_OPTS_TS \<noteq> 0 then 12 else 0)
     + (if flags AND TF_SEG_OPTS_WND_SCALE \<noteq> 0 then 0 else 0) + (if flags AND TF_SEG_OPTS_SACK_PERM \<noteq> 0 then 4 else 0)"

definition TCP_BUILD_MSS_OPTION :: "u32 \<Rightarrow> u32" where
  "TCP_BUILD_MSS_OPTION mss = u32_high_to_neutral (0x02040000 OR (mss AND 0xFFFF))"

section \<open>Calls of the application\<close>

text \<open>
  \<open>app f\<close> is what the application's function at address \<open>f\<close> does with its arguments and the state of the
  system; a connection without the function gets the default answer.
\<close>

definition TCP_EVENT_ACCEPT where
  "TCP_EVENT_ACCEPT app lpcb (pcb :: u32) (arg :: u32) (err :: u8) w =
     (if tl_accept lpcb \<noteq> 0 then app (tl_accept lpcb) arg pcb err w else (ERR_ARG, w))"

definition TCP_EVENT_SENT where
  "TCP_EVENT_SENT app at (pcb :: u32) (space :: u16) w =
     (if tp_sent (at pcb) \<noteq> 0 then app (tp_sent (at pcb)) (tp_callback_arg (at pcb)) pcb space w else (ERR_OK, w))"

definition TCP_EVENT_RECV where
  "TCP_EVENT_RECV app tcp_recv_null at (pcb :: u32) (p :: u32) (err :: u8) w =
     (if tp_recv (at pcb) \<noteq> 0 then app (tp_recv (at pcb)) (tp_callback_arg (at pcb)) pcb p err w
      else tcp_recv_null (0 :: u32) pcb p err w)"

definition TCP_EVENT_CLOSED where
  "TCP_EVENT_CLOSED app at (pcb :: u32) w =
     (if tp_recv (at pcb) \<noteq> 0 then app (tp_recv (at pcb)) (tp_callback_arg (at pcb)) pcb (0 :: u32) ERR_OK w
      else (ERR_OK, w))"

definition TCP_EVENT_CONNECTED where
  "TCP_EVENT_CONNECTED app at (pcb :: u32) (err :: u8) w =
     (if tp_connected (at pcb) \<noteq> 0 then app (tp_connected (at pcb)) (tp_callback_arg (at pcb)) pcb err w
      else (ERR_OK, w))"

definition TCP_EVENT_POLL where
  "TCP_EVENT_POLL app at (pcb :: u32) w =
     (if tp_poll (at pcb) \<noteq> 0 then app (tp_poll (at pcb)) (tp_callback_arg (at pcb)) pcb w else (ERR_OK, w))"

definition TCP_EVENT_ERR where
  "TCP_EVENT_ERR app (errf :: u32) (arg :: u32) (err :: u8) w = (if errf \<noteq> 0 then app errf arg err w else w)"


section \<open>Properties\<close>

text \<open>
  C30: Sequence numbers compare as positions in the byte stream do, across the wrap of the counter, as
  long as both are less than \<open>2 ^ 31\<close> bytes after some base; two numbers exactly that far apart each come
  before the other.
\<close>

theorem seq_order_in_window:
  assumes "i < 2 ^ 31" and "j < 2 ^ 31" and "k < 2 ^ 31"
  shows "(TCP_SEQ_LT (base + of_nat i) (base + of_nat j) \<longleftrightarrow> i < j)
    \<and> (TCP_SEQ_LEQ (base + of_nat i) (base + of_nat j) \<longleftrightarrow> i \<le> j)
    \<and> (TCP_SEQ_GT (base + of_nat i) (base + of_nat j) \<longleftrightarrow> i > j)
    \<and> (TCP_SEQ_GEQ (base + of_nat i) (base + of_nat j) \<longleftrightarrow> i \<ge> j)
    \<and> (TCP_SEQ_BETWEEN (base + of_nat i) (base + of_nat j) (base + of_nat k) \<longleftrightarrow> j \<le> i \<and> i \<le> k)
    \<and> TCP_SEQ_LT base (base + 2 ^ 31) \<and> TCP_SEQ_LT (base + 2 ^ 31) base"
proof -
  have "sint (base - (base + 2 ^ 31)) < 0" "sint ((base + 2 ^ 31) - base) < 0" by simp_all
  then show ?thesis unfolding seq_defs sint_diff[OF assms(1,2)] sint_diff[OF assms(1,3)] by auto
qed

theorem seq_order_in_window_witness:
  "(0x200 :: nat) < 2 ^ 31 \<and> (0x100 :: nat) < 2 ^ 31 \<and> TCP_SEQ_LT (0xffffff00 + of_nat 0x0) (0xffffff00 + of_nat 0x200)
   \<and> TCP_SEQ_BETWEEN (0xffffff00 + of_nat 0x100) (0xffffff00 + of_nat 0x0) (0xffffff00 + of_nat 0x200)"
  using seq_order_in_window[of 0 "0x200" "0x100" "0xffffff00"] seq_order_in_window[of "0x100" 0 "0x200" "0xffffff00"] by simp

lemma hdrlen_field: "TCPH_HDRLEN h = drop_bit 12 (host_field h)"
  by (simp add: TCPH_HDRLEN_def)

lemma hdrlen_flags_set:
  assumes "len < 16" and "flags < 64"
  shows "TCPH_HDRLEN (TCPH_HDRLEN_FLAGS_SET h len flags) = len"
    and "TCPH_FLAGS (TCPH_HDRLEN_FLAGS_SET h len flags) = ucast flags"
    and "byte_of 0 (th_hdrlen_rsvd_flags (TCPH_HDRLEN_FLAGS_SET h len flags)) = push_bit 4 (ucast len)"
    and "byte_of 1 (th_hdrlen_rsvd_flags (TCPH_HDRLEN_FLAGS_SET h len flags)) = ucast flags"
proof -
  have l: "bit len n \<Longrightarrow> n < 4" and f: "bit flags n \<Longrightarrow> n < 6" for n
    using word_small_bits[of len 4] word_small_bits[of flags 6] assms by auto
  show "TCPH_HDRLEN (TCPH_HDRLEN_FLAGS_SET h len flags) = len"
    by (rule bit_word_eqI) (auto simp: hdrlen_field bit_simps dest: l f)
  show "TCPH_FLAGS (TCPH_HDRLEN_FLAGS_SET h len flags) = ucast flags"
    by (rule bit_word_eqI) (auto simp: flags_field bit_simps dest: l f)
  show "byte_of 0 (th_hdrlen_rsvd_flags (TCPH_HDRLEN_FLAGS_SET h len flags)) = push_bit 4 (ucast len)"
    by (rule byte_eqI) (auto simp: TCPH_HDRLEN_FLAGS_SET_def u16_high_to_neutral_def byte_of_bit bit_simps dest: l f)
  show "byte_of 1 (th_hdrlen_rsvd_flags (TCPH_HDRLEN_FLAGS_SET h len flags)) = ucast flags"
    by (rule byte_eqI) (auto simp: TCPH_HDRLEN_FLAGS_SET_def u16_high_to_neutral_def byte_of_bit bit_simps dest: l f)
qed

lemma hdrlen_set:
  assumes "len < 16"
  shows "TCPH_HDRLEN (TCPH_HDRLEN_SET h len) = len" and "TCPH_FLAGS (TCPH_HDRLEN_SET h len) = TCPH_FLAGS h"
proof -
  have l: "bit len n \<Longrightarrow> n < 4" for n using word_small_bits[of len 4] assms by auto
  show "TCPH_HDRLEN (TCPH_HDRLEN_SET h len) = len"
    by (rule bit_word_eqI) (auto simp: hdrlen_field bit_simps dest: l)
  show "TCPH_FLAGS (TCPH_HDRLEN_SET h len) = TCPH_FLAGS h"
    by (rule bit_word_eqI) (auto simp: flags_field bit_simps)
qed

lemma flags_set:
  assumes "flags < 64"
  shows "TCPH_HDRLEN (TCPH_FLAGS_SET h flags) = TCPH_HDRLEN h" "TCPH_FLAGS (TCPH_FLAGS_SET h flags) = ucast flags"
    "TCPH_HDRLEN (TCPH_SET_FLAG h flags) = TCPH_HDRLEN h"
    "TCPH_FLAGS (TCPH_SET_FLAG h flags) = TCPH_FLAGS h OR ucast flags"
    "TCPH_HDRLEN (TCPH_UNSET_FLAG h flags) = TCPH_HDRLEN h"
    "TCPH_FLAGS (TCPH_UNSET_FLAG h flags) = TCPH_FLAGS h AND NOT (ucast flags)"
proof -
  have f: "bit flags n \<Longrightarrow> n < 6" for n using word_small_bits[of flags 6] assms by auto
  show "TCPH_HDRLEN (TCPH_FLAGS_SET h flags) = TCPH_HDRLEN h" "TCPH_HDRLEN (TCPH_SET_FLAG h flags) = TCPH_HDRLEN h"
    "TCPH_HDRLEN (TCPH_UNSET_FLAG h flags) = TCPH_HDRLEN h"
    by (rule bit_word_eqI; auto simp: hdrlen_field bit_simps dest: f bit_imp_le_length)+
  show "TCPH_FLAGS (TCPH_FLAGS_SET h flags) = ucast flags"
    "TCPH_FLAGS (TCPH_SET_FLAG h flags) = TCPH_FLAGS h OR ucast flags"
    "TCPH_FLAGS (TCPH_UNSET_FLAG h flags) = TCPH_FLAGS h AND NOT (ucast flags)"
    by (rule bit_word_eqI; auto simp: flags_field bit_simps dest: f)+
qed

lemma wnd_inc: "unat (TCP_WND_INC wnd inc) = min (unat wnd + unat inc) 0xffff"
proof (cases "unat wnd + unat inc < 2 ^ 16")
  case True
  then have "unat (wnd + inc) = unat wnd + unat inc" by (simp add: unat_word_ariths)
  then show ?thesis using True by (simp add: TCP_WND_INC_def word_le_nat_alt)
next
  case False
  have "unat wnd < 2 ^ 16" "unat inc < 2 ^ 16" using unsigned_less[of wnd] unsigned_less[of inc] by simp_all
  then have "unat (wnd + inc) = unat wnd + unat inc - 2 ^ 16"
    using False by (simp add: unat_word_ariths mod_if le_mod_geq)
  then have "\<not> wnd + inc \<ge> wnd" using False \<open>unat inc < 2 ^ 16\<close> by (simp add: word_le_nat_alt)
  then show ?thesis using False by (simp add: TCP_WND_INC_def unsigned_minus_1_eq_mask mask_eq_exp_minus_1)
qed

text \<open>
  A header whose length and flags were set gives them back, with the length in the upper half of the
  first byte of the field and the flags in the second byte on the wire; setting the length keeps the
  flags, and setting, adding or removing flags keeps the length.
\<close>

theorem tcp_header_round_trip:
  assumes "len < 16" and "flags < 64"
  shows "TCPH_HDRLEN (TCPH_HDRLEN_FLAGS_SET h len flags) = len
    \<and> unat (TCPH_HDRLEN_BYTES (TCPH_HDRLEN_FLAGS_SET h len flags)) = 4 * unat len
    \<and> TCPH_FLAGS (TCPH_HDRLEN_FLAGS_SET h len flags) = ucast flags
    \<and> byte_of 0 (th_hdrlen_rsvd_flags (TCPH_HDRLEN_FLAGS_SET h len flags)) = push_bit 4 (ucast len)
    \<and> byte_of 1 (th_hdrlen_rsvd_flags (TCPH_HDRLEN_FLAGS_SET h len flags)) = ucast flags
    \<and> TCPH_HDRLEN (TCPH_HDRLEN_SET h len) = len \<and> TCPH_FLAGS (TCPH_HDRLEN_SET h len) = TCPH_FLAGS h
    \<and> TCPH_FLAGS (TCPH_FLAGS_SET h flags) = ucast flags \<and> TCPH_HDRLEN (TCPH_FLAGS_SET h flags) = TCPH_HDRLEN h
    \<and> TCPH_FLAGS (TCPH_SET_FLAG h flags) = TCPH_FLAGS h OR ucast flags
    \<and> TCPH_HDRLEN (TCPH_SET_FLAG h flags) = TCPH_HDRLEN h
    \<and> TCPH_FLAGS (TCPH_UNSET_FLAG h flags) = TCPH_FLAGS h AND NOT (ucast flags)
    \<and> TCPH_HDRLEN (TCPH_UNSET_FLAG h flags) = TCPH_HDRLEN h"
proof -
  have "unat (ucast (push_bit 2 len) :: u8) = 4 * unat len"
    using assms(1) by (simp add: word_less_nat_alt unsigned_ucast_eq unsigned_push_bit_eq take_bit_eq_mod push_bit_eq_mult unat_word_ariths)
  then have "unat (TCPH_HDRLEN_BYTES (TCPH_HDRLEN_FLAGS_SET h len flags)) = 4 * unat len"
    by (simp add: TCPH_HDRLEN_BYTES_def hdrlen_flags_set(1)[OF assms])
  then show ?thesis using hdrlen_flags_set[OF assms] hdrlen_set[OF assms(1)] flags_set[OF assms(2)] by blast
qed

theorem tcp_header_round_trip_witness:
  "(5 :: u16) < 16 \<and> (0x12 :: u16) < 64
   \<and> TCPH_HDRLEN (TCPH_HDRLEN_FLAGS_SET \<lparr>th_src = 80, th_dest = 0, th_seqno = 0, th_ackno = 0,
        th_hdrlen_rsvd_flags = 0xffff, th_wnd = 0, th_chksum = 0, th_urgp = 0\<rparr> 5 0x12) = 5"
  using tcp_header_round_trip[of 5 "0x12" "\<lparr>th_src = 80, th_dest = 0, th_seqno = 0, th_ackno = 0,
        th_hdrlen_rsvd_flags = 0xffff, th_wnd = 0, th_chksum = 0, th_urgp = 0\<rparr>"] by simp

text \<open>Setting the length loses what is between it and the flags, congestion notification included.\<close>

lemma hdrlen_set_clears_ece:
  "6 \<le> n \<Longrightarrow> n < 12 \<Longrightarrow> \<not> bit (host_field (TCPH_HDRLEN_SET h len)) n"
  by (simp add: bit_simps)

text \<open>The length of a segment in sequence numbers, without an overflow.\<close>

lemma tcplen: "unat (TCP_TCPLEN hdr seg) = unat (sg_len seg)
    + (if ucast (TCPH_FLAGS (hdr (sg_tcphdr seg))) AND (TCP_FIN OR TCP_SYN) \<noteq> 0 then 1 else 0)"
proof -
  have l: "unat (sg_len seg) < 2 ^ 16" using unsigned_less[of "sg_len seg"] by simp
  have u: "unat (ucast (sg_len seg) :: u32) = unat (sg_len seg)" using l by (simp add: unsigned_ucast_eq take_bit_eq_mod)
  show ?thesis using l by (auto simp: TCP_TCPLEN_def unat_word_ariths u simp del: unsigned_ucast_eq)
qed

text \<open>Options fill whole words, and the header with all of them still has a length that fits its field.\<close>

lemma option_length:
  "4 dvd LWIP_TCP_OPT_LENGTH flags \<and> LWIP_TCP_OPT_LENGTH flags \<le> 40 \<and> (20 + LWIP_TCP_OPT_LENGTH flags) div 4 < 16"
  by (simp add: LWIP_TCP_OPT_LENGTH_def)

lemma mss_option_bytes:
  "map (\<lambda>i. byte_of i (TCP_BUILD_MSS_OPTION mss)) [0, 1, 2, 3] = [2, 4, byte_of 1 mss, byte_of 0 mss]"
proof -
  have m: "(0xFFFF :: u32) = mask 16" by (simp add: mask_eq_exp_minus_1)
  have c: "byte_of i (0x02040000 OR (mss AND 0xFFFF)) = byte_of i (0x02040000 :: u32) OR byte_of i (mss AND mask 16)" for i
    by (rule byte_eqI) (simp add: m byte_of_bit bit_simps)
  have h: "byte_of 2 (mss AND mask 16) = 0" "byte_of 3 (mss AND mask 16) = 0"
      "byte_of 1 (mss AND mask 16) = byte_of 1 mss" "byte_of 0 (mss AND mask 16) = byte_of 0 mss"
    by (rule byte_eqI; simp add: byte_of_bit bit_simps)+
  have k: "byte_of 3 (0x02040000 :: u32) = 2" "byte_of 2 (0x02040000 :: u32) = 4"
      "byte_of 1 (0x02040000 :: u32) = 0" "byte_of 0 (0x02040000 :: u32) = 0"
    by (simp_all add: byte_of_def)
  show ?thesis by (simp add: TCP_BUILD_MSS_OPTION_def byte_of_high_to_neutral c h k h[unfolded One_nat_def] k[unfolded One_nat_def])
qed

section \<open>Acknowledgements\<close>

text \<open>With one segment received after the other: at least every second one is acknowledged at once.\<close>

lemma delay_bit: "x AND TF_ACK_DELAY \<noteq> 0 \<longleftrightarrow> bit x 0" "bit TF_ACK_DELAY n \<longleftrightarrow> n = 0"
  by (simp_all add: TF_ACK_DELAY_def and_one_eq bit_0 odd_iff_mod_2_eq_one bit_1_iff)

lemma delay_flag: "tp_flags (tcp_ack pcb) AND TF_ACK_DELAY \<noteq> 0 \<longleftrightarrow> tp_flags pcb AND TF_ACK_DELAY = 0"
  using delay_bit(1)[of "tp_flags pcb"] unfolding delay_bit
  by (auto simp: tcp_ack_def tcp_ack_now_def tcp_set_flags_def tcp_clear_flags_def delay_bit tf_flags bit_simps)

lemma every_second_segment:
  assumes "tp_flags pcb AND TF_ACK_DELAY = 0"
  shows "tp_flags (tcp_ack (tcp_ack pcb)) = tp_flags pcb OR TF_ACK_NOW"
proof -
  have e: "tp_flags (tcp_ack pcb) AND TF_ACK_DELAY \<noteq> 0" using assms by (simp add: delay_flag)
  have f: "tp_flags (tcp_ack pcb) = tp_flags pcb OR TF_ACK_DELAY" using assms by (simp add: tcp_ack_def tcp_set_flags_def)
  have "\<not> bit (tp_flags pcb) 0" using assms delay_bit(1) by blast
  then have "(tp_flags pcb OR TF_ACK_DELAY) AND NOT TF_ACK_DELAY = tp_flags pcb"
    by (intro bit_word_eqI) (auto simp: bit_simps delay_bit(2) intro: gr0I)
  then show ?thesis using e f by (subst tcp_ack_def) (simp add: tcp_ack_now_def tcp_set_flags_def tcp_clear_flags_def)
qed

text \<open>A connection with the Nagle algorithm switched off, or with nothing in flight, sends at once.\<close>

lemma nagle_off_sends:
  "tcp_do_output_nagle seg (tcp_nagle_disable pcb)"
proof -
  have "bit ((tp_flags pcb OR TF_NODELAY) AND (TF_NODELAY OR TF_INFR)) 6"
  proof -
    have "(0x40 :: u16) = 2 ^ 6" by simp
    then show ?thesis unfolding TF_NODELAY_def by (simp only: bit_or_iff bit_and_iff bit_exp_iff) simp
  qed
  then have "(tp_flags pcb OR TF_NODELAY) AND (TF_NODELAY OR TF_INFR) \<noteq> 0" by (metis bit_0_eq bot_apply bot_bool_def)
  then show ?thesis by (simp add: tcp_do_output_nagle_def tcp_nagle_disable_def tcp_set_flags_def)
qed

text \<open>No call through a null pointer: only what \<open>app\<close> does for other addresses matters.\<close>

lemma events_skip_null:
  assumes "\<And>f. f \<noteq> 0 \<Longrightarrow> app f = app' f"
  shows "TCP_EVENT_ACCEPT app lpcb pcb arg err w = TCP_EVENT_ACCEPT app' lpcb pcb arg err w"
    and "TCP_EVENT_CONNECTED app at pcb err w = TCP_EVENT_CONNECTED app' at pcb err w"
  using assms by (simp_all add: TCP_EVENT_ACCEPT_def TCP_EVENT_CONNECTED_def)

text \<open>The end of the stream reaches the same function as data does, with a null buffer.\<close>

lemma closed_is_empty_recv:
  "tp_recv (at pcb) \<noteq> 0 \<Longrightarrow> TCP_EVENT_CLOSED app at pcb w = TCP_EVENT_RECV app tcp_recv_null at pcb 0 ERR_OK w"
  by (simp add: TCP_EVENT_CLOSED_def TCP_EVENT_RECV_def)

end
