(* ===== verification/Lwip_Tcp_Lists.thy ===== *)
theory Lwip_Tcp_Lists
  imports Lwip_Tcp
begin

text \<open>
  The lists of TCP connections: \<open>TCP_REG\<close> and \<open>TCP_RMV\<close> of \<^verbatim>\<open>src/ffi/lwip/priv/tcp.h\<close>, in the variant
  without list debugging. The four lists of \<open>tcp_pcb_lists\<close> are linked through the \<open>next\<close> fields of the
  connections; they refine lists of addresses, under the second of the rules the header states: that a
  connection is in one list only.
\<close>

section \<open>The operations\<close>

datatype pcb_list = BOUND | LISTENING | ACTIVE | TIMEWAIT

record tcp_lists =
  next_pcb :: "u32 \<Rightarrow> u32"
  pcbs :: "pcb_list \<Rightarrow> u32"
  tcp_active_pcbs_changed :: u8
  timer_needed :: nat

text \<open>\<open>timer_needed\<close> counts the calls of the external \<open>tcp_timer_needed\<close>; a null connection is dereferenced.\<close>

definition TCP_REG :: "pcb_list \<Rightarrow> u32 \<Rightarrow> tcp_lists \<Rightarrow> tcp_lists option" where
  "TCP_REG l npcb s =
     (if npcb = 0 then None
      else Some (s\<lparr>next_pcb := (next_pcb s)(npcb := pcbs s l), pcbs := (pcbs s)(l := npcb),
                   timer_needed := Suc (timer_needed s)\<rparr>))"

partial_function (option) unlink_loop :: "(u32 \<Rightarrow> u32) \<Rightarrow> u32 \<Rightarrow> u32 \<Rightarrow> (u32 \<Rightarrow> u32) option" where
  "unlink_loop nx npcb tcp_tmp_pcb =
     (if tcp_tmp_pcb = 0 then Some nx
      else if nx tcp_tmp_pcb = npcb then Some (nx(tcp_tmp_pcb := nx npcb))
      else unlink_loop nx npcb (nx tcp_tmp_pcb))"

definition TCP_RMV :: "pcb_list \<Rightarrow> u32 \<Rightarrow> tcp_lists \<Rightarrow> tcp_lists option" where
  "TCP_RMV l npcb s =
     (if npcb = 0 then None
      else if pcbs s l = npcb
      then Some (s\<lparr>next_pcb := (next_pcb s)(npcb := 0), pcbs := (pcbs s)(l := next_pcb s (pcbs s l))\<rparr>)
      else map_option (\<lambda>nx. s\<lparr>next_pcb := nx(npcb := 0)\<rparr>) (unlink_loop (next_pcb s) npcb (pcbs s l)))"

definition TCP_REG_ACTIVE :: "u32 \<Rightarrow> tcp_lists \<Rightarrow> tcp_lists option" where
  "TCP_REG_ACTIVE npcb s = map_option (\<lambda>s. s\<lparr>tcp_active_pcbs_changed := 1\<rparr>) (TCP_REG ACTIVE npcb s)"

definition TCP_RMV_ACTIVE :: "u32 \<Rightarrow> tcp_lists \<Rightarrow> tcp_lists option" where
  "TCP_RMV_ACTIVE npcb s = map_option (\<lambda>s. s\<lparr>tcp_active_pcbs_changed := 1\<rparr>) (TCP_RMV ACTIVE npcb s)"

section \<open>Linked lists\<close>

fun linked :: "(u32 \<Rightarrow> u32) \<Rightarrow> u32 \<Rightarrow> u32 list \<Rightarrow> bool" where
  "linked nx p [] \<longleftrightarrow> p = 0"
| "linked nx p (a # as) \<longleftrightarrow> p = a \<and> a \<noteq> 0 \<and> linked nx (nx a) as"

lemma linked_unique: "linked nx p as \<Longrightarrow> linked nx p bs \<Longrightarrow> as = bs"
proof (induction as arbitrary: p bs)
  case Nil
  then show ?case by (cases bs) auto
next
  case (Cons a as)
  then show ?case by (cases bs) auto
qed

lemma linked_suffix: "linked nx p (xs @ a # ys) \<Longrightarrow> linked nx a (a # ys)"
  by (induction xs arbitrary: p) auto

lemma linked_distinct: "linked nx p as \<Longrightarrow> distinct as"
proof (induction as arbitrary: p)
  case (Cons a as)
  have "a \<notin> set as"
  proof
    assume "a \<in> set as"
    then obtain xs ys where e: "as = xs @ a # ys" by (auto simp: in_set_conv_decomp)
    have "linked nx a (a # ys)" using Cons.prems e linked_suffix[of nx p "a # xs" a ys] by simp
    moreover have "linked nx a (a # as)" using Cons.prems by simp
    ultimately have "a # ys = a # as" by (rule linked_unique)
    then show False using e by simp
  qed
  then show ?case using Cons by auto
qed simp

lemma linked_upd_off [simp]: "a \<notin> set as \<Longrightarrow> linked (nx(a := v)) p as = linked nx p as"
  by (induction as arbitrary: p) auto

lemma linked_cong: "(\<And>a. a \<in> set as \<Longrightarrow> nx' a = nx a) \<Longrightarrow> linked nx' p as = linked nx p as"
proof (induction as arbitrary: p)
  case (Cons a as)
  then have "nx' a = nx a" "\<And>p. linked nx' p as = linked nx p as" by auto
  then show ?case by simp
qed simp

lemma linked_cut: "linked nx q (us @ a # vs) \<Longrightarrow> a \<notin> set us \<Longrightarrow> linked (nx(a := 0)) q (us @ [a])"
  by (induction us arbitrary: q) auto

text \<open>The search for the element before: it unlinks a member and leaves the links alone otherwise.\<close>

lemma unlink_member:
  assumes "linked nx p as" and "npcb \<in> set as" and "p \<noteq> npcb"
  shows "\<exists>nx'. unlink_loop nx npcb p = Some nx' \<and> linked nx' p (remove1 npcb as)
    \<and> (\<forall>x. x \<notin> set as \<longrightarrow> nx' x = nx x) \<and> nx' npcb = nx npcb"
  using assms
proof (induction as arbitrary: p)
  case (Cons a as)
  note l = Cons.prems(1) linked_distinct[OF Cons.prems(1)]
  show ?case
  proof (cases "nx a = npcb")
    case True
    then obtain bs where b: "as = npcb # bs" using Cons.prems by (cases as) auto
    then have "linked (nx(a := nx npcb)) p (remove1 npcb (a # as))" using l True by auto
    then show ?thesis using True l b by (subst unlink_loop.simps) auto
  next
    case False
    have m: "linked nx (nx a) as" "npcb \<in> set as" using l Cons.prems by auto
    obtain nx' where n: "unlink_loop nx npcb (nx a) = Some nx'" "linked nx' (nx a) (remove1 npcb as)"
      "\<forall>x. x \<notin> set as \<longrightarrow> nx' x = nx x" "nx' npcb = nx npcb"
      using Cons.IH[OF m False] by blast
    have "nx' a = nx a" using n(3) l by auto
    then have "linked nx' p (remove1 npcb (a # as))" using n(2) l Cons.prems(3) by auto
    then show ?thesis using n l False by (subst unlink_loop.simps) auto
  qed
qed simp

lemma unlink_other:
  "linked nx p as \<Longrightarrow> npcb \<notin> set as \<Longrightarrow> npcb \<noteq> 0 \<Longrightarrow> unlink_loop nx npcb p = Some nx"
proof (induction as arbitrary: p)
  case Nil
  then show ?case by (subst unlink_loop.simps) simp
next
  case (Cons a as)
  have "nx a \<noteq> npcb" using Cons.prems by (cases as) auto
  then show ?case using Cons by (subst unlink_loop.simps) auto
qed

section \<open>What the operations do to the lists\<close>

definition holds :: "tcp_lists \<Rightarrow> (pcb_list \<Rightarrow> u32 list) \<Rightarrow> bool" where
  "holds s L \<longleftrightarrow> (\<forall>l. linked (next_pcb s) (pcbs s l) (L l)) \<and> (\<forall>l m. l \<noteq> m \<longrightarrow> set (L l) \<inter> set (L m) = {})"

lemma holdsD: "holds s L \<Longrightarrow> linked (next_pcb s) (pcbs s l) (L l)" "holds s L \<Longrightarrow> l \<noteq> m \<Longrightarrow> a \<in> set (L l) \<Longrightarrow> a \<notin> set (L m)"
  by (auto simp: holds_def)

lemma holds_flag [simp]: "holds (s\<lparr>tcp_active_pcbs_changed := v\<rparr>) L = holds s L"
  by (simp add: holds_def)

lemma reg_holds:
  assumes "holds s L" and "p \<noteq> 0" and "\<And>m. p \<notin> set (L m)"
  shows "\<exists>s'. TCP_REG l p s = Some s' \<and> holds s' (L(l := p # L l)) \<and> next_pcb s' p = pcbs s l
    \<and> tcp_active_pcbs_changed s' = tcp_active_pcbs_changed s"
  using assms by (auto simp: TCP_REG_def holds_def)

lemma rmv_links:
  assumes "linked (next_pcb s) (pcbs s l) as" and "p \<in> set as"
  shows "\<exists>s'. TCP_RMV l p s = Some s' \<and> linked (next_pcb s') (pcbs s' l) (remove1 p as) \<and> next_pcb s' p = 0
    \<and> (\<forall>x. x \<notin> set as \<longrightarrow> next_pcb s' x = next_pcb s x) \<and> (\<forall>m. m \<noteq> l \<longrightarrow> pcbs s' m = pcbs s m)
    \<and> tcp_active_pcbs_changed s' = tcp_active_pcbs_changed s"
proof -
  have p: "p \<noteq> 0" using assms by (induction as arbitrary: s) (auto, metis linked.simps(2) split_list linked_suffix)
  have d: "p \<notin> set (remove1 p as)" using linked_distinct[OF assms(1)] by simp
  show ?thesis
  proof (cases "pcbs s l = p")
    case True
    then obtain bs where "as = p # bs" using assms by (cases as) auto
    then show ?thesis using True p assms d by (auto simp: TCP_RMV_def)
  next
    case False
    obtain nx' where n: "unlink_loop (next_pcb s) p (pcbs s l) = Some nx'" "linked nx' (pcbs s l) (remove1 p as)"
        "\<forall>x. x \<notin> set as \<longrightarrow> nx' x = next_pcb s x"
      using unlink_member[OF assms False] by blast
    have "linked (nx'(p := 0)) (pcbs s l) (remove1 p as)" using n(2) d by simp
    then show ?thesis using n False p assms(2) by (auto simp: TCP_RMV_def)
  qed
qed

lemma rmv_holds:
  assumes h: "holds s L" and m: "p \<in> set (L l)"
  shows "\<exists>s'. TCP_RMV l p s = Some s' \<and> holds s' (L(l := remove1 p (L l))) \<and> next_pcb s' p = 0
    \<and> tcp_active_pcbs_changed s' = tcp_active_pcbs_changed s"
proof -
  obtain s' where s: "TCP_RMV l p s = Some s'" "linked (next_pcb s') (pcbs s' l) (remove1 p (L l))" "next_pcb s' p = 0"
      "\<And>x. x \<notin> set (L l) \<Longrightarrow> next_pcb s' x = next_pcb s x" "\<And>m. m \<noteq> l \<Longrightarrow> pcbs s' m = pcbs s m"
      "tcp_active_pcbs_changed s' = tcp_active_pcbs_changed s"
    using rmv_links[OF holdsD(1)[OF h] m] by blast
  have "linked (next_pcb s') (pcbs s' k) (L k)" if "k \<noteq> l" for k
  proof -
    have "linked (next_pcb s') (pcbs s k) (L k) = linked (next_pcb s) (pcbs s k) (L k)"
      using holdsD(2)[OF h that] by (intro linked_cong s(4)) auto
    then show ?thesis using holdsD(1)[OF h, of k] s(5)[OF that] by simp
  qed
  moreover have "set ((L(l := remove1 p (L l))) i) \<inter> set ((L(l := remove1 p (L l))) j) = {}" if "i \<noteq> j" for i j
  proof -
    have "set ((L(l := remove1 p (L l))) k) \<subseteq> set (L k)" for k by (auto dest: set_remove1_subset[THEN subsetD])
    then show ?thesis using holdsD(2)[OF h that] by blast
  qed
  ultimately have "holds s' (L(l := remove1 p (L l)))" using s(2) by (simp add: holds_def)
  then show ?thesis using s by blast
qed

text \<open>
  Taken off a list it is not on, a connection keeps its place on its own list, and its cleared link cuts
  off everything that followed it there.
\<close>

lemma rmv_wrong_list:
  assumes h: "holds s L" and w: "L m = us @ p # vs" and "l \<noteq> m"
  shows "\<exists>s'. TCP_RMV l p s = Some s' \<and> linked (next_pcb s') (pcbs s' m) (us @ [p])"
proof -
  have n: "p \<notin> set (L l)" using holdsD(2)[OF h, of m l p] w assms(3) by auto
  have lm: "linked (next_pcb s) (pcbs s m) (us @ p # vs)" using holdsD(1)[OF h, of m] w by simp
  have p: "p \<noteq> 0" using linked_suffix[OF lm] by simp
  have "pcbs s l \<noteq> p" using holdsD(1)[OF h, of l] n p by (cases "L l") auto
  then have r: "TCP_RMV l p s = Some (s\<lparr>next_pcb := (next_pcb s)(p := 0)\<rparr>)"
    using p unlink_other[OF holdsD(1)[OF h] n p] by (simp add: TCP_RMV_def)
  have "p \<notin> set us" using linked_distinct[OF lm] by simp
  then have "linked ((next_pcb s)(p := 0)) (pcbs s m) (us @ [p])"
    by (rule linked_cut[OF lm])
  then show ?thesis using r by simp
qed

section \<open>Runs\<close>

datatype list_op = Reg pcb_list u32 | Rmv pcb_list u32 | RegActive u32 | RmvActive u32

fun list_step :: "list_op \<Rightarrow> tcp_lists \<Rightarrow> tcp_lists option" where
  "list_step (Reg l p) s = TCP_REG l p s"
| "list_step (Rmv l p) s = TCP_RMV l p s"
| "list_step (RegActive p) s = TCP_REG_ACTIVE p s"
| "list_step (RmvActive p) s = TCP_RMV_ACTIVE p s"

fun list_run :: "list_op list \<Rightarrow> tcp_lists \<Rightarrow> tcp_lists option" where
  "list_run [] s = Some s"
| "list_run (x # xs) s = (case list_step x s of None \<Rightarrow> None | Some s' \<Rightarrow> list_run xs s')"

text \<open>The same on lists of addresses, and which operations keep to the rule.\<close>

fun seq_step :: "list_op \<Rightarrow> (pcb_list \<Rightarrow> u32 list) \<Rightarrow> pcb_list \<Rightarrow> u32 list" where
  "seq_step (Reg l p) L = L(l := p # L l)"
| "seq_step (Rmv l p) L = L(l := remove1 p (L l))"
| "seq_step (RegActive p) L = L(ACTIVE := p # L ACTIVE)"
| "seq_step (RmvActive p) L = L(ACTIVE := remove1 p (L ACTIVE))"

definition in_no_list :: "u32 \<Rightarrow> (pcb_list \<Rightarrow> u32 list) \<Rightarrow> bool" where
  "in_no_list p L \<longleftrightarrow> (\<forall>l \<in> set [BOUND, LISTENING, ACTIVE, TIMEWAIT]. p \<notin> set (L l))"

lemma in_no_list_all: "in_no_list p L \<longleftrightarrow> (\<forall>l. p \<notin> set (L l))"
proof -
  have "l \<in> set [BOUND, LISTENING, ACTIVE, TIMEWAIT]" for l by (cases l) simp_all
  then show ?thesis unfolding in_no_list_def by blast
qed

fun allowed :: "list_op \<Rightarrow> (pcb_list \<Rightarrow> u32 list) \<Rightarrow> bool" where
  "allowed (Reg l p) L \<longleftrightarrow> p \<noteq> 0 \<and> in_no_list p L"
| "allowed (Rmv l p) L \<longleftrightarrow> p \<in> set (L l)"
| "allowed (RegActive p) L \<longleftrightarrow> p \<noteq> 0 \<and> in_no_list p L"
| "allowed (RmvActive p) L \<longleftrightarrow> p \<in> set (L ACTIVE)"

fun all_allowed :: "list_op list \<Rightarrow> (pcb_list \<Rightarrow> u32 list) \<Rightarrow> bool" where
  "all_allowed [] L \<longleftrightarrow> True"
| "all_allowed (x # xs) L \<longleftrightarrow> allowed x L \<and> all_allowed xs (seq_step x L)"

fun touches_active :: "list_op \<Rightarrow> bool" where
  "touches_active (RegActive p) \<longleftrightarrow> True"
| "touches_active (RmvActive p) \<longleftrightarrow> True"
| "touches_active _ \<longleftrightarrow> False"

lemma step_refines:
  assumes "holds s L" and "allowed x L"
  shows "\<exists>s'. list_step x s = Some s' \<and> holds s' (seq_step x L)
    \<and> tcp_active_pcbs_changed s' = (if touches_active x then 1 else tcp_active_pcbs_changed s)"
proof (cases x)
  case (Reg l p)
  then show ?thesis using reg_holds[OF assms(1), of p l] assms(2) by (auto simp: in_no_list_all)
next
  case (Rmv l p)
  then show ?thesis using rmv_holds[OF assms(1), of p l] assms(2) by auto
next
  case (RegActive p)
  then show ?thesis using reg_holds[OF assms(1), of p ACTIVE] assms(2)
    by (auto simp: in_no_list_all TCP_REG_ACTIVE_def)
next
  case (RmvActive p)
  then show ?thesis using rmv_holds[OF assms(1), of p ACTIVE] assms(2) by (auto simp: TCP_RMV_ACTIVE_def)
qed

lemma run_refines:
  "holds s L \<Longrightarrow> all_allowed xs L \<Longrightarrow> \<exists>s'. list_run xs s = Some s' \<and> holds s' (fold seq_step xs L)
    \<and> tcp_active_pcbs_changed s' = (if \<exists>x \<in> set xs. touches_active x then 1 else tcp_active_pcbs_changed s)"
proof (induction xs arbitrary: s L)
  case (Cons x xs)
  obtain s1 where s: "list_step x s = Some s1" "holds s1 (seq_step x L)"
      "tcp_active_pcbs_changed s1 = (if touches_active x then 1 else tcp_active_pcbs_changed s)"
    using step_refines[OF Cons.prems(1)] Cons.prems(2) by auto
  show ?case using Cons.IH[OF s(2)] Cons.prems(2) s by auto
qed simp

definition empty_lists :: "(u32 \<Rightarrow> u32) \<Rightarrow> tcp_lists" where
  "empty_lists nx = \<lparr>next_pcb = nx, pcbs = (\<lambda>l. 0), tcp_active_pcbs_changed = 0, timer_needed = 0\<rparr>"

text \<open>
  C29: The four connection lists refine four lists of addresses: every sequence of registrations of
  connections that are in no list and removals from the list a connection is in succeeds from the empty
  lists, whatever the link fields held before, each list is linked in the order last registered first,
  ends, and shares no connection with another, and the change flag tells whether the active list was
  touched.
\<close>

theorem tcp_lists_refine_sequences:
  assumes "all_allowed ops (\<lambda>l. [])"
  shows "\<exists>s. list_run ops (empty_lists nx) = Some s
    \<and> (\<forall>l. linked (next_pcb s) (pcbs s l) (fold seq_step ops (\<lambda>l. []) l) \<and> distinct (fold seq_step ops (\<lambda>l. []) l))
    \<and> (\<forall>l m. l \<noteq> m \<longrightarrow> set (fold seq_step ops (\<lambda>l. []) l) \<inter> set (fold seq_step ops (\<lambda>l. []) m) = {})
    \<and> (tcp_active_pcbs_changed s = 1 \<longleftrightarrow> (\<exists>x \<in> set ops. touches_active x))"
proof -
  have "holds (empty_lists nx) (\<lambda>l. [])" by (simp add: holds_def empty_lists_def)
  from run_refines[OF this assms] obtain s where s: "list_run ops (empty_lists nx) = Some s"
      "holds s (fold seq_step ops (\<lambda>l. []))"
      "tcp_active_pcbs_changed s = (if \<exists>x \<in> set ops. touches_active x then 1 else 0)"
    by (auto simp: empty_lists_def)
  then show ?thesis using linked_distinct by (intro exI[of _ s]) (auto simp: holds_def)
qed

theorem tcp_lists_refine_sequences_witness:
  "all_allowed [RegActive 8, RegActive 16, Reg BOUND 24, RmvActive 8, Reg TIMEWAIT 8] (\<lambda>l. [])
   \<and> (\<exists>s. list_run [RegActive 8, RegActive 16, Reg BOUND 24, RmvActive 8, Reg TIMEWAIT 8] (empty_lists (\<lambda>x. 3)) = Some s
     \<and> linked (next_pcb s) (pcbs s ACTIVE) [16] \<and> linked (next_pcb s) (pcbs s TIMEWAIT) [8] \<and> tcp_active_pcbs_changed s = 1)"
proof -
  let ?ops = "[RegActive 8, RegActive 16, Reg BOUND 24, RmvActive 8, Reg TIMEWAIT 8]"
  have a: "all_allowed ?ops (\<lambda>l. [])" by (simp add: in_no_list_def)
  have f: "fold seq_step ?ops (\<lambda>l. []) ACTIVE = [16]" "fold seq_step ?ops (\<lambda>l. []) TIMEWAIT = [8]" by simp_all
  obtain s where s: "list_run ?ops (empty_lists (\<lambda>x. 3)) = Some s"
      "\<forall>l. linked (next_pcb s) (pcbs s l) (fold seq_step ?ops (\<lambda>l. []) l)" "tcp_active_pcbs_changed s = 1"
    using tcp_lists_refine_sequences[OF a, of "\<lambda>x. 3"] by auto
  show ?thesis using a s(1,3) s(2)[rule_format, of ACTIVE] s(2)[rule_format, of TIMEWAIT] unfolding f by blast
qed

end
