(* ===== verification/Lwip_Ip6.thy ===== *)
theory Lwip_Ip6
  imports Lwip_Inet
begin

unbundle bit_operations_syntax

text \<open>
  IPv6 addresses: the macros of \<^verbatim>\<open>src/ffi/lwip/ip_addr6.h\<close> and the scoping policy of \<^verbatim>\<open>ip6_zone.h\<close> that
  the socket layer does not use itself but the protocol code and applications do. An address is the four
  words in network byte order of \<open>ip_addr_t\<close> with their zone. A class of addresses is a mask and a prefix
  of the first word.
\<close>

section \<open>Parts of an address\<close>

definition LWIP_MAKEU32 :: "u8 \<Rightarrow> u8 \<Rightarrow> u8 \<Rightarrow> u8 \<Rightarrow> u32" where
  "LWIP_MAKEU32 a b c d = (push_bit 24 (ucast a) OR push_bit 16 (ucast b) OR push_bit 8 (ucast c) OR ucast d)"

definition IP6_ADDR_PART :: "ip_addr_t \<Rightarrow> nat \<Rightarrow> u8 \<Rightarrow> u8 \<Rightarrow> u8 \<Rightarrow> u8 \<Rightarrow> ip_addr_t" where
  "IP6_ADDR_PART x index a b c d = x\<lparr>ip_words := (ip_words x)[index := PP_HTONL (LWIP_MAKEU32 a b c d)]\<rparr>"

definition IP6_ADDR :: "ip_addr_t \<Rightarrow> u32 \<Rightarrow> u32 \<Rightarrow> u32 \<Rightarrow> u32 \<Rightarrow> ip_addr_t" where
  "IP6_ADDR x idx0 idx1 idx2 idx3 = x\<lparr>ip_words := [idx0, idx1, idx2, idx3], ip_zone := 0\<rparr>"

text \<open>The eight blocks, counted from 1.\<close>

definition block_high :: "ip_addr_t \<Rightarrow> nat \<Rightarrow> u16" where
  "block_high x i = ucast (drop_bit 16 (u32_high_to_neutral (ip_words x ! i)) AND 0xffff)"

definition block_low :: "ip_addr_t \<Rightarrow> nat \<Rightarrow> u16" where
  "block_low x i = ucast (u32_high_to_neutral (ip_words x ! i) AND 0xffff)"

definition IP6_ADDR_BLOCK1 :: "ip_addr_t \<Rightarrow> u16" where "IP6_ADDR_BLOCK1 x = block_high x 0"
definition IP6_ADDR_BLOCK2 :: "ip_addr_t \<Rightarrow> u16" where "IP6_ADDR_BLOCK2 x = block_low x 0"
definition IP6_ADDR_BLOCK3 :: "ip_addr_t \<Rightarrow> u16" where "IP6_ADDR_BLOCK3 x = block_high x 1"
definition IP6_ADDR_BLOCK4 :: "ip_addr_t \<Rightarrow> u16" where "IP6_ADDR_BLOCK4 x = block_low x 1"
definition IP6_ADDR_BLOCK5 :: "ip_addr_t \<Rightarrow> u16" where "IP6_ADDR_BLOCK5 x = block_high x 2"
definition IP6_ADDR_BLOCK6 :: "ip_addr_t \<Rightarrow> u16" where "IP6_ADDR_BLOCK6 x = block_low x 2"
definition IP6_ADDR_BLOCK7 :: "ip_addr_t \<Rightarrow> u16" where "IP6_ADDR_BLOCK7 x = block_high x 3"
definition IP6_ADDR_BLOCK8 :: "ip_addr_t \<Rightarrow> u16" where "IP6_ADDR_BLOCK8 x = block_low x 3"

lemmas blocks = IP6_ADDR_BLOCK1_def IP6_ADDR_BLOCK2_def IP6_ADDR_BLOCK3_def IP6_ADDR_BLOCK4_def
  IP6_ADDR_BLOCK5_def IP6_ADDR_BLOCK6_def IP6_ADDR_BLOCK7_def IP6_ADDR_BLOCK8_def

definition ip6_get_subnet_id :: "ip_addr_t \<Rightarrow> u32" where
  "ip6_get_subnet_id x = u32_high_to_neutral (ip_words x ! 2) AND 0x0000ffff"

section \<open>Copies and comparisons\<close>

text \<open>A pointer that may be null is an option.\<close>

definition ip6_addr_copy :: "ip_addr_t \<Rightarrow> ip_addr_t \<Rightarrow> ip_addr_t" where
  "ip6_addr_copy dest src = dest\<lparr>ip_words := ip_words src, ip_zone := ip_zone src\<rparr>"

definition ip6_addr_set :: "ip_addr_t \<Rightarrow> ip_addr_t option \<Rightarrow> ip_addr_t" where
  "ip6_addr_set dest src = (case src of None \<Rightarrow> dest\<lparr>ip_words := [0, 0, 0, 0], ip_zone := 0\<rparr>
     | Some s \<Rightarrow> dest\<lparr>ip_words := ip_words s, ip_zone := ip_zone s\<rparr>)"

definition ip6_addr_set_hton :: "ip_addr_t \<Rightarrow> ip_addr_t option \<Rightarrow> ip_addr_t" where
  "ip6_addr_set_hton dest src = (case src of None \<Rightarrow> dest\<lparr>ip_words := [0, 0, 0, 0], ip_zone := 0\<rparr>
     | Some s \<Rightarrow> dest\<lparr>ip_words := map u32_high_to_neutral (ip_words s), ip_zone := ip_zone s\<rparr>)"

text \<open>Packed addresses, as headers hold them, are the four words without a zone.\<close>

definition ip6_addr_copy_from_packed :: "ip_addr_t \<Rightarrow> u32 list \<Rightarrow> ip_addr_t" where
  "ip6_addr_copy_from_packed dest src = dest\<lparr>ip_words := src, ip_zone := 0\<rparr>"

definition ip6_addr_copy_to_packed :: "ip_addr_t \<Rightarrow> u32 list" where "ip6_addr_copy_to_packed src = ip_words src"

definition ip6_addr_cmp_zone :: "ip_addr_t \<Rightarrow> ip_addr_t \<Rightarrow> bool" where
  "ip6_addr_cmp_zone x y \<longleftrightarrow> ip_zone x = ip_zone y"

definition ip6_addr_equals_zone :: "ip_addr_t \<Rightarrow> u8 \<Rightarrow> bool" where
  "ip6_addr_equals_zone x zone_idx \<longleftrightarrow> ip_zone x = zone_idx"

definition ip6_addr_netcmp_zoneless :: "ip_addr_t \<Rightarrow> ip_addr_t \<Rightarrow> bool" where
  "ip6_addr_netcmp_zoneless x y \<longleftrightarrow> ip_words x ! 0 = ip_words y ! 0 \<and> ip_words x ! 1 = ip_words y ! 1"

definition ip6_addr_netcmp :: "ip_addr_t \<Rightarrow> ip_addr_t \<Rightarrow> bool" where
  "ip6_addr_netcmp x y \<longleftrightarrow> ip6_addr_netcmp_zoneless x y \<and> ip6_addr_cmp_zone x y"

definition ip6_addr_nethostcmp :: "ip_addr_t \<Rightarrow> ip_addr_t \<Rightarrow> bool" where
  "ip6_addr_nethostcmp x y \<longleftrightarrow> ip_words x ! 2 = ip_words y ! 2 \<and> ip_words x ! 3 = ip_words y ! 3"

definition ip6_addr_cmp_zoneless :: "ip_addr_t \<Rightarrow> ip_addr_t \<Rightarrow> bool" where
  "ip6_addr_cmp_zoneless x y \<longleftrightarrow> ip_words x ! 0 = ip_words y ! 0 \<and> ip_words x ! 1 = ip_words y ! 1
     \<and> ip_words x ! 2 = ip_words y ! 2 \<and> ip_words x ! 3 = ip_words y ! 3"

definition ip6_addr_cmp :: "ip_addr_t \<Rightarrow> ip_addr_t \<Rightarrow> bool" where
  "ip6_addr_cmp x y \<longleftrightarrow> ip6_addr_cmp_zoneless x y \<and> ip6_addr_cmp_zone x y"

definition ip6_addr_cmp_packed :: "ip_addr_t \<Rightarrow> u32 list \<Rightarrow> u8 \<Rightarrow> bool" where
  "ip6_addr_cmp_packed x paddr zone_idx \<longleftrightarrow> ip_words x ! 0 = paddr ! 0 \<and> ip_words x ! 1 = paddr ! 1
     \<and> ip_words x ! 2 = paddr ! 2 \<and> ip_words x ! 3 = paddr ! 3 \<and> ip6_addr_equals_zone x zone_idx"

section \<open>Classes of addresses\<close>

definition ip6_addr_isany_val :: "ip_addr_t \<Rightarrow> bool" where
  "ip6_addr_isany_val x \<longleftrightarrow> ip_words x ! 0 = 0 \<and> ip_words x ! 1 = 0 \<and> ip_words x ! 2 = 0 \<and> ip_words x ! 3 = 0"

definition ip6_addr_isany :: "ip_addr_t option \<Rightarrow> bool" where
  "ip6_addr_isany x = (case x of None \<Rightarrow> True | Some a \<Rightarrow> ip6_addr_isany_val a)"

definition ip6_addr_isloopback :: "ip_addr_t \<Rightarrow> bool" where
  "ip6_addr_isloopback x \<longleftrightarrow>
     ip_words x ! 0 = 0 \<and> ip_words x ! 1 = 0 \<and> ip_words x ! 2 = 0 \<and> ip_words x ! 3 = PP_HTONL 0x00000001"

definition ip6_addr_set_loopback :: "ip_addr_t \<Rightarrow> ip_addr_t" where
  "ip6_addr_set_loopback x = x\<lparr>ip_words := [0, 0, 0, PP_HTONL 0x00000001], ip_zone := 0\<rparr>"

definition ip6_addr_isglobal :: "ip_addr_t \<Rightarrow> bool" where
  "ip6_addr_isglobal x \<longleftrightarrow> ip_words x ! 0 AND PP_HTONL 0xe0000000 = PP_HTONL 0x20000000"

definition ip6_addr_issitelocal :: "ip_addr_t \<Rightarrow> bool" where
  "ip6_addr_issitelocal x \<longleftrightarrow> ip_words x ! 0 AND PP_HTONL 0xffc00000 = PP_HTONL 0xfec00000"

definition ip6_addr_isuniquelocal :: "ip_addr_t \<Rightarrow> bool" where
  "ip6_addr_isuniquelocal x \<longleftrightarrow> ip_words x ! 0 AND PP_HTONL 0xfe000000 = PP_HTONL 0xfc000000"

definition ip6_addr_ismulticast :: "ip_addr_t \<Rightarrow> bool" where
  "ip6_addr_ismulticast x \<longleftrightarrow> ip_words x ! 0 AND PP_HTONL 0xff000000 = PP_HTONL 0xff000000"

definition ip6_addr_multicast_transient_flag :: "ip_addr_t \<Rightarrow> u32" where
  "ip6_addr_multicast_transient_flag x = ip_words x ! 0 AND PP_HTONL 0x00100000"

definition ip6_addr_multicast_prefix_flag :: "ip_addr_t \<Rightarrow> u32" where
  "ip6_addr_multicast_prefix_flag x = ip_words x ! 0 AND PP_HTONL 0x00200000"

definition ip6_addr_multicast_rendezvous_flag :: "ip_addr_t \<Rightarrow> u32" where
  "ip6_addr_multicast_rendezvous_flag x = ip_words x ! 0 AND PP_HTONL 0x00400000"

definition ip6_addr_multicast_scope :: "ip_addr_t \<Rightarrow> u32" where
  "ip6_addr_multicast_scope x = drop_bit 16 (u32_high_to_neutral (ip_words x ! 0)) AND 0xf"

definition ip6_addr_ismulticast_adminlocal :: "ip_addr_t \<Rightarrow> bool" where
  "ip6_addr_ismulticast_adminlocal x \<longleftrightarrow> ip_words x ! 0 AND PP_HTONL 0xff8f0000 = PP_HTONL 0xff040000"

definition ip6_addr_ismulticast_sitelocal :: "ip_addr_t \<Rightarrow> bool" where
  "ip6_addr_ismulticast_sitelocal x \<longleftrightarrow> ip_words x ! 0 AND PP_HTONL 0xff8f0000 = PP_HTONL 0xff050000"

definition ip6_addr_ismulticast_orglocal :: "ip_addr_t \<Rightarrow> bool" where
  "ip6_addr_ismulticast_orglocal x \<longleftrightarrow> ip_words x ! 0 AND PP_HTONL 0xff8f0000 = PP_HTONL 0xff080000"

definition ip6_addr_ismulticast_global :: "ip_addr_t \<Rightarrow> bool" where
  "ip6_addr_ismulticast_global x \<longleftrightarrow> ip_words x ! 0 AND PP_HTONL 0xff8f0000 = PP_HTONL 0xff0e0000"

section \<open>Well-known multicast addresses\<close>

definition ip6_addr_isallnodes_iflocal :: "ip_addr_t \<Rightarrow> bool" where
  "ip6_addr_isallnodes_iflocal x \<longleftrightarrow> ip_words x ! 0 = PP_HTONL 0xff010000 \<and> ip_words x ! 1 = 0
     \<and> ip_words x ! 2 = 0 \<and> ip_words x ! 3 = PP_HTONL 0x00000001"

definition ip6_addr_isallnodes_linklocal :: "ip_addr_t \<Rightarrow> bool" where
  "ip6_addr_isallnodes_linklocal x \<longleftrightarrow> ip_words x ! 0 = PP_HTONL 0xff020000 \<and> ip_words x ! 1 = 0
     \<and> ip_words x ! 2 = 0 \<and> ip_words x ! 3 = PP_HTONL 0x00000001"

definition ip6_addr_set_allnodes_linklocal :: "ip_addr_t \<Rightarrow> ip_addr_t" where
  "ip6_addr_set_allnodes_linklocal x =
     x\<lparr>ip_words := [PP_HTONL 0xff020000, 0, 0, PP_HTONL 0x00000001], ip_zone := 0\<rparr>"

definition ip6_addr_isallrouters_linklocal :: "ip_addr_t \<Rightarrow> bool" where
  "ip6_addr_isallrouters_linklocal x \<longleftrightarrow> ip_words x ! 0 = PP_HTONL 0xff020000 \<and> ip_words x ! 1 = 0
     \<and> ip_words x ! 2 = 0 \<and> ip_words x ! 3 = PP_HTONL 0x00000002"

definition ip6_addr_set_allrouters_linklocal :: "ip_addr_t \<Rightarrow> ip_addr_t" where
  "ip6_addr_set_allrouters_linklocal x =
     x\<lparr>ip_words := [PP_HTONL 0xff020000, 0, 0, PP_HTONL 0x00000002], ip_zone := 0\<rparr>"

definition ip6_addr_issolicitednode :: "ip_addr_t \<Rightarrow> bool" where
  "ip6_addr_issolicitednode x \<longleftrightarrow> ip_words x ! 0 = PP_HTONL 0xff020000 \<and> ip_words x ! 2 = PP_HTONL 0x00000001
     \<and> ip_words x ! 3 AND PP_HTONL 0xff000000 = PP_HTONL 0xff000000"

definition ip6_addr_set_solicitednode :: "ip_addr_t \<Rightarrow> u32 \<Rightarrow> ip_addr_t" where
  "ip6_addr_set_solicitednode x if_id =
     x\<lparr>ip_words := [PP_HTONL 0xff020000, 0, PP_HTONL 0x00000001, PP_HTONL 0xff000000 OR if_id], ip_zone := 0\<rparr>"

definition ip6_addr_cmp_solicitednode :: "ip_addr_t \<Rightarrow> ip_addr_t \<Rightarrow> bool" where
  "ip6_addr_cmp_solicitednode x sn_addr \<longleftrightarrow> ip_words x ! 0 = PP_HTONL 0xff020000 \<and> ip_words x ! 1 = 0
     \<and> ip_words x ! 2 = PP_HTONL 0x00000001 \<and> ip_words x ! 3 = PP_HTONL 0xff000000 OR ip_words sn_addr ! 3"

section \<open>Zones\<close>

datatype lwip_ipv6_scope_type = IP6_UNKNOWN | IP6_UNICAST | IP6_MULTICAST

definition ip6_addr_has_zone :: "ip_addr_t \<Rightarrow> bool" where "ip6_addr_has_zone x \<longleftrightarrow> ip_zone x \<noteq> 0"

definition ip6_addr_has_scope_type :: "ip_addr_t \<Rightarrow> lwip_ipv6_scope_type \<Rightarrow> bool" where
  "ip6_addr_has_scope_type x type \<longleftrightarrow> ip6_addr_islinklocal (ip_words x)
     \<or> type \<noteq> IP6_UNICAST \<and> (ip6_addr_ismulticast_iflocal (ip_words x) \<or> ip6_addr_ismulticast_linklocal (ip_words x))"

text \<open>A network interface is its number in \<open>num\<close>; its index is one more, as a byte.\<close>

definition netif_get_index :: "u8 \<Rightarrow> u8" where "netif_get_index num = num + 1"

definition ip6_addr_assign_zone :: "ip_addr_t \<Rightarrow> lwip_ipv6_scope_type \<Rightarrow> u8 \<Rightarrow> ip_addr_t" where
  "ip6_addr_assign_zone x type netif = x\<lparr>ip_zone := (if ip6_addr_has_scope_type x type then netif_get_index netif else 0)\<rparr>"

definition ip6_addr_test_zone :: "ip_addr_t \<Rightarrow> u8 \<Rightarrow> bool" where
  "ip6_addr_test_zone x netif \<longleftrightarrow> ip6_addr_equals_zone x (netif_get_index netif)"

definition ip6_addr_lacks_zone :: "ip_addr_t \<Rightarrow> lwip_ipv6_scope_type \<Rightarrow> bool" where
  "ip6_addr_lacks_zone x type \<longleftrightarrow> \<not> ip6_addr_has_zone x \<and> ip6_addr_has_scope_type x type"

text \<open>\<open>ip6_route\<close> is the routing of the protocol code: the interface it selects, or none.\<close>

definition ip6_addr_select_zone ::
    "(ip_addr_t \<Rightarrow> ip_addr_t \<Rightarrow> u8 option) \<Rightarrow> ip_addr_t \<Rightarrow> ip_addr_t \<Rightarrow> ip_addr_t" where
  "ip6_addr_select_zone ip6_route dest src =
     (case ip6_route src dest of None \<Rightarrow> dest | Some netif \<Rightarrow> ip6_addr_assign_zone dest IP6_UNKNOWN netif)"

section \<open>States of an interface's address\<close>

definition IP6_ADDR_INVALID :: u8 where "IP6_ADDR_INVALID = 0x00"
definition IP6_ADDR_TENTATIVE :: u8 where "IP6_ADDR_TENTATIVE = 0x08"
definition IP6_ADDR_VALID :: u8 where "IP6_ADDR_VALID = 0x10"
definition IP6_ADDR_PREFERRED :: u8 where "IP6_ADDR_PREFERRED = 0x30"
definition IP6_ADDR_DEPRECATED :: u8 where "IP6_ADDR_DEPRECATED = 0x10"
definition IP6_ADDR_DUPLICATED :: u8 where "IP6_ADDR_DUPLICATED = 0x40"

definition ip6_addr_isinvalid :: "u8 \<Rightarrow> bool" where "ip6_addr_isinvalid st \<longleftrightarrow> st = IP6_ADDR_INVALID"
definition ip6_addr_istentative :: "u8 \<Rightarrow> bool" where "ip6_addr_istentative st \<longleftrightarrow> st AND IP6_ADDR_TENTATIVE \<noteq> 0"
definition ip6_addr_isvalid :: "u8 \<Rightarrow> bool" where "ip6_addr_isvalid st \<longleftrightarrow> st AND IP6_ADDR_VALID \<noteq> 0"
definition ip6_addr_ispreferred :: "u8 \<Rightarrow> bool" where "ip6_addr_ispreferred st \<longleftrightarrow> st = IP6_ADDR_PREFERRED"
definition ip6_addr_isdeprecated :: "u8 \<Rightarrow> bool" where "ip6_addr_isdeprecated st \<longleftrightarrow> st = IP6_ADDR_DEPRECATED"
definition ip6_addr_isduplicated :: "u8 \<Rightarrow> bool" where "ip6_addr_isduplicated st \<longleftrightarrow> st = IP6_ADDR_DUPLICATED"

section \<open>Addresses as bytes\<close>

text \<open>The \<open>k\<close>th byte of an address as it is sent.\<close>

definition addr_byte :: "ip_addr_t \<Rightarrow> nat \<Rightarrow> u8" where
  "addr_byte x k = byte_of (k mod 4) (ip_words x ! (k div 4))"

lemma PP_HTONL_swap: "PP_HTONL x = u32_high_to_neutral x"
  by (simp add: PP_HTONL_def u32_high_to_neutral_def)

lemma words_eq_bytes:
  fixes v w :: u32
  shows "v = w \<longleftrightarrow> byte_of 0 v = byte_of 0 w \<and> byte_of 1 v = byte_of 1 w \<and> byte_of 2 v = byte_of 2 w \<and> byte_of 3 v = byte_of 3 w"
proof
  assume b: "byte_of 0 v = byte_of 0 w \<and> byte_of 1 v = byte_of 1 w \<and> byte_of 2 v = byte_of 2 w \<and> byte_of 3 v = byte_of 3 w"
  then have e: "byte_of i v = byte_of i w" if "i < 4" for i using that by (cases rule: less_4_cases[OF that]) auto
  show "v = w"
  proof (rule bit_word_eqI)
    fix n
    assume "n < LENGTH(32)"
    then have "n div 8 < 4" "n mod 8 < 8" "8 * (n div 8) + n mod 8 = n" by (auto simp: div_less_iff_less_mult)
    then show "bit v n = bit w n" using e[of "n div 8"] byte_of_bit[of _ _ "n mod 8"] by metis
  qed
qed simp

lemma byte_of_and: "byte_of i (v AND w) = byte_of i v AND byte_of i w"
  and byte_of_or: "byte_of i (v OR w) = byte_of i v OR byte_of i w" for v w :: u32
  by (rule byte_eqI; simp add: byte_of_bit bit_simps)+

lemma byte_of_htonl:
  "byte_of 0 (PP_HTONL x) = byte_of 3 x" "byte_of 1 (PP_HTONL x) = byte_of 2 x"
  "byte_of (Suc 0) (PP_HTONL x) = byte_of 2 x"
  "byte_of 2 (PP_HTONL x) = byte_of 1 x" "byte_of 3 (PP_HTONL x) = byte_of 0 x"
  using byte_of_high_to_neutral[of 0 x] byte_of_high_to_neutral[of 1 x] byte_of_high_to_neutral[of 2 x]
    byte_of_high_to_neutral[of 3 x] by (simp_all add: PP_HTONL_swap)

lemma byte_of_numeral:
  assumes "i < 4"
  shows "byte_of i (numeral n :: u32) = of_nat (numeral n div 2 ^ (8 * i) mod 256)"
proof -
  have r: "(numeral n :: nat) div 2 ^ (8 * i) mod 256 = take_bit 8 (drop_bit (8 * i) (numeral n))"
    by (simp add: drop_bit_eq_div take_bit_eq_mod)
  have "bit (numeral n :: int) k \<longleftrightarrow> bit (numeral n :: nat) k" for k
    using bit_of_nat_iff_bit[of "numeral n" k, where 'a = int] by simp
  then show ?thesis using assms unfolding r by (intro byte_eqI) (simp add: byte_of_bit bit_simps)
qed

lemma and_all: "(x :: u8) AND 255 = x"
  by (rule byte_eqI) (simp add: bit_simps byte_masks)

lemma or_all: "255 OR (x :: u8) = 255"
  by (rule byte_eqI) (simp add: bit_simps byte_masks)

lemmas byte_eval = or_all byte_of_numeral[of 0] byte_of_numeral[of 1] byte_of_numeral[of 1, unfolded One_nat_def]
  byte_of_numeral[of 2] byte_of_numeral[of 3] and_all

text \<open>Masking with a prefix looks at the bytes the mask covers.\<close>

lemma prefix_bytes:
  "w AND PP_HTONL m = PP_HTONL v \<longleftrightarrow> byte_of 0 w AND byte_of 3 m = byte_of 3 v \<and> byte_of 1 w AND byte_of 2 m = byte_of 2 v
     \<and> byte_of 2 w AND byte_of 1 m = byte_of 1 v \<and> byte_of 3 w AND byte_of 0 m = byte_of 0 v"
  by (subst words_eq_bytes) (simp add: byte_of_and byte_of_htonl)

lemma class_bytes:
  "ip6_addr_isglobal x \<longleftrightarrow> addr_byte x 0 AND 0xe0 = 0x20"
  "ip6_addr_islinklocal (ip_words x) \<longleftrightarrow> addr_byte x 0 = 0xfe \<and> addr_byte x 1 AND 0xc0 = 0x80"
  "ip6_addr_issitelocal x \<longleftrightarrow> addr_byte x 0 = 0xfe \<and> addr_byte x 1 AND 0xc0 = 0xc0"
  "ip6_addr_isuniquelocal x \<longleftrightarrow> addr_byte x 0 AND 0xfe = 0xfc"
  "ip6_addr_ismulticast x \<longleftrightarrow> addr_byte x 0 = 0xff"
  unfolding ip6_addr_isglobal_def ip6_addr_islinklocal_def ip6_addr_issitelocal_def ip6_addr_isuniquelocal_def
    ip6_addr_ismulticast_def prefix_bytes addr_byte_def
  by (simp_all add: byte_eval)

text \<open>The scopes of multicast addresses: the low half of the second byte, when the reserved flag is clear.\<close>

lemma scope_byte: "ip6_addr_multicast_scope x = ucast (addr_byte x 1 AND 0xf)"
proof -
  have m: "(0xf :: u32) = mask 4" "(0xf :: u8) = mask 4" by (simp_all add: mask_eq_exp_minus_1)
  have b: "bit (u32_high_to_neutral w) (16 + n) \<longleftrightarrow> bit w (8 + n)" if "n < 8" for w n
  proof -
    have "bit (byte_of 2 (u32_high_to_neutral w)) n = bit (byte_of 1 w) n" by (simp add: byte_of_high_to_neutral)
    then show ?thesis using that by (simp add: byte_of_bit)
  qed
  show ?thesis
    by (rule bit_word_eqI) (auto simp: ip6_addr_multicast_scope_def m bit_simps addr_byte_def byte_of_bit b)
qed

lemma multicast_bytes:
  "ip6_addr_ismulticast_iflocal (ip_words x) \<longleftrightarrow> addr_byte x 0 = 0xff \<and> addr_byte x 1 AND 0x8f = 0x01"
  "ip6_addr_ismulticast_linklocal (ip_words x) \<longleftrightarrow> addr_byte x 0 = 0xff \<and> addr_byte x 1 AND 0x8f = 0x02"
  "ip6_addr_ismulticast_adminlocal x \<longleftrightarrow> addr_byte x 0 = 0xff \<and> addr_byte x 1 AND 0x8f = 0x04"
  "ip6_addr_ismulticast_sitelocal x \<longleftrightarrow> addr_byte x 0 = 0xff \<and> addr_byte x 1 AND 0x8f = 0x05"
  "ip6_addr_ismulticast_orglocal x \<longleftrightarrow> addr_byte x 0 = 0xff \<and> addr_byte x 1 AND 0x8f = 0x08"
  "ip6_addr_ismulticast_global x \<longleftrightarrow> addr_byte x 0 = 0xff \<and> addr_byte x 1 AND 0x8f = 0x0e"
  unfolding ip6_addr_ismulticast_iflocal_def ip6_addr_ismulticast_linklocal_def ip6_addr_ismulticast_adminlocal_def
    ip6_addr_ismulticast_sitelocal_def ip6_addr_ismulticast_orglocal_def ip6_addr_ismulticast_global_def
    prefix_bytes addr_byte_def
  by (simp_all add: byte_eval)

text \<open>Two masks can only both match where they agree.\<close>

lemma masks_agree: "x AND m = c \<Longrightarrow> x AND m' = c' \<Longrightarrow> c AND m' = c' AND m"
  for x :: u8 by (metis and.assoc and.commute)

definition ip6_classes :: "ip_addr_t \<Rightarrow> bool list" where
  "ip6_classes x = [ip6_addr_isany_val x, ip6_addr_isloopback x, ip6_addr_isglobal x, ip6_addr_islinklocal (ip_words x),
     ip6_addr_issitelocal x, ip6_addr_isuniquelocal x, ip6_addr_ismulticast x]"

lemma classes_apart: "length (filter id (ip6_classes x)) \<le> 1"
proof -
  have z: "addr_byte x 0 = 0" if "ip6_addr_isany_val x \<or> ip6_addr_isloopback x"
    using that by (auto simp: ip6_addr_isany_val_def ip6_addr_isloopback_def addr_byte_def byte_of_def)
  have al: "\<not> (ip6_addr_isany_val x \<and> ip6_addr_isloopback x)"
    by (auto simp: ip6_addr_isany_val_def ip6_addr_isloopback_def PP_HTONL_def)
  have gu: "\<not> (addr_byte x 0 AND 0xe0 = 0x20 \<and> addr_byte x 0 AND 0xfe = 0xfc)"
    using masks_agree[of "addr_byte x 0" "0xe0" "0x20" "0xfe" "0xfc"] by auto
  show ?thesis
  proof (cases "ip6_addr_isany_val x \<or> ip6_addr_isloopback x")
    case True
    then show ?thesis using z al by (auto simp: ip6_classes_def class_bytes)
  next
    case False
    then show ?thesis using gu by (auto simp: ip6_classes_def class_bytes)
  qed
qed

text \<open>The low half of a byte and its top bit together.\<close>

lemma low_half_and_top:
  fixes b c :: u8
  assumes "c < 16"
  shows "b AND 0x8f = c \<longleftrightarrow> (ucast (b AND 0xf) :: u32) = ucast c \<and> b AND 0x80 = 0"
proof -
  have c: "bit c n \<Longrightarrow> n < 4" for n using word_small_bits[of c 4 n] assms by simp
  have w: "(0x8f :: u8) = mask 4 OR 2 ^ 7" "(0xf :: u8) = mask 4" "(0x80 :: u8) = 2 ^ 7"
    by (simp_all add: mask_eq_exp_minus_1)
  have m: "bit (0x8f :: u8) n \<longleftrightarrow> n < 4 \<or> n = 7" "bit (0xf :: u8) n \<longleftrightarrow> n < 4" "bit (0x80 :: u8) n \<longleftrightarrow> n = 7" for n
    unfolding w bit_or_iff bit_mask_iff bit_exp_iff by auto
  have eq8: "v = w \<longleftrightarrow> (\<forall>n < 8. bit v n = bit w n)" for v w :: u8 by (auto intro: byte_eqI)
  have 1: "b AND 0x8f = c \<longleftrightarrow> (\<forall>n < 8. (bit b n \<and> (n < 4 \<or> n = 7)) = bit c n)"
    unfolding eq8 bit_and_iff m ..
  have "(ucast (b AND 0xf) :: u32) = ucast c \<longleftrightarrow> b AND 0xf = c"
  proof
    assume "(ucast (b AND 0xf) :: u32) = ucast c"
    then have "(ucast (ucast (b AND 0xf) :: u32) :: u8) = ucast (ucast c :: u32)" by (rule arg_cong)
    then show "b AND 0xf = c" by (simp add: ucast_up_ucast_id is_up_def source_size_def target_size_def)
  qed simp
  then have 2: "(ucast (b AND 0xf) :: u32) = ucast c \<longleftrightarrow> (\<forall>n < 8. (bit b n \<and> n < 4) = bit c n)"
    unfolding eq8 bit_and_iff m .
  have 3: "b AND 0x80 = 0 \<longleftrightarrow> \<not> bit b 7"
    unfolding eq8 bit_and_iff m by (auto dest: spec[of _ 7])
  have c7: "\<not> bit c 7" using c[of 7] by auto
  show ?thesis
  proof
    assume "b AND 0x8f = c"
    then have e: "bit b n \<and> (n < 4 \<or> n = 7) \<longleftrightarrow> bit c n" if "n < 8" for n using that unfolding 1 by blast
    have "\<not> bit b 7" using e[of 7] c7 by simp
    moreover have "(bit b n \<and> n < 4) = bit c n" if "n < 8" for n using e[OF that] c[of n] by blast
    ultimately show "(ucast (b AND 0xf) :: u32) = ucast c \<and> b AND 0x80 = 0" unfolding 2 3 by blast
  next
    assume "(ucast (b AND 0xf) :: u32) = ucast c \<and> b AND 0x80 = 0"
    then have e: "bit b n \<and> n < 4 \<longleftrightarrow> bit c n" "\<not> bit b 7" if "n < 8" for n using that unfolding 2 3 by blast+
    have "(bit b n \<and> (n < 4 \<or> n = 7)) = bit c n" if "n < 8" for n using e(1)[OF that] e(2)[OF that] by metis
    then show "b AND 0x8f = c" unfolding 1 by blast
  qed
qed

lemma scope_tests:
  "ip6_addr_ismulticast_iflocal (ip_words x) \<longleftrightarrow>
     ip6_addr_ismulticast x \<and> ip6_addr_multicast_scope x = 1 \<and> addr_byte x 1 AND 0x80 = 0"
  "ip6_addr_ismulticast_linklocal (ip_words x) \<longleftrightarrow>
     ip6_addr_ismulticast x \<and> ip6_addr_multicast_scope x = 2 \<and> addr_byte x 1 AND 0x80 = 0"
  "ip6_addr_ismulticast_adminlocal x \<longleftrightarrow>
     ip6_addr_ismulticast x \<and> ip6_addr_multicast_scope x = 4 \<and> addr_byte x 1 AND 0x80 = 0"
  "ip6_addr_ismulticast_sitelocal x \<longleftrightarrow>
     ip6_addr_ismulticast x \<and> ip6_addr_multicast_scope x = 5 \<and> addr_byte x 1 AND 0x80 = 0"
  "ip6_addr_ismulticast_orglocal x \<longleftrightarrow>
     ip6_addr_ismulticast x \<and> ip6_addr_multicast_scope x = 8 \<and> addr_byte x 1 AND 0x80 = 0"
  "ip6_addr_ismulticast_global x \<longleftrightarrow>
     ip6_addr_ismulticast x \<and> ip6_addr_multicast_scope x = 14 \<and> addr_byte x 1 AND 0x80 = 0"
  unfolding multicast_bytes class_bytes scope_byte
  using low_half_and_top[of 1 "addr_byte x 1"] low_half_and_top[of 2 "addr_byte x 1"] low_half_and_top[of 4 "addr_byte x 1"]
    low_half_and_top[of 5 "addr_byte x 1"] low_half_and_top[of 8 "addr_byte x 1"] low_half_and_top[of 14 "addr_byte x 1"]
  by (simp_all del: ucast_id)

text \<open>
  C31: The tests on IPv6 addresses look at the prefixes of the address as it is sent, no two of the classes
  overlap, and the tests for the scopes of multicast addresses are those of the scope number as long as
  the reserved flag is clear.
\<close>

theorem ip6_address_classes:
  "length (filter id (ip6_classes x)) \<le> 1
   \<and> (ip6_addr_isglobal x \<longleftrightarrow> addr_byte x 0 AND 0xe0 = 0x20)
   \<and> (ip6_addr_islinklocal (ip_words x) \<longleftrightarrow> addr_byte x 0 = 0xfe \<and> addr_byte x 1 AND 0xc0 = 0x80)
   \<and> (ip6_addr_issitelocal x \<longleftrightarrow> addr_byte x 0 = 0xfe \<and> addr_byte x 1 AND 0xc0 = 0xc0)
   \<and> (ip6_addr_isuniquelocal x \<longleftrightarrow> addr_byte x 0 AND 0xfe = 0xfc)
   \<and> (ip6_addr_ismulticast x \<longleftrightarrow> addr_byte x 0 = 0xff)
   \<and> (ip6_addr_ismulticast_iflocal (ip_words x) \<longleftrightarrow>
       ip6_addr_ismulticast x \<and> ip6_addr_multicast_scope x = 1 \<and> addr_byte x 1 AND 0x80 = 0)
   \<and> (ip6_addr_ismulticast_linklocal (ip_words x) \<longleftrightarrow>
       ip6_addr_ismulticast x \<and> ip6_addr_multicast_scope x = 2 \<and> addr_byte x 1 AND 0x80 = 0)
   \<and> (ip6_addr_ismulticast_adminlocal x \<longleftrightarrow>
       ip6_addr_ismulticast x \<and> ip6_addr_multicast_scope x = 4 \<and> addr_byte x 1 AND 0x80 = 0)
   \<and> (ip6_addr_ismulticast_sitelocal x \<longleftrightarrow>
       ip6_addr_ismulticast x \<and> ip6_addr_multicast_scope x = 5 \<and> addr_byte x 1 AND 0x80 = 0)
   \<and> (ip6_addr_ismulticast_orglocal x \<longleftrightarrow>
       ip6_addr_ismulticast x \<and> ip6_addr_multicast_scope x = 8 \<and> addr_byte x 1 AND 0x80 = 0)
   \<and> (ip6_addr_ismulticast_global x \<longleftrightarrow>
       ip6_addr_ismulticast x \<and> ip6_addr_multicast_scope x = 14 \<and> addr_byte x 1 AND 0x80 = 0)"
  using classes_apart[of x] class_bytes[of x] scope_tests[of x] by blast

section \<open>Zones and well-known addresses\<close>

text \<open>What \<open>IP6_ADDR_ZONECHECK\<close> asks for.\<close>

definition properly_zoned :: "ip_addr_t \<Rightarrow> bool" where
  "properly_zoned x \<longleftrightarrow> ip6_addr_has_scope_type x IP6_UNKNOWN = ip6_addr_has_zone x"

lemma index_not_zero: "num < 255 \<Longrightarrow> netif_get_index num \<noteq> 0"
proof -
  assume "num < 255"
  then have "unat num < 255" by (simp add: word_less_nat_alt)
  then have "unat (netif_get_index num) = unat num + 1" by (simp add: netif_get_index_def unat_word_ariths)
  then show ?thesis by (metis add_is_0 one_neq_zero unat_0)
qed

lemma assign_zone:
  assumes "num < 255"
  shows "properly_zoned (ip6_addr_assign_zone x IP6_UNKNOWN num)"
    and "\<not> ip6_addr_lacks_zone (ip6_addr_assign_zone x IP6_UNKNOWN num) type"
    and "ip6_addr_has_scope_type x IP6_UNKNOWN \<Longrightarrow> ip6_addr_test_zone (ip6_addr_assign_zone x IP6_UNKNOWN num) num"
    and "ip_words (ip6_addr_assign_zone x type num) = ip_words x"
  using index_not_zero[OF assms]
  by (auto simp: properly_zoned_def ip6_addr_assign_zone_def ip6_addr_has_scope_type_def ip6_addr_has_zone_def
    ip6_addr_lacks_zone_def ip6_addr_test_zone_def ip6_addr_equals_zone_def)

lemma select_zone:
  assumes "\<And>s d num. ip6_route s d = Some num \<Longrightarrow> num < 255"
  shows "properly_zoned (ip6_addr_select_zone ip6_route dest src) \<or> ip6_route src dest = None
    \<and> ip6_addr_select_zone ip6_route dest src = dest"
  using assign_zone(1)[OF assms] by (auto simp: ip6_addr_select_zone_def split: option.split)

lemma well_known:
  "ip6_addr_isallnodes_linklocal (ip6_addr_set_allnodes_linklocal x)"
  "ip6_addr_isallrouters_linklocal (ip6_addr_set_allrouters_linklocal x)"
  "ip6_addr_isloopback (ip6_addr_set_loopback x)"
  "ip6_addr_isany (Some (ip6_addr_set_zero x))"
  by (simp_all add: ip6_addr_isallnodes_linklocal_def ip6_addr_set_allnodes_linklocal_def ip6_addr_isallrouters_linklocal_def
    ip6_addr_set_allrouters_linklocal_def ip6_addr_isloopback_def ip6_addr_set_loopback_def ip6_addr_isany_def
    ip6_addr_isany_val_def ip6_addr_set_zero_def)

lemma well_known_scoped:
  "ip6_addr_lacks_zone (ip6_addr_set_allnodes_linklocal x) IP6_UNKNOWN"
  "ip6_addr_lacks_zone (ip6_addr_set_allrouters_linklocal x) IP6_UNKNOWN"
  "ip6_addr_lacks_zone (ip6_addr_set_solicitednode x n) IP6_UNKNOWN"
  unfolding ip6_addr_lacks_zone_def ip6_addr_has_scope_type_def multicast_bytes addr_byte_def
    ip6_addr_set_allnodes_linklocal_def ip6_addr_set_allrouters_linklocal_def ip6_addr_set_solicitednode_def ip6_addr_has_zone_def
  by (simp_all add: byte_of_htonl byte_eval)

text \<open>
  The solicited-node address made for an address is one, is a link-local multicast address that still
  lacks its zone and is properly zoned once the interface's is assigned, and it is the one of another
  address exactly when the last three bytes of the two agree.
\<close>

theorem solicited_node_address:
  assumes "num < 255"
  shows "ip6_addr_issolicitednode (ip6_addr_set_solicitednode x (ip_words a ! 3))
   \<and> ip6_addr_ismulticast_linklocal (ip_words (ip6_addr_set_solicitednode x (ip_words a ! 3)))
   \<and> ip6_addr_lacks_zone (ip6_addr_set_solicitednode x (ip_words a ! 3)) IP6_UNKNOWN
   \<and> ip6_addr_test_zone (ip6_addr_assign_zone (ip6_addr_set_solicitednode x (ip_words a ! 3)) IP6_UNKNOWN num) num
   \<and> properly_zoned (ip6_addr_assign_zone (ip6_addr_set_solicitednode x (ip_words a ! 3)) IP6_UNKNOWN num)
   \<and> (ip6_addr_cmp_solicitednode (ip6_addr_set_solicitednode x (ip_words a ! 3)) b \<longleftrightarrow>
        (\<forall>k \<in> {13, 14, 15}. addr_byte a k = addr_byte b k))"
proof -
  let ?s = "ip6_addr_set_solicitednode x (ip_words a ! 3)"
  have w: "ip_words ?s = [PP_HTONL 0xff020000, 0, PP_HTONL 0x00000001, PP_HTONL 0xff000000 OR ip_words a ! 3]"
    by (simp add: ip6_addr_set_solicitednode_def)
  have k: "PP_HTONL 0xff000000 = 0xff" by (simp add: PP_HTONL_def)
  have "ip6_addr_issolicitednode ?s" unfolding ip6_addr_issolicitednode_def w
  proof -
    have "(v OR z) AND v = v" for v z :: u32 by (rule bit_word_eqI) (auto simp: bit_simps)
    then show "[PP_HTONL 0xff020000, 0, PP_HTONL 0x00000001, PP_HTONL 0xff000000 OR ip_words a ! 3] ! 0 = PP_HTONL 0xff020000
      \<and> [PP_HTONL 0xff020000, 0, PP_HTONL 0x00000001, PP_HTONL 0xff000000 OR ip_words a ! 3] ! 2 = PP_HTONL 0x00000001
      \<and> [PP_HTONL 0xff020000, 0, PP_HTONL 0x00000001, PP_HTONL 0xff000000 OR ip_words a ! 3] ! 3 AND PP_HTONL 0xff000000
        = PP_HTONL 0xff000000" by simp
  qed
  moreover have "ip6_addr_ismulticast_linklocal (ip_words ?s)"
    by (subst multicast_bytes) (simp add: addr_byte_def w byte_of_htonl byte_eval)
  moreover have "ip6_addr_lacks_zone ?s IP6_UNKNOWN" by (rule well_known_scoped(3))
  moreover from this have "ip6_addr_test_zone (ip6_addr_assign_zone ?s IP6_UNKNOWN num) num"
    using assign_zone(3)[OF assms] by (simp add: ip6_addr_lacks_zone_def)
  moreover have "ip6_addr_cmp_solicitednode ?s b \<longleftrightarrow> (\<forall>k \<in> {13, 14, 15}. addr_byte a k = addr_byte b k)"
    unfolding ip6_addr_cmp_solicitednode_def w
    by (simp add: words_eq_bytes byte_of_or byte_of_htonl byte_eval addr_byte_def)
  ultimately show ?thesis using assign_zone(1)[OF assms] by blast
qed

theorem solicited_node_address_witness:
  "(1 :: u8) < 255 \<and> (ip6_addr_cmp_solicitednode
      (ip6_addr_set_solicitednode ip_addr_any (ip_words \<lparr>ip_words = [0xfe, 0, 0, 0x01020304], ip_zone = 0, ip_type = 6\<rparr> ! 3))
      \<lparr>ip_words = [0x20, 0, 0, 0x010203ff], ip_zone = 0, ip_type = 6\<rparr> \<longleftrightarrow>
    (\<forall>k \<in> {13, 14, 15}. addr_byte \<lparr>ip_words = [0xfe, 0, 0, 0x01020304], ip_zone = 0, ip_type = 6\<rparr> k
       = addr_byte \<lparr>ip_words = [0x20, 0, 0, 0x010203ff], ip_zone = 0, ip_type = 6\<rparr> k))"
  using solicited_node_address[of 1 ip_addr_any "\<lparr>ip_words = [0xfe, 0, 0, 0x01020304], ip_zone = 0, ip_type = 6\<rparr>"
      "\<lparr>ip_words = [0x20, 0, 0, 0x010203ff], ip_zone = 0, ip_type = 6\<rparr>"] by simp

text \<open>The test alone does not look at the second word, which the comparison requires to be zero.\<close>

lemma solicited_test_skips_word:
  "ip6_addr_issolicitednode \<lparr>ip_words = [PP_HTONL 0xff020000, w, PP_HTONL 1, PP_HTONL 0xff000000 OR v], ip_zone = 0, ip_type = 6\<rparr>"
proof -
  have "(k OR z) AND k = k" for k z :: u32 by (rule bit_word_eqI) (auto simp: bit_simps)
  then show ?thesis by (simp add: ip6_addr_issolicitednode_def)
qed

section \<open>Blocks, copies and comparisons\<close>

lemma addr_byte_at: "j < 4 \<Longrightarrow> addr_byte x (4 * i + j) = byte_of j (ip_words x ! i)"
proof -
  assume "j < 4"
  then have "(4 * i + j) mod 4 = j" "(4 * i + j) div 4 = i" by simp_all
  then show ?thesis by (simp only: addr_byte_def)
qed

lemma addr_bytes:
  "addr_byte x (4 * i) = byte_of 0 (ip_words x ! i)" "addr_byte x (4 * i + 1) = byte_of 1 (ip_words x ! i)"
  "addr_byte x (4 * i + 2) = byte_of 2 (ip_words x ! i)" "addr_byte x (4 * i + 3) = byte_of 3 (ip_words x ! i)"
  using addr_byte_at[of 0 x i] addr_byte_at[of 1 x i] addr_byte_at[of 2 x i] addr_byte_at[of 3 x i] by simp_all

lemma make_bytes:
  "byte_of 3 (LWIP_MAKEU32 a b c d) = a" "byte_of 2 (LWIP_MAKEU32 a b c d) = b"
  "byte_of 1 (LWIP_MAKEU32 a b c d) = c" "byte_of (Suc 0) (LWIP_MAKEU32 a b c d) = c" "byte_of 0 (LWIP_MAKEU32 a b c d) = d"
  by (rule byte_eqI; auto simp: byte_of_bit LWIP_MAKEU32_def bit_simps dest: bit_imp_le_length)+

lemma part_bytes:
  assumes "i < length (ip_words x)"
  shows "map (addr_byte (IP6_ADDR_PART x i a b c d)) [4 * i, 4 * i + 1, 4 * i + 2, 4 * i + 3] = [a, b, c, d]"
  using assms unfolding list.map addr_bytes by (simp add: IP6_ADDR_PART_def byte_of_htonl make_bytes)

lemma block_bytes:
  "block_high x i = (push_bit 8 (ucast (addr_byte x (4 * i))) OR ucast (addr_byte x (4 * i + 1)))"
  "block_low x i = (push_bit 8 (ucast (addr_byte x (4 * i + 2))) OR ucast (addr_byte x (4 * i + 3)))"
proof -
  have b: "bit (byte_of j (u32_high_to_neutral w)) n = bit (byte_of (3 - j) w) n" if "j < 4" for j n w
    by (simp add: byte_of_high_to_neutral that)
  have s: "bit (u32_high_to_neutral w) n = bit w (n + 24)" "bit (u32_high_to_neutral w) (8 + n) = bit w (16 + n)"
    "bit (u32_high_to_neutral w) (16 + n) = bit w (8 + n)" "bit (u32_high_to_neutral w) (24 + n) = bit w n" if "n < 8" for n w
    using b[of 0 w n] b[of 1 w n] b[of 2 w n] b[of 3 w n] that by (simp_all add: byte_of_bit add.commute)
  have m: "(0xffff :: u32) = mask 16" by (simp add: mask_eq_exp_minus_1)
  show "block_high x i = (push_bit 8 (ucast (addr_byte x (4 * i))) OR ucast (addr_byte x (4 * i + 1)))"
  proof (rule bit_word_eqI)
    fix n assume "n < LENGTH(16)"
    then show "bit (block_high x i) n = bit (push_bit 8 (ucast (addr_byte x (4 * i))) OR ucast (addr_byte x (4 * i + 1)) :: u16) n"
      using s(3)[of n "ip_words x ! i"] s(4)[of "n - 8" "ip_words x ! i"]
      unfolding addr_bytes by (cases "n < 8") (auto simp: block_high_def m bit_simps byte_of_bit simp del: add_Suc_right One_nat_def)
  qed
  show "block_low x i = (push_bit 8 (ucast (addr_byte x (4 * i + 2))) OR ucast (addr_byte x (4 * i + 3)))"
  proof (rule bit_word_eqI)
    fix n assume "n < LENGTH(16)"
    then show "bit (block_low x i) n = bit (push_bit 8 (ucast (addr_byte x (4 * i + 2))) OR ucast (addr_byte x (4 * i + 3)) :: u16) n"
      using s(1)[of n "ip_words x ! i"] s(2)[of "n - 8" "ip_words x ! i"]
      unfolding addr_bytes by (cases "n < 8") (auto simp: block_low_def m bit_simps byte_of_bit add.commute simp del: add_Suc_right One_nat_def)
  qed
qed

text \<open>Comparing the network and then the host part is comparing the addresses.\<close>

lemma cmp_parts: "ip6_addr_cmp x y \<longleftrightarrow> ip6_addr_netcmp x y \<and> ip6_addr_nethostcmp x y"
  by (auto simp: ip6_addr_cmp_def ip6_addr_cmp_zoneless_def ip6_addr_netcmp_def ip6_addr_netcmp_zoneless_def
    ip6_addr_nethostcmp_def)

lemma cmp_words:
  assumes "length (ip_words x) = 4" and "length (ip_words y) = 4"
  shows "ip6_addr_cmp x y \<longleftrightarrow> ip_words x = ip_words y \<and> ip_zone x = ip_zone y"
proof -
  have "ip_words x = ip_words y \<longleftrightarrow> (\<forall>i \<in> {0, 1, 2, 3}. ip_words x ! i = ip_words y ! i)"
    using assms by (auto simp: list_eq_iff_nth_eq less_Suc_eq numeral_eq_Suc)
  then show ?thesis by (auto simp: ip6_addr_cmp_def ip6_addr_cmp_zoneless_def ip6_addr_cmp_zone_def)
qed

lemma packed_round_trip:
  "ip6_addr_cmp_packed x (ip6_addr_copy_to_packed x) (ip_zone x)"
  "ip6_addr_cmp (ip6_addr_copy dest x) x" "ip6_addr_cmp (ip6_addr_set dest (Some x)) x"
  "ip6_addr_cmp_zoneless (ip6_addr_copy_from_packed dest (ip6_addr_copy_to_packed x)) x"
  by (simp_all add: ip6_addr_cmp_packed_def ip6_addr_copy_to_packed_def ip6_addr_equals_zone_def ip6_addr_copy_def
    ip6_addr_set_def ip6_addr_cmp_def ip6_addr_cmp_zoneless_def ip6_addr_cmp_zone_def ip6_addr_copy_from_packed_def)

text \<open>The states of an address: tentative, valid and duplicated ones exclude each other, valid ones are preferred or not.\<close>

lemma address_states:
  "ip6_addr_isvalid IP6_ADDR_PREFERRED \<and> ip6_addr_isvalid IP6_ADDR_DEPRECATED
   \<and> \<not> ip6_addr_isvalid IP6_ADDR_DUPLICATED \<and> \<not> ip6_addr_istentative IP6_ADDR_DUPLICATED
   \<and> (n < 8 \<longrightarrow> ip6_addr_istentative (IP6_ADDR_TENTATIVE + n) \<and> \<not> ip6_addr_isvalid (IP6_ADDR_TENTATIVE + n))"
proof -
  have "n < 8 \<Longrightarrow> n = 0 \<or> n = 1 \<or> n = 2 \<or> n = 3 \<or> n = 4 \<or> n = 5 \<or> n = 6 \<or> n = 7"
    by (simp add: word_less_nat_alt word_unat_eq_iff) arith
  then show ?thesis
    by (auto simp: ip6_addr_isvalid_def ip6_addr_istentative_def IP6_ADDR_PREFERRED_def IP6_ADDR_DEPRECATED_def
      IP6_ADDR_DUPLICATED_def IP6_ADDR_TENTATIVE_def IP6_ADDR_VALID_def)
qed

end
