(* ===== verification/Lwip_Headers.thy ===== *)
theory Lwip_Headers
  imports Lwip_Ip6
begin

unbundle bit_operations_syntax

text \<open>
  The headers of IP packets and the classes of IPv4 addresses: \<^verbatim>\<open>src/ffi/lwip/prot/ip4.h\<close>,
  \<^verbatim>\<open>prot/ip6.h\<close> and \<^verbatim>\<open>ip_addr4.h\<close>. The multi-byte fields of a header are in network byte order, and a
  header is a record of its fields. The type \<open>u32_t\<close> of the setters is read as \<open>u32\<close>.
\<close>

section \<open>The IPv4 header\<close>

record ip_hdr =
  ih_v_hl :: u8
  ih_tos :: u8
  ih_len :: u16
  ih_id :: u16
  ih_offset :: u16
  ih_ttl :: u8
  ih_proto :: u8
  ih_chksum :: u16
  ih_src :: u32
  ih_dest :: u32

definition IP_RF :: u16 where "IP_RF = 0x8000"
definition IP_DF :: u16 where "IP_DF = 0x4000"
definition IP_MF :: u16 where "IP_MF = 0x2000"
definition IP_OFFMASK :: u16 where "IP_OFFMASK = 0x1fff"

definition IPH_V :: "ip_hdr \<Rightarrow> u8" where "IPH_V h = drop_bit 4 (ih_v_hl h)"
definition IPH_HL :: "ip_hdr \<Rightarrow> u8" where "IPH_HL h = ih_v_hl h AND 0x0f"
definition IPH_HL_BYTES :: "ip_hdr \<Rightarrow> u8" where "IPH_HL_BYTES h = IPH_HL h * 4"
definition IPH_OFFSET :: "ip_hdr \<Rightarrow> u16" where "IPH_OFFSET h = ih_offset h"

definition IPH_OFFSET_BYTES :: "ip_hdr \<Rightarrow> u16" where
  "IPH_OFFSET_BYTES h = (u16_neutral_to_high (IPH_OFFSET h) AND IP_OFFMASK) * 8"

definition IPH_VHL_SET :: "ip_hdr \<Rightarrow> u8 \<Rightarrow> u8 \<Rightarrow> ip_hdr" where
  "IPH_VHL_SET h v hl = h\<lparr>ih_v_hl := push_bit 4 v OR hl\<rparr>"

definition IPH_OFFSET_SET :: "ip_hdr \<Rightarrow> u16 \<Rightarrow> ip_hdr" where "IPH_OFFSET_SET h off = h\<lparr>ih_offset := off\<rparr>"

section \<open>The IPv6 header\<close>

record ip6_hdr =
  i6_v_tc_fl :: u32
  i6_plen :: u16
  i6_nexth :: u8
  i6_hoplim :: u8
  i6_src :: "u32 list"
  i6_dest :: "u32 list"

definition IP6H_V :: "ip6_hdr \<Rightarrow> u32" where "IP6H_V h = drop_bit 28 (u32_neutral_to_high (i6_v_tc_fl h)) AND 0x0f"
definition IP6H_TC :: "ip6_hdr \<Rightarrow> u32" where "IP6H_TC h = drop_bit 20 (u32_neutral_to_high (i6_v_tc_fl h)) AND 0xff"
definition IP6H_FL :: "ip6_hdr \<Rightarrow> u32" where "IP6H_FL h = u32_neutral_to_high (i6_v_tc_fl h) AND 0x000fffff"
definition IP6H_PLEN :: "ip6_hdr \<Rightarrow> u16" where "IP6H_PLEN h = u16_neutral_to_high (i6_plen h)"

definition IP6H_VTCFL_SET :: "ip6_hdr \<Rightarrow> u32 \<Rightarrow> u32 \<Rightarrow> u32 \<Rightarrow> ip6_hdr" where
  "IP6H_VTCFL_SET h v tc fl =
     h\<lparr>i6_v_tc_fl := u32_high_to_neutral (push_bit 28 v OR push_bit 20 tc OR fl)\<rparr>"

definition IP6H_PLEN_SET :: "ip6_hdr \<Rightarrow> u16 \<Rightarrow> ip6_hdr" where
  "IP6H_PLEN_SET h plen = h\<lparr>i6_plen := u16_high_to_neutral plen\<rparr>"

definition IP6_OPT_TYPE_ACTION :: "u8 \<Rightarrow> u8" where "IP6_OPT_TYPE_ACTION opt_type = drop_bit 6 opt_type AND 0x3"
definition IP6_OPT_TYPE_CHANGE :: "u8 \<Rightarrow> u8" where "IP6_OPT_TYPE_CHANGE opt_type = drop_bit 5 opt_type AND 0x1"

record ip6_frag_hdr =
  fh_nexth :: u8
  fh_reserved :: u8
  fh_fragment_offset :: u16
  fh_identification :: u32

definition IP6_FRAG_OFFSET_MASK :: u16 where "IP6_FRAG_OFFSET_MASK = 0xfff8"
definition IP6_FRAG_MBIT :: "ip6_frag_hdr \<Rightarrow> u16" where
  "IP6_FRAG_MBIT h = u16_neutral_to_high (fh_fragment_offset h) AND 0x1"
definition IP6_FRAG_ID :: "ip6_frag_hdr \<Rightarrow> u32" where "IP6_FRAG_ID h = u32_neutral_to_high (fh_identification h)"

section \<open>IPv4 addresses\<close>

definition IP_CLASSA :: "u32 \<Rightarrow> bool" where "IP_CLASSA a \<longleftrightarrow> a AND 0x80000000 = 0"
definition IP_CLASSB :: "u32 \<Rightarrow> bool" where "IP_CLASSB a \<longleftrightarrow> a AND 0xc0000000 = 0x80000000"
definition IP_CLASSC :: "u32 \<Rightarrow> bool" where "IP_CLASSC a \<longleftrightarrow> a AND 0xe0000000 = 0xc0000000"
definition IP_CLASSD :: "u32 \<Rightarrow> bool" where "IP_CLASSD a \<longleftrightarrow> a AND 0xf0000000 = 0xe0000000"
definition IP_MULTICAST :: "u32 \<Rightarrow> bool" where "IP_MULTICAST a \<longleftrightarrow> IP_CLASSD a"
definition IP_EXPERIMENTAL :: "u32 \<Rightarrow> bool" where "IP_EXPERIMENTAL a \<longleftrightarrow> a AND 0xf0000000 = 0xf0000000"
definition IP_CLASSA_NET :: u32 where "IP_CLASSA_NET = 0xff000000"
definition IP_CLASSB_NET :: u32 where "IP_CLASSB_NET = 0xffff0000"
definition IP_CLASSC_NET :: u32 where "IP_CLASSC_NET = 0xffffff00"
definition IP_CLASSA_HOST :: u32 where "IP_CLASSA_HOST = 0xffffffff AND NOT IP_CLASSA_NET"
definition IP_CLASSB_HOST :: u32 where "IP_CLASSB_HOST = 0xffffffff AND NOT IP_CLASSB_NET"
definition IP_CLASSC_HOST :: u32 where "IP_CLASSC_HOST = 0xffffffff AND NOT IP_CLASSC_NET"
definition IP_LOOPBACKNET :: u32 where "IP_LOOPBACKNET = 127"
definition IPADDR_LOOPBACK :: u32 where "IPADDR_LOOPBACK = 0x7f000001"

text \<open>The structure \<open>ip4_addr\<close> is its only word, in network byte order.\<close>

definition IP4_ADDR :: "u8 \<Rightarrow> u8 \<Rightarrow> u8 \<Rightarrow> u8 \<Rightarrow> u32" where "IP4_ADDR a b c d = PP_HTONL (LWIP_MAKEU32 a b c d)"
definition ip4_addr_set_loopback :: u32 where "ip4_addr_set_loopback = PP_HTONL IPADDR_LOOPBACK"
definition ip4_addr_isloopback :: "u32 \<Rightarrow> bool" where
  "ip4_addr_isloopback addr \<longleftrightarrow> addr AND PP_HTONL IP_CLASSA_NET = PP_HTONL (push_bit 24 IP_LOOPBACKNET)"
definition ip4_addr_get_network :: "u32 \<Rightarrow> u32 \<Rightarrow> u32" where "ip4_addr_get_network host netmask = host AND netmask"
definition ip4_addr_netcmp :: "u32 \<Rightarrow> u32 \<Rightarrow> u32 \<Rightarrow> bool" where
  "ip4_addr_netcmp addr1 addr2 netmask \<longleftrightarrow> addr1 AND netmask = addr2 AND netmask"
definition ip4_addr_ismulticast :: "u32 \<Rightarrow> bool" where
  "ip4_addr_ismulticast addr \<longleftrightarrow> addr AND PP_HTONL 0xf0000000 = PP_HTONL 0xe0000000"
definition ip4_addr_islinklocal :: "u32 \<Rightarrow> bool" where
  "ip4_addr_islinklocal addr \<longleftrightarrow> addr AND PP_HTONL 0xffff0000 = PP_HTONL 0xa9fe0000"
definition ip4_addr1 :: "u32 \<Rightarrow> u8" where "ip4_addr1 addr = byte_of 0 addr"
definition ip4_addr2 :: "u32 \<Rightarrow> u8" where "ip4_addr2 addr = byte_of 1 addr"
definition ip4_addr3 :: "u32 \<Rightarrow> u8" where "ip4_addr3 addr = byte_of 2 addr"
definition ip4_addr4 :: "u32 \<Rightarrow> u8" where "ip4_addr4 addr = byte_of 3 addr"

section \<open>Round trips of the header fields\<close>

lemma vhl_round_trip:
  assumes "v < 16" and "hl < 16"
  shows "IPH_V (IPH_VHL_SET h v hl) = v" and "IPH_HL (IPH_VHL_SET h v hl) = hl"
    and "unat (IPH_HL_BYTES (IPH_VHL_SET h v hl)) = 4 * unat hl"
proof -
  have s: "bit v n \<Longrightarrow> n < 4" "bit hl n \<Longrightarrow> n < 4" for n using word_small_bits[of v 4] word_small_bits[of hl 4] assms by auto
  have m: "(0x0f :: u8) = mask 4" by (simp add: mask_eq_exp_minus_1)
  show "IPH_V (IPH_VHL_SET h v hl) = v"
    by (rule byte_eqI) (auto simp: IPH_V_def IPH_VHL_SET_def bit_simps dest: s)
  show hl: "IPH_HL (IPH_VHL_SET h v hl) = hl" unfolding IPH_HL_def m
    by (rule byte_eqI) (auto simp: IPH_VHL_SET_def bit_simps dest: s)
  show "unat (IPH_HL_BYTES (IPH_VHL_SET h v hl)) = 4 * unat hl"
    unfolding IPH_HL_BYTES_def hl using assms(2) by (simp add: word_less_nat_alt unat_word_ariths)
qed

text \<open>The flags beside the offset do not count, and the offset of a fragment stays below 64 KB.\<close>

lemma offset_bytes:
  "IPH_OFFSET_BYTES (IPH_OFFSET_SET h (u16_high_to_neutral (flags AND NOT IP_OFFMASK OR off AND IP_OFFMASK))) = (off AND IP_OFFMASK) * 8"
  "8 dvd unat (IPH_OFFSET_BYTES h)" "unat (IPH_OFFSET_BYTES h) \<le> 65528"
proof -
  have "(flags AND NOT IP_OFFMASK OR off AND IP_OFFMASK) AND IP_OFFMASK = off AND IP_OFFMASK"
    by (rule bit_word_eqI) (auto simp: bit_simps)
  then show "IPH_OFFSET_BYTES (IPH_OFFSET_SET h (u16_high_to_neutral (flags AND NOT IP_OFFMASK OR off AND IP_OFFMASK)))
      = (off AND IP_OFFMASK) * 8"
    by (simp add: IPH_OFFSET_BYTES_def IPH_OFFSET_SET_def IPH_OFFSET_def swap16_twice)
  have b: "unat (x AND IP_OFFMASK) < 2 ^ 13" for x :: u16
  proof -
    have "x AND IP_OFFMASK \<le> 0x1fff" unfolding IP_OFFMASK_def by (rule word_and_le1)
    then show ?thesis by (simp add: word_le_nat_alt)
  qed
  have e: "unat (IPH_OFFSET_BYTES h) = unat (u16_neutral_to_high (IPH_OFFSET h) AND IP_OFFMASK) * 8"
    using b[of "u16_neutral_to_high (IPH_OFFSET h)"] by (simp add: IPH_OFFSET_BYTES_def unat_word_ariths)
  show "8 dvd unat (IPH_OFFSET_BYTES h)" "unat (IPH_OFFSET_BYTES h) \<le> 65528"
    using b[of "u16_neutral_to_high (IPH_OFFSET h)"] unfolding e by simp_all
qed

lemma vtcfl_round_trip:
  assumes "v < 16" and "tc < 256" and "fl < 2 ^ 20"
  shows "IP6H_V (IP6H_VTCFL_SET h v tc fl) = v" and "IP6H_TC (IP6H_VTCFL_SET h v tc fl) = tc"
    and "IP6H_FL (IP6H_VTCFL_SET h v tc fl) = fl"
proof -
  have s: "bit v n \<Longrightarrow> n < 4" "bit tc n \<Longrightarrow> n < 8" "bit fl n \<Longrightarrow> n < 20" for n
    using word_small_bits[of v 4] word_small_bits[of tc 8] word_small_bits[of fl 20] assms by auto
  have m: "(0x0f :: u32) = mask 4" "(0xff :: u32) = mask 8" "(0x000fffff :: u32) = mask 20"
    by (simp_all add: mask_eq_exp_minus_1)
  have sw: "u32_neutral_to_high (u32_high_to_neutral y) = y" for y
    by (simp add: words_eq_bytes byte_of_neutral_to_high byte_of_high_to_neutral)
  show "IP6H_V (IP6H_VTCFL_SET h v tc fl) = v" unfolding IP6H_V_def m
    by (rule bit_word_eqI) (auto simp: IP6H_VTCFL_SET_def sw bit_simps dest: s)
  show "IP6H_TC (IP6H_VTCFL_SET h v tc fl) = tc" unfolding IP6H_TC_def m
    by (rule bit_word_eqI) (auto simp: IP6H_VTCFL_SET_def sw bit_simps dest: s)
  show "IP6H_FL (IP6H_VTCFL_SET h v tc fl) = fl" unfolding IP6H_FL_def m
    by (rule bit_word_eqI) (auto simp: IP6H_VTCFL_SET_def sw bit_simps dest: s)
qed

text \<open>
  The fields that share a word in the IP headers come back as they were set when they fit their widths:
  version and header length of IPv4, version, traffic class and flow label of IPv6; the offset of a
  fragment does not depend on the flags beside it, and is a multiple of 8 below 64 KB.
\<close>

theorem ip_headers_round_trip:
  assumes "v < 16" and "hl < 16" and "v' < 16" and "tc < 256" and "fl < 2 ^ 20"
  shows "IPH_V (IPH_VHL_SET h v hl) = v \<and> IPH_HL (IPH_VHL_SET h v hl) = hl
    \<and> unat (IPH_HL_BYTES (IPH_VHL_SET h v hl)) = 4 * unat hl
    \<and> IPH_OFFSET_BYTES (IPH_OFFSET_SET h (u16_high_to_neutral (flags AND NOT IP_OFFMASK OR off AND IP_OFFMASK)))
        = (off AND IP_OFFMASK) * 8
    \<and> 8 dvd unat (IPH_OFFSET_BYTES h) \<and> unat (IPH_OFFSET_BYTES h) \<le> 65528
    \<and> IP6H_V (IP6H_VTCFL_SET h6 v' tc fl) = v' \<and> IP6H_TC (IP6H_VTCFL_SET h6 v' tc fl) = tc
    \<and> IP6H_FL (IP6H_VTCFL_SET h6 v' tc fl) = fl \<and> IP6H_PLEN (IP6H_PLEN_SET h6 plen) = plen"
proof -
  have "IP6H_PLEN (IP6H_PLEN_SET h6 plen) = plen"
    by (simp add: IP6H_PLEN_def IP6H_PLEN_SET_def swap16_twice)
  then show ?thesis
    using vhl_round_trip[OF assms(1,2)] offset_bytes vtcfl_round_trip[OF assms(3,4,5)] by blast
qed

theorem ip_headers_round_trip_witness:
  "(4 :: u8) < 16 \<and> (5 :: u8) < 16 \<and> (6 :: u32) < 16 \<and> (0xb8 :: u32) < 256 \<and> (0x12345 :: u32) < 2 ^ 20
   \<and> IP6H_TC (IP6H_VTCFL_SET \<lparr>i6_v_tc_fl = 0, i6_plen = 0, i6_nexth = 58, i6_hoplim = 255, i6_src = [], i6_dest = []\<rparr>
        6 0xb8 0x12345) = 0xb8"
  using ip_headers_round_trip[of 4 5 6 "0xb8" "0x12345"
      "\<lparr>ih_v_hl = 0, ih_tos = 0, ih_len = 0, ih_id = 0, ih_offset = 0, ih_ttl = 64, ih_proto = 17, ih_chksum = 0,
        ih_src = 0, ih_dest = 0\<rparr>" 0 0
      "\<lparr>i6_v_tc_fl = 0, i6_plen = 0, i6_nexth = 58, i6_hoplim = 255, i6_src = [], i6_dest = []\<rparr>"] by simp

section \<open>Classes of IPv4 addresses\<close>

lemma top_bits:
  "a AND 0x80000000 = (if bit a 31 then 0x80000000 else 0)" "a AND 0x40000000 = (if bit a 30 then 0x40000000 else 0)"
  "a AND 0x20000000 = (if bit a 29 then 0x20000000 else 0)" "a AND 0x10000000 = (if bit a 28 then 0x10000000 else 0)"
  for a :: u32
proof -
  have s: "a AND 2 ^ n = (if bit a n then 2 ^ n else 0)" for n
    by (rule bit_word_eqI) (auto simp: bit_simps)
  show "a AND 0x80000000 = (if bit a 31 then 0x80000000 else 0)" using s[of 31] by simp
  show "a AND 0x40000000 = (if bit a 30 then 0x40000000 else 0)" using s[of 30] by simp
  show "a AND 0x20000000 = (if bit a 29 then 0x20000000 else 0)" using s[of 29] by simp
  show "a AND 0x10000000 = (if bit a 28 then 0x10000000 else 0)" using s[of 28] by simp
qed

lemma top_masks:
  "a AND 0xc0000000 = (a AND 0x80000000) OR (a AND 0x40000000)"
  "a AND 0xe0000000 = (a AND 0x80000000) OR (a AND 0x40000000) OR (a AND 0x20000000)"
  "a AND 0xf0000000 = (a AND 0x80000000) OR (a AND 0x40000000) OR (a AND 0x20000000) OR (a AND 0x10000000)"
  for a :: u32
  by (simp_all flip: bit.conj_disj_distrib)

lemma class_bits:
  "IP_CLASSA a \<longleftrightarrow> \<not> bit a 31" "IP_CLASSB a \<longleftrightarrow> bit a 31 \<and> \<not> bit a 30"
  "IP_CLASSC a \<longleftrightarrow> bit a 31 \<and> bit a 30 \<and> \<not> bit a 29"
  "IP_CLASSD a \<longleftrightarrow> bit a 31 \<and> bit a 30 \<and> bit a 29 \<and> \<not> bit a 28"
  "IP_EXPERIMENTAL a \<longleftrightarrow> bit a 31 \<and> bit a 30 \<and> bit a 29 \<and> bit a 28"
  by (simp_all add: IP_CLASSA_def IP_CLASSB_def IP_CLASSC_def IP_CLASSD_def IP_EXPERIMENTAL_def top_masks top_bits)

text \<open>Every address is in exactly one class.\<close>

lemma one_class: "length (filter id [IP_CLASSA a, IP_CLASSB a, IP_CLASSC a, IP_CLASSD a, IP_EXPERIMENTAL a]) = 1"
  by (simp add: class_bits)

text \<open>The tests on addresses in network byte order agree with those on integers, and look at the first bytes.\<close>

lemma multicast_agree: "ip4_addr_ismulticast (PP_HTONL a) \<longleftrightarrow> IP_MULTICAST a"
proof -
  have a: "PP_HTONL a AND PP_HTONL m = PP_HTONL (a AND m)" for m
    by (simp add: words_eq_bytes byte_of_and byte_of_htonl)
  have "PP_HTONL v = PP_HTONL w \<longleftrightarrow> v = w" for v w by (auto simp: words_eq_bytes byte_of_htonl)
  then show ?thesis by (simp add: ip4_addr_ismulticast_def IP_MULTICAST_def IP_CLASSD_def a)
qed

lemma address_tests:
  "ip4_addr_isloopback addr \<longleftrightarrow> ip4_addr1 addr = 127" "ip4_addr_isloopback ip4_addr_set_loopback"
  "ip4_addr_islinklocal addr \<longleftrightarrow> ip4_addr1 addr = 169 \<and> ip4_addr2 addr = 254"
proof -
  show l: "ip4_addr_isloopback addr \<longleftrightarrow> ip4_addr1 addr = 127" for addr
    unfolding ip4_addr_isloopback_def prefix_bytes ip4_addr1_def IP_CLASSA_NET_def IP_LOOPBACKNET_def
    by (simp add: byte_eval push_bit_eq_mult)
  show "ip4_addr_isloopback ip4_addr_set_loopback"
    unfolding l by (simp add: ip4_addr_set_loopback_def ip4_addr1_def IPADDR_LOOPBACK_def byte_of_htonl byte_eval)
  show "ip4_addr_islinklocal addr \<longleftrightarrow> ip4_addr1 addr = 169 \<and> ip4_addr2 addr = 254"
    unfolding ip4_addr_islinklocal_def prefix_bytes ip4_addr1_def ip4_addr2_def
    by (simp add: byte_eval)
qed

lemma parts: "ip4_addr1 (IP4_ADDR a b c d) = a" "ip4_addr2 (IP4_ADDR a b c d) = b"
  "ip4_addr3 (IP4_ADDR a b c d) = c" "ip4_addr4 (IP4_ADDR a b c d) = d"
  by (simp_all add: ip4_addr1_def ip4_addr2_def ip4_addr3_def ip4_addr4_def IP4_ADDR_def byte_of_htonl make_bytes)

text \<open>Two hosts are in one network when they have one network address.\<close>

lemma network_agrees: "ip4_addr_netcmp x y m \<longleftrightarrow> ip4_addr_get_network x m = ip4_addr_get_network y m"
  "ip4_addr_netcmp (ip4_addr_get_network x m) x m"
  by (simp_all add: ip4_addr_netcmp_def ip4_addr_get_network_def and.assoc)

section \<open>Addresses of either version\<close>

text \<open>
  Addresses of either version: the macros of \<^verbatim>\<open>src/ffi/lwip/ip_addr.h\<close> that choose between IPv4 and IPv6 by
  the type of an address. An IPv4 address is in normal form when the rest of the union is zero;
  the macros that set an address keep this form, and under it comparing addresses is comparing memory.
  A pointer that may be null is an option; \<open>None\<close> as a result is a null pointer followed.
\<close>

subsection \<open>Types\<close>

definition IP_IS_V4_VAL :: "ip_addr_t \<Rightarrow> bool" where "IP_IS_V4_VAL x \<longleftrightarrow> ip_type x = IPADDR_TYPE_V4"
definition IP_IS_V6_VAL :: "ip_addr_t \<Rightarrow> bool" where "IP_IS_V6_VAL x \<longleftrightarrow> ip_type x = IPADDR_TYPE_V6"
definition IP_IS_ANY_TYPE_VAL :: "ip_addr_t \<Rightarrow> bool" where "IP_IS_ANY_TYPE_VAL x \<longleftrightarrow> ip_type x = IPADDR_TYPE_ANY"

definition IP_IS_V4 :: "ip_addr_t option \<Rightarrow> bool" where
  "IP_IS_V4 x = (case x of None \<Rightarrow> True | Some a \<Rightarrow> IP_IS_V4_VAL a)"

definition IP_IS_V6 :: "ip_addr_t option \<Rightarrow> bool" where
  "IP_IS_V6 x = (case x of None \<Rightarrow> False | Some a \<Rightarrow> IP_IS_V6_VAL a)"

definition IP_ADDR_RAW_SIZE :: "ip_addr_t \<Rightarrow> nat" where
  "IP_ADDR_RAW_SIZE x = (if ip_type x = IPADDR_TYPE_V4 then 4 else 20)"

definition IP_ADDR_PCB_VERSION_MATCH :: "ip_addr_t \<Rightarrow> ip_addr_t \<Rightarrow> bool" where
  "IP_ADDR_PCB_VERSION_MATCH local_ip x \<longleftrightarrow> IP_IS_ANY_TYPE_VAL local_ip \<or> ip_type local_ip = ip_type x"

subsection \<open>Setting addresses\<close>

definition set_word0 :: "u32 \<Rightarrow> ip_addr_t \<Rightarrow> ip_addr_t" where
  "set_word0 v x = x\<lparr>ip_words := (ip_words x)[0 := v]\<rparr>"

definition IP_ADDR4 :: "ip_addr_t \<Rightarrow> u8 \<Rightarrow> u8 \<Rightarrow> u8 \<Rightarrow> u8 \<Rightarrow> ip_addr_t" where
  "IP_ADDR4 x a b c d = (set_word0 (IP4_ADDR a b c d) x)\<lparr>ip_type := IPADDR_TYPE_V4\<rparr>"

definition IP_ADDR6 :: "ip_addr_t \<Rightarrow> u32 \<Rightarrow> u32 \<Rightarrow> u32 \<Rightarrow> u32 \<Rightarrow> ip_addr_t" where
  "IP_ADDR6 x i0 i1 i2 i3 = (IP6_ADDR x i0 i1 i2 i3)\<lparr>ip_type := IPADDR_TYPE_V6\<rparr>"

definition IP_ADDR6_HOST :: "ip_addr_t \<Rightarrow> u32 \<Rightarrow> u32 \<Rightarrow> u32 \<Rightarrow> u32 \<Rightarrow> ip_addr_t" where
  "IP_ADDR6_HOST x i0 i1 i2 i3 = IP_ADDR6 x (PP_HTONL i0) (PP_HTONL i1) (PP_HTONL i2) (PP_HTONL i3)"

definition ip_addr_copy :: "ip_addr_t \<Rightarrow> ip_addr_t \<Rightarrow> ip_addr_t" where
  "ip_addr_copy dest src =
     (let d = dest\<lparr>ip_type := ip_type src\<rparr> in
      if IP_IS_V6_VAL src then ip6_addr_copy d src else ip_clear_no4 (set_word0 (ip_words src ! 0) d))"

text \<open>The type of the source is read before its test for null.\<close>

definition ip_addr_set :: "ip_addr_t \<Rightarrow> ip_addr_t option \<Rightarrow> ip_addr_t option" where
  "ip_addr_set dest src = (case src of None \<Rightarrow> None
     | Some s \<Rightarrow> let d = dest\<lparr>ip_type := ip_type s\<rparr> in
         Some (if IP_IS_V6 src then ip6_addr_set d src else ip_clear_no4 (set_word0 (ip_words s ! 0) d)))"

definition ip_addr_copy_from_ip6_packed :: "ip_addr_t \<Rightarrow> u32 list \<Rightarrow> ip_addr_t" where
  "ip_addr_copy_from_ip6_packed dest src = (ip6_addr_copy_from_packed dest src)\<lparr>ip_type := IPADDR_TYPE_V6\<rparr>"

definition ip_addr_set_ip4_u32_val :: "ip_addr_t \<Rightarrow> u32 \<Rightarrow> ip_addr_t" where
  "ip_addr_set_ip4_u32_val x val = ip_clear_no4 ((set_word0 val x)\<lparr>ip_type := IPADDR_TYPE_V4\<rparr>)"

definition ip_addr_get_ip4_u32 :: "ip_addr_t option \<Rightarrow> u32" where
  "ip_addr_get_ip4_u32 x = (case x of None \<Rightarrow> 0 | Some a \<Rightarrow> if IP_IS_V4 x then ip_words a ! 0 else 0)"

definition ip_addr_set_zero :: "ip_addr_t \<Rightarrow> ip_addr_t" where
  "ip_addr_set_zero x = (ip6_addr_set_zero x)\<lparr>ip_type := 0\<rparr>"

definition ip_addr_set_zero_ip4 :: "ip_addr_t \<Rightarrow> ip_addr_t" where
  "ip_addr_set_zero_ip4 x = (ip6_addr_set_zero x)\<lparr>ip_type := IPADDR_TYPE_V4\<rparr>"

definition ip_addr_set_zero_ip6 :: "ip_addr_t \<Rightarrow> ip_addr_t" where
  "ip_addr_set_zero_ip6 x = (ip6_addr_set_zero x)\<lparr>ip_type := IPADDR_TYPE_V6\<rparr>"

definition ip_addr_set_loopback :: "bool \<Rightarrow> ip_addr_t \<Rightarrow> ip_addr_t" where
  "ip_addr_set_loopback is_ipv6 x =
     (if is_ipv6 then (ip6_addr_set_loopback x)\<lparr>ip_type := IPADDR_TYPE_V6\<rparr>
      else ip_clear_no4 ((set_word0 ip4_addr_set_loopback x)\<lparr>ip_type := IPADDR_TYPE_V4\<rparr>))"

definition ip_addr_get_network :: "ip_addr_t \<Rightarrow> ip_addr_t \<Rightarrow> ip_addr_t \<Rightarrow> ip_addr_t" where
  "ip_addr_get_network target host netmask =
     (if IP_IS_V6 (Some host) then (set_word0 0 target)\<lparr>ip_type := IPADDR_TYPE_V6\<rparr>
      else (set_word0 (ip4_addr_get_network (ip_words host ! 0) (ip_words netmask ! 0)) target)\<lparr>ip_type := IPADDR_TYPE_V4\<rparr>)"

subsection \<open>Tests\<close>

definition ip_addr_netcmp :: "ip_addr_t \<Rightarrow> ip_addr_t \<Rightarrow> u32 \<Rightarrow> bool" where
  "ip_addr_netcmp x y netmask \<longleftrightarrow>
     \<not> (IP_IS_V6 (Some x) \<and> IP_IS_V6 (Some y)) \<and> ip4_addr_netcmp (ip_words x ! 0) (ip_words y ! 0) netmask"

definition ip_addr_cmp_zoneless :: "ip_addr_t \<Rightarrow> ip_addr_t \<Rightarrow> bool" where
  "ip_addr_cmp_zoneless x y \<longleftrightarrow> ip_type x = ip_type y
     \<and> (if IP_IS_V6_VAL x then ip6_addr_cmp_zoneless x y else ip_words x ! 0 = ip_words y ! 0)"

definition ip_addr_isany_val :: "ip_addr_t \<Rightarrow> bool" where
  "ip_addr_isany_val x = (if IP_IS_V6_VAL x then ip6_addr_isany_val x else ip_words x ! 0 = 0)"

definition ip_addr_isany :: "ip_addr_t option \<Rightarrow> bool" where
  "ip_addr_isany x = (case x of None \<Rightarrow> True
     | Some a \<Rightarrow> if IP_IS_V6 x then ip6_addr_isany x else ip_words a ! 0 = 0)"

definition ip_addr_ismulticast :: "ip_addr_t \<Rightarrow> bool" where
  "ip_addr_ismulticast x =
     (if IP_IS_V6 (Some x) then ip6_addr_ismulticast x else ip4_addr_ismulticast (ip_words x ! 0))"

definition ip_addr_isloopback :: "ip_addr_t \<Rightarrow> bool" where
  "ip_addr_isloopback x = (if IP_IS_V6 (Some x) then ip6_addr_isloopback x else ip4_addr_isloopback (ip_words x ! 0))"

definition ip_addr_islinklocal :: "ip_addr_t \<Rightarrow> bool" where
  "ip_addr_islinklocal x =
     (if IP_IS_V6 (Some x) then ip6_addr_islinklocal (ip_words x) else ip4_addr_islinklocal (ip_words x ! 0))"

subsection \<open>The normal form\<close>

definition ip_normal :: "ip_addr_t \<Rightarrow> bool" where
  "ip_normal x \<longleftrightarrow> length (ip_words x) = 4
     \<and> (ip_type x \<noteq> IPADDR_TYPE_V6 \<longrightarrow> tl (ip_words x) = [0, 0, 0] \<and> ip_zone x = 0)"

lemma normal_words: "ip_normal x \<Longrightarrow> \<exists>a b c d. ip_words x = [a, b, c, d]"
  by (simp add: ip_normal_def four_words)

lemma clear_no4_normal:
  "length (ip_words x) = 4 \<Longrightarrow> ip_normal (ip_clear_no4 x)"
  using four_words[of "ip_words x"] by (auto simp: ip_normal_def ip_clear_no4_def)

lemma setters_normal:
  assumes "length (ip_words x) = 4"
  shows "ip_normal (ip_addr_set_ip4_u32_val x v)" "ip_normal (ip_addr_set_zero x)" "ip_normal (ip_addr_set_zero_ip4 x)"
    "ip_normal (ip_addr_set_zero_ip6 x)" "ip_normal (ip_addr_set_loopback v6 x)" "ip_normal (ip_addr_set_any v6 x)"
    "ip_normal (ip_addr_copy_from_ip4 v x)" "ip_normal (IP_ADDR6 x i0 i1 i2 i3)"
  using assms four_words[OF assms]
  by (auto simp: ip_addr_set_ip4_u32_val_def ip_addr_set_zero_def ip_addr_set_zero_ip4_def ip_addr_set_zero_ip6_def
    ip_addr_set_loopback_def ip_addr_set_any_def ip_addr_copy_from_ip4_def IP_ADDR6_def IP6_ADDR_def set_word0_def
    ip_clear_no4_def ip6_addr_set_zero_def ip6_addr_set_loopback_def ip_normal_def addr_types)

lemma copy_normal:
  assumes "length (ip_words dest) = 4" and "length (ip_words src) = 4"
  shows "ip_normal (ip_addr_copy dest src)"
  using assms four_words[OF assms(1)]
  by (auto simp: ip_addr_copy_def ip6_addr_copy_def set_word0_def ip_clear_no4_def ip_normal_def IP_IS_V6_VAL_def Let_def)

text \<open>Under the normal form, equal addresses are equal in every word.\<close>

lemma cmp_normal:
  assumes "ip_normal x" and "ip_normal y"
  shows "ip_addr_cmp x y \<longleftrightarrow> x = y"
proof -
  obtain a b c d where x: "ip_words x = [a, b, c, d]" using normal_words[OF assms(1)] by blast
  obtain a' b' c' d' where y: "ip_words y = [a', b', c', d']" using normal_words[OF assms(2)] by blast
  show ?thesis using assms x y by (cases x; cases y) (auto simp: ip_addr_cmp_def ip_normal_def)
qed

text \<open>
  A copy compares equal to its source; for a source in normal form it is the source, whatever the destination
  held, and setting from a pointer is the same copy.
\<close>

lemma copy_is_source:
  assumes "length (ip_words dest) = 4" and "ip_normal src"
  shows "ip_addr_copy dest src = src" and "ip_addr_set dest (Some src) = Some src"
proof -
  obtain a b c d where x: "ip_words src = [a, b, c, d]" using normal_words[OF assms(2)] by blast
  obtain a' b' c' d' where y: "ip_words dest = [a', b', c', d']" using four_words[OF assms(1)] by auto
  show "ip_addr_copy dest src = src" using assms(2) x y
    by (cases src; cases dest) (auto simp: ip_addr_copy_def ip6_addr_copy_def set_word0_def ip_clear_no4_def
      ip_normal_def IP_IS_V6_VAL_def Let_def)
  show "ip_addr_set dest (Some src) = Some src" using assms(2) x y
    by (cases src; cases dest) (auto simp: ip_addr_set_def ip6_addr_set_def set_word0_def ip_clear_no4_def
      ip_normal_def IP_IS_V6_def IP_IS_V6_VAL_def Let_def)
qed

theorem copied_addresses_compare:
  assumes "length (ip_words dest) = 4" and "ip_normal src" and "ip_normal y"
  shows "ip_addr_cmp (ip_addr_copy dest src) y \<longleftrightarrow> src = y"
  using cmp_normal[OF assms(2,3)] copy_is_source(1)[OF assms(1,2)] by simp

lemma generic_tests:
  "ip_addr_isloopback (ip_addr_set_loopback True x)" "ip_addr_isany (Some (ip_addr_set_any True x))"
  by (simp_all add: ip_addr_isloopback_def ip_addr_set_loopback_def IP_IS_V6_def IP_IS_V6_VAL_def ip6_addr_isloopback_def
    ip6_addr_set_loopback_def ip_addr_isany_def ip_addr_set_any_def ip6_addr_set_zero_def ip6_addr_isany_def
    ip6_addr_isany_val_def)

lemma ip4_u32_round_trip:
  "length (ip_words x) = 4 \<Longrightarrow> ip_addr_get_ip4_u32 (Some (ip_addr_set_ip4_u32_val x v)) = v"
  using four_words[of "ip_words x"]
  by (auto simp: ip_addr_get_ip4_u32_def ip_addr_set_ip4_u32_val_def set_word0_def ip_clear_no4_def IP_IS_V4_def IP_IS_V4_VAL_def)

text \<open>
  Where the macros do not keep to this: \<open>IP_ADDR4\<close> and \<open>ip_addr_get_network\<close> leave the rest of the union as it was,
  a null source is followed, and an IPv6 address can be in the network of an IPv4 address.
\<close>

lemma addr4_keeps_rest: "tl (ip_words (IP_ADDR4 x a b c d)) = tl (ip_words x)"
  by (cases "ip_words x") (simp_all add: IP_ADDR4_def set_word0_def)

lemma null_source_followed: "ip_addr_set dest None = None"
  by (simp add: ip_addr_set_def)

lemma netcmp_mixes_versions:
  "ip_addr_netcmp \<lparr>ip_words = [v, b, c, d], ip_zone = z, ip_type = IPADDR_TYPE_V6\<rparr>
     \<lparr>ip_words = [v, 0, 0, 0], ip_zone = 0, ip_type = IPADDR_TYPE_V4\<rparr> netmask"
  by (simp add: ip_addr_netcmp_def IP_IS_V6_def IP_IS_V6_VAL_def ip4_addr_netcmp_def addr_types)

end
