(* ===== verification/Lwip_Fdset.thy ===== *)
theory Lwip_Fdset
  imports Lwip_Inet
begin

unbundle bit_operations_syntax

text \<open>
  Macros of \<^verbatim>\<open>src/ffi/lwip/sockets.h\<close> for applications: the sets of sockets for \<open>select\<close>, the walk over
  control messages, and the codes of \<open>ioctl\<close>. A set is the array of its bytes; a socket that is not one of
  lwIP's is ignored.
\<close>

section \<open>Sets of sockets\<close>

definition MEMP_NUM_NETCONN :: int where "MEMP_NUM_NETCONN = 12"
definition FD_SETSIZE :: int where "FD_SETSIZE = MEMP_NUM_NETCONN"
definition LWIP_SELECT_MAXNFDS :: int where "LWIP_SELECT_MAXNFDS = FD_SETSIZE + LWIP_SOCKET_OFFSET"

record fd_set =
  fd_bits :: "u8 list"

definition fd_set_bytes :: nat where "fd_set_bytes = nat ((FD_SETSIZE + 7) div 8)"

text \<open>The test both guards make.\<close>

definition fd_safe :: "int \<Rightarrow> bool" where
  "fd_safe n \<longleftrightarrow> n - LWIP_SOCKET_OFFSET < MEMP_NUM_NETCONN \<and> n - LWIP_SOCKET_OFFSET \<ge> 0"

definition fd_byte :: "int \<Rightarrow> nat" where "fd_byte n = nat ((n - LWIP_SOCKET_OFFSET) div 8)"
definition fd_mask :: "int \<Rightarrow> u8" where "fd_mask n = push_bit (nat ((n - LWIP_SOCKET_OFFSET) AND 7)) 1"

definition FD_SET :: "int \<Rightarrow> fd_set \<Rightarrow> fd_set" where
  "FD_SET n p =
     (if fd_safe n then p\<lparr>fd_bits := (fd_bits p)[fd_byte n := fd_bits p ! fd_byte n OR fd_mask n]\<rparr> else p)"

definition FD_CLR :: "int \<Rightarrow> fd_set \<Rightarrow> fd_set" where
  "FD_CLR n p =
     (if fd_safe n then p\<lparr>fd_bits := (fd_bits p)[fd_byte n := fd_bits p ! fd_byte n AND NOT (fd_mask n)]\<rparr> else p)"

definition FD_ISSET :: "int \<Rightarrow> fd_set \<Rightarrow> bool" where
  "FD_ISSET n p \<longleftrightarrow> fd_safe n \<and> fd_bits p ! fd_byte n AND fd_mask n \<noteq> 0"

definition FD_ZERO :: "fd_set \<Rightarrow> fd_set" where
  "FD_ZERO p = p\<lparr>fd_bits := replicate fd_set_bytes 0\<rparr>"

section \<open>Control messages\<close>

text \<open>\<open>long\<close> has four bytes; the three fields of \<open>cmsghdr\<close> have four each.\<close>

definition ALIGN_H :: "u32 \<Rightarrow> u32" where "ALIGN_H sz = (sz + 4 - 1) AND NOT (4 - 1)"
definition sizeof_cmsghdr :: u32 where "sizeof_cmsghdr = 12"

definition CMSG_FIRSTHDR :: "u32 \<Rightarrow> u32 \<Rightarrow> u32" where
  "CMSG_FIRSTHDR msg_control msg_controllen = (if msg_controllen \<ge> sizeof_cmsghdr then msg_control else 0)"

text \<open>\<open>cmsg_len\<close> reads the length of the message at an address.\<close>

definition CMSG_NXTHDR :: "(u32 \<Rightarrow> u32) \<Rightarrow> u32 \<Rightarrow> u32 \<Rightarrow> u32 \<Rightarrow> u32" where
  "CMSG_NXTHDR cmsg_len msg_control msg_controllen cmsg =
     (if cmsg = 0 then CMSG_FIRSTHDR msg_control msg_controllen
      else if cmsg + ALIGN_H (cmsg_len cmsg) + ALIGN_H sizeof_cmsghdr > msg_control + msg_controllen then 0
      else cmsg + ALIGN_H (cmsg_len cmsg))"

definition CMSG_DATA :: "u32 \<Rightarrow> u32" where "CMSG_DATA cmsg = cmsg + ALIGN_H sizeof_cmsghdr"
definition CMSG_SPACE :: "u32 \<Rightarrow> u32" where "CMSG_SPACE len = ALIGN_H sizeof_cmsghdr + ALIGN_H len"
definition CMSG_LEN :: "u32 \<Rightarrow> u32" where "CMSG_LEN len = ALIGN_H sizeof_cmsghdr + len"

section \<open>Codes of ioctl\<close>

definition IOCPARM_MASK :: u32 where "IOCPARM_MASK = 0x7f"
definition IOC_VOID :: u32 where "IOC_VOID = 0x20000000"
definition IOC_OUT :: u32 where "IOC_OUT = 0x40000000"
definition IOC_IN :: u32 where "IOC_IN = 0x80000000"

definition IO :: "u32 \<Rightarrow> u32 \<Rightarrow> u32" where "IO x y = (IOC_VOID OR push_bit 8 x OR y)"

definition IOR :: "u32 \<Rightarrow> u32 \<Rightarrow> u32 \<Rightarrow> u32" where
  "IOR x y sz = (IOC_OUT OR push_bit 16 (sz AND IOCPARM_MASK) OR push_bit 8 x OR y)"

definition IOW :: "u32 \<Rightarrow> u32 \<Rightarrow> u32 \<Rightarrow> u32" where
  "IOW x y sz = (IOC_IN OR push_bit 16 (sz AND IOCPARM_MASK) OR push_bit 8 x OR y)"

definition FIONREAD :: u32 where "FIONREAD = IOR (of_char (CHR ''f'')) 127 4"
definition FIONBIO :: u32 where "FIONBIO = IOW (of_char (CHR ''f'')) 126 4"

section \<open>A set is a set\<close>

text \<open>The slot of a socket: its byte and its bit.\<close>

lemma fd_slot:
  assumes "fd_safe n"
  obtains k where "n = int k + 3" and "k < 12" and "fd_byte n = k div 8" and "fd_mask n = push_bit (k mod 8) 1"
proof
  let ?k = "nat (n - 3)"
  have r: "0 \<le> n - 3" "n - 3 < 12" using assms by (auto simp: fd_safe_def LWIP_SOCKET_OFFSET_def MEMP_NUM_NETCONN_def)
  show "n = int ?k + 3" "?k < 12" using r by auto
  show "fd_byte n = ?k div 8" using r by (simp add: fd_byte_def LWIP_SOCKET_OFFSET_def nat_div_distrib)
  have "(n - 3) AND mask 3 = (n - 3) mod 2 ^ 3" by (simp only: take_bit_eq_mod flip: take_bit_eq_mask)
  then have "(n - 3) AND 7 = (n - 3) mod 8" by (simp add: mask_eq_exp_minus_1)
  then have "nat ((n - 3) AND 7) = ?k mod 8" using r by (simp add: nat_mod_distrib)
  then show "fd_mask n = push_bit (?k mod 8) 1" by (simp add: fd_mask_def LWIP_SOCKET_OFFSET_def)
qed

lemma isset_bit:
  assumes "length (fd_bits p) = fd_set_bytes"
  shows "FD_ISSET (int k + 3) p \<longleftrightarrow> k < 12 \<and> bit (fd_bits p ! (k div 8)) (k mod 8)"
proof (cases "k < 12")
  case True
  then have s: "fd_safe (int k + 3)" by (simp add: fd_safe_def LWIP_SOCKET_OFFSET_def MEMP_NUM_NETCONN_def)
  obtain k' where k: "int k + 3 = int k' + 3" "fd_byte (int k + 3) = k' div 8" "fd_mask (int k + 3) = push_bit (k' mod 8) 1"
    using fd_slot[OF s] by metis
  have "x AND push_bit j 1 \<noteq> 0 \<longleftrightarrow> bit x j" if "j < 8" for x :: u8 and j
  proof -
    have "x AND push_bit j 1 = (if bit x j then push_bit j 1 else 0)"
      by (rule byte_eqI) (auto simp: bit_simps)
    moreover have "(push_bit j 1 :: u8) \<noteq> 0" using that by (auto simp: bit_eq_iff bit_simps intro!: exI[of _ j])
    ultimately show ?thesis by simp
  qed
  then show ?thesis using k s True by (simp add: FD_ISSET_def)
next
  case False
  then show ?thesis by (simp add: FD_ISSET_def fd_safe_def LWIP_SOCKET_OFFSET_def MEMP_NUM_NETCONN_def)
qed

definition fd_members :: "fd_set \<Rightarrow> int set" where "fd_members p = {n. FD_ISSET n p}"

definition fd_valid :: "fd_set \<Rightarrow> bool" where "fd_valid p \<longleftrightarrow> length (fd_bits p) = fd_set_bytes"

lemma isset_safe: "FD_ISSET n p \<Longrightarrow> fd_safe n" by (simp add: FD_ISSET_def)

lemma slot_apart: "k \<noteq> j \<Longrightarrow> k div 8 \<noteq> j div 8 \<or> k mod 8 \<noteq> j mod 8" for k j :: nat
  by (metis div_mult_mod_eq)

lemma change_slot:
  assumes "fd_valid p" and "k < 12" and "\<And>i. i < 8 \<Longrightarrow> i \<noteq> k mod 8 \<Longrightarrow> bit x i = bit (fd_bits p ! (k div 8)) i"
  shows "FD_ISSET (int j + 3) (p\<lparr>fd_bits := (fd_bits p)[k div 8 := x]\<rparr>) \<longleftrightarrow>
    (if j = k then bit x (k mod 8) else FD_ISSET (int j + 3) p)"
proof -
  have l: "length (fd_bits p) = 2" using assms(1)
    by (simp add: fd_valid_def fd_set_bytes_def FD_SETSIZE_def MEMP_NUM_NETCONN_def)
  have v: "length (fd_bits p) = fd_set_bytes" using assms(1) by (simp add: fd_valid_def)
  have k: "k div 8 < 2" using assms(2) by simp
  have "FD_ISSET (int j + 3) (p\<lparr>fd_bits := (fd_bits p)[k div 8 := x]\<rparr>) \<longleftrightarrow>
      j < 12 \<and> bit ((fd_bits p)[k div 8 := x] ! (j div 8)) (j mod 8)"
    using isset_bit[of "p\<lparr>fd_bits := (fd_bits p)[k div 8 := x]\<rparr>" j] v by simp
  moreover have "j \<noteq> k \<Longrightarrow> bit ((fd_bits p)[k div 8 := x] ! (j div 8)) (j mod 8) = bit (fd_bits p ! (j div 8)) (j mod 8)"
    using slot_apart[of j k] assms(3)[of "j mod 8"] l k by (cases "j div 8 = k div 8") auto
  ultimately show ?thesis using isset_bit[OF v, of j] l k assms(2) by auto
qed

lemma safe_range: "fd_safe n \<longleftrightarrow> 3 \<le> n \<and> n < 15"
  by (auto simp: fd_safe_def LWIP_SOCKET_OFFSET_def MEMP_NUM_NETCONN_def)

lemma members_update:
  assumes "\<And>j. FD_ISSET (int j + 3) q \<longleftrightarrow> (if j = k then b else FD_ISSET (int j + 3) p)" and "k < 12"
  shows "FD_ISSET m q \<longleftrightarrow> (if m = int k + 3 then b else FD_ISSET m p)"
proof (cases "fd_safe m")
  case True
  then have "m = int (nat (m - 3)) + 3" by (simp add: safe_range)
  then show ?thesis using assms(1)[of "nat (m - 3)"] by auto
next
  case False
  then show ?thesis using assms(2) isset_safe[of m] by (auto simp: safe_range)
qed

lemma fd_set_member: "fd_valid p \<Longrightarrow> FD_ISSET m (FD_SET n p) \<longleftrightarrow> fd_safe n \<and> m = n \<or> FD_ISSET m p"
proof (cases "fd_safe n")
  case True
  assume v: "fd_valid p"
  obtain k where k: "n = int k + 3" "k < 12" "fd_byte n = k div 8" "fd_mask n = push_bit (k mod 8) 1"
    using fd_slot[OF True] by blast
  have "FD_ISSET m (FD_SET n p) \<longleftrightarrow> (if m = int k + 3 then True else FD_ISSET m p)"
  proof (rule members_update[OF _ k(2)])
    fix j
    show "FD_ISSET (int j + 3) (FD_SET n p) \<longleftrightarrow> (if j = k then True else FD_ISSET (int j + 3) p)"
      using change_slot[OF v k(2), of "fd_bits p ! (k div 8) OR push_bit (k mod 8) 1" j] True k
      by (auto simp: FD_SET_def bit_simps)
  qed
  then show ?thesis using True k(1) by auto
qed (simp add: FD_SET_def)

lemma fd_clr_member: "fd_valid p \<Longrightarrow> FD_ISSET m (FD_CLR n p) \<longleftrightarrow> m \<noteq> n \<and> FD_ISSET m p"
proof (cases "fd_safe n")
  case True
  assume v: "fd_valid p"
  obtain k where k: "n = int k + 3" "k < 12" "fd_byte n = k div 8" "fd_mask n = push_bit (k mod 8) 1"
    using fd_slot[OF True] by blast
  have "FD_ISSET m (FD_CLR n p) \<longleftrightarrow> (if m = int k + 3 then False else FD_ISSET m p)"
  proof (rule members_update[OF _ k(2)])
    fix j
    show "FD_ISSET (int j + 3) (FD_CLR n p) \<longleftrightarrow> (if j = k then False else FD_ISSET (int j + 3) p)"
      using change_slot[OF v k(2), of "fd_bits p ! (k div 8) AND NOT (push_bit (k mod 8) 1)" j] True k
      by (auto simp: FD_CLR_def bit_simps)
  qed
  then show ?thesis using k(1) by auto
next
  case False
  then show ?thesis using isset_safe[of m] by (auto simp: FD_CLR_def)
qed

lemma fd_zero_member: "fd_valid (FD_ZERO p)" "\<not> FD_ISSET m (FD_ZERO p)"
proof -
  show v: "fd_valid (FD_ZERO p)" by (simp add: fd_valid_def FD_ZERO_def)
  show "\<not> FD_ISSET m (FD_ZERO p)"
  proof
    assume i: "FD_ISSET m (FD_ZERO p)"
    then have "m = int (nat (m - 3)) + 3" using isset_safe[OF i] by (simp add: safe_range)
    then have "nat (m - 3) < 12 \<and> bit (fd_bits (FD_ZERO p) ! (nat (m - 3) div 8)) (nat (m - 3) mod 8)"
      using i isset_bit[of "FD_ZERO p" "nat (m - 3)"] v by (simp add: fd_valid_def)
    moreover from this have "nat (m - 3) div 8 < 2" by (simp add: less_mult_imp_div_less)
    ultimately show False by (simp add: FD_ZERO_def fd_set_bytes_def FD_SETSIZE_def MEMP_NUM_NETCONN_def nth_replicate)
  qed
qed

lemma fd_ops_valid: "fd_valid p \<Longrightarrow> fd_valid (FD_SET n p)" "fd_valid p \<Longrightarrow> fd_valid (FD_CLR n p)"
  by (simp_all add: fd_valid_def FD_SET_def FD_CLR_def)

text \<open>Sequences of operations, on the bytes and on a set.\<close>

datatype fd_op = Fd_set int | Fd_clr int | Fd_zero

fun fd_step :: "fd_op \<Rightarrow> fd_set \<Rightarrow> fd_set" where
  "fd_step (Fd_set n) p = FD_SET n p"
| "fd_step (Fd_clr n) p = FD_CLR n p"
| "fd_step Fd_zero p = FD_ZERO p"

fun set_step :: "fd_op \<Rightarrow> int set \<Rightarrow> int set" where
  "set_step (Fd_set n) S = (if 3 \<le> n \<and> n < 15 then insert n S else S)"
| "set_step (Fd_clr n) S = S - {n}"
| "set_step Fd_zero S = {}"

lemma fd_step_members: "fd_valid p \<Longrightarrow> fd_members (fd_step x p) = set_step x (fd_members p) \<and> fd_valid (fd_step x p)"
  by (cases x) (auto simp: fd_members_def fd_set_member fd_clr_member fd_zero_member fd_ops_valid safe_range)

lemma fd_run_members: "fd_valid p \<Longrightarrow> fd_members (fold fd_step xs p) = fold set_step xs (fd_members p)"
  by (induction xs arbitrary: p) (simp_all add: fd_step_members)

text \<open>
  A set of sockets for \<open>select\<close> is a set: after it was cleared, whatever was in its memory, any sequence of
  operations leaves exactly the sockets that were added and not removed since; numbers that are no sockets
  of lwIP are neither found nor touch the memory beyond.
\<close>

theorem fd_sets_refine_sets:
  "fd_members (fold fd_step xs (FD_ZERO p)) = fold set_step xs {}"
  using fd_run_members[OF fd_zero_member(1)] fd_zero_member(2) by (simp add: fd_members_def)

section \<open>The walk over control messages\<close>

lemma align_up: "unat sz + 3 < 2 ^ 32 \<Longrightarrow> unat (ALIGN_H sz) = 4 * ((unat sz + 3) div 4)"
proof -
  assume b: "unat sz + 3 < 2 ^ 32"
  have m: "(4 - 1 :: u32) = mask 2" by (simp add: mask_eq_exp_minus_1)
  have "x AND NOT (mask 2) = push_bit 2 (drop_bit 2 x)" for x :: u32
    by (rule bit_word_eqI) (auto simp: bit_simps simp del: add_2_eq_Suc add_2_eq_Suc')
  then have "ALIGN_H sz = push_bit 2 (drop_bit 2 (sz + 3))" by (simp add: ALIGN_H_def m mask_eq_exp_minus_1 add.commute)
  moreover have "unat (sz + 3) = unat sz + 3" using b by (simp add: unat_word_ariths)
  moreover have "(unat sz + 3) div 4 * 4 < 2 ^ 32" using b by (simp add: order_le_less_trans[OF div_times_less_eq_dividend])
  ultimately show ?thesis
    by (simp add: push_bit_eq_mult drop_bit_eq_div unat_word_ariths unat_div_distrib mult.commute)
qed

text \<open>The loop of an application over its messages, and a buffer with messages for given amounts of data.\<close>

partial_function (option) cmsg_walk :: "(u32 \<Rightarrow> u32) \<Rightarrow> u32 \<Rightarrow> u32 \<Rightarrow> u32 \<Rightarrow> u32 list option" where
  "cmsg_walk cmsg_len control controllen cmsg =
     (if cmsg = 0 then Some []
      else Option.bind (cmsg_walk cmsg_len control controllen (CMSG_NXTHDR cmsg_len control controllen cmsg))
             (\<lambda>cmsgs. Some (cmsg # cmsgs)))"

fun cmsgs :: "(u32 \<Rightarrow> u32) \<Rightarrow> u32 \<Rightarrow> u32 list \<Rightarrow> bool" where
  "cmsgs cmsg_len a [] \<longleftrightarrow> True"
| "cmsgs cmsg_len a (n # ns) \<longleftrightarrow> cmsg_len a = CMSG_LEN n \<and> cmsgs cmsg_len (a + CMSG_SPACE n) ns"

fun cmsg_addresses :: "u32 \<Rightarrow> u32 list \<Rightarrow> u32 list" where
  "cmsg_addresses a [] = []"
| "cmsg_addresses a (n # ns) = a # cmsg_addresses (a + CMSG_SPACE n) ns"

definition cmsg_total :: "u32 list \<Rightarrow> nat" where
  "cmsg_total ns = (\<Sum>n\<leftarrow>ns. 12 + 4 * ((unat n + 3) div 4))"

lemma align_header: "ALIGN_H sizeof_cmsghdr = 12"
  by (simp add: ALIGN_H_def sizeof_cmsghdr_def)

lemma cmsg_sizes:
  assumes "unat n + 15 < 2 ^ 32"
  shows "unat (CMSG_SPACE n) = 12 + 4 * ((unat n + 3) div 4)" and "ALIGN_H (CMSG_LEN n) = CMSG_SPACE n"
proof -
  have a: "unat (ALIGN_H n) = 4 * ((unat n + 3) div 4)" using align_up[of n] assms by simp
  have "4 * ((unat n + 3) div 4) \<le> unat n + 3" by simp
  then show s: "unat (CMSG_SPACE n) = 12 + 4 * ((unat n + 3) div 4)"
    using a assms by (simp add: CMSG_SPACE_def align_header unat_word_ariths)
  have l: "unat (CMSG_LEN n) = unat n + 12" using assms by (simp add: CMSG_LEN_def align_header unat_word_ariths)
  have "unat (ALIGN_H (CMSG_LEN n)) = 4 * ((unat n + 15) div 4)" using align_up[of "CMSG_LEN n"] l assms by simp
  moreover have "4 * ((unat n + 15) div 4) = 12 + 4 * ((unat n + 3) div 4)" by presburger
  ultimately show "ALIGN_H (CMSG_LEN n) = CMSG_SPACE n" using s by (simp add: word_unat_eq_iff)
qed

lemma walk_messages:
  assumes "cmsgs cmsg_len a ns" and "ns \<noteq> []" and "a \<noteq> 0"
    and "unat a + cmsg_total ns + 12 < 2 ^ 32" and "unat (control + controllen) = unat a + cmsg_total ns"
  shows "cmsg_walk cmsg_len control controllen a = Some (cmsg_addresses a ns)"
  using assms
proof (induction ns arbitrary: a)
  case (Cons n ns)
  have "4 * ((unat n + 3) div 4) + 3 \<ge> unat n" by presburger
  then have b: "unat n + 15 < 2 ^ 32" using Cons.prems(4) by (simp add: cmsg_total_def)
  note sz = cmsg_sizes[OF b]
  have t: "cmsg_total (n # ns) = unat (CMSG_SPACE n) + cmsg_total ns" using sz(1) by (simp add: cmsg_total_def)
  let ?a = "a + CMSG_SPACE n"
  have ua: "unat ?a = unat a + unat (CMSG_SPACE n)" using Cons.prems(4) t by (simp add: unat_word_ariths)
  have ua12: "unat (?a + 12) = unat ?a + 12" using Cons.prems(4) t ua by (simp add: unat_word_ariths)
  have nx: "CMSG_NXTHDR cmsg_len control controllen a = (if unat ?a + 12 > unat ?a + cmsg_total ns then 0 else ?a)"
    using Cons.prems(1,3,5) t ua ua12
    by (simp add: CMSG_NXTHDR_def sz(2) align_header word_less_nat_alt add.assoc)
  show ?case
  proof (cases ns)
    case Nil
    have "CMSG_NXTHDR cmsg_len control controllen a = 0" unfolding nx using Nil by (simp add: cmsg_total_def)
    then show ?thesis using Nil Cons.prems(3) by (subst cmsg_walk.simps) (simp add: cmsg_walk.simps[of _ _ _ 0])
  next
    case (Cons m ms)
    then have "cmsg_total ns \<ge> 12" by (simp add: cmsg_total_def)
    then have nx': "CMSG_NXTHDR cmsg_len control controllen a = ?a" unfolding nx by simp
    have "?a \<noteq> 0" using ua sz(1) by (metis add_is_0 unat_0 zero_neq_numeral)
    then have "cmsg_walk cmsg_len control controllen ?a = Some (cmsg_addresses ?a ns)"
      using Cons.IH[of ?a] \<open>ns = m # ms\<close> Cons.prems t ua by simp
    then show ?thesis using nx' Cons.prems(3) by (subst cmsg_walk.simps) simp
  qed
qed simp

text \<open>
  Control messages that were written one after the other, each \<open>CMSG_SPACE\<close> long with the length \<open>CMSG_LEN\<close>,
  are visited in their order by the loop from the first to the last, which ends.
\<close>

theorem cmsg_walk_visits_all:
  assumes "cmsgs cmsg_len control ns" and "ns \<noteq> []" and "control \<noteq> 0"
    and "unat control + cmsg_total ns + 12 < 2 ^ 32"
  shows "cmsg_walk cmsg_len control (of_nat (cmsg_total ns))
      (CMSG_NXTHDR cmsg_len control (of_nat (cmsg_total ns)) 0) = Some (cmsg_addresses control ns)"
proof -
  have c: "unat (of_nat (cmsg_total ns) :: u32) = cmsg_total ns" using assms(4) by (simp add: unat_of_nat32)
  have "cmsg_total ns \<ge> 12" using assms(2) by (cases ns) (simp_all add: cmsg_total_def)
  then have f: "CMSG_NXTHDR cmsg_len control (of_nat (cmsg_total ns)) 0 = control"
    using c by (simp add: CMSG_NXTHDR_def CMSG_FIRSTHDR_def sizeof_cmsghdr_def word_le_nat_alt)
  have "unat (control + of_nat (cmsg_total ns)) = unat control + cmsg_total ns"
    using assms(4) c by (simp add: unat_word_ariths)
  then show ?thesis unfolding f using walk_messages[OF assms(1,2,3,4)] by blast
qed

text \<open>A message with length 0 is its own successor while there is room for a header behind it.\<close>

lemma zero_length_stays:
  "cmsg \<noteq> 0 \<Longrightarrow> cmsg_len cmsg = 0 \<Longrightarrow> cmsg + 12 \<le> control + controllen \<Longrightarrow>
   CMSG_NXTHDR cmsg_len control controllen cmsg = cmsg"
proof -
  have z: "ALIGN_H 0 = 0" by (simp add: ALIGN_H_def)
  show "cmsg \<noteq> 0 \<Longrightarrow> cmsg_len cmsg = 0 \<Longrightarrow> cmsg + 12 \<le> control + controllen \<Longrightarrow>
    CMSG_NXTHDR cmsg_len control controllen cmsg = cmsg"
    by (simp add: CMSG_NXTHDR_def z align_header)
qed

end
