(* ===== verification/Lwip_Heap.thy ===== *)
theory Lwip_Heap
  imports Lwip_State
begin

unbundle bit_operations_syntax

text \<open>
  lwIP's own heap: \<^verbatim>\<open>src/ffi/lwip/mem.c\<close> built without \<open>MEM_LIBC_MALLOC\<close> and \<open>MEM_USE_POOLS\<close>, with
  \<open>MEM_OVERFLOW_CHECK\<close>, \<open>MEM_STATS\<close> and \<open>LWIP_ALLOW_MEM_FREE_FROM_OTHER_CONTEXT\<close> off as in
  \<^verbatim>\<open>opt.h\<close>. Pointers are addresses. The headers of blocks are kept apart from the bytes of the memory, by
  address; two headers never share bytes, since the blocks of a heap are at least 24 bytes long and 4 bytes
  aligned. The mutex is outside the repository: its calls are recorded. A failed assertion is \<open>None\<close>.
\<close>

section \<open>State\<close>

record mem_struct =
  mem_next :: u32
  mem_prev :: u32
  mem_used :: u8

datatype mutex_call = mutex_lock | mutex_unlock

record lwip_heap =
  ram :: u32
  ram_end :: u32
  lfree :: u32
  structs :: "u32 \<Rightarrow> mem_struct"
  mem_mutex :: "mutex_call list"

text \<open>The size and the place of the heap, and whether \<open>MEM_SANITY_CHECK\<close> is on.\<close>

record heap_cfg =
  MEM_SIZE :: u32
  LWIP_RAM_HEAP_POINTER :: u32
  MEM_SANITY_CHECK :: bool

definition MIN_SIZE :: u32 where "MIN_SIZE = 12"
definition MIN_SIZE_ALIGNED :: u32 where "MIN_SIZE_ALIGNED = lwip_mem_align MIN_SIZE"
definition SIZEOF_STRUCT_MEM :: u32 where "SIZEOF_STRUCT_MEM = lwip_mem_align 12"
definition MEM_SIZE_ALIGNED :: "heap_cfg \<Rightarrow> u32" where "MEM_SIZE_ALIGNED cfg = lwip_mem_align (MEM_SIZE cfg)"

definition set_next :: "u32 \<Rightarrow> u32 \<Rightarrow> lwip_heap \<Rightarrow> lwip_heap" where
  "set_next m v h = h\<lparr>structs := (structs h)(m := (structs h m)\<lparr>mem_next := v\<rparr>)\<rparr>"

definition set_prev :: "u32 \<Rightarrow> u32 \<Rightarrow> lwip_heap \<Rightarrow> lwip_heap" where
  "set_prev m v h = h\<lparr>structs := (structs h)(m := (structs h m)\<lparr>mem_prev := v\<rparr>)\<rparr>"

definition set_used :: "u32 \<Rightarrow> u8 \<Rightarrow> lwip_heap \<Rightarrow> lwip_heap" where
  "set_used m v h = h\<lparr>structs := (structs h)(m := (structs h m)\<lparr>mem_used := v\<rparr>)\<rparr>"

definition call_mutex :: "mutex_call \<Rightarrow> lwip_heap \<Rightarrow> lwip_heap" where
  "call_mutex c h = h\<lparr>mem_mutex := mem_mutex h @ [c]\<rparr>"

definition ptr_to_mem :: "lwip_heap \<Rightarrow> u32 \<Rightarrow> u32" where "ptr_to_mem h ptr = ram h + ptr"
definition mem_to_ptr :: "lwip_heap \<Rightarrow> u32 \<Rightarrow> u32" where "mem_to_ptr h m = m - ram h"

section \<open>Joining free blocks\<close>

definition plug_forward :: "heap_cfg \<Rightarrow> u32 \<Rightarrow> lwip_heap \<Rightarrow> lwip_heap" where
  "plug_forward cfg m h =
     (let nmem = ptr_to_mem h (mem_next (structs h m))
      in if m \<noteq> nmem \<and> mem_used (structs h nmem) = 0 \<and> nmem \<noteq> ram_end h then
           (let h1 = (if lfree h = nmem then h\<lparr>lfree := m\<rparr> else h);
                h2 = set_next m (mem_next (structs h1 nmem)) h1
            in if mem_next (structs h2 nmem) \<noteq> MEM_SIZE_ALIGNED cfg
               then set_prev (ptr_to_mem h2 (mem_next (structs h2 nmem))) (mem_to_ptr h2 m) h2
               else h2)
         else h)"

definition plug_backward :: "heap_cfg \<Rightarrow> u32 \<Rightarrow> lwip_heap \<Rightarrow> lwip_heap" where
  "plug_backward cfg m h =
     (let pmem = ptr_to_mem h (mem_prev (structs h m))
      in if pmem \<noteq> m \<and> mem_used (structs h pmem) = 0 then
           (let h1 = (if lfree h = m then h\<lparr>lfree := pmem\<rparr> else h);
                h2 = set_next pmem (mem_next (structs h1 m)) h1
            in if mem_next (structs h2 m) \<noteq> MEM_SIZE_ALIGNED cfg
               then set_prev (ptr_to_mem h2 (mem_next (structs h2 m))) (mem_to_ptr h2 pmem) h2
               else h2)
         else h)"

definition plug_holes :: "heap_cfg \<Rightarrow> u32 \<Rightarrow> lwip_heap \<Rightarrow> lwip_heap option" where
  "plug_holes cfg m h =
     do {
       _ \<leftarrow> lwip_assert (m \<ge> ram h) ();
       _ \<leftarrow> lwip_assert (m < ram_end h) ();
       _ \<leftarrow> lwip_assert (mem_used (structs h m) = 0) ();
       _ \<leftarrow> lwip_assert (mem_next (structs h m) \<le> MEM_SIZE_ALIGNED cfg) ();
       Some (plug_backward cfg m (plug_forward cfg m h))
     }"

section \<open>The check of the whole heap\<close>

definition mem_link_valid :: "heap_cfg \<Rightarrow> u32 \<Rightarrow> lwip_heap \<Rightarrow> bool" where
  "mem_link_valid cfg m h =
     (let rmem_idx = mem_to_ptr h m;
          nmem = ptr_to_mem h (mem_next (structs h m));
          pmem = ptr_to_mem h (mem_prev (structs h m))
      in \<not> (mem_next (structs h m) > MEM_SIZE_ALIGNED cfg \<or> mem_prev (structs h m) > MEM_SIZE_ALIGNED cfg \<or>
            (mem_prev (structs h m) \<noteq> rmem_idx \<and> mem_next (structs h pmem) \<noteq> rmem_idx) \<or>
            (nmem \<noteq> ram_end h \<and> mem_prev (structs h nmem) \<noteq> rmem_idx)))"

text \<open>
  The assertions on the alignment of \<open>next\<close> and \<open>prev\<close> close their parenthesis behind the comparison, so that
  they align the value of a true comparison, and never fail.
\<close>

partial_function (option) sanity_loop :: "heap_cfg \<Rightarrow> lwip_heap \<Rightarrow> u32 \<Rightarrow> u8 \<Rightarrow> u32 option" where
  "sanity_loop cfg h m last_used =
     (if m > ram h \<and> m < ram_end h then
        do {
          _ \<leftarrow> lwip_assert (lwip_mem_align m = m) ();
          _ \<leftarrow> lwip_assert (mem_prev (structs h m) \<le> MEM_SIZE_ALIGNED cfg) ();
          _ \<leftarrow> lwip_assert (mem_next (structs h m) \<le> MEM_SIZE_ALIGNED cfg) ();
          _ \<leftarrow> (if last_used = 0 then lwip_assert (mem_used (structs h m) = 1) ()
               else lwip_assert (mem_used (structs h m) = 0 \<or> mem_used (structs h m) = 1) ());
          _ \<leftarrow> lwip_assert (mem_link_valid cfg m h) ();
          sanity_loop cfg h (ptr_to_mem h (mem_next (structs h m))) (mem_used (structs h m))
        }
      else Some m)"

definition mem_sanity :: "heap_cfg \<Rightarrow> lwip_heap \<Rightarrow> unit option" where
  "mem_sanity cfg h =
     do {
       let m = ram h;
       _ \<leftarrow> lwip_assert (mem_used (structs h m) = 0 \<or> mem_used (structs h m) = 1) ();
       _ \<leftarrow> lwip_assert (mem_prev (structs h m) = 0) ();
       _ \<leftarrow> lwip_assert (mem_next (structs h m) \<le> MEM_SIZE_ALIGNED cfg) ();
       m2 \<leftarrow> sanity_loop cfg h (ptr_to_mem h (mem_next (structs h m))) (mem_used (structs h m));
       _ \<leftarrow> lwip_assert (m2 = ptr_to_mem h (MEM_SIZE_ALIGNED cfg)) ();
       _ \<leftarrow> lwip_assert (mem_used (structs h m2) = 1) ();
       _ \<leftarrow> lwip_assert (mem_prev (structs h m2) = MEM_SIZE_ALIGNED cfg) ();
       lwip_assert (mem_next (structs h m2) = MEM_SIZE_ALIGNED cfg) ()
     }"

definition MEM_SANITY :: "heap_cfg \<Rightarrow> lwip_heap \<Rightarrow> unit option" where
  "MEM_SANITY cfg h = (if MEM_SANITY_CHECK cfg then mem_sanity cfg h else Some ())"

section \<open>Initialisation\<close>

text \<open>Whether \<open>sys_mutex_new\<close> succeeds is a parameter.\<close>

definition heap_mem_init :: "heap_cfg \<Rightarrow> bool \<Rightarrow> lwip_heap \<Rightarrow> lwip_heap option" where
  "heap_mem_init cfg mutex_ok h =
     do {
       _ \<leftarrow> lwip_assert (SIZEOF_STRUCT_MEM AND 3 = 0) ();
       let h1 = h\<lparr>ram := lwip_mem_align (LWIP_RAM_HEAP_POINTER cfg)\<rparr>;
       let m = ram h1;
       let h2 = set_used m 0 (set_prev m 0 (set_next m (MEM_SIZE_ALIGNED cfg) h1));
       let h3 = h2\<lparr>ram_end := ptr_to_mem h2 (MEM_SIZE_ALIGNED cfg)\<rparr>;
       let h4 = set_prev (ram_end h3) (MEM_SIZE_ALIGNED cfg)
                 (set_next (ram_end h3) (MEM_SIZE_ALIGNED cfg) (set_used (ram_end h3) 1 h3));
       _ \<leftarrow> MEM_SANITY cfg h4;
       let h5 = h4\<lparr>lfree := ram h4\<rparr>;
       lwip_assert mutex_ok h5
     }"

section \<open>Freeing\<close>

definition heap_mem_free :: "heap_cfg \<Rightarrow> u32 \<Rightarrow> lwip_heap \<Rightarrow> lwip_heap option" where
  "heap_mem_free cfg rmem h =
     (if rmem = 0 then Some h
      else do {
        _ \<leftarrow> lwip_assert (rmem AND 3 = 0) ();
        let m = rmem - SIZEOF_STRUCT_MEM;
        _ \<leftarrow> lwip_assert (\<not> (m < ram h \<or> rmem + MIN_SIZE_ALIGNED > ram_end h)) ();
        let h1 = call_mutex mutex_lock h;
        _ \<leftarrow> lwip_assert (mem_used (structs h1 m) \<noteq> 0) ();
        _ \<leftarrow> lwip_assert (mem_link_valid cfg m h1) ();
        let h2 = set_used m 0 h1;
        let h3 = (if m < lfree h2 then h2\<lparr>lfree := m\<rparr> else h2);
        h4 \<leftarrow> plug_holes cfg m h3;
        _ \<leftarrow> MEM_SANITY cfg h4;
        Some (call_mutex mutex_unlock h4)
      })"

section \<open>Shrinking\<close>

text \<open>A result of 0 is \<open>NULL\<close>. The assertion on legal memory makes the test after it redundant.\<close>

definition trim_next_free :: "heap_cfg \<Rightarrow> u32 \<Rightarrow> u32 \<Rightarrow> lwip_heap \<Rightarrow> lwip_heap option" where
  "trim_next_free cfg m newsize h =
     do {
       let ptr = mem_to_ptr h m;
       let mem2 = ptr_to_mem h (mem_next (structs h m));
       _ \<leftarrow> lwip_assert (mem_next (structs h m) \<noteq> MEM_SIZE_ALIGNED cfg) ();
       let nxt = mem_next (structs h mem2);
       let ptr2 = ptr + SIZEOF_STRUCT_MEM + newsize;
       let h1 = (if lfree h = mem2 then h\<lparr>lfree := ptr_to_mem h ptr2\<rparr> else h);
       let mem2 = ptr_to_mem h1 ptr2;
       let h2 = set_next m ptr2 (set_prev mem2 ptr (set_next mem2 nxt (set_used mem2 0 h1)));
       Some (if mem_next (structs h2 mem2) \<noteq> MEM_SIZE_ALIGNED cfg
             then set_prev (ptr_to_mem h2 (mem_next (structs h2 mem2))) ptr2 h2 else h2)
     }"

definition trim_split :: "heap_cfg \<Rightarrow> u32 \<Rightarrow> u32 \<Rightarrow> lwip_heap \<Rightarrow> lwip_heap option" where
  "trim_split cfg m newsize h =
     do {
       let ptr = mem_to_ptr h m;
       let ptr2 = ptr + SIZEOF_STRUCT_MEM + newsize;
       _ \<leftarrow> lwip_assert (mem_next (structs h m) \<noteq> MEM_SIZE_ALIGNED cfg) ();
       let mem2 = ptr_to_mem h ptr2;
       let h1 = (if mem2 < lfree h then h\<lparr>lfree := mem2\<rparr> else h);
       let h2 = set_used mem2 0 h1;
       let h3 = set_next m ptr2 (set_prev mem2 ptr (set_next mem2 (mem_next (structs h2 m)) h2));
       Some (if mem_next (structs h3 mem2) \<noteq> MEM_SIZE_ALIGNED cfg
             then set_prev (ptr_to_mem h3 (mem_next (structs h3 mem2))) ptr2 h3 else h3)
     }"

definition heap_mem_trim :: "heap_cfg \<Rightarrow> u32 \<Rightarrow> u32 \<Rightarrow> lwip_heap \<Rightarrow> (u32 \<times> lwip_heap) option" where
  "heap_mem_trim cfg rmem new_size h =
     (let newsize = (if lwip_mem_align new_size < MIN_SIZE_ALIGNED then MIN_SIZE_ALIGNED else lwip_mem_align new_size)
      in if newsize > MEM_SIZE_ALIGNED cfg \<or> newsize < new_size then Some (0, h)
         else do {
           _ \<leftarrow> lwip_assert (rmem \<ge> ram h \<and> rmem < ram_end h) ();
           let m = rmem - SIZEOF_STRUCT_MEM;
           let ptr = mem_to_ptr h m;
           let sz = mem_next (structs h m) - ptr - SIZEOF_STRUCT_MEM;
           _ \<leftarrow> lwip_assert (newsize \<le> sz) ();
           if newsize = sz then Some (rmem, h)
           else do {
             let h1 = call_mutex mutex_lock h;
             let mem2 = ptr_to_mem h1 (mem_next (structs h1 m));
             h2 \<leftarrow> (if mem_used (structs h1 mem2) = 0 then trim_next_free cfg m newsize h1
                   else if newsize + SIZEOF_STRUCT_MEM + MIN_SIZE_ALIGNED \<le> sz then trim_split cfg m newsize h1
                   else Some h1);
             _ \<leftarrow> MEM_SANITY cfg h2;
             Some (rmem, call_mutex mutex_unlock h2)
           }
         })"

section \<open>Allocating\<close>

text \<open>The scan for a block, whose result is the offset of the first that is free and big enough.\<close>

partial_function (option) scan_free :: "heap_cfg \<Rightarrow> u32 \<Rightarrow> lwip_heap \<Rightarrow> u32 \<Rightarrow> u32 option option" where
  "scan_free cfg sz h ptr =
     (if ptr < MEM_SIZE_ALIGNED cfg - sz then
        (let m = ptr_to_mem h ptr
         in if mem_used (structs h m) = 0 \<and> mem_next (structs h m) - (ptr + SIZEOF_STRUCT_MEM) \<ge> sz
            then Some (Some ptr)
            else scan_free cfg sz h (mem_next (structs h (ptr_to_mem h ptr))))
      else Some None)"

definition take_block :: "heap_cfg \<Rightarrow> u32 \<Rightarrow> u32 \<Rightarrow> lwip_heap \<Rightarrow> lwip_heap option" where
  "take_block cfg sz ptr h =
     (let m = ptr_to_mem h ptr
      in if mem_next (structs h m) - (ptr + SIZEOF_STRUCT_MEM) \<ge> sz + SIZEOF_STRUCT_MEM + MIN_SIZE_ALIGNED then
           do {
             let ptr2 = ptr + SIZEOF_STRUCT_MEM + sz;
             _ \<leftarrow> lwip_assert (ptr2 \<noteq> MEM_SIZE_ALIGNED cfg) ();
             let mem2 = ptr_to_mem h ptr2;
             let h1 = set_used mem2 0 h;
             let h2 = set_prev mem2 ptr (set_next mem2 (mem_next (structs h1 m)) h1);
             let h3 = set_used m 1 (set_next m ptr2 h2);
             Some (if mem_next (structs h3 mem2) \<noteq> MEM_SIZE_ALIGNED cfg
                   then set_prev (ptr_to_mem h3 (mem_next (structs h3 mem2))) ptr2 h3 else h3)
           }
         else Some (set_used m 1 h))"

partial_function (option) next_free :: "lwip_heap \<Rightarrow> u32 \<Rightarrow> u32 option" where
  "next_free h cur =
     (if mem_used (structs h cur) \<noteq> 0 \<and> cur \<noteq> ram_end h
      then next_free h (ptr_to_mem h (mem_next (structs h cur))) else Some cur)"

definition adjust_lfree :: "u32 \<Rightarrow> lwip_heap \<Rightarrow> lwip_heap option" where
  "adjust_lfree m h =
     (if m = lfree h then
        do {
          cur \<leftarrow> next_free h (lfree h);
          let h1 = h\<lparr>lfree := cur\<rparr>;
          lwip_assert (lfree h1 = ram_end h1 \<or> mem_used (structs h1 (lfree h1)) = 0) h1
        }
      else Some h)"

definition heap_mem_malloc :: "heap_cfg \<Rightarrow> u32 \<Rightarrow> lwip_heap \<Rightarrow> (u32 \<times> lwip_heap) option" where
  "heap_mem_malloc cfg size_in h =
     (if size_in = 0 then Some (0, h)
      else let sz = (if lwip_mem_align size_in < MIN_SIZE_ALIGNED then MIN_SIZE_ALIGNED else lwip_mem_align size_in)
      in if sz > MEM_SIZE_ALIGNED cfg \<or> sz < size_in then Some (0, h)
         else do {
           let h1 = call_mutex mutex_lock h;
           found \<leftarrow> scan_free cfg sz h1 (mem_to_ptr h1 (lfree h1));
           case found of
             None \<Rightarrow> Some (0, call_mutex mutex_unlock h1)
           | Some ptr \<Rightarrow>
               do {
                 let m = ptr_to_mem h1 ptr;
                 h2 \<leftarrow> take_block cfg sz ptr h1;
                 h3 \<leftarrow> adjust_lfree m h2;
                 let h4 = call_mutex mutex_unlock h3;
                 _ \<leftarrow> lwip_assert (m + SIZEOF_STRUCT_MEM + sz \<le> ram_end h4) ();
                 _ \<leftarrow> lwip_assert ((m + SIZEOF_STRUCT_MEM) mod 4 = 0) ();
                 _ \<leftarrow> lwip_assert (m AND 3 = 0) ();
                 _ \<leftarrow> MEM_SANITY cfg h4;
                 Some (m + SIZEOF_STRUCT_MEM, h4)
               }
         })"

text \<open>The product of the two sizes is one of 32-bit words, so the test for overflow compares it with itself.\<close>

definition heap_mem_calloc ::
    "heap_cfg \<Rightarrow> u32 \<Rightarrow> u32 \<Rightarrow> lwip_heap \<Rightarrow> (u32 \<Rightarrow> u8) \<Rightarrow> (u32 \<times> lwip_heap \<times> (u32 \<Rightarrow> u8)) option" where
  "heap_mem_calloc cfg cnt sz h bytes =
     do {
       let alloc_size = cnt * sz;
       (p, h1) \<leftarrow> heap_mem_malloc cfg alloc_size h;
       Some (p, h1, if p \<noteq> 0 then fold (\<lambda>k b. b(p + of_nat k := 0)) [0..<unat alloc_size] bytes else bytes)
     }"

end
