(* ===== verification/Lwip_Heap_Blocks.thy ===== *)
theory Lwip_Heap_Blocks
  imports Lwip_Heap
begin

text \<open>
  The heap as a list of blocks. A block is its size with the header and whether it is in use; the header
  at the offset of a block points to the ones before and behind it. The operations of \<^verbatim>\<open>mem.c\<close> on lists of
  blocks are first fit with splitting, and freeing with the joining of free neighbours.
\<close>

type_synonym block = "nat \<times> bool"

abbreviation sizes :: "block list \<Rightarrow> nat" where "sizes bs \<equiv> sum_list (map fst bs)"

section \<open>The abstract operations\<close>

text \<open>\<open>alloc sz bs\<close>: the offset of the block taken and the blocks after; a remainder of 24 bytes is split off.\<close>

fun alloc :: "nat \<Rightarrow> block list \<Rightarrow> (nat \<times> block list) option" where
  "alloc sz [] = None"
| "alloc sz ((n, u) # bs) =
     (if \<not> u \<and> sz + 12 \<le> n
      then Some (0, (if sz + 36 \<le> n then [(sz + 12, True), (n - (sz + 12), False)] else [(n, True)]) @ bs)
      else map_option (\<lambda>(o', bs'). (n + o', (n, u) # bs')) (alloc sz bs))"

text \<open>The blocks with free neighbours joined.\<close>

fun coalesce :: "block list \<Rightarrow> block list" where
  "coalesce ((n, False) # (k, False) # bs) = coalesce ((n + k, False) # bs)"
| "coalesce (b # bs) = b # coalesce bs"
| "coalesce [] = []"

text \<open>No two neighbours are free.\<close>

abbreviation separated :: "block list \<Rightarrow> bool" where "separated \<equiv> successively (\<lambda>a b. snd a \<or> snd b)"

text \<open>The offset of the first free block, or of the end.\<close>

fun first_free :: "block list \<Rightarrow> nat" where
  "first_free [] = 0"
| "first_free ((n, u) # bs) = (if u then n + first_free bs else 0)"

definition block_ok :: "block \<Rightarrow> bool" where
  "block_ok b \<longleftrightarrow> 24 \<le> fst b \<and> 4 dvd fst b"

section \<open>Headers as a chain\<close>

text \<open>The offset \<open>k\<close> as the program has it, and the address it stands for.\<close>

definition idx :: "nat \<Rightarrow> u32" where "idx k = of_nat k"
definition adr :: "u32 \<Rightarrow> nat \<Rightarrow> u32" where "adr r k = r + idx k"

text \<open>\<open>seg g q p bs q' p'\<close>: from offset \<open>p\<close>, behind the header at \<open>q\<close>, lie the blocks \<open>bs\<close>, up to \<open>p'\<close>.\<close>

fun seg :: "(nat \<Rightarrow> mem_struct) \<Rightarrow> nat \<Rightarrow> nat \<Rightarrow> block list \<Rightarrow> nat \<Rightarrow> nat \<Rightarrow> bool" where
  "seg g q p [] q' p' \<longleftrightarrow> q' = q \<and> p' = p"
| "seg g q p (b # bs) q' p' \<longleftrightarrow>
     g p = \<lparr>mem_next = idx (p + fst b), mem_prev = idx q, mem_used = of_bool (snd b)\<rparr>
     \<and> block_ok b \<and> seg g p (p + fst b) bs q' p'"

definition hdr :: "lwip_heap \<Rightarrow> nat \<Rightarrow> mem_struct" where
  "hdr h k = structs h (adr (ram h) k)"

abbreviation heap_size :: "heap_cfg \<Rightarrow> nat" where "heap_size cfg \<equiv> unat (MEM_SIZE_ALIGNED cfg)"

definition room :: "heap_cfg \<Rightarrow> u32 \<Rightarrow> bool" where
  "room cfg r \<longleftrightarrow> unat r + heap_size cfg + 12 < 2 ^ 32"

definition heap_base :: "heap_cfg \<Rightarrow> lwip_heap \<Rightarrow> bool" where
  "heap_base cfg h \<longleftrightarrow> 4 dvd unat (ram h) \<and> room cfg (ram h)
     \<and> ram_end h = ram h + MEM_SIZE_ALIGNED cfg
     \<and> hdr h (heap_size cfg) = \<lparr>mem_next = MEM_SIZE_ALIGNED cfg, mem_prev = MEM_SIZE_ALIGNED cfg, mem_used = 1\<rparr>"

definition chained :: "heap_cfg \<Rightarrow> lwip_heap \<Rightarrow> block list \<Rightarrow> bool" where
  "chained cfg h bs \<longleftrightarrow> heap_base cfg h \<and> (\<exists>q. seg (hdr h) 0 0 bs q (heap_size cfg)) \<and> bs \<noteq> []"

definition blocks :: "heap_cfg \<Rightarrow> lwip_heap \<Rightarrow> block list \<Rightarrow> bool" where
  "blocks cfg h bs \<longleftrightarrow> chained cfg h bs \<and> separated bs \<and> lfree h = adr (ram h) (first_free bs)"

lemma seg_end: "seg g q p bs q' p' \<Longrightarrow> p' = p + sizes bs"
proof (induction bs arbitrary: q p)
  case (Cons b bs)
  then have "p' = p + fst b + sizes bs" by auto
  then show ?case by simp
qed simp

lemma seg_append: "seg g q p (xs @ ys) q' p' \<longleftrightarrow> (\<exists>r. seg g q p xs r (p + sizes xs) \<and> seg g r (p + sizes xs) ys q' p')"
proof (induction xs arbitrary: q p)
  case (Cons b xs)
  have "p + fst b + sizes xs = p + sizes (b # xs)" by simp
  then show ?case using Cons by (auto simp: ac_simps)
qed (auto dest: seg_end)

text \<open>A chain only reads the headers it passes.\<close>

lemma seg_cong:
  assumes "\<And>o'. p \<le> o' \<Longrightarrow> o' < p + sizes bs \<Longrightarrow> g' o' = g o'"
  shows "seg g q p bs q' p' \<Longrightarrow> seg g' q p bs q' p'"
  using assms
proof (induction bs arbitrary: q p)
  case (Cons b bs)
  have "g' p = g p" using Cons.prems by (intro Cons.prems(2)) (auto simp: block_ok_def)
  moreover have "seg g' p (p + fst b) bs q' p'"
    by (rule Cons.IH) (use Cons.prems in auto)
  ultimately show ?case using Cons.prems(1) by simp
qed simp

lemma seg_ok: "seg g q p bs q' p' \<Longrightarrow> \<forall>b \<in> set bs. block_ok b"
  by (induction bs arbitrary: q p) auto

lemma sizes_le: "\<forall>b \<in> set bs. block_ok b \<Longrightarrow> n + sizes bs \<le> n \<longleftrightarrow> bs = []"
  by (cases bs) (auto simp: block_ok_def)

lemma seg_last_header: "seg g q p bs q1 p1 \<Longrightarrow> seg g' q p bs q2 p2 \<Longrightarrow> q1 = q2"
  by (induction bs arbitrary: q p) auto

text \<open>Only the first header of a chain says what is before it.\<close>

lemma seg_prev:
  assumes "seg g q p bs q' p'" and "bs \<noteq> []"
    and "g' p = (g p)\<lparr>mem_prev := idx r\<rparr>" and "\<And>o'. p < o' \<Longrightarrow> o' < p + sizes bs \<Longrightarrow> g' o' = g o'"
  shows "seg g' r p bs q' p'"
proof (cases bs)
  case (Cons b cs)
  have "seg g' p (p + fst b) cs q' p'"
    by (rule seg_cong[of _ _ _ g]) (use assms Cons in \<open>auto simp: block_ok_def\<close>)
  then show ?thesis using assms Cons by simp
qed (use assms in simp)

section \<open>Offsets and addresses\<close>

lemma SIZES [simp]: "SIZEOF_STRUCT_MEM = 12" "MIN_SIZE_ALIGNED = 12"
  by (simp_all add: SIZEOF_STRUCT_MEM_def MIN_SIZE_ALIGNED_def MIN_SIZE_def lwip_mem_align_def)

lemma baseD:
  assumes "heap_base cfg h"
  shows "4 dvd unat (ram h)" and "room cfg (ram h)"
    and "ram_end h = ram h + MEM_SIZE_ALIGNED cfg"
    and "hdr h (heap_size cfg) = \<lparr>mem_next = MEM_SIZE_ALIGNED cfg, mem_prev = MEM_SIZE_ALIGNED cfg, mem_used = 1\<rparr>"
  using assms by (simp_all add: heap_base_def)

lemma unat_offset:
  assumes "room cfg r" and "k \<le> heap_size cfg + 11"
  shows "unat (adr r k) = unat r + k" and "unat (idx k) = k"
proof -
  have l: "unat r + k < 2 ^ 32" using assms unfolding room_def by linarith
  then show u: "unat (idx k) = k" unfolding idx_def using unat_of_nat32 by simp
  show "unat (adr r k) = unat r + k" using l u by (simp add: adr_def unat_plus_if_size word_size)
qed

lemma address_simps:
  assumes "room cfg r" and "a \<le> heap_size cfg + 11" and "b \<le> heap_size cfg + 11"
  shows "adr r a = adr r b \<longleftrightarrow> a = b" and "adr r a < adr r b \<longleftrightarrow> a < b"
    and "adr r a \<le> adr r b \<longleftrightarrow> a \<le> b" and "idx a = idx b \<longleftrightarrow> a = b"
    and "idx a < idx b \<longleftrightarrow> a < b" and "idx a \<le> idx b \<longleftrightarrow> a \<le> b"
  using unat_offset[OF assms(1,2)] unat_offset[OF assms(1,3)]
  by (simp_all only: word_less_nat_alt word_le_nat_alt word_unat_eq_iff nat_add_left_cancel_less
      nat_add_left_cancel_le add_left_cancel)

lemma idx_size: "idx (heap_size cfg) = MEM_SIZE_ALIGNED cfg" and idx_0 [simp]: "idx 0 = 0"
  by (simp_all add: idx_def)

lemma idx_add: "idx a + idx b = idx (a + b)" and idx_numeral: "idx (numeral w) = numeral w"
  and idx_unat: "idx (unat w') = w'"
  by (simp_all add: idx_def)

lemma adr_add: "adr r a + idx b = adr r (a + b)" and adr_0 [simp]: "adr r 0 = r"
  by (simp_all add: adr_def idx_add[symmetric] add.assoc)

lemma to_mem [simp]: "ptr_to_mem h (idx k) = adr (ram h) k" "ram h = r \<Longrightarrow> mem_to_ptr h (adr r k) = idx k"
  by (auto simp: ptr_to_mem_def mem_to_ptr_def adr_def)

lemma end_address: "heap_base cfg h \<Longrightarrow> ram_end h = adr (ram h) (heap_size cfg)"
  by (simp add: baseD(3) adr_def idx_size)

section \<open>Changing headers\<close>

lemma set_frame [simp]:
  "ram (set_next m v h) = ram h" "ram (set_prev m v h) = ram h" "ram (set_used m w h) = ram h"
  "ram_end (set_next m v h) = ram_end h" "ram_end (set_prev m v h) = ram_end h" "ram_end (set_used m w h) = ram_end h"
  "lfree (set_next m v h) = lfree h" "lfree (set_prev m v h) = lfree h" "lfree (set_used m w h) = lfree h"
  "mem_mutex (set_next m v h) = mem_mutex h" "mem_mutex (set_prev m v h) = mem_mutex h" "mem_mutex (set_used m w h) = mem_mutex h"
  "ram (call_mutex c h) = ram h" "ram_end (call_mutex c h) = ram_end h" "lfree (call_mutex c h) = lfree h"
  "structs (call_mutex c h) = structs h" "mem_mutex (call_mutex c h) = mem_mutex h @ [c]"
  by (simp_all add: set_next_def set_prev_def set_used_def call_mutex_def)

lemma set_structs [simp]:
  "structs (set_next m v h) = (structs h)(m := (structs h m)\<lparr>mem_next := v\<rparr>)"
  "structs (set_prev m v h) = (structs h)(m := (structs h m)\<lparr>mem_prev := v\<rparr>)"
  "structs (set_used m w h) = (structs h)(m := (structs h m)\<lparr>mem_used := w\<rparr>)"
  by (simp_all add: set_next_def set_prev_def set_used_def)

lemma hdr_lfree [simp]: "hdr (h\<lparr>lfree := a\<rparr>) = hdr h"
  by (simp add: hdr_def fun_eq_iff)

lemma hdr_mutex [simp]: "hdr (call_mutex c h) = hdr h"
  by (simp add: hdr_def fun_eq_iff)

lemma hdr_offset [simp]: "ram h = r \<Longrightarrow> structs h (adr r k) = hdr h k"
  by (auto simp: hdr_def)

lemma offset_0 [simp]: "structs h (ram h) = hdr h 0" "ptr_to_mem h 0 = ram h" "mem_to_ptr h (ram h) = 0"
  by (simp_all add: hdr_def ptr_to_mem_def mem_to_ptr_def)

lemma hdr_set:
  assumes "room cfg r" and "ram h = r" and "a \<le> heap_size cfg" and "k \<le> heap_size cfg"
  shows "hdr (set_next (adr r a) v h) k = (if k = a then (hdr h a)\<lparr>mem_next := v\<rparr> else hdr h k)"
    and "hdr (set_prev (adr r a) v h) k = (if k = a then (hdr h a)\<lparr>mem_prev := v\<rparr> else hdr h k)"
    and "hdr (set_used (adr r a) w h) k = (if k = a then (hdr h a)\<lparr>mem_used := w\<rparr> else hdr h k)"
  using address_simps(1)[OF assms(1), of k a] assms(2-4) by (auto simp: hdr_def simp del: hdr_offset offset_0)

text \<open>The base of the heap stays when nothing outside the blocks changes.\<close>

lemma base_cong:
  assumes "heap_base cfg h" and "ram h' = ram h" and "ram_end h' = ram_end h"
    and "hdr h' (heap_size cfg) = hdr h (heap_size cfg)"
  shows "heap_base cfg h'"
  using assms by (simp add: heap_base_def)

text \<open>
  A part \<open>ms\<close> of the chain is replaced by another one of the same length: the rest stays a chain when the
  first header behind the part points back to the new last header before it.
\<close>

lemma chain_splice:
  assumes c: "chained cfg h (xs @ ms @ ys)" and b: "heap_base cfg h'" and n: "sizes ms' = sizes ms" "ms' \<noteq> []"
    and s: "\<And>q. seg (hdr h) 0 0 xs q (sizes xs) \<Longrightarrow> seg (hdr h') q (sizes xs) ms' r (sizes xs + sizes ms)"
    and out: "\<And>o'. o' < sizes xs \<or> sizes xs + sizes ms < o' \<and> o' < heap_size cfg \<Longrightarrow> hdr h' o' = hdr h o'"
    and lk: "ys \<noteq> [] \<Longrightarrow> hdr h' (sizes xs + sizes ms) = (hdr h (sizes xs + sizes ms))\<lparr>mem_prev := idx r\<rparr>"
  shows "chained cfg h' (xs @ ms' @ ys)"
proof -
  obtain q' q1 q2 where g: "seg (hdr h) 0 0 xs q1 (sizes xs)" "seg (hdr h) q1 (sizes xs) ms q2 (sizes xs + sizes ms)"
    "seg (hdr h) q2 (sizes xs + sizes ms) ys q' (heap_size cfg)"
    using c unfolding chained_def seg_append by (auto simp: add.commute)
  have "seg (hdr h') 0 0 xs q1 (sizes xs)" by (rule seg_cong[OF _ g(1)]) (simp add: out)
  moreover have "seg (hdr h') q1 (sizes xs) ms' r (sizes xs + sizes ms)" by (rule s[OF g(1)])
  moreover have "\<exists>q'. seg (hdr h') r (sizes xs + sizes ms) ys q' (heap_size cfg)"
  proof (cases "ys = []")
    case True
    then show ?thesis using g(3) by simp
  next
    case False
    have "seg (hdr h') r (sizes xs + sizes ms) ys q' (heap_size cfg)"
      by (rule seg_prev[OF g(3) False]) (use lk[OF False] out seg_end[OF g(3)] in simp_all)
    then show ?thesis by blast
  qed
  ultimately show ?thesis using b n unfolding chained_def seg_append by auto
qed

text \<open>What a chain says about the block at an offset.\<close>

lemma chain_at:
  assumes "chained cfg h (xs @ (n, u) # ys)"
  obtains q where "seg (hdr h) 0 0 xs q (sizes xs)"
    and "hdr h (sizes xs) = \<lparr>mem_next = idx (sizes xs + n), mem_prev = idx q, mem_used = of_bool u\<rparr>"
    and "24 \<le> n" "4 dvd n" "4 dvd sizes xs" "sizes xs + n + sizes ys = heap_size cfg" "xs = [] \<longrightarrow> q = 0"
    and "\<forall>b \<in> set ys. block_ok b"
    and "\<And>k v zs. xs = zs @ [(k, v)] \<Longrightarrow> q = sizes zs"
    and "\<And>k v zs. ys = (k, v) # zs \<Longrightarrow> hdr h (sizes xs + n) = \<lparr>mem_next = idx (sizes xs + n + k), mem_prev = idx (sizes xs),
      mem_used = of_bool v\<rparr> \<and> 24 \<le> k"
proof -
  obtain q q' where g: "seg (hdr h) 0 0 xs q (sizes xs)" "seg (hdr h) q (sizes xs) ((n, u) # ys) q' (heap_size cfg)"
    using assms unfolding chained_def seg_append by auto
  have d: "4 dvd sizes xs" using seg_ok[OF g(1)] by (induction xs) (auto simp: block_ok_def)
  have "q = sizes zs" if "xs = zs @ [(k, v)]" for k v zs
    using g(1) unfolding that seg_append by auto
  then show ?thesis using g d seg_end[OF g(2)] seg_ok[OF g(2)] by (intro that[of q]) (auto simp: block_ok_def)
qed

end
