(* ===== verification/Lwip_Heap_Ops.thy ===== *)
theory Lwip_Heap_Ops
  imports Lwip_Heap_Blocks
begin

text \<open>The operations of lwIP's heap on its list of blocks.\<close>

definition listed :: "heap_cfg \<Rightarrow> lwip_heap \<Rightarrow> block list \<Rightarrow> bool" where
  "listed cfg h bs \<longleftrightarrow> chained cfg h bs \<and> lfree h = adr (ram h) (first_free bs)"

lemma blocks_listed: "blocks cfg h bs \<longleftrightarrow> listed cfg h bs \<and> separated bs"
  by (auto simp: blocks_def listed_def)

text \<open>The parts of the heap no operation changes.\<close>

definition same_place :: "lwip_heap \<Rightarrow> lwip_heap \<Rightarrow> bool" where
  "same_place h h' \<longleftrightarrow> ram h' = ram h \<and> ram_end h' = ram_end h"

section \<open>Lists of blocks\<close>

lemma first_free_append:
  "first_free (xs @ ys) = (if \<forall>b \<in> set xs. snd b then sizes xs + first_free ys else first_free xs)"
  by (induction xs rule: first_free.induct) auto

lemma first_free_le: "first_free bs \<le> sizes bs"
  by (induction bs rule: first_free.induct) auto

lemma first_free_joined: "first_free (xs @ (n, False) # (k, False) # ys) = first_free (xs @ (n + k, False) # ys)"
  by (simp add: first_free_append)

lemma first_free_before: "first_free (xs @ (n, False) # ys) \<le> sizes xs"
  using first_free_le[of xs] by (simp add: first_free_append)

lemma coalesce_used: "coalesce ((n, True) # bs) = (n, True) # coalesce bs"
  by simp

lemma coalesce_joined: "coalesce (xs @ (n, False) # (k, False) # ys) = coalesce (xs @ (n + k, False) # ys)"
proof (induction "length xs" arbitrary: xs)
  case 0
  then show ?case by simp
next
  case (Suc l)
  then obtain m v zs where xs: "xs = (m, v) # zs" by (cases xs) auto
  show ?case
  proof (cases "v \<or> zs \<noteq> [] \<and> snd (hd zs)")
    case True
    then show ?thesis using Suc(1)[of zs] Suc(2) xs by (cases v; cases zs) auto
  next
    case False
    show ?thesis
    proof (cases zs)
      case Nil
      then show ?thesis using xs False by (simp add: add.assoc)
    next
      case (Cons b ws)
      then obtain j where "zs = (j, False) # ws" using False by (cases b) auto
      then show ?thesis using Suc(1)[of "(m + j, False) # ws"] Suc(2) xs False by simp
    qed
  qed
qed

lemma coalesce_separated: "separated bs \<Longrightarrow> coalesce bs = bs"
  by (induction bs rule: coalesce.induct) (auto simp: successively_Cons)

section \<open>Joining free blocks\<close>

text \<open>The header at \<open>a\<close> is made to reach to the one at \<open>b\<close>, as both halves of \<open>plug_holes\<close> do.\<close>

definition linked :: "heap_cfg \<Rightarrow> nat \<Rightarrow> nat \<Rightarrow> lwip_heap \<Rightarrow> lwip_heap" where
  "linked cfg a b h = (if b < heap_size cfg then set_prev (adr (ram h) b) (idx a) else id) (set_next (adr (ram h) a) (idx b) h)"

lemma linked_frame [simp]:
  "ram (linked cfg a b h) = ram h" "ram_end (linked cfg a b h) = ram_end h" "lfree (linked cfg a b h) = lfree h"
  "mem_mutex (linked cfg a b h) = mem_mutex h"
  by (simp_all add: linked_def)

lemma hdr_linked:
  assumes "room cfg (ram h)" and "a < b" and "b \<le> heap_size cfg" and "j \<le> heap_size cfg"
  shows "hdr (linked cfg a b h) j = (if j = a then (hdr h a)\<lparr>mem_next := idx b\<rparr>
      else if j = b \<and> b < heap_size cfg then (hdr h j)\<lparr>mem_prev := idx a\<rparr> else hdr h j)"
  using assms(2-4) by (auto simp: linked_def hdr_set[OF assms(1)])

lemma join_blocks:
  assumes l: "listed cfg h (xs @ (n, False) # (k, False) # zs)"
  shows "listed cfg (linked cfg (sizes xs) (sizes xs + n + k) h) (xs @ (n + k, False) # zs)"
proof -
  let ?p = "sizes xs" and ?h = "linked cfg (sizes xs) (sizes xs + n + k) h"
  have c: "chained cfg h (xs @ (n, False) # (k, False) # zs)" using l by (simp add: listed_def)
  obtain q where q: "seg (hdr h) 0 0 xs q ?p"
    "hdr h ?p = \<lparr>mem_next = idx (?p + n), mem_prev = idx q, mem_used = of_bool False\<rparr>"
    "24 \<le> n" "4 dvd n" "?p + n + (k + sizes zs) = heap_size cfg" "\<forall>b \<in> set ((k, False) # zs). block_ok b"
    by (rule chain_at[OF c]) simp
  have b: "heap_base cfg h" using c by (simp add: chained_def)
  have pos: "zs = [] \<or> ?p + n + k < heap_size cfg" using sizes_le[of zs "?p + n + k"] q(5,6) by fastforce
  note hd = hdr_linked[OF baseD(2)[OF b], of ?p "?p + n + k"]
  have "chained cfg ?h (xs @ [(n + k, False)] @ zs)"
  proof (rule chain_splice[of cfg h xs "[(n, False), (k, False)]" zs ?h "[(n + k, False)]" ?p])
    show "heap_base cfg ?h" by (rule base_cong[OF b]) (use hd q(3,5) in auto)
    show "seg (hdr ?h) q' ?p [(n + k, False)] ?p (?p + sizes [(n, False), (k, False)])"
      if "seg (hdr h) 0 0 xs q' ?p" for q'
    proof -
      have "q' = q" using that q(1) seg_last_header by blast
      then show ?thesis using hd[of ?p] q(2-6) by (simp add: block_ok_def add.assoc)
    qed
  qed (use c hd q(3,5) pos in \<open>auto simp: add.assoc\<close>)
  then show ?thesis using l by (simp add: listed_def first_free_joined)
qed

text \<open>Each half of \<open>plug_holes\<close> joins two neighbours or leaves the heap alone.\<close>

lemma plug_forward_blocks:
  assumes l: "listed cfg h (xs @ (n, False) # ys)"
  shows "plug_forward cfg (adr (ram h) (sizes xs)) h =
    (if \<exists>k zs. ys = (k, False) # zs then linked cfg (sizes xs) (sizes xs + n + fst (hd ys)) h else h)"
proof -
  let ?p = "sizes xs"
  have c: "chained cfg h (xs @ (n, False) # ys)" and lf: "lfree h = adr (ram h) (first_free (xs @ (n, False) # ys))"
    using l by (simp_all add: listed_def)
  obtain q where q: "hdr h ?p = \<lparr>mem_next = idx (?p + n), mem_prev = idx q, mem_used = of_bool False\<rparr>"
    "24 \<le> n" "?p + n + sizes ys = heap_size cfg" "\<forall>b \<in> set ys. block_ok b"
    "\<And>k v zs. ys = (k, v) # zs \<Longrightarrow> hdr h (?p + n) = \<lparr>mem_next = idx (?p + n + k), mem_prev = idx ?p,
        mem_used = of_bool v\<rparr> \<and> 24 \<le> k"
    by (rule chain_at[OF c]) blast
  have b: "heap_base cfg h" using c by (simp add: chained_def)
  note ad = address_simps[OF baseD(2)[OF b]]
  show ?thesis
  proof (cases ys)
    case Nil
    then show ?thesis using q(1,3) end_address[OF b] by (simp add: plug_forward_def Let_def)
  next
    case (Cons z zs)
    then obtain k v where ys: "ys = (k, v) # zs" by (cases z) auto
    note k = q(5)[OF ys]
    have M: "?p + n + k + sizes zs = heap_size cfg" using q(3) ys by simp
    have lt: "?p + n < heap_size cfg" using k M by simp
    have "first_free (xs @ (n, False) # ys) < ?p + n" using first_free_before[of xs n ys] q(2) by linarith
    then have nl: "lfree h \<noteq> adr (ram h) (?p + n)" unfolding lf using ad(1) lt by simp
    have nm: "adr (ram h) ?p \<noteq> adr (ram h) (?p + n)" "adr (ram h) (?p + n) \<noteq> ram_end h"
      unfolding end_address[OF b] using ad(1) lt q(2) by simp_all
    have "idx (?p + n + k) \<noteq> MEM_SIZE_ALIGNED cfg \<longleftrightarrow> ?p + n + k < heap_size cfg"
      using ad(4)[of "?p + n + k" "heap_size cfg", unfolded idx_size] M by (auto simp: less_le)
    then show ?thesis using q(1) k nl nm ys by (auto simp: plug_forward_def linked_def Let_def)
  qed
qed

lemma plug_backward_blocks:
  assumes l: "listed cfg h (xs @ (n, False) # ys)"
  shows "plug_backward cfg (adr (ram h) (sizes xs)) h =
    (if \<exists>k zs. xs = zs @ [(k, False)] then linked cfg (sizes (butlast xs)) (sizes xs + n) h else h)"
proof -
  let ?p = "sizes xs"
  have c: "chained cfg h (xs @ (n, False) # ys)" and lf: "lfree h = adr (ram h) (first_free (xs @ (n, False) # ys))"
    using l by (simp_all add: listed_def)
  obtain q where q: "hdr h ?p = \<lparr>mem_next = idx (?p + n), mem_prev = idx q, mem_used = of_bool False\<rparr>"
    "24 \<le> n" "?p + n + sizes ys = heap_size cfg" "xs = [] \<longrightarrow> q = 0"
    "\<And>k v zs. xs = zs @ [(k, v)] \<Longrightarrow> q = sizes zs"
    by (rule chain_at[OF c]) blast
  have b: "heap_base cfg h" using c by (simp add: chained_def)
  note ad = address_simps[OF baseD(2)[OF b]]
  show ?thesis
  proof (cases xs rule: rev_cases)
    case Nil
    then show ?thesis using q(1,4) by (simp add: plug_backward_def Let_def)
  next
    case (snoc zs z)
    then obtain k v where xs: "xs = zs @ [(k, v)]" by (cases z) auto
    have "chained cfg h (zs @ (k, v) # (n, False) # ys)" using c xs by simp
    then obtain q' where k: "hdr h (sizes zs) = \<lparr>mem_next = idx ?p, mem_prev = idx q', mem_used = of_bool v\<rparr>" "24 \<le> k"
      by (rule chain_at) (simp add: xs)
    have p: "?p = sizes zs + k" using xs by simp
    have nl: "lfree h \<noteq> adr (ram h) ?p" if "\<not> v"
    proof -
      have "first_free (xs @ (n, False) # ys) < ?p"
        using first_free_before[of zs k "(n, False) # ys"] k(2) that unfolding xs by simp
      then show ?thesis unfolding lf using ad(1) q(3) by simp
    qed
    have nm: "adr (ram h) (sizes zs) \<noteq> adr (ram h) ?p" using ad(1) p q(3) k(2) by simp
    have "idx (?p + n) \<noteq> MEM_SIZE_ALIGNED cfg \<longleftrightarrow> ?p + n < heap_size cfg"
      using ad(4)[of "?p + n" "heap_size cfg", unfolded idx_size] q(3) by (auto simp: less_le)
    then show ?thesis using q(1) q(5)[OF xs] k nl nm xs by (auto simp: plug_backward_def linked_def Let_def)
  qed
qed

lemma listedD:
  assumes "listed cfg h bs"
  shows "chained cfg h bs" and "heap_base cfg h" and "room cfg (ram h)" and "lfree h = adr (ram h) (first_free bs)"
  using assms baseD(2) by (auto simp: listed_def chained_def)

lemma plug_holes_blocks:
  assumes l: "listed cfg h (xs @ (n, False) # ys)" and s: "separated (xs @ (n, True) # ys)"
  obtains h' where "plug_holes cfg (adr (ram h) (sizes xs)) h = Some h'"
    and "blocks cfg h' (coalesce (xs @ (n, False) # ys))" and "same_place h h'" and "mem_mutex h' = mem_mutex h"
proof -
  let ?p = "sizes xs" and ?m = "adr (ram h) (sizes xs)"
  note c = listedD[OF l]
  obtain q where q: "hdr h ?p = \<lparr>mem_next = idx (?p + n), mem_prev = idx q, mem_used = of_bool False\<rparr>"
    "24 \<le> n" "?p + n + sizes ys = heap_size cfg" by (rule chain_at[OF c(1)]) blast
  have as: "?m \<ge> ram h" "?m < ram_end h" "mem_used (structs h ?m) = 0" "mem_next (structs h ?m) \<le> MEM_SIZE_ALIGNED cfg"
    using address_simps(3)[OF c(3), of 0 ?p] address_simps(2)[OF c(3), of ?p "heap_size cfg"]
      address_simps(6)[OF c(3), of "?p + n" "heap_size cfg", unfolded idx_size] q end_address[OF c(2)] by simp_all
  let ?h1 = "plug_forward cfg ?m h"
  have "\<exists>n1 ys1. listed cfg ?h1 (xs @ (n1, False) # ys1) \<and> same_place h ?h1 \<and> mem_mutex ?h1 = mem_mutex h
      \<and> coalesce (xs @ (n1, False) # ys1) = coalesce (xs @ (n, False) # ys) \<and> separated (xs @ (n1, True) # ys1)
      \<and> (ys1 = [] \<or> snd (hd ys1))"
  proof (cases "\<exists>k zs. ys = (k, False) # zs")
    case True
    then obtain k zs where ys: "ys = (k, False) # zs" by blast
    have "?h1 = linked cfg ?p (?p + n + k) h" using plug_forward_blocks[OF l] ys by simp
    moreover have "listed cfg (linked cfg ?p (?p + n + k) h) (xs @ (n + k, False) # zs)"
      using join_blocks l unfolding ys by blast
    ultimately show ?thesis using s unfolding ys
      by (intro exI[of _ "n + k"] exI[of _ zs])
        (auto simp: same_place_def coalesce_joined successively_append_iff successively_Cons)
  next
    case False
    then have "ys = [] \<or> snd (hd ys)" by (cases ys) auto
    moreover have "?h1 = h" using plug_forward_blocks[OF l] False by auto
    ultimately show ?thesis using l s by (auto simp: same_place_def)
  qed
  then obtain n1 ys1 where 1: "listed cfg ?h1 (xs @ (n1, False) # ys1)" "same_place h ?h1" "mem_mutex ?h1 = mem_mutex h"
    "coalesce (xs @ (n1, False) # ys1) = coalesce (xs @ (n, False) # ys)" "separated (xs @ (n1, True) # ys1)"
    "ys1 = [] \<or> snd (hd ys1)" by blast
  let ?h2 = "plug_backward cfg ?m ?h1"
  have "?m = adr (ram ?h1) ?p" using 1(2) by (simp add: same_place_def)
  then have pb: "?h2 = (if \<exists>k zs. xs = zs @ [(k, False)] then linked cfg (sizes (butlast xs)) (sizes xs + n1) ?h1 else ?h1)"
    using plug_backward_blocks[OF 1(1)] by metis
  have "\<exists>bs. listed cfg ?h2 bs \<and> same_place ?h1 ?h2 \<and> mem_mutex ?h2 = mem_mutex ?h1
      \<and> coalesce bs = coalesce (xs @ (n1, False) # ys1) \<and> separated bs"
  proof (cases "\<exists>k zs. xs = zs @ [(k, False)]")
    case True
    then obtain k zs where xs: "xs = zs @ [(k, False)]" by blast
    have "?h2 = linked cfg (sizes zs) (sizes zs + k + n1) ?h1" using pb xs by simp
    moreover have "listed cfg (linked cfg (sizes zs) (sizes zs + k + n1) ?h1) (zs @ (k + n1, False) # ys1)"
      using join_blocks 1(1) unfolding xs by simp
    ultimately show ?thesis using 1(5,6) unfolding xs
      by (intro exI[of _ "zs @ (k + n1, False) # ys1"])
        (auto simp: same_place_def coalesce_joined successively_append_iff successively_Cons)
  next
    case False
    then have "xs = [] \<or> snd (last xs)" by (cases xs rule: rev_cases) auto
    then have "separated (xs @ (n1, False) # ys1)" using 1(5,6)
      by (auto simp: successively_append_iff successively_Cons)
    moreover have "?h2 = ?h1" using pb False by auto
    ultimately show ?thesis using 1(1) by (auto simp: same_place_def)
  qed
  then obtain bs where 2: "listed cfg ?h2 bs" "same_place ?h1 ?h2" "mem_mutex ?h2 = mem_mutex ?h1"
    "coalesce bs = coalesce (xs @ (n1, False) # ys1)" "separated bs" by blast
  have "coalesce (xs @ (n, False) # ys) = bs" using 1(4) 2(4) coalesce_separated[OF 2(5)] by simp
  then have "blocks cfg ?h2 (coalesce (xs @ (n, False) # ys))" using 2(1,5) by (simp add: blocks_listed)
  then show ?thesis
    by (intro that[of ?h2]) (use as 1(2,3) 2(2,3) in \<open>simp_all add: plug_holes_def lwip_assert_def same_place_def\<close>)
qed

section \<open>The checks\<close>

lemma unat_lt32: "unat (a :: u32) < 2 ^ 32"
  by (rule order_less_le_trans[OF unsigned_less]) simp

lemma unat_mem_align: "unat (lwip_mem_align a) = (if unat a + 3 < 2 ^ 32 then (unat a + 3) div 4 * 4 else 0)"
proof -
  have m: "(3 :: u32) = mask 2" by (simp add: mask_eq_exp_minus_1)
  have "x AND NOT (mask 2) = push_bit 2 (drop_bit 2 x)" for x :: u32
  proof (rule bit_word_eqI)
    fix n assume "n < LENGTH(32)"
    moreover have "2 \<le> n \<Longrightarrow> Suc (Suc (n - 2)) = n" by simp
    ultimately show "bit (x AND NOT (mask 2)) n = bit (push_bit 2 (drop_bit 2 x)) n" by (auto simp: bit_simps)
  qed
  then have e: "lwip_mem_align a = push_bit 2 (drop_bit 2 (a + 3))" unfolding lwip_mem_align_def m by simp
  have "unat (push_bit 2 (drop_bit 2 x)) = unat x div 4 * 4" for x :: u32
  proof -
    have "unat x div 4 * 4 < 2 ^ 32" using unat_lt32[of x] by (simp add: order_le_less_trans[OF div_times_less_eq_dividend])
    then show ?thesis using unat_lt32[of x]
      by (simp only: unsigned_push_bit_eq unsigned_drop_bit_eq)
        (simp add: push_bit_eq_mult drop_bit_eq_div take_bit_eq_mod mult.commute)
  qed
  moreover have "unat (a + 3) = (if unat a + 3 < 2 ^ 32 then unat a + 3 else unat a + 3 - 2 ^ 32)"
    using unat_lt32[of a] by (simp add: unat_plus_if_size word_size)
  moreover have "(unat a + 3 - 2 ^ 32) div 4 = 0" using unat_lt32[of a] by simp
  ultimately show ?thesis unfolding e by simp
qed

lemma unat_numeral_4: "unat (4 :: u32) = 4"
  by simp

lemma aligned_word:
  fixes a :: u32
  assumes "4 dvd unat a"
  shows "a AND 3 = 0" and "lwip_mem_align a = a" and "a mod 4 = 0"
proof -
  have m: "(3 :: u32) = mask 2" by (simp add: mask_eq_exp_minus_1)
  have z: "unat a mod 4 = 0" using assms by presburger
  have "unat (take_bit 2 a) = 0" using z by (simp only: unsigned_take_bit_eq) (simp add: take_bit_eq_mod)
  then show "a AND 3 = 0" unfolding m take_bit_eq_mask[symmetric] by (simp add: unat_eq_0)
  obtain k where k: "unat a = 4 * k" using assms by blast
  have "4 * k < 2 ^ 32" using unat_lt32[of a] k by simp
  then have "unat a + 3 < 2 ^ 32" using k by simp
  then have "unat (lwip_mem_align a) = unat a" using k by (simp add: unat_mem_align)
  then show "lwip_mem_align a = a" by (simp add: word_unat_eq_iff)
  show "a mod 4 = 0" using assms by (metis unat_mod_distrib unat_eq_0 mod_0_imp_dvd dvd_imp_mod_0 unat_numeral_4)
qed

lemma link_valid_at:
  assumes c: "chained cfg h (xs @ (n, u) # ys)"
  shows "mem_link_valid cfg (adr (ram h) (sizes xs)) h"
proof -
  let ?p = "sizes xs"
  obtain q where q: "hdr h ?p = \<lparr>mem_next = idx (?p + n), mem_prev = idx q, mem_used = of_bool u\<rparr>"
    "24 \<le> n" "?p + n + sizes ys = heap_size cfg" "xs = [] \<longrightarrow> q = 0"
    "\<And>k v zs. xs = zs @ [(k, v)] \<Longrightarrow> q = sizes zs"
    "\<And>k v zs. ys = (k, v) # zs \<Longrightarrow> hdr h (?p + n) = \<lparr>mem_next = idx (?p + n + k), mem_prev = idx ?p,
        mem_used = of_bool v\<rparr> \<and> 24 \<le> k"
    by (rule chain_at[OF c]) blast
  have b: "heap_base cfg h" using c by (simp add: chained_def)
  note ad = address_simps[OF baseD(2)[OF b]]
  have le: "q \<le> ?p" using q(4,5) by (cases xs rule: rev_cases) auto
  have 1: "idx (?p + n) \<le> MEM_SIZE_ALIGNED cfg" "idx q \<le> MEM_SIZE_ALIGNED cfg"
    using ad(6)[of _ "heap_size cfg", unfolded idx_size] q(3) le by simp_all
  have 2: "idx q = idx ?p \<or> mem_next (hdr h q) = idx ?p"
  proof (cases xs rule: rev_cases)
    case (snoc zs z)
    then obtain k v where xs: "xs = zs @ [(k, v)]" by (cases z) auto
    have "chained cfg h (zs @ (k, v) # (n, u) # ys)" using c xs by simp
    then have "mem_next (hdr h (sizes zs)) = idx ?p" by (rule chain_at) (simp add: xs)
    then show ?thesis using q(5)[OF xs] by simp
  qed (use q(4) in simp)
  have 3: "adr (ram h) (?p + n) = ram_end h \<or> mem_prev (hdr h (?p + n)) = idx ?p"
    using q(3,6) end_address[OF b] by (cases ys) auto
  show ?thesis using 1 2 3 q(1) by (auto simp: mem_link_valid_def Let_def)
qed

text \<open>The program's own check of the heap passes on every chain without free neighbours.\<close>

lemma adr_aligned:
  assumes "heap_base cfg h" and "k \<le> heap_size cfg + 11" and "4 dvd k"
  shows "4 dvd unat (adr (ram h) k)"
  using unat_offset(1)[OF baseD(2)[OF assms(1)] assms(2)] baseD(1)[OF assms(1)] assms(3) by simp

lemma sanity_loop_ok:
  assumes "chained cfg h (xs @ ys)" and "separated (xs @ ys)" and "xs \<noteq> []"
  shows "sanity_loop cfg h (adr (ram h) (sizes xs)) (of_bool (snd (last xs))) = Some (ram_end h)"
  using assms
proof (induction ys arbitrary: xs)
  case Nil
  have "sizes xs = heap_size cfg" using Nil.prems(1) seg_end unfolding chained_def by fastforce
  then have "ram_end h = adr (ram h) (sizes xs)" using end_address[of cfg h] Nil.prems(1) by (simp add: chained_def)
  then show ?case by (subst sanity_loop.simps) simp
next
  case (Cons y ys)
  obtain n u where y: "y = (n, u)" by (cases y)
  have c: "chained cfg h (xs @ (n, u) # ys)" using Cons.prems(1) y by simp
  obtain q where q: "hdr h (sizes xs) = \<lparr>mem_next = idx (sizes xs + n), mem_prev = idx q, mem_used = of_bool u\<rparr>"
    "24 \<le> n" "4 dvd sizes xs" "sizes xs + n + sizes ys = heap_size cfg"
    "\<And>k v zs. xs = zs @ [(k, v)] \<Longrightarrow> q = sizes zs"
    by (rule chain_at[OF c]) blast
  have b: "heap_base cfg h" using c by (simp add: chained_def)
  note ad = address_simps[OF baseD(2)[OF b]]
  obtain zs k v where xs: "xs = zs @ [(k, v)]" using Cons.prems(3) by (cases xs rule: rev_cases) auto
  have "chained cfg h (zs @ (k, v) # y # ys)" using Cons.prems(1) xs by simp
  then have k: "24 \<le> k" by (rule chain_at)
  have lt: "ram h < adr (ram h) (sizes xs)" "adr (ram h) (sizes xs) < ram_end h"
    using ad(2)[of 0 "sizes xs"] ad(2)[of "sizes xs" "heap_size cfg"] q(2,4) k xs end_address[OF b] by simp_all
  have le: "idx (sizes xs + n) \<le> MEM_SIZE_ALIGNED cfg" "idx q \<le> MEM_SIZE_ALIGNED cfg"
    using ad(6)[of _ "heap_size cfg", unfolded idx_size] q(4) q(5)[OF xs] xs by simp_all
  have al: "lwip_mem_align (adr (ram h) (sizes xs)) = adr (ram h) (sizes xs)"
    by (rule aligned_word(2)[OF adr_aligned[OF b _ q(3)]]) (use q(4) in simp)
  have sep: "snd (last xs) \<or> u" using Cons.prems(2) y xs by (auto simp: successively_append_iff)
  have "sanity_loop cfg h (adr (ram h) (sizes (xs @ [y]))) (of_bool (snd (last (xs @ [y])))) = Some (ram_end h)"
    by (rule Cons.IH) (use Cons.prems in simp_all)
  then show ?case
    using lt le al sep link_valid_at[OF c] q(1) y
    by (subst sanity_loop.simps) (auto simp: lwip_assert_def)
qed

lemma mem_sanity_ok:
  assumes c: "chained cfg h bs" and s: "separated bs"
  shows "mem_sanity cfg h = Some ()" and "MEM_SANITY cfg h = Some ()"
proof -
  obtain n u ys where bs: "bs = [] @ (n, u) # ys" using c by (cases bs) (auto simp: chained_def)
  obtain q where q: "hdr h 0 = \<lparr>mem_next = idx n, mem_prev = idx q, mem_used = of_bool u\<rparr>" "q = 0"
    "n + sizes ys = heap_size cfg"
    by (rule chain_at[OF c[unfolded bs]]) simp
  have b: "heap_base cfg h" using c by (simp add: chained_def)
  have "sanity_loop cfg h (adr (ram h) n) (of_bool u) = Some (ram_end h)"
    using sanity_loop_ok[of cfg h "[(n, u)]" ys] c s bs by simp
  moreover have "idx n \<le> MEM_SIZE_ALIGNED cfg"
    using address_simps(6)[OF baseD(2)[OF b], of n "heap_size cfg", unfolded idx_size] q(3) by simp
  moreover have "ptr_to_mem h (MEM_SIZE_ALIGNED cfg) = ram_end h" using baseD(3)[OF b] by (simp add: ptr_to_mem_def)
  moreover have "structs h (ram_end h) = hdr h (heap_size cfg)" unfolding end_address[OF b] by simp
  ultimately show "mem_sanity cfg h = Some ()"
    using q baseD(4)[OF b] by (simp add: mem_sanity_def lwip_assert_def)
  then show "MEM_SANITY cfg h = Some ()" by (simp add: MEM_SANITY_def)
qed

end
