(* ===== verification/Lwip_Heap_Calls.thy ===== *)
theory Lwip_Heap_Calls
  imports Lwip_Heap_Ops
begin

text \<open>The calls of lwIP's heap: what freeing, allocating and shrinking do to the list of blocks.\<close>

section \<open>Freeing\<close>

lemma mutex_blocks [simp]: "chained cfg (call_mutex c h) bs = chained cfg h bs" "listed cfg (call_mutex c h) bs = listed cfg h bs"
  "blocks cfg (call_mutex c h) bs = blocks cfg h bs"
  by (simp_all add: listed_def blocks_def chained_def heap_base_def)

lemma lfree_chained [simp]: "chained cfg (h\<lparr>lfree := a\<rparr>) bs = chained cfg h bs"
  by (simp add: chained_def heap_base_def)

text \<open>A change of the use of one block.\<close>

lemma set_used_chained:
  assumes c: "chained cfg h (xs @ (n, u) # ys)"
  shows "chained cfg (set_used (adr (ram h) (sizes xs)) (of_bool v) h) (xs @ (n, v) # ys)"
proof -
  let ?p = "sizes xs" and ?h = "set_used (adr (ram h) (sizes xs)) (of_bool v) h"
  obtain q where q: "seg (hdr h) 0 0 xs q ?p"
    "hdr h ?p = \<lparr>mem_next = idx (?p + n), mem_prev = idx q, mem_used = of_bool u\<rparr>"
    "24 \<le> n" "4 dvd n" "?p + n + sizes ys = heap_size cfg" "\<forall>b \<in> set ys. block_ok b"
    "\<And>k v zs. ys = (k, v) # zs \<Longrightarrow> hdr h (?p + n) = \<lparr>mem_next = idx (?p + n + k), mem_prev = idx ?p,
        mem_used = of_bool v\<rparr> \<and> 24 \<le> k"
    by (rule chain_at[OF c]) blast
  have b: "heap_base cfg h" using c by (simp add: chained_def)
  note hd = hdr_set(3)[OF baseD(2)[OF b] refl, of ?p]
  have "chained cfg ?h (xs @ [(n, v)] @ ys)"
  proof (rule chain_splice[of cfg h xs "[(n, u)]" ys ?h "[(n, v)]" ?p])
    show "heap_base cfg ?h" by (rule base_cong[OF b]) (use hd q(3,5) in auto)
    show "seg (hdr ?h) q' ?p [(n, v)] ?p (?p + sizes [(n, u)])" if "seg (hdr h) 0 0 xs q' ?p" for q'
    proof -
      have "q' = q" using that q(1) seg_last_header by blast
      then show ?thesis using hd[of ?p] q(2-5) by (simp add: block_ok_def)
    qed
    show "hdr ?h (?p + sizes [(n, u)]) = (hdr h (?p + sizes [(n, u)]))\<lparr>mem_prev := idx ?p\<rparr>" if "ys \<noteq> []"
      using that q(7) hd[of "?p + n"] q(3,5) by (cases ys) auto
  qed (use c hd q(3,5) in auto)
  then show ?thesis by simp
qed

lemma first_free_after_free:
  "first_free (xs @ (n, False) # ys) = min (sizes xs) (first_free (xs @ (n, True) # ys))"
  using first_free_le[of xs] by (auto simp: first_free_append min_def)

lemma heap_free_blocks:
  assumes bl: "blocks cfg h (xs @ (n, True) # ys)"
  obtains h' where "heap_mem_free cfg (adr (ram h) (sizes xs + 12)) h = Some h'"
    and "blocks cfg h' (coalesce (xs @ (n, False) # ys))" and "same_place h h'"
    and "mem_mutex h' = mem_mutex h @ [mutex_lock, mutex_unlock]"
proof -
  let ?p = "sizes xs" and ?m = "adr (ram h) (sizes xs)" and ?r = "adr (ram h) (sizes xs + 12)"
  have c: "chained cfg h (xs @ (n, True) # ys)" and sep: "separated (xs @ (n, True) # ys)"
    and lf: "lfree h = adr (ram h) (first_free (xs @ (n, True) # ys))" using bl by (simp_all add: blocks_def)
  obtain q where q: "hdr h ?p = \<lparr>mem_next = idx (?p + n), mem_prev = idx q, mem_used = of_bool True\<rparr>"
    "24 \<le> n" "4 dvd ?p" "?p + n + sizes ys = heap_size cfg" by (rule chain_at[OF c]) blast
  have b: "heap_base cfg h" using c by (simp add: chained_def)
  note ad = address_simps[OF baseD(2)[OF b]] and of = unat_offset[OF baseD(2)[OF b]]
  have r: "?r \<noteq> 0" "?r AND 3 = 0" "?r - 12 = ?m" "?r + 12 = adr (ram h) (?p + 24)"
    using of(1)[of "?p + 12"] q aligned_word(1)[OF adr_aligned[OF b, of "?p + 12"]]
    by (auto simp: adr_def idx_def)
  have ok: "\<not> (?m < ram h \<or> ?r + 12 > ram_end h)"
    unfolding r(4) end_address[OF b] using ad(2)[of ?p 0] ad(2)[of "heap_size cfg" "?p + 24"] q(2,4) by simp
  let ?h2 = "set_used ?m 0 (call_mutex mutex_lock h)"
  let ?h3 = "if ?m < lfree ?h2 then ?h2\<lparr>lfree := ?m\<rparr> else ?h2"
  have "chained cfg ?h2 (xs @ (n, False) # ys)"
    using set_used_chained[of cfg "call_mutex mutex_lock h" xs n True ys False] c by simp
  moreover have "lfree ?h3 = adr (ram h) (first_free (xs @ (n, False) # ys))"
  proof -
    have "first_free (xs @ (n, True) # ys) \<le> heap_size cfg"
      using first_free_le[of "xs @ (n, True) # ys"] q(4) by simp
    then show ?thesis using ad(2)[of ?p "first_free (xs @ (n, True) # ys)"] q(4) lf
      by (simp add: first_free_after_free min_def)
  qed
  ultimately have l3: "listed cfg ?h3 (xs @ (n, False) # ys)" by (simp add: listed_def)
  have m3: "ram ?h3 = ram h" by simp
  obtain h4 where h4: "plug_holes cfg (adr (ram ?h3) ?p) ?h3 = Some h4" "blocks cfg h4 (coalesce (xs @ (n, False) # ys))"
    "same_place ?h3 h4" "mem_mutex h4 = mem_mutex ?h3" by (rule plug_holes_blocks[OF l3 sep])
  have "MEM_SANITY cfg h4 = Some ()" using h4(2) mem_sanity_ok(2) unfolding blocks_def by blast
  then have "heap_mem_free cfg ?r h = Some (call_mutex mutex_unlock h4)"
    using r ok q(1) h4(1)[unfolded m3] link_valid_at[OF c]
    by (cases "?m < lfree h") (simp_all add: heap_mem_free_def lwip_assert_def Let_def mem_link_valid_def)
  then show ?thesis using h4(2-4) by (intro that[of "call_mutex mutex_unlock h4"]) (simp_all add: same_place_def)
qed

section \<open>Allocating\<close>

lemma alloc_fits: "alloc sz bs = Some r \<Longrightarrow> sz + 12 \<le> sizes bs"
  by (induction sz bs arbitrary: r rule: alloc.induct) (fastforce split: if_splits)+

definition taken :: "nat \<Rightarrow> nat \<Rightarrow> block list" where
  "taken sz n = (if sz + 36 \<le> n then [(sz + 12, True), (n - (sz + 12), False)] else [(n, True)])"

lemma alloc_split:
  assumes "alloc sz bs = Some (k, bs')"
  obtains xs n ys where "bs = xs @ (n, False) # ys" and "k = sizes xs" and "sz + 12 \<le> n" and "bs' = xs @ taken sz n @ ys"
proof -
  have "\<exists>xs n ys. bs = xs @ (n, False) # ys \<and> k = sizes xs \<and> sz + 12 \<le> n \<and> bs' = xs @ taken sz n @ ys"
    using assms
  proof (induction sz bs arbitrary: k bs' rule: alloc.induct)
    case (2 sz n u bs)
    show ?case
    proof (cases "\<not> u \<and> sz + 12 \<le> n")
      case True
      then have "k = 0" "bs' = taken sz n @ bs" using 2(2) by (auto simp: taken_def)
      then show ?thesis using True by (intro exI[of _ "[]"]) simp
    next
      case False
      then obtain k1 bs1 where 1: "alloc sz bs = Some (k1, bs1)" "k = n + k1" "bs' = (n, u) # bs1"
        using 2(2) by (auto simp: taken_def split: if_splits)
      then obtain xs n1 ys where "bs = xs @ (n1, False) # ys" "k1 = sizes xs" "sz + 12 \<le> n1" "bs1 = xs @ taken sz n1 @ ys"
        using 2(1)[OF False] by blast
      then show ?thesis using 1(2,3) by (intro exI[of _ "(n, u) # xs"]) simp
    qed
  qed simp
  then show ?thesis using that by blast
qed

lemma alloc_first_free: "alloc sz bs = Some (k, bs') \<Longrightarrow> k \<noteq> first_free bs \<Longrightarrow> first_free bs' = first_free bs"
  by (induction sz bs arbitrary: k bs' rule: alloc.induct) (fastforce split: if_splits)+

lemma alloc_used: "\<forall>b \<in> set xs. snd b \<Longrightarrow> alloc sz (xs @ ys) = map_option (\<lambda>(k, bs). (sizes xs + k, xs @ bs)) (alloc sz ys)"
  by (induction xs) (cases "alloc sz ys"; auto)+

lemma alloc_separated: "alloc sz bs = Some (k, bs') \<Longrightarrow> separated bs \<Longrightarrow> separated bs'"
  by (elim alloc_split) (auto simp: taken_def successively_append_iff successively_Cons)

lemma scan_free_blocks:
  assumes "chained cfg h (xs @ ys)" and "unat sz \<le> heap_size cfg"
  shows "scan_free cfg sz h (idx (sizes xs)) = Some (map_option (\<lambda>(k, _). idx (sizes xs + k)) (alloc (unat sz) ys))"
  using assms(1)
proof (induction ys arbitrary: xs)
  case Nil
  have "sizes xs = heap_size cfg" using Nil seg_end unfolding chained_def by fastforce
  then have "\<not> idx (sizes xs) < MEM_SIZE_ALIGNED cfg - sz" using assms(2)
    by (simp add: idx_size word_less_nat_alt word_le_nat_alt unat_sub)
  then show ?case by (subst scan_free.simps) simp
next
  case (Cons y ys)
  obtain n u where y: "y = (n, u)" by (cases y)
  have c: "chained cfg h (xs @ (n, u) # ys)" using Cons.prems(1) y by simp
  obtain q where q: "hdr h (sizes xs) = \<lparr>mem_next = idx (sizes xs + n), mem_prev = idx q, mem_used = of_bool u\<rparr>"
    "24 \<le> n" "sizes xs + n + sizes ys = heap_size cfg"
    by (rule chain_at[OF c]) blast
  have b: "heap_base cfg h" using c by (simp add: chained_def)
  note of = unat_offset(2)[OF baseD(2)[OF b]]
  have lt: "idx (sizes xs) < MEM_SIZE_ALIGNED cfg - sz \<longleftrightarrow> sizes xs < heap_size cfg - unat sz"
    using assms(2) of[of "sizes xs"] q(3) by (simp add: word_less_nat_alt word_le_nat_alt unat_sub)
  have fit: "idx (sizes xs + n) - (idx (sizes xs) + 12) \<ge> sz \<longleftrightarrow> unat sz + 12 \<le> n"
  proof -
    have "idx (sizes xs + n) = idx (sizes xs) + 12 + idx (n - 12)"
      using q(2) idx_add[of "sizes xs" n] idx_add[of 12 "n - 12"] by (simp add: idx_numeral idx_add[symmetric] add.assoc)
    then have "idx (sizes xs + n) - (idx (sizes xs) + 12) = idx (n - 12)" by simp
    moreover have "unat (idx (n - 12)) = n - 12" using of[of "n - 12"] q(3) by simp
    ultimately show ?thesis using q(2) by (auto simp: word_le_nat_alt)
  qed
  have ih: "scan_free cfg sz h (idx (sizes xs + n)) = Some (map_option (\<lambda>(k, _). idx (sizes xs + n + k)) (alloc (unat sz) ys))"
    using Cons.IH[of "xs @ [y]"] Cons.prems y by simp
  show ?case
  proof (cases "sizes xs < heap_size cfg - unat sz")
    case False
    have "alloc (unat sz) (y # ys) = None"
    proof (rule ccontr)
      assume "alloc (unat sz) (y # ys) \<noteq> None"
      then obtain r where "alloc (unat sz) (y # ys) = Some r" by blast
      from alloc_fits[OF this] show False using False q(3) y by simp
    qed
    then show ?thesis using False lt by (subst scan_free.simps) simp
  next
    case True
    show ?thesis using True lt fit ih q(1) y
      by (subst scan_free.simps, cases "alloc (unat sz) ys") (auto simp: add.assoc Let_def)
  qed
qed

lemma idx_minus: "a \<le> b \<Longrightarrow> idx b - idx a = idx (b - a)"
  by (simp add: idx_def of_nat_diff)

lemma idx_plus_size: "idx k + sz = idx (k + unat sz)" "adr r k + sz = adr r (k + unat sz)"
  by (simp_all add: idx_def adr_def)

text \<open>
  A header for the free rest of a block: the block at \<open>xs\<close> ends at the new header, which takes over what
  was behind. Allocating and shrinking both do this, with the block in use afterwards.
\<close>

definition divided :: "heap_cfg \<Rightarrow> nat \<Rightarrow> nat \<Rightarrow> nat \<Rightarrow> lwip_heap \<Rightarrow> lwip_heap" where
  "divided cfg a b e h =
     (let g = set_used (adr (ram h) a) 1 (set_next (adr (ram h) a) (idx b)
        (set_prev (adr (ram h) b) (idx a) (set_next (adr (ram h) b) (idx e) (set_used (adr (ram h) b) 0 h))))
      in if e < heap_size cfg then set_prev (adr (ram h) e) (idx b) g else g)"

lemma divided_frame [simp]:
  "ram (divided cfg a b e h) = ram h" "ram_end (divided cfg a b e h) = ram_end h"
  "lfree (divided cfg a b e h) = lfree h" "mem_mutex (divided cfg a b e h) = mem_mutex h"
  by (simp_all add: divided_def Let_def)

lemma hdr_divided:
  assumes "room cfg (ram h)" and "a < b" and "b < e" and "e \<le> heap_size cfg" and "j \<le> heap_size cfg"
  shows "hdr (divided cfg a b e h) j = (if j = a then (hdr h a)\<lparr>mem_next := idx b, mem_used := 1\<rparr>
      else if j = b then \<lparr>mem_next = idx e, mem_prev = idx a, mem_used = 0\<rparr>
      else if j = e \<and> e < heap_size cfg then (hdr h j)\<lparr>mem_prev := idx b\<rparr> else hdr h j)"
  using assms(2-5) by (auto simp: divided_def Let_def hdr_set[OF assms(1)])

lemma divided_chained:
  assumes c: "chained cfg h (xs @ (n, u) # ms @ ys)" and k: "24 \<le> k" "4 dvd k" "k + 24 \<le> n + sizes ms"
  shows "chained cfg (divided cfg (sizes xs) (sizes xs + k) (sizes xs + n + sizes ms) h)
    (xs @ (k, True) # (n + sizes ms - k, False) # ys)"
proof -
  let ?p = "sizes xs" and ?n = "n + sizes ms" and ?h = "divided cfg (sizes xs) (sizes xs + k) (sizes xs + n + sizes ms) h"
  obtain q where q: "seg (hdr h) 0 0 xs q ?p"
    "hdr h ?p = \<lparr>mem_next = idx (?p + n), mem_prev = idx q, mem_used = of_bool u\<rparr>"
    "4 dvd n" "?p + n + sizes (ms @ ys) = heap_size cfg" "\<forall>b \<in> set (ms @ ys). block_ok b" "24 \<le> n"
    by (rule chain_at[OF c]) blast
  have b: "heap_base cfg h" using c by (simp add: chained_def)
  have pos: "ys = [] \<or> ?p + ?n < heap_size cfg" using sizes_le[of ys "?p + ?n"] q(4,5) by fastforce
  note hd = hdr_divided[OF baseD(2)[OF b], of ?p "?p + k" "?p + n + sizes ms"]
  have "4 dvd sizes ms" using q(5) by (induction ms) (auto simp: block_ok_def)
  then have dv: "4 dvd ?n - k" using q(3) k(2) by (intro dvd_diff_nat dvd_add)
  have "chained cfg ?h (xs @ [(k, True), (?n - k, False)] @ ys)"
  proof (rule chain_splice[of cfg h xs "(n, u) # ms" ys ?h "[(k, True), (?n - k, False)]" "?p + k"])
    show "heap_base cfg ?h" by (rule base_cong[OF b]) (use hd q(4) k in auto)
    show "seg (hdr ?h) q' ?p [(k, True), (?n - k, False)] (?p + k) (?p + sizes ((n, u) # ms))"
      if "seg (hdr h) 0 0 xs q' ?p" for q'
    proof -
      have "q' = q" using that q(1) seg_last_header by blast
      then show ?thesis using hd[of ?p] hd[of "?p + k"] q(2,4) k dv by (simp add: block_ok_def add.assoc)
    qed
  qed (use c hd q(4,6) pos k in \<open>auto simp: add.assoc\<close>)
  then show ?thesis by simp
qed

lemma take_block_chained:
  assumes c: "chained cfg h (xs @ (n, False) # ys)" and s: "unat sz + 12 \<le> n" "12 \<le> unat sz" "4 dvd unat sz"
  obtains h' where "take_block cfg sz (idx (sizes xs)) h = Some h'" and "chained cfg h' (xs @ taken (unat sz) n @ ys)"
    and "same_place h h'" and "mem_mutex h' = mem_mutex h" and "lfree h' = lfree h"
proof -
  let ?p = "sizes xs"
  obtain q where q: "hdr h ?p = \<lparr>mem_next = idx (?p + n), mem_prev = idx q, mem_used = of_bool False\<rparr>"
    "24 \<le> n" "?p + n + sizes ys = heap_size cfg" by (rule chain_at[OF c]) blast
  have b: "heap_base cfg h" using c by (simp add: chained_def)
  note of = unat_offset(2)[OF baseD(2)[OF b]]
  have d: "idx (?p + n) - (idx ?p + 12) = idx (n - 12)" using q(2) by (simp add: idx_plus_size idx_minus)
  have fits: "24 + sz \<le> idx (n - 12) \<longleftrightarrow> unat sz + 36 \<le> n"
  proof -
    have "unat sz + 24 < 2 ^ 32" using baseD(2)[OF b] s(1) q(3) unfolding room_def by linarith
    then have "unat (24 + sz) = unat sz + 24" by (simp add: unat_plus_if_size word_size)
    then show ?thesis using of[of "n - 12"] q(2,3) by (auto simp: word_le_nat_alt)
  qed
  show ?thesis
  proof (cases "unat sz + 36 \<le> n")
    case True
    let ?b = "?p + 12 + unat sz"
    have "idx ?b \<noteq> MEM_SIZE_ALIGNED cfg"
      using address_simps(4)[OF baseD(2)[OF b], of ?b "heap_size cfg", unfolded idx_size] True q(3) by simp
    moreover have "idx (?p + n) \<noteq> MEM_SIZE_ALIGNED cfg \<longleftrightarrow> ?p + n < heap_size cfg"
      using address_simps(4)[OF baseD(2)[OF b], of "?p + n" "heap_size cfg", unfolded idx_size] q(3) by (auto simp: less_le)
    ultimately have "take_block cfg sz (idx ?p) h = Some (divided cfg ?p ?b (?p + n) h)"
      using q(1) d fits True s address_simps(1)[OF baseD(2)[OF b], of ?p ?b] q(3)
      by (simp add: take_block_def divided_def Let_def lwip_assert_def idx_plus_size)
    moreover have "chained cfg (divided cfg ?p ?b (?p + n) h) (xs @ taken (unat sz) n @ ys)"
      using divided_chained[of cfg h xs n False "[]" ys "12 + unat sz"] c True s by (simp add: taken_def ac_simps)
    ultimately show ?thesis by (rule that) (simp_all add: same_place_def)
  next
    case False
    have "take_block cfg sz (idx ?p) h = Some (set_used (adr (ram h) ?p) 1 h)"
      using q(1) d fits False by (simp add: take_block_def Let_def)
    moreover have "chained cfg (set_used (adr (ram h) ?p) 1 h) (xs @ taken (unat sz) n @ ys)"
      using set_used_chained[OF c, of True] False by (simp add: taken_def)
    ultimately show ?thesis by (rule that) (simp_all add: same_place_def)
  qed
qed

lemma next_free_chained:
  assumes "chained cfg h (xs @ ys)"
  shows "next_free h (adr (ram h) (sizes xs)) = Some (adr (ram h) (sizes xs + first_free ys))"
  using assms
proof (induction ys arbitrary: xs)
  case Nil
  have "sizes xs = heap_size cfg" using Nil seg_end unfolding chained_def by fastforce
  then have "ram_end h = adr (ram h) (sizes xs)" using end_address[of cfg h] Nil by (simp add: chained_def)
  then show ?case by (subst next_free.simps) simp
next
  case (Cons y ys)
  obtain n u where y: "y = (n, u)" by (cases y)
  have c: "chained cfg h (xs @ (n, u) # ys)" using Cons.prems(1) y by simp
  obtain q where q: "hdr h (sizes xs) = \<lparr>mem_next = idx (sizes xs + n), mem_prev = idx q, mem_used = of_bool u\<rparr>"
    "24 \<le> n" "sizes xs + n + sizes ys = heap_size cfg"
    by (rule chain_at[OF c]) blast
  have b: "heap_base cfg h" using c by (simp add: chained_def)
  have "adr (ram h) (sizes xs) \<noteq> ram_end h"
    using address_simps(1)[OF baseD(2)[OF b], of "sizes xs" "heap_size cfg"] q(2,3) end_address[OF b] by simp
  moreover have "next_free h (adr (ram h) (sizes xs + n)) = Some (adr (ram h) (sizes xs + n + first_free ys))"
    using Cons.IH[of "xs @ [y]"] Cons.prems y by simp
  ultimately show ?case using q(1) y by (subst next_free.simps) (auto simp: add.assoc)
qed

text \<open>The lowest free block, as the allocator leaves it.\<close>

lemma first_free_split: "\<exists>us vs. bs = us @ vs \<and> (\<forall>b \<in> set us. snd b) \<and> sizes us = first_free bs \<and> (vs = [] \<or> \<not> snd (hd vs))"
proof (induction bs)
  case (Cons b bs)
  then obtain us vs where 1: "bs = us @ vs" "\<forall>b \<in> set us. snd b" "sizes us = first_free bs" "vs = [] \<or> \<not> snd (hd vs)"
    by blast
  show ?case
  proof (cases "snd b")
    case True
    then show ?thesis using 1 by (cases b) (intro exI[of _ "b # us"] exI[of _ vs], simp)
  next
    case False
    then show ?thesis by (cases b) (intro exI[of _ "[]"] exI[of _ "b # bs"], simp)
  qed
qed simp

lemma adjust_lfree_chained:
  assumes c: "chained cfg h bs'" and a: "alloc sz bs = Some (k, bs')" and l: "lfree h = adr (ram h) (first_free bs)"
    and le: "sizes bs = heap_size cfg"
  obtains h' where "adjust_lfree (adr (ram h) k) h = Some h'" and "listed cfg h' bs'" and "same_place h h'"
    and "mem_mutex h' = mem_mutex h"
proof -
  have b: "heap_base cfg h" using c by (simp add: chained_def)
  have k: "k \<le> heap_size cfg" by (rule alloc_split[OF a]) (use le in simp)
  have f: "first_free bs \<le> heap_size cfg" using first_free_le[of bs] le by simp
  have eq: "adr (ram h) k = lfree h \<longleftrightarrow> k = first_free bs"
    unfolding l using address_simps(1)[OF baseD(2)[OF b], of k "first_free bs"] k f by simp
  show ?thesis
  proof (cases "k = first_free bs")
    case False
    then have "listed cfg h bs'" using alloc_first_free[OF a] c l by (simp add: listed_def)
    then show ?thesis using False eq by (intro that[of h]) (simp_all add: adjust_lfree_def same_place_def)
  next
    case True
    obtain us vs where u: "bs = us @ vs" "\<forall>b \<in> set us. snd b" "sizes us = first_free bs" "vs = [] \<or> \<not> snd (hd vs)"
      using first_free_split by blast
    obtain vs' where v: "bs' = us @ vs'"
      using a alloc_used[OF u(2), of sz vs] u(1) by auto
    have n: "next_free h (lfree h) = Some (adr (ram h) (first_free bs'))"
      using next_free_chained[of cfg h us vs'] c l u(2,3) v by (simp add: first_free_append)
    have "adr (ram h) (first_free bs') = ram_end h \<or> mem_used (hdr h (first_free bs')) = 0"
    proof -
      obtain ws zs where w: "bs' = ws @ zs" "sizes ws = first_free bs'" "zs = [] \<or> \<not> snd (hd zs)"
        using first_free_split[of bs'] by blast
      show ?thesis
      proof (cases zs)
        case Nil
        then have "sizes bs' = first_free bs'" using w by simp
        then show ?thesis using c seg_end end_address[OF b] unfolding chained_def by fastforce
      next
        case (Cons z zs')
        then have "chained cfg h (ws @ (fst z, False) # zs')" using c w by (cases z) auto
        then show ?thesis by (rule chain_at) (use w(2) in simp)
      qed
    qed
    then show ?thesis using n True eq c
      by (intro that[of "h\<lparr>lfree := adr (ram h) (first_free bs')\<rparr>"])
        (simp_all add: adjust_lfree_def lwip_assert_def listed_def same_place_def)
  qed
qed

text \<open>What the program makes of a size, and when it takes it.\<close>

definition need :: "nat \<Rightarrow> nat" where "need n = max 12 ((n + 3) div 4 * 4)"

lemma need_dvd: "4 dvd need n" and need_ge: "12 \<le> need n" "n \<le> need n"
  by (auto simp: need_def max_def)

lemma size_word:
  fixes size_in :: u32
  defines "sz \<equiv> if lwip_mem_align size_in < 12 then 12 else lwip_mem_align size_in"
  shows "\<not> (sz > MEM_SIZE_ALIGNED cfg \<or> sz < size_in) \<longleftrightarrow> need (unat size_in) \<le> heap_size cfg"
    and "need (unat size_in) \<le> heap_size cfg \<Longrightarrow> unat sz = need (unat size_in)"
proof -
  have u: "unat sz = max 12 (unat (lwip_mem_align size_in))"
    by (auto simp: sz_def word_less_nat_alt max_def)
  have M: "heap_size cfg < 2 ^ 32" by (rule unat_lt32)
  have e: "unat sz = need (unat size_in)" if "unat size_in + 3 < 2 ^ 32"
    using that unfolding u need_def unat_mem_align by simp
  have big: "heap_size cfg < need (unat size_in) \<and> sz < size_in" if "\<not> unat size_in + 3 < 2 ^ 32"
  proof -
    have "2 ^ 32 \<le> (unat size_in + 3) div 4 * 4" using that by simp
    moreover have "unat sz = 12" unfolding u unat_mem_align using that by simp
    ultimately show ?thesis using M that by (auto simp: need_def word_less_nat_alt)
  qed
  show "need (unat size_in) \<le> heap_size cfg \<Longrightarrow> unat sz = need (unat size_in)" using e big by force
  show "\<not> (sz > MEM_SIZE_ALIGNED cfg \<or> sz < size_in) \<longleftrightarrow> need (unat size_in) \<le> heap_size cfg"
  proof (cases "unat size_in + 3 < 2 ^ 32")
    case True
    then show ?thesis using e need_ge(2)[of "unat size_in"] by (auto simp: word_less_nat_alt)
  next
    case False
    then show ?thesis using big by auto
  qed
qed

text \<open>The result of an allocation on blocks: the pointer and the blocks after it.\<close>

definition allocated :: "u32 \<Rightarrow> block list \<Rightarrow> (nat \<times> block list) option" where
  "allocated size_in bs = (if size_in = 0 then None else alloc (need (unat size_in)) bs)"

definition balanced :: "lwip_heap \<Rightarrow> lwip_heap \<Rightarrow> bool" where
  "balanced h h' \<longleftrightarrow> mem_mutex h' = mem_mutex h \<or> mem_mutex h' = mem_mutex h @ [mutex_lock, mutex_unlock]"

lemma chained_size: "chained cfg h bs \<Longrightarrow> sizes bs = heap_size cfg"
  unfolding chained_def using seg_end by fastforce

lemma heap_malloc_some:
  assumes bl: "blocks cfg h bs" and nz: "size_in \<noteq> 0" and a: "alloc (need (unat size_in)) bs = Some (k, bs')"
  obtains h' where "heap_mem_malloc cfg size_in h = Some (adr (ram h) (k + 12), h')" and "blocks cfg h' bs'"
    and "same_place h h'" and "balanced h h'"
proof -
  let ?sz = "if lwip_mem_align size_in < 12 then 12 else lwip_mem_align size_in" and ?h1 = "call_mutex mutex_lock h"
  have c: "chained cfg h bs" and s: "separated bs" and l: "lfree h = adr (ram h) (first_free bs)"
    using bl by (simp_all add: blocks_def)
  have b: "heap_base cfg h" using c by (simp add: chained_def)
  obtain xs n ys where x: "bs = xs @ (n, False) # ys" "k = sizes xs" "need (unat size_in) + 12 \<le> n"
    "bs' = xs @ taken (need (unat size_in)) n @ ys" by (rule alloc_split[OF a])
  have M: "sizes xs + n + sizes ys = heap_size cfg" using chained_size[OF c] x(1) by simp
  have fit: "need (unat size_in) \<le> heap_size cfg" using x(3) M by simp
  note sz = size_word[where size_in = size_in and cfg = cfg]
  have u: "unat ?sz = need (unat size_in)" using sz(2) fit by blast
  obtain us vs where v: "bs = us @ vs" "\<forall>b \<in> set us. snd b" "sizes us = first_free bs"
    using first_free_split by blast
  have scan: "scan_free cfg ?sz ?h1 (mem_to_ptr ?h1 (lfree ?h1)) = Some (Some (idx k))"
  proof -
    have "scan_free cfg ?sz ?h1 (idx (sizes us)) = Some (map_option (\<lambda>(k, _). idx (sizes us + k)) (alloc (unat ?sz) vs))"
      by (rule scan_free_blocks) (use c v(1) u fit in simp_all)
    moreover have "map_option (\<lambda>(k, bs). (sizes us + k, us @ bs)) (alloc (unat ?sz) vs) = Some (k, bs')"
      using alloc_used[OF v(2), of "unat ?sz" vs] a u v(1) by simp
    ultimately show ?thesis using l v(3) by auto
  qed
  have cx: "chained cfg ?h1 (xs @ (n, False) # ys)" using c x(1) by simp
  obtain h2 where h2: "take_block cfg ?sz (idx (sizes xs)) ?h1 = Some h2" "chained cfg h2 (xs @ taken (unat ?sz) n @ ys)"
    "same_place ?h1 h2" "mem_mutex h2 = mem_mutex ?h1" "lfree h2 = lfree ?h1"
    by (rule take_block_chained[OF cx, of ?sz]) (use u x(3) need_ge need_dvd in simp_all)
  have r2: "ram h2 = ram h" using h2(3) by (simp add: same_place_def)
  have l2: "lfree h2 = adr (ram h2) (first_free bs)" and c2: "chained cfg h2 bs'" using h2(2,5) l r2 u x(4) by simp_all
  obtain h3 where h3: "adjust_lfree (adr (ram h2) k) h2 = Some h3" "listed cfg h3 bs'" "same_place h2 h3"
    "mem_mutex h3 = mem_mutex h2"
    by (rule adjust_lfree_chained[OF c2 a l2 chained_size[OF c]])
  let ?h4 = "call_mutex mutex_unlock h3"
  have sp: "same_place h ?h4" using h2(3) h3(3) by (simp add: same_place_def)
  have bl': "blocks cfg ?h4 bs'" using h3(2) alloc_separated[OF a s] by (simp add: blocks_listed)
  have p: "adr (ram h) k + 12 + ?sz \<le> ram_end ?h4" "(adr (ram h) k + 12) mod 4 = 0" "adr (ram h) k AND 3 = 0"
  proof -
    obtain q where q: "4 dvd sizes xs" by (rule chain_at[OF cx]) blast
    have "adr (ram h) k + 12 + ?sz = adr (ram h) (k + 12 + need (unat size_in))" 
      unfolding idx_plus_size u by simp
    then show "adr (ram h) k + 12 + ?sz \<le> ram_end ?h4"
      using address_simps(3)[OF baseD(2)[OF b], of "k + 12 + need (unat size_in)" "heap_size cfg"] sp end_address[OF b] x(2,3) M
      by (simp add: same_place_def)
    have "4 dvd unat (adr (ram h) (k + 12))" by (rule adr_aligned[OF b]) (use q x(2,3) M in auto)
    then show "(adr (ram h) k + 12) mod 4 = 0" by (simp add: aligned_word(3) idx_plus_size)
    show "adr (ram h) k AND 3 = 0" by (rule aligned_word(1), rule adr_aligned[OF b]) (use q x(2) M in auto)
  qed
  have "MEM_SANITY cfg ?h4 = Some ()" using bl' mem_sanity_ok(2) unfolding blocks_def by blast
  then have "heap_mem_malloc cfg size_in h = Some (adr (ram h) (k + 12), ?h4)"
    using nz sz(1) fit scan h2(1) h3(1) p r2 x(2)
    by (simp add: heap_mem_malloc_def lwip_assert_def Let_def idx_plus_size cong: if_cong)
  moreover have "balanced h ?h4" using h2(4) h3(4) by (simp add: balanced_def)
  ultimately show ?thesis using bl' sp by (intro that)
qed

lemma heap_malloc_none:
  assumes bl: "blocks cfg h bs" and a: "size_in = 0 \<or> alloc (need (unat size_in)) bs = None"
  obtains h' where "heap_mem_malloc cfg size_in h = Some (0, h')" and "blocks cfg h' bs" and "same_place h h'" and "balanced h h'"
proof (cases "size_in = 0 \<or> heap_size cfg < need (unat size_in)")
  case True
  then have "heap_mem_malloc cfg size_in h = Some (0, h)"
    using size_word(1)[where size_in = size_in and cfg = cfg] by (auto simp: heap_mem_malloc_def Let_def)
  then show ?thesis by (rule that) (use bl in \<open>simp_all add: same_place_def balanced_def\<close>)
next
  case False
  let ?sz = "if lwip_mem_align size_in < 12 then 12 else lwip_mem_align size_in" and ?h1 = "call_mutex mutex_lock h"
  note sz = size_word[where size_in = size_in and cfg = cfg]
  have u: "unat ?sz = need (unat size_in)" using sz(2) False by simp
  have c: "chained cfg h bs" and l: "lfree h = adr (ram h) (first_free bs)" using bl by (simp_all add: blocks_def)
  obtain us vs where v: "bs = us @ vs" "\<forall>b \<in> set us. snd b" "sizes us = first_free bs"
    using first_free_split by blast
  have "alloc (unat ?sz) vs = None" using alloc_used[OF v(2), of "unat ?sz" vs] a u v(1) False by simp
  moreover have "scan_free cfg ?sz ?h1 (idx (sizes us)) = Some (map_option (\<lambda>(k, _). idx (sizes us + k)) (alloc (unat ?sz) vs))"
    by (rule scan_free_blocks) (use c v(1) u False in simp_all)
  ultimately have "scan_free cfg ?sz ?h1 (mem_to_ptr ?h1 (lfree ?h1)) = Some None" using l v(3) by simp
  then have "heap_mem_malloc cfg size_in h = Some (0, call_mutex mutex_unlock ?h1)"
    using sz(1) False by (simp add: heap_mem_malloc_def Let_def cong: if_cong)
  then show ?thesis by (rule that) (use bl in \<open>simp_all add: same_place_def balanced_def\<close>)
qed

section \<open>Shrinking\<close>

text \<open>A block of \<open>n\<close> bytes, followed by \<open>ys\<close>, is cut to \<open>k\<close> bytes where the rest can be a block.\<close>

fun trimmed :: "nat \<Rightarrow> nat \<Rightarrow> block list \<Rightarrow> block list" where
  "trimmed k n ((m, False) # ys) = (if k = n then [(n, True), (m, False)] else [(k, True), (n + m - k, False)]) @ ys"
| "trimmed k n ys = (if k + 24 \<le> n then [(k, True), (n - k, False)] else [(n, True)]) @ ys"

lemma set_used_same: "mem_used (structs h m) = w \<Longrightarrow> set_used m w h = h"
proof -
  assume "mem_used (structs h m) = w"
  then have "(structs h m)\<lparr>mem_used := w\<rparr> = structs h m" by (cases "structs h m") simp
  then show "set_used m w h = h" by (simp add: set_used_def)
qed

lemma trim_next_free_chained:
  assumes l: "listed cfg h (xs @ (n, True) # (m, False) # ys)" and k: "24 \<le> k" "4 dvd k" "k < n" and z: "unat sz + 12 = k"
  obtains h' where "trim_next_free cfg (adr (ram h) (sizes xs)) sz h = Some h'"
    and "listed cfg h' (xs @ (k, True) # (n + m - k, False) # ys)" and "same_place h h'" and "mem_mutex h' = mem_mutex h"
proof -
  let ?p = "sizes xs"
  have c: "chained cfg h (xs @ (n, True) # (m, False) # ys)"
    and lf: "lfree h = adr (ram h) (first_free (xs @ (n, True) # (m, False) # ys))" using l by (simp_all add: listed_def)
  obtain q where q: "hdr h ?p = \<lparr>mem_next = idx (?p + n), mem_prev = idx q, mem_used = of_bool True\<rparr>"
    "?p + n + sizes ((m, False) # ys) = heap_size cfg"
    "\<And>k v zs. (m, False) # ys = (k, v) # zs \<Longrightarrow> hdr h (?p + n) = \<lparr>mem_next = idx (?p + n + k), mem_prev = idx ?p,
        mem_used = of_bool v\<rparr> \<and> 24 \<le> k"
    by (rule chain_at[OF c]) blast
  note q3 = q(3)[OF refl]
  have b: "heap_base cfg h" using c by (simp add: chained_def)
  note ad = address_simps[OF baseD(2)[OF b]]
  let ?h1 = "if lfree h = adr (ram h) (?p + n) then h\<lparr>lfree := adr (ram h) (?p + k)\<rparr> else h"
  let ?h = "divided cfg ?p (?p + k) (?p + n + m) ?h1"
  have "idx (?p + n) \<noteq> MEM_SIZE_ALIGNED cfg" "idx (?p + n + m) \<noteq> MEM_SIZE_ALIGNED cfg \<longleftrightarrow> ?p + n + m < heap_size cfg"
    using ad(4)[of "?p + n" "heap_size cfg", unfolded idx_size] ad(4)[of "?p + n + m" "heap_size cfg", unfolded idx_size] q(2) q3
    by (auto simp: less_le)
  moreover have "adr (ram h) ?p \<noteq> adr (ram h) (?p + k)" using ad(1)[of ?p "?p + k"] q(2) k by simp
  moreover have "idx ?p + 12 + sz = idx (?p + k)" unfolding z[symmetric] by (simp add: idx_def)
  ultimately have "trim_next_free cfg (adr (ram h) ?p) sz h = Some ?h"
    using q(1) q3 by (auto simp: trim_next_free_def divided_def Let_def lwip_assert_def set_used_same)
  moreover have "listed cfg ?h (xs @ (k, True) # (n + m - k, False) # ys)"
  proof -
    have "chained cfg ?h (xs @ (k, True) # (n + m - k, False) # ys)"
      using divided_chained[of cfg ?h1 xs n True "[(m, False)]" ys k] c k q3 by simp
    moreover have "lfree ?h = adr (ram ?h) (first_free (xs @ (k, True) # (n + m - k, False) # ys))"
      using lf ad(1)[of "first_free xs" "?p + n"] first_free_le[of xs] q(2) k
      by (auto simp: first_free_append)
    ultimately show ?thesis by (simp add: listed_def)
  qed
  ultimately show ?thesis by (rule that) (simp_all add: same_place_def)
qed

lemma trim_split_chained:
  assumes l: "listed cfg h (xs @ (n, True) # ys)" and k: "24 \<le> k" "4 dvd k" "k + 24 \<le> n" and z: "unat sz + 12 = k"
    and ys: "ys \<noteq> []"
  obtains h' where "trim_split cfg (adr (ram h) (sizes xs)) sz h = Some h'"
    and "listed cfg h' (xs @ (k, True) # (n - k, False) # ys)" and "same_place h h'" and "mem_mutex h' = mem_mutex h"
proof -
  let ?p = "sizes xs" and ?f = "first_free (xs @ (n, True) # ys)"
  have c: "chained cfg h (xs @ (n, True) # ys)" and lf: "lfree h = adr (ram h) ?f"
    using l by (simp_all add: listed_def)
  obtain q where q: "hdr h ?p = \<lparr>mem_next = idx (?p + n), mem_prev = idx q, mem_used = of_bool True\<rparr>"
    "?p + n + sizes ys = heap_size cfg" "\<forall>b \<in> set ys. block_ok b"
    by (rule chain_at[OF c]) blast
  have lt: "?p + n < heap_size cfg" using sizes_le[of ys "?p + n"] q(2,3) ys by fastforce
  have b: "heap_base cfg h" using c by (simp add: chained_def)
  note ad = address_simps[OF baseD(2)[OF b]]
  let ?h1 = "if adr (ram h) (?p + k) < lfree h then h\<lparr>lfree := adr (ram h) (?p + k)\<rparr> else h"
  let ?h = "divided cfg ?p (?p + k) (?p + n) ?h1"
  have "idx (?p + n) \<noteq> MEM_SIZE_ALIGNED cfg"
    using ad(4)[of "?p + n" "heap_size cfg", unfolded idx_size] lt by simp
  moreover have "adr (ram h) ?p \<noteq> adr (ram h) (?p + k)" using ad(1)[of ?p "?p + k"] q(2) k by simp
  moreover have "idx ?p + 12 + sz = idx (?p + k)" unfolding z[symmetric] by (simp add: idx_def)
  ultimately have "trim_split cfg (adr (ram h) ?p) sz h = Some ?h"
    using q(1) lt by (auto simp: trim_split_def divided_def Let_def lwip_assert_def set_used_same)
  moreover have "listed cfg ?h (xs @ (k, True) # (n - k, False) # ys)"
  proof -
    have "chained cfg ?h (xs @ (k, True) # (n - k, False) # ys)"
      using divided_chained[of cfg ?h1 xs n True "[]" ys k] c k by simp
    moreover have "lfree ?h = adr (ram ?h) (first_free (xs @ (k, True) # (n - k, False) # ys))"
    proof -
      have "adr (ram h) (?p + k) < lfree h \<longleftrightarrow> ?p + k < ?f"
        unfolding lf using ad(2)[of "?p + k" ?f] q(2) k first_free_le[of "xs @ (n, True) # ys"] by simp
      then show ?thesis using lf first_free_le[of xs] k by (auto simp: first_free_append)
    qed
    ultimately show ?thesis by (simp add: listed_def)
  qed
  ultimately show ?thesis by (rule that) (simp_all add: same_place_def)
qed

lemma trimmed_separated: "separated (xs @ (n, True) # ys) \<Longrightarrow> separated (xs @ trimmed k n ys)"
  by (cases "(k, n, ys)" rule: trimmed.cases) (auto simp: successively_append_iff successively_Cons)

lemma heap_trim_blocks:
  assumes bl: "blocks cfg h (xs @ (n, True) # ys)" and fit: "need (unat new_size) + 12 \<le> n"
    and last: "ys \<noteq> [] \<or> n < need (unat new_size) + 36"
  obtains h' where "heap_mem_trim cfg (adr (ram h) (sizes xs + 12)) new_size h = Some (adr (ram h) (sizes xs + 12), h')"
    and "blocks cfg h' (xs @ trimmed (need (unat new_size) + 12) n ys)" and "same_place h h'" and "balanced h h'"
proof -
  let ?p = "sizes xs" and ?m = "adr (ram h) (sizes xs)" and ?r = "adr (ram h) (sizes xs + 12)"
  let ?k = "need (unat new_size) + 12"
  let ?sz = "if lwip_mem_align new_size < 12 then 12 else lwip_mem_align new_size" and ?h1 = "call_mutex mutex_lock h"
  have c: "chained cfg h (xs @ (n, True) # ys)" and sep: "separated (xs @ (n, True) # ys)"
    and l1: "listed cfg ?h1 (xs @ (n, True) # ys)" using bl by (simp_all add: blocks_def listed_def)
  obtain q where q: "hdr h ?p = \<lparr>mem_next = idx (?p + n), mem_prev = idx q, mem_used = of_bool True\<rparr>"
    "24 \<le> n" "?p + n + sizes ys = heap_size cfg"
    "\<And>k v zs. ys = (k, v) # zs \<Longrightarrow> hdr h (?p + n) = \<lparr>mem_next = idx (?p + n + k), mem_prev = idx ?p,
        mem_used = of_bool v\<rparr> \<and> 24 \<le> k" by (rule chain_at[OF c]) blast
  have b: "heap_base cfg h" using c by (simp add: chained_def)
  note ad = address_simps[OF baseD(2)[OF b]] and of = unat_offset(2)[OF baseD(2)[OF b]]
  note sz = size_word[where size_in = new_size and cfg = cfg]
  have u: "unat ?sz = need (unat new_size)" using sz(2) fit q(3) by simp
  have szi: "?sz = idx (?k - 12)" using u idx_unat[of ?sz] by simp
  have r: "?r - 12 = ?m" "ram h \<le> ?r" "?r < ram_end h"
    using ad(3)[of 0 "?p + 12"] ad(2)[of "?p + 12" "heap_size cfg"] q(2,3) end_address[OF b]
    by (simp_all add: adr_def idx_def)
  have d: "idx (?p + n) - idx ?p - 12 = idx (n - 12)" using q(2) by (simp add: idx_def of_nat_diff)
  have cmp: "?sz \<le> idx (n - 12)" "?sz = idx (n - 12) \<longleftrightarrow> ?k = n" "24 + ?sz \<le> idx (n - 12) \<longleftrightarrow> ?k + 24 \<le> n"
  proof -
    have i: "unat (idx (n - 12)) = n - 12" using of[of "n - 12"] q(3) by simp
    have "need (unat new_size) + 24 < 2 ^ 32" using baseD(2)[OF b] fit q(3) unfolding room_def by linarith
    then have "unat (24 + ?sz) = need (unat new_size) + 24" using u by (simp only: unat_plus_if_size word_size) simp
    then show "?sz \<le> idx (n - 12)" "?sz = idx (n - 12) \<longleftrightarrow> ?k = n" "24 + ?sz \<le> idx (n - 12) \<longleftrightarrow> ?k + 24 \<le> n"
      using i u fit by (auto simp only: word_le_nat_alt word_unat_eq_iff)
  qed
  have pre: "heap_mem_trim cfg ?r new_size h =
    (if ?k = n then Some (?r, h)
     else do {
       h2 \<leftarrow> (if mem_used (structs ?h1 (adr (ram h) (?p + n))) = 0 then trim_next_free cfg ?m ?sz ?h1
             else if ?k + 24 \<le> n then trim_split cfg ?m ?sz ?h1 else Some ?h1);
       _ \<leftarrow> MEM_SANITY cfg h2;
       Some (?r, call_mutex mutex_unlock h2)
     })"
    using sz(1) fit q(1,3) r d cmp
    by (simp add: heap_mem_trim_def lwip_assert_def Let_def cong: if_cong)
  note that2 = that
  show ?thesis
  proof (cases "?k = n")
    case True
    then have "xs @ (n, True) # ys = xs @ trimmed ?k n ys" by (cases "(?k, n, ys)" rule: trimmed.cases) auto
    then show ?thesis using True pre bl by (intro that[of h]) (simp_all add: same_place_def balanced_def)
  next
    case False
    have fin: thesis if "\<exists>h2. (if mem_used (structs ?h1 (adr (ram h) (?p + n))) = 0 then trim_next_free cfg ?m ?sz ?h1
             else if ?k + 24 \<le> n then trim_split cfg ?m ?sz ?h1 else Some ?h1) = Some h2
          \<and> listed cfg h2 (xs @ trimmed ?k n ys) \<and> same_place ?h1 h2 \<and> mem_mutex h2 = mem_mutex ?h1"
    proof -
      note ex = that
      obtain h2 where h2: "(if mem_used (structs ?h1 (adr (ram h) (?p + n))) = 0 then trim_next_free cfg ?m ?sz ?h1
             else if ?k + 24 \<le> n then trim_split cfg ?m ?sz ?h1 else Some ?h1) = Some h2"
        "listed cfg h2 (xs @ trimmed ?k n ys)" "same_place ?h1 h2" "mem_mutex h2 = mem_mutex ?h1" using ex by blast
      have bl2: "blocks cfg h2 (xs @ trimmed ?k n ys)"
        using h2(2) trimmed_separated[OF sep] by (simp add: blocks_listed)
      then have "MEM_SANITY cfg h2 = Some ()" using mem_sanity_ok(2) unfolding blocks_def by blast
      then have r: "heap_mem_trim cfg ?r new_size h = Some (?r, call_mutex mutex_unlock h2)"
        unfolding pre h2(1) using False by simp
      have "balanced h (call_mutex mutex_unlock h2)" using h2(4) by (simp add: balanced_def)
      moreover have "same_place h (call_mutex mutex_unlock h2)" using h2(3) by (simp add: same_place_def)
      ultimately show thesis using r bl2 by (intro that2) simp_all
    qed
    show ?thesis
    proof (cases "\<exists>m zs. ys = (m, False) # zs")
      case True
      then obtain m zs where ys: "ys = (m, False) # zs" by blast
      have l: "listed cfg ?h1 (xs @ (n, True) # (m, False) # zs)" using l1 unfolding ys .
      obtain h2 where h2: "trim_next_free cfg (adr (ram ?h1) ?p) ?sz ?h1 = Some h2"
        "listed cfg h2 (xs @ (?k, True) # (n + m - ?k, False) # zs)" "same_place ?h1 h2" "mem_mutex h2 = mem_mutex ?h1"
        by (rule trim_next_free_chained[OF l, of ?k ?sz])
          (use fit False u need_ge need_dvd in \<open>auto simp: dvd_add\<close>)
      have "mem_used (structs ?h1 (adr (ram h) (?p + n))) = 0" using q(4)[OF ys] by simp
      then show ?thesis using h2 False ys by (intro fin exI[of _ h2]) simp
    next
      case nf: False
      have us: "mem_used (structs ?h1 (adr (ram h) (?p + n))) \<noteq> 0"
      proof (cases ys)
        case Nil
        then show ?thesis using q(3) baseD(4)[OF b] by simp
      next
        case (Cons y zs)
        then show ?thesis using q(4)[of "fst y" "snd y" zs] nf by (cases y) auto
      qed
      have tr: "trimmed ?k n ys = (if ?k + 24 \<le> n then [(?k, True), (n - ?k, False)] else [(n, True)]) @ ys"
        using nf by (cases "(?k, n, ys)" rule: trimmed.cases) auto
      show ?thesis
      proof (cases "?k + 24 \<le> n")
        case True
        then have "ys \<noteq> []" using last by auto
        obtain h2 where h2: "trim_split cfg (adr (ram ?h1) ?p) ?sz ?h1 = Some h2"
          "listed cfg h2 (xs @ (?k, True) # (n - ?k, False) # ys)" "same_place ?h1 h2" "mem_mutex h2 = mem_mutex ?h1"
          by (rule trim_split_chained[OF l1, of ?k ?sz])
            (use True u need_ge need_dvd \<open>ys \<noteq> []\<close> in \<open>auto simp: dvd_add\<close>)
        then show ?thesis using True us tr by (intro fin exI[of _ h2]) simp
      next
        case False
        then show ?thesis using us tr l1 by (intro fin exI[of _ ?h1]) (simp add: same_place_def)
      qed
    qed
  qed
qed

end
