(* ===== verification/Lwip_Heap_Run.thy ===== *)
theory Lwip_Heap_Run
  imports Lwip_Heap_Calls
begin

text \<open>
  A run of lwIP's heap: initialisation, then any sequence of allocations, and of releases and shrinkings
  of blocks that are allocated. What the client may rely on is an invariant of the run.
\<close>

section \<open>Initialisation\<close>

text \<open>The heap has room for one block, and its end does not reach the end of the address space.\<close>

definition heap_fits :: "heap_cfg \<Rightarrow> bool" where
  "heap_fits cfg \<longleftrightarrow> 24 \<le> heap_size cfg \<and> unat (lwip_mem_align (LWIP_RAM_HEAP_POINTER cfg)) + heap_size cfg + 12 < 2 ^ 32"

lemma align_dvd: "4 dvd unat (lwip_mem_align a)"
  by (simp add: unat_mem_align)

lemma heap_init_blocks:
  assumes "heap_fits cfg"
  obtains h' where "heap_mem_init cfg True h = Some h'" and "blocks cfg h' [(heap_size cfg, False)]"
    and "mem_mutex h' = mem_mutex h" and "ram h' = lwip_mem_align (LWIP_RAM_HEAP_POINTER cfg)"
proof -
  let ?r = "lwip_mem_align (LWIP_RAM_HEAP_POINTER cfg)" and ?M = "heap_size cfg"
  let ?h1 = "h\<lparr>ram := ?r\<rparr>"
  let ?h2 = "set_used (adr ?r 0) 0 (set_prev (adr ?r 0) 0 (set_next (adr ?r 0) (idx ?M) ?h1))"
  let ?h3 = "?h2\<lparr>ram_end := adr ?r ?M\<rparr>"
  let ?h4 = "set_prev (adr ?r ?M) (idx ?M) (set_next (adr ?r ?M) (idx ?M) (set_used (adr ?r ?M) 1 ?h3))"
  have rm: "room cfg ?r" and M: "24 \<le> ?M" "4 dvd ?M" using assms align_dvd
    by (auto simp: heap_fits_def room_def MEM_SIZE_ALIGNED_def)
  have f: "ram ?h4 = ?r" "ram_end ?h4 = adr ?r ?M" "mem_mutex ?h4 = mem_mutex h" by simp_all
  have e: "hdr (h\<lparr>ram_end := a\<rparr>) = hdr h" for a and h by (simp add: hdr_def fun_eq_iff del: hdr_offset)
  have hd: "hdr ?h4 0 = \<lparr>mem_next = idx ?M, mem_prev = 0, mem_used = 0\<rparr>" 
    "hdr ?h4 ?M = \<lparr>mem_next = idx ?M, mem_prev = idx ?M, mem_used = 1\<rparr>"
    using M(1) by (simp_all add: hdr_set[OF rm] e del: adr_0)
  have "heap_base cfg ?h4" using rm hd(2) align_dvd f by (simp add: heap_base_def idx_size adr_def)
  then have c: "chained cfg ?h4 [(?M, False)]" using hd(1) M by (simp add: chained_def block_ok_def)
  have s: "MEM_SANITY cfg ?h4 = Some ()" by (rule mem_sanity_ok(2)[OF c]) simp
  have "heap_mem_init cfg True h = Some (?h4\<lparr>lfree := ?r\<rparr>)"
    using s by (simp add: heap_mem_init_def lwip_assert_def Let_def idx_size ptr_to_mem_def adr_def)
  moreover have "blocks cfg (?h4\<lparr>lfree := ?r\<rparr>) [(?M, False)]" using c by (simp add: blocks_def)
  ultimately show ?thesis by (rule that) simp_all
qed

section \<open>When shrinking fails\<close>

lemma heap_trim_refused:
  assumes "heap_size cfg < need (unat new_size)"
  shows "heap_mem_trim cfg p new_size h = Some (0, h)"
  using assms size_word(1)[where size_in = new_size and cfg = cfg] by (auto simp: heap_mem_trim_def Let_def)

text \<open>A block cannot grow: the assertion stops the program.\<close>

lemma heap_trim_too_big:
  assumes bl: "blocks cfg h (xs @ (n, True) # ys)" and "n < need (unat new_size) + 12" and "need (unat new_size) \<le> heap_size cfg"
  shows "heap_mem_trim cfg (adr (ram h) (sizes xs + 12)) new_size h = None"
proof -
  let ?p = "sizes xs" and ?r = "adr (ram h) (sizes xs + 12)"
  let ?sz = "if lwip_mem_align new_size < 12 then 12 else lwip_mem_align new_size"
  have c: "chained cfg h (xs @ (n, True) # ys)" using bl by (simp add: blocks_def)
  obtain q where q: "hdr h ?p = \<lparr>mem_next = idx (?p + n), mem_prev = idx q, mem_used = of_bool True\<rparr>"
    "24 \<le> n" "?p + n + sizes ys = heap_size cfg" by (rule chain_at[OF c]) blast
  have b: "heap_base cfg h" using c by (simp add: chained_def)
  note sz = size_word[where size_in = new_size and cfg = cfg]
  have "unat (idx (n - 12)) = n - 12" using unat_offset(2)[OF baseD(2)[OF b], of "n - 12"] q(3) by simp
  then have "\<not> ?sz \<le> idx (n - 12)" using sz(2) assms(2,3) q(2) by (simp add: word_le_nat_alt)
  moreover have "?r - 12 = adr (ram h) ?p" "idx (?p + n) - idx ?p - 12 = idx (n - 12)" using q(2)
    by (simp_all add: adr_def idx_def of_nat_diff)
  ultimately show ?thesis using q(1) sz(1) assms(3)
    by (simp add: heap_mem_trim_def lwip_assert_def Let_def cong: if_cong)
qed

text \<open>
  The last block of the heap cannot be split either, although it is shrunk: the assertion that the next
  header is not the end stands in the branch for a next header in use, which the end is.
\<close>

lemma heap_trim_last:
  assumes bl: "blocks cfg h (xs @ [(n, True)])" and fit: "need (unat new_size) + 36 \<le> n"
  shows "heap_mem_trim cfg (adr (ram h) (sizes xs + 12)) new_size h = None"
proof -
  let ?p = "sizes xs" and ?r = "adr (ram h) (sizes xs + 12)"
  let ?sz = "if lwip_mem_align new_size < 12 then 12 else lwip_mem_align new_size"
  have c: "chained cfg h (xs @ (n, True) # [])" using bl by (simp add: blocks_def)
  obtain q where q: "hdr h ?p = \<lparr>mem_next = idx (?p + n), mem_prev = idx q, mem_used = of_bool True\<rparr>"
    "24 \<le> n" "?p + n = heap_size cfg" by (rule chain_at[OF c]) simp
  have b: "heap_base cfg h" using c by (simp add: chained_def)
  note sz = size_word[where size_in = new_size and cfg = cfg]
  have u: "unat ?sz = need (unat new_size)" using sz(2) fit q(3) by simp
  have i: "unat (idx (n - 12)) = n - 12" using unat_offset(2)[OF baseD(2)[OF b], of "n - 12"] q(3) by simp
  have "need (unat new_size) + 24 < 2 ^ 32" using baseD(2)[OF b] fit q(3) unfolding room_def by linarith
  then have "unat (24 + ?sz) = need (unat new_size) + 24" using u by (simp only: unat_plus_if_size word_size) simp
  then have "24 + ?sz \<le> idx (n - 12)" "?sz \<noteq> idx (n - 12)"
    using i u fit by (auto simp only: word_le_nat_alt word_unat_eq_iff)
  moreover have "structs h (ptr_to_mem (call_mutex mutex_lock h) (MEM_SIZE_ALIGNED cfg)) = hdr h (heap_size cfg)"
    by (simp add: ptr_to_mem_def hdr_def adr_def idx_size del: hdr_offset)
  moreover have "mem_used (hdr h (heap_size cfg)) = 1" using baseD(4)[OF b] by simp
  moreover have "?r - 12 = adr (ram h) ?p" "idx (?p + n) - idx ?p - 12 = idx (n - 12)" using q(2)
    by (simp_all add: adr_def idx_def of_nat_diff)
  ultimately show ?thesis using q(1,3) sz(1) fit
    by (auto simp: heap_mem_trim_def trim_split_def lwip_assert_def Let_def idx_size cong: if_cong)
qed

end
