(* ===== verification/Lwip_Heap_Client.thy ===== *)
theory Lwip_Heap_Client
  imports Lwip_Heap_Run
begin

text \<open>
  The client of lwIP's heap: the pointers it holds are the blocks in use, each with room for what was asked
  for. Every call keeps this, so blocks never overlap, and what is freed is not lost.
\<close>

section \<open>The blocks in use\<close>

fun used_at :: "nat \<Rightarrow> block list \<Rightarrow> (nat \<times> nat) set" where
  "used_at p [] = {}"
| "used_at p ((n, u) # bs) = (if u then {(p, n)} else {}) \<union> used_at (p + n) bs"

lemma used_at_append [simp]: "used_at p (xs @ ys) = used_at p xs \<union> used_at (p + sizes xs) ys"
  by (induction p xs rule: used_at.induct) (auto simp: add.assoc)

lemma used_at_coalesce [simp]: "used_at p (coalesce bs) = used_at p bs"
  by (induction bs arbitrary: p rule: coalesce.induct) (auto simp: add.assoc[symmetric] simp del: insert_is_Un)

lemma used_at_bounds: "(q, k) \<in> used_at p bs \<Longrightarrow> p \<le> q \<and> q + k \<le> p + sizes bs"
  by (induction p bs rule: used_at.induct) (auto split: if_splits)

lemma used_at_split:
  assumes "(q, k) \<in> used_at p bs"
  obtains xs ys where "bs = xs @ (k, True) # ys" and "q = p + sizes xs"
proof -
  have "\<exists>xs ys. bs = xs @ (k, True) # ys \<and> q = p + sizes xs" using assms
  proof (induction p bs rule: used_at.induct)
    case (2 p n u bs)
    show ?case
    proof (cases "u \<and> (q, k) = (p, n)")
      case True
      then show ?thesis by (intro exI[of _ "[]"] exI[of _ bs]) simp
    next
      case False
      then have "(q, k) \<in> used_at (p + n) bs" using 2(2) by (auto split: if_splits)
      then obtain xs ys where "bs = xs @ (k, True) # ys" "q = p + n + sizes xs" using 2(1) by blast
      then show ?thesis by (intro exI[of _ "(n, u) # xs"] exI[of _ ys]) simp
    qed
  qed simp
  then show ?thesis using that by blast
qed

text \<open>Two blocks in use do not overlap.\<close>

lemma used_at_apart:
  assumes "(q, k) \<in> used_at p bs" and "(q', k') \<in> used_at p bs" and "q < q'"
  shows "q + k \<le> q'"
  using assms
  by (induction p bs rule: used_at.induct) (auto split: if_splits dest: used_at_bounds)

text \<open>The offset of a block is the start of no other one, whether it is in use or free.\<close>

lemma used_at_others:
  assumes "(q, k) \<in> used_at 0 (xs @ (n, u) # ys)" and "0 < k" and "0 < n"
  shows "q = sizes xs \<Longrightarrow> u \<and> k = n" and "u \<Longrightarrow> (q, k) \<noteq> (sizes xs, n) \<Longrightarrow> q \<noteq> sizes xs"
  using assms by (auto split: if_splits dest!: used_at_bounds)

lemma used_at_taken: "used_at p (taken sz n) = {(p, if sz + 36 \<le> n then sz + 12 else n)}"
  by (simp add: taken_def)

lemma used_at_trimmed:
  "\<exists>n'. used_at p (trimmed k n ys) = {(p, n')} \<union> used_at (p + n) ys \<and> (n' = k \<or> n' = n)"
  if "k \<le> n" using that
  by (cases "(k, n, ys)" rule: trimmed.cases) (auto simp: add.assoc)

section \<open>What the client holds\<close>

abbreviation pointer :: "lwip_heap \<Rightarrow> nat \<Rightarrow> u32" where "pointer h q \<equiv> adr (ram h) (q + 12)"

definition client_ok :: "heap_cfg \<Rightarrow> lwip_heap \<Rightarrow> block list \<Rightarrow> (u32 \<rightharpoonup> u32) \<Rightarrow> bool" where
  "client_ok cfg h bs L \<longleftrightarrow> blocks cfg h bs \<and> dom L = pointer h ` fst ` used_at 0 bs
     \<and> (\<forall>q k n. (q, k) \<in> used_at 0 bs \<longrightarrow> L (pointer h q) = Some n \<longrightarrow> need (unat n) + 12 \<le> k)"

text \<open>One call of a client that frees and shrinks only what it holds.\<close>

inductive heap_step :: "heap_cfg \<Rightarrow> lwip_heap \<times> (u32 \<rightharpoonup> u32) \<Rightarrow> lwip_heap \<times> (u32 \<rightharpoonup> u32) \<Rightarrow> bool" for cfg where
  malloc: "heap_mem_malloc cfg n h = Some (p, h') \<Longrightarrow> heap_step cfg (h, L) (h', if p = 0 then L else L(p \<mapsto> n))"
| free: "p \<in> dom L \<Longrightarrow> heap_mem_free cfg p h = Some h' \<Longrightarrow> heap_step cfg (h, L) (h', L(p := None))"
| trim: "p \<in> dom L \<Longrightarrow> heap_mem_trim cfg p n h = Some (r, h')
    \<Longrightarrow> heap_step cfg (h, L) (h', if r = 0 then L else L(p \<mapsto> n))"

inductive heap_run :: "heap_cfg \<Rightarrow> lwip_heap \<times> (u32 \<rightharpoonup> u32) \<Rightarrow> bool" for cfg where
  init: "heap_mem_init cfg True h = Some h' \<Longrightarrow> heap_run cfg (h', Map.empty)"
| step: "heap_run cfg s \<Longrightarrow> heap_step cfg s s' \<Longrightarrow> heap_run cfg s'"

inductive_cases heap_stepE: "heap_step cfg (h, L) s'"

lemma blocks_pos: "blocks cfg h bs \<Longrightarrow> (q, k) \<in> used_at 0 bs \<Longrightarrow> 24 \<le> k"
  using seg_ok by (fastforce simp: blocks_def chained_def block_ok_def elim: used_at_split)

lemma pointer_inj:
  assumes "blocks cfg h bs" and "q \<le> heap_size cfg" and "q' \<le> heap_size cfg"
  shows "pointer h q = pointer h q' \<longleftrightarrow> q = q'"
proof -
  have "room cfg (ram h)" using assms(1) baseD(2) by (simp add: blocks_def chained_def)
  then have "unat (ram h) + heap_size cfg + 12 < 2 ^ 32" by (simp add: room_def)
  then have "unat (idx (q + 12)) = q + 12" "unat (idx (q' + 12)) = q' + 12"
    using assms(2,3) unfolding idx_def by (intro unat_of_nat32; linarith)+
  then show ?thesis by (metis add_left_cancel add_right_cancel adr_def)
qed


lemma pointer_nonzero:
  assumes "blocks cfg h bs" and "q < heap_size cfg"
  shows "pointer h q \<noteq> 0"
proof -
  have "room cfg (ram h)" using assms(1) baseD(2) by (simp add: blocks_def chained_def)
  then have "unat (pointer h q) = unat (ram h) + (q + 12)" by (rule unat_offset(1)) (use assms(2) in simp)
  then show ?thesis by (metis add_is_0 unat_0 zero_neq_numeral)
qed

lemma used_at_le: "blocks cfg h bs \<Longrightarrow> (q, k) \<in> used_at 0 bs \<Longrightarrow> q + k \<le> heap_size cfg"
  using used_at_bounds[of q k 0 bs] chained_size[of cfg h bs] by (simp add: blocks_def)

lemma client_malloc:
  assumes c: "client_ok cfg h bs L" and m: "heap_mem_malloc cfg n h = Some (p, h')"
  shows "\<exists>bs'. client_ok cfg h' bs' (if p = 0 then L else L(p \<mapsto> n))"
proof -
  have bl: "blocks cfg h bs" using c by (simp add: client_ok_def)
  show ?thesis
  proof (cases "n = 0 \<or> alloc (need (unat n)) bs = None")
    case True
    obtain h1 where "heap_mem_malloc cfg n h = Some (0, h1)" "blocks cfg h1 bs" "same_place h h1"
      by (rule heap_malloc_none[OF bl True])
    then show ?thesis using m c by (intro exI[of _ bs]) (simp add: client_ok_def same_place_def)
  next
    case False
    then obtain k bs' where a: "n \<noteq> 0" "alloc (need (unat n)) bs = Some (k, bs')" by auto
    obtain h1 where h1: "heap_mem_malloc cfg n h = Some (pointer h k, h1)" "blocks cfg h1 bs'" "same_place h h1"
      by (rule heap_malloc_some[OF bl a])
    obtain xs k0 ys where x: "bs = xs @ (k0, False) # ys" "k = sizes xs" "need (unat n) + 12 \<le> k0"
      "bs' = xs @ taken (need (unat n)) k0 @ ys" by (rule alloc_split[OF a(2)])
    have p: "p = pointer h k" "h' = h1" using m h1(1) by simp_all
    have r: "ram h1 = ram h" using h1(3) by (simp add: same_place_def)
    have u: "\<exists>k1. used_at 0 bs' = insert (k, k1) (used_at 0 bs) \<and> need (unat n) + 12 \<le> k1"
      using x by (auto simp: used_at_taken taken_def)
    then obtain k1 where k1: "used_at 0 bs' = insert (k, k1) (used_at 0 bs)" "need (unat n) + 12 \<le> k1" by blast
    have kM: "k + k1 \<le> heap_size cfg" using used_at_le[OF h1(2)] k1(1) by blast
    have new: "q \<noteq> k" if "(q, k') \<in> used_at 0 bs" for q k'
      using used_at_others(1)[of q k' xs k0 False ys] that x blocks_pos[OF bl that] by auto
    have p0: "p \<noteq> 0" unfolding p by (rule pointer_nonzero[OF bl]) (use kM k1(2) in simp)
    have other: "pointer h q \<noteq> p" if "(q, k') \<in> used_at 0 bs" for q k'
      using new[OF that] pointer_inj[OF bl, of q k] used_at_le[OF bl that] kM unfolding p by simp
    have "client_ok cfg h1 bs' (L(p \<mapsto> n))"
      using c h1(2) k1 other unfolding client_ok_def r p(1)[symmetric] 
      by (auto simp: r p(1)[symmetric])
    then show ?thesis using p0 p by auto
  qed
qed

lemma client_pointer:
  assumes c: "client_ok cfg h bs L" and p: "p \<in> dom L"
  obtains xs k ys where "bs = xs @ (k, True) # ys" and "p = pointer h (sizes xs)" and "(sizes xs, k) \<in> used_at 0 bs"
proof -
  obtain q k where q: "p = pointer h q" "(q, k) \<in> used_at 0 bs" using c p by (auto simp: client_ok_def)
  then show ?thesis using that by (auto elim: used_at_split)
qed

text \<open>The other pointers of the client, when one block is in use.\<close>

lemma client_others:
  assumes bl: "blocks cfg h (xs @ (k, True) # ys)" and u: "(q, k') \<in> used_at 0 (xs @ (k, True) # ys)" and d: "(q, k') \<noteq> (sizes xs, k)"
  shows "pointer h q \<noteq> pointer h (sizes xs)"
proof -
  have "(sizes xs, k) \<in> used_at 0 (xs @ (k, True) # ys)" by simp
  note le = used_at_le[OF bl u] used_at_le[OF bl this] and pos = blocks_pos[OF bl u] blocks_pos[OF bl this]
  have "q \<noteq> sizes xs" using used_at_others(2)[of q k' xs k True ys] u d pos by simp
  then show ?thesis using pointer_inj[OF bl, of q "sizes xs"] le by simp
qed

lemma client_free:
  assumes c: "client_ok cfg h bs L" and p: "p \<in> dom L"
  obtains h' bs' where "heap_mem_free cfg p h = Some h'" and "client_ok cfg h' bs' (L(p := None))"
proof -
  obtain xs k ys where x: "bs = xs @ (k, True) # ys" "p = pointer h (sizes xs)" by (rule client_pointer[OF c p])
  have bl: "blocks cfg h (xs @ (k, True) # ys)" using c x by (simp add: client_ok_def)
  obtain h' where h': "heap_mem_free cfg p h = Some h'" "blocks cfg h' (coalesce (xs @ (k, False) # ys))" "same_place h h'"
    unfolding x(2) by (rule heap_free_blocks[OF bl])
  have r: "ram h' = ram h" using h'(3) by (simp add: same_place_def)
  have k: "0 < k" using blocks_pos[OF bl, of "sizes xs" k] by simp
  let ?bs = "xs @ (k, False) # ys"
  have u: "used_at 0 bs = insert (sizes xs, k) (used_at 0 ?bs)" unfolding x(1) by auto
  have other: "pointer h q \<noteq> p" if "(q, k') \<in> used_at 0 ?bs" for q k'
  proof -
    have m: "(q, k') \<in> used_at 0 (xs @ (k, True) # ys)" using that u x(1) by auto
    have "(q, k') \<noteq> (sizes xs, k)" using used_at_others(1)[OF that _ k] blocks_pos[OF bl m] by auto
    then show ?thesis using client_others[OF bl m] x(2) by simp
  qed
  have "dom (L(p := None)) = pointer h ` fst ` used_at 0 ?bs"
    using c other unfolding client_ok_def u by (force simp: x(2))
  moreover have "need (unat n) + 12 \<le> k'" if "(q, k') \<in> used_at 0 ?bs" "(L(p := None)) (pointer h q) = Some n" for q k' n
    using c that u unfolding client_ok_def by (auto split: if_splits)
  ultimately have "client_ok cfg h' (coalesce ?bs) (L(p := None))"
    using h'(2) by (simp add: client_ok_def r del: fun_upd_apply used_at_append)
  then show ?thesis using h'(1) that by blast
qed

lemma client_trim:
  assumes c: "client_ok cfg h bs L" and p: "p \<in> dom L" and t: "heap_mem_trim cfg p n h = Some (r, h')"
  shows "\<exists>bs'. client_ok cfg h' bs' (if r = 0 then L else L(p \<mapsto> n))"
proof -
  obtain xs k ys where x: "bs = xs @ (k, True) # ys" "p = pointer h (sizes xs)" by (rule client_pointer[OF c p])
  have bl: "blocks cfg h (xs @ (k, True) # ys)" using c x by (simp add: client_ok_def)
  have k: "0 < k" using blocks_pos[OF bl, of "sizes xs" k] by simp
  show ?thesis
  proof (cases "heap_size cfg < need (unat n)")
    case True
    then show ?thesis using heap_trim_refused t c by (intro exI[of _ bs]) simp
  next
    case False
    then have fit: "need (unat n) + 12 \<le> k" using heap_trim_too_big[OF bl, of n] t x(2) by (cases "k < need (unat n) + 12") auto
    have nl: "ys \<noteq> [] \<or> k < need (unat n) + 36"
      using heap_trim_last[of cfg h xs k n] bl t x(2) by (cases "ys = []"; cases "k < need (unat n) + 36") auto
    obtain h1 where h1: "heap_mem_trim cfg p n h = Some (p, h1)" "blocks cfg h1 (xs @ trimmed (need (unat n) + 12) k ys)"
      "same_place h h1" unfolding x(2) by (rule heap_trim_blocks[OF bl fit nl])
    have r: "ram h1 = ram h" "r = p" "h' = h1" using h1 t by (simp_all add: same_place_def)
    obtain k1 where k1: "used_at (sizes xs) (trimmed (need (unat n) + 12) k ys) = {(sizes xs, k1)} \<union> used_at (sizes xs + k) ys"
      "k1 = need (unat n) + 12 \<or> k1 = k" using used_at_trimmed[OF fit] by blast
    let ?bs = "xs @ trimmed (need (unat n) + 12) k ys"
    have u: "used_at 0 ?bs = insert (sizes xs, k1) (used_at 0 xs \<union> used_at (sizes xs + k) ys)"
      "used_at 0 bs = insert (sizes xs, k) (used_at 0 xs \<union> used_at (sizes xs + k) ys)"
      using k1(1) x(1) by auto
    have other: "pointer h q \<noteq> p" if "(q, k') \<in> used_at 0 xs \<union> used_at (sizes xs + k) ys" for q k'
    proof -
      have m: "(q, k') \<in> used_at 0 (xs @ (k, True) # ys)" using that by auto
      have "(q, k') \<noteq> (sizes xs, k)" using that k by (auto dest: used_at_bounds)
      then show ?thesis using client_others[OF bl m] x(2) by simp
    qed
    have "sizes xs < heap_size cfg" using used_at_le[OF bl, of "sizes xs" k] k by simp
    then have p0: "p \<noteq> 0" unfolding x(2) by (rule pointer_nonzero[OF bl])
    have "dom (L(p \<mapsto> n)) = pointer h ` fst ` used_at 0 ?bs"
      using c unfolding client_ok_def u by (auto simp: x(2))
    moreover have "need (unat n') + 12 \<le> k'" if "(q, k') \<in> used_at 0 ?bs" "(L(p \<mapsto> n)) (pointer h q) = Some n'" for q k' n'
    proof (cases "(q, k') = (sizes xs, k1)")
      case True
      then show ?thesis using that(2) k1(2) fit x(2) by auto
    next
      case False
      then have o: "(q, k') \<in> used_at 0 xs \<union> used_at (sizes xs + k) ys" using that(1) unfolding u(1) by blast
      then have "L (pointer h q) = Some n'" using that(2) other by auto
      then show ?thesis using c o u(2) unfolding client_ok_def by blast
    qed
    ultimately have "client_ok cfg h1 ?bs (L(p \<mapsto> n))"
      using h1(2) by (simp add: client_ok_def r(1) del: fun_upd_apply used_at_append)
    then show ?thesis using p0 r by auto
  qed
qed

lemma run_client_ok:
  assumes "heap_run cfg s" and f: "heap_fits cfg"
  shows "\<exists>bs. client_ok cfg (fst s) bs (snd s)"
  using assms(1)
proof (induction rule: heap_run.induct)
  case (init h h')
  obtain h1 where "heap_mem_init cfg True h = Some h1" "blocks cfg h1 [(heap_size cfg, False)]"
    by (rule heap_init_blocks[OF f])
  then show ?case using init by (intro exI[of _ "[(heap_size cfg, False)]"]) (simp add: client_ok_def)
next
  case (step s s')
  then obtain bs where c: "client_ok cfg (fst s) bs (snd s)" by blast
  from step(2) show ?case
  proof cases
    case (malloc n h p h' L)
    then show ?thesis using client_malloc[of cfg h bs L n p h'] c by simp
  next
    case (free p L h h')
    then show ?thesis using client_free[of cfg h bs L p] c by (metis fst_conv option.inject snd_conv)
  next
    case (trim p L n h r h')
    then show ?thesis using client_trim[of cfg h bs L p n r h'] c by simp
  qed
qed

end
