(* ===== verification/Lwip_Heap_Properties.thy ===== *)
theory Lwip_Heap_Properties
  imports Lwip_Heap_Client
begin

text \<open>What lwIP's heap promises, with instances on a heap of the size \<^verbatim>\<open>opt.h\<close> gives.\<close>

section \<open>Facts of a run\<close>

lemma used_pointer:
  assumes bl: "blocks cfg h bs" and u: "(q, k) \<in> used_at 0 bs"
  shows "unat (pointer h q) = unat (ram h) + q + 12" and "4 dvd unat (pointer h q)"
    and "unat (ram_end h) = unat (ram h) + heap_size cfg"
proof -
  have b: "heap_base cfg h" using bl by (simp add: blocks_def chained_def)
  note le = used_at_le[OF bl u] and pos = blocks_pos[OF bl u]
  show "unat (pointer h q) = unat (ram h) + q + 12" "unat (ram_end h) = unat (ram h) + heap_size cfg"
    unfolding end_address[OF b] using unat_offset(1)[OF baseD(2)[OF b]] le pos by simp_all
  obtain xs ys where x: "bs = xs @ (k, True) # ys" "q = 0 + sizes xs" by (rule used_at_split[OF u])
  have "chained cfg h (xs @ (k, True) # ys)" using bl x(1) by (simp add: blocks_def)
  then have "4 dvd sizes xs" by (rule chain_at)
  then show "4 dvd unat (pointer h q)" by (intro adr_aligned[OF b]) (use le pos x(2) in auto)
qed

lemma client_blocks:
  assumes c: "client_ok cfg h bs L" and p: "L p = Some n"
  obtains q k where "p = pointer h q" and "(q, k) \<in> used_at 0 bs" and "unat n + 12 \<le> k"
proof -
  have "p \<in> pointer h ` fst ` used_at 0 bs" using c p unfolding client_ok_def by blast
  then obtain q k where q: "p = pointer h q" "(q, k) \<in> used_at 0 bs" by auto
  then have "need (unat n) + 12 \<le> k" using c p by (auto simp: client_ok_def)
  then show ?thesis using that q need_ge(2)[of "unat n"] by force
qed

lemma malloc_total: "blocks cfg h bs \<Longrightarrow> \<exists>p h'. heap_mem_malloc cfg n h = Some (p, h')"
proof (cases "n = 0 \<or> alloc (need (unat n)) bs = None")
  case True
  assume "blocks cfg h bs"
  then show ?thesis using heap_malloc_none True by metis
next
  case False
  assume "blocks cfg h bs"
  then show ?thesis using heap_malloc_some False by (metis option.exhaust surj_pair)
qed

text \<open>Without a block in use, the heap is one free block.\<close>

lemma separated_free: "separated bs \<Longrightarrow> \<forall>b \<in> set bs. \<not> snd b \<Longrightarrow> bs \<noteq> [] \<Longrightarrow> \<exists>n. bs = [(n, False)]"
  by (cases bs; cases "tl bs") auto

lemma no_used_at: "used_at p bs = {} \<Longrightarrow> \<forall>b \<in> set bs. \<not> snd b"
  by (induction p bs rule: used_at.induct) (auto split: if_splits)

lemma empty_client:
  assumes "client_ok cfg h bs Map.empty"
  shows "bs = [(heap_size cfg, False)]"
proof -
  have "used_at 0 bs = {}" and bl: "blocks cfg h bs" using assms by (auto simp: client_ok_def)
  moreover have "separated bs" "bs \<noteq> []" using bl by (auto simp: blocks_def chained_def)
  ultimately obtain n where "bs = [(n, False)]" using separated_free no_used_at by blast
  then show ?thesis using chained_size[of cfg h bs] bl by (simp add: blocks_def)
qed

section \<open>Properties\<close>

definition opt_heap :: heap_cfg where
  "opt_heap = \<lparr>MEM_SIZE = 1600, LWIP_RAM_HEAP_POINTER = 0x3ffe8001, MEM_SANITY_CHECK = True\<rparr>"

lemma opt_heap: "heap_fits opt_heap" "heap_size opt_heap = 1600"
proof -
  have a: "lwip_mem_align 1600 = 1600" "lwip_mem_align 0x3ffe8001 = 0x3ffe8004" by (simp_all add: lwip_mem_align_def)
  then show "heap_size opt_heap = 1600" by (simp add: opt_heap_def MEM_SIZE_ALIGNED_def)
  then show "heap_fits opt_heap" using a by (simp add: heap_fits_def opt_heap_def)
qed

lemma opt_heap_run: "\<exists>h p h'. heap_run opt_heap (h, Map.empty) \<and> heap_mem_malloc opt_heap 100 h = Some (p, h') \<and> p \<noteq> 0
  \<and> heap_run opt_heap (h', [p \<mapsto> 100]) \<and> blocks opt_heap h [(1600, False)]"
proof -
  obtain h where h: "heap_mem_init opt_heap True undefined = Some h" "blocks opt_heap h [(1600, False)]"
    using heap_init_blocks[OF opt_heap(1), of undefined] unfolding opt_heap(2) by blast
  have r: "heap_run opt_heap (h, Map.empty)" by (rule heap_run.init[OF h(1)])
  have a: "alloc (need (unat (100 :: u32))) [(1600, False)] = Some (0, [(112, True), (1488, False)])"
    by (simp add: need_def)
  obtain h' where h': "heap_mem_malloc opt_heap 100 h = Some (pointer h 0, h')"
    using heap_malloc_some[OF h(2) _ a] by auto
  have p: "pointer h 0 \<noteq> 0" by (rule pointer_nonzero[OF h(2)]) (simp add: opt_heap(2))
  have "heap_run opt_heap (h', [pointer h 0 \<mapsto> 100])"
    using heap_run.step[OF r heap_step.malloc[OF h']] p by simp
  then show ?thesis using r h' p h(2) by blast
qed

text \<open>
  C32: Allocated memory is sound. Whatever sequence of allocations, releases and shrinkings a client makes
  that frees and shrinks only what it holds, every pointer it holds is aligned and lies in the heap with
  room for the size asked for last, two different ones never overlap and leave room for a header between
  them, no allocation stops the program, and every pointer held can be freed.
\<close>

theorem heap_blocks_sound:
  assumes "heap_run cfg (h, L)" and "heap_fits cfg"
  shows "(\<forall>p n. L p = Some n \<longrightarrow> 4 dvd unat p \<and> unat (ram h) + 12 \<le> unat p \<and> unat p + unat n \<le> unat (ram_end h))
    \<and> (\<forall>p n q m. L p = Some n \<longrightarrow> L q = Some m \<longrightarrow> p \<noteq> q
         \<longrightarrow> unat p + unat n + 12 \<le> unat q \<or> unat q + unat m + 12 \<le> unat p)
    \<and> (\<forall>n. \<exists>p h'. heap_mem_malloc cfg n h = Some (p, h'))
    \<and> (\<forall>p \<in> dom L. \<exists>h'. heap_mem_free cfg p h = Some h')"
proof -
  obtain bs where c: "client_ok cfg h bs L" using run_client_ok[OF assms] by auto
  then have bl: "blocks cfg h bs" by (simp add: client_ok_def)
  have 1: "4 dvd unat p \<and> unat (ram h) + 12 \<le> unat p \<and> unat p + unat n \<le> unat (ram_end h)" if pn: "L p = Some n" for p n
  proof -
    obtain q k where q: "p = pointer h q" "(q, k) \<in> used_at 0 bs" "unat n + 12 \<le> k" by (rule client_blocks[OF c pn])
    then show ?thesis using used_pointer[OF bl q(2)] used_at_le[OF bl q(2)] by simp
  qed
  have 2: "unat p + unat n + 12 \<le> unat p' \<or> unat p' + unat m + 12 \<le> unat p"
    if pn: "L p = Some n" "L p' = Some m" "p \<noteq> p'" for p n p' m
  proof -
    obtain q k where q: "p = pointer h q" "(q, k) \<in> used_at 0 bs" "unat n + 12 \<le> k" by (rule client_blocks[OF c pn(1)])
    obtain q' k' where q': "p' = pointer h q'" "(q', k') \<in> used_at 0 bs" "unat m + 12 \<le> k'"
      by (rule client_blocks[OF c pn(2)])
    have "q < q' \<or> q' < q" using pn(3) q(1) q'(1) by (metis linorder_neqE_nat)
    then have "q + k \<le> q' \<or> q' + k' \<le> q" using used_at_apart[OF q(2) q'(2)] used_at_apart[OF q'(2) q(2)] by blast
    then show ?thesis using used_pointer(1)[OF bl q(2)] used_pointer(1)[OF bl q'(2)] q(1,3) q'(1,3) by auto
  qed
  show ?thesis using 1 2 malloc_total[OF bl] client_free[OF c] by blast
qed

theorem heap_blocks_sound_witness:
  "\<exists>h L p h'. heap_run opt_heap (h, L) \<and> L p = Some 100 \<and> 4 dvd unat p \<and> unat p + 100 \<le> unat (ram_end h)
    \<and> heap_mem_free opt_heap p h = Some h'"
proof -
  obtain h p where r: "heap_run opt_heap (h, [p \<mapsto> 100])" using opt_heap_run by blast
  have p: "[p \<mapsto> (100 :: u32)] p = Some 100" "p \<in> dom [p \<mapsto> (100 :: u32)]" by simp_all
  note s = heap_blocks_sound[OF r opt_heap(1)]
  have "4 dvd unat p \<and> unat p + unat (100 :: u32) \<le> unat (ram_end h)" using s p(1) by blast
  moreover obtain h' where "heap_mem_free opt_heap p h = Some h'" using s p(2) by blast
  ultimately show ?thesis using r p(1) by (intro exI[of _ h] exI[of _ "[p \<mapsto> 100]"] exI[of _ p] exI[of _ h']) simp
qed

text \<open>
  C34: Freed memory is not lost. After any run at whose end the client holds nothing, however it
  fragmented the heap on the way, the heap is one free block again: every request that a fresh heap
  serves is served, with memory at the start of the heap.
\<close>

theorem heap_nothing_lost:
  assumes "heap_run cfg (h, Map.empty)" and "heap_fits cfg" and "n \<noteq> 0" and "unat n + 3 + 12 \<le> heap_size cfg"
  shows "\<exists>h'. heap_mem_malloc cfg n h = Some (ram h + 12, h')"
proof -
  obtain bs where c: "client_ok cfg h bs Map.empty" using run_client_ok[OF assms(1,2)] by auto
  have bl: "blocks cfg h [(heap_size cfg, False)]" using c empty_client[OF c] by (simp add: client_ok_def)
  have "need (unat n) + 12 \<le> heap_size cfg"
    using assms(2,4) by (auto simp: need_def heap_fits_def max_def)
  then obtain bs' where "alloc (need (unat n)) [(heap_size cfg, False)] = Some (0, bs')" by simp
  from heap_malloc_some[OF bl assms(3) this] show ?thesis by (metis add_0 adr_def idx_numeral)
qed

theorem heap_nothing_lost_witness:
  "\<exists>h h'. heap_run opt_heap (h, Map.empty) \<and> heap_mem_malloc opt_heap 1585 h = Some (ram h + 12, h')"
proof -
  obtain h where r: "heap_run opt_heap (h, Map.empty)" using opt_heap_run by blast
  show ?thesis using heap_nothing_lost[OF r opt_heap(1), of 1585] r by (auto simp: opt_heap(2))
qed

text \<open>
  C33: The allocator is first fit. On a heap of blocks \<open>bs\<close> an allocation returns, with the mutex locked and
  unlocked or not touched, and gives what first fit gives on the list of blocks: the first free block with
  room for the size, rounded up to words and to 12 bytes, is taken, its rest split off when it can be a
  block of its own, and \<open>NULL\<close> is returned, with the blocks as they were, exactly when no free block has room.
  The heap, with its pointer to the lowest free block, is well-formed again.
\<close>

theorem heap_malloc_first_fit:
  assumes "blocks cfg h bs"
  shows "\<exists>h'. heap_mem_malloc cfg n h = Some (case allocated n bs of None \<Rightarrow> 0 | Some (k, _) \<Rightarrow> pointer h k, h')
    \<and> blocks cfg h' (case allocated n bs of None \<Rightarrow> bs | Some (_, bs') \<Rightarrow> bs')
    \<and> (allocated n bs = None \<longleftrightarrow> n = 0 \<or> (\<forall>(k, u) \<in> set bs. u \<or> k < need (unat n) + 12)) \<and> balanced h h'"
proof -
  have none: "alloc sz bs = None \<longleftrightarrow> (\<forall>(k, u) \<in> set bs. u \<or> k < sz + 12)" for sz
    by (induction sz bs rule: alloc.induct) auto
  show ?thesis
  proof (cases "n = 0 \<or> alloc (need (unat n)) bs = None")
    case True
    obtain h' where "heap_mem_malloc cfg n h = Some (0, h')" "blocks cfg h' bs" "balanced h h'"
      by (rule heap_malloc_none[OF assms True])
    moreover have "allocated n bs = None" using True by (auto simp: allocated_def)
    moreover have "n = 0 \<or> (\<forall>(k, u) \<in> set bs. u \<or> k < need (unat n) + 12)" using True none by blast
    ultimately show ?thesis by (intro exI[of _ h']) simp
  next
    case False
    then obtain k bs' where a: "n \<noteq> 0" "alloc (need (unat n)) bs = Some (k, bs')" by auto
    obtain h' where "heap_mem_malloc cfg n h = Some (pointer h k, h')" "blocks cfg h' bs'" "balanced h h'"
      by (rule heap_malloc_some[OF assms a])
    moreover have "allocated n bs = Some (k, bs')" using a by (simp add: allocated_def)
    moreover have "\<not> (n = 0 \<or> (\<forall>(k, u) \<in> set bs. u \<or> k < need (unat n) + 12))"
      using a none[of "need (unat n)"] by (metis option.distinct(1))
    ultimately show ?thesis by (intro exI[of _ h']) simp
  qed
qed

theorem heap_malloc_first_fit_witness:
  "\<exists>h h'. blocks opt_heap h [(1600, False)] \<and> heap_mem_malloc opt_heap 100 h = Some (ram h + 12, h')
    \<and> blocks opt_heap h' [(112, True), (1488, False)]"
proof -
  obtain h where b: "blocks opt_heap h [(1600, False)]" using opt_heap_run by blast
  have "allocated 100 [(1600, False)] = Some (0, [(112, True), (1488, False)])" by (simp add: allocated_def need_def)
  then show ?thesis using heap_malloc_first_fit[OF b, of 100] b by (auto simp: adr_def idx_def)
qed

text \<open>
  Allocating and freeing is undone. A block that was just allocated can be freed at once, and the heap
  then consists of the same blocks as before, the split one joined again.
\<close>

theorem malloc_free_restores:
  assumes "blocks cfg h bs" and "heap_mem_malloc cfg n h = Some (p, h1)" and "p \<noteq> 0"
  shows "\<exists>h2. heap_mem_free cfg p h1 = Some h2 \<and> blocks cfg h2 bs"
proof -
  have "n \<noteq> 0" "alloc (need (unat n)) bs \<noteq> None"
    using heap_malloc_none[OF assms(1), of n] assms(2,3) by (metis Pair_inject option.inject)+
  then obtain k bs' where a: "n \<noteq> 0" "alloc (need (unat n)) bs = Some (k, bs')" by auto
  obtain h' where h': "heap_mem_malloc cfg n h = Some (pointer h k, h')" "blocks cfg h' bs'" "same_place h h'"
    by (rule heap_malloc_some[OF assms(1) a])
  obtain xs m ys where x: "bs = xs @ (m, False) # ys" "k = sizes xs" "need (unat n) + 12 \<le> m"
    "bs' = xs @ taken (need (unat n)) m @ ys" by (rule alloc_split[OF a(2)])
  have p: "p = pointer h1 (sizes xs)" "h1 = h'" using assms(2) h' x(2) by (simp_all add: same_place_def)
  have sep: "separated bs" using assms(1) by (simp add: blocks_def)
  obtain m' zs where z: "taken (need (unat n)) m = (m', True) # zs" by (cases "need (unat n) + 36 \<le> m") (auto simp: taken_def)
  have c: "coalesce (xs @ (m', False) # zs @ ys) = bs"
    using z x(1,3) coalesce_separated[OF sep] coalesce_joined[of xs m' "m - m'" ys]
    by (cases "need (unat n) + 36 \<le> m") (auto simp: taken_def)
  have bl: "blocks cfg h1 (xs @ (m', True) # zs @ ys)" using h'(2) x(4) z p(2) by simp
  show ?thesis unfolding p(1) using heap_free_blocks[OF bl] c by metis
qed

theorem malloc_free_restores_witness:
  "\<exists>h p h1 h2. heap_mem_malloc opt_heap 100 h = Some (p, h1) \<and> heap_mem_free opt_heap p h1 = Some h2
    \<and> blocks opt_heap h2 [(1600, False)]"
proof -
  obtain h p h1 where h: "blocks opt_heap h [(1600, False)]" "heap_mem_malloc opt_heap 100 h = Some (p, h1)" "p \<noteq> 0"
    using opt_heap_run by blast
  then show ?thesis using malloc_free_restores[OF h] by blast
qed

section \<open>Two flaws\<close>

text \<open>The product of \<open>mem_calloc\<close> wraps: 65536 objects of 65537 bytes get the memory of one of 65536.\<close>

lemma calloc_wraps: "heap_mem_calloc cfg 0x10000 0x10001 h bytes = heap_mem_calloc cfg 1 0x10000 h bytes"
proof -
  have "(0x10000 * 0x10001 :: u32) = 1 * 0x10000" by (simp add: word_uint_eq_iff)
  then show ?thesis by (simp only: heap_mem_calloc_def)
qed

text \<open>Shrinking the last block of the heap stops the program.\<close>

lemma trim_last_stops:
  "\<exists>h p h1. heap_run opt_heap (h, Map.empty) \<and> heap_mem_malloc opt_heap 1588 h = Some (p, h1)
     \<and> heap_mem_trim opt_heap p 100 h1 = None"
proof -
  obtain h where h: "heap_run opt_heap (h, Map.empty)" "blocks opt_heap h [(1600, False)]" using opt_heap_run by blast
  have "alloc (need (unat (1588 :: u32))) [(1600, False)] = Some (0, [(1600, True)])" by (simp add: need_def)
  then obtain h1 where h1: "heap_mem_malloc opt_heap 1588 h = Some (pointer h 0, h1)" "blocks opt_heap h1 ([] @ [(1600, True)])"
    "same_place h h1" using heap_malloc_some[OF h(2), of 1588 0 "[(1600, True)]"] by auto
  have "heap_mem_trim opt_heap (pointer h1 0) 100 h1 = None"
    using heap_trim_last[OF h1(2), of 100] by (simp add: need_def)
  then show ?thesis using h(1) h1(1,3) by (auto simp: same_place_def)
qed

end
