(* ===== verification/Newlib_Syscalls.thy ===== *)
theory Newlib_Syscalls
  imports Lwip_Close Os_Semaphore
begin

unbundle bit_operations_syntax

text \<open>
  The system calls under the C library: \<^verbatim>\<open>src/ffi/newlib/syscalls.c\<close>, with the serial port they print
  to (\<^verbatim>\<open>src/ffi/uart.h\<close>). What the \<open>k\<close>th read of a device register returns is given by the device.
\<close>

section \<open>The serial port: uart.h\<close>

record uart_regs =
  status_at :: "nat \<Rightarrow> u32"
  fifo_at :: "nat \<Rightarrow> u32"

record uart_state =
  status_reads :: nat
  fifo_reads :: nat
  fifo_written :: "u8 list"

definition UART_FIFO_MAX :: u32 where "UART_FIFO_MAX = 0x7f"

definition txfifo_count :: "u32 \<Rightarrow> u32" where "txfifo_count regbits = drop_bit 16 regbits AND 0xff"
definition rxfifo_count :: "u32 \<Rightarrow> u32" where "rxfifo_count regbits = drop_bit 0 regbits AND 0xff"

definition read_status :: "uart_regs \<Rightarrow> uart_state \<Rightarrow> u32 \<times> uart_state" where
  "read_status dev u = (status_at dev (status_reads u), u\<lparr>status_reads := Suc (status_reads u)\<rparr>)"

partial_function (option) uart_txfifo_wait :: "uart_regs \<Rightarrow> int \<Rightarrow> uart_state \<Rightarrow> (int \<times> uart_state) option" where
  "uart_txfifo_wait dev min_count u =
     (let (st, u1) = read_status dev u; count = sint (UART_FIFO_MAX - txfifo_count st)
      in if count < min_count then uart_txfifo_wait dev min_count u1 else Some (count, u1))"

definition uart_putc :: "uart_regs \<Rightarrow> u8 \<Rightarrow> uart_state \<Rightarrow> uart_state option" where
  "uart_putc dev c u =
     do { (_, u1) \<leftarrow> uart_txfifo_wait dev 1 u; Some (u1\<lparr>fifo_written := fifo_written u1 @ [c]\<rparr>) }"

partial_function (option) uart_rxfifo_wait :: "uart_regs \<Rightarrow> int \<Rightarrow> uart_state \<Rightarrow> (int \<times> uart_state) option" where
  "uart_rxfifo_wait dev min_count u =
     (let (st, u1) = read_status dev u; count = sint (rxfifo_count st)
      in if count < min_count then uart_rxfifo_wait dev min_count u1 else Some (count, u1))"

definition uart_getc_nowait :: "uart_regs \<Rightarrow> uart_state \<Rightarrow> int \<times> uart_state" where
  "uart_getc_nowait dev u =
     (let (st, u1) = read_status dev u
      in if rxfifo_count st \<noteq> 0
         then (sint (fifo_at dev (fifo_reads u1)), u1\<lparr>fifo_reads := Suc (fifo_reads u1)\<rparr>)
         else (- 1, u1))"

section \<open>State\<close>

text \<open>The variables that hold the C library's locks; \<open>Lock_at\<close> are those it allocates itself.\<close>

datatype lock_ref = arc4random_mutex | at_quick_exit_mutex | tz_mutex | atexit_recursive_mutex
  | env_recursive_mutex | malloc_recursive_mutex | sfp_recursive_mutex | sinit_recursive_mutex | Lock_at u32

text \<open>
  \<open>stdout_write\<close> is the function that writes to the standard output, \<open>None\<close> for the default one;
  \<open>heap_end\<close> is 0 before the first call; \<open>r_errno\<close>, \<open>r_stdin\<close> and \<open>r_stdout\<close> are the fields of the
  C library's context. What \<open>SP\<close> reads from the stack pointer is a parameter.
\<close>

record 'w sys =
  sys_host :: "'w host"
  sys_uart :: uart_state
  heap_end :: u32
  supervisor_sp :: u32
  stdout_write :: "u32 option"
  r_errno :: u32
  r_stdin :: int
  r_stdout :: int
  locks :: "lock_ref \<Rightarrow> u32"
  locks_initialized :: bool
  NMIIrqIsOn :: bool

definition ENOMEM :: u32 where "ENOMEM = 12"
definition ENOSYS :: u32 where "ENOSYS = 88"

definition FILE_DESCRIPTOR_OFFSET :: int where "FILE_DESCRIPTOR_OFFSET = 15"

abbreviation sys_os :: "'w sys \<Rightarrow> os" where "sys_os s \<equiv> kernel (fst (sys_host s))"

definition set_os :: "os \<Rightarrow> 'w sys \<Rightarrow> 'w sys" where
  "set_os k s = s\<lparr>sys_host := ((fst (sys_host s))\<lparr>kernel := k\<rparr>, snd (sys_host s))\<rparr>"

definition fail_with :: "u32 \<Rightarrow> 'w sys \<Rightarrow> int \<times> 'w sys" where
  "fail_with e s = (- 1, s\<lparr>r_errno := e\<rparr>)"

section \<open>Memory for the heap\<close>

text \<open>
  The result is the old end of the heap, or -1 as an address. The sum is one of signed words; \<open>None\<close>
  stands for its overflow, which C leaves undefined.
\<close>

definition sbrk_r :: "u32 \<Rightarrow> u32 \<Rightarrow> int \<Rightarrow> 'w sys \<Rightarrow> (u32 \<times> 'w sys) option" where
  "sbrk_r heap_start sp_reg incr s =
     (let s1 = (if heap_end s = 0 then s\<lparr>heap_end := heap_start\<rparr> else s);
          prev_heap_end = heap_end s1;
          sp = (if supervisor_sp s1 = 0 then sp_reg else supervisor_sp s1);
          sum = sint (heap_end s1) + incr
      in if sum < - (2 ^ 31) \<or> sum \<ge> 2 ^ 31 then None
         else if sum \<ge> sint sp then Some (- 1, s1\<lparr>r_errno := ENOMEM\<rparr>)
         else Some (prev_heap_end, s1\<lparr>heap_end := heap_end s1 + word_of_int incr\<rparr>))"

definition nano_malloc_insert_chunk :: "u32 \<Rightarrow> u32 \<Rightarrow> os \<Rightarrow> os" where
  "nano_malloc_insert_chunk start sz k = vPortFree (start + 4) (k\<lparr>mem := write_u32 start sz (mem k)\<rparr>)"

section \<open>Writing\<close>

primrec write_bytes :: "uart_regs \<Rightarrow> u8 list \<Rightarrow> uart_state \<Rightarrow> uart_state option" where
  "write_bytes dev [] u = Some u"
| "write_bytes dev (c # cs) u =
     (if c = 13 then write_bytes dev cs u
      else do {
        u1 \<leftarrow> (if c = 10 then uart_putc dev 13 u else Some u);
        u2 \<leftarrow> uart_putc dev c u1;
        write_bytes dev cs u2
      })"

definition buffer_bytes :: "(u32 \<Rightarrow> u8) \<Rightarrow> u32 \<Rightarrow> u32 \<Rightarrow> u8 list" where
  "buffer_bytes m ptr len = map (\<lambda>i. m (ptr + of_nat i)) [0..<unat len]"

definition write_stdout_r :: "uart_regs \<Rightarrow> u32 \<Rightarrow> u32 \<Rightarrow> 'w sys \<Rightarrow> (int \<times> 'w sys) option" where
  "write_stdout_r dev ptr len s =
     do {
       u \<leftarrow> write_bytes dev (buffer_bytes (mem (sys_os s)) ptr len) (sys_uart s);
       Some (sint len, s\<lparr>sys_uart := u\<rparr>)
     }"

definition set_write_stdout :: "u32 \<Rightarrow> 'w sys \<Rightarrow> 'w sys" where
  "set_write_stdout f s = (if f \<noteq> 0 then s\<lparr>stdout_write := Some f\<rparr> else s\<lparr>stdout_write := None\<rparr>)"

definition get_write_stdout :: "'w sys \<Rightarrow> u32 option" where
  "get_write_stdout s = stdout_write s"

definition write_filesystem_r :: "int \<Rightarrow> u32 \<Rightarrow> u32 \<Rightarrow> 'w sys \<Rightarrow> int \<times> 'w sys" where
  "write_filesystem_r fd ptr len s = fail_with EBADF s"

text \<open>\<open>custom\<close> is what the functions installed by \<open>set_write_stdout\<close> do.\<close>

type_synonym 'w write_function = "u32 \<Rightarrow> int \<Rightarrow> u32 \<Rightarrow> u32 \<Rightarrow> 'w sys \<Rightarrow> (int \<times> 'w sys) option"

definition write_r :: "'w ext \<Rightarrow> uart_regs \<Rightarrow> 'w write_function \<Rightarrow> int \<Rightarrow> u32 \<Rightarrow> u32 \<Rightarrow> 'w sys \<Rightarrow> (int \<times> 'w sys) option" where
  "write_r ext dev custom fd ptr len s =
     (if fd \<ge> FILE_DESCRIPTOR_OFFSET then Some (write_filesystem_r fd ptr len s)
      else if fd \<ge> LWIP_SOCKET_OFFSET
      then do { (ret, h) \<leftarrow> lwip_write ext fd ptr len (sys_host s); Some (ret, s\<lparr>sys_host := h\<rparr>) }
      else if fd = r_stdout s
      then (case stdout_write s of None \<Rightarrow> write_stdout_r dev ptr len s | Some f \<Rightarrow> custom f fd ptr len s)
      else Some (fail_with EBADF s))"

section \<open>Reading and closing\<close>

text \<open>The loop with \<open>k\<close> bytes to go, at position \<open>i\<close>: the bytes read.\<close>

primrec read_bytes :: "uart_regs \<Rightarrow> nat \<Rightarrow> uart_state \<Rightarrow> u8 list \<times> uart_state" where
  "read_bytes dev 0 u = ([], u)"
| "read_bytes dev (Suc k) u =
     (let (ch, u1) = uart_getc_nowait dev u
      in if ch < 0 then ([], u1)
         else let (cs, u2) = read_bytes dev k u1 in (word_of_int ch # cs, u2))"

definition read_stdin_r :: "uart_regs \<Rightarrow> u32 \<Rightarrow> u32 \<Rightarrow> 'w sys \<Rightarrow> (int \<times> 'w sys) option" where
  "read_stdin_r dev ptr len s =
     do {
       (_, u) \<leftarrow> uart_rxfifo_wait dev 1 (sys_uart s);
       let (cs, u1) = read_bytes dev (unat len) u;
       let k = (sys_os s)\<lparr>mem := store_bytes ptr cs (mem (sys_os s))\<rparr>;
       Some (int (length cs), set_os k (s\<lparr>sys_uart := u1\<rparr>))
     }"

definition read_filesystem_r :: "int \<Rightarrow> u32 \<Rightarrow> u32 \<Rightarrow> 'w sys \<Rightarrow> int \<times> 'w sys" where
  "read_filesystem_r fd ptr len s = fail_with EBADF s"

definition read_r :: "'w ext \<Rightarrow> uart_regs \<Rightarrow> int \<Rightarrow> u32 \<Rightarrow> u32 \<Rightarrow> 'w sys \<Rightarrow> (int \<times> 'w sys) option" where
  "read_r ext dev fd ptr len s =
     (if fd \<ge> FILE_DESCRIPTOR_OFFSET then Some (read_filesystem_r fd ptr len s)
      else if fd \<ge> LWIP_SOCKET_OFFSET
      then do { (ret, h) \<leftarrow> lwip_read ext fd ptr len (sys_host s); Some (ret, s\<lparr>sys_host := h\<rparr>) }
      else if fd = r_stdin s then read_stdin_r dev ptr len s
      else Some (fail_with EBADF s))"

definition close_filesystem_r :: "int \<Rightarrow> 'w sys \<Rightarrow> int \<times> 'w sys" where
  "close_filesystem_r fd s = fail_with EBADF s"

definition close_r :: "'w ext \<Rightarrow> int \<Rightarrow> 'w sys \<Rightarrow> (int \<times> 'w sys) option" where
  "close_r ext fd s =
     (if fd \<ge> FILE_DESCRIPTOR_OFFSET then Some (close_filesystem_r fd s)
      else if fd \<ge> LWIP_SOCKET_OFFSET
      then do { (ret, h) \<leftarrow> lwip_close ext fd (sys_host s); Some (ret, s\<lparr>sys_host := h\<rparr>) }
      else Some (fail_with EBADF s))"

section \<open>Calls that are not there\<close>

definition syscall_returns_enosys :: "'w sys \<Rightarrow> int \<times> 'w sys" where
  "syscall_returns_enosys s = fail_with ENOSYS s"

text \<open>The time of day is written as 0; \<open>errno\<close> here is the library's own.\<close>

definition gettimeofday_r :: "u32 \<Rightarrow> u32 \<Rightarrow> 'w sys \<Rightarrow> int \<times> 'w sys" where
  "gettimeofday_r tv_sec tv_usec s =
     (let n = fst (sys_host s); m = write_u32 tv_usec 0 (write_u32 tv_sec 0 (net_mem n))
      in (- 1, s\<lparr>sys_host := (n\<lparr>kernel := (kernel n)\<lparr>mem := m\<rparr>, errno := ENOSYS\<rparr>, snd (sys_host s))\<rparr>))"

definition getentropy :: "(nat \<Rightarrow> u32) \<Rightarrow> u32 \<Rightarrow> u32 \<Rightarrow> nat \<Rightarrow> 'w sys \<Rightarrow> (int \<times> nat \<times> 'w sys) option" where
  "getentropy rng ptr n k s =
     do {
       (k', m) \<leftarrow> hwrand_fill rng ptr n k (mem (sys_os s));
       Some (0, k', set_os ((sys_os s)\<lparr>mem := m\<rparr>) s)
     }"

section \<open>Locks\<close>

definition lock_init :: "os_config \<Rightarrow> (u32 \<Rightarrow> os \<Rightarrow> u32) \<Rightarrow> Queue \<Rightarrow> lock_ref \<Rightarrow> 'w sys \<Rightarrow> 'w sys option" where
  "lock_init cfg malloc fresh l s =
     do { (q, k) \<leftarrow> xQueueCreateMutex cfg malloc fresh (sys_os s);
          Some (set_os k (s\<lparr>locks := (locks s)(l := q)\<rparr>)) }"

definition lock_init_recursive :: "os_config \<Rightarrow> (u32 \<Rightarrow> os \<Rightarrow> u32) \<Rightarrow> Queue \<Rightarrow> lock_ref \<Rightarrow> 'w sys \<Rightarrow> 'w sys option" where
  "lock_init_recursive cfg malloc fresh l s =
     do { (q, k) \<leftarrow> xQueueCreateMutex cfg malloc fresh (sys_os s);
          Some (set_os k (s\<lparr>locks := (locks s)(l := q)\<rparr>)) }"

definition init_newlib_locks :: "os_config \<Rightarrow> (u32 \<Rightarrow> os \<Rightarrow> u32) \<Rightarrow> Queue \<Rightarrow> 'w sys \<Rightarrow> 'w sys option" where
  "init_newlib_locks cfg malloc fresh s =
     do {
       s1 \<leftarrow> lock_init cfg malloc fresh arc4random_mutex s;
       let s2 = s1\<lparr>locks := (locks s1)(at_quick_exit_mutex := locks s1 arc4random_mutex,
                                       tz_mutex := locks s1 arc4random_mutex)\<rparr>;
       s3 \<leftarrow> lock_init_recursive cfg malloc fresh atexit_recursive_mutex s2;
       let q = locks s3 atexit_recursive_mutex;
       Some (s3\<lparr>locks := (locks s3)(env_recursive_mutex := q, malloc_recursive_mutex := q,
                                    sfp_recursive_mutex := q, sinit_recursive_mutex := q),
                locks_initialized := True\<rparr>)
     }"

definition lock_close :: "lock_ref \<Rightarrow> 'w sys \<Rightarrow> 'w sys option" where
  "lock_close l s = Some (set_os (vQueueDelete (locks s l) (sys_os s)) (s\<lparr>locks := (locks s)(l := 0)\<rparr>))"

definition lock_close_recursive :: "lock_ref \<Rightarrow> 'w sys \<Rightarrow> 'w sys option" where
  "lock_close_recursive l s = Some (set_os (vQueueDelete (locks s l) (sys_os s)) (s\<lparr>locks := (locks s)(l := 0)\<rparr>))"

text \<open>A call that may wait gives a result or the state in which its task is still blocked.\<close>

fun map_result :: "('a \<Rightarrow> 'b) \<Rightarrow> (os \<Rightarrow> 'w sys) \<Rightarrow> 'a api_result \<Rightarrow> 'b option \<times> 'w sys" where
  "map_result f g (Returned r k) = (Some (f r), g k)"
| "map_result f g (StillBlocked k) = (None, g k)"

definition lock_acquire :: "os_config \<Rightarrow> preemption list \<Rightarrow> lock_ref \<Rightarrow> 'w sys \<Rightarrow> (unit option \<times> 'w sys) option" where
  "lock_acquire cfg es l s =
     do { r \<leftarrow> xSemaphoreTake cfg es (locks s l) portMAX_DELAY (sys_os s); Some (map_result (\<lambda>_. ()) (\<lambda>k. set_os k s) r) }"

definition lock_acquire_recursive ::
    "os_config \<Rightarrow> uart_regs \<Rightarrow> preemption list \<Rightarrow> lock_ref \<Rightarrow> 'w sys \<Rightarrow> (unit option \<times> 'w sys) option" where
  "lock_acquire_recursive cfg dev es l s =
     (if locks_initialized s
      then (if NMIIrqIsOn s
            then do { u \<leftarrow> uart_putc dev 58 (sys_uart s); Some (Some (), s\<lparr>sys_uart := u\<rparr>) }
            else do { r \<leftarrow> xQueueTakeMutexRecursive cfg es (locks s l) portMAX_DELAY (sys_os s);
                      Some (map_result (\<lambda>_. ()) (\<lambda>k. set_os k s) r) })
      else Some (Some (), s))"

definition lock_try_acquire :: "os_config \<Rightarrow> lock_ref \<Rightarrow> 'w sys \<Rightarrow> (bool option \<times> 'w sys) option" where
  "lock_try_acquire cfg l s =
     do { r \<leftarrow> xSemaphoreTake cfg [] (locks s l) 0 (sys_os s); Some (map_result id (\<lambda>k. set_os k s) r) }"

definition lock_try_acquire_recursive :: "os_config \<Rightarrow> lock_ref \<Rightarrow> 'w sys \<Rightarrow> (bool option \<times> 'w sys) option" where
  "lock_try_acquire_recursive cfg l s =
     do { r \<leftarrow> xQueueTakeMutexRecursive cfg [] (locks s l) 0 (sys_os s); Some (map_result id (\<lambda>k. set_os k s) r) }"

definition lock_release :: "os_config \<Rightarrow> lock_ref \<Rightarrow> 'w sys \<Rightarrow> 'w sys option" where
  "lock_release cfg l s =
     do { r \<leftarrow> xSemaphoreGive cfg (locks s l) (sys_os s); Some (set_os (api_state r) s) }"

definition lock_release_recursive :: "os_config \<Rightarrow> lock_ref \<Rightarrow> 'w sys \<Rightarrow> 'w sys option" where
  "lock_release_recursive cfg l s =
     (if locks_initialized s
      then (if NMIIrqIsOn s then Some s
            else do { (_, k) \<leftarrow> xQueueGiveMutexRecursive cfg (locks s l) (sys_os s); Some (set_os k s) })
      else Some s)"

end
