(* ===== verification/Newlib_Properties.thy ===== *)
theory Newlib_Properties
  imports Newlib_Syscalls Os_Task_Demo
begin

unbundle bit_operations_syntax

text \<open>What the system calls promise: the heap grows by adjacent blocks, and output reaches the serial port.\<close>

section \<open>The serial port\<close>

definition tx_room :: "uart_regs \<Rightarrow> nat \<Rightarrow> bool" where
  "tx_room dev k \<longleftrightarrow> 1 \<le> sint (UART_FIFO_MAX - txfifo_count (status_at dev k))"

text \<open>The device sends: whenever the status is read, a later read finds room.\<close>

definition keeps_sending :: "uart_regs \<Rightarrow> bool" where
  "keeps_sending dev \<longleftrightarrow> (\<forall>k. \<exists>j \<ge> k. tx_room dev j)"

lemma txfifo_wait_ends:
  assumes "tx_room dev (status_reads u + d)"
  shows "\<exists>c k. uart_txfifo_wait dev 1 u = Some (c, u\<lparr>status_reads := k\<rparr>)"
  using assms
proof (induction d arbitrary: u)
  case 0
  then show ?case
    by (subst uart_txfifo_wait.simps) (auto simp: tx_room_def read_status_def Let_def)
next
  case (Suc d)
  show ?case
  proof (cases "tx_room dev (status_reads u)")
    case True
    then show ?thesis
      by (subst uart_txfifo_wait.simps) (auto simp: tx_room_def read_status_def Let_def)
  next
    case False
    have "tx_room dev (status_reads (u\<lparr>status_reads := Suc (status_reads u)\<rparr>) + d)" using Suc.prems by simp
    then obtain c k where "uart_txfifo_wait dev 1 (u\<lparr>status_reads := Suc (status_reads u)\<rparr>)
        = Some (c, u\<lparr>status_reads := k\<rparr>)" using Suc.IH by fastforce
    then show ?thesis using False
      by (subst uart_txfifo_wait.simps) (auto simp: tx_room_def read_status_def Let_def)
  qed
qed

lemma putc_appends:
  assumes "keeps_sending dev"
  shows "\<exists>k. uart_putc dev c u = Some (u\<lparr>status_reads := k, fifo_written := fifo_written u @ [c]\<rparr>)"
proof -
  obtain j where j: "j \<ge> status_reads u" "tx_room dev j" using assms by (auto simp: keeps_sending_def)
  then have "tx_room dev (status_reads u + (j - status_reads u))" by simp
  then obtain x k where "uart_txfifo_wait dev 1 u = Some (x, u\<lparr>status_reads := k\<rparr>)" using txfifo_wait_ends by blast
  then show ?thesis by (simp add: uart_putc_def) (metis surj_pair)
qed

text \<open>What one byte of output becomes on the line.\<close>

definition on_the_line :: "u8 \<Rightarrow> u8 list" where
  "on_the_line c = (if c = 13 then [] else if c = 10 then [13, 10] else [c])"

lemma write_bytes_appends:
  assumes "keeps_sending dev"
  shows "\<exists>k. write_bytes dev cs u = Some (u\<lparr>status_reads := k, fifo_written := fifo_written u @ concat (map on_the_line cs)\<rparr>)"
proof (induction cs arbitrary: u)
  case Nil
  have "u = u\<lparr>status_reads := status_reads u, fifo_written := fifo_written u @ []\<rparr>" by simp
  then show ?case unfolding write_bytes.simps list.map concat.simps by blast
next
  case (Cons c cs)
  consider "c = 13" | "c = 10" | "c \<noteq> 13" "c \<noteq> 10" by blast
  then show ?case
  proof cases
    case 1
    then show ?thesis using Cons.IH[of u] by (simp add: on_the_line_def)
  next
    case 2
    obtain k1 where k1: "uart_putc dev 13 u = Some (u\<lparr>status_reads := k1, fifo_written := fifo_written u @ [13]\<rparr>)"
      using putc_appends[OF assms] by blast
    obtain k2 where k2: "uart_putc dev 10 (u\<lparr>status_reads := k1, fifo_written := fifo_written u @ [13]\<rparr>)
        = Some (u\<lparr>status_reads := k2, fifo_written := fifo_written u @ [13, 10]\<rparr>)"
      using putc_appends[OF assms, of 10 "u\<lparr>status_reads := k1, fifo_written := fifo_written u @ [13]\<rparr>"] by auto
    show ?thesis
      using 2 k1 k2 Cons.IH[of "u\<lparr>status_reads := k2, fifo_written := fifo_written u @ [13, 10]\<rparr>"]
      by (simp add: on_the_line_def)
  next
    case 3
    obtain k1 where k1: "uart_putc dev c u = Some (u\<lparr>status_reads := k1, fifo_written := fifo_written u @ [c]\<rparr>)"
      using putc_appends[OF assms] by blast
    show ?thesis
      using 3 k1 Cons.IH[of "u\<lparr>status_reads := k1, fifo_written := fifo_written u @ [c]\<rparr>"]
      by (simp add: on_the_line_def)
  qed
qed

section \<open>The heap\<close>

text \<open>Several requests: the blocks given out, each with its address and size, and the state.\<close>

fun sbrk_seq :: "u32 \<Rightarrow> u32 \<Rightarrow> int list \<Rightarrow> 'w sys \<Rightarrow> ((u32 \<times> int) list \<times> 'w sys) option" where
  "sbrk_seq start sp_reg [] s = Some ([], s)"
| "sbrk_seq start sp_reg (i # is) s =
     do {
       (p, s1) \<leftarrow> sbrk_r start sp_reg i s;
       (bs, s2) \<leftarrow> sbrk_seq start sp_reg is s1;
       Some (if p = - 1 then bs else (p, i) # bs, s2)
     }"

fun end_to_end :: "int \<Rightarrow> (u32 \<times> int) list \<Rightarrow> int \<Rightarrow> bool" where
  "end_to_end a [] b \<longleftrightarrow> b = a"
| "end_to_end a ((p, k) # bs) b \<longleftrightarrow> uint p = a \<and> end_to_end (a + k) bs b"

text \<open>The allocator meant: each request that fits below the limit gets the next block, the others nothing.\<close>

fun bump :: "int \<Rightarrow> int \<Rightarrow> int list \<Rightarrow> (int \<times> int) list \<times> int" where
  "bump lim a [] = ([], a)"
| "bump lim a (i # is) =
     (if a + i < lim then let (bs, b) = bump lim (a + i) is in ((a, i) # bs, b) else bump lim a is)"

lemma bump_fst_snd:
  "bump lim a (i # is) = (if a + i < lim then ((a, i) # fst (bump lim (a + i) is), snd (bump lim (a + i) is)) else bump lim a is)"
  by (simp add: split_beta Let_def)

abbreviation int_blocks :: "(u32 \<times> int) list \<Rightarrow> (int \<times> int) list" where
  "int_blocks bs \<equiv> map (\<lambda>(p, k). (uint p, k)) bs"

lemma bump_end_to_end:
  "bump lim a is = (int_blocks bs, b) \<Longrightarrow> end_to_end a bs b"
proof (induction "is" arbitrary: a bs)
  case (Cons i "is")
  show ?case
  proof (cases "a + i < lim")
    case True
    then obtain p k cs where "bs = (p, k) # cs" "uint p = a" "k = i" "bump lim (a + i) is = (int_blocks cs, b)"
      using Cons.prems by (cases bs) (auto simp: Let_def split: prod.splits)
    then show ?thesis using Cons.IH[of "a + i" cs] by simp
  next
    case False
    then show ?thesis using Cons.prems Cons.IH by simp
  qed
qed simp

text \<open>Where the heap ends; before the first call it is empty.\<close>

definition brk :: "u32 \<Rightarrow> 'w sys \<Rightarrow> u32" where
  "brk start s = (if heap_end s = 0 then start else heap_end s)"

lemma sbrk_step:
  assumes "supervisor_sp s \<noteq> 0" and "uint (supervisor_sp s) < 2 ^ 31" and "0 < uint (brk start s)"
    and "uint (brk start s) < uint (supervisor_sp s)" and "0 \<le> i" and "i < 2 ^ 30" and "uint (supervisor_sp s) \<le> 2 ^ 30"
  shows "if uint (brk start s) + i < uint (supervisor_sp s)
    then \<exists>s'. sbrk_r start sp_reg i s = Some (brk start s, s') \<and> uint (brk start s') = uint (brk start s) + i
       \<and> supervisor_sp s' = supervisor_sp s \<and> s' = s\<lparr>heap_end := heap_end s'\<rparr>
    else \<exists>s'. sbrk_r start sp_reg i s = Some (- 1, s') \<and> brk start s' = brk start s
       \<and> supervisor_sp s' = supervisor_sp s \<and> r_errno s' = ENOMEM"
proof -
  let ?b = "brk start s"
  have sb: "sint ?b = uint ?b" "sint (supervisor_sp s) = uint (supervisor_sp s)"
    using assms(2,4) by (simp_all add: sint_small)
  have b0: "?b \<noteq> 0" using assms(3) by auto
  have ov: "\<not> (uint ?b + i < - (2 ^ 31) \<or> uint ?b + i \<ge> 2 ^ 31)" using assms by simp
  have e: "sbrk_r start sp_reg i s = (if uint ?b + i \<ge> uint (supervisor_sp s)
      then Some (- 1, s\<lparr>heap_end := ?b, r_errno := ENOMEM\<rparr>)
      else Some (?b, s\<lparr>heap_end := ?b + word_of_int i\<rparr>))"
    using ov assms(1) sb b0 by (auto simp: sbrk_r_def brk_def Let_def)
  show ?thesis
  proof (cases "uint ?b + i < uint (supervisor_sp s)")
    case True
    have r: "i mod 2 ^ 32 = i" "(uint ?b + i) mod 2 ^ 32 = uint ?b + i"
      by (rule mod_pos_pos_trivial; use True assms(2,5,6) uint_ge_0[of ?b] in simp)+
    then have "uint (?b + word_of_int i) = uint ?b + i" by (simp add: uint_word_ariths(1) uint_word_of_int)
    moreover from this have "?b + word_of_int i \<noteq> 0" using assms(3,5) by auto
    ultimately show ?thesis using e True by (simp add: brk_def)
  next
    case False
    then show ?thesis using e b0 by (simp add: brk_def)
  qed
qed

lemma sbrk_blocks:
  assumes "supervisor_sp s \<noteq> 0" and "uint (supervisor_sp s) \<le> 2 ^ 30" and "0 < uint (brk start s)"
    and "uint (brk start s) < uint (supervisor_sp s)" and "\<forall>i \<in> set is. 0 \<le> i \<and> i < 2 ^ 30"
  shows "\<exists>bs s'. sbrk_seq start sp_reg is s = Some (bs, s')
    \<and> (int_blocks bs, uint (brk start s')) = bump (uint (supervisor_sp s)) (uint (brk start s)) is
    \<and> uint (brk start s') < uint (supervisor_sp s) \<and> sys_host s' = sys_host s"
  using assms
proof (induction "is" arbitrary: s)
  case Nil
  then show ?case by simp
next
  case (Cons i "is")
  have sp: "uint (supervisor_sp s) < 2 ^ 31" using Cons.prems(2) by simp
  have i: "0 \<le> i" "i < 2 ^ 30" using Cons.prems(5) by simp_all
  note step = sbrk_step[OF Cons.prems(1) sp Cons.prems(3,4) i Cons.prems(2), of sp_reg]
  show ?case
  proof (cases "uint (brk start s) + i < uint (supervisor_sp s)")
    case True
    then obtain s1 where s1: "sbrk_r start sp_reg i s = Some (brk start s, s1)" "uint (brk start s1) = uint (brk start s) + i"
      "supervisor_sp s1 = supervisor_sp s" "s1 = s\<lparr>heap_end := heap_end s1\<rparr>" using step by auto
    have "sys_host s1 = sys_host s" by (subst s1(4)) simp
    moreover obtain bs s2 where "sbrk_seq start sp_reg is s1 = Some (bs, s2)"
      "(int_blocks bs, uint (brk start s2)) = bump (uint (supervisor_sp s1)) (uint (brk start s1)) is" "uint (brk start s2) < uint (supervisor_sp s1)"
      "sys_host s2 = sys_host s1"
      using Cons.IH[of s1] s1 True Cons.prems i by auto
    moreover have "brk start s \<noteq> - 1"
    proof
      assume "brk start s = - 1"
      then have "uint (brk start s) = 0xffffffff" by (simp add: unsigned_minus_1_eq_mask mask_eq_exp_minus_1)
      then show False using Cons.prems(2,4) by simp
    qed
    ultimately show ?thesis using s1 True unfolding bump_fst_snd by (auto simp: prod_eq_iff)
  next
    case False
    then obtain s1 where s1: "sbrk_r start sp_reg i s = Some (- 1, s1)" "brk start s1 = brk start s"
      "supervisor_sp s1 = supervisor_sp s" using step by auto
    have "sys_host s1 = sys_host s" using s1(1) by (auto simp: sbrk_r_def Let_def split: if_splits)
    moreover obtain bs s2 where "sbrk_seq start sp_reg is s1 = Some (bs, s2)"
      "(int_blocks bs, uint (brk start s2)) = bump (uint (supervisor_sp s1)) (uint (brk start s1)) is" "uint (brk start s2) < uint (supervisor_sp s1)"
      "sys_host s2 = sys_host s1"
      using Cons.IH[of s1] s1 Cons.prems by auto
    ultimately show ?thesis using s1 False by simp
  qed
qed

section \<open>Properties\<close>

definition demo_dev :: uart_regs where
  "demo_dev = \<lparr>status_at = (\<lambda>k. if even k then 0x7f0000 else 0), fifo_at = (\<lambda>k. 0)\<rparr>"

definition demo_sys :: "unit sys" where
  "demo_sys = \<lparr>sys_host = (\<lparr>kernel = demo_cold\<lparr>mem := (\<lambda>a. if a = 0x8001 then 10 else if a = 0x8002 then 13 else 65)\<rparr>,
      critical_nesting = 0, pp_rx_pool_usage = 0, recycled = [],
      pbufs = Map.empty, netbufs = Map.empty, netconns = Map.empty, sockets = [], mcasts4 = [], mcasts6 = [], errno = 0\<rparr>, ()),
     sys_uart = \<lparr>status_reads = 0, fifo_reads = 0, fifo_written = []\<rparr>, heap_end = 0, supervisor_sp = 0x40000000,
     stdout_write = None, r_errno = 0, r_stdin = 0, r_stdout = 1, locks = (\<lambda>_. 0), locks_initialized = False, NMIIrqIsOn = False\<rparr>"

text \<open>
  C35: Output reaches the line. If the serial port keeps sending, so that its transmit buffer has room
  again and again, a \<open>write\<close> to the standard output returns and reports all bytes as written; what goes to
  the transmit register is the buffer in order, with every carriage return left out and every line feed
  preceded by one, and nothing but the serial port has changed.
\<close>

theorem stdout_reaches_line:
  assumes "keeps_sending dev" and "stdout_write s = None" and "r_stdout s < LWIP_SOCKET_OFFSET"
  shows "\<exists>k. write_r ext dev custom (r_stdout s) ptr len s = Some (sint len, s\<lparr>sys_uart := (sys_uart s)\<lparr>status_reads := k,
    fifo_written := fifo_written (sys_uart s) @ concat (map on_the_line (buffer_bytes (mem (sys_os s)) ptr len))\<rparr>\<rparr>)"
proof -
  obtain k where "write_bytes dev (buffer_bytes (mem (sys_os s)) ptr len) (sys_uart s) = Some ((sys_uart s)\<lparr>status_reads := k,
    fifo_written := fifo_written (sys_uart s) @ concat (map on_the_line (buffer_bytes (mem (sys_os s)) ptr len))\<rparr>)"
    using write_bytes_appends[OF assms(1)] by blast
  then show ?thesis using assms(2,3)
    by (auto simp: write_r_def write_stdout_r_def FILE_DESCRIPTOR_OFFSET_def LWIP_SOCKET_OFFSET_def)
qed

theorem stdout_reaches_line_witness:
  "\<forall>ext custom. \<exists>s'. write_r ext demo_dev custom 1 0x8000 4 demo_sys = Some (4, s')
    \<and> fifo_written (sys_uart s') = [65, 13, 10, 65]"
proof (intro allI)
  fix ext and custom :: "unit write_function"
  have "tx_room demo_dev (Suc (2 * k))" for k
    by (simp add: tx_room_def demo_dev_def txfifo_count_def UART_FIFO_MAX_def)
  then have "keeps_sending demo_dev" unfolding keeps_sending_def by (metis le_add2 mult_2 le_SucI)
  moreover have "buffer_bytes (mem (sys_os demo_sys)) 0x8000 4 = [65, 10, 13, 65]"
    by (simp add: buffer_bytes_def demo_sys_def upt_rec)
  ultimately show "\<exists>s'. write_r ext demo_dev custom 1 0x8000 4 demo_sys = Some (4, s')
      \<and> fifo_written (sys_uart s') = [65, 13, 10, 65]"
    using stdout_reaches_line[of demo_dev demo_sys ext custom "0x8000" 4]
    by (auto simp: demo_sys_def LWIP_SOCKET_OFFSET_def on_the_line_def)
qed



section \<open>Fields of the registers\<close>

text \<open>
  The registers of the serial port in \<^verbatim>\<open>src/ffi/uart.h\<close>: the fields of each register and the macros that
  read and write a field. A field is its name, its mask \<open>_M\<close> and its shift \<open>_S\<close>; a single bit has the mask 1.
\<close>

subsection \<open>The fields\<close>

type_synonym reg_field = "string \<times> u32 \<times> nat"

definition UART_FIFO_fields :: "reg_field list" where
  "UART_FIFO_fields = [(''DATA'', 0x000000ff, 0)]"

definition UART_INT_RAW_fields :: "reg_field list" where
  "UART_INT_RAW_fields = [(''RXFIFO_TIMEOUT'', 1, 8), (''BREAK_DETECTED'', 1, 7), (''CTS_CHANGED'', 1, 6),
     (''DSR_CHANGED'', 1, 5), (''RXFIFO_OVERFLOW'', 1, 4), (''FRAMING_ERR'', 1, 3), (''PARITY_ERR'', 1, 2),
     (''TXFIFO_EMPTY'', 1, 1), (''RXFIFO_FULL'', 1, 0)]"

definition UART_INT_STATUS_fields :: "reg_field list" where
  "UART_INT_STATUS_fields = [(''RXFIFO_TIMEOUT'', 1, 8), (''BREAK_DETECTED'', 1, 7), (''CTS_CHANGED'', 1, 6),
     (''DSR_CHANGED'', 1, 5), (''RXFIFO_OVERFLOW'', 1, 4), (''FRAMING_ERR'', 1, 3), (''PARITY_ERR'', 1, 2),
     (''TXFIFO_EMPTY'', 1, 1), (''RXFIFO_FULL'', 1, 0)]"

definition UART_INT_ENABLE_fields :: "reg_field list" where
  "UART_INT_ENABLE_fields = [(''RXFIFO_TIMEOUT'', 1, 8), (''BREAK_DETECTED'', 1, 7), (''CTS_CHANGED'', 1, 6),
     (''DSR_CHANGED'', 1, 5), (''RXFIFO_OVERFLOW'', 1, 4), (''FRAMING_ERR'', 1, 3), (''PARITY_ERR'', 1, 2),
     (''TXFIFO_EMPTY'', 1, 1), (''RXFIFO_FULL'', 1, 0)]"

definition UART_INT_CLEAR_fields :: "reg_field list" where
  "UART_INT_CLEAR_fields = [(''RXFIFO_TIMEOUT'', 1, 8), (''BREAK_DETECTED'', 1, 7), (''CTS_CHANGED'', 1, 6),
     (''DSR_CHANGED'', 1, 5), (''RXFIFO_OVERFLOW'', 1, 4), (''FRAMING_ERR'', 1, 3), (''PARITY_ERR'', 1, 2),
     (''TXFIFO_EMPTY'', 1, 1), (''RXFIFO_FULL'', 1, 0)]"

definition UART_CLOCK_DIVIDER_fields :: "reg_field list" where
  "UART_CLOCK_DIVIDER_fields = [(''VALUE'', 0x000fffff, 0)]"

definition UART_AUTOBAUD_fields :: "reg_field list" where
  "UART_AUTOBAUD_fields = [(''GLITCH_FILTER'', 0x000000FF, 8), (''ENABLE'', 1, 0)]"

definition UART_STATUS_fields :: "reg_field list" where
  "UART_STATUS_fields = [(''TXD'', 1, 31), (''RTS'', 1, 30), (''DTR'', 1, 29),
     (''TXFIFO_COUNT'', 0x000000ff, 16), (''RXD'', 1, 15), (''CTS'', 1, 14), (''DSR'', 1, 13),
     (''RXFIFO_COUNT'', 0x000000ff, 0)]"

definition UART_CONF0_fields :: "reg_field list" where
  "UART_CONF0_fields = [(''DTR_INVERTED'', 1, 24), (''RTS_INVERTED'', 1, 23), (''TXD_INVERTED'', 1, 22),
     (''DSR_INVERTED'', 1, 21), (''CTS_INVERTED'', 1, 20), (''RXD_INVERTED'', 1, 19),
     (''TXFIFO_RESET'', 1, 18), (''RXFIFO_RESET'', 1, 17), (''IRDA_ENABLE'', 1, 16),
     (''TX_FLOW_ENABLE'', 1, 15), (''LOOPBACK'', 1, 14), (''IRDA_RX_INVERTED'', 1, 13),
     (''IRDA_TX_INVERTED'', 1, 12), (''IRDA_WCTL'', 1, 11), (''IRDA_TX_ENABLE'', 1, 10),
     (''IRDA_DUPLEX'', 1, 9), (''TXD_BREAK'', 1, 8), (''SW_DTR'', 1, 7), (''SW_RTS'', 1, 6),
     (''STOP_BITS'', 0x00000003, 4), (''BYTE_LEN'', 0x00000003, 2), (''PARITY_ENABLE'', 1, 1),
     (''PARITY'', 1, 0)]"

definition UART_CONF1_fields :: "reg_field list" where
  "UART_CONF1_fields = [(''RX_TIMEOUT_ENABLE'', 1, 31), (''RX_TIMEOUT_THRESHOLD'', 0x0000007f, 24),
     (''RX_FLOWCTRL_ENABLE'', 1, 23), (''RX_FLOWCTRL_THRESHOLD'', 0x0000007f, 16),
     (''TXFIFO_EMPTY_THRESHOLD'', 0x0000007f, 8), (''RXFIFO_FULL_THRESHOLD'', 0x0000007f, 0)]"

definition UART_LOW_PULSE_fields :: "reg_field list" where
  "UART_LOW_PULSE_fields = [(''MIN'', 0x000fffff, 0)]"

definition UART_HIGH_PULSE_fields :: "reg_field list" where
  "UART_HIGH_PULSE_fields = [(''MIN'', 0x000fffff, 0)]"

definition UART_PULSE_COUNT_fields :: "reg_field list" where
  "UART_PULSE_COUNT_fields = [(''VALUE'', 0x000003ff, 0)]"

definition uart_registers :: "reg_field list list" where
  "uart_registers = [UART_FIFO_fields, UART_INT_RAW_fields, UART_INT_STATUS_fields, UART_INT_ENABLE_fields,
     UART_INT_CLEAR_fields, UART_CLOCK_DIVIDER_fields, UART_AUTOBAUD_fields, UART_STATUS_fields, UART_CONF0_fields,
     UART_CONF1_fields, UART_LOW_PULSE_fields, UART_HIGH_PULSE_fields, UART_PULSE_COUNT_fields]"

lemmas field_lists = UART_FIFO_fields_def UART_INT_RAW_fields_def UART_INT_STATUS_fields_def UART_INT_ENABLE_fields_def
  UART_INT_CLEAR_fields_def UART_CLOCK_DIVIDER_fields_def UART_AUTOBAUD_fields_def UART_STATUS_fields_def
  UART_CONF0_fields_def UART_CONF1_fields_def UART_LOW_PULSE_fields_def UART_HIGH_PULSE_fields_def
  UART_PULSE_COUNT_fields_def

subsection \<open>Access to a field\<close>

definition VAL2FIELD :: "reg_field \<Rightarrow> u32 \<Rightarrow> u32" where
  "VAL2FIELD f v = push_bit (snd (snd f)) v"

definition FIELD2VAL :: "reg_field \<Rightarrow> u32 \<Rightarrow> u32" where
  "FIELD2VAL f regbits = drop_bit (snd (snd f)) regbits AND fst (snd f)"

definition FIELD_MASK :: "reg_field \<Rightarrow> u32" where
  "FIELD_MASK f = push_bit (snd (snd f)) (fst (snd f))"

definition SET_FIELD :: "u32 \<Rightarrow> reg_field \<Rightarrow> u32 \<Rightarrow> u32" where
  "SET_FIELD regbits f v = (regbits AND NOT (FIELD_MASK f)) OR VAL2FIELD f v"

subsection \<open>Layout\<close>

text \<open>A field lies inside its register, and the fields of a register are apart.\<close>

definition field_fits :: "reg_field \<Rightarrow> bool" where
  "field_fits f \<longleftrightarrow> drop_bit (snd (snd f)) (FIELD_MASK f) = fst (snd f)"

fun fields_apart :: "u32 \<Rightarrow> reg_field list \<Rightarrow> bool" where
  "fields_apart used [] \<longleftrightarrow> True"
| "fields_apart used (f # fs) \<longleftrightarrow> used AND FIELD_MASK f = 0 \<and> fields_apart (used OR FIELD_MASK f) fs"

lemma apart_used: "fields_apart used fs \<Longrightarrow> g \<in> set fs \<Longrightarrow> used AND FIELD_MASK g = 0"
proof (induction fs arbitrary: used)
  case (Cons f fs)
  show ?case
  proof (cases "g = f")
    case False
    then have "(used OR FIELD_MASK f) AND FIELD_MASK g = 0" using Cons by auto
    then show ?thesis by (simp add: bit.conj_disj_distrib2 or_eq_0_iff)
  qed (use Cons in auto)
qed simp

lemma apart_pairs:
  "fields_apart used fs \<Longrightarrow> i < j \<Longrightarrow> j < length fs \<Longrightarrow> FIELD_MASK (fs ! i) AND FIELD_MASK (fs ! j) = 0"
proof (induction fs arbitrary: used i j)
  case (Cons f fs)
  show ?case
  proof (cases i)
    case 0
    then have "fs ! (j - 1) \<in> set fs" using Cons.prems by simp
    then have "(used OR FIELD_MASK f) AND FIELD_MASK (fs ! (j - 1)) = 0"
      using apart_used[of "used OR FIELD_MASK f" fs "fs ! (j - 1)"] Cons.prems(1) by simp
    then show ?thesis using 0 Cons.prems by (simp add: bit.conj_disj_distrib2 or_eq_0_iff nth_Cons')
  next
    case (Suc k)
    then show ?thesis using Cons.IH[of "used OR FIELD_MASK f" k "j - 1"] Cons.prems by (auto simp: nth_Cons')
  qed
qed simp

lemma uart_layout: "r \<in> set uart_registers \<Longrightarrow> list_all field_fits r \<and> fields_apart 0 r"
  unfolding uart_registers_def by (auto simp: field_lists field_fits_def FIELD_MASK_def)

subsection \<open>Reading back\<close>

text \<open>A value fits a field when it has no bits outside the mask.\<close>

lemma set_reads_back:
  assumes "field_fits f" and "v AND fst (snd f) = v"
  shows "FIELD2VAL f (SET_FIELD regbits f v) = v"
proof -
  obtain n M S where f: "f = (n, M, S)" by (cases f) auto
  have m: "bit M k \<Longrightarrow> S + k < 32" for k
  proof -
    assume "bit M k"
    then have "bit (drop_bit S (push_bit S M)) k" using assms(1) by (simp add: f field_fits_def FIELD_MASK_def)
    then show "S + k < 32" by (simp add: bit_simps)
  qed
  have v: "bit v k \<Longrightarrow> bit M k" for k using assms(2) by (metis f bit_and_iff fst_conv snd_conv)
  show ?thesis
    by (rule bit_word_eqI) (auto simp: f FIELD2VAL_def SET_FIELD_def FIELD_MASK_def VAL2FIELD_def bit_simps dest: m v)
qed

lemma set_keeps_other:
  assumes "FIELD_MASK f AND FIELD_MASK g = 0" and "v AND fst (snd f) = v"
  shows "FIELD2VAL g (SET_FIELD regbits f v) = FIELD2VAL g regbits"
proof (rule bit_word_eqI)
  obtain n M S where f: "f = (n, M, S)" by (cases f) auto
  obtain n' M' S' where g: "g = (n', M', S')" by (cases g) auto
  fix k
  have a: "\<not> (bit (FIELD_MASK f) j \<and> bit (FIELD_MASK g) j)" for j
    using assms(1) by (metis bit_0_eq bit_and_iff bot_apply bot_bool_def)
  have v: "bit v j \<Longrightarrow> bit M j" for j using assms(2) by (metis f bit_and_iff fst_conv snd_conv)
  show "bit (FIELD2VAL g (SET_FIELD regbits f v)) k = bit (FIELD2VAL g regbits) k"
    using a[of "S' + k"] v
    by (auto simp: f g FIELD2VAL_def SET_FIELD_def FIELD_MASK_def VAL2FIELD_def bit_simps dest: bit_imp_le_length)
qed

text \<open>
  Writing a value that fits into a field of a register of the serial port makes the field read that value and
  changes no other field of the register: the declared fields of every register lie in it and do not overlap.
\<close>

theorem uart_fields_independent:
  assumes "r \<in> set uart_registers" and "i < length r" and "j < length r" and "v AND fst (snd (r ! i)) = v"
  shows "FIELD2VAL (r ! j) (SET_FIELD regbits (r ! i) v) = (if j = i then v else FIELD2VAL (r ! j) regbits)"
proof (cases "j = i")
  case True
  have "field_fits (r ! i)" using uart_layout[OF assms(1)] assms(2) by (simp add: list_all_length)
  then show ?thesis using set_reads_back assms(4) True by simp
next
  case False
  then have "FIELD_MASK (r ! i) AND FIELD_MASK (r ! j) = 0"
    using apart_pairs[of 0 r i j] apart_pairs[of 0 r j i] uart_layout[OF assms(1)] assms(2,3)
    by (cases "i < j") (auto simp: and.commute)
  then show ?thesis using set_keeps_other assms(4) False by simp
qed

theorem uart_fields_independent_witness:
  "FIELD2VAL (UART_CONF0_fields ! 20) (SET_FIELD 0xffffffff (UART_CONF0_fields ! 19) 1) = 3
   \<and> FIELD2VAL (UART_CONF0_fields ! 19) (SET_FIELD 0xffffffff (UART_CONF0_fields ! 19) 1) = 1"
proof -
  have r: "UART_CONF0_fields \<in> set uart_registers" by (simp add: uart_registers_def)
  have l: "19 < length UART_CONF0_fields" "20 < length UART_CONF0_fields" by (simp_all add: UART_CONF0_fields_def)
  have v: "1 AND fst (snd (UART_CONF0_fields ! 19)) = (1 :: u32)" by (simp add: UART_CONF0_fields_def)
  have o: "FIELD2VAL (UART_CONF0_fields ! 20) 0xffffffff = 3" by (simp add: UART_CONF0_fields_def FIELD2VAL_def)
  show ?thesis
    using uart_fields_independent[OF r l(1) l(2) v, of "0xffffffff"] uart_fields_independent[OF r l(1) l(1) v, of "0xffffffff"] o
    by simp
qed

text \<open>A value that does not fit reaches into the next field, because \<open>VAL2FIELD\<close> does not cut it.\<close>

lemma wide_value_spills:
  "FIELD2VAL (UART_CONF0_fields ! 19) (SET_FIELD 0 (UART_CONF0_fields ! 20) 4) = 1"
  by (simp add: UART_CONF0_fields_def FIELD2VAL_def SET_FIELD_def FIELD_MASK_def VAL2FIELD_def)

text \<open>The counts that the waiting loops read are those of the status register.\<close>

lemma counts_are_fields:
  "txfifo_count st = FIELD2VAL (UART_STATUS_fields ! 3) st" "rxfifo_count st = FIELD2VAL (UART_STATUS_fields ! 7) st"
  by (simp_all add: txfifo_count_def rxfifo_count_def UART_STATUS_fields_def FIELD2VAL_def)

end
