(* ===== verification/Os_Mutex.thy ===== *)
theory Os_Mutex
  imports Os_Semaphore Os_Task_Demo
begin

text \<open>
  Mutexes without contention: taking and giving by one task, nested as deep as it likes.
\<close>

section \<open>A free mutex, and one held \<open>k\<close> times\<close>

definition free_mutex :: "u32 \<Rightarrow> Queue \<Rightarrow> os \<Rightarrow> bool" where
  "free_mutex q Q s \<longleftrightarrow> queues s q = Some Q \<and> uxQueueType Q = queueQUEUE_IS_MUTEX \<and> uxItemSize Q = 0 \<and> uxLength Q = 1
     \<and> uxMessagesWaiting Q = 1 \<and> xMutexHolder Q = 0 \<and> uxRecursiveCallCount Q = 0
     \<and> listLIST_IS_EMPTY (WaitingToSend q) (klists s) \<and> listLIST_IS_EMPTY (WaitingToReceive q) (klists s)"

text \<open>The calling task runs at its own priority.\<close>

definition caller :: "u32 \<Rightarrow> TCB \<Rightarrow> os \<Rightarrow> bool" where
  "caller me t s \<longleftrightarrow> pxCurrentTCB s = me \<and> me \<noteq> 0 \<and> tcbs s me = Some t \<and> uxPriority t = uxBasePriority t"

definition held :: "u32 \<Rightarrow> Queue \<Rightarrow> u32 \<Rightarrow> TCB \<Rightarrow> u32 \<Rightarrow> os \<Rightarrow> os" where
  "held q Q me t k s = s\<lparr>queues := (queues s)(q \<mapsto> Q\<lparr>uxMessagesWaiting := 0, u_word0 := me, u_word1 := k\<rparr>),
     tcbs := (tcbs s)(me \<mapsto> t\<lparr>uxMutexesHeld := uxMutexesHeld t + 1\<rparr>)\<rparr>"

lemma held_sel:
  "queues (held q Q me t k s) q = Some (Q\<lparr>uxMessagesWaiting := 0, u_word0 := me, u_word1 := k\<rparr>)"
  "pxCurrentTCB (held q Q me t k s) = pxCurrentTCB s"
  by (simp_all add: held_def)

lemma held_count: "upd_queue q (\<lambda>Q. Q\<lparr>u_word1 := f (u_word1 Q)\<rparr>) (held q Q me t k s) = Some (held q Q me t (f k) s)"
  by (simp add: upd_queue_def held_def)

section \<open>Taking\<close>

lemma take_first:
  assumes "free_mutex q Q s" and "caller me t s"
  shows "xQueueTakeMutexRecursive cfg es q wait s = Some (Returned True (held q Q me t 1 s))"
proof -
  have Q: "Q\<lparr>uxMessagesWaiting := 0, u_word0 := me, u_word1 := 0\<rparr> = Q\<lparr>uxMessagesWaiting := 0, u_word0 := me\<rparr>"
    using assms(1) by (cases Q) (simp add: free_mutex_def)
  have "take_pass cfg q wait s = Some (Some True, held q Q me t 0 s)"
    using assms unfolding take_pass_def free_mutex_def caller_def
    by (simp add: upd_queue_def pvTaskIncrementMutexHeldCount_def upd_tcb_def wake_one_and_yield_def wake_one_def
        vPortExitCritical_def vPortEnterCritical_def held_def Q)
  then have "xQueueSemaphoreTake cfg es q wait s = Some (Returned True (held q Q me t 0 s))"
    unfolding xQueueSemaphoreTake_def by (cases es) simp_all
  then show ?thesis
    using assms held_count[of q "\<lambda>x. x + 1" Q me t 0 s]
    by (simp add: xQueueTakeMutexRecursive_def xTaskGetCurrentTaskHandle_def free_mutex_def caller_def)
qed

lemma take_again:
  assumes "pxCurrentTCB s = me"
  shows "xQueueTakeMutexRecursive cfg es q wait (held q Q me t k s) = Some (Returned True (held q Q me t (k + 1) s))"
  using assms held_count[of q "\<lambda>x. x + 1" Q me t k s]
  by (simp add: xQueueTakeMutexRecursive_def xTaskGetCurrentTaskHandle_def held_sel)

section \<open>Giving\<close>

lemma give_inner:
  assumes "pxCurrentTCB s = me" and "k \<noteq> 1"
  shows "xQueueGiveMutexRecursive cfg q (held q Q me t k s) = Some (True, held q Q me t (k - 1) s)"
  using assms held_count[of q "\<lambda>x. x - 1" Q me t k s]
  by (simp add: xQueueGiveMutexRecursive_def xTaskGetCurrentTaskHandle_def held_sel)

lemma give_last:
  assumes "free_mutex q Q s" and "caller me t s"
  shows "xQueueGiveMutexRecursive cfg q (held q Q me t 1 s) = Some (True, s)"
proof -
  have q: "queues s q = Some Q" "tcbs s me = Some t" "uxPriority t = uxBasePriority t" "me \<noteq> 0"
    "uxQueueType Q = queueQUEUE_IS_MUTEX" "uxItemSize Q = 0" "uxLength Q = 1"
    "listLIST_IS_EMPTY (WaitingToReceive q) (klists s)"
    using assms by (simp_all add: free_mutex_def caller_def)
  have Q: "Q\<lparr>u_word1 := 0, u_word0 := 0, uxMessagesWaiting := 1\<rparr> = Q"
    using assms(1) by (cases Q) (simp add: free_mutex_def)
  let ?s = "vPortEnterCritical (held q Q me t 0 s)"
  let ?s1 = "?s\<lparr>tcbs := tcbs s\<rparr>"
  have "(tcbs s)(me \<mapsto> t) = tcbs s" using q(2) by (rule fun_upd_idem)
  then have d: "xTaskPriorityDisinherit me ?s = Some (False, ?s1)"
    using q(2-4) by (simp add: xTaskPriorityDisinherit_def upd_tcb_def held_def vPortEnterCritical_def)
  have "(queues s)(q \<mapsto> Q) = queues s" using q(1) by (rule fun_upd_idem)
  then have c: "prvCopyDataToQueue q 0 queueSEND_TO_BACK ?s = Some (False, vPortEnterCritical s)"
    using d q(5,6) Q by (simp add: prvCopyDataToQueue_def upd_queue_def held_def vPortEnterCritical_def)
  have "send_pass cfg q 0 queueSEND_TO_BACK 0 (held q Q me t 0 s) = Some (Some True, vPortExitCritical (vPortEnterCritical s))"
    using c q(1,7,8) by (simp add: send_pass_def send_now_def vPortEnterCritical_def held_sel)
  then have "send_pass cfg q 0 queueSEND_TO_BACK 0 (held q Q me t 0 s) = Some (Some True, s)"
    by (simp add: vPortExitCritical_def vPortEnterCritical_def)
  then have "xQueueGenericSend cfg [] q 0 queueMUTEX_GIVE_BLOCK_TIME queueSEND_TO_BACK (held q Q me t 0 s)
      = Some (Returned True s)"
    by (simp add: xQueueGenericSend_def queueMUTEX_GIVE_BLOCK_TIME_def)
  then show ?thesis
    using assms held_count[of q "\<lambda>x. x - 1" Q me t 1 s]
    by (simp add: xQueueGiveMutexRecursive_def xTaskGetCurrentTaskHandle_def held_sel caller_def)
qed

section \<open>Nesting\<close>

text \<open>Taking \<open>n\<close> times, each time without a block time, and giving \<open>n\<close> times: the results and the state.\<close>

fun take_times :: "os_config \<Rightarrow> u32 \<Rightarrow> nat \<Rightarrow> os \<Rightarrow> os option" where
  "take_times cfg q 0 s = Some s"
| "take_times cfg q (Suc n) s =
     do { r \<leftarrow> xQueueTakeMutexRecursive cfg [] q 0 s;
          (case r of Returned True s1 \<Rightarrow> take_times cfg q n s1 | _ \<Rightarrow> None) }"

fun give_times :: "os_config \<Rightarrow> u32 \<Rightarrow> nat \<Rightarrow> os \<Rightarrow> os option" where
  "give_times cfg q 0 s = Some s"
| "give_times cfg q (Suc n) s =
     do { (ok, s1) \<leftarrow> xQueueGiveMutexRecursive cfg q s; (if ok then give_times cfg q n s1 else None) }"

lemma take_more:
  assumes "pxCurrentTCB s = me"
  shows "take_times cfg q n (held q Q me t k s) = Some (held q Q me t (k + of_nat n) s)"
  by (induction n arbitrary: k) (simp_all add: take_again[OF assms] add.assoc)

lemma give_down:
  assumes "free_mutex q Q s" and "caller me t s" and "Suc n < 2 ^ 32"
  shows "give_times cfg q (Suc n) (held q Q me t (of_nat (Suc n)) s) = Some s"
  using assms(3)
proof (induction n)
  case 0
  then show ?case using give_last[OF assms(1,2)] by simp
next
  case (Suc n)
  have c: "pxCurrentTCB s = me" using assms(2) by (simp add: caller_def)
  have "of_nat (Suc (Suc n)) \<noteq> (1 :: u32)"
    using Suc.prems unat_of_nat32[of "Suc (Suc n)"] by (metis One_nat_def Suc_inject nat.distinct(1) unat_1)
  then have "xQueueGiveMutexRecursive cfg q (held q Q me t (of_nat (Suc (Suc n))) s) = Some (True, held q Q me t (of_nat (Suc n)) s)"
    using give_inner[OF c, of "of_nat (Suc (Suc n))"] by simp
  then show ?case using Suc unfolding give_times.simps(2)[of cfg q "Suc n"] by simp
qed

section \<open>Property\<close>

text \<open>
  C37: A recursive mutex nests. When no task waits for it, a task that runs at its own priority and takes a
  free mutex \<open>n\<close> times succeeds every time without waiting, at any point the mutex is empty, names the
  task as its holder and counts how often it is held, and as many gives succeed and leave the kernel
  exactly as it was before the first take, the mutex free again.
\<close>

theorem recursive_mutex_nests:
  assumes "free_mutex q Q s" and "caller me t s" and "0 < n" and "n < 2 ^ 32"
  shows "\<exists>s1 Q1. take_times cfg q n s = Some s1 \<and> queues s1 q = Some Q1 \<and> uxMessagesWaiting Q1 = 0
    \<and> xMutexHolder Q1 = me \<and> uxRecursiveCallCount Q1 = of_nat n \<and> give_times cfg q n s1 = Some s"
proof -
  obtain k where n: "n = Suc k" using assms(3) by (cases n) auto
  have c: "pxCurrentTCB s = me" using assms(2) by (simp add: caller_def)
  have "take_times cfg q n s = Some (held q Q me t (of_nat n) s)"
    using take_first[OF assms(1,2)] take_more[OF c] by (simp add: n)
  moreover have "give_times cfg q n (held q Q me t (of_nat n) s) = Some s"
    using give_down[OF assms(1,2)] assms(4) unfolding n by blast
  ultimately show ?thesis using held_sel(1)[of q Q me t "of_nat n" s] by simp
qed

text \<open>A mutex at \<open>0x5000\<close>, taken three times by the task at \<open>0x2000\<close>.\<close>

definition demo_mutex :: Queue where
  "demo_mutex = \<lparr>pcHead = 0, pcWriteTo = 0x5000, u_word0 = 0, u_word1 = 0, uxMessagesWaiting = 1, uxLength = 1,
     uxItemSize = 0, cRxLock = 0xff, cTxLock = 0xff\<rparr>"

definition demo_mutex_os :: os where
  "demo_mutex_os = demo_cold\<lparr>tcbs := [0x2000 \<mapsto> demo_tcb], pxCurrentTCB := 0x2000, queues := [0x5000 \<mapsto> demo_mutex]\<rparr>"

theorem recursive_mutex_nests_witness:
  "\<exists>s1 Q1. take_times as_built 0x5000 3 demo_mutex_os = Some s1 \<and> queues s1 0x5000 = Some Q1 \<and> uxMessagesWaiting Q1 = 0
    \<and> xMutexHolder Q1 = 0x2000 \<and> uxRecursiveCallCount Q1 = 3 \<and> give_times as_built 0x5000 3 s1 = Some demo_mutex_os"
proof -
  have "free_mutex 0x5000 demo_mutex demo_mutex_os" "caller 0x2000 demo_tcb demo_mutex_os"
    by (simp_all add: free_mutex_def caller_def demo_mutex_os_def demo_mutex_def demo_tcb_def demo_cold_def demo_store_def
        queueQUEUE_IS_MUTEX_def listLIST_IS_EMPTY_def)
  from recursive_mutex_nests[OF this, of 3 as_built] show ?thesis by simp
qed

end
