(* ===== verification/Os_Wait_Properties.thy ===== *)
theory Os_Wait_Properties
  imports Os_Task_Waiting Os_Queue_Demo
begin

text \<open>How long a task waits for an event, and who is woken by it.\<close>

section \<open>One check of a time-out\<close>

text \<open>The configuration or the block time does not make the wait endless, and no other task ends it.\<close>

definition timed_wait :: "os_config \<Rightarrow> u32 \<Rightarrow> bool" where
  "timed_wait cfg w \<longleftrightarrow> \<not> INCLUDE_xTaskAbortDelay cfg \<and> (INCLUDE_vTaskSuspend cfg \<longrightarrow> w \<noteq> portMAX_DELAY)"

lemma at_time_tick_count: "at_time s T \<Longrightarrow> unat (xTickCount s) = T mod 2 ^ 32"
  by (simp add: at_time_def unat_of_nat take_bit_eq_mod)

lemma check_time_out:
  assumes w: "timed_wait cfg w" and t0: "at_time s0 T0" and t: "at_time s T"
    and le: "T0 \<le> T" and near: "T div 2 ^ 32 \<le> T0 div 2 ^ 32 + 1"
  shows "\<exists>to' w'. xTaskCheckForTimeOut cfg (vTaskInternalSetTimeOutState s0) w s
      = Some (\<not> T - T0 < unat w, to', w', s)
    \<and> (T - T0 < unat w \<longrightarrow> to' = vTaskInternalSetTimeOutState s \<and> unat w' = unat w - (T - T0))"
proof -
  let ?a = "T0 div 2 ^ 32" and ?b = "T div 2 ^ 32" and ?e = "xTickCount s - xTickCount s0"
  have split: "T0 = ?a * 2 ^ 32 + T0 mod 2 ^ 32" "T = ?b * 2 ^ 32 + T mod 2 ^ 32" by simp_all
  have m: "T0 mod 2 ^ 32 < 2 ^ 32" "T mod 2 ^ 32 < 2 ^ 32" by simp_all
  have u: "unat (xTickCount s0) = T0 mod 2 ^ 32" "unat (xTickCount s) = T mod 2 ^ 32"
    using at_time_tick_count t0 t by blast+
  have uw: "unat w < 2 ^ 32" by (rule order_less_le_trans[OF unsigned_less]) simp
  have ge: "xTickCount s \<ge> xTickCount s0 \<longleftrightarrow> T0 mod 2 ^ 32 \<le> T mod 2 ^ 32" by (simp only: word_le_nat_alt u)
  have ov: "xNumOfOverflows s \<noteq> xNumOfOverflows s0 \<longleftrightarrow> ?b = ?a + 1"
  proof -
    have "?b = ?a \<or> ?b = ?a + 1" using div_le_mono[OF le, of "2 ^ 32"] near by linarith
    moreover have "(of_nat (?a + 1) :: u32) \<noteq> of_nat ?a" by simp
    ultimately show ?thesis using t0 t unfolding at_time_def by auto
  qed
  have nv: "(INCLUDE_vTaskSuspend cfg \<and> w = portMAX_DELAY) = False" "INCLUDE_xTaskAbortDelay cfg = False"
    using w by (auto simp: timed_wait_def)
  show ?thesis
  proof (cases "?b = ?a + 1 \<and> T0 mod 2 ^ 32 \<le> T mod 2 ^ 32")
    case True
    then have "?b * 2 ^ 32 = ?a * 2 ^ 32 + 2 ^ 32" by simp
    then have "T0 + 2 ^ 32 \<le> T" using split True by linarith
    then have "\<not> T - T0 < unat w" using uw by linarith
    moreover have "xTaskCheckForTimeOut cfg (vTaskInternalSetTimeOutState s0) w s
        = Some (True, vTaskInternalSetTimeOutState s0, w, s)"
      using True ge ov
      by (simp add: nv xTaskCheckForTimeOut_def vTaskInternalSetTimeOutState_def 
          vPortEnterCritical_def vPortExitCritical_def Let_def)
    ultimately show ?thesis by simp
  next
    case False
    have lt: "T - T0 < 2 ^ 32"
    proof -
      have "?b = ?a \<or> ?b = ?a + 1" using div_le_mono[OF le, of "2 ^ 32"] near by linarith
      then have "?b * 2 ^ 32 = ?a * 2 ^ 32 \<or> ?b * 2 ^ 32 = ?a * 2 ^ 32 + 2 ^ 32 \<and> T mod 2 ^ 32 < T0 mod 2 ^ 32"
        using False by auto
      then show ?thesis using split m by linarith
    qed
    have "?e = of_nat (T - T0)" using t0 t le by (simp add: at_time_def of_nat_diff)
    then have e: "unat ?e = T - T0" using lt by (simp only: unat_of_nat32)
    have c: "\<not> (xNumOfOverflows s \<noteq> xNumOfOverflows s0 \<and> xTickCount s \<ge> xTickCount s0)" using False ge ov by blast
    show ?thesis
    proof (cases "T - T0 < unat w")
      case True
      then have l: "?e < w" using e by (simp add: word_less_nat_alt)
      then have "unat (w - ?e) = unat w - (T - T0)" using e by (simp only: unat_sub[OF less_imp_le[OF l]])
      then show ?thesis using True l c
        by (simp add: nv xTaskCheckForTimeOut_def vTaskInternalSetTimeOutState_def 
            vPortEnterCritical_def vPortExitCritical_def Let_def)
    next
      case False
      then have "\<not> ?e < w" using e by (simp add: word_less_nat_alt)
      then show ?thesis using False c
        by (simp add: nv xTaskCheckForTimeOut_def vTaskInternalSetTimeOutState_def 
            vPortEnterCritical_def vPortExitCritical_def Let_def)
    qed
  qed
qed

section \<open>A wait of several parts\<close>

text \<open>
  Checks at the states \<open>ss\<close>, one after the other, each with what the one before left of the block
  time, as the loops of the queue operations make them, until one says that the time is over.
\<close>

fun wait_checks :: "os_config \<Rightarrow> TimeOut \<Rightarrow> u32 \<Rightarrow> os list \<Rightarrow> (bool \<times> u32) option" where
  "wait_checks cfg to w [] = Some (False, w)"
| "wait_checks cfg to w (s # ss) =
     do {
       (expired, to', w', _) \<leftarrow> xTaskCheckForTimeOut cfg to w s;
       (if expired then Some (True, w') else wait_checks cfg to' w' ss)
     }"

text \<open>The times of the states, none of which is two overflows of the tick count after the one before.\<close>

fun at_times :: "nat \<Rightarrow> os list \<Rightarrow> nat list \<Rightarrow> bool" where
  "at_times T0 [] Ts \<longleftrightarrow> Ts = []"
| "at_times T0 (s # ss) Ts \<longleftrightarrow> (\<exists>T Us. Ts = T # Us \<and> at_time s T \<and> T0 \<le> T \<and> T div 2 ^ 32 \<le> T0 div 2 ^ 32 + 1
     \<and> at_times T ss Us)"

lemma at_times_from: "at_times T0 ss Ts \<Longrightarrow> \<forall>T \<in> set Ts. T0 \<le> T"
  by (induction T0 ss Ts rule: at_times.induct) fastforce+

lemma wait_checks_total:
  assumes "timed_wait cfg w" and "at_time s0 T0" and "at_times T0 ss Ts"
  shows "\<exists>w'. wait_checks cfg (vTaskInternalSetTimeOutState s0) w ss = Some (\<exists>T \<in> set Ts. unat w \<le> T - T0, w')
    \<and> ((\<forall>T \<in> set Ts. T - T0 < unat w) \<longrightarrow> unat w' = unat w - (last (T0 # Ts) - T0))"
  using assms
proof (induction ss arbitrary: s0 T0 w Ts)
  case Nil
  then show ?case by simp
next
  case (Cons s ss)
  obtain T Us where T: "Ts = T # Us" "at_time s T" "T0 \<le> T" "T div 2 ^ 32 \<le> T0 div 2 ^ 32 + 1" "at_times T ss Us"
    using Cons.prems(3) by auto
  obtain to' w1 where c: "xTaskCheckForTimeOut cfg (vTaskInternalSetTimeOutState s0) w s = Some (\<not> T - T0 < unat w, to', w1, s)"
    "T - T0 < unat w \<longrightarrow> to' = vTaskInternalSetTimeOutState s \<and> unat w1 = unat w - (T - T0)"
    using check_time_out[OF Cons.prems(1,2) T(2-4)] by blast
  show ?case
  proof (cases "T - T0 < unat w")
    case False
    then show ?thesis using c(1) T(1) by auto
  next
    case True
    have le: "\<forall>U \<in> set Us. T \<le> U" by (rule at_times_from[OF T(5)])
    have "w1 \<le> w" using c(2) True by (simp add: word_le_nat_alt)
    moreover have "w \<le> portMAX_DELAY"
    proof -
      have "unat w < 2 ^ 32" by (rule order_less_le_trans[OF unsigned_less]) simp
      then show ?thesis by (simp add: portMAX_DELAY_def word_le_nat_alt)
    qed
    ultimately have "w1 = portMAX_DELAY \<Longrightarrow> w = portMAX_DELAY" by simp
    then have "timed_wait cfg w1" using Cons.prems(1) by (auto simp: timed_wait_def)
    from Cons.IH[OF this T(2,5)] obtain w' where w':
      "wait_checks cfg (vTaskInternalSetTimeOutState s) w1 ss = Some (\<exists>U \<in> set Us. unat w1 \<le> U - T, w')"
      "(\<forall>U \<in> set Us. U - T < unat w1) \<longrightarrow> unat w' = unat w1 - (last (T # Us) - T)" by blast
    have e: "unat w1 \<le> U - T \<longleftrightarrow> unat w \<le> U - T0" if "U \<in> set Us" for U
      using le that c(2) True T(3) by fastforce
    have l: "T \<le> last (T # Us)" using le by auto
    have "wait_checks cfg (vTaskInternalSetTimeOutState s0) w (s # ss) = Some (\<exists>U \<in> set Us. unat w1 \<le> U - T, w')"
      using c True w'(1) by simp
    moreover have "(\<exists>U \<in> set Us. unat w1 \<le> U - T) = (\<exists>T \<in> set Ts. unat w \<le> T - T0)"
      unfolding T(1) using e True by auto
    moreover have "unat w' = unat w - (last (T0 # Ts) - T0)" if all: "\<forall>T \<in> set Ts. T - T0 < unat w"
    proof -
      have "\<forall>U \<in> set Us. U - T < unat w1" using all e unfolding T(1) by (metis linorder_not_le list.set_intros(2))
      then have "unat w' = unat w1 - (last (T # Us) - T)" using w'(2) by blast
      then show ?thesis using c(2) True l T(1,3) by simp
    qed
    ultimately show ?thesis by auto
  qed
qed

section \<open>Properties\<close>

text \<open>
  C38: A wait that is interrupted lasts as long as one that is not. Let a wait of \<open>w\<close> ticks begin at time
  \<open>T0\<close>, counted without wrap-around, and let the time-out be checked at any times after that, no two in a
  row further apart than one overflow of the tick count. The checks say that the time is over exactly
  when one of them comes \<open>w\<close> ticks after the beginning or later, however often the wait was taken up
  again in between, and otherwise they leave exactly the rest of the block time.
\<close>

theorem interrupted_wait_total:
  assumes "timed_wait cfg w" and "at_time s0 T0" and "at_times T0 ss Ts"
  shows "\<exists>w'. wait_checks cfg (vTaskInternalSetTimeOutState s0) w ss = Some (\<exists>T \<in> set Ts. unat w \<le> T - T0, w')
    \<and> ((\<forall>T \<in> set Ts. T - T0 < unat w) \<longrightarrow> unat w' = unat w - (last (T0 # Ts) - T0))"
  by (rule wait_checks_total[OF assms])

text \<open>A wait of 30 ticks begun 16 ticks before the tick count wraps, checked after 8 and after 20 ticks.\<close>

definition demo_clock :: "u32 \<Rightarrow> u32 \<Rightarrow> os" where
  "demo_clock t v = demo_cold\<lparr>xTickCount := t, xNumOfOverflows := v\<rparr>"

theorem interrupted_wait_total_witness:
  "\<exists>w'. wait_checks as_built (vTaskInternalSetTimeOutState (demo_clock 0xfffffff0 0)) 30
      [demo_clock 0xfffffff8 0, demo_clock 4 1] = Some (False, w') \<and> unat w' = 10"
proof -
  have "timed_wait as_built 30" by (simp add: timed_wait_def as_built_def portMAX_DELAY_def)
  moreover have "at_time (demo_clock 0xfffffff0 0) 0xfffffff0" by (simp add: at_time_def demo_clock_def)
  moreover have "at_times 0xfffffff0 [demo_clock 0xfffffff8 0, demo_clock 4 1] [0xfffffff8, 0x100000004]"
    by (simp add: at_time_def demo_clock_def)
  ultimately show ?thesis using interrupted_wait_total by fastforce
qed

text \<open>
  C39: Events wake tasks in the order of their priorities. When the running task joins an event list whose
  tasks wait in that order, its event item carrying its priority, the call succeeds and the order is
  kept. The next event then wakes a waiting task, to which no task on the list is superior, the one just
  joined included; it becomes ready at its priority and waits for nothing, the others stay on the list
  in their order, and the scheduler's invariant holds throughout.
\<close>

theorem event_wakes_highest:
  fixes s l
  defines "c \<equiv> pxCurrentTCB s"
  assumes k: "kernel_inv cfg s" and run: "uxSchedulerSuspended s = 0" and l: "l \<in> event_lists s"
    and b: "by_priority s l" and e: "home s (EventListItem c) = None" and n: "n \<noteq> 0"
    and v: "val s (EventListItem c) = configMAX_PRIORITIES - priority_of s c"
  shows "\<exists>s1 y s2 t. vTaskPlaceOnEventList cfg l n s = Some s1 \<and> kernel_inv cfg s1 \<and> by_priority s1 l
    \<and> set (items s1 l) = insert (EventListItem c) (set (items s l))
    \<and> xTaskRemoveFromEventList cfg l s1 = Some (y, s2) \<and> kernel_inv cfg s2 \<and> by_priority s2 l
    \<and> items s1 l = EventListItem t # items s2 l
    \<and> (\<forall>u. EventListItem u \<in> set (items s1 l) \<longrightarrow> priority_of s u \<le> priority_of s t)
    \<and> home s2 (StateListItem t) = Some (ReadyTasksList (priority_of s t)) \<and> home s2 (EventListItem t) = None"
proof -
  obtain s1 where s1: "vTaskPlaceOnEventList cfg l n s = Some s1" "kernel_inv cfg s1" "same_sched s s1"
    "items s1 l = insert_by_value (val s) (EventListItem c) (items s l)"
    "\<forall>t. val s1 (EventListItem t) = val s (EventListItem t)"
    unfolding c_def
  proof (rule place_event_spec[OF k n e[unfolded c_def] l], goal_cases)
    case (1 s' m)
    then show ?case by (intro 1(1)[of s']) simp_all
  qed
  note g = same_schedD[OF s1(3)]
  have b1: "by_priority s1 l"
    by (rule placed_by_priority[OF k l b v[unfolded c_def] s1(4)[unfolded c_def]]) (use s1(5) g(2) in simp_all)
  have l1: "l \<in> event_lists s1" using l g(4) by (simp add: event_lists_def)
  have m: "set (items s1 l) = insert (EventListItem c) (set (items s l))" unfolding s1(4) by simp
  let ?t = "first_waiting s1 l"
  obtain i is' where i: "items s1 l = i # is'" using m by (cases "items s1 l") auto
  obtain y s2 where s2: "xTaskRemoveFromEventList cfg l s1 = Some (y, s2)" "kernel_inv cfg s2" "same_sched s1 s2"
    "woken {?t} s1 (klists s2)" "items s2 l = tl (items s1 l)"
    by (rule remove_from_event_list_running[OF s1(2) l1]) (use i run g(7) in auto)
  have i': "items s1 l = EventListItem ?t # items s2 l"
    using first_waiting_highest(1)[OF invD(1)[OF s1(2)] l1 b1 i, of ?t] s2(5) m i l1 b1
    by (metis event_list_items first_waiting_highest(1) invD(1) list.sel(3) list.set_intros(1) s1(2))
  have h: "priority_of s u \<le> priority_of s ?t" if "EventListItem u \<in> set (items s1 l)" for u
    using first_waiting_highest(2)[OF invD(1)[OF s1(2)] l1 b1 i that] g(2) by simp
  have "by_priority s2 l"
    by (rule head_removed_by_priority[OF b1 s2(5)]) (use same_schedD[OF s2(3)] wokenD(3)[OF s2(4)] in \<open>auto simp: fun_eq_iff\<close>)
  then show ?thesis using s1(1,2) b1 m s2(1,2) i' h wokenD(1,2)[OF s2(4), of ?t] g(2) by auto
qed


text \<open>The running task at \<open>0x4000\<close> waits for a message in the empty queue, then an event comes.\<close>

definition demo_valued :: os where
  "demo_valued = os_set_value (EventListItem 0x4000) (configMAX_PRIORITIES - 2) demo_queue_state"

lemma demo_valued:
  "kernel_inv as_built demo_valued" "uxSchedulerSuspended demo_valued = 0" "pxCurrentTCB demo_valued = 0x4000"
  "WaitingToReceive 0x5000 \<in> event_lists demo_valued" "items demo_valued (WaitingToReceive 0x5000) = []"
  "home demo_valued (EventListItem 0x4000) = None"
  "val demo_valued (EventListItem 0x4000) = configMAX_PRIORITIES - priority_of demo_valued 0x4000"
proof -
  note k = demo_queue_inv
  have l: "WaitingToReceive 0x5000 \<in> event_lists demo_queue_state"
    by (simp add: event_lists_def demo_queue_state_views)
  have kc: "kernel_core {} as_built demo_valued"
    and it: "\<And>m. m \<in> live as_built demo_queue_state \<Longrightarrow> items demo_valued m = items demo_queue_state m"
    unfolding demo_valued_def
    using set_value_core[OF invD(1)[OF k], of "EventListItem 0x4000"] event_item_not_delayed[OF invD(1)[OF k]] by blast+
  show "items demo_valued (WaitingToReceive 0x5000) = []" using it l demo_queue_lists by simp
  show "kernel_inv as_built demo_valued"
    using invD(2,3)[OF k] kc
    by (simp add: kernel_inv_def due_ok_def overflow_ok_def demo_valued_def os_set_value_def)
qed (simp_all add: demo_valued_def os_set_value_def demo_queue_state_views event_lists_def demo_event_item_free
  priority_of_def demo_two(6)[unfolded priority_of_def])

theorem event_wakes_highest_witness:
  "\<exists>s1 y s2 t. vTaskPlaceOnEventList as_built (WaitingToReceive 0x5000) 7 demo_valued = Some s1
    \<and> xTaskRemoveFromEventList as_built (WaitingToReceive 0x5000) s1 = Some (y, s2) \<and> kernel_inv as_built s2
    \<and> items s1 (WaitingToReceive 0x5000) = EventListItem t # items s2 (WaitingToReceive 0x5000)"
proof -
  have "by_priority demo_valued (WaitingToReceive 0x5000)" by (simp add: by_priority_def demo_valued(5))
  from event_wakes_highest[OF demo_valued(1,2,4) this, of 7] show ?thesis
    using demo_valued(3,6,7) by auto
qed


text \<open>
  C40: An event that comes while the scheduler is suspended is not lost. A task waiting for it is taken off
  the event list at once but stays in its state list; the resume of the scheduler then makes it ready,
  at its priority, and the scheduler's invariant holds after both calls.
\<close>

theorem suspended_wake_survives_resume:
  assumes "kernel_inv cfg s" and "l \<in> event_lists s" and "items s l \<noteq> []"
    and "uxSchedulerSuspended s = 1" and "uxCurrentNumberOfTasks s > 0"
  shows "\<exists>b s1 y s2. xTaskRemoveFromEventList cfg l s = Some (b, s1) \<and> kernel_inv cfg s1
    \<and> home s1 (StateListItem (first_waiting s l)) = home s (StateListItem (first_waiting s l))
    \<and> xTaskResumeAll cfg s1 = Some (y, s2) \<and> kernel_inv cfg s2
    \<and> home s2 (StateListItem (first_waiting s l)) = Some (ReadyTasksList (priority_of s (first_waiting s l)))
    \<and> home s2 (EventListItem (first_waiting s l)) = None"
  by (rule wake_then_resume[OF assms]) blast

text \<open>The task at \<open>0x4000\<close> waits for a message, the scheduler is suspended, and the event comes.\<close>

theorem suspended_wake_survives_resume_witness:
  "\<exists>s0 b s1 y s2. vTaskPlaceOnEventList as_built (WaitingToReceive 0x5000) 7 demo_valued = Some s0
    \<and> xTaskRemoveFromEventList as_built (WaitingToReceive 0x5000) (vTaskSuspendAll s0) = Some (b, s1)
    \<and> xTaskResumeAll as_built s1 = Some (y, s2) \<and> kernel_inv as_built s2"
proof -
  have e: "home demo_valued (EventListItem (pxCurrentTCB demo_valued)) = None" using demo_valued(3,6) by simp
  obtain s0 where s0: "vTaskPlaceOnEventList as_built (WaitingToReceive 0x5000) 7 demo_valued = Some s0"
    "kernel_inv as_built s0" "same_sched demo_valued s0" "items s0 (WaitingToReceive 0x5000) \<noteq> []"
  proof (rule place_event_spec[OF demo_valued(1) _ e demo_valued(4), of 7], goal_cases)
    case (2 s' m)
    have "set (items s' (WaitingToReceive 0x5000)) \<noteq> {}" unfolding 2(7) by simp
    then have "items s' (WaitingToReceive 0x5000) \<noteq> []" by auto
    then show ?case by (intro 2(1)[of s']) (rule 2)+
  qed simp
  let ?s = "vTaskSuspendAll s0"
  have n: "uxCurrentNumberOfTasks demo_valued = 2"
    by (simp add: demo_valued_def os_set_value_def demo_queue_state_def new_queue_state_def demo_two)
  have "WaitingToReceive 0x5000 \<in> event_lists ?s" "items ?s (WaitingToReceive 0x5000) \<noteq> []"
    "uxSchedulerSuspended ?s = 1" "uxCurrentNumberOfTasks ?s > 0"
    using demo_valued(2,4) s0(4) n same_schedD(4,7,10)[OF s0(3)] by (simp_all add: vTaskSuspendAll_def event_lists_def)
  from suspended_wake_survives_resume[OF suspend_all_frame(1)[OF s0(2)] this] show ?thesis using s0(1) by blast
qed

end
