(* ===== verification/Os_Inherit.thy ===== *)
theory Os_Inherit
  imports Os_Task_Block
begin

text \<open>
  Priority inheritance keeps the scheduler's invariant: \<open>xTaskPriorityInherit\<close>, \<open>xTaskPriorityDisinherit\<close>
  and \<open>vTaskPriorityDisinheritAfterTimeout\<close> change the priority of one task, and a ready task moves to the
  ready list of its new priority.
\<close>

section \<open>Changing the priority of a task\<close>

definition ready :: "os \<Rightarrow> u32 \<Rightarrow> bool" where
  "ready s t \<longleftrightarrow> (case home s (StateListItem t) of Some (ReadyTasksList _) \<Rightarrow> True | _ \<Rightarrow> False)"

lemma ready_iff: "ready s t \<longleftrightarrow> (\<exists>p. home s (StateListItem t) = Some (ReadyTasksList p))"
  by (auto simp: ready_def split: option.splits list_ref.splits)

definition with_tcb :: "u32 \<Rightarrow> TCB \<Rightarrow> os \<Rightarrow> os" where
  "with_tcb t c s = s\<lparr>tcbs := (tcbs s)(t \<mapsto> c)\<rparr>"

lemma with_tcb_sel [simp]:
  "tcbs (with_tcb t c s) = (tcbs s)(t \<mapsto> c)" "klists (with_tcb t c s) = klists s"
  "queues (with_tcb t c s) = queues s" "pxCurrentTCB (with_tcb t c s) = pxCurrentTCB s"
  "pxDelayedTaskList (with_tcb t c s) = pxDelayedTaskList s"
  "pxOverflowDelayedTaskList (with_tcb t c s) = pxOverflowDelayedTaskList s"
  "uxTopReadyPriority (with_tcb t c s) = uxTopReadyPriority s" "xTickCount (with_tcb t c s) = xTickCount s"
  "xNextTaskUnblockTime (with_tcb t c s) = xNextTaskUnblockTime s" "mem (with_tcb t c s) = mem s"
  "live cfg (with_tcb t c s) = live cfg s" "event_lists (with_tcb t c s) = event_lists s"
  "is_task (with_tcb t c s) u \<longleftrightarrow> u = t \<or> is_task s u"
  "priority_of (with_tcb t c s) u = (if u = t then uxPriority c else priority_of s u)"
  by (auto simp: with_tcb_def live_def event_lists_def is_task_def priority_of_def)

lemma core_priority:
  assumes k: "kernel_core X cfg s" and t: "is_task s t" and nr: "\<not> ready s t"
    and p: "uxPriority c < configMAX_PRIORITIES" "uxBasePriority c < configMAX_PRIORITIES"
  shows "kernel_core X cfg (with_tcb t c s)"
proof -
  have "is_task (with_tcb t c s) u \<longleftrightarrow> is_task s u" for u using t by auto
  note v = this
  have "tasks_ok (with_tcb t c s)" using coreD(2)[OF k] p by (simp add: tasks_ok_def v del: with_tcb_sel(13))
  moreover have "placed X cfg (with_tcb t c s)"
    using coreD(3)[OF k] by (simp add: placed_def v del: with_tcb_sel(13))
  moreover have "ready_ok (with_tcb t c s)"
    using coreD(4)[OF k] nr by (auto simp: ready_ok_def ready_iff v simp del: with_tcb_sel(13))
  ultimately show ?thesis using coreD(1,5)[OF k] by (simp add: kernel_core_def delay_ok_def)
qed

text \<open>
  \<open>reprioritised cfg t c s s'\<close>: the control block of \<open>t\<close> is \<open>c\<close>, a ready \<open>t\<close> is in the ready list of its
  priority there, and nothing else has moved. What the event item of \<open>t\<close> is sorted by may have changed.
\<close>

definition reprioritised :: "os_config \<Rightarrow> u32 \<Rightarrow> TCB \<Rightarrow> os \<Rightarrow> os \<Rightarrow> bool" where
  "reprioritised cfg t c s s' \<longleftrightarrow> kernel_inv cfg s' \<and> tcbs s' = (tcbs s)(t \<mapsto> c)
     \<and> s' = s\<lparr>tcbs := tcbs s', klists := klists s', uxTopReadyPriority := uxTopReadyPriority s'\<rparr>
     \<and> (\<forall>j. home s' j = (if j = StateListItem t \<and> ready s t then Some (ReadyTasksList (uxPriority c)) else home s j))
     \<and> (\<forall>j. j \<noteq> EventListItem t \<longrightarrow> val s' j = val s j)
     \<and> (\<forall>l \<in> event_lists s. items s' l = items s l)"

lemma reprioritisedD:
  assumes "reprioritised cfg t c s s'"
  shows "kernel_inv cfg s'" and "tcbs s' = (tcbs s)(t \<mapsto> c)"
    and "s' = s\<lparr>tcbs := tcbs s', klists := klists s', uxTopReadyPriority := uxTopReadyPriority s'\<rparr>"
    and "home s' j = (if j = StateListItem t \<and> ready s t then Some (ReadyTasksList (uxPriority c)) else home s j)"
    and "j \<noteq> EventListItem t \<Longrightarrow> val s' j = val s j"
    and "l \<in> event_lists s \<Longrightarrow> items s' l = items s l"
  using assms unfolding reprioritised_def by blast+

lemma ready_list_not_delayed: "kernel_core X cfg s \<Longrightarrow> Some (ReadyTasksList p) \<noteq> pxDelayedTaskList s
    \<and> Some (ReadyTasksList p) \<noteq> pxOverflowDelayedTaskList s"
  by (auto simp: delay_ok_def dest!: coreD(5))

lemma reprioritised_intro:
  assumes k: "kernel_inv cfg s" and c: "kernel_core {} cfg s'" and tk: "is_task s t"
    and t: "tcbs s' = (tcbs s)(t \<mapsto> c)"
    and f: "s' = s\<lparr>tcbs := tcbs s', klists := klists s', uxTopReadyPriority := uxTopReadyPriority s'\<rparr>"
    and h: "\<And>j. home s' j = (if j = StateListItem t \<and> ready s t then Some (ReadyTasksList (uxPriority c)) else home s j)"
    and v: "\<And>j. j \<noteq> EventListItem t \<Longrightarrow> val s' j = val s j"
    and e: "\<And>l. l \<in> event_lists s \<Longrightarrow> items s' l = items s l"
  shows "reprioritised cfg t c s s'"
proof -
  have d: "xTickCount s' = xTickCount s" "xNextTaskUnblockTime s' = xNextTaskUnblockTime s"
    "pxDelayedTaskList s' = pxDelayedTaskList s" "pxOverflowDelayedTaskList s' = pxOverflowDelayedTaskList s"
    by (subst f, simp)+
  have "is_task s' u = is_task s u" for u using t tk by (auto simp: is_task_def)
  then have "due_ok s'" "overflow_ok s'"
    using invD(2,3)[OF k] ready_list_not_delayed[OF c] unfolding due_ok_def overflow_ok_def
    by (auto simp: d h v split: if_splits)
  then show ?thesis using assms by (auto simp: reprioritised_def kernel_inv_def)
qed

section \<open>The steps of the code\<close>

text \<open>A ready task is taken out of its list, given the new control block, and added again.\<close>

lemma readd:
  fixes b :: bool
  assumes k: "kernel_inv cfg s" and t: "tcbs s t = Some tcb" and r: "ready s t"
    and p: "uxPriority c < configMAX_PRIORITIES" "uxBasePriority c < configMAX_PRIORITIES"
  obtains n h s' where "os_remove (StateListItem t) s = Some (n, s\<lparr>klists := h\<rparr>)"
    and "prvAddTaskToReadyList t (with_tcb t c (if b then os_set_value (EventListItem t) v (s\<lparr>klists := h\<rparr>)
           else s\<lparr>klists := h\<rparr>)) = Some s'"
    and "reprioritised cfg t c s s'"
proof -
  have tk: "is_task s t" using t by (simp add: is_task_def)
  obtain n h where h: "os_remove (StateListItem t) s = Some (n, s\<lparr>klists := h\<rparr>)"
    "kernel_core (insert t {}) cfg (s\<lparr>klists := h\<rparr>)" "moved s h (StateListItem t) None"
    "\<And>m. m \<in> live cfg s \<Longrightarrow> list_items h m = remove1 (StateListItem t) (items s m)"
    using remove_state_item[OF invD(1)[OF k] tk, of thesis] by blast
  let ?s1 = "s\<lparr>klists := h\<rparr>"
  let ?s2 = "if b then os_set_value (EventListItem t) v ?s1 else ?s1"
  note sv = set_value_core[where i = "EventListItem t" and v = v, OF h(2) event_item_not_delayed[OF h(2)]]
  have k2: "kernel_core {t} cfg ?s2" using h(2) sv(1) by simp
  have i2: "items ?s2 m = list_items h m" if "m \<in> live cfg s" for m
    using sv(2)[of m] that by simp
  have f2: "tcbs ?s2 = tcbs s" "is_task ?s2 = is_task s" "priority_of ?s2 = priority_of s" "live cfg ?s2 = live cfg s"
    "event_lists ?s2 = event_lists s" "home ?s2 j = (if j = StateListItem t then None else home s j)"
    "j \<noteq> EventListItem t \<Longrightarrow> val ?s2 j = val s j" for j
    by (simp_all add: os_set_value_def movedD[OF h(3)])
  have nr: "\<not> ready ?s2 t" by (simp add: ready_iff f2)
  have k3: "kernel_core {t} cfg (with_tcb t c ?s2)" by (rule core_priority[OF k2 _ nr p]) (simp add: f2 tk)
  let ?s3 = "with_tcb t c ?s2" and ?p = "uxPriority c"
  have t3: "is_task ?s3 t" "t \<in> {t}" "priority_of ?s3 t = ?p" by simp_all
  obtain h' where a: "prvAddTaskToReadyList t ?s3 = Some (?s3\<lparr>uxTopReadyPriority := max (uxTopReadyPriority ?s3) ?p, klists := h'\<rparr>)"
    and k4: "kernel_core ({t} - {t}) cfg (?s3\<lparr>uxTopReadyPriority := max (uxTopReadyPriority ?s3) ?p, klists := h'\<rparr>)"
    and m4: "moved ?s3 h' (StateListItem t) (Some (ReadyTasksList ?p))"
    and i4: "\<And>m. m \<in> live cfg ?s3 \<Longrightarrow> m \<noteq> ReadyTasksList ?p \<Longrightarrow> list_items h' m = items ?s3 m"
    using add_ready[OF k3 t3(1,2), unfolded t3(3)] by blast
  let ?s' = "?s3\<lparr>uxTopReadyPriority := max (uxTopReadyPriority ?s3) ?p, klists := h'\<rparr>"
  have "reprioritised cfg t c s ?s'"
  proof (rule reprioritised_intro[OF k _ tk])
    show "kernel_core {} cfg ?s'" using k4 by simp
    show "home ?s' j = (if j = StateListItem t \<and> ready s t then Some (ReadyTasksList (uxPriority c)) else home s j)" for j
      using r by (simp add: movedD[OF m4] f2 del: if_split_asm)
    show "val ?s' j = val s j" if "j \<noteq> EventListItem t" for j using that by (simp add: movedD[OF m4] f2)
    show "items ?s' l = items s l" if l: "l \<in> event_lists s" for l
    proof -
      have "StateListItem t \<notin> set (items s l)" by (rule state_item_not_event[OF invD(1)[OF k] l])
      moreover have "l \<noteq> ReadyTasksList ?p" using l by auto
      ultimately show ?thesis using i4[of l] i2[of l] h(4)[of l] l by (auto simp: f2 remove1_idem)
    qed
  qed (simp_all add: f2, simp add: with_tcb_def os_set_value_def)
  then show ?thesis using that h(1) a by blast
qed

lemma os_remove_with_tcb:
  "os_remove i s = Some (n, s\<lparr>klists := h\<rparr>) \<Longrightarrow> os_remove i (with_tcb t c s) = Some (n, with_tcb t c (s\<lparr>klists := h\<rparr>))"
  by (auto simp: os_remove_def with_tcb_def split: bind_splits dest: arg_cong[where f = klists])

text \<open>A task that is not ready keeps its place.\<close>

lemma reprioritised_asleep:
  assumes k: "kernel_inv cfg s" and t: "tcbs s t = Some tcb" and nr: "\<not> ready s t"
    and p: "uxPriority c < configMAX_PRIORITIES" "uxBasePriority c < configMAX_PRIORITIES"
  shows "reprioritised cfg t c s (with_tcb t c s)"
proof (rule reprioritised_intro[OF k])
  show tk: "is_task s t" using t by (simp add: is_task_def)
  show "kernel_core {} cfg (with_tcb t c s)" by (rule core_priority[OF invD(1)[OF k] tk nr p])
qed (use nr in \<open>auto simp: with_tcb_def\<close>)

lemma set_event_value_inv:
  assumes k: "kernel_inv cfg s"
  shows "kernel_inv cfg (os_set_value (EventListItem t) v s)"
    and "l \<in> live cfg s \<Longrightarrow> items (os_set_value (EventListItem t) v s) l = items s l"
    and "ready (os_set_value (EventListItem t) v s) u \<longleftrightarrow> ready s u"
proof -
  note c = set_value_core[where i = "EventListItem t" and v = v, OF invD(1)[OF k] event_item_not_delayed[OF invD(1)[OF k]]]
  show "kernel_inv cfg (os_set_value (EventListItem t) v s)"
    using c(1) invD(2,3)[OF k] by (simp add: kernel_inv_def due_ok_def overflow_ok_def os_set_value_def)
  show "l \<in> live cfg s \<Longrightarrow> items (os_set_value (EventListItem t) v s) l = items s l" by (rule c(2))
  show "ready (os_set_value (EventListItem t) v s) u \<longleftrightarrow> ready s u" by (simp add: ready_iff os_set_value_def)
qed

text \<open>Setting the event item's value first makes no difference.\<close>

lemma reprioritised_after_value:
  assumes k: "kernel_inv cfg s" and t: "is_task s t"
    and r: "reprioritised cfg t c (if b then os_set_value (EventListItem t) v s else s) s'"
  shows "reprioritised cfg t c s s'"
proof (rule reprioritised_intro[OF k _ t])
  let ?s = "if b then os_set_value (EventListItem t) v s else s"
  note d = reprioritisedD[OF r]
  note e = set_event_value_inv[OF k]
  show "kernel_core {} cfg s'" by (rule invD(1)[OF d(1)])
  show "tcbs s' = (tcbs s)(t \<mapsto> c)" using d(2) by (simp add: os_set_value_def split: if_splits)
  have "s' = ?s\<lparr>tcbs := tcbs s', klists := klists s', uxTopReadyPriority := uxTopReadyPriority s'\<rparr>" by (rule d(3))
  also have "\<dots> = s\<lparr>tcbs := tcbs s', klists := klists s', uxTopReadyPriority := uxTopReadyPriority s'\<rparr>"
    by (simp add: os_set_value_def)
  finally show "s' = s\<lparr>tcbs := tcbs s', klists := klists s', uxTopReadyPriority := uxTopReadyPriority s'\<rparr>" .
  show "home s' j = (if j = StateListItem t \<and> ready s t then Some (ReadyTasksList (uxPriority c)) else home s j)" for j
  proof -
    have "home ?s j = home s j" "ready ?s t = ready s t" using e(3)[of t v t] by (simp_all add: os_set_value_def)
    then show ?thesis using d(4)[of j] by (simp only:)
  qed
  show "val s' j = val s j" if "j \<noteq> EventListItem t" for j
    using d(5)[OF that] that by (simp add: os_set_value_def split: if_splits)
  show "items s' l = items s l" if l: "l \<in> event_lists s" for l
    using d(6)[of l] e(2)[of l t v] l by (simp add: os_set_value_def event_lists_def split: if_splits)
qed

section \<open>Inheriting\<close>

lemma ready_list_test:
  assumes k: "kernel_inv cfg s" and t: "tcbs s t = Some tcb"
  shows "listIS_CONTAINED_WITHIN (Some (ReadyTasksList (uxPriority tcb))) (StateListItem t) (klists s) \<longleftrightarrow> ready s t"
  using core_ready(2)[OF invD(1)[OF k], of t] t
  by (auto simp: listIS_CONTAINED_WITHIN_def ready_iff is_task_def priority_of_def)

lemma task_bounds:
  assumes "kernel_core X cfg s" and "tcbs s t = Some tcb"
  shows "uxPriority tcb < configMAX_PRIORITIES" and "uxBasePriority tcb < configMAX_PRIORITIES"
  using coreD(2)[OF assms(1)] assms(2) by (auto simp: tasks_ok_def is_task_def priority_of_def)

text \<open>
  The holder of a mutex gets at least the current task's priority. The result says whether its
  priority is or stays above its base because of the current task.
\<close>

lemma inherit_spec:
  assumes k: "kernel_inv cfg s" and t: "tcbs s t = Some tcb" "t \<noteq> 0"
  defines "p \<equiv> priority_of s (pxCurrentTCB s)"
  obtains b s' where "xTaskPriorityInherit t s = Some (b, s')"
    and "reprioritised cfg t (tcb\<lparr>uxPriority := max (uxPriority tcb) p\<rparr>) s s'"
    and "b \<longleftrightarrow> uxPriority tcb < p \<or> uxBasePriority tcb < p"
proof -
  obtain cur where cur: "tcbs s (pxCurrentTCB s) = Some cur" "uxPriority cur = p"
    using coreD(2)[OF invD(1)[OF k]] by (auto simp: tasks_ok_def is_task_def p_def priority_of_def)
  have bd: "uxPriority tcb < configMAX_PRIORITIES" "uxBasePriority tcb < configMAX_PRIORITIES" "p < configMAX_PRIORITIES"
    using task_bounds[OF invD(1)[OF k]] t(1) cur by auto
  have tk: "is_task s t" using t(1) by (simp add: is_task_def)
  show ?thesis
  proof (cases "uxPriority tcb < p")
    case False
    then have c: "tcb\<lparr>uxPriority := max (uxPriority tcb) p\<rparr> = tcb" by (simp add: max_def)
    have "reprioritised cfg t tcb s s"
      by (rule reprioritised_intro[OF k invD(1)[OF k] tk])
        (use t(1) core_ready(2)[OF invD(1)[OF k] tk] in \<open>auto simp: ready_iff priority_of_def\<close>)
    then show ?thesis using False t cur c by (intro that[of "uxBasePriority tcb < p" s]) (simp_all add: xTaskPriorityInherit_def)
  next
    case True
    let ?c = "tcb\<lparr>uxPriority := max (uxPriority tcb) p\<rparr>"
    have c: "?c = tcb\<lparr>uxPriority := p\<rparr>" using True by (simp add: max_def)
    define b where "b = event_value_free t s"
    define s1 where "s1 = (if b then os_set_value (EventListItem t) (configMAX_PRIORITIES - p) s else s)"
    have k1: "kernel_inv cfg s1" using k set_event_value_inv(1)[OF k] by (simp add: s1_def)
    have t1: "tcbs s1 t = Some tcb" using t(1) by (simp add: s1_def os_set_value_def)
    have r1: "ready s1 t \<longleftrightarrow> ready s t" using set_event_value_inv(3)[OF k] by (simp add: s1_def)
    have bc: "uxPriority ?c < configMAX_PRIORITIES" "uxBasePriority ?c < configMAX_PRIORITIES" using bd by simp_all
    have up: "upd_tcb t (\<lambda>t. t\<lparr>uxPriority := p\<rparr>) x = Some (with_tcb t ?c x)" if "tcbs x = tcbs s" for x
      using t(1) that c by (simp add: upd_tcb_def with_tcb_def)
    have test: "listIS_CONTAINED_WITHIN (Some (ReadyTasksList (uxPriority tcb))) (StateListItem t) (klists s1) \<longleftrightarrow> ready s1 t"
      by (rule ready_list_test[OF k1 t1])
    have body: "xTaskPriorityInherit t s =
        do { s2 \<leftarrow> (if listIS_CONTAINED_WITHIN (Some (ReadyTasksList (uxPriority tcb))) (StateListItem t) (klists s1)
               then do { (_, s') \<leftarrow> os_remove (StateListItem t) s1; s'' \<leftarrow> upd_tcb t (\<lambda>t. t\<lparr>uxPriority := p\<rparr>) s';
                         prvAddTaskToReadyList t s'' }
               else upd_tcb t (\<lambda>t. t\<lparr>uxPriority := p\<rparr>) s1);
             Some (True, s2) }"
      using True t cur bd(1) by (simp add: xTaskPriorityInherit_def Let_def s1_def b_def cong: if_cong)
    have f1: "tcbs s1 = tcbs s" by (simp add: s1_def os_set_value_def)
    obtain s' where s': "reprioritised cfg t ?c s1 s'" "xTaskPriorityInherit t s = Some (True, s')"
    proof (cases "ready s1 t")
      case r: True
      show ?thesis
        by (rule readd[where b = False, OF k1 t1 r bc], rule that, assumption) (use body test r up f1 in simp)
    next
      case r: False
      show ?thesis
        by (rule that[OF reprioritised_asleep[OF k1 t1 r bc]]) (use body test r up f1 in simp)
    qed
    show ?thesis using that[of True s'] s'(2) reprioritised_after_value[OF k tk s'(1)[unfolded s1_def]] True by simp
  qed
qed

section \<open>Giving the priority back\<close>

lemma reprioritised_same:
  assumes k: "kernel_inv cfg s" and t: "tcbs s t = Some tcb"
    and c: "uxPriority c = uxPriority tcb" "uxBasePriority c = uxBasePriority tcb"
  shows "reprioritised cfg t c s (with_tcb t c s)"
proof (rule reprioritised_intro[OF k])
  show tk: "is_task s t" using t by (simp add: is_task_def)
  show "kernel_core {} cfg (with_tcb t c s)"
    using core_tcb_update(1)[OF invD(1)[OF k] t c] by (simp add: with_tcb_def)
  show "home (with_tcb t c s) j = (if j = StateListItem t \<and> ready s t then Some (ReadyTasksList (uxPriority c)) else home s j)" for j
    using core_ready(2)[OF invD(1)[OF k] tk] t c by (auto simp: ready_iff priority_of_def)
qed (simp_all add: with_tcb_def)

text \<open>
  The holder gives a mutex back. With its last mutex it returns to its base priority; only a ready task,
  in fact the running one, can be in that case.
\<close>

lemma disinherit_spec:
  assumes k: "kernel_inv cfg s" and t: "tcbs s t = Some tcb" "t \<noteq> 0" and r: "ready s t"
  defines "falls \<equiv> uxPriority tcb \<noteq> uxBasePriority tcb \<and> uxMutexesHeld tcb = 1"
  obtains s' where "xTaskPriorityDisinherit t s = Some (falls, s')"
    and "reprioritised cfg t (tcb\<lparr>uxMutexesHeld := uxMutexesHeld tcb - 1,
           uxPriority := if falls then uxBasePriority tcb else uxPriority tcb\<rparr>) s s'"
proof (cases falls)
  case False
  let ?c = "tcb\<lparr>uxMutexesHeld := uxMutexesHeld tcb - 1, uxPriority := if falls then uxBasePriority tcb else uxPriority tcb\<rparr>"
  have "xTaskPriorityDisinherit t s = Some (False, with_tcb t ?c s)"
    using t False by (auto simp: xTaskPriorityDisinherit_def upd_tcb_def with_tcb_def falls_def)
  then show ?thesis using that[of "with_tcb t ?c s"] reprioritised_same[OF k t(1), of ?c] False by simp
next
  case True
  let ?c = "tcb\<lparr>uxMutexesHeld := uxMutexesHeld tcb - 1, uxPriority := uxBasePriority tcb\<rparr>"
  let ?v = "configMAX_PRIORITIES - uxBasePriority tcb"
  have bc: "uxPriority ?c < configMAX_PRIORITIES" "uxBasePriority ?c < configMAX_PRIORITIES"
    using task_bounds[OF invD(1)[OF k] t(1)] by simp_all
  obtain n h s' where s': "os_remove (StateListItem t) s = Some (n, s\<lparr>klists := h\<rparr>)"
    "prvAddTaskToReadyList t (with_tcb t ?c (if True then os_set_value (EventListItem t) ?v (s\<lparr>klists := h\<rparr>)
         else s\<lparr>klists := h\<rparr>)) = Some s'"
    "reprioritised cfg t ?c s s'"
    by (rule readd[OF k t(1) r bc])
  let ?s1 = "with_tcb t (tcb\<lparr>uxMutexesHeld := uxMutexesHeld tcb - 1\<rparr>) s"
  have "upd_tcb t (\<lambda>t. t\<lparr>uxMutexesHeld := uxMutexesHeld t - 1\<rparr>) s = Some ?s1"
    using t(1) by (simp add: upd_tcb_def with_tcb_def)
  moreover have "os_set_value (EventListItem t) ?v (with_tcb t ?c (s\<lparr>klists := h\<rparr>))
      = with_tcb t ?c (os_set_value (EventListItem t) ?v (s\<lparr>klists := h\<rparr>))"
    by (simp add: with_tcb_def os_set_value_def)
  moreover have "upd_tcb t (\<lambda>t. t\<lparr>uxPriority := uxBasePriority t\<rparr>)
      (with_tcb t (tcb\<lparr>uxMutexesHeld := uxMutexesHeld tcb - 1\<rparr>) (s\<lparr>klists := h\<rparr>)) = Some (with_tcb t ?c (s\<lparr>klists := h\<rparr>))"
    by (simp add: upd_tcb_def with_tcb_def)
  ultimately have "xTaskPriorityDisinherit t s = Some (True, s')"
    using t(2) True s'(2) os_remove_with_tcb[OF s'(1), of t "tcb\<lparr>uxMutexesHeld := uxMutexesHeld tcb - 1\<rparr>"]
    by (simp add: xTaskPriorityDisinherit_def falls_def Let_def)
  then show ?thesis using that[of s'] s'(3) True by simp
qed

text \<open>A waiting task gives up: the holder falls back to the highest priority still waiting, or its base.\<close>

lemma disinherit_timeout_spec:
  assumes k: "kernel_inv cfg s" and t: "tcbs s t = Some tcb" "t \<noteq> 0" and p: "highest < configMAX_PRIORITIES"
  obtains s' where "vTaskPriorityDisinheritAfterTimeout t highest s = Some s'"
    and "reprioritised cfg t (tcb\<lparr>uxPriority := if uxMutexesHeld tcb = 1 then max (uxBasePriority tcb) highest
           else uxPriority tcb\<rparr>) s s'"
proof -
  define np where "np = max (uxBasePriority tcb) highest"
  have bd: "uxPriority tcb < configMAX_PRIORITIES" "uxBasePriority tcb < configMAX_PRIORITIES" "np < configMAX_PRIORITIES"
    using task_bounds[OF invD(1)[OF k] t(1)] p by (simp_all add: np_def)
  have tk: "is_task s t" using t(1) by (simp add: is_task_def)
  have np: "(if uxBasePriority tcb < highest then highest else uxBasePriority tcb) = np"
    by (auto simp: np_def max_def)
  show ?thesis
  proof (cases "uxPriority tcb \<noteq> np \<and> uxMutexesHeld tcb = 1")
    case False
    then have c: "tcb\<lparr>uxPriority := if uxMutexesHeld tcb = 1 then max (uxBasePriority tcb) highest else uxPriority tcb\<rparr> = tcb"
      by (auto simp: np_def)
    have "(tcbs s)(t \<mapsto> tcb) = tcbs s" using t(1) by (rule fun_upd_idem)
    then have "with_tcb t tcb s = s" by (simp add: with_tcb_def)
    then have "reprioritised cfg t tcb s s" using reprioritised_same[OF k t(1), of tcb] by simp
    then show ?thesis using False t np by (intro that[of s]) (auto simp: vTaskPriorityDisinheritAfterTimeout_def Let_def c)
  next
    case True
    let ?c = "tcb\<lparr>uxPriority := np\<rparr>"
    define b where "b = event_value_free t s"
    define s1 where "s1 = (if b then os_set_value (EventListItem t) (configMAX_PRIORITIES - np) s else s)"
    have k1: "kernel_inv cfg s1" using k set_event_value_inv(1)[OF k] by (simp add: s1_def)
    have t1: "tcbs s1 t = Some tcb" using t(1) by (simp add: s1_def os_set_value_def)
    have bc: "uxPriority ?c < configMAX_PRIORITIES" "uxBasePriority ?c < configMAX_PRIORITIES" using bd by simp_all
    have test: "listIS_CONTAINED_WITHIN (Some (ReadyTasksList (uxPriority tcb))) (StateListItem t) (klists s1) \<longleftrightarrow> ready s1 t"
      by (rule ready_list_test[OF k1 t1])
    have w: "(if event_value_free t (with_tcb t ?c s)
         then os_set_value (EventListItem t) (configMAX_PRIORITIES - np) (with_tcb t ?c s) else with_tcb t ?c s) = with_tcb t ?c s1"
      by (simp add: s1_def b_def event_value_free_def os_set_value_def with_tcb_def)
    have up: "upd_tcb t (\<lambda>t. t\<lparr>uxPriority := np\<rparr>) s = Some (with_tcb t ?c s)"
      using t(1) by (simp add: upd_tcb_def with_tcb_def)
    have body: "vTaskPriorityDisinheritAfterTimeout t highest s =
        (if listIS_CONTAINED_WITHIN (Some (ReadyTasksList (uxPriority tcb))) (StateListItem t) (klists s1)
         then do { (_, s3) \<leftarrow> os_remove (StateListItem t) (with_tcb t ?c s1); prvAddTaskToReadyList t s3 }
         else Some (with_tcb t ?c s1))"
      using True t bd(1) by (simp add: vTaskPriorityDisinheritAfterTimeout_def Let_def np up w cong: if_cong)
    obtain s' where s': "reprioritised cfg t ?c s1 s'" "vTaskPriorityDisinheritAfterTimeout t highest s = Some s'"
    proof (cases "ready s1 t")
      case r: True
      show ?thesis
        by (rule readd[where b = False, OF k1 t1 r bc], rule that, assumption)
          (use body test r os_remove_with_tcb in fastforce)
    next
      case r: False
      show ?thesis
        by (rule that[OF reprioritised_asleep[OF k1 t1 r bc]]) (use body test r in simp)
    qed
    show ?thesis
      using that[OF s'(2)] reprioritised_after_value[OF k tk s'(1)[unfolded s1_def]] True by (simp add: np_def)
  qed
qed

end
