(* ===== verification/Os_Kernel_Alive.thy ===== *)
theory Os_Kernel_Alive
  imports Core_Tick Os_Queue_Block Os_Inherit Os_Semaphore
begin

text \<open>
  The invariant of the kernel as a whole, \<open>kernel_alive\<close>, and what the interrupts and the calls of the
  running task do to it: every one of them returns and keeps it.
\<close>

section \<open>Callers\<close>

text \<open>What the calls get from outside: the port, the allocator, and the bytes of new control blocks.\<close>

record kernel_env =
  env_port :: port_params
  env_malloc :: "u32 \<Rightarrow> os \<Rightarrow> u32"
  env_tcb :: TCB
  env_queue :: Queue

definition on_cpu :: "os \<Rightarrow> bool" where
  "on_cpu s \<longleftrightarrow> ready s (pxCurrentTCB s)"

definition may_block :: "u32 \<Rightarrow> os \<Rightarrow> bool" where
  "may_block idle s \<longleftrightarrow> pxCurrentTCB s \<noteq> idle \<and> uxSchedulerSuspended s = 0"

definition new_task_block :: "kernel_env \<Rightarrow> u16 \<Rightarrow> os \<Rightarrow> bool" where
  "new_task_block E d s \<longleftrightarrow>
     (let t = tcb_block (env_port E) (env_malloc E) d s in
      stack_block (env_malloc E) d s = 0 \<or> t = 0 \<or> tcbs s t = None)"

definition new_queue_block :: "kernel_env \<Rightarrow> u32 \<Rightarrow> u32 \<Rightarrow> os \<Rightarrow> bool" where
  "new_queue_block E n z s \<longleftrightarrow>
     (let q = env_malloc E (queue_bytes n z) s in q = 0 \<or> queues s q = None \<and> block_fits q n z)"

definition wait_ok :: "os_config \<Rightarrow> u32 \<Rightarrow> u32 \<Rightarrow> os \<Rightarrow> bool" where
  "wait_ok cfg idle w s \<longleftrightarrow> uxSchedulerSuspended s = 0 \<and> (w \<noteq> 0 \<longrightarrow> pxCurrentTCB s \<noteq> idle \<and> counts_time cfg w)"

section \<open>The invariant of a run\<close>

text \<open>
  A queue of items is an intact ring, a semaphore or a mutex a count of at most its length; between calls
  no queue is locked, and the holder of a mutex is a task.
\<close>

definition counter :: "Queue \<Rightarrow> bool" where
  "counter Q \<longleftrightarrow> uxItemSize Q = 0 \<and> waiting Q \<le> cap Q"

definition intact :: "Queue \<Rightarrow> bool" where
  "intact Q \<longleftrightarrow> (ring Q (read_slot Q) \<or> counter Q) \<and> cRxLock Q = queueUNLOCKED \<and> cTxLock Q = queueUNLOCKED"

definition holder_known :: "os \<Rightarrow> Queue \<Rightarrow> bool" where
  "holder_known s Q \<longleftrightarrow> (uxQueueType Q = queueQUEUE_IS_MUTEX \<longrightarrow> xMutexHolder Q = 0 \<or> is_task s (xMutexHolder Q))"

definition queue_ok :: "os \<Rightarrow> Queue \<Rightarrow> bool" where
  "queue_ok s Q \<longleftrightarrow> intact Q \<and> holder_known s Q"

definition running_free :: "os \<Rightarrow> bool" where
  "running_free s \<longleftrightarrow> (\<forall>t. is_task s t \<longrightarrow> ready s t \<longrightarrow> home s (EventListItem t) = None)"

definition no_strays :: "os \<Rightarrow> bool" where
  "no_strays s \<longleftrightarrow>
     (\<forall>t. \<not> is_task s t \<longrightarrow> home s (StateListItem t) = None \<and> home s (EventListItem t) = None)"

definition caught_up :: "os \<Rightarrow> bool" where
  "caught_up s \<longleftrightarrow> (uxSchedulerSuspended s = 0 \<longrightarrow> uxPendedTicks s = 0 \<and> pending s = {})"

definition kernel_alive :: "os_config \<Rightarrow> u32 \<Rightarrow> os \<Rightarrow> bool" where
  "kernel_alive cfg idle s \<longleftrightarrow> kernel_inv cfg s \<and> is_task s idle \<and> ready s idle
     \<and> uxCurrentNumberOfTasks s > 0 \<and> running_free s \<and> no_strays s \<and> caught_up s
     \<and> (\<forall>q Q. queues s q = Some Q \<longrightarrow> queue_ok s Q)"

lemma queue_ok_mono: "queue_ok s Q \<Longrightarrow> (\<And>t. is_task s t \<Longrightarrow> is_task s' t) \<Longrightarrow> queue_ok s' Q"
  by (auto simp: queue_ok_def holder_known_def)

lemma ring_not_mutex: "ring Q r \<Longrightarrow> uxQueueType Q \<noteq> queueQUEUE_IS_MUTEX"
  by (auto simp: ring_def storage_ok_def queueQUEUE_IS_MUTEX_def)

lemma aliveD:
  assumes "kernel_alive cfg idle s"
  shows "kernel_inv cfg s" and "is_task s idle" and "ready s idle" and "uxCurrentNumberOfTasks s > 0"
    and "is_task s t \<Longrightarrow> ready s t \<Longrightarrow> home s (EventListItem t) = None"
    and "\<not> is_task s t \<Longrightarrow> home s (StateListItem t) = None \<and> home s (EventListItem t) = None"
    and "uxSchedulerSuspended s = 0 \<Longrightarrow> uxPendedTicks s = 0 \<and> pending s = {}"
    and "queues s q = Some Q \<Longrightarrow> queue_ok s Q"
  using assms by (auto simp: kernel_alive_def running_free_def no_strays_def caught_up_def)

lemma alive_unsuspended: "kernel_alive cfg idle s \<Longrightarrow> uxSchedulerSuspended s = 0 \<Longrightarrow> unsuspended s"
  using aliveD(4,7) by (simp add: unsuspended_def)

lemma alive_some_ready: "kernel_alive cfg idle s \<Longrightarrow> some_ready cfg s"
  using some_ready_iff[OF invD(1)[OF aliveD(1)]] aliveD(2,3) by (fastforce simp: ready_iff)

lemma alive_current: "kernel_alive cfg idle s \<Longrightarrow> on_cpu s \<Longrightarrow> home s (EventListItem (pxCurrentTCB s)) = None"
  by (auto simp: on_cpu_def intro: aliveD(5) current_task[OF aliveD(1)])

text \<open>
  The frame of a step: the idle task stays ready, a task that is ready afterwards waits for nothing, and
  nothing that is not a task has got into a list.
\<close>

lemma alive_step:
  assumes a: "kernel_alive cfg idle s" and k: "kernel_inv cfg s'" and i: "is_task s' idle" "ready s' idle"
    and f: "\<And>t. is_task s' t \<Longrightarrow> ready s' t \<Longrightarrow>
       home s' (EventListItem t) = None \<or> is_task s t \<and> ready s t \<and> home s' (EventListItem t) = home s (EventListItem t)"
    and n: "\<And>t. \<not> is_task s' t \<Longrightarrow> \<not> is_task s t \<and> home s' (StateListItem t) = home s (StateListItem t)
       \<and> home s' (EventListItem t) = home s (EventListItem t)"
    and q: "\<And>q Q. queues s' q = Some Q \<Longrightarrow> queues s q = Some Q \<or> queue_ok s' Q"
    and c: "uxCurrentNumberOfTasks s' > 0" and u: "caught_up s'"
  shows "kernel_alive cfg idle s'"
proof -
  have "running_free s'" using f aliveD(5)[OF a] by (fastforce simp: running_free_def)
  moreover have "no_strays s'" using n aliveD(6)[OF a] by (fastforce simp: no_strays_def)
  moreover have "\<forall>q Q. queues s' q = Some Q \<longrightarrow> queue_ok s' Q"
    using q n queue_ok_mono[OF aliveD(8)[OF a], of _ _ s'] by blast
  ultimately show ?thesis using k i c u by (simp add: kernel_alive_def)
qed

text \<open>Steps that wake tasks, steps that move nothing, and the step that puts the caller to sleep.\<close>

lemma alive_woken:
  assumes a: "kernel_alive cfg idle s" and k: "kernel_inv cfg s'" and w: "woken W s (klists s')"
    and W: "\<And>t. t \<in> W \<Longrightarrow> is_task s t" and t: "is_task s' = is_task s"
    and q: "\<And>q Q. queues s' q = Some Q \<Longrightarrow> queues s q = Some Q \<or> queue_ok s' Q"
    and c: "uxCurrentNumberOfTasks s' = uxCurrentNumberOfTasks s"
    and u: "uxSchedulerSuspended s' = 0 \<Longrightarrow> uxPendedTicks s' = 0 \<and> (pending s' = {} \<or> pending s = {})"
  shows "kernel_alive cfg idle s'"
proof (rule alive_step[OF a k])
  have r: "ready s' x \<longleftrightarrow> x \<in> W \<or> ready s x" for x by (simp add: ready_iff wokenD(1)[OF w])
  show "is_task s' idle" "ready s' idle" using aliveD(2,3)[OF a] by (simp_all add: t r)
  show "caught_up s'" using u by (auto simp: caught_up_def pending_def t wokenD(2)[OF w] split: if_splits)
  show "uxCurrentNumberOfTasks s' > 0" using aliveD(4)[OF a] c by simp
qed (use W q in \<open>auto simp: t ready_iff wokenD[OF w] split: if_splits\<close>)

lemma alive_unmoved:
  assumes a: "kernel_alive cfg idle s" and k: "kernel_inv cfg s'"
    and h: "\<And>i. home s' i = home s i" and t: "is_task s' = is_task s"
    and q: "\<And>q Q. queues s' q = Some Q \<Longrightarrow> queues s q = Some Q \<or> queue_ok s' Q"
    and c: "uxCurrentNumberOfTasks s' = uxCurrentNumberOfTasks s"
    and u: "uxSchedulerSuspended s' = 0 \<Longrightarrow> uxPendedTicks s' = 0 \<and> pending s = {}"
  shows "kernel_alive cfg idle s'"
proof (rule alive_step[OF a k])
  show "is_task s' idle" "ready s' idle" using aliveD(2,3)[OF a] by (simp_all add: t ready_iff h)
  show "caught_up s'" using u by (auto simp: caught_up_def pending_def t h)
  show "uxCurrentNumberOfTasks s' > 0" using aliveD(4)[OF a] c by simp
qed (use q in \<open>auto simp: t h ready_iff\<close>)

lemma alive_asleep_lent:
  assumes a: "kernel_alive cfg idle s" and k: "kernel_inv cfg s'" and u: "unsuspended s'"
    and o: "pxCurrentTCB s \<noteq> idle" and d: "\<not> ready s' (pxCurrentTCB s)"
    and h: "\<And>t. t \<noteq> pxCurrentTCB s \<Longrightarrow> ready s' t = ready s t \<and> home s' (EventListItem t) = home s (EventListItem t)"
    and n: "\<And>t. \<not> is_task s t \<Longrightarrow> home s' (StateListItem t) = home s (StateListItem t)"
    and t: "is_task s' = is_task s" and q: "queues s' = queues s"
  shows "kernel_alive cfg idle s'"
proof (rule alive_step[OF a k])
  have c: "is_task s (pxCurrentTCB s)" by (rule current_task[OF aliveD(1)[OF a]])
  show "is_task s' idle" "ready s' idle" using aliveD(2,3)[OF a] h[OF o[symmetric]] by (simp_all add: t)
  show "home s' (EventListItem x) = None \<or> is_task s x \<and> ready s x \<and> home s' (EventListItem x) = home s (EventListItem x)"
    if "is_task s' x" "ready s' x" for x
  proof -
    have "x \<noteq> pxCurrentTCB s" using that d by blast
    then show ?thesis using that h by (simp add: t)
  qed
  show "\<not> is_task s x \<and> home s' (StateListItem x) = home s (StateListItem x)
       \<and> home s' (EventListItem x) = home s (EventListItem x)" if "\<not> is_task s' x" for x
    using that c h[of x] n[of x] by (auto simp: t)
qed (use u q in \<open>auto simp: unsuspended_def caught_up_def\<close>)

lemma alive_asleep:
  assumes "kernel_alive cfg idle s" and "kernel_inv cfg s'" and "unsuspended s'"
    and "pxCurrentTCB s \<noteq> idle" and "\<not> ready s' (pxCurrentTCB s)"
    and h: "\<And>t. t \<noteq> pxCurrentTCB s \<Longrightarrow> home s' (StateListItem t) = home s (StateListItem t)
       \<and> home s' (EventListItem t) = home s (EventListItem t)"
    and "is_task s' = is_task s" and "queues s' = queues s"
  shows "kernel_alive cfg idle s'"
proof (rule alive_asleep_lent[OF assms(1-5)])
  show "home s' (StateListItem t) = home s (StateListItem t)" if "\<not> is_task s t" for t
    using h[of t] that current_task[OF aliveD(1)[OF assms(1)]] by blast
qed (use assms in \<open>auto simp: ready_iff\<close>)

section \<open>Interrupts\<close>

lemma waking_tasks: "t \<in> waking s \<Longrightarrow> is_task s t"
  by (simp add: waking_def)

lemma alive_tick:
  assumes a: "kernel_alive cfg idle s"
  shows "\<exists>s'. xPortSysTickHandle cfg s = Some s' \<and> kernel_alive cfg idle s'"
proof (cases "uxSchedulerSuspended s = 0")
  case True
  obtain s' where s': "xPortSysTickHandle cfg s = Some s'" "kernel_inv cfg s'" "uxSchedulerSuspended s' = 0"
    "is_task s' = is_task s" "woken (waking s) s (klists s')"
    and f: "queues s' = queues s \<and> uxPendedTicks s' = uxPendedTicks s
      \<and> uxCurrentNumberOfTasks s' = uxCurrentNumberOfTasks s"
    by (rule sys_tick_spec[OF aliveD(1)[OF a] True alive_some_ready[OF a]]) (rule that; assumption)
  have "kernel_alive cfg idle s'"
    by (rule alive_woken[OF a s'(2,5) waking_tasks s'(4)]) (use f aliveD(7)[OF a True] in auto)
  then show ?thesis using s'(1) by blast
next
  case False
  let ?s = "s\<lparr>uxPendedTicks := uxPendedTicks s + 1\<rparr>"
  let ?s' = "if xYieldPending s then ?s\<lparr>xYieldPending := True\<rparr> else ?s"
  have "xPortSysTickHandle cfg s = Some ?s'"
    using False by (simp add: xPortSysTickHandle_def increment_tick_suspended vTaskSwitchContext_def)
  moreover have "kernel_alive cfg idle ?s'"
    by (rule alive_unmoved[OF a]) (use False in \<open>auto simp: is_task_def split: if_splits intro: inv_cong[OF aliveD(1)[OF a]]\<close>)
  ultimately show ?thesis by blast
qed

lemma alive_switch:
  assumes a: "kernel_alive cfg idle s"
  shows "\<exists>s'. vTaskSwitchContext s = Some s' \<and> kernel_alive cfg idle s'"
proof (cases "uxSchedulerSuspended s = 0")
  case True
  obtain t p h c where "vTaskSwitchContext s = Some (s\<lparr>xYieldPending := False,
        stack_overflow_hook_calls := c, klists := h, pxCurrentTCB := t, uxTopReadyPriority := p\<rparr>)"
    "kernel_inv cfg (s\<lparr>xYieldPending := False,
        stack_overflow_hook_calls := c, klists := h, pxCurrentTCB := t, uxTopReadyPriority := p\<rparr>)"
    and n: "node_at h = node_at (klists s)"
    by (rule switch_context_spec[OF aliveD(1)[OF a] True alive_some_ready[OF a]]) blast
  then obtain s' where s': "vTaskSwitchContext s = Some s'" "kernel_inv cfg s'"
    and f: "home s' = home s" "tcbs s' = tcbs s" "queues s' = queues s" "uxPendedTicks s' = uxPendedTicks s"
      "uxCurrentNumberOfTasks s' = uxCurrentNumberOfTasks s"
    by (auto simp: fun_eq_iff)
  have "kernel_alive cfg idle s'"
    by (rule alive_unmoved[OF a s'(2)]) (use f aliveD(7)[OF a True] in \<open>auto simp: is_task_def fun_eq_iff\<close>)
  then show ?thesis using s'(1) by blast
next
  case False
  have "vTaskSwitchContext s = Some (s\<lparr>xYieldPending := True\<rparr>)" using False by (simp add: vTaskSwitchContext_def)
  moreover have "kernel_alive cfg idle (s\<lparr>xYieldPending := True\<rparr>)"
    by (rule alive_unmoved[OF a]) (use False in \<open>auto simp: is_task_def intro: inv_cong[OF aliveD(1)[OF a]]\<close>)
  ultimately show ?thesis by blast
qed

text \<open>After a switch with the scheduler running no ready task has a higher priority than the current one.\<close>

definition runs_highest :: "os \<Rightarrow> bool" where
  "runs_highest s \<longleftrightarrow> is_task s (pxCurrentTCB s) \<and> on_cpu s
     \<and> (\<forall>t. is_task s t \<longrightarrow> ready s t \<longrightarrow> priority_of s t \<le> priority_of s (pxCurrentTCB s))"

lemma switch_runs_highest:
  assumes a: "kernel_alive cfg idle s" and run: "uxSchedulerSuspended s = 0"
    and s': "vTaskSwitchContext s = Some s'"
  shows "runs_highest s' \<and> uxSchedulerSuspended s' = 0 \<and> tcbs s' = tcbs s \<and> home s' = home s
    \<and> xTickCount s' = xTickCount s \<and> xSchedulerRunning s' = xSchedulerRunning s
    \<and> xIdleTaskHandle s' = xIdleTaskHandle s"
proof -
  note k = aliveD(1)[OF a]
  obtain t p h c where sw: "vTaskSwitchContext s = Some (s\<lparr>xYieldPending := False,
        stack_overflow_hook_calls := c, klists := h, pxCurrentTCB := t, uxTopReadyPriority := p\<rparr>)"
    and t: "is_task s t" "home s (StateListItem t) = Some (ReadyTasksList p)"
    and hi: "\<And>q. q < configMAX_PRIORITIES \<Longrightarrow> items s (ReadyTasksList q) \<noteq> [] \<Longrightarrow> q \<le> p"
    and n: "node_at h = node_at (klists s)"
    by (rule switch_context_spec[OF k run alive_some_ready[OF a]]) blast
  have e: "tcbs s' = tcbs s" "home s' = home s" "pxCurrentTCB s' = t" "uxSchedulerSuspended s' = 0"
    "xTickCount s' = xTickCount s" "xSchedulerRunning s' = xSchedulerRunning s" "xIdleTaskHandle s' = xIdleTaskHandle s"
    using s' sw n run by (auto simp: fun_eq_iff)
  have v: "is_task s' = is_task s" "priority_of s' = priority_of s" "ready s' = ready s"
    using e(1,2) by (simp_all add: is_task_def priority_of_def ready_def fun_eq_iff)
  have "priority_of s u \<le> p" if u: "is_task s u" "ready s u" for u
  proof -
    obtain q where q: "home s (StateListItem u) = Some (ReadyTasksList q)" using u(2) by (auto simp: ready_iff)
    then have pq: "priority_of s u = q" by (rule core_ready(2)[OF invD(1)[OF k] u(1)])
    then have "q < configMAX_PRIORITIES" using coreD(2)[OF invD(1)[OF k]] u(1) by (auto simp: tasks_ok_def)
    moreover from this have "items s (ReadyTasksList q) \<noteq> []"
      using member_home[OF invD(1)[OF k], of "ReadyTasksList q" "StateListItem u"] q by auto
    ultimately show ?thesis using hi pq by simp
  qed
  moreover have "priority_of s t = p" by (rule core_ready(2)[OF invD(1)[OF k] t])
  ultimately show ?thesis using e t by (simp add: runs_highest_def on_cpu_def v) (auto simp: ready_iff)
qed

text \<open>Flags, memory and the heap log are not part of the invariant.\<close>

lemma alive_flags:
  assumes "kernel_alive cfg idle s"
  shows "kernel_alive cfg idle (s\<lparr>PENDING_SOFT_SV := b\<rparr>)"
    and "kernel_alive cfg idle (s\<lparr>PENDING_SOFT_SV := b, soft_interrupt := c\<rparr>)"
    and "kernel_alive cfg idle (s\<lparr>heap_log := g\<rparr>)" and "kernel_alive cfg idle (s\<lparr>uxCriticalNesting := n\<rparr>)"
  using assms
  by (auto simp: kernel_alive_def queue_ok_def holder_known_def running_free_def no_strays_def caught_up_def pending_def ready_iff is_task_def
      intro: inv_cong)

lemma alive_soft_interrupt:
  assumes a: "kernel_alive cfg idle s" and m: "\<not> PENDING_MACLAYER_SV s"
  shows "\<exists>s'. SV_ISR (\<lambda>x. (False, x)) s = Some s' \<and> kernel_alive cfg idle s'"
proof (cases "PENDING_SOFT_SV s")
  case True
  obtain s1 where s1: "vTaskSwitchContext s = Some s1" "kernel_alive cfg idle s1" using alive_switch[OF a] by blast
  then show ?thesis using m True alive_flags(1)[OF s1(2), of False] by (simp add: SV_ISR_def Let_def)
qed (use a m in \<open>simp add: SV_ISR_def Let_def\<close>)

section \<open>Calls of the running task\<close>

lemma delayed_not_ready: "delayed s t \<Longrightarrow> \<not> ready s t"
  by (auto simp: delayed_def ready_iff)

lemma alive_delay:
  assumes a: "kernel_alive cfg idle s" and m: "may_block idle s"
  shows "\<exists>s'. vTaskDelay cfg n s = Some s' \<and> kernel_alive cfg idle s'"
proof (cases "n = 0")
  case True
  then show ?thesis using alive_flags(2)[OF a] by (simp add: vTaskDelay_def)
next
  case False
  have u: "unsuspended s" using alive_unsuspended[OF a] m by (simp add: may_block_def)
  obtain s' where s': "vTaskDelay cfg n s = Some s'" "kernel_inv cfg s'" "unsuspended s'"
    "delayed s' (pxCurrentTCB s)"
    and h: "\<forall>t. t \<noteq> pxCurrentTCB s \<longrightarrow> home s' (StateListItem t) = home s (StateListItem t)"
      "\<forall>t. home s' (EventListItem t) = home s (EventListItem t)" and q: "is_task s' = is_task s \<and> queues s' = queues s"
    by (rule delay_spec[OF aliveD(1)[OF a] u False]) blast
  have "kernel_alive cfg idle s'"
    by (rule alive_asleep[OF a s'(2,3) _ delayed_not_ready[OF s'(4)]]) (use m h q in \<open>auto simp: may_block_def\<close>)
  then show ?thesis using s'(1) by blast
qed

lemma alive_delay_until:
  assumes a: "kernel_alive cfg idle s" and m: "may_block idle s"
  shows "\<exists>w s'. vTaskDelayUntil cfg p i s = Some (w, s') \<and> kernel_alive cfg idle s'"
proof -
  have u: "unsuspended s" using alive_unsuspended[OF a] m by (simp add: may_block_def)
  obtain s' where s': "vTaskDelayUntil cfg p i s = Some (p + i, s')" "kernel_inv cfg s'" "unsuspended s'"
    and d: "xTickCount s - p < i \<longrightarrow> delayed s' (pxCurrentTCB s)"
      "\<not> xTickCount s - p < i \<longrightarrow> home s' (StateListItem (pxCurrentTCB s)) = home s (StateListItem (pxCurrentTCB s))"
    and h: "\<forall>t. t \<noteq> pxCurrentTCB s \<longrightarrow> home s' (StateListItem t) = home s (StateListItem t)"
      "\<forall>t. home s' (EventListItem t) = home s (EventListItem t)" and q: "is_task s' = is_task s \<and> queues s' = queues s"
    by (rule delay_until_spec[OF aliveD(1)[OF a] u, of p i]) blast
  have "kernel_alive cfg idle s'"
  proof (cases "xTickCount s - p < i")
    case True
    then have nr: "\<not> ready s' (pxCurrentTCB s)" using d(1) delayed_not_ready by blast
    show ?thesis by (rule alive_asleep[OF a s'(2,3) _ nr]) (use m h q in \<open>auto simp: may_block_def\<close>)
  next
    case False
    have hs: "home s' i = home s i" for i using d(2) False h by (cases i) metis+
    show ?thesis
      by (rule alive_step[OF a s'(2)])
        (use hs q aliveD(2,3)[OF a] s'(3) in \<open>auto simp: ready_iff unsuspended_def caught_up_def\<close>)
  qed
  then show ?thesis using s'(1) by blast
qed

lemma alive_suspend:
  assumes a: "kernel_alive cfg idle s" and m: "uxSchedulerSuspended s + 1 \<noteq> 0"
  shows "kernel_alive cfg idle (vTaskSuspendAll s)"
  by (rule alive_unmoved[OF a suspend_all_frame(1)[OF aliveD(1)[OF a]]])
    (use m in \<open>auto simp: vTaskSuspendAll_def is_task_def\<close>)

lemma resume_woken_tasks: "t \<in> resume_woken s \<Longrightarrow> is_task s t"
  by (auto simp: resume_woken_def pending_def delayed_def)

lemma alive_resume:
  assumes a: "kernel_alive cfg idle s" and m: "uxSchedulerSuspended s \<noteq> 0"
  shows "\<exists>y s'. xTaskResumeAll cfg s = Some (y, s') \<and> kernel_alive cfg idle s'"
proof (cases "uxSchedulerSuspended s = 1")
  case True
  obtain y s' where s': "xTaskResumeAll cfg s = Some (y, s')" "kernel_inv cfg s'" "same_tasks s s'"
    "woken (resume_woken s) s (klists s')" and p: "pending s' = {}" "uxPendedTicks s' = 0"
    and c: "uxCurrentNumberOfTasks s' = uxCurrentNumberOfTasks s"
    by (rule resume_all_spec[OF aliveD(1)[OF a] True aliveD(4)[OF a]]) (rule that; assumption)
  have "kernel_alive cfg idle s'"
    by (rule alive_woken[OF a s'(2,4) resume_woken_tasks])
      (use same_tasksD[OF s'(3)] p c in auto)
  then show ?thesis using s'(1) by blast
next
  case False
  have "uxSchedulerSuspended s - 1 \<noteq> 0" using False by simp
  then have "kernel_alive cfg idle (s\<lparr>uxSchedulerSuspended := uxSchedulerSuspended s - 1\<rparr>)"
    by (intro alive_unmoved[OF a]) (auto simp: is_task_def intro: inv_cong[OF aliveD(1)[OF a]])
  then show ?thesis using resume_all_nested[OF False] by blast
qed

lemma alive_create:
  assumes a: "kernel_alive cfg idle s" and m: "uxCurrentNumberOfTasks s + 1 \<noteq> 0" "new_task_block E d s"
  shows "\<exists>h s'. xTaskCreate (env_port E) cfg (env_malloc E) (env_tcb E) code name d par pri s = Some (h, s')
    \<and> kernel_alive cfg idle s'"
proof (cases "stack_block (env_malloc E) d s = 0")
  case True
  then show ?thesis using create_no_stack alive_flags(3)[OF a] by blast
next
  case stack: False
  let ?t = "tcb_block (env_port E) (env_malloc E) d s"
  show ?thesis
  proof (cases "?t = 0")
    case True
    then show ?thesis using create_no_tcb[OF stack] alive_flags(3)[OF a]
      by (fastforce simp: after_blocks_def)
  next
    case False
    have nt: "\<not> is_task s ?t" using m(2) stack False by (simp add: new_task_block_def Let_def is_task_def)
    obtain s' where s': "xTaskCreate (env_port E) cfg (env_malloc E) (env_tcb E) code name d par pri s = Some (Some ?t, s')"
      "kernel_inv cfg s'" "is_task s' ?t" and o: "\<forall>u. u \<noteq> ?t \<longrightarrow> tcbs s' u = tcbs s u"
      and c: "uxCurrentNumberOfTasks s' = uxCurrentNumberOfTasks s + 1"
      and r: "same_rest (after_blocks (env_port E) (env_malloc E) d s) s'"
      and h: "\<forall>i. home s' i = (if i = StateListItem ?t then Some (ReadyTasksList (clamp_priority pri))
         else if i = EventListItem ?t then None else home s i)"
      by (rule create_spec[OF aliveD(1)[OF a] stack refl False nt]) blast
    have t: "is_task s' u \<longleftrightarrow> u = ?t \<or> is_task s u" for u using s'(3) o by (cases "u = ?t") (auto simp: is_task_def)
    have ni: "idle \<noteq> ?t" using nt aliveD(2)[OF a] by blast
    have f: "uxSchedulerSuspended s' = uxSchedulerSuspended s" "uxPendedTicks s' = uxPendedTicks s" "queues s' = queues s"
      using r by (simp_all add: same_rest_def after_blocks_def)
    have "kernel_alive cfg idle s'"
    proof (rule alive_step[OF a s'(2)])
      show "is_task s' idle" "ready s' idle" using aliveD(2,3)[OF a] ni by (simp_all add: t ready_iff h)
      show "caught_up s'" using aliveD(7)[OF a] by (auto simp: caught_up_def f pending_def t h)
      show "uxCurrentNumberOfTasks s' > 0" using m(1) by (simp add: c word_gt_0)
    qed (auto simp: t h f ready_iff split: if_splits)
    then show ?thesis using s'(1) by blast
  qed
qed

section \<open>Queues\<close>

lemma alive_unused: "kernel_alive cfg idle s \<Longrightarrow> queues s q = None \<Longrightarrow> unused_handle s q"
proof -
  assume a: "kernel_alive cfg idle s" and q: "queues s q = None"
  have "home s i \<noteq> Some (WaitingToSend q)" "home s i \<noteq> Some (WaitingToReceive q)" for i
  proof -
    obtain t where i: "i = StateListItem t \<or> i = EventListItem t" by (cases i) auto
    have "l \<in> live cfg s" if "home s i = Some l" for l
    proof (cases "is_task s t")
      case True
      then show ?thesis using coreD(3)[OF invD(1)[OF aliveD(1)[OF a]]] that i by (auto simp: placed_def)
    next
      case False
      then show ?thesis using aliveD(6)[OF a False] i that by auto
    qed
    then show "home s i \<noteq> Some (WaitingToSend q)" "home s i \<noteq> Some (WaitingToReceive q)"
      using queue_lists_not_live[OF q] by blast+
  qed
  then show ?thesis using q by (simp add: unused_handle_def)
qed

lemma alive_create_queue:
  assumes a: "kernel_alive cfg idle s" and z: "n \<noteq> 0" and m: "new_queue_block E n z s"
  shows "\<exists>q s'. xQueueGenericCreate cfg (env_malloc E) (env_queue E) n z s = Some (q, s') \<and> kernel_alive cfg idle s'
    \<and> (q \<noteq> 0 \<longrightarrow> queues s' q = Some (new_queue q n z (env_queue E)))"
proof -
  let ?q = "env_malloc E (queue_bytes n z) s"
  show ?thesis
  proof (cases "?q = 0")
    case True
    then have "xQueueGenericCreate cfg (env_malloc E) (env_queue E) n z s
        = Some (0, s\<lparr>heap_log := heap_log s @ [HeapAlloc (queue_bytes n z) 0]\<rparr>)"
      by (simp add: xQueueGenericCreate_def pvPortMalloc_def Let_def queue_bytes_def)
    then show ?thesis using alive_flags(3)[OF a] by blast
  next
    case False
    then have q: "queues s ?q = None" "block_fits ?q n z" using m by (simp_all add: new_queue_block_def Let_def)
    let ?s = "new_queue_state ?q n z (env_queue E) s"
    have i: "queue_ok x (new_queue ?q n z (env_queue E))" for x
    proof (cases "z = 0")
      case True
      then show ?thesis using False
        by (simp add: queue_ok_def intact_def counter_def holder_known_def new_queue_def Let_def queueQUEUE_IS_MUTEX_def)
    next
      case nz: False
      note r = new_queue_ring[OF q(2) z nz, of "env_queue E"]
      have "intact (new_queue ?q n z (env_queue E))"
        using r(1) read_slot_eq[OF r(1)] by (simp add: intact_def) (simp add: new_queue_def Let_def)
      then show ?thesis using ring_not_mutex[OF r(1)] by (simp add: queue_ok_def holder_known_def)
    qed
    have "kernel_alive cfg idle ?s"
    proof (rule alive_unmoved[OF a new_queue_inv(1)[OF aliveD(1)[OF a] alive_unused[OF a q(1)]]])
      show "home ?s i = home s i" for i by (simp add: new_queue_state_def new_lists_def vListInitialise_frame)
    qed (use i aliveD(7)[OF a] in \<open>auto simp: new_queue_state_def is_task_def split: if_splits\<close>)
    moreover have "queues ?s ?q = Some (new_queue ?q n z (env_queue E))" by (simp add: new_queue_state_def)
    ultimately show ?thesis using queue_create_eq[where malloc = "env_malloc E", OF refl False] by blast
  qed
qed

end
