(* ===== verification/Os_Kernel_Sync.thy ===== *)
theory Os_Kernel_Sync
  imports Os_Kernel_Alive
begin

text \<open>
  Queues, semaphores and mutexes in a live kernel: sending and receiving by tasks and by interrupts, taking
  and giving with priority inheritance. Each call returns and keeps \<open>kernel_alive\<close>.
\<close>

section \<open>Parts of the calls\<close>

definition call_frame :: "os \<Rightarrow> os \<Rightarrow> bool" where
  "call_frame s s' \<longleftrightarrow> pxCurrentTCB s' = pxCurrentTCB s \<and> uxSchedulerSuspended s' = uxSchedulerSuspended s
     \<and> dom (queues s') = dom (queues s)"

lemma call_frame_trans: "call_frame s s1 \<Longrightarrow> call_frame s1 s2 \<Longrightarrow> call_frame s s2"
  by (simp add: call_frame_def)

lemma alive_put:
  assumes a: "kernel_alive cfg idle s" and Q: "queues s q = Some Q0" "queue_ok s Q"
  shows "kernel_alive cfg idle (put_queue q Q m s)"
proof (rule alive_unmoved[OF a put_queue_inv[OF aliveD(1)[OF a] Q(1)]])
  have t: "is_task (put_queue q Q m s) = is_task s" by (simp add: is_task_def fun_eq_iff)
  then show "is_task (put_queue q Q m s) = is_task s" .
  have "queue_ok (put_queue q Q m s) Q" by (rule queue_ok_mono[OF Q(2)]) (simp add: t)
  then show "queues s q' = Some Q' \<or> queue_ok (put_queue q Q m s) Q'" if "queues (put_queue q Q m s) q' = Some Q'" for q' Q'
    using that by (cases "q' = q") (auto simp: put_queue_sel)
qed (use aliveD(7)[OF a] in \<open>auto simp: put_queue_def\<close>)

lemma alive_reprioritised:
  assumes a: "kernel_alive cfg idle s" and t: "is_task s t" and r: "reprioritised cfg t c s s'"
  shows "kernel_alive cfg idle s'" and "is_task s' = is_task s" and "ready s' u \<longleftrightarrow> ready s u" and "call_frame s s'"
    and "queues s' = queues s"
proof -
  note d = reprioritisedD[OF r]
  show tk: "is_task s' = is_task s" using d(2) t by (auto simp: is_task_def fun_eq_iff)
  show r': "ready s' u \<longleftrightarrow> ready s u" for u using d(4)[of "StateListItem u"] by (auto simp: ready_iff)
  have e: "home s' (EventListItem u) = home s (EventListItem u)" for u using d(4)[of "EventListItem u"] by simp
  have f: "queues s' = queues s" "pxCurrentTCB s' = pxCurrentTCB s" "uxSchedulerSuspended s' = uxSchedulerSuspended s"
    "uxPendedTicks s' = uxPendedTicks s" "uxCurrentNumberOfTasks s' = uxCurrentNumberOfTasks s"
    by (subst d(3), simp)+
  show "queues s' = queues s" by (rule f(1))
  show "call_frame s s'" using f by (simp add: call_frame_def)
  show "kernel_alive cfg idle s'"
  proof (rule alive_step[OF a d(1)])
    show "is_task s' idle" "ready s' idle" using aliveD(2,3)[OF a] by (simp_all add: tk r')
    show "caught_up s'" using aliveD(7)[OF a] by (auto simp: caught_up_def f pending_def tk e)
    show "uxCurrentNumberOfTasks s' > 0" using aliveD(4)[OF a] f by simp
    show "\<not> is_task s u \<and> home s' (StateListItem u) = home s (StateListItem u)
       \<and> home s' (EventListItem u) = home s (EventListItem u)" if "\<not> is_task s' u" for u
      using that t d(4)[of "StateListItem u"] e by (auto simp: tk)
  qed (use f e r' in \<open>auto simp: tk\<close>)
qed

lemma first_waiting_task:
  assumes k: "kernel_inv cfg s" and l: "l \<in> event_lists s" "items s l \<noteq> []"
  shows "is_task s (first_waiting s l)"
proof -
  obtain i "is" where i: "items s l = i # is" using l(2) by (cases "items s l") auto
  obtain t where "is_task s t" "owner s i = t"
    by (rule event_list_items[OF invD(1)[OF k] l(1), of i]) (use i that in auto)
  then show ?thesis using i by (simp add: first_waiting_def)
qed

text \<open>An event wakes the first waiting task, or moves it to the pending list while the scheduler is suspended.\<close>

lemma alive_wake:
  assumes a: "kernel_alive cfg idle s" and l: "l \<in> event_lists s" "l \<noteq> PendingReadyList"
  shows "\<exists>b s'. wake_one cfg l s = Some (b, s') \<and> kernel_alive cfg idle s' \<and> call_frame s s' \<and> queues s' = queues s"
proof (cases "items s l = []")
  case True
  then have "wake_one cfg l s = Some (False, s)"
    using event_list_empty[OF aliveD(1)[OF a] l(1)] by (simp add: wake_one_def)
  then show ?thesis using a by (auto simp: call_frame_def)
next
  case ne: False
  note k = aliveD(1)[OF a]
  have w: "wake_one cfg l s = xTaskRemoveFromEventList cfg l s"
    using event_list_empty[OF k l(1)] ne by (simp add: wake_one_def)
  let ?t = "first_waiting s l"
  have t: "is_task s ?t" by (rule first_waiting_task[OF k l(1) ne])
  show ?thesis
  proof (cases "uxSchedulerSuspended s = 0")
    case True
    obtain b s' where s': "xTaskRemoveFromEventList cfg l s = Some (b, s')" "kernel_inv cfg s'" "same_sched s s'"
      "woken {?t} s (klists s')"
      by (rule remove_from_event_list_running[OF k l(1) ne True])
    note g = same_schedD[OF s'(3)]
    have "kernel_alive cfg idle s'"
      by (rule alive_woken[OF a s'(2,4)]) (use t g aliveD(7)[OF a True] in auto)
    then show ?thesis using w s'(1) g by (auto simp: call_frame_def)
  next
    case False
    obtain b s' where s': "xTaskRemoveFromEventList cfg l s = Some (b, s')" "kernel_inv cfg s'" "same_sched s s'"
      "home s (EventListItem ?t) = Some l" "rehomed s s' (EventListItem ?t) (Some PendingReadyList)"
      by (rule remove_from_event_list_suspended[OF k l(1) ne False])
    note g = same_schedD[OF s'(3)]
    have h: "home s' j = (if j = EventListItem ?t then Some PendingReadyList else home s j)" for j
      using s'(5) by (simp add: rehomed_def)
    have nr: "\<not> ready s ?t" using aliveD(5)[OF a t] s'(4) by auto
    have r: "ready s' u \<longleftrightarrow> ready s u" for u by (simp add: ready_iff h)
    have "kernel_alive cfg idle s'"
    proof (rule alive_step[OF a s'(2)])
      show "is_task s' idle" "ready s' idle" using aliveD(2,3)[OF a] by (simp_all add: g r)
      show "caught_up s'" using False by (simp add: caught_up_def g)
      show "uxCurrentNumberOfTasks s' > 0" using aliveD(4)[OF a] by (simp add: g)
      show "home s' (EventListItem u) = None \<or> is_task s u \<and> ready s u \<and> home s' (EventListItem u) = home s (EventListItem u)"
        if "is_task s' u" "ready s' u" for u using that nr by (auto simp: g r h)
    qed (use t in \<open>auto simp: g h\<close>)
    then show ?thesis using w s'(1) g by (auto simp: call_frame_def)
  qed
qed

lemma alive_wake_and_yield:
  assumes a: "kernel_alive cfg idle s" and l: "l \<in> event_lists s" "l \<noteq> PendingReadyList"
  shows "\<exists>s'. wake_one_and_yield cfg l s = Some s' \<and> kernel_alive cfg idle s' \<and> call_frame s s' \<and> queues s' = queues s"
proof -
  obtain b s' where s': "wake_one cfg l s = Some (b, s')" "kernel_alive cfg idle s'" "call_frame s s'" "queues s' = queues s"
    using alive_wake[OF a l] by blast
  have "kernel_alive cfg idle (if b then portYIELD s' else s')" "call_frame s (if b then portYIELD s' else s')"
    "queues (if b then portYIELD s' else s') = queues s"
    using s'(2-4) alive_flags(2)[OF s'(2)] by (simp_all add: call_frame_def)
  then show ?thesis using s'(1) by (simp add: wake_one_and_yield_def)
qed

lemma alive_critical:
  "kernel_alive cfg idle s \<Longrightarrow> kernel_alive cfg idle (vPortEnterCritical s)"
  "kernel_alive cfg idle s \<Longrightarrow> kernel_alive cfg idle (vPortExitCritical s)"
  using alive_flags(4) by (auto simp: vPortEnterCritical_def vPortExitCritical_def)

lemma critical_frame [simp]:
  "call_frame s (vPortEnterCritical s') \<longleftrightarrow> call_frame s s'" "call_frame s (vPortExitCritical s') \<longleftrightarrow> call_frame s s'"
  "call_frame (vPortEnterCritical s) s' \<longleftrightarrow> call_frame s s'"
  by (auto simp: call_frame_def vPortEnterCritical_def vPortExitCritical_def)

section \<open>Giving and sending\<close>

text \<open>A mutex that is taken is given by its holder, which is running.\<close>

definition may_give :: "os \<Rightarrow> Queue \<Rightarrow> bool" where
  "may_give s Q \<longleftrightarrow> (uxQueueType Q = queueQUEUE_IS_MUTEX \<longrightarrow> uxMessagesWaiting Q < uxLength Q \<longrightarrow>
     xMutexHolder Q = 0 \<or> xMutexHolder Q = pxCurrentTCB s \<and> on_cpu s)"

lemma one_more: "uxMessagesWaiting Q < uxLength Q \<Longrightarrow> unat (uxMessagesWaiting Q + 1) \<le> cap Q"
  using inc_le by (auto simp: word_le_nat_alt)

lemma alive_count_up:
  assumes a: "kernel_alive cfg idle s" and Q: "queues s q = Some Q" "counter Q" and room: "uxMessagesWaiting Q < uxLength Q"
    and w: "uxQueueType Q = queueQUEUE_IS_MUTEX \<longrightarrow> w = 0 \<or> is_task s w"
  shows "kernel_alive cfg idle (put_queue q (Q\<lparr>u_word0 := w, uxMessagesWaiting := uxMessagesWaiting Q + 1\<rparr>) m s)"
  using aliveD(8)[OF a Q(1)] Q(2) one_more[OF room] w
  by (intro alive_put[OF a Q(1)]) (auto simp: queue_ok_def intact_def counter_def holder_known_def)

lemma alive_copy:
  assumes a: "kernel_alive cfg idle s" and Q: "queues s q = Some Q" and room: "uxMessagesWaiting Q < uxLength Q"
    and pos: "pos \<noteq> queueOVERWRITE" and g: "may_give s Q"
  shows "\<exists>y s'. prvCopyDataToQueue q item pos s = Some (y, s') \<and> kernel_alive cfg idle s' \<and> call_frame s s'"
proof -
  have ok: "queue_ok s Q" by (rule aliveD(8)[OF a Q])
  have fr: "call_frame s (put_queue q Q' m s)" for Q' m using Q by (auto simp: call_frame_def put_queue_def)
  consider "ring Q (read_slot Q)" | "counter Q" "uxQueueType Q \<noteq> queueQUEUE_IS_MUTEX"
    | "counter Q" "uxQueueType Q = queueQUEUE_IS_MUTEX" using ok by (auto simp: queue_ok_def intact_def)
  then show ?thesis
  proof cases
    case 1
    have z: "uxItemSize Q \<noteq> 0" and lt: "waiting Q < cap Q"
      using 1 room by (simp_all add: ring_def storage_ok_def word_less_nat_alt)
    have unl: "cRxLock Q = queueUNLOCKED" "cTxLock Q = queueUNLOCKED" using ok by (simp_all add: queue_ok_def intact_def)
    have good: "queue_ok s Q'" if "ring Q' r" "cRxLock Q' = cRxLock Q" "cTxLock Q' = cTxLock Q" for Q' r
      using that unl read_slot_eq[OF that(1)] ring_not_mutex[OF that(1)]
      by (simp add: queue_ok_def intact_def holder_known_def)
    show ?thesis
    proof (cases "pos = queueSEND_TO_BACK")
      case True
      have "queue_ok s (sent Q)" by (rule good[OF send_back_ring(1)[OF 1 lt]]) (simp_all add: sent_def Let_def)
      then show ?thesis using copy_to_back[OF Q z] alive_put[OF a Q] fr True by blast
    next
      case False
      have "queue_ok s (sent_front Q)"
        by (rule good[OF send_front_ring(1)[OF 1 lt]]) (simp_all add: sent_front_def read_back_def Let_def)
      then show ?thesis using copy_to_front[OF Q z False pos] alive_put[OF a Q] fr by blast
    qed
  next
    case 2
    then have z: "uxItemSize Q = 0" by (simp add: counter_def)
    let ?Q = "Q\<lparr>u_word0 := u_word0 Q, uxMessagesWaiting := uxMessagesWaiting Q + 1\<rparr>"
    have "prvCopyDataToQueue q item pos s = Some (False, put_queue q ?Q (mem s) s)"
      using Q z 2 by (simp add: prvCopyDataToQueue_def upd_queue_def put_queue_def)
    then show ?thesis using alive_count_up[OF a Q 2(1) room, of "u_word0 Q"] 2(2) fr by blast
  next
    case 3
    then have z: "uxItemSize Q = 0" by (simp add: counter_def)
    obtain y s1 where s1: "xTaskPriorityDisinherit (xMutexHolder Q) s = Some (y, s1)" "kernel_alive cfg idle s1"
      "call_frame s s1" "queues s1 = queues s"
    proof (cases "xMutexHolder Q = 0")
      case True
      then show ?thesis using that[of False s] a by (simp add: xTaskPriorityDisinherit_def call_frame_def)
    next
      case False
      then have h: "xMutexHolder Q = pxCurrentTCB s" "on_cpu s" using g 3(2) room by (simp_all add: may_give_def)
      have tk: "is_task s (xMutexHolder Q)" using current_task[OF aliveD(1)[OF a]] h(1) by simp
      then obtain tcb where tcb: "tcbs s (xMutexHolder Q) = Some tcb" by (auto simp: is_task_def)
      have r: "ready s (xMutexHolder Q)" using h by (simp add: on_cpu_def)
      show ?thesis
        by (rule disinherit_spec[OF aliveD(1)[OF a] tcb False r])
          (use that alive_reprioritised[OF a tk] in blast)
    qed
    let ?Q = "Q\<lparr>u_word0 := 0, uxMessagesWaiting := uxMessagesWaiting Q + 1\<rparr>"
    have q1: "queues s1 q = Some Q" using s1(4) Q by simp
    have "prvCopyDataToQueue q item pos s = Some (y, put_queue q ?Q (mem s1) s1)"
      using Q z 3(2) s1(1) q1 by (simp add: prvCopyDataToQueue_def upd_queue_def put_queue_def)
    moreover have "kernel_alive cfg idle (put_queue q ?Q (mem s1) s1)"
      by (rule alive_count_up[OF s1(2) q1 3(1) room]) simp
    moreover have "call_frame s (put_queue q ?Q (mem s1) s1)"
      using s1(3) q1 by (auto simp: call_frame_def put_queue_def)
    ultimately show ?thesis by blast
  qed
qed

lemma alive_send_now:
  assumes a: "kernel_alive cfg idle s" and Q: "queues s q = Some Q" and room: "uxMessagesWaiting Q < uxLength Q"
    and pos: "pos \<noteq> queueOVERWRITE" and g: "may_give s Q"
  shows "\<exists>s'. send_now cfg q item pos s = Some s' \<and> kernel_alive cfg idle s' \<and> call_frame s s'"
proof -
  obtain y s1 where s1: "prvCopyDataToQueue q item pos s = Some (y, s1)" "kernel_alive cfg idle s1" "call_frame s s1"
    using alive_copy[OF a Q room pos g] by blast
  have "q \<in> dom (queues s1)" using s1(3) Q by (auto simp: call_frame_def)
  then have l: "WaitingToReceive q \<in> event_lists s1" by (auto simp: event_lists_def)
  obtain s2 where s2: "wake_one_and_yield cfg (WaitingToReceive q) s1 = Some s2" "kernel_alive cfg idle s2" "call_frame s1 s2"
    using alive_wake_and_yield[OF s1(2) l] by blast
  have "kernel_alive cfg idle (if y then portYIELD s1 else s1)" "call_frame s (if y then portYIELD s1 else s1)"
    using s1(2,3) alive_flags(2)[OF s1(2)] by (simp_all add: call_frame_def)
  then show ?thesis using s1(1) s2 call_frame_trans[OF s1(3) s2(3)] by (simp add: send_now_def)
qed

lemma alive_send_room:
  assumes a: "kernel_alive cfg idle s" and Q: "queues s q = Some Q" and room: "uxMessagesWaiting Q < uxLength Q"
    and pos: "pos \<noteq> queueOVERWRITE" and g: "may_give s Q"
  shows "\<exists>s'. xQueueGenericSend cfg es q item w pos s = Some (Returned True s') \<and> kernel_alive cfg idle s' \<and> call_frame s s'"
proof -
  have "may_give (vPortEnterCritical s) Q = may_give s Q" by (simp add: may_give_def on_cpu_def ready_iff)
  then obtain s1 where s1: "send_now cfg q item pos (vPortEnterCritical s) = Some s1" "kernel_alive cfg idle s1"
    "call_frame s s1"
    using alive_send_now[OF alive_critical(1)[OF a], of q Q pos item] Q room pos g by auto
  have "xQueueGenericSend cfg es q item w pos s = Some (Returned True (vPortExitCritical s1))"
    by (rule send_pass_room[OF Q _ s1(1)]) (use room in blast)
  then show ?thesis using s1(2,3) alive_critical(2) by fastforce
qed

lemma intact_bounds: "intact Q \<Longrightarrow> waiting Q \<le> cap Q"
  by (auto simp: intact_def ring_def counter_def)

lemma full_or_room: "queue_ok s Q \<Longrightarrow> \<not> uxMessagesWaiting Q < uxLength Q \<Longrightarrow> uxMessagesWaiting Q = uxLength Q"
  using intact_bounds by (fastforce simp: queue_ok_def word_unat_eq_iff word_less_nat_alt)

text \<open>Without a block time the call returns whatever its passes are.\<close>

lemma alive_send_poll:
  assumes a: "kernel_alive cfg idle s" and q: "queues s q = Some Q" and pos: "pos \<noteq> queueOVERWRITE" and g: "may_give s Q"
  shows "\<exists>b s'. xQueueGenericSend cfg es q item 0 pos s = Some (Returned b s') \<and> kernel_alive cfg idle s' \<and> call_frame s s'"
proof (cases "uxMessagesWaiting Q < uxLength Q")
  case True
  then show ?thesis using alive_send_room[OF a q True pos g] by blast
next
  case False
  have full: "uxMessagesWaiting Q = uxLength Q" by (rule full_or_room[OF aliveD(8)[OF a q] False])
  have "send_pass cfg q item pos 0 s = Some (Some False, s)"
    using full pos q by (simp add: send_pass_def Let_def)
  then have "xQueueGenericSend cfg es q item 0 pos s = Some (Returned False s)" by (rule send_loop_returns)
  then show ?thesis using a by (auto simp: call_frame_def)
qed

lemma alive_send:
  assumes a: "kernel_alive cfg idle s" and cpu: "on_cpu s" and w: "wait_ok cfg idle w s"
    and q: "queues s q = Some Q" and pos: "pos \<noteq> queueOVERWRITE" and g: "may_give s Q"
  shows "\<exists>r. xQueueGenericSend cfg [undisturbed] q item w pos s = Some r \<and> kernel_alive cfg idle (api_state r)"
proof (cases "uxMessagesWaiting Q < uxLength Q \<or> w = 0")
  case True
  then show ?thesis
    using alive_send_room[OF a q _ pos g, of "[undisturbed]" item w] alive_send_poll[OF a q pos g, of "[undisturbed]" item]
    by fastforce
next
  case False
  have run: "uxSchedulerSuspended s = 0" using w by (simp add: wait_ok_def)
  have i: "cRxLock Q = queueUNLOCKED" "cTxLock Q = queueUNLOCKED"
    using aliveD(8)[OF a q] by (simp_all add: queue_ok_def intact_def)
  have full: "uxMessagesWaiting Q = uxLength Q" using full_or_room[OF aliveD(8)[OF a q]] False by blast
  have o: "pxCurrentTCB s \<noteq> idle" "counts_time cfg w" "w \<noteq> 0" using w False by (simp_all add: wait_ok_def)
  obtain s' where s': "xQueueGenericSend cfg [undisturbed] q item w pos s = Some (StillBlocked s')"
    "kernel_inv cfg s'" "queues s' = queues s" "delayed s' (pxCurrentTCB s)" "unsuspended s'" "is_task s' = is_task s"
    "\<forall>u. u \<noteq> pxCurrentTCB s \<longrightarrow> home s' (StateListItem u) = home s (StateListItem u)"
    "\<forall>u. home s' (EventListItem u) = (if u = pxCurrentTCB s then Some (WaitingToSend q) else home s (EventListItem u))"
    by (rule send_waits[OF aliveD(1)[OF a] alive_unsuspended[OF a run] q i full o(2,3) alive_current[OF a cpu] pos]) blast
  have "kernel_alive cfg idle s'"
    by (rule alive_asleep[OF a s'(2,5) o(1) delayed_not_ready[OF s'(4)]]) (use s' in auto)
  then show ?thesis using s'(1) by fastforce
qed

section \<open>Receiving and taking\<close>

lemma received_ok:
  assumes ok: "queue_ok s Q" and r: "ring Q (read_slot Q)" and p: "waiting Q > 0"
  shows "queue_ok s (received Q)"
proof -
  note r' = receive_ring(1)[OF r p]
  have "intact (received Q)"
    using r' ok read_slot_eq[OF r'] by (simp add: queue_ok_def intact_def) (simp add: received_def read_on_def Let_def)
  then show ?thesis using ring_not_mutex[OF r'] by (simp add: queue_ok_def holder_known_def)
qed

lemma alive_receive_now:
  assumes a: "kernel_alive cfg idle s" and Q: "queues s q = Some Q" and m: "uxMessagesWaiting Q > 0" and z: "uxItemSize Q \<noteq> 0"
  shows "\<exists>s'. xQueueReceive cfg es q buf w s = Some (Returned True s') \<and> kernel_alive cfg idle s' \<and> call_frame s s'"
proof -
  let ?e = "vPortEnterCritical s" and ?m = "memcpy_bytes buf (pcReadFrom (read_on Q)) (uxItemSize Q) (mem s)"
  have ok: "queue_ok s Q" by (rule aliveD(8)[OF a Q])
  have r: "ring Q (read_slot Q)" using ok z by (auto simp: queue_ok_def intact_def counter_def)
  have p: "waiting Q > 0" using m by (simp add: word_less_nat_alt)
  have "queue_ok s (received Q)" by (rule received_ok[OF ok r p])
  then have "queue_ok ?e (received Q)" by (rule queue_ok_mono) (simp add: is_task_def)
  then have a1: "kernel_alive cfg idle (put_queue q (received Q) ?m ?e)"
    by (intro alive_put[OF alive_critical(1)[OF a], of q Q]) (simp_all add: Q)
  have l: "WaitingToSend q \<in> event_lists (put_queue q (received Q) ?m ?e)" by (auto simp: event_lists_def)
  obtain s1 where s1: "wake_one_and_yield cfg (WaitingToSend q) (put_queue q (received Q) ?m ?e) = Some s1"
    "kernel_alive cfg idle s1" "call_frame (put_queue q (received Q) ?m ?e) s1"
    using alive_wake_and_yield[OF a1 l] by blast
  have up: "upd_queue q (\<lambda>Q'. Q'\<lparr>uxMessagesWaiting := uxMessagesWaiting Q - 1\<rparr>) (put_queue q (read_on Q) ?m ?e)
      = Some (put_queue q (received Q) ?m ?e)"
    by (simp add: upd_queue_def put_queue_def received_def)
  have pass: "receive_pass cfg q buf w s = Some (Some True, vPortExitCritical s1)"
    using m copy_from[of ?e q Q buf] Q z up s1(1) by (simp add: receive_pass_def Let_def)
  have "xQueueReceive cfg es q buf w s = Some (Returned True (vPortExitCritical s1))"
    unfolding xQueueReceive_def by (rule receive_loop_returns[where pass = "receive_pass cfg q buf", OF pass])
  moreover have "call_frame s s1" using s1(3) Q by (auto simp: call_frame_def)
  ultimately show ?thesis using alive_critical(2)[OF s1(2)] by fastforce
qed

lemma alive_receive:
  assumes a: "kernel_alive cfg idle s" and cpu: "on_cpu s" and w: "wait_ok cfg idle w s"
    and q: "queues s q = Some Q" and z: "uxItemSize Q \<noteq> 0"
  shows "\<exists>r. xQueueReceive cfg [undisturbed] q buf w s = Some r \<and> kernel_alive cfg idle (api_state r)"
proof (cases "uxMessagesWaiting Q > 0")
  case True
  then show ?thesis using alive_receive_now[OF a q True z, of "[undisturbed]" buf w] by fastforce
next
  case False
  then have empty: "uxMessagesWaiting Q = 0" by (simp add: word_gt_0)
  have run: "uxSchedulerSuspended s = 0" using w by (simp add: wait_ok_def)
  have i: "cRxLock Q = queueUNLOCKED" "cTxLock Q = queueUNLOCKED"
    using aliveD(8)[OF a q] by (simp_all add: queue_ok_def intact_def)
  show ?thesis
  proof (cases "w = 0")
    case True
    have "receive_pass cfg q buf 0 s = Some (Some False, s)"
      using empty q by (simp add: receive_pass_def Let_def)
    then have "xQueueReceive cfg [undisturbed] q buf w s = Some (Returned False s)"
      unfolding xQueueReceive_def True by (rule receive_loop_returns)
    then show ?thesis using a by simp
  next
    case False
    then have o: "pxCurrentTCB s \<noteq> idle" "counts_time cfg w" using w by (simp_all add: wait_ok_def)
    obtain s' where s': "xQueueReceive cfg [undisturbed] q buf w s = Some (StillBlocked s')"
      "kernel_inv cfg s'" "queues s' = queues s" "delayed s' (pxCurrentTCB s)" "unsuspended s'" "is_task s' = is_task s"
      "\<forall>u. u \<noteq> pxCurrentTCB s \<longrightarrow> home s' (StateListItem u) = home s (StateListItem u)"
      "\<forall>u. home s' (EventListItem u) = (if u = pxCurrentTCB s then Some (WaitingToReceive q) else home s (EventListItem u))"
      by (rule receive_waits[OF aliveD(1)[OF a] alive_unsuspended[OF a run] q i empty o(2) False alive_current[OF a cpu]])
        blast
    have "kernel_alive cfg idle s'"
      by (rule alive_asleep[OF a s'(2,5) o(1) delayed_not_ready[OF s'(4)]]) (use s' in auto)
    then show ?thesis using s'(1) by fastforce
  qed
qed

end
