(* ===== verification/Os_Kernel_Take.thy ===== *)
theory Os_Kernel_Take
  imports Os_Kernel_Sync
begin

text \<open>
  Taking semaphores and mutexes in a live kernel, with the priority a waiting task lends to the
  holder of a mutex, and the calls interrupts make on queues and semaphores.
\<close>

section \<open>Taking what is available\<close>

definition taken :: "os \<Rightarrow> Queue \<Rightarrow> Queue" where
  "taken s Q = Q\<lparr>uxMessagesWaiting := uxMessagesWaiting Q - 1,
     u_word0 := if uxQueueType Q = queueQUEUE_IS_MUTEX then pxCurrentTCB s else u_word0 Q\<rparr>"

lemma one_less: "uxMessagesWaiting Q > 0 \<Longrightarrow> waiting Q \<le> cap Q \<Longrightarrow> unat (uxMessagesWaiting Q - 1) \<le> cap Q"
  by (metis One_nat_def diff_le_self le_trans unat_minus_one word_gt_0)

lemma count_down_ok:
  assumes "queue_ok s Q" and "uxItemSize Q = 0" and "uxMessagesWaiting Q > 0"
    and "uxQueueType Q = queueQUEUE_IS_MUTEX \<longrightarrow> w = 0 \<or> is_task s w"
  shows "queue_ok s (Q\<lparr>uxMessagesWaiting := uxMessagesWaiting Q - 1, u_word0 := w\<rparr>)"
proof -
  have "waiting Q \<le> cap Q" using intact_bounds assms(1) by (simp add: queue_ok_def)
  then show ?thesis using assms one_less[OF assms(3)] by (auto simp: queue_ok_def intact_def counter_def holder_known_def)
qed

lemma alive_take_now:
  assumes a: "kernel_alive cfg idle s" and Q: "queues s q = Some Q" and m: "uxMessagesWaiting Q > 0" and z: "uxItemSize Q = 0"
  shows "\<exists>s'. xQueueSemaphoreTake cfg es q w s = Some (Returned True s') \<and> kernel_alive cfg idle s' \<and> call_frame s s'
    \<and> queues s' = (queues s)(q \<mapsto> taken s Q)"
proof -
  let ?e = "vPortEnterCritical s" and ?c = "pxCurrentTCB s"
  let ?Q = "Q\<lparr>uxMessagesWaiting := uxMessagesWaiting Q - 1\<rparr>"
  have ae: "kernel_alive cfg idle ?e" by (rule alive_critical(1)[OF a])
  have ok: "queue_ok ?e Q" by (rule aliveD(8)[OF ae, of q]) (simp add: Q)
  have okw: "queue_ok ?e (?Q\<lparr>u_word0 := w\<rparr>)" if "uxQueueType Q = queueQUEUE_IS_MUTEX \<longrightarrow> w = 0 \<or> is_task ?e w" for w
    using count_down_ok[OF ok z m that] by simp
  have "queue_ok ?e (?Q\<lparr>u_word0 := u_word0 Q\<rparr>)"
    by (rule okw) (use ok in \<open>simp add: queue_ok_def holder_known_def\<close>)
  then have ok1: "queue_ok ?e ?Q" by simp
  have a2: "kernel_alive cfg idle (put_queue q ?Q (mem s) ?e)" (is "kernel_alive _ _ ?s2")
    by (rule alive_put[OF ae, of q Q]) (use Q ok1 in simp_all)
  have u2: "upd_queue q (\<lambda>Q'. Q'\<lparr>uxMessagesWaiting := uxMessagesWaiting Q - 1\<rparr>) ?e = Some ?s2"
    using Q by (simp add: upd_queue_def put_queue_def)
  obtain s3 where s3: "(if uxQueueType Q = queueQUEUE_IS_MUTEX
       then do { (me, s') \<leftarrow> pvTaskIncrementMutexHeldCount ?s2; upd_queue q (\<lambda>Q. Q\<lparr>u_word0 := me\<rparr>) s' }
       else Some ?s2) = Some s3" "kernel_alive cfg idle s3" "call_frame s s3" "queues s3 = (queues s)(q \<mapsto> taken s Q)"
  proof (cases "uxQueueType Q = queueQUEUE_IS_MUTEX")
    case False
    then show ?thesis using a2 Q by (intro that[of ?s2]) (auto simp: call_frame_def taken_def)
  next
    case True
    obtain tcb where tcb: "tcbs s ?c = Some tcb" using current_task[OF aliveD(1)[OF a]] by (auto simp: is_task_def)
    let ?t = "tcb\<lparr>uxMutexesHeld := uxMutexesHeld tcb + 1\<rparr>"
    define x where "x = (if ?c \<noteq> 0 then with_tcb ?c ?t ?s2 else ?s2)"
    have inc: "pvTaskIncrementMutexHeldCount ?s2 = Some (?c, x)"
      using tcb by (simp add: pvTaskIncrementMutexHeldCount_def upd_tcb_def with_tcb_def x_def)
    have tk: "is_task ?s2 ?c" using tcb by (simp add: is_task_def)
    have r: "reprioritised cfg ?c ?t ?s2 (with_tcb ?c ?t ?s2)"
      by (rule reprioritised_same[OF aliveD(1)[OF a2], of _ tcb]) (use tcb in simp_all)
    have ax: "kernel_alive cfg idle x" using a2 alive_reprioritised(1)[OF a2 tk r] by (simp add: x_def)
    have fx: "queues x = (queues s)(q \<mapsto> ?Q)" "call_frame s x" "is_task x = is_task ?e"
      using tk Q by (auto simp: x_def call_frame_def with_tcb_def is_task_def put_queue_def vPortEnterCritical_def fun_eq_iff)
    let ?y = "put_queue q (taken s Q) (mem x) x"
    have "is_task x ?c" using tk fx(3) by (simp add: is_task_def)
    then have "queue_ok x (taken s Q)"
      using count_down_ok[of x Q ?c] queue_ok_mono[OF ok, of x] z m True by (simp add: taken_def fx(3))
    then have "kernel_alive cfg idle ?y" by (intro alive_put[OF ax, of q ?Q]) (simp_all add: fx)
    moreover have "upd_queue q (\<lambda>Q. Q\<lparr>u_word0 := ?c\<rparr>) x = Some ?y"
      using True by (simp add: upd_queue_def put_queue_def fx taken_def)
    moreover have "call_frame s ?y" "queues ?y = (queues s)(q \<mapsto> taken s Q)"
      using fx Q by (auto simp: call_frame_def)
    ultimately show ?thesis using that[of ?y] inc True by simp
  qed
  have l: "WaitingToSend q \<in> event_lists s3" using s3(4) by (auto simp: event_lists_def)
  obtain s4 where s4: "wake_one_and_yield cfg (WaitingToSend q) s3 = Some s4" "kernel_alive cfg idle s4"
    "call_frame s3 s4" "queues s4 = queues s3"
    using alive_wake_and_yield[OF s3(2) l] by blast
  have pass: "take_pass cfg q w s = Some (Some True, vPortExitCritical s4)"
    using Q m u2 s3(1) s4(1) by (simp add: take_pass_def Let_def cong: if_cong)
  have "xQueueSemaphoreTake cfg es q w s = Some (Returned True (vPortExitCritical s4))"
    using pass by (cases es) (simp_all add: xQueueSemaphoreTake_def)
  then show ?thesis
    using s4 s3(4) alive_critical(2)[OF s4(2)] call_frame_trans[OF s3(3) s4(3)] by simp
qed

section \<open>Lending a priority\<close>

text \<open>The priority every task has once the current task waits for a queue: a mutex's holder gets at least its own.\<close>

definition lent_priority :: "Queue \<Rightarrow> os \<Rightarrow> u32 \<Rightarrow> u32" where
  "lent_priority Q s u =
     (if uxQueueType Q = queueQUEUE_IS_MUTEX \<and> xMutexHolder Q \<noteq> 0 \<and> u = xMutexHolder Q
      then max (priority_of s u) (priority_of s (pxCurrentTCB s)) else priority_of s u)"

definition lent :: "os_config \<Rightarrow> Queue \<Rightarrow> os \<Rightarrow> os \<Rightarrow> bool" where
  "lent cfg Q s s' \<longleftrightarrow> kernel_inv cfg s' \<and> priority_of s' = lent_priority Q s \<and> is_task s' = is_task s
     \<and> s' = s\<lparr>tcbs := tcbs s', klists := klists s', uxTopReadyPriority := uxTopReadyPriority s'\<rparr>
     \<and> (\<forall>u. home s' (EventListItem u) = home s (EventListItem u))
     \<and> (\<forall>u. home s' (StateListItem u) =
          (if is_task s u \<and> ready s u then Some (ReadyTasksList (lent_priority Q s u)) else home s (StateListItem u)))
     \<and> (\<forall>u. u \<noteq> xMutexHolder Q \<longrightarrow> val s' (EventListItem u) = val s (EventListItem u))
     \<and> (\<forall>l \<in> event_lists s. items s' l = items s l)"

lemma lent_frame:
  assumes "lent cfg Q s s'"
  shows "queues s' = queues s" and "mem s' = mem s" and "pxCurrentTCB s' = pxCurrentTCB s"
    and "uxSchedulerSuspended s' = uxSchedulerSuspended s" and "uxPendedTicks s' = uxPendedTicks s"
    and "uxCurrentNumberOfTasks s' = uxCurrentNumberOfTasks s" and "event_lists s' = event_lists s"
proof -
  have e: "s' = s\<lparr>tcbs := tcbs s', klists := klists s', uxTopReadyPriority := uxTopReadyPriority s'\<rparr>"
    using assms unfolding lent_def by blast
  show "queues s' = queues s" "mem s' = mem s" "pxCurrentTCB s' = pxCurrentTCB s"
    "uxSchedulerSuspended s' = uxSchedulerSuspended s" "uxPendedTicks s' = uxPendedTicks s"
    "uxCurrentNumberOfTasks s' = uxCurrentNumberOfTasks s" "event_lists s' = event_lists s"
    by (subst e, simp add: event_lists_def)+
qed

lemma ready_home:
  "kernel_inv cfg s \<Longrightarrow> is_task s u \<Longrightarrow> ready s u \<Longrightarrow> home s (StateListItem u) = Some (ReadyTasksList (priority_of s u))"
  using core_ready(2)[OF invD(1), of cfg s u] by (auto simp: ready_iff)

lemma lent_same:
  assumes k: "kernel_inv cfg s" and "uxQueueType Q \<noteq> queueQUEUE_IS_MUTEX \<or> xMutexHolder Q = 0"
  shows "lent cfg Q s s"
proof -
  have "lent_priority Q s = priority_of s" using assms(2) by (auto simp: lent_priority_def fun_eq_iff)
  then show ?thesis using k ready_home[OF k] by (simp add: lent_def)
qed

lemma lent_reprioritised:
  assumes k: "kernel_inv cfg s" and t: "tcbs s (xMutexHolder Q) = Some tcb"
    and m: "uxQueueType Q = queueQUEUE_IS_MUTEX" "xMutexHolder Q \<noteq> 0"
    and r: "reprioritised cfg (xMutexHolder Q)
      (tcb\<lparr>uxPriority := max (uxPriority tcb) (priority_of s (pxCurrentTCB s))\<rparr>) s s'"
  shows "lent cfg Q s s'"
proof -
  note d = reprioritisedD[OF r]
  have p: "priority_of s' = lent_priority Q s"
    using m t by (auto simp: lent_priority_def priority_of_def d(2) fun_eq_iff)
  have tk: "is_task s' = is_task s" using t by (auto simp: is_task_def d(2) fun_eq_iff)
  have "home s' (StateListItem u) = (if is_task s u \<and> ready s u then Some (ReadyTasksList (lent_priority Q s u))
      else home s (StateListItem u))" for u
    using d(4)[of "StateListItem u"] m t ready_home[OF k, of u]
    by (auto simp: lent_priority_def is_task_def priority_of_def)
  then show ?thesis using d(1,3,5,6) d(4)[of "EventListItem _"] p tk by (auto simp: lent_def)
qed

lemma lent_critical: "lent cfg Q (vPortEnterCritical s) s1 \<Longrightarrow> lent cfg Q s (vPortExitCritical s1)"
proof -
  assume l: "lent cfg Q (vPortEnterCritical s) s1"
  then have f: "s1 = (vPortEnterCritical s)\<lparr>tcbs := tcbs s1, klists := klists s1, uxTopReadyPriority := uxTopReadyPriority s1\<rparr>"
    by (simp add: lent_def)
  have "vPortExitCritical s1 = s\<lparr>tcbs := tcbs s1, klists := klists s1, uxTopReadyPriority := uxTopReadyPriority s1\<rparr>"
    by (subst f) (simp add: vPortExitCritical_def vPortEnterCritical_def)
  moreover have "lent_priority Q (vPortEnterCritical s) = lent_priority Q s" "ready (vPortEnterCritical s) = ready s"
    "priority_of (vPortExitCritical s1) = priority_of s1" "is_task (vPortExitCritical s1) = is_task s1"
    "is_task (vPortEnterCritical s) = is_task s" "event_lists (vPortEnterCritical s) = event_lists s"
    by (simp_all add: lent_priority_def priority_of_def ready_def is_task_def event_lists_def fun_eq_iff)
  ultimately show ?thesis using l critical_inv(2)[of cfg s1] unfolding lent_def by simp
qed

lemma inherit_if_mutex_spec:
  assumes k: "kernel_inv cfg s" and Q: "queues s q = Some Q" and h: "holder_known s Q"
  obtains i s' where "inherit_if_mutex q inh s = Some (i, s')" and "lent cfg Q s s'"
proof (cases "uxQueueType Q = queueQUEUE_IS_MUTEX \<and> xMutexHolder Q \<noteq> 0")
  case False
  then show ?thesis
    using that[of inh s] that[of False s] lent_same[OF k, of Q] Q
    by (cases "uxQueueType Q = queueQUEUE_IS_MUTEX") (simp_all add: inherit_if_mutex_def xTaskPriorityInherit_def)
next
  case True
  let ?e = "vPortEnterCritical s"
  obtain tcb where t: "tcbs ?e (xMutexHolder Q) = Some tcb"
    using h True by (auto simp: holder_known_def is_task_def)
  have ke: "kernel_inv cfg ?e" by (rule critical_inv(1)[OF k])
  obtain i s1 where s1: "xTaskPriorityInherit (xMutexHolder Q) ?e = Some (i, s1)"
    "reprioritised cfg (xMutexHolder Q) (tcb\<lparr>uxPriority := max (uxPriority tcb) (priority_of ?e (pxCurrentTCB ?e))\<rparr>) ?e s1"
    by (rule inherit_spec[OF ke t]) (use True in blast)+
  have "lent cfg Q ?e s1" by (rule lent_reprioritised[OF ke t _ _ s1(2)]) (use True in auto)
  then have "lent cfg Q s (vPortExitCritical s1)" by (rule lent_critical)
  moreover have "inherit_if_mutex q inh s = Some (i, vPortExitCritical s1)"
    using Q True s1(1) by (simp add: inherit_if_mutex_def)
  ultimately show ?thesis using that by blast
qed

section \<open>Waiting for a semaphore\<close>

lemma insert_by_value_cong:
  "(\<And>x. x \<in> set xs \<Longrightarrow> f x = g x) \<Longrightarrow> f i = g i \<Longrightarrow> insert_by_value f i xs = insert_by_value g i xs"
  by (simp add: insert_by_value_def cong: takeWhile_cong dropWhile_cong)

text \<open>
  The first pass of a call that has to wait: the priority is lent, the caller sleeps in the list of those
  who wait for the semaphore, by priority.
\<close>

definition waits_lending :: "os_config \<Rightarrow> Queue \<Rightarrow> u32 \<Rightarrow> u32 \<Rightarrow> os \<Rightarrow> os \<Rightarrow> bool" where
  "waits_lending cfg Q q w s s' \<longleftrightarrow> kernel_inv cfg s' \<and> unsuspended s' \<and> PENDING_SOFT_SV s'
     \<and> queues s' = queues s \<and> mem s' = mem s \<and> is_task s' = is_task s \<and> pxCurrentTCB s' = pxCurrentTCB s
     \<and> delayed s' (pxCurrentTCB s) \<and> ticks_left s' (pxCurrentTCB s) = unat w
     \<and> priority_of s' = lent_priority Q s
     \<and> (\<forall>u. home s' (EventListItem u) = (if u = pxCurrentTCB s then Some (WaitingToReceive q) else home s (EventListItem u)))
     \<and> (\<forall>u. u \<noteq> pxCurrentTCB s \<longrightarrow> home s' (StateListItem u) =
          (if is_task s u \<and> ready s u then Some (ReadyTasksList (lent_priority Q s u)) else home s (StateListItem u)))
     \<and> (xMutexHolder Q \<noteq> pxCurrentTCB s \<longrightarrow> home s (EventListItem (xMutexHolder Q)) \<noteq> Some (WaitingToReceive q) \<longrightarrow>
          items s' (WaitingToReceive q)
            = insert_by_value (val s) (EventListItem (pxCurrentTCB s)) (items s (WaitingToReceive q)))"

lemma take_waits:
  assumes k: "kernel_inv cfg s" and u: "unsuspended s"
    and Q: "queues s q = Some Q" "cRxLock Q = queueUNLOCKED" "cTxLock Q = queueUNLOCKED" "uxMessagesWaiting Q = 0"
    and h: "holder_known s Q"
    and c: "counts_time cfg w" and w: "w \<noteq> 0" and free: "home s (EventListItem (pxCurrentTCB s)) = None"
  shows "\<exists>s'. xQueueSemaphoreTake cfg [undisturbed] q w s = Some (StillBlocked s') \<and> waits_lending cfg Q q w s s'"
proof -
  let ?L = "locked_state q Q s" and ?l = "WaitingToReceive q" and ?c = "pxCurrentTCB s"
  note f = locked_state_facts[OF k u Q(1)]
  have tkL: "is_task ?L = is_task s" by (simp add: locked_state_def suspend_all_frame)
  have lp: "lent_priority (locked Q) ?L = lent_priority Q s"
    by (simp add: lent_priority_def locked_def f(9,11) fun_eq_iff)
  have rL: "ready ?L = ready s" by (simp add: ready_def f(5) fun_eq_iff)
  have qL: "queues ?L q = Some (locked Q)" using f(7) by simp
  have hL: "holder_known ?L (locked Q)" using h by (simp add: holder_known_def locked_def tkL)
  have xh: "xMutexHolder (locked Q) = xMutexHolder Q" by (simp add: locked_def)
  obtain i s1 where s1: "inherit_if_mutex q False ?L = Some (i, s1)" "lent cfg (locked Q) ?L s1"
    by (rule inherit_if_mutex_spec[OF f(1) qL hL])
  have k1: "kernel_inv cfg s1" using s1(2) by (simp add: lent_def)
  have g: "queues s1 = queues ?L" "mem s1 = mem s" "pxCurrentTCB s1 = ?c" "uxSchedulerSuspended s1 = 1"
    "uxCurrentNumberOfTasks s1 > 0" "uxPendedTicks s1 = 0" "event_lists s1 = event_lists s"
    using lent_frame[OF s1(2)] f by simp_all
  have v: "priority_of s1 = lent_priority Q s" "is_task s1 = is_task s"
    "home s1 (EventListItem x) = home s (EventListItem x)"
    "home s1 (StateListItem x) =
       (if is_task s x \<and> ready s x then Some (ReadyTasksList (lent_priority Q s x)) else home s (StateListItem x))"
    "x \<noteq> xMutexHolder Q \<Longrightarrow> val s1 (EventListItem x) = val s (EventListItem x)"
    "m \<in> event_lists s \<Longrightarrow> items s1 m = items s m" for x m
    using s1(2) f(5,12) by (simp_all add: lent_def lp tkL rL xh)
  have l: "?l \<in> event_lists s" "PendingReadyList \<in> event_lists s" using Q(1) by (auto simp: event_lists_def)
  have q1: "queues s1 q = Some (locked Q)" using g(1) qL by simp
  have lc: "lock_count (cTxLock (locked Q)) = 0" "lock_count (cRxLock (locked Q)) = 0"
    using Q(2,3) by (simp_all add: locked_def)
  have p1: "items s1 PendingReadyList = []" using v(6)[OF l(2)] f(5,6) by simp
  have nf: "\<not> waits_forever cfg w True" using c by (simp add: waits_forever_def counts_time_def)
  have free1: "home s1 (EventListItem (pxCurrentTCB s1)) = None" using free g(3) v(3) by simp
  have l1: "?l \<in> event_lists s1" using l(1) g(7) by simp
  have np: "?l \<noteq> PendingReadyList" by simp
  have same: "(queues s)(q \<mapsto> locked Q, q \<mapsto> unlocked (locked Q)) = queues s"
    using Q unlocked_locked[OF Q(2,3)] by (simp add: fun_upd_idem)
  obtain s' where s': "block_on cfg ?l q w s1 = Some s'" "kernel_inv cfg s'"
    "queues s' = (queues s1)(q \<mapsto> unlocked (locked Q))" "mem s' = mem s1" "PENDING_SOFT_SV s'"
    "delayed s' (pxCurrentTCB s1)" "ticks_left s' (pxCurrentTCB s1) = unat w"
    "items s' ?l = insert_by_value (val s1) (EventListItem (pxCurrentTCB s1)) (items s1 ?l)"
    "uxSchedulerSuspended s' = 0" "pxCurrentTCB s' = pxCurrentTCB s1"
    "\<And>u. u \<noteq> pxCurrentTCB s1 \<Longrightarrow> home s' (StateListItem u) = home s1 (StateListItem u)"
    "priority_of s' = priority_of s1"
    "\<forall>u. home s' (EventListItem u) = (if u = pxCurrentTCB s1 then Some ?l else home s1 (EventListItem u))"
    "is_task s' = is_task s1" "uxPendedTicks s' = 0 \<and> uxCurrentNumberOfTasks s' = uxCurrentNumberOfTasks s1"
    by (rule block_on_spec[OF k1 g(4,5) p1 g(6) q1 lc free1 w nf l1 np]) (rule that; assumption)
  have qs: "queues s' = queues s" using s'(3) g(1) f(7) same by simp
  have "pending s' = {}" using s'(13) u by (auto simp: pending_def s'(14) v g(3) unsuspended_def split: if_splits)
  then have un: "unsuspended s'" using s'(9,15) g(5) by (simp add: unsuspended_def)
  have order: "items s' ?l = insert_by_value (val s) (EventListItem ?c) (items s ?l)"
    if o: "xMutexHolder Q \<noteq> ?c" "home s (EventListItem (xMutexHolder Q)) \<noteq> Some ?l"
  proof -
    have "val s1 x = val s x" if x: "x \<in> set (items s ?l)" for x
    proof -
      obtain t where t: "x = EventListItem t" by (rule event_list_items[OF invD(1)[OF k] l(1) x])
      have "home s x = Some ?l" using member_home[OF invD(1)[OF k], of ?l x] l(1) x by simp
      then show ?thesis using v(5)[of t] o(2) t by auto
    qed
    moreover have "val s1 (EventListItem ?c) = val s (EventListItem ?c)" by (rule v(5)) (use o(1) in simp)
    ultimately have "insert_by_value (val s1) (EventListItem ?c) (items s ?l)
        = insert_by_value (val s) (EventListItem ?c) (items s ?l)"
      by (intro insert_by_value_cong) simp_all
    then show ?thesis using s'(8) g(3) v(6)[OF l(1)] by simp
  qed
  have wl: "waits_lending cfg Q q w s s'"
    unfolding waits_lending_def using s' g(2,3) v un qs order by simp
  have pass: "take_pass cfg q w x = Some (None, x)" if "queues x q = Some Q" for x
    using that Q(4) w by (simp add: take_pass_def Let_def)
  obtain lim where sc: "suspend_and_check cfg undisturbed q (vTaskInternalSetTimeOutState s) w s = Some (False, lim, w, ?L)"
    by (rule suspend_and_check_fresh[OF Q(1) c w])
  have e: "prvIsQueueEmpty q ?L = Some (True, ?L)"
    using f(7) Q(4) by (simp add: prvIsQueueEmpty_def Let_def locked_def)
  have "xQueueSemaphoreTake cfg [undisturbed] q w s = Some (StillBlocked s')"
    using pass[of s] pass[of s'] Q(1) s'(1) qs sc e s1(1) by (simp add: xQueueSemaphoreTake_def undisturbed_def)
  then show ?thesis using wl by blast
qed

lemma waits_lending_alive:
  assumes a: "kernel_alive cfg idle s" and o: "pxCurrentTCB s \<noteq> idle" and w: "waits_lending cfg Q q n s s'"
  shows "kernel_alive cfg idle s'"
proof -
  have f: "kernel_inv cfg s'" "unsuspended s'" "queues s' = queues s" "is_task s' = is_task s" "delayed s' (pxCurrentTCB s)"
    "home s' (EventListItem u) = (if u = pxCurrentTCB s then Some (WaitingToReceive q) else home s (EventListItem u))"
    "u \<noteq> pxCurrentTCB s \<Longrightarrow> home s' (StateListItem u) =
       (if is_task s u \<and> ready s u then Some (ReadyTasksList (lent_priority Q s u)) else home s (StateListItem u))" for u
    using w by (simp_all add: waits_lending_def)
  have c: "is_task s (pxCurrentTCB s)" by (rule current_task[OF aliveD(1)[OF a]])
  have n: "\<not> ready s u" if "\<not> is_task s u" for u using aliveD(6)[OF a that] by (simp add: ready_iff)
  show ?thesis
  proof (rule alive_asleep_lent[OF a f(1,2) o delayed_not_ready[OF f(5)] _ _ f(4,3)])
    show "ready s' t = ready s t \<and> home s' (EventListItem t) = home s (EventListItem t)" if "t \<noteq> pxCurrentTCB s" for t
      using f(6)[of t] f(7)[OF that] that n[of t] by (auto simp: ready_iff)
    show "home s' (StateListItem t) = home s (StateListItem t)" if "\<not> is_task s t" for t
      using f(7)[of t] that c by fastforce
  qed
qed

lemma alive_take:
  assumes a: "kernel_alive cfg idle s" and cpu: "on_cpu s" and w: "wait_ok cfg idle w s"
    and q: "queues s q = Some Q" and z: "uxItemSize Q = 0"
  shows "\<exists>r. xQueueSemaphoreTake cfg [undisturbed] q w s = Some r \<and> kernel_alive cfg idle (api_state r)
    \<and> (\<exists>Q'. queues (api_state r) q = Some Q' \<and> uxItemSize Q' = 0)"
proof (cases "uxMessagesWaiting Q > 0")
  case True
  obtain s' where "xQueueSemaphoreTake cfg [undisturbed] q w s = Some (Returned True s')" "kernel_alive cfg idle s'"
    "queues s' = (queues s)(q \<mapsto> taken s Q)"
    using alive_take_now[OF a q True z] by blast
  then show ?thesis using z by (simp add: taken_def)
next
  case False
  then have empty: "uxMessagesWaiting Q = 0" by (simp add: word_gt_0)
  have run: "uxSchedulerSuspended s = 0" using w by (simp add: wait_ok_def)
  have i: "cRxLock Q = queueUNLOCKED" "cTxLock Q = queueUNLOCKED" "holder_known s Q"
    using aliveD(8)[OF a q] by (simp_all add: queue_ok_def intact_def)
  show ?thesis
  proof (cases "w = 0")
    case True
    have "take_pass cfg q 0 s = Some (Some False, s)"
      using empty q by (simp add: take_pass_def Let_def)
    then have "xQueueSemaphoreTake cfg [undisturbed] q w s = Some (Returned False s)"
      by (simp add: xQueueSemaphoreTake_def True)
    then show ?thesis using a q z by simp
  next
    case False
    then have o: "pxCurrentTCB s \<noteq> idle" "counts_time cfg w" using w by (simp_all add: wait_ok_def)
    obtain s' where s': "xQueueSemaphoreTake cfg [undisturbed] q w s = Some (StillBlocked s')" "waits_lending cfg Q q w s s'"
      using take_waits[OF aliveD(1)[OF a] alive_unsuspended[OF a run] q i(1,2) empty i(3) o(2) False alive_current[OF a cpu]]
      by blast
    have "queues s' = queues s" using s'(2) by (simp add: waits_lending_def)
    then show ?thesis using s'(1) waits_lending_alive[OF a o(1) s'(2)] q z by simp
  qed
qed

section \<open>Interrupts\<close>

text \<open>Interrupts do not give or take mutexes, and between calls no queue is locked.\<close>

lemma alive_send_isr:
  assumes a: "kernel_alive cfg idle s" and q: "queues s q = Some Q" and pos: "pos \<noteq> queueOVERWRITE"
    and m: "uxQueueType Q \<noteq> queueQUEUE_IS_MUTEX"
  shows "\<exists>r b s'. xQueueGenericSendFromISR cfg q item pos s = Some (r, b, s') \<and> kernel_alive cfg idle s'"
proof (cases "uxMessagesWaiting Q < uxLength Q")
  case False
  then show ?thesis using a q pos
    by (intro exI[of _ False] exI[of _ s]) (simp add: xQueueGenericSendFromISR_def)
next
  case True
  obtain y s1 where s1: "prvCopyDataToQueue q item pos s = Some (y, s1)" "kernel_alive cfg idle s1" "call_frame s s1"
    using alive_copy[OF a q True pos, of item] m by (auto simp: may_give_def)
  have "q \<in> dom (queues s1)" using s1(3) q by (auto simp: call_frame_def)
  then have l: "WaitingToReceive q \<in> event_lists s1" by (auto simp: event_lists_def)
  obtain b s2 where s2: "wake_one cfg (WaitingToReceive q) s1 = Some (b, s2)" "kernel_alive cfg idle s2"
    using alive_wake[OF s1(2) l] by blast
  have "cTxLock Q = queueUNLOCKED" using aliveD(8)[OF a q] by (simp add: queue_ok_def intact_def)
  then have "xQueueGenericSendFromISR cfg q item pos s = Some (True, b, s2)"
    using True q s1(1) s2(1) by (simp add: xQueueGenericSendFromISR_def Let_def)
  then show ?thesis using s2(2) by blast
qed

lemma alive_give_isr:
  assumes a: "kernel_alive cfg idle s" and q: "queues s q = Some Q" and z: "uxItemSize Q = 0"
    and m: "uxQueueType Q \<noteq> queueQUEUE_IS_MUTEX"
  shows "\<exists>r b s'. xQueueGiveFromISR cfg q s = Some (r, b, s') \<and> kernel_alive cfg idle s'"
proof (cases "uxMessagesWaiting Q < uxLength Q")
  case False
  then show ?thesis using a q
    by (intro exI[of _ False] exI[of _ s]) (simp add: xQueueGiveFromISR_def)
next
  case True
  let ?Q = "Q\<lparr>u_word0 := u_word0 Q, uxMessagesWaiting := uxMessagesWaiting Q + 1\<rparr>"
  have ok: "queue_ok s Q" by (rule aliveD(8)[OF a q])
  then have "counter Q" using z by (auto simp: queue_ok_def intact_def ring_def storage_ok_def)
  then have a1: "kernel_alive cfg idle (put_queue q ?Q (mem s) s)"
    by (intro alive_count_up[OF a q _ True]) (use m in simp_all)
  have l: "WaitingToReceive q \<in> event_lists (put_queue q ?Q (mem s) s)" by (auto simp: event_lists_def)
  obtain b s2 where s2: "wake_one cfg (WaitingToReceive q) (put_queue q ?Q (mem s) s) = Some (b, s2)" "kernel_alive cfg idle s2"
    using alive_wake[OF a1 l] by blast
  have "cTxLock Q = queueUNLOCKED" using ok by (simp add: queue_ok_def intact_def)
  then have "xQueueGiveFromISR cfg q s = Some (True, b, s2)"
    using True q s2(1) by (simp add: xQueueGiveFromISR_def Let_def upd_queue_def put_queue_def)
  then show ?thesis using s2(2) by blast
qed

lemma alive_receive_isr:
  assumes a: "kernel_alive cfg idle s" and q: "queues s q = Some Q" and m: "uxQueueType Q \<noteq> queueQUEUE_IS_MUTEX"
  shows "\<exists>r b s'. xQueueReceiveFromISR cfg q buf s = Some (r, b, s') \<and> kernel_alive cfg idle s'"
proof (cases "uxMessagesWaiting Q > 0")
  case False
  then show ?thesis using a q
    by (intro exI[of _ False] exI[of _ s]) (simp add: xQueueReceiveFromISR_def)
next
  case True
  have ok: "queue_ok s Q" by (rule aliveD(8)[OF a q])
  obtain Q' m' s1 where c: "prvCopyDataFromQueue q buf s = Some s1"
      "upd_queue q (\<lambda>Q'. Q'\<lparr>uxMessagesWaiting := uxMessagesWaiting Q - 1\<rparr>) s1 = Some (put_queue q Q' m' s)"
    and ok': "queue_ok s Q'"
  proof (cases "uxItemSize Q = 0")
    case z: True
    let ?Q = "Q\<lparr>uxMessagesWaiting := uxMessagesWaiting Q - 1\<rparr>"
    have "queue_ok s (Q\<lparr>uxMessagesWaiting := uxMessagesWaiting Q - 1, u_word0 := u_word0 Q\<rparr>)"
      by (rule count_down_ok[OF ok z True]) (use m in simp)
    then have "queue_ok s ?Q" by simp
    then show ?thesis
      using that[of s ?Q "mem s"] q z by (simp add: prvCopyDataFromQueue_def upd_queue_def put_queue_def)
  next
    case z: False
    then have r: "ring Q (read_slot Q)" using ok by (auto simp: queue_ok_def intact_def counter_def)
    have p: "waiting Q > 0" using True by (simp add: word_less_nat_alt)
    have "queue_ok s (received Q)" by (rule received_ok[OF ok r p])
    then show ?thesis
      using that[OF copy_from[OF q z, of buf], of "received Q" "memcpy_bytes buf (pcReadFrom (read_on Q)) (uxItemSize Q) (mem s)"]
      by (simp add: upd_queue_def put_queue_def received_def)
  qed
  have a1: "kernel_alive cfg idle (put_queue q Q' m' s)" by (rule alive_put[OF a q ok'])
  have l: "WaitingToSend q \<in> event_lists (put_queue q Q' m' s)" by (auto simp: event_lists_def)
  obtain b s2 where s2: "wake_one cfg (WaitingToSend q) (put_queue q Q' m' s) = Some (b, s2)" "kernel_alive cfg idle s2"
    using alive_wake[OF a1 l] by blast
  have u: "cRxLock Q = queueUNLOCKED" using ok by (simp add: queue_ok_def intact_def)
  have "xQueueReceiveFromISR cfg q buf s = Some (True, b, s2)"
    using True q s2(1) u c by (simp add: xQueueReceiveFromISR_def Let_def)
  then show ?thesis using s2(2) by blast
qed

section \<open>Making mutexes, and taking them more than once\<close>

lemma back_not_overwrite: "queueSEND_TO_BACK \<noteq> queueOVERWRITE"
  by (simp add: queueSEND_TO_BACK_def queueOVERWRITE_def)

lemma alive_count_field:
  assumes a: "kernel_alive cfg idle s" and q: "queues s q = Some Q" and z: "uxItemSize Q = 0"
  shows "kernel_alive cfg idle (put_queue q (Q\<lparr>u_word1 := n\<rparr>) (mem s) s)"
proof (rule alive_put[OF a q])
  show "queue_ok s (Q\<lparr>u_word1 := n\<rparr>)" using aliveD(8)[OF a q] z
    by (auto simp: queue_ok_def intact_def counter_def holder_known_def ring_def storage_ok_def)
qed

lemma upd_put: "queues s q = Some Q \<Longrightarrow> upd_queue q f s = Some (put_queue q (f Q) (mem s) s)"
  by (simp add: upd_queue_def put_queue_def)

lemma alive_create_mutex:
  assumes a: "kernel_alive cfg idle s" and m: "new_queue_block E 1 0 s"
  shows "\<exists>q s'. xQueueCreateMutex cfg (env_malloc E) (env_queue E) s = Some (q, s') \<and> kernel_alive cfg idle s'"
proof -
  obtain q s1 where s1: "xQueueGenericCreate cfg (env_malloc E) (env_queue E) 1 0 s = Some (q, s1)" "kernel_alive cfg idle s1"
    "q \<noteq> 0 \<longrightarrow> queues s1 q = Some (new_queue q 1 0 (env_queue E))"
    using alive_create_queue[OF a _ m] by auto
  show ?thesis
  proof (cases "q = 0")
    case True
    then show ?thesis using s1 by (simp add: xQueueCreateMutex_def prvInitialiseMutex_def)
  next
    case False
    let ?N = "new_queue q 1 0 (env_queue E)"
    let ?M = "?N\<lparr>u_word0 := 0, pcHead := queueQUEUE_IS_MUTEX, u_word1 := 0\<rparr>"
    have q: "queues s1 q = Some ?N" using s1(3) False by blast
    have "queue_ok s1 ?M"
      by (simp add: queue_ok_def intact_def counter_def holder_known_def) (simp add: new_queue_def Let_def)
    then have a2: "kernel_alive cfg idle (put_queue q ?M (mem s1) s1)" (is "kernel_alive _ _ ?s2") by (rule alive_put[OF s1(2) q])
    have q2: "queues ?s2 q = Some ?M" by simp
    have g: "may_give ?s2 ?M" by (simp add: may_give_def)
    obtain b s3 where s3: "xQueueGenericSend cfg [] q 0 0 queueSEND_TO_BACK ?s2 = Some (Returned b s3)" "kernel_alive cfg idle s3"
      using alive_send_poll[OF a2 q2 back_not_overwrite g] by blast
    have "prvInitialiseMutex cfg q s1 = Some s3"
      using False s3(1) upd_put[OF q, of "\<lambda>Q. Q\<lparr>u_word0 := 0, pcHead := queueQUEUE_IS_MUTEX, u_word1 := 0\<rparr>"]
      by (simp add: prvInitialiseMutex_def)
    then show ?thesis using s1(1) s3(2) by (simp add: xQueueCreateMutex_def)
  qed
qed

lemma alive_take_recursive:
  assumes a: "kernel_alive cfg idle s" and cpu: "on_cpu s" and w: "wait_ok cfg idle w s"
    and q: "queues s q = Some Q" and z: "uxItemSize Q = 0"
  shows "\<exists>r. xQueueTakeMutexRecursive cfg [undisturbed] q w s = Some r \<and> kernel_alive cfg idle (api_state r)"
proof (cases "xMutexHolder Q = pxCurrentTCB s")
  case True
  then show ?thesis
    using alive_count_field[OF a q z] upd_put[OF q, of "\<lambda>Q. Q\<lparr>u_word1 := u_word1 Q + 1\<rparr>"] q
    by (simp add: xQueueTakeMutexRecursive_def xTaskGetCurrentTaskHandle_def)
next
  case other: False
  obtain r Q' where r: "xQueueSemaphoreTake cfg [undisturbed] q w s = Some r" "kernel_alive cfg idle (api_state r)"
    "queues (api_state r) q = Some Q'" "uxItemSize Q' = 0"
    using alive_take[OF a cpu w q z] by blast
  show ?thesis
  proof (cases r)
    case (Returned b s1)
    then show ?thesis
      using other q r alive_count_field[of cfg idle s1 q Q'] upd_put[of s1 q Q' "\<lambda>Q. Q\<lparr>u_word1 := u_word1 Q + 1\<rparr>"]
      by (cases b) (simp_all add: xQueueTakeMutexRecursive_def xTaskGetCurrentTaskHandle_def)
  qed (use other q r in \<open>simp add: xQueueTakeMutexRecursive_def xTaskGetCurrentTaskHandle_def\<close>)
qed

lemma alive_give_recursive:
  assumes a: "kernel_alive cfg idle s" and cpu: "on_cpu s" and q: "queues s q = Some Q" and z: "uxItemSize Q = 0"
  shows "\<exists>b s'. xQueueGiveMutexRecursive cfg q s = Some (b, s') \<and> kernel_alive cfg idle s'"
proof (cases "xMutexHolder Q = pxCurrentTCB s")
  case False
  then show ?thesis using a q
    by (intro exI[of _ False] exI[of _ s]) (simp add: xQueueGiveMutexRecursive_def xTaskGetCurrentTaskHandle_def)
next
  case True
  define Q1 where "Q1 = Q\<lparr>u_word1 := u_word1 Q - 1\<rparr>"
  define s1 where "s1 = put_queue q Q1 (mem s) s"
  have a1: "kernel_alive cfg idle s1" unfolding s1_def Q1_def by (rule alive_count_field[OF a q z])
  have q1: "queues s1 q = Some Q1" by (simp add: s1_def)
  have up: "upd_queue q (\<lambda>Q. Q\<lparr>u_word1 := u_word1 Q - 1\<rparr>) s = Some s1"
    unfolding s1_def Q1_def by (rule upd_put[OF q])
  have g: "may_give s1 Q1" using True cpu by (simp add: may_give_def on_cpu_def ready_iff s1_def Q1_def)
  obtain b s2 where s2: "xQueueGenericSend cfg [] q 0 0 queueSEND_TO_BACK s1 = Some (Returned b s2)" "kernel_alive cfg idle s2"
    using alive_send_poll[OF a1 q1 back_not_overwrite g] by blast
  have "xQueueGiveMutexRecursive cfg q s = Some (True, if uxRecursiveCallCount Q - 1 = 0 then s2 else s1)"
    using True q s2(1) up
    by (simp add: xQueueGiveMutexRecursive_def xTaskGetCurrentTaskHandle_def queueMUTEX_GIVE_BLOCK_TIME_def)
  then show ?thesis using a1 s2(2) by fastforce
qed

end
