(* ===== verification/Os_Kernel_Run.thy ===== *)
theory Os_Kernel_Run
  imports Os_Kernel_Take
begin

text \<open>
  Runs of the kernel: any sequence of timer interrupts, software interrupts and calls of the running
  task, each made where its caller may make it. What every state of a run has is one invariant, and in
  every state of a run every call that may be made returns.
\<close>

section \<open>The calls\<close>

text \<open>
  A task that has to wait on a queue is still blocked after the call; when it runs again it calls again.
  Semaphores are given with \<open>SendMessage\<close>, as \<open>xSemaphoreGive\<close> does. A call is one step: what interrupts do
  between its parts is the business of the waiting loops, whose properties take it as an argument.
\<close>

datatype kernel_call =
    TimerTick
  | SoftInterrupt
  | DelayFor u32
  | DelayTill u32 u32
  | SuspendAll
  | ResumeAll
  | CreateTask u32 u32 u16 u32 u32
  | CreateQueue u32 u32
  | SendMessage u32 u32 u32 u32
  | ReceiveMessage u32 u32 u32
  | CreateMutex
  | TakeSemaphore u32 u32
  | TakeRecursive u32 u32
  | GiveRecursive u32
  | SendFromInterrupt u32 u32 u32
  | GiveFromInterrupt u32
  | ReceiveFromInterrupt u32 u32

fun kernel_do :: "os_config \<Rightarrow> kernel_env \<Rightarrow> kernel_call \<Rightarrow> os \<Rightarrow> os option" where
  "kernel_do cfg E TimerTick s = xPortSysTickHandle cfg s"
| "kernel_do cfg E SoftInterrupt s = SV_ISR (\<lambda>x. (False, x)) s"
| "kernel_do cfg E (DelayFor n) s = vTaskDelay cfg n s"
| "kernel_do cfg E (DelayTill p i) s = map_option snd (vTaskDelayUntil cfg p i s)"
| "kernel_do cfg E SuspendAll s = Some (vTaskSuspendAll s)"
| "kernel_do cfg E ResumeAll s = map_option snd (xTaskResumeAll cfg s)"
| "kernel_do cfg E (CreateTask code name d par pri) s =
     map_option snd (xTaskCreate (env_port E) cfg (env_malloc E) (env_tcb E) code name d par pri s)"
| "kernel_do cfg E (CreateQueue n z) s =
     map_option snd (xQueueGenericCreate cfg (env_malloc E) (env_queue E) n z s)"
| "kernel_do cfg E (SendMessage q item w pos) s =
     map_option api_state (xQueueGenericSend cfg [undisturbed] q item w pos s)"
| "kernel_do cfg E (ReceiveMessage q buf w) s =
     map_option api_state (xQueueReceive cfg [undisturbed] q buf w s)"
| "kernel_do cfg E CreateMutex s = map_option snd (xQueueCreateMutex cfg (env_malloc E) (env_queue E) s)"
| "kernel_do cfg E (TakeSemaphore q w) s =
     map_option api_state (xQueueSemaphoreTake cfg [undisturbed] q w s)"
| "kernel_do cfg E (TakeRecursive q w) s =
     map_option api_state (xQueueTakeMutexRecursive cfg [undisturbed] q w s)"
| "kernel_do cfg E (GiveRecursive q) s = map_option snd (xQueueGiveMutexRecursive cfg q s)"
| "kernel_do cfg E (SendFromInterrupt q item pos) s =
     map_option (snd \<circ> snd) (xQueueGenericSendFromISR cfg q item pos s)"
| "kernel_do cfg E (GiveFromInterrupt q) s = map_option (snd \<circ> snd) (xQueueGiveFromISR cfg q s)"
| "kernel_do cfg E (ReceiveFromInterrupt q buf) s =
     map_option (snd \<circ> snd) (xQueueReceiveFromISR cfg q buf s)"

section \<open>Who may call what\<close>

text \<open>
  Interrupts come at any time. The other calls are the running task's, which has not just been put to
  sleep; the idle task does not block, nor does anybody while the scheduler is suspended. An allocator does
  not hand out a block that is in use. A mutex that is taken is given by its holder, and interrupts
  leave mutexes alone; items are received from queues of items, and semaphores are taken.
\<close>

definition the_queue :: "os \<Rightarrow> u32 \<Rightarrow> (Queue \<Rightarrow> bool) \<Rightarrow> bool" where
  "the_queue s q P \<longleftrightarrow> (case queues s q of None \<Rightarrow> False | Some Q \<Rightarrow> P Q)"

lemma the_queueE: "the_queue s q P \<Longrightarrow> (\<And>Q. queues s q = Some Q \<Longrightarrow> P Q \<Longrightarrow> R) \<Longrightarrow> R"
  by (auto simp: the_queue_def split: option.splits)

fun may :: "os_config \<Rightarrow> kernel_env \<Rightarrow> u32 \<Rightarrow> kernel_call \<Rightarrow> os \<Rightarrow> bool" where
  "may cfg E idle TimerTick s = True"
| "may cfg E idle SoftInterrupt s = (\<not> PENDING_MACLAYER_SV s)"
| "may cfg E idle (DelayFor n) s = (on_cpu s \<and> may_block idle s)"
| "may cfg E idle (DelayTill p i) s = (on_cpu s \<and> may_block idle s)"
| "may cfg E idle SuspendAll s = (on_cpu s \<and> uxSchedulerSuspended s + 1 \<noteq> 0)"
| "may cfg E idle ResumeAll s = (on_cpu s \<and> uxSchedulerSuspended s \<noteq> 0)"
| "may cfg E idle (CreateTask code name d par pri) s =
     (on_cpu s \<and> uxCurrentNumberOfTasks s + 1 \<noteq> 0 \<and> new_task_block E d s)"
| "may cfg E idle (CreateQueue n z) s = (on_cpu s \<and> n \<noteq> 0 \<and> new_queue_block E n z s)"
| "may cfg E idle (SendMessage q item w pos) s =
     (on_cpu s \<and> wait_ok cfg idle w s \<and> pos \<noteq> queueOVERWRITE \<and> the_queue s q (may_give s))"
| "may cfg E idle (ReceiveMessage q buf w) s =
     (on_cpu s \<and> wait_ok cfg idle w s \<and> the_queue s q (\<lambda>Q. uxItemSize Q \<noteq> 0))"
| "may cfg E idle CreateMutex s = (on_cpu s \<and> new_queue_block E 1 0 s)"
| "may cfg E idle (TakeSemaphore q w) s =
     (on_cpu s \<and> wait_ok cfg idle w s \<and> the_queue s q (\<lambda>Q. uxItemSize Q = 0))"
| "may cfg E idle (TakeRecursive q w) s =
     (on_cpu s \<and> wait_ok cfg idle w s \<and> the_queue s q (\<lambda>Q. uxItemSize Q = 0))"
| "may cfg E idle (GiveRecursive q) s = (on_cpu s \<and> the_queue s q (\<lambda>Q. uxItemSize Q = 0))"
| "may cfg E idle (SendFromInterrupt q item pos) s =
     (pos \<noteq> queueOVERWRITE \<and> the_queue s q (\<lambda>Q. uxQueueType Q \<noteq> queueQUEUE_IS_MUTEX))"
| "may cfg E idle (GiveFromInterrupt q) s =
     the_queue s q (\<lambda>Q. uxItemSize Q = 0 \<and> uxQueueType Q \<noteq> queueQUEUE_IS_MUTEX)"
| "may cfg E idle (ReceiveFromInterrupt q buf) s = the_queue s q (\<lambda>Q. uxQueueType Q \<noteq> queueQUEUE_IS_MUTEX)"

inductive kernel_runs :: "os_config \<Rightarrow> kernel_env \<Rightarrow> u32 \<Rightarrow> os \<Rightarrow> kernel_call list \<Rightarrow> os \<Rightarrow> bool"
  for cfg E idle s0 where
  start: "kernel_runs cfg E idle s0 [] s0"
| call: "kernel_runs cfg E idle s0 cs s \<Longrightarrow> may cfg E idle c s \<Longrightarrow> kernel_do cfg E c s = Some s'
    \<Longrightarrow> kernel_runs cfg E idle s0 (cs @ [c]) s'"

section \<open>Every call\<close>

lemma kernel_do_returns:
  assumes a: "kernel_alive cfg idle s" and m: "may cfg E idle c s"
  shows "\<exists>s'. kernel_do cfg E c s = Some s' \<and> kernel_alive cfg idle s'"
proof (cases c)
  case TimerTick
  then show ?thesis using alive_tick[OF a] by simp
next
  case SoftInterrupt
  then show ?thesis using alive_soft_interrupt[OF a] m by simp
next
  case (DelayFor n)
  then show ?thesis using alive_delay[OF a] m by simp
next
  case (DelayTill p i)
  then show ?thesis using alive_delay_until[OF a, of p i] m by fastforce
next
  case SuspendAll
  then show ?thesis using alive_suspend[OF a] m by simp
next
  case ResumeAll
  then show ?thesis using alive_resume[OF a] m by fastforce
next
  case (CreateTask code name d par pri)
  then show ?thesis using alive_create[OF a, of E d code name par pri] m by fastforce
next
  case (CreateQueue n z)
  then show ?thesis using alive_create_queue[OF a, where n = n and z = z and E = E] m by fastforce
next
  case (SendMessage q item w pos)
  then obtain Q where "queues s q = Some Q" "may_give s Q" using m by (auto elim: the_queueE)
  then show ?thesis using alive_send[OF a, of w q Q pos item] m SendMessage by fastforce
next
  case (ReceiveMessage q buf w)
  then obtain Q where "queues s q = Some Q" "uxItemSize Q \<noteq> 0" using m by (auto elim: the_queueE)
  then show ?thesis using alive_receive[OF a, of w q Q buf] m ReceiveMessage by fastforce
next
  case CreateMutex
  then show ?thesis using alive_create_mutex[OF a, of E] m by fastforce
next
  case (TakeSemaphore q w)
  then obtain Q where "queues s q = Some Q" "uxItemSize Q = 0" using m by (auto elim: the_queueE)
  then show ?thesis using alive_take[OF a, of w q Q] m TakeSemaphore by fastforce
next
  case (TakeRecursive q w)
  then obtain Q where "queues s q = Some Q" "uxItemSize Q = 0" using m by (auto elim: the_queueE)
  then show ?thesis using alive_take_recursive[OF a, of w q Q] m TakeRecursive by fastforce
next
  case (GiveRecursive q)
  then obtain Q where "queues s q = Some Q" "uxItemSize Q = 0" using m by (auto elim: the_queueE)
  then show ?thesis using alive_give_recursive[OF a, of q Q] m GiveRecursive by fastforce
next
  case (SendFromInterrupt q item pos)
  then obtain Q where "queues s q = Some Q" "uxQueueType Q \<noteq> queueQUEUE_IS_MUTEX" using m by (auto elim: the_queueE)
  then show ?thesis using alive_send_isr[OF a, of q Q pos item] m SendFromInterrupt by fastforce
next
  case (GiveFromInterrupt q)
  then obtain Q where "queues s q = Some Q" "uxItemSize Q = 0" "uxQueueType Q \<noteq> queueQUEUE_IS_MUTEX"
    using m by (auto elim: the_queueE)
  then show ?thesis using alive_give_isr[OF a, of q Q] GiveFromInterrupt by fastforce
next
  case (ReceiveFromInterrupt q buf)
  then obtain Q where "queues s q = Some Q" "uxQueueType Q \<noteq> queueQUEUE_IS_MUTEX" using m by (auto elim: the_queueE)
  then show ?thesis using alive_receive_isr[OF a, of q Q buf] ReceiveFromInterrupt by fastforce
qed

lemma run_alive: "kernel_runs cfg E idle s0 cs s \<Longrightarrow> kernel_alive cfg idle s0 \<Longrightarrow> kernel_alive cfg idle s"
proof (induction rule: kernel_runs.induct)
  case (call cs s c s')
  then show ?case using kernel_do_returns[of cfg idle s E c] by auto
qed

end
