(* ===== verification/Os_Start.thy ===== *)
theory Os_Start
  imports Os_Kernel_Run
begin

unbundle bit_operations_syntax

text \<open>
  Starting the scheduler: \<open>vTaskStartScheduler\<close> and the idle task of \<^verbatim>\<open>src/ffi/os/task.c\<close>,
  \<open>xPortStartScheduler\<close> of \<^verbatim>\<open>port.c\<close>, and the interrupt level of \<^verbatim>\<open>portable.h\<close> and \<^verbatim>\<open>interrupt.h\<close>, on
  the kernel together with the processor's registers. The start does not return on the hardware: the
  model ends where \<open>__xt_int_exit\<close>, which is assembly, takes up the first task's stack.
\<close>

section \<open>The machine\<close>

record machine =
  kern :: os
  vectors :: "unit cpu"
  ps :: u32
  cpu_sr :: u32
  level1_int_disabled :: u8
  NMIIrqIsOn :: u8
  ccompare0 :: u32
  intenable :: u32
  ccount_reads :: nat
  supervisor_sp :: u32
  a1 :: u32

definition configMINIMAL_STACK_SIZE :: u16 where "configMINIMAL_STACK_SIZE = 128"
definition portPRIVILEGE_BIT :: u32 where "portPRIVILEGE_BIT = 0"
definition XCHAL_EXCM_LEVEL :: u32 where "XCHAL_EXCM_LEVEL = 2"
definition errCOULD_NOT_ALLOCATE_REQUIRED_MEMORY :: int where "errCOULD_NOT_ALLOCATE_REQUIRED_MEMORY = -1"

section \<open>The interrupt level\<close>

definition xt_get_intlevel :: "machine \<Rightarrow> u32" where
  "xt_get_intlevel m = ps m AND 0xF"

definition xt_disable_interrupts :: "machine \<Rightarrow> u32 \<times> machine" where
  "xt_disable_interrupts m = (ps m, m\<lparr>ps := (ps m AND NOT 0xF) OR XCHAL_EXCM_LEVEL\<rparr>)"

definition xt_restore_interrupts :: "u32 \<Rightarrow> machine \<Rightarrow> machine" where
  "xt_restore_interrupts new_ps m = m\<lparr>ps := new_ps\<rparr>"

definition portDISABLE_INTERRUPTS :: "machine \<Rightarrow> machine" where
  "portDISABLE_INTERRUPTS m =
     (if NMIIrqIsOn m = 0 \<and> level1_int_disabled m = 0
      then let (old, m1) = xt_disable_interrupts m in m1\<lparr>cpu_sr := old, level1_int_disabled := 1\<rparr>
      else m)"

text \<open>
  \<open>_xt_isr_mask\<close> keeps the interrupts of its mask enabled and turns off the others; the function
  beside it that enables interrupts is commented out.
\<close>

definition xt_isr_mask :: "u32 \<Rightarrow> machine \<Rightarrow> machine" where
  "xt_isr_mask keep m = m\<lparr>intenable := intenable m AND keep\<rparr>"

definition xt_read_ints :: "machine \<Rightarrow> u32" where
  "xt_read_ints m = intenable m"

section \<open>What the start gets from outside\<close>

text \<open>
  Addresses of functions and of the idle task's name, the allocator, the cycle counter, the function
  that enables interrupts (declared in \<^verbatim>\<open>interrupt.h\<close>, defined nowhere in the sources) and
  \<open>xTimerCreateTimerTask\<close> (declared in \<^verbatim>\<open>timers.h\<close>), which returns a code and the new state.
\<close>

record start_env =
  st_port :: port_params
  st_malloc :: "u32 \<Rightarrow> os \<Rightarrow> u32"
  st_tcb :: TCB
  prvIdleTask_address :: u32
  configIDLE_TASK_NAME_address :: u32
  SV_ISR_address :: u32
  xt_timer_int_address :: u32
  xt_isr_unmask :: "u32 \<Rightarrow> u32 \<Rightarrow> u32"
  cycles :: "nat \<Rightarrow> u32"
  st_cpu_freq :: u32
  xTimerCreateTimerTask :: "os \<Rightarrow> (int \<times> os) option"

section \<open>The port's part\<close>

definition xPortStartScheduler :: "start_env \<Rightarrow> machine \<Rightarrow> machine option" where
  "xPortStartScheduler E m =
     do {
       v1 \<leftarrow> xt_isr_attach INUM_SOFT (SV_ISR_address E) 0 (vectors m);
       let m1 = m\<lparr>vectors := v1, intenable := xt_isr_unmask E (push_bit (unat INUM_SOFT) 1) (intenable m)\<rparr>;
       v2 \<leftarrow> xt_isr_attach INUM_TICK (xt_timer_int_address E) 0 (vectors m1);
       let m2 = m1\<lparr>vectors := v2, intenable := xt_isr_unmask E (push_bit (unat INUM_TICK) 1) (intenable m1)\<rparr>;
       let (cmp, ena) = xt_tick_timer_init (cycles E) (st_cpu_freq E) (ccount_reads m2) (intenable m2);
       let m3 = m2\<lparr>ccompare0 := cmp, intenable := ena, ccount_reads := Suc (ccount_reads m2)\<rparr>;
       s \<leftarrow> vTaskSwitchContext (kern m3);
       let m4 = m3\<lparr>kern := s\<rparr>;
       Some (m4\<lparr>supervisor_sp := a1 m4\<rparr>)
     }"

section \<open>The kernel's part\<close>

text \<open>The idle task is created with the handle written to \<open>xIdleTaskHandle\<close>; the code is 1 for success.\<close>

definition create_idle_task :: "start_env \<Rightarrow> os_config \<Rightarrow> os \<Rightarrow> (int \<times> os) option" where
  "create_idle_task E cfg s =
     do {
       (h, s1) \<leftarrow> xTaskCreate (st_port E) cfg (st_malloc E) (st_tcb E) (prvIdleTask_address E)
                    (configIDLE_TASK_NAME_address E) configMINIMAL_STACK_SIZE 0 portPRIVILEGE_BIT s;
       Some (case h of Some t \<Rightarrow> (1, s1\<lparr>xIdleTaskHandle := t\<rparr>)
                     | None \<Rightarrow> (errCOULD_NOT_ALLOCATE_REQUIRED_MEMORY, s1))
     }"

definition vTaskStartScheduler :: "start_env \<Rightarrow> os_config \<Rightarrow> machine \<Rightarrow> machine option" where
  "vTaskStartScheduler E cfg m =
     do {
       (r, s1) \<leftarrow> create_idle_task E cfg (kern m);
       (xReturn, s2) \<leftarrow> (if r = 1 then xTimerCreateTimerTask E s1 else Some (r, s1));
       let m1 = m\<lparr>kern := s2\<rparr>;
       (if xReturn = 1
        then do {
          let m2 = portDISABLE_INTERRUPTS m1;
          let m3 = m2\<lparr>kern := (kern m2)\<lparr>xNextTaskUnblockTime := portMAX_DELAY, xSchedulerRunning := True,
                     xTickCount := configINITIAL_TICK_COUNT\<rparr>\<rparr>;
          xPortStartScheduler E m3
        }
        else Some m1)
     }"

definition vTaskEndScheduler :: "machine \<Rightarrow> machine" where
  "vTaskEndScheduler m =
     (let m1 = portDISABLE_INTERRUPTS m in m1\<lparr>kern := (kern m1)\<lparr>xSchedulerRunning := False\<rparr>\<rparr>)"

text \<open>
  One round of the idle task's endless loop. The configuration has preemption on, and neither yielding
  of the idle task nor its hook nor tickless idling.
\<close>

definition prvIdleTask_round :: "os_config \<Rightarrow> os \<Rightarrow> os option" where
  "prvIdleTask_round cfg s = prvCheckTasksWaitingTermination cfg s"

section \<open>Before the start\<close>

definition ready_to_start :: "os_config \<Rightarrow> os \<Rightarrow> bool" where
  "ready_to_start cfg s \<longleftrightarrow> kernel_inv cfg s \<and> unsuspended s \<and> \<not> xSchedulerRunning s
     \<and> (\<forall>t. is_task s t \<longrightarrow> ready s t) \<and> running_free s \<and> no_strays s
     \<and> (\<forall>q Q. queues s q = Some Q \<longrightarrow> queue_ok s Q)"

text \<open>
  \<open>xTimerCreateTimerTask\<close> uses the kernel's own calls: before the scheduler runs it succeeds, adds what
  it creates to what is there, and leaves the idle task's handle alone.
\<close>

definition timer_task_law :: "os_config \<Rightarrow> (os \<Rightarrow> (int \<times> os) option) \<Rightarrow> bool" where
  "timer_task_law cfg f \<longleftrightarrow> (\<forall>s. ready_to_start cfg s \<longrightarrow> (\<exists>s'. f s = Some (1, s') \<and> ready_to_start cfg s'
     \<and> xIdleTaskHandle s' = xIdleTaskHandle s
     \<and> (\<forall>t. is_task s t \<longrightarrow> is_task s' t \<and> priority_of s' t = priority_of s t)))"

lemma ready_to_startD:
  assumes "ready_to_start cfg s"
  shows "kernel_inv cfg s" and "unsuspended s" and "\<not> xSchedulerRunning s" and "is_task s t \<Longrightarrow> ready s t"
    and "running_free s" and "no_strays s" and "queues s q = Some Q \<Longrightarrow> queue_ok s Q"
  using assms by (auto simp: ready_to_start_def)

text \<open>Any task of a kernel that is not running yet may stand in for the idle task of a run.\<close>

lemma ready_to_start_alive:
  "ready_to_start cfg s \<Longrightarrow> is_task s t \<Longrightarrow> kernel_alive cfg t s"
  by (simp add: ready_to_start_def kernel_alive_def caught_up_def unsuspended_def)

lemma create_ready_to_start:
  assumes r: "ready_to_start cfg s" and c: "uxCurrentNumberOfTasks s + 1 \<noteq> 0"
    and b: "stack_block malloc d s \<noteq> 0" "tcb_block pp malloc d s = t" "t \<noteq> 0" "tcbs s t = None"
  obtains s' where "xTaskCreate pp cfg malloc fresh code name d par pri s = Some (Some t, s')"
    and "ready_to_start cfg s'" and "is_task s' t" and "priority_of s' t = clamp_priority pri"
    and "\<forall>u. is_task s u \<longrightarrow> is_task s' u \<and> priority_of s' u = priority_of s u"
    and "uxCurrentNumberOfTasks s' = uxCurrentNumberOfTasks s + 1" and "xIdleTaskHandle s' = xIdleTaskHandle s"
    and "queues s' = queues s" and "heap_log s' = heap_log (after_blocks pp malloc d s)"
proof -
  note k = ready_to_startD(1)[OF r]
  have nt: "\<not> is_task s t" using b(4) by (simp add: is_task_def)
  obtain s' where s': "xTaskCreate pp cfg malloc fresh code name d par pri s = Some (Some t, s')"
    "kernel_inv cfg s'" "is_task s' t" "priority_of s' t = clamp_priority pri" and o: "\<forall>u. u \<noteq> t \<longrightarrow> tcbs s' u = tcbs s u"
    and n: "uxCurrentNumberOfTasks s' = uxCurrentNumberOfTasks s + 1"
    and sr: "same_rest (after_blocks pp malloc d s) s'"
    and h: "\<forall>i. home s' i = (if i = StateListItem t then Some (ReadyTasksList (clamp_priority pri))
         else if i = EventListItem t then None else home s i)"
    by (rule create_spec[OF k b(1,2,3) nt]) blast
  have old: "is_task s' u \<and> priority_of s' u = priority_of s u" if "is_task s u" for u
  proof -
    have "u \<noteq> t" using that nt by blast
    then show ?thesis using o that by (simp add: is_task_def priority_of_def)
  qed
  have "kernel_alive cfg (pxCurrentTCB s) s" by (rule ready_to_start_alive[OF r current_task[OF k]])
  from alive_create[OF this c, of "\<lparr>env_port = pp, env_malloc = malloc, env_tcb = fresh, env_queue = undefined\<rparr>" d
      code name par pri]
  have a: "kernel_alive cfg (pxCurrentTCB s) s'"
    using s'(1) b(4) by (auto simp: new_task_block_def b(2))
  have f: "uxSchedulerSuspended s' = uxSchedulerSuspended s" "xSchedulerRunning s' = xSchedulerRunning s"
    "queues s' = queues s" "xIdleTaskHandle s' = xIdleTaskHandle s" "heap_log s' = heap_log (after_blocks pp malloc d s)"
    using sr by (simp_all add: same_rest_def after_blocks_def)
  have "is_task s' u \<longrightarrow> ready s' u" for u
  proof (cases "u = t")
    case False
    then have "is_task s' u = is_task s u" using o by (simp add: is_task_def)
    then show ?thesis using h False ready_to_startD(4)[OF r, of u] by (simp add: ready_iff)
  qed (use h in \<open>simp add: ready_iff\<close>)
  moreover have "unsuspended s'" using alive_unsuspended[OF a] ready_to_startD(2)[OF r] f(1) by (simp add: unsuspended_def)
  ultimately have "ready_to_start cfg s'"
    using a f(2) ready_to_startD(3)[OF r] by (simp add: ready_to_start_def kernel_alive_def)
  then show ?thesis using that s' old n f by blast
qed

end
