(* ===== verification/Os_Kernel_Properties.thy ===== *)
theory Os_Kernel_Properties
  imports Os_Start Os_Queue_Demo
begin

unbundle bit_operations_syntax

text \<open>What the start of the scheduler and the runs after it promise, with instances on the concrete kernel.\<close>

section \<open>The start\<close>

lemma idle_task_created:
  assumes r: "ready_to_start cfg s" and c: "uxCurrentNumberOfTasks s + 1 \<noteq> 0"
    and b: "stack_block (st_malloc E) configMINIMAL_STACK_SIZE s \<noteq> 0"
      "tcb_block (st_port E) (st_malloc E) configMINIMAL_STACK_SIZE s = t" "t \<noteq> 0" "tcbs s t = None"
  obtains s' where "create_idle_task E cfg s = Some (1, s')" and "ready_to_start cfg s'" and "is_task s' t"
    and "priority_of s' t = 0" and "\<forall>u. is_task s u \<longrightarrow> is_task s' u \<and> priority_of s' u = priority_of s u"
    and "xIdleTaskHandle s' = t"
proof -
  obtain s1 where s1: "xTaskCreate (st_port E) cfg (st_malloc E) (st_tcb E) (prvIdleTask_address E)
        (configIDLE_TASK_NAME_address E) configMINIMAL_STACK_SIZE 0 portPRIVILEGE_BIT s = Some (Some t, s1)"
    "ready_to_start cfg s1" "is_task s1 t" "priority_of s1 t = clamp_priority portPRIVILEGE_BIT"
    "\<forall>u. is_task s u \<longrightarrow> is_task s1 u \<and> priority_of s1 u = priority_of s u"
    by (rule create_ready_to_start[OF r c b]) (rule that; assumption)
  have p: "clamp_priority portPRIVILEGE_BIT = 0"
    by (simp add: portPRIVILEGE_BIT_def clamp_priority_def configMAX_PRIORITIES_def word_le_nat_alt)
  let ?s = "s1\<lparr>xIdleTaskHandle := t\<rparr>"
  have v: "is_task ?s = is_task s1" "priority_of ?s = priority_of s1" "ready ?s = ready s1"
    by (simp_all add: is_task_def priority_of_def ready_def fun_eq_iff)
  have "kernel_inv cfg ?s" by (rule inv_cong[OF ready_to_startD(1)[OF s1(2)]]) simp_all
  then have "ready_to_start cfg ?s"
    using s1(2) by (simp add: ready_to_start_def unsuspended_def pending_def running_free_def no_strays_def queue_ok_def holder_known_def v)
  moreover have "create_idle_task E cfg s = Some (1, ?s)" by (simp add: create_idle_task_def s1(1))
  ultimately show ?thesis using that[of ?s] s1(3-5) p by (simp add: v)
qed

lemma clock_reset_alive:
  assumes r: "ready_to_start cfg s" and t: "is_task s t"
  shows "kernel_alive cfg t (s\<lparr>xNextTaskUnblockTime := n, xSchedulerRunning := True, xTickCount := k\<rparr>)"
proof -
  let ?s = "s\<lparr>xNextTaskUnblockTime := n, xSchedulerRunning := True, xTickCount := k\<rparr>"
  note inv = ready_to_startD(1)[OF r]
  have v: "is_task (s\<lparr>xNextTaskUnblockTime := n, xSchedulerRunning := True\<rparr>) = is_task s"
    "is_task ?s = is_task s" "ready ?s = ready s" "pending ?s = pending s"
    by (simp_all add: is_task_def ready_def pending_def fun_eq_iff)
  have "kernel_core {} cfg ?s" by (rule core_cong[OF invD(1)[OF inv]]) simp_all
  moreover have "home s (StateListItem u) \<noteq> pxDelayedTaskList s" "home s (StateListItem u) \<noteq> pxOverflowDelayedTaskList s"
    if "tcbs s u = Some tcb" for u tcb
    using ready_to_startD(4)[OF r, of u] that coreD(5)[OF invD(1)[OF inv]]
    by (auto simp: delay_ok_def ready_iff is_task_def)
  then have "due_ok ?s" "overflow_ok ?s" by (auto simp: due_ok_def overflow_ok_def is_task_def)
  ultimately have "kernel_inv cfg ?s" by (simp add: kernel_inv_def)
  then show ?thesis using r t
    by (simp add: ready_to_start_def kernel_alive_def unsuspended_def caught_up_def running_free_def no_strays_def queue_ok_def holder_known_def v)
qed

lemma port_start_eq:
  assumes v: "length (isr (vectors m)) = 16" and s: "vTaskSwitchContext (kern m) = Some s"
    and un: "\<forall>k e. xt_isr_unmask E k e = e OR k"
  shows "xPortStartScheduler E m = Some (m\<lparr>kern := s,
     vectors := (vectors m)\<lparr>isr := (isr (vectors m))[7 := \<lparr>handler = SV_ISR_address E, arg = 0\<rparr>,
       6 := \<lparr>handler = xt_timer_int_address E, arg = 0\<rparr>]\<rparr>,
     ccompare0 := cycles E (ccount_reads m) + ccount_interval (st_cpu_freq E),
     intenable := intenable m OR 0xC0, ccount_reads := Suc (ccount_reads m), supervisor_sp := a1 m\<rparr>)"
proof -
  have o: "intenable m OR 0x80 OR 0x40 OR 0x40 = intenable m OR 0xC0"
    by (simp add: or.assoc)
  show ?thesis
    using v s un o
    by (simp add: xPortStartScheduler_def xt_isr_attach_def INUM_SOFT_def INUM_TICK_def Let_def
        xt_tick_timer_init_def INTENABLE_CCOMPARE_def or.assoc)
qed


text \<open>An instance: the kernel with two tasks, and a timer task created when there is a free block for it.\<close>

definition demo_timer_task :: "os \<Rightarrow> (int \<times> os) option" where
  "demo_timer_task s =
     (let t = tcb_block demo_port page_malloc 256 s in
      if stack_block page_malloc 256 s = 0 \<or> t = 0 \<or> tcbs s t \<noteq> None \<or> uxCurrentNumberOfTasks s + 1 = 0 then Some (1, s)
      else do { (_, s') \<leftarrow> xTaskCreate demo_port as_built page_malloc demo_tcb 0x40210000 0 256 0 14 s; Some (1, s') })"

definition demo_start :: start_env where
  "demo_start = \<lparr>st_port = demo_port, st_malloc = page_malloc, st_tcb = demo_tcb, prvIdleTask_address = 0x40220000,
     configIDLE_TASK_NAME_address = 0, SV_ISR_address = 0x40230000, xt_timer_int_address = 0x40240000,
     xt_isr_unmask = (\<lambda>k e. e OR k), cycles = (\<lambda>_. 1000), st_cpu_freq = 80,
     xTimerCreateTimerTask = demo_timer_task\<rparr>"

definition demo_machine :: machine where
  "demo_machine = \<lparr>kern = demo_two, vectors = \<lparr>isr = replicate 16 \<lparr>handler = 0, arg = 0\<rparr>, esp_in_isr = False,
     intclear = [], world = ()\<rparr>, ps = 0x20, cpu_sr = 0, level1_int_disabled = 0, NMIIrqIsOn = 0, ccompare0 = 0,
     intenable = 0, ccount_reads = 0, supervisor_sp = 0x40000000, a1 = 0x3FFFFF00\<rparr>"

lemma demo_timer_law: "timer_task_law as_built demo_timer_task"
  unfolding timer_task_law_def
proof (intro allI impI)
  fix s assume r: "ready_to_start as_built s"
  let ?t = "tcb_block demo_port page_malloc 256 s"
  show "\<exists>s'. demo_timer_task s = Some (1, s') \<and> ready_to_start as_built s' \<and> xIdleTaskHandle s' = xIdleTaskHandle s
     \<and> (\<forall>t. is_task s t \<longrightarrow> is_task s' t \<and> priority_of s' t = priority_of s t)"
  proof (cases "stack_block page_malloc 256 s = 0 \<or> ?t = 0 \<or> tcbs s ?t \<noteq> None \<or> uxCurrentNumberOfTasks s + 1 = 0")
    case True
    then show ?thesis using r by (auto simp: demo_timer_task_def Let_def)
  next
    case False
    then have b: "uxCurrentNumberOfTasks s + 1 \<noteq> 0" "stack_block page_malloc 256 s \<noteq> 0" "?t \<noteq> 0" "tcbs s ?t = None"
      by auto
    obtain s' where "xTaskCreate demo_port as_built page_malloc demo_tcb 0x40210000 0 256 0 14 s = Some (Some ?t, s')"
      "ready_to_start as_built s'" "\<forall>u. is_task s u \<longrightarrow> is_task s' u \<and> priority_of s' u = priority_of s u"
      "xIdleTaskHandle s' = xIdleTaskHandle s"
      by (rule create_ready_to_start[OF r b(1,2) refl b(3,4)]) (rule that; assumption)
    then show ?thesis using False by (simp add: demo_timer_task_def Let_def)
  qed
qed

lemma demo_ready_to_start: "ready_to_start as_built demo_two"
  using demo_two(2) demo_two_unsuspended
  by (simp add: ready_to_start_def demo_two_rest demo_two_tasks ready_iff running_free_def no_strays_def demo_two(12))

lemma demo_start_blocks:
  "stack_block page_malloc configMINIMAL_STACK_SIZE demo_two \<noteq> 0"
  "tcb_block demo_port page_malloc configMINIMAL_STACK_SIZE demo_two = 0x6000"
  by (simp_all add: stack_block_def tcb_block_def page_malloc_def demo_two_rest)


section \<open>Runs\<close>


definition demo_env :: kernel_env where
  "demo_env = \<lparr>env_port = demo_port, env_malloc = page_malloc, env_tcb = demo_tcb, env_queue = demo_fresh_queue\<rparr>"


end
