(* ===== verification/Os_Mutex_Properties.thy ===== *)
theory Os_Mutex_Properties
  imports Os_Kernel_Properties
begin

text \<open>
  What a mutex promises the task that waits for it: its priority is lent to the holder while it waits, and
  the holder falls back when it gives the mutex, which wakes the first task that waits.
\<close>

section \<open>Waiting lends the priority\<close>

text \<open>
  C3: When the running task takes a mutex that another task holds, with a block time, it sleeps for that
  many ticks in the mutex's list of waiting tasks, placed there by priority, and the holder has at least its
  priority from then on; a ready holder moves to the ready list of that priority, and no other task's
  priority changes. So the next context switch does not run a task of lower priority than the one that waits,
  as long as the holder is ready: the wait is not prolonged by tasks of a priority in between.
\<close>

theorem mutex_lends_priority:
  assumes "kernel_alive cfg idle s" and "on_cpu s" and "wait_ok cfg idle w s" and "w \<noteq> 0"
    and "queues s q = Some Q" and "uxQueueType Q = queueQUEUE_IS_MUTEX" and "uxMessagesWaiting Q = 0"
    and "xMutexHolder Q = h" and "h \<noteq> 0" and "h \<noteq> pxCurrentTCB s"
  shows "\<exists>s'. xSemaphoreTake cfg [undisturbed] q w s = Some (StillBlocked s') \<and> kernel_alive cfg idle s'
    \<and> delayed s' (pxCurrentTCB s) \<and> ticks_left s' (pxCurrentTCB s) = unat w
    \<and> home s' (EventListItem (pxCurrentTCB s)) = Some (WaitingToReceive q)
    \<and> (home s (EventListItem h) \<noteq> Some (WaitingToReceive q) \<longrightarrow> items s' (WaitingToReceive q)
         = insert_by_value (val s) (EventListItem (pxCurrentTCB s)) (items s (WaitingToReceive q)))
    \<and> priority_of s' h = max (priority_of s h) (priority_of s (pxCurrentTCB s))
    \<and> (\<forall>u. u \<noteq> h \<longrightarrow> priority_of s' u = priority_of s u)
    \<and> (ready s h \<longrightarrow> home s' (StateListItem h) = Some (ReadyTasksList (priority_of s' h)))
    \<and> (\<exists>s''. vTaskSwitchContext s' = Some s'' \<and> runs_highest s''
         \<and> (ready s h \<longrightarrow> priority_of s (pxCurrentTCB s) \<le> priority_of s'' (pxCurrentTCB s'')))"
proof -
  note a = assms(1) and q = assms(5)
  have run: "uxSchedulerSuspended s = 0" and o: "pxCurrentTCB s \<noteq> idle" "counts_time cfg w"
    using assms(3,4) by (simp_all add: wait_ok_def)
  have i: "cRxLock Q = queueUNLOCKED" "cTxLock Q = queueUNLOCKED" "holder_known s Q"
    using aliveD(8)[OF a q] by (simp_all add: queue_ok_def intact_def)
  have th: "is_task s h" using i(3) assms(6,8,9) by (simp add: holder_known_def)
  obtain s' where s': "xQueueSemaphoreTake cfg [undisturbed] q w s = Some (StillBlocked s')" "waits_lending cfg Q q w s s'"
    using take_waits[OF aliveD(1)[OF a] alive_unsuspended[OF a run] q i(1,2) assms(7) i(3) o(2) assms(4)
      alive_current[OF a assms(2)]] by blast
  have a': "kernel_alive cfg idle s'" by (rule waits_lending_alive[OF a o(1) s'(2)])
  have f: "unsuspended s'" "is_task s' = is_task s" "pxCurrentTCB s' = pxCurrentTCB s"
    "delayed s' (pxCurrentTCB s)" "ticks_left s' (pxCurrentTCB s) = unat w"
    "priority_of s' = lent_priority Q s" "home s' (EventListItem (pxCurrentTCB s)) = Some (WaitingToReceive q)"
    "u \<noteq> pxCurrentTCB s \<Longrightarrow> home s' (StateListItem u) =
       (if is_task s u \<and> ready s u then Some (ReadyTasksList (lent_priority Q s u)) else home s (StateListItem u))"
    "home s (EventListItem h) \<noteq> Some (WaitingToReceive q) \<Longrightarrow> items s' (WaitingToReceive q)
       = insert_by_value (val s) (EventListItem (pxCurrentTCB s)) (items s (WaitingToReceive q))" for u
    using s'(2) assms(8,10) by (simp_all add: waits_lending_def)
  have p: "priority_of s' h = max (priority_of s h) (priority_of s (pxCurrentTCB s))"
    "u \<noteq> h \<Longrightarrow> priority_of s' u = priority_of s u" for u
    using assms(6,8,9) by (simp_all add: f(6) lent_priority_def)
  have rh: "ready s h \<longrightarrow> home s' (StateListItem h) = Some (ReadyTasksList (priority_of s' h))"
    using f(8)[OF assms(10)] th by (simp add: f(6))
  have run': "uxSchedulerSuspended s' = 0" using f(1) by (simp add: unsuspended_def)
  obtain s'' where s'': "vTaskSwitchContext s' = Some s''" using alive_switch[OF a'] by blast
  note sw = switch_runs_highest[OF a' run' s'']
  have "priority_of s (pxCurrentTCB s) \<le> priority_of s'' (pxCurrentTCB s'')" if r: "ready s h"
  proof -
    have same: "is_task s'' = is_task s'" "ready s'' = ready s'" "priority_of s'' = priority_of s'"
      using sw by (simp_all add: is_task_def ready_def priority_of_def fun_eq_iff)
    have "is_task s'' h" "ready s'' h" using th f(2) rh r by (auto simp: same ready_iff)
    then have "priority_of s'' h \<le> priority_of s'' (pxCurrentTCB s'')" using sw by (simp add: runs_highest_def)
    then show ?thesis using p(1) by (simp add: same)
  qed
  then show ?thesis using s'(1) a' f(4,5,7,9) p rh s'' sw unfolding xSemaphoreTake_def by blast
qed

section \<open>Giving the mutex back\<close>

lemma first_waiting_head:
  assumes k: "kernel_core X cfg s" and l: "l \<in> event_lists s" and i: "items s l = i # is"
  shows "i = EventListItem (first_waiting s l)"
proof -
  obtain t where "i = EventListItem t" "owner s i = t" by (rule event_list_items[OF k l, of i]) (use i in auto)
  then show ?thesis using i by (simp add: first_waiting_def)
qed

lemma give_mutex:
  assumes a: "kernel_alive cfg idle s" and run: "uxSchedulerSuspended s = 0" and q: "queues s q = Some Q"
    and m: "uxQueueType Q = queueQUEUE_IS_MUTEX" and room: "uxMessagesWaiting Q < uxLength Q"
    and h: "xMutexHolder Q = t" "t = pxCurrentTCB s" "t \<noteq> 0" and r: "ready s t" and t: "tcbs s t = Some tcb"
  defines "falls \<equiv> uxPriority tcb \<noteq> uxBasePriority tcb \<and> uxMutexesHeld tcb = 1"
  defines "Q' \<equiv> Q\<lparr>u_word0 := 0, uxMessagesWaiting := uxMessagesWaiting Q + 1\<rparr>"
  obtains s1 where "prvCopyDataToQueue q item pos s = Some (falls, put_queue q Q' (mem s) s1)"
    and "reprioritised cfg t (tcb\<lparr>uxMutexesHeld := uxMutexesHeld tcb - 1,
           uxPriority := if falls then uxBasePriority tcb else uxPriority tcb\<rparr>) s s1"
    and "queues s1 = queues s"
proof -
  have z: "uxItemSize Q = 0"
    using aliveD(8)[OF a q] m ring_not_mutex by (auto simp: queue_ok_def intact_def counter_def)
  obtain s1 where s1: "xTaskPriorityDisinherit t s = Some (falls, s1)"
    "reprioritised cfg t (tcb\<lparr>uxMutexesHeld := uxMutexesHeld tcb - 1,
           uxPriority := if falls then uxBasePriority tcb else uxPriority tcb\<rparr>) s s1"
    unfolding falls_def by (rule disinherit_spec[OF aliveD(1)[OF a] t h(3) r])
  have e: "s1 = s\<lparr>tcbs := tcbs s1, klists := klists s1, uxTopReadyPriority := uxTopReadyPriority s1\<rparr>"
    by (rule reprioritisedD(3)[OF s1(2)])
  have f: "queues s1 = queues s" "mem s1 = mem s" by (subst e, simp)+
  have "prvCopyDataToQueue q item pos s = Some (falls, put_queue q Q' (mem s) s1)"
    using q z m s1(1) h(1) f by (simp add: prvCopyDataToQueue_def upd_queue_def put_queue_def Q'_def)
  then show ?thesis using that s1(2) f(1) by blast
qed

lemma soft_request_kept:
  "os_remove i s = Some (n, s') \<Longrightarrow> PENDING_SOFT_SV s' = PENDING_SOFT_SV s"
  "prvAddTaskToReadyList t s = Some s' \<Longrightarrow> PENDING_SOFT_SV s' = PENDING_SOFT_SV s"
  "prvResetNextTaskUnblockTime s = Some s' \<Longrightarrow> PENDING_SOFT_SV s' = PENDING_SOFT_SV s"
  "PENDING_SOFT_SV (os_insert_end l i s) = PENDING_SOFT_SV s"
  by (auto simp: os_remove_def prvAddTaskToReadyList_def prvResetNextTaskUnblockTime_def os_insert_end_def Let_def
      taskRECORD_READY_PRIORITY_def split: Option.bind_splits if_splits)

lemma remove_event_request:
  assumes "xTaskRemoveFromEventList cfg l s = Some (False, s')"
  shows "PENDING_SOFT_SV s' = PENDING_SOFT_SV s"
  using assms unfolding xTaskRemoveFromEventList_def
  by (elim bind_SomeE) (auto dest!: soft_request_kept(1-3) simp: soft_request_kept(4) split: if_splits Option.bind_splits)

lemma wake_keeps_request:
  assumes "wake_one_and_yield cfg l s = Some s'" and "kernel_inv cfg s" and "l \<in> event_lists s"
    and "items s l \<noteq> []" and "uxSchedulerSuspended s = 0"
    and low: "\<not> priority_of s (pxCurrentTCB s) < priority_of s (first_waiting s l)"
  shows "PENDING_SOFT_SV s' = PENDING_SOFT_SV s"
proof -
  obtain s1 where s1: "xTaskRemoveFromEventList cfg l s = Some (False, s1)"
    by (rule remove_from_event_list_running[OF assms(2-5)]) (use low in simp)
  have "PENDING_SOFT_SV s1 = PENDING_SOFT_SV s" by (rule remove_event_request[OF s1])
  then show ?thesis
    using assms(1,4) s1 event_list_empty[OF assms(2,3)] by (simp add: wake_one_and_yield_def wake_one_def)
qed

text \<open>The critical section of the call: what it does to the holder, the queue and the first task that waits.\<close>

definition given :: "u32 \<Rightarrow> Queue \<Rightarrow> u32 \<Rightarrow> bool \<Rightarrow> os \<Rightarrow> os \<Rightarrow> bool" where
  "given q Q' p falls s s' \<longleftrightarrow> (let l = WaitingToReceive q; t = pxCurrentTCB s; x = first_waiting s l in
     queues s' = (queues s)(q \<mapsto> Q') \<and> pxCurrentTCB s' = t
     \<and> priority_of s' = (priority_of s)(t := p) \<and> home s' (StateListItem t) = Some (ReadyTasksList p)
     \<and> (items s l = [] \<longrightarrow> falls \<longrightarrow> PENDING_SOFT_SV s')
     \<and> (items s l \<noteq> [] \<longrightarrow> ready s' x \<and> home s' (EventListItem x) = None \<and> items s' l = tl (items s l)
          \<and> (p < priority_of s x \<longrightarrow> PENDING_SOFT_SV s')
          \<and> (\<not> p < priority_of s x \<longrightarrow> PENDING_SOFT_SV s' = PENDING_SOFT_SV s)))"

lemma send_now_mutex:
  assumes a: "kernel_alive cfg idle s" and cpu: "on_cpu s" and run: "uxSchedulerSuspended s = 0" and q: "queues s q = Some Q"
    and m: "uxQueueType Q = queueQUEUE_IS_MUTEX" and room: "uxMessagesWaiting Q < uxLength Q"
    and h: "xMutexHolder Q = t" "t = pxCurrentTCB s" "t \<noteq> 0" and t: "tcbs s t = Some tcb"
  defines "falls \<equiv> uxPriority tcb \<noteq> uxBasePriority tcb \<and> uxMutexesHeld tcb = 1"
  defines "p \<equiv> if falls then uxBasePriority tcb else uxPriority tcb"
  shows "\<exists>s'. send_now cfg q item pos s = Some s'
    \<and> given q (Q\<lparr>u_word0 := 0, uxMessagesWaiting := uxMessagesWaiting Q + 1\<rparr>) p falls s s'"
proof -
  let ?l = "WaitingToReceive q" and ?Q = "Q\<lparr>u_word0 := 0, uxMessagesWaiting := uxMessagesWaiting Q + 1\<rparr>"
  let ?c = "tcb\<lparr>uxMutexesHeld := uxMutexesHeld tcb - 1, uxPriority := p\<rparr>"
  note k = aliveD(1)[OF a]
  have r: "ready s t" using cpu h(2) by (simp add: on_cpu_def)
  obtain s1 where s1: "prvCopyDataToQueue q item pos s = Some (falls, put_queue q ?Q (mem s) s1)"
    "reprioritised cfg t ?c s s1" "queues s1 = queues s"
    unfolding falls_def p_def by (rule give_mutex[OF a run q m room h r t])
  note d = reprioritisedD[OF s1(2)]
  define s2 where "s2 = put_queue q ?Q (mem s) s1"
  have k2: "kernel_inv cfg s2" unfolding s2_def by (rule put_queue_inv[OF d(1)]) (simp add: s1(3) q)
  have e: "event_lists s2 = event_lists s" by (rule event_lists_dom) (use s1(3) q in \<open>auto simp: s2_def\<close>)
  have l: "?l \<in> event_lists s" using q by (auto simp: event_lists_def)
  have e1: "s1 = s\<lparr>tcbs := tcbs s1, klists := klists s1, uxTopReadyPriority := uxTopReadyPriority s1\<rparr>" by (rule d(3))
  have "pxCurrentTCB s1 = pxCurrentTCB s" "uxSchedulerSuspended s1 = uxSchedulerSuspended s"
    "PENDING_SOFT_SV s1 = PENDING_SOFT_SV s" by (subst e1, simp)+
  then have f: "pxCurrentTCB s2 = t" "uxSchedulerSuspended s2 = 0" "queues s2 = (queues s)(q \<mapsto> ?Q)"
    "items s2 ?l = items s ?l" "klists s2 = klists s1" "PENDING_SOFT_SV s2 = PENDING_SOFT_SV s"
    using run h(2) d(6)[OF l] s1(3) by (simp_all add: s2_def)
  have p2: "priority_of s2 = (priority_of s)(t := p)"
    by (auto simp: priority_of_def s2_def d(2) fun_eq_iff)
  have t2: "home s2 (StateListItem t) = Some (ReadyTasksList p)" using d(4)[of "StateListItem t"] r f(5) by simp
  show ?thesis
  proof (cases "items s ?l = []")
    case True
    then have "listLIST_IS_EMPTY ?l (klists s2)" using event_list_empty[OF k2] l e f(4) by simp
    then have "send_now cfg q item pos s = Some (if falls then portYIELD s2 else s2)"
      using s1(1) by (simp add: send_now_def s2_def)
    moreover have "given q ?Q p falls s (if falls then portYIELD s2 else s2)"
      using True f(1,3) p2 t2 h(2) by (simp add: given_def Let_def priority_of_def)
    ultimately show ?thesis by blast
  next
    case False
    let ?x = "first_waiting s ?l"
    obtain i "is" where i: "items s ?l = i # is" using False by (cases "items s ?l") auto
    have x: "i = EventListItem ?x" by (rule first_waiting_head[OF invD(1)[OF k] l i])
    have x2: "first_waiting s2 ?l = ?x"
      using first_waiting_head[OF invD(1)[OF k2], of ?l i "is"] l e f(4) i x by simp
    have "home s (EventListItem ?x) = Some ?l" using member_home[OF invD(1)[OF k], of ?l i] l i x by simp
    then have xt: "?x \<noteq> t" using alive_current[OF a cpu] h(2) by auto
    obtain s3 where s3: "wake_one_and_yield cfg ?l s2 = Some s3" "served s2 s3 ?l"
      by (rule wake_one_and_yield_spec[OF k2 _ f(2), of ?l]) (use l e in auto)
    have w: "woken {?x} s2 (klists s3)" "items s3 ?l = tl (items s ?l)" "priority_of s3 = priority_of s2"
      "pxCurrentTCB s3 = t" "queues s3 = queues s2" "p < priority_of s ?x \<longrightarrow> PENDING_SOFT_SV s3"
      using s3(2) i f(1,4) xt by (simp_all add: served_def x2 p2)
    have keep: "\<not> p < priority_of s ?x \<longrightarrow> PENDING_SOFT_SV s3 = PENDING_SOFT_SV s"
      using wake_keeps_request[OF s3(1) k2 _ _ f(2)] l e i xt by (simp add: f(1,4,6) x2 p2)
    have "given q ?Q p falls s s3"
      using keep w(2-6) False wokenD(1,2)[OF w(1), of ?x] wokenD(1)[OF w(1), of t] xt t2 f(3) p2 h(2)
      by (simp add: given_def Let_def ready_iff)
    moreover have "\<not> listLIST_IS_EMPTY ?l (klists s2)" using event_list_empty[OF k2] l e f(4) False by simp
    then have "send_now cfg q item pos s = Some s3" using s1(1) s3(1) by (simp add: send_now_def s2_def)
    ultimately show ?thesis by blast
  qed
qed

text \<open>
  C4: When the running task gives a mutex it holds, with the scheduler not suspended, the call succeeds,
  the mutex is free, and the task keeps its priority if it holds other mutexes and otherwise returns
  to its base priority, in whose ready list it is then; nobody else's priority changes. The first task that waits
  for the mutex becomes ready and leaves the list; a context switch is requested if its priority is higher than the
  giver's new one, and when nobody waits and the giver's priority has fallen. When it has fallen and the
  task woken is not superior to it no switch is requested, even if another ready task now is.
\<close>

theorem mutex_given_back:
  assumes "kernel_alive cfg idle s" and "on_cpu s" and "uxSchedulerSuspended s = 0" and "queues s q = Some Q"
    and "uxQueueType Q = queueQUEUE_IS_MUTEX" and "uxMessagesWaiting Q < uxLength Q"
    and "xMutexHolder Q = t" and "t = pxCurrentTCB s" and "t \<noteq> 0" and "tcbs s t = Some tcb"
    and "p = (if uxMutexesHeld tcb = 1 then uxBasePriority tcb else uxPriority tcb)"
    and "waiters = items s (WaitingToReceive q)" and "x = first_waiting s (WaitingToReceive q)"
  shows "\<exists>s'. xSemaphoreGive cfg q s = Some (Returned True s') \<and> kernel_alive cfg idle s'
    \<and> queues s' = (queues s)(q \<mapsto> Q\<lparr>u_word0 := 0, uxMessagesWaiting := uxMessagesWaiting Q + 1\<rparr>)
    \<and> priority_of s' = (priority_of s)(t := p) \<and> home s' (StateListItem t) = Some (ReadyTasksList p)
    \<and> (waiters = [] \<longrightarrow> p \<noteq> uxPriority tcb \<longrightarrow> PENDING_SOFT_SV s')
    \<and> (waiters \<noteq> [] \<longrightarrow> ready s' x \<and> home s' (EventListItem x) = None \<and> items s' (WaitingToReceive q) = tl waiters
         \<and> (p < priority_of s x \<longrightarrow> PENDING_SOFT_SV s')
         \<and> (\<not> p < priority_of s x \<longrightarrow> PENDING_SOFT_SV s' = PENDING_SOFT_SV s))"
proof -
  let ?e = "vPortEnterCritical s" and ?Q = "Q\<lparr>u_word0 := 0, uxMessagesWaiting := uxMessagesWaiting Q + 1\<rparr>"
  define falls where "falls \<longleftrightarrow> uxPriority tcb \<noteq> uxBasePriority tcb \<and> uxMutexesHeld tcb = 1"
  have p: "p = (if falls then uxBasePriority tcb else uxPriority tcb)" "falls \<longleftrightarrow> p \<noteq> uxPriority tcb"
    using assms(11) by (auto simp: falls_def)
  have v: "priority_of ?e = priority_of s" "first_waiting ?e = first_waiting s"
    by (simp_all add: priority_of_def first_waiting_def fun_eq_iff)
  have ae: "kernel_alive cfg idle ?e" by (rule alive_critical(1)[OF assms(1)])
  have "\<exists>s'. send_now cfg q 0 queueSEND_TO_BACK ?e = Some s' \<and> given q ?Q p falls ?e s'"
    unfolding p(1) falls_def by (rule send_now_mutex[OF ae _ _ _ assms(5,6,7)]) (use assms in \<open>simp_all add: on_cpu_def ready_iff\<close>)
  then obtain s1 where s1: "send_now cfg q 0 queueSEND_TO_BACK ?e = Some s1" "given q ?Q p falls ?e s1" by blast
  have ret: "xSemaphoreGive cfg q s = Some (Returned True (vPortExitCritical s1))"
    unfolding xSemaphoreGive_def by (rule send_pass_room[OF assms(4) _ s1(1)]) (use assms(6) in blast)
  have g: "may_give s Q" using assms(2,7,8) by (simp add: may_give_def)
  have "kernel_alive cfg idle (vPortExitCritical s1)"
    using alive_send_poll[OF assms(1,4) back_not_overwrite g, of "[]" 0] ret by (auto simp: xSemaphoreGive_def)
  moreover have "priority_of (vPortExitCritical s1) = priority_of s1" "ready (vPortExitCritical s1) = ready s1"
    by (simp_all add: priority_of_def ready_def fun_eq_iff)
  ultimately show ?thesis
    using ret s1(2) p(2) assms(8,12,13) by (intro exI[of _ "vPortExitCritical s1"]) (simp add: given_def Let_def v)
qed

section \<open>Instances\<close>

text \<open>The kernel with two tasks and a mutex at \<open>0x5000\<close> that one of them holds.\<close>

definition demo_held :: "u32 \<Rightarrow> Queue" where
  "demo_held h = \<lparr>pcHead = queueQUEUE_IS_MUTEX, pcWriteTo = 0x5000, u_word0 = h, u_word1 = 0, uxMessagesWaiting = 0,
     uxLength = 1, uxItemSize = 0, cRxLock = queueUNLOCKED, cTxLock = queueUNLOCKED\<rparr>"

definition demo_held_state :: "u32 \<Rightarrow> os" where
  "demo_held_state h = put_queue 0x5000 (demo_held h) (mem demo_queue_state) demo_queue_state"

lemma demo_queue_alive: "kernel_alive as_built 0x2000 demo_queue_state"
proof -
  have a: "kernel_alive as_built 0x2000 demo_two"
    by (rule ready_to_start_alive[OF demo_ready_to_start]) (simp add: demo_two_tasks)
  have b: "new_queue_block demo_env 2 4 demo_two"
    by (simp add: new_queue_block_def Let_def demo_env_def page_malloc_def demo_two_rest block_fits_def)
  show ?thesis using alive_create_queue[OF a _ b] demo_queue_created by (simp add: demo_env_def)
qed

lemma demo_held_alive:
  assumes "h = 0x2000 \<or> h = 0x4000"
  shows "kernel_alive as_built 0x2000 (demo_held_state h)"
  unfolding demo_held_state_def
proof (rule alive_put[OF demo_queue_alive])
  show "queues demo_queue_state 0x5000 = Some demo_queue" by (simp add: demo_queue_state_views)
  have "is_task demo_queue_state h" using assms demo_two_tasks[of h] by (auto simp: is_task_def demo_queue_state_views)
  then show "queue_ok demo_queue_state (demo_held h)"
    by (simp add: queue_ok_def intact_def counter_def holder_known_def demo_held_def)
qed

lemma demo_held_views:
  "queues (demo_held_state h) 0x5000 = Some (demo_held h)" "pxCurrentTCB (demo_held_state h) = 0x4000"
  "uxSchedulerSuspended (demo_held_state h) = 0" "home (demo_held_state h) i = home demo_two i"
  "priority_of (demo_held_state h) = priority_of demo_two" "tcbs (demo_held_state h) = tcbs demo_two"
  "items (demo_held_state h) (WaitingToReceive 0x5000) = []" "on_cpu (demo_held_state h)"
proof -
  show h: "home (demo_held_state h) i = home demo_two i" for i
    using fun_cong[OF demo_queue_state_views(6), of i] by (simp add: demo_held_state_def)
  show "on_cpu (demo_held_state h)"
    unfolding on_cpu_def ready_iff h by (simp add: demo_held_state_def demo_queue_state_views demo_two(12))
qed (simp_all add: demo_held_state_def demo_queue_state_views demo_queue_lists priority_of_def fun_eq_iff)

theorem mutex_lends_priority_witness:
  "\<exists>s'. xSemaphoreTake as_built [undisturbed] 0x5000 10 (demo_held_state 0x2000) = Some (StillBlocked s')
    \<and> ticks_left s' 0x4000 = 10 \<and> priority_of (demo_held_state 0x2000) 0x2000 = 1 \<and> priority_of s' 0x2000 = 2
    \<and> home s' (StateListItem 0x2000) = Some (ReadyTasksList 2)"
proof -
  have r: "ready (demo_held_state 0x2000) 0x2000"
    by (simp add: ready_iff demo_held_views(4) demo_two(12))
  have w: "wait_ok as_built 0x2000 10 (demo_held_state 0x2000)"
    by (simp add: wait_ok_def demo_held_views counts_time_def as_built_def)
  show ?thesis
    using mutex_lends_priority[OF demo_held_alive[of "0x2000"] demo_held_views(8) w _ demo_held_views(1), of "0x2000"] r
    by (auto simp: demo_held_views demo_held_def demo_two)
qed

theorem mutex_given_back_witness:
  "\<exists>s s'. kernel_alive as_built 0x2000 s \<and> priority_of s 0x4000 = 2
    \<and> xSemaphoreGive as_built 0x5000 s = Some (Returned True s') \<and> priority_of s' 0x4000 = 0
    \<and> home s' (StateListItem 0x4000) = Some (ReadyTasksList 0) \<and> PENDING_SOFT_SV s'"
proof -
  let ?s = "demo_held_state 0x4000"
  have a: "kernel_alive as_built 0x2000 ?s" by (rule demo_held_alive) simp
  obtain tcb where t: "tcbs ?s 0x4000 = Some tcb" using demo_two(4) by (auto simp: demo_held_views)
  have r: "ready ?s 0x4000" using demo_held_views(8)[of "0x4000"] by (simp add: on_cpu_def demo_held_views)
  define c where "c = tcb\<lparr>uxMutexesHeld := 1, uxPriority := 2, uxBasePriority := 0\<rparr>"
  have b: "uxPriority c < configMAX_PRIORITIES" "uxBasePriority c < configMAX_PRIORITIES"
    by (simp_all add: c_def configMAX_PRIORITIES_def)
  obtain s where s: "reprioritised as_built 0x4000 c ?s s"
    by (rule readd[where b = False, OF aliveD(1)[OF a] t r b])
  have tk: "is_task ?s 0x4000" using t by (simp add: is_task_def)
  note al = alive_reprioritised[OF a tk s] and d = reprioritisedD[OF s]
  have cur: "pxCurrentTCB s = 0x4000" "uxSchedulerSuspended s = 0"
    using al(4) by (simp_all add: call_frame_def demo_held_views)
  have cpu: "on_cpu s" using al(3) r by (simp add: on_cpu_def cur)
  have w: "items s (WaitingToReceive 0x5000) = []"
    using d(6)[of "WaitingToReceive 0x5000"] by (simp add: demo_held_views event_lists_def dom_def)
  have q: "queues s 0x5000 = Some (demo_held 0x4000)" by (simp add: al(5) demo_held_views)
  have tc: "tcbs s 0x4000 = Some c" by (simp add: d(2))
  have m: "uxQueueType (demo_held 0x4000) = queueQUEUE_IS_MUTEX" "uxMessagesWaiting (demo_held 0x4000) < uxLength (demo_held 0x4000)"
    "xMutexHolder (demo_held 0x4000) = 0x4000" by (simp_all add: demo_held_def)
  have p: "0 = (if uxMutexesHeld c = 1 then uxBasePriority c else uxPriority c)" by (simp add: c_def)
  obtain s' where "xSemaphoreGive as_built 0x5000 s = Some (Returned True s')"
    "priority_of s' = (priority_of s)(0x4000 := 0)" "home s' (StateListItem 0x4000) = Some (ReadyTasksList 0)"
    "0 \<noteq> uxPriority c \<longrightarrow> PENDING_SOFT_SV s'"
    using mutex_given_back[OF al(1) cpu cur(2) q m cur(1)[symmetric] _ tc p w[symmetric] refl] by auto
  moreover have "priority_of s 0x4000 = 2" "uxPriority c = 2" by (simp_all add: priority_of_def tc c_def)
  ultimately show ?thesis using al(1) by (intro exI[of _ s] exI[of _ s']) simp
qed

end
