(* ===== verification/Spiffs_File.thy ===== *)
theory Spiffs_File
  imports Os_Prelude
begin

unbundle bit_operations_syntax

text \<open>
  The file system calls of \<^verbatim>\<open>src/ffi/spiffs.c\<close> and \<^verbatim>\<open>esp_spiffs.c\<close>, with the layout of the flash memory
  that the macros of \<^verbatim>\<open>spiffs_nucleus.h\<close> and the values of \<^verbatim>\<open>spiffs.h\<close> give. The nucleus is not in the repository:
  each of its functions that is called is a field of the record \<open>nucleus\<close>; they share the state and have one of
  their own, of type \<open>'w\<close>. A signed 32-bit value is its bit pattern, read with \<open>sint\<close>. Locking expands to nothing.
\<close>

section \<open>Constants\<close>

definition SPIFFS_ERR_NOT_MOUNTED :: u32 where "SPIFFS_ERR_NOT_MOUNTED = - 10000"
definition SPIFFS_ERR_END_OF_OBJECT :: u32 where "SPIFFS_ERR_END_OF_OBJECT = - 10003"
definition SPIFFS_ERR_NOT_CONFIGURED :: u32 where "SPIFFS_ERR_NOT_CONFIGURED = - 10024"
definition SPIFFS_CONFIG_MAGIC :: u32 where "SPIFFS_CONFIG_MAGIC = 0x20090315"
definition SPIFFS_UNDEFINED_LEN :: u32 where "SPIFFS_UNDEFINED_LEN = - 1"
definition SPIFFS_OBJ_ID_IX_FLAG :: u16 where "SPIFFS_OBJ_ID_IX_FLAG = 0x8000"
definition SPIFFS_O_DIRECT :: u16 where "SPIFFS_O_DIRECT = push_bit 5 1"
definition SPIFFS_SEEK_SET :: int where "SPIFFS_SEEK_SET = 0"
definition SPIFFS_SEEK_CUR :: int where "SPIFFS_SEEK_CUR = 1"
definition SPIFFS_SEEK_END :: int where "SPIFFS_SEEK_END = 2"
definition SPIFFS_OP_T_OBJ_LU :: u8 where "SPIFFS_OP_T_OBJ_LU = 0"
definition SPIFFS_OP_T_OBJ_IX :: u8 where "SPIFFS_OP_T_OBJ_IX = 2"
definition SPIFFS_OP_C_READ :: u8 where "SPIFFS_OP_C_READ = push_bit 2 5"
definition SPIFFS_OBJ_NAME_LEN :: nat where "SPIFFS_OBJ_NAME_LEN = 32"

text \<open>Sizes of the packed structures: a page header, the two index headers, and a cache page's header.\<close>

definition sizeof_page_header :: u32 where "sizeof_page_header = 5"
definition sizeof_object_ix_header :: u32 where "sizeof_object_ix_header = 46"
definition sizeof_object_ix :: u32 where "sizeof_object_ix = 8"
definition sizeof_cache_page :: u32 where "sizeof_cache_page = 20"
definition sizeof_obj_id :: u32 where "sizeof_obj_id = 2"
definition sizeof_page_ix :: u32 where "sizeof_page_ix = 2"

section \<open>The layout\<close>

record layout =
  SPIFFS_CFG_PHYS_ADDR :: u32
  SPIFFS_CFG_LOG_PAGE_SZ :: u32
  SPIFFS_CFG_LOG_BLOCK_SZ :: u32

definition configured :: layout where
  "configured = \<lparr>SPIFFS_CFG_PHYS_ADDR = 0x200000, SPIFFS_CFG_LOG_PAGE_SZ = 0xFF, SPIFFS_CFG_LOG_BLOCK_SZ = 8192\<rparr>"

definition SPIFFS_PAGES_PER_BLOCK :: "layout \<Rightarrow> u32" where
  "SPIFFS_PAGES_PER_BLOCK L = SPIFFS_CFG_LOG_BLOCK_SZ L div SPIFFS_CFG_LOG_PAGE_SZ L"

definition SPIFFS_OBJ_LOOKUP_PAGES :: "layout \<Rightarrow> u32" where
  "SPIFFS_OBJ_LOOKUP_PAGES L = max 1 ((SPIFFS_PAGES_PER_BLOCK L * sizeof_obj_id) div SPIFFS_CFG_LOG_PAGE_SZ L)"

definition SPIFFS_BLOCK_TO_PADDR :: "layout \<Rightarrow> u32 \<Rightarrow> u32" where
  "SPIFFS_BLOCK_TO_PADDR L block = SPIFFS_CFG_PHYS_ADDR L + block * SPIFFS_CFG_LOG_BLOCK_SZ L"

definition SPIFFS_PAGE_TO_PADDR :: "layout \<Rightarrow> u32 \<Rightarrow> u32" where
  "SPIFFS_PAGE_TO_PADDR L page = SPIFFS_CFG_PHYS_ADDR L + page * SPIFFS_CFG_LOG_PAGE_SZ L"

definition SPIFFS_BLOCK_FOR_PAGE :: "layout \<Rightarrow> u32 \<Rightarrow> u32" where
  "SPIFFS_BLOCK_FOR_PAGE L page = page div SPIFFS_PAGES_PER_BLOCK L"

definition SPIFFS_OBJ_LOOKUP_ENTRY_FOR_PAGE :: "layout \<Rightarrow> u32 \<Rightarrow> u32" where
  "SPIFFS_OBJ_LOOKUP_ENTRY_FOR_PAGE L page = page mod SPIFFS_PAGES_PER_BLOCK L - SPIFFS_OBJ_LOOKUP_PAGES L"

definition SPIFFS_DATA_PAGE_SIZE :: "layout \<Rightarrow> u32" where
  "SPIFFS_DATA_PAGE_SIZE L = SPIFFS_CFG_LOG_PAGE_SZ L - sizeof_page_header"

definition SPIFFS_OBJ_HDR_IX_LEN :: "layout \<Rightarrow> u32" where
  "SPIFFS_OBJ_HDR_IX_LEN L = (SPIFFS_CFG_LOG_PAGE_SZ L - sizeof_object_ix_header) div sizeof_page_ix"

definition SPIFFS_OBJ_IX_LEN :: "layout \<Rightarrow> u32" where
  "SPIFFS_OBJ_IX_LEN L = (SPIFFS_CFG_LOG_PAGE_SZ L - sizeof_object_ix) div sizeof_page_ix"

definition SPIFFS_OBJ_IX_ENTRY_SPAN_IX :: "layout \<Rightarrow> u32 \<Rightarrow> u32" where
  "SPIFFS_OBJ_IX_ENTRY_SPAN_IX L spix =
     (if spix < SPIFFS_OBJ_HDR_IX_LEN L then 0
      else 1 + (spix - SPIFFS_OBJ_HDR_IX_LEN L) div SPIFFS_OBJ_IX_LEN L)"

definition SPIFFS_CACHE_PAGE_SIZE :: "layout \<Rightarrow> u32" where
  "SPIFFS_CACHE_PAGE_SIZE L = sizeof_cache_page + SPIFFS_CFG_LOG_PAGE_SZ L"

section \<open>The state\<close>

record spiffs_fd =
  obj_id :: u16
  fd_size :: u32
  objix_hdr_pix :: u16
  cursor_objix_pix :: u16
  cursor_objix_spix :: u16
  fdoffset :: u32
  fd_flags :: u16
  cache_page :: u32

record spiffs_cache_page =
  cp_ix :: u8
  cp_offset :: u32
  cp_size :: u16

record 'w spiffs =
  err_code :: u32
  config_magic :: u32
  mounted :: u8
  fh_ix_offset :: u16
  fds :: "u32 \<rightharpoonup> spiffs_fd"
  cache_pages :: "u32 \<rightharpoonup> spiffs_cache_page"
  cpages :: u32
  flash :: 'w

record spiffs_stat =
  st_obj_id :: u16
  st_size :: u32
  st_type :: u8
  st_pix :: u16
  st_name :: "u8 list"

record 'w nucleus =
  spiffs_fd_get :: "u16 \<Rightarrow> 'w spiffs \<Rightarrow> u32 \<times> u32 \<times> 'w spiffs"
  spiffs_obj_lu_find_id_and_span :: "u16 \<Rightarrow> u16 \<Rightarrow> u16 \<Rightarrow> 'w spiffs \<Rightarrow> u32 \<times> u16 \<times> 'w spiffs"
  spiffs_cache_page_get_by_fd :: "u32 \<Rightarrow> 'w spiffs \<Rightarrow> u32 \<times> 'w spiffs"
  spiffs_cache_fd_release :: "u32 \<Rightarrow> 'w spiffs \<Rightarrow> 'w spiffs"
  spiffs_object_modify :: "u32 \<Rightarrow> u32 \<Rightarrow> u32 \<Rightarrow> u32 \<Rightarrow> 'w spiffs \<Rightarrow> u32 \<times> 'w spiffs"
  spiffs_object_append :: "u32 \<Rightarrow> u32 \<Rightarrow> u32 \<Rightarrow> u32 \<Rightarrow> 'w spiffs \<Rightarrow> u32 \<times> 'w spiffs"
  spiffs_phys_rd :: "u8 \<Rightarrow> u16 \<Rightarrow> u32 \<Rightarrow> u32 \<Rightarrow> 'w spiffs \<Rightarrow> u32 \<times> u8 list \<times> 'w spiffs"

definition upd_fd :: "u32 \<Rightarrow> (spiffs_fd \<Rightarrow> spiffs_fd) \<Rightarrow> 'w spiffs \<Rightarrow> 'w spiffs option" where
  "upd_fd a f s = do { d \<leftarrow> fds s a; Some (s\<lparr>fds := (fds s)(a \<mapsto> f d)\<rparr>) }"

definition failed :: "u32 \<Rightarrow> bool" where
  "failed res \<longleftrightarrow> sint res < 0"

text \<open>A file handle outside is the index of the descriptor plus an offset, 0 being no file.\<close>

definition SPIFFS_FH_UNOFFS :: "u16 \<Rightarrow> 'w spiffs \<Rightarrow> u16" where
  "SPIFFS_FH_UNOFFS fh s = (if fh \<noteq> 0 then fh - fh_ix_offset s else 0)"

definition SPIFFS_FH_OFFS :: "u16 \<Rightarrow> 'w spiffs \<Rightarrow> u16" where
  "SPIFFS_FH_OFFS fh s = (if fh \<noteq> 0 then fh + fh_ix_offset s else 0)"

definition api_check_res :: "u32 \<Rightarrow> 'w spiffs \<Rightarrow> u32 \<times> 'w spiffs" where
  "api_check_res res s = (res, s\<lparr>err_code := res\<rparr>)"

section \<open>Writing back the cache\<close>

definition min_i32 :: "u32 \<Rightarrow> u32 \<Rightarrow> u32" where
  "min_i32 a b = (if sint a < sint b then a else b)"

definition hydro_append :: "'w nucleus \<Rightarrow> u32 \<Rightarrow> u32 \<Rightarrow> u32 \<Rightarrow> u32 \<Rightarrow> u32 \<Rightarrow> 'w spiffs \<Rightarrow> u32 \<times> 'w spiffs" where
  "hydro_append N fd buf offset remaining len s =
     (if sint remaining > 0
      then let (res, s1) = spiffs_object_append N fd offset buf remaining s
           in if failed res then (res, s1) else (len, s1)
      else (len, s))"

definition spiffs_hydro_write :: "'w nucleus \<Rightarrow> u32 \<Rightarrow> u32 \<Rightarrow> u32 \<Rightarrow> u32 \<Rightarrow> 'w spiffs \<Rightarrow> (u32 \<times> 'w spiffs) option" where
  "spiffs_hydro_write N fd buf offset len s =
     do {
       d \<leftarrow> fds s fd;
       Some (if fd_size d \<noteq> SPIFFS_UNDEFINED_LEN \<and> offset < fd_size d
             then let m_len = min_i32 (fd_size d - offset) len;
                      (res, s1) = spiffs_object_modify N fd offset buf m_len s
                  in if failed res then (res, s1)
                     else hydro_append N fd (buf + m_len) (offset + m_len) (len - m_len) len s1
             else hydro_append N fd buf offset len len s)
     }"

definition spiffs_get_cache_page :: "layout \<Rightarrow> u8 \<Rightarrow> 'w spiffs \<Rightarrow> u32" where
  "spiffs_get_cache_page L ix s = cpages s + ucast ix * SPIFFS_CACHE_PAGE_SIZE L + sizeof_cache_page"

definition spiffs_fflush_cache :: "layout \<Rightarrow> 'w nucleus \<Rightarrow> u16 \<Rightarrow> 'w spiffs \<Rightarrow> (u32 \<times> 'w spiffs) option" where
  "spiffs_fflush_cache L N fh s =
     (let (res, fd, s1) = spiffs_fd_get N fh s in
      if failed res then Some (api_check_res res s1)
      else do {
        d \<leftarrow> fds s1 fd;
        (if fd_flags d AND SPIFFS_O_DIRECT = 0
         then do {
           s2 \<leftarrow> (if cache_page d = 0
                  then let (p, s') = spiffs_cache_page_get_by_fd N fd s1 in upd_fd fd (\<lambda>d. d\<lparr>cache_page := p\<rparr>) s'
                  else Some s1);
           d2 \<leftarrow> fds s2 fd;
           (if cache_page d2 \<noteq> 0
            then do {
              c \<leftarrow> cache_pages s2 (cache_page d2);
              (res, s3) \<leftarrow> spiffs_hydro_write N fd (spiffs_get_cache_page L (cp_ix c) s2) (cp_offset c)
                             (ucast (cp_size c)) s2;
              let s4 = (if failed res then s3\<lparr>err_code := res\<rparr> else s3);
              d4 \<leftarrow> fds s4 fd;
              Some (res, spiffs_cache_fd_release N (cache_page d4) s4)
            }
            else Some (res, s2))
         }
         else Some (res, s1))
      })"

section \<open>Status\<close>

definition le_u16 :: "u8 list \<Rightarrow> nat \<Rightarrow> u16" where
  "le_u16 bs i = ucast (bs ! i) OR push_bit 8 (ucast (bs ! Suc i))"

definition le_u32 :: "u8 list \<Rightarrow> nat \<Rightarrow> u32" where
  "le_u32 bs i = ucast (bs ! i) OR push_bit 8 (ucast (bs ! (i + 1)))
     OR push_bit 16 (ucast (bs ! (i + 2))) OR push_bit 24 (ucast (bs ! (i + 3)))"

text \<open>\<open>strncpy\<close>: up to the terminating zero, then zeros.\<close>

definition strncpy_bytes :: "u8 list \<Rightarrow> nat \<Rightarrow> u8 list" where
  "strncpy_bytes bs n = (let cs = takeWhile (\<lambda>b. b \<noteq> 0) (take n bs) in cs @ replicate (n - length cs) 0)"

text \<open>The object header: an eight byte page header, the size, the type and the name. A failed read leaves the status as it was.\<close>

definition spiffs_stat_pix :: "layout \<Rightarrow> 'w nucleus \<Rightarrow> u16 \<Rightarrow> u16 \<Rightarrow> spiffs_stat \<Rightarrow> 'w spiffs
    \<Rightarrow> u32 \<times> spiffs_stat \<times> 'w spiffs" where
  "spiffs_stat_pix L N pix fh st s =
     (let (res, hdr, s1) = spiffs_phys_rd N (SPIFFS_OP_T_OBJ_IX OR SPIFFS_OP_C_READ) fh
            (SPIFFS_PAGE_TO_PADDR L (ucast pix)) sizeof_object_ix_header s in
      if failed res then (res, st, s1\<lparr>err_code := res\<rparr>)
      else
        let obj_id_addr = SPIFFS_BLOCK_TO_PADDR L (SPIFFS_BLOCK_FOR_PAGE L (ucast pix))
              + SPIFFS_OBJ_LOOKUP_ENTRY_FOR_PAGE L (ucast pix) * sizeof_obj_id;
            (res2, ob, s2) = spiffs_phys_rd N (SPIFFS_OP_T_OBJ_LU OR SPIFFS_OP_C_READ) fh
              obj_id_addr sizeof_obj_id s1 in
        if failed res2 then (res2, st, s2\<lparr>err_code := res2\<rparr>)
        else
          let sz = le_u32 hdr 8 in
          (res2, \<lparr>st_obj_id = le_u16 ob 0 AND NOT SPIFFS_OBJ_ID_IX_FLAG,
             st_size = (if sz = SPIFFS_UNDEFINED_LEN then 0 else sz), st_type = hdr ! 12, st_pix = pix,
             st_name = strncpy_bytes (drop 13 hdr) SPIFFS_OBJ_NAME_LEN\<rparr>, s2))"

definition SPIFFS_fstat :: "layout \<Rightarrow> 'w nucleus \<Rightarrow> u16 \<Rightarrow> spiffs_stat \<Rightarrow> 'w spiffs
    \<Rightarrow> (u32 \<times> spiffs_stat \<times> 'w spiffs) option" where
  "SPIFFS_fstat L N file_handle stat s =
     (if config_magic s \<noteq> SPIFFS_CONFIG_MAGIC
      then Some (SPIFFS_ERR_NOT_CONFIGURED, stat, s\<lparr>err_code := SPIFFS_ERR_NOT_CONFIGURED\<rparr>)
      else if mounted s = 0
      then Some (SPIFFS_ERR_NOT_MOUNTED, stat, s\<lparr>err_code := SPIFFS_ERR_NOT_MOUNTED\<rparr>)
      else
        let fh = SPIFFS_FH_UNOFFS file_handle s;
            (res, fd, s1) = spiffs_fd_get N fh s in
        if failed res then Some (res, stat, s1\<lparr>err_code := res\<rparr>)
        else do {
          (_, s2) \<leftarrow> spiffs_fflush_cache L N fh s1;
          d \<leftarrow> fds s2 fd;
          Some (spiffs_stat_pix L N (objix_hdr_pix d) fh stat s2)
        })"

section \<open>Seeking\<close>

definition seek_target :: "u32 \<Rightarrow> int \<Rightarrow> spiffs_fd \<Rightarrow> u32" where
  "seek_target offs whence d =
     (if whence = SPIFFS_SEEK_CUR then fdoffset d + offs
      else if whence = SPIFFS_SEEK_END
      then (if fd_size d = SPIFFS_UNDEFINED_LEN then 0 else fd_size d) + offs
      else offs)"

definition past_end :: "u32 \<Rightarrow> spiffs_fd \<Rightarrow> bool" where
  "past_end offs d \<longleftrightarrow> sint offs > sint (fd_size d) \<and> SPIFFS_UNDEFINED_LEN \<noteq> fd_size d"

definition index_span :: "layout \<Rightarrow> u32 \<Rightarrow> u16" where
  "index_span L offs =
     (let data_spix = (ucast (offs div SPIFFS_DATA_PAGE_SIZE L) :: u16)
      in ucast (SPIFFS_OBJ_IX_ENTRY_SPAN_IX L (ucast data_spix)))"

definition SPIFFS_lseek :: "layout \<Rightarrow> 'w nucleus \<Rightarrow> u16 \<Rightarrow> u32 \<Rightarrow> int \<Rightarrow> 'w spiffs \<Rightarrow> (u32 \<times> 'w spiffs) option" where
  "SPIFFS_lseek L N file_handle offs_in whence s =
     (if config_magic s \<noteq> SPIFFS_CONFIG_MAGIC then Some (api_check_res SPIFFS_ERR_NOT_CONFIGURED s)
      else if mounted s = 0 then Some (api_check_res SPIFFS_ERR_NOT_MOUNTED s)
      else
        let fh = SPIFFS_FH_UNOFFS file_handle s;
            (res, fd, s1) = spiffs_fd_get N fh s in
        if failed res then Some (api_check_res res s1)
        else do {
          (_, s2) \<leftarrow> spiffs_fflush_cache L N fh s1;
          d \<leftarrow> fds s2 fd;
          let offs = seek_target offs_in whence d;
          (if past_end offs d then Some (api_check_res SPIFFS_ERR_END_OF_OBJECT s2)
           else
             let spix = index_span L offs in
             if cursor_objix_spix d \<noteq> spix
             then
               let (res2, pix, s3) = spiffs_obj_lu_find_id_and_span N (obj_id d OR SPIFFS_OBJ_ID_IX_FLAG) spix 0 s2 in
               if failed res2 then Some (api_check_res res2 s3)
               else do {
                 s4 \<leftarrow> upd_fd fd (\<lambda>d. d\<lparr>cursor_objix_spix := spix, cursor_objix_pix := pix, fdoffset := offs\<rparr>) s3;
                 Some (offs, s4)
               }
             else do {
               s4 \<leftarrow> upd_fd fd (\<lambda>d. d\<lparr>fdoffset := offs\<rparr>) s2;
               Some (offs, s4)
             })
        })"

section \<open>The system calls: esp_spiffs.c\<close>

text \<open>The descriptor is cut to 16 bits. The status on the stack starts with what is there, \<open>garbage\<close>.\<close>

definition fstat_r :: "layout \<Rightarrow> 'w nucleus \<Rightarrow> spiffs_stat \<Rightarrow> u32 \<Rightarrow> 'w spiffs \<Rightarrow> (u32 \<times> u32 \<times> 'w spiffs) option" where
  "fstat_r L N garbage fd s =
     do { (result, st, s1) \<leftarrow> SPIFFS_fstat L N (ucast fd) garbage s; Some (result, st_size st, s1) }"

definition lseek_r :: "layout \<Rightarrow> 'w nucleus \<Rightarrow> u32 \<Rightarrow> u32 \<Rightarrow> int \<Rightarrow> 'w spiffs \<Rightarrow> (u32 \<times> 'w spiffs) option" where
  "lseek_r L N fd offset whence s = SPIFFS_lseek L N (ucast fd) offset whence s"

section \<open>Buffers\<close>

definition sizeof_fd :: u32 where "sizeof_fd = 44"
definition sizeof_cache :: u32 where "sizeof_cache = 20"

definition SPIFFS_buffer_bytes_for_filedescs :: "u32 \<Rightarrow> u32" where
  "SPIFFS_buffer_bytes_for_filedescs num_descs = num_descs * sizeof_fd"

definition SPIFFS_buffer_bytes_for_cache :: "layout \<Rightarrow> u32 \<Rightarrow> u32" where
  "SPIFFS_buffer_bytes_for_cache L num_pages = sizeof_cache + num_pages * (sizeof_cache_page + SPIFFS_CFG_LOG_PAGE_SZ L)"

end
