(* ===== verification/Spiffs_Properties.thy ===== *)
theory Spiffs_Properties
  imports Spiffs_File
begin

unbundle bit_operations_syntax

text \<open>
  What the file system calls promise: where seeking goes, that cached writes reach the file, and what
  the configured page size means for the layout.
\<close>

section \<open>The layout\<close>

lemma configured_sizes:
  "SPIFFS_PAGES_PER_BLOCK configured = 32" "SPIFFS_OBJ_LOOKUP_PAGES configured = 1"
  "SPIFFS_DATA_PAGE_SIZE configured = 250" "SPIFFS_OBJ_HDR_IX_LEN configured = 104"
  "SPIFFS_OBJ_IX_LEN configured = 123"
  by (simp_all add: configured_def SPIFFS_PAGES_PER_BLOCK_def SPIFFS_OBJ_LOOKUP_PAGES_def SPIFFS_DATA_PAGE_SIZE_def
      SPIFFS_OBJ_HDR_IX_LEN_def SPIFFS_OBJ_IX_LEN_def sizeof_obj_id_def sizeof_page_header_def
      sizeof_object_ix_header_def sizeof_object_ix_def sizeof_page_ix_def)

text \<open>
  Pages of 255 bytes do not fill a block of 8192: page 33 is a data page of block 1 by its number, but its
  first bytes lie in the lookup page at the start of that block.
\<close>

lemma page_33_in_lookup_page:
  "SPIFFS_BLOCK_FOR_PAGE configured 33 = 1" "SPIFFS_OBJ_LOOKUP_ENTRY_FOR_PAGE configured 33 = 0"
  "SPIFFS_BLOCK_TO_PADDR configured 1 < SPIFFS_PAGE_TO_PADDR configured 33"
  "SPIFFS_PAGE_TO_PADDR configured 33 < SPIFFS_BLOCK_TO_PADDR configured 1 + SPIFFS_CFG_LOG_PAGE_SZ configured"
  by (simp_all add: SPIFFS_BLOCK_FOR_PAGE_def SPIFFS_OBJ_LOOKUP_ENTRY_FOR_PAGE_def configured_sizes
      SPIFFS_BLOCK_TO_PADDR_def SPIFFS_PAGE_TO_PADDR_def) (simp_all add: configured_def word_less_nat_alt)

section \<open>Seeking\<close>

text \<open>
  Whatever seeking answers, either it left an error code, or the descriptor stands at the answered offset, on
  the index page that belongs to that offset.
\<close>

lemma seek_result:
  assumes "SPIFFS_lseek L N fh offs whence s = Some (r, s')"
  shows "err_code s' = r \<or>
    (\<exists>d. fds s' (fst (snd (spiffs_fd_get N (SPIFFS_FH_UNOFFS fh s) s))) = Some d
       \<and> fdoffset d = r \<and> cursor_objix_spix d = index_span L r)"
  using assms
  by (auto simp: SPIFFS_lseek_def api_check_res_def upd_fd_def Let_def split: if_splits prod.splits option.splits
      bind_splits)

lemma seek_not_configured:
  "config_magic s \<noteq> SPIFFS_CONFIG_MAGIC \<Longrightarrow>
   SPIFFS_lseek L N fh offs whence s = Some (SPIFFS_ERR_NOT_CONFIGURED, s\<lparr>err_code := SPIFFS_ERR_NOT_CONFIGURED\<rparr>)"
  by (simp add: SPIFFS_lseek_def api_check_res_def)

section \<open>Writing to the object\<close>

text \<open>The bytes in memory at an address.\<close>

definition bytes_at :: "(u32 \<Rightarrow> u8) \<Rightarrow> u32 \<Rightarrow> nat \<Rightarrow> u8 list" where
  "bytes_at mem a n = map (\<lambda>i. mem (a + of_nat i)) [0..<n]"

lemma length_bytes_at [simp]: "length (bytes_at mem a n) = n"
  by (simp add: bytes_at_def)

lemma bytes_at_0 [simp]: "bytes_at mem a 0 = []"
  by (simp add: bytes_at_def)

lemma bytes_at_add: "bytes_at mem a (m + n) = bytes_at mem a m @ bytes_at mem (a + of_nat m) n"
  by (rule nth_equalityI) (auto simp: bytes_at_def nth_append algebra_simps of_nat_diff)

definition overwrite :: "nat \<Rightarrow> u8 list \<Rightarrow> u8 list \<Rightarrow> u8 list" where
  "overwrite k bs f = take k f @ bs @ drop (k + length bs) f"

lemma overwrite_append:
  assumes "k + length bs = length f"
  shows "overwrite k bs f @ cs = overwrite k (bs @ cs) f"
  using assms by (simp add: overwrite_def)

lemma overwrite_end: "overwrite (length f) bs f = f @ bs"
  by (simp add: overwrite_def)

text \<open>
  What the nucleus documents of its two writers, for an abstraction \<open>file\<close> that reads the object's content
  from the state: a success of \<open>spiffs_object_modify\<close> inside the object replaces bytes, and a success of
  \<open>spiffs_object_append\<close> at its end adds bytes.
\<close>

definition modify_law :: "'w nucleus \<Rightarrow> (u32 \<Rightarrow> u8) \<Rightarrow> u32 \<Rightarrow> ('w spiffs \<Rightarrow> u8 list) \<Rightarrow> bool" where
  "modify_law N mem fd file \<longleftrightarrow> (\<forall>offset buf len s res s'.
     spiffs_object_modify N fd offset buf len s = (res, s') \<longrightarrow> \<not> failed res \<longrightarrow>
     unat offset + unat len \<le> length (file s) \<longrightarrow>
     file s' = overwrite (unat offset) (bytes_at mem buf (unat len)) (file s))"

definition append_law :: "'w nucleus \<Rightarrow> (u32 \<Rightarrow> u8) \<Rightarrow> u32 \<Rightarrow> ('w spiffs \<Rightarrow> u8 list) \<Rightarrow> bool" where
  "append_law N mem fd file \<longleftrightarrow> (\<forall>offset buf len s res s'.
     spiffs_object_append N fd offset buf len s = (res, s') \<longrightarrow> \<not> failed res \<longrightarrow>
     unat offset = length (file s) \<longrightarrow> file s' = file s @ bytes_at mem buf (unat len))"

text \<open>The descriptor knows the size of the object; of one that has no content yet it may be undefined.\<close>

definition size_known :: "spiffs_fd \<Rightarrow> u8 list \<Rightarrow> bool" where
  "size_known d f \<longleftrightarrow> length f < 2 ^ 31 \<and>
     (fd_size d = of_nat (length f) \<or> f = [] \<and> fd_size d = SPIFFS_UNDEFINED_LEN)"

lemma small_size_defined: "length f < 2 ^ 31 \<Longrightarrow> (of_nat (length f) :: u32) \<noteq> - 1"
  using unat_of_nat32[of "length f"] by (auto simp: unsigned_minus_1_eq_mask mask_eq_exp_minus_1)

lemma unat_min_i32:
  assumes "unat a < 2 ^ 31" "unat b < 2 ^ 31"
  shows "unat (min_i32 a b) = min (unat a) (unat b)"
  unfolding min_i32_def sint_unat_small[OF assms(1)] sint_unat_small[OF assms(2)] of_nat_less_iff min_def by auto

lemma hydro_append_file:
  assumes law: "append_law N mem fd file" and small: "unat remaining < 2 ^ 31"
    and at_end: "unat offset = length (file s)"
  shows "\<exists>res s'. hydro_append N fd buf offset remaining len s = (res, s')
    \<and> (failed res \<or> res = len \<and> file s' = file s @ bytes_at mem buf (unat remaining))"
proof (cases "remaining = 0")
  case True
  then show ?thesis by (simp add: hydro_append_def)
next
  case False
  then have pos: "sint remaining > 0" 
    unfolding sint_unat_small[OF small] by (simp only: of_nat_0_less_iff unat_gt_0 word_neq_0_conv)
  obtain res s' where r: "spiffs_object_append N fd offset buf remaining s = (res, s')" by fastforce
  then show ?thesis using pos law at_end by (auto simp: hydro_append_def append_law_def)
qed

lemma hydro_write_file:
  assumes laws: "modify_law N mem fd file" "append_law N mem fd file"
    and d: "fds s fd = Some d" "size_known d (file s)"
    and where_: "unat offset \<le> length (file s)" and small: "unat offset + unat len < 2 ^ 31"
  shows "\<exists>res s'. spiffs_hydro_write N fd buf offset len s = Some (res, s')
    \<and> (failed res \<or> res = len \<and> file s' = overwrite (unat offset) (bytes_at mem buf (unat len)) (file s))"
proof (cases "fd_size d \<noteq> SPIFFS_UNDEFINED_LEN \<and> offset < fd_size d")
  case False
  have at_end: "unat offset = length (file s)"
    using False d where_ small_size_defined[of "file s"]
    by (auto simp: size_known_def word_less_nat_alt unat_of_nat32 SPIFFS_UNDEFINED_LEN_def)
  show ?thesis
    using hydro_append_file[OF laws(2), of len offset s buf len] small at_end False d
    by (auto simp: spiffs_hydro_write_def overwrite_end overwrite_end[of "file s", folded at_end])
next
  case True
  let ?m = "min_i32 (fd_size d - offset) len"
  have size: "unat (fd_size d) = length (file s)" "length (file s) < 2 ^ 31"
    using True d by (auto simp: size_known_def unat_of_nat32)
  have sub: "unat (fd_size d - offset) = length (file s) - unat offset"
    using True size by (simp add: unat_sub word_le_nat_alt word_less_nat_alt)
  have m: "unat ?m = min (length (file s) - unat offset) (unat len)"
    using sub size small by (subst unat_min_i32) simp_all
  obtain res s1 where r: "spiffs_object_modify N fd offset buf ?m s = (res, s1)" by fastforce
  show ?thesis
  proof (cases "failed res")
    case True
    then show ?thesis using \<open>fd_size d \<noteq> SPIFFS_UNDEFINED_LEN \<and> offset < fd_size d\<close> d r
      by (simp add: spiffs_hydro_write_def Let_def)
  next
    case ok: False
    have f1: "file s1 = overwrite (unat offset) (bytes_at mem buf (unat ?m)) (file s)"
      using laws(1) r ok m where_ unfolding modify_law_def by simp
    have w: "spiffs_hydro_write N fd buf offset len s = Some (hydro_append N fd (buf + ?m) (offset + ?m) (len - ?m) len s1)"
      using True d r ok by (simp add: spiffs_hydro_write_def Let_def)
    have rest: "unat (len - ?m) = unat len - unat ?m" using m by (simp add: unat_sub word_le_nat_alt)
    show ?thesis
    proof (cases "?m = len")
      case True
      then show ?thesis using w f1 by (simp add: hydro_append_def)
    next
      case False
      then have part: "unat ?m < unat len" "unat offset + unat ?m = length (file s)"
        using m where_ by (auto simp: word_unat_eq_iff min_def split: if_splits)
      have off: "unat (offset + ?m) = length (file s)"
        using part size(2) by (simp add: unat_word_ariths)
      have all: "bytes_at mem buf (unat len) = bytes_at mem buf (unat ?m) @ bytes_at mem (buf + ?m) (unat (len - ?m))"
        using bytes_at_add[of mem buf "unat ?m" "unat (len - ?m)"] part(1) rest by simp
      have len1: "length (file s1) = length (file s)"
        using f1 part(2) by (simp add: overwrite_def)
      show ?thesis
        using hydro_append_file[OF laws(2), of "len - ?m" "offset + ?m" s1 "buf + ?m" len]
          w f1 off len1 rest small all overwrite_append[of "unat offset" "bytes_at mem buf (unat ?m)" "file s"] part(2)
        by auto
    qed
  qed
qed

definition never_fails :: "'w nucleus \<Rightarrow> u32 \<Rightarrow> bool" where
  "never_fails N fd \<longleftrightarrow> (\<forall>offset buf len s. \<not> failed (fst (spiffs_object_modify N fd offset buf len s))
     \<and> \<not> failed (fst (spiffs_object_append N fd offset buf len s)))"

lemma never_failsD:
  assumes "never_fails N fd"
  shows "spiffs_object_modify N fd offset buf len s = (res, s') \<Longrightarrow> \<not> failed res"
    and "spiffs_object_append N fd offset buf len s = (res, s') \<Longrightarrow> \<not> failed res"
  using assms unfolding never_fails_def by (metis fst_conv)+

lemma hydro_append_succeeds: "never_fails N fd \<Longrightarrow> fst (hydro_append N fd buf offset remaining len s) = len"
  by (auto simp: hydro_append_def dest: never_failsD(2) split: prod.splits)

lemma hydro_write_succeeds:
  assumes "never_fails N fd" and "spiffs_hydro_write N fd buf offset len s = Some (res, s')"
  shows "res = len"
  using assms hydro_append_succeeds[OF assms(1)]
  by (auto simp: spiffs_hydro_write_def Let_def dest: never_failsD(1) split: prod.splits bind_splits if_splits)
    (metis fst_conv)+


text \<open>A nucleus that keeps the file as a byte list and has room for a hundred bytes.\<close>

definition byte_nucleus :: "(u32 \<Rightarrow> u8) \<Rightarrow> u8 list nucleus" where
  "byte_nucleus mem =
     \<lparr>spiffs_fd_get = (\<lambda>fh s. (0, 0x100, s)),
      spiffs_obj_lu_find_id_and_span = (\<lambda>_ _ _ s. (- 10002, 0, s)),
      spiffs_cache_page_get_by_fd = (\<lambda>_ s. (0, s)),
      spiffs_cache_fd_release = (\<lambda>_ s. s),
      spiffs_object_modify = (\<lambda>fd offset buf len s.
        (len, s\<lparr>flash := overwrite (unat offset) (bytes_at mem buf (unat len)) (flash s)\<rparr>)),
      spiffs_object_append = (\<lambda>fd offset buf len s.
        if length (flash s) + unat len > 100 then (- 10001, s)
        else (len, s\<lparr>flash := flash s @ bytes_at mem buf (unat len)\<rparr>)),
      spiffs_phys_rd = (\<lambda>_ _ _ len s. (0, replicate (unat len) 0, s))\<rparr>"

lemma byte_nucleus_laws: "modify_law (byte_nucleus mem) mem fd flash" "append_law (byte_nucleus mem) mem fd flash"
  by (auto simp: modify_law_def append_law_def byte_nucleus_def failed_def split: if_splits)

definition one_file :: "u8 list spiffs" where
  "one_file = \<lparr>err_code = 0, config_magic = SPIFFS_CONFIG_MAGIC, mounted = 1, fh_ix_offset = 0,
     fds = [0x100 \<mapsto> \<lparr>obj_id = 1, fd_size = 6, objix_hdr_pix = 3, cursor_objix_pix = 3, cursor_objix_spix = 0,
       fdoffset = 0, fd_flags = 0, cache_page = 0\<rparr>],
     cache_pages = Map.empty, cpages = 0, flash = [1, 2, 3, 4, 5, 6]\<rparr>"


section \<open>Pages, blocks and the index of an object\<close>

text \<open>
  The rest of the flash layout in \<^verbatim>\<open>src/ffi/spiffs_nucleus.h\<close>: pages, blocks, lookup entries and physical
  addresses, the entries of an object's index, and the checks of page headers. The flags of a header are
  active when they are 0, as flash memory is erased to ones.
\<close>

subsection \<open>Pages, blocks and addresses\<close>

definition SPIFFS_MAX_PAGES :: "u32 \<Rightarrow> layout \<Rightarrow> u32" where
  "SPIFFS_MAX_PAGES phys_size L = phys_size div SPIFFS_CFG_LOG_PAGE_SZ L"

definition SPIFFS_IS_LOOKUP_PAGE :: "layout \<Rightarrow> u32 \<Rightarrow> bool" where
  "SPIFFS_IS_LOOKUP_PAGE L pix \<longleftrightarrow> pix mod SPIFFS_PAGES_PER_BLOCK L < SPIFFS_OBJ_LOOKUP_PAGES L"

definition SPIFFS_OBJ_LOOKUP_MAX_ENTRIES :: "layout \<Rightarrow> u32" where
  "SPIFFS_OBJ_LOOKUP_MAX_ENTRIES L = SPIFFS_PAGES_PER_BLOCK L - SPIFFS_OBJ_LOOKUP_PAGES L"

definition SPIFFS_OBJ_LOOKUP_ENTRY_TO_PIX :: "layout \<Rightarrow> u32 \<Rightarrow> u32 \<Rightarrow> u32" where
  "SPIFFS_OBJ_LOOKUP_ENTRY_TO_PIX L block entry =
     block * SPIFFS_PAGES_PER_BLOCK L + (SPIFFS_OBJ_LOOKUP_PAGES L + entry)"

definition SPIFFS_OBJ_LOOKUP_ENTRY_TO_PADDR :: "layout \<Rightarrow> u32 \<Rightarrow> u32 \<Rightarrow> u32" where
  "SPIFFS_OBJ_LOOKUP_ENTRY_TO_PADDR L block entry =
     SPIFFS_BLOCK_TO_PADDR L block + (SPIFFS_OBJ_LOOKUP_PAGES L + entry) * SPIFFS_CFG_LOG_PAGE_SZ L"

definition SPIFFS_PADDR_TO_PAGE :: "layout \<Rightarrow> u32 \<Rightarrow> u32" where
  "SPIFFS_PADDR_TO_PAGE L addr = (addr - SPIFFS_CFG_PHYS_ADDR L) div SPIFFS_CFG_LOG_PAGE_SZ L"

definition SPIFFS_PADDR_TO_PAGE_OFFSET :: "layout \<Rightarrow> u32 \<Rightarrow> u32" where
  "SPIFFS_PADDR_TO_PAGE_OFFSET L addr = (addr - SPIFFS_CFG_PHYS_ADDR L) mod SPIFFS_CFG_LOG_PAGE_SZ L"

definition SPIFFS_PAGE_FOR_BLOCK :: "layout \<Rightarrow> u32 \<Rightarrow> u32" where
  "SPIFFS_PAGE_FOR_BLOCK L block = block * SPIFFS_PAGES_PER_BLOCK L"

definition SPIFFS_ERASE_COUNT_PADDR :: "layout \<Rightarrow> u32 \<Rightarrow> u32" where
  "SPIFFS_ERASE_COUNT_PADDR L bix =
     SPIFFS_BLOCK_TO_PADDR L bix + SPIFFS_OBJ_LOOKUP_PAGES L * SPIFFS_CFG_LOG_PAGE_SZ L - sizeof_obj_id"

definition SPIFFS_MAGIC_PADDR :: "layout \<Rightarrow> u32 \<Rightarrow> u32" where
  "SPIFFS_MAGIC_PADDR L bix =
     SPIFFS_BLOCK_TO_PADDR L bix + SPIFFS_OBJ_LOOKUP_PAGES L * SPIFFS_CFG_LOG_PAGE_SZ L - sizeof_obj_id * 2"

definition SPIFFS_CHECK_MAGIC_POSSIBLE :: "layout \<Rightarrow> bool" where
  "SPIFFS_CHECK_MAGIC_POSSIBLE L \<longleftrightarrow>
     (SPIFFS_OBJ_LOOKUP_MAX_ENTRIES L mod (SPIFFS_CFG_LOG_PAGE_SZ L div sizeof_obj_id)) * sizeof_obj_id
       \<le> SPIFFS_CFG_LOG_PAGE_SZ L - sizeof_obj_id * 2"

text \<open>The index of an object: the entry of a data page within its index page, and the first data page of an index page.\<close>

definition SPIFFS_OBJ_IX_ENTRY :: "layout \<Rightarrow> u32 \<Rightarrow> u32" where
  "SPIFFS_OBJ_IX_ENTRY L spix =
     (if spix < SPIFFS_OBJ_HDR_IX_LEN L then spix else (spix - SPIFFS_OBJ_HDR_IX_LEN L) mod SPIFFS_OBJ_IX_LEN L)"

definition SPIFFS_DATA_SPAN_IX_FOR_OBJ_IX_SPAN_IX :: "layout \<Rightarrow> u32 \<Rightarrow> u32" where
  "SPIFFS_DATA_SPAN_IX_FOR_OBJ_IX_SPAN_IX L spix =
     (if spix = 0 then 0 else SPIFFS_OBJ_HDR_IX_LEN L + (spix - 1) * SPIFFS_OBJ_IX_LEN L)"

subsection \<open>Checks of page headers\<close>

record spiffs_page_header =
  ph_obj_id :: u16
  ph_span_ix :: u16
  ph_flags :: u8

definition SPIFFS_PH_FLAG_USED :: u8 where "SPIFFS_PH_FLAG_USED = push_bit 0 1"
definition SPIFFS_PH_FLAG_FINAL :: u8 where "SPIFFS_PH_FLAG_FINAL = push_bit 1 1"
definition SPIFFS_PH_FLAG_INDEX :: u8 where "SPIFFS_PH_FLAG_INDEX = push_bit 2 1"
definition SPIFFS_PH_FLAG_DELET :: u8 where "SPIFFS_PH_FLAG_DELET = push_bit 7 1"

definition SPIFFS_ERR_DELETED :: u32 where "SPIFFS_ERR_DELETED = - 10004"
definition SPIFFS_ERR_NOT_FINALIZED :: u32 where "SPIFFS_ERR_NOT_FINALIZED = - 10005"
definition SPIFFS_ERR_NOT_INDEX :: u32 where "SPIFFS_ERR_NOT_INDEX = - 10006"
definition SPIFFS_ERR_IS_INDEX :: u32 where "SPIFFS_ERR_IS_INDEX = - 10011"
definition SPIFFS_ERR_IS_FREE :: u32 where "SPIFFS_ERR_IS_FREE = - 10012"
definition SPIFFS_ERR_INDEX_SPAN_MISMATCH :: u32 where "SPIFFS_ERR_INDEX_SPAN_MISMATCH = - 10013"
definition SPIFFS_ERR_DATA_SPAN_MISMATCH :: u32 where "SPIFFS_ERR_DATA_SPAN_MISMATCH = - 10014"

text \<open>The checks return an error from the function that uses them, or go on, which is \<open>None\<close>.\<close>

definition SPIFFS_VALIDATE_OBJIX :: "spiffs_page_header \<Rightarrow> u16 \<Rightarrow> u16 \<Rightarrow> u32 option" where
  "SPIFFS_VALIDATE_OBJIX ph objid spix =
     (if ph_flags ph AND SPIFFS_PH_FLAG_USED \<noteq> 0 then Some SPIFFS_ERR_IS_FREE
      else if ph_flags ph AND SPIFFS_PH_FLAG_DELET = 0 then Some SPIFFS_ERR_DELETED
      else if ph_flags ph AND SPIFFS_PH_FLAG_FINAL \<noteq> 0 then Some SPIFFS_ERR_NOT_FINALIZED
      else if ph_flags ph AND SPIFFS_PH_FLAG_INDEX \<noteq> 0 then Some SPIFFS_ERR_NOT_INDEX
      else if objid AND SPIFFS_OBJ_ID_IX_FLAG = 0 then Some SPIFFS_ERR_NOT_INDEX
      else if ph_span_ix ph \<noteq> spix then Some SPIFFS_ERR_INDEX_SPAN_MISMATCH
      else None)"

definition SPIFFS_VALIDATE_DATA :: "spiffs_page_header \<Rightarrow> u16 \<Rightarrow> u16 \<Rightarrow> u32 option" where
  "SPIFFS_VALIDATE_DATA ph objid spix =
     (if ph_flags ph AND SPIFFS_PH_FLAG_USED \<noteq> 0 then Some SPIFFS_ERR_IS_FREE
      else if ph_flags ph AND SPIFFS_PH_FLAG_DELET = 0 then Some SPIFFS_ERR_DELETED
      else if ph_flags ph AND SPIFFS_PH_FLAG_FINAL \<noteq> 0 then Some SPIFFS_ERR_NOT_FINALIZED
      else if ph_flags ph AND SPIFFS_PH_FLAG_INDEX = 0 then Some SPIFFS_ERR_IS_INDEX
      else if objid AND SPIFFS_OBJ_ID_IX_FLAG \<noteq> 0 then Some SPIFFS_ERR_IS_INDEX
      else if ph_span_ix ph \<noteq> spix then Some SPIFFS_ERR_DATA_SPAN_MISMATCH
      else None)"

subsection \<open>Properties\<close>

text \<open>No page is both, and an erased page is neither.\<close>

lemma page_kinds_exclude:
  "SPIFFS_VALIDATE_OBJIX ph i sp = None \<Longrightarrow> SPIFFS_VALIDATE_DATA ph j sp' = Some SPIFFS_ERR_IS_INDEX"
  "SPIFFS_VALIDATE_DATA ph j sp' = None \<Longrightarrow> SPIFFS_VALIDATE_OBJIX ph i sp = Some SPIFFS_ERR_NOT_INDEX"
  "ph_flags ph = 0xff \<Longrightarrow> SPIFFS_VALIDATE_OBJIX ph i sp = Some SPIFFS_ERR_IS_FREE
    \<and> SPIFFS_VALIDATE_DATA ph j sp' = Some SPIFFS_ERR_IS_FREE"
  by (auto simp: SPIFFS_VALIDATE_OBJIX_def SPIFFS_VALIDATE_DATA_def SPIFFS_PH_FLAG_USED_def split: if_splits)

lemma word_div_mod: "a div b * b + a mod b = a" for a b :: u32
  by (rule div_mult_mod_eq)

text \<open>A page is found again from its block and its entry in the lookup pages.\<close>

lemma lookup_entry_round_trip:
  "SPIFFS_OBJ_LOOKUP_ENTRY_TO_PIX L (SPIFFS_BLOCK_FOR_PAGE L pix) (SPIFFS_OBJ_LOOKUP_ENTRY_FOR_PAGE L pix) = pix"
  using word_div_mod[of pix "SPIFFS_PAGES_PER_BLOCK L"]
  by (simp add: SPIFFS_OBJ_LOOKUP_ENTRY_TO_PIX_def SPIFFS_BLOCK_FOR_PAGE_def SPIFFS_OBJ_LOOKUP_ENTRY_FOR_PAGE_def)

lemma page_addr_round_trip:
  assumes "unat page * unat (SPIFFS_CFG_LOG_PAGE_SZ L) + unat off < 2 ^ 32" and "off < SPIFFS_CFG_LOG_PAGE_SZ L"
  shows "SPIFFS_PADDR_TO_PAGE L (SPIFFS_PAGE_TO_PADDR L page + off) = page"
    and "SPIFFS_PADDR_TO_PAGE_OFFSET L (SPIFFS_PAGE_TO_PADDR L page + off) = off"
proof -
  let ?z = "SPIFFS_CFG_LOG_PAGE_SZ L"
  have d: "SPIFFS_PAGE_TO_PADDR L page + off - SPIFFS_CFG_PHYS_ADDR L = page * ?z + off"
    by (simp add: SPIFFS_PAGE_TO_PADDR_def)
  have u: "unat (page * ?z + off) = unat page * unat ?z + unat off"
    using assms(1) by (simp add: unat_word_ariths mod_simps)
  have o: "unat off < unat ?z" using assms(2) by (simp add: word_less_nat_alt)
  have "unat ((page * ?z + off) div ?z) = unat page" "unat ((page * ?z + off) mod ?z) = unat off"
    using o by (simp_all add: unat_div_distrib unat_mod_distrib u)
  then show "SPIFFS_PADDR_TO_PAGE L (SPIFFS_PAGE_TO_PADDR L page + off) = page"
    "SPIFFS_PADDR_TO_PAGE_OFFSET L (SPIFFS_PAGE_TO_PADDR L page + off) = off"
    unfolding SPIFFS_PADDR_TO_PAGE_def SPIFFS_PADDR_TO_PAGE_OFFSET_def d by (simp_all add: word_unat_eq_iff)
qed

text \<open>
  The two ways to the address of a page agree when blocks consist of whole pages; with the configured
  page size they do not, and the addresses of block 1 on are apart.
\<close>

lemma entry_addr:
  "SPIFFS_PAGES_PER_BLOCK L * SPIFFS_CFG_LOG_PAGE_SZ L = SPIFFS_CFG_LOG_BLOCK_SZ L \<Longrightarrow>
   SPIFFS_OBJ_LOOKUP_ENTRY_TO_PADDR L block entry = SPIFFS_PAGE_TO_PADDR L (SPIFFS_OBJ_LOOKUP_ENTRY_TO_PIX L block entry)"
  by (simp add: SPIFFS_OBJ_LOOKUP_ENTRY_TO_PADDR_def SPIFFS_PAGE_TO_PADDR_def SPIFFS_OBJ_LOOKUP_ENTRY_TO_PIX_def
    SPIFFS_BLOCK_TO_PADDR_def algebra_simps flip: mult.assoc)

lemma configured_entry_addr_apart:
  "SPIFFS_OBJ_LOOKUP_ENTRY_TO_PADDR configured 1 0 \<noteq> SPIFFS_PAGE_TO_PADDR configured (SPIFFS_OBJ_LOOKUP_ENTRY_TO_PIX configured 1 0)"
  by (simp add: SPIFFS_OBJ_LOOKUP_ENTRY_TO_PADDR_def SPIFFS_PAGE_TO_PADDR_def SPIFFS_OBJ_LOOKUP_ENTRY_TO_PIX_def
    SPIFFS_BLOCK_TO_PADDR_def configured_def SPIFFS_PAGES_PER_BLOCK_def)

text \<open>The last two entries of the lookup pages hold the magic number and the erase count, and are free for them.\<close>

lemma magic_and_count:
  "SPIFFS_ERASE_COUNT_PADDR L bix = SPIFFS_MAGIC_PADDR L bix + sizeof_obj_id"
  "SPIFFS_CHECK_MAGIC_POSSIBLE configured"
  by (simp_all add: SPIFFS_ERASE_COUNT_PADDR_def SPIFFS_MAGIC_PADDR_def SPIFFS_CHECK_MAGIC_POSSIBLE_def configured_def
    SPIFFS_OBJ_LOOKUP_MAX_ENTRIES_def SPIFFS_PAGES_PER_BLOCK_def SPIFFS_OBJ_LOOKUP_PAGES_def sizeof_obj_id_def)

text \<open>
  The index of an object is a partition of its data pages: every data page has its place in exactly one index
  page, inside that page's table.
\<close>

theorem index_entry_round_trip:
  assumes "2 \<le> SPIFFS_OBJ_IX_LEN L"
  shows "SPIFFS_DATA_SPAN_IX_FOR_OBJ_IX_SPAN_IX L (SPIFFS_OBJ_IX_ENTRY_SPAN_IX L spix) + SPIFFS_OBJ_IX_ENTRY L spix = spix
    \<and> SPIFFS_OBJ_IX_ENTRY L spix
        < (if SPIFFS_OBJ_IX_ENTRY_SPAN_IX L spix = 0 then SPIFFS_OBJ_HDR_IX_LEN L else SPIFFS_OBJ_IX_LEN L)"
proof (cases "spix < SPIFFS_OBJ_HDR_IX_LEN L")
  case True
  then show ?thesis
    by (simp add: SPIFFS_DATA_SPAN_IX_FOR_OBJ_IX_SPAN_IX_def SPIFFS_OBJ_IX_ENTRY_SPAN_IX_def SPIFFS_OBJ_IX_ENTRY_def)
next
  case False
  let ?d = "spix - SPIFFS_OBJ_HDR_IX_LEN L" and ?n = "SPIFFS_OBJ_IX_LEN L"
  have "unat (?d div ?n) < 2 ^ 31"
  proof -
    have "unat (?d div ?n) \<le> unat ?d div 2"
      using assms by (simp add: unat_div_distrib word_le_nat_alt div_le_mono2)
    moreover have "unat ?d < 2 ^ 32" using unsigned_less[of ?d] by simp
    ultimately show ?thesis by simp
  qed
  then have "unat (1 + ?d div ?n) = 1 + unat (?d div ?n)" by (simp add: unat_word_ariths)
  then have z: "1 + ?d div ?n \<noteq> 0" by (metis add_is_0 one_neq_zero unat_0)
  have "?d mod ?n < ?n" using assms by (simp add: word_less_nat_alt unat_mod_distrib word_le_nat_alt)
  then show ?thesis using False z word_div_mod[of ?d ?n]
    by (simp add: SPIFFS_DATA_SPAN_IX_FOR_OBJ_IX_SPAN_IX_def SPIFFS_OBJ_IX_ENTRY_SPAN_IX_def SPIFFS_OBJ_IX_ENTRY_def
      add.assoc)
qed

end
