(* ===== verification/Core_Services.thy ===== *)
theory Core_Services
  imports Newlib_Properties
begin

unbundle bit_operations_syntax

text \<open>
  Small services: the statistics of the C library's heap (\<^verbatim>\<open>src/ffi/os/mallinfo.c\<close>) and the free memory that
  \<^verbatim>\<open>src/ffi/os/port.c\<close> derives from them, and the rest of \<^verbatim>\<open>src/ffi/core/misc.c\<close>: clock, console, pins and
  the reason of the last reset. The allocator itself is the C library's; its free list is read from memory.
\<close>

section \<open>Heap statistics: mallinfo.c\<close>

record FreeListEntry =
  fr_size :: u32
  fr_next :: u32

record MallInfo =
  arena :: u32
  ordblks :: u32
  smblks :: u32
  hblks :: u32
  hblkhd :: u32
  usmblks :: u32
  fsmblks :: u32
  uordblks :: u32
  fordblks :: u32
  keepcost :: u32

definition zero_info :: MallInfo where
  "zero_info = \<lparr>arena = 0, ordblks = 0, smblks = 0, hblks = 0, hblkhd = 0, usmblks = 0, fsmblks = 0,
     uordblks = 0, fordblks = 0, keepcost = 0\<rparr>"

text \<open>\<open>MALLOC_DIRECTION\<close> is 1: a block is at the end when the heap ends where the block does.\<close>

partial_function (option) free_list_walk ::
  "(u32 \<Rightarrow> FreeListEntry option) \<Rightarrow> u32 \<Rightarrow> u32 \<Rightarrow> u32 \<Rightarrow> u32 \<Rightarrow> u32 \<Rightarrow> (u32 \<times> u32 \<times> u32) option" where
  "free_list_walk entries malloc_end fr free_size free_blocks keep =
     (if fr = 0 then Some (free_size, free_blocks, keep)
      else do {
        e \<leftarrow> entries fr;
        free_list_walk entries malloc_end (fr_next e) (free_size + fr_size e) (free_blocks + 1)
          (if fr_next e = 0 \<and> fr + fr_size e = malloc_end then fr_size e else keep)
      })"

definition mallinfo :: "(u32 \<Rightarrow> FreeListEntry option) \<Rightarrow> u32 \<Rightarrow> u32 \<Rightarrow> u32 \<Rightarrow> MallInfo option" where
  "mallinfo entries malloc_start malloc_end malloc_freelist =
     do {
       (free_size, free_blocks, keep) \<leftarrow> free_list_walk entries malloc_end malloc_freelist 0 0 0;
       let total_size = malloc_end - malloc_start;
       Some (zero_info\<lparr>keepcost := keep, arena := total_size, fordblks := free_size,
         uordblks := total_size - free_size, ordblks := free_blocks\<rparr>)
     }"

text \<open>The stack pointer register is what \<open>SP\<close> reads before the scheduler starts.\<close>

definition xPortGetFreeHeapSize ::
  "(u32 \<Rightarrow> FreeListEntry option) \<Rightarrow> u32 \<Rightarrow> u32 \<Rightarrow> u32 \<Rightarrow> u32 \<Rightarrow> u32 \<Rightarrow> 'w sys \<Rightarrow> (u32 \<times> 'w sys) option" where
  "xPortGetFreeHeapSize entries malloc_start malloc_end malloc_freelist heap_start sp_reg s =
     do {
       mi \<leftarrow> mallinfo entries malloc_start malloc_end malloc_freelist;
       (brk_val, s1) \<leftarrow> sbrk_r heap_start sp_reg 0 s;
       let sp = (if supervisor_sp s1 = 0 then sp_reg else supervisor_sp s1);
       Some (sp - brk_val + fordblks mi, s1)
     }"

section \<open>Clock, console, pins and reset reason: misc.c\<close>

definition os_update_cpu_frequency :: "u32 \<Rightarrow> u32 \<Rightarrow> u32" where
  "os_update_cpu_frequency freq cpu_freq = freq"

definition os_install_putc1 :: "u32 \<Rightarrow> u32 \<Rightarrow> u32" where
  "os_install_putc1 p putc1 = p"

text \<open>Before a function is installed the pointer is null, and calling it faults.\<close>

definition os_putc :: "(u32 \<Rightarrow> u8 \<Rightarrow> 'w \<Rightarrow> 'w) \<Rightarrow> u8 \<Rightarrow> u32 \<Rightarrow> 'w \<Rightarrow> 'w option" where
  "os_putc call c putc1 w = (if putc1 = 0 then None else Some (call putc1 c w))"

datatype gpio_reg = OUT_SET | OUT_CLEAR | ENABLE_OUT_SET | ENABLE_OUT_CLEAR

record gpio =
  OUT :: u32
  ENABLE_OUT :: u32

text \<open>The set and clear registers change bits of the main register, as \<^verbatim>\<open>gpio_regs.h\<close> describes.\<close>

fun gpio_write :: "gpio_reg \<Rightarrow> u32 \<Rightarrow> gpio \<Rightarrow> gpio" where
  "gpio_write OUT_SET v g = g\<lparr>OUT := OUT g OR v\<rparr>"
| "gpio_write OUT_CLEAR v g = g\<lparr>OUT := OUT g AND NOT v\<rparr>"
| "gpio_write ENABLE_OUT_SET v g = g\<lparr>ENABLE_OUT := ENABLE_OUT g OR v\<rparr>"
| "gpio_write ENABLE_OUT_CLEAR v g = g\<lparr>ENABLE_OUT := ENABLE_OUT g AND NOT v\<rparr>"

definition gpio_output_set :: "u32 \<Rightarrow> u32 \<Rightarrow> u32 \<Rightarrow> u32 \<Rightarrow> gpio \<Rightarrow> gpio" where
  "gpio_output_set set_mask clear_mask enable_mask disable_mask g =
     gpio_write ENABLE_OUT_CLEAR disable_mask (gpio_write ENABLE_OUT_SET enable_mask
       (gpio_write OUT_CLEAR clear_mask (gpio_write OUT_SET set_mask g)))"

text \<open>\<open>reason2 k\<close> is what the \<open>k\<close>th read of the second register gives.\<close>

definition RTC_RESET_REASON0_BIT21 :: u32 where "RTC_RESET_REASON0_BIT21 = push_bit 21 1"

definition reset_code1 :: "u32 \<Rightarrow> u32" where "reset_code1 regbits = drop_bit 0 regbits AND 0xf"
definition reset_code2 :: "u32 \<Rightarrow> u32" where "reset_code2 regbits = drop_bit 8 regbits AND 0x3f"

definition rtc_get_reset_reason :: "u32 \<Rightarrow> (nat \<Rightarrow> u32) \<Rightarrow> u32 \<Rightarrow> u8 \<times> u32" where
  "rtc_get_reset_reason reason1 reason2 reason0 =
     (let reason = (ucast (reset_code1 reason1) :: u8);
          reason' = (if reason = 5
                     then if reset_code2 (reason2 0) = 1 then 6
                          else if reset_code2 (reason2 1) \<noteq> 8 then 0 else reason
                     else reason)
      in (reason', reason0 AND NOT RTC_RESET_REASON0_BIT21))"

lemma pin_levels:
  "OUT (gpio_output_set sm cm em dm g) = (OUT g OR sm) AND NOT cm"
  "ENABLE_OUT (gpio_output_set sm cm em dm g) = (ENABLE_OUT g OR em) AND NOT dm"
  by (simp_all add: gpio_output_set_def)

lemma reset_reason_watchdog:
  assumes "\<And>k. reason2 k = r2"
  shows "fst (rtc_get_reset_reason r1 reason2 r0) =
    (let c = (ucast (r1 AND 0xf) :: u8) in
     if c \<noteq> 5 then c else if reset_code2 r2 = 1 then 6 else if reset_code2 r2 = 8 then 5 else 0)"
  using assms by (simp add: rtc_get_reset_reason_def reset_code1_def Let_def)

section \<open>The sums over the free list\<close>

text \<open>The entries of the list that starts at an address, in order, with their addresses.\<close>

fun free_list :: "(u32 \<Rightarrow> FreeListEntry option) \<Rightarrow> u32 \<Rightarrow> (u32 \<times> u32) list \<Rightarrow> bool" where
  "free_list entries p [] \<longleftrightarrow> p = 0"
| "free_list entries p ((a, n) # xs) \<longleftrightarrow>
     p = a \<and> a \<noteq> 0 \<and>
     (case entries a of None \<Rightarrow> False | Some e \<Rightarrow> fr_size e = n \<and> free_list entries (fr_next e) xs)"

definition last_at_end :: "u32 \<Rightarrow> (u32 \<times> u32) list \<Rightarrow> u32" where
  "last_at_end malloc_end xs =
     (if xs \<noteq> [] \<and> fst (last xs) + snd (last xs) = malloc_end then snd (last xs) else 0)"

lemma free_list_nil_iff: "free_list entries p xs \<Longrightarrow> p = 0 \<longleftrightarrow> xs = []"
  by (cases xs) auto

lemma free_list_walk_sums:
  assumes "free_list entries p xs"
  shows "free_list_walk entries e p f b keep =
    Some (f + sum_list (map snd xs), b + of_nat (length xs), if xs = [] then keep else
      if fst (last xs) + snd (last xs) = e then snd (last xs) else keep)"
  using assms
proof (induction xs arbitrary: p f b keep)
  case Nil
  then show ?case by (subst free_list_walk.simps) simp
next
  case (Cons x xs)
  obtain a n where x: "x = (a, n)" by fastforce
  obtain en where en: "p = a" "a \<noteq> 0" "entries a = Some en" "fr_size en = n" "free_list entries (fr_next en) xs"
    using Cons.prems x by (auto split: option.splits)
  then show ?case
    using free_list_nil_iff[OF en(5)] x
    by (subst free_list_walk.simps) (simp add: Cons.IH[OF en(5)] add.assoc)
qed

lemma mallinfo_sums:
  assumes "free_list entries p xs"
  shows "mallinfo entries m e p = Some (zero_info\<lparr>keepcost := last_at_end e xs, arena := e - m,
    fordblks := sum_list (map snd xs), uordblks := e - m - sum_list (map snd xs), ordblks := of_nat (length xs)\<rparr>)"
  by (simp add: mallinfo_def free_list_walk_sums[OF assms] last_at_end_def Let_def)

text \<open>
  The free memory that the port reports and the bytes that the C library has in use make up everything
  between the start of the heap and the stack, whatever the free list holds: with the heap's end where the
  library's ends, the report ends, leaves the heap where it is, and the two numbers sum to that distance.
\<close>

theorem free_and_used:
  assumes "free_list entries p xs" and "brk start s = e"
    and "supervisor_sp s \<noteq> 0" and "sint e < sint (supervisor_sp s)"
  shows "\<exists>free s' info. xPortGetFreeHeapSize entries m e p start sp_reg s = Some (free, s')
    \<and> mallinfo entries m e p = Some info \<and> free + uordblks info = supervisor_sp s - m
    \<and> brk start s' = e \<and> ordblks info = of_nat (length xs) \<and> keepcost info = last_at_end e xs"
proof -
  let ?s = "if heap_end s = 0 then s\<lparr>heap_end := start\<rparr> else s"
  have range: "- (2 ^ 31) \<le> sint e" "sint e < 2 ^ 31"
    using sint_ge[of e] sint_lt[of e] by simp_all
  have "sbrk_r start sp_reg 0 s = Some (e, ?s)"
    using assms(2-4) range by (auto simp: sbrk_r_def brk_def Let_def)
  then show ?thesis
    using assms(2,3) mallinfo_sums[OF assms(1), of m e]
    by (auto simp: xPortGetFreeHeapSize_def Let_def brk_def)
qed

theorem free_and_used_witness:
  "\<exists>free s' info. xPortGetFreeHeapSize
      (map_of [(0x3fff0100, \<lparr>fr_size = 0x40, fr_next = 0x3fff0300\<rparr>), (0x3fff0300, \<lparr>fr_size = 0x100, fr_next = 0\<rparr>)])
      0x3fff0000 0x3fff0400 0x3fff0100 0x3fff0400 0 demo_sys = Some (free, s')
    \<and> mallinfo
      (map_of [(0x3fff0100, \<lparr>fr_size = 0x40, fr_next = 0x3fff0300\<rparr>), (0x3fff0300, \<lparr>fr_size = 0x100, fr_next = 0\<rparr>)])
      0x3fff0000 0x3fff0400 0x3fff0100 = Some info
    \<and> free + uordblks info = 0x10000 \<and> ordblks info = 2 \<and> keepcost info = 0x100"
proof -
  let ?es = "map_of [(0x3fff0100, \<lparr>fr_size = 0x40, fr_next = 0x3fff0300\<rparr>), (0x3fff0300, \<lparr>fr_size = 0x100, fr_next = 0\<rparr>)]"
  have "free_list ?es 0x3fff0100 [(0x3fff0100, 0x40), (0x3fff0300, 0x100)]" by simp
  moreover have "brk 0x3fff0400 demo_sys = 0x3fff0400" "supervisor_sp demo_sys = 0x40000000"
    by (simp_all add: brk_def demo_sys_def)
  ultimately show ?thesis
    using free_and_used[of ?es "0x3fff0100" "[(0x3fff0100, 0x40), (0x3fff0300, 0x100)]" "0x3fff0400" demo_sys
      "0x3fff0400" "0x3fff0000" 0]
    by (auto simp: last_at_end_def)
qed

end
