(* ===== verification/Spec2Isabelle.thy ===== *)
theory Spec2Isabelle
  imports Os_List_Properties Os_Task_Properties Os_Task_Waiting Os_Queue_Properties Os_Semaphore
    Core_Words Core_Tick Lwip_Addr Lwip_Pbuf_Properties Lwip_Inet Lwip_Socket_Safety Lwip_Close Lwip_Stream_Properties
    Lwip_Tcp_Lists Lwip_Headers Lwip_Fdset
    Lwip_Heap_Properties Newlib_Properties Os_Mutex Os_Wait_Properties
    Os_Kernel_Properties Os_Mutex_Properties Spiffs_Properties Core_Services
begin

text \<open>
  A model of the ESP8266 development library in \<^verbatim>\<open>src/src/ffi\<close> (paths below are relative to it): the
  FreeRTOS kernel it is built on (\<^verbatim>\<open>os\<close>), the interrupt and tick code of the port (\<^verbatim>\<open>core\<close>), the application
  side of the lwIP network stack (\<^verbatim>\<open>lwip\<close>), the system calls of the C library (\<^verbatim>\<open>newlib\<close>) and small
  services. The theorems say what each part promises to its callers, and every assumption about code that
  is not in the repository is a named hypothesis.

  \<^bold>\<open>How the parts interact.\<close> The timer interrupt (\<^verbatim>\<open>core/interrupt.c\<close>) calls the kernel's tick
  (\<^verbatim>\<open>os/task.c\<close>), which moves tasks between the lists of \<^verbatim>\<open>os/list.c\<close> and asks for a context switch through the
  port's software interrupt. Queues, semaphores and mutexes (\<^verbatim>\<open>os/queue.c\<close>) store messages in memory and
  call the kernel to put a task on an event list, to wake one, and to lend a priority. The sockets
  (\<^verbatim>\<open>lwip/sockets.c\<close>) call the sequential interface (\<^verbatim>\<open>lwip/api.c\<close>), which exchanges packet buffers
  (\<^verbatim>\<open>lwip/pbuf.c\<close>) and messages with the TCP/IP thread of the vendor's library. All allocation ends in the C
  library, whose heap grows by \<open>sbrk\<close> (\<^verbatim>\<open>newlib/syscalls.c\<close>), or in lwIP's own heap (\<^verbatim>\<open>lwip/mem.c\<close>).

  \<^bold>\<open>Conventions.\<close> A machine integer is a word of its width and wraps. State is passed explicitly: the
  record \<open>os\<close> (Os_State) holds the kernel's lists, task control blocks, queues, scheduler variables,
  memory bytes and a log of heap calls; the record \<open>net\<close> (Lwip_State) holds packet buffers, connections,
  network buffers and sockets on top of it. A pointer is an address, and what it points to is found in a
  map, so two uses of one address are one object. \<open>None\<close> is a run without a result: a null or
  dangling pointer is followed, an assertion that aborts fails, or a loop does not end. Loops whose end
  depends on the data are \<open>partial_function (option)\<close>; no fuel is used anywhere, and each
  theorem about such a loop proves that it returns. \<open>configASSERT\<close> expands to nothing and
  has no counterpart; lwIP's assertions abort.

  \<^bold>\<open>Theories and code.\<close>

  \<^item> Os_Prelude: machine types of \<^verbatim>\<open>prelude.h\<close>, collections of rules, generic lemmas.
  \<^item> Os_List, Os_List_Refine, Os_List_Turns, Os_List_Interface, Os_List_Properties: the rings of
    \<^verbatim>\<open>os/list.c\<close> with their pointers, their refinement to sequences (\<open>lists_ok\<close>, \<open>list_items\<close>), the round-robin
    macro as a rotation, and the contract \<open>item_lists\<close> the scheduler uses, interpreted on the pointer code.
  \<^item> Os_State, Os_Task, Os_Task_Api, Os_Task_Create, Os_Task_Sync: the operations of \<^verbatim>\<open>os/task.c\<close> and the stack
    initialisation, critical sections and yields of \<^verbatim>\<open>os/port.c\<close>, one definition per function, with the
    switches the functions depend on in the record \<open>os_config\<close>; \<open>as_built\<close> is this repository's configuration.
    Os_Start: the start of the scheduler, the idle task and the port's tick setup.
  \<^item> Os_Task_Inv: the scheduler's invariant \<open>kernel_inv\<close>: every task is in exactly one state list and at most
    one event list, ready lists hold tasks of their priority, delayed lists are sorted by wake time
    on both sides of the wrap of the tick count. Os_Task_Moves, Os_Task_Wake, Os_Task_Run, Os_Task_Tick,
    Os_Task_Ticks, Os_Task_Block, Os_Task_Resume, Os_Task_New, Os_Task_Time and Os_Task_Waiting show
    what each operation does to it; Os_Task_Properties and Os_Wait_Properties hold the properties, on
    the concrete kernel of Os_Task_Demo.
  \<^item> Os_Kernel_Alive, Os_Kernel_Sync, Os_Kernel_Take, Os_Kernel_Run: the kernel as a whole, a step relation whose
    labels are the timer tick, the software interrupt, the calls of the running task and the calls of interrupts on
    queues, each with a condition on its caller, and the invariant \<open>kernel_alive\<close>; Os_Inherit is what changes of a
    task's priority do to the scheduler. Os_Kernel_Properties: the start establishes the invariant, every run keeps it,
    and no call in a run fails to return. Os_Mutex_Properties: priority inheritance between tasks.
  \<^item> Os_Queue, Os_Semaphore: \<^verbatim>\<open>os/queue.c\<close> and \<^verbatim>\<open>os/semaphore.h\<close>. Os_Queue_Ring abstracts the storage of a queue
    to its messages, Os_Queue_Fifo, Os_Queue_Block and Os_Queue_New follow the operations, Os_Queue_Interface
    states the contract \<open>bounded_fifo\<close> and interprets it on the code; Os_Queue_Properties and Os_Mutex hold
    the properties, on the queue of Os_Queue_Demo.
  \<^item> Core_Interrupt, Core_Tick, Core_Words, Core_Services: interrupt dispatch and the tick timer of
    \<^verbatim>\<open>core/interrupt.c\<close>, clock, busy waiting, console hook, pins and reset reason of \<^verbatim>\<open>core/misc.c\<close>, byte order of \<^verbatim>\<open>prelude.c\<close>, random bytes of
    \<^verbatim>\<open>hwrand.c\<close>, heap statistics of \<^verbatim>\<open>os/mallinfo.c\<close> and the free memory that \<^verbatim>\<open>os/port.c\<close> reports. Reads of a device are a stream, one value for each read.
  \<^item> Lwip_State, Lwip_Pbuf, Lwip_Netbuf, Lwip_Netconn, Lwip_Netconn_Data: packet buffers (\<^verbatim>\<open>lwip/pbuf.c\<close>),
    network buffers (\<^verbatim>\<open>lwip/netbuf.c\<close>), pools (\<^verbatim>\<open>lwip/memp.c\<close>) and the sequential interface (\<^verbatim>\<open>lwip/api.c\<close>). Lwip_Chain
    and Lwip_Pbuf_Properties read chains of buffers as lists of bytes with owners.
  \<^item> Lwip_Inet, Lwip_Addr: socket addresses and the text form of IPv4 addresses.
  \<^item> Lwip_Tcp, Lwip_Tcp_Lists, Lwip_Ip6, Lwip_Headers: what the headers of the protocol code compute
    themselves (\<^verbatim>\<open>lwip/priv/tcp.h\<close>, \<^verbatim>\<open>lwip/tcp.h\<close>, \<^verbatim>\<open>lwip/prot/*.h\<close>, \<^verbatim>\<open>lwip/ip_addr6.h\<close>, \<^verbatim>\<open>lwip/ip6_zone.h\<close>,
    \<^verbatim>\<open>lwip/ip_addr4.h\<close>): sequence numbers, header fields, flags and windows, acknowledgements, the linked
    lists of connections as lists of addresses, classes and zones of IPv6 addresses, and
    addresses of either version (\<^verbatim>\<open>lwip/ip_addr.h\<close>). Lwip_Fdset: the sets of \<open>select\<close> as sets, and the walk
    over control messages (\<^verbatim>\<open>lwip/sockets.h\<close>).
  \<^item> Lwip_Socket_Table, Lwip_Sockets, Lwip_Close, Lwip_Socket_Safety: \<^verbatim>\<open>lwip/sockets.c\<close>; Lwip_Stream, Lwip_Stream_Read
    and Lwip_Stream_Properties: a TCP socket refines a stream of bytes.
  \<^item> Lwip_Heap, Lwip_Heap_Blocks, Lwip_Heap_Ops, Lwip_Heap_Calls, Lwip_Heap_Client, Lwip_Heap_Run,
    Lwip_Heap_Properties: lwIP's own heap, refined to first fit on a list of blocks.
  \<^item> Newlib_Syscalls, Newlib_Properties: \<^verbatim>\<open>newlib/syscalls.c\<close> with the serial port,
    whose registers' fields (\<^verbatim>\<open>uart.h\<close>) are independent.
  \<^item> Spiffs_File, Spiffs_Properties: the calls of \<^verbatim>\<open>spiffs.c\<close> and \<^verbatim>\<open>esp_spiffs.c\<close> and the flash
    layout of \<^verbatim>\<open>spiffs_nucleus.h\<close>; writing back the cache refines overwriting a list of bytes.

  \<^bold>\<open>Assumptions about code outside.\<close> The allocator of the C library is a function of the state that returns an
  address or 0; properties that need it say that the block is new or large enough. The functions of the
  vendor's stack are the fields of the record \<open>ext\<close> (Lwip_Netbuf): \<open>mailbox_law\<close> says that a mailbox
  is a queue, \<open>quiet_law\<close> that an event callback and a window update leave the connections alone. A device that
  \<open>keeps_sending\<close> finds room in its transmit buffer again and again. \<open>timer_task_law\<close> says that creating the timer
  task succeeds and adds to what is there, \<open>modify_law\<close> and \<open>append_law\<close> what the file system's two writers do to a file. Each property that uses one has an instance in
  which a concrete function satisfies it.

  \<^bold>\<open>Bounds.\<close> Address arithmetic is modulo \<open>2 ^ 32\<close> and the hypotheses say which regions do not wrap. Priorities are
  below 15 (\<open>configMAX_PRIORITIES\<close>), and the tick properties hold for delays below \<open>2 ^ 32\<close> ticks at any tick count, across
  the wrap. The search for the top ready priority ends because some task is ready, the interrupt loop because every pass
  clears a bit, the packet loops because chains are finite, the heap's search because offsets grow.

  \<^bold>\<open>Not modelled.\<close> Assembly (stack switch at the first context switch, interrupt entry and exit) and what never
  returns (\<open>_exit\<close>, \<open>vAssertCalled\<close>); static allocation, memory protection, run-time statistics, thread local storage, co-routines,
  queue sets and the queue registry, which the configuration switches off; software timers, which have no source
  here; debugging output and statistics counters; the protocol code of lwIP, the wireless
  drivers and the file system's nucleus, which are binary or absent. The free lists of the memory pools are the
  C library's, since \<open>MEMP_MEM_MALLOC\<close> is on. Headers that only declare or set options contribute the values
  the modelled code uses.
\<close>

end
